(* ===== verification/Prelude.thy ===== *)
theory Prelude
  imports Main "HOL-Library.Word" "HOL-Library.Monad_Syntax" "HOL-Library.Signed_Division"
begin

text \<open>
  What the components of the firmware model share: the machine types of
  \<^verbatim>\<open>include/atcmd/at_types.h\<close>, bounds-checked access to C arrays (a read or a write
  outside the array is \<^term>\<open>None\<close>, never an unspecified value), C strings, and the
  ring-buffer arithmetic that both the serial driver (\<^verbatim>\<open>project/at_demo/serial.c\<close>) and the
  AT command queue (\<^verbatim>\<open>src/atcmd/at_queue.c\<close>) use.  The collection \<open>c_mem\<close> holds the
  facts about array access.
\<close>

named_theorems c_mem \<open>facts about bounds-checked array access\<close>

type_synonym u8 = "8 word"
type_synonym u16 = "16 word"
type_synonym u32 = "32 word"

section \<open>32-bit integers\<close>

lemma sint_of_int_small:
  assumes "- 2147483648 \<le> k" "k < 2147483648"
  shows "sint (word_of_int k :: u32) = k"
  using assms by (simp add: signed_of_int signed_take_bit_int_eq_self)

lemma sint_unat: "unat x < 2147483648 \<Longrightarrow> sint x = int (unat x)" for x :: u32
proof -
  assume "unat x < 2147483648"
  then have "- 2147483648 \<le> uint x" "uint x < 2147483648"
    unfolding uint_nat by linarith+
  from sint_of_int_small[OF this] show "sint x = int (unat x)" by simp
qed

lemma u32_less: "unat (x :: u32) < 2 ^ 32"
  using unsigned_less[of x] by simp

lemma u16_less: "unat (x :: u16) < 65536"
  using unsigned_less[of x] by simp

lemma u8_less: "unat (x :: u8) < 256"
  using unsigned_less[of x] by simp

lemma unat_plus: "unat x + unat y < 2 ^ 32 \<Longrightarrow> unat (x + y) = unat x + unat y" for x y :: u32
  by (simp add: unat_add_lem[THEN iffD1])

lemma unat_times: "unat x * unat y < 2 ^ 32 \<Longrightarrow> unat (x * y) = unat x * unat y" for x y :: u32
  by (simp add: unat_mult_lem[THEN iffD1])

lemma unat_of_nat32: "k < 2 ^ 32 \<Longrightarrow> unat (of_nat k :: u32) = k"
  by (simp add: unsigned_of_nat take_bit_nat_eq_self)

section \<open>C arrays with checked bounds\<close>

definition rd :: "'a list \<Rightarrow> nat \<Rightarrow> 'a option" where
  "rd xs i = (if i < length xs then Some (xs ! i) else None)"

definition wr :: "'a list \<Rightarrow> nat \<Rightarrow> 'a \<Rightarrow> 'a list option" where
  "wr xs i x = (if i < length xs then Some (xs[i := x]) else None)"

definition rd_block :: "'a list \<Rightarrow> nat \<Rightarrow> nat \<Rightarrow> 'a list option" where
  "rd_block xs i n = (if i + n \<le> length xs then Some (take n (drop i xs)) else None)"

definition wr_block :: "'a list \<Rightarrow> nat \<Rightarrow> 'a list \<Rightarrow> 'a list option" where
  "wr_block xs i ys =
     (if i + length ys \<le> length xs
      then Some (take i xs @ ys @ drop (i + length ys) xs) else None)"

lemma rd_Some [c_mem, simp]: "i < length xs \<Longrightarrow> rd xs i = Some (xs ! i)"
  by (simp add: rd_def)

lemma rd_eq_Some_iff [c_mem]: "rd xs i = Some x \<longleftrightarrow> i < length xs \<and> x = xs ! i"
  by (auto simp: rd_def)

lemma wr_Some [c_mem, simp]: "i < length xs \<Longrightarrow> wr xs i x = Some (xs[i := x])"
  by (simp add: wr_def)

lemma wr_block_single [c_mem]: "wr_block xs i [x] = wr xs i x"
  by (auto simp: wr_block_def wr_def upd_conv_take_nth_drop)

lemma wr_block_length [c_mem]: "wr_block xs i ys = Some zs \<Longrightarrow> length zs = length xs"
  by (auto simp: wr_block_def split: if_splits)

lemma wr_block_append [c_mem]:
  assumes "i + length ys + length zs \<le> length xs"
  shows "(case wr_block xs i ys of None \<Rightarrow> None | Some m \<Rightarrow> wr_block m (i + length ys) zs)
       = wr_block xs i (ys @ zs)"
  using assms by (simp add: wr_block_def ac_simps)

lemma rd_append [c_mem]: "rd (xs @ ys) (length xs + i) = rd ys i"
  by (simp add: rd_def nth_append)

lemma rd_append_0 [c_mem]: "rd (xs @ ys) (length xs) = rd ys 0"
  using rd_append[of xs ys 0] by simp

lemma rd_None [c_mem, simp]: "length xs \<le> i \<Longrightarrow> rd xs i = None"
  by (simp add: rd_def)

section \<open>C strings\<close>

text \<open>A string literal of the source as the bytes it denotes, without the terminating NUL.\<close>

definition cstr :: "string \<Rightarrow> u8 list" where
  "cstr s = map of_char s"

lemma length_cstr [simp]: "length (cstr s) = length s"
  by (simp add: cstr_def)

text \<open>The C string stored at the start of a memory area: the bytes before the first NUL.\<close>

definition c_string :: "u8 list \<Rightarrow> u8 list" where
  "c_string m = takeWhile (\<lambda>c. c \<noteq> 0) m"

lemma c_string_append_NUL [simp]: "0 \<notin> set s \<Longrightarrow> c_string (s @ 0 # r) = s"
  by (induction s) (auto simp: c_string_def)

section \<open>Ring buffers\<close>

text \<open>
  The contents of a ring buffer: \<open>n\<close> cells of \<open>buf\<close> from read index \<open>r\<close> on,
  wrapping at the end of the array.
\<close>

definition ring :: "'a list \<Rightarrow> nat \<Rightarrow> nat \<Rightarrow> 'a list" where
  "ring buf r n = map (\<lambda>k. buf ! ((r + k) mod length buf)) [0..<n]"

text \<open>The source's index step: increment and reset to 0 at the end.\<close>

definition ring_next :: "nat \<Rightarrow> nat \<Rightarrow> nat" where
  "ring_next N i = (if i + 1 \<ge> N then 0 else i + 1)"

lemma ring_next_mod: "i < N \<Longrightarrow> ring_next N i = (i + 1) mod N"
proof (cases "i + 1 = N")
  case True
  then show ?thesis by (simp add: ring_next_def)
next
  case False
  moreover assume "i < N"
  ultimately show ?thesis by (simp add: ring_next_def)
qed

lemma ring_next_less [simp]: "0 < N \<Longrightarrow> ring_next N i < N"
  by (simp add: ring_next_def)

lemma length_ring [simp]: "length (ring buf r n) = n"
  by (simp add: ring_def)

lemma ring_0 [simp]: "ring buf r 0 = []"
  by (simp add: ring_def)

lemma mod_add_eq_cancel:
  fixes r k n N :: nat
  assumes "(r + k) mod N = (r + n) mod N" "k < n" "n < N"
  shows False
proof -
  have "(r + n) - (r + k) = n - k" by simp
  moreover have "N dvd (r + n) - (r + k)"
    using assms(1) by (metis mod_eq_dvd_iff_nat add_le_cancel_left less_imp_le assms(2))
  ultimately have "N dvd n - k" by simp
  then show False using assms(2,3) by (auto dest!: dvd_imp_le)
qed

lemma ring_update_outside:
  assumes "n < length buf"
  shows "ring (buf[(r + n) mod length buf := x]) r n = ring buf r n"
proof -
  have "(r + k) mod length buf \<noteq> (r + n) mod length buf" if "k < n" for k
    using mod_add_eq_cancel[of r k "length buf" n] that assms by blast
  then show ?thesis
    by (auto simp: ring_def nth_list_update_neq[OF not_sym])
qed

lemma ring_push:
  assumes "n < length buf"
  shows "ring (buf[(r + n) mod length buf := x]) r (Suc n) = ring buf r n @ [x]"
proof -
  have "(r + n) mod length buf < length buf" using assms by (intro mod_less_divisor) linarith
  then show ?thesis
    using ring_update_outside[OF assms, of r x] by (simp add: ring_def)
qed

lemma ring_pop:
  assumes "r < length buf"
  shows "ring buf r (Suc n) = buf ! r # ring buf (ring_next (length buf) r) n"
proof -
  have "((r + 1) mod length buf + k) mod length buf = (r + Suc k) mod length buf" for k
    by (metis add_Suc_right add_Suc_shift Suc_eq_plus1 mod_add_left_eq)
  then have "map (\<lambda>k. buf ! ((r + Suc k) mod length buf)) [0..<n]
      = ring buf (ring_next (length buf) r) n"
    using assms by (simp add: ring_def ring_next_mod)
  moreover have "ring buf r (Suc n)
      = buf ! (r mod length buf) # map (\<lambda>k. buf ! ((r + Suc k) mod length buf)) [0..<n]"
    by (simp only: ring_def map_upt_Suc) simp
  ultimately show ?thesis using assms by simp
qed

lemma ring_hd: "r < length buf \<Longrightarrow> 0 < n \<Longrightarrow> ring buf r n = buf ! r # ring buf (ring_next (length buf) r) (n - 1)"
  using ring_pop[of r buf "n - 1"] by simp

section \<open>Values in memory\<close>

unbundle bit_operations_syntax

text \<open>The bytes of 16 and 32 bit values in memory order (the processor is little-endian).\<close>

definition le2 :: "u16 \<Rightarrow> u8 list" where
  "le2 w = [ucast w, ucast (drop_bit 8 w)]"

definition le4 :: "u32 \<Rightarrow> u8 list" where
  "le4 w = [ucast w, ucast (drop_bit 8 w), ucast (drop_bit 16 w), ucast (drop_bit 24 w)]"

definition of_le2 :: "u8 list \<Rightarrow> u16" where
  "of_le2 bs = ucast (bs ! 0) OR push_bit 8 (ucast (bs ! 1))"

definition of_le4 :: "u8 list \<Rightarrow> u32" where
  "of_le4 bs = ucast (bs ! 0) OR push_bit 8 (ucast (bs ! 1)) OR push_bit 16 (ucast (bs ! 2))
     OR push_bit 24 (ucast (bs ! 3))"

lemma of_le2_le2 [simp]: "of_le2 (le2 w @ bs) = w"
proof (rule bit_eqI)
  fix n
  assume "possible_bit TYPE(u16) n"
  then show "bit (of_le2 (le2 w @ bs)) n = bit w n"
    by (auto simp: of_le2_def le2_def bit_simps possible_bit_word)
qed

lemma of_le4_le4 [simp]: "of_le4 (le4 w @ bs) = w"
proof (rule bit_eqI)
  fix n
  assume "possible_bit TYPE(u32) n"
  then show "bit (of_le4 (le4 w @ bs)) n = bit w n"
    by (cases "n < 8"; cases "n < 16"; cases "n < 24") (simp_all add: of_le4_def le4_def bit_simps, auto)
qed

lemma length_le [simp]: "length (le2 w) = 2" "length (le4 v) = 4"
  by (simp_all add: le2_def le4_def)

end
