(* ===== verification/SerialPort.thy ===== *)
theory SerialPort
  imports Prelude
begin

text \<open>
  The UART driver of the demo firmware, \<^verbatim>\<open>project/at_demo/serial.c\<close>: an interrupt handler
  that cuts the received bytes into chunks of at most 32 bytes and stores them in a ring of 16
  chunks, and a reader that a counting semaphore wakes up.  The HAL (\<^verbatim>\<open>hal_uart.c\<close>) and the
  semaphore (\<^verbatim>\<open>os_semaphore.c\<close>) are modelled by what \<^verbatim>\<open>serial.c\<close> uses of them: the bytes the
  receive FIFO yields while the handler runs, the enabled flag of the receive interrupt, the
  bytes transmitted, and the semaphore's count.
\<close>

section \<open>Semaphore and UART, as the driver uses them\<close>

text \<open>
  A semaphore handle of \<^verbatim>\<open>os_semaphore.c\<close>: \<^term>\<open>None\<close> is an invalid handle, on which every
  operation returns \<open>OS_E_PARAM\<close>; otherwise the FreeRTOS count.  A wait that finds the count
  at 0 times out (the driver waits 10 ms); the count's limit \<open>0xffffffff\<close> is out of reach.
\<close>

type_synonym os_semaphore = "nat option"

fun OS_SemaphoreWait :: "os_semaphore \<Rightarrow> os_semaphore \<times> bool" where
  "OS_SemaphoreWait None = (None, False)"
| "OS_SemaphoreWait (Some 0) = (Some 0, False)"
| "OS_SemaphoreWait (Some (Suc n)) = (Some n, True)"

definition OS_SemaphoreRelease :: "os_semaphore \<Rightarrow> os_semaphore" where
  "OS_SemaphoreRelease sem = map_option Suc sem"

definition OS_SemaphoreDelete :: "os_semaphore \<Rightarrow> os_semaphore" where
  "OS_SemaphoreDelete sem = None"

text \<open>The part of \<open>UART_Private\<close> (\<^verbatim>\<open>hal_uart.c\<close>) the driver reaches.\<close>

record uart_private =
  up_baudRate :: int
  up_hwfc :: int
  up_rxReadyCallback :: bool

text \<open>All UARTs by id: the private data (\<^term>\<open>None\<close>: not initialised) and the bytes sent.\<close>

record hal_uart =
  hu_priv :: "nat \<rightharpoonup> uart_private"
  hu_tx :: "nat \<Rightarrow> u8 list"

text \<open>The allocation in \<open>HAL_UART_Init\<close> is taken to succeed.\<close>

definition HAL_UART_Init :: "hal_uart \<Rightarrow> nat \<Rightarrow> int \<Rightarrow> int \<Rightarrow> hal_uart" where
  "HAL_UART_Init h uartID baudrate hwfc =
     (case hu_priv h uartID of
        Some _ \<Rightarrow> h  \<comment> \<open>\<open>HAL_BUSY\<close>\<close>
      | None \<Rightarrow> h\<lparr>hu_priv := (hu_priv h)(uartID \<mapsto>
                   \<lparr>up_baudRate = baudrate, up_hwfc = hwfc, up_rxReadyCallback = False\<rparr>)\<rparr>)"

definition HAL_UART_DeInit :: "hal_uart \<Rightarrow> nat \<Rightarrow> hal_uart" where
  "HAL_UART_DeInit h uartID = h\<lparr>hu_priv := (hu_priv h)(uartID := None)\<rparr>"

definition HAL_UART_SetRxCallback :: "hal_uart \<Rightarrow> nat \<Rightarrow> bool \<Rightarrow> hal_uart" where
  "HAL_UART_SetRxCallback h uartID on =
     (case hu_priv h uartID of
        None \<Rightarrow> h
      | Some p \<Rightarrow> h\<lparr>hu_priv := (hu_priv h)(uartID \<mapsto> p\<lparr>up_rxReadyCallback := on\<rparr>)\<rparr>)"

definition HAL_UART_Transmit_Poll :: "hal_uart \<Rightarrow> nat \<Rightarrow> u8 list \<Rightarrow> hal_uart \<times> int" where
  "HAL_UART_Transmit_Poll h uartID bs =
     (if bs = [] then (h, -1)
      else case hu_priv h uartID of
             None \<Rightarrow> (h, -1)
           | Some _ \<Rightarrow> (h\<lparr>hu_tx := (hu_tx h)(uartID := hu_tx h uartID @ bs)\<rparr>, int (length bs)))"

section \<open>State\<close>

abbreviation SERIAL_CACHE_BUF_NUM :: nat where "SERIAL_CACHE_BUF_NUM \<equiv> 16"
abbreviation SERIAL_CACHE_BUF_SIZE :: nat where "SERIAL_CACHE_BUF_SIZE \<equiv> 32"

datatype serial_state = SERIAL_STATE_STOP | SERIAL_STATE_START | SERIAL_STATE_TERMINATE

text \<open>\<open>struct serial_priv\<close>; the fields of its \<open>cache\<close> member carry the prefix \<open>sc_\<close>.\<close>

record serial_priv =
  sp_uartID :: nat
  sp_state :: serial_state
  sp_cmd_sem :: os_semaphore
  sc_cnt :: nat
  sc_widx :: nat
  sc_ridx :: nat
  sc_len :: "nat list"
  sc_buf :: "u8 list list"

record serial_sys =
  ss_priv :: serial_priv
  ss_hal :: hal_uart

section \<open>The receive interrupt\<close>

text \<open>
  Publishing a chunk: the block \<open>cache.len[idx] = len; idx++; ... OS_SemaphoreRelease\<close>,
  which the handler contains twice.
\<close>

definition rx_publish :: "serial_priv \<Rightarrow> nat \<Rightarrow> nat \<Rightarrow> nat \<Rightarrow> serial_priv" where
  "rx_publish s idx len cnt =
     s\<lparr>sc_len := (sc_len s)[idx := len],
       sc_widx := ring_next SERIAL_CACHE_BUF_NUM idx,
       sc_cnt := cnt + 1,
       sp_cmd_sem := OS_SemaphoreRelease (sp_cmd_sem s)\<rparr>"

definition rx_store :: "serial_priv \<Rightarrow> nat \<Rightarrow> nat \<Rightarrow> u8 \<Rightarrow> serial_priv" where
  "rx_store s idx len d = s\<lparr>sc_buf := (sc_buf s)[idx := (sc_buf s ! idx)[len := d]]\<rparr>"

text \<open>
  The handler's \<open>while (1)\<close>.  The list holds the bytes that \<open>HAL_UART_GetRxData\<close>
  returns until \<open>HAL_UART_IsRxReady\<close> first says no.  When that happens with an empty
  chunk (\<open>len = 0\<close>) the source neither stores nor breaks: the handler stays in the loop
  and polls until another byte arrives, which is \<open>ISR_Spin\<close>.
\<close>

datatype isr_result =
    ISR_Return serial_priv
  | ISR_Spin serial_priv nat nat  \<comment> \<open>still polling, at \<open>idx\<close> and \<open>cnt\<close>\<close>

fun rx_loop :: "serial_priv \<Rightarrow> nat \<Rightarrow> nat \<Rightarrow> nat \<Rightarrow> u8 list \<Rightarrow> isr_result" where
  "rx_loop s idx len cnt [] =
     (if len > 0 then ISR_Return (rx_publish s idx len cnt) else ISR_Spin s idx cnt)"
| "rx_loop s idx len cnt (d # ds) =
     (let s1 = rx_store s idx len d; len1 = len + 1
      in if len1 \<ge> SERIAL_CACHE_BUF_SIZE
         then let s2 = rx_publish s1 idx len1 cnt; cnt2 = cnt + 1
              in if cnt2 \<ge> SERIAL_CACHE_BUF_NUM
                 then ISR_Return s2  \<comment> \<open>the remaining bytes are discarded\<close>
                 else rx_loop s2 (ring_next SERIAL_CACHE_BUF_NUM idx) 0 cnt2 ds
         else rx_loop s1 idx len1 cnt ds)"

definition serial_rx_callback :: "serial_priv \<Rightarrow> u8 list \<Rightarrow> isr_result" where
  "serial_rx_callback s rx =
     (if sc_cnt s < SERIAL_CACHE_BUF_NUM
      then rx_loop s (sc_widx s) 0 (sc_cnt s) rx
      else ISR_Return s)"

section \<open>Configuration, start and stop\<close>

text \<open>\<open>serial_config\<close> takes data bits, parity and stop bits and does not use them.\<close>

definition serial_config ::
  "hal_uart \<Rightarrow> nat \<Rightarrow> int \<Rightarrow> int \<Rightarrow> int \<Rightarrow> int \<Rightarrow> int \<Rightarrow> hal_uart \<times> int" where
  "serial_config h uart_id baudrate data_bits parity stop_bits hwfc =
     (HAL_UART_Init h uart_id baudrate hwfc, 0)"

text \<open>
  The state after \<open>memset(serial, 0, sizeof( *serial))\<close> and \<open>OS_SemaphoreCreate\<close>;
  \<open>sem_ok\<close> says whether the latter succeeds.
\<close>

definition serial_priv_zero :: "nat \<Rightarrow> bool \<Rightarrow> serial_priv" where
  "serial_priv_zero uart_id sem_ok =
     \<lparr>sp_uartID = uart_id, sp_state = SERIAL_STATE_STOP,
      sp_cmd_sem = (if sem_ok then Some 0 else None), sc_cnt = 0,
      sc_widx = 0, sc_ridx = 0, sc_len = replicate SERIAL_CACHE_BUF_NUM 0,
      sc_buf = replicate SERIAL_CACHE_BUF_NUM (replicate SERIAL_CACHE_BUF_SIZE 0)\<rparr>"

definition serial_init ::
  "bool \<Rightarrow> serial_sys \<Rightarrow> nat \<Rightarrow> int \<Rightarrow> int \<Rightarrow> int \<Rightarrow> int \<Rightarrow> int \<Rightarrow> serial_sys \<times> int" where
  "serial_init sem_ok ss uart_id baudrate data_bits parity stop_bits hwfc =
     (let h = fst (serial_config (ss_hal ss) uart_id baudrate data_bits parity stop_bits hwfc)
      in if sp_state (ss_priv ss) \<noteq> SERIAL_STATE_STOP
         then (ss\<lparr>ss_hal := h\<rparr>, -1)
         else (ss\<lparr>ss_hal := h, ss_priv := serial_priv_zero uart_id sem_ok\<rparr>,
               if sem_ok then 0 else -1))"

definition serial_deinit :: "serial_sys \<Rightarrow> nat \<Rightarrow> serial_sys \<times> int" where
  "serial_deinit ss uart_id =
     (ss\<lparr>ss_hal := HAL_UART_DeInit (ss_hal ss) uart_id,
         ss_priv := (ss_priv ss)\<lparr>sp_cmd_sem := OS_SemaphoreDelete (sp_cmd_sem (ss_priv ss))\<rparr>\<rparr>, 0)"

definition serial_start :: "serial_sys \<Rightarrow> serial_sys \<times> int" where
  "serial_start ss =
     (ss\<lparr>ss_hal := HAL_UART_SetRxCallback (ss_hal ss) (sp_uartID (ss_priv ss)) True,
         ss_priv := (ss_priv ss)\<lparr>sp_state := SERIAL_STATE_START\<rparr>\<rparr>, 0)"

definition serial_stop :: "serial_sys \<Rightarrow> serial_sys" where
  "serial_stop ss =
     ss\<lparr>ss_hal := HAL_UART_SetRxCallback (ss_hal ss) (sp_uartID (ss_priv ss)) False,
        ss_priv := (ss_priv ss)\<lparr>sp_state := SERIAL_STATE_STOP\<rparr>\<rparr>"

definition serial_disable :: "serial_sys \<Rightarrow> serial_sys" where
  "serial_disable ss =
     (if sp_state (ss_priv ss) = SERIAL_STATE_START
      then ss\<lparr>ss_hal := HAL_UART_SetRxCallback (ss_hal ss) (sp_uartID (ss_priv ss)) False\<rparr>
      else ss)"

definition serial_enable :: "serial_sys \<Rightarrow> serial_sys" where
  "serial_enable ss =
     (if sp_state (ss_priv ss) = SERIAL_STATE_START
      then ss\<lparr>ss_hal := HAL_UART_SetRxCallback (ss_hal ss) (sp_uartID (ss_priv ss)) True\<rparr>
      else ss)"

text \<open>\<^term>\<open>None\<close> is \<open>UART_INVALID_ID\<close>.\<close>

definition serial_get_uart_id :: "serial_sys \<Rightarrow> nat option" where
  "serial_get_uart_id ss =
     (if sp_state (ss_priv ss) = SERIAL_STATE_START then Some (sp_uartID (ss_priv ss)) else None)"

definition serial_write :: "serial_sys \<Rightarrow> u8 list \<Rightarrow> serial_sys \<times> int" where
  "serial_write ss bs =
     (let (h, rc) = HAL_UART_Transmit_Poll (ss_hal ss) (sp_uartID (ss_priv ss)) bs
      in (ss\<lparr>ss_hal := h\<rparr>, rc))"

section \<open>The reader\<close>

text \<open>
  \<open>serial_read\<close> is three atomic parts, since interrupts are disabled only around the
  accesses to \<open>cache.cnt\<close>: the wait with the count's snapshot, the copy of the oldest chunk
  with the update of \<open>ridx\<close>, and the decrement of \<open>cnt\<close>.
\<close>

definition serial_read_copy :: "serial_priv \<Rightarrow> int \<Rightarrow> int + (serial_priv \<times> u8 list)" where
  "serial_read_copy s bsize =
     (let idx = sc_ridx s; rlen = sc_len s ! idx
      in if int rlen > bsize then Inl (-1)  \<comment> \<open>buffer size is too small\<close>
         else Inr (s\<lparr>sc_ridx := ring_next SERIAL_CACHE_BUF_NUM idx\<rparr>,
                   take rlen (sc_buf s ! idx)))"

definition serial_read_commit :: "serial_priv \<Rightarrow> serial_priv" where
  "serial_read_commit s = s\<lparr>sc_cnt := sc_cnt s - 1\<rparr>"

text \<open>Result: the state, the return value and the bytes copied to the caller's buffer.\<close>

definition serial_read :: "serial_priv \<Rightarrow> int \<Rightarrow> serial_priv \<times> int \<times> u8 list" where
  "serial_read s bsize =
     (let (sem, ok) = OS_SemaphoreWait (sp_cmd_sem s); s1 = s\<lparr>sp_cmd_sem := sem\<rparr>
      in if \<not> ok \<or> sp_state s1 \<noteq> SERIAL_STATE_START then (s1, 0, [])
         else if sc_cnt s1 > 0
              then (case serial_read_copy s1 bsize of
                      Inl rc \<Rightarrow> (s1, rc, [])
                    | Inr (s2, data) \<Rightarrow> (serial_read_commit s2, int (length data), data))
              else (s1, -2, []))"

section \<open>Invariant and contents\<close>

definition serial_inv :: "serial_priv \<Rightarrow> bool" where
  "serial_inv s \<longleftrightarrow>
     length (sc_len s) = SERIAL_CACHE_BUF_NUM \<and>
     length (sc_buf s) = SERIAL_CACHE_BUF_NUM \<and>
     list_all (\<lambda>b. length b = SERIAL_CACHE_BUF_SIZE) (sc_buf s) \<and>
     list_all (\<lambda>l. l \<le> SERIAL_CACHE_BUF_SIZE) (sc_len s) \<and>
     sc_ridx s < SERIAL_CACHE_BUF_NUM \<and> sc_cnt s \<le> SERIAL_CACHE_BUF_NUM \<and>
     sc_widx s = (sc_ridx s + sc_cnt s) mod SERIAL_CACHE_BUF_NUM \<and>
     (case sp_cmd_sem s of None \<Rightarrow> True | Some n \<Rightarrow> n \<le> sc_cnt s)"

text \<open>The abstract state: the chunks not yet read, oldest first.\<close>

definition slots :: "serial_priv \<Rightarrow> u8 list list" where
  "slots s = map2 take (sc_len s) (sc_buf s)"

definition chunks :: "serial_priv \<Rightarrow> u8 list list" where
  "chunks s = ring (slots s) (sc_ridx s) (sc_cnt s)"

text \<open>What the handler adds: chunks of 32 bytes and a last shorter one, at most \<open>room\<close>.\<close>

fun deliver :: "nat \<Rightarrow> u8 list \<Rightarrow> u8 list \<Rightarrow> u8 list list" where
  "deliver room p [] = (if p = [] then [] else [p])"
| "deliver room p (d # ds) =
     (let p1 = p @ [d]
      in if length p1 \<ge> SERIAL_CACHE_BUF_SIZE
         then p1 # (if room \<le> 1 then [] else deliver (room - 1) [] ds)
         else deliver room p1 ds)"

lemma length_slots [simp]:
  "serial_inv s \<Longrightarrow> length (slots s) = SERIAL_CACHE_BUF_NUM"
  by (simp add: serial_inv_def slots_def)

section \<open>The receive interrupt keeps the invariant and appends what it received\<close>

lemma widx_outside:
  assumes "serial_inv s" "sc_cnt s < SERIAL_CACHE_BUF_NUM"
  shows "ring ((slots s)[sc_widx s := x]) (sc_ridx s) (sc_cnt s) = chunks s"
    and "ring ((slots s)[sc_widx s := x]) (sc_ridx s) (Suc (sc_cnt s)) = chunks s @ [x]"
proof -
  have w: "sc_widx s = (sc_ridx s + sc_cnt s) mod length (slots s)"
    using assms(1) by (simp add: serial_inv_def slots_def)
  have n: "sc_cnt s < length (slots s)" using assms by simp
  show "ring ((slots s)[sc_widx s := x]) (sc_ridx s) (sc_cnt s) = chunks s"
    unfolding w chunks_def by (rule ring_update_outside[OF n])
  show "ring ((slots s)[sc_widx s := x]) (sc_ridx s) (Suc (sc_cnt s)) = chunks s @ [x]"
    unfolding w chunks_def by (rule ring_push[OF n])
qed

lemma widx_less: "serial_inv s \<Longrightarrow> sc_widx s < SERIAL_CACHE_BUF_NUM"
  by (simp add: serial_inv_def)

lemma map2_take_update_buf:
  "i < length ls \<Longrightarrow> length bs = length ls \<Longrightarrow>
     map2 take ls (bs[i := b]) = (map2 take ls bs)[i := take (ls ! i) b]"
  by (rule nth_equalityI) (auto simp: nth_list_update)

lemma map2_take_update_len:
  "i < length ls \<Longrightarrow> length bs = length ls \<Longrightarrow>
     map2 take (ls[i := l]) bs = (map2 take ls bs)[i := take l (bs ! i)]"
  by (rule nth_equalityI) (auto simp: nth_list_update)

lemma rx_store_inv:
  assumes "serial_inv s" "sc_cnt s < SERIAL_CACHE_BUF_NUM"
  shows "serial_inv (rx_store s (sc_widx s) len d)"
    and "chunks (rx_store s (sc_widx s) len d) = chunks s"
proof -
  let ?s = "rx_store s (sc_widx s) len d"
  show "serial_inv ?s"
    using assms(1) by (auto simp: serial_inv_def rx_store_def list_all_length nth_list_update
        split: option.splits)
  have "slots ?s = (slots s)[sc_widx s :=
      take (sc_len s ! sc_widx s) ((sc_buf s ! sc_widx s)[len := d])]"
    using assms(1) widx_less[OF assms(1)]
    by (simp add: slots_def rx_store_def map2_take_update_buf serial_inv_def)
  then show "chunks ?s = chunks s"
    using widx_outside(1)[OF assms] by (simp add: chunks_def rx_store_def)
qed

lemma rx_publish_inv:
  assumes "serial_inv s" "sc_cnt s < SERIAL_CACHE_BUF_NUM" "len \<le> SERIAL_CACHE_BUF_SIZE"
  shows "serial_inv (rx_publish s (sc_widx s) len (sc_cnt s))"
    and "chunks (rx_publish s (sc_widx s) len (sc_cnt s))
           = chunks s @ [take len (sc_buf s ! sc_widx s)]"
proof -
  let ?s = "rx_publish s (sc_widx s) len (sc_cnt s)"
  have "ring_next SERIAL_CACHE_BUF_NUM (sc_widx s)
      = (sc_ridx s + (sc_cnt s + 1)) mod SERIAL_CACHE_BUF_NUM"
    using ring_next_mod[OF widx_less[OF assms(1)]] assms(1)
    by (simp add: serial_inv_def mod_add_left_eq mod_Suc_eq)
  then show "serial_inv ?s"
    using assms
    by (auto simp: serial_inv_def rx_publish_def list_all_length nth_list_update
        OS_SemaphoreRelease_def split: option.splits)
  have "slots ?s = (slots s)[sc_widx s := take len (sc_buf s ! sc_widx s)]"
    using assms(1) widx_less[OF assms(1)]
    by (simp add: slots_def rx_publish_def map2_take_update_len serial_inv_def)
  then show "chunks ?s = chunks s @ [take len (sc_buf s ! sc_widx s)]"
    using widx_outside(2)[OF assms(1,2)] by (simp add: chunks_def rx_publish_def)
qed

lemma rx_store_sel [simp]:
  "sc_widx (rx_store s i l d) = sc_widx s" "sc_cnt (rx_store s i l d) = sc_cnt s"
  "sp_cmd_sem (rx_store s i l d) = sp_cmd_sem s" "sc_ridx (rx_store s i l d) = sc_ridx s"
  "sp_state (rx_store s i l d) = sp_state s" "sp_uartID (rx_store s i l d) = sp_uartID s"
  by (simp_all add: rx_store_def)

lemma rx_publish_sel [simp]:
  "sc_widx (rx_publish s i l c) = ring_next SERIAL_CACHE_BUF_NUM i"
  "sc_cnt (rx_publish s i l c) = c + 1" "sc_ridx (rx_publish s i l c) = sc_ridx s"
  "sp_cmd_sem (rx_publish s i l c) = OS_SemaphoreRelease (sp_cmd_sem s)"
  "sp_state (rx_publish s i l c) = sp_state s" "sp_uartID (rx_publish s i l c) = sp_uartID s"
  by (simp_all add: rx_publish_def)

text \<open>The partial chunk: \<open>p\<close> is what the handler has stored at \<open>widx\<close> so far.\<close>

definition partial_chunk :: "serial_priv \<Rightarrow> u8 list \<Rightarrow> bool" where
  "partial_chunk s p \<longleftrightarrow>
     length p \<le> SERIAL_CACHE_BUF_SIZE \<and> take (length p) (sc_buf s ! sc_widx s) = p"

lemma partial_chunk_store:
  assumes "serial_inv s" "partial_chunk s p" "length p < SERIAL_CACHE_BUF_SIZE"
  shows "partial_chunk (rx_store s (sc_widx s) (length p) d) (p @ [d])"
proof -
  have "length (sc_buf s ! sc_widx s) = SERIAL_CACHE_BUF_SIZE"
    using assms(1) widx_less[OF assms(1)] by (simp add: serial_inv_def list_all_length)
  then show ?thesis
    using assms widx_less[OF assms(1)]
    by (simp add: partial_chunk_def rx_store_def serial_inv_def take_Suc_conv_app_nth)
qed

lemma partial_chunk_Nil [simp]: "partial_chunk s []"
  by (simp add: partial_chunk_def)

fun isr_state :: "isr_result \<Rightarrow> serial_priv" where
  "isr_state (ISR_Return s) = s"
| "isr_state (ISR_Spin s idx cnt) = s"

lemma rx_loop_correct:
  assumes "serial_inv s" "sc_cnt s < SERIAL_CACHE_BUF_NUM" "partial_chunk s p"
    "length p < SERIAL_CACHE_BUF_SIZE"
  shows "serial_inv (isr_state (rx_loop s (sc_widx s) (length p) (sc_cnt s) ds)) \<and>
     chunks (isr_state (rx_loop s (sc_widx s) (length p) (sc_cnt s) ds))
       = chunks s @ deliver (SERIAL_CACHE_BUF_NUM - sc_cnt s) p ds"
  using assms
proof (induction ds arbitrary: s p)
  case Nil
  then show ?case
    using rx_publish_inv[OF Nil.prems(1,2), of "length p"] by (auto simp: partial_chunk_def)
next
  case (Cons d ds)
  let ?s1 = "rx_store s (sc_widx s) (length p) d"
  have i1: "serial_inv ?s1" and c1: "chunks ?s1 = chunks s"
    using rx_store_inv[OF Cons.prems(1,2)] by auto
  have p1: "partial_chunk ?s1 (p @ [d])"
    using partial_chunk_store[OF Cons.prems(1,3,4)] .
  show ?case
  proof (cases "length p + 1 < SERIAL_CACHE_BUF_SIZE")
    case True
    then have "length (p @ [d]) < SERIAL_CACHE_BUF_SIZE" by simp
    with Cons.IH[of ?s1 "p @ [d]"] i1 p1 Cons.prems(2) show ?thesis
      using True c1 by (simp add: Let_def)
  next
    case False
    let ?s2 = "rx_publish ?s1 (sc_widx s) (length p + 1) (sc_cnt s)"
    have full: "length p + 1 = SERIAL_CACHE_BUF_SIZE" using False Cons.prems(4) by simp
    have i2: "serial_inv ?s2" and c2: "chunks ?s2 = chunks s @ [p @ [d]]"
      using rx_publish_inv[of ?s1 "length p + 1"] i1 c1 p1 Cons.prems(2) full
      by (simp_all add: partial_chunk_def)
    show ?thesis
    proof (cases "sc_cnt s + 1 < SERIAL_CACHE_BUF_NUM")
      case True
      then have "\<not> SERIAL_CACHE_BUF_NUM - sc_cnt s \<le> 1" by simp
      with True Cons.IH[of ?s2 "[]"] i2 c2 False show ?thesis
        by (simp add: Let_def)
    next
      case False': False
      then have "sc_cnt s = 15" using Cons.prems(2) by simp
      with i2 c2 False show ?thesis by (simp add: Let_def)
    qed
  qed
qed

lemma concat_deliver:
  assumes "length p < SERIAL_CACHE_BUF_SIZE" "0 < room"
  shows "concat (deliver room p ds) = take (SERIAL_CACHE_BUF_SIZE * room) (p @ ds)"
  using assms
proof (induction ds arbitrary: room p)
  case Nil
  then show ?case by simp
next
  case (Cons d ds)
  show ?case
  proof (cases "length p + 1 < SERIAL_CACHE_BUF_SIZE")
    case True
    then show ?thesis using Cons.IH[of "p @ [d]" room] Cons.prems by (simp add: Let_def)
  next
    case False
    then have full: "length p = 31" using Cons.prems by simp
    show ?thesis
    proof (cases "room \<le> 1")
      case True
      then have "room = 1" using Cons.prems by simp
      then show ?thesis using full Cons.prems by (simp add: Let_def)
    next
      case False
      then obtain r where r: "room = Suc r" "0 < r" using Cons.prems by (cases room) auto
      with Cons.IH[of "[]" r] full show ?thesis by (simp add: Let_def)
    qed
  qed
qed

lemma deliver_bounds:
  assumes "length p < SERIAL_CACHE_BUF_SIZE"
  shows "\<forall>c \<in> set (deliver room p ds). c \<noteq> [] \<and> length c \<le> SERIAL_CACHE_BUF_SIZE"
  using assms
proof (induction ds arbitrary: room p)
  case (Cons d ds)
  show ?case
  proof (cases "length p + 1 < SERIAL_CACHE_BUF_SIZE")
    case True
    then show ?thesis using Cons.IH[of "p @ [d]"] by (simp add: Let_def)
  next
    case False
    then show ?thesis using Cons.IH[of "[]"] Cons.prems by (simp add: Let_def)
  qed
qed simp

lemma concat_delivered:
  "concat (if n < SERIAL_CACHE_BUF_NUM then deliver (SERIAL_CACHE_BUF_NUM - n) [] rx else [])
     = take (32 * (16 - n)) rx"
  using concat_deliver[of "[]" "SERIAL_CACHE_BUF_NUM - n" rx] by auto

text \<open>When the handler spins: it has flushed every byte and nothing is partly stored.\<close>

lemma rx_loop_spins:
  assumes "len < SERIAL_CACHE_BUF_SIZE" "c < SERIAL_CACHE_BUF_NUM"
  shows "(\<exists>s' i' c'. rx_loop s i len c ds = ISR_Spin s' i' c') \<longleftrightarrow>
     (len + length ds) mod SERIAL_CACHE_BUF_SIZE = 0 \<and>
     len + length ds < SERIAL_CACHE_BUF_SIZE * (SERIAL_CACHE_BUF_NUM - c)"
  using assms
proof (induction ds arbitrary: s i len c)
  case (Cons d ds)
  show ?case
  proof (cases "len + 1 < SERIAL_CACHE_BUF_SIZE")
    case True
    then show ?thesis using Cons.IH[of "len + 1" c] Cons.prems by (simp add: Let_def)
  next
    case False
    then have full: "len = 31" using Cons.prems by simp
    show ?thesis
    proof (cases "c + 1 < SERIAL_CACHE_BUF_NUM")
      case True
      with Cons.IH[of 0 "c + 1"] full show ?thesis by (auto simp: Let_def)
    next
      case False
      then have "c = 15" using Cons.prems by simp
      with full show ?thesis by (simp add: Let_def)
    qed
  qed
qed auto

section \<open>The reader takes chunks in order\<close>

lemma slots_nth:
  "serial_inv s \<Longrightarrow> i < SERIAL_CACHE_BUF_NUM \<Longrightarrow>
     slots s ! i = take (sc_len s ! i) (sc_buf s ! i)"
  by (simp add: slots_def serial_inv_def)

lemma slots_cong:
  "sc_len t = sc_len s \<Longrightarrow> sc_buf t = sc_buf s \<Longrightarrow> slots t = slots s"
  by (simp add: slots_def)

lemma chunks_pop:
  assumes "serial_inv s" "0 < sc_cnt s"
    and t: "sc_len t = sc_len s" "sc_buf t = sc_buf s"
      "sc_ridx t = ring_next SERIAL_CACHE_BUF_NUM (sc_ridx s)" "sc_cnt t = sc_cnt s - 1"
  shows "chunks s = take (sc_len s ! sc_ridx s) (sc_buf s ! sc_ridx s) # chunks t"
proof -
  have "sc_ridx s < length (slots s)" using assms(1) by (simp add: serial_inv_def slots_def)
  then show ?thesis
    using ring_hd[of "sc_ridx s" "slots s" "sc_cnt s"] assms slots_cong[OF t(1,2)]
    by (simp add: chunks_def slots_nth serial_inv_def)
qed

lemma pop_inv:
  assumes "serial_inv s" "0 < sc_cnt s"
    and "sc_len t = sc_len s" "sc_buf t = sc_buf s" "sc_widx t = sc_widx s"
      "sc_ridx t = ring_next SERIAL_CACHE_BUF_NUM (sc_ridx s)" "sc_cnt t = sc_cnt s - 1"
    and "case sp_cmd_sem t of None \<Rightarrow> True | Some n \<Rightarrow> n \<le> sc_cnt s - 1"
  shows "serial_inv t"
proof -
  have "(ring_next SERIAL_CACHE_BUF_NUM (sc_ridx s) + (sc_cnt s - 1)) mod SERIAL_CACHE_BUF_NUM
      = (sc_ridx s + 1 + (sc_cnt s - 1)) mod SERIAL_CACHE_BUF_NUM"
    using ring_next_mod[of "sc_ridx s" SERIAL_CACHE_BUF_NUM] assms(1)
    by (simp add: serial_inv_def mod_add_left_eq)
  also have "\<dots> = sc_widx s" using assms(1,2) by (simp add: serial_inv_def)
  finally show ?thesis using assms by (auto simp: serial_inv_def split: option.splits)
qed

lemma rlen_bound:
  assumes "serial_inv s"
  shows "sc_len s ! sc_ridx s \<le> SERIAL_CACHE_BUF_SIZE"
    and "length (take (sc_len s ! sc_ridx s) (sc_buf s ! sc_ridx s)) = sc_len s ! sc_ridx s"
  using assms by (auto simp: serial_inv_def list_all_length)

lemma serial_read_inv:
  assumes "serial_inv s"
  shows "serial_inv (fst (serial_read s bsize))"
proof (cases "sp_cmd_sem s")
  case None
  with assms show ?thesis by (simp add: serial_read_def serial_inv_def)
next
  case (Some n)
  show ?thesis
  proof (cases n)
    case 0
    with Some assms show ?thesis by (simp add: serial_read_def serial_inv_def)
  next
    case (Suc m)
    let ?s1 = "s\<lparr>sp_cmd_sem := Some m\<rparr>"
    have m: "Suc m \<le> sc_cnt s" using assms Some Suc by (simp add: serial_inv_def)
    then have "serial_inv ?s1" using assms by (simp add: serial_inv_def)
    moreover have "serial_inv (serial_read_commit (s\<lparr>sp_cmd_sem := Some m,
        sc_ridx := ring_next SERIAL_CACHE_BUF_NUM (sc_ridx s)\<rparr>))"
      by (rule pop_inv[OF assms]) (use m in \<open>simp_all add: serial_read_commit_def\<close>)
    ultimately show ?thesis
      using Some Suc by (simp add: serial_read_def serial_read_copy_def Let_def)
  qed
qed

text \<open>The possible outcomes of a read into a buffer that holds any chunk.\<close>

lemma serial_read_cases:
  assumes "serial_inv s" "32 \<le> bsize"
  obtains (none) s1 rc where "serial_read s bsize = (s1, rc, [])" "rc \<le> 0" "chunks s1 = chunks s"
  | (some) s1 c where "serial_read s bsize = (s1, int (length c), c)"
      "length c \<le> SERIAL_CACHE_BUF_SIZE" "chunks s = c # chunks s1"
proof -
  obtain sem ok where w: "OS_SemaphoreWait (sp_cmd_sem s) = (sem, ok)" by fastforce
  let ?s1 = "s\<lparr>sp_cmd_sem := sem\<rparr>"
  let ?t = "serial_read_commit (?s1\<lparr>sc_ridx := ring_next SERIAL_CACHE_BUF_NUM (sc_ridx s)\<rparr>)"
  let ?c = "take (sc_len s ! sc_ridx s) (sc_buf s ! sc_ridx s)"
  have same: "chunks ?s1 = chunks s" by (simp add: chunks_def slots_def)
  show thesis
  proof (cases "\<not> ok \<or> sp_state s \<noteq> SERIAL_STATE_START \<or> sc_cnt s = 0")
    case True
    then show ?thesis
      using w same by (cases "\<not> ok \<or> sp_state s \<noteq> SERIAL_STATE_START")
        (auto simp: serial_read_def intro: none[of ?s1 0] none[of ?s1 "-2"])
  next
    case False
    then have pos: "0 < sc_cnt s" by simp
    have "chunks s = ?c # chunks ?t"
      by (rule chunks_pop[OF assms(1) pos]) (simp_all add: serial_read_commit_def)
    moreover have "int (sc_len s ! sc_ridx s) \<le> bsize"
      using rlen_bound(1)[OF assms(1)] assms(2) by simp
    ultimately show ?thesis
      using w False rlen_bound[OF assms(1)]
      by (intro some[of ?t ?c])
        (simp_all add: serial_read_def serial_read_copy_def Let_def serial_read_commit_def)
  qed
qed

lemma serial_read_data:
  assumes "serial_inv s" "serial_read s 32 = (s1, rc, bs)" "0 < rc"
  shows "rc = int (length bs) \<and> length bs \<le> 32 \<and> concat (chunks s) = bs @ concat (chunks s1)"
  using serial_read_cases[OF assms(1), of 32] assms(2,3) by fastforce

lemma serial_read_no_data:
  assumes "serial_inv s" "serial_read s 32 = (s1, rc, bs)" "rc \<le> 0"
  shows "concat (chunks s1) = concat (chunks s)"
  using serial_read_cases[OF assms(1), of 32] assms(2,3) by fastforce

text \<open>The ISR does not look at \<open>ridx\<close>.\<close>

lemma rx_loop_ridx:
  "isr_state (rx_loop (s\<lparr>sc_ridx := r\<rparr>) i l c ds)
     = (isr_state (rx_loop s i l c ds))\<lparr>sc_ridx := r\<rparr>"
proof (induction ds arbitrary: s i l c)
  case (Cons d ds)
  have "rx_store (s\<lparr>sc_ridx := r\<rparr>) i l d = (rx_store s i l d)\<lparr>sc_ridx := r\<rparr>" for s :: serial_priv
    by (simp add: rx_store_def)
  moreover have "rx_publish (s\<lparr>sc_ridx := r\<rparr>) i l c = (rx_publish s i l c)\<lparr>sc_ridx := r\<rparr>"
    for s :: serial_priv and l
    by (simp add: rx_publish_def)
  ultimately show ?case using Cons.IH by (simp add: Let_def)
qed (simp add: rx_publish_def)

lemma rx_loop_sel:
  "sp_state (isr_state (rx_loop s i l c ds)) = sp_state s"
  "sc_ridx (isr_state (rx_loop s i l c ds)) = sc_ridx s"
  "sp_uartID (isr_state (rx_loop s i l c ds)) = sp_uartID s"
  by (induction ds arbitrary: s i l c) (simp_all add: Let_def)

lemma rx_callback_inv:
  assumes "serial_inv s"
  shows "serial_inv (isr_state (serial_rx_callback s rx))"
    and "chunks (isr_state (serial_rx_callback s rx))
      = chunks s @ (if sc_cnt s < SERIAL_CACHE_BUF_NUM
                    then deliver (SERIAL_CACHE_BUF_NUM - sc_cnt s) [] rx else [])"
  using assms rx_loop_correct[OF assms, of "[]" rx]
  by (simp_all add: serial_rx_callback_def)

section \<open>A driver that delivers\<close>

text \<open>The serial driver as the firmware leaves it: started, one semaphore count per chunk, no
  empty chunk.  Then a read with unread chunks always succeeds.\<close>

definition serial_ready :: "serial_priv \<Rightarrow> bool" where
  "serial_ready s \<longleftrightarrow>
     serial_inv s \<and> sp_state s = SERIAL_STATE_START \<and> sp_cmd_sem s = Some (sc_cnt s) \<and>
     [] \<notin> set (chunks s)"

lemma length_chunks [simp]: "length (chunks s) = sc_cnt s"
  by (simp add: chunks_def)

lemma serial_ready_read_any:
  assumes "serial_ready s" "32 \<le> bsize" "chunks s \<noteq> []"
  obtains s1 c where "serial_read s bsize = (s1, int (length c), c)" "c \<noteq> []"
    "chunks s = c # chunks s1" "serial_ready s1" "length c \<le> 32"
proof -
  from assms have i: "serial_inv s" and st: "sp_state s = SERIAL_STATE_START"
    and c: "sp_cmd_sem s = Some (sc_cnt s)" "0 < sc_cnt s"
    by (auto simp: serial_ready_def simp flip: length_chunks)
  obtain m where m: "sc_cnt s = Suc m" using c(2) by (cases "sc_cnt s") auto
  let ?d = "take (sc_len s ! sc_ridx s) (sc_buf s ! sc_ridx s)"
  let ?t = "serial_read_commit (s\<lparr>sp_cmd_sem := Some m,
      sc_ridx := ring_next SERIAL_CACHE_BUF_NUM (sc_ridx s)\<rparr>)"
  have pop: "chunks s = ?d # chunks ?t"
    by (rule chunks_pop[OF i c(2)]) (simp_all add: serial_read_commit_def)
  have r: "serial_read s bsize = (?t, int (length ?d), ?d)"
    using rlen_bound[OF i] c m st assms(2)
    by (simp add: serial_read_def serial_read_copy_def Let_def serial_read_commit_def)
  have "serial_inv ?t" using serial_read_inv[OF i, of bsize] r by simp
  then have "serial_ready ?t"
    using assms(1) pop c m by (auto simp: serial_ready_def serial_read_commit_def)
  with that[OF r] pop assms(1) rlen_bound[OF i] show ?thesis
    by (auto simp: serial_ready_def)
qed

lemma rx_loop_sem:
  "sp_cmd_sem s = Some c \<Longrightarrow> sc_cnt s = c \<Longrightarrow>
     sp_cmd_sem (isr_state (rx_loop s i l c ds)) = Some (sc_cnt (isr_state (rx_loop s i l c ds)))"
  by (induction ds arbitrary: s i l c) (simp_all add: Let_def OS_SemaphoreRelease_def)

lemma rx_callback_ready:
  assumes "serial_ready s"
  shows "serial_ready (isr_state (serial_rx_callback s rx))"
proof -
  have i: "serial_inv s" using assms by (simp add: serial_ready_def)
  show ?thesis
    using assms rx_callback_inv[OF i, of rx] deliver_bounds[of "[]"]
      rx_loop_sem[of s "sc_cnt s" "sc_widx s" 0 rx]
    by (auto simp: serial_ready_def serial_rx_callback_def rx_loop_sel)
qed

lemma serial_priv_zero_inv [simp]: "serial_inv (serial_priv_zero u ok)"
  by (simp add: serial_inv_def serial_priv_zero_def list_all_iff)

lemma chunks_zero [simp]: "chunks (serial_priv_zero u ok) = []"
  by (simp add: chunks_def serial_priv_zero_def)

lemma serial_inv_frame:
  "serial_inv s \<Longrightarrow> serial_inv (s\<lparr>sp_state := st\<rparr>)"
  "serial_inv s \<Longrightarrow> serial_inv (s\<lparr>sp_cmd_sem := None\<rparr>)"
  by (auto simp: serial_inv_def split: option.splits)

lemma serial_ready_zero: "serial_ready ((serial_priv_zero u True)\<lparr>sp_state := SERIAL_STATE_START\<rparr>)"
  by (simp add: serial_ready_def serial_inv_frame) (simp add: serial_priv_zero_def chunks_def)

section \<open>Reachable states of the driver\<close>

inductive serial_step :: "serial_sys \<Rightarrow> serial_sys \<Rightarrow> bool" where
  s_init: "serial_step ss (fst (serial_init sem_ok ss u baud db par sb hwfc))"
| s_deinit: "serial_step ss (fst (serial_deinit ss u))"
| s_start: "serial_step ss (fst (serial_start ss))"
| s_stop: "serial_step ss (serial_stop ss)"
| s_disable: "serial_step ss (serial_disable ss)"
| s_enable: "serial_step ss (serial_enable ss)"
| s_write: "serial_step ss (fst (serial_write ss bs))"
| s_read: "serial_step ss (ss\<lparr>ss_priv := fst (serial_read (ss_priv ss) bsize)\<rparr>)"
| s_isr: "hu_priv (ss_hal ss) (sp_uartID (ss_priv ss)) = Some p \<Longrightarrow> up_rxReadyCallback p \<Longrightarrow>
     serial_step ss (ss\<lparr>ss_priv := isr_state (serial_rx_callback (ss_priv ss) rx)\<rparr>)"

inductive serial_reachable :: "serial_sys \<Rightarrow> bool" where
  boot: "sp_state (ss_priv ss) = SERIAL_STATE_STOP \<Longrightarrow>
     serial_reachable (fst (serial_init sem_ok ss u baud db par sb hwfc))"
| step: "serial_reachable ss \<Longrightarrow> serial_step ss ss' \<Longrightarrow> serial_reachable ss'"

lemma serial_step_inv:
  "serial_step ss ss' \<Longrightarrow> serial_inv (ss_priv ss) \<Longrightarrow> serial_inv (ss_priv ss')"
  by (induction rule: serial_step.induct)
    (auto simp: serial_init_def serial_deinit_def serial_start_def serial_stop_def
       serial_disable_def serial_enable_def serial_write_def OS_SemaphoreDelete_def Let_def
       serial_read_inv rx_callback_inv serial_inv_frame split: prod.splits)

text \<open>C1. In every state the driver can reach by any interleaving of calls and receive
  interrupts the ring is well formed: the indices stay inside the 16 chunks, every chunk length is
  at most 32, the write index is the read index plus the count modulo 16, and the semaphore
  never counts more chunks than are stored (so \<open>serial_read\<close> never finds none after a
  successful wait).\<close>

theorem serial_reachable_inv: "serial_reachable ss \<Longrightarrow> serial_inv (ss_priv ss)"
  by (induction rule: serial_reachable.induct) (simp_all add: serial_init_def Let_def serial_step_inv)

lemma serial_reachable_inv_witness:
  "serial_inv (ss_priv (fst (serial_start (fst (serial_init True
     \<lparr>ss_priv = serial_priv_zero 1 True, ss_hal = \<lparr>hu_priv = Map.empty, hu_tx = \<lambda>_. []\<rparr>\<rparr>
     1 9600 8 0 1 0)))))"
  by (rule serial_reachable_inv, rule serial_reachable.step[OF serial_reachable.boot serial_step.s_start])
    (simp add: serial_priv_zero_def)

text \<open>The receive interrupt appends exactly the received bytes, in order, to the
  unread stream, up to the free room of 32 bytes per free chunk; what exceeds the room is
  discarded, and no unread chunk is touched.\<close>

theorem serial_isr_appends:
  assumes "serial_inv s"
  shows "concat (chunks (isr_state (serial_rx_callback s rx)))
    = concat (chunks s) @ take (32 * (16 - sc_cnt s)) rx"
  by (simp add: rx_callback_inv(2)[OF assms] concat_delivered)

lemma serial_isr_appends_witness:
  "concat (chunks (isr_state (serial_rx_callback (serial_priv_zero 1 True) [0x55, 0xAA, 0])))
     = [0x55, 0xAA, 0]"
  using serial_isr_appends[OF serial_priv_zero_inv, of 1 True "[0x55, 0xAA, 0]"]
  by (simp add: serial_priv_zero_def chunks_def)

text \<open>C2. The receive interrupt fails to return exactly when a chunk is free and the bytes
  it received fill whole chunks without filling the ring: it then polls inside the interrupt
  handler for the next byte.  In particular 32 received bytes keep the handler busy.\<close>

theorem serial_isr_spins_iff:
  "(\<exists>s' i c. serial_rx_callback s rx = ISR_Spin s' i c) \<longleftrightarrow>
     sc_cnt s < 16 \<and> length rx mod 32 = 0 \<and> length rx < 32 * (16 - sc_cnt s)"
  using rx_loop_spins[of 0 "sc_cnt s" s "sc_widx s" rx] by (auto simp: serial_rx_callback_def)

text \<open>When the semaphore counts a chunk and the caller's buffer holds 32 bytes,
  \<open>serial_read\<close> returns the oldest chunk and its length and removes exactly that chunk.\<close>

theorem serial_read_fifo:
  assumes "serial_inv s" "sp_cmd_sem s = Some (Suc n)" "sp_state s = SERIAL_STATE_START"
    "32 \<le> bsize"
  shows "\<exists>s' c. serial_read s bsize = (s', int (length c), c) \<and>
     chunks s = c # chunks s' \<and> sp_cmd_sem s' = Some n \<and> sp_state s' = SERIAL_STATE_START"
proof -
  let ?c = "take (sc_len s ! sc_ridx s) (sc_buf s ! sc_ridx s)"
  let ?t = "serial_read_commit (s\<lparr>sp_cmd_sem := Some n,
      sc_ridx := ring_next SERIAL_CACHE_BUF_NUM (sc_ridx s)\<rparr>)"
  have pos: "0 < sc_cnt s" using assms(1,2) by (simp add: serial_inv_def)
  have "chunks s = ?c # chunks ?t"
    by (rule chunks_pop[OF assms(1) pos]) (simp_all add: serial_read_commit_def)
  moreover have "int (sc_len s ! sc_ridx s) \<le> bsize"
    using rlen_bound(1)[OF assms(1)] assms(4) by simp
  ultimately show ?thesis
    using assms(2,3) pos
    by (intro exI[of _ ?t] exI[of _ ?c])
      (simp add: serial_read_def serial_read_copy_def Let_def serial_read_commit_def)
qed

text \<open>C3. An interrupt between the copy and the decrement of \<open>serial_read\<close> loses and
  corrupts nothing: the reader still gets the oldest chunk, and the unread stream afterwards
  is the rest followed by what the interrupt received.\<close>

theorem serial_read_interleaved:
  assumes "serial_inv s" "0 < sc_cnt s" "serial_read_copy s 32 = Inr (t, c)"
    "u = serial_read_commit (isr_state (serial_rx_callback t rx))"
  shows "\<exists>rest. chunks s = c # rest \<and>
     concat (chunks u) = concat rest @ take (32 * (16 - sc_cnt s)) rx"
proof -
  let ?r = "ring_next SERIAL_CACHE_BUF_NUM (sc_ridx s)"
  let ?i = "isr_state (serial_rx_callback s rx)"
  have t: "t = s\<lparr>sc_ridx := ?r\<rparr>" and c: "c = take (sc_len s ! sc_ridx s) (sc_buf s ! sc_ridx s)"
    using assms(3) by (auto simp: serial_read_copy_def Let_def split: if_splits)
  have i: "isr_state (serial_rx_callback t rx) = ?i\<lparr>sc_ridx := ?r\<rparr>"
    by (simp add: t serial_rx_callback_def rx_loop_ridx)
  have inv: "serial_inv ?i" and ch: "chunks ?i = chunks s @ (if sc_cnt s < SERIAL_CACHE_BUF_NUM
      then deliver (SERIAL_CACHE_BUF_NUM - sc_cnt s) [] rx else [])"
    using rx_callback_inv[OF assms(1)] by auto
  have len: "length (chunks ?i) = sc_cnt ?i" "length (chunks s) = sc_cnt s"
    by (simp_all add: chunks_def)
  then have pos: "0 < sc_cnt ?i" using ch assms(2) by (auto split: if_splits)
  have ridx: "sc_ridx ?i = sc_ridx s" by (simp add: serial_rx_callback_def rx_loop_sel)
  obtain c' where pop: "chunks ?i = c' # chunks u"
    using chunks_pop[OF inv pos, of u] by (simp add: assms(4) i serial_read_commit_def ridx)
  obtain rest where s: "chunks s = c # rest"
    using chunks_pop[OF assms(1,2), of "serial_read_commit t"] by (simp add: t c serial_read_commit_def)
  have "chunks u = rest @ (if sc_cnt s < SERIAL_CACHE_BUF_NUM
      then deliver (SERIAL_CACHE_BUF_NUM - sc_cnt s) [] rx else [])"
    using pop ch s by simp
  then have "concat (chunks u) = concat rest @ take (32 * (16 - sc_cnt s)) rx"
    by (simp only: concat_append concat_delivered)
  with s show ?thesis by blast
qed

lemma serial_isr_witness_zero:
  "sc_cnt (serial_priv_zero u ok) = 0" "sp_state (serial_priv_zero u ok) = SERIAL_STATE_STOP"
  by (simp_all add: serial_priv_zero_def)

abbreviation serial_one :: serial_priv where
  "serial_one \<equiv> isr_state (serial_rx_callback
     ((serial_priv_zero 0 True)\<lparr>sp_state := SERIAL_STATE_START\<rparr>) [0x41, 0x54, 0x0D])"

lemma serial_one_inv: "serial_inv serial_one"
  by (rule rx_callback_inv(1)) (simp add: serial_inv_frame)

lemma serial_one_fields:
  "sp_cmd_sem serial_one = Some 1" "sp_state serial_one = SERIAL_STATE_START"
  "sc_cnt serial_one = 1" "sc_ridx serial_one = 0" "sc_len serial_one ! 0 = 3"
  "take 3 (sc_buf serial_one ! 0) = [0x41, 0x54, 0x0D]"
  by (simp_all add: serial_rx_callback_def serial_priv_zero_def Let_def OS_SemaphoreRelease_def
      rx_store_def rx_publish_def numeral_3_eq_3 take_Suc_conv_app_nth)

lemma serial_one_ready: "serial_ready serial_one" "chunks serial_one = [[0x41, 0x54, 0x0D]]"
proof -
  show "serial_ready serial_one" by (rule rx_callback_ready[OF serial_ready_zero])
  let ?z = "(serial_priv_zero 0 True)\<lparr>sp_state := SERIAL_STATE_START\<rparr>"
  have "chunks ?z = []" "sc_cnt ?z = 0"
    by (simp_all add: chunks_def serial_priv_zero_def)
  then show "chunks serial_one = [[0x41, 0x54, 0x0D]]"
    using rx_callback_inv(2)[of ?z "[0x41, 0x54, 0x0D]"] by (simp add: serial_inv_frame Let_def)
qed

lemma serial_read_fifo_witness:
  "\<exists>s' c. serial_read serial_one 32 = (s', int (length c), c) \<and> chunks serial_one = c # chunks s'"
  using serial_read_fifo[OF serial_one_inv, of 0 32] serial_one_fields(1,2) by auto

lemma serial_read_interleaved_witness:
  "\<exists>rest. chunks serial_one = [0x41, 0x54, 0x0D] # rest \<and>
     concat (chunks (serial_read_commit (isr_state (serial_rx_callback
       (serial_one\<lparr>sc_ridx := 1\<rparr>) [0x0A])))) = concat rest @ [0x0A]"
proof -
  have "serial_read_copy serial_one 32 = Inr (serial_one\<lparr>sc_ridx := 1\<rparr>, [0x41, 0x54, 0x0D])"
    using serial_one_fields(4-6) by (simp add: serial_read_copy_def Let_def ring_next_def)
  from serial_read_interleaved[OF serial_one_inv _ this refl, of "[0x0A]"]
  show ?thesis using serial_one_fields(3) by simp
qed

end
