(* ===== verification/AtQueue.thy ===== *)
theory AtQueue
  imports SerialPort
begin

text \<open>
  The byte queue of the AT command layer, \<^verbatim>\<open>src/atcmd/at_queue.c\<close>: a ring buffer that a
  callback refills, 32 bytes at a time, whenever it is empty.  The locale \<open>byte_source\<close> states
  what the queue relies on in that callback; the demo installs \<open>serial_read\<close>
  (\<^verbatim>\<open>project/at_demo/functions.c\<close>, \<open>at_cmd_init\<close>), and the interpretation at the end
  discharges the contract on the serial driver's model.
\<close>

datatype AT_QUEUE_ERROR_CODE = AQEC_OK | AQEC_FAIL | AQEC_EMPTY | AQEC_FULL

record at_queue_t =
  q_qbuf :: "u8 list"
  q_qsize :: int
  q_qcnt :: int
  q_ridx :: nat
  q_widx :: nat

text \<open>A callback \<open>at_queue_callback(buf, size)\<close>: its new state, the value it returns and
  the bytes it stored in \<open>buf\<close>.\<close>

type_synonym 'e at_queue_callback = "'e \<Rightarrow> int \<Rightarrow> 'e \<times> int \<times> u8 list"

text \<open>A null buffer or callback is \<^term>\<open>None\<close>; the result pairs the return value with the
  queue and the registered callback.\<close>

definition at_queue_init ::
  "u8 list option \<Rightarrow> int \<Rightarrow> 'e at_queue_callback option \<Rightarrow>
     int \<times> (at_queue_t \<times> 'e at_queue_callback) option" where
  "at_queue_init buf bsize cb =
     (case (buf, cb) of
        (Some b, Some f) \<Rightarrow>
          (0, Some (\<lparr>q_qbuf = b, q_qsize = bsize, q_qcnt = 0, q_ridx = 0, q_widx = 0\<rparr>, f))
      | _ \<Rightarrow> (-1, None))"

text \<open>The source's \<open>idx = idx >= q->qsize ? 0 : idx\<close> after an increment.\<close>

definition q_next :: "at_queue_t \<Rightarrow> nat \<Rightarrow> nat" where
  "q_next q i = (if int (i + 1) \<ge> q_qsize q then 0 else i + 1)"

fun q_fill :: "at_queue_t \<Rightarrow> u8 list \<Rightarrow> at_queue_t" where
  "q_fill q [] = q"
| "q_fill q (b # bs) =
     q_fill (q\<lparr>q_qbuf := (q_qbuf q)[q_widx q := b],
               q_widx := q_next q (q_widx q),
               q_qcnt := q_qcnt q + 1\<rparr>) bs"

text \<open>
  The refill at the start of \<open>at_queue_get\<close> and \<open>at_queue_peek\<close>.  \<^term>\<open>False\<close>: the
  operation returns \<open>AQEC_EMPTY\<close>.  A block that does not fit is reported and dropped, and the
  operation goes on.
\<close>

definition q_refill ::
  "'e at_queue_callback option \<Rightarrow> at_queue_t \<Rightarrow> 'e \<Rightarrow> at_queue_t \<times> 'e \<times> bool" where
  "q_refill cb q e =
     (if q_qcnt q \<le> 0
      then (case cb of
              None \<Rightarrow> (q, e, False)
            | Some f \<Rightarrow>
                (case f e 32 of (e1, dcnt, winbuf) \<Rightarrow>
                   if dcnt > 0
                   then if dcnt > q_qsize q - q_qcnt q
                        then (q, e1, True)  \<comment> \<open>queue is overflow\<close>
                        else (q_fill q (take (nat dcnt) winbuf), e1, True)
                   else (q, e1, False)))
      else (q, e, True))"

definition at_queue_get ::
  "'e at_queue_callback option \<Rightarrow> at_queue_t \<Rightarrow> 'e \<Rightarrow>
     at_queue_t \<times> 'e \<times> AT_QUEUE_ERROR_CODE \<times> u8 option" where
  "at_queue_get cb q e =
     (case q_refill cb q e of (q1, e1, ok) \<Rightarrow>
        if ok
        then (q1\<lparr>q_ridx := q_next q1 (q_ridx q1), q_qcnt := q_qcnt q1 - 1\<rparr>, e1, AQEC_OK,
              rd (q_qbuf q1) (q_ridx q1))
        else (q1, e1, AQEC_EMPTY, None))"

definition at_queue_peek ::
  "'e at_queue_callback option \<Rightarrow> at_queue_t \<Rightarrow> 'e \<Rightarrow>
     at_queue_t \<times> 'e \<times> AT_QUEUE_ERROR_CODE \<times> u8 option" where
  "at_queue_peek cb q e =
     (case q_refill cb q e of (q1, e1, ok) \<Rightarrow>
        if ok then (q1, e1, AQEC_OK, rd (q_qbuf q1) (q_ridx q1))
        else (q1, e1, AQEC_EMPTY, None))"

section \<open>Invariant and contents\<close>

text \<open>The last conjunct is what keeps a refill of an empty queue from overflowing.\<close>

definition q_inv :: "at_queue_t \<Rightarrow> bool" where
  "q_inv q \<longleftrightarrow>
     int (length (q_qbuf q)) = q_qsize q \<and> 0 \<le> q_qcnt q \<and> q_qcnt q \<le> q_qsize q \<and>
     q_ridx q < length (q_qbuf q) \<and>
     q_widx q = (q_ridx q + nat (q_qcnt q)) mod length (q_qbuf q) \<and>
     32 \<le> q_qsize q"

definition q_contents :: "at_queue_t \<Rightarrow> u8 list" where
  "q_contents q = ring (q_qbuf q) (q_ridx q) (nat (q_qcnt q))"

lemma q_next_ring:
  "int (length (q_qbuf q)) = q_qsize q \<Longrightarrow> q_next q i = ring_next (length (q_qbuf q)) i"
  by (auto simp: q_next_def ring_next_def)

lemma q_fill_inv:
  assumes "q_inv q" "q_qcnt q + int (length bs) \<le> q_qsize q"
  shows "q_inv (q_fill q bs) \<and> q_contents (q_fill q bs) = q_contents q @ bs
    \<and> q_qcnt (q_fill q bs) = q_qcnt q + int (length bs)"
  using assms
proof (induction bs arbitrary: q)
  case (Cons b bs)
  let ?L = "length (q_qbuf q)"
  let ?q = "q\<lparr>q_qbuf := (q_qbuf q)[q_widx q := b], q_widx := q_next q (q_widx q),
      q_qcnt := q_qcnt q + 1\<rparr>"
  have L: "int ?L = q_qsize q" and n: "nat (q_qcnt q) < ?L"
    and w: "q_widx q = (q_ridx q + nat (q_qcnt q)) mod ?L"
    using Cons.prems by (auto simp: q_inv_def)
  have wl: "q_widx q < ?L" unfolding w using n by (intro mod_less_divisor) linarith
  have n1: "nat (q_qcnt q + 1) = Suc (nat (q_qcnt q))"
    using Cons.prems(1) by (simp add: q_inv_def nat_add_distrib)
  have "q_next q (q_widx q) = (q_ridx q + nat (q_qcnt q + 1)) mod ?L"
    using q_next_ring[OF L] ring_next_mod[OF wl] by (simp add: w n1 mod_Suc_eq)
  then have "q_inv ?q" using Cons.prems by (simp add: q_inv_def)
  moreover have "q_contents ?q = q_contents q @ [b]"
    using ring_push[OF n, of "q_ridx q" b] by (simp add: q_contents_def w n1)
  ultimately show ?case using Cons.IH[of ?q] Cons.prems(2) by simp
qed simp

lemma q_pop:
  assumes "q_inv q" "0 < q_qcnt q"
  defines "q' \<equiv> q\<lparr>q_ridx := q_next q (q_ridx q), q_qcnt := q_qcnt q - 1\<rparr>"
  shows "q_inv q'" and "q_contents q = q_qbuf q ! q_ridx q # q_contents q'"
proof -
  let ?L = "length (q_qbuf q)"
  have L: "int ?L = q_qsize q" and r: "q_ridx q < ?L"
    and w: "q_widx q = (q_ridx q + nat (q_qcnt q)) mod ?L"
    using assms by (auto simp: q_inv_def)
  have n: "nat (q_qcnt q) = Suc (nat (q_qcnt q - 1))" using assms(2) by simp
  have "(ring_next ?L (q_ridx q) + nat (q_qcnt q - 1)) mod ?L = q_widx q"
    using ring_next_mod[OF r] by (simp add: w n mod_add_left_eq)
  moreover have "ring_next ?L (q_ridx q) < ?L" using r by (intro ring_next_less) linarith
  ultimately show "q_inv q'"
    using assms(1,2) by (simp add: q_inv_def q'_def q_next_ring[OF L])
  show "q_contents q = q_qbuf q ! q_ridx q # q_contents q'"
    using ring_pop[OF r] by (simp add: q_contents_def q'_def n q_next_ring[OF L])
qed

lemma q_contents_empty_iff: "q_inv q \<Longrightarrow> q_contents q = [] \<longleftrightarrow> q_qcnt q \<le> 0"
  by (auto simp: q_inv_def q_contents_def ring_def)

section \<open>The contract of the refill callback\<close>

locale byte_source =
  fixes read_cb :: "'e at_queue_callback"
    and src_inv :: "'e \<Rightarrow> bool"
    and pending :: "'e \<Rightarrow> u8 list"
  assumes src_inv_read: "src_inv e \<Longrightarrow> src_inv (fst (read_cb e n))"
    and read_data: "src_inv e \<Longrightarrow> read_cb e 32 = (e', rc, bs) \<Longrightarrow> 0 < rc \<Longrightarrow>
      rc = int (length bs) \<and> length bs \<le> 32 \<and> pending e = bs @ pending e'"
    and read_no_data: "src_inv e \<Longrightarrow> read_cb e 32 = (e', rc, bs) \<Longrightarrow> rc \<le> 0 \<Longrightarrow>
      pending e' = pending e"
begin

definition stream :: "at_queue_t \<Rightarrow> 'e \<Rightarrow> u8 list" where
  "stream q e = q_contents q @ pending e"

lemma refill_ok:
  assumes "q_inv q" "src_inv e" "q_refill (Some read_cb) q e = (q1, e1, ok)"
  shows "q_inv q1 \<and> src_inv e1 \<and> stream q1 e1 = stream q e \<and> (ok \<longrightarrow> 0 < q_qcnt q1)"
proof (cases "q_qcnt q \<le> 0")
  case True
  obtain e2 rc bs where r: "read_cb e 32 = (e2, rc, bs)" by (cases "read_cb e 32") auto
  have i: "src_inv e2" using src_inv_read[OF assms(2), of 32] r by simp
  have c: "q_qcnt q = 0" using True assms(1) by (simp add: q_inv_def)
  show ?thesis
  proof (cases "0 < rc")
    case True
    with read_data[OF assms(2) r] have d: "rc = int (length bs)" "length bs \<le> 32"
        "pending e = bs @ pending e2" by auto
    then have fit: "q_qcnt q + int (length bs) \<le> q_qsize q"
      using assms(1) c by (simp add: q_inv_def)
    with assms(3) True r c d have "q1 = q_fill q bs" "e1 = e2" "ok"
      by (auto simp: q_refill_def)
    with q_fill_inv[OF assms(1) fit] d True i c show ?thesis
      by (simp add: stream_def)
  next
    case False
    with assms r c have "q1 = q" "e1 = e2" "\<not> ok" by (auto simp: q_refill_def)
    with read_no_data[OF assms(2) r] False i assms(1) show ?thesis by (simp add: stream_def)
  qed
next
  case False
  with assms show ?thesis by (auto simp: q_refill_def)
qed

lemma get_stream:
  assumes "q_inv q" "src_inv e" "at_queue_get (Some read_cb) q e = (q', e', rc, x)"
  shows "q_inv q' \<and> src_inv e' \<and>
    (rc = AQEC_OK \<and> (\<exists>b. x = Some b \<and> stream q e = b # stream q' e')
     \<or> rc = AQEC_EMPTY \<and> x = None \<and> stream q' e' = stream q e)"
proof -
  obtain q1 e1 ok where r: "q_refill (Some read_cb) q e = (q1, e1, ok)"
    by (cases "q_refill (Some read_cb) q e") auto
  note R = refill_ok[OF assms(1,2) r]
  show ?thesis
  proof (cases ok)
    case True
    with R have p: "q_inv q1" "0 < q_qcnt q1" by auto
    have "q_ridx q1 < length (q_qbuf q1)" using p by (simp add: q_inv_def)
    then show ?thesis
      using assms(3) r True R q_pop[OF p] by (auto simp: at_queue_get_def stream_def)
  next
    case False
    with assms(3) r R show ?thesis by (auto simp: at_queue_get_def)
  qed
qed

lemma peek_stream:
  assumes "q_inv q" "src_inv e" "at_queue_peek (Some read_cb) q e = (q', e', rc, x)"
  shows "q_inv q' \<and> src_inv e' \<and> stream q' e' = stream q e \<and>
    (rc = AQEC_OK \<and> x = Some (hd (stream q e)) \<and> stream q e \<noteq> [] \<or> rc = AQEC_EMPTY \<and> x = None)"
proof -
  obtain q1 e1 ok where r: "q_refill (Some read_cb) q e = (q1, e1, ok)"
    by (cases "q_refill (Some read_cb) q e") auto
  note R = refill_ok[OF assms(1,2) r]
  show ?thesis
  proof (cases ok)
    case True
    with R have p: "q_inv q1" "0 < q_qcnt q1" by auto
    then have "hd (stream q1 e1) = q_qbuf q1 ! q_ridx q1" "stream q1 e1 \<noteq> []"
      using q_pop(2)[OF p] by (simp_all add: stream_def)
    moreover have "q_ridx q1 < length (q_qbuf q1)" using p by (simp add: q_inv_def)
    ultimately show ?thesis
      using assms(3) r True R by (auto simp: at_queue_peek_def)
  next
    case False
    with assms(3) r R show ?thesis by (auto simp: at_queue_peek_def)
  qed
qed

end

section \<open>The serial driver is a byte source\<close>

interpretation serial_src: byte_source serial_read serial_inv "\<lambda>s. concat (chunks s)"
proof
  fix e n
  assume "serial_inv e"
  then show "serial_inv (fst (serial_read e n))" by (rule serial_read_inv)
next
  fix e e' rc bs
  assume "serial_inv e" "serial_read e 32 = (e', rc, bs)" "0 < rc"
  then show "rc = int (length bs) \<and> length bs \<le> 32 \<and>
      concat (chunks e) = bs @ concat (chunks e')"
    using serial_read_data by blast
next
  fix e e' rc bs
  assume "serial_inv e" "serial_read e 32 = (e', rc, bs)" "rc \<le> 0"
  then show "concat (chunks e') = concat (chunks e)"
    using serial_read_no_data by blast
qed

section \<open>Draining the queue\<close>

text \<open>\<open>n\<close> successive calls of \<open>at_queue_get\<close> and the bytes they return.\<close>

fun at_queue_gets ::
  "'e at_queue_callback option \<Rightarrow> nat \<Rightarrow> at_queue_t \<Rightarrow> 'e \<Rightarrow> at_queue_t \<times> 'e \<times> u8 list" where
  "at_queue_gets cb 0 q e = (q, e, [])"
| "at_queue_gets cb (Suc n) q e =
     (case at_queue_get cb q e of (q1, e1, rc, x) \<Rightarrow>
        case at_queue_gets cb n q1 e1 of (q2, e2, bs) \<Rightarrow>
          (q2, e2, (case x of Some b \<Rightarrow> b # bs | None \<Rightarrow> bs)))"

lemma at_queue_get_ready:
  assumes "q_inv q" "serial_ready s" "q_contents q @ concat (chunks s) = b # rest"
  obtains q1 s1 where "at_queue_get (Some serial_read) q s = (q1, s1, AQEC_OK, Some b)"
    "q_inv q1" "serial_ready s1" "q_contents q1 @ concat (chunks s1) = rest"
proof -
  obtain q1 s1 rc x where g: "at_queue_get (Some serial_read) q s = (q1, s1, rc, x)"
    by (cases "at_queue_get (Some serial_read) q s") auto
  have i: "serial_inv s" using assms(2) by (simp add: serial_ready_def)
  have "serial_ready s1 \<and> rc = AQEC_OK"
  proof (cases "q_qcnt q \<le> 0")
    case True
    then have "q_contents q = []" using assms(1) by (simp add: q_contents_empty_iff)
    then have "chunks s \<noteq> []" using assms(3) by auto
    from serial_ready_read_any[OF assms(2) _ this, of 32] obtain s2 c where
      "serial_read s 32 = (s2, int (length c), c)" "c \<noteq> []" "serial_ready s2" by (metis order_refl)
    with g True show ?thesis by (auto simp: at_queue_get_def q_refill_def split: if_splits)
  next
    case False
    with g assms(2) show ?thesis by (auto simp: at_queue_get_def q_refill_def)
  qed
  with serial_src.get_stream[OF assms(1) i g] g assms(3) that show ?thesis
    by (auto simp: serial_src.stream_def)
qed

lemma at_queue_peek_ready:
  assumes "q_inv q" "serial_ready s" "q_contents q @ concat (chunks s) = b # rest"
  obtains q1 s1 where "at_queue_peek (Some serial_read) q s = (q1, s1, AQEC_OK, Some b)"
    "q_inv q1" "serial_ready s1" "q_contents q1 @ concat (chunks s1) = b # rest"
proof -
  obtain q1 s1 rc x where g: "at_queue_peek (Some serial_read) q s = (q1, s1, rc, x)"
    by (cases "at_queue_peek (Some serial_read) q s") auto
  have i: "serial_inv s" using assms(2) by (simp add: serial_ready_def)
  have "serial_ready s1 \<and> rc = AQEC_OK"
  proof (cases "q_qcnt q \<le> 0")
    case True
    then have "q_contents q = []" using assms(1) by (simp add: q_contents_empty_iff)
    then have "chunks s \<noteq> []" using assms(3) by auto
    from serial_ready_read_any[OF assms(2) _ this, of 32] obtain s2 c where
      "serial_read s 32 = (s2, int (length c), c)" "c \<noteq> []" "serial_ready s2" by (metis order_refl)
    with g True show ?thesis by (auto simp: at_queue_peek_def q_refill_def split: if_splits)
  next
    case False
    with g assms(2) show ?thesis by (auto simp: at_queue_peek_def q_refill_def)
  qed
  with serial_src.peek_stream[OF assms(1) i g] g assms(3) that show ?thesis
    by (auto simp: serial_src.stream_def)
qed

text \<open>C4. The AT queue over the serial driver is a faithful byte stream: a successful
  \<open>at_queue_get\<close> returns the oldest unread byte and leaves the rest, an empty result leaves
  every unread byte in place, and both well-formedness invariants are kept.\<close>

theorem at_queue_get_serial_order:
  assumes "q_inv q" "serial_inv s" "at_queue_get (Some serial_read) q s = (q', s', rc, x)"
  shows "q_inv q' \<and> serial_inv s' \<and>
    (rc = AQEC_OK \<and> (\<exists>b. x = Some b \<and>
       q_contents q @ concat (chunks s) = b # q_contents q' @ concat (chunks s'))
     \<or> rc = AQEC_EMPTY \<and> x = None \<and>
       q_contents q' @ concat (chunks s') = q_contents q @ concat (chunks s))"
  using serial_src.get_stream[OF assms] by (simp add: serial_src.stream_def)

text \<open>Nothing gets stuck: on a started driver, \<open>n\<close> successive gets return the first
  \<open>n\<close> unread bytes, for any \<open>n\<close> up to the number of unread bytes.\<close>

theorem at_queue_gets_delivers:
  assumes "q_inv q" "serial_ready s" "n \<le> length (q_contents q @ concat (chunks s))"
  shows "snd (snd (at_queue_gets (Some serial_read) n q s))
    = take n (q_contents q @ concat (chunks s))"
  using assms
proof (induction n arbitrary: q s)
  case (Suc n)
  then obtain b rest where br: "q_contents q @ concat (chunks s) = b # rest"
    by (cases "q_contents q @ concat (chunks s)") auto
  obtain q1 s1 where g: "at_queue_get (Some serial_read) q s = (q1, s1, AQEC_OK, Some b)"
    "q_inv q1" "serial_ready s1" "q_contents q1 @ concat (chunks s1) = rest"
    using at_queue_get_ready[OF Suc.prems(1,2) br] by metis
  have "length rest \<ge> n" using Suc.prems(3) br by simp
  then have "snd (snd (at_queue_gets (Some serial_read) n q1 s1)) = take n rest"
    using Suc.IH[OF g(2,3)] g(4) by simp
  then show ?case
    using g(1) br by (cases "at_queue_gets (Some serial_read) n q1 s1") simp
qed simp

text \<open>A refill that is larger than the buffer is not an error for the caller: the block is
  lost, yet \<open>at_queue_get\<close> answers \<open>AQEC_OK\<close> with whatever byte the buffer held and the
  count becomes \<open>-1\<close>.  A queue of at least 32 bytes, as the demo's, never gets there.\<close>

theorem at_queue_get_overflow:
  assumes "q_qcnt q = 0" "cb e 32 = (e', dcnt, winbuf)" "0 < dcnt" "q_qsize q < dcnt"
    "q_ridx q < length (q_qbuf q)"
  shows "at_queue_get (Some cb) q e =
    (q\<lparr>q_ridx := q_next q (q_ridx q), q_qcnt := -1\<rparr>, e', AQEC_OK, Some (q_qbuf q ! q_ridx q))"
  using assms by (simp add: at_queue_get_def q_refill_def)

lemma at_queue_init_inv:
  assumes "at_queue_init (Some b) (int (length b)) (Some f) = (rc, Some (q, g))" "32 \<le> length b"
  shows "q_inv q \<and> q_contents q = [] \<and> rc = 0"
proof -
  have "b \<noteq> []" using assms(2) by auto
  then show ?thesis using assms by (auto simp: at_queue_init_def q_inv_def q_contents_def)
qed

abbreviation demo_queue :: at_queue_t where
  "demo_queue \<equiv>
     \<lparr>q_qbuf = replicate 1024 0, q_qsize = 1024, q_qcnt = 0, q_ridx = 0, q_widx = 0\<rparr>"

lemma demo_queue_inv: "q_inv demo_queue" "q_contents demo_queue = []"
  by (simp_all add: q_inv_def q_contents_def)

lemma at_queue_gets_delivers_witness:
  "snd (snd (at_queue_gets (Some serial_read) 2 demo_queue serial_one)) = [0x41, 0x54]"
  using at_queue_gets_delivers[OF demo_queue_inv(1) serial_one_ready(1), of 2] demo_queue_inv(2)
    serial_one_ready(2) by simp

lemma at_queue_get_serial_order_witness:
  "\<exists>q' s' rc x. at_queue_get (Some serial_read) demo_queue (serial_priv_zero 0 True)
      = (q', s', rc, x) \<and> q_inv q' \<and> serial_inv s'"
  using at_queue_get_serial_order[OF demo_queue_inv(1) serial_priv_zero_inv, of 0 True]
  by (metis prod_cases4)

lemma at_queue_get_overflow_witness:
  "at_queue_get (Some (\<lambda>e n. (e, 20, replicate 20 0x41)))
     \<lparr>q_qbuf = replicate 16 0x5A, q_qsize = 16, q_qcnt = 0, q_ridx = 0, q_widx = 0\<rparr> ()
   = (\<lparr>q_qbuf = replicate 16 0x5A, q_qsize = 16, q_qcnt = -1, q_ridx = 1, q_widx = 0\<rparr>, (),
      AQEC_OK, Some 0x5A)"
  using at_queue_get_overflow[of "\<lparr>q_qbuf = replicate 16 0x5A, q_qsize = 16, q_qcnt = 0,
      q_ridx = 0, q_widx = 0\<rparr>" "\<lambda>e n. (e, 20, replicate 20 0x41)" "()" "()" 20 "replicate 20 0x41"]
  by (simp add: q_next_def)

end
