(* ===== verification/TuyaMcu.thy ===== *)
theory TuyaMcu
  imports SerialPort
begin

text \<open>
  The application loop of the demo, \<^verbatim>\<open>project/at_demo/main.c\<close>: it polls the serial driver,
  scans the received bytes for frames of the Tuya low-power serial protocol
  (\<open>55 AA 00 cmd len_hi len_lo data checksum\<close>), turns the status units of a report
  (command 05) into MQTT messages and answers a WiFi test (command 07).  Every read of
  \<open>queue_buf\<close> is bounds checked: \<^term>\<open>None\<close> is a read outside the 1024-byte array.
  The messages handed to \<open>MQTTPublish\<close> and \<open>serial_write\<close> are the events of the
  model; the source ignores what both calls return.
\<close>

section \<open>Messages\<close>

record mqtt_msg =
  mm_topic :: string
  mm_payload :: string
  mm_qos :: nat
  mm_retained :: bool

datatype tuya_event = Mqtt_Publish mqtt_msg | Serial_Write "u8 list"

definition mqtt_send_battery_state_low :: tuya_event where
  "mqtt_send_battery_state_low = Mqtt_Publish
     \<lparr>mm_topic = ''stat/xr3_3D6C07/BATTERY'', mm_payload = ''5'', mm_qos = 0, mm_retained = False\<rparr>"

definition mqtt_send_battery_state_middle :: tuya_event where
  "mqtt_send_battery_state_middle = Mqtt_Publish
     \<lparr>mm_topic = ''stat/xr3_3D6C07/BATTERY'', mm_payload = ''50'', mm_qos = 0, mm_retained = False\<rparr>"

definition mqtt_send_battery_state_high :: tuya_event where
  "mqtt_send_battery_state_high = Mqtt_Publish
     \<lparr>mm_topic = ''stat/xr3_3D6C07/BATTERY'', mm_payload = ''95'', mm_qos = 0, mm_retained = False\<rparr>"

definition mqtt_send_moisture_state_on :: tuya_event where
  "mqtt_send_moisture_state_on = Mqtt_Publish
     \<lparr>mm_topic = ''stat/xr3_3D6C07/MOISTURE'', mm_payload = ''ON'', mm_qos = 0, mm_retained = False\<rparr>"

definition mqtt_send_moisture_state_off :: tuya_event where
  "mqtt_send_moisture_state_off = Mqtt_Publish
     \<lparr>mm_topic = ''stat/xr3_3D6C07/MOISTURE'', mm_payload = ''OFF'', mm_qos = 0, mm_retained = False\<rparr>"

definition tuya_wifi_connected_msg :: "u8 list" where
  "tuya_wifi_connected_msg = [0x55, 0xAA, 0x00, 0x02, 0x00, 0x01, 0x04, 0x06]"

definition tuya_respond_wifi_func :: "u8 list" where
  "tuya_respond_wifi_func = [0x55, 0xAA, 0x00, 0x07, 0x00, 0x02, 0x01, 0x50, 0x59]"

section \<open>Status units\<close>

text \<open>The big-endian 16-bit length \<open>buf[lo] | (buf[hi] << 8)\<close>.\<close>

definition be16 :: "u8 \<Rightarrow> u8 \<Rightarrow> nat" where
  "be16 hi lo = unat hi * 256 + unat lo"

definition tuya_unit_events :: "u8 \<Rightarrow> u8 \<Rightarrow> u8 \<Rightarrow> tuya_event list" where
  "tuya_unit_events dpid type val =
     (if dpid = 1
      then if type = 4
           then if val = 0 then [mqtt_send_moisture_state_on]
                else if val = 1 then [mqtt_send_moisture_state_off]
                else []  \<comment> \<open>bad value\<close>
           else []  \<comment> \<open>bad type\<close>
      else if dpid = 3
      then if type = 4
           then if val = 0 then [mqtt_send_battery_state_low]
                else if val = 1 then [mqtt_send_battery_state_middle]
                else if val = 2 then [mqtt_send_battery_state_high]
                else []
           else []
      else [])"

definition tuya_parse_status_data_unit :: "u8 list \<Rightarrow> nat \<Rightarrow> (nat \<times> tuya_event list) option" where
  "tuya_parse_status_data_unit sdbuf loc = do {
     dpid \<leftarrow> rd sdbuf loc;
     type \<leftarrow> rd sdbuf (loc + 1);
     lo \<leftarrow> rd sdbuf (loc + 3);
     hi \<leftarrow> rd sdbuf (loc + 2);
     if be16 hi lo = 1
     then do {
       val \<leftarrow> rd sdbuf (loc + 4);
       Some (loc + 5, tuya_unit_events dpid type val)
     }
     else Some (loc + 5, [])
   }"

text \<open>\<open>while (j < k) j = tuya_parse_status_data_unit(queue_buf, j, &c)\<close>\<close>

function tuya_parse_units :: "u8 list \<Rightarrow> nat \<Rightarrow> nat \<Rightarrow> (nat \<times> tuya_event list) option" where
  "tuya_parse_units buf j k =
     (if j < k
      then (case tuya_parse_status_data_unit buf j of
              None \<Rightarrow> None
            | Some (j1, ev) \<Rightarrow>
                (if j1 \<le> j then None  \<comment> \<open>excluded: \<open>j1 = j + 5\<close>\<close>
                 else map_option (\<lambda>(j2, ev2). (j2, ev @ ev2)) (tuya_parse_units buf j1 k)))
      else Some (j, []))"
  by pat_completeness auto
termination
  by (relation "measure (\<lambda>(buf, j, k). k - j)") auto

declare tuya_parse_units.simps [simp del]

section \<open>The scan loop\<close>

text \<open>The body of \<open>while (j < dcnt)\<close>: the next \<open>j\<close>, whether a message was counted, events.\<close>

definition tuya_scan_step :: "u8 list \<Rightarrow> nat \<Rightarrow> (nat \<times> nat \<times> tuya_event list) option" where
  "tuya_scan_step buf j = do {
     b0 \<leftarrow> rd buf j;
     if b0 \<noteq> 0x55 then Some (j + 1, 0, [])
     else do {
       b1 \<leftarrow> rd buf (j + 1);
       if b1 \<noteq> 0xAA then Some (j + 2, 0, [])
       else do {
         b2 \<leftarrow> rd buf (j + 2);
         if b2 \<noteq> 0x00 then Some (j + 3, 0, [])
         else do {
           cmd \<leftarrow> rd buf (j + 3);
           if cmd = 0x05
           then do {
             lo \<leftarrow> rd buf (j + 5);
             hi \<leftarrow> rd buf (j + 4);
             (j1, ev) \<leftarrow> tuya_parse_units buf (j + 6) (j + 6 + be16 hi lo);
             Some (j1 + 1, 1, ev)
           }
           else if cmd = 0x07 then Some (j + 4, 1, [Serial_Write tuya_respond_wifi_func])
           else Some (j + 4, 1, [])
         }
       }
     }
   }"

function tuya_scan :: "u8 list \<Rightarrow> nat \<Rightarrow> nat \<Rightarrow> (nat \<times> tuya_event list) option" where
  "tuya_scan buf dcnt j =
     (if j < dcnt
      then (case tuya_scan_step buf j of
              None \<Rightarrow> None
            | Some (j1, n, ev) \<Rightarrow>
                (if j1 \<le> j then None  \<comment> \<open>excluded: every step moves forward\<close>
                 else map_option (\<lambda>(m, ev2). (n + m, ev @ ev2)) (tuya_scan buf dcnt j1)))
      else Some (0, []))"
  by pat_completeness auto
termination
  by (relation "measure (\<lambda>(buf, dcnt, j). dcnt - j)") auto

declare tuya_scan.simps [simp del]

lemma tuya_unit_forward:
  "tuya_parse_status_data_unit buf j = Some (j1, ev) \<Longrightarrow> j1 = j + 5"
  by (auto simp: tuya_parse_status_data_unit_def bind_eq_Some_conv split: if_splits)

lemma tuya_parse_units_forward:
  "tuya_parse_units buf j k = Some (j1, ev) \<Longrightarrow> j \<le> j1"
proof (induction buf j k arbitrary: j1 ev rule: tuya_parse_units.induct)
  case (1 buf j k)
  then show ?case
    by (subst (asm) (2) tuya_parse_units.simps)
      (fastforce dest: tuya_unit_forward split: if_splits option.splits)
qed

lemma tuya_scan_step_forward:
  "tuya_scan_step buf j = Some (j1, n, ev) \<Longrightarrow> j < j1"
  by (auto simp: tuya_scan_step_def bind_eq_Some_conv split: if_splits
      dest!: tuya_parse_units_forward)

text \<open>The loops without the guards that the termination proofs need.\<close>

lemma tuya_parse_units_unfold:
  "tuya_parse_units buf j k =
     (if j < k
      then do { (j1, ev) \<leftarrow> tuya_parse_status_data_unit buf j;
                (j2, ev2) \<leftarrow> tuya_parse_units buf j1 k;
                Some (j2, ev @ ev2) }
      else Some (j, []))"
  by (subst tuya_parse_units.simps)
    (auto dest: tuya_unit_forward split: option.split simp: map_option_case)

lemma tuya_scan_unfold:
  "tuya_scan buf dcnt j =
     (if j < dcnt
      then do { (j1, n, ev) \<leftarrow> tuya_scan_step buf j;
                (m, ev2) \<leftarrow> tuya_scan buf dcnt j1;
                Some (n + m, ev @ ev2) }
      else Some (0, []))"
  by (subst tuya_scan.simps)
    (auto dest: tuya_scan_step_forward split: option.split simp: map_option_case)

section \<open>One turn of the application loop\<close>

record tuya_state =
  ts_serial :: serial_sys
  ts_queue_buf :: "u8 list"
  ts_published :: "mqtt_msg list"

fun tuya_perform :: "tuya_state \<Rightarrow> tuya_event \<Rightarrow> tuya_state" where
  "tuya_perform st (Mqtt_Publish m) = st\<lparr>ts_published := ts_published st @ [m]\<rparr>"
| "tuya_perform st (Serial_Write bs) = st\<lparr>ts_serial := fst (serial_write (ts_serial st) bs)\<rparr>"

text \<open>\<open>serial_read(queue_buf, sizeof(queue_buf))\<close> overwrites the first bytes of the static
  buffer and leaves the older ones behind them.\<close>

definition tuya_poll :: "tuya_state \<Rightarrow> (tuya_state \<times> nat) option" where
  "tuya_poll st =
     (case serial_read (ss_priv (ts_serial st)) 1024 of (p, dcnt, data) \<Rightarrow>
        let buf = data @ drop (length data) (ts_queue_buf st);
            st1 = st\<lparr>ts_serial := (ts_serial st)\<lparr>ss_priv := p\<rparr>, ts_queue_buf := buf\<rparr>
        in map_option (\<lambda>(msg_cnt, ev). (foldl tuya_perform st1 ev, msg_cnt))
             (tuya_scan buf (nat dcnt) 0))"

section \<open>Frames as the MCU sends them\<close>

text \<open>A one-byte status unit and a report frame of such units, with any checksum byte.\<close>

fun status_unit :: "u8 \<times> u8 \<times> u8 \<Rightarrow> u8 list" where
  "status_unit (dpid, type, val) = [dpid, type, 0, 1, val]"

fun unit_events :: "u8 \<times> u8 \<times> u8 \<Rightarrow> tuya_event list" where
  "unit_events (dpid, type, val) = tuya_unit_events dpid type val"

definition report_frame :: "(u8 \<times> u8 \<times> u8) list \<Rightarrow> u8 \<Rightarrow> u8 list" where
  "report_frame us cs =
     [0x55, 0xAA, 0x00, 0x05, word_of_nat (5 * length us div 256), word_of_nat (5 * length us mod 256)]
     @ concat (map status_unit us) @ [cs]"

lemma be16_of_nat:
  "n < 65536 \<Longrightarrow> be16 (word_of_nat (n div 256)) (word_of_nat (n mod 256)) = n"
  by (simp add: be16_def unat_of_nat)

lemma length_status_unit [simp]: "length (status_unit u) = 5"
  by (cases u) simp

lemma length_units [simp]: "length (concat (map status_unit us)) = 5 * length us"
  by (induction us) auto

lemma unit_at:
  "tuya_parse_status_data_unit (pre @ status_unit u @ post) (length pre)
     = Some (length pre + 5, unit_events u)"
  by (cases u) (simp add: tuya_parse_status_data_unit_def nth_append be16_def)

lemma units_at:
  "tuya_parse_units (pre @ concat (map status_unit us) @ post) (length pre) (length pre + 5 * length us)
     = Some (length pre + 5 * length us, concat (map unit_events us))"
proof (induction us arbitrary: pre)
  case Nil
  then show ?case by (subst tuya_parse_units_unfold) simp
next
  case (Cons u us)
  have "tuya_parse_units ((pre @ status_unit u) @ concat (map status_unit us) @ post)
      (length pre + 5) (length pre + 5 + 5 * length us)
    = Some (length pre + 5 + 5 * length us, concat (map unit_events us))"
    using Cons.IH[of "pre @ status_unit u"] by simp
  then show ?case
    using unit_at[of pre u "concat (map status_unit us) @ post"]
    by (subst tuya_parse_units_unfold) (simp add: add.assoc add.commute)
qed

lemma frame_step:
  assumes "5 * length us < 65536"
  shows "tuya_scan_step (pre @ report_frame us cs @ post) (length pre)
    = Some (length pre + length (report_frame us cs), 1, concat (map unit_events us))"
proof -
  let ?h = "[0x55, 0xAA, 0x00, 0x05, word_of_nat (5 * length us div 256),
      word_of_nat (5 * length us mod 256)] :: u8 list"
  have l: "length (pre @ ?h) = length pre + 6" by simp
  have "tuya_parse_units ((pre @ ?h) @ concat (map status_unit us) @ (cs # post))
      (length pre + 6) (length pre + 6 + 5 * length us)
    = Some (length pre + 6 + 5 * length us, concat (map unit_events us))"
    using units_at[of "pre @ ?h" us "cs # post"] unfolding l .
  then show ?thesis
    using be16_of_nat[OF assms]
    by (simp add: tuya_scan_step_def report_frame_def nth_append add.assoc)
qed

section \<open>Properties\<close>

lemma tuya_scan_frames:
  assumes "\<forall>(us, cs) \<in> set fs. 5 * length us < 65536"
  shows "tuya_scan (pre @ concat (map (\<lambda>(us, cs). report_frame us cs) fs) @ stale)
      (length pre + length (concat (map (\<lambda>(us, cs). report_frame us cs) fs))) (length pre)
    = Some (length fs, concat (map (\<lambda>(us, cs). concat (map unit_events us)) fs))"
  using assms
proof (induction fs arbitrary: pre)
  case Nil
  then show ?case by (subst tuya_scan_unfold) simp
next
  case (Cons f fs)
  obtain us cs where f: "f = (us, cs)" by fastforce
  let ?rest = "concat (map (\<lambda>(us, cs). report_frame us cs) fs)"
  have ne: "report_frame us cs \<noteq> []" by (simp add: report_frame_def)
  have "tuya_scan ((pre @ report_frame us cs) @ ?rest @ stale)
      (length pre + length (report_frame us cs) + length ?rest)
      (length pre + length (report_frame us cs))
    = Some (length fs, concat (map (\<lambda>(us, cs). concat (map unit_events us)) fs))"
    using Cons.IH[of "pre @ report_frame us cs"] Cons.prems by simp
  then show ?case
    using frame_step[of us pre cs "?rest @ stale"] Cons.prems f ne
    by (subst tuya_scan_unfold) (simp add: add.assoc)
qed

text \<open>C37. A block of consecutive report frames is understood completely: the scan counts every
  frame and produces exactly the MQTT messages of its status units, in order, whatever the
  checksum bytes and whatever stale bytes follow in the buffer.\<close>

theorem tuya_scan_reports:
  assumes "\<forall>(us, cs) \<in> set frames. 5 * length us < 65536"
    and "n = length (concat (map (\<lambda>(us, cs). report_frame us cs) frames))"
  shows "tuya_scan (concat (map (\<lambda>(us, cs). report_frame us cs) frames) @ stale) n 0
    = Some (length frames, concat (map (\<lambda>(us, cs). concat (map unit_events us)) frames))"
  using tuya_scan_frames[of frames "[]"] assms by simp

text \<open>Line noise is harmless: a block without the byte 55 produces no event.\<close>

theorem tuya_scan_noise:
  assumes "n \<le> length buf" "0x55 \<notin> set (take n buf)"
  shows "tuya_scan buf n j = Some (0, [])"
proof (induction "n - j" arbitrary: j)
  case 0
  then show ?case by (subst tuya_scan_unfold) simp
next
  case (Suc d)
  then have j: "j < n" by simp
  then have "buf ! j \<noteq> 0x55"
    using assms by (metis in_set_conv_nth length_take min.absorb2 nth_take)
  then have "tuya_scan_step buf j = Some (j + 1, 0, [])"
    using j assms(1) by (simp add: tuya_scan_step_def)
  moreover have "tuya_scan buf n (j + 1) = Some (0, [])" using Suc by simp
  ultimately show ?case by (subst tuya_scan_unfold) simp
qed

lemma units_overrun:
  "length buf + 2 \<le> k \<Longrightarrow> j < k \<Longrightarrow> tuya_parse_units buf j k = None"
proof (induction "k - j" arbitrary: j rule: less_induct)
  case less
  show ?case
  proof (cases "tuya_parse_status_data_unit buf j")
    case None
    with less.prems show ?thesis by (subst tuya_parse_units_unfold) simp
  next
    case (Some r)
    then obtain ev where r: "tuya_parse_status_data_unit buf j = Some (j + 5, ev)"
      by (cases r) (auto dest: tuya_unit_forward)
    then have "j + 3 < length buf"
      by (auto simp: tuya_parse_status_data_unit_def bind_eq_Some_conv rd_eq_Some_iff)
    then have "tuya_parse_units buf (j + 5) k = None"
      using less.hyps[of "j + 5"] less.prems by simp
    with r less.prems show ?thesis by (subst tuya_parse_units_unfold) simp
  qed
qed

text \<open>The declared length of a report is trusted: when it points beyond the buffer, the
  scan reads outside \<open>queue_buf\<close>, for any bytes the buffer holds.\<close>

theorem tuya_scan_overrun:
  assumes "take 4 buf = [0x55, 0xAA, 0x00, 0x05]" "6 \<le> length buf"
    "length buf \<le> be16 (buf ! 4) (buf ! 5) + 4" "0 < n"
  shows "tuya_scan buf n 0 = None"
proof -
  obtain b4 b5 rest where buf: "buf = [0x55, 0xAA, 0x00, 0x05, b4, b5] @ rest"
    using assms(1,2)
    by (cases buf; cases "tl buf"; cases "tl (tl buf)"; cases "tl (tl (tl buf))";
        cases "tl (tl (tl (tl buf)))"; cases "tl (tl (tl (tl (tl buf))))") auto
  have "tuya_parse_units buf 6 (6 + be16 b4 b5) = None"
    by (rule units_overrun) (use assms(3) in \<open>simp_all add: buf\<close>)
  then have "tuya_scan_step buf 0 = None"
    by (simp add: tuya_scan_step_def buf)
  then show ?thesis using assms(4) by (subst tuya_scan_unfold) simp
qed

definition tuya_known_events :: "tuya_event set" where
  "tuya_known_events =
     {mqtt_send_battery_state_low, mqtt_send_battery_state_middle, mqtt_send_battery_state_high,
      mqtt_send_moisture_state_on, mqtt_send_moisture_state_off,
      Serial_Write tuya_respond_wifi_func}"

lemma unit_events_known: "set (tuya_unit_events d t v) \<subseteq> tuya_known_events"
  by (auto simp: tuya_unit_events_def tuya_known_events_def)

lemma units_events_known:
  "tuya_parse_units buf j k = Some (j1, ev) \<Longrightarrow> set ev \<subseteq> tuya_known_events"
proof (induction "k - j" arbitrary: j ev rule: less_induct)
  case less
  show ?case
  proof (cases "j < k")
    case True
    with less.prems obtain j2 e1 e2 where
      u: "tuya_parse_status_data_unit buf j = Some (j2, e1)"
        "tuya_parse_units buf j2 k = Some (j1, e2)" "ev = e1 @ e2"
      by (subst (asm) tuya_parse_units_unfold) (auto simp: bind_eq_Some_conv split: prod.splits)
    have "j2 = j + 5" using u(1) by (rule tuya_unit_forward)
    moreover have "set e1 \<subseteq> tuya_known_events"
      using u(1) unit_events_known
      by (auto simp: tuya_parse_status_data_unit_def bind_eq_Some_conv split: if_splits)
    ultimately show ?thesis using less.hyps[of j2 e2] u True by auto
  next
    case False
    with less.prems show ?thesis by (subst (asm) tuya_parse_units_unfold) simp
  qed
qed

lemma scan_step_known:
  "tuya_scan_step buf j = Some (j1, n, ev) \<Longrightarrow> set ev \<subseteq> tuya_known_events"
  by (auto simp: tuya_scan_step_def bind_eq_Some_conv tuya_known_events_def split: if_splits
      dest!: units_events_known)

lemma scan_known:
  assumes "tuya_scan buf n j = Some (m, ev)"
  shows "set ev \<subseteq> tuya_known_events"
  using assms
proof (induction "n - j" arbitrary: j m ev rule: less_induct)
  case less
  show ?case
  proof (cases "j < n")
    case True
    with less.prems obtain j1 c e1 m2 e2 where
      s: "tuya_scan_step buf j = Some (j1, c, e1)" "tuya_scan buf n j1 = Some (m2, e2)" "ev = e1 @ e2"
      by (subst (asm) tuya_scan_unfold) (auto simp: bind_eq_Some_conv split: prod.splits)
    then show ?thesis
      using less.hyps[of j1 m2 e2] True tuya_scan_step_forward[OF s(1)] scan_step_known[OF s(1)]
      by auto
  next
    case False
    with less.prems show ?thesis by (subst (asm) tuya_scan_unfold) simp
  qed
qed

text \<open>Whatever the MCU sends, the loop publishes nothing but the two moisture and the
  three battery messages and writes nothing to the MCU but the WiFi test answer.\<close>

theorem tuya_scan_events_known:
  assumes "tuya_scan buf n j = Some (m, ev)"
  shows "set ev \<subseteq> tuya_known_events"
  by (rule scan_known[OF assms])

section \<open>From the UART to the published messages\<close>

fun published :: "tuya_event list \<Rightarrow> mqtt_msg list" where
  "published [] = []"
| "published (Mqtt_Publish m # ev) = m # published ev"
| "published (Serial_Write bs # ev) = published ev"

lemma foldl_perform_published:
  "ts_published (foldl tuya_perform st ev) = ts_published st @ published ev"
  by (induction ev arbitrary: st rule: published.induct) simp_all

lemma foldl_perform_serial:
  "ss_priv (ts_serial (foldl tuya_perform st ev)) = ss_priv (ts_serial st)"
  by (induction ev arbitrary: st rule: published.induct)
    (simp_all add: serial_write_def split: prod.split)

text \<open>One turn of the application loop on a received block of report frames: the block
  leaves the serial driver's queue and exactly the messages of its status units are published,
  in order.\<close>

theorem tuya_poll_reports:
  assumes "serial_ready (ss_priv (ts_serial st))"
    and "chunks (ss_priv (ts_serial st)) = concat (map (\<lambda>(us, cs). report_frame us cs) frames) # rest"
  shows "\<exists>st'. tuya_poll st = Some (st', length frames) \<and>
    ts_published st' = ts_published st
      @ published (concat (map (\<lambda>(us, cs). concat (map unit_events us)) frames)) \<and>
    chunks (ss_priv (ts_serial st')) = rest"
proof -
  let ?block = "concat (map (\<lambda>(us, cs). report_frame us cs) frames)"
  let ?ev = "concat (map (\<lambda>(us, cs). concat (map unit_events us)) frames)"
  obtain p where p: "serial_read (ss_priv (ts_serial st)) 1024 = (p, int (length ?block), ?block)"
    "chunks p = rest" and le: "length ?block \<le> 32"
    using serial_ready_read_any[OF assms(1), of 1024] assms(2) by auto
  have "5 * length us < 65536" if "(us, cs) \<in> set frames" for us cs
  proof -
    have "length (report_frame us cs) \<le> length ?block"
      using that by (force simp: length_concat intro!: member_le_sum_list)
    then show ?thesis using le by (simp add: report_frame_def)
  qed
  then have "tuya_scan (?block @ drop (length ?block) (ts_queue_buf st)) (length ?block) 0
      = Some (length frames, ?ev)"
    using tuya_scan_frames[of frames "[]"] by fastforce
  then show ?thesis
    using p by (simp add: tuya_poll_def Let_def foldl_perform_published foldl_perform_serial)
qed

section \<open>Witnesses\<close>

lemma tuya_scan_reports_witness:
  "tuya_scan (report_frame [(1, 4, 0), (3, 4, 2)] 0x99 @ [0x55]) 17 0
     = Some (1, [mqtt_send_moisture_state_on, mqtt_send_battery_state_high])"
  using tuya_scan_reports[of "[([(1, 4, 0), (3, 4, 2)], 0x99)]" 17 "[0x55]"]
  by (simp add: report_frame_def tuya_unit_events_def)

lemma tuya_scan_noise_witness: "tuya_scan [0x00, 0xAA, 0x13, 0x55] 3 0 = Some (0, [])"
  by (rule tuya_scan_noise) simp_all

lemma tuya_scan_overrun_witness:
  "tuya_scan ([0x55, 0xAA, 0x00, 0x05, 0xFF, 0xFF] @ replicate 1018 0) 7 0 = None"
  by (rule tuya_scan_overrun) (simp_all add: be16_def)

lemma tuya_scan_events_known_witness:
  "tuya_scan [0x55, 0xAA, 0x00, 0x07] 4 0 = Some (1, [Serial_Write tuya_respond_wifi_func]) \<and>
   set [Serial_Write tuya_respond_wifi_func] \<subseteq> tuya_known_events"
proof -
  have "tuya_scan [0x55, 0xAA, 0x00, 0x07] 4 0 = Some (1, [Serial_Write tuya_respond_wifi_func])"
    by (subst tuya_scan_unfold, subst tuya_scan_unfold) (simp add: tuya_scan_step_def)
  with tuya_scan_events_known[OF this] show ?thesis by simp
qed

abbreviation moisture_block :: "u8 list" where
  "moisture_block \<equiv> [0x55, 0xAA, 0x00, 0x05, 0x00, 0x05, 1, 4, 0, 1, 0, 0x0F]"

abbreviation started :: serial_priv where
  "started \<equiv> (serial_priv_zero 1 True)\<lparr>sp_state := SERIAL_STATE_START\<rparr>"

lemma moisture_serial:
  "serial_ready (isr_state (serial_rx_callback started moisture_block))"
  "chunks (isr_state (serial_rx_callback started moisture_block)) = [moisture_block]"
proof -
  show "serial_ready (isr_state (serial_rx_callback started moisture_block))"
    by (rule rx_callback_ready[OF serial_ready_zero])
  have "chunks started = []" "sc_cnt started = 0"
    by (simp_all add: chunks_def serial_priv_zero_def)
  then show "chunks (isr_state (serial_rx_callback started moisture_block)) = [moisture_block]"
    using rx_callback_inv(2)[of started moisture_block] by (simp add: serial_inv_frame Let_def)
qed

lemma tuya_poll_reports_witness:
  "\<exists>st'. tuya_poll \<lparr>ts_serial = \<lparr>ss_priv = isr_state (serial_rx_callback started moisture_block),
        ss_hal = \<lparr>hu_priv = Map.empty, hu_tx = \<lambda>_. []\<rparr>\<rparr>,
      ts_queue_buf = replicate 1024 0, ts_published = []\<rparr> = Some (st', 1) \<and>
    ts_published st' = published [mqtt_send_moisture_state_on]"
  using tuya_poll_reports[of "\<lparr>ts_serial = \<lparr>ss_priv = isr_state (serial_rx_callback started
        moisture_block), ss_hal = \<lparr>hu_priv = Map.empty, hu_tx = \<lambda>_. []\<rparr>\<rparr>,
      ts_queue_buf = replicate 1024 0, ts_published = []\<rparr>" "[([(1, 4, 0)], 0x0F)]" "[]"]
    moisture_serial
  by (auto simp: report_frame_def tuya_unit_events_def)

end
