(* ===== verification/MqttPacket.thy ===== *)
theory MqttPacket
  imports Prelude
begin

unbundle bit_operations_syntax

text \<open>
  The primitives of the MQTT packet layer, \<^verbatim>\<open>src/net/mqtt/MQTTPacket/MQTTPacket.c\<close>: the
  variable-length encoding of the remaining length, the reading and writing of characters,
  16-bit integers and length-delimited strings, and the packet readers.  A write position is a
  pair of the memory and an index, a read position an index; \<^term>\<open>None\<close> is an access outside
  the memory.  C's \<open>int\<close> is \<^typ>\<open>int\<close>: lengths stay far below \<open>2 ^ 31\<close>, and C's \<open>/\<close> and
  \<open>%\<close> are the truncating \<open>sdiv\<close> and \<open>smod\<close>.
\<close>

named_theorems mqtt_io \<open>reading and writing at a position\<close>

section \<open>Constants and headers\<close>

abbreviation (input) MQTTPACKET_BUFFER_TOO_SHORT :: int where "MQTTPACKET_BUFFER_TOO_SHORT \<equiv> -2"
abbreviation (input) MQTTPACKET_READ_ERROR :: int where "MQTTPACKET_READ_ERROR \<equiv> -1"

abbreviation (input) CONNECT :: u8 where "CONNECT \<equiv> 1"
abbreviation (input) CONNACK :: u8 where "CONNACK \<equiv> 2"
abbreviation (input) PUBLISH :: u8 where "PUBLISH \<equiv> 3"
abbreviation (input) PUBACK :: u8 where "PUBACK \<equiv> 4"
abbreviation (input) PUBREC :: u8 where "PUBREC \<equiv> 5"
abbreviation (input) PUBREL :: u8 where "PUBREL \<equiv> 6"
abbreviation (input) PUBCOMP :: u8 where "PUBCOMP \<equiv> 7"
abbreviation (input) SUBSCRIBE :: u8 where "SUBSCRIBE \<equiv> 8"
abbreviation (input) SUBACK :: u8 where "SUBACK \<equiv> 9"
abbreviation (input) UNSUBSCRIBE :: u8 where "UNSUBSCRIBE \<equiv> 10"
abbreviation (input) UNSUBACK :: u8 where "UNSUBACK \<equiv> 11"
abbreviation (input) PINGREQ :: u8 where "PINGREQ \<equiv> 12"
abbreviation (input) PINGRESP :: u8 where "PINGRESP \<equiv> 13"
abbreviation (input) DISCONNECT :: u8 where "DISCONNECT \<equiv> 14"

text \<open>The union \<open>MQTTHeader\<close>: storing to a bit field keeps its low bits.\<close>

definition MQTTHeader_byte :: "u8 \<Rightarrow> u8 \<Rightarrow> u8 \<Rightarrow> u8 \<Rightarrow> u8" where
  "MQTTHeader_byte type dup qos retain =
     push_bit 4 (type AND 15) OR push_bit 3 (dup AND 1) OR push_bit 1 (qos AND 3) OR (retain AND 1)"

definition header_type :: "u8 \<Rightarrow> u8" where "header_type b = drop_bit 4 b"
definition header_dup :: "u8 \<Rightarrow> u8" where "header_dup b = drop_bit 3 b AND 1"
definition header_qos :: "u8 \<Rightarrow> u8" where "header_qos b = drop_bit 1 b AND 3"
definition header_retain :: "u8 \<Rightarrow> u8" where "header_retain b = b AND 1"

section \<open>The remaining length\<close>

lemma sdiv_smod_nonneg [mqtt_io]:
  fixes n :: int
  shows "0 \<le> n \<Longrightarrow> 0 < k \<Longrightarrow> n sdiv k = n div k" "0 \<le> n \<Longrightarrow> 0 < k \<Longrightarrow> n smod k = n mod k"
  by (auto simp: signed_divide_int_def signed_modulo_int_def sgn_if)

lemma sdiv_pos_imp_pos:
  fixes n :: int
  assumes "0 < n sdiv 128"
  shows "0 < n"
proof (rule ccontr)
  assume "\<not> 0 < n"
  then have "- ((- n) div 128) \<le> 0" "n \<le> 0" by (simp_all add: pos_imp_zdiv_nonneg_iff)
  with assms show False by (cases "n = 0") (auto simp: signed_divide_int_def sgn_if)
qed

function MQTTPacket_encode :: "int \<Rightarrow> u8 list" where
  "MQTTPacket_encode n =
     (let d = word_of_int (n smod 128); n1 = n sdiv 128
      in if n1 > 0 then (d OR 0x80) # MQTTPacket_encode n1 else [d])"
  by pat_completeness auto
termination
proof (relation "measure nat", goal_cases)
  case (2 n d n1)
  then have "0 < n" using sdiv_pos_imp_pos by simp
  with 2 show ?case by (simp add: sdiv_smod_nonneg)
qed simp

declare MQTTPacket_encode.simps [simp del]

text \<open>
  The decoder over any source of single characters: a step returns the source's new state, the
  value of \<open>getcharfn\<close> and the character, or \<^term>\<open>None\<close> when it accesses memory out of
  bounds.  Result: the source's state, the bytes counted and the value.
\<close>

type_synonym 's getchar = "'s \<Rightarrow> ('s \<times> int \<times> u8) option"

abbreviation (input) MAX_NO_OF_REMAINING_LENGTH_BYTES :: nat where
  "MAX_NO_OF_REMAINING_LENGTH_BYTES \<equiv> 4"

function MQTTPacket_decode_loop ::
  "'s getchar \<Rightarrow> 's \<Rightarrow> nat \<Rightarrow> int \<Rightarrow> int \<Rightarrow> ('s \<times> nat \<times> int) option" where
  "MQTTPacket_decode_loop getc s len val mult =
     (if len + 1 > MAX_NO_OF_REMAINING_LENGTH_BYTES then Some (s, len + 1, val)
      else case getc s of
             None \<Rightarrow> None
           | Some (s1, rc, c) \<Rightarrow>
               if rc \<noteq> 1 then Some (s1, len + 1, val)
               else let val1 = val + uint (c AND 127) * mult
                    in if c AND 128 \<noteq> 0
                       then MQTTPacket_decode_loop getc s1 (len + 1) val1 (mult * 128)
                       else Some (s1, len + 1, val1))"
  by pat_completeness auto
termination
  by (relation "measure (\<lambda>(getc, s, len, val, mult). MAX_NO_OF_REMAINING_LENGTH_BYTES - len)") auto

declare MQTTPacket_decode_loop.simps [simp del]

definition MQTTPacket_decode :: "'s getchar \<Rightarrow> 's \<Rightarrow> ('s \<times> nat \<times> int) option" where
  "MQTTPacket_decode getc s = MQTTPacket_decode_loop getc s 0 0 1"

definition MQTTPacket_len :: "int \<Rightarrow> int" where
  "MQTTPacket_len rem_len =
     (let r = rem_len + 1
      in if r < 128 then r + 1 else if r < 16384 then r + 2
         else if r < 2097151 then r + 3 else r + 4)"

text \<open>\<open>bufchar\<close> reads through the static pointer \<open>bufptr\<close>, here the state.\<close>

definition bufchar :: "u8 list \<Rightarrow> nat getchar" where
  "bufchar buf p = map_option (\<lambda>c. (p + 1, 1, c)) (rd buf p)"

definition MQTTPacket_decodeBuf :: "u8 list \<Rightarrow> nat \<Rightarrow> (nat \<times> int) option" where
  "MQTTPacket_decodeBuf buf p = map_option snd (MQTTPacket_decode (bufchar buf) p)"

section \<open>Reading\<close>

definition readInt :: "u8 list \<Rightarrow> nat \<Rightarrow> (int \<times> nat) option" where
  "readInt buf p = do {
     hi \<leftarrow> rd buf p; lo \<leftarrow> rd buf (p + 1);
     Some (256 * uint hi + uint lo, p + 2) }"

definition readChar :: "u8 list \<Rightarrow> nat \<Rightarrow> (u8 \<times> nat) option" where
  "readChar buf p = do { c \<leftarrow> rd buf p; Some (c, p + 1) }"

section \<open>Writing\<close>

type_synonym wpos = "u8 list \<times> nat"

definition put_bytes :: "u8 list \<Rightarrow> wpos \<Rightarrow> wpos option" where
  "put_bytes bs w =
     (case w of (m, p) \<Rightarrow> map_option (\<lambda>m1. (m1, p + length bs)) (wr_block m p bs))"

definition writeChar :: "u8 \<Rightarrow> wpos \<Rightarrow> wpos option" where
  "writeChar c = put_bytes [c]"

definition int_bytes :: "int \<Rightarrow> u8 list" where
  "int_bytes n = [word_of_int (n sdiv 256), word_of_int (n smod 256)]"

definition writeInt :: "int \<Rightarrow> wpos \<Rightarrow> wpos option" where
  "writeInt n = put_bytes (int_bytes n)"

definition writeCString :: "u8 list \<Rightarrow> wpos \<Rightarrow> wpos option" where
  "writeCString s w = do { w \<leftarrow> writeInt (int (length s)) w; put_bytes s w }"

section \<open>MQTT strings\<close>

text \<open>\<open>MQTTString\<close>: a C string (\<^term>\<open>None\<close>: \<open>NULL\<close>; otherwise its bytes without the NUL)
  and a length-delimited string, of whose data the bytes at the pointer are kept.\<close>

record MQTTString =
  ms_cstring :: "u8 list option"
  ms_len :: int
  ms_data :: "u8 list option"

definition MQTTString_initializer :: MQTTString where
  "MQTTString_initializer = \<lparr>ms_cstring = None, ms_len = 0, ms_data = None\<rparr>"

text \<open>\<open>memcpy(ptr, data, n)\<close> from a source of which the listed bytes may be read; a
  negative \<open>n\<close> is a huge \<open>size_t\<close>.\<close>

definition put_memcpy :: "u8 list option \<Rightarrow> int \<Rightarrow> wpos \<Rightarrow> wpos option" where
  "put_memcpy data n w =
     (if n < 0 then None
      else if n = 0 then Some w
      else do { d \<leftarrow> data; bs \<leftarrow> rd_block d 0 (nat n); put_bytes bs w })"

definition writeMQTTString :: "MQTTString \<Rightarrow> wpos \<Rightarrow> wpos option" where
  "writeMQTTString s w =
     (if ms_len s > 0
      then do { w \<leftarrow> writeInt (ms_len s) w; put_memcpy (ms_data s) (ms_len s) w }
      else case ms_cstring s of
             Some cs \<Rightarrow> writeCString cs w
           | None \<Rightarrow> writeInt 0 w)"

text \<open>\<open>getLenStringLen\<close> reads a big-endian 16-bit length at a pointer.\<close>

definition getLenStringLen :: "u8 list \<Rightarrow> nat \<Rightarrow> int option" where
  "getLenStringLen buf p = do { hi \<leftarrow> rd buf p; lo \<leftarrow> rd buf (p + 1); Some (256 * uint hi + uint lo) }"

text \<open>
  Result: success, the string (whose length is set even on failure when two bytes were there)
  and the new position.  \<open>enddata\<close> is a pointer that may lie outside the buffer.
\<close>

definition readMQTTLenString ::
  "MQTTString \<Rightarrow> u8 list \<Rightarrow> nat \<Rightarrow> int \<Rightarrow> (bool \<times> MQTTString \<times> nat) option" where
  "readMQTTLenString s buf p enddata =
     (if enddata - int p > 1
      then do {
        (len, p1) \<leftarrow> readInt buf p;
        let s1 = s\<lparr>ms_len := len, ms_cstring := None\<rparr>;
        if int p1 + len \<le> enddata
        then Some (True, s1\<lparr>ms_data := Some (take (nat len) (drop p1 buf))\<rparr>, p1 + nat len)
        else Some (False, s1, p1)
      }
      else Some (False, s\<lparr>ms_cstring := None\<rparr>, p))"

definition MQTTstrlen :: "MQTTString \<Rightarrow> int" where
  "MQTTstrlen s = (case ms_cstring s of Some cs \<Rightarrow> int (length cs) | None \<Rightarrow> ms_len s)"

definition MQTTPacket_equals :: "MQTTString \<Rightarrow> u8 list \<Rightarrow> bool option" where
  "MQTTPacket_equals a b =
     (let aptr = (case ms_cstring a of Some cs \<Rightarrow> cs
                  | None \<Rightarrow> (case ms_data a of Some d \<Rightarrow> d | None \<Rightarrow> []));
          alen = MQTTstrlen a
      in if alen = int (length b)
         then do { bs \<leftarrow> rd_block aptr 0 (nat alen); Some (bs = b) }
         else Some False)"

section \<open>Reading a packet from a source\<close>

text \<open>A source \<open>getfn(buf, n)\<close>: its state, its value and the bytes it stored.\<close>

type_synonym 's getfn = "'s \<Rightarrow> int \<Rightarrow> 's \<times> int \<times> u8 list"

definition getfn_char :: "'s getfn \<Rightarrow> 's getchar" where
  "getfn_char getfn s =
     (case getfn s 1 of (s1, rc, bs) \<Rightarrow> Some (s1, rc, (case bs of b # _ \<Rightarrow> b | [] \<Rightarrow> 0)))"

text \<open>The result: the buffer, the source's state and the packet type or \<open>-1\<close>.\<close>

definition MQTTPacket_read ::
  "u8 list \<Rightarrow> int \<Rightarrow> 's getfn \<Rightarrow> 's \<Rightarrow> (u8 list \<times> 's \<times> int) option" where
  "MQTTPacket_read buf buflen getfn s =
     (case getfn s 1 of (s1, rc1, b1) \<Rightarrow> do {
        buf1 \<leftarrow> wr_block buf 0 b1;
        if rc1 \<noteq> 1 then Some (buf1, s1, -1)
        else do {
          (s2, _, rem_len) \<leftarrow> MQTTPacket_decode (getfn_char getfn) s1;
          buf2 \<leftarrow> wr_block buf1 1 (MQTTPacket_encode rem_len);
          let len = 1 + length (MQTTPacket_encode rem_len);
          if rem_len + int len > buflen then Some (buf2, s2, -1)
          else case getfn s2 rem_len of (s3, rc3, b3) \<Rightarrow> do {
            buf3 \<leftarrow> wr_block buf2 len b3;
            if rc3 \<noteq> rem_len then Some (buf3, s3, -1)
            else do { h \<leftarrow> rd buf3 0; Some (buf3, s3, uint (header_type h)) }
          }
        }
      })"

text \<open>
  The non-blocking reader, \<open>MQTTPacket_readnb\<close>: what the transport keeps between calls is its
  state, the length counted so far and the remaining length.  \<open>getfn\<close> gives \<open>-1\<close> for an error
  and \<open>0\<close> for "call again".
\<close>

record MQTTTransport =
  tr_multiplier :: int
  tr_rem_len :: int
  tr_len :: int
  tr_state :: int

function MQTTPacket_decodenb_loop ::
  "'s getfn \<Rightarrow> MQTTTransport \<Rightarrow> 's \<Rightarrow> MQTTTransport \<times> 's \<times> int" where
  "MQTTPacket_decodenb_loop getfn t s =
     (let t1 = t\<lparr>tr_len := tr_len t + 1\<rparr>
      in if tr_len t1 > int MAX_NO_OF_REMAINING_LENGTH_BYTES then (t1, s, MQTTPACKET_READ_ERROR)
         else case getfn s 1 of (s1, frc, bs) \<Rightarrow>
           if frc = -1 then (t1, s1, MQTTPACKET_READ_ERROR)
           else if frc = 0 then (t1, s1, 0)
           else let c = (case bs of b # _ \<Rightarrow> b | [] \<Rightarrow> 0);
                    t2 = t1\<lparr>tr_rem_len := tr_rem_len t1 + uint (c AND 127) * tr_multiplier t1,
                            tr_multiplier := tr_multiplier t1 * 128\<rparr>
                in if c AND 128 \<noteq> 0 then MQTTPacket_decodenb_loop getfn t2 s1
                   else (t2, s1, tr_len t2))"
  by pat_completeness auto
termination
  by (relation "measure (\<lambda>(getfn, t, s). nat (int MAX_NO_OF_REMAINING_LENGTH_BYTES - tr_len t))") auto

declare MQTTPacket_decodenb_loop.simps [simp del]

definition MQTTPacket_decodenb ::
  "'s getfn \<Rightarrow> MQTTTransport \<Rightarrow> 's \<Rightarrow> MQTTTransport \<times> 's \<times> int" where
  "MQTTPacket_decodenb getfn t s =
     MQTTPacket_decodenb_loop getfn
       (if tr_len t = 0 then t\<lparr>tr_multiplier := 1, tr_rem_len := 0\<rparr> else t) s"

text \<open>The label \<open>exit\<close> resets the state; the two \<open>return 0\<close> do not.\<close>

type_synonym 's readnb_result = "(u8 list \<times> MQTTTransport \<times> 's \<times> int) option"

definition readnb_exit :: "u8 list \<Rightarrow> MQTTTransport \<Rightarrow> 's \<Rightarrow> int \<Rightarrow> 's readnb_result" where
  "readnb_exit buf t s rc = Some (buf, t\<lparr>tr_state := 0\<rparr>, s, rc)"

definition readnb_case2 :: "u8 list \<Rightarrow> 's getfn \<Rightarrow> MQTTTransport \<Rightarrow> 's \<Rightarrow> 's readnb_result" where
  "readnb_case2 buf getfn t s =
     (case getfn s (tr_rem_len t) of (s1, frc, bs) \<Rightarrow> do {
        buf1 \<leftarrow> wr_block buf (nat (tr_len t)) bs;
        if frc = -1 then readnb_exit buf1 t s1 (-1)
        else if frc = 0 then Some (buf1, t, s1, 0)
        else let t1 = t\<lparr>tr_rem_len := tr_rem_len t - frc, tr_len := tr_len t + frc\<rparr>
             in if tr_rem_len t1 \<noteq> 0 then Some (buf1, t1, s1, 0)
                else do { h \<leftarrow> rd buf1 0; readnb_exit buf1 t1 s1 (uint (header_type h)) }
      })"

definition readnb_case1 ::
  "u8 list \<Rightarrow> int \<Rightarrow> 's getfn \<Rightarrow> MQTTTransport \<Rightarrow> 's \<Rightarrow> 's readnb_result" where
  "readnb_case1 buf buflen getfn t s =
     (case MQTTPacket_decodenb getfn t s of (t1, s1, frc) \<Rightarrow>
        if frc = MQTTPACKET_READ_ERROR then readnb_exit buf t1 s1 (-1)
        else if frc = 0 then Some (buf, t1, s1, 0)
        else do {
          buf1 \<leftarrow> wr_block buf 1 (MQTTPacket_encode (tr_rem_len t1));
          let t2 = t1\<lparr>tr_len := 1 + int (length (MQTTPacket_encode (tr_rem_len t1)))\<rparr>;
          if tr_rem_len t2 + tr_len t2 > buflen then readnb_exit buf1 t2 s1 (-1)
          else readnb_case2 buf1 getfn (t2\<lparr>tr_state := tr_state t2 + 1\<rparr>) s1
        })"

definition readnb_case0 ::
  "u8 list \<Rightarrow> int \<Rightarrow> 's getfn \<Rightarrow> MQTTTransport \<Rightarrow> 's \<Rightarrow> 's readnb_result" where
  "readnb_case0 buf buflen getfn t s =
     (case getfn s 1 of (s1, frc, bs) \<Rightarrow> do {
        buf1 \<leftarrow> wr_block buf 0 bs;
        if frc = -1 then readnb_exit buf1 t s1 (-1)
        else if frc = 0 then Some (buf1, t, s1, 0)
        else readnb_case1 buf1 buflen getfn (t\<lparr>tr_len := 0, tr_state := tr_state t + 1\<rparr>) s1
      })"

definition MQTTPacket_readnb ::
  "u8 list \<Rightarrow> int \<Rightarrow> 's getfn \<Rightarrow> MQTTTransport \<Rightarrow> 's \<Rightarrow> 's readnb_result" where
  "MQTTPacket_readnb buf buflen getfn t s =
     (if tr_state t = 1 then readnb_case1 buf buflen getfn t s
      else if tr_state t = 2 then readnb_case2 buf getfn t s
      else readnb_case0 buf buflen getfn (t\<lparr>tr_state := 0\<rparr>) s)"

section \<open>Writers compose\<close>

lemma put_put [mqtt_io]: "put_bytes a w \<bind> put_bytes b = put_bytes (a @ b) w"
proof (cases w)
  case (Pair m p)
  show ?thesis
  proof (cases "p + length a + length b \<le> length m")
    case True
    then have "wr_block m p a \<noteq> None" by (simp add: wr_block_def)
    then obtain m1 where m1: "wr_block m p a = Some m1" by blast
    then show ?thesis
      using wr_block_append[OF True] by (simp add: put_bytes_def Pair add.assoc)
  next
    case False
    then show ?thesis
      by (auto simp: put_bytes_def Pair wr_block_def Option.bind_eq_None_conv add.assoc)
  qed
qed

lemma put_put_then [mqtt_io]:
  "put_bytes a w \<bind> (\<lambda>w. put_bytes b w \<bind> f) = put_bytes (a @ b) w \<bind> f"
  by (simp add: put_put[symmetric] Option.bind_assoc)

lemma put_nil [mqtt_io]: "p \<le> length m \<Longrightarrow> put_bytes [] (m, p) = Some (m, p)"
  by (simp add: put_bytes_def wr_block_def)

lemma put_bytes_start [mqtt_io]:
  "length bs \<le> length m \<Longrightarrow> put_bytes bs (m, 0) = Some (bs @ drop (length bs) m, length bs)"
  by (simp add: put_bytes_def wr_block_def)

section \<open>The remaining length: lemmas\<close>

lemma uint_and_127 [mqtt_io]: "uint ((c :: u8) AND 127) = uint c mod 128"
proof -
  have "c AND 127 = take_bit 7 c" by (simp add: take_bit_eq_mask mask_eq_exp_minus_1)
  then show ?thesis by (simp only: unsigned_take_bit_eq) (simp add: take_bit_eq_mod)
qed

lemma digit_last:
  assumes "0 \<le> k" "k < (128 :: int)"
  shows "uint ((word_of_int k :: u8) AND 127) = k" "(word_of_int k :: u8) AND 128 = 0"
proof -
  have k: "uint (word_of_int k :: u8) = k" using assms by (simp add: uint_word_of_int)
  then show "uint ((word_of_int k :: u8) AND 127) = k" using assms by (simp add: uint_and_127)
  have "take_bit 7 (word_of_int k :: u8) = word_of_int k"
    using assms by (simp only: word_uint_eq_iff unsigned_take_bit_eq k) (simp add: take_bit_eq_mod)
  then have "(word_of_int k :: u8) = word_of_int k AND 127"
    by (simp add: take_bit_eq_mask mask_eq_exp_minus_1)
  then have "(word_of_int k :: u8) AND 128 = word_of_int k AND (127 AND 128)"
    by (metis and.assoc)
  then show "(word_of_int k :: u8) AND 128 = 0" by simp
qed

lemma digit_more:
  assumes "0 \<le> k" "k < (128 :: int)"
  shows "uint (((word_of_int k :: u8) OR 128) AND 127) = k" "((word_of_int k :: u8) OR 128) AND 128 \<noteq> 0"
proof -
  have "((word_of_int k :: u8) OR 128) AND 127 = word_of_int k AND 127"
    by (simp add: bit.conj_disj_distrib2)
  then show "uint (((word_of_int k :: u8) OR 128) AND 127) = k" using digit_last[OF assms] by simp
  have "((word_of_int k :: u8) OR 128) AND 128 = 128"
    using digit_last(2)[OF assms] by (simp add: bit.conj_disj_distrib2)
  then show "((word_of_int k :: u8) OR 128) AND 128 \<noteq> 0" by simp
qed

lemma encode_small [mqtt_io]: "0 \<le> n \<Longrightarrow> n < 128 \<Longrightarrow> MQTTPacket_encode n = [word_of_int n]"
  by (subst MQTTPacket_encode.simps) (simp add: sdiv_smod_nonneg)

lemma encode_large [mqtt_io]:
  "128 \<le> n \<Longrightarrow> MQTTPacket_encode n = (word_of_int (n mod 128) OR 128) # MQTTPacket_encode (n div 128)"
  by (subst MQTTPacket_encode.simps) (simp add: sdiv_smod_nonneg pos_imp_zdiv_pos_iff)

lemma encode_length_step:
  assumes "128 \<le> n" "n < 128 * u" "\<And>k. 0 \<le> k \<Longrightarrow> k < u \<Longrightarrow> length (MQTTPacket_encode k) = f k"
  shows "length (MQTTPacket_encode n) = Suc (f (n div 128))"
proof -
  have "0 \<le> n div 128" "n div 128 < u" using assms(1,2) by linarith+
  then show ?thesis using assms(1,3) by (simp only: encode_large list.size)
qed

lemma encode_length1: "0 \<le> n \<Longrightarrow> n < 128 \<Longrightarrow> length (MQTTPacket_encode n) = 1"
  by (simp add: encode_small)

lemma encode_length2:
  "0 \<le> n \<Longrightarrow> n < 16384 \<Longrightarrow> length (MQTTPacket_encode n) = (if n < 128 then 1 else 2)"
  using encode_length1[of n] encode_length_step[of n 128 "\<lambda>_. 1"] encode_length1 by auto

lemma encode_length3:
  "0 \<le> n \<Longrightarrow> n < 2097152 \<Longrightarrow>
   length (MQTTPacket_encode n) = (if n < 128 then 1 else if n < 16384 then 2 else 3)"
  using encode_length2[of n] encode_length_step[of n 16384, OF _ _ encode_length2] by auto

lemma encode_length:
  "0 \<le> n \<Longrightarrow> n < 268435456 \<Longrightarrow>
   length (MQTTPacket_encode n)
    = (if n < 128 then 1 else if n < 16384 then 2 else if n < 2097152 then 3 else 4)"
  using encode_length3[of n] encode_length_step[of n 2097152, OF _ _ encode_length3] by auto

lemma rd_drop: "drop p xs = y # ys \<Longrightarrow> rd xs p = Some y"
  by (metis drop_eq_Nil list.distinct(1) not_less nth_via_drop rd_Some)

lemma drop_step: "drop p xs = ys @ zs \<Longrightarrow> drop (p + length ys) xs = zs"
  by (metis add.commute append_eq_conv_conj drop_drop)

lemma decode_loop_encode:
  assumes "0 \<le> n" "len + length (MQTTPacket_encode n) \<le> 4" "drop p buf = MQTTPacket_encode n @ r"
  shows "MQTTPacket_decode_loop (bufchar buf) p len val mult
    = Some (p + length (MQTTPacket_encode n), len + length (MQTTPacket_encode n), val + n * mult)"
  using assms
proof (induction n arbitrary: p len val mult rule: MQTTPacket_encode.induct)
  case (1 n)
  show ?case
  proof (cases "n < 128")
    case True
    then have "rd buf p = Some (word_of_int n)"
      using 1(2,4) by (simp add: encode_small rd_drop)
    then show ?thesis
      using 1 True by (simp add: MQTTPacket_decode_loop.simps encode_small bufchar_def digit_last)
  next
    case False
    let ?d = "word_of_int (n mod 128) OR 128 :: u8"
    have enc: "MQTTPacket_encode n = ?d # MQTTPacket_encode (n div 128)"
      using False by (simp add: encode_large)
    then have c: "rd buf p = Some ?d"
      using 1(4) by (simp add: rd_drop)
    have dr: "drop (p + 1) buf = MQTTPacket_encode (n div 128) @ r"
      using 1(4) enc drop_step[of p buf "[?d]"] by simp
    have d: "uint (?d AND 127) = n mod 128" "?d AND 128 \<noteq> 0" using digit_more[of "n mod 128"] by auto
    have bc: "bufchar buf p = Some (p + 1, 1, ?d)" by (simp add: bufchar_def c)
    have sd: "n sdiv 128 = n div 128" using False by (simp add: sdiv_smod_nonneg)
    note IH = 1(1)[OF refl refl, unfolded sd]
    have "MQTTPacket_decode_loop (bufchar buf) (p + 1) (len + 1) (val + n mod 128 * mult) (mult * 128)
      = Some (p + 1 + length (MQTTPacket_encode (n div 128)),
              len + 1 + length (MQTTPacket_encode (n div 128)),
              val + n mod 128 * mult + n div 128 * (mult * 128))"
      using 1(3) False enc dr by (intro IH) (auto simp: pos_imp_zdiv_pos_iff)
    moreover have "val + n mod 128 * mult + n div 128 * (mult * 128) = val + n * mult"
    proof -
      have "val + r * mult + q * (mult * 128) = val + n * mult" if "n = q * 128 + r" for q r
        using that by (simp add: algebra_simps)
      then show ?thesis by simp
    qed
    ultimately show ?thesis
      using 1(3) enc bc by (simp add: MQTTPacket_decode_loop.simps[of _ p] d)
  qed
qed


lemma decodeBuf_encode [mqtt_io]:
  assumes "0 \<le> n" "n < 268435456" "drop p buf = MQTTPacket_encode n @ r"
  shows "MQTTPacket_decodeBuf buf p = Some (length (MQTTPacket_encode n), n)"
  using decode_loop_encode[of n 0 p buf r 0 1] assms encode_length[of n]
  by (simp add: MQTTPacket_decodeBuf_def MQTTPacket_decode_def)

text \<open>
  The precomputed length never falls short of what the encoder writes, so a packet that passes a
  serialiser's length check fits.
\<close>

lemma MQTTPacket_len_bound:
  assumes "0 \<le> n" "n < 268435456"
  shows "1 + int (length (MQTTPacket_encode n)) + n \<le> MQTTPacket_len n"
  using assms by (auto simp: encode_length MQTTPacket_len_def Let_def)

lemma MQTTPacket_len_nonneg: "0 \<le> n \<Longrightarrow> n < MQTTPacket_len n"
  by (simp add: MQTTPacket_len_def Let_def)

section \<open>Integers and strings: lemmas\<close>

lemma int_bytes_nonneg [mqtt_io]:
  "0 \<le> n \<Longrightarrow> int_bytes n = [word_of_int (n div 256), word_of_int (n mod 256)]"
  by (simp add: int_bytes_def sdiv_smod_nonneg)

lemma length_int_bytes [simp]: "length (int_bytes n) = 2"
  by (simp add: int_bytes_def)

lemma readChar_drop [mqtt_io]: "drop p buf = c # r \<Longrightarrow> readChar buf p = Some (c, p + 1)"
  by (simp add: readChar_def rd_drop)

lemma int_split256:
  assumes "0 \<le> n" "n < (65536 :: int)"
  shows "256 * uint (word_of_int (n div 256) :: u8) + uint (word_of_int (n mod 256) :: u8) = n"
proof -
  have "n div 256 < 256" using assms by linarith
  then show ?thesis using assms by (simp add: uint_word_of_int pos_imp_zdiv_nonneg_iff)
qed

lemma readInt_drop [mqtt_io]:
  assumes "drop p buf = int_bytes n @ r" "0 \<le> n" "n < 65536"
  shows "readInt buf p = Some (n, p + 2)"
proof -
  have "drop p buf = word_of_int (n div 256) # word_of_int (n mod 256) # r"
    using assms by (simp add: int_bytes_nonneg)
  moreover from this have "drop (p + 1) buf = word_of_int (n mod 256) # r"
    using drop_step[of p buf "[word_of_int (n div 256)]"] by simp
  ultimately show ?thesis
    using rd_drop[of p buf] rd_drop[of "p + 1" buf] int_split256[OF assms(2,3)]
    by (simp add: readInt_def)
qed

text \<open>The wire form of a string, and the content of an \<open>MQTTString\<close> as \<open>writeMQTTString\<close>
  chooses it.  A string is usable when the writer and \<open>MQTTstrlen\<close> agree on its length: they
  prefer different members when both are set.\<close>

definition utf :: "u8 list \<Rightarrow> u8 list" where
  "utf bs = int_bytes (int (length bs)) @ bs"

definition ms_content :: "MQTTString \<Rightarrow> u8 list" where
  "ms_content s =
     (if ms_len s > 0 then (case ms_data s of Some d \<Rightarrow> take (nat (ms_len s)) d | None \<Rightarrow> [])
      else case ms_cstring s of Some cs \<Rightarrow> cs | None \<Rightarrow> [])"

definition ms_ok :: "MQTTString \<Rightarrow> bool" where
  "ms_ok s \<longleftrightarrow>
     (if ms_len s > 0
      then ms_cstring s = None \<and> (case ms_data s of Some d \<Rightarrow> ms_len s \<le> int (length d) | None \<Rightarrow> False)
      else ms_cstring s \<noteq> None \<or> ms_len s = 0)
     \<and> length (ms_content s) < 65536"

definition ms_of :: "u8 list \<Rightarrow> MQTTString" where
  "ms_of bs = \<lparr>ms_cstring = None, ms_len = int (length bs), ms_data = Some bs\<rparr>"

lemma length_utf [simp]: "length (utf bs) = 2 + length bs"
  by (simp add: utf_def)

lemma ms_ok_of [simp]: "ms_ok (ms_of bs) \<longleftrightarrow> length bs < 65536"
  by (auto simp: ms_ok_def ms_of_def ms_content_def)

lemma ms_content_of [simp]: "ms_content (ms_of bs) = bs"
  by (auto simp: ms_of_def ms_content_def)

lemma MQTTstrlen_ok [mqtt_io]: "ms_ok s \<Longrightarrow> MQTTstrlen s = int (length (ms_content s))"
  by (auto simp: ms_ok_def MQTTstrlen_def ms_content_def split: option.splits if_splits)

lemma writeMQTTString_ok [mqtt_io]:
  assumes "ms_ok s"
  shows "writeMQTTString s w = put_bytes (utf (ms_content s)) w"
proof (cases "ms_len s > 0")
  case True
  with assms obtain d where "ms_data s = Some d" "ms_len s \<le> int (length d)"
    by (auto simp: ms_ok_def split: option.splits)
  moreover from this True
  have "put_memcpy (Some d) (ms_len s) = put_bytes (take (nat (ms_len s)) d)"
    by (intro ext) (simp add: put_memcpy_def rd_block_def nat_le_iff)
  ultimately show ?thesis
    using True by (simp add: writeMQTTString_def writeInt_def ms_content_def utf_def put_put)
next
  case False
  then show ?thesis
    by (auto simp: writeMQTTString_def writeCString_def writeInt_def ms_content_def utf_def put_put
        split: option.splits)
qed

lemma writeMQTTString_fun [mqtt_io]: "ms_ok s \<Longrightarrow> writeMQTTString s = put_bytes (utf (ms_content s))"
  by (rule ext) (rule writeMQTTString_ok)

lemma readMQTTLenString_utf [mqtt_io]:
  assumes "drop p buf = utf bs @ r" "length bs < 65536" "int (p + length (utf bs)) \<le> e"
  shows "readMQTTLenString s buf p e = Some (True, ms_of bs, p + length (utf bs))"
proof -
  have "readInt buf p = Some (int (length bs), p + 2)"
    using assms readInt_drop[of p buf "int (length bs)" "bs @ r"] by (simp add: utf_def)
  moreover have "drop (p + 2) buf = bs @ r"
    using drop_step[of p buf "int_bytes (int (length bs))" "bs @ r"] assms by (simp add: utf_def)
  ultimately show ?thesis
    using assms by (simp add: readMQTTLenString_def ms_of_def)
qed

text \<open>\<open>readMQTTLenString\<close> does not let a string run past \<open>enddata\<close>.\<close>

lemma readMQTTLenString_within:
  assumes "readMQTTLenString s buf p e = Some (True, s1, p1)"
  shows "int p1 \<le> e \<and> p + 2 \<le> p1 \<and> ms_len s1 = int (p1 - p) - 2"
  using assms
  by (auto simp: readMQTTLenString_def readInt_def Let_def split: if_splits bind_splits)

end
