(* ===== verification/MqttPublish.thy ===== *)
theory MqttPublish
  imports MqttPacket
begin

text \<open>
  Publish packets and acknowledgements, \<^verbatim>\<open>MQTTSerializePublish.c\<close> and
  \<^verbatim>\<open>MQTTDeserializePublish.c\<close> under \<^verbatim>\<open>src/net/mqtt/MQTTPacket\<close>.  A serialiser takes
  the memory behind \<open>buf\<close> and the \<open>buflen\<close> the caller claims for it and gives the memory and the
  return code; a deserialiser takes the old values of its output parameters and gives the return
  code and their new values.  Lemmas reduce every serialiser to one write of \<open>mqtt_packet\<close>.
\<close>

unbundle bit_operations_syntax

section \<open>Serialisers\<close>

type_synonym serialized = "(u8 list \<times> int) option"

text \<open>\<open>rc = ptr - buf\<close>.\<close>

definition ptr_rc :: "wpos \<Rightarrow> serialized" where
  "ptr_rc w = Some (fst w, int (snd w))"

definition MQTTSerialize_publishLength :: "int \<Rightarrow> MQTTString \<Rightarrow> int \<Rightarrow> int" where
  "MQTTSerialize_publishLength qos topicName payloadlen =
     2 + MQTTstrlen topicName + payloadlen + (if qos > 0 then 2 else 0)"

definition MQTTSerialize_publish ::
  "u8 list \<Rightarrow> int \<Rightarrow> u8 \<Rightarrow> int \<Rightarrow> u8 \<Rightarrow> u16 \<Rightarrow> MQTTString \<Rightarrow> u8 list \<Rightarrow> int \<Rightarrow> serialized" where
  "MQTTSerialize_publish buf buflen dup qos retained packetid topicName payload payloadlen =
     (let rem_len = MQTTSerialize_publishLength qos topicName payloadlen
      in if MQTTPacket_len rem_len > buflen then Some (buf, MQTTPACKET_BUFFER_TOO_SHORT)
         else do {
           w \<leftarrow> writeChar (MQTTHeader_byte PUBLISH dup (word_of_int qos) retained) (buf, 0);
           w \<leftarrow> put_bytes (MQTTPacket_encode rem_len) w;
           w \<leftarrow> writeMQTTString topicName w;
           w \<leftarrow> (if qos > 0 then writeInt (uint packetid) w else Some w);
           w \<leftarrow> put_memcpy (Some payload) payloadlen w;
           ptr_rc w
         })"

definition MQTTSerialize_ack :: "u8 list \<Rightarrow> int \<Rightarrow> u8 \<Rightarrow> u8 \<Rightarrow> u16 \<Rightarrow> serialized" where
  "MQTTSerialize_ack buf buflen packettype dup packetid =
     (if buflen < 4 then Some (buf, MQTTPACKET_BUFFER_TOO_SHORT)
      else do {
        w \<leftarrow> writeChar (MQTTHeader_byte packettype dup (if packettype = PUBREL then 1 else 0) 0) (buf, 0);
        w \<leftarrow> put_bytes (MQTTPacket_encode 2) w;
        w \<leftarrow> writeInt (uint packetid) w;
        ptr_rc w
      })"

definition MQTTSerialize_puback :: "u8 list \<Rightarrow> int \<Rightarrow> u16 \<Rightarrow> serialized" where
  "MQTTSerialize_puback buf buflen packetid = MQTTSerialize_ack buf buflen PUBACK 0 packetid"

definition MQTTSerialize_pubrel :: "u8 list \<Rightarrow> int \<Rightarrow> u8 \<Rightarrow> u16 \<Rightarrow> serialized" where
  "MQTTSerialize_pubrel buf buflen dup packetid = MQTTSerialize_ack buf buflen PUBREL dup packetid"

definition MQTTSerialize_pubcomp :: "u8 list \<Rightarrow> int \<Rightarrow> u16 \<Rightarrow> serialized" where
  "MQTTSerialize_pubcomp buf buflen packetid = MQTTSerialize_ack buf buflen PUBCOMP 0 packetid"

section \<open>Deserialisers\<close>

record publish_out =
  po_dup :: u8
  po_qos :: int
  po_retained :: u8
  po_packetid :: u16
  po_topicName :: MQTTString
  po_payload :: nat
  po_payloadlen :: int

text \<open>\<open>po_payload\<close> is the offset of the payload in \<open>buf\<close>.  \<open>buflen\<close> is not used by the code.\<close>

definition MQTTDeserialize_publish ::
  "publish_out \<Rightarrow> u8 list \<Rightarrow> int \<Rightarrow> (int \<times> publish_out) option" where
  "MQTTDeserialize_publish o0 buf buflen = do {
     (header, curdata) \<leftarrow> readChar buf 0;
     if header_type header \<noteq> PUBLISH then Some (0, o0)
     else do {
       let o1 = o0\<lparr>po_dup := header_dup header, po_qos := uint (header_qos header),
                   po_retained := header_retain header\<rparr>;
       (n, mylen) \<leftarrow> MQTTPacket_decodeBuf buf curdata;
       let rc = int n; let curdata = curdata + n; let enddata = int curdata + mylen;
       (ok, topic, curdata) \<leftarrow> readMQTTLenString (po_topicName o1) buf curdata enddata;
       let o2 = o1\<lparr>po_topicName := topic\<rparr>;
       if \<not> ok \<or> enddata - int curdata < 0 then Some (rc, o2)
       else do {
         (o3, curdata) \<leftarrow>
           (if po_qos o2 > 0
            then do { (pid, p) \<leftarrow> readInt buf curdata; Some (o2\<lparr>po_packetid := word_of_int pid\<rparr>, p) }
            else Some (o2, curdata));
         Some (1, o3\<lparr>po_payloadlen := enddata - int curdata, po_payload := curdata\<rparr>)
       }
     }
   }"

record ack_out =
  ao_packettype :: u8
  ao_dup :: u8
  ao_packetid :: u16

definition MQTTDeserialize_ack :: "ack_out \<Rightarrow> u8 list \<Rightarrow> int \<Rightarrow> (int \<times> ack_out) option" where
  "MQTTDeserialize_ack o0 buf buflen = do {
     (header, curdata) \<leftarrow> readChar buf 0;
     let o1 = o0\<lparr>ao_dup := header_dup header, ao_packettype := header_type header\<rparr>;
     (n, mylen) \<leftarrow> MQTTPacket_decodeBuf buf curdata;
     let rc = int n; let curdata = curdata + n; let enddata = int curdata + mylen;
     if enddata - int curdata < 2 then Some (rc, o1)
     else do {
       (pid, _) \<leftarrow> readInt buf curdata;
       Some (1, o1\<lparr>ao_packetid := word_of_int pid\<rparr>)
     }
   }"

section \<open>Packets\<close>

definition mqtt_packet :: "u8 \<Rightarrow> u8 list \<Rightarrow> u8 list" where
  "mqtt_packet h body = h # MQTTPacket_encode (int (length body)) @ body"

abbreviation remlen_ok :: "nat \<Rightarrow> bool" where "remlen_ok n \<equiv> n < 268435456"

text \<open>Writing a whole packet at the start of the buffer.\<close>

definition emit :: "u8 list \<Rightarrow> u8 list \<Rightarrow> serialized" where
  "emit bs m = put_bytes bs (m, 0) \<bind> ptr_rc"

lemma emit_fits:
  "length bs \<le> length m \<Longrightarrow> emit bs m = Some (bs @ drop (length bs) m, int (length bs))"
  by (simp add: emit_def put_bytes_start ptr_rc_def)

lemma emit_too_long: "length m < length bs \<Longrightarrow> emit bs m = None"
  by (simp add: emit_def put_bytes_def wr_block_def)

lemma length_packet: "length (mqtt_packet h body)
    = 1 + length (MQTTPacket_encode (int (length body))) + length body"
  by (simp add: mqtt_packet_def)

lemma packet_fits:
  assumes "remlen_ok (length body)" "MQTTPacket_len (int (length body)) \<le> buflen"
  shows "int (length (mqtt_packet h body)) \<le> buflen"
  using assms MQTTPacket_len_bound[of "int (length body)"] by (simp add: length_packet)

text \<open>What a deserialiser sees first in a memory that starts with a packet.\<close>

lemma packet_header [mqtt_io]: "readChar (mqtt_packet h body @ r) 0 = Some (h, 1)"
  by (simp add: mqtt_packet_def readChar_drop)

lemma packet_remlen [mqtt_io]:
  assumes "remlen_ok (length body)"
  shows "MQTTPacket_decodeBuf (mqtt_packet h body @ r) (Suc 0)
       = Some (length (MQTTPacket_encode (int (length body))), int (length body))"
  using assms by (intro decodeBuf_encode) (auto simp: mqtt_packet_def)

lemma packet_body [mqtt_io]:
  "drop (Suc (length (MQTTPacket_encode (int (length body))))) (mqtt_packet h body @ r) = body @ r"
  by (simp add: mqtt_packet_def)

text \<open>The bit fields of the header byte.\<close>

lemma bit_masks: "(15 :: u8) = mask 4" "(3 :: u8) = mask 2" "(1 :: u8) = mask 1"
  by (simp_all add: mask_eq_exp_minus_1)

lemma header_fields [mqtt_io]:
  "header_type (MQTTHeader_byte t d q r) = t AND 15"
  "header_dup (MQTTHeader_byte t d q r) = d AND 1"
  "header_qos (MQTTHeader_byte t d q r) = q AND 3"
  "header_retain (MQTTHeader_byte t d q r) = r AND 1"
  unfolding header_type_def header_dup_def header_qos_def header_retain_def MQTTHeader_byte_def bit_masks
  by (rule bit_word_eqI, simp only: bit_drop_bit_eq o_def bit_and_iff bit_or_iff bit_push_bit_iff bit_mask_iff,
      (auto dest: bit_imp_le_length)[1])+

section \<open>Publish: what is written\<close>

definition publish_body :: "int \<Rightarrow> u16 \<Rightarrow> u8 list \<Rightarrow> u8 list \<Rightarrow> u8 list" where
  "publish_body qos packetid topic payload =
     utf topic @ (if qos > 0 then int_bytes (uint packetid) else []) @ payload"

definition publish_packet :: "u8 \<Rightarrow> int \<Rightarrow> u8 \<Rightarrow> u16 \<Rightarrow> u8 list \<Rightarrow> u8 list \<Rightarrow> u8 list" where
  "publish_packet dup qos retained packetid topic payload =
     mqtt_packet (MQTTHeader_byte PUBLISH dup (word_of_int qos) retained)
       (publish_body qos packetid topic payload)"

lemma publishLength_body:
  assumes "ms_ok t" "payloadlen = int (length payload)"
  shows "MQTTSerialize_publishLength qos t payloadlen
       = int (length (publish_body qos pid (ms_content t) payload))"
  using assms by (simp add: MQTTSerialize_publishLength_def publish_body_def MQTTstrlen_ok)

lemma put_memcpy_ok [mqtt_io]:
  "0 \<le> n \<Longrightarrow> nat n \<le> length d \<Longrightarrow> put_memcpy (Some d) n w = put_bytes (take (nat n) d) w"
  if "snd w \<le> length (fst w)"
  using that by (cases w) (auto simp: put_memcpy_def rd_block_def put_nil)

lemma put_bytes_pos: "put_bytes bs (m, p) = Some (m1, q) \<Longrightarrow> q = p + length bs \<and> q \<le> length m1"
  by (auto simp: put_bytes_def wr_block_def split: if_splits)

lemma bind_put_memcpy [mqtt_io]:
  assumes "0 \<le> n" "nat n \<le> length d"
  shows "put_bytes bs w \<bind> (\<lambda>w. put_memcpy (Some d) n w \<bind> f)
       = put_bytes (bs @ take (nat n) d) w \<bind> f"
proof (cases "put_bytes bs w")
  case (Some w1)
  then have "snd w1 \<le> length (fst w1)" by (cases w; cases w1) (auto dest: put_bytes_pos)
  then show ?thesis using assms Some by (simp add: put_memcpy_ok put_put_then[symmetric])
next
  case None
  then show ?thesis by (simp add: put_put_then[symmetric])
qed

lemma publish_emit:
  assumes "ms_ok t" "payloadlen = int (length payload)"
    and "MQTTPacket_len (MQTTSerialize_publishLength qos t payloadlen) \<le> buflen"
  shows "MQTTSerialize_publish buf buflen dup qos retained pid t payload payloadlen
       = emit (publish_packet dup qos retained pid (ms_content t) payload) buf"
proof -
  have len: "MQTTSerialize_publishLength qos t payloadlen
      = int (length (publish_body qos pid (ms_content t) payload))"
    by (rule publishLength_body[OF assms(1,2)])
  show ?thesis
  proof (cases "qos > 0")
    case True
    then show ?thesis
      using assms len
      by (simp add: MQTTSerialize_publish_def writeChar_def writeInt_def writeMQTTString_ok
          put_put_then bind_put_memcpy emit_def publish_packet_def mqtt_packet_def publish_body_def)
  next
    case False
    then show ?thesis
      using assms len
      by (simp add: MQTTSerialize_publish_def writeChar_def writeInt_def writeMQTTString_ok
          put_put_then bind_put_memcpy emit_def publish_packet_def mqtt_packet_def publish_body_def)
  qed
qed

lemma ack_emit:
  assumes "4 \<le> buflen"
  shows "MQTTSerialize_ack buf buflen t dup pid
       = emit (mqtt_packet (MQTTHeader_byte t dup (if t = PUBREL then 1 else 0) 0) (int_bytes (uint pid))) buf"
  using assms
  by (simp add: MQTTSerialize_ack_def writeChar_def writeInt_def put_put_then emit_def mqtt_packet_def
      encode_small)

section \<open>Publish: what is read\<close>

definition publish_payload_at :: "int \<Rightarrow> u16 \<Rightarrow> u8 list \<Rightarrow> u8 list \<Rightarrow> nat" where
  "publish_payload_at qos pid t payload =
     Suc (length (MQTTPacket_encode (int (length (publish_body qos pid t payload)))))
       + length (utf t) + (if qos > 0 then 2 else 0)"

lemma publish_payload_there:
  "drop (publish_payload_at qos pid t payload) (publish_packet dup qos retained pid t payload @ r)
   = payload @ r"
proof -
  let ?m = "publish_packet dup qos retained pid t payload @ r"
  let ?k = "length (MQTTPacket_encode (int (length (publish_body qos pid t payload))))"
  have "drop (Suc ?k) ?m = (utf t @ (if qos > 0 then int_bytes (uint pid) else [])) @ payload @ r"
    by (simp only: publish_packet_def packet_body) (simp add: publish_body_def)
  from drop_step[OF this] show ?thesis
    by (simp add: publish_payload_at_def split: if_splits)
qed

lemma publish_decode:
  assumes "length t < 65536" "qos \<in> {0, 1, 2}" "dup \<in> {0, 1}" "retained \<in> {0, 1}"
    and "remlen_ok (length (publish_body qos pid t payload))"
  shows "MQTTDeserialize_publish o0 (publish_packet dup qos retained pid t payload @ r) n
       = Some (1, o0\<lparr>po_dup := dup, po_qos := qos, po_retained := retained,
           po_packetid := (if qos > 0 then pid else po_packetid o0), po_topicName := ms_of t,
           po_payloadlen := int (length payload),
           po_payload := publish_payload_at qos pid t payload\<rparr>)"
proof -
  define body where "body = publish_body qos pid t payload"
  define h where "h = MQTTHeader_byte PUBLISH dup (word_of_int qos) retained"
  define k where "k = length (MQTTPacket_encode (int (length body)))"
  define m where "m = publish_packet dup qos retained pid t payload @ r"
  have m: "m = mqtt_packet h body @ r" by (simp add: m_def publish_packet_def h_def body_def)
  have L: "length body = 2 + length t + (if qos > 0 then 2 else 0) + length payload"
    by (simp add: body_def publish_body_def)
  have flags: "dup AND 1 = dup" "retained AND 1 = retained" "uint ((word_of_int qos :: u8) AND 3) = qos"
    using assms(2-4) by auto
  have hdr: "readChar m 0 = Some (h, 1)" by (simp add: m packet_header)
  have h: "header_type h = PUBLISH" "header_dup h = dup" "uint (header_qos h) = qos"
    "header_retain h = retained"
    using flags by (simp_all add: h_def header_fields)
  have rem: "MQTTPacket_decodeBuf m 1 = Some (k, int (length body))"
    using packet_remlen assms(5) by (simp add: m k_def body_def)
  have b: "drop (Suc k) m = utf t @ (if qos > 0 then int_bytes (uint pid) else []) @ payload @ r"
    by (simp only: m k_def packet_body) (simp add: body_def publish_body_def)
  have str: "readMQTTLenString s m (Suc k) (1 + int k + int (length body))
      = Some (True, ms_of t, Suc k + (2 + length t))" for s
    using readMQTTLenString_utf[OF b assms(1)] L by simp
  have pid: "readInt m (Suc k + (2 + length t)) = Some (uint pid, Suc k + (2 + length t) + 2)"
    if "qos > 0"
  proof -
    have "drop (Suc k + (2 + length t)) m = int_bytes (uint pid) @ payload @ r"
      using drop_step[OF b] that by simp
    from readInt_drop[OF this] show ?thesis using uint_lt2p[of pid] by simp
  qed
  have at: "publish_payload_at qos pid t payload = Suc k + (2 + length t) + (if qos > 0 then 2 else 0)"
    by (simp add: publish_payload_at_def k_def body_def)
  show ?thesis
    unfolding m_def[symmetric] at MQTTDeserialize_publish_def hdr
    using str pid L by (cases "qos > 0") (simp_all add: h rem[simplified] Let_def)
qed

section \<open>Properties\<close>

text \<open>C25. A publish packet survives the wire: what \<open>MQTTSerialize_publish\<close> writes into a large
  enough buffer, \<open>MQTTDeserialize_publish\<close> reads back with the same flags, quality of service,
  packet identifier (when the quality of service carries one), topic and payload, whatever the
  buffer and the output parameters held before.\<close>

theorem publish_roundtrip:
  assumes "ms_ok topic" "qos \<in> {0, 1, 2}" "dup \<in> {0, 1}" "retained \<in> {0, 1}"
    and "payloadlen = int (length payload)"
    and "MQTTSerialize_publishLength qos topic payloadlen < 268435456"
    and "MQTTPacket_len (MQTTSerialize_publishLength qos topic payloadlen) \<le> buflen"
    and "buflen \<le> int (length buf)"
  shows "\<exists>buf1 n o1.
      MQTTSerialize_publish buf buflen dup qos retained pid topic payload payloadlen = Some (buf1, n) \<and>
      0 < n \<and> n \<le> buflen \<and> length buf1 = length buf \<and> drop (nat n) buf1 = drop (nat n) buf \<and>
      MQTTDeserialize_publish o0 buf1 n = Some (1, o1) \<and>
      po_dup o1 = dup \<and> po_qos o1 = qos \<and> po_retained o1 = retained \<and>
      po_packetid o1 = (if qos > 0 then pid else po_packetid o0) \<and>
      ms_content (po_topicName o1) = ms_content topic \<and>
      po_payloadlen o1 = payloadlen \<and> take (nat payloadlen) (drop (po_payload o1) buf1) = payload"
proof -
  let ?t = "ms_content topic"
  let ?pk = "publish_packet dup qos retained pid ?t payload"
  have len: "MQTTSerialize_publishLength qos topic payloadlen
      = int (length (publish_body qos pid ?t payload))"
    by (rule publishLength_body[OF assms(1,5)])
  then have ok: "remlen_ok (length (publish_body qos pid ?t payload))" using assms(6) by simp
  then have fits: "int (length ?pk) \<le> buflen" "0 < length ?pk"
    using packet_fits[OF ok] assms(7) len by (auto simp: publish_packet_def length_packet)
  let ?m = "?pk @ drop (length ?pk) buf"
  have ser: "MQTTSerialize_publish buf buflen dup qos retained pid topic payload payloadlen
      = Some (?m, int (length ?pk))"
    using publish_emit[OF assms(1,5,7)] emit_fits[of ?pk buf] fits assms(8) by simp
  have "length ?t < 65536" using assms(1) by (simp add: ms_ok_def)
  note des = publish_decode[OF this assms(2-4) ok]
  have pay: "take (nat payloadlen) (drop (publish_payload_at qos pid ?t payload) ?m) = payload"
    using assms(5) by (simp only: publish_payload_there) simp
  have dr: "drop (nat (int (length ?pk))) ?m = drop (nat (int (length ?pk))) buf" by simp
  show ?thesis
    by (intro exI conjI, rule ser, simp_all only: des prod.inject option.inject)
      (use fits assms(5,8) pay dr in \<open>simp_all del: drop_append\<close>)
qed

theorem publish_roundtrip_witness:
  "\<exists>buf1 n o1. MQTTSerialize_publish (replicate 32 0) 32 1 1 0 7
       (ms_of (cstr ''a/b'')) (cstr ''on'') 2 = Some (buf1, n) \<and>
     MQTTDeserialize_publish \<lparr>po_dup = 0, po_qos = 0, po_retained = 0, po_packetid = 0,
       po_topicName = MQTTString_initializer, po_payload = 0, po_payloadlen = 0\<rparr> buf1 n = Some (1, o1) \<and>
     po_packetid o1 = 7"
proof -
  have len: "MQTTSerialize_publishLength 1 (ms_of (cstr ''a/b'')) 2 = 9"
    by (simp add: MQTTSerialize_publishLength_def MQTTstrlen_ok)
  have "ms_ok (ms_of (cstr ''a/b''))" "(1 :: int) \<in> {0, 1, 2}" "(1 :: u8) \<in> {0, 1}" "(0 :: u8) \<in> {0, 1}"
    "2 = int (length (cstr ''on''))" "MQTTSerialize_publishLength 1 (ms_of (cstr ''a/b'')) 2 < 268435456"
    "MQTTPacket_len (MQTTSerialize_publishLength 1 (ms_of (cstr ''a/b'')) 2) \<le> 32"
    "32 \<le> int (length (replicate 32 (0 :: u8)))"
    unfolding len by (simp_all add: MQTTPacket_len_def)
  from publish_roundtrip[OF this, of 7 "\<lparr>po_dup = 0, po_qos = 0, po_retained = 0, po_packetid = 0,
      po_topicName = MQTTString_initializer, po_payload = 0, po_payloadlen = 0\<rparr>"]
  show ?thesis by (elim exE conjE) (intro exI conjI, assumption, assumption, simp)
qed

text \<open>Memory safety of \<open>MQTTSerialize_publish\<close>: with a usable topic and a \<open>buflen\<close> the memory
  really has, it never writes outside the buffer, whatever the flags; it either reports
  \<open>MQTTPACKET_BUFFER_TOO_SHORT\<close> and leaves the buffer alone or writes a packet of at most
  \<open>buflen\<close> bytes.\<close>

theorem publish_safe:
  assumes "ms_ok topic" "payloadlen = int (length payload)"
    and "MQTTSerialize_publishLength qos topic payloadlen < 268435456"
    and "buflen \<le> int (length buf)"
  shows "\<exists>buf1 rc.
      MQTTSerialize_publish buf buflen dup qos retained pid topic payload payloadlen = Some (buf1, rc) \<and>
      length buf1 = length buf \<and>
      (if MQTTPacket_len (MQTTSerialize_publishLength qos topic payloadlen) > buflen
       then rc = MQTTPACKET_BUFFER_TOO_SHORT \<and> buf1 = buf
       else 0 < rc \<and> rc \<le> buflen \<and> drop (nat rc) buf1 = drop (nat rc) buf)"
proof (cases "MQTTPacket_len (MQTTSerialize_publishLength qos topic payloadlen) > buflen")
  case True
  then show ?thesis by (simp add: MQTTSerialize_publish_def Let_def)
next
  case False
  let ?pk = "publish_packet dup qos retained pid (ms_content topic) payload"
  have len: "MQTTSerialize_publishLength qos topic payloadlen
      = int (length (publish_body qos pid (ms_content topic) payload))"
    by (rule publishLength_body[OF assms(1,2)])
  then have "int (length ?pk) \<le> buflen" "0 < length ?pk"
    using packet_fits[of "publish_body qos pid (ms_content topic) payload" buflen] assms(3) False
    by (auto simp: publish_packet_def length_packet)
  then show ?thesis
    using publish_emit[OF assms(1,2), of qos buflen] emit_fits[of ?pk buf] False assms(4) by auto
qed

theorem publish_safe_witness:
  "\<exists>buf1 rc. MQTTSerialize_publish [1, 2, 3] 3 0 0 0 0 (ms_of (cstr ''a'')) [] 0 = Some (buf1, rc) \<and>
     rc = -2 \<and> buf1 = [1, 2, 3]"
proof -
  have len: "MQTTSerialize_publishLength 0 (ms_of (cstr ''a'')) 0 = 3"
    by (simp add: MQTTSerialize_publishLength_def MQTTstrlen_ok)
  show ?thesis
    using publish_safe[of "ms_of (cstr ''a'')" 0 "[]" 0 3 "[1, 2, 3]" 0 0 0]
    unfolding len by (simp add: MQTTPacket_len_def)
qed

text \<open>An acknowledgement survives the wire: \<open>MQTTDeserialize_ack\<close> reads the type, the \<open>dup\<close>
  flag and the packet identifier that \<open>MQTTSerialize_ack\<close> wrote.\<close>

theorem ack_roundtrip:
  assumes "4 \<le> buflen" "buflen \<le> int (length buf)" "t < 16" "dup \<in> {0, 1}"
  shows "\<exists>buf1. MQTTSerialize_ack buf buflen t dup pid = Some (buf1, 4) \<and>
     length buf1 = length buf \<and> drop 4 buf1 = drop 4 buf \<and>
     MQTTDeserialize_ack o0 buf1 n
       = Some (1, \<lparr>ao_packettype = t, ao_dup = dup, ao_packetid = pid\<rparr>)"
proof -
  let ?h = "MQTTHeader_byte t dup (if t = PUBREL then 1 else 0) 0"
  let ?pk = "mqtt_packet ?h (int_bytes (uint pid))"
  let ?m = "?pk @ drop 4 buf"
  have l: "length ?pk = 4" by (simp add: length_packet encode_small)
  have ser: "MQTTSerialize_ack buf buflen t dup pid = Some (?m, 4)"
    using ack_emit[OF assms(1)] emit_fits[of ?pk buf] l assms(1,2) by simp
  have "take_bit 4 t = t"
    using assms(3) by (simp add: word_less_alt word_uint_eq_iff unsigned_take_bit_eq) (simp add: take_bit_eq_mod)
  then have f: "t AND 15 = t" "dup AND 1 = dup"
    using assms(4) by (auto simp: take_bit_eq_mask mask_eq_exp_minus_1)
  have k: "length (MQTTPacket_encode (int (length (int_bytes (uint pid))))) = 1"
    by (simp add: encode_small)
  have "drop 2 ?m = int_bytes (uint pid) @ drop 4 buf"
    using packet_body[of "int_bytes (uint pid)" ?h "drop 4 buf"] unfolding k by (simp only: numeral_2_eq_2 One_nat_def)
  from readInt_drop[OF this] have "readInt ?m 2 = Some (uint pid, 4)"
    using uint_lt2p[of pid] by simp
  moreover have "MQTTPacket_decodeBuf ?m (Suc 0) = Some (1, 2)"
    using packet_remlen[of "int_bytes (uint pid)" ?h "drop 4 buf"] unfolding k by simp
  ultimately have "MQTTDeserialize_ack o0 ?m n
      = Some (1, \<lparr>ao_packettype = t, ao_dup = dup, ao_packetid = pid\<rparr>)"
    by (simp add: MQTTDeserialize_ack_def packet_header header_fields f numeral_2_eq_2)
  with ser l assms(1,2) show ?thesis by auto
qed

theorem ack_roundtrip_witness:
  "\<exists>buf1. MQTTSerialize_ack [0, 0, 0, 0, 9] 5 PUBREL 1 0x1234 = Some (buf1, 4) \<and> drop 4 buf1 = [9]"
  using ack_roundtrip[of 5 "[0, 0, 0, 0, 9]" PUBREL 1 "0x1234"] by auto

end
