(* ===== verification/MqttSubscribe.thy ===== *)
theory MqttSubscribe
  imports MqttPublish
begin

text \<open>
  Subscribing and unsubscribing, \<^verbatim>\<open>MQTTSubscribeClient.c\<close>, \<^verbatim>\<open>MQTTSubscribeServer.c\<close>,
  \<^verbatim>\<open>MQTTUnsubscribeClient.c\<close> and \<^verbatim>\<open>MQTTUnsubscribeServer.c\<close> under
  \<^verbatim>\<open>src/net/mqtt/MQTTPacket\<close>.  The arrays a caller passes are lists, and indexing past their
  end is \<^term>\<open>None\<close>; \<open>char\<close> is unsigned, as on the target (ARM).
\<close>

unbundle bit_operations_syntax

section \<open>The client's side\<close>

text \<open>The loops \<open>for (i = 0; i < count; ++i)\<close> start at \<open>i\<close> with \<open>n\<close> rounds to go.\<close>

fun subscribeLength_loop :: "MQTTString list \<Rightarrow> int \<Rightarrow> nat \<Rightarrow> nat \<Rightarrow> int \<Rightarrow> int option" where
  "subscribeLength_loop filters extra i 0 len = Some len"
| "subscribeLength_loop filters extra i (Suc n) len = do {
     f \<leftarrow> rd filters i;
     subscribeLength_loop filters extra (i + 1) n (len + (2 + MQTTstrlen f + extra))
   }"

definition MQTTSerialize_subscribeLength :: "int \<Rightarrow> MQTTString list \<Rightarrow> int option" where
  "MQTTSerialize_subscribeLength count topicFilters =
     subscribeLength_loop topicFilters 1 0 (nat count) 2"

fun subscribe_loop :: "MQTTString list \<Rightarrow> int list \<Rightarrow> nat \<Rightarrow> nat \<Rightarrow> wpos \<Rightarrow> wpos option" where
  "subscribe_loop filters qoss i 0 w = Some w"
| "subscribe_loop filters qoss i (Suc n) w = do {
     f \<leftarrow> rd filters i;
     w \<leftarrow> writeMQTTString f w;
     q \<leftarrow> rd qoss i;
     w \<leftarrow> writeChar (word_of_int q) w;
     subscribe_loop filters qoss (i + 1) n w
   }"

definition MQTTSerialize_subscribe ::
  "u8 list \<Rightarrow> int \<Rightarrow> u8 \<Rightarrow> u16 \<Rightarrow> int \<Rightarrow> MQTTString list \<Rightarrow> int list \<Rightarrow> serialized" where
  "MQTTSerialize_subscribe buf buflen dup packetid count topicFilters requestedQoSs = do {
     rem_len \<leftarrow> MQTTSerialize_subscribeLength count topicFilters;
     if MQTTPacket_len rem_len > buflen then Some (buf, MQTTPACKET_BUFFER_TOO_SHORT)
     else do {
       w \<leftarrow> writeChar (MQTTHeader_byte SUBSCRIBE dup 1 0) (buf, 0);
       w \<leftarrow> put_bytes (MQTTPacket_encode rem_len) w;
       w \<leftarrow> writeInt (uint packetid) w;
       w \<leftarrow> subscribe_loop topicFilters requestedQoSs 0 (nat count) w;
       ptr_rc w
     }
   }"

text \<open>\<open>while (curdata < enddata)\<close> of \<open>MQTTDeserialize_suback\<close>: the return code, the count and
  the array.\<close>

function suback_loop ::
  "u8 list \<Rightarrow> int \<Rightarrow> nat \<Rightarrow> int \<Rightarrow> int \<Rightarrow> int list \<Rightarrow> (int \<times> int \<times> int list) option" where
  "suback_loop buf maxcount curdata enddata count granted =
     (if int curdata < enddata
      then if count > maxcount then Some (-1, count, granted)
           else case readChar buf curdata of
                  None \<Rightarrow> None
                | Some (c, _) \<Rightarrow>
                    (case wr granted (nat count) (uint c) of
                       None \<Rightarrow> None
                     | Some granted1 \<Rightarrow>
                         suback_loop buf maxcount (curdata + 1) enddata (count + 1) granted1)
      else Some (1, count, granted))"
  by pat_completeness auto
termination
  by (relation "measure (\<lambda>(buf, maxcount, curdata, enddata, count, granted). nat (enddata - int curdata))")
    auto

declare suback_loop.simps [simp del]

record suback_out =
  so_packetid :: u16
  so_count :: int
  so_grantedQoSs :: "int list"

definition MQTTDeserialize_suback ::
  "suback_out \<Rightarrow> int \<Rightarrow> u8 list \<Rightarrow> int \<Rightarrow> (int \<times> suback_out) option" where
  "MQTTDeserialize_suback o0 maxcount buf buflen = do {
     (header, curdata) \<leftarrow> readChar buf 0;
     if header_type header \<noteq> SUBACK then Some (0, o0)
     else do {
       (n, mylen) \<leftarrow> MQTTPacket_decodeBuf buf curdata;
       let rc = int n; let curdata = curdata + n; let enddata = int curdata + mylen;
       if enddata - int curdata < 2 then Some (rc, o0)
       else do {
         (pid, curdata) \<leftarrow> readInt buf curdata;
         (rc, count, granted) \<leftarrow> suback_loop buf maxcount curdata enddata 0 (so_grantedQoSs o0);
         Some (rc, \<lparr>so_packetid = word_of_int pid, so_count = count, so_grantedQoSs = granted\<rparr>)
       }
     }
   }"

definition MQTTSerialize_unsubscribeLength :: "int \<Rightarrow> MQTTString list \<Rightarrow> int option" where
  "MQTTSerialize_unsubscribeLength count topicFilters =
     subscribeLength_loop topicFilters 0 0 (nat count) 2"

fun unsubscribe_loop :: "MQTTString list \<Rightarrow> nat \<Rightarrow> nat \<Rightarrow> wpos \<Rightarrow> wpos option" where
  "unsubscribe_loop filters i 0 w = Some w"
| "unsubscribe_loop filters i (Suc n) w = do {
     f \<leftarrow> rd filters i;
     w \<leftarrow> writeMQTTString f w;
     unsubscribe_loop filters (i + 1) n w
   }"

definition MQTTSerialize_unsubscribe ::
  "u8 list \<Rightarrow> int \<Rightarrow> u8 \<Rightarrow> u16 \<Rightarrow> int \<Rightarrow> MQTTString list \<Rightarrow> serialized" where
  "MQTTSerialize_unsubscribe buf buflen dup packetid count topicFilters = do {
     rem_len \<leftarrow> MQTTSerialize_unsubscribeLength count topicFilters;
     if MQTTPacket_len rem_len > buflen then Some (buf, MQTTPACKET_BUFFER_TOO_SHORT)
     else do {
       w \<leftarrow> writeChar (MQTTHeader_byte UNSUBSCRIBE dup 1 0) (buf, 0);
       w \<leftarrow> put_bytes (MQTTPacket_encode rem_len) w;
       w \<leftarrow> writeInt (uint packetid) w;
       w \<leftarrow> unsubscribe_loop topicFilters 0 (nat count) w;
       ptr_rc w
     }
   }"

definition MQTTDeserialize_unsuback :: "u16 \<Rightarrow> u8 list \<Rightarrow> int \<Rightarrow> (int \<times> u16) option" where
  "MQTTDeserialize_unsuback packetid buf buflen = do {
     (rc, a) \<leftarrow> MQTTDeserialize_ack \<lparr>ao_packettype = 0, ao_dup = 0, ao_packetid = packetid\<rparr> buf buflen;
     Some (if ao_packettype a = UNSUBACK then 1 else rc, ao_packetid a)
   }"

section \<open>The server's side\<close>

record subscribe_out =
  sb_dup :: u8
  sb_packetid :: u16
  sb_count :: int
  sb_topicFilters :: "MQTTString list"
  sb_requestedQoSs :: "int list"

text \<open>
  The loop of \<open>MQTTDeserialize_subscribe\<close>: success, or \<open>goto exit\<close> with \<open>rc\<close> unchanged.
  \<open>maxcount\<close> is not used by the code.  \<open>readMQTTLenString\<close> moves the position, so the loop's
  guard against a standing position never applies.
\<close>

function subscribe_read_loop ::
  "u8 list \<Rightarrow> nat \<Rightarrow> int \<Rightarrow> subscribe_out \<Rightarrow> (bool \<times> subscribe_out) option" where
  "subscribe_read_loop buf curdata enddata out =
     (if int curdata < enddata
      then case rd (sb_topicFilters out) (nat (sb_count out)) of
             None \<Rightarrow> None
           | Some f \<Rightarrow>
             (case readMQTTLenString f buf curdata enddata of
                None \<Rightarrow> None
              | Some (ok, f1, cur1) \<Rightarrow>
                  let out1 = out\<lparr>sb_topicFilters := (sb_topicFilters out)[nat (sb_count out) := f1]\<rparr>
                  in if \<not> ok \<or> int cur1 \<ge> enddata then Some (False, out1)
                     else case readChar buf cur1 of
                            None \<Rightarrow> None
                          | Some (q, cur2) \<Rightarrow>
                            (case wr (sb_requestedQoSs out1) (nat (sb_count out1)) (uint q) of
                               None \<Rightarrow> None
                             | Some qs \<Rightarrow>
                                 if cur2 \<le> curdata then None
                                 else subscribe_read_loop buf cur2 enddata
                                        (out1\<lparr>sb_requestedQoSs := qs, sb_count := sb_count out1 + 1\<rparr>)))
      else Some (True, out))"
  by pat_completeness auto
termination
  by (relation "measure (\<lambda>(buf, curdata, enddata, out). nat (enddata - int curdata))") auto

declare subscribe_read_loop.simps [simp del]

definition MQTTDeserialize_subscribe ::
  "subscribe_out \<Rightarrow> int \<Rightarrow> u8 list \<Rightarrow> int \<Rightarrow> (int \<times> subscribe_out) option" where
  "MQTTDeserialize_subscribe o0 maxcount buf buflen = do {
     (header, curdata) \<leftarrow> readChar buf 0;
     if header_type header \<noteq> SUBSCRIBE then Some (-1, o0)
     else do {
       let o1 = o0\<lparr>sb_dup := header_dup header\<rparr>;
       (n, mylen) \<leftarrow> MQTTPacket_decodeBuf buf curdata;
       let rc = int n; let curdata = curdata + n; let enddata = int curdata + mylen;
       (pid, curdata) \<leftarrow> readInt buf curdata;
       (ok, o2) \<leftarrow> subscribe_read_loop buf curdata enddata
                   (o1\<lparr>sb_packetid := word_of_int pid, sb_count := 0\<rparr>);
       Some (if ok then 1 else rc, o2)
     }
   }"

fun writeChars :: "int list \<Rightarrow> nat \<Rightarrow> nat \<Rightarrow> wpos \<Rightarrow> wpos option" where
  "writeChars xs i 0 w = Some w"
| "writeChars xs i (Suc n) w = do {
     x \<leftarrow> rd xs i; w \<leftarrow> writeChar (word_of_int x) w; writeChars xs (i + 1) n w }"

definition MQTTSerialize_suback :: "u8 list \<Rightarrow> int \<Rightarrow> u16 \<Rightarrow> int \<Rightarrow> int list \<Rightarrow> serialized" where
  "MQTTSerialize_suback buf buflen packetid count grantedQoSs =
     (if buflen < 2 + count then Some (buf, MQTTPACKET_BUFFER_TOO_SHORT)
      else do {
        w \<leftarrow> writeChar (MQTTHeader_byte SUBACK 0 0 0) (buf, 0);
        w \<leftarrow> put_bytes (MQTTPacket_encode (2 + count)) w;
        w \<leftarrow> writeInt (uint packetid) w;
        w \<leftarrow> writeChars grantedQoSs 0 (nat count) w;
        ptr_rc w
      })"

text \<open>The loop of \<open>MQTTDeserialize_unsubscribe\<close>.\<close>

function unsubscribe_read_loop ::
  "u8 list \<Rightarrow> nat \<Rightarrow> int \<Rightarrow> int \<Rightarrow> MQTTString list \<Rightarrow> (bool \<times> int \<times> MQTTString list) option" where
  "unsubscribe_read_loop buf curdata enddata count filters =
     (if int curdata < enddata
      then case rd filters (nat count) of
             None \<Rightarrow> None
           | Some f \<Rightarrow>
             (case readMQTTLenString f buf curdata enddata of
                None \<Rightarrow> None
              | Some (ok, f1, cur1) \<Rightarrow>
                  let filters1 = filters[nat count := f1]
                  in if \<not> ok then Some (False, count, filters1)
                     else if cur1 \<le> curdata then None
                     else unsubscribe_read_loop buf cur1 enddata (count + 1) filters1)
      else Some (True, count, filters))"
  by pat_completeness auto
termination
  by (relation "measure (\<lambda>(buf, curdata, enddata, count, filters). nat (enddata - int curdata))") auto

declare unsubscribe_read_loop.simps [simp del]

record unsubscribe_out =
  us_dup :: u8
  us_packetid :: u16
  us_count :: int
  us_topicFilters :: "MQTTString list"

definition MQTTDeserialize_unsubscribe ::
  "unsubscribe_out \<Rightarrow> int \<Rightarrow> u8 list \<Rightarrow> int \<Rightarrow> (int \<times> unsubscribe_out) option" where
  "MQTTDeserialize_unsubscribe o0 maxcount buf buflen = do {
     (header, curdata) \<leftarrow> readChar buf 0;
     if header_type header \<noteq> UNSUBSCRIBE then Some (0, o0)
     else do {
       (n, mylen) \<leftarrow> MQTTPacket_decodeBuf buf curdata;
       let rc = int n; let curdata = curdata + n; let enddata = int curdata + mylen;
       (pid, curdata) \<leftarrow> readInt buf curdata;
       (ok, count, filters) \<leftarrow> unsubscribe_read_loop buf curdata enddata 0 (us_topicFilters o0);
       Some (if ok then 1 else rc,
             \<lparr>us_dup = header_dup header, us_packetid = word_of_int pid, us_count = count,
              us_topicFilters = filters\<rparr>)
     }
   }"

definition MQTTSerialize_unsuback :: "u8 list \<Rightarrow> int \<Rightarrow> u16 \<Rightarrow> serialized" where
  "MQTTSerialize_unsuback buf buflen packetid =
     (if buflen < 2 then Some (buf, MQTTPACKET_BUFFER_TOO_SHORT)
      else do {
        w \<leftarrow> writeChar (MQTTHeader_byte UNSUBACK 0 0 0) (buf, 0);
        w \<leftarrow> put_bytes (MQTTPacket_encode 2) w;
        w \<leftarrow> writeInt (uint packetid) w;
        ptr_rc w
      })"

section \<open>The wire form of the lists\<close>

definition sub_item :: "u8 list \<times> u8 \<Rightarrow> u8 list" where
  "sub_item x = utf (fst x) @ [snd x]"

definition sub_items :: "(u8 list \<times> u8) list \<Rightarrow> u8 list" where
  "sub_items xs = concat (map sub_item xs)"

abbreviation sub_pair :: "MQTTString list \<Rightarrow> int list \<Rightarrow> nat \<Rightarrow> u8 list \<times> u8" where
  "sub_pair fs qs i \<equiv> (ms_content (fs ! i), word_of_int (qs ! i))"

lemma sub_items_simps [simp]:
  "sub_items [] = []" "sub_items (x # xs) = utf (fst x) @ snd x # sub_items xs"
  by (simp_all add: sub_items_def sub_item_def)

lemma subscribeLength_loop_filters:
  assumes "i + n \<le> length fs" "\<forall>f\<in>set fs. ms_ok f"
  shows "subscribeLength_loop fs extra i n len
       = Some (len + (\<Sum>j\<leftarrow>[i..<i + n]. 2 + int (length (ms_content (fs ! j))) + extra))"
  using assms
proof (induction n arbitrary: i len)
  case (Suc n)
  then have "MQTTstrlen (fs ! i) = int (length (ms_content (fs ! i)))"
    by (intro MQTTstrlen_ok) auto
  then show ?case
    using Suc.IH[of "i + 1" "len + (2 + int (length (ms_content (fs ! i))) + extra)"] Suc.prems
    by (simp add: upt_conv_Cons del: upt_Suc)
qed simp

lemma sum_list_sub_items:
  "int (length (sub_items (map (sub_pair fs qs) xs)))
   = (\<Sum>j\<leftarrow>xs. 2 + int (length (ms_content (fs ! j))) + 1)"
  by (induction xs) auto

lemma sum_list_utfs:
  "int (length (concat (map (\<lambda>j. utf (ms_content (fs ! j))) xs)))
   = (\<Sum>j\<leftarrow>xs. 2 + int (length (ms_content (fs ! j))))"
  by (induction xs) auto

lemma subscribe_loop_put:
  assumes "i + n \<le> length fs" "i + n \<le> length qs" "\<forall>f\<in>set fs. ms_ok f"
  shows "put_bytes bs w \<bind> subscribe_loop fs qs i n
       = put_bytes (bs @ sub_items (map (sub_pair fs qs) [i..<i + n])) w"
  using assms
proof (induction n arbitrary: i bs)
  case 0
  have "subscribe_loop fs qs i 0 = Some" by (rule ext) simp
  then show ?case by (simp add: Option.bind_runit)
next
  case (Suc n)
  then have "writeMQTTString (fs ! i) = put_bytes (utf (ms_content (fs ! i)))"
    by (intro writeMQTTString_fun) auto
  then have "subscribe_loop fs qs i (Suc n)
      = (\<lambda>w. put_bytes (utf (ms_content (fs ! i))) w \<bind>
               (\<lambda>w. put_bytes [word_of_int (qs ! i)] w \<bind> subscribe_loop fs qs (i + 1) n))"
    using Suc.prems by (intro ext) (simp add: writeChar_def)
  then have "put_bytes bs w \<bind> subscribe_loop fs qs i (Suc n)
      = put_bytes (bs @ utf (ms_content (fs ! i)) @ [word_of_int (qs ! i)]) w
          \<bind> subscribe_loop fs qs (i + 1) n"
    by (simp only: put_put_then append_assoc)
  also have "\<dots> = put_bytes (bs @ sub_items (map (sub_pair fs qs) [i..<i + Suc n])) w"
    using Suc.IH[of "i + 1"] Suc.prems by (simp add: upt_conv_Cons del: upt_Suc)
  finally show ?case .
qed

lemma unsubscribe_loop_put:
  assumes "i + n \<le> length fs" "\<forall>f\<in>set fs. ms_ok f"
  shows "put_bytes bs w \<bind> unsubscribe_loop fs i n
       = put_bytes (bs @ concat (map (\<lambda>j. utf (ms_content (fs ! j))) [i..<i + n])) w"
  using assms
proof (induction n arbitrary: i bs)
  case 0
  have "unsubscribe_loop fs i 0 = Some" by (rule ext) simp
  then show ?case by (simp add: Option.bind_runit)
next
  case (Suc n)
  then have "writeMQTTString (fs ! i) = put_bytes (utf (ms_content (fs ! i)))"
    by (intro writeMQTTString_fun) auto
  then have "unsubscribe_loop fs i (Suc n)
      = (\<lambda>w. put_bytes (utf (ms_content (fs ! i))) w \<bind> unsubscribe_loop fs (i + 1) n)"
    using Suc.prems by (intro ext) simp
  then have "put_bytes bs w \<bind> unsubscribe_loop fs i (Suc n)
      = put_bytes (bs @ utf (ms_content (fs ! i))) w \<bind> unsubscribe_loop fs (i + 1) n"
    by (simp only: put_put_then)
  also have "\<dots> = put_bytes (bs @ concat (map (\<lambda>j. utf (ms_content (fs ! j))) [i..<i + Suc n])) w"
    using Suc.IH[of "i + 1"] Suc.prems by (simp add: upt_conv_Cons del: upt_Suc)
  finally show ?case .
qed

lemma writeChars_put:
  assumes "i + n \<le> length xs"
  shows "put_bytes bs w \<bind> writeChars xs i n = put_bytes (bs @ map word_of_int (take n (drop i xs))) w"
  using assms
proof (induction n arbitrary: i bs)
  case 0
  have "writeChars xs i 0 = Some" by (rule ext) simp
  then show ?case by (simp add: Option.bind_runit)
next
  case (Suc n)
  then have "writeChars xs i (Suc n)
      = (\<lambda>w. put_bytes [word_of_int (xs ! i)] w \<bind> writeChars xs (i + 1) n)"
    by (intro ext) (simp add: writeChar_def)
  then have "put_bytes bs w \<bind> writeChars xs i (Suc n)
      = put_bytes (bs @ [word_of_int (xs ! i)]) w \<bind> writeChars xs (i + 1) n"
    by (simp only: put_put_then)
  also have "\<dots> = put_bytes (bs @ map word_of_int (take (Suc n) (drop i xs))) w"
    using Suc.IH[of "i + 1"] Suc.prems by (simp add: Cons_nth_drop_Suc[symmetric] del: drop_Suc)
  finally show ?case .
qed

section \<open>Reading the lists back\<close>

lemma subscribe_read_step:
  assumes "int cur < e" "rd (sb_topicFilters out) (nat (sb_count out)) = Some f"
    and "readMQTTLenString f buf cur e = Some (True, f1, cur1)" "int cur1 < e" "cur \<le> cur1"
    and "readChar buf cur1 = Some (q, cur1 + 1)"
    and "wr (sb_requestedQoSs out) (nat (sb_count out)) (uint q) = Some qs"
  shows "subscribe_read_loop buf cur e out = subscribe_read_loop buf (cur1 + 1) e
      (out\<lparr>sb_topicFilters := (sb_topicFilters out)[nat (sb_count out) := f1],
           sb_requestedQoSs := qs, sb_count := sb_count out + 1\<rparr>)"
  using assms by (simp add: subscribe_read_loop.simps[of buf cur] Let_def)

lemma subscribe_read_loop_items:
  assumes "drop cur buf = sub_items its @ r" "e = int (cur + length (sub_items its))"
    and "\<forall>x\<in>set its. length (fst x) < 65536"
    and "sb_topicFilters out = A @ X" "length A = c" "length its \<le> length X"
    and "sb_requestedQoSs out = B @ Y" "length B = c" "length its \<le> length Y"
    and "sb_count out = int c"
  shows "subscribe_read_loop buf cur e out = Some (True,
      out\<lparr>sb_count := int (c + length its),
          sb_topicFilters := A @ map (ms_of \<circ> fst) its @ drop (length its) X,
          sb_requestedQoSs := B @ map (uint \<circ> snd) its @ drop (length its) Y\<rparr>)"
  using assms
proof (induction its arbitrary: cur out A X B Y c)
  case Nil
  then show ?case by (simp add: subscribe_read_loop.simps)
next
  case (Cons it its)
  obtain t q where it: "it = (t, q)" by (cases it)
  obtain x X1 where X: "X = x # X1" using Cons.prems(6) by (cases X) auto
  obtain y Y1 where Y: "Y = y # Y1" using Cons.prems(9) by (cases Y) auto
  let ?out1 = "out\<lparr>sb_topicFilters := (A @ [ms_of t]) @ X1,
                 sb_requestedQoSs := (B @ [uint q]) @ Y1, sb_count := int (Suc c)\<rparr>"
  have d: "drop cur buf = utf t @ q # sub_items its @ r"
    using Cons.prems(1) by (simp add: it)
  have str: "readMQTTLenString s buf cur e = Some (True, ms_of t, cur + length (utf t))" for s
    using readMQTTLenString_utf[OF d, of e] Cons.prems(2,3) by (simp add: it)
  have d1: "drop (cur + length (utf t)) buf = q # sub_items its @ r"
    by (rule drop_step[OF d])
  have d2: "drop (cur + length (utf t) + 1) buf = sub_items its @ r"
    using drop_step[of "cur + length (utf t)" buf "[q]"] d1 by simp
  have "subscribe_read_loop buf cur e out
      = subscribe_read_loop buf (cur + length (utf t) + 1) e ?out1"
  proof (subst subscribe_read_step[OF _ _ str _ _ readChar_drop[OF d1]])
    show "rd (sb_topicFilters out) (nat (sb_count out)) = Some x"
      "wr (sb_requestedQoSs out) (nat (sb_count out)) (uint q) = Some ((B @ [uint q]) @ Y1)"
      using Cons.prems by (simp_all add: X Y nth_append list_update_append)
  qed (use Cons.prems in \<open>simp_all add: it X list_update_append add.commute\<close>)
  also have "\<dots> = Some (True, ?out1\<lparr>sb_count := int (Suc c + length its),
          sb_topicFilters := (A @ [ms_of t]) @ map (ms_of \<circ> fst) its @ drop (length its) X1,
          sb_requestedQoSs := (B @ [uint q]) @ map (uint \<circ> snd) its @ drop (length its) Y1\<rparr>)"
    by (rule Cons.IH[OF d2]) (use Cons.prems in \<open>simp_all add: it X Y\<close>)
  finally show ?case by (simp add: it X Y)
qed

lemma suback_loop_reads:
  assumes "drop cur buf = cs @ r" "e = int (cur + length cs)" "g = A @ X" "length A = c"
    and "length cs \<le> length X" "int (c + length cs) \<le> maxcount + 1"
  shows "suback_loop buf maxcount cur e (int c) g
       = Some (1, int (c + length cs), A @ map uint cs @ drop (length cs) X)"
  using assms
proof (induction cs arbitrary: cur c g A X)
  case Nil
  then show ?case by (simp add: suback_loop.simps)
next
  case (Cons b cs)
  obtain x X1 where X: "X = x # X1" using Cons.prems(5) by (cases X) auto
  have d: "drop (cur + 1) buf = cs @ r" using drop_step[of cur buf "[b]"] Cons.prems(1) by simp
  have "suback_loop buf maxcount cur e (int c) g
      = suback_loop buf maxcount (cur + 1) e (int (Suc c)) ((A @ [uint b]) @ X1)"
    using Cons.prems readChar_drop[of cur buf b]
    by (simp add: suback_loop.simps[of buf maxcount cur] X list_update_append add.commute)
  also have "\<dots> = Some (1, int (Suc c + length cs), (A @ [uint b]) @ map uint cs @ drop (length cs) X1)"
    by (rule Cons.IH[OF d]) (use Cons.prems in \<open>simp_all add: X\<close>)
  finally show ?case by (simp add: X)
qed

lemma suback_loop_overrun:
  assumes "drop cur buf = cs @ r" "e = int (cur + length cs)" "length g = nat maxcount"
    and "int c \<le> maxcount" "maxcount < int (c + length cs)"
  shows "suback_loop buf maxcount cur e (int c) g = None"
  using assms
proof (induction cs arbitrary: cur c g)
  case (Cons b cs)
  have d: "drop (cur + 1) buf = cs @ r" using drop_step[of cur buf "[b]"] Cons.prems(1) by simp
  have b: "readChar buf cur = Some (b, cur + 1)" using Cons.prems(1) by (simp add: readChar_drop)
  show ?case
  proof (cases "int c = maxcount")
    case True
    then show ?thesis
      using Cons.prems b by (simp add: suback_loop.simps[of buf maxcount cur] wr_def)
  next
    case False
    then have "suback_loop buf maxcount cur e (int c) g
        = suback_loop buf maxcount (cur + 1) e (int (Suc c)) (g[c := uint b])"
      using Cons.prems b by (simp add: suback_loop.simps[of buf maxcount cur] add.commute)
    also have "\<dots> = None"
      by (rule Cons.IH[OF d]) (use Cons.prems False in simp_all)
    finally show ?thesis .
  qed
qed simp

section \<open>Packets\<close>

definition sub_list :: "MQTTString list \<Rightarrow> int list \<Rightarrow> (u8 list \<times> u8) list" where
  "sub_list fs qs = map (sub_pair fs qs) [0..<length fs]"

lemma sub_list_projections:
  assumes "length qs = length fs" "\<forall>q\<in>set qs. 0 \<le> q \<and> q < 256"
  shows "map (ms_of \<circ> fst) (sub_list fs qs) = map (ms_of \<circ> ms_content) fs"
    "map (uint \<circ> snd) (sub_list fs qs) = qs" "length (sub_list fs qs) = length fs"
proof -
  have "uint (word_of_int (qs ! i) :: u8) = qs ! i" if "i < length fs" for i
    using assms nth_mem[of i qs] that by (auto simp: uint_word_of_int)
  then show "map (uint \<circ> snd) (sub_list fs qs) = qs"
    using assms(1) by (intro nth_equalityI) (simp_all add: sub_list_def)
qed (auto simp: sub_list_def intro: nth_equalityI)

lemma sub_list_short: "\<forall>f\<in>set fs. ms_ok f \<Longrightarrow> \<forall>x\<in>set (sub_list fs qs). length (fst x) < 65536"
  by (auto simp: sub_list_def ms_ok_def)

lemma subscribeLength_items:
  assumes "\<forall>f\<in>set fs. ms_ok f"
  shows "MQTTSerialize_subscribeLength (int (length fs)) fs
       = Some (int (length (int_bytes pid @ sub_items (sub_list fs qs))))"
  using subscribeLength_loop_filters[of 0 "length fs" fs 1 2] assms
  by (simp add: MQTTSerialize_subscribeLength_def sub_list_def sum_list_sub_items)

lemma subscribe_emit:
  assumes "\<forall>f\<in>set fs. ms_ok f" "length qs = length fs"
    and "MQTTSerialize_subscribeLength (int (length fs)) fs = Some l" "MQTTPacket_len l \<le> buflen"
  shows "MQTTSerialize_subscribe buf buflen dup pid (int (length fs)) fs qs
       = emit (mqtt_packet (MQTTHeader_byte SUBSCRIBE dup 1 0)
           (int_bytes (uint pid) @ sub_items (sub_list fs qs))) buf"
proof -
  have l: "l = int (length (int_bytes (uint pid) @ sub_items (sub_list fs qs)))"
    using assms(3) subscribeLength_items[OF assms(1)] by simp
  have loop: "put_bytes bs w \<bind> (\<lambda>w. subscribe_loop fs qs 0 (length fs) w \<bind> ptr_rc)
      = put_bytes (bs @ sub_items (sub_list fs qs)) w \<bind> ptr_rc" for bs w
    using subscribe_loop_put[of 0 "length fs" fs qs bs w] assms(1,2)
    by (simp add: sub_list_def Option.bind_assoc[symmetric])
  show ?thesis
    using assms(3,4)
    by (simp add: MQTTSerialize_subscribe_def writeChar_def writeInt_def put_put_then loop emit_def
        mqtt_packet_def l)
qed

text \<open>What the deserialisers see in a packet whose body starts with an identifier.\<close>

lemma packet_pid:
  fixes pid :: u16
  assumes "m = mqtt_packet h (int_bytes (uint pid) @ body) @ r" "remlen_ok (2 + length body)"
  obtains k where "readChar m 0 = Some (h, 1)" "MQTTPacket_decodeBuf m 1 = Some (k, 2 + int (length body))"
    "readInt m (1 + k) = Some (uint pid, 1 + k + 2)" "drop (1 + k + 2) m = body @ r"
proof
  let ?b = "int_bytes (uint pid) @ body"
  let ?k = "length (MQTTPacket_encode (int (length ?b)))"
  show "readChar m 0 = Some (h, 1)" by (simp add: assms(1) packet_header)
  show "MQTTPacket_decodeBuf m 1 = Some (?k, 2 + int (length body))"
    using packet_remlen[of ?b h r] assms by simp
  have d: "drop (1 + ?k) m = int_bytes (uint pid) @ body @ r"
    using packet_body[of ?b h r] by (simp add: assms(1))
  from readInt_drop[OF d] show "readInt m (1 + ?k) = Some (uint pid, 1 + ?k + 2)"
    using uint_lt2p[of pid] by simp
  from drop_step[OF d] show "drop (1 + ?k + 2) m = body @ r" by simp
qed

lemma unsubscribe_read_loop_items:
  assumes "drop cur buf = concat (map utf ts) @ r" "e = int (cur + length (concat (map utf ts)))"
    and "\<forall>t\<in>set ts. length t < 65536"
    and "fs = A @ X" "length A = c" "length ts \<le> length X"
  shows "unsubscribe_read_loop buf cur e (int c) fs
       = Some (True, int (c + length ts), A @ map ms_of ts @ drop (length ts) X)"
  using assms
proof (induction ts arbitrary: cur fs A X c)
  case Nil
  then show ?case by (simp add: unsubscribe_read_loop.simps)
next
  case (Cons t ts)
  obtain x X1 where X: "X = x # X1" using Cons.prems(6) by (cases X) auto
  have d: "drop cur buf = utf t @ concat (map utf ts) @ r" using Cons.prems(1) by simp
  have str: "readMQTTLenString s buf cur e = Some (True, ms_of t, cur + length (utf t))" for s
    using readMQTTLenString_utf[OF d, of e] Cons.prems(2,3) by simp
  have "unsubscribe_read_loop buf cur e (int c) fs
      = unsubscribe_read_loop buf (cur + length (utf t)) e (int (Suc c)) ((A @ [ms_of t]) @ X1)"
    using Cons.prems str[of x]
    by (subst unsubscribe_read_loop.simps) (simp add: X nth_append list_update_append Let_def add.commute)
  also have "\<dots> = Some (True, int (Suc c + length ts), (A @ [ms_of t]) @ map ms_of ts @ drop (length ts) X1)"
    by (rule Cons.IH[OF drop_step[OF d]]) (use Cons.prems in \<open>simp_all add: X\<close>)
  finally show ?case by (simp add: X)
qed

lemma unsubscribeLength_items:
  assumes "\<forall>f\<in>set fs. ms_ok f"
  shows "MQTTSerialize_unsubscribeLength (int (length fs)) fs
       = Some (int (length (int_bytes pid @ concat (map utf (map ms_content fs)))))"
proof -
  have "map utf (map ms_content fs) = map (\<lambda>j. utf (ms_content (fs ! j))) [0..<length fs]"
    by (intro nth_equalityI) auto
  then show ?thesis
    using subscribeLength_loop_filters[of 0 "length fs" fs 0 2] assms
    by (simp only: MQTTSerialize_unsubscribeLength_def length_append of_nat_add sum_list_utfs) simp
qed

lemma unsubscribe_emit:
  assumes "\<forall>f\<in>set fs. ms_ok f"
    and "MQTTSerialize_unsubscribeLength (int (length fs)) fs = Some l" "MQTTPacket_len l \<le> buflen"
  shows "MQTTSerialize_unsubscribe buf buflen dup pid (int (length fs)) fs
       = emit (mqtt_packet (MQTTHeader_byte UNSUBSCRIBE dup 1 0)
           (int_bytes (uint pid) @ concat (map utf (map ms_content fs)))) buf"
proof -
  have l: "l = int (length (int_bytes (uint pid) @ concat (map utf (map ms_content fs))))"
    using assms(2) unsubscribeLength_items[OF assms(1)] by simp
  have e: "map (\<lambda>j. utf (ms_content (fs ! j))) [0..<length fs] = map utf (map ms_content fs)"
    by (intro nth_equalityI) auto
  have loop: "put_bytes bs w \<bind> (\<lambda>w. unsubscribe_loop fs 0 (length fs) w \<bind> ptr_rc)
      = put_bytes (bs @ concat (map utf (map ms_content fs))) w \<bind> ptr_rc" for bs w
    using unsubscribe_loop_put[of 0 "length fs" fs bs w] assms(1)
    unfolding add_0 e by (simp add: Option.bind_assoc[symmetric])
  show ?thesis
    using assms(2,3)
    by (simp add: MQTTSerialize_unsubscribe_def writeChar_def writeInt_def put_put_then loop emit_def
        mqtt_packet_def l del: map_map)
qed

section \<open>Properties\<close>

text \<open>A subscription survives the wire: what \<open>MQTTSerialize_subscribe\<close> writes for any list
  of usable topic filters, \<open>MQTTDeserialize_subscribe\<close> reads back as the same filters and
  qualities of service, in order, provided its arrays are long enough.\<close>

theorem subscribe_roundtrip:
  assumes "\<forall>f\<in>set fs. ms_ok f" "length qs = length fs" "\<forall>q\<in>set qs. 0 \<le> q \<and> q < 256"
    and "dup \<in> {0, 1}"
    and "MQTTSerialize_subscribeLength (int (length fs)) fs = Some l" "l < 268435456"
    and "MQTTPacket_len l \<le> buflen" "buflen \<le> int (length buf)"
    and "length fs \<le> length (sb_topicFilters o0)" "length fs \<le> length (sb_requestedQoSs o0)"
  shows "\<exists>buf1 n o1.
      MQTTSerialize_subscribe buf buflen dup pid (int (length fs)) fs qs = Some (buf1, n) \<and>
      0 < n \<and> n \<le> buflen \<and> length buf1 = length buf \<and> drop (nat n) buf1 = drop (nat n) buf \<and>
      MQTTDeserialize_subscribe o0 maxcount buf1 n = Some (1, o1) \<and>
      sb_dup o1 = dup \<and> sb_packetid o1 = pid \<and> sb_count o1 = int (length fs) \<and>
      map ms_content (take (length fs) (sb_topicFilters o1)) = map ms_content fs \<and>
      take (length fs) (sb_requestedQoSs o1) = qs"
proof -
  let ?its = "sub_list fs qs"
  let ?h = "MQTTHeader_byte SUBSCRIBE dup 1 0"
  let ?body = "int_bytes (uint pid) @ sub_items ?its"
  let ?pk = "mqtt_packet ?h ?body"
  define m where "m = ?pk @ drop (length ?pk) buf"
  have l: "l = int (length ?body)" using assms(5) subscribeLength_items[OF assms(1)] by simp
  then have ok: "remlen_ok (length ?body)" using assms(6) by simp
  have fits: "int (length ?pk) \<le> buflen" "0 < length ?pk"
    using packet_fits[OF ok] assms(7) l by (auto simp: length_packet)
  have ser: "MQTTSerialize_subscribe buf buflen dup pid (int (length fs)) fs qs = Some (m, int (length ?pk))"
    using subscribe_emit[OF assms(1,2,5,7)] emit_fits[of ?pk buf] fits assms(8) by (simp add: m_def)
  obtain k where k: "readChar m 0 = Some (?h, 1)"
    "MQTTPacket_decodeBuf m 1 = Some (k, 2 + int (length (sub_items ?its)))"
    "readInt m (1 + k) = Some (uint pid, 1 + k + 2)"
    "drop (1 + k + 2) m = sub_items ?its @ drop (length ?pk) buf"
    by (rule packet_pid[OF m_def]) (use ok in simp)
  note pr = sub_list_projections[OF assms(2,3)]
  let ?o1 = "o0\<lparr>sb_dup := dup, sb_packetid := pid, sb_count := int (length fs),
      sb_topicFilters := map (ms_of \<circ> ms_content) fs @ drop (length fs) (sb_topicFilters o0),
      sb_requestedQoSs := qs @ drop (length fs) (sb_requestedQoSs o0)\<rparr>"
  have loop: "subscribe_read_loop m (1 + k + 2) (1 + int k + (2 + int (length (sub_items ?its))))
      (o0\<lparr>sb_dup := dup, sb_packetid := pid, sb_count := 0\<rparr>) = Some (True, ?o1)"
    by (subst subscribe_read_loop_items[OF k(4) _ sub_list_short[OF assms(1)], where A="[]" and B="[]" and c=0])
      (use assms(9,10) in \<open>simp_all add: pr\<close>)
  have d1: "dup AND 1 = dup" using assms(4) by auto
  have des: "MQTTDeserialize_subscribe o0 maxcount m n = Some (1, ?o1)" for n
    using k(1-3) loop d1 by (simp add: MQTTDeserialize_subscribe_def header_fields Let_def)
  have dr: "drop (nat (int (length ?pk))) m = drop (nat (int (length ?pk))) buf" by (simp add: m_def)
  have lm: "length m = length buf" using fits assms(8) by (simp add: m_def)
  have qlen: "length qs = length fs" by (rule assms(2))
  show ?thesis
    by (intro exI conjI, rule ser, simp_all only: des prod.inject option.inject)
      (use fits assms(8) dr lm qlen in \<open>simp_all del: drop_append\<close>)
qed

theorem subscribe_roundtrip_witness:
  "\<exists>buf1 n o1.
      MQTTSerialize_subscribe (replicate 16 0) 16 0 9 (int (length [ms_of (cstr ''a/b'')])) [ms_of (cstr ''a/b'')] [1]
        = Some (buf1, n) \<and>
      MQTTDeserialize_subscribe \<lparr>sb_dup = 0, sb_packetid = 0, sb_count = 0,
        sb_topicFilters = [MQTTString_initializer], sb_requestedQoSs = [0]\<rparr> 1 buf1 n = Some (1, o1) \<and>
      sb_packetid o1 = 9"
proof -
  let ?f = "ms_of (cstr ''a/b'')"
  have l: "MQTTSerialize_subscribeLength (int (length [?f])) [?f] = Some 8"
    by (simp add: MQTTSerialize_subscribeLength_def MQTTstrlen_ok)
  have "\<forall>f\<in>set [?f]. ms_ok f" "length [1 :: int] = length [?f]" "\<forall>q\<in>set [1 :: int]. 0 \<le> q \<and> q < 256"
    "(0 :: u8) \<in> {0, 1}" by simp_all
  from subscribe_roundtrip[OF this l, of 16 "replicate 16 0" "\<lparr>sb_dup = 0, sb_packetid = 0, sb_count = 0,
      sb_topicFilters = [MQTTString_initializer], sb_requestedQoSs = [0]\<rparr>" 9 1]
  have "\<exists>buf1 n o1. MQTTSerialize_subscribe (replicate 16 0) 16 0 9 (int (length [?f])) [?f] [1] = Some (buf1, n) \<and>
      0 < n \<and> n \<le> 16 \<and> length buf1 = length (replicate 16 (0 :: u8)) \<and>
      drop (nat n) buf1 = drop (nat n) (replicate 16 0) \<and>
      MQTTDeserialize_subscribe \<lparr>sb_dup = 0, sb_packetid = 0, sb_count = 0,
        sb_topicFilters = [MQTTString_initializer], sb_requestedQoSs = [0]\<rparr> 1 buf1 n = Some (1, o1) \<and>
      sb_dup o1 = 0 \<and> sb_packetid o1 = 9 \<and> sb_count o1 = int (length [?f]) \<and>
      map ms_content (take (length [?f]) (sb_topicFilters o1)) = map ms_content [?f] \<and>
      take (length [?f]) (sb_requestedQoSs o1) = [1]"
    by (simp only: MQTTPacket_len_def) simp
  then show ?thesis by (elim exE conjE) (intro exI conjI, assumption+)
qed

text \<open>The answer to a subscription survives the wire when the buffer really has room for it
  and the array of the reader is large enough.\<close>

theorem suback_roundtrip:
  assumes "count = int (length qs)" "\<forall>q\<in>set qs. 0 \<le> q \<and> q < 256" "length qs < 126"
    and "4 + count \<le> buflen" "buflen \<le> int (length buf)"
    and "count \<le> maxcount" "length qs \<le> length (so_grantedQoSs o0)"
  shows "\<exists>buf1. MQTTSerialize_suback buf buflen pid count qs = Some (buf1, 4 + count) \<and>
      length buf1 = length buf \<and>
      MQTTDeserialize_suback o0 maxcount buf1 n
        = Some (1, \<lparr>so_packetid = pid, so_count = count,
                    so_grantedQoSs = qs @ drop (length qs) (so_grantedQoSs o0)\<rparr>)"
proof -
  let ?h = "MQTTHeader_byte SUBACK 0 0 0"
  let ?cs = "map word_of_int qs :: u8 list"
  let ?pk = "mqtt_packet ?h (int_bytes (uint pid) @ ?cs)"
  define m where "m = ?pk @ drop (length ?pk) buf"
  have lpk: "length ?pk = 4 + length qs" using assms(3) by (simp add: length_packet encode_small)
  have wc: "put_bytes bs w \<bind> (\<lambda>w. writeChars qs 0 (length qs) w \<bind> ptr_rc)
      = put_bytes (bs @ ?cs) w \<bind> ptr_rc" for bs w
    using writeChars_put[of 0 "length qs" qs bs w] by (simp add: Option.bind_assoc[symmetric])
  have "MQTTSerialize_suback buf buflen pid count qs = emit ?pk buf"
    using assms(1,4) by (simp add: MQTTSerialize_suback_def writeChar_def writeInt_def put_put_then wc
        emit_def mqtt_packet_def)
  then have ser: "MQTTSerialize_suback buf buflen pid count qs = Some (m, 4 + count)"
    using emit_fits[of ?pk buf] lpk assms(1,4,5) by (simp add: m_def)
  obtain k where k: "readChar m 0 = Some (?h, 1)"
    "MQTTPacket_decodeBuf m 1 = Some (k, 2 + int (length ?cs))"
    "readInt m (1 + k) = Some (uint pid, 1 + k + 2)" "drop (1 + k + 2) m = ?cs @ drop (length ?pk) buf"
    by (rule packet_pid[OF m_def]) (use assms(3) in simp)
  have "uint (word_of_int (qs ! i) :: u8) = qs ! i" if "i < length qs" for i
    using assms(2) nth_mem[of i qs] that by (auto simp: uint_word_of_int)
  then have cs: "map uint ?cs = qs" by (intro nth_equalityI) simp_all
  have "suback_loop m maxcount (1 + k + 2) (int (1 + k + 2 + length ?cs)) (int 0) (so_grantedQoSs o0)
      = Some (1, int (0 + length ?cs), [] @ map uint ?cs @ drop (length ?cs) (so_grantedQoSs o0))"
    by (rule suback_loop_reads[OF k(4) refl, where A="[]"]) (use assms(1,6,7) in simp_all)
  then have "MQTTDeserialize_suback o0 maxcount m n
      = Some (1, \<lparr>so_packetid = pid, so_count = count,
                  so_grantedQoSs = qs @ drop (length qs) (so_grantedQoSs o0)\<rparr>)"
    using k(1-3) assms(1) unfolding cs
    by (simp add: MQTTDeserialize_suback_def header_fields algebra_simps del: map_map)
  then show ?thesis using ser lpk assms(1,4,5) by (simp add: m_def)
qed

theorem suback_roundtrip_witness:
  "\<exists>buf1. MQTTSerialize_suback (replicate 8 0) 8 3 2 [0, 128] = Some (buf1, 6) \<and>
     MQTTDeserialize_suback \<lparr>so_packetid = 0, so_count = 0, so_grantedQoSs = [7, 7]\<rparr> 2 buf1 6
       = Some (1, \<lparr>so_packetid = 3, so_count = 2, so_grantedQoSs = [0, 128]\<rparr>)"
  using suback_roundtrip[of 2 "[0, 128]" 8 "replicate 8 0" 2
      "\<lparr>so_packetid = 0, so_count = 0, so_grantedQoSs = [7, 7]\<rparr>" 3 6]
  by auto

text \<open>The bound of \<open>MQTTDeserialize_suback\<close> is one too large: when the peer grants more
  qualities of service than the array has entries, and \<open>maxcount\<close> states the array's true size,
  the deserialiser writes behind the array (the model has no value for that) instead of
  reporting \<open>-1\<close>.\<close>

theorem suback_overrun:
  fixes pid :: u16
  assumes "m = mqtt_packet (MQTTHeader_byte SUBACK 0 0 0) (int_bytes (uint pid) @ grants) @ r"
    and "length (so_grantedQoSs o0) < length grants" "length grants < 100000"
    and "maxcount = int (length (so_grantedQoSs o0))"
  shows "MQTTDeserialize_suback o0 maxcount m n = None"
proof -
  obtain k where k: "readChar m 0 = Some (MQTTHeader_byte SUBACK 0 0 0, 1)"
    "MQTTPacket_decodeBuf m 1 = Some (k, 2 + int (length grants))"
    "readInt m (1 + k) = Some (uint pid, 1 + k + 2)" "drop (1 + k + 2) m = grants @ r"
    by (rule packet_pid[OF assms(1)]) (use assms(3) in simp)
  have "suback_loop m maxcount (1 + k + 2) (int (1 + k + 2 + length grants)) (int 0) (so_grantedQoSs o0) = None"
    by (rule suback_loop_overrun[OF k(4) refl]) (use assms(2,4) in simp_all)
  then show ?thesis
    using k(1-3) by (simp add: MQTTDeserialize_suback_def header_fields algebra_simps)
qed

theorem suback_overrun_witness:
  "MQTTDeserialize_suback \<lparr>so_packetid = 0, so_count = 0, so_grantedQoSs = [0]\<rparr> 1
     (mqtt_packet (MQTTHeader_byte SUBACK 0 0 0) (int_bytes (uint (5 :: u16)) @ [0, 0]) @ []) 6 = None"
  by (rule suback_overrun[OF refl]) simp_all

text \<open>An unsubscription survives the wire: \<open>MQTTDeserialize_unsubscribe\<close> reads back the
  identifier and the filters that \<open>MQTTSerialize_unsubscribe\<close> wrote.\<close>

theorem unsubscribe_roundtrip:
  assumes "\<forall>f\<in>set fs. ms_ok f" "dup \<in> {0, 1}"
    and "MQTTSerialize_unsubscribeLength (int (length fs)) fs = Some l" "l < 268435456"
    and "MQTTPacket_len l \<le> buflen" "buflen \<le> int (length buf)"
    and "length fs \<le> length (us_topicFilters o0)"
  shows "\<exists>buf1 n.
      MQTTSerialize_unsubscribe buf buflen dup pid (int (length fs)) fs = Some (buf1, n) \<and>
      0 < n \<and> n \<le> buflen \<and> length buf1 = length buf \<and>
      MQTTDeserialize_unsubscribe o0 maxcount buf1 n
        = Some (1, \<lparr>us_dup = dup, us_packetid = pid, us_count = int (length fs),
            us_topicFilters = map (ms_of \<circ> ms_content) fs @ drop (length fs) (us_topicFilters o0)\<rparr>)"
proof -
  let ?ts = "map ms_content fs"
  let ?h = "MQTTHeader_byte UNSUBSCRIBE dup 1 0"
  let ?body = "int_bytes (uint pid) @ concat (map utf ?ts)"
  let ?pk = "mqtt_packet ?h ?body"
  define m where "m = ?pk @ drop (length ?pk) buf"
  have l: "l = int (length ?body)" using assms(3) unsubscribeLength_items[OF assms(1)] by simp
  then have ok: "remlen_ok (length ?body)" using assms(4) by simp
  have fits: "int (length ?pk) \<le> buflen" "0 < length ?pk"
    using packet_fits[OF ok] assms(5) l by (auto simp: length_packet)
  have ser: "MQTTSerialize_unsubscribe buf buflen dup pid (int (length fs)) fs = Some (m, int (length ?pk))"
    using unsubscribe_emit[OF assms(1,3,5)] emit_fits[of ?pk buf] fits assms(6) by (simp add: m_def)
  obtain k where k: "readChar m 0 = Some (?h, 1)"
    "MQTTPacket_decodeBuf m 1 = Some (k, 2 + int (length (concat (map utf ?ts))))"
    "readInt m (1 + k) = Some (uint pid, 1 + k + 2)"
    "drop (1 + k + 2) m = concat (map utf ?ts) @ drop (length ?pk) buf"
    by (rule packet_pid[OF m_def]) (use ok in simp)
  have short: "\<forall>t\<in>set ?ts. length t < 65536" using assms(1) by (auto simp: ms_ok_def)
  have loop: "unsubscribe_read_loop m (1 + k + 2) (int (1 + k + 2 + length (concat (map utf ?ts)))) (int 0)
        (us_topicFilters o0)
      = Some (True, int (0 + length ?ts), [] @ map ms_of ?ts @ drop (length ?ts) (us_topicFilters o0))"
    by (rule unsubscribe_read_loop_items[OF k(4) refl short, where A="[]"]) (use assms(7) in simp_all)
  have d1: "dup AND 1 = dup" using assms(2) by auto
  define L where "L = length (concat (map utf ?ts))"
  have "MQTTDeserialize_unsubscribe o0 maxcount m n
      = Some (1, \<lparr>us_dup = dup, us_packetid = pid, us_count = int (length fs),
            us_topicFilters = map (ms_of \<circ> ms_content) fs @ drop (length fs) (us_topicFilters o0)\<rparr>)" for n
    using k(1-3) loop d1 unfolding L_def[symmetric]
    by (simp add: MQTTDeserialize_unsubscribe_def header_fields algebra_simps)
  then show ?thesis using ser fits assms(6) by (auto simp: m_def)
qed

theorem unsubscribe_roundtrip_witness:
  "\<exists>buf1 n.
     MQTTSerialize_unsubscribe (replicate 16 0) 16 0 9 (int (length [ms_of (cstr ''a/b'')])) [ms_of (cstr ''a/b'')]
       = Some (buf1, n) \<and>
     MQTTDeserialize_unsubscribe \<lparr>us_dup = 0, us_packetid = 0, us_count = 0,
       us_topicFilters = [MQTTString_initializer]\<rparr> 1 buf1 n
     = Some (1, \<lparr>us_dup = 0, us_packetid = 9, us_count = 1, us_topicFilters = [ms_of (cstr ''a/b'')]\<rparr>)"
proof -
  let ?f = "ms_of (cstr ''a/b'')"
  let ?o = "\<lparr>us_dup = 0, us_packetid = 0, us_count = 0, us_topicFilters = [MQTTString_initializer]\<rparr>"
  have l: "MQTTSerialize_unsubscribeLength (int (length [?f])) [?f] = Some 7"
    by (simp add: MQTTSerialize_unsubscribeLength_def MQTTstrlen_ok)
  have p: "\<forall>f\<in>set [?f]. ms_ok f" "(0 :: u8) \<in> {0, 1}" "(7 :: int) < 268435456" "MQTTPacket_len 7 \<le> 16"
    "16 \<le> int (length (replicate 16 (0 :: u8)))" "length [?f] \<le> length (us_topicFilters ?o)"
    by (simp_all add: MQTTPacket_len_def)
  obtain buf1 n where "MQTTSerialize_unsubscribe (replicate 16 0) 16 0 9 (int (length [?f])) [?f] = Some (buf1, n)"
    "MQTTDeserialize_unsubscribe ?o 1 buf1 n
      = Some (1, \<lparr>us_dup = 0, us_packetid = 9, us_count = int (length [?f]),
            us_topicFilters = map (ms_of \<circ> ms_content) [?f] @ drop (length [?f]) (us_topicFilters ?o)\<rparr>)"
    using unsubscribe_roundtrip[OF p(1,2) l p(3-6), of 9 1] by blast
  then show ?thesis by - (intro exI conjI, assumption, simp)
qed

end
