(* ===== verification/MqttConnect.thy ===== *)
theory MqttConnect
  imports MqttPublish
begin

text \<open>
  Connecting, \<^verbatim>\<open>MQTTConnectClient.c\<close> and \<^verbatim>\<open>MQTTConnectServer.c\<close> under
  \<^verbatim>\<open>src/net/mqtt/MQTTPacket\<close> with the records of \<^verbatim>\<open>MQTTConnect.h\<close>.
\<close>

unbundle bit_operations_syntax

section \<open>Records and flags\<close>

record MQTTPacket_willOptions =
  wo_struct_id :: "u8 list"
  wo_struct_version :: int
  wo_topicName :: MQTTString
  wo_message :: MQTTString
  wo_retained :: u8
  wo_qos :: u8

record MQTTPacket_connectData =
  cd_struct_id :: "u8 list"
  cd_struct_version :: int
  cd_MQTTVersion :: u8
  cd_clientID :: MQTTString
  cd_keepAliveInterval :: u16
  cd_cleansession :: u8
  cd_willFlag :: u8
  cd_will :: MQTTPacket_willOptions
  cd_username :: MQTTString
  cd_password :: MQTTString

definition MQTTPacket_willOptions_initializer :: MQTTPacket_willOptions where
  "MQTTPacket_willOptions_initializer =
     \<lparr>wo_struct_id = cstr ''MQTW'', wo_struct_version = 0, wo_topicName = MQTTString_initializer,
      wo_message = MQTTString_initializer, wo_retained = 0, wo_qos = 0\<rparr>"

definition MQTTPacket_connectData_initializer :: MQTTPacket_connectData where
  "MQTTPacket_connectData_initializer =
     \<lparr>cd_struct_id = cstr ''MQTC'', cd_struct_version = 0, cd_MQTTVersion = 4,
      cd_clientID = MQTTString_initializer, cd_keepAliveInterval = 60, cd_cleansession = 1,
      cd_willFlag = 0, cd_will = MQTTPacket_willOptions_initializer,
      cd_username = MQTTString_initializer, cd_password = MQTTString_initializer\<rparr>"

text \<open>The unions \<open>MQTTConnectFlags\<close> and \<open>MQTTConnackFlags\<close>, whose fields the compiler lays
  out from the low bit up.\<close>

definition MQTTConnectFlags_all :: "u8 \<Rightarrow> u8 \<Rightarrow> u8 \<Rightarrow> u8 \<Rightarrow> u8 \<Rightarrow> u8 \<Rightarrow> u8" where
  "MQTTConnectFlags_all cleansession will willQoS willRetain password username =
     push_bit 1 (cleansession AND 1) OR push_bit 2 (will AND 1) OR push_bit 3 (willQoS AND 3) OR
     push_bit 5 (willRetain AND 1) OR push_bit 6 (password AND 1) OR push_bit 7 (username AND 1)"

definition flags_cleansession :: "u8 \<Rightarrow> u8" where "flags_cleansession f = drop_bit 1 f AND 1"
definition flags_will :: "u8 \<Rightarrow> u8" where "flags_will f = drop_bit 2 f AND 1"
definition flags_willQoS :: "u8 \<Rightarrow> u8" where "flags_willQoS f = drop_bit 3 f AND 3"
definition flags_willRetain :: "u8 \<Rightarrow> u8" where "flags_willRetain f = drop_bit 5 f AND 1"
definition flags_password :: "u8 \<Rightarrow> u8" where "flags_password f = drop_bit 6 f AND 1"
definition flags_username :: "u8 \<Rightarrow> u8" where "flags_username f = drop_bit 7 f AND 1"

definition MQTTConnackFlags_all :: "u8 \<Rightarrow> u8" where
  "MQTTConnackFlags_all sessionpresent = push_bit 7 (sessionpresent AND 1)"

definition connack_sessionpresent :: "u8 \<Rightarrow> u8" where
  "connack_sessionpresent f = drop_bit 7 f AND 1"

section \<open>The client's side\<close>

text \<open>\<open>options->username.cstring || options->username.lenstring.data\<close>\<close>

definition ms_present :: "MQTTString \<Rightarrow> bool" where
  "ms_present s \<longleftrightarrow> ms_cstring s \<noteq> None \<or> ms_data s \<noteq> None"

definition MQTTSerialize_connectLength :: "MQTTPacket_connectData \<Rightarrow> int" where
  "MQTTSerialize_connectLength options =
     (if cd_MQTTVersion options = 3 then 12 else if cd_MQTTVersion options = 4 then 10 else 0)
     + MQTTstrlen (cd_clientID options) + 2
     + (if cd_willFlag options \<noteq> 0
        then MQTTstrlen (wo_topicName (cd_will options)) + 2 + MQTTstrlen (wo_message (cd_will options)) + 2
        else 0)
     + (if ms_present (cd_username options) then MQTTstrlen (cd_username options) + 2 else 0)
     + (if ms_present (cd_password options) then MQTTstrlen (cd_password options) + 2 else 0)"

definition connect_flags :: "MQTTPacket_connectData \<Rightarrow> u8" where
  "connect_flags options =
     (let will = (if cd_willFlag options \<noteq> 0 then 1 else 0)
      in MQTTConnectFlags_all (cd_cleansession options) will
           (if will \<noteq> 0 then wo_qos (cd_will options) else 0)
           (if will \<noteq> 0 then wo_retained (cd_will options) else 0)
           (if ms_present (cd_password options) then 1 else 0)
           (if ms_present (cd_username options) then 1 else 0))"

definition MQTTSerialize_connect :: "u8 list \<Rightarrow> int \<Rightarrow> MQTTPacket_connectData \<Rightarrow> serialized" where
  "MQTTSerialize_connect buf buflen options =
     (let len = MQTTSerialize_connectLength options; flags = connect_flags options
      in if MQTTPacket_len len > buflen then Some (buf, MQTTPACKET_BUFFER_TOO_SHORT)
         else do {
           w \<leftarrow> writeChar (MQTTHeader_byte CONNECT 0 0 0) (buf, 0);
           w \<leftarrow> put_bytes (MQTTPacket_encode len) w;
           w \<leftarrow> (if cd_MQTTVersion options = 4
                 then do { w \<leftarrow> writeCString (cstr ''MQTT'') w; writeChar 4 w }
                 else do { w \<leftarrow> writeCString (cstr ''MQIsdp'') w; writeChar 3 w });
           w \<leftarrow> writeChar flags w;
           w \<leftarrow> writeInt (uint (cd_keepAliveInterval options)) w;
           w \<leftarrow> writeMQTTString (cd_clientID options) w;
           w \<leftarrow> (if cd_willFlag options \<noteq> 0
                 then do { w \<leftarrow> writeMQTTString (wo_topicName (cd_will options)) w;
                           writeMQTTString (wo_message (cd_will options)) w }
                 else Some w);
           w \<leftarrow> (if flags_username flags \<noteq> 0 then writeMQTTString (cd_username options) w else Some w);
           w \<leftarrow> (if flags_password flags \<noteq> 0 then writeMQTTString (cd_password options) w else Some w);
           ptr_rc w
         })"

text \<open>Output parameters \<open>sessionPresent\<close> and \<open>connack_rc\<close>.\<close>

definition MQTTDeserialize_connack :: "u8 \<times> u8 \<Rightarrow> u8 list \<Rightarrow> int \<Rightarrow> (int \<times> u8 \<times> u8) option" where
  "MQTTDeserialize_connack o0 buf buflen = do {
     (header, curdata) \<leftarrow> readChar buf 0;
     if header_type header \<noteq> CONNACK then Some (0, o0)
     else do {
       (n, mylen) \<leftarrow> MQTTPacket_decodeBuf buf curdata;
       let rc = int n; let curdata = curdata + n; let enddata = int curdata + mylen;
       if enddata - int curdata < 2 then Some (rc, o0)
       else do {
         (flags, curdata) \<leftarrow> readChar buf curdata;
         (connack_rc, curdata) \<leftarrow> readChar buf curdata;
         Some (1, connack_sessionpresent flags, connack_rc)
       }
     }
   }"

definition MQTTSerialize_zero :: "u8 list \<Rightarrow> int \<Rightarrow> u8 \<Rightarrow> serialized" where
  "MQTTSerialize_zero buf buflen packettype =
     (if buflen < 2 then Some (buf, MQTTPACKET_BUFFER_TOO_SHORT)
      else do {
        w \<leftarrow> writeChar (MQTTHeader_byte packettype 0 0 0) (buf, 0);
        w \<leftarrow> put_bytes (MQTTPacket_encode 0) w;
        ptr_rc w
      })"

definition MQTTSerialize_disconnect :: "u8 list \<Rightarrow> int \<Rightarrow> serialized" where
  "MQTTSerialize_disconnect buf buflen = MQTTSerialize_zero buf buflen DISCONNECT"

definition MQTTSerialize_pingreq :: "u8 list \<Rightarrow> int \<Rightarrow> serialized" where
  "MQTTSerialize_pingreq buf buflen = MQTTSerialize_zero buf buflen PINGREQ"

section \<open>The server's side\<close>

text \<open>\<open>memcmp(data, name, min(length of name, len)) == 0\<close>; a negative count is a huge
  \<open>size_t\<close>.\<close>

definition memcmp_eq :: "u8 list option \<Rightarrow> u8 list \<Rightarrow> int \<Rightarrow> bool option" where
  "memcmp_eq data name len =
     (let n = (if int (length name) < len then int (length name) else len)
      in if n < 0 then None
         else if n = 0 then Some True
         else do { d \<leftarrow> data; bs \<leftarrow> rd_block d 0 (nat n); Some (bs = take (nat n) name) })"

definition MQTTPacket_checkVersion :: "MQTTString \<Rightarrow> int \<Rightarrow> bool option" where
  "MQTTPacket_checkVersion protocol version =
     (if version = 3 then memcmp_eq (ms_data protocol) (cstr ''MQIsdp'') (ms_len protocol)
      else if version = 4 then memcmp_eq (ms_data protocol) (cstr ''MQTT'') (ms_len protocol)
      else Some False)"

text \<open>The sections of \<open>MQTTDeserialize_connect\<close> after the version: the will, then user name
  and password.  The flag says whether the code goes on or takes \<open>goto exit\<close> with \<open>rc = 0\<close>.\<close>

type_synonym connect_read = "(bool \<times> MQTTPacket_connectData \<times> nat) option"

definition connect_read_will ::
  "u8 list \<Rightarrow> int \<Rightarrow> u8 \<Rightarrow> MQTTPacket_connectData \<Rightarrow> nat \<Rightarrow> connect_read" where
  "connect_read_will buf enddata flags data curdata =
     (if flags_will flags \<noteq> 0
      then do {
        let w = (cd_will data)\<lparr>wo_qos := flags_willQoS flags, wo_retained := flags_willRetain flags\<rparr>;
        (ok, t, curdata) \<leftarrow> readMQTTLenString (wo_topicName w) buf curdata enddata;
        let w = w\<lparr>wo_topicName := t\<rparr>;
        if \<not> ok then Some (False, data\<lparr>cd_will := w\<rparr>, curdata)
        else do {
          (ok, msg, curdata) \<leftarrow> readMQTTLenString (wo_message w) buf curdata enddata;
          Some (ok, data\<lparr>cd_will := w\<lparr>wo_message := msg\<rparr>\<rparr>, curdata)
        }
      }
      else Some (True, data, curdata))"

definition connect_read_login ::
  "u8 list \<Rightarrow> int \<Rightarrow> u8 \<Rightarrow> MQTTPacket_connectData \<Rightarrow> nat \<Rightarrow> connect_read" where
  "connect_read_login buf enddata flags data curdata =
     (if flags_username flags \<noteq> 0
      then if enddata - int curdata < 3 then Some (False, data, curdata)
           else do {
             (ok, u, curdata) \<leftarrow> readMQTTLenString (cd_username data) buf curdata enddata;
             let data = data\<lparr>cd_username := u\<rparr>;
             if \<not> ok then Some (False, data, curdata)
             else if flags_password flags \<noteq> 0
             then if enddata - int curdata < 3 then Some (False, data, curdata)
                  else do {
                    (ok, p, curdata) \<leftarrow> readMQTTLenString (cd_password data) buf curdata enddata;
                    Some (ok, data\<lparr>cd_password := p\<rparr>, curdata)
                  }
             else Some (True, data, curdata)
           }
      else Some (flags_password flags = 0, data, curdata))"

definition MQTTDeserialize_connect ::
  "MQTTPacket_connectData \<Rightarrow> u8 list \<Rightarrow> int \<Rightarrow> (int \<times> MQTTPacket_connectData) option" where
  "MQTTDeserialize_connect data buf len = do {
     let enddata = len;
     (header, curdata) \<leftarrow> readChar buf 0;
     if header_type header \<noteq> CONNECT then Some (0, data)
     else do {
       (n, mylen) \<leftarrow> MQTTPacket_decodeBuf buf curdata;
       let curdata = curdata + n;
       (ok, protocol, curdata) \<leftarrow> readMQTTLenString MQTTString_initializer buf curdata enddata;
       if \<not> ok \<or> enddata - int curdata < 0 then Some (0, data)
       else do {
         (v, curdata) \<leftarrow> readChar buf curdata;
         known \<leftarrow> MQTTPacket_checkVersion protocol (uint v);
         if \<not> known then Some (0, data)
         else do {
           (flags, curdata) \<leftarrow> readChar buf curdata;
           (keep, curdata) \<leftarrow> readInt buf curdata;
           (ok, cid, curdata) \<leftarrow> readMQTTLenString (cd_clientID data) buf curdata enddata;
           let data = data\<lparr>cd_cleansession := flags_cleansession flags,
                           cd_keepAliveInterval := word_of_int keep, cd_clientID := cid\<rparr>;
           if \<not> ok then Some (0, data)
           else do {
             (ok, data, curdata) \<leftarrow>
               connect_read_will buf enddata flags (data\<lparr>cd_willFlag := flags_will flags\<rparr>) curdata;
             if \<not> ok then Some (0, data)
             else do {
               (ok, data, curdata) \<leftarrow> connect_read_login buf enddata flags data curdata;
               Some (if ok then 1 else 0, data)
             }
           }
         }
       }
     }
   }"

definition MQTTSerialize_connack :: "u8 list \<Rightarrow> int \<Rightarrow> u8 \<Rightarrow> u8 \<Rightarrow> serialized" where
  "MQTTSerialize_connack buf buflen connack_rc sessionPresent =
     (if buflen < 2 then Some (buf, MQTTPACKET_BUFFER_TOO_SHORT)
      else do {
        w \<leftarrow> writeChar (MQTTHeader_byte CONNACK 0 0 0) (buf, 0);
        w \<leftarrow> put_bytes (MQTTPacket_encode 2) w;
        w \<leftarrow> writeChar (MQTTConnackFlags_all sessionPresent) w;
        w \<leftarrow> writeChar connack_rc w;
        ptr_rc w
      })"

section \<open>Flags: lemmas\<close>

lemma connect_flag_fields [mqtt_io]:
  "flags_cleansession (MQTTConnectFlags_all c w q r p u) = c AND 1"
  "flags_will (MQTTConnectFlags_all c w q r p u) = w AND 1"
  "flags_willQoS (MQTTConnectFlags_all c w q r p u) = q AND 3"
  "flags_willRetain (MQTTConnectFlags_all c w q r p u) = r AND 1"
  "flags_password (MQTTConnectFlags_all c w q r p u) = p AND 1"
  "flags_username (MQTTConnectFlags_all c w q r p u) = u AND 1"
  unfolding flags_cleansession_def flags_will_def flags_willQoS_def flags_willRetain_def
    flags_password_def flags_username_def MQTTConnectFlags_all_def bit_masks
  by (rule bit_word_eqI, simp only: bit_drop_bit_eq o_def bit_and_iff bit_or_iff bit_push_bit_iff bit_mask_iff,
      rename_tac n, case_tac "n = 0", simp, case_tac "n = 1", simp, simp)+

lemma connack_flag_field [mqtt_io]:
  "connack_sessionpresent (MQTTConnackFlags_all s) = s AND 1"
  unfolding connack_sessionpresent_def MQTTConnackFlags_all_def bit_masks
  by (rule bit_word_eqI, simp only: bit_drop_bit_eq o_def bit_and_iff bit_push_bit_iff bit_mask_iff) auto

lemma put_if_then [mqtt_io]:
  "put_bytes bs w \<bind> (\<lambda>w. (if c then put_bytes a w else put_bytes b w) \<bind> f)
   = put_bytes (bs @ (if c then a else b)) w \<bind> f"
  "put_bytes bs w \<bind> (\<lambda>w. (if c then put_bytes a w else Some w) \<bind> f)
   = put_bytes (bs @ (if c then a else [])) w \<bind> f"
  by (cases c; simp add: put_put_then)+

section \<open>Connect: what is written\<close>

definition connect_ok :: "MQTTPacket_connectData \<Rightarrow> bool" where
  "connect_ok d \<longleftrightarrow>
     cd_MQTTVersion d \<in> {3, 4} \<and> ms_ok (cd_clientID d) \<and> cd_cleansession d \<in> {0, 1} \<and>
     (cd_willFlag d \<noteq> 0 \<longrightarrow> ms_ok (wo_topicName (cd_will d)) \<and> ms_ok (wo_message (cd_will d)) \<and>
        wo_qos (cd_will d) \<in> {0, 1, 2} \<and> wo_retained (cd_will d) \<in> {0, 1}) \<and>
     (ms_present (cd_username d) \<longrightarrow> ms_ok (cd_username d)) \<and>
     (ms_present (cd_password d) \<longrightarrow> ms_ok (cd_password d))"

text \<open>What the server's reader insists on: a password only with a user name and not empty, an empty user name only
  with a password.\<close>

definition connect_login_ok :: "MQTTPacket_connectData \<Rightarrow> bool" where
  "connect_login_ok d \<longleftrightarrow>
     (ms_present (cd_password d) \<longrightarrow> ms_present (cd_username d) \<and> ms_content (cd_password d) \<noteq> []) \<and>
     (ms_present (cd_username d) \<and> \<not> ms_present (cd_password d) \<longrightarrow> ms_content (cd_username d) \<noteq> [])"

definition connect_protocol :: "MQTTPacket_connectData \<Rightarrow> u8 list" where
  "connect_protocol d = (if cd_MQTTVersion d = 4 then utf (cstr ''MQTT'') @ [4] else utf (cstr ''MQIsdp'') @ [3])"

definition connect_will :: "MQTTPacket_connectData \<Rightarrow> u8 list" where
  "connect_will d =
     (if cd_willFlag d \<noteq> 0
      then utf (ms_content (wo_topicName (cd_will d))) @ utf (ms_content (wo_message (cd_will d))) else [])"

definition ms_optional :: "MQTTString \<Rightarrow> u8 list" where
  "ms_optional s = (if ms_present s then utf (ms_content s) else [])"

definition connect_body :: "MQTTPacket_connectData \<Rightarrow> u8 list" where
  "connect_body d =
     connect_protocol d @ connect_flags d # int_bytes (uint (cd_keepAliveInterval d))
     @ utf (ms_content (cd_clientID d)) @ connect_will d
     @ ms_optional (cd_username d) @ ms_optional (cd_password d)"

lemma connect_flags_login [simp]:
  "flags_username (connect_flags d) \<noteq> 0 \<longleftrightarrow> ms_present (cd_username d)"
  "flags_password (connect_flags d) \<noteq> 0 \<longleftrightarrow> ms_present (cd_password d)"
  "flags_username (connect_flags d) = 0 \<longleftrightarrow> \<not> ms_present (cd_username d)"
  "flags_password (connect_flags d) = 0 \<longleftrightarrow> \<not> ms_present (cd_password d)"
  by (auto simp: connect_flags_def Let_def connect_flag_fields)

lemma connect_flags_will:
  "flags_will (connect_flags d) = (if cd_willFlag d \<noteq> 0 then 1 else 0)"
  by (simp add: connect_flags_def Let_def connect_flag_fields)

lemma connectLength_body:
  assumes "connect_ok d"
  shows "MQTTSerialize_connectLength d = int (length (connect_body d))"
  using assms
  by (auto simp: MQTTSerialize_connectLength_def connect_ok_def connect_body_def connect_protocol_def
      connect_will_def ms_optional_def MQTTstrlen_ok)

lemma connect_emit:
  assumes "connect_ok d" "MQTTPacket_len (MQTTSerialize_connectLength d) \<le> buflen"
  shows "MQTTSerialize_connect buf buflen d
       = emit (mqtt_packet (MQTTHeader_byte CONNECT 0 0 0) (connect_body d)) buf"
proof -
  have cs: "writeCString s = put_bytes (utf s)" for s
    by (rule ext) (simp add: writeCString_def writeInt_def utf_def put_put)
  have will: "(if cd_willFlag d \<noteq> 0
        then do { w \<leftarrow> writeMQTTString (wo_topicName (cd_will d)) w; writeMQTTString (wo_message (cd_will d)) w }
        else Some w)
      = (if cd_willFlag d \<noteq> 0
         then put_bytes (utf (ms_content (wo_topicName (cd_will d))) @ utf (ms_content (wo_message (cd_will d)))) w
         else Some w)" for w
    using assms(1) by (auto simp: connect_ok_def writeMQTTString_fun put_put)
  have user: "(if flags_username (connect_flags d) \<noteq> 0 then writeMQTTString (cd_username d) w else Some w)
      = (if ms_present (cd_username d) then put_bytes (utf (ms_content (cd_username d))) w else Some w)" for w
    using assms(1) by (simp add: connect_ok_def writeMQTTString_fun)
  have pass: "(if flags_password (connect_flags d) \<noteq> 0 then writeMQTTString (cd_password d) w else Some w)
      = (if ms_present (cd_password d) then put_bytes (utf (ms_content (cd_password d))) w else Some w)" for w
    using assms(1) by (simp add: connect_ok_def writeMQTTString_fun)
  have cid: "writeMQTTString (cd_clientID d) = put_bytes (utf (ms_content (cd_clientID d)))"
    using assms(1) by (simp add: connect_ok_def writeMQTTString_fun)
  have e: "(if cd_MQTTVersion d = 4 then utf (cstr ''MQTT'') @ [4] else utf (cstr ''MQIsdp'') @ [3]) @ ys
      = connect_protocol d @ ys" for ys by (simp add: connect_protocol_def)
  show ?thesis
    using assms(2)
    unfolding MQTTSerialize_connect_def Let_def connectLength_body[OF assms(1)] will user pass cs cid
      writeChar_def writeInt_def
    by (simp add: put_put put_put_then put_if_then emit_def mqtt_packet_def connect_body_def
        connect_will_def ms_optional_def connect_protocol_def)
qed

section \<open>Connect: what is read\<close>

text \<open>Every option, except the protocol version, which the reader keeps to itself; the parts that the packet does not
  have keep what the structure held before.\<close>

definition connect_data_read :: "MQTTPacket_connectData \<Rightarrow> MQTTPacket_connectData \<Rightarrow> MQTTPacket_connectData" where
  "connect_data_read d0 d =
     d0\<lparr>cd_cleansession := cd_cleansession d, cd_keepAliveInterval := cd_keepAliveInterval d,
        cd_clientID := ms_of (ms_content (cd_clientID d)),
        cd_willFlag := (if cd_willFlag d \<noteq> 0 then 1 else 0),
        cd_will := (if cd_willFlag d \<noteq> 0
          then (cd_will d0)\<lparr>wo_qos := wo_qos (cd_will d), wo_retained := wo_retained (cd_will d),
                 wo_topicName := ms_of (ms_content (wo_topicName (cd_will d))),
                 wo_message := ms_of (ms_content (wo_message (cd_will d)))\<rparr>
          else cd_will d0),
        cd_username := (if ms_present (cd_username d) then ms_of (ms_content (cd_username d)) else cd_username d0),
        cd_password := (if ms_present (cd_password d) then ms_of (ms_content (cd_password d)) else cd_password d0)\<rparr>"

lemma connect_read_will_ok:
  assumes "connect_ok d" "drop p m = connect_will d @ r" "int (p + length (connect_will d)) \<le> e"
  shows "connect_read_will m e (connect_flags d) x p = Some (True,
      x\<lparr>cd_will := (if cd_willFlag d \<noteq> 0
          then (cd_will x)\<lparr>wo_qos := wo_qos (cd_will d), wo_retained := wo_retained (cd_will d),
                 wo_topicName := ms_of (ms_content (wo_topicName (cd_will d))),
                 wo_message := ms_of (ms_content (wo_message (cd_will d)))\<rparr>
          else cd_will x)\<rparr>, p + length (connect_will d))"
proof (cases "cd_willFlag d \<noteq> 0")
  case True
  let ?t = "ms_content (wo_topicName (cd_will d))"
  let ?g = "ms_content (wo_message (cd_will d))"
  have l: "length ?t < 65536" "length ?g < 65536" and w: "connect_will d = utf ?t @ utf ?g"
    using assms(1) True by (auto simp: connect_ok_def ms_ok_def connect_will_def)
  have d: "drop p m = utf ?t @ utf ?g @ r" using assms(2) w by simp
  have q: "wo_qos (cd_will d) AND 3 = wo_qos (cd_will d)"
    "wo_retained (cd_will d) AND 1 = wo_retained (cd_will d)"
    using assms(1) True by (auto simp: connect_ok_def)
  have f: "flags_will (connect_flags d) = 1" "flags_willQoS (connect_flags d) = wo_qos (cd_will d)"
    "flags_willRetain (connect_flags d) = wo_retained (cd_will d)"
    using True by (simp_all add: connect_flags_def Let_def connect_flag_fields q)
  have "readMQTTLenString s m p e = Some (True, ms_of ?t, p + length (utf ?t))" for s
    by (rule readMQTTLenString_utf[OF d l(1)]) (use assms(3) w in simp)
  moreover have "readMQTTLenString s m (p + length (utf ?t)) e
      = Some (True, ms_of ?g, p + length (utf ?t) + length (utf ?g))" for s
    by (rule readMQTTLenString_utf[OF drop_step[OF d] l(2)]) (use assms(3) w in simp)
  ultimately show ?thesis
    using True by (simp add: connect_read_will_def f w)
next
  case False
  then show ?thesis
    by (simp add: connect_read_will_def connect_flags_will connect_will_def)
qed

lemma connect_read_login_ok:
  assumes "connect_ok d"
    and "drop p m = ms_optional (cd_username d) @ ms_optional (cd_password d) @ r"
    and "e = int (p + length (ms_optional (cd_username d) @ ms_optional (cd_password d)))"
  shows "\<exists>y q. connect_read_login m e (connect_flags d) x p = Some (connect_login_ok d, y, q)
    \<and> (connect_login_ok d \<longrightarrow> y =
      x\<lparr>cd_username := (if ms_present (cd_username d) then ms_of (ms_content (cd_username d)) else cd_username x),
        cd_password := (if ms_present (cd_password d) then ms_of (ms_content (cd_password d)) else cd_password x)\<rparr>)"
proof (cases "ms_present (cd_username d)")
  case True
  let ?u = "ms_content (cd_username d)"
  have u: "length ?u < 65536" and o: "ms_optional (cd_username d) = utf ?u"
    using assms(1) True by (auto simp: connect_ok_def ms_ok_def ms_optional_def)
  have d: "drop p m = utf ?u @ ms_optional (cd_password d) @ r" using assms(2) o by simp
  have user: "readMQTTLenString s m p e = Some (True, ms_of ?u, p + length (utf ?u))" for s
    by (rule readMQTTLenString_utf[OF d u]) (use assms(3) o in simp)
  show ?thesis
  proof (cases "ms_present (cd_password d)")
    case pw: True
    let ?w = "ms_content (cd_password d)"
    have w: "length ?w < 65536" and ow: "ms_optional (cd_password d) = utf ?w"
      using assms(1) pw by (auto simp: connect_ok_def ms_ok_def ms_optional_def)
    have e1: "\<not> e - int p < 3" using assms(3) o ow by simp
    have e2: "e - int (p + length (utf ?u)) < 3 \<longleftrightarrow> ?w = []" using assms(3) o ow by (cases ?w) simp_all
    have "readMQTTLenString s m (p + length (utf ?u)) e
        = Some (True, ms_of ?w, p + length (utf ?u) + length (utf ?w))" for s
      by (rule readMQTTLenString_utf[OF _ w]) (use drop_step[OF d] assms(3) o ow in simp_all)
    then show ?thesis using True pw e1 e2 user by (simp add: connect_read_login_def connect_login_ok_def Let_def)
  next
    case False
    then have "e - int p < 3 \<longleftrightarrow> ?u = []" using assms(3) o by (cases ?u) (simp_all add: ms_optional_def)
    then show ?thesis using True False user by (simp add: connect_read_login_def connect_login_ok_def Let_def)
  qed
next
  case False
  then show ?thesis by (simp add: connect_read_login_def connect_login_ok_def)
qed

lemma checkVersion_protocol:
  "MQTTPacket_checkVersion (ms_of (cstr ''MQTT'')) 4 = Some True"
  "MQTTPacket_checkVersion (ms_of (cstr ''MQIsdp'')) 3 = Some True"
  by (simp_all add: MQTTPacket_checkVersion_def memcmp_eq_def ms_of_def rd_block_def)

lemma connect_decode:
  assumes "connect_ok d" "remlen_ok (length (connect_body d))"
    and "m = mqtt_packet (MQTTHeader_byte CONNECT 0 0 0) (connect_body d) @ r"
    and "n = int (length (mqtt_packet (MQTTHeader_byte CONNECT 0 0 0) (connect_body d)))"
  shows "\<exists>y. MQTTDeserialize_connect d0 m n = Some (if connect_login_ok d then 1 else 0, y)
    \<and> (connect_login_ok d \<longrightarrow> y = connect_data_read d0 d)"
proof -
  define h where "h = MQTTHeader_byte CONNECT 0 0 0"
  define k where "k = length (MQTTPacket_encode (int (length (connect_body d))))"
  define nm where "nm = (if cd_MQTTVersion d = 4 then cstr ''MQTT'' else cstr ''MQIsdp'')"
  define v where "v = (if cd_MQTTVersion d = 4 then 4 else 3 :: u8)"
  define rest where "rest = connect_will d @ ms_optional (cd_username d) @ ms_optional (cd_password d)"
  let ?c = "ms_content (cd_clientID d)"
  let ?p1 = "1 + k + length (utf nm)"
  have pr: "connect_protocol d = utf nm @ [v]" by (simp add: connect_protocol_def nm_def v_def)
  have hdr: "readChar m 0 = Some (h, 1)" "header_type h = CONNECT"
    by (simp_all add: assms(3) h_def packet_header header_fields)
  have rem: "MQTTPacket_decodeBuf m 1 = Some (k, int (length (connect_body d)))"
    using packet_remlen[OF assms(2)] by (simp add: assms(3) k_def)
  have n: "n = int (1 + k + length (connect_body d))" by (simp add: assms(4) length_packet k_def)
  have L: "length (connect_body d) = length (utf nm) + 1 + 1 + 2 + length (utf ?c) + length rest"
    by (simp add: connect_body_def pr rest_def)
  have b: "drop (1 + k) m = utf nm @ v # connect_flags d # int_bytes (uint (cd_keepAliveInterval d))
      @ utf ?c @ rest @ r"
    using packet_body[of "connect_body d" _ r]
    by (simp add: assms(3) k_def connect_body_def[of d] pr rest_def)
  have nm: "length nm < 65536" by (simp add: nm_def)
  have s1: "readMQTTLenString s m (1 + k) n = Some (True, ms_of nm, ?p1)" for s
    by (rule readMQTTLenString_utf[OF b nm]) (simp add: n L)
  have b1: "drop ?p1 m = v # connect_flags d # int_bytes (uint (cd_keepAliveInterval d)) @ utf ?c @ rest @ r"
    by (rule drop_step[OF b])
  then have b2: "drop (?p1 + 1) m = connect_flags d # int_bytes (uint (cd_keepAliveInterval d)) @ utf ?c @ rest @ r"
    using drop_step[of ?p1 m "[v]"] by simp
  then have b3: "drop (?p1 + 2) m = int_bytes (uint (cd_keepAliveInterval d)) @ utf ?c @ rest @ r"
    using drop_step[of "?p1 + 1" m "[connect_flags d]"] by simp
  have c1: "readChar m ?p1 = Some (v, ?p1 + 1)" by (rule readChar_drop[OF b1])
  have c2: "readChar m (?p1 + 1) = Some (connect_flags d, ?p1 + 2)" using readChar_drop[OF b2] by simp
  have i1: "readInt m (?p1 + 2) = Some (uint (cd_keepAliveInterval d), ?p1 + 4)"
    using readInt_drop[OF b3] uint_lt2p[of "cd_keepAliveInterval d"] by simp
  have "?p1 + 4 = ?p1 + 2 + length (int_bytes (uint (cd_keepAliveInterval d)))" by simp
  then have b4: "drop (?p1 + 4) m = utf ?c @ rest @ r" using drop_step[OF b3] by (simp only:)
  have cl: "length ?c < 65536" using assms(1) by (simp add: connect_ok_def ms_ok_def)
  have s2: "readMQTTLenString s m (?p1 + 4) n = Some (True, ms_of ?c, ?p1 + 4 + length (utf ?c))" for s
    by (rule readMQTTLenString_utf[OF b4 cl]) (simp add: n L)
  let ?p2 = "?p1 + 4 + length (utf ?c)"
  have b5: "drop ?p2 m = connect_will d @ ms_optional (cd_username d) @ ms_optional (cd_password d) @ r"
    using drop_step[OF b4] by (simp add: rest_def)
  have cv: "MQTTPacket_checkVersion (ms_of nm) (uint v) = Some True"
    by (simp add: nm_def v_def checkVersion_protocol)
  have cs: "flags_cleansession (connect_flags d) = cd_cleansession d"
    using assms(1) by (auto simp: connect_flags_def Let_def connect_flag_fields connect_ok_def)
  have wl: "int (?p2 + length (connect_will d)) \<le> n" by (simp add: n L rest_def)
  note will = connect_read_will_ok[OF assms(1) b5 wl]
  have ll: "n = int (?p2 + length (connect_will d) + length (ms_optional (cd_username d) @ ms_optional (cd_password d)))"
    by (simp add: n L rest_def)
  note login = connect_read_login_ok[OF assms(1) drop_step[OF b5] ll]
  define p1 p2 where "p1 = ?p1" and "p2 = ?p2"
  have pn: "\<not> n - int p1 < 0" by (simp add: n L p1_def)
  define x where "x = d0\<lparr>cd_cleansession := cd_cleansession d, cd_keepAliveInterval := cd_keepAliveInterval d,
      cd_clientID := ms_of ?c, cd_willFlag := flags_will (connect_flags d)\<rparr>"
  obtain y q where y: "connect_read_login m n (connect_flags d)
      (x\<lparr>cd_will := cd_will (connect_data_read d0 d)\<rparr>) (p2 + length (connect_will d))
      = Some (connect_login_ok d, y, q)" "connect_login_ok d \<longrightarrow> y = connect_data_read d0 d"
    using login[of "x\<lparr>cd_will := cd_will (connect_data_read d0 d)\<rparr>"] unfolding p2_def[symmetric]
    by (auto simp: connect_data_read_def x_def connect_flags_will)
  moreover have "connect_read_will m n (connect_flags d) x p2
      = Some (True, x\<lparr>cd_will := cd_will (connect_data_read d0 d)\<rparr>, p2 + length (connect_will d))"
    using will[of x] unfolding p2_def[symmetric] by (simp add: connect_data_read_def x_def)
  ultimately show ?thesis
    using hdr rem pn s1 c1 c2 i1 s2 cv cs unfolding p2_def[symmetric] unfolding p1_def[symmetric]
    by (simp add: MQTTDeserialize_connect_def Let_def x_def)
qed

lemma connack_emit:
  assumes "2 \<le> buflen"
  shows "MQTTSerialize_connack buf buflen c s
       = emit (mqtt_packet (MQTTHeader_byte CONNACK 0 0 0) [MQTTConnackFlags_all s, c]) buf"
  using assms
  by (simp add: MQTTSerialize_connack_def writeChar_def put_put_then emit_def mqtt_packet_def encode_small)

section \<open>Properties\<close>

text \<open>C26. A connect packet on the wire: for either protocol version, with or without a will, what
  \<open>MQTTSerialize_connect\<close> writes fits the buffer and leaves the bytes behind it alone, and \<open>MQTTDeserialize_connect\<close>
  reads client, session, keep-alive, will and login back (the version it only checks), unless the login is one that
  it refuses: a password without a user name or empty, or an empty user name without a password.\<close>

theorem connect_roundtrip:
  assumes "connect_ok d" "MQTTSerialize_connectLength d < 268435456"
    and "MQTTPacket_len (MQTTSerialize_connectLength d) \<le> buflen" "buflen \<le> int (length buf)"
  shows "\<exists>buf1 n y. MQTTSerialize_connect buf buflen d = Some (buf1, n) \<and>
      0 < n \<and> n \<le> buflen \<and> length buf1 = length buf \<and> drop (nat n) buf1 = drop (nat n) buf \<and>
      MQTTDeserialize_connect d0 buf1 n = Some (if connect_login_ok d then 1 else 0, y) \<and>
      (connect_login_ok d \<longrightarrow> y = connect_data_read d0 d)"
proof -
  let ?pk = "mqtt_packet (MQTTHeader_byte CONNECT 0 0 0) (connect_body d)"
  have ok: "remlen_ok (length (connect_body d))"
    using assms(2) connectLength_body[OF assms(1)] by simp
  have fits: "int (length ?pk) \<le> buflen" "0 < length ?pk"
    using packet_fits[OF ok] assms(3) connectLength_body[OF assms(1)] by (auto simp: length_packet)
  have ser: "MQTTSerialize_connect buf buflen d = Some (?pk @ drop (length ?pk) buf, int (length ?pk))"
    using connect_emit[OF assms(1,3)] emit_fits[of ?pk buf] fits assms(4) by simp
  obtain y where "MQTTDeserialize_connect d0 (?pk @ drop (length ?pk) buf) (int (length ?pk))
      = Some (if connect_login_ok d then 1 else 0, y)" "connect_login_ok d \<longrightarrow> y = connect_data_read d0 d"
    using connect_decode[OF assms(1) ok refl refl] by blast
  then show ?thesis
    using fits assms(4) by - (intro exI conjI, rule ser, simp_all)
qed

theorem connect_roundtrip_witness:
  "\<exists>buf1 n. MQTTSerialize_connect (replicate 64 0) 64
       (MQTTPacket_connectData_initializer\<lparr>cd_clientID := ms_of (cstr ''xr3''), cd_username := ms_of (cstr ''me'')\<rparr>)
       = Some (buf1, n) \<and>
     MQTTDeserialize_connect MQTTPacket_connectData_initializer buf1 n
       = Some (1, MQTTPacket_connectData_initializer\<lparr>cd_clientID := ms_of (cstr ''xr3''),
                    cd_username := ms_of (cstr ''me'')\<rparr>)"
proof -
  let ?d = "MQTTPacket_connectData_initializer\<lparr>cd_clientID := ms_of (cstr ''xr3''), cd_username := ms_of (cstr ''me'')\<rparr>"
  have present: "ms_present (cd_username ?d)" "\<not> ms_present (cd_password ?d)" "cd_willFlag ?d = 0"
    by (simp_all add: MQTTPacket_connectData_initializer_def ms_present_def ms_of_def MQTTString_initializer_def)
  have ok: "connect_ok ?d"
    using present by (auto simp: connect_ok_def MQTTPacket_connectData_initializer_def)
  have lg: "connect_login_ok ?d" using present by (simp add: connect_login_ok_def cstr_def)
  have len: "MQTTSerialize_connectLength ?d = 19"
    using present ok by (simp add: MQTTSerialize_connectLength_def MQTTstrlen_ok)
      (simp add: MQTTPacket_connectData_initializer_def)
  have r: "connect_data_read MQTTPacket_connectData_initializer ?d = ?d"
    using present by (simp add: connect_data_read_def MQTTPacket_connectData_initializer_def)
  have p: "MQTTSerialize_connectLength ?d < 268435456" "MQTTPacket_len (MQTTSerialize_connectLength ?d) \<le> 64"
    "64 \<le> int (length (replicate 64 (0 :: u8)))"
    unfolding len by (simp_all add: MQTTPacket_len_def)
  from connect_roundtrip[OF ok p, of MQTTPacket_connectData_initializer]
  show ?thesis using lg unfolding r by auto
qed

text \<open>A connection acknowledgement survives the wire when the buffer has room for four
  bytes.\<close>

theorem connack_roundtrip:
  assumes "4 \<le> buflen" "buflen \<le> int (length buf)" "s \<in> {0, 1}"
  shows "\<exists>buf1. MQTTSerialize_connack buf buflen c s = Some (buf1, 4) \<and> length buf1 = length buf \<and>
     drop 4 buf1 = drop 4 buf \<and> MQTTDeserialize_connack o0 buf1 n = Some (1, s, c)"
proof -
  let ?h = "MQTTHeader_byte CONNACK 0 0 0"
  let ?b = "[MQTTConnackFlags_all s, c]"
  let ?pk = "mqtt_packet ?h ?b"
  define m where "m = ?pk @ drop 4 buf"
  have l: "length ?pk = 4" by (simp add: length_packet encode_small)
  have ser: "MQTTSerialize_connack buf buflen c s = Some (m, 4)"
    using connack_emit[of buflen] emit_fits[of ?pk buf] l assms(1,2) by (simp add: m_def)
  have s: "s AND 1 = s" using assms(3) by auto
  have m: "m = ?h # 2 # MQTTConnackFlags_all s # c # drop 4 buf"
    by (simp add: m_def mqtt_packet_def encode_small)
  have "MQTTPacket_decodeBuf m 1 = Some (1, 2)"
    using packet_remlen[of ?b ?h "drop 4 buf"] by (simp add: m_def encode_small)
  then have "MQTTDeserialize_connack o0 m n = Some (1, s, c)"
    using m by (simp add: MQTTDeserialize_connack_def readChar_def header_fields connack_flag_field s
        nth_Cons' Let_def)
  then show ?thesis using ser l assms(1,2) by (auto simp: m_def)
qed

theorem connack_roundtrip_witness:
  "\<exists>buf1. MQTTSerialize_connack [0, 0, 0, 0, 9] 5 5 1 = Some (buf1, 4) \<and>
     MQTTDeserialize_connack (0, 0) buf1 4 = Some (1, 1, 5)"
  using connack_roundtrip[of 5 "[0, 0, 0, 0, 9]" 1 5 "(0, 0)" 4] by auto

text \<open>The length check of \<open>MQTTSerialize_connack\<close> is too weak: a buffer of two or three
  bytes passes it, and the packet is then written past the end of the buffer.\<close>

theorem connack_overrun:
  assumes "2 \<le> length buf" "length buf < 4"
  shows "MQTTSerialize_connack buf (int (length buf)) c s = None"
  using assms connack_emit[of "int (length buf)"]
  by (simp add: emit_too_long length_packet encode_small)

theorem connack_overrun_witness: "MQTTSerialize_connack [0, 0] (int (length [0 :: u8, 0])) 5 1 = None"
  by (rule connack_overrun) simp_all

text \<open>The session-present flag is written to and read from the top bit of the flags byte: the
  answer of a broker that follows the standard, which sets the lowest bit, is read as "no
  session present", whatever the return code.\<close>

theorem connack_standard_session_lost:
  "MQTTDeserialize_connack o0 (0x20 # 0x02 # 0x01 # c # r) n = Some (1, 0, c)"
proof -
  have "drop 1 (0x20 # 0x02 # 0x01 # c # r) = MQTTPacket_encode 2 @ 0x01 # c # r"
    by (simp add: encode_small)
  from decodeBuf_encode[OF _ _ this]
  have "MQTTPacket_decodeBuf (0x20 # 0x02 # 0x01 # c # r) 1 = Some (1, 2)" by (simp add: encode_small)
  then show ?thesis
    by (simp add: MQTTDeserialize_connack_def readChar_def header_type_def connack_sessionpresent_def nth_Cons')
qed

end
