(* ===== verification/MqttPlatform.thy ===== *)
theory MqttPlatform
  imports Prelude
begin

text \<open>
  The platform layer of the MQTT client, \<^verbatim>\<open>src/net/mqtt/MQTTClient-C/Xr_RTOS/MQTTXrRTOS.c\<close>:
  32-bit millisecond timers that wrap around, and reading and writing with a timeout on a
  socket.  The socket calls of lwIP and the tick counter of the kernel are the parameters of the
  model; they act on an environment \<open>'e\<close>.
\<close>

section \<open>What the layer calls\<close>

text \<open>
  \<open>select\<close> for reading and for writing with a timeout in milliseconds, \<open>recv\<close> with a length
  (its result and the bytes stored), \<open>send\<close> with the bytes offered, and the milliseconds since
  the start, \<open>OS_TicksToMSecs(OS_GetTicks())\<close>.
\<close>

record 'e sockets =
  so_select_read :: "'e \<Rightarrow> int \<Rightarrow> 'e \<times> int"
  so_recv :: "'e \<Rightarrow> int \<Rightarrow> 'e \<times> int \<times> u8 list"
  so_select_write :: "'e \<Rightarrow> int \<Rightarrow> 'e \<times> int"
  so_send :: "'e \<Rightarrow> u8 list \<Rightarrow> 'e \<times> int"
  so_ticks :: "'e \<Rightarrow> 'e \<times> u32"

section \<open>Timers\<close>

text \<open>A timer is its \<open>end_time\<close>; the clock is read through \<open>ticks\<close>.  The signed differences of
  the source are those of the wrapping 32-bit values.\<close>

type_synonym 'e ticks = "'e \<Rightarrow> 'e \<times> u32"

definition InitTimer :: u32 where
  "InitTimer = 0"

definition countdown_ms :: "'e ticks \<Rightarrow> 'e \<Rightarrow> u32 \<Rightarrow> 'e \<times> u32" where
  "countdown_ms ticks e timeout_ms = (case ticks e of (e1, now) \<Rightarrow> (e1, now + timeout_ms))"

definition countdown :: "'e ticks \<Rightarrow> 'e \<Rightarrow> u32 \<Rightarrow> 'e \<times> u32" where
  "countdown ticks e timeout = countdown_ms ticks e (timeout * 1000)"

definition left_ms :: "'e ticks \<Rightarrow> 'e \<Rightarrow> u32 \<Rightarrow> 'e \<times> int" where
  "left_ms ticks e timer =
     (case ticks e of (e1, now) \<Rightarrow>
        let diff = sint (timer - now) in (e1, if diff < 0 then 0 else diff))"

definition expired :: "'e ticks \<Rightarrow> 'e \<Rightarrow> u32 \<Rightarrow> 'e \<times> bool" where
  "expired ticks e timer = (case ticks e of (e1, now) \<Rightarrow> (e1, 0 \<le> sint (now - timer)))"

section \<open>Reading and writing with a timeout\<close>

text \<open>
  The \<open>do ... while\<close> of \<open>xr_rtos_read\<close>: \<open>recvLen\<close> bytes, the list \<open>got\<close>, have been stored.
  A round that goes on has received at least one byte.
\<close>

function xr_rtos_read_loop ::
  "'e sockets \<Rightarrow> u32 \<Rightarrow> int \<Rightarrow> int \<Rightarrow> u8 list \<Rightarrow> 'e \<Rightarrow> 'e \<times> int \<times> u8 list" where
  "xr_rtos_read_loop so timer len recvLen got e =
     (case left_ms (so_ticks so) e timer of (e1, leftms) \<Rightarrow>
      case so_select_read so e1 leftms of (e2, rc) \<Rightarrow>
        if rc > 0
        then case so_recv so e2 (len - recvLen) of (e3, rc, bs) \<Rightarrow>
               if rc > 0
               then (let recvLen1 = recvLen + rc
                     in if recvLen1 < len
                        then case expired (so_ticks so) e3 timer of (e4, exp) \<Rightarrow>
                               if \<not> exp then xr_rtos_read_loop so timer len recvLen1 (got @ bs) e4
                               else (e4, recvLen1, got @ bs)
                        else (e3, recvLen1, got @ bs))
               else if rc = 0 then (e3, -1, got)
               else (e3, -2, got)
        else if rc = 0 then (e2, recvLen, got)
        else (e2, -2, got))"
  by pat_completeness auto
termination
  by (relation "measure (\<lambda>(so, timer, len, recvLen, got, e). nat (len - recvLen))") auto

declare xr_rtos_read_loop.simps [simp del]

definition xr_rtos_read :: "'e sockets \<Rightarrow> 'e \<Rightarrow> int \<Rightarrow> int \<Rightarrow> 'e \<times> int \<times> u8 list" where
  "xr_rtos_read so e len timeout_ms =
     (case countdown_ms (so_ticks so) e (word_of_int timeout_ms) of (e1, timer) \<Rightarrow>
        xr_rtos_read_loop so timer len 0 [] e1)"

definition xr_rtos_write :: "'e sockets \<Rightarrow> 'e \<Rightarrow> u8 list \<Rightarrow> int \<Rightarrow> 'e \<times> int" where
  "xr_rtos_write so e buffer timeout_ms =
     (case so_select_write so e timeout_ms of (e1, rc) \<Rightarrow>
        if rc > 0
        then case so_send so e1 buffer of (e2, rc) \<Rightarrow>
               if rc > 0 then (e2, rc) else if rc = 0 then (e2, -1) else (e2, -2)
        else if rc = 0 then (e1, 0)
        else (e1, -2))"

text \<open>The network object with its function pointers, and the clock its user reads.\<close>

record 'e network =
  nw_read :: "'e \<Rightarrow> int \<Rightarrow> int \<Rightarrow> 'e \<times> int \<times> u8 list"
  nw_write :: "'e \<Rightarrow> u8 list \<Rightarrow> int \<Rightarrow> 'e \<times> int"
  nw_ticks :: "'e \<Rightarrow> 'e \<times> u32"

definition NewNetwork :: "'e sockets \<Rightarrow> 'e network" where
  "NewNetwork so = \<lparr>nw_read = xr_rtos_read so, nw_write = xr_rtos_write so, nw_ticks = so_ticks so\<rparr>"

section \<open>Lemmas on timers\<close>

lemma sint_neg:
  fixes x :: u32
  assumes "0 < sint x"
  shows "sint (- x) = - sint x"
proof -
  have "sint x < 2147483648" using sint_lt[of x] by simp
  then have "sint (word_of_int (- sint x) :: u32) = - sint x"
    using assms by (intro sint_of_int_small) simp_all
  then show ?thesis by simp
qed

text \<open>Readings of a clock that started at \<open>now\<close> and has advanced by \<open>d\<close>, on a timer set to \<open>t\<close>
  milliseconds: the values are those of the unbounded difference.\<close>

lemma timer_readings:
  fixes now :: u32
  assumes "t < 2147483648" "d < 2147483648" "ticks e1 = (e2, now + of_nat d)"
    and "timer = now + of_nat t"
  shows "left_ms ticks e1 timer = (e2, int (t - d))" "expired ticks e1 timer = (e2, t \<le> d)"
proof -
  have "sint (timer - (now + of_nat d)) = int t - int d"
    "sint (now + of_nat d - timer) = int d - int t"
    using assms(1,2) sint_of_int_small[of "int t - int d"] sint_of_int_small[of "int d - int t"]
    by (simp_all add: assms(4))
  then show "left_ms ticks e1 timer = (e2, int (t - d))" "expired ticks e1 timer = (e2, t \<le> d)"
    using assms(3) by (auto simp: left_ms_def expired_def Let_def)
qed

section \<open>Properties\<close>

text \<open>C27. A timer measures time correctly across the wrap-around of the 32-bit clock: a timer set
  to \<open>t < 2^31\<close> milliseconds has, \<open>d < 2^31\<close> milliseconds later, expired exactly when
  \<open>t \<le> d\<close>, and otherwise has \<open>t - d\<close> milliseconds left.\<close>

theorem timer_wraps:
  assumes "ticks e = (e0, now)" "unat (t :: u32) < 2147483648" "d < 2147483648"
    and "ticks e1 = (e2, now + of_nat d)"
  shows "\<exists>timer. countdown_ms ticks e t = (e0, timer) \<and>
     expired ticks e1 timer = (e2, unat t \<le> d) \<and>
     left_ms ticks e1 timer = (e2, int (unat t - d))"
  using timer_readings[of "unat t" d ticks e1 e2 now "now + t"] assms by (simp add: countdown_ms_def)

theorem timer_wraps_witness:
  "\<exists>timer. countdown_ms (\<lambda>e. (e, e)) (0xFFFFFFFF :: u32) 1000 = (0xFFFFFFFF, timer) \<and>
     expired (\<lambda>e. (e, e)) (0x000000FF :: u32) timer = (0xFF, False) \<and>
     left_ms (\<lambda>e. (e, e)) (0x000000FF :: u32) timer = (0xFF, 744)"
  using timer_wraps[of "\<lambda>e. (e, e)" "0xFFFFFFFF" "0xFFFFFFFF" "0xFFFFFFFF" 1000 256 "0xFF" "0xFF"] by simp

section \<open>The interface the client relies on\<close>

text \<open>
  A network that is a reliable byte stream: \<open>pending\<close> are the bytes still to be read, \<open>sent\<close>
  the bytes written so far, \<open>before tm\<close> says that the timer \<open>tm\<close> is not going to expire during
  the calls considered.
\<close>

locale stream_network =
  fixes nw :: "'e network" and pending sent :: "'e \<Rightarrow> u8 list" and ready :: "'e \<Rightarrow> bool"
    and before :: "u32 \<Rightarrow> 'e \<Rightarrow> bool"
  assumes read_stream: "ready e \<Longrightarrow> 0 < n \<Longrightarrow> nat n \<le> length (pending e) \<Longrightarrow> 0 < t \<Longrightarrow> t < 2147483648 \<Longrightarrow>
      \<exists>e1. nw_read nw e n t = (e1, n, take (nat n) (pending e)) \<and> ready e1 \<and>
        pending e1 = drop (nat n) (pending e) \<and> sent e1 = sent e \<and> (\<forall>tm. before tm e \<longrightarrow> before tm e1)"
    and write_stream: "ready e \<Longrightarrow> bs \<noteq> [] \<Longrightarrow>
      \<exists>e1. nw_write nw e bs t = (e1, int (length bs)) \<and> ready e1 \<and>
        pending e1 = pending e \<and> sent e1 = sent e @ bs \<and> (\<forall>tm. before tm e \<longrightarrow> before tm e1)"
    and ticks_stream: "ready e \<Longrightarrow>
      \<exists>e1 now. nw_ticks nw e = (e1, now) \<and> ready e1 \<and> pending e1 = pending e \<and> sent e1 = sent e \<and>
        (\<forall>tm. before tm e \<longrightarrow> before tm e1 \<and> 0 < sint (tm - now)) \<and>
        (\<forall>t. 0 < sint t \<longrightarrow> before (now + t) e1)"

section \<open>A byte stream behind the socket calls\<close>

text \<open>
  A socket that holds received bytes and hands them out at most \<open>bs_chunk\<close> at a time, so that a
  read takes several rounds; time does not pass while bytes are there.
\<close>

record byte_socket =
  bs_pending :: "u8 list"
  bs_sent :: "u8 list"
  bs_now :: u32
  bs_chunk :: nat

definition byte_sockets :: "byte_socket sockets" where
  "byte_sockets =
     \<lparr>so_select_read = (\<lambda>e ms. if bs_pending e = [] then (e\<lparr>bs_now := bs_now e + word_of_int ms\<rparr>, 0) else (e, 1)),
      so_recv = (\<lambda>e n. let bs = take (min (bs_chunk e) (nat n)) (bs_pending e)
                      in (e\<lparr>bs_pending := drop (length bs) (bs_pending e)\<rparr>, int (length bs), bs)),
      so_select_write = (\<lambda>e ms. (e, 1)),
      so_send = (\<lambda>e bs. (e\<lparr>bs_sent := bs_sent e @ bs\<rparr>, int (length bs))),
      so_ticks = (\<lambda>e. (e, bs_now e))\<rparr>"

lemma byte_read_loop:
  assumes "0 < bs_chunk e" "0 \<le> r" "r < n" "nat (n - r) \<le> length (bs_pending e)" "0 < sint (timer - bs_now e)"
  shows "xr_rtos_read_loop byte_sockets timer n r got e
    = (e\<lparr>bs_pending := drop (nat (n - r)) (bs_pending e)\<rparr>, n, got @ take (nat (n - r)) (bs_pending e))"
  using assms
proof (induction "nat (n - r)" arbitrary: r got e rule: less_induct)
  case less
  define k where "k = min (bs_chunk e) (nat (n - r))"
  let ?e1 = "e\<lparr>bs_pending := drop k (bs_pending e)\<rparr>"
  have k: "0 < k" "k \<le> nat (n - r)" "k \<le> length (bs_pending e)"
    using less.prems by (auto simp: k_def)
  have p: "bs_pending e \<noteq> []" using k by auto
  have nexp: "sint (bs_now e - timer) < 0"
    using less.prems(5) sint_neg[of "timer - bs_now e"] by simp
  show ?case
  proof (cases "r + int k < n")
    case True
    have "xr_rtos_read_loop byte_sockets timer n r got e
        = xr_rtos_read_loop byte_sockets timer n (r + int k) (got @ take k (bs_pending e)) ?e1"
      using True k p nexp
      by (subst xr_rtos_read_loop.simps)
        (simp add: left_ms_def expired_def Let_def byte_sockets_def k_def[symmetric] min_absorb2)
    also have "\<dots> = (?e1\<lparr>bs_pending := drop (nat (n - (r + int k))) (bs_pending ?e1)\<rparr>, n,
        (got @ take k (bs_pending e)) @ take (nat (n - (r + int k))) (bs_pending ?e1))"
      by (rule less.hyps) (use less.prems True k in auto)
    also have "nat (n - (r + int k)) = nat (n - r) - k" using k by simp
    finally show ?thesis
      using k by (simp add: take_drop[symmetric] min_absorb1 flip: take_add)
  next
    case False
    then have "k = nat (n - r)" using k by simp
    then show ?thesis
      using False k p less.prems
      by (subst xr_rtos_read_loop.simps)
        (simp add: left_ms_def Let_def byte_sockets_def k_def[symmetric] min_absorb2)
  qed
qed

lemma byte_read:
  assumes "0 < bs_chunk e" "0 < n" "nat n \<le> length (bs_pending e)" "0 < t" "t < 2147483648"
  shows "xr_rtos_read byte_sockets e n t
    = (e\<lparr>bs_pending := drop (nat n) (bs_pending e)\<rparr>, n, take (nat n) (bs_pending e))"
  using byte_read_loop[of e 0 n "bs_now e + word_of_int t" "[]"] assms sint_of_int_small[of t]
  by (simp add: xr_rtos_read_def countdown_ms_def) (simp add: byte_sockets_def)

interpretation byte_net: stream_network "NewNetwork byte_sockets" bs_pending bs_sent
  "\<lambda>e. 0 < bs_chunk e" "\<lambda>tm e. 0 < sint (tm - bs_now e)"
proof (unfold_locales, goal_cases)
  case (1 e n t)
  then show ?case by (simp add: NewNetwork_def byte_read)
next
  case (2 e bs)
  then show ?case
    by (simp add: NewNetwork_def xr_rtos_write_def byte_sockets_def)
next
  case (3 e)
  then show ?case by (simp add: NewNetwork_def byte_sockets_def)
qed

text \<open>A read returns exactly the next \<open>n\<close> bytes although the socket delivers them in pieces
  of at most \<open>bs_chunk\<close> bytes, and leaves the rest on the socket.\<close>

theorem xr_rtos_read_assembles:
  assumes "0 < bs_chunk e" "0 < n" "nat n \<le> length (bs_pending e)" "0 < t" "t < 2147483648"
  shows "\<exists>e1. nw_read (NewNetwork byte_sockets) e n t = (e1, n, take (nat n) (bs_pending e)) \<and>
     bs_pending e1 = drop (nat n) (bs_pending e)"
  using byte_net.read_stream[OF assms] by blast

theorem xr_rtos_read_assembles_witness:
  "\<exists>e1. nw_read (NewNetwork byte_sockets)
       \<lparr>bs_pending = [1, 2, 3, 4, 5, 6], bs_sent = [], bs_now = 0xFFFFFFF0, bs_chunk = 2\<rparr> 5 100
     = (e1, 5, [1, 2, 3, 4, 5]) \<and> bs_pending e1 = [6]"
  using xr_rtos_read_assembles
    [of "\<lparr>bs_pending = [1, 2, 3, 4, 5, 6], bs_sent = [], bs_now = 0xFFFFFFF0, bs_chunk = 2\<rparr>" 5 100]
  by simp

end
