(* ===== verification/MqttClient.thy ===== *)
theory MqttClient
  imports MqttPlatform MqttConnect MqttSubscribe
begin

text \<open>
  The MQTT client, \<^verbatim>\<open>src/net/mqtt/MQTTClient-C/MQTTClient.c\<close> with
  \<^verbatim>\<open>include/net/mqtt/MQTTClient-C/MQTTClient.h\<close>.  Every operation takes the network, its
  environment and the client and gives back its return code and both; \<^term>\<open>None\<close> is an access
  outside a buffer or a null pointer, or, for the loops that wait, that they never end.  The
  calls of message handlers are recorded in \<open>c_delivered\<close>, a field of the model.  \<open>enum QoS\<close> is
  an \<open>int\<close>.
\<close>

unbundle bit_operations_syntax

section \<open>State\<close>

abbreviation (input) MAX_PACKET_ID :: u32 where "MAX_PACKET_ID \<equiv> 65535"
abbreviation (input) MAX_MESSAGE_HANDLERS :: nat where "MAX_MESSAGE_HANDLERS \<equiv> 5"
abbreviation (input) FAILURE :: int where "FAILURE \<equiv> -1"
abbreviation (input) SUCCESS :: int where "SUCCESS \<equiv> 0"

record MQTTMessage =
  msg_qos :: int
  msg_retained :: u8
  msg_dup :: u8
  msg_id :: u16
  msg_payload :: "u8 list"
  msg_payloadlen :: int

text \<open>A message handler is a function pointer, here its number.\<close>

type_synonym messageHandler = nat

record MessageHandlers =
  mh_topicFilter :: "u8 list option"
  mh_fp :: "messageHandler option"

record MessageData =
  md_message :: MQTTMessage
  md_topicName :: MQTTString

record Client =
  c_next_packetid :: u32
  c_command_timeout_ms :: u32
  c_buf_size :: int
  c_readbuf_size :: int
  c_buf :: "u8 list"
  c_readbuf :: "u8 list"
  c_keepAliveInterval :: u32
  c_ping_outstanding :: bool
  c_isconnected :: bool
  c_messageHandlers :: "MessageHandlers list"
  c_defaultMessageHandler :: "messageHandler option"
  c_ping_timer :: u32
  c_remain_pktfrag_len :: int
  c_delivered :: "(messageHandler \<times> MessageData) list"

definition MQTTClient :: "Client \<Rightarrow> u32 \<Rightarrow> u8 list \<Rightarrow> int \<Rightarrow> u8 list \<Rightarrow> int \<Rightarrow> Client" where
  "MQTTClient c command_timeout_ms buf buf_size readbuf readbuf_size =
     c\<lparr>c_messageHandlers := map (\<lambda>h. h\<lparr>mh_topicFilter := None\<rparr>) (c_messageHandlers c),
       c_command_timeout_ms := command_timeout_ms, c_buf := buf, c_buf_size := buf_size,
       c_readbuf := readbuf, c_readbuf_size := readbuf_size, c_isconnected := False,
       c_ping_outstanding := False, c_defaultMessageHandler := None, c_ping_timer := InitTimer,
       c_remain_pktfrag_len := 0\<rparr>"

definition getNextPacketId :: "Client \<Rightarrow> u32 \<times> Client" where
  "getNextPacketId c =
     (let n = (if c_next_packetid c = MAX_PACKET_ID then 1 else c_next_packetid c + 1)
      in (n, c\<lparr>c_next_packetid := n\<rparr>))"

section \<open>Sending\<close>

text \<open>
  The loop of \<open>sendPacket\<close> over \<open>sent\<close> and \<open>rc\<close>.  Each round offers \<open>length\<close> bytes from
  \<open>buf[sent]\<close> on.
\<close>

partial_function (option) sendPacket_loop ::
  "'e network \<Rightarrow> u8 list \<Rightarrow> int \<Rightarrow> u32 \<Rightarrow> int \<Rightarrow> 'e \<Rightarrow> ('e \<times> int) option" where
  "sendPacket_loop nw buf len timer sent e =
     (if sent < len
      then case expired (nw_ticks nw) e timer of (e1, exp) \<Rightarrow>
             if exp then Some (e1, sent)
             else case left_ms (nw_ticks nw) e1 timer of (e2, left) \<Rightarrow>
               do {
                 bs \<leftarrow> rd_block buf (nat sent) (nat len);
                 case nw_write nw e2 bs left of (e3, rc) \<Rightarrow>
                   if rc < 0 then Some (e3, sent)
                   else sendPacket_loop nw buf len timer (sent + rc) e3
               }
      else Some (e, sent))"

type_synonym 'e client_result = "('e \<times> Client \<times> int) option"

definition sendPacket :: "'e network \<Rightarrow> int \<Rightarrow> u32 \<Rightarrow> 'e \<Rightarrow> Client \<Rightarrow> 'e client_result" where
  "sendPacket nw len timer e c = do {
     (e1, sent) \<leftarrow> sendPacket_loop nw (c_buf c) len timer 0 e;
     if sent = len
     then (case countdown (nw_ticks nw) e1 (c_keepAliveInterval c) of (e2, t) \<Rightarrow>
             Some (e2, c\<lparr>c_ping_timer := t\<rparr>, SUCCESS))
     else Some (e1, c, FAILURE)
   }"

section \<open>Receiving\<close>

text \<open>The result: the environment, the bytes counted and the value.\<close>

function decodePacket_loop ::
  "'e network \<Rightarrow> int \<Rightarrow> nat \<Rightarrow> int \<Rightarrow> int \<Rightarrow> 'e \<Rightarrow> 'e \<times> nat \<times> int" where
  "decodePacket_loop nw timeout len val mult e =
     (if len + 1 > MAX_NO_OF_REMAINING_LENGTH_BYTES then (e, len + 1, val)
      else case nw_read nw e 1 timeout of (e1, rc, bs) \<Rightarrow>
        if rc \<noteq> 1 then (e1, len + 1, val)
        else let i = (case bs of b # _ \<Rightarrow> b | [] \<Rightarrow> 0);
                 val1 = val + uint (i AND 127) * mult
             in if i AND 128 \<noteq> 0 then decodePacket_loop nw timeout (len + 1) val1 (mult * 128) e1
                else (e1, len + 1, val1))"
  by pat_completeness auto
termination
  by (relation "measure (\<lambda>(nw, timeout, len, val, mult, e). MAX_NO_OF_REMAINING_LENGTH_BYTES - len)") auto

declare decodePacket_loop.simps [simp del]

definition decodePacket :: "'e network \<Rightarrow> int \<Rightarrow> 'e \<Rightarrow> 'e \<times> nat \<times> int" where
  "decodePacket nw timeout e = decodePacket_loop nw timeout 0 0 1 e"

text \<open>Discarding the rest of a packet whose read failed: the remaining count, or \<open>goto exit\<close>.\<close>

partial_function (option) discard_fragment ::
  "'e network \<Rightarrow> u32 \<Rightarrow> 'e \<Rightarrow> Client \<Rightarrow> ('e \<times> Client \<times> bool) option" where
  "discard_fragment nw timer e c =
     (if c_remain_pktfrag_len c \<noteq> 0
      then case expired (nw_ticks nw) e timer of (e1, exp) \<Rightarrow>
             if exp then Some (e1, c, False)
             else case left_ms (nw_ticks nw) e1 timer of (e2, left) \<Rightarrow>
                  case nw_read nw e2 (c_remain_pktfrag_len c) left of (e3, readlen, bs) \<Rightarrow>
                  do {
                    rb \<leftarrow> wr_block (c_readbuf c) 0 bs;
                    discard_fragment nw timer e3
                      (c\<lparr>c_readbuf := rb, c_remain_pktfrag_len := c_remain_pktfrag_len c - readlen\<rparr>)
                  }
      else Some (e, c, True))"

text \<open>The fixed header and the body of a packet.  \<open>MQTT_ASSERT\<close> is empty in a release build.\<close>

definition read_header :: "'e network \<Rightarrow> u32 \<Rightarrow> 'e \<Rightarrow> Client \<Rightarrow> 'e client_result" where
  "read_header nw timer e c =
     (case left_ms (nw_ticks nw) e timer of (e1, left) \<Rightarrow>
      case nw_read nw e1 1 left of (e2, rc, bs) \<Rightarrow> do {
        rb \<leftarrow> wr_block (c_readbuf c) 0 bs;
        Some (e2, c\<lparr>c_readbuf := rb\<rparr>, rc)
      })"

definition read_body :: "'e network \<Rightarrow> u32 \<Rightarrow> nat \<Rightarrow> int \<Rightarrow> 'e \<Rightarrow> Client \<Rightarrow> ('e \<times> Client \<times> bool) option" where
  "read_body nw timer len rem_len e c =
     (if rem_len > 0
      then case left_ms (nw_ticks nw) e timer of (e1, left) \<Rightarrow>
           case nw_read nw e1 rem_len left of (e2, readlen, bs) \<Rightarrow> do {
             rb \<leftarrow> wr_block (c_readbuf c) len bs;
             let c1 = c\<lparr>c_readbuf := rb\<rparr>;
             if readlen \<noteq> rem_len
             then Some (e2, c1\<lparr>c_remain_pktfrag_len := rem_len - readlen\<rparr>, False)
             else Some (e2, c1, True)
           }
      else Some (e, c, True))"

definition readPacket :: "'e network \<Rightarrow> u32 \<Rightarrow> 'e \<Rightarrow> Client \<Rightarrow> 'e client_result" where
  "readPacket nw timer e c = do {
     (e, c, ok) \<leftarrow> discard_fragment nw timer e c;
     if \<not> ok then Some (e, c, FAILURE)
     else do {
       (e, c, rc) \<leftarrow> read_header nw timer e c;
       if rc \<noteq> 1 then Some (e, c, FAILURE)
       else (case left_ms (nw_ticks nw) e timer of (e, left) \<Rightarrow>
             case decodePacket nw left e of (e, _, rem_len) \<Rightarrow> do {
               rb \<leftarrow> wr_block (c_readbuf c) 1 (MQTTPacket_encode rem_len);
               let c = c\<lparr>c_readbuf := rb\<rparr>;
               let len = 1 + length (MQTTPacket_encode rem_len);
               (e, c, ok) \<leftarrow> read_body nw timer len rem_len e c;
               if \<not> ok then Some (e, c, FAILURE)
               else do { h \<leftarrow> rd (c_readbuf c) 0; Some (e, c, uint (header_type h)) }
             })
     }
   }"

section \<open>Dispatch\<close>

text \<open>
  \<open>isTopicMatched\<close> on what remains of the filter (up to its NUL) and of the topic name.  After
  a \<open>+\<close> the position in the name moves to the next separator or the end.
\<close>

fun isTopicMatched_loop :: "u8 list \<Rightarrow> u8 list \<Rightarrow> bool" where
  "isTopicMatched_loop [] curn = (curn = [])"
| "isTopicMatched_loop (f # curf) [] = False"
| "isTopicMatched_loop (f # curf) (n # curn) =
     (if n = of_char (CHR ''/'') \<and> f \<noteq> of_char (CHR ''/'') then False
      else if f \<noteq> of_char (CHR ''+'') \<and> f \<noteq> of_char (CHR ''#'') \<and> f \<noteq> n then False
      else if f = of_char (CHR ''+'')
      then isTopicMatched_loop curf (dropWhile (\<lambda>x. x \<noteq> of_char (CHR ''/'')) curn)
      else if f = of_char (CHR ''#'') then isTopicMatched_loop curf []
      else isTopicMatched_loop curf curn)"

definition isTopicMatched :: "u8 list \<Rightarrow> MQTTString \<Rightarrow> bool option" where
  "isTopicMatched topicFilter topicName =
     (case ms_data topicName of
        None \<Rightarrow> if ms_len topicName = 0 then Some (topicFilter = []) else None
      | Some d \<Rightarrow> do {
          name \<leftarrow> rd_block d 0 (nat (ms_len topicName));
          Some (isTopicMatched_loop topicFilter name)
        })"

definition handler_matches :: "MessageHandlers \<Rightarrow> MQTTString \<Rightarrow> bool option" where
  "handler_matches h topicName =
     (case mh_topicFilter h of
        None \<Rightarrow> Some False
      | Some f \<Rightarrow> do {
          eq \<leftarrow> MQTTPacket_equals topicName f;
          if eq then Some True else isTopicMatched f topicName
        })"

fun deliver_loop ::
  "MessageHandlers list \<Rightarrow> MQTTString \<Rightarrow> MQTTMessage \<Rightarrow> Client \<Rightarrow> int \<Rightarrow> (Client \<times> int) option" where
  "deliver_loop [] topicName message c rc = Some (c, rc)"
| "deliver_loop (h # hs) topicName message c rc = do {
     m \<leftarrow> handler_matches h topicName;
     case (m, mh_fp h) of
       (True, Some fp) \<Rightarrow>
         deliver_loop hs topicName message
           (c\<lparr>c_delivered := c_delivered c @ [(fp, \<lparr>md_message = message, md_topicName = topicName\<rparr>)]\<rparr>) SUCCESS
     | _ \<Rightarrow> deliver_loop hs topicName message c rc
   }"

definition deliverMessage :: "Client \<Rightarrow> MQTTString \<Rightarrow> MQTTMessage \<Rightarrow> (Client \<times> int) option" where
  "deliverMessage c topicName message = do {
     (c, rc) \<leftarrow> deliver_loop (c_messageHandlers c) topicName message c FAILURE;
     case (rc = FAILURE, c_defaultMessageHandler c) of
       (True, Some fp) \<Rightarrow>
         Some (c\<lparr>c_delivered := c_delivered c @ [(fp, \<lparr>md_message = message, md_topicName = topicName\<rparr>)]\<rparr>, SUCCESS)
     | _ \<Rightarrow> Some (c, rc)
   }"

definition keepalive :: "'e network \<Rightarrow> 'e \<Rightarrow> Client \<Rightarrow> 'e client_result" where
  "keepalive nw e c =
     (if c_keepAliveInterval c = 0 then Some (e, c, SUCCESS)
      else case expired (nw_ticks nw) e (c_ping_timer c) of (e, exp) \<Rightarrow>
        if exp \<and> \<not> c_ping_outstanding c
        then (case countdown_ms (nw_ticks nw) e 1000 of (e, timer) \<Rightarrow> do {
                (buf, len) \<leftarrow> MQTTSerialize_pingreq (c_buf c) (c_buf_size c);
                let c = c\<lparr>c_buf := buf\<rparr>;
                if len > 0
                then do {
                  (e, c, rc) \<leftarrow> sendPacket nw len timer e c;
                  Some (e, if rc = SUCCESS then c\<lparr>c_ping_outstanding := True\<rparr> else c, rc)
                }
                else Some (e, c, FAILURE)
              })
        else Some (e, c, FAILURE))"

section \<open>One turn of the client\<close>

text \<open>
  The branches of \<open>cycle\<close>: the environment, the client, \<open>rc\<close>, and whether the code goes on to
  \<open>keepalive\<close> (\<open>break\<close>) or takes \<open>goto exit\<close>.  Uninitialised locals are zero here.
\<close>

type_synonym 'e cycle_result = "('e \<times> Client \<times> int \<times> bool) option"

definition cycle_publish :: "'e network \<Rightarrow> u32 \<Rightarrow> 'e \<Rightarrow> Client \<Rightarrow> 'e cycle_result" where
  "cycle_publish nw timer e c = do {
     (d, out) \<leftarrow> MQTTDeserialize_publish
       \<lparr>po_dup = 0, po_qos = 0, po_retained = 0, po_packetid = 0, po_topicName = MQTTString_initializer,
        po_payload = 0, po_payloadlen = 0\<rparr> (c_readbuf c) (c_readbuf_size c);
     if d \<noteq> 1 then Some (e, c, SUCCESS, False)
     else do {
       let msg = \<lparr>msg_qos = po_qos out, msg_retained = po_retained out, msg_dup = po_dup out,
                  msg_id = po_packetid out,
                  msg_payload = take (nat (po_payloadlen out)) (drop (po_payload out) (c_readbuf c)),
                  msg_payloadlen = po_payloadlen out\<rparr>;
       (c, _) \<leftarrow> deliverMessage c (po_topicName out) msg;
       if msg_qos msg = 0 then Some (e, c, SUCCESS, True)
       else do {
         (buf, len) \<leftarrow> (if msg_qos msg = 1 then MQTTSerialize_ack (c_buf c) (c_buf_size c) PUBACK 0 (msg_id msg)
                       else if msg_qos msg = 2 then MQTTSerialize_ack (c_buf c) (c_buf_size c) PUBREC 0 (msg_id msg)
                       else Some (c_buf c, 0));
         let c = c\<lparr>c_buf := buf\<rparr>;
         (e, c, rc) \<leftarrow> (if len \<le> 0 then Some (e, c, FAILURE) else sendPacket nw len timer e c);
         Some (e, c, rc, rc \<noteq> FAILURE)
       }
     }
   }"

definition cycle_pubrec :: "'e network \<Rightarrow> u32 \<Rightarrow> u16 \<Rightarrow> 'e \<Rightarrow> Client \<Rightarrow> 'e cycle_result" where
  "cycle_pubrec nw timer packet_type e c = do {
     (d, out) \<leftarrow> MQTTDeserialize_ack \<lparr>ao_packettype = 0, ao_dup = 0, ao_packetid = 0\<rparr>
                  (c_readbuf c) (c_readbuf_size c);
     if d \<noteq> 1 then Some (e, c, FAILURE, False)
     else do {
       (buf, len) \<leftarrow> MQTTSerialize_ack (c_buf c) (c_buf_size c)
                      (if packet_type = 5 then PUBREL else PUBCOMP) 0 (ao_packetid out);
       let c = c\<lparr>c_buf := buf\<rparr>;
       if len \<le> 0 then Some (e, c, FAILURE, False)
       else do {
         (e, c, rc) \<leftarrow> sendPacket nw len timer e c;
         Some (e, c, if rc \<noteq> SUCCESS then FAILURE else SUCCESS, rc = SUCCESS)
       }
     }
   }"

definition cycle_dispatch :: "'e network \<Rightarrow> u32 \<Rightarrow> u16 \<Rightarrow> 'e \<Rightarrow> Client \<Rightarrow> 'e cycle_result" where
  "cycle_dispatch nw timer packet_type e c =
     (if packet_type = 3 then cycle_publish nw timer e c
      else if packet_type = 5 \<or> packet_type = 6 then cycle_pubrec nw timer packet_type e c
      else if packet_type = 13 then Some (e, c\<lparr>c_ping_outstanding := False\<rparr>, SUCCESS, True)
      else Some (e, c, SUCCESS, True))"

text \<open>\<open>packet_type\<close> is an \<open>unsigned short\<close>.\<close>

definition cycle :: "'e network \<Rightarrow> u32 \<Rightarrow> 'e \<Rightarrow> Client \<Rightarrow> 'e client_result" where
  "cycle nw timer e c = do {
     (e, c, t) \<leftarrow> readPacket nw timer e c;
     let packet_type = (word_of_int t :: u16);
     (e, c, rc, brk) \<leftarrow> cycle_dispatch nw timer packet_type e c;
     (e, c) \<leftarrow> (if brk then do { (e, c, _) \<leftarrow> keepalive nw e c; Some (e, c) } else Some (e, c));
     Some (e, c, if rc = SUCCESS then uint packet_type else rc)
   }"

partial_function (option) yield_loop :: "'e network \<Rightarrow> u32 \<Rightarrow> 'e \<Rightarrow> Client \<Rightarrow> 'e client_result" where
  "yield_loop nw timer e c =
     (case expired (nw_ticks nw) e timer of (e1, exp) \<Rightarrow>
        if exp then Some (e1, c, SUCCESS)
        else do {
          (e2, c2, rc) \<leftarrow> cycle nw timer e1 c;
          if rc = FAILURE then Some (e2, c2, FAILURE) else yield_loop nw timer e2 c2
        })"

definition MQTTYield :: "'e network \<Rightarrow> u32 \<Rightarrow> 'e \<Rightarrow> Client \<Rightarrow> 'e client_result" where
  "MQTTYield nw timeout_ms e c =
     (case countdown_ms (nw_ticks nw) e timeout_ms of (e, timer) \<Rightarrow> yield_loop nw timer e c)"

text \<open>\<open>rc\<close> is the value of the last round, \<open>FAILURE\<close> before the first.\<close>

partial_function (option) waitfor_loop ::
  "'e network \<Rightarrow> int \<Rightarrow> u32 \<Rightarrow> int \<Rightarrow> 'e \<Rightarrow> Client \<Rightarrow> 'e client_result" where
  "waitfor_loop nw packet_type timer rc e c =
     (case expired (nw_ticks nw) e timer of (e1, exp) \<Rightarrow>
        if exp then Some (e1, c, rc)
        else do {
          (e2, c2, rc2) \<leftarrow> cycle nw timer e1 c;
          if rc2 \<noteq> packet_type then waitfor_loop nw packet_type timer rc2 e2 c2
          else Some (e2, c2, rc2)
        })"

definition waitfor :: "'e network \<Rightarrow> int \<Rightarrow> u32 \<Rightarrow> 'e \<Rightarrow> Client \<Rightarrow> 'e client_result" where
  "waitfor nw packet_type timer e c = waitfor_loop nw packet_type timer FAILURE e c"

section \<open>The operations of the interface\<close>

text \<open>A null \<open>options\<close> is \<^term>\<open>None\<close>.\<close>

definition MQTTConnect :: "'e network \<Rightarrow> MQTTPacket_connectData option \<Rightarrow> 'e \<Rightarrow> Client \<Rightarrow> 'e client_result" where
  "MQTTConnect nw options e c =
     (case countdown_ms (nw_ticks nw) e (c_command_timeout_ms c) of (e, connect_timer) \<Rightarrow>
        if c_isconnected c then Some (e, c, FAILURE)
        else do {
          let opts = (case options of Some d \<Rightarrow> d | None \<Rightarrow> MQTTPacket_connectData_initializer);
          let c = c\<lparr>c_keepAliveInterval := ucast (cd_keepAliveInterval opts)\<rparr>;
          let (e, t) = countdown (nw_ticks nw) e (c_keepAliveInterval c);
          let c = c\<lparr>c_ping_timer := t\<rparr>;
          (buf, len) \<leftarrow> MQTTSerialize_connect (c_buf c) (c_buf_size c) opts;
          let c = c\<lparr>c_buf := buf\<rparr>;
          if len \<le> 0 then Some (e, c, FAILURE)
          else do {
            (e, c, rc) \<leftarrow> sendPacket nw len connect_timer e c;
            if rc \<noteq> SUCCESS then Some (e, c, rc)
            else do {
              (e, c, w) \<leftarrow> waitfor nw 2 connect_timer e c;
              rc \<leftarrow> (if w = 2
                    then do {
                      (d, _, connack_rc) \<leftarrow> MQTTDeserialize_connack (0, 255) (c_readbuf c) (c_readbuf_size c);
                      Some (if d = 1 then uint connack_rc else FAILURE)
                    }
                    else Some FAILURE);
              Some (e, if rc = SUCCESS then c\<lparr>c_isconnected := True\<rparr> else c, rc)
            }
          }
        })"

text \<open>The first free slot takes the handler.\<close>

fun add_handler :: "MessageHandlers list \<Rightarrow> u8 list \<Rightarrow> messageHandler option \<Rightarrow> (MessageHandlers list \<times> bool)" where
  "add_handler [] topicFilter fp = ([], False)"
| "add_handler (h # hs) topicFilter fp =
     (if mh_topicFilter h = None
      then (\<lparr>mh_topicFilter = Some topicFilter, mh_fp = fp\<rparr> # hs, True)
      else case add_handler hs topicFilter fp of (hs1, done) \<Rightarrow> (h # hs1, done))"

definition MQTTSubscribe ::
  "'e network \<Rightarrow> u8 list \<Rightarrow> int \<Rightarrow> messageHandler option \<Rightarrow> 'e \<Rightarrow> Client \<Rightarrow> 'e client_result" where
  "MQTTSubscribe nw topicFilter qos handler e c =
     (case countdown_ms (nw_ticks nw) e (c_command_timeout_ms c) of (e, timer) \<Rightarrow>
        if \<not> c_isconnected c then Some (e, c, FAILURE)
        else do {
          let topic = MQTTString_initializer\<lparr>ms_cstring := Some topicFilter\<rparr>;
          let (pid, c) = getNextPacketId c;
          (buf, len) \<leftarrow> MQTTSerialize_subscribe (c_buf c) (c_buf_size c) 0 (ucast pid) 1 [topic] [qos];
          let c = c\<lparr>c_buf := buf\<rparr>;
          if len \<le> 0 then Some (e, c, FAILURE)
          else do {
            (e, c, rc) \<leftarrow> sendPacket nw len timer e c;
            if rc \<noteq> SUCCESS then Some (e, c, rc)
            else do {
              (e, c, w) \<leftarrow> waitfor nw 9 timer e c;
              if w \<noteq> 9 then Some (e, c, FAILURE)
              else do {
                (d, out) \<leftarrow> MQTTDeserialize_suback \<lparr>so_packetid = 0, so_count = 0, so_grantedQoSs = [-1]\<rparr> 1
                             (c_readbuf c) (c_readbuf_size c);
                granted \<leftarrow> rd (so_grantedQoSs out) 0;
                let rc = (if d = 1 then granted else rc);
                if rc \<noteq> 0x80
                then (case add_handler (c_messageHandlers c) topicFilter handler of (hs, done) \<Rightarrow>
                        Some (e, c\<lparr>c_messageHandlers := hs\<rparr>, if done then 0 else rc))
                else Some (e, c, rc)
              }
            }
          }
        })"

text \<open>The search of \<open>MQTTUnsubscribe\<close> compares with every slot, also with a free one, whose
  filter is a null pointer: \<open>strlen(NULL)\<close>.\<close>

fun remove_handler :: "MessageHandlers list \<Rightarrow> MQTTString \<Rightarrow> MessageHandlers list option" where
  "remove_handler [] topic = Some []"
| "remove_handler (h # hs) topic = do {
     f \<leftarrow> mh_topicFilter h;
     eq \<leftarrow> MQTTPacket_equals topic f;
     if eq then Some (\<lparr>mh_topicFilter = None, mh_fp = None\<rparr> # hs)
     else do { hs1 \<leftarrow> remove_handler hs topic; Some (h # hs1) }
   }"

definition MQTTUnsubscribe :: "'e network \<Rightarrow> u8 list \<Rightarrow> 'e \<Rightarrow> Client \<Rightarrow> 'e client_result" where
  "MQTTUnsubscribe nw topicFilter e c =
     (case countdown_ms (nw_ticks nw) e (c_command_timeout_ms c) of (e, timer) \<Rightarrow>
        if \<not> c_isconnected c then Some (e, c, FAILURE)
        else do {
          let topic = MQTTString_initializer\<lparr>ms_cstring := Some topicFilter\<rparr>;
          let (pid, c) = getNextPacketId c;
          (buf, len) \<leftarrow> MQTTSerialize_unsubscribe (c_buf c) (c_buf_size c) 0 (ucast pid) 1 [topic];
          let c = c\<lparr>c_buf := buf\<rparr>;
          if len \<le> 0 then Some (e, c, FAILURE)
          else do {
            (e, c, rc) \<leftarrow> sendPacket nw len timer e c;
            if rc \<noteq> SUCCESS then Some (e, c, rc)
            else do {
              (e, c, w) \<leftarrow> waitfor nw 11 timer e c;
              if w \<noteq> 11 then Some (e, c, FAILURE)
              else do {
                (d, _) \<leftarrow> MQTTDeserialize_unsuback 0 (c_readbuf c) (c_readbuf_size c);
                if d = 1
                then do {
                  hs \<leftarrow> remove_handler (c_messageHandlers c) topic;
                  Some (e, c\<lparr>c_messageHandlers := hs\<rparr>, 0)
                }
                else Some (e, c, rc)
              }
            }
          }
        })"

text \<open>Waiting for the acknowledgement of a publish: type \<open>4\<close> (PUBACK) or \<open>7\<close> (PUBCOMP).\<close>

definition publish_wait_ack :: "'e network \<Rightarrow> int \<Rightarrow> u32 \<Rightarrow> 'e \<Rightarrow> Client \<Rightarrow> 'e client_result" where
  "publish_wait_ack nw t timer e c = do {
     (e, c, w) \<leftarrow> waitfor nw t timer e c;
     if w = t
     then do {
       (d, _) \<leftarrow> MQTTDeserialize_ack \<lparr>ao_packettype = 0, ao_dup = 0, ao_packetid = 0\<rparr>
                  (c_readbuf c) (c_readbuf_size c);
       Some (e, c, if d \<noteq> 1 then FAILURE else SUCCESS)
     }
     else Some (e, c, FAILURE)
   }"

text \<open>The message is passed by reference; its identifier is the one output.\<close>

definition MQTTPublish ::
  "'e network \<Rightarrow> u8 list \<Rightarrow> MQTTMessage \<Rightarrow> 'e \<Rightarrow> Client \<Rightarrow> ('e \<times> Client \<times> MQTTMessage \<times> int) option" where
  "MQTTPublish nw topicName message e c =
     (case countdown_ms (nw_ticks nw) e (c_command_timeout_ms c) of (e, timer) \<Rightarrow>
        if \<not> c_isconnected c then Some (e, c, message, FAILURE)
        else do {
          let topic = MQTTString_initializer\<lparr>ms_cstring := Some topicName\<rparr>;
          let (message, c) =
            (if msg_qos message = 1 \<or> msg_qos message = 2
             then case getNextPacketId c of (pid, c) \<Rightarrow> (message\<lparr>msg_id := ucast pid\<rparr>, c)
             else (message, c));
          (buf, len) \<leftarrow> MQTTSerialize_publish (c_buf c) (c_buf_size c) 0 (msg_qos message)
                         (msg_retained message) (msg_id message) topic (msg_payload message)
                         (msg_payloadlen message);
          let c = c\<lparr>c_buf := buf\<rparr>;
          if len \<le> 0 then Some (e, c, message, FAILURE)
          else do {
            (e, c, rc) \<leftarrow> sendPacket nw len timer e c;
            if rc \<noteq> SUCCESS then Some (e, c, message, rc)
            else do {
              (e, c, rc) \<leftarrow> (if msg_qos message = 1 then publish_wait_ack nw 4 timer e c
                            else if msg_qos message = 2 then publish_wait_ack nw 7 timer e c
                            else Some (e, c, rc));
              Some (e, c, message, rc)
            }
          }
        })"

definition MQTTDisconnect :: "'e network \<Rightarrow> 'e \<Rightarrow> Client \<Rightarrow> 'e client_result" where
  "MQTTDisconnect nw e c = do {
     (buf, len) \<leftarrow> MQTTSerialize_disconnect (c_buf c) (c_buf_size c);
     let c = c\<lparr>c_buf := buf\<rparr>;
     let (e, timer) = countdown_ms (nw_ticks nw) e (c_command_timeout_ms c);
     (e, c, rc) \<leftarrow> (if len > 0 then sendPacket nw len timer e c else Some (e, c, FAILURE));
     Some (e, c\<lparr>c_isconnected := False\<rparr>, rc)
   }"

section \<open>The client on a byte stream\<close>

context stream_network
begin

text \<open>\<open>goes e e1 p s\<close>: from \<open>e\<close> the network got to \<open>e1\<close>, where \<open>p\<close> is still to be read and \<open>s\<close>
  has been sent, and no deadline that was ahead has passed.\<close>

definition goes :: "'e \<Rightarrow> 'e \<Rightarrow> u8 list \<Rightarrow> u8 list \<Rightarrow> bool" where
  "goes e e1 p s \<longleftrightarrow> ready e1 \<and> pending e1 = p \<and> sent e1 = s \<and> (\<forall>tm. before tm e \<longrightarrow> before tm e1)"

lemma goes_trans: "goes e e1 p s \<Longrightarrow> goes e1 e2 p2 s2 \<Longrightarrow> goes e e2 p2 s2"
  by (auto simp: goes_def)

lemma goesD: "goes e e1 p s \<Longrightarrow> ready e1" "goes e e1 p s \<Longrightarrow> pending e1 = p"
  "goes e e1 p s \<Longrightarrow> sent e1 = s" "goes e e1 p s \<Longrightarrow> before tm e \<Longrightarrow> before tm e1"
  by (auto simp: goes_def)

lemma goes_refl: "ready e \<Longrightarrow> goes e e (pending e) (sent e)"
  by (simp add: goes_def)

lemma timers_ahead:
  assumes "ready e" "before tm e"
  shows "\<exists>e1. expired (nw_ticks nw) e tm = (e1, False) \<and> goes e e1 (pending e) (sent e)"
    and "\<exists>e1 left. left_ms (nw_ticks nw) e tm = (e1, left) \<and> 0 < left \<and> left < 2147483648 \<and>
      goes e e1 (pending e) (sent e)"
proof -
  obtain e1 now where t: "nw_ticks nw e = (e1, now)" "goes e e1 (pending e) (sent e)"
    "before tm e \<Longrightarrow> 0 < sint (tm - now)"
    using ticks_stream[OF assms(1)] by (auto simp: goes_def)
  have d: "0 < sint (tm - now)" "sint (tm - now) < 2147483648"
    using t(3) assms(2) sint_lt[of "tm - now"] by auto
  then have "sint (now - tm) < 0" using sint_neg[of "tm - now"] by simp
  then show "\<exists>e1. expired (nw_ticks nw) e tm = (e1, False) \<and> goes e e1 (pending e) (sent e)"
    using t(1,2) by (simp add: expired_def)
  show "\<exists>e1 left. left_ms (nw_ticks nw) e tm = (e1, left) \<and> 0 < left \<and> left < 2147483648 \<and>
      goes e e1 (pending e) (sent e)"
    using t(1,2) d by (simp add: left_ms_def Let_def)
qed

lemma countdown_ahead:
  assumes "ready e"
  shows "\<exists>e1 tm. countdown_ms (nw_ticks nw) e ms = (e1, tm) \<and> goes e e1 (pending e) (sent e) \<and>
    (0 < sint ms \<longrightarrow> before tm e1)"
  using ticks_stream[OF assms] by (auto simp: countdown_ms_def goes_def)

lemma read_goes:
  assumes "ready e" "before tm e" "0 < n" "pending e = bs @ r" "n = int (length bs)"
  shows "\<exists>e1 e2 left. left_ms (nw_ticks nw) e tm = (e1, left) \<and> nw_read nw e1 n left = (e2, n, bs) \<and>
    goes e e2 r (sent e)"
proof -
  obtain e1 left where l: "left_ms (nw_ticks nw) e tm = (e1, left)" "0 < left" "left < 2147483648"
    "goes e e1 (pending e) (sent e)"
    using timers_ahead(2)[OF assms(1,2)] by blast
  then obtain e2 where "nw_read nw e1 n left = (e2, n, bs)" "goes e1 e2 r (sent e1)"
    using read_stream[of e1 n left] assms(3-5) by (auto simp: goes_def)
  then show ?thesis using l goes_trans goesD by metis
qed

lemma sendPacket_goes:
  assumes "ready e" "before tm e" "0 < len" "nat len \<le> length (c_buf c)"
  shows "\<exists>e1 t. sendPacket nw len tm e c = Some (e1, c\<lparr>c_ping_timer := t\<rparr>, SUCCESS) \<and>
    goes e e1 (pending e) (sent e @ take (nat len) (c_buf c)) \<and>
    (0 < sint (c_keepAliveInterval c * 1000) \<longrightarrow> before t e1)"
proof -
  let ?bs = "take (nat len) (c_buf c)"
  obtain e1 where e1: "expired (nw_ticks nw) e tm = (e1, False)" "goes e e1 (pending e) (sent e)"
    using timers_ahead(1)[OF assms(1,2)] by blast
  then obtain e2 left where e2: "left_ms (nw_ticks nw) e1 tm = (e2, left)" "goes e1 e2 (pending e1) (sent e1)"
    using timers_ahead(2)[of e1 tm] assms(2) goesD by metis
  have bs: "?bs \<noteq> []" "int (length ?bs) = len" using assms(3,4) by auto
  then obtain e3 where e3: "nw_write nw e2 ?bs left = (e3, len)" "goes e2 e3 (pending e2) (sent e2 @ ?bs)"
    using write_stream[of e2 ?bs left] e2(2) by (auto simp: goes_def)
  have go: "goes e e3 (pending e) (sent e @ ?bs)"
    using e1(2) e2(2) e3(2) goes_trans goesD by metis
  have loop: "sendPacket_loop nw (c_buf c) len tm 0 e = Some (e3, len)"
    using e1(1) e2(1) e3(1) assms(3,4)
    by (subst sendPacket_loop.simps, simp add: rd_block_def, subst sendPacket_loop.simps, simp)
  obtain e4 t where e4: "countdown (nw_ticks nw) e3 (c_keepAliveInterval c) = (e4, t)"
    "goes e3 e4 (pending e3) (sent e3)" "0 < sint (c_keepAliveInterval c * 1000) \<longrightarrow> before t e4"
    using countdown_ahead[of e3 "c_keepAliveInterval c * 1000"] go
    by (auto simp: countdown_def goes_def)
  have "goes e e4 (pending e) (sent e @ ?bs)"
    using goes_trans[OF go e4(2)] unfolding goesD(2,3)[OF go] .
  then show ?thesis
    using loop e4(1,3) by (auto simp: sendPacket_def)
qed

lemma decodePacket_loop_goes:
  assumes "ready e" "0 < t" "t < 2147483648" "0 \<le> n" "len + length (MQTTPacket_encode n) \<le> 4"
    and "pending e = MQTTPacket_encode n @ r"
  shows "\<exists>e1. decodePacket_loop nw t len val mult e
      = (e1, len + length (MQTTPacket_encode n), val + n * mult) \<and> goes e e1 r (sent e)"
  using assms
proof (induction n arbitrary: e len val mult rule: MQTTPacket_encode.induct)
  case (1 n)
  define d :: u8 where "d = (if n < 128 then word_of_int n else word_of_int (n mod 128) OR 128)"
  define tl where "tl = (if n < 128 then [] else MQTTPacket_encode (n div 128))"
  have enc: "MQTTPacket_encode n = d # tl"
    using 1(5) by (simp add: d_def tl_def encode_small encode_large)
  obtain e1 where e1: "nw_read nw e 1 t = (e1, 1, [d])" "goes e e1 (tl @ r) (sent e)"
    using read_stream[of e 1 t] 1(2-4,7) enc by (auto simp: goes_def)
  have l: "\<not> len + 1 > 4" using 1(6) enc by simp
  show ?case
  proof (cases "n < 128")
    case True
    then show ?thesis
      using e1 l 1(5) enc by (subst decodePacket_loop.simps) (simp add: d_def tl_def digit_last)
  next
    case False
    have sd: "n sdiv 128 = n div 128" using False by (simp add: sdiv_smod_nonneg)
    note IH = 1(1)[OF refl refl, unfolded sd]
    have tl: "tl = MQTTPacket_encode (n div 128)" using False by (simp add: tl_def)
    have "\<exists>e2. decodePacket_loop nw t (len + 1) (val + n mod 128 * mult) (mult * 128) e1
        = (e2, len + 1 + length tl, val + n mod 128 * mult + n div 128 * (mult * 128)) \<and>
        goes e1 e2 r (sent e1)"
      unfolding tl using e1 l 1(3,4,6) enc False goesD(1,2)[OF e1(2)]
      by (intro IH) (auto simp: pos_imp_zdiv_pos_iff tl)
    then obtain e2 where e2: "decodePacket_loop nw t (len + 1) (val + n mod 128 * mult) (mult * 128) e1
        = (e2, len + 1 + length tl, val + n mod 128 * mult + n div 128 * (mult * 128))" "goes e1 e2 r (sent e1)"
      by blast
    have "val + q * mult + k * (mult * 128) = val + n * mult" if "n = k * 128 + q" for q k
      using that by (simp add: algebra_simps)
    then have v: "val + n mod 128 * mult + n div 128 * (mult * 128) = val + n * mult" by simp
    have d: "uint (d AND 127) = n mod 128" "d AND 128 \<noteq> 0"
      using digit_more[of "n mod 128"] False by (auto simp: d_def)
    have "goes e e2 r (sent e)" using goes_trans[OF e1(2) e2(2)] goesD(3)[OF e1(2)] by simp
    moreover have "decodePacket_loop nw t len val mult e
        = decodePacket_loop nw t (len + 1) (val + n mod 128 * mult) (mult * 128) e1"
      using e1(1) l d by (subst decodePacket_loop.simps) simp
    ultimately show ?thesis using e2(1) v enc by simp
  qed
qed

end

context stream_network
begin

lemma readPacket_goes:
  assumes "ready e" "before tm e" "pending e = mqtt_packet h body @ r" "remlen_ok (length body)"
    and "length (mqtt_packet h body) \<le> length (c_readbuf c)" "c_remain_pktfrag_len c = 0"
  shows "\<exists>e1. readPacket nw tm e c = Some (e1,
      c\<lparr>c_readbuf := mqtt_packet h body @ drop (length (mqtt_packet h body)) (c_readbuf c)\<rparr>,
      uint (header_type h)) \<and> goes e e1 r (sent e)"
proof -
  let ?n = "int (length body)"
  let ?enc = "MQTTPacket_encode ?n"
  let ?rb = "c_readbuf c"
  have pk: "mqtt_packet h body = h # ?enc @ body" by (simp add: mqtt_packet_def)
  have le: "length ?enc \<le> 4" using assms(4) by (simp add: encode_length)
  have frag: "discard_fragment nw tm e c = Some (e, c, True)"
    using assms(6) by (subst discard_fragment.simps) simp
  obtain e1 e2 l1 where r1: "left_ms (nw_ticks nw) e tm = (e1, l1)" "nw_read nw e1 1 l1 = (e2, 1, [h])"
    "goes e e2 (?enc @ body @ r) (sent e)"
    using read_goes[OF assms(1,2), of 1 "[h]" "?enc @ body @ r"] assms(3) by (auto simp: pk)
  obtain rb0 rbs where rb: "?rb = rb0 # rbs" using assms(5) by (cases ?rb) (auto simp: pk)
  have hd: "read_header nw tm e c = Some (e2, c\<lparr>c_readbuf := h # rbs\<rparr>, 1)"
    using r1 by (simp add: read_header_def rb wr_block_def)
  have b2: "before tm e2" using goesD(4)[OF r1(3) assms(2)] .
  obtain e3 l3 where l3: "left_ms (nw_ticks nw) e2 tm = (e3, l3)" "0 < l3" "l3 < 2147483648"
    "goes e2 e3 (?enc @ body @ r) (sent e)"
    using timers_ahead(2)[OF goesD(1)[OF r1(3)] b2] goesD(2,3)[OF r1(3)] by auto
  obtain e4 where dec: "decodePacket nw l3 e3 = (e4, length ?enc, ?n)" "goes e3 e4 (body @ r) (sent e)"
    using decodePacket_loop_goes[OF goesD(1)[OF l3(4)] l3(2,3), of ?n 0 "body @ r" 0 1] le
      goesD(2,3)[OF l3(4)] by (auto simp: decodePacket_def)
  let ?m1 = "h # ?enc @ drop (length ?enc) rbs"
  have wr1: "wr_block (h # rbs) 1 ?enc = Some ?m1"
    using assms(5) by (simp add: wr_block_def pk rb)
  have go4: "goes e e4 (body @ r) (sent e)"
    using goes_trans[OF r1(3) goes_trans[OF l3(4) dec(2)]] .
  have "\<exists>e5. read_body nw tm (1 + length ?enc) ?n e4 (c\<lparr>c_readbuf := ?m1\<rparr>)
      = Some (e5, c\<lparr>c_readbuf := mqtt_packet h body @ drop (length (mqtt_packet h body)) ?rb\<rparr>, True) \<and>
      goes e e5 r (sent e)"
  proof (cases "body = []")
    case True
    then show ?thesis using go4 by (simp add: read_body_def mqtt_packet_def rb)
  next
    case False
    have p4: "pending e4 = body @ r" "before tm e4" "ready e4" "sent e4 = sent e"
      using goesD[OF go4] assms(2) by auto
    obtain e5 e6 l5 where r5: "left_ms (nw_ticks nw) e4 tm = (e5, l5)" "nw_read nw e5 ?n l5 = (e6, ?n, body)"
      "goes e4 e6 r (sent e4)"
      using read_goes[OF p4(3,2), of ?n body r] False p4(1) by auto
    have "wr_block ?m1 (1 + length ?enc) body
        = Some (mqtt_packet h body @ drop (length (mqtt_packet h body)) ?rb)"
      using assms(5) by (simp add: wr_block_def pk rb add.commute)
    moreover have "goes e e6 r (sent e)" using goes_trans[OF go4 r5(3)] p4(4) by simp
    ultimately show ?thesis using r5(1,2) False by (simp add: read_body_def Let_def)
  qed
  then show ?thesis
    using frag hd l3(1) dec(1) wr1 by (auto simp: readPacket_def Let_def pk)
qed

end

section \<open>Delivery\<close>

definition filter_accepts :: "u8 list \<Rightarrow> u8 list \<Rightarrow> bool" where
  "filter_accepts f t \<longleftrightarrow> t = f \<or> isTopicMatched_loop f t"

text \<open>The handlers a message with topic \<open>t\<close> goes to: those of the matching slots, in the order of
  the slots, or else the default handler.\<close>

definition slot_receivers :: "MessageHandlers \<Rightarrow> u8 list \<Rightarrow> messageHandler list" where
  "slot_receivers h t = (case (mh_topicFilter h, mh_fp h) of
     (Some f, Some fp) \<Rightarrow> if filter_accepts f t then [fp] else [] | _ \<Rightarrow> [])"

definition receivers :: "MessageHandlers list \<Rightarrow> u8 list \<Rightarrow> messageHandler list" where
  "receivers hs t = concat (map (\<lambda>h. slot_receivers h t) hs)"

lemma receivers_simps [simp]:
  "receivers [] t = []" "receivers (h # hs) t = slot_receivers h t @ receivers hs t"
  by (simp_all add: receivers_def)

definition recipients :: "Client \<Rightarrow> u8 list \<Rightarrow> messageHandler list" where
  "recipients c t =
     (if receivers (c_messageHandlers c) t = []
      then (case c_defaultMessageHandler c of Some fp \<Rightarrow> [fp] | None \<Rightarrow> [])
      else receivers (c_messageHandlers c) t)"

definition message_data :: "MQTTMessage \<Rightarrow> u8 list \<Rightarrow> MessageData" where
  "message_data msg t = \<lparr>md_message = msg, md_topicName = ms_of t\<rparr>"

lemma handler_matches_of:
  "handler_matches h (ms_of t) = Some (case mh_topicFilter h of None \<Rightarrow> False | Some f \<Rightarrow> filter_accepts f t)"
  by (auto simp: handler_matches_def MQTTPacket_equals_def isTopicMatched_def filter_accepts_def ms_of_def
      MQTTstrlen_def rd_block_def split: option.split)

lemma deliver_loop_of:
  "deliver_loop hs (ms_of t) msg c rc = Some
     (c\<lparr>c_delivered := c_delivered c @ map (\<lambda>fp. (fp, message_data msg t)) (receivers hs t)\<rparr>,
      if receivers hs t = [] then rc else SUCCESS)"
proof (induction hs arbitrary: c rc)
  case (Cons h hs)
  show ?case
    by (cases "mh_topicFilter h"; cases "mh_fp h")
      (simp_all add: handler_matches_of Cons.IH slot_receivers_def message_data_def split: bool.split)
qed simp

lemma deliverMessage_of:
  "deliverMessage c (ms_of t) msg = Some
     (c\<lparr>c_delivered := c_delivered c @ map (\<lambda>fp. (fp, message_data msg t)) (recipients c t)\<rparr>,
      if recipients c t = [] then FAILURE else SUCCESS)"
  by (auto simp: deliverMessage_def deliver_loop_of recipients_def message_data_def split: option.split)

section \<open>Turns of the client on a byte stream\<close>

definition ack_packet :: "u8 \<Rightarrow> u16 \<Rightarrow> u8 list" where
  "ack_packet t pid = mqtt_packet (MQTTHeader_byte t 0 (if t = PUBREL then 1 else 0) 0) (int_bytes (uint pid))"

lemma length_ack_packet [simp]: "length (ack_packet t pid) = 4"
  by (simp add: ack_packet_def length_packet encode_small)

definition with_packet :: "Client \<Rightarrow> u8 list \<Rightarrow> Client" where
  "with_packet c pk = c\<lparr>c_readbuf := pk @ drop (length pk) (c_readbuf c)\<rparr>"

definition received :: "int \<Rightarrow> u8 \<Rightarrow> u8 \<Rightarrow> u16 \<Rightarrow> u8 list \<Rightarrow> MQTTMessage" where
  "received qos retained dup pid payload =
     \<lparr>msg_qos = qos, msg_retained = retained, msg_dup = dup, msg_id = (if qos > 0 then pid else 0),
      msg_payload = payload, msg_payloadlen = int (length payload)\<rparr>"

text \<open>The reply to a publish: nothing, PUBACK or PUBREC.\<close>

definition publish_reply :: "int \<Rightarrow> u16 \<Rightarrow> u8 list" where
  "publish_reply qos pid =
     (if qos = 1 then ack_packet PUBACK pid else if qos = 2 then ack_packet PUBREC pid else [])"

lemma ack_written:
  assumes "4 \<le> n" "n \<le> int (length buf)"
  shows "MQTTSerialize_ack buf n t 0 pid = Some (ack_packet t pid @ drop 4 buf, 4)"
  using ack_emit[OF assms(1), of buf t 0 pid] emit_fits[of "ack_packet t pid" buf] assms
  by (simp add: ack_packet_def[symmetric])

context stream_network
begin

lemma keepalive_quiet:
  assumes "ready e" "c_keepAliveInterval c \<noteq> 0 \<longrightarrow> before (c_ping_timer c) e"
  shows "\<exists>e1 rc. keepalive nw e c = Some (e1, c, rc) \<and> goes e e1 (pending e) (sent e)"
proof (cases "c_keepAliveInterval c = 0")
  case True
  then show ?thesis using goes_refl[OF assms(1)] by (simp add: keepalive_def)
next
  case False
  then show ?thesis
    using timers_ahead(1)[OF assms(1), of "c_ping_timer c"] assms(2) by (auto simp: keepalive_def)
qed

lemma cycle_publish_goes:
  assumes "ready e" "before tm e" "length t < 65536" "qos \<in> {0, 1, 2}" "dup \<in> {0, 1}" "retained \<in> {0, 1}"
    and "remlen_ok (length (publish_body qos pid t payload))"
    and "c_readbuf c = publish_packet dup qos retained pid t payload @ r"
    and "4 \<le> c_buf_size c" "c_buf_size c \<le> int (length (c_buf c))"
    and "0 < sint (c_keepAliveInterval c * 1000)"
    and "before (c_ping_timer c) e"
  shows "\<exists>e1 c1. cycle_publish nw tm e c = Some (e1, c1, SUCCESS, True) \<and>
      goes e e1 (pending e) (sent e @ publish_reply qos pid) \<and> before (c_ping_timer c1) e1 \<and>
      c_keepAliveInterval c1 = c_keepAliveInterval c \<and> c_readbuf c1 = c_readbuf c \<and>
      c_delivered c1 = c_delivered c @
        map (\<lambda>fp. (fp, message_data (received qos retained dup pid payload) t)) (recipients c t)"
proof -
  let ?msg = "received qos retained dup pid payload"
  let ?c1 = "c\<lparr>c_delivered := c_delivered c @ map (\<lambda>fp. (fp, message_data ?msg t)) (recipients c t)\<rparr>"
  let ?t = "if qos = 1 then PUBACK else PUBREC"
  have des: "MQTTDeserialize_publish o0 (c_readbuf c) n
      = Some (1, o0\<lparr>po_dup := dup, po_qos := qos, po_retained := retained,
           po_packetid := (if qos > 0 then pid else po_packetid o0), po_topicName := ms_of t,
           po_payloadlen := int (length payload),
           po_payload := publish_payload_at qos pid t payload\<rparr>)" for o0 n
    unfolding assms(8) by (rule publish_decode[OF assms(3-7)])
  have pay: "take (length payload) (drop (publish_payload_at qos pid t payload) (c_readbuf c)) = payload"
    unfolding assms(8) publish_payload_there by simp
  have msg: "\<lparr>msg_qos = qos, msg_retained = retained, msg_dup = dup, msg_id = (if qos > 0 then pid else 0),
      msg_payload = payload, msg_payloadlen = int (length payload)\<rparr> = ?msg" by (simp add: received_def)
  have sel: "msg_id ?msg = (if qos > 0 then pid else 0)" "msg_qos ?msg = qos"
    by (simp_all add: received_def)
  show ?thesis
  proof (cases "qos = 0")
    case True
    then have "cycle_publish nw tm e c = Some (e, ?c1, SUCCESS, True)"
      using pay msg by (simp add: cycle_publish_def des deliverMessage_of Let_def)
    then show ?thesis using True assms(12) goes_refl[OF assms(1)] by (simp add: publish_reply_def)
  next
    case False
    let ?c2 = "?c1\<lparr>c_buf := ack_packet ?t pid @ drop 4 (c_buf c)\<rparr>"
    obtain e1 tp where s: "sendPacket nw 4 tm e ?c2 = Some (e1, ?c2\<lparr>c_ping_timer := tp\<rparr>, SUCCESS)"
      "goes e e1 (pending e) (sent e @ ack_packet ?t pid)" "before tp e1"
      using sendPacket_goes[OF assms(1,2), of 4 ?c2] assms(11) by auto
    have "cycle_publish nw tm e c = Some (e1, ?c2\<lparr>c_ping_timer := tp\<rparr>, SUCCESS, True)"
      using False assms(4) pay msg sel s(1) ack_written[OF assms(9,10)]
      by (auto simp: cycle_publish_def des deliverMessage_of Let_def)
    then show ?thesis using s(2,3) False assms(4) by (auto simp: publish_reply_def)
  qed
qed

end

lemma packet_type_word:
  assumes "0 \<le> n" "n < (16 :: int)"
  shows "uint (word_of_int n :: u16) = n"
    "(word_of_int n :: u16) = 3 \<longleftrightarrow> n = 3" "(word_of_int n :: u16) = 5 \<longleftrightarrow> n = 5"
    "(word_of_int n :: u16) = 6 \<longleftrightarrow> n = 6" "(word_of_int n :: u16) = 13 \<longleftrightarrow> n = 13"
  using assms by (auto simp: word_uint_eq_iff uint_word_of_int)

lemma with_packet_select [simp]:
  "c_readbuf (with_packet c pk) = pk @ drop (length pk) (c_readbuf c)"
  "c_buf (with_packet c pk) = c_buf c" "c_buf_size (with_packet c pk) = c_buf_size c"
  "c_keepAliveInterval (with_packet c pk) = c_keepAliveInterval c"
  "c_ping_timer (with_packet c pk) = c_ping_timer c" "c_delivered (with_packet c pk) = c_delivered c"
  "c_messageHandlers (with_packet c pk) = c_messageHandlers c"
  "c_isconnected (with_packet c pk) = c_isconnected c"
  "recipients (with_packet c pk) t = recipients c t"
  by (simp_all add: with_packet_def recipients_def)

lemma header_type_publish: "header_type (MQTTHeader_byte PUBLISH d q r) = PUBLISH"
  by (simp add: header_fields)

context stream_network
begin

lemma cycle_plain_goes:
  assumes "ready e" "before tm e" "pending e = mqtt_packet h body @ r" "remlen_ok (length body)"
    and "length (mqtt_packet h body) \<le> length (c_readbuf c)" "c_remain_pktfrag_len c = 0"
    and "uint (header_type h) = n" "n \<in> {2, 4, 7, 9, 11}"
    and "c_keepAliveInterval c \<noteq> 0 \<longrightarrow> before (c_ping_timer c) e"
  shows "\<exists>e1. cycle nw tm e c = Some (e1, with_packet c (mqtt_packet h body), n) \<and> goes e e1 r (sent e)"
proof -
  let ?c = "with_packet c (mqtt_packet h body)"
  obtain e1 where rp: "readPacket nw tm e c = Some (e1, ?c, n)" "goes e e1 r (sent e)"
    using readPacket_goes[OF assms(1-6)] assms(7) by (auto simp: with_packet_def)
  have n: "0 \<le> n" "n < 16" using assms(8) by auto
  have "c_keepAliveInterval ?c \<noteq> 0 \<longrightarrow> before (c_ping_timer ?c) e1"
    using assms(9) goesD(4)[OF rp(2)] by simp
  from keepalive_quiet[OF goesD(1)[OF rp(2)] this]
  obtain e2 k where ka: "keepalive nw e1 ?c = Some (e2, ?c, k)" "goes e1 e2 r (sent e)"
    using goesD(2,3)[OF rp(2)] by auto
  have "cycle_dispatch nw tm (word_of_int n) e1 ?c = Some (e1, ?c, SUCCESS, True)"
    using assms(8) by (auto simp: cycle_dispatch_def packet_type_word[OF n])
  then have "cycle nw tm e c = Some (e2, ?c, n)"
    using rp(1) ka(1) by (simp add: cycle_def Let_def packet_type_word(1)[OF n])
  then show ?thesis using goes_trans[OF rp(2) ka(2)] by blast
qed

lemma cycle_publish_packet_goes:
  assumes "ready e" "before tm e" "length t < 65536" "qos \<in> {0, 1, 2}" "dup \<in> {0, 1}" "retained \<in> {0, 1}"
    and "remlen_ok (length (publish_body qos pid t payload))"
    and "pending e = publish_packet dup qos retained pid t payload @ r"
    and "length (publish_packet dup qos retained pid t payload) \<le> length (c_readbuf c)"
    and "c_remain_pktfrag_len c = 0" "4 \<le> c_buf_size c" "c_buf_size c \<le> int (length (c_buf c))"
    and "0 < sint (c_keepAliveInterval c * 1000)" "before (c_ping_timer c) e"
  shows "\<exists>e1 c1. cycle nw tm e c = Some (e1, c1, 3) \<and>
      goes e e1 r (sent e @ publish_reply qos pid) \<and>
      c_delivered c1 = c_delivered c @
        map (\<lambda>fp. (fp, message_data (received qos retained dup pid payload) t)) (recipients c t)"
proof -
  let ?pk = "publish_packet dup qos retained pid t payload"
  let ?c = "with_packet c ?pk"
  have type: "uint (header_type (MQTTHeader_byte PUBLISH dup (word_of_int qos) retained)) = 3"
    by (simp add: header_type_publish)
  obtain e1 where rp: "readPacket nw tm e c = Some (e1, ?c, 3)" "goes e e1 r (sent e)"
    using readPacket_goes[OF assms(1,2) assms(8)[unfolded publish_packet_def] assms(7)
        assms(9)[unfolded publish_packet_def] assms(10)] type
    by (auto simp: with_packet_def publish_packet_def)
  have b: "before tm e1" "before (c_ping_timer ?c) e1" "ready e1" "pending e1 = r" "sent e1 = sent e"
    using goesD[OF rp(2)] assms(2,14) by auto
  have "c_readbuf ?c = ?pk @ drop (length ?pk) (c_readbuf c)" by simp
  from cycle_publish_goes[OF b(3,1) assms(3-7) this _ _ _ b(2)] assms(11-13)
  obtain e2 c2 where cp: "cycle_publish nw tm e1 ?c = Some (e2, c2, SUCCESS, True)"
    "goes e1 e2 r (sent e @ publish_reply qos pid)" "before (c_ping_timer c2) e2"
    "c_delivered c2 = c_delivered c @
        map (\<lambda>fp. (fp, message_data (received qos retained dup pid payload) t)) (recipients c t)"
    using b(4,5) by auto
  obtain e3 k where ka: "keepalive nw e2 c2 = Some (e3, c2, k)" "goes e2 e3 r (sent e @ publish_reply qos pid)"
    using keepalive_quiet[OF goesD(1)[OF cp(2)], of c2] cp(3) goesD(2,3)[OF cp(2)] by auto
  have "cycle nw tm e c = Some (e3, c2, 3)"
    using rp(1) cp(1) ka(1) by (simp add: cycle_def cycle_dispatch_def Let_def)
  then show ?thesis
    using goes_trans[OF rp(2) goes_trans[OF cp(2) ka(2)]] cp(4) by blast
qed

lemma waitfor_goes:
  assumes "ready e" "before tm e" "pending e = mqtt_packet h body @ r" "remlen_ok (length body)"
    and "length (mqtt_packet h body) \<le> length (c_readbuf c)" "c_remain_pktfrag_len c = 0"
    and "uint (header_type h) = n" "n \<in> {2, 4, 7, 9, 11}"
    and "c_keepAliveInterval c \<noteq> 0 \<longrightarrow> before (c_ping_timer c) e"
  shows "\<exists>e1. waitfor nw n tm e c = Some (e1, with_packet c (mqtt_packet h body), n) \<and> goes e e1 r (sent e)"
proof -
  obtain e1 where e1: "expired (nw_ticks nw) e tm = (e1, False)" "goes e e1 (pending e) (sent e)"
    using timers_ahead(1)[OF assms(1,2)] by blast
  have "ready e1" "before tm e1" "pending e1 = mqtt_packet h body @ r"
    "c_keepAliveInterval c \<noteq> 0 \<longrightarrow> before (c_ping_timer c) e1"
    using goesD[OF e1(2)] assms(2,3,9) by auto
  from cycle_plain_goes[OF this(1-3) assms(4-8) this(4)]
  obtain e2 where e2: "cycle nw tm e1 c = Some (e2, with_packet c (mqtt_packet h body), n)" "goes e1 e2 r (sent e)"
    using goesD(3)[OF e1(2)] by auto
  have "waitfor nw n tm e c = Some (e2, with_packet c (mqtt_packet h body), n)"
    using e1(1) e2(1) by (simp add: waitfor_def) (subst waitfor_loop.simps, simp)
  then show ?thesis using goes_trans[OF e1(2) e2(2)] by blast
qed

end

section \<open>Properties\<close>

text \<open>C22. Receiving a publish: when a well-formed publish packet is next on the network, one turn
  of the client hands the message, with its topic and payload, to exactly the handlers whose
  filter accepts the topic (or to the default handler), answers with the acknowledgement its
  quality of service requires and the same packet identifier, and returns \<open>PUBLISH\<close>.\<close>

theorem cycle_delivers_publish:
  assumes "0 < bs_chunk e" "0 < sint (tm - bs_now e)"
    and "length t < 65536" "qos \<in> {0, 1, 2}" "dup \<in> {0, 1}" "retained \<in> {0, 1}"
    and "remlen_ok (length (publish_body qos pid t payload))"
    and "bs_pending e = publish_packet dup qos retained pid t payload @ r"
    and "length (publish_packet dup qos retained pid t payload) \<le> length (c_readbuf c)"
    and "c_remain_pktfrag_len c = 0" "4 \<le> c_buf_size c" "c_buf_size c \<le> int (length (c_buf c))"
    and "0 < sint (c_keepAliveInterval c * 1000)" "0 < sint (c_ping_timer c - bs_now e)"
  shows "\<exists>e1 c1. cycle (NewNetwork byte_sockets) tm e c = Some (e1, c1, 3) \<and> bs_pending e1 = r \<and>
      bs_sent e1 = bs_sent e @ publish_reply qos pid \<and>
      c_delivered c1 = c_delivered c @
        map (\<lambda>fp. (fp, message_data (received qos retained dup pid payload) t)) (recipients c t)"
  using byte_net.cycle_publish_packet_goes[OF assms] byte_net.goesD by blast

theorem cycle_delivers_publish_witness:
  "\<exists>e1 c1. cycle (NewNetwork byte_sockets) 1000
      \<lparr>bs_pending = publish_packet 0 1 0 7 (cstr ''a/b'') [1, 2] @ [9], bs_sent = [], bs_now = 0, bs_chunk = 3\<rparr>
      \<lparr>c_next_packetid = 0, c_command_timeout_ms = 1000, c_buf_size = 8, c_readbuf_size = 20,
       c_buf = replicate 8 0, c_readbuf = replicate 20 0, c_keepAliveInterval = 30,
       c_ping_outstanding = False, c_isconnected = True,
       c_messageHandlers = [\<lparr>mh_topicFilter = Some (cstr ''a/+''), mh_fp = Some 5\<rparr>],
       c_defaultMessageHandler = None, c_ping_timer = 1000, c_remain_pktfrag_len = 0, c_delivered = []\<rparr>
      = Some (e1, c1, 3) \<and> bs_pending e1 = [9] \<and> bs_sent e1 = ack_packet PUBACK 7 \<and>
      c_delivered c1 = [(5, message_data (received 1 0 0 7 [1, 2]) (cstr ''a/b''))]"
proof -
  let ?e = "\<lparr>bs_pending = publish_packet 0 1 0 7 (cstr ''a/b'') [1, 2] @ [9], bs_sent = [], bs_now = 0, bs_chunk = 3\<rparr>"
  let ?c = "\<lparr>c_next_packetid = 0, c_command_timeout_ms = 1000, c_buf_size = 8, c_readbuf_size = 20,
       c_buf = replicate 8 0, c_readbuf = replicate 20 0, c_keepAliveInterval = 30,
       c_ping_outstanding = False, c_isconnected = True,
       c_messageHandlers = [\<lparr>mh_topicFilter = Some (cstr ''a/+''), mh_fp = Some 5\<rparr>],
       c_defaultMessageHandler = None, c_ping_timer = 1000, c_remain_pktfrag_len = 0, c_delivered = []\<rparr>"
  have body: "length (publish_body 1 7 (cstr ''a/b'') [1, 2]) = 9" by (simp add: publish_body_def)
  have pk: "length (publish_packet 0 1 0 7 (cstr ''a/b'') [1, 2]) = 11"
    by (simp add: publish_packet_def length_packet body encode_small)
  have rec: "recipients ?c (cstr ''a/b'') = [5]"
    by (simp add: recipients_def slot_receivers_def filter_accepts_def cstr_def)
  from cycle_delivers_publish[of ?e 1000 "cstr ''a/b''" 1 0 0 7 "[1, 2]" "[9]" ?c]
  show ?thesis by (simp add: body pk rec publish_reply_def)
qed

section \<open>The operations on a byte stream\<close>

text \<open>The string an operation builds from a C string.\<close>

lemma ms_ok_cstring:
  "length s < 65536 \<Longrightarrow> ms_ok (MQTTString_initializer\<lparr>ms_cstring := Some s\<rparr>)"
  "ms_content (MQTTString_initializer\<lparr>ms_cstring := Some s\<rparr>) = s"
  by (simp_all add: ms_ok_def ms_content_def MQTTString_initializer_def)

definition connack_packet :: "u8 \<Rightarrow> u8 \<Rightarrow> u8 list" where
  "connack_packet flags code = mqtt_packet (MQTTHeader_byte CONNACK 0 0 0) [flags, code]"

definition connect_packet :: "MQTTPacket_connectData \<Rightarrow> u8 list" where
  "connect_packet d = mqtt_packet (MQTTHeader_byte CONNECT 0 0 0) (connect_body d)"

lemma connack_read:
  "MQTTDeserialize_connack o0 (connack_packet flags code @ r) n
   = Some (1, connack_sessionpresent flags, code)"
proof -
  have m: "connack_packet flags code @ r = MQTTHeader_byte CONNACK 0 0 0 # 2 # flags # code # r"
    by (simp add: connack_packet_def mqtt_packet_def encode_small)
  have "MQTTPacket_decodeBuf (connack_packet flags code @ r) 1 = Some (1, 2)"
    using packet_remlen[of "[flags, code]"] by (simp add: connack_packet_def encode_small)
  then show ?thesis
    by (simp add: MQTTDeserialize_connack_def m readChar_def header_fields nth_Cons' Let_def)
qed

lemma ack_read:
  "MQTTDeserialize_ack o0 (ack_packet t pid @ r) n
   = Some (1, \<lparr>ao_packettype = t AND 15, ao_dup = 0, ao_packetid = pid\<rparr>)"
proof -
  let ?h = "MQTTHeader_byte t 0 (if t = PUBREL then 1 else 0) 0"
  define m where "m = ack_packet t pid @ r"
  have m: "m = mqtt_packet ?h (int_bytes (uint pid) @ []) @ r" by (simp add: m_def ack_packet_def)
  obtain k where "readChar m 0 = Some (?h, 1)"
    "MQTTPacket_decodeBuf m 1 = Some (k, 2 + int (length ([] :: u8 list)))"
    "readInt m (1 + k) = Some (uint pid, 1 + k + 2)"
    by (rule packet_pid[OF m]) simp_all
  then show ?thesis
    by (simp add: MQTTDeserialize_ack_def header_fields m_def[symmetric])
qed

context stream_network
begin

lemma MQTTPublish_goes:
  assumes "ready e" "c_isconnected c" "0 < sint (c_command_timeout_ms c)"
    and "length topic < 65536" "msg_payloadlen msg = int (length (msg_payload msg))" "msg_qos msg = 0"
    and "MQTTPacket_len (2 + int (length topic) + msg_payloadlen msg) \<le> c_buf_size c"
    and "c_buf_size c \<le> int (length (c_buf c))" "length topic + length (msg_payload msg) < 100000000"
  shows "\<exists>e1 c1. MQTTPublish nw topic msg e c = Some (e1, c1, msg, SUCCESS) \<and>
    goes e e1 (pending e) (sent e @ publish_packet 0 0 (msg_retained msg) 0 topic (msg_payload msg)) \<and>
    c_isconnected c1 \<and> c_buf_size c1 = c_buf_size c \<and> length (c_buf c1) = length (c_buf c) \<and>
    c_command_timeout_ms c1 = c_command_timeout_ms c"
proof -
  let ?t = "MQTTString_initializer\<lparr>ms_cstring := Some topic\<rparr>"
  let ?pk = "publish_packet 0 0 (msg_retained msg) 0 topic (msg_payload msg)"
  have t: "ms_ok ?t" "ms_content ?t = topic" using ms_ok_cstring assms(4) by auto
  have b: "publish_body 0 (msg_id msg) topic (msg_payload msg) = publish_body 0 0 topic (msg_payload msg)"
    by (simp add: publish_body_def)
  have len: "MQTTSerialize_publishLength 0 ?t (msg_payloadlen msg) = 2 + int (length topic) + msg_payloadlen msg"
    by (simp add: MQTTSerialize_publishLength_def MQTTstrlen_ok t)
  have bl: "int (length (publish_body 0 0 topic (msg_payload msg))) = 2 + int (length topic) + msg_payloadlen msg"
    using assms(5) by (simp add: publish_body_def)
  have ok: "remlen_ok (length (publish_body 0 0 topic (msg_payload msg)))"
    using bl assms(5,9) by linarith
  have "MQTTPacket_len (int (length (publish_body 0 0 topic (msg_payload msg)))) \<le> c_buf_size c"
    unfolding bl by (rule assms(7))
  from packet_fits[OF ok this] have fits: "int (length ?pk) \<le> c_buf_size c" "0 < length ?pk"
    unfolding publish_packet_def by (simp_all add: mqtt_packet_def)
  have ser: "MQTTSerialize_publish (c_buf c) (c_buf_size c) 0 0 (msg_retained msg) (msg_id msg) ?t
      (msg_payload msg) (msg_payloadlen msg) = Some (?pk @ drop (length ?pk) (c_buf c), int (length ?pk))"
    using publish_emit[OF t(1) assms(5), of 0 "c_buf_size c"] len assms(7,8) t(2)
      emit_fits[of ?pk "c_buf c"] fits
    by (simp add: publish_packet_def b)
  let ?c = "c\<lparr>c_buf := ?pk @ drop (length ?pk) (c_buf c)\<rparr>"
  obtain e1 tm where cd: "countdown_ms (nw_ticks nw) e (c_command_timeout_ms c) = (e1, tm)"
    "goes e e1 (pending e) (sent e)" "before tm e1"
    using countdown_ahead[OF assms(1)] assms(3) by blast
  have "nat (int (length ?pk)) \<le> length (c_buf ?c)" "0 < int (length ?pk)" using fits by simp_all
  from sendPacket_goes[OF goesD(1)[OF cd(2)] cd(3) this(2,1)]
  obtain e2 tp where sp: "sendPacket nw (int (length ?pk)) tm e1 ?c = Some (e2, ?c\<lparr>c_ping_timer := tp\<rparr>, SUCCESS)"
    "goes e1 e2 (pending e) (sent e @ ?pk)"
    using goesD(2,3)[OF cd(2)] by auto
  have "MQTTPublish nw topic msg e c = Some (e2, ?c\<lparr>c_ping_timer := tp\<rparr>, msg, SUCCESS)"
    using assms(2,6) cd(1) ser sp(1) fits(2) by (simp add: MQTTPublish_def Let_def)
  then show ?thesis
    using goes_trans[OF cd(2) sp(2)] fits assms(2,8) by auto
qed

lemma MQTTConnect_goes:
  assumes "ready e" "\<not> c_isconnected c" "0 < sint (c_command_timeout_ms c)" "connect_ok d"
    and "MQTTSerialize_connectLength d < 100000000"
    and "MQTTPacket_len (MQTTSerialize_connectLength d) \<le> c_buf_size c" "c_buf_size c \<le> int (length (c_buf c))"
    and "pending e = connack_packet flags code @ r" "4 \<le> length (c_readbuf c)" "c_remain_pktfrag_len c = 0"
    and "0 < uint (cd_keepAliveInterval d)"
  shows "\<exists>e1 c1. MQTTConnect nw (Some d) e c = Some (e1, c1, uint code) \<and>
    goes e e1 r (sent e @ connect_packet d) \<and> c_isconnected c1 = (code = 0) \<and>
    c_keepAliveInterval c1 = ucast (cd_keepAliveInterval d)"
proof -
  let ?pk = "connect_packet d"
  let ?ck = "connack_packet flags code"
  have len: "MQTTSerialize_connectLength d = int (length (connect_body d))"
    by (rule connectLength_body[OF assms(4)])
  have ok: "remlen_ok (length (connect_body d))" using len assms(5) by simp
  have fits: "int (length ?pk) \<le> c_buf_size c" "0 < length ?pk"
    using packet_fits[OF ok] assms(6) len by (auto simp: connect_packet_def length_packet)
  have ser: "MQTTSerialize_connect (c_buf c) (c_buf_size c) d
      = Some (?pk @ drop (length ?pk) (c_buf c), int (length ?pk))"
    using connect_emit[OF assms(4,6)] emit_fits[of ?pk "c_buf c"] fits assms(7)
    by (simp add: connect_packet_def)
  obtain e1 tm where cd: "countdown_ms (nw_ticks nw) e (c_command_timeout_ms c) = (e1, tm)"
    "goes e e1 (pending e) (sent e)" "before tm e1"
    using countdown_ahead[OF assms(1)] assms(3) by blast
  let ?ka = "ucast (cd_keepAliveInterval d) :: u32"
  have ka: "0 < sint (?ka * 1000)"
  proof -
    have "uint (cd_keepAliveInterval d) < 65536" using uint_lt2p[of "cd_keepAliveInterval d"] by simp
    then have "sint (word_of_int (uint (cd_keepAliveInterval d) * 1000) :: u32) = uint (cd_keepAliveInterval d) * 1000"
      by (intro sint_of_int_small) (use assms(11) in simp_all)
    moreover have "(word_of_int (uint (cd_keepAliveInterval d) * 1000) :: u32) = ?ka * 1000"
      by (simp only: of_int_mult ucast_eq of_int_numeral)
    ultimately show ?thesis using assms(11) by simp
  qed
  obtain e2 tp where cp: "countdown (nw_ticks nw) e1 ?ka = (e2, tp)" "goes e1 e2 (pending e) (sent e)" "before tp e2"
    using countdown_ahead[OF goesD(1)[OF cd(2)], of "?ka * 1000"] ka goesD(2,3)[OF cd(2)]
    by (auto simp: countdown_def)
  let ?c = "c\<lparr>c_keepAliveInterval := ?ka, c_ping_timer := tp, c_buf := ?pk @ drop (length ?pk) (c_buf c)\<rparr>"
  have b2: "before tm e2" using goesD(4)[OF cp(2) cd(3)] .
  have "nat (int (length ?pk)) \<le> length (c_buf ?c)" "0 < int (length ?pk)" using fits by simp_all
  from sendPacket_goes[OF goesD(1)[OF cp(2)] b2 this(2,1)]
  obtain e3 tq where sp: "sendPacket nw (int (length ?pk)) tm e2 ?c = Some (e3, ?c\<lparr>c_ping_timer := tq\<rparr>, SUCCESS)"
    "goes e2 e3 (pending e) (sent e @ ?pk)" "before tq e3"
    using goesD(2,3)[OF cp(2)] ka by auto
  let ?c3 = "?c\<lparr>c_ping_timer := tq\<rparr>"
  have l4: "length ?ck = 4" by (simp add: connack_packet_def length_packet encode_small)
  have p3: "pending e3 = mqtt_packet (MQTTHeader_byte CONNACK 0 0 0) [flags, code] @ r"
    using goesD(2)[OF sp(2)] assms(8) by (simp add: connack_packet_def)
  have "\<exists>e4. waitfor nw 2 tm e3 ?c3 = Some (e4, with_packet ?c3 ?ck, 2) \<and> goes e3 e4 r (sent e3)"
    unfolding connack_packet_def
    by (rule waitfor_goes[OF goesD(1)[OF sp(2)] goesD(4)[OF sp(2) b2] p3])
      (use l4 assms(9,10) sp(3) in \<open>simp_all add: header_fields connack_packet_def\<close>)
  then obtain e4 where wf: "waitfor nw 2 tm e3 ?c3 = Some (e4, with_packet ?c3 ?ck, 2)"
    "goes e3 e4 r (sent e @ ?pk)"
    using goesD(3)[OF sp(2)] by auto
  let ?c4 = "with_packet ?c3 ?ck"
  have "MQTTConnect nw (Some d) e c
      = Some (e4, if code = 0 then ?c4\<lparr>c_isconnected := True\<rparr> else ?c4, uint code)"
    using assms(2) cd(1) cp(1) ser sp(1) wf(1) fits(2)
    by (simp add: MQTTConnect_def Let_def connack_read uint_0_iff)
  then show ?thesis
    using goes_trans[OF cd(2) goes_trans[OF cp(2) goes_trans[OF sp(2) wf(2)]]] assms(2) by auto
qed

end

context stream_network
begin

lemma readPacket_overflows:
  assumes "ready e" "before tm e" "pending e = mqtt_packet h body @ r" "remlen_ok (length body)"
    and "5 \<le> length (c_readbuf c)" "length (c_readbuf c) < length (mqtt_packet h body)"
    and "c_remain_pktfrag_len c = 0"
  shows "readPacket nw tm e c = None"
proof -
  let ?n = "int (length body)"
  let ?enc = "MQTTPacket_encode ?n"
  have pk: "mqtt_packet h body = h # ?enc @ body" by (simp add: mqtt_packet_def)
  have le: "length ?enc \<le> 4" using assms(4) by (simp add: encode_length)
  have frag: "discard_fragment nw tm e c = Some (e, c, True)"
    using assms(7) by (subst discard_fragment.simps) simp
  obtain e1 e2 l1 where r1: "left_ms (nw_ticks nw) e tm = (e1, l1)" "nw_read nw e1 1 l1 = (e2, 1, [h])"
    "goes e e2 (?enc @ body @ r) (sent e)"
    using read_goes[OF assms(1,2), of 1 "[h]" "?enc @ body @ r"] assms(3) by (auto simp: pk)
  obtain rb0 rbs where rb: "c_readbuf c = rb0 # rbs" using assms(5) by (cases "c_readbuf c") auto
  have hd: "read_header nw tm e c = Some (e2, c\<lparr>c_readbuf := h # rbs\<rparr>, 1)"
    using r1 by (simp add: read_header_def rb wr_block_def)
  have b2: "before tm e2" using goesD(4)[OF r1(3) assms(2)] .
  obtain e3 l3 where l3: "left_ms (nw_ticks nw) e2 tm = (e3, l3)" "0 < l3" "l3 < 2147483648"
    "goes e2 e3 (?enc @ body @ r) (sent e)"
    using timers_ahead(2)[OF goesD(1)[OF r1(3)] b2] goesD(2,3)[OF r1(3)] by auto
  obtain e4 where dec: "decodePacket nw l3 e3 = (e4, length ?enc, ?n)" "goes e3 e4 (body @ r) (sent e)"
    using decodePacket_loop_goes[OF goesD(1)[OF l3(4)] l3(2,3), of ?n 0 "body @ r" 0 1] le
      goesD(2,3)[OF l3(4)] by (auto simp: decodePacket_def)
  let ?m1 = "h # ?enc @ drop (length ?enc) rbs"
  have wr1: "wr_block (h # rbs) 1 ?enc = Some ?m1"
    using assms(5) le by (simp add: wr_block_def rb)
  have go4: "goes e e4 (body @ r) (sent e)"
    using goes_trans[OF r1(3) goes_trans[OF l3(4) dec(2)]] .
  have ne: "body \<noteq> []" using assms(5,6) le by (auto simp: pk)
  have p4: "pending e4 = body @ r" "before tm e4" "ready e4" using goesD[OF go4] assms(2) by auto
  obtain e5 e6 l5 where r5: "left_ms (nw_ticks nw) e4 tm = (e5, l5)" "nw_read nw e5 ?n l5 = (e6, ?n, body)"
    using read_goes[OF p4(3,2), of ?n body r] ne p4(1) by auto
  have "wr_block ?m1 (1 + length ?enc) body = None"
    using assms(6) le assms(5) by (simp add: wr_block_def pk rb)
  then have "read_body nw tm (1 + length ?enc) ?n e4 (c\<lparr>c_readbuf := ?m1\<rparr>) = None"
    using r5 ne by (simp add: read_body_def)
  then show ?thesis
    using frag hd l3(1) dec(1) wr1 by (simp add: readPacket_def Let_def)
qed

end

section \<open>Topic filters against their definition\<close>

text \<open>
  The matching of the standard over the levels between separators: \<open>+\<close> stands for one level, a
  final \<open>#\<close> for at least one level.  (In the standard a final \<open>#\<close> also matches no level.)
\<close>

abbreviation slash :: u8 where "slash \<equiv> 47"
abbreviation plus_sign :: u8 where "plus_sign \<equiv> 43"
abbreviation hash_sign :: u8 where "hash_sign \<equiv> 35"

fun levels_match :: "u8 list list \<Rightarrow> u8 list list \<Rightarrow> bool" where
  "levels_match [] ts = (ts = [])"
| "levels_match (f # fs) [] = False"
| "levels_match (f # fs) (t # ts) =
     (if f = [hash_sign] then fs = []
      else (f = [plus_sign] \<or> f = t) \<and> levels_match fs ts)"

fun join_levels :: "u8 list list \<Rightarrow> u8 list" where
  "join_levels [] = []"
| "join_levels [x] = x"
| "join_levels (x # y # ys) = x @ slash # join_levels (y # ys)"

definition topic_levels_ok :: "u8 list list \<Rightarrow> bool" where
  "topic_levels_ok ts \<longleftrightarrow> (\<forall>t\<in>set ts. t \<noteq> [] \<and> slash \<notin> set t)"

text \<open>Wildcards stand alone in their level, \<open>#\<close> only in the last one.\<close>

fun filter_levels_ok :: "u8 list list \<Rightarrow> bool" where
  "filter_levels_ok [] = True"
| "filter_levels_ok (f # fs) =
     ((f = [hash_sign] \<and> fs = [] \<or> f = [plus_sign] \<or>
       f \<noteq> [] \<and> slash \<notin> set f \<and> plus_sign \<notin> set f \<and> hash_sign \<notin> set f)
      \<and> filter_levels_ok fs)"

lemma char_bytes [simp]:
  "of_char (CHR ''/'') = slash" "of_char (CHR ''+'') = plus_sign" "of_char (CHR ''#'') = hash_sign"
  by simp_all

declare isTopicMatched_loop.simps(3) [simp del]

lemma match_step:
  "isTopicMatched_loop (f # curf) (n # curn) =
     (if n = slash \<and> f \<noteq> slash then False
      else if f \<noteq> plus_sign \<and> f \<noteq> hash_sign \<and> f \<noteq> n then False
      else if f = plus_sign then isTopicMatched_loop curf (dropWhile (\<lambda>x. x \<noteq> slash) curn)
      else if f = hash_sign then isTopicMatched_loop curf []
      else isTopicMatched_loop curf curn)"
  by (simp add: isTopicMatched_loop.simps(3))

text \<open>A literal level either is the level of the name or makes the match fail.\<close>

lemma match_literal_rest:
  assumes "slash \<notin> set f" "plus_sign \<notin> set f" "hash_sign \<notin> set f" "slash \<notin> set t"
  shows "isTopicMatched_loop (f @ slash # F) (t @ slash # N) \<longleftrightarrow> f = t \<and> isTopicMatched_loop F N"
  using assms
proof (induction f arbitrary: t)
  case Nil
  then show ?case by (cases t) (auto simp: match_step)
next
  case (Cons a f)
  then show ?case by (cases t) (auto simp: match_step)
qed

lemma match_literal_last:
  assumes "slash \<notin> set f" "plus_sign \<notin> set f" "hash_sign \<notin> set f" "slash \<notin> set t"
  shows "isTopicMatched_loop f t \<longleftrightarrow> f = t"
    "\<not> isTopicMatched_loop f (t @ slash # N)" "\<not> isTopicMatched_loop (f @ slash # F) t"
  using assms
proof (induction f arbitrary: t)
  case Nil
  { case 1 then show ?case by auto next case 2 then show ?case by auto
    next case 3 then show ?case by (cases t) (auto simp: match_step) }
next
  case (Cons a f)
  { case 1 then show ?case using Cons.IH(1) by (cases t) (auto simp: match_step)
    next case 2 then show ?case using Cons.IH(2) by (cases t) (auto simp: match_step)
    next case 3 then show ?case using Cons.IH(3) by (cases t) (auto simp: match_step) }
qed

lemma dropWhile_level: "slash \<notin> set t \<Longrightarrow> dropWhile (\<lambda>x. x \<noteq> slash) (t @ slash # N) = slash # N"
  "slash \<notin> set t \<Longrightarrow> dropWhile (\<lambda>x. x \<noteq> slash) t = []"
  by (induction t) auto

lemma isTopicMatched_levels:
  assumes "filter_levels_ok fs" "topic_levels_ok ts" "fs \<noteq> []" "ts \<noteq> []"
  shows "isTopicMatched_loop (join_levels fs) (join_levels ts) = levels_match fs ts"
  using assms
proof (induction fs ts rule: levels_match.induct)
  case (3 f fs t ts)
  have t: "t \<noteq> []" "slash \<notin> set t" and ts: "topic_levels_ok ts"
    using 3(3) by (auto simp: topic_levels_ok_def)
  obtain n tn where tn: "t = n # tn" "n \<noteq> slash" "slash \<notin> set tn" using t by (cases t) auto
  have jt: "join_levels (t # ts) = t @ (if ts = [] then [] else slash # join_levels ts)"
    by (cases ts) auto
  have jf: "join_levels (f # fs) = f @ (if fs = [] then [] else slash # join_levels fs)"
    by (cases fs) auto
  consider (hash) "f = [hash_sign]" "fs = []" | (plus) "f = [plus_sign]"
    | (lit) "slash \<notin> set f" "plus_sign \<notin> set f" "hash_sign \<notin> set f"
    using 3(2) by auto
  then show ?case
  proof cases
    case hash
    then show ?thesis using tn by (cases ts) (simp_all add: match_step)
  next
    case plus
    then have IH: "fs \<noteq> [] \<Longrightarrow> ts \<noteq> [] \<Longrightarrow>
        isTopicMatched_loop (join_levels fs) (join_levels ts) = levels_match fs ts"
      using 3(1,2) ts by simp
    show ?thesis
      using plus IH tn by (cases "fs = []"; cases "ts = []")
        (auto simp: jt jf match_step dropWhile_level neq_Nil_conv)
  next
    case lit
    then have ne: "f \<noteq> [hash_sign]" "f \<noteq> [plus_sign]" by auto
    then have IH: "fs \<noteq> [] \<Longrightarrow> ts \<noteq> [] \<Longrightarrow>
        isTopicMatched_loop (join_levels fs) (join_levels ts) = levels_match fs ts"
      using 3(1,2) ts by simp
    show ?thesis
      using lit ne IH t match_literal_last[OF lit t(2)] match_literal_rest[OF lit t(2)]
      by (cases "fs = []"; cases "ts = []") (auto simp: jt jf neq_Nil_conv)
  qed
qed auto

section \<open>More properties\<close>

text \<open>C23. \<open>isTopicMatched\<close> is the matching of topic levels: for a filter whose wildcards stand
  alone in their level and a name without empty levels, it accepts exactly the names the
  level-wise definition accepts.\<close>

theorem isTopicMatched_correct:
  assumes "filter_levels_ok fs" "fs \<noteq> []" "topic_levels_ok ts" "ts \<noteq> []"
  shows "isTopicMatched (join_levels fs) (ms_of (join_levels ts)) = Some (levels_match fs ts)"
  using isTopicMatched_levels[OF assms(1,3,2,4)] by (simp add: isTopicMatched_def ms_of_def rd_block_def)

theorem isTopicMatched_correct_witness:
  "isTopicMatched (join_levels [[97], [plus_sign], [99]]) (ms_of (join_levels [[97], [98, 98], [99]]))
   = Some (levels_match [[97], [plus_sign], [99]] [[97], [98, 98], [99]])"
  by (rule isTopicMatched_correct) (simp_all add: topic_levels_ok_def)

text \<open>Publishing at quality of service 0: a connected client whose buffer has room sends
  exactly the publish packet of the topic and the payload, returns success and leaves the
  received data alone.\<close>

theorem MQTTPublish_sends:
  assumes "0 < bs_chunk e" "c_isconnected c" "0 < sint (c_command_timeout_ms c)"
    and "length topic < 65536" "msg_payloadlen msg = int (length (msg_payload msg))" "msg_qos msg = 0"
    and "MQTTPacket_len (2 + int (length topic) + msg_payloadlen msg) \<le> c_buf_size c"
    and "c_buf_size c \<le> int (length (c_buf c))" "length topic + length (msg_payload msg) < 100000000"
  shows "\<exists>e1 c1. MQTTPublish (NewNetwork byte_sockets) topic msg e c = Some (e1, c1, msg, SUCCESS) \<and>
    bs_pending e1 = bs_pending e \<and>
    bs_sent e1 = bs_sent e @ publish_packet 0 0 (msg_retained msg) 0 topic (msg_payload msg)"
  using byte_net.MQTTPublish_goes[OF assms] byte_net.goesD by blast

theorem MQTTPublish_sends_witness:
  "\<exists>e1 c1. MQTTPublish (NewNetwork byte_sockets) (cstr ''t'')
      \<lparr>msg_qos = 0, msg_retained = 1, msg_dup = 0, msg_id = 3, msg_payload = [7], msg_payloadlen = 1\<rparr>
      \<lparr>bs_pending = [], bs_sent = [], bs_now = 0, bs_chunk = 1\<rparr>
      \<lparr>c_next_packetid = 0, c_command_timeout_ms = 1000, c_buf_size = 8, c_readbuf_size = 0,
       c_buf = replicate 8 0, c_readbuf = [], c_keepAliveInterval = 30,
       c_ping_outstanding = False, c_isconnected = True, c_messageHandlers = [],
       c_defaultMessageHandler = None, c_ping_timer = 0, c_remain_pktfrag_len = 0, c_delivered = []\<rparr>
      = Some (e1, c1, \<lparr>msg_qos = 0, msg_retained = 1, msg_dup = 0, msg_id = 3, msg_payload = [7],
                      msg_payloadlen = 1\<rparr>, SUCCESS) \<and>
      bs_pending e1 = [] \<and> bs_sent e1 = publish_packet 0 0 1 0 (cstr ''t'') [7]"
  using MQTTPublish_sends[of "\<lparr>bs_pending = [], bs_sent = [], bs_now = 0, bs_chunk = 1\<rparr>"
      "\<lparr>c_next_packetid = 0, c_command_timeout_ms = 1000, c_buf_size = 8, c_readbuf_size = 0,
       c_buf = replicate 8 0, c_readbuf = [], c_keepAliveInterval = 30,
       c_ping_outstanding = False, c_isconnected = True, c_messageHandlers = [],
       c_defaultMessageHandler = None, c_ping_timer = 0, c_remain_pktfrag_len = 0, c_delivered = []\<rparr>"
      "cstr ''t''"
      "\<lparr>msg_qos = 0, msg_retained = 1, msg_dup = 0, msg_id = 3, msg_payload = [7], msg_payloadlen = 1\<rparr>"]
  by (simp add: MQTTPacket_len_def)

text \<open>C24. Connecting: the client sends exactly the connect packet of its options, consumes the
  broker's answer, returns the code in it and is connected afterwards exactly when that code
  is 0.\<close>

theorem MQTTConnect_handshake:
  assumes "0 < bs_chunk e" "\<not> c_isconnected c" "0 < sint (c_command_timeout_ms c)" "connect_ok d"
    and "MQTTSerialize_connectLength d < 100000000"
    and "MQTTPacket_len (MQTTSerialize_connectLength d) \<le> c_buf_size c" "c_buf_size c \<le> int (length (c_buf c))"
    and "bs_pending e = connack_packet flags code @ r" "4 \<le> length (c_readbuf c)" "c_remain_pktfrag_len c = 0"
    and "0 < uint (cd_keepAliveInterval d)"
  shows "\<exists>e1 c1. MQTTConnect (NewNetwork byte_sockets) (Some d) e c = Some (e1, c1, uint code) \<and>
    bs_pending e1 = r \<and> bs_sent e1 = bs_sent e @ connect_packet d \<and>
    c_isconnected c1 = (code = 0) \<and> c_keepAliveInterval c1 = ucast (cd_keepAliveInterval d)"
  using byte_net.MQTTConnect_goes[OF assms] byte_net.goesD by blast

theorem MQTTConnect_handshake_witness:
  "\<exists>e1 c1. MQTTConnect (NewNetwork byte_sockets)
      (Some (MQTTPacket_connectData_initializer\<lparr>cd_clientID := ms_of [65]\<rparr>))
      \<lparr>bs_pending = connack_packet 0 5 @ [], bs_sent = [], bs_now = 0, bs_chunk = 1\<rparr>
      \<lparr>c_next_packetid = 0, c_command_timeout_ms = 1000, c_buf_size = 20, c_readbuf_size = 4,
       c_buf = replicate 20 0, c_readbuf = [0, 0, 0, 0], c_keepAliveInterval = 0,
       c_ping_outstanding = False, c_isconnected = False, c_messageHandlers = [],
       c_defaultMessageHandler = None, c_ping_timer = 0, c_remain_pktfrag_len = 0, c_delivered = []\<rparr>
      = Some (e1, c1, 5) \<and> \<not> c_isconnected c1"
proof -
  let ?d = "MQTTPacket_connectData_initializer\<lparr>cd_clientID := ms_of [65]\<rparr>"
  have abs: "\<not> ms_present (cd_username ?d)" "\<not> ms_present (cd_password ?d)" "cd_willFlag ?d = 0"
    "cd_MQTTVersion ?d = 4" "cd_cleansession ?d = 1" "cd_keepAliveInterval ?d = 60"
    by (simp_all add: MQTTPacket_connectData_initializer_def ms_present_def MQTTString_initializer_def)
  have ok: "connect_ok ?d" using abs by (simp add: connect_ok_def)
  have len: "MQTTSerialize_connectLength ?d = 13"
    using abs by (simp add: MQTTSerialize_connectLength_def MQTTstrlen_ok)
  show ?thesis
    using MQTTConnect_handshake[of "\<lparr>bs_pending = connack_packet 0 5 @ [], bs_sent = [], bs_now = 0, bs_chunk = 1\<rparr>"
      "\<lparr>c_next_packetid = 0, c_command_timeout_ms = 1000, c_buf_size = 20, c_readbuf_size = 4,
       c_buf = replicate 20 0, c_readbuf = [0, 0, 0, 0], c_keepAliveInterval = 0,
       c_ping_outstanding = False, c_isconnected = False, c_messageHandlers = [],
       c_defaultMessageHandler = None, c_ping_timer = 0, c_remain_pktfrag_len = 0, c_delivered = []\<rparr>"
      ?d 0 5 "[]"] ok abs(6)
    unfolding len by (fastforce simp: MQTTPacket_len_def)
qed

text \<open>\<open>readPacket\<close> trusts the length a peer sends: a packet longer than the read buffer is
  written past its end (the model has no value for that), whatever \<open>readbuf_size\<close> says.\<close>

theorem readPacket_overrun:
  assumes "0 < bs_chunk e" "0 < sint (tm - bs_now e)" "bs_pending e = mqtt_packet h body @ r"
    and "remlen_ok (length body)" "5 \<le> length (c_readbuf c)"
    and "length (c_readbuf c) < length (mqtt_packet h body)" "c_remain_pktfrag_len c = 0"
  shows "readPacket (NewNetwork byte_sockets) tm e c = None"
  by (rule byte_net.readPacket_overflows[OF assms])

theorem readPacket_overrun_witness:
  "readPacket (NewNetwork byte_sockets) 1000
      \<lparr>bs_pending = mqtt_packet 48 (replicate 120 65) @ [], bs_sent = [], bs_now = 0, bs_chunk = 9\<rparr>
      \<lparr>c_next_packetid = 0, c_command_timeout_ms = 1000, c_buf_size = 350, c_readbuf_size = 100,
       c_buf = replicate 350 0, c_readbuf = replicate 100 0, c_keepAliveInterval = 30,
       c_ping_outstanding = False, c_isconnected = True, c_messageHandlers = [],
       c_defaultMessageHandler = None, c_ping_timer = 0, c_remain_pktfrag_len = 0, c_delivered = []\<rparr> = None"
  by (rule readPacket_overrun[where h="48" and body="replicate 120 65" and r="[]"])
    (simp_all add: length_packet)

text \<open>\<open>cycle\<close> hides a failure to read: the \<open>-1\<close> of \<open>readPacket\<close> goes through an
  \<open>unsigned short\<close> and comes back as 65535, so \<open>MQTTYield\<close>, which compares with
  \<open>FAILURE\<close>, goes on.\<close>

theorem cycle_hides_read_failure:
  assumes "readPacket nw tm e c = Some (e1, c1, FAILURE)" "keepalive nw e1 c1 = Some (e2, c2, k)"
  shows "cycle nw tm e c = Some (e2, c2, 65535)"
proof -
  have "uint (-1 :: u16) = 65535" by (simp add: unsigned_minus_1_eq_mask mask_eq_exp_minus_1)
  then show ?thesis using assms by (simp add: cycle_def cycle_dispatch_def Let_def)
qed

theorem cycle_hides_read_failure_witness:
  "cycle \<lparr>nw_read = (\<lambda>e n t. (e, -1, [])), nw_write = (\<lambda>e bs t. (e, 0)), nw_ticks = (\<lambda>e. (e, e))\<rparr> 5 (0 :: u32)
      \<lparr>c_next_packetid = 0, c_command_timeout_ms = 1000, c_buf_size = 0, c_readbuf_size = 0,
       c_buf = [], c_readbuf = [], c_keepAliveInterval = 0,
       c_ping_outstanding = False, c_isconnected = True, c_messageHandlers = [],
       c_defaultMessageHandler = None, c_ping_timer = 0, c_remain_pktfrag_len = 0, c_delivered = []\<rparr>
   = Some (0,
      \<lparr>c_next_packetid = 0, c_command_timeout_ms = 1000, c_buf_size = 0, c_readbuf_size = 0,
       c_buf = [], c_readbuf = [], c_keepAliveInterval = 0,
       c_ping_outstanding = False, c_isconnected = True, c_messageHandlers = [],
       c_defaultMessageHandler = None, c_ping_timer = 0, c_remain_pktfrag_len = 0, c_delivered = []\<rparr>, 65535)"
proof -
  let ?nw = "\<lparr>nw_read = (\<lambda>e n t. (e, -1, [])), nw_write = (\<lambda>e bs t. (e, 0)), nw_ticks = (\<lambda>e. (e, e))\<rparr>"
  let ?c = "\<lparr>c_next_packetid = 0, c_command_timeout_ms = 1000, c_buf_size = 0, c_readbuf_size = 0,
       c_buf = [], c_readbuf = [], c_keepAliveInterval = 0,
       c_ping_outstanding = False, c_isconnected = True, c_messageHandlers = [],
       c_defaultMessageHandler = None, c_ping_timer = 0, c_remain_pktfrag_len = 0, c_delivered = []\<rparr>"
  have "readPacket ?nw 5 (0 :: u32) ?c = Some (0, ?c, FAILURE)"
    by (simp add: readPacket_def discard_fragment.simps read_header_def left_ms_def wr_block_def Let_def)
  moreover have "keepalive ?nw (0 :: u32) ?c = Some (0, ?c, SUCCESS)" by (simp add: keepalive_def)
  ultimately show ?thesis by (rule cycle_hides_read_failure)
qed

text \<open>A partial write spoils the connection: when the network takes only \<open>k\<close> of the \<open>len\<close>
  bytes, \<open>sendPacket\<close> offers \<open>len\<close> bytes again, from \<open>buf[k]\<close> on, so that stale bytes
  behind the packet are sent after it; and when the network takes them all, \<open>sent\<close> overshoots
  \<open>len\<close> and the call reports a failure.\<close>

theorem sendPacket_partial_write:
  assumes "nw_ticks nw = (\<lambda>e. (e, 0))" "timer = 1000"
    and "0 < k" "k < len" "nat (k + len) \<le> length (c_buf c)"
    and "nw_write nw e (take (nat len) (c_buf c)) 1000 = (e1, k)"
    and "nw_write nw e1 (take (nat len) (drop (nat k) (c_buf c))) 1000 = (e2, len)"
  shows "sendPacket nw len timer e c = Some (e2, c, FAILURE)"
proof -
  have t: "expired (nw_ticks nw) x timer = (x, False)" "left_ms (nw_ticks nw) x timer = (x, 1000)" for x
    using assms(1,2) by (simp_all add: expired_def left_ms_def)
  have b: "rd_block (c_buf c) 0 (nat len) = Some (take (nat len) (c_buf c))"
    "rd_block (c_buf c) (nat k) (nat len) = Some (take (nat len) (drop (nat k) (c_buf c)))"
    using assms(3-5) by (auto simp: rd_block_def nat_add_distrib)
  have "sendPacket_loop nw (c_buf c) len timer 0 e = sendPacket_loop nw (c_buf c) len timer k e1"
    using assms(3,4,6) b(1) t by (subst sendPacket_loop.simps) simp
  also have "\<dots> = sendPacket_loop nw (c_buf c) len timer (k + len) e2"
    using assms(3,4,7) b(2) t by (subst sendPacket_loop.simps) simp
  also have "\<dots> = Some (e2, k + len)" using assms(3,4) by (subst sendPacket_loop.simps) simp
  finally show ?thesis using assms(3) by (simp add: sendPacket_def)
qed

theorem sendPacket_partial_write_witness:
  "sendPacket \<lparr>nw_read = (\<lambda>e n t. (e, -1, [])),
      nw_write = (\<lambda>e bs t. if e = [] then (bs, 1) else (e @ bs, int (length bs))), nw_ticks = (\<lambda>e. (e, 0))\<rparr>
      2 1000 []
      \<lparr>c_next_packetid = 0, c_command_timeout_ms = 1000, c_buf_size = 3, c_readbuf_size = 0,
       c_buf = [1, 2, 99], c_readbuf = [], c_keepAliveInterval = 0,
       c_ping_outstanding = False, c_isconnected = True, c_messageHandlers = [],
       c_defaultMessageHandler = None, c_ping_timer = 0, c_remain_pktfrag_len = 0, c_delivered = []\<rparr>
   = Some ([1, 2, 2, 99],
      \<lparr>c_next_packetid = 0, c_command_timeout_ms = 1000, c_buf_size = 3, c_readbuf_size = 0,
       c_buf = [1, 2, 99], c_readbuf = [], c_keepAliveInterval = 0,
       c_ping_outstanding = False, c_isconnected = True, c_messageHandlers = [],
       c_defaultMessageHandler = None, c_ping_timer = 0, c_remain_pktfrag_len = 0, c_delivered = []\<rparr>, FAILURE)"
  by (rule sendPacket_partial_write[where k=1 and ?e1.0="[1, 2]"]) simp_all

end
