(* ===== verification/DemoStartup.thy ===== *)
theory DemoStartup
  imports TuyaMcu MqttClient
begin

text \<open>
  The part of \<^verbatim>\<open>project/at_demo/main.c\<close> between the network and the serial loop: the client
  with its 350-byte send buffer and 100-byte read buffer, the connect options with the will, the
  "Online" message and the three Home Assistant discovery messages, and the sending of the
  messages that the serial loop produces.  The locals \<open>data\<close>, \<open>will\<close>, \<open>c\<close> and \<open>pubmsg\<close> are not
  initialised in the source: their old values are parameters.  \<open>my_mqtt_user\<close> and
  \<open>my_mqtt_pass\<close> come from a header outside the repository and are parameters too.
\<close>

section \<open>Set-up\<close>

definition main_client :: "Client \<Rightarrow> u8 list \<Rightarrow> u8 list \<Rightarrow> Client" where
  "main_client c buf readbuf = MQTTClient c 1000 buf 350 readbuf 100"

definition main_will :: "MQTTPacket_willOptions \<Rightarrow> MQTTPacket_willOptions" where
  "main_will w =
     w\<lparr>wo_struct_id := cstr ''MQTW'', wo_struct_version := 0,
       wo_topicName := (wo_topicName w)\<lparr>ms_cstring := Some (cstr ''tele/xr3_3D6C07/LWT'')\<rparr>,
       wo_message := (wo_message w)\<lparr>ms_cstring := Some (cstr ''Offline'')\<rparr>,
       wo_qos := 0, wo_retained := 0\<rparr>"

definition main_connect_data ::
  "MQTTPacket_connectData \<Rightarrow> MQTTPacket_willOptions \<Rightarrow> u8 list \<Rightarrow> u8 list \<Rightarrow> MQTTPacket_connectData" where
  "main_connect_data d w my_mqtt_user my_mqtt_pass =
     d\<lparr>cd_willFlag := 1, cd_will := main_will w, cd_MQTTVersion := 3,
       cd_clientID := (cd_clientID d)\<lparr>ms_cstring := Some (cstr ''xr3_3D6C07'')\<rparr>,
       cd_username := (cd_username d)\<lparr>ms_cstring := Some my_mqtt_user\<rparr>,
       cd_password := (cd_password d)\<lparr>ms_cstring := Some my_mqtt_pass\<rparr>,
       cd_keepAliveInterval := 30, cd_cleansession := 1\<rparr>"

section \<open>The messages\<close>

definition ha_status_payload :: string where
  "ha_status_payload =
    ''{\"name\":\"H2O Status\",\"stat_t\":\"tele/xr3_3D6C07/LWT\",\"pl_on\":\"Online\",\"pl_off\":\"Offline\",\"dev_cla\":\"connectivity\",\"uniq_id\":\"3D6C07_status\",\"dev\":{\"ids\":[\"3D6C07\"],\"name\":\"XR3 Feit H2O 3D6C07\",\"mdl\":\"Feit Electric H2O/WIFI\",\"sw\":\"Fav XR3\",\"mf\":\"Fav\"}}''"

definition ha_moisture_payload :: string where
  "ha_moisture_payload =
    ''{\"name\":\"H2O Moisture\",\"stat_t\":\"stat/xr3_3D6C07/MOISTURE\",\"dev_cla\":\"moisture\",\"frc_upd\":true,\"uniq_id\":\"3D6C07_moisture\",\"dev\":{\"ids\":[\"3D6C07\"]}}''"

definition ha_battery_payload :: string where
  "ha_battery_payload =
    ''{\"name\":\"H2O Battery\",\"stat_t\":\"stat/xr3_3D6C07/BATTERY\",\"dev_cla\":\"battery\",\"unit_of_meas\":\"%\",\"uniq_id\":\"3D6C07_battery\",\"dev\":{\"ids\":[\"3D6C07\"]}}''"

text \<open>Topic, payload and the retained flag; the quality of service is 0.\<close>

definition startup_messages :: "(string \<times> string \<times> bool) list" where
  "startup_messages =
     [(''tele/xr3_3D6C07/LWT'', ''Online'', False),
      (''homeassistant/binary_sensor/3D6C07_status/config'', ha_status_payload, True),
      (''homeassistant/binary_sensor/3D6C07_moisture/config'', ha_moisture_payload, True),
      (''homeassistant/sensor/3D6C07_battery/config'', ha_battery_payload, True)]"

text \<open>\<open>pubmsg\<close> with its payload, length, quality of service and retained flag set.\<close>

definition set_pubmsg :: "MQTTMessage \<Rightarrow> string \<Rightarrow> bool \<Rightarrow> MQTTMessage" where
  "set_pubmsg msg payload retained =
     msg\<lparr>msg_payload := cstr payload, msg_payloadlen := int (length payload), msg_qos := 0,
         msg_retained := (if retained then 1 else 0)\<rparr>"

fun publish_all ::
  "'e network \<Rightarrow> (string \<times> string \<times> bool) list \<Rightarrow> MQTTMessage \<Rightarrow> 'e \<Rightarrow> Client \<Rightarrow>
     ('e \<times> Client \<times> int list) option" where
  "publish_all nw [] msg e c = Some (e, c, [])"
| "publish_all nw ((topic, payload, retained) # ms) msg e c = do {
     (e, c, msg, rc) \<leftarrow> MQTTPublish nw (cstr topic) (set_pubmsg msg payload retained) e c;
     (e, c, rcs) \<leftarrow> publish_all nw ms msg e c;
     Some (e, c, rc # rcs)
   }"

definition main_publish_startup :: "'e network \<Rightarrow> MQTTMessage \<Rightarrow> 'e \<Rightarrow> Client \<Rightarrow> ('e \<times> Client \<times> int list) option" where
  "main_publish_startup nw msg e c = publish_all nw startup_messages msg e c"

text \<open>What the five \<open>mqtt_send_*\<close> functions do with their message.\<close>

definition send_mqtt_msg :: "'e network \<Rightarrow> MQTTMessage \<Rightarrow> mqtt_msg \<Rightarrow> 'e \<Rightarrow> Client \<Rightarrow> ('e \<times> Client \<times> int) option" where
  "send_mqtt_msg nw msg m e c = do {
     (e, c, _, rc) \<leftarrow> MQTTPublish nw (cstr (mm_topic m)) (set_pubmsg msg (mm_payload m) (mm_retained m)) e c;
     Some (e, c, rc)
   }"

section \<open>Lemmas\<close>

definition message_packet :: "string \<times> string \<times> bool \<Rightarrow> u8 list" where
  "message_packet m = (case m of (topic, payload, retained) \<Rightarrow>
     publish_packet 0 0 (if retained then 1 else 0) 0 (cstr topic) (cstr payload))"

definition message_fits :: "int \<Rightarrow> string \<times> string \<times> bool \<Rightarrow> bool" where
  "message_fits n m = (case m of (topic, payload, retained) \<Rightarrow>
     MQTTPacket_len (2 + int (length topic) + int (length payload)) \<le> n)"

definition client_ready :: "int \<Rightarrow> Client \<Rightarrow> bool" where
  "client_ready n c \<longleftrightarrow> c_isconnected c \<and> 0 < sint (c_command_timeout_ms c) \<and>
     c_buf_size c = n \<and> n \<le> int (length (c_buf c)) \<and> n < 65536"

context stream_network
begin

lemma send_goes:
  assumes "ready e" "client_ready n c" "message_fits n (topic, payload, retained)"
  shows "\<exists>e1 c1. MQTTPublish nw (cstr topic) (set_pubmsg msg payload retained) e c
      = Some (e1, c1, set_pubmsg msg payload retained, 0) \<and>
    goes e e1 (pending e) (sent e @ message_packet (topic, payload, retained)) \<and> client_ready n c1"
proof -
  let ?m = "set_pubmsg msg payload retained"
  have fit: "MQTTPacket_len (2 + int (length topic) + int (length payload)) \<le> n"
    using assms(3) by (simp add: message_fits_def)
  moreover have "2 + int (length topic) + int (length payload)
      < MQTTPacket_len (2 + int (length topic) + int (length payload))"
    by (rule MQTTPacket_len_nonneg) simp
  ultimately have "length topic < 65536" "length topic + length payload < 100000000"
    using assms(2) by (auto simp: client_ready_def)
  then have "\<exists>e1 c1. MQTTPublish nw (cstr topic) ?m e c = Some (e1, c1, ?m, 0) \<and>
    goes e e1 (pending e) (sent e @ publish_packet 0 0 (msg_retained ?m) 0 (cstr topic) (msg_payload ?m)) \<and>
    c_isconnected c1 \<and> c_buf_size c1 = c_buf_size c \<and> length (c_buf c1) = length (c_buf c) \<and>
    c_command_timeout_ms c1 = c_command_timeout_ms c"
    using assms(2) fit by (intro MQTTPublish_goes assms(1)) (simp_all add: set_pubmsg_def client_ready_def)
  then show ?thesis
    using assms(2) by (auto simp: set_pubmsg_def message_packet_def client_ready_def)
qed

lemma publish_all_goes:
  assumes "ready e" "client_ready n c" "\<forall>m\<in>set ms. message_fits n m"
  shows "\<exists>e1 c1. publish_all nw ms msg e c = Some (e1, c1, replicate (length ms) 0) \<and>
    goes e e1 (pending e) (sent e @ concat (map message_packet ms)) \<and> client_ready n c1"
  using assms
proof (induction ms arbitrary: msg e c)
  case Nil
  then show ?case using goes_refl by auto
next
  case (Cons m ms)
  obtain topic payload retained where m: "m = (topic, payload, retained)" by (cases m)
  obtain e1 c1 where s: "MQTTPublish nw (cstr topic) (set_pubmsg msg payload retained) e c
      = Some (e1, c1, set_pubmsg msg payload retained, 0)"
    "goes e e1 (pending e) (sent e @ message_packet m)" "client_ready n c1"
    using send_goes[OF Cons.prems(1,2)] Cons.prems(3) by (force simp: m)
  obtain e2 c2 where r: "publish_all nw ms (set_pubmsg msg payload retained) e1 c1
      = Some (e2, c2, replicate (length ms) 0)"
    "goes e1 e2 (pending e1) (sent e1 @ concat (map message_packet ms))" "client_ready n c2"
    using Cons.IH[OF goesD(1)[OF s(2)] s(3)] Cons.prems(3) by fastforce
  have "goes e e2 (pending e) (sent e @ message_packet m @ concat (map message_packet ms))"
    using goes_trans[OF s(2) r(2)] unfolding goesD(2,3)[OF s(2)] by simp
  then show ?case using s(1) r(1,3) by (simp add: m)
qed

end

lemma startup_messages_fit: "\<forall>m\<in>set startup_messages. message_fits 350 m"
  by (simp add: startup_messages_def message_fits_def MQTTPacket_len_def ha_status_payload_def
      ha_moisture_payload_def ha_battery_payload_def)

lemma known_messages_fit:
  "Mqtt_Publish m \<in> tuya_known_events \<Longrightarrow> message_fits 350 (mm_topic m, mm_payload m, mm_retained m)"
  by (auto simp: tuya_known_events_def mqtt_send_battery_state_low_def mqtt_send_battery_state_middle_def
      mqtt_send_battery_state_high_def mqtt_send_moisture_state_on_def mqtt_send_moisture_state_off_def
      message_fits_def MQTTPacket_len_def)

section \<open>Properties\<close>

text \<open>The start-up messages go out: a connected client with the buffer of \<open>main\<close> (350
  bytes) sends the "Online" message and the three discovery messages completely and in order,
  and every call succeeds.\<close>

theorem startup_messages_sent:
  assumes "0 < bs_chunk e" "client_ready 350 c"
  shows "\<exists>e1 c1. main_publish_startup (NewNetwork byte_sockets) msg e c = Some (e1, c1, [0, 0, 0, 0]) \<and>
    bs_sent e1 = bs_sent e @ concat (map message_packet startup_messages)"
proof -
  have "replicate (length startup_messages) (0 :: int) = [0, 0, 0, 0]"
    by (simp add: startup_messages_def)
  then show ?thesis
    using byte_net.publish_all_goes[OF assms startup_messages_fit, of msg] byte_net.goesD(3)
    unfolding main_publish_startup_def by metis
qed

theorem startup_messages_sent_witness:
  "\<exists>e1 c1. main_publish_startup (NewNetwork byte_sockets)
      \<lparr>msg_qos = 9, msg_retained = 9, msg_dup = 9, msg_id = 9, msg_payload = [], msg_payloadlen = 0\<rparr>
      \<lparr>bs_pending = [], bs_sent = [], bs_now = 0, bs_chunk = 1\<rparr>
      \<lparr>c_next_packetid = 0, c_command_timeout_ms = 1000, c_buf_size = 350, c_readbuf_size = 100,
       c_buf = replicate 350 0, c_readbuf = replicate 100 0, c_keepAliveInterval = 30,
       c_ping_outstanding = False, c_isconnected = True, c_messageHandlers = [],
       c_defaultMessageHandler = None, c_ping_timer = 0, c_remain_pktfrag_len = 0, c_delivered = []\<rparr>
      = Some (e1, c1, [0, 0, 0, 0])"
  using startup_messages_sent[of "\<lparr>bs_pending = [], bs_sent = [], bs_now = 0, bs_chunk = 1\<rparr>"
      "\<lparr>c_next_packetid = 0, c_command_timeout_ms = 1000, c_buf_size = 350, c_readbuf_size = 100,
       c_buf = replicate 350 0, c_readbuf = replicate 100 0, c_keepAliveInterval = 30,
       c_ping_outstanding = False, c_isconnected = True, c_messageHandlers = [],
       c_defaultMessageHandler = None, c_ping_timer = 0, c_remain_pktfrag_len = 0, c_delivered = []\<rparr>"
      "\<lparr>msg_qos = 9, msg_retained = 9, msg_dup = 9, msg_id = 9, msg_payload = [], msg_payloadlen = 0\<rparr>"]
  by (auto simp: client_ready_def)

text \<open>Every message that the scan of the serial data can produce is sent completely by the
  client of \<open>main\<close>, as the publish packet of its topic and payload.\<close>

theorem known_messages_sent:
  assumes "tuya_scan buf n j = Some (k, ev)" "Mqtt_Publish m \<in> set ev"
    and "0 < bs_chunk e" "client_ready 350 c"
  shows "\<exists>e1 c1. send_mqtt_msg (NewNetwork byte_sockets) msg m e c = Some (e1, c1, 0) \<and>
    bs_sent e1 = bs_sent e @ message_packet (mm_topic m, mm_payload m, mm_retained m)"
proof -
  have "message_fits 350 (mm_topic m, mm_payload m, mm_retained m)"
    using scan_known[OF assms(1)] assms(2) by (intro known_messages_fit) auto
  from byte_net.send_goes[OF assms(3,4) this, of msg] show ?thesis
    using byte_net.goesD(3) by (fastforce simp: send_mqtt_msg_def)
qed

theorem known_messages_sent_witness:
  "\<exists>e1 c1 ev. tuya_scan (report_frame [(1, 4, 0)] 7) 12 0 = Some (1, ev) \<and>
      send_mqtt_msg (NewNetwork byte_sockets)
      \<lparr>msg_qos = 9, msg_retained = 9, msg_dup = 9, msg_id = 9, msg_payload = [], msg_payloadlen = 0\<rparr>
      \<lparr>mm_topic = ''stat/xr3_3D6C07/MOISTURE'', mm_payload = ''ON'', mm_qos = 0, mm_retained = False\<rparr>
      \<lparr>bs_pending = [], bs_sent = [], bs_now = 0, bs_chunk = 1\<rparr>
      \<lparr>c_next_packetid = 0, c_command_timeout_ms = 1000, c_buf_size = 350, c_readbuf_size = 100,
       c_buf = replicate 350 0, c_readbuf = replicate 100 0, c_keepAliveInterval = 30,
       c_ping_outstanding = False, c_isconnected = True, c_messageHandlers = [],
       c_defaultMessageHandler = None, c_ping_timer = 0, c_remain_pktfrag_len = 0, c_delivered = []\<rparr>
      = Some (e1, c1, 0)"
proof -
  have f: "report_frame [(1, 4, 0)] 7 = [0x55, 0xAA, 0, 5, 0, 5, 1, 4, 0, 1, 0, 7]"
    by (simp add: report_frame_def)
  have scan: "tuya_scan (report_frame [(1, 4, 0)] 7) 12 0 = Some (1, [mqtt_send_moisture_state_on])"
    unfolding f
    by (subst tuya_scan_unfold, simp add: tuya_scan_step_def be16_def,
        subst tuya_parse_units_unfold, simp add: tuya_parse_status_data_unit_def be16_def tuya_unit_events_def,
        subst tuya_parse_units_unfold, simp, subst tuya_scan_unfold, simp)
  then show ?thesis
    using known_messages_sent[OF scan, of _ "\<lparr>bs_pending = [], bs_sent = [], bs_now = 0, bs_chunk = 1\<rparr>"
      "\<lparr>c_next_packetid = 0, c_command_timeout_ms = 1000, c_buf_size = 350, c_readbuf_size = 100,
       c_buf = replicate 350 0, c_readbuf = replicate 100 0, c_keepAliveInterval = 30,
       c_ping_outstanding = False, c_isconnected = True, c_messageHandlers = [],
       c_defaultMessageHandler = None, c_ping_timer = 0, c_remain_pktfrag_len = 0, c_delivered = []\<rparr>"
      "\<lparr>msg_qos = 9, msg_retained = 9, msg_dup = 9, msg_id = 9, msg_payload = [], msg_payloadlen = 0\<rparr>"]
    by (fastforce simp: client_ready_def mqtt_send_moisture_state_on_def)
qed

text \<open>The connect options of \<open>main\<close> depend on what its uninitialised locals hold: when the
  stack happens to contain a positive length and a readable pointer in \<open>clientID.lenstring\<close>,
  those bytes are written in place of the client identifier \<open>xr3_3D6C07\<close>.\<close>

theorem main_client_id_garbage:
  assumes "ms_len (cd_clientID d) = int n" "0 < n" "ms_data (cd_clientID d) = Some g" "n \<le> length g"
  shows "writeMQTTString (cd_clientID (main_connect_data d w user pass)) p
       = put_bytes (int_bytes (int n) @ take n g) p \<and>
    MQTTstrlen (cd_clientID (main_connect_data d w user pass)) = 10"
proof -
  have "put_memcpy (Some g) (int n) = put_bytes (take n g)"
    using assms(2,4) by (intro ext) (simp add: put_memcpy_def rd_block_def)
  then show ?thesis
    using assms by (simp add: main_connect_data_def writeMQTTString_def writeInt_def put_put MQTTstrlen_def)
qed

theorem main_client_id_garbage_witness:
  "writeMQTTString (cd_clientID (main_connect_data
      (MQTTPacket_connectData_initializer\<lparr>cd_clientID := \<lparr>ms_cstring = None, ms_len = int 2, ms_data = Some [8, 9, 7]\<rparr>\<rparr>)
      MQTTPacket_willOptions_initializer [] [])) ([0, 0, 0, 0], 0) = Some ([0, 2, 8, 9], 4)"
  using main_client_id_garbage[of
      "MQTTPacket_connectData_initializer\<lparr>cd_clientID := \<lparr>ms_cstring = None, ms_len = int 2, ms_data = Some [8, 9, 7]\<rparr>\<rparr>"
      2 "[8, 9, 7]" MQTTPacket_willOptions_initializer "[]" "[]" "([0, 0, 0, 0], 0)"]
  by (simp add: put_bytes_def wr_block_def int_bytes_nonneg)

end
