(* ===== verification/AtParameter.thy ===== *)
theory AtParameter
  imports Prelude
begin

text \<open>
  The parameters of AT commands, \<^verbatim>\<open>src/atcmd/at_parameter.c\<close> with the types of
  \<^verbatim>\<open>src/atcmd/at_private.h\<close> and the error codes of \<^verbatim>\<open>include/atcmd/at_command.h\<close>: printing
  and storing a variable, and parsing text, hex data, decimal and hexadecimal integers and IP
  addresses from a command line.  A pointer into the line is the list of bytes from there to the
  end of its buffer, and reading or writing outside a buffer is \<^term>\<open>None\<close>.
\<close>

unbundle bit_operations_syntax

section \<open>Types and constants\<close>

datatype AT_ERROR_CODE =
    AEC_OK | AEC_BLANK_LINE | AEC_CMD_ERROR | AEC_PARA_ERROR | AEC_NO_PARA | AEC_UNSUPPORTED
  | AEC_NOT_FOUND | AEC_NULL_POINTER | AEC_OUT_OF_RANGE | AEC_SCAN_FAIL | AEC_READ_ONLY
  | AEC_SEND_FAIL | AEC_SWITCH_MODE | AEC_CONNECT_FAIL | AEC_BIND_FAIL | AEC_SOCKET_FAIL
  | AEC_LIMITED | AEC_DISCONNECT | AEC_NETWORK_ERROR | AEC_NOT_ENOUGH_MEMORY
  | AEC_IMPROPER_OPERATION | AEC_UNDEFINED

datatype AT_PARA_TYPE = APT_TEXT | APT_HEX | APT_DI | APT_HI | APT_IP
datatype AT_PARA_OPTION = APO_RO | APO_RW

text \<open>The variables a descriptor points to: bytes (text, hex data, an IP address), an \<open>int\<close> or
  an \<open>unsigned int\<close>.\<close>

datatype at_var = Bytes "u8 list" | DI int | HI u32

record at_para_descriptor_t =
  pd_pt :: AT_PARA_TYPE
  pd_pvar :: at_var
  pd_option :: u32

abbreviation (input) AT_PARA_MAX_SIZE :: nat where "AT_PARA_MAX_SIZE \<equiv> 64"
abbreviation (input) AET_PARA :: u32 where "AET_PARA \<equiv> 256"
abbreviation (input) AET_LINE :: u32 where "AET_LINE \<equiv> 512"
abbreviation (input) AT_SEPARATOR :: u8 where "AT_SEPARATOR \<equiv> 44"
abbreviation (input) AT_CR :: u8 where "AT_CR \<equiv> 13"
abbreviation (input) AT_LF :: u8 where "AT_LF \<equiv> 10"
abbreviation (input) AT_DOT :: u8 where "AT_DOT \<equiv> 46"
abbreviation (input) AT_COLON :: u8 where "AT_COLON \<equiv> 58"

definition SIZE_LIMIT :: "u32 \<Rightarrow> nat" where
  "SIZE_LIMIT opt = unat (opt AND 127)"

section \<open>Numbers as text\<close>

text \<open>\<open>%d\<close> of a natural number, \<open>%02X\<close> of a byte and \<open>%08X\<close> of a word.\<close>

fun dec_digits :: "nat \<Rightarrow> u8 list" where
  "dec_digits n = (if n < 10 then [of_nat (48 + n)] else dec_digits (n div 10) @ [of_nat (48 + n mod 10)])"

declare dec_digits.simps [simp del]

definition print_d :: "int \<Rightarrow> u8 list" where
  "print_d n = (if n < 0 then 45 # dec_digits (nat (- n)) else dec_digits (nat n))"

definition hex_digit :: "nat \<Rightarrow> u8" where
  "hex_digit d = of_nat (if d < 10 then 48 + d else 55 + d)"

definition print_02X :: "u8 \<Rightarrow> u8 list" where
  "print_02X b = [hex_digit (unat b div 16), hex_digit (unat b mod 16)]"

definition print_08X :: "u32 \<Rightarrow> u8 list" where
  "print_08X w = map (\<lambda>i. hex_digit (unat w div 16 ^ (7 - i) mod 16)) [0..<8]"

text \<open>\<open>atoi\<close> (\<open>strtol\<close> in base 10, which saturates): white space, a sign, digits.\<close>

definition is_space :: "u8 \<Rightarrow> bool" where
  "is_space c \<longleftrightarrow> c = 32 \<or> (9 \<le> c \<and> c \<le> 13)"

definition is_dec :: "u8 \<Rightarrow> bool" where
  "is_dec ch \<longleftrightarrow> 48 \<le> ch \<and> ch \<le> 57"

definition dec_value :: "u8 list \<Rightarrow> int" where
  "dec_value ds = foldl (\<lambda>v d. v * 10 + (uint d - 48)) 0 ds"

definition at_atoi :: "u8 list \<Rightarrow> int" where
  "at_atoi str =
     (let s = dropWhile is_space (c_string str);
          neg = (case s of c # _ \<Rightarrow> c = 45 | [] \<Rightarrow> False);
          s1 = (case s of c # r \<Rightarrow> if c = 45 \<or> c = 43 then r else s | [] \<Rightarrow> s);
          v = dec_value (takeWhile is_dec s1)
      in if neg then max (- 2147483648) (- v) else min 2147483647 v)"

definition is_hex :: "u8 \<Rightarrow> bool" where
  "is_hex ch \<longleftrightarrow> (48 \<le> ch \<and> ch \<le> 57) \<or> (65 \<le> ch \<and> ch \<le> 70) \<or> (97 \<le> ch \<and> ch \<le> 102)"

definition hex_to_num :: "u8 \<Rightarrow> int" where
  "hex_to_num ch =
     (if 48 \<le> ch \<and> ch \<le> 57 then uint ch - 48
      else if 65 \<le> ch \<and> ch \<le> 70 then uint ch - 65 + 10
      else if 97 \<le> ch \<and> ch \<le> 102 then uint ch - 97 + 10
      else -1)"

text \<open>\<open>sscanf("%x")\<close> of hex digits (\<open>strtoul\<close> in base 16, which saturates).\<close>

definition scan_x :: "u8 list \<Rightarrow> u32" where
  "scan_x ds = word_of_int (min 4294967295 (foldl (\<lambda>v d. v * 16 + hex_to_num d) 0 ds))"

section \<open>Printing and storing a variable\<close>

definition join_with :: "u8 \<Rightarrow> u8 list list \<Rightarrow> u8 list" where
  "join_with sep xs = (case xs of [] \<Rightarrow> [] | y # ys \<Rightarrow> y @ concat (map (\<lambda>z. sep # z) ys))"

text \<open>
  \<open>at_get_value\<close>: the string left in \<open>strbuf\<close> (\<open>old\<close> before) and the return code.  The types
  of parameter and variable have to agree.
\<close>

definition at_get_value ::
  "u8 list \<Rightarrow> AT_PARA_TYPE \<Rightarrow> at_var option \<Rightarrow> int \<Rightarrow> (u8 list \<times> int) option" where
  "at_get_value old pt pvar vsize =
     (case pvar of
        None \<Rightarrow> Some (old, 2)
      | Some v \<Rightarrow>
          (case (pt, v) of
             (APT_DI, DI n) \<Rightarrow> Some (print_d n, 0)
           | (APT_HI, HI w) \<Rightarrow> Some (48 # 120 # print_08X w, 0)
           | (APT_HEX, Bytes m) \<Rightarrow>
               if vsize \<le> 0 then Some (old, 0)
               else map_option (\<lambda>bs. (join_with AT_COLON (map print_02X bs), 0)) (rd_block m 0 (nat vsize))
           | (APT_IP, Bytes m) \<Rightarrow>
               if vsize \<le> 0 then Some (old, 0)
               else map_option (\<lambda>bs. (join_with AT_DOT (map (\<lambda>b. print_d (uint b)) bs), 0))
                      (rd_block m 0 (nat vsize))
           | (APT_TEXT, Bytes m) \<Rightarrow> if 0 \<in> set m then Some (c_string m, 0) else None
           | _ \<Rightarrow> None))"

text \<open>The union \<open>at_value_t\<close>: its bytes, and the integers they are.\<close>

record at_value_t =
  av_bytes :: "u8 list"
  av_di :: int
  av_hi :: u32

definition at_set_value :: "AT_PARA_TYPE \<Rightarrow> at_var \<Rightarrow> int \<Rightarrow> at_value_t \<Rightarrow> at_var option" where
  "at_set_value pt pvar vsize v =
     (case (pt, pvar) of
        (APT_TEXT, Bytes m) \<Rightarrow>
          if 0 \<in> set (av_bytes v) then map_option Bytes (wr_block m 0 (c_string (av_bytes v) @ [0])) else None
      | (APT_HEX, Bytes m) \<Rightarrow>
          do { bs \<leftarrow> rd_block (av_bytes v) 0 (nat vsize); map_option Bytes (wr_block m 0 bs) }
      | (APT_IP, Bytes m) \<Rightarrow>
          do { bs \<leftarrow> rd_block (av_bytes v) 0 (nat vsize); map_option Bytes (wr_block m 0 bs) }
      | (APT_DI, DI _) \<Rightarrow> Some (DI (av_di v))
      | (APT_HI, HI _) \<Rightarrow> Some (HI (av_hi v))
      | _ \<Rightarrow> None)"

section \<open>The end of a parameter\<close>

text \<open>
  The chain of comparisons at the head of every parser's loop.  \<^term>\<open>Some None\<close>: no
  terminator; otherwise the position after it, \<open>over\<close> and \<open>end_type\<close>.
\<close>

fun para_end :: "u8 list \<Rightarrow> (u8 list \<times> bool \<times> u32) option option" where
  "para_end [] = None"
| "para_end (c # cs) =
     (if c = AT_SEPARATOR then Some (Some (cs, False, AET_PARA))
      else if c = AT_CR
      then (case cs of
              [] \<Rightarrow> None
            | d # ds \<Rightarrow> Some (Some (if d = AT_LF then ds else cs, True, AET_LINE)))
      else if c = AT_LF then Some (Some (cs, True, AET_LINE))
      else Some None)"

text \<open>\<open>*ppara\<close>, \<open>over\<close>, \<open>error\<close> and the variable.\<close>

type_synonym para_result = "(u8 list \<times> bool \<times> bool \<times> at_var) option"

definition store_bytes :: "at_var \<Rightarrow> u8 list \<Rightarrow> at_var option" where
  "store_bytes pvar bs = (case pvar of Bytes m \<Rightarrow> map_option Bytes (wr_block m 0 bs) | _ \<Rightarrow> None)"

section \<open>Text\<close>

text \<open>The loop: position, \<open>over\<close>, \<open>end_type\<close> and \<open>strbuf[0..cnt]\<close>.\<close>

fun text_loop :: "nat \<Rightarrow> u8 list \<Rightarrow> u8 list \<Rightarrow> (u8 list \<times> bool \<times> u32 \<times> u8 list) option" where
  "text_loop size_limit [] strbuf = (if length strbuf < size_limit then None else Some ([], False, 0, strbuf))"
| "text_loop size_limit (c # cs) strbuf =
     (if length strbuf < size_limit
      then case para_end (c # cs) of
             None \<Rightarrow> None
           | Some (Some (r, over, end_type)) \<Rightarrow> Some (r, over, end_type, strbuf)
           | Some None \<Rightarrow>
               if length strbuf < AT_PARA_MAX_SIZE then text_loop size_limit cs (strbuf @ [c]) else None
      else Some (c # cs, False, 0, strbuf))"

definition get_text_para :: "u8 list \<Rightarrow> at_var \<Rightarrow> u32 \<Rightarrow> para_result" where
  "get_text_para para pvar opt = do {
     (para, over, end_type, strbuf) \<leftarrow> text_loop (SIZE_LIMIT opt) para [];
     if end_type AND opt = 0 then Some (para, over, True, pvar)
     else if 0 < length strbuf \<and> length strbuf < SIZE_LIMIT opt
     then do { v \<leftarrow> store_bytes pvar (strbuf @ [0]); Some (para, over, False, v) }
     else Some (para, over, True, pvar)
   }"

section \<open>Hex data\<close>

definition hex_byte :: "u8 list \<Rightarrow> u8" where
  "hex_byte hexbuf = word_of_int (hex_to_num (hexbuf ! 0) * 16 + hex_to_num (hexbuf ! 1))"

text \<open>
  The loop: position, \<open>over\<close>, \<open>error\<close>, \<open>end_type\<close>, \<open>strbuf\<close> and \<open>hexbuf[0..hexcnt]\<close>.  A round with
  \<open>hexcnt = 2\<close> stores the byte and does not move the position, so that the same
  character is looked at again with \<open>hexcnt = 0\<close>.
\<close>

function hex_loop :: "nat \<Rightarrow> u8 list \<Rightarrow> u8 list \<Rightarrow> u8 list \<Rightarrow>
    (u8 list \<times> bool \<times> bool \<times> u32 \<times> u8 list \<times> u8 list) option" where
  "hex_loop size_limit para strbuf hexbuf =
     (if length strbuf < size_limit
      then case para_end para of
             None \<Rightarrow> None
           | Some (Some (r, over, end_type)) \<Rightarrow> Some (r, over, False, end_type, strbuf, hexbuf)
           | Some None \<Rightarrow>
               if length hexbuf < 2
               then (case para of
                       [] \<Rightarrow> None
                     | c # cs \<Rightarrow> if is_hex c then hex_loop size_limit cs strbuf (hexbuf @ [c])
                               else Some (para, False, True, 0, strbuf, hexbuf))
               else if length strbuf < AT_PARA_MAX_SIZE
               then hex_loop size_limit para (strbuf @ [hex_byte hexbuf]) []
               else None
      else Some (para, False, False, 0, strbuf, hexbuf))"
  by pat_completeness auto
termination
  by (relation "measure (\<lambda>(size_limit, para, strbuf, hexbuf). 2 * length para + length hexbuf)") auto

declare hex_loop.simps [simp del]

text \<open>After the terminator a last complete byte is stored, and the position is moved once more.\<close>

definition get_hex_para :: "u8 list \<Rightarrow> at_var \<Rightarrow> u32 \<Rightarrow> para_result" where
  "get_hex_para para pvar opt = do {
     (para, over, error, end_type, strbuf, hexbuf) \<leftarrow> hex_loop (SIZE_LIMIT opt) para [] [];
     (para, error, strbuf) \<leftarrow>
       (if end_type AND opt \<noteq> 0
        then if length hexbuf = 2
             then if length strbuf < AT_PARA_MAX_SIZE
                  then Some (drop 1 para, error, strbuf @ [hex_byte hexbuf]) else None
             else Some (para, True, strbuf)
        else Some (para, True, strbuf));
     if \<not> error
     then do {
       v \<leftarrow> store_bytes pvar (replicate (SIZE_LIMIT opt) 0);
       v \<leftarrow> store_bytes v strbuf;
       Some (para, over, False, v)
     }
     else Some (para, over, True, pvar)
   }"

section \<open>Integers\<close>

text \<open>The loop shared by the two integer parsers, which differ in the digits they accept; the
  limit is 11 characters.\<close>

fun digit_loop :: "(u8 \<Rightarrow> bool) \<Rightarrow> u8 list \<Rightarrow> u8 list \<Rightarrow> (u8 list \<times> bool \<times> bool \<times> u32 \<times> u8 list) option" where
  "digit_loop ok [] strbuf = (if length strbuf < 11 then None else Some ([], False, False, 0, strbuf))"
| "digit_loop ok (c # cs) strbuf =
     (if length strbuf < 11
      then case para_end (c # cs) of
             None \<Rightarrow> None
           | Some (Some (r, over, end_type)) \<Rightarrow> Some (r, over, False, end_type, strbuf)
           | Some None \<Rightarrow>
               if ok c then digit_loop ok cs (strbuf @ [c]) else Some (c # cs, False, True, 0, strbuf)
      else Some (c # cs, False, False, 0, strbuf))"

definition get_di_para :: "u8 list \<Rightarrow> at_var \<Rightarrow> u32 \<Rightarrow> para_result" where
  "get_di_para para pvar opt = do {
     (para, over, error, end_type, strbuf) \<leftarrow> digit_loop is_dec para [];
     if end_type AND opt = 0 then Some (para, over, True, pvar)
     else if \<not> error \<and> 0 < length strbuf \<and> length strbuf < 11
     then (case pvar of DI _ \<Rightarrow> Some (para, over, False, DI (at_atoi (strbuf @ [0]))) | _ \<Rightarrow> None)
     else Some (para, over, True, pvar)
   }"

definition get_hi_para :: "u8 list \<Rightarrow> at_var \<Rightarrow> u32 \<Rightarrow> para_result" where
  "get_hi_para para pvar opt = do {
     (para, over, error, end_type, strbuf) \<leftarrow> digit_loop is_hex para [];
     if end_type AND opt = 0 then Some (para, over, True, pvar)
     else if \<not> error \<and> 0 < length strbuf \<and> length strbuf < 11
     then (case pvar of HI _ \<Rightarrow> Some (para, over, False, HI (scan_x strbuf)) | _ \<Rightarrow> None)
     else Some (para, over, True, pvar)
   }"

section \<open>IP addresses\<close>

text \<open>One number of the address: \<^term>\<open>None\<close> is \<open>error = 1\<close>.\<close>

definition ip_number :: "u8 list \<Rightarrow> u8 option" where
  "ip_number decbuf =
     (if 1 \<le> length decbuf \<and> length decbuf \<le> 3
      then let num = at_atoi (decbuf @ [0])
           in if 0 \<le> num \<and> num \<le> 255 then Some (word_of_int num) else None
      else None)"

text \<open>The loop: position, \<open>over\<close>, \<open>error\<close>, \<open>end_type\<close>, \<open>strbuf\<close> and \<open>decbuf[0..deccnt]\<close>.\<close>

fun ip_loop :: "u8 list \<Rightarrow> u8 list \<Rightarrow> u8 list \<Rightarrow>
    (u8 list \<times> bool \<times> bool \<times> u32 \<times> u8 list \<times> u8 list) option" where
  "ip_loop [] strbuf decbuf = (if length strbuf < 4 then None else Some ([], False, False, 0, strbuf, decbuf))"
| "ip_loop (c # cs) strbuf decbuf =
     (if length strbuf < 4
      then case para_end (c # cs) of
             None \<Rightarrow> None
           | Some (Some (r, over, end_type)) \<Rightarrow> Some (r, over, False, end_type, strbuf, decbuf)
           | Some None \<Rightarrow>
               if c = AT_DOT
               then (case ip_number decbuf of
                       Some b \<Rightarrow> ip_loop cs (strbuf @ [b]) []
                     | None \<Rightarrow> Some (cs, False, True, 0, strbuf, []))
               else if is_dec c
               then if length decbuf < 3 then ip_loop cs strbuf (decbuf @ [c])
                    else Some (c # cs, False, True, 0, strbuf, decbuf)
               else Some (c # cs, False, True, 0, strbuf, decbuf)
      else Some (c # cs, False, False, 0, strbuf, decbuf))"

definition get_ip_para :: "u8 list \<Rightarrow> at_var \<Rightarrow> u32 \<Rightarrow> para_result" where
  "get_ip_para para pvar opt = do {
     (para, over, error, end_type, strbuf, decbuf) \<leftarrow> ip_loop para [] [];
     if end_type AND opt = 0 then Some (para, over, True, pvar)
     else (case ip_number decbuf of
             None \<Rightarrow> Some (para, over, True, pvar)
           | Some b \<Rightarrow>
               let strbuf = strbuf @ [b]
               in if error \<or> length strbuf \<noteq> 4 then Some (para, over, True, pvar)
                  else do { v \<leftarrow> store_bytes pvar strbuf; Some (para, over, False, v) })
   }"

section \<open>Parameter lists\<close>

definition at_get_newline :: "u8 list \<Rightarrow> int \<Rightarrow> AT_ERROR_CODE option" where
  "at_get_newline para sz = do {
     c \<leftarrow> rd para 0;
     if c = AT_LF then Some AEC_OK
     else if c = AT_CR
     then do { _ \<leftarrow> (if sz \<ge> 2 then rd para 1 else Some 0); Some AEC_OK }
     else Some AEC_CMD_ERROR
   }"

definition get_para :: "u8 list \<Rightarrow> at_para_descriptor_t \<Rightarrow> para_result" where
  "get_para para d =
     (case pd_pt d of
        APT_TEXT \<Rightarrow> get_text_para para (pd_pvar d) (pd_option d)
      | APT_HEX \<Rightarrow> get_hex_para para (pd_pvar d) (pd_option d)
      | APT_DI \<Rightarrow> get_di_para para (pd_pvar d) (pd_option d)
      | APT_HI \<Rightarrow> get_hi_para para (pd_pvar d) (pd_option d)
      | APT_IP \<Rightarrow> get_ip_para para (pd_pvar d) (pd_option d))"

text \<open>The loop over the descriptors: position, the variables, the count and \<open>error\<close>.\<close>

fun parameters_loop ::
  "u8 list \<Rightarrow> at_para_descriptor_t list \<Rightarrow> (u8 list \<times> at_var list \<times> nat \<times> bool) option" where
  "parameters_loop para [] = Some (para, [], 0, False)"
| "parameters_loop para (d # ds) = do {
     (para, over, error, v) \<leftarrow> get_para para d;
     if over \<or> error
     then Some (para, v # map pd_pvar ds, if error then 0 else 1, error)
     else do {
       (para, vs, n, error) \<leftarrow> parameters_loop para ds;
       Some (para, v # vs, n + 1, error)
     }
   }"

text \<open>The result: \<open>*ppara\<close>, the variables, \<open>*pcnt\<close> (\<open>pcnt\<close> before) and the error code.\<close>

definition at_get_parameters ::
  "u8 list \<Rightarrow> at_para_descriptor_t list \<Rightarrow> int \<Rightarrow> (u8 list \<times> at_var list \<times> int \<times> AT_ERROR_CODE) option" where
  "at_get_parameters para list pcnt =
     (if list = [] then map_option (\<lambda>rc. (para, [], pcnt, rc)) (at_get_newline para 2)
      else do {
        (para, vs, n, error) \<leftarrow> parameters_loop para list;
        Some (para, vs, int n, if error then AEC_PARA_ERROR else AEC_OK)
      })"

section \<open>Lemmas\<close>

text \<open>The characters of a parameter's body.\<close>

definition plain :: "u8 \<Rightarrow> bool" where
  "plain c \<longleftrightarrow> c \<noteq> AT_SEPARATOR \<and> c \<noteq> AT_CR \<and> c \<noteq> AT_LF"

text \<open>The three ways a parameter ends, with what follows it.\<close>

definition terminator :: "u8 list \<Rightarrow> u8 list \<Rightarrow> bool \<Rightarrow> u32 \<Rightarrow> bool" where
  "terminator line r over end_type \<longleftrightarrow>
     line = AT_SEPARATOR # r \<and> \<not> over \<and> end_type = AET_PARA \<or>
     line = AT_LF # r \<and> over \<and> end_type = AET_LINE \<or>
     line = AT_CR # AT_LF # r \<and> over \<and> end_type = AET_LINE"

lemma para_end_terminator: "terminator l r over end_type \<Longrightarrow> para_end l = Some (Some (r, over, end_type))"
  by (auto simp: terminator_def)

lemma terminator_nonempty: "terminator l r over end_type \<Longrightarrow> l \<noteq> []"
  by (auto simp: terminator_def)

lemma para_end_plain: "plain c \<Longrightarrow> para_end (c # cs) = Some None"
  by (simp add: plain_def)

lemma text_loop_reads:
  assumes "\<forall>c\<in>set s. plain c" "terminator l r over end_type" "length buf + length s < lim" "lim \<le> 64"
  shows "text_loop lim (s @ l) buf = Some (r, over, end_type, buf @ s)"
  using assms
proof (induction s arbitrary: buf)
  case Nil
  then obtain c cs where "l = c # cs" using terminator_nonempty by (cases l) auto
  then show ?case using Nil para_end_terminator[OF Nil(2)] by (simp del: para_end.simps)
next
  case (Cons c s)
  then show ?case by (simp add: para_end_plain del: para_end.simps)
qed

lemma digit_loop_reads:
  assumes "\<forall>c\<in>set s. ok c \<and> plain c" "terminator l r over end_type" "length buf + length s < 11"
  shows "digit_loop ok (s @ l) buf = Some (r, over, False, end_type, buf @ s)"
  using assms
proof (induction s arbitrary: buf)
  case Nil
  then obtain c cs where "l = c # cs" using terminator_nonempty by (cases l) auto
  then show ?case using Nil para_end_terminator[OF Nil(2)] by (simp del: para_end.simps)
next
  case (Cons c s)
  then show ?case by (simp add: para_end_plain del: para_end.simps)
qed

lemma is_dec_range: "is_dec c \<longleftrightarrow> 48 \<le> uint c \<and> uint c \<le> 57"
  by (simp add: is_dec_def word_le_def)

lemma dec_byte:
  assumes "d < 10"
  shows "is_dec (of_nat (48 + d))" "uint (of_nat (48 + d) :: u8) = 48 + int d" "plain (of_nat (48 + d))"
    "(of_nat (48 + d) :: u8) \<noteq> 0" "\<not> is_space (of_nat (48 + d))" "(of_nat (48 + d) :: u8) \<noteq> 45"
    "(of_nat (48 + d) :: u8) \<noteq> 43" "(of_nat (48 + d) :: u8) \<noteq> AT_DOT"
proof -
  have "d \<in> {0, 1, 2, 3, 4, 5, 6, 7, 8, 9}" using assms by auto
  then show "is_dec (of_nat (48 + d))" "uint (of_nat (48 + d) :: u8) = 48 + int d" "plain (of_nat (48 + d))"
    "(of_nat (48 + d) :: u8) \<noteq> 0" "\<not> is_space (of_nat (48 + d))" "(of_nat (48 + d) :: u8) \<noteq> 45"
    "(of_nat (48 + d) :: u8) \<noteq> 43" "(of_nat (48 + d) :: u8) \<noteq> AT_DOT"
    by (auto simp: is_dec_def plain_def is_space_def)
qed

definition dec_char :: "u8 \<Rightarrow> bool" where
  "dec_char c \<longleftrightarrow> is_dec c \<and> plain c \<and> c \<noteq> 0 \<and> \<not> is_space c \<and> c \<noteq> 45 \<and> c \<noteq> 43 \<and> c \<noteq> AT_DOT"

lemma dec_digits_chars: "\<forall>c\<in>set (dec_digits n). dec_char c"
proof (induction n rule: dec_digits.induct)
  case (1 n)
  show ?case
    using dec_byte[of n] dec_byte[of "n mod 10"] 1
    by (subst dec_digits.simps) (auto simp: dec_char_def simp del: of_nat_add)
qed

lemma dec_digits_nonempty: "dec_digits n \<noteq> []"
  by (subst dec_digits.simps) simp

lemma dec_value_append: "dec_value (xs @ [d]) = dec_value xs * 10 + (uint d - 48)"
  by (simp add: dec_value_def)

lemma dec_value_digits: "dec_value (dec_digits n) = int n"
proof (induction n rule: dec_digits.induct)
  case (1 n)
  show ?case
  proof (cases "n < 10")
    case True
    then show ?thesis using dec_byte(2)[of n] by (subst dec_digits.simps) (simp add: dec_value_def)
  next
    case False
    then show ?thesis
      using 1 dec_byte(2)[of "n mod 10"]
      by (subst dec_digits.simps) (simp add: dec_value_append zdiv_int zmod_int del: of_nat_add)
  qed
qed

lemma dec_digits_length: "n < 10 ^ k \<Longrightarrow> 0 < k \<Longrightarrow> length (dec_digits n) \<le> k"
proof (induction k arbitrary: n)
  case (Suc k)
  show ?case
  proof (cases "n < 10")
    case True
    then show ?thesis by (subst dec_digits.simps) simp
  next
    case False
    then have "0 < k" using Suc.prems(1) by (cases k) auto
    moreover have "n div 10 < 10 ^ k" using Suc.prems(1) by (simp add: div_less_iff_less_mult mult.commute)
    ultimately show ?thesis using Suc.IH[of "n div 10"] False by (subst dec_digits.simps) simp
  qed
qed simp

lemma atoi_digits: "at_atoi (dec_digits n @ [0]) = min 2147483647 (int n)"
proof -
  have nz: "0 \<notin> set (dec_digits n)" using dec_digits_chars by (auto simp: dec_char_def)
  then have cs: "c_string (dec_digits n @ [0]) = dec_digits n" by simp
  obtain c r where d: "dec_digits n = c # r" using dec_digits_nonempty by (cases "dec_digits n") auto
  have c: "dec_char c" "\<forall>x\<in>set (dec_digits n). is_dec x"
    using dec_digits_chars[of n] d by (auto simp: dec_char_def)
  have cs': "c_string (c # r @ [0]) = c # r" using cs by (simp add: d)
  have tk: "takeWhile is_dec r = r" using c(2) by (simp add: takeWhile_eq_all_conv d)
  have "at_atoi (dec_digits n @ [0]) = min 2147483647 (dec_value (dec_digits n))"
    using c(1) cs' by (simp add: tk at_atoi_def Let_def dec_char_def d)
  then show ?thesis by (simp add: dec_value_digits)
qed

lemma ip_loop_digits:
  assumes "\<forall>c\<in>set s. dec_char c" "length dec + length s \<le> 3" "length buf < 4"
  shows "ip_loop (s @ l) buf dec = ip_loop l buf (dec @ s)"
  using assms
proof (induction s arbitrary: dec)
  case (Cons c s)
  then show ?case by (simp add: para_end_plain dec_char_def del: para_end.simps)
qed simp

lemma ip_number_digits:
  fixes b :: u8
  shows "ip_number (dec_digits (unat b)) = Some b"
proof -
  have "unat b < 256" using unsigned_less[of b, where ?'a=nat] by simp
  then have "length (dec_digits (unat b)) \<le> 3" by (intro dec_digits_length) simp_all
  moreover have "1 \<le> length (dec_digits (unat b))" using dec_digits_nonempty by (simp add: Suc_le_eq)
  ultimately show ?thesis
    using unsigned_less[of b, where ?'a=int] by (simp add: ip_number_def atoi_digits Let_def)
qed

lemma ip_loop_dot:
  fixes b :: u8
  assumes "length buf < 4"
  shows "ip_loop (dec_digits (unat b) @ AT_DOT # l) buf [] = ip_loop l (buf @ [b]) []"
proof -
  have "unat b < 10 ^ 3" using unsigned_less[of b, where ?'a=nat] by simp
  then have "length (dec_digits (unat b)) \<le> 3" by (intro dec_digits_length) simp_all
  then have "ip_loop (dec_digits (unat b) @ AT_DOT # l) buf []
      = ip_loop (AT_DOT # l) buf (dec_digits (unat b))"
    using ip_loop_digits[OF dec_digits_chars, of "[]" "unat b" buf "AT_DOT # l"] assms by simp
  also have "\<dots> = ip_loop l (buf @ [b]) []" using assms by (simp add: ip_number_digits)
  finally show ?thesis .
qed

lemma ip_loop_end:
  fixes b :: u8
  assumes "length buf < 4" "terminator l r over end_type"
  shows "ip_loop (dec_digits (unat b) @ l) buf []
    = Some (r, over, False, end_type, buf, dec_digits (unat b))"
proof -
  obtain c cs where l: "l = c # cs" using terminator_nonempty[OF assms(2)] by (cases l) auto
  have "unat b < 10 ^ 3" using unsigned_less[of b, where ?'a=nat] by simp
  then have "length (dec_digits (unat b)) \<le> 3" by (intro dec_digits_length) simp_all
  then have "ip_loop (dec_digits (unat b) @ l) buf [] = ip_loop l buf (dec_digits (unat b))"
    using ip_loop_digits[OF dec_digits_chars, of "[]" "unat b" buf l] assms by simp
  then show ?thesis using assms para_end_terminator[OF assms(2)] by (simp add: l del: para_end.simps)
qed

text \<open>One byte of hex data: its two digits read back.\<close>

lemma byte_nibbles: "unat (b :: u8) div 16 < 16" "unat b mod 16 < 16"
  using unsigned_less[of b, where ?'a=nat] by (simp_all add: div_less_iff_less_mult)

lemma hex_digit_facts:
  assumes "d < 16"
  shows "is_hex (hex_digit d)" "plain (hex_digit d)" "hex_to_num (hex_digit d) = int d"
proof -
  have "list_all (\<lambda>d. is_hex (hex_digit d) \<and> plain (hex_digit d) \<and> hex_to_num (hex_digit d) = int d) [0..<16]"
    by code_simp
  then show "is_hex (hex_digit d)" "plain (hex_digit d)" "hex_to_num (hex_digit d) = int d"
    using assms by (simp_all add: list_all_iff)
qed

lemma hex_byte_02X: "hex_byte (print_02X b) = b"
proof -
  have "int (unat b div 16) * 16 + int (unat b mod 16) = uint b"
    by (simp add: zdiv_int zmod_int)
  then show ?thesis by (simp add: hex_byte_def print_02X_def hex_digit_facts byte_nibbles)
qed

lemma hex_loop_digits:
  assumes "length buf < lim"
  shows "hex_loop lim (print_02X b @ l) buf [] = hex_loop lim l buf (print_02X b)"
proof -
  have p: "is_hex (hex_digit (unat b div 16))" "is_hex (hex_digit (unat b mod 16))"
    "plain (hex_digit (unat b div 16))" "plain (hex_digit (unat b mod 16))"
    using hex_digit_facts byte_nibbles by blast+
  show ?thesis unfolding print_02X_def
    by (subst hex_loop.simps, simp add: p assms para_end_plain del: para_end.simps,
        subst hex_loop.simps, simp add: p assms para_end_plain del: para_end.simps)
qed

lemma hex_loop_store:
  assumes "length buf < lim" "length buf < 64"
  shows "hex_loop lim (print_02X c @ l) buf (print_02X b) = hex_loop lim (print_02X c @ l) (buf @ [b]) []"
proof -
  have "plain (hex_digit (unat c div 16))" using hex_digit_facts byte_nibbles by blast
  then have "para_end (print_02X c @ l) = Some None" by (simp add: print_02X_def para_end_plain del: para_end.simps)
  then show ?thesis using assms by (subst hex_loop.simps) (simp add: hex_byte_02X, simp add: print_02X_def)
qed

lemma hex_loop_reads:
  assumes "terminator l r over end_type" "length buf + length bs < lim" "length buf + length bs < 64"
  shows "hex_loop lim (concat (map print_02X (bs @ [b])) @ l) buf []
    = Some (r, over, False, end_type, buf @ bs, print_02X b)"
  using assms
proof (induction bs arbitrary: buf)
  case Nil
  then have "hex_loop lim l buf (print_02X b) = Some (r, over, False, end_type, buf, print_02X b)"
    by (subst hex_loop.simps) (simp add: para_end_terminator)
  then show ?case using Nil by (simp add: hex_loop_digits)
next
  case (Cons c bs)
  obtain d ds where d: "bs @ [b] = d # ds" by (cases "bs @ [b]") auto
  have "hex_loop lim (concat (map print_02X ((c # bs) @ [b])) @ l) buf []
      = hex_loop lim (concat (map print_02X (bs @ [b])) @ l) (buf @ [c]) []"
    using Cons.prems by (simp only: append_Cons list.map concat.simps append_assoc d)
      (simp add: hex_loop_digits hex_loop_store)
  then show ?case using Cons.IH[of "buf @ [c]"] Cons.prems by simp
qed

section \<open>Parsing each type\<close>

lemma get_text_reads:
  assumes "\<forall>c\<in>set s. plain c" "s \<noteq> []" "terminator l r over et" "et AND opt \<noteq> 0"
    "length s < SIZE_LIMIT opt" "SIZE_LIMIT opt \<le> 64" "length s < length m"
  shows "get_text_para (s @ l) (Bytes m) opt
    = Some (r, over, False, Bytes (s @ 0 # drop (length s + 1) m))"
  using text_loop_reads[OF assms(1,3), of "[]" "SIZE_LIMIT opt"] assms
  by (simp add: get_text_para_def store_bytes_def wr_block_def)

lemma get_di_reads:
  assumes "0 \<le> n" "n < 2147483648" "terminator l r over et" "et AND opt \<noteq> 0"
  shows "get_di_para (print_d n @ l) (DI k) opt = Some (r, over, False, DI n)"
proof -
  have d: "print_d n = dec_digits (nat n)" using assms(1) by (simp add: print_d_def)
  have "nat n < 10 ^ 10" using assms(2) by (simp add: nat_less_iff assms(1))
  then have len: "length (dec_digits (nat n)) \<le> 10" by (intro dec_digits_length) simp_all
  have ch: "\<forall>c\<in>set (dec_digits (nat n)). is_dec c \<and> plain c"
    using dec_digits_chars by (auto simp: dec_char_def)
  have "digit_loop is_dec (print_d n @ l) [] = Some (r, over, False, et, dec_digits (nat n))"
    using digit_loop_reads[OF ch assms(3), of "[]"] len by (simp add: d)
  then show ?thesis using assms len dec_digits_nonempty by (simp add: get_di_para_def atoi_digits)
qed

lemma print_ip: "join_with AT_DOT (map (\<lambda>b. print_d (uint b)) [a, b, c, d])
  = dec_digits (unat a) @ AT_DOT # dec_digits (unat b) @ AT_DOT # dec_digits (unat c) @ AT_DOT # dec_digits (unat d)"
  by (simp add: join_with_def print_d_def)

lemma get_ip_reads:
  assumes "terminator l r over et" "et AND opt \<noteq> 0" "4 \<le> length m"
  shows "get_ip_para (join_with AT_DOT (map (\<lambda>b. print_d (uint b)) [a, b, c, d]) @ l) (Bytes m) opt
    = Some (r, over, False, Bytes ([a, b, c, d] @ drop 4 m))"
proof -
  have "ip_loop (join_with AT_DOT (map (\<lambda>b. print_d (uint b)) [a, b, c, d]) @ l) [] []
      = Some (r, over, False, et, [a, b, c], dec_digits (unat d))"
    using ip_loop_end[OF _ assms(1), of "[a, b, c]"] unfolding print_ip by (simp add: ip_loop_dot)
  then show ?thesis
    using assms by (simp add: get_ip_para_def ip_number_digits Let_def store_bytes_def wr_block_def numeral_eq_Suc)
qed

lemma get_hex_reads:
  assumes "terminator l r over et" "et AND opt \<noteq> 0" "bs \<noteq> []" "length bs \<le> SIZE_LIMIT opt"
    "SIZE_LIMIT opt \<le> 64" "SIZE_LIMIT opt \<le> length m"
  shows "get_hex_para (concat (map print_02X bs) @ l) (Bytes m) opt
    = Some (drop 1 r, over, False,
        Bytes (bs @ replicate (SIZE_LIMIT opt - length bs) 0 @ drop (SIZE_LIMIT opt) m))"
proof -
  obtain cs c where bs: "bs = cs @ [c]" using assms(3) by (cases bs rule: rev_cases) auto
  have "length (print_02X c) = 2" by (simp add: print_02X_def)
  then show ?thesis
    using hex_loop_reads[OF assms(1), of "[]" cs "SIZE_LIMIT opt" c] assms
    by (simp add: bs get_hex_para_def store_bytes_def wr_block_def hex_byte_02X)
qed

lemma get_hi_reads:
  assumes "\<forall>c\<in>set s. is_hex c" "s \<noteq> []" "length s \<le> 10" "terminator l r over et" "et AND opt \<noteq> 0"
  shows "get_hi_para (s @ l) (HI w) opt = Some (r, over, False, HI (scan_x s))"
proof -
  have "\<forall>c\<in>set s. is_hex c \<and> plain c" using assms(1) by (auto simp: is_hex_def plain_def)
  then have "digit_loop is_hex (s @ l) [] = Some (r, over, False, et, s)"
    using digit_loop_reads[OF _ assms(4), of s is_hex "[]"] assms(3) by simp
  then show ?thesis using assms by (simp add: get_hi_para_def)
qed

text \<open>\<open>param_text d s v\<close>: in the syntax of the parsers, the characters \<open>s\<close> are a value \<open>v\<close> that the descriptor \<open>d\<close>
  can take: a text of plain characters, pairs of hex digits, a number from 0 to \<open>INT_MAX\<close>, up to ten hex digits, an
  IP address.  (This is not always what \<open>at_get_value\<close> prints, see \<open>at_printed_values_rejected\<close>.)\<close>

definition param_text :: "at_para_descriptor_t \<Rightarrow> u8 list \<Rightarrow> at_var \<Rightarrow> bool" where
  "param_text d s v = (let lim = SIZE_LIMIT (pd_option d) in case (pd_pt d, pd_pvar d) of
     (APT_TEXT, Bytes m) \<Rightarrow>
       s \<noteq> [] \<and> list_all plain s \<and> 0 \<notin> set s \<and> length s < lim \<and> lim \<le> 64 \<and> length s < length m
       \<and> v = Bytes (s @ 0 # drop (length s + 1) m)
   | (APT_HEX, Bytes m) \<Rightarrow> (\<exists>bs. bs \<noteq> [] \<and> length bs \<le> lim \<and> lim \<le> 64 \<and> lim \<le> length m
       \<and> s = concat (map print_02X bs) \<and> v = Bytes (bs @ replicate (lim - length bs) 0 @ drop lim m))
   | (APT_DI, DI _) \<Rightarrow> (case v of DI n \<Rightarrow> 0 \<le> n \<and> n < 2147483648 \<and> s = print_d n | _ \<Rightarrow> False)
   | (APT_HI, HI _) \<Rightarrow> s \<noteq> [] \<and> list_all is_hex s \<and> length s \<le> 10 \<and> v = HI (scan_x s)
   | (APT_IP, Bytes m) \<Rightarrow> (case v of
       Bytes (a # b # c # e # rest) \<Rightarrow> 4 \<le> length m \<and> rest = drop 4 m
         \<and> s = join_with AT_DOT (map (\<lambda>b. print_d (uint b)) [a, b, c, e])
     | _ \<Rightarrow> False)
   | _ \<Rightarrow> False)"

text \<open>The position after a parameter: hex data moves it one character too far.\<close>

definition param_rest :: "at_para_descriptor_t \<Rightarrow> u8 list \<Rightarrow> u8 list" where
  "param_rest d r = (if pd_pt d = APT_HEX then drop 1 r else r)"

lemma get_para_reads:
  assumes "param_text d s v" "terminator l r over et" "et AND pd_option d \<noteq> 0"
  shows "get_para (s @ l) d = Some (param_rest d r, over, False, v)"
  using assms
  by (auto simp: param_text_def param_rest_def get_para_def list_all_iff get_text_reads get_di_reads get_ip_reads[simplified]
      get_hi_reads get_hex_reads Let_def split: AT_PARA_TYPE.splits at_var.splits list.splits)

lemma parameters_loop_reads:
  assumes "ts \<noteq> []" "\<forall>(d, s, v)\<in>set ts. param_text d s v"
    "\<forall>(d, s, v)\<in>set (butlast ts). AET_PARA AND pd_option d \<noteq> 0 \<and> pd_pt d \<noteq> APT_HEX"
    "AET_LINE AND pd_option (fst (last ts)) \<noteq> 0" "terminator l r True AET_LINE"
  shows "parameters_loop (join_with AT_SEPARATOR (map (fst \<circ> snd) ts) @ l) (map fst ts @ ds)
    = Some (param_rest (fst (last ts)) r, map (snd \<circ> snd) ts @ map pd_pvar ds, length ts, False)"
  using assms
proof (induction ts)
  case (Cons t ts)
  obtain d s v where t: "t = (d, s, v)" by (cases t)
  show ?case
  proof (cases "ts = []")
    case True
    then show ?thesis using Cons.prems get_para_reads[of d s v l r True AET_LINE] by (simp add: t join_with_def)
  next
    case False
    define rest where "rest = join_with AT_SEPARATOR (map (fst \<circ> snd) ts) @ l"
    have line: "join_with AT_SEPARATOR (map (fst \<circ> snd) (t # ts)) @ l = s @ AT_SEPARATOR # rest"
      using False by (cases ts) (simp_all add: t rest_def join_with_def)
    have "terminator (AT_SEPARATOR # rest) rest False AET_PARA" by (simp add: terminator_def)
    then have "get_para (s @ AT_SEPARATOR # rest) d = Some (param_rest d rest, False, False, v)"
      using Cons.prems False by (intro get_para_reads) (auto simp: t)
    moreover have "param_rest d rest = rest" using Cons.prems(3) False by (simp add: t param_rest_def)
    moreover have "parameters_loop rest (map fst ts @ ds)
        = Some (param_rest (fst (last ts)) r, map (snd \<circ> snd) ts @ map pd_pvar ds, length ts, False)"
      unfolding rest_def using Cons.prems False by (intro Cons.IH) auto
    ultimately show ?thesis unfolding line using False by (simp add: t)
  qed
qed simp

section \<open>Properties\<close>



text \<open>An integer from 0 to \<open>INT_MAX\<close> that \<open>at_get_value\<close> prints is read back by \<open>get_di_para\<close>, whatever
  of the three terminators follows it.\<close>

theorem at_di_roundtrip:
  assumes "0 \<le> n" "n < 2147483648" "terminator l r over et" "et AND opt \<noteq> 0"
  shows "\<exists>s. at_get_value old APT_DI (Some (DI n)) vsize = Some (s, 0)
    \<and> get_di_para (s @ l) (DI k) opt = Some (r, over, False, DI n)"
  using get_di_reads[OF assms] by (simp add: at_get_value_def)

lemma at_di_roundtrip_witness:
  "\<exists>s. at_get_value [] APT_DI (Some (DI 115200)) 4 = Some (s, 0)
    \<and> get_di_para (s @ [44, 49]) (DI 0) 256 = Some ([49], False, False, DI 115200)"
  using at_di_roundtrip[of 115200 "[44, 49]" "[49]" False 256 256 "[]" 4 0] by (simp add: terminator_def)

text \<open>An IP address that \<open>at_get_value\<close> prints is read back by \<open>get_ip_para\<close> into the variable's four
  bytes; what follows them in memory is not touched.\<close>

theorem at_ip_roundtrip:
  assumes "length ip = 4" "terminator l r over et" "et AND opt \<noteq> 0" "4 \<le> length m"
  shows "\<exists>s. at_get_value old APT_IP (Some (Bytes ip)) 4 = Some (s, 0)
    \<and> get_ip_para (s @ l) (Bytes m) opt = Some (r, over, False, Bytes (ip @ drop 4 m))"
proof -
  obtain a b c d where ip: "ip = [a, b, c, d]" using assms(1) by (auto simp: numeral_eq_Suc length_Suc_conv)
  have "at_get_value old APT_IP (Some (Bytes ip)) 4 = Some (join_with AT_DOT (map (\<lambda>b. print_d (uint b)) ip), 0)"
    by (simp add: at_get_value_def rd_block_def ip)
  then show ?thesis using get_ip_reads[OF assms(2-4), of a b c d] unfolding ip by blast
qed

lemma at_ip_roundtrip_witness:
  "\<exists>s. at_get_value [] APT_IP (Some (Bytes [192, 168, 51, 1])) 4 = Some (s, 0)
    \<and> get_ip_para (s @ [13, 10]) (Bytes [0, 0, 0, 0, 7]) 512 = Some ([], True, False, Bytes [192, 168, 51, 1, 7])"
  using at_ip_roundtrip[of "[192, 168, 51, 1]" "[13, 10]" "[]" True 512 512 "[0, 0, 0, 0, 7]" "[]"]
  by (simp add: terminator_def)

text \<open>Hex data is read byte by byte into a variable cleared before, but the position is one
  character too far afterwards: \<open>para++\<close> after the loop that already skipped the terminator.
  Between two parameters that is the first character of the next one.\<close>

theorem at_hex_skips_a_character:
  assumes "terminator l r over et" "et AND opt \<noteq> 0" "bs \<noteq> []" "length bs \<le> SIZE_LIMIT opt"
    "SIZE_LIMIT opt \<le> 64" "SIZE_LIMIT opt \<le> length m"
  shows "get_hex_para (concat (map print_02X bs) @ l) (Bytes m) opt
    = Some (drop 1 r, over, False,
        Bytes (bs @ replicate (SIZE_LIMIT opt - length bs) 0 @ drop (SIZE_LIMIT opt) m))"
  using get_hex_reads[OF assms] .

lemma at_hex_skips_a_character_witness:
  "get_hex_para (cstr ''A5,12'') (Bytes [9, 9]) 258 = Some (cstr ''2'', False, False, Bytes [165, 0])"
  using at_hex_skips_a_character[of "cstr '',12''" "cstr ''12''" False 256 258 "[165]" "[9, 9]"]
  by (simp add: terminator_def SIZE_LIMIT_def cstr_def print_02X_def hex_digit_def)

text \<open>What \<open>at_get_value\<close> prints is not always what the parsers accept: a negative integer stops at its
  sign, a hexadecimal integer at the \<open>x\<close> of its prefix, and hex data of two or more bytes at the
  first colon; the variable keeps its value.\<close>

theorem at_printed_values_rejected:
  assumes "n < 0" "2 \<le> length bs"
  shows "(\<exists>s. at_get_value old APT_DI (Some (DI n)) 4 = Some (s, 0)
      \<and> get_di_para (s @ l) v opt = Some (s @ l, False, True, v))
    \<and> (\<exists>s. at_get_value old APT_HI (Some (HI w)) 4 = Some (s, 0)
      \<and> get_hi_para (s @ l) v opt = Some (drop 1 s @ l, False, True, v))
    \<and> (\<exists>s p. at_get_value old APT_HEX (Some (Bytes bs)) (int (length bs)) = Some (s, 0)
      \<and> get_hex_para (s @ l) v opt = Some (p, False, True, v))"
proof (intro conjI)
  show "\<exists>s. at_get_value old APT_DI (Some (DI n)) 4 = Some (s, 0)
      \<and> get_di_para (s @ l) v opt = Some (s @ l, False, True, v)"
    using assms(1) by (simp add: at_get_value_def print_d_def get_di_para_def is_dec_def)
  show "\<exists>s. at_get_value old APT_HI (Some (HI w)) 4 = Some (s, 0)
      \<and> get_hi_para (s @ l) v opt = Some (drop 1 s @ l, False, True, v)"
    by (simp add: at_get_value_def get_hi_para_def is_hex_def)
  obtain a b cs where bs: "bs = a # b # cs" using assms(2) by (auto simp: numeral_2_eq_2 Suc_le_length_iff)
  define t where "t = AT_COLON # print_02X b @ concat (map (\<lambda>z. AT_COLON # z) (map print_02X cs))"
  have s: "at_get_value old APT_HEX (Some (Bytes bs)) (int (length bs)) = Some (print_02X a @ t, 0)"
    by (simp add: at_get_value_def rd_block_def bs join_with_def t_def nat_add_distrib)
  have "hex_loop lim (print_02X a @ t @ l) [] [] = Some (t @ l, False, \<not> lim = 1, 0, [a], [])" if "0 < lim" for lim
  proof -
    have 1: "para_end (t @ l) = Some None" by (simp add: t_def)
    have "hex_loop lim (print_02X a @ t @ l) [] [] = hex_loop lim (t @ l) [a] []"
      using that by (simp add: hex_loop_digits) (subst hex_loop.simps, simp add: 1 hex_byte_02X, simp add: print_02X_def)
    also have "\<dots> = Some (t @ l, False, \<not> lim = 1, 0, [a], [])"
      using that by (subst hex_loop.simps) (auto simp: 1, auto simp: t_def is_hex_def)
    finally show ?thesis .
  qed
  moreover have "hex_loop 0 q [] [] = Some (q, False, False, 0, [], [])" for q
    by (subst hex_loop.simps) simp
  ultimately have "\<exists>p. get_hex_para ((print_02X a @ t) @ l) v opt = Some (p, False, True, v)"
    by (cases "SIZE_LIMIT opt = 0") (simp_all add: get_hex_para_def)
  then show "\<exists>s p. at_get_value old APT_HEX (Some (Bytes bs)) (int (length bs)) = Some (s, 0)
      \<and> get_hex_para (s @ l) v opt = Some (p, False, True, v)"
    using s by blast
qed

lemma at_printed_values_rejected_witness:
  "\<exists>s. at_get_value [] APT_DI (Some (DI (- 5))) 4 = Some (s, 0)
      \<and> get_di_para (s @ [10]) (DI 1) 512 = Some (s @ [10], False, True, DI 1)"
  using at_printed_values_rejected[of "- 5" "[1, 2]" "[]" "[10]" "DI 1" 512 0] by simp

end
