(* ===== verification/AtSystem.thy ===== *)
theory AtSystem
  imports AtQueue AtParameter
begin

text \<open>
  The state of the AT command layer and what every command uses of it: the configuration
  (\<^verbatim>\<open>include/atcmd/at_config.h\<close>) and the status (\<^verbatim>\<open>include/atcmd/at_status.h\<close>), the application's
  callbacks (\<^verbatim>\<open>include/atcmd/at_command.h\<close>), formatted output and the answers
  (\<^verbatim>\<open>src/atcmd/at_common.c\<close>).
\<close>

section \<open>Configuration and status\<close>

text \<open>The members that have a descriptor; the command layer neither reads nor writes the others.\<close>

record at_config_t =
  nv_manuf :: "u8 list"
  nv_model :: "u8 list"
  nv_serial :: "u8 list"
  nv_wifi_macaddr :: "u8 list"
  wind_off_low :: u32
  wind_off_medium :: u32
  wind_off_high :: u32
  user_desc :: "u8 list"
  escape_seq :: "u8 list"
  localecho1 :: int
  console1_speed :: int
  console1_hwfc :: int
  wifi_channelnum :: int
  wifi_mode :: int
  wifi_ssid :: "u8 list"
  wifi_ssid_len :: int
  wifi_wpa_psk_text :: "u8 list"
  ip_use_dhcp :: int
  ip_ipaddr :: "u8 list"
  ip_netmask :: "u8 list"
  ip_gw :: "u8 list"
  ip_dns :: "u8 list"

record at_status_t =
  sts_wifi_num_assoc :: int
  sts_ip_ipaddr :: "u8 list"
  sts_ip_netmask :: "u8 list"
  sts_ip_gw :: "u8 list"
  sts_ip_dns :: "u8 list"
  sts_ip_sock_open :: int
  sts_ip_sockd_port :: int

section \<open>The application's callbacks\<close>

datatype AT_CALLBACK_CMD =
    ACC_ACT | ACC_RST | ACC_MODE | ACC_SAVE | ACC_LOAD | ACC_STATUS | ACC_FACTORY | ACC_PEER
  | ACC_PING | ACC_SOCKON | ACC_SOCKW | ACC_SOCKQ | ACC_SOCKR | ACC_SOCKC | ACC_SOCKD | ACC_WIFI
  | ACC_REASSOCIATE | ACC_GPIOC | ACC_GPIOR | ACC_GPIOW | ACC_SCAN

text \<open>The union of \<open>at_callback_para_t\<close>; a buffer is given by the bytes it holds up to \<open>len\<close>.\<close>

datatype at_para_u =
    U_none
  | U_ping "u8 list"
  | U_wifi int
  | U_scan int
  | U_sockon "u8 list" int int int
  | U_sockw int "u8 list"
  | U_sockq int
  | U_sockr int int
  | U_sockc int
  | U_sockd int int
  | U_mode "u8 list"

text \<open>\<open>para_cfg\<close> and \<open>para_sts\<close>: the pointer is set to \<open>at_cfg\<close>, \<open>at_sts\<close>.\<close>

record at_callback_para_t =
  para_cfg :: bool
  para_sts :: bool
  para_u :: at_para_u

record at_callback_rsp_t =
  rsp_type :: int
  rsp_vptr :: int

text \<open>
  What a call of \<open>handle_cb\<close> brings about: its return value, the response structure, the
  configuration and the status it may have written, its own output and its own state.
\<close>

record 'w cb_result =
  cr_rc :: AT_ERROR_CODE
  cr_rsp :: at_callback_rsp_t
  cr_cfg :: at_config_t
  cr_sts :: at_status_t
  cr_out :: "u8 list"
  cr_world :: 'w

type_synonym 'w handle_cb =
  "AT_CALLBACK_CMD \<Rightarrow> at_callback_para_t \<Rightarrow> at_config_t \<Rightarrow> at_status_t \<Rightarrow> 'w \<Rightarrow> 'w cb_result"

section \<open>The state\<close>

abbreviation (input) CMD_CACHE_MAX_LEN :: nat where "CMD_CACHE_MAX_LEN \<equiv> 1024"
abbreviation (input) AT_SOCKET_BUFFER_SIZE :: nat where "AT_SOCKET_BUFFER_SIZE \<equiv> 1024"
abbreviation (input) MAX_DUMP_BUFF_SIZE :: nat where "MAX_DUMP_BUFF_SIZE \<equiv> 1024"

record cmd_cache_t =
  cc_cnt :: nat
  cc_buf :: "u8 list"

text \<open>
  The globals of the layer: \<open>at_cfg\<close>, \<open>at_sts\<close>, \<open>at_callback\<close>, the queue with its refill
  callback and the source behind it, \<open>cache\<close>, the levels the GPIO pins of port A read,
  everything given to \<open>dump_cb\<close>, and the state of the application.
\<close>

record ('e, 'w) at_sys =
  at_cfg :: at_config_t
  at_sts :: at_status_t
  at_handle_cb :: "'w handle_cb option"
  at_dump_cb :: bool
  at_queue :: at_queue_t
  at_queue_cb :: "'e at_queue_callback option"
  at_source :: 'e
  at_cache :: cmd_cache_t
  at_pins :: "nat \<Rightarrow> int"
  at_out :: "u8 list"
  at_world :: 'w

text \<open>A call of \<open>at_callback.handle_cb\<close>.\<close>

definition zero_rsp :: at_callback_rsp_t where
  "zero_rsp = \<lparr>rsp_type = 0, rsp_vptr = 0\<rparr>"

definition call_cb ::
  "'w handle_cb \<Rightarrow> AT_CALLBACK_CMD \<Rightarrow> at_callback_para_t \<Rightarrow> ('e, 'w) at_sys
    \<Rightarrow> AT_ERROR_CODE \<times> at_callback_rsp_t \<times> ('e, 'w) at_sys" where
  "call_cb cb cmd para s =
     (let r = cb cmd para (at_cfg s) (at_sts s) (at_world s)
      in (cr_rc r, cr_rsp r,
          s\<lparr>at_cfg := cr_cfg r, at_sts := cr_sts r,
            at_out := at_out s @ (if at_dump_cb s then cr_out r else []), at_world := cr_world r\<rparr>))"

definition cfg_para :: "at_para_u \<Rightarrow> at_callback_para_t" where
  "cfg_para u = \<lparr>para_cfg = True, para_sts = False, para_u = u\<rparr>"

definition plain_para :: "at_para_u \<Rightarrow> at_callback_para_t" where
  "plain_para u = \<lparr>para_cfg = False, para_sts = False, para_u = u\<rparr>"

section \<open>Output and answers\<close>

text \<open>
  \<open>at_dump\<close> of a formatted text.  A text that does not fit \<open>dump_buffer\<close> runs into \<open>AT_ERR\<close>,
  whose \<open>AT_ABORT\<close> is an endless loop: \<^term>\<open>None\<close>.
\<close>

definition at_dump_text :: "u8 list \<Rightarrow> ('e, 'w) at_sys \<Rightarrow> ('e, 'w) at_sys option" where
  "at_dump_text txt s =
     (if length (c_string (take (MAX_DUMP_BUFF_SIZE - 1) txt)) < length txt then None
      else if at_dump_cb s then Some (s\<lparr>at_out := at_out s @ txt\<rparr>) else Some s)"

definition err_info :: "(AT_ERROR_CODE \<times> u8 list) list" where
  "err_info =
    [(AEC_CMD_ERROR, cstr ''Error command.''),
     (AEC_NO_PARA, cstr ''No parameter.''),
     (AEC_PARA_ERROR, cstr ''Error parameter.''),
     (AEC_UNSUPPORTED, cstr ''Unsupported.''),
     (AEC_NOT_FOUND, cstr ''Not found.''),
     (AEC_NULL_POINTER, cstr ''Null pointer.''),
     (AEC_OUT_OF_RANGE, cstr ''Out of range.''),
     (AEC_SCAN_FAIL, cstr ''Scan fail.''),
     (AEC_READ_ONLY, cstr ''Read only.''),
     (AEC_SEND_FAIL, cstr ''Send fail.''),
     (AEC_CONNECT_FAIL, cstr ''Connect fail.''),
     (AEC_BIND_FAIL, cstr ''Bind fail.''),
     (AEC_SOCKET_FAIL, cstr ''Socket fail.''),
     (AEC_LIMITED, cstr ''Limited.''),
     (AEC_DISCONNECT, cstr ''Disconnect.''),
     (AEC_NETWORK_ERROR, cstr ''Network error.''),
     (AEC_NOT_ENOUGH_MEMORY, cstr ''Not enough memory.''),
     (AEC_IMPROPER_OPERATION, cstr ''Improper operation.''),
     (AEC_UNDEFINED, cstr ''Undefined.'')]"

abbreviation (input) CRLF :: "u8 list" where "CRLF \<equiv> [13, 10]"

text \<open>The text of an answer, if the code has one.\<close>

definition response_text :: "AT_ERROR_CODE \<Rightarrow> u8 list option" where
  "response_text aec =
     (if aec = AEC_OK then Some (CRLF @ cstr ''OK'' @ CRLF)
      else map_option (\<lambda>i. CRLF @ cstr ''ERROR: '' @ i @ CRLF) (map_of err_info aec))"

definition at_response :: "AT_ERROR_CODE \<Rightarrow> ('e, 'w) at_sys \<Rightarrow> ('e, 'w) at_sys option" where
  "at_response aec s = (case response_text aec of Some t \<Rightarrow> at_dump_text t s | None \<Rightarrow> Some s)"

text \<open>The bit test of \<open>at_event\<close>; an event number below 0 shifts by a negative amount.\<close>

definition event_on :: "u32 \<Rightarrow> int \<Rightarrow> int" where
  "event_on m i = (if m AND push_bit (nat i) 1 = 0 then 1 else 0)"

definition at_event :: "int \<Rightarrow> ('e, 'w) at_sys \<Rightarrow> int option" where
  "at_event idx s =
     (if idx < 0 then None
      else if idx < 32 then Some (event_on (wind_off_low (at_cfg s)) idx)
      else if idx < 64 then Some (event_on (wind_off_medium (at_cfg s)) (idx - 32))
      else if idx < 96 then Some (event_on (wind_off_high (at_cfg s)) (idx - 64))
      else Some 0)"

record at_serial_para_t =
  sp_baudrate :: u32
  sp_hwfc :: u32

definition at_serial :: "('e, 'w) at_sys \<Rightarrow> at_serial_para_t \<times> int" where
  "at_serial s =
     (\<lparr>sp_baudrate = word_of_int (console1_speed (at_cfg s)), sp_hwfc = word_of_int (console1_hwfc (at_cfg s))\<rparr>, 0)"

definition at_act :: "('e, 'w) at_sys \<Rightarrow> AT_ERROR_CODE \<times> ('e, 'w) at_sys" where
  "at_act s =
     (case at_handle_cb s of
        None \<Rightarrow> (AEC_OK, s)
      | Some cb \<Rightarrow> (case call_cb cb ACC_ACT (cfg_para U_none) s of (_, _, s) \<Rightarrow> (AEC_OK, s)))"

text \<open>\<open>at_reset\<close> passes no parameter structure.\<close>

definition at_reset :: "('e, 'w) at_sys \<Rightarrow> (AT_ERROR_CODE \<times> ('e, 'w) at_sys) option" where
  "at_reset s =
     (case at_handle_cb s of
        None \<Rightarrow> Some (AEC_OK, s)
      | Some cb \<Rightarrow> do {
          s \<leftarrow> at_dump_text (cstr ''Reboot...'' @ CRLF) s;
          case call_cb cb ACC_RST (plain_para U_none) s of (_, _, s) \<Rightarrow> Some (AEC_OK, s)
        })"

end
