(* ===== verification/AtConfig.thy ===== *)
theory AtConfig
  imports AtSystem
begin

text \<open>
  The variables of the AT command layer: the tables of configuration, status and peer variables
  and the operations that look them up by name, \<^verbatim>\<open>src/atcmd/at_config.c\<close>,
  \<^verbatim>\<open>src/atcmd/at_status.c\<close> and \<open>at_peers\<close> of \<^verbatim>\<open>src/atcmd/at_wlan.c\<close>.
\<close>

section \<open>Descriptors\<close>

text \<open>A descriptor's pointer to a variable of a structure is the pair of reading and writing it.\<close>

record 's at_var_descriptor_t =
  vd_key :: "u8 list"
  vd_pt :: AT_PARA_TYPE
  vd_po :: AT_PARA_OPTION
  vd_get :: "'s \<Rightarrow> at_var"
  vd_put :: "at_var \<Rightarrow> 's \<Rightarrow> 's"
  vd_vsize :: int
  vd_verify :: "(at_value_t \<Rightarrow> int) option"

definition put_bytes :: "((u8 list \<Rightarrow> u8 list) \<Rightarrow> 's \<Rightarrow> 's) \<Rightarrow> at_var \<Rightarrow> 's \<Rightarrow> 's" where
  "put_bytes upd v = upd (\<lambda>old. case v of Bytes m \<Rightarrow> m | _ \<Rightarrow> old)"

definition put_di :: "((int \<Rightarrow> int) \<Rightarrow> 's \<Rightarrow> 's) \<Rightarrow> at_var \<Rightarrow> 's \<Rightarrow> 's" where
  "put_di upd v = upd (\<lambda>old. case v of DI n \<Rightarrow> n | _ \<Rightarrow> old)"

definition put_hi :: "((u32 \<Rightarrow> u32) \<Rightarrow> 's \<Rightarrow> 's) \<Rightarrow> at_var \<Rightarrow> 's \<Rightarrow> 's" where
  "put_hi upd v = upd (\<lambda>old. case v of HI w \<Rightarrow> w | _ \<Rightarrow> old)"

definition vd ::
  "string \<Rightarrow> AT_PARA_TYPE \<Rightarrow> AT_PARA_OPTION \<Rightarrow> ('s \<Rightarrow> at_var) \<Rightarrow> (at_var \<Rightarrow> 's \<Rightarrow> 's) \<Rightarrow> int
    \<Rightarrow> (at_value_t \<Rightarrow> int) option \<Rightarrow> 's at_var_descriptor_t" where
  "vd key pt po get put vsize verify =
     \<lparr>vd_key = cstr key, vd_pt = pt, vd_po = po, vd_get = get, vd_put = put, vd_vsize = vsize,
      vd_verify = verify\<rparr>"

section \<open>Range checks\<close>

definition in_range :: "int \<Rightarrow> int \<Rightarrow> at_value_t \<Rightarrow> int" where
  "in_range lo hi v = (if av_di v \<ge> lo \<and> av_di v \<le> hi then 0 else 1)"

definition localecho1_verify :: "at_value_t \<Rightarrow> int" where
  "localecho1_verify = in_range 0 1"

definition speed_tbl :: "int list" where
  "speed_tbl = [9600, 19200, 38400, 115200, 921600]"

definition console1_speed_verify :: "at_value_t \<Rightarrow> int" where
  "console1_speed_verify v = (if av_di v \<in> set speed_tbl then 0 else 1)"

definition console1_hwfc_verify :: "at_value_t \<Rightarrow> int" where
  "console1_hwfc_verify = in_range 0 1"

definition wifi_ssid_len_verify :: "at_value_t \<Rightarrow> int" where
  "wifi_ssid_len_verify = in_range 0 32"

definition wifi_mode_verify :: "at_value_t \<Rightarrow> int" where
  "wifi_mode_verify = in_range 0 3"

definition ip_use_dhcp_verify :: "at_value_t \<Rightarrow> int" where
  "ip_use_dhcp_verify = in_range 0 2"

section \<open>The tables\<close>

definition at_cfg_table :: "at_config_t at_var_descriptor_t list" where
  "at_cfg_table =
    [vd ''nv_manuf'' APT_TEXT APO_RO (\<lambda>c. Bytes (nv_manuf c)) (put_bytes nv_manuf_update) 32 None,
     vd ''nv_model'' APT_TEXT APO_RO (\<lambda>c. Bytes (nv_model c)) (put_bytes nv_model_update) 32 None,
     vd ''nv_serial'' APT_TEXT APO_RO (\<lambda>c. Bytes (nv_serial c)) (put_bytes nv_serial_update) 32 None,
     vd ''nv_wifi_macaddr'' APT_HEX APO_RO (\<lambda>c. Bytes (nv_wifi_macaddr c)) (put_bytes nv_wifi_macaddr_update) 6 None,
     vd ''wind_off_low'' APT_HI APO_RW (\<lambda>c. HI (wind_off_low c)) (put_hi wind_off_low_update) 4 None,
     vd ''wind_off_medium'' APT_HI APO_RW (\<lambda>c. HI (wind_off_medium c)) (put_hi wind_off_medium_update) 4 None,
     vd ''wind_off_high'' APT_HI APO_RW (\<lambda>c. HI (wind_off_high c)) (put_hi wind_off_high_update) 4 None,
     vd ''user_desc'' APT_TEXT APO_RW (\<lambda>c. Bytes (user_desc c)) (put_bytes user_desc_update) 64 None,
     vd ''escape_seq'' APT_TEXT APO_RW (\<lambda>c. Bytes (escape_seq c)) (put_bytes escape_seq_update) 8 None,
     vd ''localecho1'' APT_DI APO_RW (\<lambda>c. DI (localecho1 c)) (put_di localecho1_update) 4 (Some localecho1_verify),
     vd ''console1_speed'' APT_DI APO_RW (\<lambda>c. DI (console1_speed c)) (put_di console1_speed_update) 4 (Some console1_speed_verify),
     vd ''console1_hwfc'' APT_DI APO_RW (\<lambda>c. DI (console1_hwfc c)) (put_di console1_hwfc_update) 4 (Some console1_hwfc_verify),
     vd ''wifi_channelnum'' APT_DI APO_RW (\<lambda>c. DI (wifi_channelnum c)) (put_di wifi_channelnum_update) 4 None,
     vd ''wifi_mode'' APT_DI APO_RW (\<lambda>c. DI (wifi_mode c)) (put_di wifi_mode_update) 4 (Some wifi_mode_verify),
     vd ''wifi_ssid'' APT_HEX APO_RW (\<lambda>c. Bytes (wifi_ssid c)) (put_bytes wifi_ssid_update) 32 None,
     vd ''wifi_ssid_len'' APT_DI APO_RW (\<lambda>c. DI (wifi_ssid_len c)) (put_di wifi_ssid_len_update) 4 (Some wifi_ssid_len_verify),
     vd ''wifi_wpa_psk_text'' APT_TEXT APO_RW (\<lambda>c. Bytes (wifi_wpa_psk_text c)) (put_bytes wifi_wpa_psk_text_update) 64 None,
     vd ''ip_use_dhcp'' APT_DI APO_RW (\<lambda>c. DI (ip_use_dhcp c)) (put_di ip_use_dhcp_update) 4 (Some ip_use_dhcp_verify),
     vd ''ip_ipaddr'' APT_IP APO_RW (\<lambda>c. Bytes (ip_ipaddr c)) (put_bytes ip_ipaddr_update) 4 None,
     vd ''ip_netmask'' APT_IP APO_RW (\<lambda>c. Bytes (ip_netmask c)) (put_bytes ip_netmask_update) 4 None,
     vd ''ip_gw'' APT_IP APO_RW (\<lambda>c. Bytes (ip_gw c)) (put_bytes ip_gw_update) 4 None,
     vd ''ip_dns'' APT_IP APO_RW (\<lambda>c. Bytes (ip_dns c)) (put_bytes ip_dns_update) 4 None]"

definition at_sts_table :: "at_status_t at_var_descriptor_t list" where
  "at_sts_table =
    [vd ''wifi_num_assoc'' APT_DI APO_RO (\<lambda>c. DI (sts_wifi_num_assoc c)) (put_di sts_wifi_num_assoc_update) 4 None,
     vd ''ip_ipaddr'' APT_IP APO_RO (\<lambda>c. Bytes (sts_ip_ipaddr c)) (put_bytes sts_ip_ipaddr_update) 4 None,
     vd ''ip_netmask'' APT_IP APO_RO (\<lambda>c. Bytes (sts_ip_netmask c)) (put_bytes sts_ip_netmask_update) 4 None,
     vd ''ip_gw'' APT_IP APO_RO (\<lambda>c. Bytes (sts_ip_gw c)) (put_bytes sts_ip_gw_update) 4 None,
     vd ''ip_dns'' APT_IP APO_RO (\<lambda>c. Bytes (sts_ip_dns c)) (put_bytes sts_ip_dns_update) 4 None,
     vd ''ip_sock_open'' APT_DI APO_RO (\<lambda>c. DI (sts_ip_sock_open c)) (put_di sts_ip_sock_open_update) 4 None,
     vd ''ip_sockd_port'' APT_DI APO_RO (\<lambda>c. DI (sts_ip_sockd_port c)) (put_di sts_ip_sockd_port_update) 4 None]"

record at_peer_t =
  pr_link_id :: int
  pr_state :: int
  pr_addr :: "u8 list"
  pr_last_rx :: int
  pr_last_tx :: int
  pr_rx_drops :: int
  pr_tx_drops :: int
  pr_rx_pkts :: int
  pr_tx_pkts :: int
  pr_tx_errs :: int
  pr_rate_mask :: int
  pr_cur_rate_idx :: int
  pr_cur_rate_ok :: int
  pr_cur_rate_fail :: int
  pr_tx_consec_fail :: int
  pr_rx_seqnum :: u32
  pr_rx_seqnum_mc :: u32
  pr_rx_rssi :: int
  pr_rx_rateidx :: int
  pr_setprot :: int
  pr_listen_interval :: int
  pr_capinfo :: u32

definition at_peer_table :: "at_peer_t at_var_descriptor_t list" where
  "at_peer_table =
    [vd ''link_id'' APT_DI APO_RO (\<lambda>c. DI (pr_link_id c)) (put_di pr_link_id_update) 4 None,
     vd ''state'' APT_DI APO_RO (\<lambda>c. DI (pr_state c)) (put_di pr_state_update) 4 None,
     vd ''addr'' APT_HEX APO_RO (\<lambda>c. Bytes (pr_addr c)) (put_bytes pr_addr_update) 6 None,
     vd ''last_rx'' APT_DI APO_RO (\<lambda>c. DI (pr_last_rx c)) (put_di pr_last_rx_update) 4 None,
     vd ''last_tx'' APT_DI APO_RO (\<lambda>c. DI (pr_last_tx c)) (put_di pr_last_tx_update) 4 None,
     vd ''rx_drops'' APT_DI APO_RO (\<lambda>c. DI (pr_rx_drops c)) (put_di pr_rx_drops_update) 4 None,
     vd ''tx_drops'' APT_DI APO_RO (\<lambda>c. DI (pr_tx_drops c)) (put_di pr_tx_drops_update) 4 None,
     vd ''rx_pkts'' APT_DI APO_RO (\<lambda>c. DI (pr_rx_pkts c)) (put_di pr_rx_pkts_update) 4 None,
     vd ''tx_pkts'' APT_DI APO_RO (\<lambda>c. DI (pr_tx_pkts c)) (put_di pr_tx_pkts_update) 4 None,
     vd ''tx_errs'' APT_DI APO_RO (\<lambda>c. DI (pr_tx_errs c)) (put_di pr_tx_errs_update) 4 None,
     vd ''rate_mask'' APT_DI APO_RO (\<lambda>c. DI (pr_rate_mask c)) (put_di pr_rate_mask_update) 4 None,
     vd ''cur_rate_idx'' APT_DI APO_RO (\<lambda>c. DI (pr_cur_rate_idx c)) (put_di pr_cur_rate_idx_update) 4 None,
     vd ''cur_rate_ok'' APT_DI APO_RO (\<lambda>c. DI (pr_cur_rate_ok c)) (put_di pr_cur_rate_ok_update) 4 None,
     vd ''cur_rate_fail'' APT_DI APO_RO (\<lambda>c. DI (pr_cur_rate_fail c)) (put_di pr_cur_rate_fail_update) 4 None,
     vd ''tx_consec_fail'' APT_DI APO_RO (\<lambda>c. DI (pr_tx_consec_fail c)) (put_di pr_tx_consec_fail_update) 4 None,
     vd ''rx_seqnum'' APT_HI APO_RO (\<lambda>c. HI (pr_rx_seqnum c)) (put_hi pr_rx_seqnum_update) 4 None,
     vd ''rx_seqnum_mc'' APT_HI APO_RO (\<lambda>c. HI (pr_rx_seqnum_mc c)) (put_hi pr_rx_seqnum_mc_update) 4 None,
     vd ''rx_rssi'' APT_DI APO_RO (\<lambda>c. DI (pr_rx_rssi c)) (put_di pr_rx_rssi_update) 4 None,
     vd ''rx_rateidx'' APT_DI APO_RO (\<lambda>c. DI (pr_rx_rateidx c)) (put_di pr_rx_rateidx_update) 4 None,
     vd ''setprot'' APT_DI APO_RO (\<lambda>c. DI (pr_setprot c)) (put_di pr_setprot_update) 4 None,
     vd ''listen_interval'' APT_DI APO_RO (\<lambda>c. DI (pr_listen_interval c)) (put_di pr_listen_interval_update) 4 None,
     vd ''capinfo'' APT_HI APO_RO (\<lambda>c. HI (pr_capinfo c)) (put_hi pr_capinfo_update) 4 None]"

text \<open>The static variables \<open>dummy_peer\<close> and \<open>peers\<close>, which nothing writes.\<close>

definition dummy_peer :: at_peer_t where
  "dummy_peer = \<lparr>pr_link_id = 0, pr_state = 0, pr_addr = replicate 6 0, pr_last_rx = 0, pr_last_tx = 0, pr_rx_drops = 0, pr_tx_drops = 0, pr_rx_pkts = 0, pr_tx_pkts = 0, pr_tx_errs = 0, pr_rate_mask = 0, pr_cur_rate_idx = 0, pr_cur_rate_ok = 0, pr_cur_rate_fail = 0, pr_tx_consec_fail = 0, pr_rx_seqnum = 0, pr_rx_seqnum_mc = 0, pr_rx_rssi = 0, pr_rx_rateidx = 0, pr_setprot = 0, pr_listen_interval = 0, pr_capinfo = 0\<rparr>"

section \<open>Looking variables up\<close>

text \<open>A null pointer given as a name or a value is \<^term>\<open>None\<close>.\<close>

definition find_var :: "'s at_var_descriptor_t list \<Rightarrow> u8 list \<Rightarrow> 's at_var_descriptor_t option" where
  "find_var tbl key = find (\<lambda>d. c_string key = vd_key d) tbl"

text \<open>One line \<open># key = value\<close>; \<open>strbuf\<close> has 256 bytes.\<close>

definition show_var :: "'s at_var_descriptor_t \<Rightarrow> 's \<Rightarrow> ('e, 'w) at_sys \<Rightarrow> ('e, 'w) at_sys option" where
  "show_var d c s = do {
     (txt, _) \<leftarrow> at_get_value [] (vd_pt d) (Some (vd_get d c)) (vd_vsize d);
     if length txt < 256
     then at_dump_text (cstr ''# '' @ vd_key d @ cstr '' = '' @ txt @ CRLF) s
     else None
   }"

fun show_vars :: "'s at_var_descriptor_t list \<Rightarrow> 's \<Rightarrow> ('e, 'w) at_sys \<Rightarrow> ('e, 'w) at_sys option" where
  "show_vars [] c s = Some s"
| "show_vars (d # ds) c s = do { s \<leftarrow> show_var d c s; show_vars ds c s }"

definition at_getcfg :: "u8 list option \<Rightarrow> ('e, 'w) at_sys \<Rightarrow> (AT_ERROR_CODE \<times> ('e, 'w) at_sys) option" where
  "at_getcfg key s =
     (case key of
        None \<Rightarrow> Some (AEC_NULL_POINTER, s)
      | Some k \<Rightarrow>
          (case find_var at_cfg_table k of
             Some d \<Rightarrow> map_option (Pair AEC_OK) (show_var d (at_cfg s) s)
           | None \<Rightarrow> Some (AEC_NOT_FOUND, s)))"

text \<open>\<open>at_typecfg\<close> returns a parameter type or an error code, both as a number.\<close>

definition pt_code :: "AT_PARA_TYPE \<Rightarrow> int" where
  "pt_code pt = (case pt of APT_TEXT \<Rightarrow> 0 | APT_HEX \<Rightarrow> 1 | APT_DI \<Rightarrow> 2 | APT_HI \<Rightarrow> 3 | APT_IP \<Rightarrow> 4)"

definition at_typecfg :: "u8 list option \<Rightarrow> int" where
  "at_typecfg key =
     (case key of
        None \<Rightarrow> 7
      | Some k \<Rightarrow> (case find_var at_cfg_table k of Some d \<Rightarrow> pt_code (vd_pt d) | None \<Rightarrow> 6))"

definition at_setcfg ::
  "u8 list option \<Rightarrow> at_value_t option \<Rightarrow> ('e, 'w) at_sys \<Rightarrow> (AT_ERROR_CODE \<times> ('e, 'w) at_sys) option" where
  "at_setcfg key value s =
     (case (key, value) of
        (Some k, Some v) \<Rightarrow>
          (case find_var at_cfg_table k of
             None \<Rightarrow> Some (AEC_NOT_FOUND, s)
           | Some d \<Rightarrow>
               if vd_po d \<noteq> APO_RW then Some (AEC_READ_ONLY, s)
               else if (case vd_verify d of Some f \<Rightarrow> f v \<noteq> 0 | None \<Rightarrow> False)
               then Some (AEC_OUT_OF_RANGE, s)
               else do {
                 x \<leftarrow> at_set_value (vd_pt d) (vd_get d (at_cfg s)) (vd_vsize d) v;
                 Some (AEC_OK, s\<lparr>at_cfg := vd_put d x (at_cfg s)\<rparr>)
               })
      | _ \<Rightarrow> Some (AEC_NOT_FOUND, s))"

text \<open>\<open>at_ssidtxt\<close>: a name longer than the 32 bytes of \<open>wifi_ssid\<close> runs over it.\<close>

definition at_ssidtxt :: "u8 list option \<Rightarrow> ('e, 'w) at_sys \<Rightarrow> (AT_ERROR_CODE \<times> ('e, 'w) at_sys) option" where
  "at_ssidtxt ssid s =
     (case ssid of
        None \<Rightarrow> Some (AEC_NOT_FOUND, s)
      | Some t \<Rightarrow> do {
          m \<leftarrow> wr_block (replicate (length (wifi_ssid (at_cfg s))) 0) 0 (c_string t);
          Some (AEC_OK, s\<lparr>at_cfg := (at_cfg s)\<lparr>wifi_ssid := m, wifi_ssid_len := int (length (c_string t))\<rparr>\<rparr>)
        })"

definition at_config :: "('e, 'w) at_sys \<Rightarrow> (AT_ERROR_CODE \<times> ('e, 'w) at_sys) option" where
  "at_config s = map_option (Pair AEC_OK) (show_vars at_cfg_table (at_cfg s) s)"

text \<open>Calls that ignore what the application answers.\<close>

definition notify_cb ::
  "AT_CALLBACK_CMD \<Rightarrow> at_callback_para_t \<Rightarrow> ('e, 'w) at_sys \<Rightarrow> AT_ERROR_CODE \<times> ('e, 'w) at_sys" where
  "notify_cb cmd para s =
     (case at_handle_cb s of
        None \<Rightarrow> (AEC_OK, s)
      | Some cb \<Rightarrow> (case call_cb cb cmd para s of (_, _, s) \<Rightarrow> (AEC_OK, s)))"

definition at_factory :: "('e, 'w) at_sys \<Rightarrow> AT_ERROR_CODE \<times> ('e, 'w) at_sys" where
  "at_factory = notify_cb ACC_FACTORY (cfg_para U_none)"

definition at_save :: "('e, 'w) at_sys \<Rightarrow> AT_ERROR_CODE \<times> ('e, 'w) at_sys" where
  "at_save = notify_cb ACC_SAVE (cfg_para U_none)"

section \<open>Status and peers\<close>

definition at_status :: "u8 list option \<Rightarrow> ('e, 'w) at_sys \<Rightarrow> (AT_ERROR_CODE \<times> ('e, 'w) at_sys) option" where
  "at_status sts_var s =
     (let s = snd (notify_cb ACC_STATUS \<lparr>para_cfg = False, para_sts = True, para_u = U_none\<rparr> s)
      in case sts_var of
           None \<Rightarrow> map_option (Pair AEC_OK) (show_vars at_sts_table (at_sts s) s)
         | Some key \<Rightarrow>
             (case find_var at_sts_table key of
                Some d \<Rightarrow> map_option (Pair AEC_OK) (show_var d (at_sts s) s)
              | None \<Rightarrow> Some (AEC_NOT_FOUND, s)))"

definition at_setsts ::
  "u8 list option \<Rightarrow> at_value_t option \<Rightarrow> ('e, 'w) at_sys \<Rightarrow> (AT_ERROR_CODE \<times> ('e, 'w) at_sys) option" where
  "at_setsts key value s =
     (case (key, value) of
        (Some k, Some v) \<Rightarrow>
          (case find_var at_sts_table k of
             None \<Rightarrow> Some (AEC_NOT_FOUND, s)
           | Some d \<Rightarrow> do {
               x \<leftarrow> at_set_value (vd_pt d) (vd_get d (at_sts s)) (vd_vsize d) v;
               Some (AEC_OK, s\<lparr>at_sts := vd_put d x (at_sts s)\<rparr>)
             })
      | _ \<Rightarrow> Some (AEC_NULL_POINTER, s))"

text \<open>The table's pointers go to \<open>dummy_peer\<close>, whatever peer is asked for.\<close>

definition at_peer ::
  "int \<Rightarrow> at_peer_t option \<Rightarrow> u8 list option \<Rightarrow> ('e, 'w) at_sys \<Rightarrow> (AT_ERROR_CODE \<times> ('e, 'w) at_sys) option" where
  "at_peer pn peer var s =
     (case peer of
        None \<Rightarrow> Some (AEC_NULL_POINTER, s)
      | Some _ \<Rightarrow>
          (case var of
             None \<Rightarrow> map_option (Pair AEC_OK) (show_vars at_peer_table dummy_peer s)
           | Some key \<Rightarrow>
               (case find_var at_peer_table key of
                  Some d \<Rightarrow> map_option (Pair AEC_OK) (show_var d dummy_peer s)
                | None \<Rightarrow> Some (AEC_NOT_FOUND, s))))"

abbreviation (input) AT_MAX_PEER_NUM :: nat where "AT_MAX_PEER_NUM \<equiv> 5"

fun at_peers_all :: "nat \<Rightarrow> at_peer_t list \<Rightarrow> ('e, 'w) at_sys \<Rightarrow> (AT_ERROR_CODE \<times> ('e, 'w) at_sys) option" where
  "at_peers_all i [] s = Some (AEC_OK, s)"
| "at_peers_all i (p # ps) s = do {
     (aec, s) \<leftarrow> at_peer (int i) (Some p) None s;
     if aec \<noteq> AEC_OK then Some (aec, s) else at_peers_all (i + 1) ps s
   }"

definition at_peers ::
  "at_peer_t list \<Rightarrow> int \<Rightarrow> u8 list option \<Rightarrow> ('e, 'w) at_sys \<Rightarrow> (AT_ERROR_CODE \<times> ('e, 'w) at_sys) option" where
  "at_peers peers pn pv s =
     (if pn = 0 \<and> pv = None then at_peers_all 0 peers s
      else if pn \<ge> 0 \<and> pn < int AT_MAX_PEER_NUM then at_peer pn (Some (peers ! nat pn)) pv s
      else Some (AEC_PARA_ERROR, s))"

section \<open>Tables as interfaces\<close>

text \<open>The values a descriptor's variable can hold.\<close>

definition var_typed :: "AT_PARA_TYPE \<Rightarrow> at_var \<Rightarrow> bool" where
  "var_typed pt v =
     (case v of
        Bytes _ \<Rightarrow> pt = APT_TEXT \<or> pt = APT_HEX \<or> pt = APT_IP
      | DI _ \<Rightarrow> pt = APT_DI
      | HI _ \<Rightarrow> pt = APT_HI)"

text \<open>
  What the operations rely on in a table: names are unique, every variable has its declared
  type, storing a value makes it the variable's, and no other variable changes.
\<close>

locale variable_table =
  fixes tbl :: "'s at_var_descriptor_t list"
  assumes keys_distinct: "distinct (map vd_key tbl)"
    and get_typed: "d \<in> set tbl \<Longrightarrow> var_typed (vd_pt d) (vd_get d c)"
    and put_get: "d \<in> set tbl \<Longrightarrow> var_typed (vd_pt d) x \<Longrightarrow> vd_get d (vd_put d x c) = x"
    and put_other: "d \<in> set tbl \<Longrightarrow> e \<in> set tbl \<Longrightarrow> vd_key d \<noteq> vd_key e \<Longrightarrow> vd_get e (vd_put d x c) = vd_get e c"
begin

lemma found: "find_var tbl key = Some d \<Longrightarrow> d \<in> set tbl \<and> vd_key d = c_string key"
  by (auto simp: find_var_def find_Some_iff)

lemma found_iff: "d \<in> set tbl \<Longrightarrow> find_var tbl key = Some d \<longleftrightarrow> vd_key d = c_string key"
proof
  assume d: "d \<in> set tbl" and k: "vd_key d = c_string key"
  then obtain e where e: "find_var tbl key = Some e"
    by (cases "find_var tbl key") (auto simp: find_var_def find_None_iff)
  then have "e \<in> set tbl" "vd_key e = vd_key d" using found k by auto
  then show "find_var tbl key = Some d"
    using e d keys_distinct by (auto simp: distinct_map inj_on_def)
qed (use found in blast)

lemma not_found: "find_var tbl key = None \<longleftrightarrow> c_string key \<notin> vd_key ` set tbl"
  by (auto simp: find_var_def find_None_iff)

lemma set_value_typed:
  assumes "d \<in> set tbl" "at_set_value (vd_pt d) (vd_get d c) sz v = Some x"
  shows "var_typed (vd_pt d) x"
  using assms(2) by (auto simp: at_set_value_def var_typed_def bind_eq_Some_conv
      split: AT_PARA_TYPE.splits at_var.splits if_splits)

text \<open>Storing into the variable a name finds.\<close>

lemma store_found:
  assumes "find_var tbl key = Some d" "at_set_value (vd_pt d) (vd_get d c) sz v = Some x"
  shows "vd_get d (vd_put d x c) = x"
    and "e \<in> set tbl \<Longrightarrow> vd_key e \<noteq> c_string key \<Longrightarrow> vd_get e (vd_put d x c) = vd_get e c"
proof -
  have d: "d \<in> set tbl" "vd_key d = c_string key" using found[OF assms(1)] by auto
  show "vd_get d (vd_put d x c) = x" using put_get[OF d(1)] set_value_typed[OF d(1) assms(2)] by blast
  show "vd_get e (vd_put d x c) = vd_get e c" if "e \<in> set tbl" "vd_key e \<noteq> c_string key"
    using put_other[OF d(1) that(1)] that(2) d(2) by auto
qed

end

lemma vd_sel [simp]:
  "vd_key (vd k pt po g p n f) = cstr k" "vd_pt (vd k pt po g p n f) = pt" "vd_po (vd k pt po g p n f) = po"
  "vd_get (vd k pt po g p n f) = g" "vd_put (vd k pt po g p n f) = p" "vd_vsize (vd k pt po g p n f) = n"
  "vd_verify (vd k pt po g p n f) = f"
  by (simp_all add: vd_def)

lemmas put_defs = put_bytes_def put_di_def put_hi_def

lemma var_typed_simps [simp]:
  "var_typed APT_TEXT v \<longleftrightarrow> (\<exists>m. v = Bytes m)" "var_typed APT_HEX v \<longleftrightarrow> (\<exists>m. v = Bytes m)"
  "var_typed APT_IP v \<longleftrightarrow> (\<exists>m. v = Bytes m)" "var_typed APT_DI v \<longleftrightarrow> (\<exists>n. v = DI n)"
  "var_typed APT_HI v \<longleftrightarrow> (\<exists>w. v = HI w)"
  by (auto simp: var_typed_def split: at_var.splits)

interpretation cfg_vars: variable_table at_cfg_table
proof
  show "distinct (map vd_key at_cfg_table)" by code_simp
next
  fix d :: "at_config_t at_var_descriptor_t" and c
  assume "d \<in> set at_cfg_table"
  then show "var_typed (vd_pt d) (vd_get d c)"
    unfolding at_cfg_table_def by (simp only: list.set insert_iff empty_iff) (elim disjE; simp)
next
  fix d :: "at_config_t at_var_descriptor_t" and x c
  assume "d \<in> set at_cfg_table" "var_typed (vd_pt d) x"
  then show "vd_get d (vd_put d x c) = x"
    unfolding at_cfg_table_def by (simp only: list.set insert_iff empty_iff) (elim disjE; auto simp: put_defs)
next
  fix d e :: "at_config_t at_var_descriptor_t" and x c
  have "list_all (\<lambda>d. list_all (\<lambda>e. vd_key d = vd_key e \<or> (\<forall>x c. vd_get e (vd_put d x c) = vd_get e c)) at_cfg_table) at_cfg_table"
    by (simp add: at_cfg_table_def put_defs)
  moreover assume "d \<in> set at_cfg_table" "e \<in> set at_cfg_table" "vd_key d \<noteq> vd_key e"
  ultimately show "vd_get e (vd_put d x c) = vd_get e c" by (auto simp: list_all_iff)
qed

interpretation sts_vars: variable_table at_sts_table
proof
  show "distinct (map vd_key at_sts_table)" by code_simp
next
  fix d :: "at_status_t at_var_descriptor_t" and c
  assume "d \<in> set at_sts_table"
  then show "var_typed (vd_pt d) (vd_get d c)"
    unfolding at_sts_table_def by (simp only: list.set insert_iff empty_iff) (elim disjE; simp)
next
  fix d :: "at_status_t at_var_descriptor_t" and x c
  assume "d \<in> set at_sts_table" "var_typed (vd_pt d) x"
  then show "vd_get d (vd_put d x c) = x"
    unfolding at_sts_table_def by (simp only: list.set insert_iff empty_iff) (elim disjE; auto simp: put_defs)
next
  fix d e :: "at_status_t at_var_descriptor_t" and x c
  have "list_all (\<lambda>d. list_all (\<lambda>e. vd_key d = vd_key e \<or> (\<forall>x c. vd_get e (vd_put d x c) = vd_get e c)) at_sts_table) at_sts_table"
    by (simp add: at_sts_table_def put_defs)
  moreover assume "d \<in> set at_sts_table" "e \<in> set at_sts_table" "vd_key d \<noteq> vd_key e"
  ultimately show "vd_get e (vd_put d x c) = vd_get e c" by (auto simp: list_all_iff)
qed

section \<open>Well-formed configurations\<close>

text \<open>A text member: as long as declared, and terminated within it.\<close>

definition text_ok :: "nat \<Rightarrow> u8 list \<Rightarrow> bool" where
  "text_ok n m \<longleftrightarrow> length m = n \<and> 0 \<in> set m"

definition int32 :: "int \<Rightarrow> bool" where
  "int32 n \<longleftrightarrow> - 2147483648 \<le> n \<and> n < 2147483648"

definition cfg_ok :: "at_config_t \<Rightarrow> bool" where
  "cfg_ok c \<longleftrightarrow>
     text_ok 32 (nv_manuf c) \<and> text_ok 32 (nv_model c) \<and> text_ok 32 (nv_serial c) \<and>
     length (nv_wifi_macaddr c) = 6 \<and> text_ok 64 (user_desc c) \<and> text_ok 8 (escape_seq c) \<and>
     localecho1 c \<in> {0..1} \<and> console1_speed c \<in> set speed_tbl \<and> console1_hwfc c \<in> {0..1} \<and>
     int32 (wifi_channelnum c) \<and> wifi_mode c \<in> {0..3} \<and> length (wifi_ssid c) = 32 \<and> wifi_ssid_len c \<in> {0..32} \<and>
     text_ok 64 (wifi_wpa_psk_text c) \<and> ip_use_dhcp c \<in> {0..2} \<and> length (ip_ipaddr c) = 4 \<and>
     length (ip_netmask c) = 4 \<and> length (ip_gw c) = 4 \<and> length (ip_dns c) = 4"

lemma set_value_text:
  assumes "at_set_value APT_TEXT (Bytes m) sz v = Some x" "text_ok n m"
  shows "\<exists>m'. x = Bytes m' \<and> text_ok n m'"
  using assms by (auto simp: at_set_value_def text_ok_def wr_block_def split: if_splits)

lemma set_value_block:
  assumes "at_set_value pt (Bytes m) sz v = Some x" "pt = APT_HEX \<or> pt = APT_IP"
  shows "\<exists>m'. x = Bytes m' \<and> length m' = length m"
  using assms by (auto simp: at_set_value_def bind_eq_Some_conv wr_block_def split: if_splits)

lemma set_value_num:
  "at_set_value APT_DI (DI n) sz v = Some (DI (av_di v))"
  "at_set_value APT_HI (HI w) sz v = Some (HI (av_hi v))"
  by (simp_all add: at_set_value_def)

lemmas verify_defs = localecho1_verify_def console1_speed_verify_def console1_hwfc_verify_def
  wifi_ssid_len_verify_def wifi_mode_verify_def ip_use_dhcp_verify_def in_range_def

text \<open>One variable written after its check keeps the configuration well formed.\<close>

lemma put_keeps_ok:
  assumes "d \<in> set at_cfg_table" "vd_po d = APO_RW" "\<forall>f. vd_verify d = Some f \<longrightarrow> f v = 0"
    "at_set_value (vd_pt d) (vd_get d c) (vd_vsize d) v = Some x" "cfg_ok c" "int32 (av_di v)"
  shows "cfg_ok (vd_put d x c)"
  using assms(1) unfolding at_cfg_table_def
  by (simp only: list.set insert_iff empty_iff)
    (elim disjE; insert assms(2-6);
     fastforce simp: put_defs cfg_ok_def verify_defs set_value_num split: if_splits
       dest: set_value_text set_value_block)

section \<open>Printing variables\<close>

lemma dump_text_ok:
  "0 \<notin> set txt \<Longrightarrow> length txt < 1024 \<Longrightarrow>
    at_dump_text txt s = Some (s\<lparr>at_out := at_out s @ (if at_dump_cb s then txt else [])\<rparr>)"
proof -
  assume "0 \<notin> set txt" "length txt < 1024"
  moreover from this have "c_string txt = txt" by (auto simp: c_string_def takeWhile_eq_all_conv)
  ultimately show ?thesis by (simp add: at_dump_text_def)
qed

text \<open>A text of at most \<open>n\<close> characters, none of them NUL.\<close>

definition printable :: "nat \<Rightarrow> u8 list \<Rightarrow> bool" where
  "printable n txt \<longleftrightarrow> 0 \<notin> set txt \<and> length txt \<le> n"

lemma printable_mono: "printable m txt \<Longrightarrow> m \<le> n \<Longrightarrow> printable n txt"
  by (simp add: printable_def)

lemma printable_append: "printable m xs \<Longrightarrow> printable n ys \<Longrightarrow> printable (m + n) (xs @ ys)"
  by (auto simp: printable_def)

lemma print_dec: "n < 10 ^ k \<Longrightarrow> 0 < k \<Longrightarrow> printable k (dec_digits n)"
  using dec_digits_chars[of n] dec_digits_length[of n k] by (auto simp: printable_def dec_char_def)

lemma print_d_printable: "int32 n \<Longrightarrow> printable 11 (print_d n)"
proof (cases "n < 0")
  case True
  moreover assume "int32 n"
  ultimately have "printable 10 (dec_digits (nat (- n)))" by (intro print_dec) (auto simp: int32_def)
  then show ?thesis using True by (auto simp: print_d_def printable_def)
next
  case False
  moreover assume "int32 n"
  ultimately have "printable 10 (dec_digits (nat n))" by (intro print_dec) (auto simp: int32_def)
  then show ?thesis using False by (auto simp: print_d_def printable_def)
qed

lemma print_byte_printable: "printable 3 (print_d (uint (b :: u8)))"
proof -
  have "unat b < 10 ^ 3" using unsigned_less[of b, where ?'a=nat] by simp
  then have "printable 3 (dec_digits (unat b))" by (intro print_dec) simp_all
  then show ?thesis by (simp add: print_d_def)
qed

lemma hex_digit_nonzero: "d < 16 \<Longrightarrow> hex_digit d \<noteq> 0"
  using hex_digit_facts[of d] by (auto simp: is_hex_def)

lemma print_02X_printable: "printable 2 (print_02X b)"
  using byte_nibbles[of b] hex_digit_nonzero by (auto simp: printable_def print_02X_def)

lemma print_08X_printable: "printable 8 (print_08X w)"
  using hex_digit_nonzero by (force simp: printable_def print_08X_def)

lemma join_printable:
  assumes "\<forall>x\<in>set xs. printable k x" "sep \<noteq> 0"
  shows "printable ((k + 1) * length xs) (join_with sep xs)"
proof -
  have "printable ((k + 1) * length ys) (concat (map (\<lambda>z. sep # z) ys))" if "set ys \<subseteq> set xs" for ys
    using that assms by (induction ys) (fastforce simp: printable_def)+
  then show ?thesis using assms
    by (cases xs) (fastforce simp: join_with_def printable_def)+
qed

lemma c_string_printable: "0 \<in> set m \<Longrightarrow> length m \<le> n + 1 \<Longrightarrow> printable n (c_string m)"
proof -
  assume "0 \<in> set m" "length m \<le> n + 1"
  moreover from this(1) obtain a b where "m = a @ 0 # b" "0 \<notin> set a" by (meson split_list_first)
  ultimately show ?thesis by (simp add: printable_def)
qed

text \<open>The value of a well-formed variable prints as a short text.\<close>

definition prints :: "AT_PARA_TYPE \<Rightarrow> at_var \<Rightarrow> int \<Rightarrow> bool" where
  "prints pt v sz \<longleftrightarrow> (\<exists>txt. at_get_value [] pt (Some v) sz = Some (txt, 0) \<and> printable 255 txt)"

lemma prints_text: "text_ok n m \<Longrightarrow> n \<le> 64 \<Longrightarrow> prints APT_TEXT (Bytes m) sz"
  using printable_mono[OF c_string_printable, of m 63 255]
  by (auto simp: prints_def at_get_value_def text_ok_def)

lemma prints_hex:
  assumes "int (length m) = sz" "0 < sz" "sz \<le> 32"
  shows "prints APT_HEX (Bytes m) sz"
proof -
  have "printable ((2 + 1) * length (map print_02X m)) (join_with AT_COLON (map print_02X m))"
    by (intro join_printable) (auto simp: print_02X_printable)
  moreover have "(2 + 1) * length (map print_02X m) \<le> 255" using assms by simp
  ultimately have "printable 255 (join_with AT_COLON (map print_02X m))" by (rule printable_mono)
  then show ?thesis using assms by (auto simp: prints_def at_get_value_def rd_block_def)
qed

lemma prints_ip:
  assumes "length m = 4"
  shows "prints APT_IP (Bytes m) 4"
proof -
  have "printable ((3 + 1) * length (map (\<lambda>b. print_d (uint b)) m)) (join_with AT_DOT (map (\<lambda>b. print_d (uint b)) m))"
    by (intro join_printable) (auto simp: print_byte_printable)
  moreover have "(3 + 1) * length (map (\<lambda>b. print_d (uint b)) m) \<le> 255" using assms by simp
  ultimately have "printable 255 (join_with AT_DOT (map (\<lambda>b. print_d (uint b)) m))" by (rule printable_mono)
  then show ?thesis using assms by (auto simp: prints_def at_get_value_def rd_block_def)
qed

lemma prints_di: "int32 n \<Longrightarrow> prints APT_DI (DI n) sz"
  using printable_mono[OF print_d_printable] by (auto simp: prints_def at_get_value_def)

lemma prints_hi: "prints APT_HI (HI w) sz"
  using printable_append[of 2 "[48, 120]", OF _ print_08X_printable[of w]] printable_mono[of 10 _ 255]
  by (auto simp: prints_def at_get_value_def printable_def)

lemma prints_speed: "n \<in> set speed_tbl \<Longrightarrow> prints APT_DI (DI n) sz"
  by (intro prints_di) (auto simp: speed_tbl_def int32_def)

lemma cfg_prints:
  assumes "d \<in> set at_cfg_table" "cfg_ok c"
  shows "prints (vd_pt d) (vd_get d c) (vd_vsize d)"
  using assms(1) unfolding at_cfg_table_def
  by (simp only: list.set insert_iff empty_iff)
    (elim disjE; insert assms(2);
     simp add: cfg_ok_def prints_text prints_hex prints_ip prints_hi prints_di prints_speed int32_def
       prints_text[where n=32] prints_text[where n=64] prints_text[where n=8])

lemma cfg_keys: "d \<in> set at_cfg_table \<Longrightarrow> printable 20 (vd_key d)"
proof -
  have "list_all (\<lambda>d. list_all (\<lambda>c. c \<noteq> 0) (vd_key d) \<and> length (vd_key d) \<le> 20) at_cfg_table" by code_simp
  then show "d \<in> set at_cfg_table \<Longrightarrow> printable 20 (vd_key d)" by (auto simp: list_all_iff printable_def)
qed

text \<open>The line a variable is shown with.\<close>

definition var_line :: "'s at_var_descriptor_t \<Rightarrow> 's \<Rightarrow> u8 list" where
  "var_line d c =
     (case at_get_value [] (vd_pt d) (Some (vd_get d c)) (vd_vsize d) of
        Some (txt, _) \<Rightarrow> cstr ''# '' @ vd_key d @ cstr '' = '' @ txt @ CRLF
      | None \<Rightarrow> [])"

definition dumped :: "('e, 'w) at_sys \<Rightarrow> u8 list \<Rightarrow> ('e, 'w) at_sys" where
  "dumped s txt = s\<lparr>at_out := at_out s @ (if at_dump_cb s then txt else [])\<rparr>"

lemma dumped_simps [simp]:
  "at_cfg (dumped s t) = at_cfg s" "at_sts (dumped s t) = at_sts s" "at_dump_cb (dumped s t) = at_dump_cb s"
  "dumped (dumped s t) u = dumped s (t @ u)" "dumped s [] = s"
  by (simp_all add: dumped_def)

lemma show_var_cfg:
  assumes "d \<in> set at_cfg_table" "cfg_ok c"
  shows "show_var d c s = Some (dumped s (var_line d c))"
proof -
  obtain tx where t: "at_get_value [] (vd_pt d) (Some (vd_get d c)) (vd_vsize d) = Some (tx, 0)" "printable 255 tx"
    using cfg_prints[OF assms] by (auto simp: prints_def)
  have "length (vd_key d) \<le> 20" "0 \<notin> set (vd_key d)" using cfg_keys[OF assms(1)] by (auto simp: printable_def)
  moreover have "0 \<notin> set (cstr ''# '')" "0 \<notin> set (cstr '' = '')" by (auto simp: cstr_def)
  ultimately have "at_dump_text (cstr ''# '' @ vd_key d @ cstr '' = '' @ tx @ CRLF) s
      = Some (dumped s (cstr ''# '' @ vd_key d @ cstr '' = '' @ tx @ CRLF))"
    unfolding dumped_def using t(2) by (intro dump_text_ok) (auto simp: printable_def)
  then show ?thesis using t by (auto simp: show_var_def var_line_def printable_def)
qed

lemma show_vars_cfg:
  assumes "set ds \<subseteq> set at_cfg_table" "cfg_ok c"
  shows "show_vars ds c s = Some (dumped s (concat (map (\<lambda>d. var_line d c) ds)))"
  using assms by (induction ds arbitrary: s) (auto simp: show_var_cfg)

section \<open>Properties\<close>

text \<open>A value as the command line gives it (the union has 64 bytes), and a text that fits its variable with the NUL.\<close>

definition value_ok :: "at_value_t \<Rightarrow> bool" where
  "value_ok v \<longleftrightarrow> length (av_bytes v) = 64 \<and> int32 (av_di v)"

definition text_fits :: "'s at_var_descriptor_t \<Rightarrow> at_value_t \<Rightarrow> bool" where
  "text_fits d v \<longleftrightarrow>
     (vd_pt d = APT_TEXT \<longrightarrow> 0 \<in> set (av_bytes v) \<and> int (length (c_string (av_bytes v))) < vd_vsize d)"

text \<open>The variable has the value: a text up to its NUL, data and addresses byte by byte, numbers as they are.\<close>

definition shows_value :: "AT_PARA_TYPE \<Rightarrow> at_var \<Rightarrow> at_value_t \<Rightarrow> bool" where
  "shows_value pt x v =
     (case (pt, x) of
        (APT_TEXT, Bytes m) \<Rightarrow> 0 \<in> set m \<and> c_string m = c_string (av_bytes v)
      | (APT_HEX, Bytes m) \<Rightarrow> m = take (length m) (av_bytes v)
      | (APT_IP, Bytes m) \<Rightarrow> m = take 4 (av_bytes v)
      | (APT_DI, DI n) \<Rightarrow> n = av_di v
      | (APT_HI, HI w) \<Rightarrow> w = av_hi v
      | _ \<Rightarrow> False)"

lemma set_text:
  assumes "text_ok n m" "0 \<in> set (av_bytes v)" "length (c_string (av_bytes v)) < n"
  shows "\<exists>x. at_set_value APT_TEXT (Bytes m) sz v = Some x \<and> shows_value APT_TEXT x v"
proof -
  obtain a b where ab: "av_bytes v = a @ 0 # b" "0 \<notin> set a" using assms(2) by (meson split_list_first)
  then show ?thesis using assms by (auto simp: at_set_value_def wr_block_def shows_value_def text_ok_def)
qed

lemma set_block:
  assumes "length m = n" "sz = int n" "n \<le> 64" "length (av_bytes v) = 64"
  shows "\<exists>x. at_set_value APT_HEX (Bytes m) sz v = Some x \<and> shows_value APT_HEX x v"
    and "n = 4 \<Longrightarrow> \<exists>x. at_set_value APT_IP (Bytes m) sz v = Some x \<and> shows_value APT_IP x v"
  using assms by (auto simp: at_set_value_def rd_block_def wr_block_def shows_value_def)

lemma set_num:
  "\<exists>x. at_set_value APT_DI (DI n) sz v = Some x \<and> shows_value APT_DI x v"
  "\<exists>x. at_set_value APT_HI (HI w) sz v = Some x \<and> shows_value APT_HI x v"
  by (simp_all add: at_set_value_def shows_value_def)

lemma set_var_ok:
  assumes "d \<in> set at_cfg_table" "cfg_ok c" "value_ok v" "text_fits d v"
  shows "\<exists>x. at_set_value (vd_pt d) (vd_get d c) (vd_vsize d) v = Some x \<and> shows_value (vd_pt d) x v"
  using assms(1) unfolding at_cfg_table_def
  by (simp only: list.set insert_iff empty_iff)
    (elim disjE; insert assms(2-4); simp add: cfg_ok_def value_ok_def text_fits_def set_num set_block
      set_text[where n=32] set_text[where n=64] set_text[where n=8])

lemma setcfg_writes:
  assumes "find_var at_cfg_table k = Some d" "vd_po d = APO_RW" "\<forall>f. vd_verify d = Some f \<longrightarrow> f v = 0"
    "cfg_ok (at_cfg s)" "value_ok v" "text_fits d v"
  obtains x where "at_setcfg (Some k) (Some v) s = Some (AEC_OK, s\<lparr>at_cfg := vd_put d x (at_cfg s)\<rparr>)"
    "at_set_value (vd_pt d) (vd_get d (at_cfg s)) (vd_vsize d) v = Some x" "shows_value (vd_pt d) x v"
    "cfg_ok (vd_put d x (at_cfg s))"
proof -
  have d: "d \<in> set at_cfg_table" using cfg_vars.found[OF assms(1)] by blast
  obtain x where x: "at_set_value (vd_pt d) (vd_get d (at_cfg s)) (vd_vsize d) v = Some x" "shows_value (vd_pt d) x v"
    using set_var_ok[OF d assms(4-6)] by blast
  moreover have "at_setcfg (Some k) (Some v) s = Some (AEC_OK, s\<lparr>at_cfg := vd_put d x (at_cfg s)\<rparr>)"
    using assms(1-3) x(1) by (auto simp: at_setcfg_def split: option.splits)
  ultimately show ?thesis using that put_keeps_ok[OF d assms(2,3) x(1) assms(4)] assms(5) by (simp add: value_ok_def)
qed

text \<open>C30. Setting a configuration variable keeps the configuration well formed (members keep their sizes, texts stay
  terminated, every checked number stays in its range): whatever name and value are given, \<open>at_setcfg\<close> returns, an
  error leaves everything as it was, and what is stored is well formed.  The one thing asked of the caller is that
  the text for a writable text variable is shorter than the variable; see \<open>at_setcfg_text_overflow\<close> for the others.\<close>

theorem at_setcfg_keeps_ok:
  assumes "cfg_ok (at_cfg s)" "\<forall>v. value = Some v \<longrightarrow> value_ok v"
    and "\<forall>k v d. key = Some k \<and> value = Some v \<and> find_var at_cfg_table k = Some d \<and> vd_po d = APO_RW \<longrightarrow> text_fits d v"
  shows "\<exists>rc s'. at_setcfg key value s = Some (rc, s') \<and> cfg_ok (at_cfg s') \<and> s' = s\<lparr>at_cfg := at_cfg s'\<rparr>
    \<and> rc \<in> {AEC_OK, AEC_NOT_FOUND, AEC_READ_ONLY, AEC_OUT_OF_RANGE} \<and> (rc \<noteq> AEC_OK \<longrightarrow> s' = s)"
proof (cases "\<exists>k v d. key = Some k \<and> value = Some v \<and> find_var at_cfg_table k = Some d \<and> vd_po d = APO_RW
    \<and> (\<forall>f. vd_verify d = Some f \<longrightarrow> f v = 0)")
  case True
  then obtain k v d where kv: "key = Some k" "value = Some v" "find_var at_cfg_table k = Some d" "vd_po d = APO_RW"
    "\<forall>f. vd_verify d = Some f \<longrightarrow> f v = 0" by blast
  have "value_ok v" "text_fits d v" using assms(2,3) kv(1-4) by blast+
  from setcfg_writes[OF kv(3-5) assms(1) this] obtain x where
    "at_setcfg key value s = Some (AEC_OK, s\<lparr>at_cfg := vd_put d x (at_cfg s)\<rparr>)" "cfg_ok (vd_put d x (at_cfg s))"
    using kv(1,2) by metis
  then show ?thesis by simp
next
  case False
  then have "\<exists>rc. at_setcfg key value s = Some (rc, s) \<and> rc \<in> {AEC_NOT_FOUND, AEC_READ_ONLY, AEC_OUT_OF_RANGE}"
    by (auto simp: at_setcfg_def split: option.splits)
  then obtain rc where "at_setcfg key value s = Some (rc, s)" "rc \<in> {AEC_NOT_FOUND, AEC_READ_ONLY, AEC_OUT_OF_RANGE}" by blast
  then show ?thesis using assms(1) by simp
qed

text \<open>C29. What was set is what is shown.  A value that its variable's check accepts (and, for a text, that fits) is
  stored under the name of a writable variable with \<open>AEC_OK\<close>: the variable then has that value, every other variable
  and everything outside the configuration is as before, and \<open>at_getcfg\<close> of the same name prints the new value and
  changes nothing but the output.\<close>

theorem at_setcfg_getcfg:
  assumes "find_var at_cfg_table k = Some d" "vd_po d = APO_RW" "\<forall>f. vd_verify d = Some f \<longrightarrow> f v = 0"
    and "cfg_ok (at_cfg s)" "value_ok v" "text_fits d v"
  shows "\<exists>s'. at_setcfg (Some k) (Some v) s = Some (AEC_OK, s') \<and> s' = s\<lparr>at_cfg := at_cfg s'\<rparr>
    \<and> shows_value (vd_pt d) (vd_get d (at_cfg s')) v
    \<and> (\<forall>e\<in>set at_cfg_table. vd_key e \<noteq> c_string k \<longrightarrow> vd_get e (at_cfg s') = vd_get e (at_cfg s))
    \<and> at_getcfg (Some k) s' = Some (AEC_OK, dumped s' (var_line d (at_cfg s')))"
proof -
  obtain x where x: "at_setcfg (Some k) (Some v) s = Some (AEC_OK, s\<lparr>at_cfg := vd_put d x (at_cfg s)\<rparr>)"
    "at_set_value (vd_pt d) (vd_get d (at_cfg s)) (vd_vsize d) v = Some x" "shows_value (vd_pt d) x v"
    "cfg_ok (vd_put d x (at_cfg s))" using setcfg_writes[OF assms] .
  let ?s = "s\<lparr>at_cfg := vd_put d x (at_cfg s)\<rparr>"
  have d: "d \<in> set at_cfg_table" using cfg_vars.found[OF assms(1)] by blast
  have "at_getcfg (Some k) ?s = Some (AEC_OK, dumped ?s (var_line d (at_cfg ?s)))"
    using show_var_cfg[OF d, of "at_cfg ?s"] x(4) assms(1) by (simp add: at_getcfg_def)
  then show ?thesis using cfg_vars.store_found[OF assms(1) x(2)] x(1,3) by (intro exI[of _ ?s]) auto
qed

text \<open>A well-formed configuration can always be dumped: \<open>at_config\<close> returns and prints one line for
  every variable of the table, in its order.\<close>

theorem at_config_dumps:
  assumes "cfg_ok (at_cfg s)"
  shows "at_config s = Some (AEC_OK, dumped s (concat (map (\<lambda>d. var_line d (at_cfg s)) at_cfg_table)))"
  using show_vars_cfg[OF subset_refl assms] by (simp add: at_config_def)

text \<open>A text that does not fit its variable is not refused: \<open>strcpy\<close> runs past the member.  The
  command line's limit is 63 characters, \<open>escape_seq\<close> has room for 7.\<close>

theorem at_setcfg_text_overflow:
  assumes "find_var at_cfg_table k = Some d" "vd_pt d = APT_TEXT" "vd_po d = APO_RW" "vd_verify d = None"
    "vd_get d (at_cfg s) = Bytes m" "length m \<le> length (c_string (av_bytes v))"
  shows "at_setcfg (Some k) (Some v) s = None"
  using assms by (simp add: at_setcfg_def at_set_value_def wr_block_def)

text \<open>\<open>at_ssidtxt\<close> sets name and length, clearing the rest of the member, exactly when the name has
  at most 32 characters; a longer one (the command line allows 63) is copied past the member.\<close>

theorem at_ssidtxt_sets:
  assumes "cfg_ok (at_cfg s)"
  shows "at_ssidtxt (Some t) s =
    (let n = c_string t
     in if length n \<le> 32
        then Some (AEC_OK, s\<lparr>at_cfg := (at_cfg s)\<lparr>wifi_ssid := n @ replicate (32 - length n) 0, wifi_ssid_len := int (length n)\<rparr>\<rparr>)
        else None)"
  using assms by (simp add: at_ssidtxt_def wr_block_def cfg_ok_def Let_def)

section \<open>Examples\<close>

text \<open>The factory configuration of the demo and an idle system.\<close>

definition pad :: "nat \<Rightarrow> string \<Rightarrow> u8 list" where
  "pad n t = cstr t @ replicate (n - length t) 0"

definition demo_cfg :: at_config_t where
  "demo_cfg =
     \<lparr>nv_manuf = pad 32 ''XRADIO'', nv_model = pad 32 ''serial-to-wifi'', nv_serial = pad 32 ''01234567'',
      nv_wifi_macaddr = [0, 1, 2, 3, 4, 5], wind_off_low = 0, wind_off_medium = 0, wind_off_high = 0,
      user_desc = pad 64 ''XRADIO-AP'', escape_seq = pad 8 ''at+s.'', localecho1 = 0,
      console1_speed = 115200, console1_hwfc = 0, wifi_channelnum = 6, wifi_mode = 1,
      wifi_ssid = pad 32 ''iot-ap'', wifi_ssid_len = 6, wifi_wpa_psk_text = pad 64 '''',
      ip_use_dhcp = 1, ip_ipaddr = [192, 168, 0, 123], ip_netmask = [255, 255, 255, 0],
      ip_gw = [192, 168, 0, 1], ip_dns = [192, 168, 0, 1]\<rparr>"

definition demo_sts :: at_status_t where
  "demo_sts = \<lparr>sts_wifi_num_assoc = 0, sts_ip_ipaddr = [0, 0, 0, 0], sts_ip_netmask = [0, 0, 0, 0],
     sts_ip_gw = [0, 0, 0, 0], sts_ip_dns = [0, 0, 0, 0], sts_ip_sock_open = 0, sts_ip_sockd_port = 0\<rparr>"

definition demo_sys :: "serial_priv \<Rightarrow> 'w \<Rightarrow> (serial_priv, 'w) at_sys" where
  "demo_sys e w = \<lparr>at_cfg = demo_cfg, at_sts = demo_sts, at_handle_cb = None, at_dump_cb = True,
     at_queue = demo_queue, at_queue_cb = Some serial_read, at_source = e,
     at_cache = \<lparr>cc_cnt = 0, cc_buf = replicate 1024 0\<rparr>, at_pins = (\<lambda>_. 0), at_out = [], at_world = w\<rparr>"

lemma demo_cfg_ok: "cfg_ok demo_cfg"
  by (simp add: cfg_ok_def demo_cfg_def text_ok_def pad_def speed_tbl_def int32_def)

lemma demo_sys_sel [simp]: "at_cfg (demo_sys e w) = demo_cfg" "at_dump_cb (demo_sys e w)"
  by (simp_all add: demo_sys_def)

definition demo :: "(serial_priv, unit) at_sys" where
  "demo = demo_sys (serial_priv_zero 0 True) ()"

lemma demo_sel [simp]: "at_cfg demo = demo_cfg" "at_dump_cb demo"
  by (simp_all add: demo_def)

lemma wifi_mode_entry:
  "find_var at_cfg_table (cstr ''wifi_mode'') = Some (vd ''wifi_mode'' APT_DI APO_RW (\<lambda>c. DI (wifi_mode c))
     (put_di wifi_mode_update) 4 (Some wifi_mode_verify))"
proof -
  have "c_string (cstr ''wifi_mode'') = cstr ''wifi_mode''" by code_simp
  then show ?thesis by (subst cfg_vars.found_iff) (simp_all add: at_cfg_table_def)
qed

lemma escape_seq_entry:
  "find_var at_cfg_table (cstr ''escape_seq'') = Some (vd ''escape_seq'' APT_TEXT APO_RW
      (\<lambda>c. Bytes (escape_seq c)) (put_bytes escape_seq_update) 8 None)"
proof -
  have "c_string (cstr ''escape_seq'') = cstr ''escape_seq''" by code_simp
  then show ?thesis by (subst cfg_vars.found_iff) (simp_all add: at_cfg_table_def)
qed

lemma text_value: "c_string (pad 64 ''+++'') = cstr ''+++''" "0 \<in> set (pad 64 ''+++'')" "length (pad 64 ''+++'') = 64"
  by (simp_all add: pad_def cstr_def c_string_def)

text \<open>A mode out of its range is refused; a new escape sequence is stored and shown.\<close>

lemma at_setcfg_keeps_ok_witness:
  "\<exists>rc s'. at_setcfg (Some (cstr ''wifi_mode'')) (Some \<lparr>av_bytes = 7 # replicate 63 0, av_di = 7, av_hi = 7\<rparr>) demo = Some (rc, s')
    \<and> rc \<noteq> AEC_OK \<and> s' = demo"
proof -
  let ?v = "\<lparr>av_bytes = 7 # replicate 63 0, av_di = 7, av_hi = 7\<rparr> :: at_value_t"
  have "at_setcfg (Some (cstr ''wifi_mode'')) (Some ?v) demo = Some (AEC_OUT_OF_RANGE, demo)"
    by (simp add: at_setcfg_def wifi_mode_entry verify_defs)
  then show ?thesis
    using at_setcfg_keeps_ok[of demo "Some ?v" "Some (cstr ''wifi_mode'')"] demo_cfg_ok
    by (simp add: wifi_mode_entry value_ok_def text_fits_def int32_def)
qed

lemma at_setcfg_getcfg_witness:
  "\<exists>s'. at_setcfg (Some (cstr ''escape_seq'')) (Some \<lparr>av_bytes = pad 64 ''+++'', av_di = 0, av_hi = 0\<rparr>) demo = Some (AEC_OK, s')
    \<and> c_string (escape_seq (at_cfg s')) = cstr ''+++'' \<and> wifi_mode (at_cfg s') = 1
    \<and> at_getcfg (Some (cstr ''escape_seq'')) s' = Some (AEC_OK, dumped s' (cstr ''# escape_seq = +++'' @ CRLF))"
proof -
  let ?v = "\<lparr>av_bytes = pad 64 ''+++'', av_di = 0, av_hi = 0\<rparr> :: at_value_t"
  obtain s' where s': "at_setcfg (Some (cstr ''escape_seq'')) (Some ?v) demo = Some (AEC_OK, s')"
      "shows_value APT_TEXT (Bytes (escape_seq (at_cfg s'))) ?v"
      "\<forall>e\<in>set at_cfg_table. vd_key e \<noteq> c_string (cstr ''escape_seq'') \<longrightarrow> vd_get e (at_cfg s') = vd_get e (at_cfg demo)"
      "at_getcfg (Some (cstr ''escape_seq'')) s' = Some (AEC_OK, dumped s' (var_line (vd ''escape_seq'' APT_TEXT APO_RW
        (\<lambda>c. Bytes (escape_seq c)) (put_bytes escape_seq_update) 8 None) (at_cfg s')))"
    using at_setcfg_getcfg[OF escape_seq_entry, of ?v demo] demo_cfg_ok text_value
    by (auto simp: value_ok_def text_fits_def int32_def cstr_def)
  have e: "0 \<in> set (escape_seq (at_cfg s'))" "c_string (escape_seq (at_cfg s')) = cstr ''+++''"
    using s'(2) text_value(1) by (simp_all add: shows_value_def)
  have "wifi_mode (at_cfg s') = 1"
  proof -
    have "vd ''wifi_mode'' APT_DI APO_RW (\<lambda>c. DI (wifi_mode c)) (put_di wifi_mode_update) 4 (Some wifi_mode_verify) \<in> set at_cfg_table"
      by (simp add: at_cfg_table_def)
    moreover have "cstr ''wifi_mode'' \<noteq> c_string (cstr ''escape_seq'')" by code_simp
    ultimately show ?thesis using s'(3) by (force simp: demo_cfg_def)
  qed
  then show ?thesis using s'(1,4) e by (simp add: var_line_def at_get_value_def cstr_def)
qed

lemma at_config_dumps_witness: "\<exists>t. at_config demo = Some (AEC_OK, dumped demo t)"
  using at_config_dumps[of demo] demo_cfg_ok by auto

lemma at_setcfg_text_overflow_witness:
  "at_setcfg (Some (cstr ''escape_seq''))
     (Some \<lparr>av_bytes = pad 64 ''12345678'', av_di = 0, av_hi = 0\<rparr>) demo = None"
proof -
  from at_setcfg_text_overflow[OF escape_seq_entry, of demo "pad 8 ''at+s.''"] show ?thesis
    by (simp add: demo_cfg_def pad_def cstr_def c_string_def)
qed

lemma at_ssidtxt_sets_witness:
  "at_ssidtxt (Some (replicate 33 65)) demo = None"
proof -
  have "c_string (replicate 33 65) = replicate 33 65" by code_simp
  then show ?thesis using at_ssidtxt_sets[of demo "replicate 33 65"] demo_cfg_ok by (simp add: Let_def)
qed

end
