(* ===== verification/AtSocket.thy ===== *)
theory AtSocket
  imports AtConfig
begin

text \<open>
  The commands that hand work to the application: sockets (\<^verbatim>\<open>src/atcmd/at_socket.c\<close>), Wi-Fi
  (\<^verbatim>\<open>src/atcmd/at_wlan.c\<close>) and the data mode (\<open>at_mode\<close>, \<^verbatim>\<open>src/atcmd/at_common.c\<close>).
  Waiting for bytes of the serial line is a loop that need not end: \<^term>\<open>None\<close>.
\<close>

section \<open>Reading the line\<close>

definition sys_get :: "('e, 'w) at_sys \<Rightarrow> AT_QUEUE_ERROR_CODE \<times> u8 option \<times> ('e, 'w) at_sys" where
  "sys_get s =
     (case at_queue_get (at_queue_cb s) (at_queue s) (at_source s) of
        (q, e, rc, x) \<Rightarrow> (rc, x, s\<lparr>at_queue := q, at_source := e\<rparr>))"

definition sys_peek :: "('e, 'w) at_sys \<Rightarrow> AT_QUEUE_ERROR_CODE \<times> u8 option \<times> ('e, 'w) at_sys" where
  "sys_peek s =
     (case at_queue_peek (at_queue_cb s) (at_queue s) (at_source s) of
        (q, e, rc, x) \<Rightarrow> (rc, x, s\<lparr>at_queue := q, at_source := e\<rparr>))"

section \<open>Sockets\<close>

text \<open>\<open>%02d\<close>\<close>

definition print_02d :: "int \<Rightarrow> u8 list" where
  "print_02d n = (let t = print_d n in if length t < 2 then 48 # t else t)"

text \<open>\<open>strcmp\<close> of two C strings.\<close>

definition str_eq :: "u8 list \<Rightarrow> string \<Rightarrow> bool" where
  "str_eq m t \<longleftrightarrow> c_string m = cstr t"

text \<open>A protocol that is neither \<open>t\<close> nor \<open>u\<close> leaves the 0 of \<open>memset\<close>.\<close>

definition protocol_code :: "u8 list \<Rightarrow> int" where
  "protocol_code p = (if str_eq p ''t'' then 0 else if str_eq p ''u'' then 1 else 0)"

definition at_sockon ::
  "u8 list \<Rightarrow> int \<Rightarrow> u8 list \<Rightarrow> u8 list \<Rightarrow> ('e, 'w) at_sys \<Rightarrow> (AT_ERROR_CODE \<times> ('e, 'w) at_sys) option" where
  "at_sockon hostname port protocol ind s =
     (case at_handle_cb s of
        None \<Rightarrow> Some (AEC_UNDEFINED, s)
      | Some cb \<Rightarrow>
          (case call_cb cb ACC_SOCKON
                  (plain_para (U_sockon (take (AT_PARA_MAX_SIZE - 1) (c_string hostname)) port
                     (protocol_code protocol) (if str_eq ind ''ind'' then 1 else 0))) s of
             (aec, rsp, s) \<Rightarrow>
               if aec = AEC_OK \<and> rsp_type rsp = 0
               then map_option (Pair aec)
                      (at_dump_text (cstr ''ID: '' @ print_02d (rsp_vptr rsp) @ CRLF) s)
               else Some (aec, s)))"

text \<open>\<open>n\<close> bytes, each waited for.\<close>

partial_function (option) sock_fill ::
  "nat \<Rightarrow> u8 list \<Rightarrow> ('e, 'w) at_sys \<Rightarrow> (u8 list \<times> ('e, 'w) at_sys) option" where
  "sock_fill n acc s =
     (if n = 0 then Some (acc, s)
      else case sys_get s of
             (rc, x, s) \<Rightarrow>
               if rc = AQEC_OK
               then (case x of Some b \<Rightarrow> sock_fill (n - 1) (acc @ [b]) s | None \<Rightarrow> None)
               else sock_fill n acc s)"

text \<open>\<open>strtol\<close> of the identifier is the conversion \<^const>\<open>at_atoi\<close> does.\<close>

partial_function (option) sockw_loop ::
  "int \<Rightarrow> int \<Rightarrow> ('e, 'w) at_sys \<Rightarrow> (AT_ERROR_CODE \<times> ('e, 'w) at_sys) option" where
  "sockw_loop sid len s =
     (if len > 0
      then let rlen = min len (int AT_SOCKET_BUFFER_SIZE)
           in do {
             (buf, s) \<leftarrow> sock_fill (nat rlen) [] s;
             (case at_handle_cb s of
                None \<Rightarrow> sockw_loop sid (len - rlen) s
              | Some cb \<Rightarrow>
                  (case call_cb cb ACC_SOCKW (plain_para (U_sockw sid buf)) s of
                     (aec, _, s) \<Rightarrow>
                       if aec \<noteq> AEC_OK then Some (AEC_SEND_FAIL, s)
                       else sockw_loop sid (len - rlen) s))
           }
      else Some (AEC_OK, s))"

declare sock_fill.simps [code] sockw_loop.simps [code]

definition at_sockw :: "u8 list \<Rightarrow> int \<Rightarrow> ('e, 'w) at_sys \<Rightarrow> (AT_ERROR_CODE \<times> ('e, 'w) at_sys) option" where
  "at_sockw sid len s = sockw_loop (at_atoi sid) len s"

definition at_sockq :: "u8 list \<Rightarrow> ('e, 'w) at_sys \<Rightarrow> (AT_ERROR_CODE \<times> ('e, 'w) at_sys) option" where
  "at_sockq sid s =
     (case at_handle_cb s of
        None \<Rightarrow> Some (AEC_UNDEFINED, s)
      | Some cb \<Rightarrow>
          (case call_cb cb ACC_SOCKQ (plain_para (U_sockq (at_atoi sid))) s of
             (aec, rsp, s) \<Rightarrow>
               if aec = AEC_OK \<and> rsp_type rsp = 0
               then map_option (Pair aec)
                      (at_dump_text (cstr ''DATALEN: '' @ print_d (rsp_vptr rsp) @ CRLF) s)
               else Some (aec, s)))"

definition at_sockr :: "u8 list \<Rightarrow> int \<Rightarrow> ('e, 'w) at_sys \<Rightarrow> AT_ERROR_CODE \<times> ('e, 'w) at_sys" where
  "at_sockr sid len = notify_cb ACC_SOCKR (plain_para (U_sockr (at_atoi sid) len))"

definition at_sockc :: "u8 list \<Rightarrow> ('e, 'w) at_sys \<Rightarrow> AT_ERROR_CODE \<times> ('e, 'w) at_sys" where
  "at_sockc sid s =
     (case at_handle_cb s of
        None \<Rightarrow> (AEC_UNDEFINED, s)
      | Some cb \<Rightarrow>
          (case call_cb cb ACC_SOCKC (plain_para (U_sockc (at_atoi sid))) s of (aec, _, s) \<Rightarrow> (aec, s)))"

definition at_sockd :: "int \<Rightarrow> u8 list \<Rightarrow> ('e, 'w) at_sys \<Rightarrow> AT_ERROR_CODE \<times> ('e, 'w) at_sys" where
  "at_sockd port protocol = notify_cb ACC_SOCKD (plain_para (U_sockd port (protocol_code protocol)))"

section \<open>Wi-Fi\<close>

definition at_ping :: "u8 list \<Rightarrow> ('e, 'w) at_sys \<Rightarrow> (AT_ERROR_CODE \<times> ('e, 'w) at_sys) option" where
  "at_ping hostname s =
     (if length (c_string hostname) < AT_PARA_MAX_SIZE
      then Some (notify_cb ACC_PING (plain_para (U_ping (c_string hostname))) s) else None)"

definition at_wifi :: "int \<Rightarrow> ('e, 'w) at_sys \<Rightarrow> AT_ERROR_CODE \<times> ('e, 'w) at_sys" where
  "at_wifi v = notify_cb ACC_WIFI (cfg_para (U_wifi v))"

definition at_reassociate :: "('e, 'w) at_sys \<Rightarrow> AT_ERROR_CODE \<times> ('e, 'w) at_sys" where
  "at_reassociate = notify_cb ACC_REASSOCIATE (cfg_para U_none)"

definition at_scan ::
  "u8 list option \<Rightarrow> u8 list option \<Rightarrow> ('e, 'w) at_sys \<Rightarrow> AT_ERROR_CODE \<times> ('e, 'w) at_sys" where
  "at_scan mode rep s =
     (case (mode, rep) of
        (None, None) \<Rightarrow> notify_cb ACC_SCAN (cfg_para (U_scan 0)) s
      | (Some m, Some r) \<Rightarrow>
          if str_eq m ''a'' \<and> str_eq r ''r'' then notify_cb ACC_SCAN (cfg_para (U_scan 1)) s
          else if str_eq m ''p'' \<and> str_eq r ''r'' then notify_cb ACC_SCAN (cfg_para (U_scan 2)) s
          else (AEC_PARA_ERROR, s)
      | _ \<Rightarrow> (AEC_PARA_ERROR, s))"

section \<open>Data mode\<close>

text \<open>The bytes that are there, up to the size of the buffer.\<close>

fun mode_fill :: "nat \<Rightarrow> u8 list \<Rightarrow> ('e, 'w) at_sys \<Rightarrow> (u8 list \<times> ('e, 'w) at_sys) option" where
  "mode_fill 0 acc s = Some (acc, s)"
| "mode_fill (Suc n) acc s =
     (case sys_get s of
        (rc, x, s) \<Rightarrow>
          if rc = AQEC_OK
          then (case x of Some b \<Rightarrow> mode_fill n (acc @ [b]) s | None \<Rightarrow> None)
          else Some (acc, s))"

text \<open>\<open>strncmp\<close> over the first \<open>n\<close> characters, both arrays having as many.\<close>

definition strn_eq :: "nat \<Rightarrow> u8 list \<Rightarrow> u8 list \<Rightarrow> bool" where
  "strn_eq n a b \<longleftrightarrow> take n (c_string a) = take n (c_string b)"

text \<open>\<open>elen\<close> is the length the escape sequence had when the data mode was entered.\<close>

definition is_escape :: "nat \<Rightarrow> u8 list \<Rightarrow> u8 list \<Rightarrow> bool" where
  "is_escape elen esc buf \<longleftrightarrow>
     length buf > 2 \<and> length buf \<ge> elen \<and> length buf \<le> elen + 2 \<and> strn_eq elen esc buf"

partial_function (option) mode_loop ::
  "'w handle_cb \<Rightarrow> nat \<Rightarrow> ('e, 'w) at_sys \<Rightarrow> ('e, 'w) at_sys option" where
  "mode_loop cb elen s = do {
     (buf, s) \<leftarrow> mode_fill AT_SOCKET_BUFFER_SIZE [] s;
     if is_escape elen (escape_seq (at_cfg s)) buf
     then at_dump_text (cstr ''Exit data mode.'' @ CRLF) s
     else (case call_cb cb ACC_MODE (plain_para (U_mode buf)) s of
             (aec, _, s) \<Rightarrow>
               if aec \<noteq> AEC_OK then at_dump_text (cstr ''Exit data mode.'' @ CRLF) s
               else mode_loop cb elen s)
   }"

declare mode_loop.simps [code]

definition at_mode :: "('e, 'w) at_sys \<Rightarrow> (AT_ERROR_CODE \<times> ('e, 'w) at_sys) option" where
  "at_mode s =
     (case at_handle_cb s of
        None \<Rightarrow> Some (AEC_OK, s)
      | Some cb \<Rightarrow>
          if 0 \<notin> set (escape_seq (at_cfg s)) then None
          else do {
            let elen = length (c_string (escape_seq (at_cfg s)));
            s \<leftarrow> at_dump_text (cstr ''Enter data mode.'' @ CRLF) s;
            s \<leftarrow> mode_loop cb elen s;
            Some (AEC_OK, s)
          })"

section \<open>A line over the serial driver\<close>

text \<open>The bytes not read yet, and a layer that reads them from a started driver.\<close>

definition unread :: "(serial_priv, 'w) at_sys \<Rightarrow> u8 list" where
  "unread s = q_contents (at_queue s) @ concat (chunks (at_source s))"

definition line_ready :: "(serial_priv, 'w) at_sys \<Rightarrow> bool" where
  "line_ready s \<longleftrightarrow> q_inv (at_queue s) \<and> serial_ready (at_source s) \<and> at_queue_cb s = Some serial_read"

text \<open>Reading touches nothing but queue and driver.\<close>

definition line_moved :: "('e, 'w) at_sys \<Rightarrow> ('e, 'w) at_sys \<Rightarrow> bool" where
  "line_moved s s' \<longleftrightarrow> (\<exists>q e. s' = s\<lparr>at_queue := q, at_source := e\<rparr>)"

lemma line_moved_sel:
  assumes "line_moved s s'"
  shows "at_cfg s' = at_cfg s" "at_sts s' = at_sts s" "at_handle_cb s' = at_handle_cb s"
    "at_dump_cb s' = at_dump_cb s" "at_queue_cb s' = at_queue_cb s" "at_cache s' = at_cache s"
    "at_pins s' = at_pins s" "at_out s' = at_out s" "at_world s' = at_world s"
  using assms by (auto simp: line_moved_def)

lemma line_moved_trans: "line_moved s t \<Longrightarrow> line_moved t u \<Longrightarrow> line_moved s u"
  by (force simp: line_moved_def)

lemma line_moved_refl [simp]: "line_moved s s"
  unfolding line_moved_def by (intro exI[of _ "at_queue s"] exI[of _ "at_source s"]) simp

lemma sys_get_ready:
  assumes "line_ready s" "unread s = b # r"
  obtains s' where "sys_get s = (AQEC_OK, Some b, s')" "line_ready s'" "unread s' = r" "line_moved s s'"
proof -
  from assms obtain q1 e1 where g: "at_queue_get (Some serial_read) (at_queue s) (at_source s) = (q1, e1, AQEC_OK, Some b)"
    "q_inv q1" "serial_ready e1" "q_contents q1 @ concat (chunks e1) = r"
    using at_queue_get_ready[of "at_queue s" "at_source s" b r] by (auto simp: line_ready_def unread_def)
  then show ?thesis
    using assms(1) by (intro that[of "s\<lparr>at_queue := q1, at_source := e1\<rparr>"])
      (auto simp: sys_get_def line_ready_def unread_def line_moved_def)
qed

lemma sys_peek_ready:
  assumes "line_ready s" "unread s = b # r"
  obtains s' where "sys_peek s = (AQEC_OK, Some b, s')" "line_ready s'" "unread s' = b # r" "line_moved s s'"
proof -
  from assms obtain q1 e1 where g: "at_queue_peek (Some serial_read) (at_queue s) (at_source s) = (q1, e1, AQEC_OK, Some b)"
    "q_inv q1" "serial_ready e1" "q_contents q1 @ concat (chunks e1) = b # r"
    using at_queue_peek_ready[of "at_queue s" "at_source s" b r] by (auto simp: line_ready_def unread_def)
  then show ?thesis
    using assms(1) by (intro that[of "s\<lparr>at_queue := q1, at_source := e1\<rparr>"])
      (auto simp: sys_peek_def line_ready_def unread_def line_moved_def)
qed

section \<open>Waiting for socket data\<close>

lemma sock_fill_reads:
  assumes "line_ready s" "n \<le> length (unread s)"
  shows "\<exists>s'. sock_fill n acc s = Some (acc @ take n (unread s), s') \<and> line_ready s'
    \<and> unread s' = drop n (unread s) \<and> line_moved s s'"
  using assms
proof (induction n arbitrary: acc s)
  case 0
  then show ?case by (subst sock_fill.simps) auto
next
  case (Suc n)
  then obtain b r where br: "unread s = b # r" by (cases "unread s") auto
  obtain s1 where g: "sys_get s = (AQEC_OK, Some b, s1)" "line_ready s1" "unread s1 = r" "line_moved s s1"
    using sys_get_ready[OF Suc.prems(1) br] .
  have "\<exists>s'. sock_fill n (acc @ [b]) s1 = Some ((acc @ [b]) @ take n (unread s1), s') \<and> line_ready s'
    \<and> unread s' = drop n (unread s1) \<and> line_moved s1 s'"
    using Suc.prems g br by (intro Suc.IH) auto
  then show ?case using g br line_moved_trans[OF g(4)] by (subst sock_fill.simps) auto
qed

lemma sockw_reads:
  fixes s :: "(serial_priv, 'a) at_sys"
  assumes "line_ready s" "at_handle_cb s = Some cb" "0 < n" "n \<le> 1024" "n \<le> length (unread s)"
  shows "\<exists>s1. line_ready s1 \<and> unread s1 = drop n (unread s) \<and> line_moved s s1
    \<and> at_sockw sid (int n) s =
        (case call_cb cb ACC_SOCKW (plain_para (U_sockw (at_atoi sid) (take n (unread s)))) s1 of
           (aec, _, s2) \<Rightarrow> Some (if aec = AEC_OK then AEC_OK else AEC_SEND_FAIL, s2))"
proof -
  obtain s1 where s1: "sock_fill n [] s = Some (take n (unread s), s1)" "line_ready s1"
    "unread s1 = drop n (unread s)" "line_moved s s1"
    using sock_fill_reads[OF assms(1,5), of "[]"] by auto
  have "at_handle_cb s1 = Some cb" using line_moved_sel(3)[OF s1(4)] assms(2) by simp
  moreover have "sockw_loop (at_atoi sid) 0 t = Some (AEC_OK, t)" for t :: "(serial_priv, 'a) at_sys"
    by (subst sockw_loop.simps) simp
  ultimately have "at_sockw sid (int n) s =
        (case call_cb cb ACC_SOCKW (plain_para (U_sockw (at_atoi sid) (take n (unread s)))) s1 of
           (aec, _, s2) \<Rightarrow> Some (if aec = AEC_OK then AEC_OK else AEC_SEND_FAIL, s2))"
    using assms(3,4) s1(1)
    by (subst at_sockw_def, subst sockw_loop.simps) (simp add: min_def split: prod.split)
  then show ?thesis using s1 by blast
qed

text \<open>Data for a socket (up to one buffer): \<open>at_sockw\<close> returns, hands exactly the next \<open>n\<close> bytes of the
  line to the application, in order, and leaves the rest of the line unread; a refusal of the
  application is \<open>AEC_SEND_FAIL\<close>.\<close>

theorem at_sockw_sends:
  fixes s :: "(serial_priv, 'a) at_sys"
  assumes "line_ready s" "at_handle_cb s = Some cb" "0 < n" "n \<le> 1024" "n \<le> length (unread s)"
  shows "\<exists>s1. line_ready s1 \<and> unread s1 = drop n (unread s) \<and> line_moved s s1
    \<and> at_sockw sid (int n) s =
        (case call_cb cb ACC_SOCKW (plain_para (U_sockw (at_atoi sid) (take n (unread s)))) s1 of
           (aec, _, s2) \<Rightarrow> Some (if aec = AEC_OK then AEC_OK else AEC_SEND_FAIL, s2))"
  using sockw_reads[OF assms] .

text \<open>An application that answers every call with \<open>AEC_OK\<close> and keeps a list of the calls, and a system
  whose driver has received the three bytes \<open>AT<CR>\<close>.\<close>

definition log_cb :: "(AT_CALLBACK_CMD \<times> at_para_u) list handle_cb" where
  "log_cb cmd para c st w =
     \<lparr>cr_rc = AEC_OK, cr_rsp = zero_rsp, cr_cfg = c, cr_sts = st, cr_out = [], cr_world = w @ [(cmd, para_u para)]\<rparr>"

definition demo_one :: "(serial_priv, (AT_CALLBACK_CMD \<times> at_para_u) list) at_sys" where
  "demo_one = (demo_sys serial_one [])\<lparr>at_handle_cb := Some log_cb\<rparr>"

lemma demo_one_ready: "line_ready demo_one" "unread demo_one = [65, 84, 13]"
  using serial_one_ready demo_queue_inv
  by (simp_all add: line_ready_def unread_def demo_one_def demo_sys_def)

lemma at_sockw_sends_witness:
  "\<exists>s. at_sockw [48] 2 demo_one = Some (AEC_OK, s) \<and> unread s = [13]
    \<and> at_world s = [(ACC_SOCKW, U_sockw 0 [65, 84])]"
proof -
  have cb: "at_handle_cb demo_one = Some log_cb" by (simp add: demo_one_def)
  have id: "at_atoi [48] = 0" by code_simp
  obtain s1 where s1: "unread s1 = [13]" "line_moved demo_one s1"
    "at_sockw [48] 2 demo_one = (case call_cb log_cb ACC_SOCKW (plain_para (U_sockw 0 [65, 84])) s1 of
       (aec, _, s2) \<Rightarrow> Some (if aec = AEC_OK then AEC_OK else AEC_SEND_FAIL, s2))"
    using at_sockw_sends[OF demo_one_ready(1) cb, of 2 "[48]"] by (auto simp: demo_one_ready(2) id)
  have "at_world s1 = []" using line_moved_sel(9)[OF s1(2)] by (simp add: demo_one_def demo_sys_def)
  then show ?thesis using s1 by (simp add: call_cb_def log_cb_def Let_def plain_para_def unread_def)
qed

end
