(* ===== verification/AtCommand.thy ===== *)
theory AtCommand
  imports AtSocket
begin

text \<open>
  The AT command interpreter, \<^verbatim>\<open>src/atcmd/at_command.c\<close>: collecting a command line from the
  serial line, finding the command, the handler of every command in the table, and the answer.
  A handler is given the position in the command line after the command's name.
\<close>

type_synonym ('e, 'w) at_handler = "u8 list \<Rightarrow> ('e, 'w) at_sys \<Rightarrow> (AT_ERROR_CODE \<times> ('e, 'w) at_sys) option"

abbreviation (input) AT_EQU :: u8 where "AT_EQU \<equiv> 61"
abbreviation (input) AT_CMD_MAX_SIZE :: nat where "AT_CMD_MAX_SIZE \<equiv> 32"

section \<open>Parameters of a handler\<close>

text \<open>A descriptor of the handler's own structure, with its default value.\<close>

definition text_para :: "u8 list \<Rightarrow> nat \<Rightarrow> u32 \<Rightarrow> at_para_descriptor_t" where
  "text_para dflt sz et =
     \<lparr>pd_pt = APT_TEXT, pd_pvar = Bytes (dflt @ replicate (sz - length dflt) 0),
      pd_option = et OR of_nat (SIZE_LIMIT (of_nat sz))\<rparr>"

definition di_para :: "int \<Rightarrow> u32 \<Rightarrow> at_para_descriptor_t" where
  "di_para dflt et = \<lparr>pd_pt = APT_DI, pd_pvar = DI dflt, pd_option = et OR 4\<rparr>"

definition var_bytes :: "at_var \<Rightarrow> u8 list" where
  "var_bytes v = (case v of Bytes m \<Rightarrow> m | _ \<Rightarrow> [])"

definition var_di :: "at_var \<Rightarrow> int" where
  "var_di v = (case v of DI n \<Rightarrow> n | _ \<Rightarrow> 0)"

text \<open>The handlers of commands without parameters.\<close>

definition without_parameters ::
  "u8 list \<Rightarrow> ('e, 'w) at_sys \<Rightarrow> (('e, 'w) at_sys \<Rightarrow> (AT_ERROR_CODE \<times> ('e, 'w) at_sys) option)
    \<Rightarrow> (AT_ERROR_CODE \<times> ('e, 'w) at_sys) option" where
  "without_parameters ptr s op = do {
     (_, _, _, res) \<leftarrow> at_get_parameters ptr [] 0;
     if res \<noteq> AEC_OK then Some (AEC_PARA_ERROR, s) else op s
   }"

text \<open>
  What the handlers with parameters share after the \<open>=\<close> is skipped: \<open>at_get_parameters\<close>, then
  \<open>op\<close> on the position, the variables and \<open>paracnt\<close>.
\<close>

definition with_parameters ::
  "u8 list \<Rightarrow> at_para_descriptor_t list \<Rightarrow> ('e, 'w) at_sys
    \<Rightarrow> (u8 list \<Rightarrow> at_var list \<Rightarrow> int \<Rightarrow> (AT_ERROR_CODE \<times> ('e, 'w) at_sys) option)
    \<Rightarrow> (AT_ERROR_CODE \<times> ('e, 'w) at_sys) option" where
  "with_parameters ptr list s op = do {
     (ptr, vs, paracnt, res) \<leftarrow> at_get_parameters ptr list 0;
     if res \<noteq> AEC_OK then Some (AEC_PARA_ERROR, s) else op ptr vs paracnt
   }"

definition equ_parameters ::
  "u8 list \<Rightarrow> at_para_descriptor_t list \<Rightarrow> ('e, 'w) at_sys
    \<Rightarrow> (u8 list \<Rightarrow> at_var list \<Rightarrow> int \<Rightarrow> (AT_ERROR_CODE \<times> ('e, 'w) at_sys) option)
    \<Rightarrow> (AT_ERROR_CODE \<times> ('e, 'w) at_sys) option" where
  "equ_parameters ptr list s op =
     (case ptr of
        [] \<Rightarrow> None
      | c # cs \<Rightarrow> if c \<noteq> AT_EQU then Some (AEC_NO_PARA, s) else with_parameters cs list s op)"

section \<open>The command table\<close>

definition at_command_table :: "(string \<times> string) list" where
  "at_command_table =
    [(''AT'', '' -- Null cmd, always returns OK''),
     (''AT+ACT'', '' -- Switch WiFi work mode''),
     (''AT+RST'', '' -- Reset the module''),
     (''AT+S.HELP'', '' -- This text''),
     (''AT+S.GCFG'', '' =<key> -- Get config key''),
     (''AT+S.SCFG'', '' =<key>,<value> -- Set config key''),
     (''AT+S.SSIDTXT'', '' [=<ssidtxt>] -- Set a textual SSID (not hex), otherwise prints current SSID''),
     (''AT&V'', '' -- Dump all settings''),
     (''AT&F'', '' -- Restore factory default settings''),
     (''AT&W'', '' -- Save current settings to flash''),
     (''AT+S.STS'', '' [=<sts_var>] -- Report current status/statistics''),
     (''AT+S.PING'', '' =<hostname> -- Send a ping to a specified host''),
     (''AT+S.SOCKON'', '' =<hostname>,<port>,<t|u> -- Open a network socket''),
     (''AT+S.SOCKW'', '' =<id>,<len> -- Write data to socket''),
     (''AT+S.SOCKQ'', '' =<id> -- Query socket for pending data''),
     (''AT+S.SOCKR'', '' =<id>,<len> -- Read data from socket''),
     (''AT+S.SOCKC'', '' =<id> -- Close socket''),
     (''AT+S.SOCKD'', '' =<0|port>,<t|u> -- Disable/Enable socket server. Default is TCP''),
     (''AT+S.'', '' -- Switch to data mode''),
     (''AT+S.WIFI'', '' =<0|1> -- Disable/Enable WiFi''),
     (''AT+S.ROAM'', '' -- Trigger a WiFi Roam''),
     (''AT+S.SCAN'', '' -- Perform a scan''),
     (''AT+S.GPIOD'', '' -- dump GPIOs'')]"

fun help_lines :: "(string \<times> string) list \<Rightarrow> ('e, 'w) at_sys \<Rightarrow> ('e, 'w) at_sys option" where
  "help_lines [] s = Some s"
| "help_lines ((cmd, usage) # cs) s = do {
     s \<leftarrow> at_dump_text (cstr ''# '' @ cstr cmd @ cstr usage @ CRLF) s;
     help_lines cs s
   }"

definition at_help :: "('e, 'w) at_sys \<Rightarrow> (AT_ERROR_CODE \<times> ('e, 'w) at_sys) option" where
  "at_help s = map_option (Pair AEC_OK) (help_lines at_command_table s)"

fun match_from :: "nat \<Rightarrow> u8 list \<Rightarrow> (string \<times> string) list \<Rightarrow> int" where
  "match_from i cmd [] = -1"
| "match_from i cmd ((c, _) # cs) = (if c_string cmd = cstr c then int i else match_from (i + 1) cmd cs)"

definition at_match :: "u8 list option \<Rightarrow> int" where
  "at_match cmd = (case cmd of None \<Rightarrow> -2 | Some c \<Rightarrow> match_from 0 c at_command_table)"

section \<open>Handlers without parameters\<close>

definition attention_handler :: "('e, 'w) at_handler" where
  "attention_handler ptr s = do {
     (_, _, _, res) \<leftarrow> at_get_parameters ptr [] 0;
     Some (res, s)
   }"

definition act_handler :: "('e, 'w) at_handler" where
  "act_handler ptr s = without_parameters ptr s (\<lambda>s. Some (at_act s))"

definition reset_handler :: "('e, 'w) at_handler" where
  "reset_handler ptr s = without_parameters ptr s (\<lambda>s. at_reset s)"

definition help_handler :: "('e, 'w) at_handler" where
  "help_handler ptr s = without_parameters ptr s (\<lambda>s. at_help s)"

definition config_handler :: "('e, 'w) at_handler" where
  "config_handler ptr s = without_parameters ptr s (\<lambda>s. at_config s)"

definition factory_handler :: "('e, 'w) at_handler" where
  "factory_handler ptr s = without_parameters ptr s (\<lambda>s. Some (at_factory s))"

definition save_handler :: "('e, 'w) at_handler" where
  "save_handler ptr s = without_parameters ptr s (\<lambda>s. Some (at_save s))"

definition mode_handler :: "('e, 'w) at_handler" where
  "mode_handler ptr s = without_parameters ptr s (\<lambda>s. at_mode s)"

definition reassociate_handler :: "('e, 'w) at_handler" where
  "reassociate_handler ptr s = without_parameters ptr s (\<lambda>s. Some (at_reassociate s))"

section \<open>Configuration and status\<close>

definition getcfg_handler :: "('e, 'w) at_handler" where
  "getcfg_handler ptr s =
     equ_parameters ptr [text_para [] 64 AET_LINE] s (\<lambda>_ vs paracnt.
       if paracnt \<noteq> 1 then Some (AEC_PARA_ERROR, s) else at_getcfg (Some (var_bytes (vs ! 0))) s)"

text \<open>The members of the union, all at its start: the integers are its first four bytes.\<close>

definition le32 :: "u8 list \<Rightarrow> u32" where
  "le32 m = word_of_int (uint (m ! 0) + 256 * uint (m ! 1) + 65536 * uint (m ! 2) + 16777216 * uint (m ! 3))"

definition le_bytes :: "u32 \<Rightarrow> u8 list" where
  "le_bytes w = map (\<lambda>i. ucast (drop_bit (8 * i) w)) [0..<4]"

definition value_of_bytes :: "u8 list \<Rightarrow> at_value_t" where
  "value_of_bytes m = \<lparr>av_bytes = m, av_di = sint (le32 m), av_hi = le32 m\<rparr>"

definition value_of_var :: "at_var \<Rightarrow> at_value_t" where
  "value_of_var v =
     (case v of
        Bytes m \<Rightarrow> value_of_bytes m
      | DI n \<Rightarrow> \<lparr>av_bytes = le_bytes (word_of_int n) @ replicate 60 0, av_di = n, av_hi = word_of_int n\<rparr>
      | HI w \<Rightarrow> \<lparr>av_bytes = le_bytes w @ replicate 60 0, av_di = sint w, av_hi = w\<rparr>)"

text \<open>\<open>cmd_value_list\<close>, its variables being the members of \<open>config_value\<close> after \<open>memset\<close>.\<close>

definition cmd_value_list :: "at_para_descriptor_t list" where
  "cmd_value_list =
    [\<lparr>pd_pt = APT_TEXT, pd_pvar = Bytes (replicate 64 0), pd_option = AET_LINE OR 64\<rparr>,
     \<lparr>pd_pt = APT_HEX, pd_pvar = Bytes (replicate 64 0), pd_option = AET_LINE OR 64\<rparr>,
     \<lparr>pd_pt = APT_DI, pd_pvar = DI 0, pd_option = AET_LINE OR 4\<rparr>,
     \<lparr>pd_pt = APT_HI, pd_pvar = HI 0, pd_option = AET_LINE OR 4\<rparr>,
     \<lparr>pd_pt = APT_IP, pd_pvar = Bytes (replicate 64 0), pd_option = AET_LINE OR 4\<rparr>]"

definition setcfg_handler :: "('e, 'w) at_handler" where
  "setcfg_handler ptr s =
     equ_parameters ptr [text_para [] 64 AET_PARA] s (\<lambda>ptr ks paracnt.
       if paracnt \<noteq> 1 then Some (AEC_PARA_ERROR, s)
       else let key = var_bytes (ks ! 0); ty = at_typecfg (Some key)
            in (case find (\<lambda>d. pt_code (pd_pt d) = ty) cmd_value_list of
                  None \<Rightarrow> Some (AEC_NOT_FOUND, s)
                | Some d \<Rightarrow>
                    with_parameters ptr [d] s (\<lambda>_ vs paracnt.
                      if paracnt \<noteq> 1 then Some (AEC_PARA_ERROR, s)
                      else at_setcfg (Some key) (Some (value_of_var (vs ! 0))) s)))"

definition ssidtxt_handler :: "('e, 'w) at_handler" where
  "ssidtxt_handler ptr s =
     equ_parameters ptr [text_para [] 64 AET_LINE] s (\<lambda>_ vs paracnt.
       if paracnt \<noteq> 1 then Some (AEC_PARA_ERROR, s) else at_ssidtxt (Some (var_bytes (vs ! 0))) s)"

definition status_handler :: "('e, 'w) at_handler" where
  "status_handler ptr s = do {
     c \<leftarrow> rd ptr 0;
     if c \<noteq> AT_EQU then without_parameters ptr s (at_status None)
     else with_parameters (drop 1 ptr) [text_para [] 64 AET_LINE] s (\<lambda>_ vs paracnt.
       if paracnt \<noteq> 1 then Some (AEC_PARA_ERROR, s) else at_status (Some (var_bytes (vs ! 0))) s)
   }"

section \<open>Network\<close>

definition ping_handler :: "('e, 'w) at_handler" where
  "ping_handler ptr s =
     equ_parameters ptr [text_para [] 64 AET_LINE] s (\<lambda>_ vs paracnt.
       if paracnt \<noteq> 1 then Some (AEC_PARA_ERROR, s) else at_ping (var_bytes (vs ! 0)) s)"

definition sockon_handler :: "('e, 'w) at_handler" where
  "sockon_handler ptr s =
     equ_parameters ptr
       [text_para [] 64 AET_PARA, di_para 0 AET_PARA, text_para (cstr ''t'') 2 (AET_PARA OR AET_LINE),
        text_para [] 4 AET_LINE] s (\<lambda>_ vs paracnt.
       let hostname = var_bytes (vs ! 0); port = var_di (vs ! 1);
           protocol = var_bytes (vs ! 2); ind = var_bytes (vs ! 3)
       in if paracnt < 3 then Some (AEC_PARA_ERROR, s)
          else if port < 0 \<or> port > 65535 then Some (AEC_OUT_OF_RANGE, s)
          else if \<not> (str_eq protocol ''t'' \<or> str_eq protocol ''u'') then Some (AEC_PARA_ERROR, s)
          else if paracnt = 4 \<and> \<not> str_eq ind ''ind'' then Some (AEC_PARA_ERROR, s)
          else at_sockon hostname port protocol ind s)"

definition sockw_handler :: "('e, 'w) at_handler" where
  "sockw_handler ptr s =
     equ_parameters ptr [text_para [] 64 AET_PARA, di_para 0 AET_LINE] s (\<lambda>_ vs paracnt.
       if paracnt < 2 then Some (AEC_PARA_ERROR, s)
       else at_sockw (var_bytes (vs ! 0)) (var_di (vs ! 1)) s)"

definition sockq_handler :: "('e, 'w) at_handler" where
  "sockq_handler ptr s =
     equ_parameters ptr [text_para [] 64 AET_LINE] s (\<lambda>_ vs paracnt.
       if paracnt < 1 then Some (AEC_PARA_ERROR, s) else at_sockq (var_bytes (vs ! 0)) s)"

definition sockr_handler :: "('e, 'w) at_handler" where
  "sockr_handler ptr s =
     equ_parameters ptr [text_para [] 64 AET_PARA, di_para 0 AET_LINE] s (\<lambda>_ vs paracnt.
       if paracnt < 2 then Some (AEC_PARA_ERROR, s)
       else Some (at_sockr (var_bytes (vs ! 0)) (var_di (vs ! 1)) s))"

definition sockc_handler :: "('e, 'w) at_handler" where
  "sockc_handler ptr s =
     equ_parameters ptr [text_para [] 64 AET_LINE] s (\<lambda>_ vs paracnt.
       if paracnt < 1 then Some (AEC_PARA_ERROR, s) else Some (at_sockc (var_bytes (vs ! 0)) s))"

definition sockd_handler :: "('e, 'w) at_handler" where
  "sockd_handler ptr s =
     equ_parameters ptr [di_para 0 (AET_PARA OR AET_LINE), text_para (cstr ''t'') 2 AET_LINE] s (\<lambda>_ vs paracnt.
       let port = var_di (vs ! 0); protocol = var_bytes (vs ! 1)
       in if paracnt < 1 then Some (AEC_PARA_ERROR, s)
          else if port < 0 \<or> port > 65535 then Some (AEC_OUT_OF_RANGE, s)
          else if \<not> (str_eq protocol ''t'' \<or> str_eq protocol ''u'') then Some (AEC_PARA_ERROR, s)
          else Some (at_sockd port protocol s))"

definition wifi_handler :: "('e, 'w) at_handler" where
  "wifi_handler ptr s =
     equ_parameters ptr [di_para 0 AET_LINE] s (\<lambda>_ vs paracnt.
       if paracnt \<noteq> 1 then Some (AEC_PARA_ERROR, s)
       else if var_di (vs ! 0) \<ge> 0 \<and> var_di (vs ! 0) \<le> 1 then Some (at_wifi (var_di (vs ! 0)) s)
       else Some (AEC_OUT_OF_RANGE, s))"

definition scan_handler :: "('e, 'w) at_handler" where
  "scan_handler ptr s = do {
     c \<leftarrow> rd ptr 0;
     if c \<noteq> AT_EQU then without_parameters ptr s (\<lambda>s. Some (at_scan None None s))
     else with_parameters (drop 1 ptr) [text_para [] 2 AET_PARA, text_para [] 2 AET_LINE] s (\<lambda>_ vs paracnt.
       let mode = var_bytes (vs ! 0); rep = var_bytes (vs ! 1)
       in if paracnt < 2 then Some (AEC_PARA_ERROR, s)
          else if \<not> (str_eq mode ''a'' \<or> str_eq mode ''p'') then Some (AEC_PARA_ERROR, s)
          else if \<not> str_eq rep ''r'' then Some (AEC_PARA_ERROR, s)
          else Some (at_scan (Some mode) (Some rep) s))
   }"

section \<open>Pins\<close>

text \<open>The pins in the order they are read, each with the letter its line shows; the port read is
  always port A.\<close>

definition gpio_lines :: "(string \<times> nat) list" where
  "gpio_lines =
     map (Pair ''A'') [6, 7, 12, 14, 15, 16, 19, 20, 21, 22] @ map (Pair ''B'') [2, 3]"

fun gpio_dump :: "(string \<times> nat) list \<Rightarrow> ('e, 'w) at_sys \<Rightarrow> ('e, 'w) at_sys option" where
  "gpio_dump [] s = Some s"
| "gpio_dump ((port, pin) # ps) s = do {
     s \<leftarrow> at_dump_text (cstr ''PIN '' @ cstr port @ cstr '' '' @ print_d (int pin) @ cstr '', ''
            @ print_d (at_pins s pin) @ CRLF) s;
     gpio_dump ps s
   }"

definition my_gpio_read :: "('e, 'w) at_handler" where
  "my_gpio_read ptr s = do {
     s \<leftarrow> at_dump_text (cstr ''PORT A'' @ CRLF) s;
     s \<leftarrow> gpio_dump gpio_lines s;
     Some (AEC_OK, s)
   }"

section \<open>One command line\<close>

definition at_handlers :: "('e, 'w) at_handler list" where
  "at_handlers =
    [attention_handler, act_handler, reset_handler, help_handler, getcfg_handler, setcfg_handler, ssidtxt_handler, config_handler, factory_handler, save_handler, status_handler, ping_handler, sockon_handler, sockw_handler, sockq_handler, sockr_handler, sockc_handler, sockd_handler, mode_handler, wifi_handler, reassociate_handler, scan_handler, my_gpio_read]"

text \<open>The command's name is copied up to \<open>=\<close> or the line's end: \<^term>\<open>Inl\<close> is a name that does not
  fit, otherwise the name and the position after it.\<close>

fun cmd_scan :: "nat \<Rightarrow> u8 list \<Rightarrow> u8 list \<Rightarrow> (AT_ERROR_CODE + u8 list \<times> u8 list) option" where
  "cmd_scan 0 cptr at_cmd = Some (Inr (at_cmd, cptr))"
| "cmd_scan (Suc n) [] at_cmd = None"
| "cmd_scan (Suc n) (c # cs) at_cmd =
     (if c = AT_EQU \<or> c = AT_LF \<or> c = AT_CR then Some (Inr (at_cmd, c # cs))
      else if length at_cmd < AT_CMD_MAX_SIZE then cmd_scan n cs (at_cmd @ [c])
      else Some (Inl AEC_CMD_ERROR))"

definition at_parse_cmd ::
  "u8 list \<Rightarrow> nat \<Rightarrow> ('e, 'w) at_sys \<Rightarrow> (AT_ERROR_CODE \<times> ('e, 'w) at_sys) option" where
  "at_parse_cmd cmdline sz s = do {
     r \<leftarrow> cmd_scan sz cmdline [];
     (case r of
        Inl e \<Rightarrow> Some (e, s)
      | Inr (at_cmd, cptr) \<Rightarrow>
          if at_cmd = [] then Some (AEC_BLANK_LINE, s)
          else let idx = at_match (Some at_cmd)
               in if idx \<ge> 0 then (at_handlers ! nat idx) cptr s else Some (AEC_CMD_ERROR, s))
   }"

section \<open>Initialisation and the command loop\<close>

text \<open>The callbacks of \<open>at_callback_t\<close>; a null \<open>cb\<close> is \<^term>\<open>None\<close>.\<close>

definition at_init ::
  "('w handle_cb option \<times> bool) option \<Rightarrow> ('e, 'w) at_sys \<Rightarrow> AT_ERROR_CODE \<times> ('e, 'w) at_sys" where
  "at_init cb s =
     (case cb of
        None \<Rightarrow> (AEC_UNDEFINED, s\<lparr>at_handle_cb := None, at_dump_cb := False\<rparr>)
      | Some (h, d) \<Rightarrow>
          (let s = s\<lparr>at_handle_cb := h, at_dump_cb := d\<rparr>;
               s = (case h of
                      None \<Rightarrow> s
                    | Some f \<Rightarrow>
                        (case call_cb f ACC_LOAD (cfg_para U_none) s of
                           (aec, _, s) \<Rightarrow>
                             if aec \<noteq> AEC_OK
                             then (case call_cb f ACC_FACTORY (cfg_para U_none) s of (_, _, s) \<Rightarrow> s)
                             else s))
           in (AEC_OK, s\<lparr>at_cache := \<lparr>cc_cnt = 0, cc_buf = replicate CMD_CACHE_MAX_LEN 0\<rparr>\<rparr>)))"

text \<open>\<open>cache.buf[cache.cnt++] = c\<close>, and dropping the command.\<close>

definition cache_put :: "u8 \<Rightarrow> ('e, 'w) at_sys \<Rightarrow> ('e, 'w) at_sys option" where
  "cache_put c s = do {
     b \<leftarrow> wr (cc_buf (at_cache s)) (cc_cnt (at_cache s)) c;
     Some (s\<lparr>at_cache := \<lparr>cc_cnt = cc_cnt (at_cache s) + 1, cc_buf = b\<rparr>\<rparr>)
   }"

definition cache_reset :: "('e, 'w) at_sys \<Rightarrow> ('e, 'w) at_sys" where
  "cache_reset s = s\<lparr>at_cache := (at_cache s)\<lparr>cc_cnt := 0\<rparr>\<rparr>"

definition cache_room :: "('e, 'w) at_sys \<Rightarrow> bool" where
  "cache_room s \<longleftrightarrow> cc_cnt (at_cache s) < CMD_CACHE_MAX_LEN"

text \<open>
  The part of the loop for one byte: the new state, the byte stored last and whether the
  line is complete.  \<^term>\<open>Inl\<close> is a \<open>continue\<close>: the command is discarded.
\<close>

definition at_parse_byte ::
  "u8 \<Rightarrow> bool \<Rightarrow> ('e, 'w) at_sys \<Rightarrow> (('e, 'w) at_sys \<times> bool + ('e, 'w) at_sys \<times> bool) option" where
  "at_parse_byte tmp flag s = do {
     r \<leftarrow>
       (if tmp = AT_LF
        then if cache_room s then map_option (\<lambda>s. Inr (s, tmp, True)) (cache_put tmp s)
             else Some (Inl (cache_reset s, flag))
        else if tmp = AT_CR
        then do {
          s \<leftarrow> cache_put tmp s;
          let (rc, x, s) = sys_peek s;
          if rc = AQEC_OK
          then do {
            t \<leftarrow> x;
            if t = AT_LF
            then do {
              let (rc, x, s) = sys_peek s;
              t \<leftarrow> (if rc = AQEC_OK then x else Some t);
              if cache_room s then map_option (\<lambda>s. Inr (s, t, True)) (cache_put t s)
              else Some (Inl (cache_reset s, flag))
            }
            else Some (Inr (s, t, True))
          }
          else Some (Inr (s, tmp, True))
        }
        else Some (Inr (s, tmp, flag)));
     (case r of
        Inl q \<Rightarrow> Some (Inl q)
      | Inr (s, tmp, flag) \<Rightarrow>
          if cache_room s then map_option (\<lambda>s. Inr (s, flag)) (cache_put tmp s)
          else Some (Inl (cache_reset s, flag)))
   }"

text \<open>Echo, command and answer.\<close>

definition at_parse_line :: "('e, 'w) at_sys \<Rightarrow> ('e, 'w) at_sys option" where
  "at_parse_line s = do {
     s \<leftarrow> (if localecho1 (at_cfg s) \<noteq> 0
           then do {
             b \<leftarrow> wr (cc_buf (at_cache s)) (cc_cnt (at_cache s)) 0;
             at_dump_text (c_string b) (s\<lparr>at_cache := (at_cache s)\<lparr>cc_buf := b\<rparr>\<rparr>)
           }
           else Some s);
     (aec, s) \<leftarrow> at_parse_cmd (cc_buf (at_cache s)) (cc_cnt (at_cache s)) s;
     s \<leftarrow> at_response aec s;
     Some (cache_reset s)
   }"

text \<open>One round of \<open>at_parse\<close>'s endless loop, with the variable \<open>flag\<close>, and \<open>n\<close> rounds.\<close>

definition at_parse_step :: "('e, 'w) at_sys \<times> bool \<Rightarrow> (('e, 'w) at_sys \<times> bool) option" where
  "at_parse_step = (\<lambda>(s, flag). do {
     let (rc, x, s) = sys_get s;
     r \<leftarrow> (if rc = AQEC_OK then do { tmp \<leftarrow> x; at_parse_byte tmp flag s } else Some (Inr (s, flag)));
     (case r of
        Inl q \<Rightarrow> Some q
      | Inr (s, flag) \<Rightarrow>
          if flag then map_option (\<lambda>s. (s, False)) (at_parse_line s) else Some (s, flag))
   })"

fun at_parse_rounds :: "nat \<Rightarrow> ('e, 'w) at_sys \<times> bool \<Rightarrow> (('e, 'w) at_sys \<times> bool) option" where
  "at_parse_rounds 0 p = Some p"
| "at_parse_rounds (Suc n) p = do { p \<leftarrow> at_parse_step p; at_parse_rounds n p }"

section \<open>Finding the command\<close>

definition name_char :: "u8 \<Rightarrow> bool" where
  "name_char c \<longleftrightarrow> c \<noteq> AT_EQU \<and> c \<noteq> AT_LF \<and> c \<noteq> AT_CR"

lemma cmd_scan_name:
  assumes "\<forall>c\<in>set name. name_char c" "\<not> name_char c" "length name < sz" "length acc \<le> 32"
  shows "cmd_scan sz (name @ c # tail) acc =
    Some (if length acc + length name \<le> 32 then Inr (acc @ name, c # tail) else Inl AEC_CMD_ERROR)"
  using assms
proof (induction name arbitrary: sz acc)
  case Nil
  then obtain n where "sz = Suc n" by (cases sz) auto
  then show ?case using Nil by (auto simp: name_char_def)
next
  case (Cons a name)
  then obtain n where n: "sz = Suc n" by (cases sz) auto
  have a: "name_char a" using Cons.prems(1) by simp
  show ?case
  proof (cases "length acc < 32")
    case True
    then have "cmd_scan n (name @ c # tail) (acc @ [a]) =
        Some (if length (acc @ [a]) + length name \<le> 32 then Inr ((acc @ [a]) @ name, c # tail) else Inl AEC_CMD_ERROR)"
      using Cons.prems n by (intro Cons.IH) auto
    then show ?thesis using True a n by (simp add: name_char_def)
  next
    case False
    then show ?thesis using a n Cons.prems(4) by (simp add: name_char_def)
  qed
qed

lemma table_size: "length at_command_table = 23" "length at_handlers = 23"
  by (simp_all add: at_command_table_def at_handlers_def)

text \<open>Every entry's name is found at its own place and has at most 13 plain characters.\<close>

lemma table_names:
  assumes "i < 23"
  shows "at_match (Some (cstr (fst (at_command_table ! i)))) = int i"
    and "\<forall>c\<in>set (cstr (fst (at_command_table ! i))). name_char c"
    and "cstr (fst (at_command_table ! i)) \<noteq> []" "length (cstr (fst (at_command_table ! i))) \<le> 32"
proof -
  have "list_all (\<lambda>i. let name = cstr (fst (at_command_table ! i))
      in at_match (Some name) = int i \<and> list_all name_char name \<and> name \<noteq> [] \<and> length name \<le> 32) [0..<23]"
    by code_simp
  then have "let name = cstr (fst (at_command_table ! i))
      in at_match (Some name) = int i \<and> list_all name_char name \<and> name \<noteq> [] \<and> length name \<le> 32"
    using assms unfolding list_all_iff by (metis atLeastLessThan_iff le0 set_upt)
  then show "at_match (Some (cstr (fst (at_command_table ! i)))) = int i"
    "\<forall>c\<in>set (cstr (fst (at_command_table ! i))). name_char c"
    "cstr (fst (at_command_table ! i)) \<noteq> []" "length (cstr (fst (at_command_table ! i))) \<le> 32"
    by (simp_all add: Let_def list_all_iff)
qed

text \<open>C7. A command line, up to its first \<open>=\<close> or line end: nothing is a blank line, a name of more than
  32 characters or one that is not in the table is \<open>AEC_CMD_ERROR\<close> with nothing changed, and
  the name of the \<open>i\<close>-th table entry runs the \<open>i\<close>-th handler on the rest of the line.\<close>

theorem at_parse_cmd_dispatch:
  assumes "\<forall>c\<in>set name. name_char c" "\<not> name_char c" "length name < sz"
  shows "(name = [] \<longrightarrow> at_parse_cmd (name @ c # tail) sz s = Some (AEC_BLANK_LINE, s))
    \<and> (32 < length name \<or> name \<noteq> [] \<and> at_match (Some name) < 0
        \<longrightarrow> at_parse_cmd (name @ c # tail) sz s = Some (AEC_CMD_ERROR, s))
    \<and> (\<forall>i<length at_command_table. name = cstr (fst (at_command_table ! i))
        \<longrightarrow> at_parse_cmd (name @ c # tail) sz s = (at_handlers ! i) (c # tail) s)"
  using cmd_scan_name[OF assms, of "[]" tail] table_names
  by (auto simp: at_parse_cmd_def table_size Let_def)

section \<open>Collecting a line\<close>

text \<open>The cache holds \<open>t\<close>, and what collecting may change.\<close>

definition holds :: "('e, 'w) at_sys \<Rightarrow> u8 list \<Rightarrow> bool" where
  "holds s t \<longleftrightarrow> length (cc_buf (at_cache s)) = 1024 \<and> cc_cnt (at_cache s) = length t
     \<and> take (length t) (cc_buf (at_cache s)) = t"

definition collected :: "('e, 'w) at_sys \<Rightarrow> ('e, 'w) at_sys \<Rightarrow> bool" where
  "collected s s' \<longleftrightarrow> (\<exists>q e c. s' = s\<lparr>at_queue := q, at_source := e, at_cache := c\<rparr>)"

lemma collected_sel:
  assumes "collected s s'"
  shows "at_cfg s' = at_cfg s" "at_sts s' = at_sts s" "at_handle_cb s' = at_handle_cb s"
    "at_dump_cb s' = at_dump_cb s" "at_queue_cb s' = at_queue_cb s" "at_out s' = at_out s"
    "at_world s' = at_world s" "at_pins s' = at_pins s"
  using assms by (auto simp: collected_def)

lemma collected_refl [simp]: "collected s s"
  unfolding collected_def
  by (intro exI[of _ "at_queue s"] exI[of _ "at_source s"] exI[of _ "at_cache s"]) simp

lemma collected_trans: "collected s t \<Longrightarrow> collected t u \<Longrightarrow> collected s u"
  by (force simp: collected_def)

lemma moved_collected: "line_moved s t \<Longrightarrow> collected s t"
  unfolding line_moved_def collected_def
  by (elim exE) (rule exI, rule exI, rule exI[of _ "at_cache s"], simp)

lemma cache_put_holds:
  assumes "holds s t" "length t < 1024"
  obtains s' where "cache_put c s = Some s'" "holds s' (t @ [c])" "collected s s'"
    "line_ready s \<Longrightarrow> line_ready s'" "unread s' = unread s"
proof
  let ?b = "(cc_buf (at_cache s))[length t := c]"
  let ?s = "s\<lparr>at_cache := \<lparr>cc_cnt = Suc (length t), cc_buf = ?b\<rparr>\<rparr>"
  show "cache_put c s = Some ?s" using assms by (simp add: cache_put_def holds_def)
  have "take (Suc (length t)) ?b = take (length t) (cc_buf (at_cache s)) @ [c]"
    using assms by (simp add: holds_def take_Suc_conv_app_nth)
  then show "holds ?s (t @ [c])" using assms by (simp add: holds_def)
  show "collected s ?s" unfolding collected_def
    by (intro exI[of _ "at_queue s"] exI[of _ "at_source s"]) auto
qed (simp_all add: line_ready_def unread_def)

lemma moved_holds: "line_moved s s' \<Longrightarrow> holds s' t \<longleftrightarrow> holds s t"
  by (auto simp: line_moved_def holds_def)

lemma room_holds: "holds s t \<Longrightarrow> cache_room s \<longleftrightarrow> length t < 1024"
  by (simp add: holds_def cache_room_def)

text \<open>A character of the line's body.\<close>

lemma step_char:
  assumes "line_ready s" "unread s = c # r" "holds s t" "length t < 1024" "c \<noteq> AT_LF" "c \<noteq> AT_CR"
  obtains s' where "at_parse_step (s, False) = Some (s', False)" "line_ready s'" "unread s' = r"
    "holds s' (t @ [c])" "collected s s'"
proof -
  obtain s1 where g: "sys_get s = (AQEC_OK, Some c, s1)" "line_ready s1" "unread s1 = r" "line_moved s s1"
    using sys_get_ready[OF assms(1,2)] .
  have h: "holds s1 t" using moved_holds[OF g(4)] assms(3) by simp
  obtain s2 where p: "cache_put c s1 = Some s2" "holds s2 (t @ [c])" "collected s1 s2" "line_ready s2"
    "unread s2 = unread s1"
    using cache_put_holds[OF h assms(4)] g(2) by metis
  have "at_parse_step (s, False) = Some (s2, False)"
    using g p assms(4-6) room_holds[OF h] by (simp add: at_parse_step_def at_parse_byte_def)
  then show ?thesis using that p g collected_trans[OF moved_collected[OF g(4)] p(3)] by simp
qed

lemma rounds_add: "at_parse_rounds (m + n) p = Option.bind (at_parse_rounds m p) (at_parse_rounds n)"
proof (induction m arbitrary: p)
  case (Suc m)
  then show ?case by (cases "at_parse_step p") simp_all
qed simp

lemma rounds_chars:
  assumes "line_ready s" "unread s = line @ r" "holds s t" "length t + length line \<le> 1024"
    "\<forall>c\<in>set line. c \<noteq> AT_LF \<and> c \<noteq> AT_CR"
  shows "\<exists>s'. at_parse_rounds (length line) (s, False) = Some (s', False) \<and> line_ready s' \<and> unread s' = r
    \<and> holds s' (t @ line) \<and> collected s s'"
  using assms
proof (induction line arbitrary: s t)
  case (Cons c line)
  obtain s1 where s1: "at_parse_step (s, False) = Some (s1, False)" "line_ready s1" "unread s1 = line @ r"
    "holds s1 (t @ [c])" "collected s s1"
    using step_char[OF Cons.prems(1) _ Cons.prems(3), of c "line @ r"] Cons.prems(2,4,5) by auto
  have "\<exists>s'. at_parse_rounds (length line) (s1, False) = Some (s', False) \<and> line_ready s' \<and> unread s' = r
    \<and> holds s' ((t @ [c]) @ line) \<and> collected s1 s'"
    using s1 Cons.prems by (intro Cons.IH) auto
  then show ?case using s1(1,5) collected_trans by fastforce
qed auto

text \<open>The line end: both bytes of \<open>CR LF\<close> and the last one once more, or a \<open>LF\<close> twice.\<close>

lemma step_LF:
  assumes "line_ready s" "unread s = AT_LF # r" "holds s t" "length t < 1023"
  obtains s' where "at_parse_step (s, False) = map_option (\<lambda>s. (s, False)) (at_parse_line s')"
    "line_ready s'" "unread s' = r" "holds s' (t @ [AT_LF, AT_LF])" "collected s s'"
proof -
  obtain s1 where g: "sys_get s = (AQEC_OK, Some AT_LF, s1)" "line_ready s1" "unread s1 = r" "line_moved s s1"
    using sys_get_ready[OF assms(1,2)] .
  have h: "holds s1 t" using moved_holds[OF g(4)] assms(3) by simp
  have "length t < 1024" using assms(4) by simp
  then obtain s2 where p: "cache_put AT_LF s1 = Some s2" "holds s2 (t @ [AT_LF])" "collected s1 s2" "line_ready s2"
    "unread s2 = unread s1"
    using cache_put_holds[OF h] g(2) by metis
  have "length (t @ [AT_LF]) < 1024" using assms(4) by simp
  then obtain s3 where q: "cache_put AT_LF s2 = Some s3" "holds s3 ((t @ [AT_LF]) @ [AT_LF])" "collected s2 s3"
    "line_ready s3" "unread s3 = unread s2"
    using cache_put_holds[OF p(2)] p(4) by metis
  have "at_parse_step (s, False) = map_option (\<lambda>s. (s, False)) (at_parse_line s3)"
    using g p q assms(4) room_holds[OF h] room_holds[OF p(2)] by (simp add: at_parse_step_def at_parse_byte_def)
  then show ?thesis
    using that p q g collected_trans[OF moved_collected[OF g(4)] collected_trans[OF p(3) q(3)]] by simp
qed

lemma step_CRLF:
  assumes "line_ready s" "unread s = AT_CR # AT_LF # r" "holds s t" "length t < 1022"
  obtains s' where "at_parse_step (s, False) = map_option (\<lambda>s. (s, False)) (at_parse_line s')"
    "line_ready s'" "unread s' = AT_LF # r" "holds s' (t @ [AT_CR, AT_LF, AT_LF])" "collected s s'"
proof -
  obtain s1 where g: "sys_get s = (AQEC_OK, Some AT_CR, s1)" "line_ready s1" "unread s1 = AT_LF # r" "line_moved s s1"
    using sys_get_ready[OF assms(1,2)] .
  have h: "holds s1 t" using moved_holds[OF g(4)] assms(3) by simp
  have "length t < 1024" using assms(4) by simp
  then obtain s2 where p: "cache_put AT_CR s1 = Some s2" "holds s2 (t @ [AT_CR])" "collected s1 s2" "line_ready s2"
    "unread s2 = unread s1"
    using cache_put_holds[OF h] g(2) by metis
  obtain s3 where k: "sys_peek s2 = (AQEC_OK, Some AT_LF, s3)" "line_ready s3" "unread s3 = AT_LF # r" "line_moved s2 s3"
    using sys_peek_ready[OF p(4)] p(5) g(3) by metis
  obtain s4 where l: "sys_peek s3 = (AQEC_OK, Some AT_LF, s4)" "line_ready s4" "unread s4 = AT_LF # r" "line_moved s3 s4"
    using sys_peek_ready[OF k(2,3)] .
  have h4: "holds s4 (t @ [AT_CR])" using moved_holds[OF l(4)] moved_holds[OF k(4)] p(2) by simp
  have "length (t @ [AT_CR]) < 1024" using assms(4) by simp
  then obtain s5 where q: "cache_put AT_LF s4 = Some s5" "holds s5 ((t @ [AT_CR]) @ [AT_LF])" "collected s4 s5"
    "line_ready s5" "unread s5 = unread s4"
    using cache_put_holds[OF h4] l(2) by metis
  have "length ((t @ [AT_CR]) @ [AT_LF]) < 1024" using assms(4) by simp
  then obtain s6 where z: "cache_put AT_LF s5 = Some s6" "holds s6 (((t @ [AT_CR]) @ [AT_LF]) @ [AT_LF])" "collected s5 s6"
    "line_ready s6" "unread s6 = unread s5"
    using cache_put_holds[OF q(2)] q(4) by metis
  have "at_parse_step (s, False) = map_option (\<lambda>s. (s, False)) (at_parse_line s6)"
    using g p k l q z assms(4) room_holds[OF h4] room_holds[OF q(2)]
    by (simp add: at_parse_step_def at_parse_byte_def)
  moreover have "collected s s6"
    using collected_trans moved_collected g(4) p(3) k(4) l(4) q(3) z(3) by metis
  ultimately show ?thesis using that z q l by simp
qed

text \<open>The state in which a collected line is handed to \<open>at_parse_line\<close>: the cache starts with the line
  and its end, and configuration, output and application are those from before.\<close>

definition line_at_hand :: "('e, 'w) at_sys \<Rightarrow> ('e, 'w) at_sys \<Rightarrow> u8 list \<Rightarrow> bool" where
  "line_at_hand s s' t \<longleftrightarrow> holds s' t \<and> collected s s'"

text \<open>C6. A line of up to 1022 characters that ends with a line feed is collected byte by byte and handed
  to \<open>at_parse_line\<close> in the round that reads the line feed; exactly the line is consumed.\<close>

theorem at_parse_collects_line:
  assumes "line_ready s" "holds s []" "unread s = line @ AT_LF # r" "length line < 1023"
    "\<forall>c\<in>set line. c \<noteq> AT_LF \<and> c \<noteq> AT_CR"
  shows "\<exists>s'. at_parse_rounds (length line + 1) (s, False) = map_option (\<lambda>s. (s, False)) (at_parse_line s')
    \<and> line_ready s' \<and> unread s' = r \<and> line_at_hand s s' (line @ [AT_LF, AT_LF])"
proof -
  obtain s1 where s1: "at_parse_rounds (length line) (s, False) = Some (s1, False)" "line_ready s1"
    "unread s1 = AT_LF # r" "holds s1 line" "collected s s1"
    using rounds_chars[OF assms(1,3,2) _ assms(5)] assms(4) by auto
  obtain s2 where s2: "at_parse_step (s1, False) = map_option (\<lambda>s. (s, False)) (at_parse_line s2)"
    "line_ready s2" "unread s2 = r" "holds s2 (line @ [AT_LF, AT_LF])" "collected s1 s2"
    using step_LF[OF s1(2-4) assms(4)] .
  have "at_parse_rounds (length line + 1) (s, False) = map_option (\<lambda>s. (s, False)) (at_parse_line s2)"
    unfolding rounds_add using s1(1) s2(1) by (cases "at_parse_line s2") simp_all
  then show ?thesis using s2 collected_trans[OF s1(5) s2(5)] by (auto simp: line_at_hand_def)
qed

text \<open>After a carriage return the following line feed is only peeked at: the line is handed to
  \<open>at_parse_line\<close> while the line feed is still the next unread byte.  A command that reads data from
  the line, like \<open>AT+S.SOCKW\<close>, therefore gets the line feed as its first byte.\<close>

theorem at_parse_leaves_linefeed:
  assumes "line_ready s" "holds s []" "unread s = line @ AT_CR # AT_LF # r" "length line < 1022"
    "\<forall>c\<in>set line. c \<noteq> AT_LF \<and> c \<noteq> AT_CR"
  shows "\<exists>s'. at_parse_rounds (length line + 1) (s, False) = map_option (\<lambda>s. (s, False)) (at_parse_line s')
    \<and> line_ready s' \<and> unread s' = AT_LF # r \<and> line_at_hand s s' (line @ [AT_CR, AT_LF, AT_LF])"
proof -
  obtain s1 where s1: "at_parse_rounds (length line) (s, False) = Some (s1, False)" "line_ready s1"
    "unread s1 = AT_CR # AT_LF # r" "holds s1 line" "collected s s1"
    using rounds_chars[OF assms(1,3,2) _ assms(5)] assms(4) by auto
  obtain s2 where s2: "at_parse_step (s1, False) = map_option (\<lambda>s. (s, False)) (at_parse_line s2)"
    "line_ready s2" "unread s2 = AT_LF # r" "holds s2 (line @ [AT_CR, AT_LF, AT_LF])" "collected s1 s2"
    using step_CRLF[OF s1(2-4) assms(4)] .
  have "at_parse_rounds (length line + 1) (s, False) = map_option (\<lambda>s. (s, False)) (at_parse_line s2)"
    unfolding rounds_add using s1(1) s2(1) by (cases "at_parse_line s2") simp_all
  then show ?thesis using s2 collected_trans[OF s1(5) s2(5)] by (auto simp: line_at_hand_def)
qed

text \<open>A carriage return after 1024 characters is stored without a check: the byte after
  \<open>cache.buf\<close> is overwritten.  (A line feed in the same place discards the command.)\<close>

theorem at_parse_cr_overflow:
  assumes "line_ready s" "holds s []" "unread s = line @ AT_CR # r" "length line = 1024"
    "\<forall>c\<in>set line. c \<noteq> AT_LF \<and> c \<noteq> AT_CR"
  shows "at_parse_rounds 1025 (s, False) = None"
proof -
  obtain s1 where s1: "at_parse_rounds (length line) (s, False) = Some (s1, False)" "line_ready s1"
    "unread s1 = AT_CR # r" "holds s1 line" "collected s s1"
    using rounds_chars[OF assms(1,3,2) _ assms(5)] assms(4) by auto
  obtain s2 where g: "sys_get s1 = (AQEC_OK, Some AT_CR, s2)" "line_moved s1 s2"
    using sys_get_ready[OF s1(2,3)] by metis
  have "holds s2 line" using moved_holds[OF g(2)] s1(4) by simp
  then have "cache_put AT_CR s2 = None" using assms(4) by (simp add: cache_put_def holds_def wr_def)
  then have "at_parse_step (s1, False) = None"
    using g(1) by (simp add: at_parse_step_def at_parse_byte_def)
  then have "at_parse_rounds (length line + 1) (s, False) = None"
    unfolding rounds_add using s1(1) by simp
  then show ?thesis using assms(4) by simp
qed

lemma para_options [simp]:
  "SIZE_LIMIT (pd_option (text_para d 64 AET_PARA)) = 64" "AET_PARA AND pd_option (text_para d 64 AET_PARA) \<noteq> 0"
  "AET_LINE AND pd_option (di_para k AET_LINE) \<noteq> 0"
  by (simp_all add: text_para_def di_para_def SIZE_LIMIT_def)

text \<open>The two parameters \<open>id,len\<close> of the socket commands.\<close>

lemma id_len_parameters:
  assumes "id0 \<noteq> []" "list_all plain id0" "0 \<notin> set id0" "length id0 < 64" "0 \<le> n" "n < 2147483648"
    "terminator l r True AET_LINE"
  shows "at_get_parameters (id0 @ AT_SEPARATOR # print_d n @ l) [text_para [] 64 AET_PARA, di_para 0 AET_LINE] 0
    = Some (r, [Bytes (id0 @ 0 # replicate (63 - length id0) 0), DI n], 2, AEC_OK)"
proof -
  let ?ts = "[(text_para [] 64 AET_PARA, id0, Bytes (id0 @ 0 # replicate (63 - length id0) 0)), (di_para 0 AET_LINE, print_d n, DI n)]"
  have t: "\<forall>(d, s, v)\<in>set ?ts. param_text d s v"
    using assms by (simp add: param_text_def text_para_def di_para_def SIZE_LIMIT_def)
  show ?thesis
    using parameters_loop_reads[OF _ t _ _ assms(7), of "[]"]
    by (simp add: at_get_parameters_def join_with_def param_rest_def text_para_def di_para_def)
qed

lemma at_atoi_c_string: "c_string a = c_string b \<Longrightarrow> at_atoi a = at_atoi b"
  by (simp add: at_atoi_def)

lemma c_string_self: "0 \<notin> set s \<Longrightarrow> c_string s = s"
  by (auto simp: c_string_def takeWhile_eq_all_conv)

text \<open>The consequence for \<open>AT+S.SOCKW=id,n\<close> followed by \<open>CR LF\<close>: the application is given the line
  feed and the first \<open>n - 1\<close> bytes of the data, and the last byte of the data stays in the line.\<close>

theorem sockw_data_shifted:
  fixes s :: "(serial_priv, 'a) at_sys"
  assumes "line_ready s" "at_handle_cb s = Some cb" "unread s = AT_LF # data" "length data = n" "0 < n" "n \<le> 1024"
    "id0 \<noteq> []" "list_all plain id0" "0 \<notin> set id0" "length id0 < 64"
  shows "\<exists>s1. unread s1 = [last data] \<and> line_moved s s1
    \<and> sockw_handler (AT_EQU # id0 @ AT_SEPARATOR # print_d (int n) @ AT_CR # AT_LF # tail) s =
        (case call_cb cb ACC_SOCKW (plain_para (U_sockw (at_atoi id0) (AT_LF # butlast data))) s1 of
           (aec, _, s2) \<Rightarrow> Some (if aec = AEC_OK then AEC_OK else AEC_SEND_FAIL, s2))"
proof -
  obtain s1 where s1: "unread s1 = drop n (unread s)" "line_moved s s1"
    "at_sockw (id0 @ 0 # replicate (63 - length id0) 0) (int n) s =
        (case call_cb cb ACC_SOCKW (plain_para (U_sockw (at_atoi (id0 @ 0 # replicate (63 - length id0) 0)) (take n (unread s)))) s1 of
           (aec, _, s2) \<Rightarrow> Some (if aec = AEC_OK then AEC_OK else AEC_SEND_FAIL, s2))"
    using sockw_reads[OF assms(1,2,5,6)] assms(3,4) by fastforce
  obtain ys y where d: "data = ys @ [y]" using assms(4,5) by (cases data rule: rev_cases) auto
  have "take n (unread s) = AT_LF # butlast data" "drop n (unread s) = [last data]"
    using assms(3,4) d by (auto simp: take_Cons' drop_Cons')
  moreover have "at_atoi (id0 @ 0 # replicate (63 - length id0) 0) = at_atoi id0"
    using assms(9) by (intro at_atoi_c_string) (simp add: c_string_self)
  moreover have "at_get_parameters (id0 @ AT_SEPARATOR # print_d (int n) @ AT_CR # AT_LF # tail)
      [text_para [] 64 AET_PARA, di_para 0 AET_LINE] 0
      = Some (tail, [Bytes (id0 @ 0 # replicate (63 - length id0) 0), DI (int n)], 2, AEC_OK)"
    using assms(6) by (intro id_len_parameters assms) (auto simp: terminator_def)
  ultimately show ?thesis using s1
    by (auto simp: sockw_handler_def equ_parameters_def with_parameters_def var_bytes_def var_di_def)
qed

section \<open>The configuration stays well formed\<close>

text \<open>What the layer needs of the application: its callback leaves a well-formed configuration well formed.\<close>

definition cb_keeps :: "'w handle_cb \<Rightarrow> bool" where
  "cb_keeps cb \<longleftrightarrow> (\<forall>cmd para c st w. cfg_ok c \<longrightarrow> cfg_ok (cr_cfg (cb cmd para c st w)))"

definition sys_ok :: "('e, 'w) at_sys \<Rightarrow> bool" where
  "sys_ok s \<longleftrightarrow> cfg_ok (at_cfg s) \<and> (\<forall>cb. at_handle_cb s = Some cb \<longrightarrow> cb_keeps cb)"

definition keeps :: "('a \<times> ('e, 'w) at_sys) option \<Rightarrow> bool" where
  "keeps r \<longleftrightarrow> (\<forall>a s. r = Some (a, s) \<longrightarrow> sys_ok s)"

definition keeps_st :: "('e, 'w) at_sys option \<Rightarrow> bool" where
  "keeps_st r \<longleftrightarrow> (\<forall>s. r = Some s \<longrightarrow> sys_ok s)"

lemma sys_ok_upd [simp]:
  "sys_ok (s\<lparr>at_out := a\<rparr>) = sys_ok s" "sys_ok (s\<lparr>at_queue := q\<rparr>) = sys_ok s"
  "sys_ok (s\<lparr>at_source := e\<rparr>) = sys_ok s" "sys_ok (s\<lparr>at_cache := c\<rparr>) = sys_ok s"
  "sys_ok (s\<lparr>at_sts := t\<rparr>) = sys_ok s"
  by (simp_all add: sys_ok_def)

lemma keeps_simps [simp]: "keeps (Some (a, s)) = sys_ok s" "keeps None" "keeps_st (Some s) = sys_ok s" "keeps_st None"
  by (auto simp: keeps_def keeps_st_def)

lemma keeps_map [simp]: "keeps (map_option (Pair a) r) = keeps_st r"
  by (auto simp: keeps_def keeps_st_def)

lemma keeps_bind: "keeps_st r \<Longrightarrow> (\<And>s. sys_ok s \<Longrightarrow> keeps (f s)) \<Longrightarrow> keeps (Option.bind r f)"
  by (cases r) auto

lemma keeps_st_bind: "keeps_st r \<Longrightarrow> (\<And>s. sys_ok s \<Longrightarrow> keeps_st (f s)) \<Longrightarrow> keeps_st (Option.bind r f)"
  by (cases r) auto

lemma call_keeps:
  assumes "sys_ok s" "at_handle_cb s = Some cb" "call_cb cb cmd para s = (aec, rsp, s')"
  shows "sys_ok s' \<and> at_handle_cb s' = Some cb"
  using assms by (auto simp: call_cb_def sys_ok_def cb_keeps_def Let_def)

lemma dump_keeps: "sys_ok s \<Longrightarrow> keeps_st (at_dump_text t s)"
  by (simp add: at_dump_text_def)

lemma dump_cb: "at_dump_text t s = Some s' \<Longrightarrow> at_handle_cb s' = at_handle_cb s"
  by (auto simp: at_dump_text_def split: if_splits)

lemma show_keeps: "sys_ok s \<Longrightarrow> keeps_st (show_var d c s)"
  by (auto simp: show_var_def dump_keeps split: option.split bind_split)

lemma shows_keeps: "sys_ok s \<Longrightarrow> keeps_st (show_vars ds c s)"
  by (induction ds arbitrary: s) (auto intro!: keeps_st_bind show_keeps)

lemma notify_keeps: "sys_ok s \<Longrightarrow> sys_ok (snd (notify_cb cmd para s))"
  by (auto simp: notify_cb_def dest: call_keeps split: option.split prod.split)

lemma notify_keeps_Some: "sys_ok s \<Longrightarrow> keeps (Some (notify_cb cmd para s))"
  using notify_keeps[of s cmd para] by (cases "notify_cb cmd para s") simp

lemma getcfg_keeps: "sys_ok s \<Longrightarrow> keeps (at_getcfg key s)"
  by (auto simp: at_getcfg_def show_keeps split: option.split)

lemma setcfg_keeps:
  assumes "sys_ok s" "int32 (av_di v)"
  shows "keeps (at_setcfg (Some k) (Some v) s)"
proof (cases "find_var at_cfg_table k")
  case (Some d)
  then have "d \<in> set at_cfg_table" using cfg_vars.found by blast
  from put_keeps_ok[OF this, of v "at_cfg s"] show ?thesis
    using assms Some by (auto simp: at_setcfg_def sys_ok_def keeps_def bind_eq_Some_conv split: option.splits)
qed (use assms in \<open>simp add: at_setcfg_def\<close>)

lemma ssidtxt_keeps: "sys_ok s \<Longrightarrow> keeps (at_ssidtxt t s)"
  by (auto simp: at_ssidtxt_def keeps_def bind_eq_Some_conv sys_ok_def cfg_ok_def wr_block_def
      split: option.splits if_splits)

lemma status_keeps: "sys_ok s \<Longrightarrow> keeps (at_status v s)"
  by (auto simp: at_status_def Let_def shows_keeps show_keeps notify_keeps split: option.split)

lemma help_keeps: "sys_ok s \<Longrightarrow> keeps_st (help_lines cs s)"
  by (induction cs arbitrary: s) (auto simp: split_paired_all intro!: keeps_st_bind dump_keeps)

lemma gpio_keeps: "sys_ok s \<Longrightarrow> keeps_st (gpio_dump ps s)"
  by (induction ps arbitrary: s) (auto simp: split_paired_all intro!: keeps_st_bind dump_keeps)

lemma get_keeps: "sys_get s = (rc, x, s') \<Longrightarrow> sys_ok s \<Longrightarrow> sys_ok s' \<and> at_handle_cb s' = at_handle_cb s"
  by (auto simp: sys_get_def split: prod.splits)

lemma peek_keeps: "sys_peek s = (rc, x, s') \<Longrightarrow> sys_ok s \<Longrightarrow> sys_ok s' \<and> at_handle_cb s' = at_handle_cb s"
  by (auto simp: sys_peek_def split: prod.splits)

text \<open>The waiting loops.\<close>

lemma sock_fill_keeps:
  assumes "sock_fill n acc s = Some r"
  shows "sys_ok s \<longrightarrow> sys_ok (snd r) \<and> at_handle_cb (snd r) = at_handle_cb s"
proof (rule sock_fill.raw_induct[where P = "\<lambda>_ _ s r. sys_ok s \<longrightarrow> sys_ok (snd r) \<and> at_handle_cb (snd r) = at_handle_cb s",
      OF _ assms])
  fix f n acc s r
  assume IH: "\<And>n acc s r. f n acc s = Some r \<Longrightarrow> sys_ok s \<longrightarrow> sys_ok (snd r) \<and> at_handle_cb (snd r) = at_handle_cb s"
    and b: "(if n = 0 then Some (acc, s)
      else case sys_get s of
             (rc, x, s) \<Rightarrow>
               if rc = AQEC_OK
               then (case x of None \<Rightarrow> None | Some b \<Rightarrow> f (n - 1) (acc @ [b]) s)
               else f n acc s) = Some r"
  obtain rc x t where g: "sys_get s = (rc, x, t)" by (cases "sys_get s")
  show "sys_ok s \<longrightarrow> sys_ok (snd r) \<and> at_handle_cb (snd r) = at_handle_cb s"
    using b get_keeps[OF g] by (auto simp: g split: if_splits option.splits dest!: IH)
qed

lemma sockw_loop_keeps:
  assumes "sockw_loop sid len s = Some r"
  shows "sys_ok s \<longrightarrow> sys_ok (snd r)"
proof (rule sockw_loop.raw_induct[where P = "\<lambda>_ _ s r. sys_ok s \<longrightarrow> sys_ok (snd r)", OF _ assms], goal_cases)
  case (1 f sid len s r)
  show ?case
  proof
    assume ok: "sys_ok s"
    show "sys_ok (snd r)"
    proof (cases "0 < len")
      case True
      then obtain buf t where t: "sock_fill (nat (min len (int 1024))) [] s = Some (buf, t)"
        using 1(2) by (auto simp: Let_def bind_eq_Some_conv split: if_splits)
      then have "sys_ok t" using sock_fill_keeps ok by fastforce
      then show ?thesis using 1(2) t True
        by (auto simp: Let_def dest!: 1(1) dest: call_keeps split: option.splits prod.splits if_splits)
    next
      case False
      then show ?thesis using 1(2) ok by auto
    qed
  qed
qed

lemma mode_fill_keeps: "mode_fill n acc s = Some (b, s') \<Longrightarrow> sys_ok s \<Longrightarrow> sys_ok s' \<and> at_handle_cb s' = at_handle_cb s"
  by (induction n acc s rule: mode_fill.induct)
    (fastforce dest: get_keeps split: prod.splits if_splits option.splits)+

lemma mode_loop_keeps:
  assumes "mode_loop cb elen s = Some r"
  shows "sys_ok s \<and> at_handle_cb s = Some cb \<longrightarrow> sys_ok r"
proof (rule mode_loop.raw_induct[where P = "\<lambda>cb _ s r. sys_ok s \<and> at_handle_cb s = Some cb \<longrightarrow> sys_ok r", OF _ assms], goal_cases)
  case (1 f cb elen s r)
  show ?case
  proof
    assume ok: "sys_ok s \<and> at_handle_cb s = Some cb"
    obtain buf t where t: "mode_fill 1024 [] s = Some (buf, t)" using 1(2) by (auto simp: bind_eq_Some_conv)
    then have k: "sys_ok t" "at_handle_cb t = Some cb" using mode_fill_keeps ok by fastforce+
    obtain aec rsp u where u: "call_cb cb ACC_MODE (plain_para (U_mode buf)) t = (aec, rsp, u)"
      by (cases "call_cb cb ACC_MODE (plain_para (U_mode buf)) t")
    have "keeps_st (at_dump_text x t)" "keeps_st (at_dump_text x u)" for x
      using k call_keeps[OF k u] by (auto intro: dump_keeps)
    then show "sys_ok r" using 1 t u k call_keeps[OF k u]
      by (auto simp: keeps_st_def split: if_splits)
  qed
qed

lemma act_keeps: "sys_ok s \<Longrightarrow> keeps (Some (at_act s))"
  by (auto simp: at_act_def dest: call_keeps split: option.split prod.split)

lemma dump_ok: "at_dump_text t s = Some s' \<Longrightarrow> sys_ok s \<Longrightarrow> sys_ok s' \<and> at_handle_cb s' = at_handle_cb s"
  using dump_keeps[of s t] dump_cb[of t s s'] by (simp add: keeps_st_def)

lemma reset_keeps:
  assumes ok: "sys_ok s"
  shows "keeps (at_reset s)"
proof (cases "at_handle_cb s")
  case (Some cb)
  show ?thesis unfolding keeps_def
  proof (intro allI impI)
    fix a u
    assume "at_reset s = Some (a, u)"
    then obtain t where t: "at_dump_text (cstr ''Reboot...'' @ CRLF) s = Some t"
      "(case call_cb cb ACC_RST (plain_para U_none) t of (_, _, s) \<Rightarrow> Some (AEC_OK, s)) = Some (a, u)"
      using Some by (auto simp only: at_reset_def bind_eq_Some_conv option.case)
    obtain aec rsp v where v: "call_cb cb ACC_RST (plain_para U_none) t = (aec, rsp, v)"
      by (cases "call_cb cb ACC_RST (plain_para U_none) t")
    from dump_ok[OF t(1) ok] have "sys_ok t" "at_handle_cb t = Some cb" using Some by auto
    then show "sys_ok u" using call_keeps[OF _ _ v] t(2) v by simp
  qed
qed (use assms in \<open>simp add: at_reset_def\<close>)

lemma sockw_keeps: "sys_ok s \<Longrightarrow> keeps (at_sockw sid len s)"
  using sockw_loop_keeps by (fastforce simp: at_sockw_def keeps_def)

lemma mode_keeps: "sys_ok s \<Longrightarrow> keeps (at_mode s)"
proof (cases "at_handle_cb s")
  case (Some cb)
  assume ok: "sys_ok s"
  show ?thesis unfolding keeps_def
  proof (intro allI impI)
    fix a u
    assume "at_mode s = Some (a, u)"
    then obtain t where t: "at_dump_text (cstr ''Enter data mode.'' @ CRLF) s = Some t"
      "mode_loop cb (length (c_string (escape_seq (at_cfg s)))) t = Some u"
      using Some by (auto simp: at_mode_def Let_def bind_eq_Some_conv split: if_splits)
    show "sys_ok u" using dump_ok[OF t(1) ok] mode_loop_keeps[OF t(2)] Some by simp
  qed
qed (simp add: at_mode_def)

lemma sockon_keeps: "sys_ok s \<Longrightarrow> keeps (at_sockon h p pr i s)"
  by (auto simp: at_sockon_def dest: call_keeps intro: dump_keeps split: option.split prod.split)

lemma sockq_keeps: "sys_ok s \<Longrightarrow> keeps (at_sockq i s)"
  by (auto simp: at_sockq_def dest: call_keeps intro: dump_keeps split: option.split prod.split)

lemma sockc_keeps: "sys_ok s \<Longrightarrow> keeps (Some (at_sockc i s))"
  by (auto simp: at_sockc_def dest: call_keeps split: option.split prod.split)

lemma ping_keeps: "sys_ok s \<Longrightarrow> keeps (at_ping h s)"
  by (simp add: at_ping_def notify_keeps_Some)

lemma scan_keeps: "sys_ok s \<Longrightarrow> keeps (Some (at_scan m r s))"
  by (auto simp: at_scan_def notify_keeps_Some split: option.split)

lemmas op_keeps = act_keeps reset_keeps getcfg_keeps ssidtxt_keeps status_keeps sockw_keeps mode_keeps
  sockon_keeps sockq_keeps sockc_keeps ping_keeps scan_keeps notify_keeps_Some

text \<open>The parameters of a handler.\<close>

lemma without_keeps: "sys_ok s \<Longrightarrow> keeps (op s) \<Longrightarrow> keeps (without_parameters ptr s op)"
  by (auto simp: without_parameters_def split: bind_split)

lemma with_keeps:
  "sys_ok s \<Longrightarrow> (\<And>p vs n rc. at_get_parameters ptr ds 0 = Some (p, vs, n, rc) \<Longrightarrow> keeps (op p vs n))
    \<Longrightarrow> keeps (with_parameters ptr ds s op)"
  by (auto simp: with_parameters_def split: bind_split)

lemma equ_keeps:
  "sys_ok s \<Longrightarrow> (\<And>cs p vs n rc. at_get_parameters cs ds 0 = Some (p, vs, n, rc) \<Longrightarrow> keeps (op p vs n))
    \<Longrightarrow> keeps (equ_parameters ptr ds s op)"
  by (auto simp: equ_parameters_def intro!: with_keeps split: list.split)

text \<open>A value taken from the command line is a 32-bit integer.\<close>

lemma sint_int32: "int32 (sint (w :: u32))"
  using sint_range_size[of w] by (simp add: int32_def word_size)

lemma at_atoi_int32: "int32 (at_atoi t)"
proof -
  have pos: "0 \<le> foldl (\<lambda>v d. v * 10 + (uint d - 48)) a ds" if "0 \<le> a" "\<forall>d\<in>set ds. is_dec d" for a and ds :: "u8 list"
    using that by (induction ds arbitrary: a) (auto simp: is_dec_range)
  have v: "0 \<le> dec_value (takeWhile is_dec x)" for x
    unfolding dec_value_def by (intro pos) (auto dest: set_takeWhileD)
  obtain neg x where "at_atoi t = (if neg then max (- 2147483648) (- dec_value (takeWhile is_dec x))
      else min 2147483647 (dec_value (takeWhile is_dec x)))"
    unfolding at_atoi_def Let_def by blast
  then show ?thesis using v[of x] by (auto simp: int32_def)
qed

definition var_int32 :: "at_var \<Rightarrow> bool" where
  "var_int32 v = (case v of DI n \<Rightarrow> int32 n | _ \<Rightarrow> True)"

lemma value_int32: "var_int32 v \<Longrightarrow> int32 (av_di (value_of_var v))"
  by (auto simp: var_int32_def value_of_var_def value_of_bytes_def sint_int32 split: at_var.splits)

lemma store_int32: "store_bytes v bs = Some v' \<Longrightarrow> var_int32 v'"
  by (auto simp: store_bytes_def var_int32_def split: at_var.splits)

lemma var_int32_simps [simp]: "var_int32 (Bytes m)" "var_int32 (DI n) = int32 n" "var_int32 (HI w)"
  by (simp_all add: var_int32_def)

lemma get_int32:
  "get_text_para para pv opt = Some (p, ov, er, v) \<Longrightarrow> var_int32 pv \<Longrightarrow> var_int32 v"
  "get_hex_para para pv opt = Some (p, ov, er, v) \<Longrightarrow> var_int32 pv \<Longrightarrow> var_int32 v"
  "get_di_para para pv opt = Some (p, ov, er, v) \<Longrightarrow> var_int32 pv \<Longrightarrow> var_int32 v"
  "get_hi_para para pv opt = Some (p, ov, er, v) \<Longrightarrow> var_int32 pv \<Longrightarrow> var_int32 v"
  "get_ip_para para pv opt = Some (p, ov, er, v) \<Longrightarrow> var_int32 pv \<Longrightarrow> var_int32 v"
  unfolding get_text_para_def get_hex_para_def get_di_para_def get_hi_para_def get_ip_para_def Let_def
  by (cases pv; auto simp: bind_eq_Some_conv at_atoi_int32 dest: store_int32 split: if_splits option.splits)+

lemma get_para_int32:
  "get_para para d = Some (p, ov, er, v) \<Longrightarrow> var_int32 (pd_pvar d) \<Longrightarrow> var_int32 v"
  by (auto simp: get_para_def dest: get_int32 split: AT_PARA_TYPE.splits)

lemma get_one_int32:
  assumes "at_get_parameters para [d] 0 = Some (p, vs, n, rc)" "var_int32 (pd_pvar d)"
  shows "int32 (av_di (value_of_var (vs ! 0)))"
proof -
  have "\<exists>q ov er v. get_para para d = Some (q, ov, er, v) \<and> vs ! 0 = v"
    using assms(1) by (auto simp: at_get_parameters_def bind_eq_Some_conv split: if_splits)
  then show ?thesis using get_para_int32[OF _ assms(2)] value_int32 by metis
qed

lemma value_list_int32: "d \<in> set cmd_value_list \<Longrightarrow> var_int32 (pd_pvar d)"
  by (auto simp: cmd_value_list_def int32_def)

lemma setcfg_handler_keeps:
  assumes "sys_ok s"
  shows "keeps (setcfg_handler ptr s)"
proof -
  have "keeps (case find (\<lambda>d. pt_code (pd_pt d) = ty) cmd_value_list of
      None \<Rightarrow> Some (AEC_NOT_FOUND, s)
    | Some d \<Rightarrow> with_parameters p [d] s (\<lambda>_ vs paracnt.
        if paracnt \<noteq> 1 then Some (AEC_PARA_ERROR, s) else at_setcfg (Some key) (Some (value_of_var (vs ! 0))) s))" for ty p key
  proof (cases "find (\<lambda>d. pt_code (pd_pt d) = ty) cmd_value_list")
    case (Some d)
    then have d: "d \<in> set cmd_value_list" by (auto simp: find_Some_iff)
    have "keeps (with_parameters p [d] s (\<lambda>_ vs paracnt.
        if paracnt \<noteq> 1 then Some (AEC_PARA_ERROR, s) else at_setcfg (Some key) (Some (value_of_var (vs ! 0))) s))"
    proof (rule with_keeps[OF assms])
      fix p' vs n rc
      assume "at_get_parameters p [d] 0 = Some (p', vs, n, rc)"
      from get_one_int32[OF this value_list_int32[OF d]]
      show "keeps (if n \<noteq> 1 then Some (AEC_PARA_ERROR, s) else at_setcfg (Some key) (Some (value_of_var (vs ! 0))) s)"
        using setcfg_keeps[OF assms] assms by simp
    qed
    then show ?thesis using Some by simp
  qed (use assms in simp)
  then show ?thesis
    unfolding setcfg_handler_def Let_def using assms by (intro equ_keeps) auto
qed

lemmas handler_defs = act_handler_def reset_handler_def help_handler_def getcfg_handler_def ssidtxt_handler_def
  config_handler_def factory_handler_def save_handler_def status_handler_def ping_handler_def sockon_handler_def
  sockw_handler_def sockq_handler_def sockr_handler_def sockc_handler_def sockd_handler_def mode_handler_def
  wifi_handler_def reassociate_handler_def scan_handler_def

lemmas notify_ops = at_factory_def at_save_def at_sockr_def at_sockd_def at_wifi_def at_reassociate_def

lemma simple_handlers_keep:
  assumes "sys_ok s"
  shows "keeps (act_handler ptr s)" "keeps (reset_handler ptr s)" "keeps (help_handler ptr s)"
    "keeps (config_handler ptr s)" "keeps (factory_handler ptr s)" "keeps (save_handler ptr s)"
    "keeps (mode_handler ptr s)" "keeps (reassociate_handler ptr s)" "keeps (attention_handler ptr s)"
  unfolding handler_defs
  using assms by (auto intro!: without_keeps op_keeps
      simp: at_help_def at_config_def help_keeps shows_keeps notify_ops attention_handler_def split: bind_split)

lemma equ_handlers_keep:
  assumes "sys_ok s"
  shows "keeps (getcfg_handler ptr s)" "keeps (ssidtxt_handler ptr s)" "keeps (ping_handler ptr s)"
    "keeps (sockon_handler ptr s)" "keeps (sockw_handler ptr s)" "keeps (sockq_handler ptr s)"
    "keeps (sockr_handler ptr s)" "keeps (sockc_handler ptr s)" "keeps (sockd_handler ptr s)"
    "keeps (wifi_handler ptr s)"
  unfolding handler_defs Let_def
  using assms by (auto intro!: equ_keeps op_keeps simp: notify_ops)

lemma other_handlers_keep:
  assumes "sys_ok s"
  shows "keeps (status_handler ptr s)" "keeps (scan_handler ptr s)" "keeps (my_gpio_read ptr s)"
proof -
  show "keeps (status_handler ptr s)"
    using assms by (cases "rd ptr 0") (auto simp: status_handler_def intro!: without_keeps with_keeps op_keeps)
  show "keeps (scan_handler ptr s)"
    using assms by (cases "rd ptr 0") (auto simp: scan_handler_def Let_def intro!: without_keeps with_keeps op_keeps)
  show "keeps (my_gpio_read ptr s)"
    unfolding my_gpio_read_def
    using assms by (auto intro!: keeps_bind dump_keeps gpio_keeps)
qed

lemma handlers_keep: "h \<in> set at_handlers \<Longrightarrow> sys_ok s \<Longrightarrow> keeps (h ptr s)"
  unfolding at_handlers_def
  by (auto simp: simple_handlers_keep equ_handlers_keep other_handlers_keep setcfg_handler_keeps)

lemma match_from_range: "0 \<le> match_from i c cs \<Longrightarrow> match_from i c cs < int (i + length cs)"
  by (induction i c cs rule: match_from.induct) (auto split: if_splits)

lemma parse_cmd_keeps:
  assumes "sys_ok s"
  shows "keeps (at_parse_cmd line n s)"
proof -
  have "keeps ((at_handlers ! nat (at_match (Some c))) p s)" if "0 \<le> at_match (Some c)" for c p
  proof (rule handlers_keep[OF nth_mem assms])
    show "nat (at_match (Some c)) < length at_handlers"
      using match_from_range[of 0 c at_command_table] that
      by (simp add: at_match_def table_size nat_less_iff)
  qed
  then show ?thesis using assms
    by (auto simp: at_parse_cmd_def Let_def split: bind_split sum.splits)
qed

lemma response_keeps: "sys_ok s \<Longrightarrow> keeps_st (at_response a s)"
  by (auto simp: at_response_def dump_keeps split: option.split)

lemma parse_line_keeps:
  assumes "sys_ok s"
  shows "keeps_st (at_parse_line s)"
proof -
  have r: "sys_ok s \<Longrightarrow> sys_ok (cache_reset s)" for s :: "('a, 'b) at_sys" by (simp add: cache_reset_def)
  have tl: "keeps_st (do { (aec, s) \<leftarrow> at_parse_cmd (cc_buf (at_cache s)) (cc_cnt (at_cache s)) s;
      s \<leftarrow> at_response aec s; Some (cache_reset s) })" if "sys_ok s" for s :: "('a, 'b) at_sys"
    using parse_cmd_keeps[OF that, of "cc_buf (at_cache s)" "cc_cnt (at_cache s)"] r
    by (fastforce simp: keeps_def dest: response_keeps[unfolded keeps_st_def, rule_format] split: bind_split
        intro: keeps_st_bind response_keeps)
  have "keeps_st (if localecho1 (at_cfg s) \<noteq> 0
      then do {
        b \<leftarrow> wr (cc_buf (at_cache s)) (cc_cnt (at_cache s)) 0;
        at_dump_text (c_string b) (s\<lparr>at_cache := (at_cache s)\<lparr>cc_buf := b\<rparr>\<rparr>)
      }
      else Some s)"
    using assms by (cases "wr (cc_buf (at_cache s)) (cc_cnt (at_cache s)) 0") (auto intro: dump_keeps)
  then show ?thesis unfolding at_parse_line_def by (rule keeps_st_bind) (rule tl)
qed

lemma put_ok: "cache_put c s = Some s' \<Longrightarrow> sys_ok s' = sys_ok s"
  by (auto simp: cache_put_def bind_eq_Some_conv)

lemma reset_ok: "sys_ok (cache_reset s) = sys_ok s"
  by (simp add: cache_reset_def)

lemma parse_byte_keeps:
  assumes "sys_ok s" "at_parse_byte tmp flag s = Some r"
  shows "case r of Inl (s', _) \<Rightarrow> sys_ok s' | Inr (s', _) \<Rightarrow> sys_ok s'"
proof (cases "tmp = AT_CR")
  case True
  then obtain s1 where p: "cache_put AT_CR s = Some s1"
    using assms(2) by (cases "cache_put AT_CR s") (auto simp: at_parse_byte_def)
  obtain rc x s2 where k: "sys_peek s1 = (rc, x, s2)" by (cases "sys_peek s1")
  obtain rc' x' s3 where l: "sys_peek s2 = (rc', x', s3)" by (cases "sys_peek s2")
  have ok: "sys_ok s1" "sys_ok s2" "sys_ok s3"
    using put_ok[OF p] assms(1) peek_keeps[OF k] peek_keeps[OF l] by auto
  show ?thesis
    using assms(2) True ok
    by (auto simp: at_parse_byte_def p k l bind_eq_Some_conv reset_ok split: if_splits dest!: put_ok)
next
  case False
  then show ?thesis
    using assms by (auto simp: at_parse_byte_def bind_eq_Some_conv reset_ok split: if_splits dest!: put_ok)
qed

lemma parse_step_keeps:
  assumes "sys_ok s" "at_parse_step (s, f) = Some (s', f')"
  shows "sys_ok s'"
proof -
  obtain rc x t where g: "sys_get s = (rc, x, t)" by (cases "sys_get s")
  have t: "sys_ok t" using get_keeps[OF g assms(1)] by simp
  have pl: "sys_ok u'" if "at_parse_line u = Some u'" "sys_ok u" for u u' :: "('a, 'b) at_sys"
    using parse_line_keeps[OF that(2)] that(1) by (simp add: keeps_st_def)
  show ?thesis
    using assms(2) t parse_byte_keeps[OF t]
    by (fastforce simp: at_parse_step_def g bind_eq_Some_conv dest: pl split: if_splits sum.splits prod.splits)
qed

text \<open>Through every round of \<open>at_parse\<close> that returns, a well-formed configuration stays well formed, as long as the
  application's callback keeps it so.  Which lines return is the subject of \<open>AtSafety\<close>.\<close>

theorem at_parse_keeps_config:
  assumes "at_parse_rounds n (s, f) = Some (s', f')" "cfg_ok (at_cfg s)"
    "\<forall>cb. at_handle_cb s = Some cb \<longrightarrow> cb_keeps cb"
  shows "cfg_ok (at_cfg s')"
proof -
  have "sys_ok s \<Longrightarrow> at_parse_rounds n (s, f) = Some (s', f') \<Longrightarrow> sys_ok s'" for s f
  proof (induction n arbitrary: s f)
    case (Suc n)
    then show ?case by (auto simp: bind_eq_Some_conv dest: parse_step_keeps)
  qed simp
  then show ?thesis using assms by (simp add: sys_ok_def)
qed

section \<open>Examples\<close>

text \<open>A driver that has received up to 512 bytes, and the layer on top of it.\<close>

definition serial_got :: "u8 list \<Rightarrow> serial_priv" where
  "serial_got bs = isr_state (serial_rx_callback ((serial_priv_zero 0 True)\<lparr>sp_state := SERIAL_STATE_START\<rparr>) bs)"

lemma serial_got:
  assumes "length bs \<le> 512"
  shows "serial_ready (serial_got bs)" "concat (chunks (serial_got bs)) = bs"
proof -
  show "serial_ready (serial_got bs)"
    unfolding serial_got_def by (rule rx_callback_ready[OF serial_ready_zero])
  let ?z = "(serial_priv_zero 0 True)\<lparr>sp_state := SERIAL_STATE_START\<rparr>"
  have z: "serial_inv ?z" "chunks ?z = []" "sc_cnt ?z = 0"
    by (simp add: serial_inv_frame) (simp_all add: chunks_def serial_priv_zero_def)
  show "concat (chunks (serial_got bs)) = bs"
    unfolding serial_got_def using rx_callback_inv(2)[OF z(1), of bs] z(2,3) assms
    using concat_delivered[of 0 bs] by simp
qed

definition demo_got :: "u8 list \<Rightarrow> (serial_priv, (AT_CALLBACK_CMD \<times> at_para_u) list) at_sys" where
  "demo_got bs = (demo_sys (serial_got bs) [])\<lparr>at_handle_cb := Some log_cb\<rparr>"

lemma demo_got:
  assumes "length bs \<le> 512"
  shows "line_ready (demo_got bs)" "unread (demo_got bs) = bs" "holds (demo_got bs) []"
    "at_handle_cb (demo_got bs) = Some log_cb" "at_cfg (demo_got bs) = demo_cfg"
  using serial_got[OF assms] demo_queue_inv
  by (simp_all add: line_ready_def unread_def demo_got_def demo_sys_def holds_def)

lemma at_parse_cmd_dispatch_witness:
  "at_parse_cmd (cstr ''AT&W'' @ [10]) 5 demo_one = save_handler [10] demo_one"
proof -
  have n: "\<forall>c\<in>set (cstr ''AT&W''). name_char c" "\<not> name_char 10" "cstr ''AT&W'' = cstr (fst (at_command_table ! 9))"
    by (simp_all add: cstr_def name_char_def at_command_table_def)
  show ?thesis
    using conjunct2[OF conjunct2[OF at_parse_cmd_dispatch[OF n(1,2), of 5 "[]" demo_one]], rule_format, OF _ _ n(3)]
    by (simp add: table_size(1) at_handlers_def)
qed

lemma at_parse_collects_line_witness:
  "\<exists>s. at_parse_rounds 3 (demo_got [65, 84, 10], False) = map_option (\<lambda>s. (s, False)) (at_parse_line s)
    \<and> unread s = [] \<and> line_at_hand (demo_got [65, 84, 10]) s [65, 84, 10, 10]"
proof -
  have "unread (demo_got [65, 84, 10]) = [65, 84] @ AT_LF # []" using demo_got(2)[of "[65, 84, 10]"] by simp
  from at_parse_collects_line[OF _ _ this] show ?thesis
    using demo_got(1,3)[of "[65, 84, 10]"] by (auto simp: numeral_3_eq_3)
qed

lemma at_parse_leaves_linefeed_witness:
  "\<exists>s. at_parse_rounds 3 (demo_got [65, 84, 13, 10], False) = map_option (\<lambda>s. (s, False)) (at_parse_line s)
    \<and> unread s = [10]"
proof -
  have "unread (demo_got [65, 84, 13, 10]) = [65, 84] @ AT_CR # AT_LF # []"
    using demo_got(2)[of "[65, 84, 13, 10]"] by simp
  from at_parse_leaves_linefeed[OF _ _ this] show ?thesis
    using demo_got(1,3)[of "[65, 84, 13, 10]"] by (auto simp: numeral_3_eq_3)
qed

text \<open>1024 characters in the queue and a carriage return in the driver.\<close>

definition demo_full :: "(serial_priv, (AT_CALLBACK_CMD \<times> at_para_u) list) at_sys" where
  "demo_full = (demo_got [13])\<lparr>at_queue :=
     \<lparr>q_qbuf = replicate 1024 65, q_qsize = 1024, q_qcnt = 1024, q_ridx = 0, q_widx = 0\<rparr>\<rparr>"

lemma at_parse_cr_overflow_witness: "at_parse_rounds 1025 (demo_full, False) = None"
proof (rule at_parse_cr_overflow)
  show "line_ready demo_full" "holds demo_full []"
    using demo_got(1,3)[of "[13]"]
    by (simp_all add: demo_full_def line_ready_def q_inv_def holds_def)
  have "ring (replicate 1024 (65 :: u8)) 0 1024 = replicate 1024 65"
    by (rule nth_equalityI) (simp_all add: ring_def)
  then show "unread demo_full = replicate 1024 65 @ AT_CR # []"
    using demo_got(2)[of "[13]"] demo_queue_inv(2)
    by (simp add: demo_full_def unread_def q_contents_def demo_got_def demo_sys_def)
qed simp_all

lemma sockw_data_shifted_witness:
  "\<exists>s. sockw_handler (cstr ''=0,3'' @ CRLF) (demo_got [10, 97, 98, 99]) = Some (AEC_OK, s)
    \<and> at_world s = [(ACC_SOCKW, U_sockw 0 [10, 97, 98])] \<and> unread s = [99]"
proof -
  let ?s = "demo_got [10, 97, 98, 99]"
  have d: "line_ready ?s" "unread ?s = AT_LF # [97, 98, 99]" "at_handle_cb ?s = Some log_cb"
    using demo_got[of "[10, 97, 98, 99]"] by simp_all
  have n: "print_d 3 = [51]" "at_atoi [48] = 0" by code_simp+
  obtain s1 where s1: "unread s1 = [99]" "line_moved ?s s1"
    "sockw_handler (AT_EQU # [48] @ AT_SEPARATOR # print_d (int 3) @ AT_CR # AT_LF # []) ?s =
       (case call_cb log_cb ACC_SOCKW (plain_para (U_sockw (at_atoi [48]) (AT_LF # butlast [97, 98, 99]))) s1 of
          (aec, _, s2) \<Rightarrow> Some (if aec = AEC_OK then AEC_OK else AEC_SEND_FAIL, s2))"
    using sockw_data_shifted[OF d(1,3,2), of 3 "[48]" "[]"] by (auto simp: plain_def)
  have "at_world s1 = []" using line_moved_sel(9)[OF s1(2)] by (simp add: demo_got_def demo_sys_def)
  moreover have "cstr ''=0,3'' @ CRLF = AT_EQU # [48] @ AT_SEPARATOR # print_d (int 3) @ AT_CR # AT_LF # []"
    using n(1) by (simp add: cstr_def)
  ultimately show ?thesis using s1(1,3)
    by (simp add: n(2) call_cb_def log_cb_def Let_def plain_para_def unread_def)
qed

text \<open>The line \<open>AT\<close> runs to its answer.\<close>

lemma demo_at_runs:
  "\<exists>s. at_parse_rounds 3 (demo_got [65, 84, 10], False) = Some (s, False)"
proof -
  let ?s = "demo_got [65, 84, 10]"
  have d: "line_ready ?s" "unread ?s = [65, 84] @ [AT_LF]" "holds ?s []" "at_cfg ?s = demo_cfg"
    using demo_got[of "[65, 84, 10]"] by simp_all
  obtain s1 where s1: "at_parse_rounds (length [65, 84 :: u8]) (?s, False) = Some (s1, False)" "line_ready s1"
    "unread s1 = [AT_LF]" "holds s1 [65, 84]" "collected ?s s1"
    using rounds_chars[OF d(1,2,3)] by auto
  obtain s2 where s2: "at_parse_step (s1, False) = map_option (\<lambda>s. (s, False)) (at_parse_line s2)"
    "holds s2 [65, 84, 10, 10]" "collected s1 s2"
    using step_LF[OF s1(2-4)] by auto
  define tail where "tail = drop 4 (cc_buf (at_cache s2))"
  have len: "length [65, 84, 10, 10 :: u8] = 4" by simp
  have "take 4 (cc_buf (at_cache s2)) = [65, 84, 10, 10]" "cc_cnt (at_cache s2) = 4"
    using s2(2) unfolding holds_def len by blast+
  then have buf: "cc_buf (at_cache s2) = [65, 84] @ AT_LF # 10 # tail" "cc_cnt (at_cache s2) = 4"
    using append_take_drop_id[of 4 "cc_buf (at_cache s2)"] unfolding tail_def by (metis append_Cons append_Nil)+
  have sc: "cmd_scan 4 ([65, 84] @ AT_LF # 10 # tail) [] = Some (Inr ([65, 84], AT_LF # 10 # tail))"
    by (subst cmd_scan_name) (simp_all add: name_char_def)
  have "at_match (Some [65, 84]) = 0" by code_simp
  then have "at_parse_cmd (cc_buf (at_cache s2)) (cc_cnt (at_cache s2)) s2 = Some (AEC_OK, s2)"
    unfolding buf at_parse_cmd_def sc
    by (simp add: at_handlers_def attention_handler_def at_get_parameters_def at_get_newline_def)
  moreover have "at_response AEC_OK s2 \<noteq> None"
    using dump_text_ok[of "CRLF @ cstr ''OK'' @ CRLF" s2] by (simp add: at_response_def response_text_def cstr_def)
  moreover have "localecho1 (at_cfg s2) = 0"
    using collected_sel(1)[OF s1(5)] collected_sel(1)[OF s2(3)] d(4) by (simp add: demo_cfg_def)
  ultimately obtain s3 where "at_parse_line s2 = Some s3" by (auto simp: at_parse_line_def)
  then have "at_parse_rounds (length [65, 84 :: u8] + 1) (?s, False) = Some (s3, False)"
    unfolding rounds_add using s1(1) s2(1) by simp
  then show ?thesis by (simp add: numeral_3_eq_3)
qed

lemma at_parse_keeps_config_witness:
  "\<exists>s. at_parse_rounds 3 (demo_got [65, 84, 10], False) = Some (s, False) \<and> cfg_ok (at_cfg s)"
proof -
  have "cb_keeps log_cb" by (simp add: cb_keeps_def log_cb_def)
  moreover obtain s where s: "at_parse_rounds 3 (demo_got [65, 84, 10], False) = Some (s, False)"
    using demo_at_runs by blast
  ultimately show ?thesis
    using at_parse_keeps_config[OF s] demo_got(4,5)[of "[65, 84, 10]"] demo_cfg_ok by auto
qed

end
