(* ===== verification/AtSafety.thy ===== *)
theory AtSafety
  imports AtCommand
begin

text \<open>
  The interpreter of \<^verbatim>\<open>src/atcmd/at_command.c\<close> as a whole: every command line that fits the buffer is
  parsed within it and answered, and leaves the layer ready for the next one, with the exceptions that are
  named here (two settings that are copied without a check of their length, and the commands that wait for data).
\<close>

unbundle bit_operations_syntax

section \<open>How much of the line a parser reads\<close>

lemma ex_bool [simp]: "(\<exists>b. b)" "(\<exists>b. \<not> b)"
  by (rule exI[of _ True], simp) (rule exI[of _ False], simp)

lemma para_end_total:
  assumes "2 \<le> length l"
  obtains "para_end l = Some None"
  | r ov et where "para_end l = Some (Some (r, ov, et))" "length l \<le> length r + 2" "et = AET_PARA \<or> et = AET_LINE"
      "ov \<longleftrightarrow> et = AET_LINE"
proof -
  obtain c d ds where l: "l = c # d # ds" using assms by (metis One_nat_def Suc_le_length_iff numeral_2_eq_2)
  show ?thesis
  proof (cases "plain c")
    case True
    then show ?thesis using that(1) l by (simp add: plain_def)
  next
    case False
    then consider "c = AT_SEPARATOR" | "c = AT_LF" | "c = AT_CR" by (auto simp: plain_def)
    then show ?thesis
    proof cases
      case 1
      then show ?thesis using that(2)[of "d # ds" False AET_PARA] l by simp
    next
      case 2
      then show ?thesis using that(2)[of "d # ds" True AET_LINE] l by simp
    next
      case 3
      then show ?thesis using that(2)[of "if d = AT_LF then ds else d # ds" True AET_LINE] l by simp
    qed
  qed
qed

lemma text_loop_total:
  assumes "length buf \<le> lim" "lim \<le> 64" "lim + 2 \<le> length l + length buf"
  shows "\<exists>r ov et t. text_loop lim l buf = Some (r, ov, et, t) \<and> length l + length buf \<le> length r + lim + 2"
  using assms
proof (induction l arbitrary: buf)
  case (Cons c cs)
  show ?case
  proof (cases "length buf < lim")
    case True
    have "2 \<le> length (c # cs)" using Cons.prems True by simp
    then show ?thesis
    proof (cases rule: para_end_total)
      case 1
      have "\<exists>r ov et t. text_loop lim cs (buf @ [c]) = Some (r, ov, et, t) \<and> length cs + length (buf @ [c]) \<le> length r + lim + 2"
        using Cons.prems True by (intro Cons.IH) auto
      then show ?thesis using 1 True Cons.prems(2) by (simp del: para_end.simps)
    next
      case (2 r ov et)
      then show ?thesis using True by (simp del: para_end.simps)
    qed
  qed (use Cons.prems in simp)
qed simp

lemma digit_loop_total:
  assumes "length buf \<le> 11" "13 \<le> length l + length buf"
  shows "\<exists>r ov er et t. digit_loop ok l buf = Some (r, ov, er, et, t) \<and> length l + length buf \<le> length r + 13"
  using assms
proof (induction l arbitrary: buf)
  case (Cons c cs)
  show ?case
  proof (cases "length buf < 11")
    case True
    have "2 \<le> length (c # cs)" using Cons.prems True by simp
    then show ?thesis
    proof (cases rule: para_end_total)
      case 1
      have "\<exists>r ov er et t. digit_loop ok cs (buf @ [c]) = Some (r, ov, er, et, t) \<and> length cs + length (buf @ [c]) \<le> length r + 13"
        using Cons.prems True by (intro Cons.IH) auto
      then show ?thesis using 1 True by (simp del: para_end.simps)
    next
      case (2 r ov et)
      then show ?thesis using True by (simp del: para_end.simps)
    qed
  qed (use Cons.prems in simp)
qed simp

lemma ip_loop_total:
  assumes "4 * length strbuf + length decbuf \<le> 16" "length decbuf \<le> 3" "18 \<le> length l + 4 * length strbuf + length decbuf"
  shows "\<exists>r ov er et t d. ip_loop l strbuf decbuf = Some (r, ov, er, et, t, d)
    \<and> length l + 4 * length strbuf + length decbuf \<le> length r + 18"
  using assms
proof (induction l arbitrary: strbuf decbuf)
  case (Cons c cs)
  show ?case
  proof (cases "length strbuf < 4")
    case True
    have "2 \<le> length (c # cs)" using Cons.prems True by simp
    then show ?thesis
    proof (cases rule: para_end_total)
      case 1
      have dot: "\<exists>r ov er et t d. ip_loop cs (strbuf @ [b]) [] = Some (r, ov, er, et, t, d)
          \<and> length cs + 4 * length (strbuf @ [b]) + length ([] :: u8 list) \<le> length r + 18" for b
        using Cons.prems True by (intro Cons.IH) auto
      have dig: "\<exists>r ov er et t d. ip_loop cs strbuf (decbuf @ [c]) = Some (r, ov, er, et, t, d)
          \<and> length cs + 4 * length strbuf + length (decbuf @ [c]) \<le> length r + 18" if "length decbuf < 3"
        using Cons.prems True that by (intro Cons.IH) auto
      show ?thesis
      proof (cases "c = AT_DOT")
        case dotc: True
        show ?thesis
        proof (cases "ip_number decbuf")
          case None
          then show ?thesis using 1 True dotc Cons.prems by (simp del: para_end.simps)
        next
          case (Some b)
          then show ?thesis using 1 True dotc Cons.prems dot[of b] by (auto simp del: para_end.simps)
        qed
      qed (use 1 True dig Cons.prems in \<open>auto simp del: para_end.simps\<close>)
    next
      case (2 r ov et)
      then show ?thesis using True Cons.prems by (simp del: para_end.simps)
    qed
  qed (use Cons.prems in simp)
qed simp

lemma hex_loop_total:
  assumes "2 * length strbuf + length hexbuf \<le> 2 * lim" "length hexbuf \<le> 2" "lim \<le> 64"
    "2 * lim + 2 \<le> length l + 2 * length strbuf + length hexbuf"
  shows "\<exists>r ov er et t h. hex_loop lim l strbuf hexbuf = Some (r, ov, er, et, t, h)
    \<and> length l + 2 * length strbuf + length hexbuf \<le> length r + 2 * lim + 2
    \<and> length t \<le> lim \<and> (et = 0 \<or> length t < lim)"
  using assms
proof (induction lim l strbuf hexbuf rule: hex_loop.induct)
  case (1 lim l strbuf hexbuf)
  show ?case
  proof (cases "length strbuf < lim")
    case True
    have "2 \<le> length l" using "1.prems" True by simp
    then show ?thesis
    proof (cases rule: para_end_total)
      case e: 1
      show ?thesis
      proof (cases "length hexbuf < 2")
        case h: True
        obtain c cs where l: "l = c # cs" using \<open>2 \<le> length l\<close> by (cases l) auto
        show ?thesis
        proof (cases "is_hex c")
          case hc: True
          have "\<exists>r ov er et t h. hex_loop lim cs strbuf (hexbuf @ [c]) = Some (r, ov, er, et, t, h)
              \<and> length cs + 2 * length strbuf + length (hexbuf @ [c]) \<le> length r + 2 * lim + 2
              \<and> length t \<le> lim \<and> (et = 0 \<or> length t < lim)"
            using "1.prems" True h l by (intro "1.IH"(1)[OF True e refl h l hc]) auto
          then show ?thesis using e h True l hc by (subst hex_loop.simps) (simp del: para_end.simps)
        next
          case False
          then show ?thesis using e h True l "1.prems" by (subst hex_loop.simps) (simp del: para_end.simps)
        qed
      next
        case h: False
        have s: "length strbuf < AT_PARA_MAX_SIZE" using True "1.prems"(3) by simp
        have "\<exists>r ov er et t h. hex_loop lim l (strbuf @ [hex_byte hexbuf]) [] = Some (r, ov, er, et, t, h)
            \<and> length l + 2 * length (strbuf @ [hex_byte hexbuf]) + length ([] :: u8 list) \<le> length r + 2 * lim + 2
            \<and> length t \<le> lim \<and> (et = 0 \<or> length t < lim)"
          using "1.prems" True h by (intro "1.IH"(2)[OF True e refl h s]) auto
        moreover have "length hexbuf = 2" using h "1.prems"(2) by simp
        ultimately show ?thesis using e h True s by (subst hex_loop.simps) (simp del: para_end.simps)
      qed
    next
      case (2 r ov et)
      then show ?thesis using True "1.prems" by (subst hex_loop.simps) auto
    qed
  next
    case False
    then show ?thesis using "1.prems" by (subst hex_loop.simps) simp
  qed
qed

text \<open>A descriptor whose variable is of its type and has room for the parameter, and the values it can be given.\<close>

definition para_fits :: "at_para_descriptor_t \<Rightarrow> bool" where
  "para_fits d \<longleftrightarrow>
     (case pd_pvar d of
        Bytes m \<Rightarrow> SIZE_LIMIT (pd_option d) \<le> 64 \<and> SIZE_LIMIT (pd_option d) \<le> length m
          \<and> (pd_pt d = APT_TEXT \<and> 0 \<in> set m \<or> pd_pt d = APT_HEX \<or> pd_pt d = APT_IP \<and> 4 \<le> length m)
      | DI _ \<Rightarrow> pd_pt d = APT_DI
      | HI _ \<Rightarrow> pd_pt d = APT_HI)"

definition var_like :: "at_para_descriptor_t \<Rightarrow> at_var \<Rightarrow> bool" where
  "var_like d v \<longleftrightarrow>
     (case (pd_pvar d, v) of
        (Bytes m, Bytes m') \<Rightarrow> length m' = length m \<and> (pd_pt d = APT_TEXT \<longrightarrow> 0 \<in> set m')
      | (DI _, DI _) \<Rightarrow> True
      | (HI _, HI _) \<Rightarrow> True
      | _ \<Rightarrow> False)"

lemma var_like_self: "para_fits d \<Longrightarrow> var_like d (pd_pvar d)"
  by (auto simp: var_like_def para_fits_def split: at_var.splits)

lemma store_bytes_fits:
  "length bs \<le> length m \<Longrightarrow> store_bytes (Bytes m) bs = Some (Bytes (bs @ drop (length bs) m))"
  by (simp add: store_bytes_def wr_block_def)

text \<open>A parameter is at most 132 characters: 64 bytes of hex data and what may follow them.\<close>

lemma get_para_total:
  assumes "para_fits d" "132 \<le> length l"
  shows "\<exists>p ov er v. get_para l d = Some (p, ov, er, v) \<and> length l \<le> length p + 132 \<and> var_like d v"
proof (cases "pd_pt d")
  case APT_TEXT
  then obtain m where m: "pd_pvar d = Bytes m" "SIZE_LIMIT (pd_option d) \<le> 64" "SIZE_LIMIT (pd_option d) \<le> length m" "0 \<in> set m"
    using assms(1) by (auto simp: para_fits_def split: at_var.splits)
  obtain r ov et t where t: "text_loop (SIZE_LIMIT (pd_option d)) l [] = Some (r, ov, et, t)" "length l \<le> length r + SIZE_LIMIT (pd_option d) + 2"
    using text_loop_total[of "[]" "SIZE_LIMIT (pd_option d)" l] m(2) assms(2) by auto
  then show ?thesis using APT_TEXT m
    by (auto simp: get_para_def get_text_para_def store_bytes_fits var_like_def)
next
  case APT_HEX
  then obtain m where m: "pd_pvar d = Bytes m" "SIZE_LIMIT (pd_option d) \<le> 64" "SIZE_LIMIT (pd_option d) \<le> length m"
    using assms(1) by (auto simp: para_fits_def split: at_var.splits)
  obtain r ov er et t h where t: "hex_loop (SIZE_LIMIT (pd_option d)) l [] [] = Some (r, ov, er, et, t, h)"
    "length l \<le> length r + 2 * SIZE_LIMIT (pd_option d) + 2" "length t \<le> SIZE_LIMIT (pd_option d)" "et = 0 \<or> length t < SIZE_LIMIT (pd_option d)"
    using hex_loop_total[of "[]" "[]" "SIZE_LIMIT (pd_option d)" l] m(2) assms(2) by auto
  then show ?thesis using APT_HEX m
    by (auto simp: get_para_def get_hex_para_def store_bytes_fits var_like_def)
next
  case APT_DI
  then obtain n where n: "pd_pvar d = DI n" using assms(1) by (auto simp: para_fits_def split: at_var.splits)
  obtain r ov er et t where "digit_loop is_dec l [] = Some (r, ov, er, et, t)" "length l \<le> length r + 13"
    using digit_loop_total[of "[]" l is_dec] assms(2) by auto
  then show ?thesis using APT_DI n by (auto simp: get_para_def get_di_para_def var_like_def)
next
  case APT_HI
  then obtain n where n: "pd_pvar d = HI n" using assms(1) by (auto simp: para_fits_def split: at_var.splits)
  obtain r ov er et t where "digit_loop is_hex l [] = Some (r, ov, er, et, t)" "length l \<le> length r + 13"
    using digit_loop_total[of "[]" l is_hex] assms(2) by auto
  then show ?thesis using APT_HI n by (auto simp: get_para_def get_hi_para_def var_like_def)
next
  case APT_IP
  then obtain m where m: "pd_pvar d = Bytes m" "4 \<le> length m"
    using assms(1) by (auto simp: para_fits_def split: at_var.splits)
  obtain r ov er et t dd where "ip_loop l [] [] = Some (r, ov, er, et, t, dd)" "length l \<le> length r + 18"
    using ip_loop_total[of "[]" "[]" l] assms(2) by auto
  then show ?thesis using APT_IP m
    by (auto simp: get_para_def get_ip_para_def Let_def store_bytes_fits var_like_def split: option.split)
qed

lemma parameters_loop_total:
  assumes "list_all para_fits ds" "132 * length ds \<le> length l"
  shows "\<exists>p vs n er. parameters_loop l ds = Some (p, vs, n, er) \<and> length l \<le> length p + 132 * length ds \<and> list_all2 var_like ds vs"
  using assms
proof (induction ds arbitrary: l)
  case (Cons d ds)
  obtain p ov er v where g: "get_para l d = Some (p, ov, er, v)" "length l \<le> length p + 132" "var_like d v"
    using get_para_total[of d l] Cons.prems by auto
  show ?case
  proof (cases "ov \<or> er")
    case True
    have "list_all2 var_like ds (map pd_pvar ds)"
      using Cons.prems(1) by (auto simp: list_all2_conv_all_nth list_all_length var_like_self)
    then show ?thesis using g True by auto
  next
    case False
    have "\<exists>q vs n er. parameters_loop p ds = Some (q, vs, n, er) \<and> length p \<le> length q + 132 * length ds \<and> list_all2 var_like ds vs"
      using Cons.prems g(2) by (intro Cons.IH) auto
    then show ?thesis using g False by auto
  qed
qed simp

lemma at_get_parameters_total:
  assumes "list_all para_fits ds" "132 * length ds \<le> length l" "2 \<le> length l"
  shows "\<exists>p vs n rc. at_get_parameters l ds pc = Some (p, vs, n, rc) \<and> length l \<le> length p + 132 * length ds
    \<and> list_all2 var_like ds vs"
proof (cases "ds = []")
  case True
  have "0 < length l" "1 < length l" using assms(3) by linarith+
  then show ?thesis using True by (auto simp: at_get_parameters_def at_get_newline_def)
next
  case False
  then show ?thesis using parameters_loop_total[OF assms(1,2)] by (auto simp: at_get_parameters_def)
qed

section \<open>The state between two commands\<close>

text \<open>A status that can be printed, and a callback that keeps configuration and status so and answers with
  integers.\<close>

definition sts_ok :: "at_status_t \<Rightarrow> bool" where
  "sts_ok t \<longleftrightarrow> int32 (sts_wifi_num_assoc t) \<and> length (sts_ip_ipaddr t) = 4 \<and> length (sts_ip_netmask t) = 4
     \<and> length (sts_ip_gw t) = 4 \<and> length (sts_ip_dns t) = 4 \<and> int32 (sts_ip_sock_open t) \<and> int32 (sts_ip_sockd_port t)"

definition cb_fine :: "'w handle_cb \<Rightarrow> bool" where
  "cb_fine cb \<longleftrightarrow> cb_keeps cb \<and> (\<forall>cmd para c st w. sts_ok st \<longrightarrow> sts_ok (cr_sts (cb cmd para c st w)))
     \<and> (\<forall>cmd para c st w. int32 (rsp_vptr (cr_rsp (cb cmd para c st w))))"

definition fine :: "('e, 'w) at_sys \<Rightarrow> bool" where
  "fine s \<longleftrightarrow> cfg_ok (at_cfg s) \<and> sts_ok (at_sts s) \<and> (\<forall>cb. at_handle_cb s = Some cb \<longrightarrow> cb_fine cb)
     \<and> (\<forall>p. int32 (at_pins s p))"

text \<open>What no command but those that wait for data touches: the line and the buffer.\<close>

definition kept :: "('e, 'w) at_sys \<Rightarrow> ('e, 'w) at_sys \<Rightarrow> bool" where
  "kept s s' \<longleftrightarrow> at_queue s' = at_queue s \<and> at_queue_cb s' = at_queue_cb s \<and> at_source s' = at_source s \<and> at_cache s' = at_cache s"

lemma kept_refl [simp]: "kept s s"
  by (simp add: kept_def)

lemma kept_trans: "kept s t \<Longrightarrow> kept t u \<Longrightarrow> kept s u"
  by (simp add: kept_def)

definition goes :: "('e, 'w) at_sys \<Rightarrow> ('a \<times> ('e, 'w) at_sys) option \<Rightarrow> bool" where
  "goes s r \<longleftrightarrow> (\<exists>a s'. r = Some (a, s') \<and> fine s' \<and> kept s s')"

definition goes_st :: "('e, 'w) at_sys \<Rightarrow> ('e, 'w) at_sys option \<Rightarrow> bool" where
  "goes_st s r \<longleftrightarrow> (\<exists>s'. r = Some s' \<and> fine s' \<and> kept s s')"

lemma goes_simps [simp]:
  "goes s (Some (a, s')) \<longleftrightarrow> fine s' \<and> kept s s'" "\<not> goes s None" "goes_st s (Some s') \<longleftrightarrow> fine s' \<and> kept s s'"
  "goes s (map_option (Pair a) r) \<longleftrightarrow> goes_st s r"
  by (auto simp: goes_def goes_st_def)

lemma goes_st_bind: "goes_st s r \<Longrightarrow> (\<And>s'. fine s' \<Longrightarrow> kept s s' \<Longrightarrow> goes_st s' (f s')) \<Longrightarrow> goes_st s (Option.bind r f)"
  by (fastforce simp: goes_st_def intro: kept_trans)

lemma goes_bind: "goes_st s r \<Longrightarrow> (\<And>s'. fine s' \<Longrightarrow> kept s s' \<Longrightarrow> goes s' (f s')) \<Longrightarrow> goes s (Option.bind r f)"
  by (fastforce simp: goes_st_def goes_def intro: kept_trans)

lemma goes_kept: "kept s t \<Longrightarrow> goes t r \<Longrightarrow> goes s r"
  by (auto simp: goes_def intro: kept_trans)

lemma goes_st_kept: "kept s t \<Longrightarrow> goes_st t r \<Longrightarrow> goes_st s r"
  by (auto simp: goes_st_def intro: kept_trans)

lemma call_goes:
  assumes "fine s" "at_handle_cb s = Some cb" "call_cb cb cmd para s = (aec, rsp, s')"
  shows "fine s'" "kept s s'" "int32 (rsp_vptr rsp)"
  using assms by (auto simp: call_cb_def fine_def cb_fine_def cb_keeps_def kept_def Let_def)

lemma call_then:
  assumes "fine s" "at_handle_cb s = Some cb"
    "\<And>aec rsp t. fine t \<Longrightarrow> int32 (rsp_vptr rsp) \<Longrightarrow> goes t (f aec rsp t)"
  shows "goes s (case call_cb cb cmd para s of (aec, rsp, t) \<Rightarrow> f aec rsp t)"
proof -
  obtain aec rsp t where c: "call_cb cb cmd para s = (aec, rsp, t)" by (cases "call_cb cb cmd para s")
  then show ?thesis using assms(3) call_goes[OF assms(1,2) c] goes_kept by fastforce
qed

lemma dump_goes: "printable 1023 t \<Longrightarrow> fine s \<Longrightarrow> goes_st s (at_dump_text t s)"
  using dump_text_ok[of t s] by (auto simp: printable_def goes_st_def fine_def kept_def)

lemma cstr_printable: "list_all (\<lambda>c. of_char c \<noteq> (0::u8)) t \<Longrightarrow> length t \<le> n \<Longrightarrow> printable n (cstr t)"
  by (auto simp: printable_def cstr_def list_all_iff)

lemma notify_goes: "fine s \<Longrightarrow> fine (snd (notify_cb cmd para s)) \<and> kept s (snd (notify_cb cmd para s))"
  by (auto simp: notify_cb_def dest: call_goes split: option.split prod.split)

lemma notify_goes_Some: "fine s \<Longrightarrow> goes s (Some (notify_cb cmd para s))"
  using notify_goes[of s cmd para] by (cases "notify_cb cmd para s") simp

section \<open>The operations\<close>

lemma show_goes:
  assumes "prints (vd_pt d) (vd_get d c) (vd_vsize d)" "printable 20 (vd_key d)" "fine s"
  shows "goes_st s (show_var d c s)"
proof -
  obtain tx where t: "at_get_value [] (vd_pt d) (Some (vd_get d c)) (vd_vsize d) = Some (tx, 0)" "printable 255 tx"
    using assms(1) by (auto simp: prints_def)
  have "printable 1023 (cstr ''# '' @ vd_key d @ cstr '' = '' @ tx @ CRLF)"
    using t(2) assms(2) by (auto simp: printable_def cstr_def)
  then show ?thesis using t dump_goes[OF _ assms(3)] by (auto simp: show_var_def printable_def)
qed

lemma shows_goes:
  "\<forall>d\<in>set ds. prints (vd_pt d) (vd_get d c) (vd_vsize d) \<and> printable 20 (vd_key d) \<Longrightarrow> fine s \<Longrightarrow> goes_st s (show_vars ds c s)"
  by (induction ds arbitrary: s) (auto intro!: goes_st_bind show_goes)

lemma sts_prints:
  assumes "d \<in> set at_sts_table" "sts_ok t"
  shows "prints (vd_pt d) (vd_get d t) (vd_vsize d) \<and> printable 20 (vd_key d)"
proof -
  have "list_all (\<lambda>d. list_all (\<lambda>c. c \<noteq> 0) (vd_key d) \<and> length (vd_key d) \<le> 20) at_sts_table" by code_simp
  then have "printable 20 (vd_key d)" using assms(1) by (auto simp: list_all_iff printable_def)
  moreover have "prints (vd_pt d) (vd_get d t) (vd_vsize d)"
    using assms(1) unfolding at_sts_table_def
    by (simp only: list.set insert_iff empty_iff)
      (elim disjE; insert assms(2); simp add: sts_ok_def prints_ip prints_di)
  ultimately show ?thesis by simp
qed

lemma cfg_shown: "d \<in> set at_cfg_table \<Longrightarrow> cfg_ok c \<Longrightarrow> prints (vd_pt d) (vd_get d c) (vd_vsize d) \<and> printable 20 (vd_key d)"
  using cfg_prints cfg_keys by blast

lemma fine_sel: "fine s \<Longrightarrow> cfg_ok (at_cfg s)" "fine s \<Longrightarrow> sts_ok (at_sts s)"
  by (simp_all add: fine_def)

lemma getcfg_goes: "fine s \<Longrightarrow> goes s (at_getcfg (Some k) s)"
  using cfg_vars.found cfg_shown fine_sel by (fastforce simp: at_getcfg_def intro!: show_goes split: option.split)

lemma config_goes: "fine s \<Longrightarrow> goes s (at_config s)"
  using cfg_shown fine_sel by (auto simp: at_config_def intro!: shows_goes)

lemma status_goes:
  assumes "fine s"
  shows "goes s (at_status v s)"
proof -
  let ?n = "snd (notify_cb ACC_STATUS \<lparr>para_cfg = False, para_sts = True, para_u = U_none\<rparr> s)"
  have n: "fine ?n" "kept s ?n" using notify_goes[OF assms] by blast+
  have "goes ?n (at_status v s)"
    using n(1) sts_prints fine_sel(2)[OF n(1)] sts_vars.found
    by (fastforce simp: at_status_def Let_def intro!: shows_goes show_goes split: option.split)
  then show ?thesis using goes_kept n(2) by blast
qed

lemma help_goes: "fine s \<Longrightarrow> goes_st s (help_lines at_command_table s)"
proof -
  have "list_all (\<lambda>(c, u). list_all (\<lambda>c. of_char c \<noteq> (0::u8)) c \<and> list_all (\<lambda>c. of_char c \<noteq> (0::u8)) u \<and> length c + length u \<le> 1000) at_command_table"
    by code_simp
  then have p: "\<forall>(c, u)\<in>set at_command_table. printable 1023 (cstr ''# '' @ cstr c @ cstr u @ CRLF)"
    by (auto simp: list_all_iff printable_def cstr_def)
  have "goes_st s (help_lines cs s)" if "\<forall>(c, u)\<in>set cs. printable 1023 (cstr ''# '' @ cstr c @ cstr u @ CRLF)" "fine s" for cs and s :: "('a, 'b) at_sys"
    using that by (induction cs arbitrary: s) (auto intro!: goes_st_bind dump_goes)
  then show "fine s \<Longrightarrow> goes_st s (help_lines at_command_table s)" using p by blast
qed

lemma gpio_goes: "fine s \<Longrightarrow> goes_st s (gpio_dump gpio_lines s)"
proof -
  have p: "printable 11 (print_d (int pin))" if "(port, pin) \<in> set gpio_lines" for port pin
    using that by (intro print_d_printable) (auto simp: gpio_lines_def int32_def)
  have q: "printable 1 (cstr port)" if "(port, pin) \<in> set gpio_lines" for port pin
    using that by (auto simp: gpio_lines_def printable_def cstr_def)
  have "goes_st s (gpio_dump ps s)" if "set ps \<subseteq> set gpio_lines" "fine s" for ps and s :: "('a, 'b) at_sys"
    using that
  proof (induction ps arbitrary: s)
    case (Cons x ps)
    obtain port pin where x: "x = (port, pin)" by (cases x)
    have m: "(port, pin) \<in> set gpio_lines" using Cons.prems(1) x by simp
    have "printable 11 (print_d (at_pins s pin))" using Cons.prems(2) by (intro print_d_printable) (simp add: fine_def)
    then have "printable 1023 (cstr ''PIN '' @ cstr port @ cstr '' '' @ print_d (int pin) @ cstr '', '' @ print_d (at_pins s pin) @ CRLF)"
      using p[OF m] q[OF m] by (auto simp: printable_def cstr_def)
    from dump_goes[OF this Cons.prems(2)] show ?case
      unfolding x gpio_dump.simps by (rule goes_st_bind) (use Cons in auto)
  qed simp
  then show "fine s \<Longrightarrow> goes_st s (gpio_dump gpio_lines s)" by blast
qed

lemma act_goes: "fine s \<Longrightarrow> goes s (Some (at_act s))"
  by (auto simp: at_act_def dest: call_goes split: option.split prod.split)

lemma reset_goes:
  assumes "fine s"
  shows "goes s (at_reset s)"
proof (cases "at_handle_cb s")
  case (Some cb)
  let ?t = "cstr ''Reboot...'' @ CRLF"
  have d: "at_dump_text ?t s = Some (s\<lparr>at_out := at_out s @ (if at_dump_cb s then ?t else [])\<rparr>)"
    by (rule dump_text_ok) (simp_all add: cstr_def)
  let ?u = "s\<lparr>at_out := at_out s @ (if at_dump_cb s then ?t else [])\<rparr>"
  obtain aec rsp v where v: "call_cb cb ACC_RST (plain_para U_none) ?u = (aec, rsp, v)" by (cases "call_cb cb ACC_RST (plain_para U_none) ?u")
  have u: "fine ?u" "kept s ?u" "at_handle_cb ?u = Some cb" using assms Some by (simp_all add: fine_def kept_def)
  have "at_reset s = Some (AEC_OK, v)" using Some v by (simp add: at_reset_def d del: at_dump_text_def)
  then show ?thesis using call_goes[OF u(1,3) v] kept_trans[OF u(2)] by simp
qed (use assms in \<open>simp add: at_reset_def\<close>)

lemma print_02d_printable: "int32 n \<Longrightarrow> printable 11 (print_02d n)"
  using print_d_printable[of n] by (auto simp: print_02d_def printable_def Let_def)

lemma answer_goes:
  assumes "fine s" "int32 n"
  shows "goes_st s (at_dump_text (cstr ''ID: '' @ print_02d n @ CRLF) s)"
    "goes_st s (at_dump_text (cstr ''DATALEN: '' @ print_d n @ CRLF) s)"
proof -
  have "printable 1023 (cstr ''ID: '' @ print_02d n @ CRLF)" "printable 1023 (cstr ''DATALEN: '' @ print_d n @ CRLF)"
    using print_02d_printable[OF assms(2)] print_d_printable[OF assms(2)] by (auto simp: printable_def cstr_def)
  then show "goes_st s (at_dump_text (cstr ''ID: '' @ print_02d n @ CRLF) s)"
    "goes_st s (at_dump_text (cstr ''DATALEN: '' @ print_d n @ CRLF) s)"
    using assms(1) by (auto intro: dump_goes)
qed

lemma sockon_goes: "fine s \<Longrightarrow> goes s (at_sockon h p pr i s)"
  by (cases "at_handle_cb s") (auto simp: at_sockon_def intro!: call_then answer_goes)

lemma sockq_goes: "fine s \<Longrightarrow> goes s (at_sockq i s)"
  by (cases "at_handle_cb s") (auto simp: at_sockq_def intro!: call_then answer_goes)

lemma sockc_goes: "fine s \<Longrightarrow> goes s (Some (at_sockc i s))"
  by (auto simp: at_sockc_def dest: call_goes split: option.split prod.split)

lemma scan_goes: "fine s \<Longrightarrow> goes s (Some (at_scan m r s))"
  by (auto simp: at_scan_def notify_goes_Some split: option.split)

lemma ping_goes: "fine s \<Longrightarrow> 0 \<in> set h \<Longrightarrow> length h = 64 \<Longrightarrow> goes s (at_ping h s)"
  using c_string_printable[of h 63] by (auto simp: at_ping_def printable_def intro: notify_goes_Some)

section \<open>The handlers\<close>

lemma without_goes: "fine s \<Longrightarrow> 2 \<le> length ptr \<Longrightarrow> goes s (op s) \<Longrightarrow> goes s (without_parameters ptr s op)"
  using at_get_parameters_total[of "[]" ptr 0] by (auto simp: without_parameters_def)

lemma with_goes:
  assumes "fine s" "list_all para_fits ds" "132 * length ds \<le> length ptr" "2 \<le> length ptr"
    "\<And>p vs n. at_get_parameters ptr ds 0 = Some (p, vs, n, AEC_OK) \<Longrightarrow> list_all2 var_like ds vs
      \<Longrightarrow> length ptr \<le> length p + 132 * length ds \<Longrightarrow> goes s (op p vs n)"
  shows "goes s (with_parameters ptr ds s op)"
proof -
  obtain p vs n rc where "at_get_parameters ptr ds 0 = Some (p, vs, n, rc)" "length ptr \<le> length p + 132 * length ds" "list_all2 var_like ds vs"
    using at_get_parameters_total[OF assms(2-4), of 0] by blast
  then show ?thesis using assms(1,5) by (cases "rc = AEC_OK") (auto simp: with_parameters_def)
qed

lemma equ_goes:
  assumes "fine s" "list_all para_fits ds" "132 * length ds < length ptr" "2 < length ptr"
    "\<And>cs p vs n. ptr = AT_EQU # cs \<Longrightarrow> at_get_parameters cs ds 0 = Some (p, vs, n, AEC_OK) \<Longrightarrow> list_all2 var_like ds vs
      \<Longrightarrow> length ptr \<le> length p + 132 * length ds + 1 \<Longrightarrow> goes s (op p vs n)"
  shows "goes s (equ_parameters ptr ds s op)"
proof -
  obtain c cs where "ptr = c # cs" using assms(4) by (cases ptr) auto
  then show ?thesis using assms by (auto simp: equ_parameters_def intro!: with_goes)
qed

lemma para_fits_all [simp]:
  "para_fits (text_para [] 64 AET_LINE)" "para_fits (text_para [] 64 AET_PARA)" "para_fits (di_para 0 AET_PARA)" "para_fits (di_para 0 AET_LINE)"
  "para_fits (text_para (cstr ''t'') 2 (AET_PARA OR AET_LINE))" "para_fits (text_para [] 4 AET_LINE)" "para_fits (di_para 0 (AET_PARA OR AET_LINE))"
  "para_fits (text_para (cstr ''t'') 2 AET_LINE)" "para_fits (text_para [] 2 AET_PARA)" "para_fits (text_para [] 2 AET_LINE)"
  "para_fits (text_para (cstr ''t'') 2 768)" "para_fits (di_para 0 768)"
  by code_simp+

lemma text_para_like: "var_like (text_para [] 64 et) v \<Longrightarrow> \<exists>m. v = Bytes m \<and> length m = 64 \<and> 0 \<in> set m"
  by (auto simp: var_like_def text_para_def split: at_var.splits)

lemma one_para: "list_all2 var_like [text_para [] 64 et] vs \<Longrightarrow> \<exists>m. vs = [Bytes m] \<and> length m = 64 \<and> 0 \<in> set m"
  by (auto simp: list_all2_Cons1 dest: text_para_like)

lemma simple_handlers_go:
  assumes "fine s" "2 \<le> length ptr"
  shows "goes s (act_handler ptr s)" "goes s (reset_handler ptr s)" "goes s (help_handler ptr s)"
    "goes s (config_handler ptr s)" "goes s (factory_handler ptr s)" "goes s (save_handler ptr s)"
    "goes s (reassociate_handler ptr s)" "goes s (attention_handler ptr s)"
proof -
  show "goes s (attention_handler ptr s)"
    using at_get_parameters_total[of "[]" ptr 0] assms by (auto simp: attention_handler_def)
qed (use assms in \<open>auto simp: handler_defs notify_ops at_help_def
      intro!: without_goes act_goes reset_goes help_goes config_goes notify_goes_Some\<close>)

lemma equ_handlers_go:
  assumes "fine s" "529 \<le> length ptr"
  shows "goes s (getcfg_handler ptr s)" "goes s (sockon_handler ptr s)" "goes s (sockq_handler ptr s)"
    "goes s (sockr_handler ptr s)" "goes s (sockc_handler ptr s)" "goes s (sockd_handler ptr s)" "goes s (wifi_handler ptr s)"
  unfolding handler_defs Let_def
  using assms by (auto intro!: equ_goes getcfg_goes sockon_goes sockq_goes sockc_goes simp: notify_ops notify_goes_Some)

lemma ping_handler_goes:
  assumes "fine s" "529 \<le> length ptr"
  shows "goes s (ping_handler ptr s)"
  unfolding ping_handler_def
proof (rule equ_goes)
  fix cs p vs n
  assume "list_all2 var_like [text_para [] 64 AET_LINE] vs"
  then show "goes s (if n \<noteq> 1 then Some (AEC_PARA_ERROR, s) else at_ping (var_bytes (vs ! 0)) s)"
    using one_para[of AET_LINE vs] assms(1) by (auto simp: var_bytes_def intro: ping_goes)
qed (use assms in simp_all)

lemma other_handlers_go:
  assumes "fine s" "529 \<le> length ptr"
  shows "goes s (status_handler ptr s)" "goes s (scan_handler ptr s)" "goes s (my_gpio_read ptr s)"
proof -
  obtain c cs where ptr: "ptr = c # cs" "528 \<le> length cs" using assms(2) by (cases ptr) auto
  show "goes s (status_handler ptr s)"
    using assms ptr by (auto simp: status_handler_def intro!: without_goes with_goes status_goes)
  show "goes s (scan_handler ptr s)"
    using assms ptr by (auto simp: scan_handler_def Let_def intro!: without_goes with_goes scan_goes)
  have "goes_st s (at_dump_text (cstr ''PORT A'' @ CRLF) s)"
    using assms(1) by (intro dump_goes) (simp_all add: printable_def cstr_def)
  then show "goes s (my_gpio_read ptr s)"
    unfolding my_gpio_read_def
    by (rule goes_bind) (rule goes_bind[OF gpio_goes], auto)
qed

section \<open>The two settings that are not checked\<close>

text \<open>What the text parser accepts at the end of a line.\<close>

lemma text_loop_inv:
  assumes "c = AT_CR \<or> c = AT_LF"
  shows "text_loop lim (w @ c # y) buf = Some (r, ov, et, t) \<Longrightarrow> \<forall>a\<in>set w. a \<noteq> AT_CR \<and> a \<noteq> AT_LF \<Longrightarrow>
     (et = AET_LINE \<longrightarrow> list_all plain w \<and> t = buf @ w)
     \<and> (et = AET_PARA \<longrightarrow> (\<exists>x z. w = x @ AT_SEPARATOR # z \<and> list_all plain x \<and> t = buf @ x \<and> r = z @ c # y))"
proof (induction w arbitrary: buf)
  case Nil
  then show ?case using assms by (auto split: if_splits list.splits)
next
  case (Cons a w)
  show ?case
  proof (cases "a = AT_SEPARATOR")
    case True
    then show ?thesis using Cons.prems by (auto split: if_splits intro!: exI[of _ "[]"])
  next
    case False
    then have a: "plain a" using Cons.prems(2) by (simp add: plain_def)
    show ?thesis
    proof (cases "length buf < lim \<and> length buf < AT_PARA_MAX_SIZE")
      case True
      then have "text_loop lim (w @ c # y) (buf @ [a]) = Some (r, ov, et, t)"
        using Cons.prems(1) a by (simp add: para_end_plain del: para_end.simps)
      from Cons.IH[OF this] Cons.prems(2)
      have ih: "et = AET_LINE \<longrightarrow> list_all plain w \<and> t = (buf @ [a]) @ w"
        "et = AET_PARA \<longrightarrow> (\<exists>x z. w = x @ AT_SEPARATOR # z \<and> list_all plain x \<and> t = (buf @ [a]) @ x \<and> r = z @ c # y)"
        by simp_all
      have "\<exists>x z. a # w = x @ AT_SEPARATOR # z \<and> list_all plain x \<and> t = buf @ x \<and> r = z @ c # y" if e: "et = AET_PARA"
      proof -
        obtain x z where "w = x @ AT_SEPARATOR # z" "list_all plain x" "t = (buf @ [a]) @ x" "r = z @ c # y" using ih(2) e by auto
        then show ?thesis using a by (intro exI[of _ "a # x"] exI[of _ z]) simp
      qed
      then show ?thesis using ih(1) a by simp
    next
      case False
      then show ?thesis using Cons.prems(1) a by (auto simp: para_end_plain simp del: para_end.simps split: if_splits)
    qed
  qed
qed

lemma text_loop_et: "text_loop lim l buf = Some (r, ov, et, t) \<Longrightarrow> et = 0 \<or> et = AET_PARA \<or> et = AET_LINE"
  by (induction lim l buf rule: text_loop.induct) (auto split: if_splits list.splits)

lemma get_text_inv:
  assumes "c = AT_CR \<or> c = AT_LF" "\<forall>a\<in>set w. a \<noteq> AT_CR \<and> a \<noteq> AT_LF"
    "get_text_para (w @ c # y) (Bytes m) opt = Some (p, ov, False, v)"
  obtains "opt AND AET_LINE \<noteq> 0" "list_all plain w" "length w < SIZE_LIMIT opt" "w \<noteq> []" "\<exists>b. v = Bytes (w @ 0 # b)"
    | x z where "opt AND AET_PARA \<noteq> 0" "w = x @ AT_SEPARATOR # z" "list_all plain x" "length x < SIZE_LIMIT opt" "p = z @ c # y"
        "\<exists>b. v = Bytes (x @ 0 # b)"
proof -
  obtain et t where t: "text_loop (SIZE_LIMIT opt) (w @ c # y) [] = Some (p, ov, et, t)" "et AND opt \<noteq> 0" "0 < length t" "length t < SIZE_LIMIT opt"
    "store_bytes (Bytes m) (t @ [0]) = Some v"
    using assms(3) by (auto simp: get_text_para_def bind_eq_Some_conv split: if_splits)
  obtain b where v: "v = Bytes (t @ 0 # b)" using t(5) by (auto simp: store_bytes_def wr_block_def split: if_splits)
  have "et = AET_LINE \<or> et = AET_PARA" using text_loop_et[OF t(1)] t(2) by auto
  then show ?thesis
  proof
    assume "et = AET_LINE"
    then show ?thesis using that(1) text_loop_inv[OF assms(1) t(1) assms(2)] t(2-4) v by (auto simp: and.commute)
  next
    assume "et = AET_PARA"
    then show ?thesis using that(2) text_loop_inv[OF assms(1) t(1) assms(2)] t(2-4) v by (auto simp: and.commute)
  qed
qed

lemma one_parameter:
  assumes "at_get_parameters l [d] 0 = Some (p, vs, n, AEC_OK)"
  obtains ov v where "get_para l d = Some (p, ov, False, v)" "vs = [v]" "n = 1"
  using assms by (auto simp: at_get_parameters_def bind_eq_Some_conv split: if_splits)

lemma c_string_stop: "c_string (x @ 0 # b) = c_string x"
  by (induction x) (auto simp: c_string_def)

text \<open>The name of a network.\<close>

definition long_ssid :: "u8 list \<Rightarrow> bool" where
  "long_ssid w \<longleftrightarrow> list_all plain w \<and> length w < 64 \<and> 32 < length (c_string w)"

lemma ssidtxt_goes: "fine s \<Longrightarrow> length (c_string t) \<le> 32 \<Longrightarrow> goes s (at_ssidtxt (Some t) s)"
  using at_ssidtxt_sets[of s t] by (auto simp: fine_def kept_def Let_def cfg_ok_def)

lemma ssidtxt_handler_goes:
  assumes "fine s" "ptr = AT_EQU # w @ c # y" "529 \<le> length ptr" "\<forall>a\<in>set w. a \<noteq> AT_CR \<and> a \<noteq> AT_LF"
    "terminator (c # y) r True AET_LINE"
  shows "if long_ssid w then ssidtxt_handler ptr s = None else goes s (ssidtxt_handler ptr s)"
proof -
  have c: "c = AT_CR \<or> c = AT_LF" using assms(5) by (auto simp: terminator_def)
  have o: "SIZE_LIMIT (pd_option (text_para [] 64 AET_LINE)) = 64" "pd_option (text_para [] 64 AET_LINE) AND AET_PARA = 0"
    "AET_LINE AND pd_option (text_para [] 64 AET_LINE) \<noteq> 0" "pd_pt (text_para [] 64 AET_LINE) = APT_TEXT"
    "pd_pvar (text_para [] 64 AET_LINE) = Bytes (replicate 64 0)"
    by (simp_all add: text_para_def SIZE_LIMIT_def)
  show ?thesis
  proof (cases "long_ssid w")
    case True
    then have w: "\<forall>a\<in>set w. plain a" "length w < 64" "32 < length (c_string w)" "w \<noteq> []"
      by (auto simp: long_ssid_def list_all_iff c_string_def)
    have "text_loop 64 (w @ c # y) [] = Some (r, True, AET_LINE, w)"
      using text_loop_reads[OF w(1) assms(5), of "[]" 64] w(2) by simp
    then have g: "get_para (w @ c # y) (text_para [] 64 AET_LINE) = Some (r, True, False, Bytes (w @ 0 # replicate (63 - length w) 0))"
      using o w(2,4) by (simp add: get_para_def get_text_para_def store_bytes_def wr_block_def)
    have "at_ssidtxt (Some (w @ 0 # replicate (63 - length w) 0)) s = None"
      using at_ssidtxt_sets[of s] assms(1) w(3) by (simp add: fine_def Let_def c_string_stop)
    then show ?thesis using True g assms(2)
      by (simp add: ssidtxt_handler_def equ_parameters_def with_parameters_def at_get_parameters_def var_bytes_def)
  next
    case False
    have len: "2 < length ptr" "132 * length [text_para [] 64 AET_LINE] < length ptr" using assms(3) by simp_all
    have "goes s (ssidtxt_handler ptr s)" unfolding ssidtxt_handler_def
    proof (rule equ_goes[OF assms(1)])
      fix cs p vs n
      assume "ptr = AT_EQU # cs" "at_get_parameters cs [text_para [] 64 AET_LINE] 0 = Some (p, vs, n, AEC_OK)"
      then obtain ov v where v: "get_text_para (w @ c # y) (Bytes (replicate 64 0)) (pd_option (text_para [] 64 AET_LINE)) = Some (p, ov, False, v)" "vs = [v]" "n = 1"
        using assms(2) o by (auto simp: get_para_def elim: one_parameter)
      from get_text_inv[OF c assms(4) v(1)] o obtain b where "list_all plain w" "length w < 64" "v = Bytes (w @ 0 # b)" by auto
      then have "length (c_string (w @ 0 # b)) \<le> 32" using False by (simp add: long_ssid_def c_string_stop)
      then show "goes s (if n \<noteq> 1 then Some (AEC_PARA_ERROR, s) else at_ssidtxt (Some (var_bytes (vs ! 0))) s)"
        using v(2,3) \<open>v = _\<close> assms(1) by (simp add: var_bytes_def ssidtxt_goes)
    qed (simp, rule len(2), rule len(1))
    then show ?thesis using False by simp
  qed
qed

text \<open>A setting: only the escape sequence is a text shorter than what the parser accepts.\<close>

lemma setcfg_goes:
  assumes "fine s" "value_ok v" "\<forall>d. find_var at_cfg_table k = Some d \<and> vd_po d = APO_RW \<longrightarrow> text_fits d v"
  shows "goes s (at_setcfg (Some k) (Some v) s)"
proof (cases "\<exists>d. find_var at_cfg_table k = Some d \<and> vd_po d = APO_RW \<and> (\<forall>f. vd_verify d = Some f \<longrightarrow> f v = 0)")
  case True
  then obtain d where d: "find_var at_cfg_table k = Some d" "vd_po d = APO_RW" "\<forall>f. vd_verify d = Some f \<longrightarrow> f v = 0" by blast
  obtain x where "at_setcfg (Some k) (Some v) s = Some (AEC_OK, s\<lparr>at_cfg := vd_put d x (at_cfg s)\<rparr>)" "cfg_ok (vd_put d x (at_cfg s))"
    using setcfg_writes[OF d fine_sel(1)[OF assms(1)] assms(2)] assms(3) d(1,2) by metis
  then show ?thesis using assms(1) by (simp add: fine_def kept_def)
next
  case False
  then show ?thesis using assms(1) by (auto simp: at_setcfg_def split: option.splits)
qed

definition long_escape :: "u8 list \<Rightarrow> bool" where
  "long_escape w \<longleftrightarrow> (\<exists>key t. w = key @ AT_SEPARATOR # t \<and> list_all plain key \<and> length key < 64 \<and> c_string key = cstr ''escape_seq''
     \<and> list_all plain t \<and> length t < 64 \<and> 7 < length (c_string t))"

lemma text_settings:
  assumes "d \<in> set at_cfg_table" "vd_po d = APO_RW" "vd_pt d = APT_TEXT" "vd_key d \<noteq> cstr ''escape_seq''"
  shows "vd_vsize d = 64"
proof -
  have "list_all (\<lambda>d. vd_po d = APO_RW \<and> vd_pt d = APT_TEXT \<longrightarrow> vd_key d = cstr ''escape_seq'' \<or> vd_vsize d = 64) at_cfg_table"
    by code_simp
  then show ?thesis using assms by (auto simp: list_all_iff)
qed

lemma value_list_fits: "d \<in> set cmd_value_list \<Longrightarrow> para_fits d"
proof -
  have "list_all para_fits cmd_value_list" by code_simp
  then show "d \<in> set cmd_value_list \<Longrightarrow> para_fits d" by (simp add: list_all_iff)
qed

lemma typed_value_length: "d \<in> set cmd_value_list \<Longrightarrow> var_like d v \<Longrightarrow> length (av_bytes (value_of_var v)) = 64"
  by (auto simp: cmd_value_list_def var_like_def value_of_var_def value_of_bytes_def le_bytes_def split: at_var.splits)

lemma pt_code_inj: "pt_code a = pt_code b \<longleftrightarrow> a = b" "pt_code a \<noteq> 6"
  by (auto simp: pt_code_def split: AT_PARA_TYPE.splits)

lemma value_list_text: "d \<in> set cmd_value_list \<Longrightarrow> pd_pt d = APT_TEXT \<Longrightarrow>
    d = \<lparr>pd_pt = APT_TEXT, pd_pvar = Bytes (replicate 64 0), pd_option = AET_LINE OR 64\<rparr>"
  by (auto simp: cmd_value_list_def)

text \<open>The value of a setting whose key has been read.\<close>

lemma setcfg_value_goes:
  assumes "fine s" "d \<in> set cmd_value_list" "pt_code (pd_pt d) = at_typecfg (Some k)" "529 \<le> length (w @ c # y)"
    "\<forall>a\<in>set w. a \<noteq> AT_CR \<and> a \<noteq> AT_LF" "c = AT_CR \<or> c = AT_LF"
    "c_string k = cstr ''escape_seq'' \<Longrightarrow> list_all plain w \<Longrightarrow> length w < 64 \<Longrightarrow> length (c_string w) \<le> 7"
  shows "goes s (with_parameters (w @ c # y) [d] s (\<lambda>_ vs paracnt.
    if paracnt \<noteq> 1 then Some (AEC_PARA_ERROR, s) else at_setcfg (Some k) (Some (value_of_var (vs ! 0))) s))"
proof (rule with_goes[OF assms(1)])
  fix p vs n
  assume g: "at_get_parameters (w @ c # y) [d] 0 = Some (p, vs, n, AEC_OK)" "list_all2 var_like [d] vs"
  obtain ov v where v: "get_para (w @ c # y) d = Some (p, ov, False, v)" "vs = [v]" "n = 1"
    using g(1) by (rule one_parameter)
  have ok: "value_ok (value_of_var v)"
    using get_one_int32[OF g(1) value_list_int32[OF assms(2)]] typed_value_length[OF assms(2)] g(2) v(2) by (simp add: value_ok_def)
  have "text_fits e (value_of_var v)" if e: "find_var at_cfg_table k = Some e" "vd_po e = APO_RW" for e
  proof (cases "vd_pt e = APT_TEXT")
    case True
    have "pt_code (pd_pt d) = pt_code (vd_pt e)" using assms(3) e(1) by (simp add: at_typecfg_def)
    then have "pd_pt d = APT_TEXT" using True pt_code_inj(1) by simp
    then have d: "d = \<lparr>pd_pt = APT_TEXT, pd_pvar = Bytes (replicate 64 0), pd_option = AET_LINE OR 64\<rparr>"
      using value_list_text assms(2) by blast
    have "get_text_para (w @ c # y) (Bytes (replicate 64 0)) (AET_LINE OR 64) = Some (p, ov, False, v)"
      using v(1) d by (simp add: get_para_def)
    from get_text_inv[OF assms(6,5) this] obtain b where w: "list_all plain w" "length w < 64" "v = Bytes (w @ 0 # b)"
      by (auto simp: SIZE_LIMIT_def)
    have t: "0 \<in> set (av_bytes (value_of_var v))" "c_string (av_bytes (value_of_var v)) = c_string w"
      using w(3) by (simp_all add: value_of_var_def value_of_bytes_def c_string_stop)
    have le: "length (c_string w) \<le> length w" by (simp add: c_string_def length_takeWhile_le)
    have found: "e \<in> set at_cfg_table" "vd_key e = c_string k" using cfg_vars.found[OF e(1)] by auto
    show ?thesis
    proof (cases "c_string k = cstr ''escape_seq''")
      case True
      moreover have "c_string (cstr ''escape_seq'') = cstr ''escape_seq''" by code_simp
      ultimately have "find_var at_cfg_table k = find_var at_cfg_table (cstr ''escape_seq'')" by (simp add: find_var_def)
      then have "e = vd ''escape_seq'' APT_TEXT APO_RW (\<lambda>c. Bytes (escape_seq c)) (put_bytes escape_seq_update) 8 None"
        using escape_seq_entry e(1) by simp
      then show ?thesis using t assms(7)[OF True w(1,2)] by (simp add: text_fits_def)
    next
      case False
      then have "vd_vsize e = 64" using text_settings found e(2) \<open>vd_pt e = APT_TEXT\<close> by simp
      then show ?thesis using t le w(2) by (simp add: text_fits_def)
    qed
  qed (simp add: text_fits_def)
  then show "goes s (if n \<noteq> 1 then Some (AEC_PARA_ERROR, s) else at_setcfg (Some k) (Some (value_of_var (vs ! 0))) s)"
    using v(2,3) setcfg_goes[OF assms(1) ok] by simp
next
  show "list_all para_fits [d]" using value_list_fits assms(2) by simp
  show "132 * length [d] \<le> length (w @ c # y)" "2 \<le> length (w @ c # y)" using assms(4) by simp_all
qed

lemma setcfg_handler_goes:
  assumes "fine s" "ptr = AT_EQU # w @ c # y" "700 \<le> length ptr" "\<forall>a\<in>set w. a \<noteq> AT_CR \<and> a \<noteq> AT_LF"
    "c = AT_CR \<or> c = AT_LF" "\<not> long_escape w"
  shows "goes s (setcfg_handler ptr s)"
  unfolding setcfg_handler_def Let_def
proof (rule equ_goes[OF assms(1)])
  fix cs p ks n
  assume cs: "ptr = AT_EQU # cs" "at_get_parameters cs [text_para [] 64 AET_PARA] 0 = Some (p, ks, n, AEC_OK)"
    "length ptr \<le> length p + 132 * length [text_para [] 64 AET_PARA] + 1"
  let ?k = "var_bytes (ks ! 0)"
  have o: "SIZE_LIMIT (pd_option (text_para [] 64 AET_PARA)) = 64" "pd_option (text_para [] 64 AET_PARA) AND AET_LINE = 0"
    "pd_pt (text_para [] 64 AET_PARA) = APT_TEXT" "pd_pvar (text_para [] 64 AET_PARA) = Bytes (replicate 64 0)"
    by (simp_all add: text_para_def SIZE_LIMIT_def)
  obtain ov v where v: "get_text_para (w @ c # y) (Bytes (replicate 64 0)) (pd_option (text_para [] 64 AET_PARA)) = Some (p, ov, False, v)"
    "ks = [v]" "n = 1"
    using cs assms(2) o by (auto simp: get_para_def elim: one_parameter)
  obtain x z b where x: "w = x @ AT_SEPARATOR # z" "list_all plain x" "length x < 64"
    "p = z @ c # y" "v = Bytes (x @ 0 # b)" using get_text_inv[OF assms(5,4) v(1)] o(1,2) by metis
  have k: "c_string ?k = c_string x" using v(2) x(5) by (simp add: var_bytes_def c_string_stop)
  have len: "529 \<le> length (z @ c # y)" using cs(3) assms(3) x(4) by simp
  have z: "\<forall>a\<in>set z. a \<noteq> AT_CR \<and> a \<noteq> AT_LF" using assms(4) x(1) by simp
  have short: "length (c_string z) \<le> 7" if "c_string ?k = cstr ''escape_seq''" "list_all plain z" "length z < 64"
    using that assms(6) x(1-3) k by (fastforce simp: long_escape_def)
  show "goes s (if n \<noteq> 1 then Some (AEC_PARA_ERROR, s)
      else case find (\<lambda>d. pt_code (pd_pt d) = at_typecfg (Some ?k)) cmd_value_list of
        None \<Rightarrow> Some (AEC_NOT_FOUND, s)
      | Some d \<Rightarrow> with_parameters p [d] s (\<lambda>_ vs paracnt.
          if paracnt \<noteq> 1 then Some (AEC_PARA_ERROR, s) else at_setcfg (Some ?k) (Some (value_of_var (vs ! 0))) s))"
  proof (cases "find (\<lambda>d. pt_code (pd_pt d) = at_typecfg (Some ?k)) cmd_value_list")
    case (Some d)
    then have "d \<in> set cmd_value_list" "pt_code (pd_pt d) = at_typecfg (Some ?k)" by (auto simp: find_Some_iff)
    from setcfg_value_goes[OF assms(1) this len z assms(5) short] show ?thesis using Some v(3) x(4) by simp
  qed (use v(3) assms(1) in simp)
qed (use assms(3) in simp_all)

lemma setcfg_handler_fails:
  assumes "fine s" "ptr = AT_EQU # w @ c # y" "terminator (c # y) r True AET_LINE" "long_escape w"
  shows "setcfg_handler ptr s = None"
proof -
  obtain key t where w: "w = key @ AT_SEPARATOR # t" "\<forall>a\<in>set key. plain a" "length key < 64" "c_string key = cstr ''escape_seq''"
    "\<forall>a\<in>set t. plain a" "length t < 64" "7 < length (c_string t)"
    using assms(4) by (auto simp: long_escape_def list_all_iff)
  have ne: "key \<noteq> []" "t \<noteq> []" using w(4,7) by (auto simp: c_string_def cstr_def)
  let ?key = "key @ 0 # replicate (63 - length key) 0" and ?t = "t @ 0 # replicate (63 - length t) 0"
  have k: "text_loop 64 (key @ AT_SEPARATOR # t @ c # y) [] = Some (t @ c # y, False, AET_PARA, key)"
    using text_loop_reads[OF w(2), of "AT_SEPARATOR # t @ c # y" "t @ c # y" False AET_PARA "[]" 64] w(3) by (simp add: terminator_def)
  have v: "text_loop 64 (t @ c # y) [] = Some (r, True, AET_LINE, t)"
    using text_loop_reads[OF w(5) assms(3), of "[]" 64] w(6) by simp
  have o: "SIZE_LIMIT (pd_option (text_para [] 64 AET_PARA)) = 64" "AET_PARA AND pd_option (text_para [] 64 AET_PARA) \<noteq> 0"
    "pd_pt (text_para [] 64 AET_PARA) = APT_TEXT" "pd_pvar (text_para [] 64 AET_PARA) = Bytes (replicate 64 0)"
    by (simp_all add: text_para_def SIZE_LIMIT_def)
  have gk: "at_get_parameters (key @ AT_SEPARATOR # t @ c # y) [text_para [] 64 AET_PARA] 0 = Some (t @ c # y, [Bytes ?key], 1, AEC_OK)"
    using k o w(3) ne(1) by (simp add: at_get_parameters_def get_para_def get_text_para_def store_bytes_def wr_block_def)
  have f: "find_var at_cfg_table ?key = Some (vd ''escape_seq'' APT_TEXT APO_RW (\<lambda>c. Bytes (escape_seq c)) (put_bytes escape_seq_update) 8 None)"
  proof -
    have "c_string (cstr ''escape_seq'') = cstr ''escape_seq''" by code_simp
    then show ?thesis using escape_seq_entry w(4) by (simp add: find_var_def c_string_stop)
  qed
  have ty: "find (\<lambda>d. pt_code (pd_pt d) = at_typecfg (Some ?key)) cmd_value_list
      = Some \<lparr>pd_pt = APT_TEXT, pd_pvar = Bytes (replicate 64 0), pd_option = AET_LINE OR 64\<rparr>"
    using f by (simp add: at_typecfg_def cmd_value_list_def pt_code_def)
  have gv: "at_get_parameters (t @ c # y) [\<lparr>pd_pt = APT_TEXT, pd_pvar = Bytes (replicate 64 0), pd_option = AET_LINE OR 64\<rparr>] 0
      = Some (r, [Bytes ?t], 1, AEC_OK)"
    using v w(6) ne(2) by (simp add: at_get_parameters_def get_para_def get_text_para_def SIZE_LIMIT_def store_bytes_def wr_block_def)
  have "length (escape_seq (at_cfg s)) = 8" using assms(1) by (simp add: fine_def cfg_ok_def text_ok_def)
  then have "at_setcfg (Some ?key) (Some (value_of_var (Bytes ?t))) s = None"
    using at_setcfg_text_overflow[OF f, of s] w(7) by (simp add: value_of_var_def value_of_bytes_def c_string_stop)
  then show ?thesis
    using gk gv ty assms(2) w(1)
    by (simp add: setcfg_handler_def equ_parameters_def with_parameters_def var_bytes_def Let_def)
qed

section \<open>One command\<close>

text \<open>A line is its characters before the line end.  The commands that wait for data are left to
  \<open>at_sockw\<close> and \<open>at_mode\<close>; a setting is too long if it is one of the two above.\<close>

definition waits_for_data :: "u8 list \<Rightarrow> bool" where
  "waits_for_data line \<longleftrightarrow> (let name = takeWhile name_char line in
     length name \<le> 32 \<and> (c_string name = cstr ''AT+S.SOCKW'' \<or> c_string name = cstr ''AT+S.''))"

definition overlong :: "u8 list \<Rightarrow> bool" where
  "overlong line \<longleftrightarrow> (let name = takeWhile name_char line; rest = drop (length name + 1) line in
     length name \<le> 32 \<and> (c_string name = cstr ''AT+S.SSIDTXT'' \<and> long_ssid rest
       \<or> c_string name = cstr ''AT+S.SCFG'' \<and> long_escape rest))"

lemma match_name:
  "match_from i cmd cs = int k \<Longrightarrow> i \<le> k \<and> k < i + length cs \<and> c_string cmd = cstr (fst (cs ! (k - i)))"
proof (induction i cmd cs rule: match_from.induct)
  case (2 i cmd c u cs)
  show ?case
  proof (cases "c_string cmd = cstr c")
    case False
    then have "Suc i \<le> k \<and> k < Suc i + length cs \<and> c_string cmd = cstr (fst (cs ! (k - Suc i)))" using 2 by simp
    moreover from this have "k - i = Suc (k - Suc i)" by linarith
    ultimately show ?thesis by simp
  qed (use 2 in auto)
qed simp

lemma handler_goes:
  assumes "fine s" "700 \<le> length ptr" "i < 23" "i \<noteq> 5" "i \<noteq> 6" "i \<noteq> 13" "i \<noteq> 18"
  shows "goes s ((at_handlers ! i) ptr s)"
proof -
  have len: "2 \<le> length ptr" "529 \<le> length ptr" using assms(2) by simp_all
  have "i \<in> {0, 1, 2, 3, 4, 7, 8, 9, 10, 11, 12, 14, 15, 16, 17, 19, 20, 21, 22}"
    using assms(3-7) by (auto simp: numeral_eq_Suc less_Suc_eq)
  then show ?thesis
    using simple_handlers_go[OF assms(1) len(1)] equ_handlers_go[OF assms(1) len(2)] ping_handler_goes[OF assms(1) len(2)]
      other_handlers_go[OF assms(1) len(2)]
    by (auto simp: at_handlers_def)
qed

lemma name_char_plain: "name_char a \<longleftrightarrow> a \<noteq> AT_EQU \<and> a \<noteq> AT_CR \<and> a \<noteq> AT_LF"
  by (auto simp: name_char_def)

lemma match_unchecked:
  "c_string n = cstr ''AT+S.SSIDTXT'' \<Longrightarrow> at_match (Some n) = 6" "c_string n = cstr ''AT+S.SCFG'' \<Longrightarrow> at_match (Some n) = 5"
  by (simp_all add: at_match_def at_command_table_def cstr_def)

lemma parse_cmd_goes:
  assumes "fine s" "\<forall>a\<in>set line. a \<noteq> AT_CR \<and> a \<noteq> AT_LF" "terminator (e # y) r True AET_LINE"
    "length (line @ e # y) = 1024" "length line < sz" "\<not> waits_for_data line"
  shows "if overlong line then at_parse_cmd (line @ e # y) sz s = None else goes s (at_parse_cmd (line @ e # y) sz s)"
proof -
  let ?name = "takeWhile name_char line"
  have e: "e = AT_CR \<or> e = AT_LF" using assms(3) by (auto simp: terminator_def)
  obtain w where w: "line = ?name \<and> w = [] \<or> line = ?name @ AT_EQU # w" "w = drop (length ?name + 1) line"
  proof (cases "dropWhile name_char line")
    case Nil
    then have "line = ?name" by (metis append_Nil2 takeWhile_dropWhile_id)
    then show ?thesis using that[of "[]"] by simp
  next
    case (Cons a v)
    then have "line = ?name @ a # v" by (metis takeWhile_dropWhile_id)
    moreover have "\<not> name_char a" using Cons by (simp add: dropWhile_eq_Cons_conv)
    moreover have "a \<in> set line" using \<open>line = ?name @ a # v\<close> by (metis in_set_conv_decomp)
    ultimately have l: "line = ?name @ AT_EQU # v" using assms(2) by (auto simp: name_char_plain)
    then have "drop (length ?name + 1) line = v" by (metis append_eq_conv_conj drop_Suc_Cons drop_drop drop_0 One_nat_def add.commute plus_1_eq_Suc)
    then show ?thesis using that l by blast
  qed
  define c where "c = (if line = ?name then e else AT_EQU)"
  define tail where "tail = (if line = ?name then y else w @ e # y)"
  have buf: "line @ e # y = ?name @ c # tail" using w(1) by (auto simp: c_def tail_def)
  have c: "\<not> name_char c" using e by (auto simp: c_def name_char_def)
  have "length ?name \<le> length line" by (rule length_takeWhile_le)
  then have "length ?name < sz" using assms(5) by simp
  moreover have "\<forall>a\<in>set ?name. name_char a" by (auto dest: set_takeWhileD)
  ultimately have scan: "cmd_scan sz (line @ e # y) [] = Some (if length ?name \<le> 32 then Inr (?name, c # tail) else Inl AEC_CMD_ERROR)"
    unfolding buf using cmd_scan_name[OF _ c, of ?name sz "[]" tail] by simp
  show ?thesis
  proof (cases "length ?name \<le> 32 \<and> ?name \<noteq> [] \<and> 0 \<le> at_match (Some ?name)")
    case False
    then have "goes s (at_parse_cmd (line @ e # y) sz s)" using scan assms(1) by (auto simp: at_parse_cmd_def Let_def)
    moreover have "\<not> overlong line"
    proof
      assume o: "overlong line"
      then have "c_string ?name = cstr ''AT+S.SSIDTXT'' \<or> c_string ?name = cstr ''AT+S.SCFG''" "length ?name \<le> 32"
        by (auto simp: overlong_def Let_def)
      moreover from this have "?name \<noteq> []" by (auto simp: c_string_def cstr_def)
      ultimately show False using False match_unchecked[of ?name] by auto
    qed
    ultimately show ?thesis by simp
  next
    case True
    then obtain i where i: "at_match (Some ?name) = int i" by (metis nonneg_int_cases)
    have m: "i < 23" "c_string ?name = cstr (fst (at_command_table ! i))"
      using match_name[of 0 ?name at_command_table i] i table_size(1) by (simp_all add: at_match_def)
    have cmd: "at_parse_cmd (line @ e # y) sz s = (at_handlers ! i) (c # tail) s"
      using scan True i by (simp add: at_parse_cmd_def Let_def)
    have len: "700 \<le> length (c # tail)" using arg_cong[OF buf, of length] assms(4) True by simp
    have names: "fst (at_command_table ! 5) = ''AT+S.SCFG''" "fst (at_command_table ! 6) = ''AT+S.SSIDTXT''"
      "fst (at_command_table ! 13) = ''AT+S.SOCKW''" "fst (at_command_table ! 18) = ''AT+S.''"
      by (simp_all add: at_command_table_def)
    have notw: "i \<noteq> 13" "i \<noteq> 18"
      using assms(6) m(2) True names by (auto simp: waits_for_data_def Let_def)
    have eq: "c_string ?name = cstr ''AT+S.SSIDTXT'' \<longleftrightarrow> i = 6" "c_string ?name = cstr ''AT+S.SCFG'' \<longleftrightarrow> i = 5"
      using match_unchecked[of ?name] i m(2) names(1,2) by auto
    have ol: "overlong line \<longleftrightarrow> i = 6 \<and> long_ssid w \<or> i = 5 \<and> long_escape w"
      using True eq w(2) by (simp add: overlong_def Let_def)
    have wc: "\<forall>a\<in>set w. a \<noteq> AT_CR \<and> a \<noteq> AT_LF" using assms(2) w(2) by (auto dest: in_set_dropD)
    show ?thesis
    proof (cases "i = 5 \<or> i = 6")
      case False
      then show ?thesis using handler_goes[OF assms(1) len m(1) _ _ notw] ol cmd by simp
    next
      case i56: True
      show ?thesis
      proof (cases "line = ?name")
        case True
        then have "w = []" using w(2) by simp
        then have "\<not> overlong line" using ol by (auto simp: long_ssid_def long_escape_def c_string_def)
        moreover have "c \<noteq> AT_EQU" using e True by (auto simp: c_def)
        ultimately show ?thesis using i56 assms(1) cmd
          by (auto simp: at_handlers_def setcfg_handler_def ssidtxt_handler_def equ_parameters_def)
      next
        case False
        then have ct: "c # tail = AT_EQU # w @ e # y" using w(1) by (auto simp: c_def tail_def)
        have len2: "529 \<le> length (c # tail)" using len by simp
        show ?thesis
          using i56 ol cmd setcfg_handler_fails[OF assms(1) ct assms(3)] setcfg_handler_goes[OF assms(1) ct len wc e]
            ssidtxt_handler_goes[OF assms(1) ct len2 wc assms(3)]
          by (auto simp: at_handlers_def)
      qed
    qed
  qed
qed

section \<open>One line, and many\<close>

lemma fine_upd [simp]:
  "fine (s\<lparr>at_cache := c\<rparr>) = fine s" "fine (cache_reset s) = fine s" "fine (s\<lparr>at_out := x\<rparr>) = fine s"
  by (simp_all add: fine_def cache_reset_def)

lemma fine_collected: "collected s s' \<Longrightarrow> fine s \<Longrightarrow> fine s'"
  using collected_sel[of s s'] by (simp add: fine_def)

lemma response_goes: "fine s \<Longrightarrow> goes_st s (at_response aec s)"
proof -
  assume f: "fine s"
  have "list_all (\<lambda>(_, t). list_all (\<lambda>c. c \<noteq> 0) t \<and> length t \<le> 1000) err_info" by code_simp
  then have i: "printable 1000 t" if "map_of err_info a = Some t" for a t
    using map_of_SomeD[OF that] by (auto simp: list_all_iff printable_def)
  have "printable 1023 t" if tx: "response_text aec = Some t" for t
  proof (cases "aec = AEC_OK")
    case False
    then obtain z where z: "map_of err_info aec = Some z" "t = CRLF @ cstr ''ERROR: '' @ z @ CRLF"
      using tx False by (auto simp: response_text_def)
    then show ?thesis using i[OF z(1)] by (auto simp: printable_def cstr_def)
  qed (use tx in \<open>auto simp: response_text_def printable_def cstr_def\<close>)
  then show ?thesis using f by (auto simp: at_response_def intro: dump_goes split: option.split)
qed

text \<open>What follows the echo.\<close>

lemma rest_of_line_goes:
  assumes "fine s" "cc_buf (at_cache s) = line @ e # y" "length (line @ e # y) = 1024" "length line < cc_cnt (at_cache s)"
    "\<forall>a\<in>set line. a \<noteq> AT_CR \<and> a \<noteq> AT_LF" "terminator (e # y) r True AET_LINE" "\<not> waits_for_data line"
  shows "if overlong line
    then at_parse_cmd (cc_buf (at_cache s)) (cc_cnt (at_cache s)) s = None
    else \<exists>s'. (do { (aec, s) \<leftarrow> at_parse_cmd (cc_buf (at_cache s)) (cc_cnt (at_cache s)) s;
        s \<leftarrow> at_response aec s; Some (cache_reset s) }) = Some s'
      \<and> fine s' \<and> holds s' [] \<and> at_queue s' = at_queue s \<and> at_queue_cb s' = at_queue_cb s \<and> at_source s' = at_source s"
proof (cases "overlong line")
  case True
  then show ?thesis using parse_cmd_goes[OF assms(1,5,6,3,4,7)] assms(2) by simp
next
  case False
  then have "goes s (at_parse_cmd (cc_buf (at_cache s)) (cc_cnt (at_cache s)) s)"
    using parse_cmd_goes[OF assms(1,5,6,3,4,7)] assms(2) by simp
  then obtain aec s1 where s1: "at_parse_cmd (cc_buf (at_cache s)) (cc_cnt (at_cache s)) s = Some (aec, s1)" "fine s1" "kept s s1"
    by (auto simp: goes_def)
  obtain s2 where s2: "at_response aec s1 = Some s2" "fine s2" "kept s1 s2"
    using response_goes[OF s1(2)] by (auto simp: goes_st_def)
  have "length (cc_buf (at_cache s)) = 1024" using assms(2,3) by simp
  then have "holds (cache_reset s2) []" using s1(3) s2(3) by (simp add: holds_def cache_reset_def kept_def)
  then show ?thesis using False s1 s2 by (simp add: kept_def cache_reset_def)
qed

lemma parse_line_goes:
  assumes "fine s" "holds s (line @ e # y)" "length (line @ e # y) < 1024"
    "\<forall>a\<in>set line. a \<noteq> AT_CR \<and> a \<noteq> AT_LF" "terminator (e # y) r True AET_LINE" "\<not> waits_for_data line"
  shows "if overlong line then at_parse_line s = None
    else \<exists>s'. at_parse_line s = Some s' \<and> fine s' \<and> holds s' []
      \<and> at_queue s' = at_queue s \<and> at_queue_cb s' = at_queue_cb s \<and> at_source s' = at_source s"
proof -
  let ?t = "line @ e # y" and ?b = "cc_buf (at_cache s)"
  have cnt: "cc_cnt (at_cache s) = length ?t" "length ?b = 1024" "take (length ?t) ?b = ?t" using assms(2) by (simp_all add: holds_def)
  have trm: "terminator (e # y @ z) (r @ z) True AET_LINE" for z using assms(5) by (auto simp: terminator_def)
  have split: "b = line @ e # y @ drop (length ?t) b" if "take (length ?t) b = ?t" for b
    using append_take_drop_id[of "length ?t" b] that by (metis append.assoc append_Cons)
  have go: "if overlong line then at_parse_cmd (cc_buf (at_cache u)) (cc_cnt (at_cache u)) u = None
    else \<exists>s'. (do { (aec, s) \<leftarrow> at_parse_cmd (cc_buf (at_cache u)) (cc_cnt (at_cache u)) u;
        s \<leftarrow> at_response aec s; Some (cache_reset s) }) = Some s'
      \<and> fine s' \<and> holds s' [] \<and> at_queue s' = at_queue u \<and> at_queue_cb s' = at_queue_cb u \<and> at_source s' = at_source u"
    if "fine u" "length (cc_buf (at_cache u)) = 1024" "take (length ?t) (cc_buf (at_cache u)) = ?t" "cc_cnt (at_cache u) = length ?t"
    for u :: "('a, 'b) at_sys"
  proof -
    have b: "cc_buf (at_cache u) = line @ e # y @ drop (length ?t) (cc_buf (at_cache u))" by (rule split[OF that(3)])
    show ?thesis
      by (rule rest_of_line_goes[OF that(1) b _ _ assms(4) trm assms(6)]) (use that(2,4) b in simp_all)
  qed
  show ?thesis
  proof (cases "localecho1 (at_cfg s) = 0")
    case True
    then show ?thesis using go[OF assms(1) cnt(2,3,1)] by (auto simp: at_parse_line_def split: if_splits)
  next
    case False
    let ?c = "?b[length ?t := 0]"
    let ?u = "s\<lparr>at_cache := (at_cache s)\<lparr>cc_buf := ?c\<rparr>\<rparr>"
    have w: "wr ?b (length ?t) 0 = Some ?c" using assms(3) cnt(2) by simp
    have "?c = take (length ?t) ?b @ 0 # drop (Suc (length ?t)) ?b"
      using assms(3) cnt(2) by (intro upd_conv_take_nth_drop) (simp only:)
    then obtain z where z: "?c = ?t @ 0 # z" using cnt(3) by metis
    have "c_string ?c = c_string ?t" unfolding z by (rule c_string_stop)
    then have p: "printable 1023 (c_string ?c)"
      using assms(3) length_takeWhile_le[of "\<lambda>c. c \<noteq> 0" ?t] by (auto simp: printable_def c_string_def dest: set_takeWhileD)
    then obtain v where v: "at_dump_text (c_string ?c) ?u = Some v" "fine v" "kept ?u v"
      using dump_goes[OF p, of ?u] assms(1) by (auto simp: goes_st_def)
    have k: "length (cc_buf (at_cache v)) = 1024" "take (length ?t) (cc_buf (at_cache v)) = ?t" "cc_cnt (at_cache v) = length ?t"
      "at_queue v = at_queue s" "at_queue_cb v = at_queue_cb s" "at_source v = at_source s"
      using v(3) cnt by (simp_all add: kept_def)
    show ?thesis using go[OF v(2) k(1-3)] False w v(1) cnt(1) k(4-6) by (auto simp: at_parse_line_def split: if_splits)
  qed
qed

definition line_end :: "u8 list \<Rightarrow> bool" where
  "line_end e \<longleftrightarrow> e = [AT_LF] \<or> e = [AT_CR, AT_LF]"

definition fits_cache :: "u8 list \<Rightarrow> bool" where
  "fits_cache line \<longleftrightarrow> length line < 1021 \<and> (\<forall>c\<in>set line. c \<noteq> AT_LF \<and> c \<noteq> AT_CR)"

text \<open>Between two commands.\<close>

definition idle :: "(serial_priv, 'w) at_sys \<Rightarrow> bool" where
  "idle s \<longleftrightarrow> line_ready s \<and> holds s [] \<and> fine s"

lemma line_at_once:
  assumes "idle s" "unread s = line @ e @ r" "line_end e" "fits_cache line" "\<not> waits_for_data line"
  shows "if overlong line then at_parse_rounds (length line + 1) (s, False) = None
    else \<exists>s'. at_parse_rounds (length line + 1) (s, False) = Some (s', False) \<and> idle s' \<and> unread s' = (if e = [AT_LF] then r else AT_LF # r)"
proof -
  have s: "line_ready s" "holds s []" "fine s" using assms(1) by (simp_all add: idle_def)
  have line: "length line < 1021" "\<forall>c\<in>set line. c \<noteq> AT_LF \<and> c \<noteq> AT_CR" "\<forall>c\<in>set line. c \<noteq> AT_CR \<and> c \<noteq> AT_LF"
    using assms(4) by (auto simp: fits_cache_def)
  have "length ([] :: u8 list) + length line \<le> 1024" using line(1) by simp
  from rounds_chars[OF s(1) assms(2) s(2) this line(2)] obtain s1
    where s1: "at_parse_rounds (length line) (s, False) = Some (s1, False)" "line_ready s1" "unread s1 = e @ r" "holds s1 line" "collected s s1"
    by auto
  obtain s2 c y where s2: "at_parse_step (s1, False) = map_option (\<lambda>s. (s, False)) (at_parse_line s2)" "line_ready s2"
    "unread s2 = (if e = [AT_LF] then r else AT_LF # r)" "holds s2 (line @ c # y)" "collected s1 s2"
    "\<exists>z. terminator (c # y) z True AET_LINE" "length (line @ c # y) < 1024"
  proof (cases "e = [AT_LF]")
    case True
    then have u: "unread s1 = AT_LF # r" using s1(3) by simp
    have "length line < 1023" using line(1) by simp
    from step_LF[OF s1(2) u s1(4) this] obtain s2 where "at_parse_step (s1, False) = map_option (\<lambda>s. (s, False)) (at_parse_line s2)"
      "line_ready s2" "unread s2 = r" "holds s2 (line @ [AT_LF, AT_LF])" "collected s1 s2" .
    then show ?thesis using that[of s2 AT_LF "[AT_LF]"] True line(1) by (auto simp: terminator_def)
  next
    case False
    then have u: "unread s1 = AT_CR # AT_LF # r" using s1(3) assms(3) by (simp add: line_end_def)
    have "length line < 1022" using line(1) by simp
    from step_CRLF[OF s1(2) u s1(4) this] obtain s2 where "at_parse_step (s1, False) = map_option (\<lambda>s. (s, False)) (at_parse_line s2)"
      "line_ready s2" "unread s2 = AT_LF # r" "holds s2 (line @ [AT_CR, AT_LF, AT_LF])" "collected s1 s2" .
    then show ?thesis using that[of s2 AT_CR "[AT_LF, AT_LF]"] False line(1) by (auto simp: terminator_def)
  qed
  have f: "fine s2" using fine_collected[OF s2(5) fine_collected[OF s1(5) s(3)]] .
  have rounds: "at_parse_rounds (length line + 1) (s, False) = map_option (\<lambda>s. (s, False)) (at_parse_line s2)"
    unfolding rounds_add using s1(1) s2(1) by (cases "at_parse_line s2") simp_all
  obtain z where z: "terminator (c # y) z True AET_LINE" using s2(6) by blast
  show ?thesis using parse_line_goes[OF f s2(4,7) line(3) z assms(5)] rounds s2(2,3)
    by (auto simp: idle_def line_ready_def unread_def)
qed

lemma nothing_special [simp]: "\<not> waits_for_data []" "\<not> overlong []"
  by (simp_all add: waits_for_data_def overlong_def Let_def c_string_def cstr_def)

lemma line_served:
  assumes "idle s" "unread s = line @ e @ r" "line_end e" "fits_cache line" "\<not> waits_for_data line" "\<not> overlong line"
  shows "\<exists>n s'. at_parse_rounds n (s, False) = Some (s', False) \<and> idle s' \<and> unread s' = r"
proof -
  obtain s1 where s1: "at_parse_rounds (length line + 1) (s, False) = Some (s1, False)" "idle s1"
    "unread s1 = (if e = [AT_LF] then r else AT_LF # r)"
    using line_at_once[OF assms(1-5)] assms(6) by auto
  show ?thesis
  proof (cases "e = [AT_LF]")
    case True
    then have "unread s1 = r" using s1(3) by simp
    then show ?thesis using s1(1,2) by blast
  next
    case False
    then have "unread s1 = [] @ [AT_LF] @ r" using s1(3) by simp
    from line_at_once[OF s1(2) this] obtain s2 where s2: "at_parse_rounds (length ([] :: u8 list) + 1) (s1, False) = Some (s2, False)" "idle s2" "unread s2 = r"
      by (auto simp: line_end_def fits_cache_def)
    have "at_parse_rounds ((length line + 1) + (length ([] :: u8 list) + 1)) (s, False) = Some (s2, False)"
      unfolding rounds_add[of "length line + 1"] using s1(1) s2(1) by simp
    then show ?thesis using s2(2,3) by blast
  qed
qed

lemma lines_served:
  assumes "idle s" "unread s = concat (map (\<lambda>(line, e). line @ e) ls) @ r"
    "\<forall>(line, e)\<in>set ls. line_end e \<and> fits_cache line \<and> \<not> waits_for_data line \<and> \<not> overlong line"
  shows "\<exists>n s'. at_parse_rounds n (s, False) = Some (s', False) \<and> idle s' \<and> unread s' = r"
  using assms
proof (induction ls arbitrary: s)
  case Nil
  then show ?case by (intro exI[of _ 0]) simp
next
  case (Cons x ls)
  obtain line e where x: "x = (line, e)" by (cases x)
  obtain n s1 where s1: "at_parse_rounds n (s, False) = Some (s1, False)" "idle s1" "unread s1 = concat (map (\<lambda>(line, e). line @ e) ls) @ r"
    using line_served[OF Cons.prems(1), of line e "concat (map (\<lambda>(line, e). line @ e) ls) @ r"] Cons.prems(2,3) x by auto
  obtain m s2 where s2: "at_parse_rounds m (s1, False) = Some (s2, False)" "idle s2" "unread s2 = r"
    using Cons.IH[OF s1(2,3)] Cons.prems(3) by auto
  have "at_parse_rounds (n + m) (s, False) = Some (s2, False)" unfolding rounds_add using s1(1) s2(1) by simp
  then show ?case using s2(2,3) by blast
qed

text \<open>With the echo on, a line that fills the buffer is ended by a NUL behind it.\<close>

lemma full_line_echo_overflow:
  assumes "holds s t" "length t = 1024" "localecho1 (at_cfg s) \<noteq> 0"
  shows "at_parse_line s = None"
  using assms by (simp add: at_parse_line_def holds_def wr_def)

section \<open>Claims\<close>



end
