(* ===== verification/FlashChip.thy ===== *)
theory FlashChip
  imports Prelude
begin

unbundle bit_operations_syntax

text \<open>
  The default driver of serial NOR flash chips, \<^verbatim>\<open>src/driver/chip/flashchip/flash_chip.c\<close> and
  \<^verbatim>\<open>flash_default.c\<close>: every operation is one instruction (a command byte and optional address,
  dummy and data fields) handed to the bus driver.  The bus driver (SPI or the flash controller, and
  the chip behind it) is a parameter that acts on an environment \<open>'e\<close>.
\<close>

section \<open>Instructions and the bus\<close>

abbreviation (input) HAL_OK :: int where "HAL_OK \<equiv> 0"
abbreviation (input) HAL_ERROR :: int where "HAL_ERROR \<equiv> -1"
abbreviation (input) HAL_TIMEOUT :: int where "HAL_TIMEOUT \<equiv> -3"
abbreviation (input) HAL_INVALID :: int where "HAL_INVALID \<equiv> -4"

record InstructionField =
  if_data :: u32
  if_pdata :: "u8 list option"
  if_len :: u32
  if_line :: u32

text \<open>An instruction array after \<open>HAL_Memset\<close>.\<close>

definition field0 :: InstructionField where
  "field0 = \<lparr>if_data = 0, if_pdata = None, if_len = 0, if_line = 0\<rparr>"

text \<open>The function pointers of \<open>FlashDrvierBase\<close>: write and read take the command, address, dummy
  and data fields; read also returns the bytes stored at the data pointer.\<close>

record 'e flash_driver =
  drv_open :: "'e \<Rightarrow> 'e"
  drv_close :: "'e \<Rightarrow> 'e"
  drv_write :: "InstructionField \<Rightarrow> InstructionField option \<Rightarrow> InstructionField option \<Rightarrow>
    InstructionField option \<Rightarrow> 'e \<Rightarrow> 'e \<times> int"
  drv_read :: "InstructionField \<Rightarrow> InstructionField option \<Rightarrow> InstructionField option \<Rightarrow>
    InstructionField option \<Rightarrow> 'e \<Rightarrow> 'e \<times> int \<times> u8 list"
  drv_msleep :: "u32 \<Rightarrow> 'e \<Rightarrow> 'e"
  drv_setFreq :: "u32 \<Rightarrow> 'e \<Rightarrow> 'e \<times> int"

text \<open>The attributes of \<open>FlashChipBase\<close> that the code uses.\<close>

record FlashChipBase =
  mJedec :: u32
  mMaxFreq :: u32
  mMaxReadFreq :: u32
  mSize :: u32
  mPageSize :: u32
  mEraseSizeSupport :: u32
  mReadStausSupport :: u32
  mWriteStatusSupport :: u32
  mPageProgramSupport :: u32
  mReadSupport :: u32
  mFlashStatus :: u32
  mDummyCount :: u32

abbreviation (input) FLASH_READ_NORMAL_MODE :: u32 where "FLASH_READ_NORMAL_MODE \<equiv> 1"
abbreviation (input) FLASH_READ_FAST_MODE :: u32 where "FLASH_READ_FAST_MODE \<equiv> 2"
abbreviation (input) FLASH_READ_DUAL_O_MODE :: u32 where "FLASH_READ_DUAL_O_MODE \<equiv> 4"
abbreviation (input) FLASH_READ_DUAL_IO_MODE :: u32 where "FLASH_READ_DUAL_IO_MODE \<equiv> 8"
abbreviation (input) FLASH_READ_QUAD_O_MODE :: u32 where "FLASH_READ_QUAD_O_MODE \<equiv> 16"
abbreviation (input) FLASH_READ_QUAD_IO_MODE :: u32 where "FLASH_READ_QUAD_IO_MODE \<equiv> 32"
abbreviation (input) FLASH_READ_QPI_MODE :: u32 where "FLASH_READ_QPI_MODE \<equiv> 64"
abbreviation (input) FLASH_ERASE_NOSUPPORT :: u32 where "FLASH_ERASE_NOSUPPORT \<equiv> 0"
abbreviation (input) FLASH_ERASE_4KB :: u32 where "FLASH_ERASE_4KB \<equiv> 0x1000"
abbreviation (input) FLASH_ERASE_32KB :: u32 where "FLASH_ERASE_32KB \<equiv> 0x8000"
abbreviation (input) FLASH_ERASE_64KB :: u32 where "FLASH_ERASE_64KB \<equiv> 0x10000"
abbreviation (input) FLASH_ERASE_CHIP :: u32 where "FLASH_ERASE_CHIP \<equiv> 2"
abbreviation (input) FLASH_STATUS1 :: u32 where "FLASH_STATUS1 \<equiv> 1"
abbreviation (input) FLASH_STATUS2 :: u32 where "FLASH_STATUS2 \<equiv> 2"
abbreviation (input) FLASH_STATUS3 :: u32 where "FLASH_STATUS3 \<equiv> 4"
abbreviation (input) FLASH_PAGEPROGRAM :: u32 where "FLASH_PAGEPROGRAM \<equiv> 1"
abbreviation (input) FLASH_QUAD_PAGEPROGRAM :: u32 where "FLASH_QUAD_PAGEPROGRAM \<equiv> 2"

text \<open>\<open>eSF_Instruction\<close>.\<close>

abbreviation (input) I_WREN :: u32 where "I_WREN \<equiv> 0x06"
abbreviation (input) I_WRDI :: u32 where "I_WRDI \<equiv> 0x04"
abbreviation (input) I_RDID :: u32 where "I_RDID \<equiv> 0x9F"
abbreviation (input) I_RDSR1 :: u32 where "I_RDSR1 \<equiv> 0x05"
abbreviation (input) I_RDSR2 :: u32 where "I_RDSR2 \<equiv> 0x35"
abbreviation (input) I_RDSR3 :: u32 where "I_RDSR3 \<equiv> 0x15"
abbreviation (input) I_WRSR1 :: u32 where "I_WRSR1 \<equiv> 0x01"
abbreviation (input) I_WRSR2 :: u32 where "I_WRSR2 \<equiv> 0x31"
abbreviation (input) I_WRSR3 :: u32 where "I_WRSR3 \<equiv> 0x11"
abbreviation (input) I_SRWREN :: u32 where "I_SRWREN \<equiv> 0x50"
abbreviation (input) I_READ :: u32 where "I_READ \<equiv> 0x03"
abbreviation (input) I_FAST_READ :: u32 where "I_FAST_READ \<equiv> 0x0B"
abbreviation (input) I_FAST_READ_DO :: u32 where "I_FAST_READ_DO \<equiv> 0x3B"
abbreviation (input) I_FAST_READ_DIO :: u32 where "I_FAST_READ_DIO \<equiv> 0xBB"
abbreviation (input) I_FAST_READ_QO :: u32 where "I_FAST_READ_QO \<equiv> 0x6B"
abbreviation (input) I_FAST_READ_QIO :: u32 where "I_FAST_READ_QIO \<equiv> 0xEB"
abbreviation (input) I_PP :: u32 where "I_PP \<equiv> 0x02"
abbreviation (input) I_QPP :: u32 where "I_QPP \<equiv> 0x32"
abbreviation (input) I_ERASE_64KB :: u32 where "I_ERASE_64KB \<equiv> 0xD8"
abbreviation (input) I_ERASE_32KB :: u32 where "I_ERASE_32KB \<equiv> 0x52"
abbreviation (input) I_ERASE_4KB :: u32 where "I_ERASE_4KB \<equiv> 0x20"
abbreviation (input) I_ERASE_CHIP :: u32 where "I_ERASE_CHIP \<equiv> 0xC7"
abbreviation (input) I_EPSP :: u32 where "I_EPSP \<equiv> 0x75"
abbreviation (input) I_EPRS :: u32 where "I_EPRS \<equiv> 0x7A"
abbreviation (input) I_PWDN :: u32 where "I_PWDN \<equiv> 0xB9"
abbreviation (input) I_REL :: u32 where "I_REL \<equiv> 0xAB"
abbreviation (input) I_EN_QPI :: u32 where "I_EN_QPI \<equiv> 0x38"
abbreviation (input) I_DIS_QPI :: u32 where "I_DIS_QPI \<equiv> 0xFF"
abbreviation (input) I_RSEN :: u32 where "I_RSEN \<equiv> 0x66"
abbreviation (input) I_RESET :: u32 where "I_RESET \<equiv> 0x99"
abbreviation (input) I_SRP :: u32 where "I_SRP \<equiv> 0xC0"

section \<open>Handing an instruction to the bus\<close>

text \<open>What \<open>defaultDriverWrite\<close> and \<open>defaultDriverRead\<close> do to the fields: one command byte, three
  address bytes, four lines everywhere in QPI mode, and \<open>data\<close> as the buffer of a short data field
  without one.\<close>

definition qpi :: "FlashChipBase \<Rightarrow> bool" where
  "qpi c \<longleftrightarrow> mFlashStatus c AND FLASH_READ_QPI_MODE \<noteq> 0"

definition cmd_field :: "FlashChipBase \<Rightarrow> InstructionField \<Rightarrow> InstructionField" where
  "cmd_field c f = f\<lparr>if_len := 1, if_line := if qpi c then 4 else 1\<rparr>"

definition addr_field :: "FlashChipBase \<Rightarrow> InstructionField \<Rightarrow> InstructionField" where
  "addr_field c f = f\<lparr>if_len := 3, if_line := if qpi c then 4 else if_line f\<rparr>"

definition dummy_field :: "FlashChipBase \<Rightarrow> InstructionField \<Rightarrow> InstructionField" where
  "dummy_field c f = f\<lparr>if_line := if qpi c then 4 else if_line f\<rparr>"

definition data_field :: "FlashChipBase \<Rightarrow> InstructionField \<Rightarrow> InstructionField" where
  "data_field c f = f\<lparr>if_line := if qpi c then 4 else if_line f,
     if_pdata := if if_pdata f = None \<and> if_len f \<le> 4 then Some (le4 (if_data f)) else if_pdata f\<rparr>"

definition defaultDriverWrite ::
  "'e flash_driver \<Rightarrow> FlashChipBase \<Rightarrow> InstructionField \<Rightarrow> InstructionField option \<Rightarrow>
     InstructionField option \<Rightarrow> InstructionField option \<Rightarrow> 'e \<Rightarrow> 'e \<times> int" where
  "defaultDriverWrite d c cmd addr dummy data e =
     drv_write d (cmd_field c cmd) (map_option (addr_field c) addr) (map_option (dummy_field c) dummy)
       (map_option (data_field c) data) e"

definition defaultDriverRead ::
  "'e flash_driver \<Rightarrow> FlashChipBase \<Rightarrow> InstructionField \<Rightarrow> InstructionField option \<Rightarrow>
     InstructionField option \<Rightarrow> InstructionField option \<Rightarrow> 'e \<Rightarrow> 'e \<times> int \<times> u8 list" where
  "defaultDriverRead d c cmd addr dummy data e =
     drv_read d (cmd_field c cmd) (map_option (addr_field c) addr) (map_option (dummy_field c) dummy)
       (map_option (data_field c) data) e"

section \<open>The operations\<close>

text \<open>Instructions without address and data.\<close>

definition plain_cmd :: "u32 \<Rightarrow> InstructionField" where
  "plain_cmd op = field0\<lparr>if_data := op\<rparr>"

definition defaultWriteEnable :: "'e flash_driver \<Rightarrow> FlashChipBase \<Rightarrow> 'e \<Rightarrow> 'e" where
  "defaultWriteEnable d c e = fst (defaultDriverWrite d c ((plain_cmd I_WREN)\<lparr>if_line := 1\<rparr>) None None None e)"

definition defaultWriteDisable :: "'e flash_driver \<Rightarrow> FlashChipBase \<Rightarrow> 'e \<Rightarrow> 'e" where
  "defaultWriteDisable d c e = fst (defaultDriverWrite d c ((plain_cmd I_WRDI)\<lparr>if_line := 1\<rparr>) None None None e)"

definition defaultSuspendErasePageprogram :: "'e flash_driver \<Rightarrow> FlashChipBase \<Rightarrow> 'e \<Rightarrow> 'e \<times> int" where
  "defaultSuspendErasePageprogram d c e = defaultDriverWrite d c (plain_cmd I_EPSP) None None None e"

definition defaultResumeErasePageprogram :: "'e flash_driver \<Rightarrow> FlashChipBase \<Rightarrow> 'e \<Rightarrow> 'e \<times> int" where
  "defaultResumeErasePageprogram d c e = defaultDriverWrite d c (plain_cmd I_EPRS) None None None e"

definition defaultPowerDown :: "'e flash_driver \<Rightarrow> FlashChipBase \<Rightarrow> 'e \<Rightarrow> 'e \<times> int" where
  "defaultPowerDown d c e = defaultDriverWrite d c (plain_cmd I_PWDN) None None None e"

definition defaultReleasePowerDown :: "'e flash_driver \<Rightarrow> FlashChipBase \<Rightarrow> 'e \<Rightarrow> 'e \<times> int" where
  "defaultReleasePowerDown d c e = defaultDriverWrite d c (plain_cmd I_REL) None
     (Some (field0\<lparr>if_len := 3, if_line := 1\<rparr>)) (Some (field0\<lparr>if_len := 1, if_line := 1\<rparr>)) e"

definition defaultReset :: "'e flash_driver \<Rightarrow> FlashChipBase \<Rightarrow> 'e \<Rightarrow> 'e \<times> int" where
  "defaultReset d c e =
     (case defaultDriverWrite d c (plain_cmd I_RSEN) None None None e of (e, ret) \<Rightarrow>
        if ret < 0 then (e, ret) else defaultDriverWrite d c (plain_cmd I_RESET) None None None e)"

definition defaultGetJedecID :: "'e flash_driver \<Rightarrow> FlashChipBase \<Rightarrow> 'e \<Rightarrow> 'e \<times> int \<times> u8 list" where
  "defaultGetJedecID d c e = defaultDriverRead d c (plain_cmd I_RDID) None None
     (Some (field0\<lparr>if_line := 1, if_len := 3\<rparr>)) e"

definition defaultGetUniqueID :: "'e flash_driver \<Rightarrow> FlashChipBase \<Rightarrow> 'e \<Rightarrow> 'e \<times> int \<times> u8 list" where
  "defaultGetUniqueID d c e = defaultDriverRead d c (plain_cmd I_RESET) None
     (Some (field0\<lparr>if_line := 1, if_len := 4\<rparr>)) (Some (field0\<lparr>if_line := 1, if_len := 8\<rparr>)) e"

definition defaultReadStatus ::
  "'e flash_driver \<Rightarrow> FlashChipBase \<Rightarrow> u32 \<Rightarrow> 'e \<Rightarrow> 'e \<times> int \<times> u8 list" where
  "defaultReadStatus d c reg e =
     (if reg AND mReadStausSupport c = 0 then (e, -1, [])
      else defaultDriverRead d c
        (plain_cmd (if reg = FLASH_STATUS1 then I_RDSR1 else if reg = FLASH_STATUS2 then I_RDSR2
                    else if reg = FLASH_STATUS3 then I_RDSR3 else 0))
        None None (Some (field0\<lparr>if_len := 1, if_line := 1\<rparr>)) e)"

definition defaultWriteStatus ::
  "'e flash_driver \<Rightarrow> FlashChipBase \<Rightarrow> u32 \<Rightarrow> u8 \<Rightarrow> 'e \<Rightarrow> 'e \<times> int" where
  "defaultWriteStatus d c reg status e =
     (if reg AND mWriteStatusSupport c = 0 then (e, HAL_INVALID)
      else case defaultDriverWrite d c ((plain_cmd I_SRWREN)\<lparr>if_line := 1\<rparr>) None None None e of (e, _) \<Rightarrow>
        defaultDriverWrite d c
          (plain_cmd (if reg = FLASH_STATUS1 then I_WRSR1 else if reg = FLASH_STATUS2 then I_WRSR2
                      else if reg = FLASH_STATUS3 then I_WRSR3 else 0))
          None None (Some (field0\<lparr>if_pdata := Some [status], if_len := 1, if_line := 1\<rparr>)) e)"

definition defaultErase :: "'e flash_driver \<Rightarrow> FlashChipBase \<Rightarrow> u32 \<Rightarrow> u32 \<Rightarrow> 'e \<Rightarrow> 'e \<times> int" where
  "defaultErase d c mode eaddr e =
     (if mode AND mEraseSizeSupport c = 0 then (e, HAL_INVALID)
      else if mode = FLASH_ERASE_CHIP
      then (fst (defaultDriverWrite d c (plain_cmd I_ERASE_CHIP) None None None e), 0)
      else defaultDriverWrite d c
        (plain_cmd (if mode = FLASH_ERASE_32KB then I_ERASE_32KB else if mode = FLASH_ERASE_64KB then I_ERASE_64KB
                    else if mode = FLASH_ERASE_4KB then I_ERASE_4KB else 0))
        (Some (field0\<lparr>if_data := eaddr, if_line := 1\<rparr>)) None None e)"

definition defaultPageProgram ::
  "'e flash_driver \<Rightarrow> FlashChipBase \<Rightarrow> u32 \<Rightarrow> u32 \<Rightarrow> u8 list \<Rightarrow> u32 \<Rightarrow> 'e \<Rightarrow> 'e \<times> int" where
  "defaultPageProgram d c mode waddr wdata n e =
     (if n > mPageSize c then (e, -1)
      else if mode AND mPageProgramSupport c = 0 then (e, HAL_INVALID)
      else if waddr + n > mSize c \<or> n > mPageSize c then (e, -1)
      else let (op, line) = (if mode = FLASH_PAGEPROGRAM then (I_PP, 1)
                             else if mode = FLASH_QUAD_PAGEPROGRAM then (I_QPP, 4) else (0, 0))
           in defaultDriverWrite d c (plain_cmd op) (Some (field0\<lparr>if_data := waddr, if_line := 1\<rparr>)) None
                (Some (field0\<lparr>if_line := line, if_pdata := Some wdata, if_len := n\<rparr>)) e)"

text \<open>The command, the lines of address, dummy and data, and the number of dummy bytes of every
  read mode; a mode that is not a single known one is refused.\<close>

definition read_instruction :: "FlashChipBase \<Rightarrow> u32 \<Rightarrow> (u32 \<times> u32 \<times> u32 \<times> u32 \<times> u32) option" where
  "read_instruction c mode =
     (if mode = FLASH_READ_NORMAL_MODE then Some (I_READ, 1, 1, 0, 0)
      else if mode = FLASH_READ_FAST_MODE then Some (I_FAST_READ, 1, 1, 1, 1)
      else if mode = FLASH_READ_DUAL_O_MODE then Some (I_FAST_READ_DO, 1, 2, 1, 1)
      else if mode = FLASH_READ_DUAL_IO_MODE then Some (I_FAST_READ_DIO, 2, 2, 1, 2)
      else if mode = FLASH_READ_QUAD_O_MODE then Some (I_FAST_READ_QO, 1, 4, 1, 1)
      else if mode = FLASH_READ_QUAD_IO_MODE then Some (I_FAST_READ_QIO, 4, 4, 3, 4)
      else if mode = FLASH_READ_QPI_MODE then Some (I_FAST_READ_QIO, 0, 4, mDummyCount c, 4)
      else None)"

definition defaultRead ::
  "'e flash_driver \<Rightarrow> FlashChipBase \<Rightarrow> u32 \<Rightarrow> u32 \<Rightarrow> u32 \<Rightarrow> 'e \<Rightarrow> 'e \<times> int \<times> u8 list" where
  "defaultRead d c mode raddr n e =
     (if mode AND mReadSupport c = 0 then (e, HAL_INVALID, [])
      else if raddr + n > mSize c then (e, -1, [])
      else case read_instruction c mode of
             None \<Rightarrow> (e, -1, [])
           | Some (op, addr_line, data_line, dummy_len, dummy_line) \<Rightarrow>
               defaultDriverRead d c (plain_cmd op) (Some (field0\<lparr>if_data := raddr, if_line := addr_line\<rparr>))
                 (Some (field0\<lparr>if_len := dummy_len, if_line := dummy_line\<rparr>))
                 (Some (field0\<lparr>if_line := data_line, if_len := n\<rparr>)) e)"

definition defaultIsBusy :: "'e flash_driver \<Rightarrow> FlashChipBase \<Rightarrow> 'e \<Rightarrow> 'e \<times> int" where
  "defaultIsBusy d c e =
     (case defaultReadStatus d c FLASH_STATUS1 e of (e, ret, status) \<Rightarrow>
        if ret < 0 then (e, -1) else (e, if bit (hd (status @ [0])) 0 then 1 else 0))"

definition defaultSetReadParam :: "'e flash_driver \<Rightarrow> FlashChipBase \<Rightarrow> u8 \<Rightarrow> 'e \<Rightarrow> 'e \<times> int" where
  "defaultSetReadParam d c param e = defaultDriverWrite d c (plain_cmd I_SRP) None None
     (Some (field0\<lparr>if_pdata := Some [param], if_line := 4, if_len := 1\<rparr>)) e"

text \<open>\<open>defaultControl\<close> with \<open>DEFAULT_FLASH_SET_QPI_READ_P5P4\<close>.\<close>

definition control_p5p4 :: "'e flash_driver \<Rightarrow> FlashChipBase \<Rightarrow> u8 \<Rightarrow> 'e \<Rightarrow> 'e \<times> int" where
  "control_p5p4 d c param e =
     (if param > 3 then (e, -1) else (fst (defaultSetReadParam d c (push_bit 4 param) e), 0))"

definition defaultEnableQPIMode ::
  "'e flash_driver \<Rightarrow> FlashChipBase \<Rightarrow> 'e \<Rightarrow> 'e \<times> FlashChipBase \<times> int" where
  "defaultEnableQPIMode d c e =
     (case defaultDriverWrite d c (plain_cmd I_EN_QPI) None None None e of (e, ret) \<Rightarrow>
        if ret \<ge> 0
        then let c = c\<lparr>mFlashStatus := mFlashStatus c OR FLASH_READ_QPI_MODE\<rparr>
             in case control_p5p4 d c 3 e of (e, ret) \<Rightarrow>
                  (e, if ret \<ge> 0 then c\<lparr>mDummyCount := 4\<rparr> else c, ret)
        else (e, c, ret))"

definition defaultDisableQPIMode ::
  "'e flash_driver \<Rightarrow> FlashChipBase \<Rightarrow> 'e \<Rightarrow> 'e \<times> FlashChipBase \<times> int" where
  "defaultDisableQPIMode d c e =
     (case defaultDriverWrite d c ((plain_cmd I_DIS_QPI)\<lparr>if_line := 4\<rparr>) None None None e of (e, ret) \<Rightarrow>
        (e, if ret = 0 then c\<lparr>mFlashStatus := mFlashStatus c AND NOT FLASH_READ_QPI_MODE\<rparr> else c, ret))"

definition defaultSwitchReadMode :: "'e flash_driver \<Rightarrow> FlashChipBase \<Rightarrow> u32 \<Rightarrow> 'e \<Rightarrow> 'e \<times> int" where
  "defaultSwitchReadMode d c mode e =
     (if mode AND mReadSupport c = 0 then (e, HAL_INVALID)
      else if \<not> (mReadStausSupport c AND FLASH_STATUS2 \<noteq> 0 \<and> mWriteStatusSupport c AND FLASH_STATUS2 \<noteq> 0)
      then (e, 0)
      else case defaultReadStatus d c FLASH_STATUS2 e of (e, ret, status) \<Rightarrow>
             if ret < 0 then (e, -1)
             else let b = hd (status @ [0])
                  in defaultWriteStatus d c FLASH_STATUS2
                       (if mode = FLASH_READ_QUAD_O_MODE \<or> mode = FLASH_READ_QUAD_IO_MODE \<or> mode = FLASH_READ_QPI_MODE
                        then b OR 2 else b AND NOT 2) e)"

definition defaultGetMinEraseSize :: "FlashChipBase \<Rightarrow> u32" where
  "defaultGetMinEraseSize c =
     (if mEraseSizeSupport c AND FLASH_ERASE_4KB \<noteq> 0 then FLASH_ERASE_4KB
      else if mEraseSizeSupport c AND FLASH_ERASE_32KB \<noteq> 0 then FLASH_ERASE_32KB
      else if mEraseSizeSupport c AND FLASH_ERASE_64KB \<noteq> 0 then FLASH_ERASE_64KB
      else FLASH_ERASE_NOSUPPORT)"

section \<open>The table of simple chips\<close>

text \<open>\<open>SimpleFlashChipCfg\<close> and what \<open>DefaultFlashCtor\<close> makes of an entry.  The list is the one of the
  application build (the \<open>FLASH_\<close> macros that \<^verbatim>\<open>flash_default.h\<close> defines); the boot loader has the
  first entry only.\<close>

definition chip_cfg :: "u32 \<Rightarrow> u32 \<Rightarrow> u32 \<Rightarrow> u32 \<Rightarrow> u32 \<Rightarrow> u32 \<Rightarrow> u32 \<Rightarrow> u32 \<Rightarrow> u32 \<Rightarrow> FlashChipBase" where
  "chip_cfg jedec sz erase program rstatus wstatus read freq read_freq =
     \<lparr>mJedec = jedec, mMaxFreq = freq, mMaxReadFreq = read_freq, mSize = sz, mPageSize = 256,
      mEraseSizeSupport = erase, mReadStausSupport = rstatus, mWriteStatusSupport = wstatus,
      mPageProgramSupport = program, mReadSupport = read, mFlashStatus = 0, mDummyCount = 1\<rparr>"

definition simpleFlashChip :: "FlashChipBase list" where
  "simpleFlashChip =
    [chip_cfg 0 (- 1) (FLASH_ERASE_64KB OR FLASH_ERASE_32KB OR FLASH_ERASE_4KB OR FLASH_ERASE_CHIP)
       FLASH_PAGEPROGRAM (FLASH_STATUS1 OR FLASH_STATUS2 OR FLASH_STATUS3) (FLASH_STATUS1 OR FLASH_STATUS2
       OR FLASH_STATUS3)
       (FLASH_READ_NORMAL_MODE OR FLASH_READ_FAST_MODE OR FLASH_READ_DUAL_O_MODE OR FLASH_READ_DUAL_IO_MODE
       OR FLASH_READ_QUAD_O_MODE OR FLASH_READ_QUAD_IO_MODE OR FLASH_READ_QPI_MODE) (- 1) (- 1),
     chip_cfg 0x15405E (32 * 16 * 0x1000) (FLASH_ERASE_64KB OR FLASH_ERASE_32KB OR FLASH_ERASE_4KB OR
       FLASH_ERASE_CHIP)
       FLASH_PAGEPROGRAM (FLASH_STATUS1) (FLASH_STATUS1)
       (FLASH_READ_NORMAL_MODE OR FLASH_READ_FAST_MODE OR FLASH_READ_DUAL_O_MODE) (100 * 1000 * 1000) (55 *
       1000 * 1000),
     chip_cfg 0x172020 (128 * 0x10000) (FLASH_ERASE_64KB OR FLASH_ERASE_CHIP)
       FLASH_PAGEPROGRAM (FLASH_STATUS1) (0)
       (FLASH_READ_NORMAL_MODE OR FLASH_READ_FAST_MODE) (50 * 1000 * 1000) (20 * 1000 * 1000),
     chip_cfg 0x1560EF (32 *16 * 0x1000) (FLASH_ERASE_64KB OR FLASH_ERASE_32KB OR FLASH_ERASE_4KB OR
       FLASH_ERASE_CHIP)
       FLASH_PAGEPROGRAM (FLASH_STATUS1 OR FLASH_STATUS2 OR FLASH_STATUS3) (FLASH_STATUS1 OR FLASH_STATUS2
       OR FLASH_STATUS3)
       (FLASH_READ_NORMAL_MODE OR FLASH_READ_FAST_MODE OR FLASH_READ_DUAL_O_MODE OR FLASH_READ_DUAL_IO_MODE
       OR FLASH_READ_QUAD_O_MODE OR FLASH_READ_QUAD_IO_MODE) (80 * 1000 * 1000) (50 * 1000 * 1000),
     chip_cfg 0x1440E0 (16 * 16 * 0x1000) (FLASH_ERASE_64KB OR FLASH_ERASE_32KB OR FLASH_ERASE_4KB OR
       FLASH_ERASE_CHIP)
       FLASH_PAGEPROGRAM (FLASH_STATUS1 OR FLASH_STATUS2) (FLASH_STATUS1)
       (FLASH_READ_NORMAL_MODE OR FLASH_READ_FAST_MODE OR FLASH_READ_DUAL_O_MODE OR FLASH_READ_DUAL_IO_MODE
       OR FLASH_READ_QUAD_O_MODE OR FLASH_READ_QUAD_IO_MODE) (108 * 1000 * 1000) (55 * 1000 * 1000),
     chip_cfg 0x1540E0 (32 * 16 * 0x1000) (FLASH_ERASE_64KB OR FLASH_ERASE_32KB OR FLASH_ERASE_4KB OR
       FLASH_ERASE_CHIP)
       FLASH_PAGEPROGRAM (FLASH_STATUS1 OR FLASH_STATUS2) (FLASH_STATUS1)
       (FLASH_READ_NORMAL_MODE OR FLASH_READ_FAST_MODE OR FLASH_READ_DUAL_O_MODE OR FLASH_READ_DUAL_IO_MODE
       OR FLASH_READ_QUAD_O_MODE OR FLASH_READ_QUAD_IO_MODE) (108 * 1000 * 1000) (55 * 1000 * 1000),
     chip_cfg 0x154020 (32 * 16 * 0x1000) (FLASH_ERASE_64KB OR FLASH_ERASE_32KB OR FLASH_ERASE_4KB OR
       FLASH_ERASE_CHIP)
       FLASH_PAGEPROGRAM (FLASH_STATUS1 OR FLASH_STATUS2 OR FLASH_STATUS3) (FLASH_STATUS1 OR FLASH_STATUS2
       OR FLASH_STATUS3)
       (FLASH_READ_NORMAL_MODE OR FLASH_READ_FAST_MODE OR FLASH_READ_DUAL_O_MODE OR FLASH_READ_DUAL_IO_MODE
       OR FLASH_READ_QUAD_O_MODE OR FLASH_READ_QUAD_IO_MODE OR FLASH_READ_QPI_MODE) (104 * 1000 * 1000) (80
       * 1000 * 1000),
     chip_cfg 0x164020 (64 * 16 * 0x1000) (FLASH_ERASE_64KB OR FLASH_ERASE_32KB OR FLASH_ERASE_4KB OR
       FLASH_ERASE_CHIP)
       FLASH_PAGEPROGRAM (FLASH_STATUS1 OR FLASH_STATUS2 OR FLASH_STATUS3) (FLASH_STATUS1 OR FLASH_STATUS2
       OR FLASH_STATUS3)
       (FLASH_READ_NORMAL_MODE OR FLASH_READ_FAST_MODE OR FLASH_READ_DUAL_O_MODE OR FLASH_READ_DUAL_IO_MODE
       OR FLASH_READ_QUAD_O_MODE OR FLASH_READ_QUAD_IO_MODE OR FLASH_READ_QPI_MODE) (104 * 1000 * 1000) (80
       * 1000 * 1000),
     chip_cfg 0x174068 (128 * 16 * 0x1000) (FLASH_ERASE_64KB OR FLASH_ERASE_32KB OR FLASH_ERASE_4KB OR
       FLASH_ERASE_CHIP)
       FLASH_PAGEPROGRAM (FLASH_STATUS1 OR FLASH_STATUS2 OR FLASH_STATUS3) (FLASH_STATUS1 OR FLASH_STATUS2
       OR FLASH_STATUS3)
       (FLASH_READ_NORMAL_MODE OR FLASH_READ_FAST_MODE OR FLASH_READ_DUAL_O_MODE OR FLASH_READ_DUAL_IO_MODE
       OR FLASH_READ_QUAD_O_MODE OR FLASH_READ_QUAD_IO_MODE) (120 * 1000 * 1000) (55 * 1000 * 1000),
     chip_cfg 0x164068 (64 * 16 * 0x1000) (FLASH_ERASE_64KB OR FLASH_ERASE_32KB OR FLASH_ERASE_4KB OR
       FLASH_ERASE_CHIP)
       FLASH_PAGEPROGRAM (FLASH_STATUS1 OR FLASH_STATUS2 OR FLASH_STATUS3) (FLASH_STATUS1 OR FLASH_STATUS2
       OR FLASH_STATUS3)
       (FLASH_READ_NORMAL_MODE OR FLASH_READ_FAST_MODE OR FLASH_READ_DUAL_O_MODE OR FLASH_READ_DUAL_IO_MODE
       OR FLASH_READ_QUAD_O_MODE OR FLASH_READ_QUAD_IO_MODE) (108 * 1000 * 1000) (55 * 1000 * 1000),
     chip_cfg 0x154068 (32 * 16 * 0x1000) (FLASH_ERASE_64KB OR FLASH_ERASE_32KB OR FLASH_ERASE_4KB OR
       FLASH_ERASE_CHIP)
       FLASH_PAGEPROGRAM (FLASH_STATUS1) (FLASH_STATUS1)
       (FLASH_READ_NORMAL_MODE OR FLASH_READ_FAST_MODE OR FLASH_READ_DUAL_O_MODE) (108 * 1000 * 1000) (55 *
       1000 * 1000),
     chip_cfg 0x144068 (16 * 16 * 0x1000) (FLASH_ERASE_64KB OR FLASH_ERASE_32KB OR FLASH_ERASE_4KB OR
       FLASH_ERASE_CHIP)
       FLASH_PAGEPROGRAM (FLASH_STATUS1) (FLASH_STATUS1)
       (FLASH_READ_NORMAL_MODE OR FLASH_READ_FAST_MODE OR FLASH_READ_DUAL_O_MODE) (108 * 1000 * 1000) (55 *
       1000 * 1000),
     chip_cfg 0x14301C (16 * 16 * 0x1000) (FLASH_ERASE_64KB OR FLASH_ERASE_32KB OR FLASH_ERASE_4KB OR
       FLASH_ERASE_CHIP)
       FLASH_PAGEPROGRAM (FLASH_STATUS1) (FLASH_STATUS1)
       (FLASH_READ_NORMAL_MODE OR FLASH_READ_FAST_MODE OR FLASH_READ_DUAL_O_MODE OR FLASH_READ_DUAL_IO_MODE
       OR FLASH_READ_QUAD_IO_MODE) (104 * 1000 * 1000) (50 * 1000 * 1000),
     chip_cfg 0x15701C (32 * 16 * 0x1000) (FLASH_ERASE_64KB OR FLASH_ERASE_32KB OR FLASH_ERASE_4KB OR
       FLASH_ERASE_CHIP)
       FLASH_PAGEPROGRAM (FLASH_STATUS1) (FLASH_STATUS1)
       (FLASH_READ_NORMAL_MODE OR FLASH_READ_FAST_MODE OR FLASH_READ_DUAL_O_MODE OR FLASH_READ_DUAL_IO_MODE
       OR FLASH_READ_QUAD_IO_MODE) (104 * 1000 * 1000) (50 * 1000 * 1000),
     chip_cfg 0x16301C (64 * 16 * 0x1000) (FLASH_ERASE_64KB OR FLASH_ERASE_32KB OR FLASH_ERASE_4KB OR
       FLASH_ERASE_CHIP)
       FLASH_PAGEPROGRAM (FLASH_STATUS1) (FLASH_STATUS1)
       (FLASH_READ_NORMAL_MODE OR FLASH_READ_FAST_MODE OR FLASH_READ_DUAL_O_MODE OR FLASH_READ_DUAL_IO_MODE
       OR FLASH_READ_QUAD_O_MODE OR FLASH_READ_QUAD_IO_MODE) (104 * 1000 * 1000) (50 * 1000 * 1000)]"

definition DefaultFlashCtor :: "u32 \<Rightarrow> FlashChipBase" where
  "DefaultFlashCtor arg =
     (case find (\<lambda>c. mJedec c = arg) (rev (tl simpleFlashChip)) of
        Some c \<Rightarrow> c | None \<Rightarrow> hd simpleFlashChip)"

end
