(* ===== verification/HalFlash.thy ===== *)
theory HalFlash
  imports FlashChip
begin

unbundle bit_operations_syntax

text \<open>
  The flash device layer, \<^verbatim>\<open>src/driver/chip/hal_flash.c\<close>: locking, page-wise writing, block erase,
  read-modify-write and the write check, over a chip given by its operations.  Undefined behaviour
  (a device that does not exist where the code dereferences it, a remainder by zero) is
  \<^term>\<open>None\<close>.
\<close>

section \<open>Devices\<close>

text \<open>What a \<open>FlashDev\<close> gives the layer: the attributes of its chip, the function pointers of chip
  and bus driver, and the mutex and watchdog of the system.\<close>

record 'e FlashDev =
  fd_chip :: FlashChipBase
  fd_rmode :: u32
  fd_wmode :: u32
  op_lock :: "u32 \<Rightarrow> 'e \<Rightarrow> 'e \<times> int"
  op_unlock :: "'e \<Rightarrow> 'e \<times> int"
  op_alive :: "'e \<Rightarrow> 'e"
  op_open :: "'e \<Rightarrow> 'e"
  op_close :: "'e \<Rightarrow> 'e"
  op_msleep :: "u32 \<Rightarrow> 'e \<Rightarrow> 'e"
  op_writeEnable :: "'e \<Rightarrow> 'e"
  op_writeDisable :: "'e \<Rightarrow> 'e"
  op_pageProgram :: "u32 \<Rightarrow> u32 \<Rightarrow> u8 list \<Rightarrow> u32 \<Rightarrow> 'e \<Rightarrow> 'e \<times> int"
  op_read :: "u32 \<Rightarrow> u32 \<Rightarrow> u32 \<Rightarrow> 'e \<Rightarrow> 'e \<times> int \<times> u8 list"
  op_erase :: "u32 \<Rightarrow> u32 \<Rightarrow> 'e \<Rightarrow> 'e \<times> int"
  op_isBusy :: "'e \<Rightarrow> 'e \<times> int"
  op_readStatus :: "u32 \<Rightarrow> 'e \<Rightarrow> 'e \<times> int \<times> u8 list"
  op_writeStatus :: "u32 \<Rightarrow> u8 \<Rightarrow> 'e \<Rightarrow> 'e \<times> int"
  op_minEraseSize :: u32

text \<open>A device with the default chip operations, as \<open>HAL_Flash_Init\<close> and \<open>DefaultFlashInit\<close> set it
  up.\<close>

definition default_dev ::
  "'e flash_driver \<Rightarrow> FlashChipBase \<Rightarrow> u32 \<Rightarrow> (u32 \<Rightarrow> 'e \<Rightarrow> 'e \<times> int) \<Rightarrow> ('e \<Rightarrow> 'e \<times> int) \<Rightarrow>
     ('e \<Rightarrow> 'e) \<Rightarrow> 'e FlashDev" where
  "default_dev d c rmode lock unlock alive =
     \<lparr>fd_chip = c, fd_rmode = rmode, fd_wmode = FLASH_PAGEPROGRAM,
      op_lock = lock, op_unlock = unlock, op_alive = alive,
      op_open = drv_open d, op_close = drv_close d, op_msleep = drv_msleep d,
      op_writeEnable = defaultWriteEnable d c, op_writeDisable = defaultWriteDisable d c,
      op_pageProgram = defaultPageProgram d c, op_read = defaultRead d c, op_erase = defaultErase d c,
      op_isBusy = defaultIsBusy d c, op_readStatus = defaultReadStatus d c, op_writeStatus = defaultWriteStatus d c,
      op_minEraseSize = defaultGetMinEraseSize c\<rparr>"

text \<open>The list of initialised devices, looked up by \<open>getFlashDev\<close>, and the state: the environment and
  the user counts.\<close>

type_synonym 'e flash_devs = "u32 \<Rightarrow> 'e FlashDev option"

record 'e flash_sys =
  fs_env :: 'e
  fs_usercnt :: "u32 \<Rightarrow> u8"

section \<open>Operations\<close>

definition HAL_Flash_Open ::
  "'e flash_devs \<Rightarrow> u32 \<Rightarrow> u32 \<Rightarrow> 'e flash_sys \<Rightarrow> (int \<times> 'e flash_sys) option" where
  "HAL_Flash_Open devs flash timeout_ms s = do {
     dev \<leftarrow> devs flash;
     (case op_lock dev timeout_ms (fs_env s) of (e, ret) \<Rightarrow>
        Some (ret, if ret = HAL_OK
                   then s\<lparr>fs_env := e, fs_usercnt := (fs_usercnt s)(flash := fs_usercnt s flash + 1)\<rparr>
                   else s\<lparr>fs_env := e\<rparr>))
   }"

definition HAL_Flash_Close :: "'e flash_devs \<Rightarrow> u32 \<Rightarrow> 'e flash_sys \<Rightarrow> (int \<times> 'e flash_sys) option" where
  "HAL_Flash_Close devs flash s = do {
     dev \<leftarrow> devs flash;
     (case op_unlock dev (fs_env s) of (e, ret) \<Rightarrow>
        Some (ret, if ret = HAL_OK
                   then s\<lparr>fs_env := e, fs_usercnt := (fs_usercnt s)(flash := fs_usercnt s flash - 1)\<rparr>
                   else s\<lparr>fs_env := e\<rparr>))
   }"

text \<open>\<open>HAL_Flash_WaitCompl\<close>: polls the chip once a millisecond and feeds the watchdog once a second.\<close>

function wait_compl :: "'e FlashDev \<Rightarrow> int \<Rightarrow> nat \<Rightarrow> 'e \<Rightarrow> 'e \<times> int" where
  "wait_compl dev timeout_ms loop e =
     (case op_isBusy dev e of (e, b) \<Rightarrow>
        if b > 0
        then let e = op_msleep dev 1 e; timeout_ms = timeout_ms - 1
             in if timeout_ms \<le> 0 then (e, HAL_TIMEOUT)
                else if loop + 1 = 1000 then wait_compl dev timeout_ms 0 (op_alive dev e)
                else wait_compl dev timeout_ms (loop + 1) e
        else (e, HAL_OK))"
  by pat_completeness auto
termination by (relation "measure (\<lambda>(dev, timeout_ms, loop, e). nat timeout_ms)") auto

declare wait_compl.simps [simp del]

definition HAL_Flash_WaitCompl :: "'e FlashDev \<Rightarrow> int \<Rightarrow> 'e \<Rightarrow> 'e \<times> int" where
  "HAL_Flash_WaitCompl dev timeout_ms e = wait_compl dev timeout_ms 0 e"

text \<open>The size of the next page program: what is left, at most up to the end of the page.\<close>

definition page_part :: "u32 \<Rightarrow> u32 \<Rightarrow> u32 \<Rightarrow> u32" where
  "page_part page address left = min left (page - address mod page)"

lemma page_part_le: "page_part page address left \<le> left"
  by (simp add: page_part_def)

lemma page_part_pos: "page \<noteq> 0 \<Longrightarrow> left \<noteq> 0 \<Longrightarrow> 0 < page_part page address left"
proof -
  assume "page \<noteq> 0" "left \<noteq> 0"
  then have "address mod page < page" by (simp add: word_less_nat_alt unat_mod unat_gt_0)
  then have "unat (page - address mod page) = unat page - unat (address mod page)" "unat (address mod page) < unat page"
    by (simp_all add: unat_sub less_imp_le word_less_nat_alt)
  then have "unat (page - address mod page) \<noteq> 0" by simp
  then show ?thesis using \<open>left \<noteq> 0\<close> by (auto simp: page_part_def word_neq_0_conv[symmetric] min_def)
qed

lemma page_part_decreases: "page \<noteq> 0 \<Longrightarrow> left \<noteq> 0 \<Longrightarrow> left - page_part page address left < left"
  using page_part_pos[of page left address] page_part_le[of page address left]
  by (simp add: word_less_nat_alt unat_sub word_le_nat_alt)

text \<open>The loop of \<open>HAL_Flash_Write\<close>: one page program per page that the range touches; \<open>data\<close> is the
  memory at \<open>ptr\<close>.  A page program that fails ends the loop, a wait that fails does not.\<close>

function flash_write_loop :: "'e FlashDev \<Rightarrow> u32 \<Rightarrow> u8 list \<Rightarrow> u32 \<Rightarrow> int \<Rightarrow> 'e \<Rightarrow> ('e \<times> int) option" where
  "flash_write_loop dev address data left ret e =
     (if left = 0 then Some (e, ret)
      else if mPageSize (fd_chip dev) = 0 then None
      else let pp_size = page_part (mPageSize (fd_chip dev)) address left;
               e = op_writeEnable dev (op_open dev e)
           in do {
             part \<leftarrow> rd_block data 0 (unat pp_size);
             (case op_pageProgram dev (fd_wmode dev) address part pp_size e of (e, ret) \<Rightarrow>
                let e = op_writeDisable dev e
                in if ret < 0 then Some (e, ret)
                   else case HAL_Flash_WaitCompl dev 5000 e of (e, ret) \<Rightarrow>
                          flash_write_loop dev (address + pp_size) (drop (unat pp_size) data) (left - pp_size)
                            ret (op_close dev e))
           })"
  by pat_completeness auto
termination
  by (relation "measure (\<lambda>(dev, address, data, left, ret, e). unat left)")
    (auto simp: page_part_decreases word_less_nat_alt[symmetric])

declare flash_write_loop.simps [simp del]

definition HAL_Flash_Write ::
  "'e flash_devs \<Rightarrow> u32 \<Rightarrow> u32 \<Rightarrow> u8 list \<Rightarrow> u32 \<Rightarrow> 'e flash_sys \<Rightarrow> (int \<times> 'e flash_sys) option" where
  "HAL_Flash_Write devs flash addr data n s =
     (case devs flash of
        None \<Rightarrow> Some (HAL_INVALID, s)
      | Some dev \<Rightarrow> do {
          (e, ret) \<leftarrow> flash_write_loop dev addr data n HAL_ERROR (fs_env s);
          Some (ret, s\<lparr>fs_env := e\<rparr>)
        })"

text \<open>\<open>HAL_Flash_Read\<close> also returns the bytes it stores in the caller's buffer.\<close>

definition HAL_Flash_Read ::
  "'e flash_devs \<Rightarrow> u32 \<Rightarrow> u32 \<Rightarrow> u32 \<Rightarrow> 'e flash_sys \<Rightarrow> (int \<times> u8 list \<times> 'e flash_sys)" where
  "HAL_Flash_Read devs flash addr n s =
     (case devs flash of
        None \<Rightarrow> (HAL_INVALID, [], s)
      | Some dev \<Rightarrow>
          if n = 0 then (HAL_INVALID, [], s)
          else case op_read dev (fd_rmode dev) addr n (op_open dev (fs_env s)) of (e, ret, data) \<Rightarrow>
                 (ret, data, s\<lparr>fs_env := op_close dev e\<rparr>))"

text \<open>The loop of \<open>HAL_Flash_Erase\<close>.  The result of the erase is only logged: the result of the wait
  replaces it.\<close>

fun flash_erase_loop :: "'e FlashDev \<Rightarrow> u32 \<Rightarrow> u32 \<Rightarrow> nat \<Rightarrow> int \<Rightarrow> 'e \<Rightarrow> 'e \<times> int" where
  "flash_erase_loop dev blk_size eaddr 0 ret e = (e, ret)"
| "flash_erase_loop dev blk_size eaddr (Suc blk_cnt) ret e =
     (case op_erase dev blk_size eaddr (op_writeEnable dev (op_open dev e)) of (e, _) \<Rightarrow>
      case HAL_Flash_WaitCompl dev 5000 (op_writeDisable dev e) of (e, ret) \<Rightarrow>
        let e = op_close dev e
        in if ret < 0 then (e, ret) else flash_erase_loop dev blk_size (eaddr + blk_size) blk_cnt ret e)"

definition HAL_Flash_Erase ::
  "'e flash_devs \<Rightarrow> u32 \<Rightarrow> u32 \<Rightarrow> u32 \<Rightarrow> u32 \<Rightarrow> 'e flash_sys \<Rightarrow> (int \<times> 'e flash_sys) option" where
  "HAL_Flash_Erase devs flash blk_size addr blk_cnt s = do {
     dev \<leftarrow> devs flash;
     if addr + blk_size * blk_cnt > mSize (fd_chip dev) then Some (HAL_INVALID, s)
     else if blk_size = 0 then None
     else if addr mod blk_size \<noteq> 0 then Some (HAL_INVALID, s)
     else case flash_erase_loop dev blk_size addr (unat blk_cnt) HAL_ERROR (fs_env s) of (e, ret) \<Rightarrow>
            Some (ret, s\<lparr>fs_env := e\<rparr>)
   }"

definition HAL_Flash_MemoryOf :: "'e flash_devs \<Rightarrow> u32 \<Rightarrow> u32 \<Rightarrow> u32 \<Rightarrow> (int \<times> u32 option) option" where
  "HAL_Flash_MemoryOf devs flash blk_size addr = do {
     dev \<leftarrow> devs flash;
     Some (if blk_size AND mEraseSizeSupport (fd_chip dev) = 0 then (HAL_INVALID, None)
           else (HAL_OK, Some (addr AND NOT (blk_size - 1))))
   }"

text \<open>\<open>HAL_Flash_Control\<close>; the result of reading a status or the erase size comes with it.\<close>

datatype FlashControlCmd = FLASH_GET_MIN_ERASE_SIZE | FLASH_WRITE_STATUS u32 u8 | FLASH_READ_STATUS u32 | FLASH_CONTROL_OTHER

datatype control_out = No_out | Erase_size u32 | Status "u8 list"

definition HAL_Flash_Control ::
  "'e flash_devs \<Rightarrow> u32 \<Rightarrow> FlashControlCmd \<Rightarrow> 'e flash_sys \<Rightarrow> (int \<times> control_out \<times> 'e flash_sys) option" where
  "HAL_Flash_Control devs flash attr s =
     (case attr of
        FLASH_GET_MIN_ERASE_SIZE \<Rightarrow> do { dev \<leftarrow> devs flash; Some (HAL_ERROR, Erase_size (op_minEraseSize dev), s) }
      | FLASH_WRITE_STATUS reg data \<Rightarrow> do {
          dev \<leftarrow> devs flash;
          (case op_writeStatus dev reg data (op_writeEnable dev (op_open dev (fs_env s))) of (e, ret) \<Rightarrow>
           case HAL_Flash_WaitCompl dev 5000 e of (e, _) \<Rightarrow>
             Some (ret, No_out, s\<lparr>fs_env := op_close dev (op_writeDisable dev e)\<rparr>))
        }
      | FLASH_READ_STATUS reg \<Rightarrow> do {
          dev \<leftarrow> devs flash;
          (case op_readStatus dev reg (op_open dev (fs_env s)) of (e, ret, data) \<Rightarrow>
           case HAL_Flash_WaitCompl dev 5000 e of (e, _) \<Rightarrow>
             Some (ret, Status data, s\<lparr>fs_env := op_close dev e\<rparr>))
        }
      | FLASH_CONTROL_OTHER \<Rightarrow> Some (HAL_INVALID, No_out, s))"

section \<open>Read-modify-write\<close>

text \<open>The part of a 4 KB block that one round of \<open>HAL_Flash_Overwrite\<close> changes.\<close>

definition block_part :: "u32 \<Rightarrow> u32 \<Rightarrow> u32" where
  "block_part paddr left = min left (FLASH_ERASE_4KB - (paddr - (paddr AND NOT (FLASH_ERASE_4KB - 1))))"

lemma align_down: "x AND NOT (2 ^ k - 1) = x - x mod 2 ^ k" for x :: "'a::len word"
proof -
  have "x - take_bit k x = x AND NOT (take_bit k x)"
    by (rule disjunctive_diff_eq_and_not) (auto simp: bit_eq_iff bit_simps)
  also have "\<dots> = x AND NOT (mask k)" by (auto simp: bit_eq_iff bit_simps)
  finally show ?thesis by (simp add: take_bit_eq_mod mask_eq_exp_minus_1)
qed

lemma align_down_4K: "x AND NOT (FLASH_ERASE_4KB - 1) = x - x mod FLASH_ERASE_4KB" for x :: u32
  using align_down[of x 12] by simp

lemma block_part: "block_part paddr left = page_part FLASH_ERASE_4KB paddr left"
  unfolding block_part_def page_part_def align_down_4K by simp

text \<open>\<open>HAL_Flash_Overwrite\<close>: every 4 KB block that the range touches is read, erased and written back
  with the new bytes in it.  The result of the read is not checked; a read that does not fill the
  buffer leaves undefined bytes in it.  \<open>alloc\<close> says whether the buffer could be allocated.\<close>

function overwrite_loop ::
  "'e flash_devs \<Rightarrow> u32 \<Rightarrow> u32 \<Rightarrow> u8 list \<Rightarrow> u32 \<Rightarrow> int \<Rightarrow> 'e flash_sys \<Rightarrow> (int \<times> 'e flash_sys) option" where
  "overwrite_loop devs flash paddr ptr left ret s =
     (if sint left > 0
      then do {
        (rc, start) \<leftarrow> HAL_Flash_MemoryOf devs flash FLASH_ERASE_4KB paddr;
        saddr \<leftarrow> start;
        let (rc, buf, s) = HAL_Flash_Read devs flash saddr FLASH_ERASE_4KB s;
        (if length buf \<noteq> unat FLASH_ERASE_4KB then None else Some ());
        (ret, s) \<leftarrow> HAL_Flash_Erase devs flash FLASH_ERASE_4KB saddr 1 s;
        if ret \<noteq> HAL_OK then Some (ret, s)
        else do {
          let pp_size = block_part paddr left;
          new \<leftarrow> rd_block ptr 0 (unat pp_size);
          buf \<leftarrow> wr_block buf (unat (paddr - saddr)) new;
          (ret, s) \<leftarrow> HAL_Flash_Write devs flash saddr buf FLASH_ERASE_4KB s;
          if ret \<noteq> HAL_OK then Some (ret, s)
          else overwrite_loop devs flash (paddr + pp_size) (drop (unat pp_size) ptr) (left - pp_size) ret s
        }
      }
      else Some (ret, s))"
  by pat_completeness auto
termination
proof (relation "measure (\<lambda>(devs, flash, paddr, ptr, left, ret, s). unat left)", goal_cases)
  case (2 devs flash paddr ptr left ret s)
  then have "left \<noteq> 0" by auto
  with 2 show ?case using page_part_decreases[of FLASH_ERASE_4KB left paddr]
    by (auto simp: block_part word_less_nat_alt)
qed simp

declare overwrite_loop.simps [simp del]

definition HAL_Flash_Overwrite ::
  "'e flash_devs \<Rightarrow> bool \<Rightarrow> u32 \<Rightarrow> u32 \<Rightarrow> u8 list \<Rightarrow> u32 \<Rightarrow> 'e flash_sys \<Rightarrow> (int \<times> 'e flash_sys) option" where
  "HAL_Flash_Overwrite devs alloc flash addr data n s = do {
     dev \<leftarrow> devs flash;
     if mEraseSizeSupport (fd_chip dev) AND FLASH_ERASE_4KB = 0 then Some (HAL_INVALID, s)
     else if \<not> alloc then Some (HAL_ERROR, s)
     else overwrite_loop devs flash addr data n HAL_ERROR s
   }"

section \<open>The write check\<close>

text \<open>\<open>HAL_Flash_Check\<close> compares the flash with the data through a buffer of 128 bytes; \<open>buf\<close> is what is
  left of the buffer.  The results of the reads are not checked.\<close>

fun flash_check_loop ::
  "'e flash_devs \<Rightarrow> u32 \<Rightarrow> u8 list \<Rightarrow> nat \<Rightarrow> u32 \<Rightarrow> u8 list \<Rightarrow> int \<Rightarrow> 'e flash_sys \<Rightarrow> (int \<times> 'e flash_sys) option" where
  "flash_check_loop devs flash pdata 0 paddr buf ret s = Some (ret, s)"
| "flash_check_loop devs flash pdata (Suc left) paddr buf ret s = do {
     let (buf, s) = (if buf = [] then case HAL_Flash_Read devs flash paddr 128 s of (_, b, s) \<Rightarrow> (b, s)
                     else (buf, s));
     src \<leftarrow> rd buf 0;
     dst \<leftarrow> rd pdata 0;
     let dst = dst XOR src;
     if dst = 0 then flash_check_loop devs flash (tl pdata) left (paddr + 1) (tl buf) ret s
     else if dst AND src \<noteq> 0 then Some (2, s)
     else flash_check_loop devs flash (tl pdata) left (paddr + 1) (tl buf) 1 s
   }"

definition HAL_Flash_Check ::
  "'e flash_devs \<Rightarrow> bool \<Rightarrow> u32 \<Rightarrow> u32 \<Rightarrow> u8 list \<Rightarrow> u32 \<Rightarrow> 'e flash_sys \<Rightarrow> (int \<times> 'e flash_sys) option" where
  "HAL_Flash_Check devs alloc flash addr data n s =
     (if \<not> alloc then Some (-1, s) else flash_check_loop devs flash data (unat n) addr [] 0 s)"

section \<open>What a NOR chip does\<close>

text \<open>Programming clears bits, erasing a block sets them all.\<close>

definition mem_and :: "nat \<Rightarrow> u8 list \<Rightarrow> (nat \<Rightarrow> u8) \<Rightarrow> nat \<Rightarrow> u8" where
  "mem_and a bs m = (\<lambda>i. if a \<le> i \<and> i < a + length bs then m i AND bs ! (i - a) else m i)"

definition mem_erase :: "nat \<Rightarrow> nat \<Rightarrow> (nat \<Rightarrow> u8) \<Rightarrow> nat \<Rightarrow> u8" where
  "mem_erase a n m = (\<lambda>i. if a \<le> i \<and> i < a + n then 0xFF else m i)"

definition mem_put :: "nat \<Rightarrow> u8 list \<Rightarrow> (nat \<Rightarrow> u8) \<Rightarrow> nat \<Rightarrow> u8" where
  "mem_put a bs m = (\<lambda>i. if a \<le> i \<and> i < a + length bs then bs ! (i - a) else m i)"

definition mem_bytes :: "(nat \<Rightarrow> u8) \<Rightarrow> nat \<Rightarrow> nat \<Rightarrow> u8 list" where
  "mem_bytes m a n = map m [a..<a + n]"

lemma length_mem_bytes [simp]: "length (mem_bytes m a n) = n"
  by (simp add: mem_bytes_def)

lemma nth_mem_bytes [simp]: "i < n \<Longrightarrow> mem_bytes m a n ! i = m (a + i)"
  by (simp add: mem_bytes_def)

lemma mem_and_Nil [simp]: "mem_and a [] m = m"
  by (rule ext) (auto simp: mem_and_def)

lemma mem_erase_0 [simp]: "mem_erase a 0 m = m"
  by (rule ext) (auto simp: mem_erase_def)

lemma mem_and_and: "mem_and (a + length xs) ys (mem_and a xs m) = mem_and a (xs @ ys) m"
  by (auto simp: mem_and_def nth_append fun_eq_iff)

lemma mem_erase_erase: "mem_erase (a + k) n (mem_erase a k m) = mem_erase a (k + n) m"
  by (auto simp: mem_erase_def fun_eq_iff)

lemma and_FF [simp]: "0xFF AND x = x" "x AND 0xFF = x" for x :: u8
proof -
  have "(0xFF :: u8) = -1" by simp
  then show "0xFF AND x = x" "x AND 0xFF = x" by (simp_all only: and.left_neutral and.right_neutral)
qed

text \<open>Programming an erased range stores the bytes.\<close>

lemma mem_and_erased:
  "(\<And>i. a \<le> i \<Longrightarrow> i < a + length bs \<Longrightarrow> m i = 0xFF) \<Longrightarrow> mem_and a bs m = mem_put a bs m"
  by (auto simp: mem_and_def mem_put_def fun_eq_iff)

lemma mem_bytes_put: "n = length bs \<Longrightarrow> mem_bytes (mem_put a bs m) a n = bs"
  by (rule nth_equalityI) (auto simp: mem_put_def)

lemma mem_bytes_cong: "(\<And>i. a \<le> i \<Longrightarrow> i < a + n \<Longrightarrow> m i = m' i) \<Longrightarrow> mem_bytes m a n = mem_bytes m' a n"
  by (simp add: mem_bytes_def)

text \<open>The documented behaviour of a serial NOR chip behind its operations.  \<open>mem\<close> is the memory,
  \<open>busy\<close> the milliseconds until a running program or erase ends.  A chip that is not busy reads its
  memory, and carries out a program within one page or an erase of one aligned block directly after
  it was write enabled; it then is busy for less than five seconds, during which it answers status
  reads.  The mutex is not contended.\<close>

locale nor_flash =
  fixes devs :: "'e flash_devs" and flash :: u32 and dev :: "'e FlashDev"
    and mem :: "'e \<Rightarrow> nat \<Rightarrow> u8" and busy :: "'e \<Rightarrow> nat"
  assumes dev: "devs flash = Some dev"
    and page: "mPageSize (fd_chip dev) \<noteq> 0"
    and neutral: "f \<in> {op_open dev, op_close dev, op_alive dev, op_writeEnable dev, op_writeDisable dev}
      \<Longrightarrow> mem (f e) = mem e \<and> busy (f e) = busy e"
    and lock: "\<exists>e'. op_lock dev t e = (e', HAL_OK) \<and> mem e' = mem e \<and> busy e' = busy e"
    and unlock: "\<exists>e'. op_unlock dev e = (e', HAL_OK) \<and> mem e' = mem e \<and> busy e' = busy e"
    and msleep: "mem (op_msleep dev t e) = mem e" "busy (op_msleep dev 1 e) = busy e - 1"
    and isBusy: "\<exists>e'. op_isBusy dev e = (e', if busy e = 0 then 0 else 1) \<and> mem e' = mem e \<and> busy e' = busy e"
    and read: "busy e = 0 \<Longrightarrow> n \<noteq> 0 \<Longrightarrow> unat a + unat n \<le> unat (mSize (fd_chip dev))
      \<Longrightarrow> \<exists>e'. op_read dev (fd_rmode dev) a n e = (e', HAL_OK, mem_bytes (mem e) (unat a) (unat n))
           \<and> mem e' = mem e \<and> busy e' = 0"
    and program: "busy e = 0 \<Longrightarrow> n \<noteq> 0 \<Longrightarrow> length bs = unat n
      \<Longrightarrow> unat (a mod mPageSize (fd_chip dev)) + unat n \<le> unat (mPageSize (fd_chip dev))
      \<Longrightarrow> unat a + unat n \<le> unat (mSize (fd_chip dev))
      \<Longrightarrow> \<exists>e'. op_pageProgram dev (fd_wmode dev) a bs n (op_writeEnable dev e) = (e', HAL_OK)
           \<and> mem e' = mem_and (unat a) bs (mem e) \<and> busy e' < 5000"
    and erase: "busy e = 0 \<Longrightarrow> blk \<in> {FLASH_ERASE_4KB, FLASH_ERASE_32KB, FLASH_ERASE_64KB}
      \<Longrightarrow> blk AND mEraseSizeSupport (fd_chip dev) \<noteq> 0 \<Longrightarrow> a mod blk = 0
      \<Longrightarrow> unat a + unat blk \<le> unat (mSize (fd_chip dev))
      \<Longrightarrow> \<exists>e' rc. op_erase dev blk a (op_writeEnable dev e) = (e', rc)
           \<and> mem e' = mem_erase (unat a) (unat blk) (mem e) \<and> busy e' < 5000"
begin

lemma neutral_simps [simp]:
  "mem (op_open dev e) = mem e" "busy (op_open dev e) = busy e"
  "mem (op_close dev e) = mem e" "busy (op_close dev e) = busy e"
  "mem (op_alive dev e) = mem e" "busy (op_alive dev e) = busy e"
  "mem (op_writeDisable dev e) = mem e" "busy (op_writeDisable dev e) = busy e"
  using neutral by auto

lemma wait_compl_ok:
  "int (busy e) < t \<Longrightarrow> \<exists>e'. wait_compl dev t l e = (e', HAL_OK) \<and> mem e' = mem e \<and> busy e' = 0"
proof (induction "busy e" arbitrary: e t l)
  case 0
  then obtain e' where "op_isBusy dev e = (e', 0)" "mem e' = mem e" "busy e' = 0"
    using isBusy[of e] by auto
  then show ?case by (subst wait_compl.simps) simp
next
  case (Suc k)
  have nz: "busy e \<noteq> 0" using Suc.hyps(2) by simp
  obtain e1 where e1: "op_isBusy dev e = (e1, 1)" "mem e1 = mem e" "busy e1 = Suc k"
    using isBusy[of e] unfolding if_not_P[OF nz] unfolding Suc.hyps(2) by blast
  let ?e2 = "op_msleep dev 1 e1"
  have e2: "mem ?e2 = mem e" "k = busy ?e2" using e1 by (simp_all add: msleep)
  have IH: "\<exists>e'. wait_compl dev (t - 1) l' e'' = (e', HAL_OK) \<and> mem e' = mem e \<and> busy e' = 0"
    if "busy e'' = k" "mem e'' = mem e" for l' e''
  proof -
    have "int (busy e'') < t - 1" using Suc.prems Suc.hyps(2) that(1) by linarith
    from Suc.hyps(1)[OF that(1)[symmetric] this] show ?thesis by (simp only: that(2))
  qed
  have "wait_compl dev t l e = (if l + 1 = 1000 then wait_compl dev (t - 1) 0 (op_alive dev ?e2)
      else wait_compl dev (t - 1) (l + 1) ?e2)"
    using Suc.prems Suc.hyps(2) by (subst wait_compl.simps) (simp add: e1 Let_def)
  then show ?case using IH[of ?e2] IH[of "op_alive dev ?e2"] e2 by simp
qed

lemma WaitCompl_ok:
  assumes "busy e < 5000"
  obtains e' where "HAL_Flash_WaitCompl dev 5000 e = (e', HAL_OK)" "mem e' = mem e" "busy e' = 0"
  using wait_compl_ok[of e 5000 0] assms by (auto simp: HAL_Flash_WaitCompl_def)

end

context nor_flash
begin

abbreviation sz :: nat where "sz \<equiv> unat (mSize (fd_chip dev))"

lemma write_loop_ok:
  "busy e = 0 \<Longrightarrow> unat left \<le> length data \<Longrightarrow> unat a + unat left \<le> sz
   \<Longrightarrow> \<exists>e'. flash_write_loop dev a data left ret e = Some (e', if left = 0 then ret else HAL_OK)
     \<and> mem e' = mem_and (unat a) (take (unat left) data) (mem e) \<and> busy e' = 0"
proof (induction "unat left" arbitrary: a data left ret e rule: less_induct)
  case less
  show ?case
  proof (cases "left = 0")
    case True
    then show ?thesis using less.prems(1) by (subst flash_write_loop.simps) simp
  next
    case False
    let ?page = "mPageSize (fd_chip dev)"
    define n where "n = page_part ?page a left"
    have n: "n \<noteq> 0" "n \<le> left" "n \<le> ?page - a mod ?page"
      using page_part_pos[OF page False, of a] page_part_le[of ?page a left]
      by (simp_all add: n_def word_gt_0) (simp add: page_part_def)
    have room: "unat (a mod ?page) < unat ?page"
      using page by (simp add: unat_mod unat_gt_0)
    then have "unat (?page - a mod ?page) = unat ?page - unat (a mod ?page)"
      by (simp add: unat_sub word_le_nat_alt)
    then have fits: "unat (a mod ?page) + unat n \<le> unat ?page" using n(3) room by (simp add: word_le_nat_alt)
    have le: "unat n \<le> unat left" using n(2) by (simp add: word_le_nat_alt)
    let ?part = "take (unat n) data"
    have part: "rd_block data 0 (unat n) = Some ?part" "length ?part = unat n"
      using le less.prems(2) by (simp_all add: rd_block_def)
    obtain e1 where e1: "op_pageProgram dev (fd_wmode dev) a ?part n (op_writeEnable dev (op_open dev e)) = (e1, HAL_OK)"
      "mem e1 = mem_and (unat a) ?part (mem e)" "busy e1 < 5000"
      using program[of "op_open dev e" n ?part a] less.prems n(1) part(2) fits le by fastforce
    obtain e2 where e2: "HAL_Flash_WaitCompl dev 5000 (op_writeDisable dev e1) = (e2, HAL_OK)"
      "mem e2 = mem e1" "busy e2 = 0"
      using WaitCompl_ok[of "op_writeDisable dev e1"] e1(3) by auto
    have rest: "unat (left - n) = unat left - unat n" using n(2) by (simp add: unat_sub)
    have "unat a + unat n < 2 ^ 32" using less.prems(3) le u32_less[of "mSize (fd_chip dev)"] by simp
    then have next_a: "unat (a + n) = unat a + unat n" by (simp add: unat_plus)
    have shrink: "unat (left - n) < unat left" using n(1) le rest unat_gt_0[of n] by linarith
    obtain e3 where e3: "flash_write_loop dev (a + n) (drop (unat n) data) (left - n) HAL_OK (op_close dev e2)
        = Some (e3, HAL_OK)"
      "mem e3 = mem_and (unat (a + n)) (take (unat (left - n)) (drop (unat n) data)) (mem e2)" "busy e3 = 0"
      using less.hyps[OF shrink, of "op_close dev e2" "drop (unat n) data" "a + n" HAL_OK] less.prems(1,3) e2(3) rest next_a le
        diff_le_mono[OF less.prems(2), of "unat n"]
      by auto
    have "flash_write_loop dev a data left ret e = Some (e3, HAL_OK)"
      using False page by (subst flash_write_loop.simps)
        (simp add: n_def[symmetric] part(1) e1(1) e2(1) e3(1) Let_def)
    moreover have "take (unat left) data = ?part @ take (unat (left - n)) (drop (unat n) data)"
      using le rest by (metis add_diff_inverse_nat not_less take_add)
    then have "mem e3 = mem_and (unat a) (take (unat left) data) (mem e)"
      using mem_and_and[of "unat a" ?part, unfolded part(2)] by (simp add: e3(2) e2(2) e1(2) next_a)
    ultimately show ?thesis using e3(3) False by simp
  qed
qed

lemma erase_loop_ok:
  "busy e = 0 \<Longrightarrow> blk \<in> {FLASH_ERASE_4KB, FLASH_ERASE_32KB, FLASH_ERASE_64KB}
   \<Longrightarrow> blk AND mEraseSizeSupport (fd_chip dev) \<noteq> 0 \<Longrightarrow> unat a mod unat blk = 0 \<Longrightarrow> unat a + unat blk * n \<le> sz
   \<Longrightarrow> \<exists>e'. flash_erase_loop dev blk a n ret e = (e', if n = 0 then ret else HAL_OK)
     \<and> mem e' = mem_erase (unat a) (unat blk * n) (mem e) \<and> busy e' = 0"
proof (induction n arbitrary: a ret e)
  case (Suc n)
  have "a mod blk = 0" using Suc.prems(4) by (simp add: word_arith_nat_mod)
  then obtain e1 rc where e1: "op_erase dev blk a (op_writeEnable dev (op_open dev e)) = (e1, rc)"
    "mem e1 = mem_erase (unat a) (unat blk) (mem e)" "busy e1 < 5000"
    using erase[of "op_open dev e" blk a] Suc.prems by auto
  obtain e2 where e2: "HAL_Flash_WaitCompl dev 5000 (op_writeDisable dev e1) = (e2, HAL_OK)"
    "mem e2 = mem e1" "busy e2 = 0"
    using WaitCompl_ok[of "op_writeDisable dev e1"] e1(3) by auto
  have "unat a + unat blk \<le> sz" using Suc.prems(5) by simp
  then have "unat a + unat blk < 2 ^ 32" using u32_less[of "mSize (fd_chip dev)"] by simp
  then have next_a: "unat (a + blk) = unat a + unat blk" by (simp add: unat_plus)
  obtain e3 where e3: "flash_erase_loop dev blk (a + blk) n HAL_OK (op_close dev e2) = (e3, HAL_OK)"
    "mem e3 = mem_erase (unat (a + blk)) (unat blk * n) (mem e2)" "busy e3 = 0"
    using Suc.IH[of "op_close dev e2" "a + blk" HAL_OK] Suc.prems e2(3) next_a by auto
  show ?case
    by (simp add: e1(1) e2(1) e3(1,3) e3(2)[unfolded next_a e2(2) e1(2) mem_erase_erase] Let_def)
qed simp

end

context nor_flash
begin

text \<open>The state holds the memory \<open>m\<close> and no program or erase is running.\<close>

abbreviation st :: "'e flash_sys \<Rightarrow> (nat \<Rightarrow> u8) \<Rightarrow> bool" where
  "st s m \<equiv> mem (fs_env s) = m \<and> busy (fs_env s) = 0"

lemma Open_ok: "st s m \<Longrightarrow> \<exists>s'. HAL_Flash_Open devs flash t s = Some (HAL_OK, s') \<and> st s' m"
  using lock[of t "fs_env s"] by (auto simp: HAL_Flash_Open_def dev)

lemma Close_ok: "st s m \<Longrightarrow> \<exists>s' rc. HAL_Flash_Close devs flash s = Some (rc, s') \<and> st s' m"
  using unlock[of "fs_env s"] by (auto simp: HAL_Flash_Close_def dev)

lemma Read_ok:
  assumes "st s m" "n \<noteq> 0" "unat a + unat n \<le> sz"
  shows "\<exists>s'. HAL_Flash_Read devs flash a n s = (HAL_OK, mem_bytes m (unat a) (unat n), s') \<and> st s' m"
  using read[of "op_open dev (fs_env s)" n a] assms by (auto simp: HAL_Flash_Read_def dev)

lemma Write_ok:
  assumes "st s m" "n \<noteq> 0" "unat n = length data" "unat a + unat n \<le> sz"
  shows "\<exists>s'. HAL_Flash_Write devs flash a data n s = Some (HAL_OK, s') \<and> st s' (mem_and (unat a) data m)"
  using write_loop_ok[of "fs_env s" n data a HAL_ERROR] assms by (auto simp: HAL_Flash_Write_def dev)

lemma Erase_ok:
  assumes "st s m" "cnt \<noteq> 0" "blk \<in> {FLASH_ERASE_4KB, FLASH_ERASE_32KB, FLASH_ERASE_64KB}"
    "blk AND mEraseSizeSupport (fd_chip dev) \<noteq> 0" "unat a mod unat blk = 0" "unat a + unat blk * unat cnt \<le> sz"
  shows "\<exists>s'. HAL_Flash_Erase devs flash blk a cnt s = Some (HAL_OK, s')
    \<and> st s' (mem_erase (unat a) (unat blk * unat cnt) m)"
proof -
  have "unat a + unat blk * unat cnt < 2 ^ 32" using assms(6) u32_less[of "mSize (fd_chip dev)"] by linarith
  moreover from this have "unat (blk * cnt) = unat blk * unat cnt" by (simp add: unat_times)
  ultimately have "unat (a + blk * cnt) = unat a + unat blk * unat cnt" by (simp add: unat_plus)
  then have "a + blk * cnt \<le> mSize (fd_chip dev)" using assms(6) by (simp add: word_le_nat_alt)
  moreover have "a mod blk = 0" using assms(5) by (simp add: word_arith_nat_mod)
  moreover have "blk \<noteq> 0" using assms(3) by auto
  moreover obtain e' where "flash_erase_loop dev blk a (unat cnt) HAL_ERROR (fs_env s) = (e', HAL_OK)"
      "mem e' = mem_erase (unat a) (unat blk * unat cnt) m" "busy e' = 0"
    using erase_loop_ok[of "fs_env s" blk a "unat cnt" HAL_ERROR] assms by (auto simp: unat_eq_0)
  ultimately show ?thesis by (simp add: HAL_Flash_Erase_def dev not_less[symmetric])
qed

end

section \<open>Read-modify-write is an update\<close>

lemma mem_and_erase: "mem_and a bs (mem_erase a (length bs) m) = mem_put a bs m"
  by (auto simp: mem_and_def mem_erase_def mem_put_def fun_eq_iff)

lemma mem_put_append: "mem_put (a + length xs) ys (mem_put a xs m) = mem_put a (xs @ ys) m"
  by (auto simp: mem_put_def nth_append fun_eq_iff)

lemma mem_put_block:
  assumes "wr_block (mem_bytes m a n) k bs = Some buf"
  shows "mem_put a buf m = mem_put (a + k) bs m"
proof
  fix i
  have k: "k + length bs \<le> n" and buf: "buf = take k (mem_bytes m a n) @ bs @ drop (k + length bs) (mem_bytes m a n)"
    using assms by (auto simp: wr_block_def split: if_splits)
  show "mem_put a buf m i = mem_put (a + k) bs m i"
    using k by (auto simp: buf mem_put_def nth_append)
qed

lemma unat_mod_4K: "unat (x mod FLASH_ERASE_4KB) = unat x mod 4096" for x :: u32
  by (simp add: unat_mod)

lemma unat_page_part_4K:
  "unat (page_part FLASH_ERASE_4KB x left) = min (unat left) (4096 - unat x mod 4096)"
proof -
  have "unat (FLASH_ERASE_4KB - x mod FLASH_ERASE_4KB) = 4096 - unat x mod 4096"
    by (subst unat_sub) (simp_all add: unat_mod word_le_nat_alt)
  then show ?thesis by (simp add: page_part_def min_def word_le_nat_alt)
qed

lemma mem_put_Nil [simp]: "mem_put a [] m = m"
  by (rule ext) (auto simp: mem_put_def)

lemma block_bounds:
  fixes a n :: nat
  assumes "n mod 4096 = 0" "a < n"
  shows "a - a mod 4096 + 4096 \<le> n" "(a - a mod 4096) mod 4096 = 0"
proof -
  have d: "a - a mod 4096 = 4096 * (a div 4096)" using minus_mod_eq_mult_div[of a 4096] .
  obtain q where q: "n = 4096 * q" using assms(1) by (auto simp: dvd_def mod_0_imp_dvd dest!: mod_0_imp_dvd)
  then have "a div 4096 < q" using assms(2) by (simp add: less_mult_imp_div_less mult.commute)
  then show "a - a mod 4096 + 4096 \<le> n" unfolding d q by simp
  show "(a - a mod 4096) mod 4096 = 0" unfolding d by simp
qed

context nor_flash
begin

text \<open>One round of \<open>HAL_Flash_Overwrite\<close> on the block of \<open>a\<close>.\<close>

lemma overwrite_round_ok:
  assumes "st s m" "FLASH_ERASE_4KB AND mEraseSizeSupport (fd_chip dev) \<noteq> 0" "sz mod 4096 = 0" "unat a < sz"
    "length new \<le> 4096 - unat a mod 4096"
  defines "S \<equiv> a AND NOT (FLASH_ERASE_4KB - 1)"
  shows "HAL_Flash_MemoryOf devs flash FLASH_ERASE_4KB a = Some (HAL_OK, Some S)"
    and "\<exists>buf s1 s2 buf' s3. HAL_Flash_Read devs flash S FLASH_ERASE_4KB s = (HAL_OK, buf, s1) \<and> length buf = 4096
     \<and> HAL_Flash_Erase devs flash FLASH_ERASE_4KB S 1 s1 = Some (HAL_OK, s2)
     \<and> wr_block buf (unat (a - S)) new = Some buf'
     \<and> HAL_Flash_Write devs flash S buf' FLASH_ERASE_4KB s2 = Some (HAL_OK, s3)
     \<and> st s3 (mem_put (unat a) new m)"
proof -
  show "HAL_Flash_MemoryOf devs flash FLASH_ERASE_4KB a = Some (HAL_OK, Some S)"
    using assms(2) by (simp add: HAL_Flash_MemoryOf_def dev S_def)
  have S: "S = a - a mod FLASH_ERASE_4KB" unfolding S_def by (rule align_down_4K)
  have uS: "unat S = unat a - unat a mod 4096"
    unfolding S by (subst unat_sub) (simp_all add: unat_mod word_le_nat_alt)
  have off: "unat (a - S) = unat a mod 4096" unfolding S by (simp add: unat_mod)
  have room: "unat S + 4096 \<le> sz" "unat S mod 4096 = 0" using block_bounds[OF assms(3,4)] uS by simp_all
  obtain s1 where s1: "HAL_Flash_Read devs flash S FLASH_ERASE_4KB s = (HAL_OK, mem_bytes m (unat S) 4096, s1)" "st s1 m"
    using Read_ok[of s m FLASH_ERASE_4KB S] assms(1) room(1) by auto
  obtain s2 where s2: "HAL_Flash_Erase devs flash FLASH_ERASE_4KB S 1 s1 = Some (HAL_OK, s2)"
    "st s2 (mem_erase (unat S) 4096 m)"
    using Erase_ok[of s1 m 1 FLASH_ERASE_4KB S] s1(2) assms(2) room by auto
  obtain buf' where buf': "wr_block (mem_bytes m (unat S) 4096) (unat (a - S)) new = Some buf'"
    using assms(5) mod_less_divisor[of 4096 "unat a"] by (simp add: wr_block_def off le_diff_conv2)
  have len: "length buf' = 4096" using wr_block_length[OF buf'] by simp
  obtain s3 where s3: "HAL_Flash_Write devs flash S buf' FLASH_ERASE_4KB s2 = Some (HAL_OK, s3)"
    "st s3 (mem_and (unat S) buf' (mem_erase (unat S) 4096 m))"
    using Write_ok[of s2 _ FLASH_ERASE_4KB buf' S] s2(2) room(1) len by auto
  have "unat S + unat (a - S) = unat a" unfolding off uS by simp
  then have "st s3 (mem_put (unat a) new m)"
    using s3(2) mem_and_erase[of "unat S" buf' m] mem_put_block[OF buf'] by (simp add: len)
  then show "\<exists>buf s1 s2 buf' s3. HAL_Flash_Read devs flash S FLASH_ERASE_4KB s = (HAL_OK, buf, s1) \<and> length buf = 4096
     \<and> HAL_Flash_Erase devs flash FLASH_ERASE_4KB S 1 s1 = Some (HAL_OK, s2)
     \<and> wr_block buf (unat (a - S)) new = Some buf'
     \<and> HAL_Flash_Write devs flash S buf' FLASH_ERASE_4KB s2 = Some (HAL_OK, s3)
     \<and> st s3 (mem_put (unat a) new m)"
    using s1(1) s2(1) buf' s3(1) length_mem_bytes by blast
qed

end

lemma sint_pos: "unat x < 2147483648 \<Longrightarrow> 0 < sint x \<longleftrightarrow> x \<noteq> 0" for x :: u32
  by (simp only: sint_unat of_nat_0_less_iff unat_gt_0)

context nor_flash
begin

lemma overwrite_loop_ok:
  "st s m \<Longrightarrow> unat left = length data \<Longrightarrow> unat left < 2147483648
   \<Longrightarrow> FLASH_ERASE_4KB AND mEraseSizeSupport (fd_chip dev) \<noteq> 0 \<Longrightarrow> sz mod 4096 = 0 \<Longrightarrow> unat a + unat left \<le> sz
   \<Longrightarrow> \<exists>s'. overwrite_loop devs flash a data left ret s = Some (if left = 0 then ret else HAL_OK, s')
     \<and> st s' (mem_put (unat a) data m)"
proof (induction "unat left" arbitrary: a data left ret s m rule: less_induct)
  case less
  note pos = sint_pos[OF less.prems(3)]
  show ?case
  proof (cases "left = 0")
    case True
    then show ?thesis using less.prems(1,2) pos by (subst overwrite_loop.simps) simp
  next
    case False
    define p where "p = block_part a left"
    let ?new = "take (unat p) data"
    define S where "S = a AND NOT (FLASH_ERASE_4KB - 1)"
    have pp: "p = page_part FLASH_ERASE_4KB a left" unfolding p_def by (rule block_part)
    have le: "unat p \<le> unat left" using page_part_le[of FLASH_ERASE_4KB a left] by (simp add: pp word_le_nat_alt)
    have p4: "unat p \<le> 4096 - unat a mod 4096" by (simp add: pp unat_page_part_4K)
    have new: "rd_block data 0 (unat p) = Some ?new" "length ?new = unat p"
      using le less.prems(2) by (simp_all add: rd_block_def)
    have a: "unat a < sz" using False less.prems(6) unat_gt_0[of left] by linarith
    have fits: "length ?new \<le> 4096 - unat a mod 4096" using p4 new(2) by simp
    obtain buf s1 s2 buf' s3 where r: "HAL_Flash_Read devs flash S FLASH_ERASE_4KB s = (HAL_OK, buf, s1)"
      "length buf = 4096" "HAL_Flash_Erase devs flash FLASH_ERASE_4KB S 1 s1 = Some (HAL_OK, s2)"
      "wr_block buf (unat (a - S)) ?new = Some buf'"
      "HAL_Flash_Write devs flash S buf' FLASH_ERASE_4KB s2 = Some (HAL_OK, s3)" "st s3 (mem_put (unat a) ?new m)"
      using overwrite_round_ok(2)[OF less.prems(1,4,5) a fits, folded S_def] by blast
    have rest: "unat (left - p) = unat left - unat p" "unat (left - p) < unat left"
      using page_part_decreases[of FLASH_ERASE_4KB left a] False le by (simp_all add: pp unat_sub word_le_nat_alt word_less_nat_alt)
    have "unat a + unat p < 2 ^ 32" using less.prems(6) le u32_less[of "mSize (fd_chip dev)"] by linarith
    then have next_a: "unat (a + p) = unat a + unat p" by (rule unat_plus)
    obtain s' where s': "overwrite_loop devs flash (a + p) (drop (unat p) data) (left - p) HAL_OK s3 = Some (HAL_OK, s')"
      "st s' (mem_put (unat (a + p)) (drop (unat p) data) (mem_put (unat a) ?new m))"
      using less.hyps[OF rest(2), of s3 _ "drop (unat p) data" "a + p" HAL_OK] r(6) less.prems rest le next_a
      by auto
    have "overwrite_loop devs flash a data left ret s = Some (HAL_OK, s')"
      using False pos overwrite_round_ok(1)[OF less.prems(1,4,5) a fits, folded S_def]
      by (subst overwrite_loop.simps) (simp add: r(1-5) new(1) s'(1) p_def[symmetric] Let_def)
    then show ?thesis using s'(2) mem_put_append[of "unat a" ?new "drop (unat p) data" m] new(2) False
      by (simp add: next_a)
  qed
qed

end

text \<open>C14. On a NOR chip with 4 KB blocks, \<open>HAL_Flash_Overwrite\<close> succeeds and changes exactly the bytes
  it was given: whatever the alignment of the range and whatever was stored there, the memory
  afterwards is the old one with the data in the range.\<close>

theorem HAL_Flash_Overwrite_updates:
  assumes "nor_flash devs flash dev mem busy" "busy (fs_env s) = 0"
    "FLASH_ERASE_4KB AND mEraseSizeSupport (fd_chip dev) \<noteq> 0" "unat (mSize (fd_chip dev)) mod 4096 = 0"
    "unat n = length data" "n \<noteq> 0" "unat n < 2147483648" "unat addr + unat n \<le> unat (mSize (fd_chip dev))"
  shows "\<exists>s'. HAL_Flash_Overwrite devs True flash addr data n s = Some (HAL_OK, s')
    \<and> mem (fs_env s') = mem_put (unat addr) data (mem (fs_env s)) \<and> busy (fs_env s') = 0"
  using nor_flash.overwrite_loop_ok[OF assms(1), of s "mem (fs_env s)" n data addr HAL_ERROR] assms
  by (auto simp: HAL_Flash_Overwrite_def nor_flash.dev and.commute[of "mEraseSizeSupport _"])

section \<open>What the write check says\<close>

lemma mem_bytes_Suc: "mem_bytes m a (Suc n) = m a # mem_bytes m (Suc a) n"
  by (simp add: mem_bytes_def upt_conv_Cons del: upt_Suc)

context nor_flash
begin

lemma check_loop_ok:
  "st s m \<Longrightarrow> length data = left \<Longrightarrow> buf = mem_bytes m (unat a) (length buf) \<Longrightarrow> unat a + left + 128 \<le> sz
   \<Longrightarrow> ret \<in> {0, 1}
   \<Longrightarrow> \<exists>s'. flash_check_loop devs flash data left a buf ret s
      = Some (if \<exists>i<left. m (unat a + i) AND NOT (data ! i) \<noteq> 0 then 2
              else if mem_bytes m (unat a) left = data then ret else 1, s') \<and> st s' m"
proof (induction left arbitrary: data a buf ret s)
  case 0
  then show ?case by (simp add: mem_bytes_def)
next
  case (Suc left)
  obtain d ds where data: "data = d # ds" "length ds = left" using Suc.prems(2) by (cases data) auto
  obtain b s1 where b: "(if buf = [] then case HAL_Flash_Read devs flash a 128 s of (_, b, s) \<Rightarrow> (b, s) else (buf, s)) = (b, s1)"
    "b \<noteq> []" "b = mem_bytes m (unat a) (length b)" "st s1 m"
  proof (cases "buf = []")
    case True
    obtain s1 where "HAL_Flash_Read devs flash a 128 s = (HAL_OK, mem_bytes m (unat a) 128, s1)" "st s1 m"
      using Read_ok[of s m 128 a] Suc.prems by auto
    then show ?thesis using True by (intro that[of "mem_bytes m (unat a) 128" s1]) (auto simp flip: length_0_conv)
  next
    case False
    then show ?thesis using Suc.prems by (intro that[of buf s]) auto
  qed
  obtain src bs where bs: "b = src # bs" using b(2) by (cases b) auto
  have src: "src = m (unat a)" "bs = mem_bytes m (Suc (unat a)) (length bs)"
    using b(3) unfolding bs by (simp_all add: mem_bytes_Suc)
  have next_a: "unat (a + 1) = Suc (unat a)"
    using Suc.prems(4) u32_less[of "mSize (fd_chip dev)"] unat_plus[of a 1] by simp
  have step: "\<exists>s'. flash_check_loop devs flash ds left (a + 1) bs r s1
      = Some (if \<exists>i<left. m (Suc (unat a) + i) AND NOT (ds ! i) \<noteq> 0 then 2
              else if mem_bytes m (Suc (unat a)) left = ds then r else 1, s') \<and> st s' m" if "r \<in> {0, 1}" for r
    using Suc.IH[of s1 ds bs "a + 1" r, unfolded next_a] b(4) data(2) src(2) that Suc.prems(4) by simp
  have ex: "(\<exists>i<Suc left. m (unat a + i) AND NOT (data ! i) \<noteq> 0)
      \<longleftrightarrow> src AND NOT d \<noteq> 0 \<or> (\<exists>i<left. m (Suc (unat a) + i) AND NOT (ds ! i) \<noteq> 0)"
    by (subst Ex_less_Suc2) (simp add: data src(1))
  have x: "(d XOR src) AND src = src AND NOT d" "d XOR src = 0 \<longleftrightarrow> src = d"
    by (auto simp: bit_eq_iff bit_simps)
  have unf: "flash_check_loop devs flash data (Suc left) a buf ret s
      = (if src = d then flash_check_loop devs flash ds left (a + 1) bs ret s1
         else if src AND NOT d \<noteq> 0 then Some (2, s1) else flash_check_loop devs flash ds left (a + 1) bs 1 s1)"
    by (simp add: b(1) bs rd_def data x Let_def)
  have eq: "mem_bytes m (unat a) (Suc left) = data \<longleftrightarrow> src = d \<and> mem_bytes m (Suc (unat a)) left = ds"
    by (simp add: data mem_bytes_Suc src(1))
  obtain s2 s3 where "flash_check_loop devs flash ds left (a + 1) bs ret s1
      = Some (if \<exists>i<left. m (Suc (unat a) + i) AND NOT (ds ! i) \<noteq> 0 then 2
              else if mem_bytes m (Suc (unat a)) left = ds then ret else 1, s2)" "st s2 m"
    "flash_check_loop devs flash ds left (a + 1) bs 1 s1
      = Some (if \<exists>i<left. m (Suc (unat a) + i) AND NOT (ds ! i) \<noteq> 0 then 2 else 1, s3)" "st s3 m"
    using step[OF Suc.prems(5)] step[of 1] by auto
  then show ?case unfolding unf ex eq using b(4) by (cases "src = d"; cases "src AND NOT d = 0") auto
qed

end

text \<open>\<open>HAL_Flash_Check\<close> is documented to return 0 when the flash holds the data, 1 when the data can
  be written directly, 2 when the range must be erased first.  On a NOR chip it returns 2 exactly
  when some bit that is set in the flash is clear in the data, that is when programming would have
  to clear a bit, which it can; and otherwise 1 as soon as the data differ, that is when a bit would
  have to be set, which it cannot: 1 and 2 are the wrong way round.\<close>

theorem HAL_Flash_Check_inverted:
  assumes "nor_flash devs flash dev mem busy" "busy (fs_env s) = 0" "unat n = length data"
    "unat addr + unat n + 128 \<le> unat (mSize (fd_chip dev))"
  shows "\<exists>s'. HAL_Flash_Check devs True flash addr data n s
    = Some (if \<exists>i<length data. mem (fs_env s) (unat addr + i) AND NOT (data ! i) \<noteq> 0 then 2
            else if mem_bytes (mem (fs_env s)) (unat addr) (length data) = data then 0 else 1, s')
    \<and> mem (fs_env s') = mem (fs_env s)"
  using nor_flash.check_loop_ok[OF assms(1), of s "mem (fs_env s)" data "length data" "[]" addr 0] assms
  by (fastforce simp: HAL_Flash_Check_def mem_bytes_def)

text \<open>\<open>HAL_Flash_Erase\<close> never reports that the chip refused an erase: when every wait succeeds, the
  result is \<open>HAL_OK\<close> whatever the chip's erase returned.\<close>

theorem HAL_Flash_Erase_hides_error:
  assumes "devs flash = Some dev" "\<And>e. snd (HAL_Flash_WaitCompl dev 5000 e) = HAL_OK" "cnt \<noteq> 0" "blk \<noteq> 0"
    "addr mod blk = 0" "addr + blk * cnt \<le> mSize (fd_chip dev)"
  shows "\<exists>s'. HAL_Flash_Erase devs flash blk addr cnt s = Some (HAL_OK, s')"
proof -
  have "snd (flash_erase_loop dev blk a n ret e) = (if n = 0 then ret else HAL_OK)" for a n ret e
    by (induction n arbitrary: a ret e)
      (auto simp: Let_def assms(2) split: prod.splits dest!: arg_cong[where f = snd, of "HAL_Flash_WaitCompl _ _ _"])
  from this[of addr "unat cnt" HAL_ERROR "fs_env s"] show ?thesis
    using assms by (auto simp: HAL_Flash_Erase_def unat_eq_0 split: prod.splits)
qed

section \<open>A NOR part\<close>

text \<open>A serial NOR part as data sheets describe it, seen by the bus driver: status register 1 holds the
  busy and write-enable bits, a program or erase needs the write-enable latch and clears it, and a
  part that is busy only answers status reads.  (A real part wraps a program around at the end of
  its page; here such a program does nothing.)  On it the default chip driver keeps the laws of
  \<open>nor_flash\<close>.\<close>

record nor_part =
  np_mem :: "nat \<Rightarrow> u8"
  np_wel :: bool
  np_busy :: nat

definition nor_erase_size :: "u32 \<Rightarrow> nat option" where
  "nor_erase_size op =
     (if op = I_ERASE_4KB then Some 4096 else if op = I_ERASE_32KB then Some 32768
      else if op = I_ERASE_64KB then Some 65536 else None)"

definition nor_array :: "u32 \<Rightarrow> nat \<Rightarrow> u8 list option \<Rightarrow> nor_part \<Rightarrow> nor_part" where
  "nor_array op A data p =
     (if \<not> np_wel p then p
      else case nor_erase_size op of
             Some n \<Rightarrow> \<lparr>np_mem = mem_erase (A div n * n) n (np_mem p), np_wel = False, np_busy = 400\<rparr>
           | None \<Rightarrow>
               (case data of
                  Some bs \<Rightarrow> if op = I_PP \<and> A mod 256 + length bs \<le> 256
                    then \<lparr>np_mem = mem_and A bs (np_mem p), np_wel = False, np_busy = 3\<rparr> else p
                | None \<Rightarrow> p))"

definition nor_write ::
  "InstructionField \<Rightarrow> InstructionField option \<Rightarrow> InstructionField option \<Rightarrow> InstructionField option \<Rightarrow>
     nor_part \<Rightarrow> nor_part \<times> int" where
  "nor_write cmd addr dummy data p =
     (if np_busy p > 0 then p
      else if if_data cmd = I_WREN then p\<lparr>np_wel := True\<rparr>
      else if if_data cmd = I_WRDI then p\<lparr>np_wel := False\<rparr>
      else case addr of
             None \<Rightarrow> p
           | Some a \<Rightarrow> nor_array (if_data cmd) (unat (if_data a)) (Option.bind data if_pdata) p,
      HAL_OK)"

definition nor_read ::
  "InstructionField \<Rightarrow> InstructionField option \<Rightarrow> InstructionField option \<Rightarrow> InstructionField option \<Rightarrow>
     nor_part \<Rightarrow> nor_part \<times> int \<times> u8 list" where
  "nor_read cmd addr dummy data p =
     (p, HAL_OK,
      if if_data cmd = I_RDSR1 then [(if np_busy p > 0 then 1 else 0) OR (if np_wel p then 2 else 0)]
      else case (addr, data) of
             (Some a, Some d) \<Rightarrow> if np_busy p = 0 then mem_bytes (np_mem p) (unat (if_data a)) (unat (if_len d)) else []
           | _ \<Rightarrow> [])"

definition nor_driver :: "nor_part flash_driver" where
  "nor_driver = \<lparr>drv_open = (\<lambda>p. p), drv_close = (\<lambda>p. p), drv_write = nor_write, drv_read = nor_read,
     drv_msleep = (\<lambda>t p. p\<lparr>np_busy := np_busy p - unat t\<rparr>), drv_setFreq = (\<lambda>_ p. (p, HAL_INVALID))\<rparr>"

definition nor_dev :: "nor_part FlashDev" where
  "nor_dev = default_dev nor_driver (DefaultFlashCtor 0x1560EF) FLASH_READ_DUAL_O_MODE
     (\<lambda>_ p. (p, HAL_OK)) (\<lambda>p. (p, HAL_OK)) (\<lambda>p. p)"

definition nor_devs :: "nor_part flash_devs" where
  "nor_devs f = (if f = 0 then Some nor_dev else None)"

definition nor_sys :: "(nat \<Rightarrow> u8) \<Rightarrow> nor_part flash_sys" where
  "nor_sys m = \<lparr>fs_env = \<lparr>np_mem = m, np_wel = False, np_busy = 0\<rparr>, fs_usercnt = \<lambda>_. 0\<rparr>"

lemma nor_chip: "DefaultFlashCtor 0x1560EF =
  chip_cfg 0x1560EF 0x200000 0x19002 1 7 7 0x3F 80000000 50000000"
  by code_simp

lemmas nor_ops = nor_dev_def default_dev_def nor_driver_def nor_chip chip_cfg_def plain_cmd_def field0_def
  cmd_field_def addr_field_def dummy_field_def data_field_def qpi_def
  defaultDriverWrite_def defaultDriverRead_def nor_write_def nor_read_def

lemma nor_passive:
  "op_open nor_dev p = p" "op_close nor_dev p = p" "op_alive nor_dev p = p"
  "op_lock nor_dev t p = (p, HAL_OK)" "op_unlock nor_dev p = (p, HAL_OK)"
  "op_msleep nor_dev t p = p\<lparr>np_busy := np_busy p - unat t\<rparr>"
  "op_writeEnable nor_dev p = (if np_busy p > 0 then p else p\<lparr>np_wel := True\<rparr>)"
  "op_writeDisable nor_dev p = (if np_busy p > 0 then p else p\<lparr>np_wel := False\<rparr>)"
  by (simp_all add: nor_ops defaultWriteEnable_def defaultWriteDisable_def)

lemma nor_attributes:
  "mPageSize (fd_chip nor_dev) = 256" "mSize (fd_chip nor_dev) = 0x200000" "fd_rmode nor_dev = 4"
  "mEraseSizeSupport (fd_chip nor_dev) = 0x19002" "fd_wmode nor_dev = 1"
  by (simp_all add: nor_dev_def default_dev_def nor_chip chip_cfg_def)

lemma nor_isBusy: "op_isBusy nor_dev p = (p, if np_busy p = 0 then 0 else 1)"
proof -
  have "(2::u8) AND 1 = 0" "(3::u8) AND 1 = 1" by code_simp+
  then show ?thesis
    by (simp add: nor_ops defaultIsBusy_def defaultReadStatus_def bit_0 even_or_iff)
qed

lemma nor_read_ok:
  assumes "np_busy p = 0" "unat a + unat n \<le> 0x200000"
  shows "op_read nor_dev 4 a n p = (p, HAL_OK, mem_bytes (np_mem p) (unat a) (unat n))"
proof -
  have "unat (a + n) = unat a + unat n" using assms(2) by (simp add: unat_plus)
  then have "\<not> a + n > 0x200000" using assms(2) by (simp add: word_less_nat_alt)
  moreover have "(4::u32) AND 0x3F \<noteq> 0" "(0::u32) AND 0x40 = 0" by code_simp+
  ultimately show ?thesis using assms(1)
    by (simp add: nor_ops defaultRead_def read_instruction_def)
qed

lemma nor_program_ok:
  assumes "np_busy p = 0" "length bs = unat n" "unat (a mod 256) + unat n \<le> 256" "unat a + unat n \<le> 0x200000"
  shows "op_pageProgram nor_dev 1 a bs n (op_writeEnable nor_dev p)
    = (\<lparr>np_mem = mem_and (unat a) bs (np_mem p), np_wel = False, np_busy = 3\<rparr>, HAL_OK)"
proof -
  have "unat (a + n) = unat a + unat n" using assms(4) by (simp add: unat_plus)
  then have "\<not> a + n > 0x200000" using assms(4) by (simp add: word_less_nat_alt)
  moreover have "\<not> n > 256" using assms(3) by (simp add: word_less_nat_alt)
  moreover have "unat a mod 256 + length bs \<le> 256" using assms(2,3) by (simp add: unat_mod)
  ultimately show ?thesis using assms(1)
    by (simp add: nor_passive) (simp add: nor_ops defaultPageProgram_def nor_array_def nor_erase_size_def)
qed

lemma nor_erase_ok:
  assumes "np_busy p = 0" "blk \<in> {FLASH_ERASE_4KB, FLASH_ERASE_32KB, FLASH_ERASE_64KB}" "a mod blk = 0"
  shows "op_erase nor_dev blk a (op_writeEnable nor_dev p)
    = (\<lparr>np_mem = mem_erase (unat a) (unat blk) (np_mem p), np_wel = False, np_busy = 400\<rparr>, HAL_OK)"
proof -
  have "unat a mod unat blk = 0" using assms(3) by (metis unat_0 unat_mod)
  then have al: "unat a div unat blk * unat blk = unat a" by (metis add.right_neutral div_mult_mod_eq)
  have "(0x1000::u32) AND 0x19002 \<noteq> 0" "(0x8000::u32) AND 0x19002 \<noteq> 0" "(0x10000::u32) AND 0x19002 \<noteq> 0"
    by code_simp+
  then show ?thesis using assms(1,2) al
    by (auto simp: nor_passive) (simp_all add: nor_ops defaultErase_def nor_array_def nor_erase_size_def)
qed

interpretation nor: nor_flash nor_devs 0 nor_dev np_mem np_busy
proof (unfold_locales, goal_cases)
  case (9 e n a)
  then show ?case using nor_read_ok[of e a n] by (simp add: nor_attributes)
next
  case (10 e n bs a)
  then show ?case using nor_program_ok[of e bs n a] by (simp add: nor_attributes)
next
  case (11 e blk a)
  then show ?case using nor_erase_ok[of e blk a] by (simp add: nor_attributes)
qed (auto simp: nor_devs_def nor_attributes nor_passive nor_isBusy)

section \<open>Examples\<close>

theorem HAL_Flash_Overwrite_updates_witness:
  "\<exists>s'. HAL_Flash_Overwrite nor_devs True 0 0x1FFE [1, 2, 3] 3 (nor_sys (\<lambda>_. 0)) = Some (HAL_OK, s')
    \<and> np_mem (fs_env s') = mem_put 0x1FFE [1, 2, 3] (\<lambda>_. 0) \<and> np_busy (fs_env s') = 0"
  using HAL_Flash_Overwrite_updates[OF nor.nor_flash_axioms, where s = "nor_sys (\<lambda>_. 0)" and n = 3 and data = "[1, 2, 3]" and addr = "0x1FFE"]
  by (simp add: nor_attributes nor_sys_def)

text \<open>An erased chip and a byte that can be written to it.\<close>

theorem HAL_Flash_Check_inverted_witness:
  "\<exists>s'. HAL_Flash_Check nor_devs True 0 0 [0x12] 1 (nor_sys (\<lambda>_. 0xFF)) = Some (2, s')"
  using HAL_Flash_Check_inverted[OF nor.nor_flash_axioms, where s = "nor_sys (\<lambda>_. 0xFF)" and n = 1 and data = "[0x12]" and addr = 0]
  by (auto simp: nor_attributes nor_sys_def)

text \<open>A chip that refuses every erase.\<close>

theorem HAL_Flash_Erase_hides_error_witness:
  "\<exists>s'. HAL_Flash_Erase (\<lambda>_. Some (nor_dev\<lparr>op_isBusy := \<lambda>p. (p, 0), op_erase := \<lambda>_ _ p. (p, HAL_INVALID)\<rparr>))
      0 FLASH_ERASE_4KB 0 1 (nor_sys (\<lambda>_. 0)) = Some (HAL_OK, s')"
proof (rule HAL_Flash_Erase_hides_error)
  show "snd (HAL_Flash_WaitCompl (nor_dev\<lparr>op_isBusy := \<lambda>p. (p, 0), op_erase := \<lambda>_ _ p. (p, HAL_INVALID)\<rparr>) 5000 e) = HAL_OK"
    for e
    unfolding HAL_Flash_WaitCompl_def by (subst wait_compl.simps) simp
qed (simp_all add: nor_attributes)

end
