(* ===== verification/Fdcm.thy ===== *)
theory Fdcm
  imports HalFlash
begin

unbundle bit_operations_syntax

text \<open>
  Flash access for the image layer, \<^verbatim>\<open>src/image/flash.c\<close>, and the store for one small record in a
  flash area, \<^verbatim>\<open>src/image/fdcm.c\<close>: a header, a bitmap of used slots and the slots, of which the
  last used one holds the current value; the area is erased only when every slot is used.
\<close>

section \<open>Flash access\<close>

abbreviation (input) FLASH_OPEN_TIMEOUT :: u32 where "FLASH_OPEN_TIMEOUT \<equiv> 5000"

text \<open>\<open>flash_rw\<close>, with \<open>do_write\<close> 0 and 1; reading also gives the bytes.\<close>

definition flash_read ::
  "'e flash_devs \<Rightarrow> u32 \<Rightarrow> u32 \<Rightarrow> u32 \<Rightarrow> 'e flash_sys \<Rightarrow> (u32 \<times> u8 list \<times> 'e flash_sys) option" where
  "flash_read devs flash addr n s = do {
     (status, s) \<leftarrow> HAL_Flash_Open devs flash FLASH_OPEN_TIMEOUT s;
     if status \<noteq> HAL_OK then Some (0, [], s)
     else do {
       let (status, data, s) = HAL_Flash_Read devs flash addr n s;
       (_, s) \<leftarrow> HAL_Flash_Close devs flash s;
       Some (if status \<noteq> HAL_OK then 0 else n, data, s)
     }
   }"

definition flash_write ::
  "'e flash_devs \<Rightarrow> u32 \<Rightarrow> u32 \<Rightarrow> u8 list \<Rightarrow> u32 \<Rightarrow> 'e flash_sys \<Rightarrow> (u32 \<times> 'e flash_sys) option" where
  "flash_write devs flash addr data n s = do {
     (status, s) \<leftarrow> HAL_Flash_Open devs flash FLASH_OPEN_TIMEOUT s;
     if status \<noteq> HAL_OK then Some (0, s)
     else do {
       (status, s) \<leftarrow> HAL_Flash_Write devs flash addr data n s;
       (_, s) \<leftarrow> HAL_Flash_Close devs flash s;
       Some (if status \<noteq> HAL_OK then 0 else n, s)
     }
   }"

definition s_flash_erase_param :: "u32 list" where
  "s_flash_erase_param = [FLASH_ERASE_64KB, FLASH_ERASE_32KB, FLASH_ERASE_4KB]"

text \<open>The test of the two loops: the area is made of whole blocks of this size.\<close>

definition block_fits :: "'e flash_devs \<Rightarrow> u32 \<Rightarrow> u32 \<Rightarrow> u32 \<Rightarrow> u32 \<Rightarrow> bool option" where
  "block_fits devs flash addr n block_size =
     (if n \<ge> block_size \<and> n AND (block_size - 1) = 0
      then map_option (\<lambda>(rc, start). rc = HAL_OK \<and> start = Some addr)
             (HAL_Flash_MemoryOf devs flash block_size addr)
      else Some False)"

fun erase_block_loop :: "'e flash_devs \<Rightarrow> u32 \<Rightarrow> u32 \<Rightarrow> u32 \<Rightarrow> u32 list \<Rightarrow> int option" where
  "erase_block_loop devs flash addr n [] = Some (- 1)"
| "erase_block_loop devs flash addr n (block_size # ps) = do {
     fits \<leftarrow> block_fits devs flash addr n block_size;
     if fits then Some (uint block_size) else erase_block_loop devs flash addr n ps
   }"

definition flash_get_erase_block :: "'e flash_devs \<Rightarrow> u32 \<Rightarrow> u32 \<Rightarrow> u32 \<Rightarrow> int option" where
  "flash_get_erase_block devs flash addr n = erase_block_loop devs flash addr n s_flash_erase_param"

fun erase_loop :: "'e flash_devs \<Rightarrow> u32 \<Rightarrow> u32 \<Rightarrow> u32 \<Rightarrow> u32 list \<Rightarrow> 'e flash_sys \<Rightarrow> (bool \<times> 'e flash_sys) option" where
  "erase_loop devs flash addr n [] s = Some (False, s)"
| "erase_loop devs flash addr n (block_size # ps) s = do {
     fits \<leftarrow> block_fits devs flash addr n block_size;
     if fits
     then do {
       (status, s) \<leftarrow> HAL_Flash_Erase devs flash block_size addr (n div block_size) s;
       if status = HAL_OK then Some (True, s) else erase_loop devs flash addr n ps s
     }
     else erase_loop devs flash addr n ps s
   }"

definition flash_erase :: "'e flash_devs \<Rightarrow> u32 \<Rightarrow> u32 \<Rightarrow> u32 \<Rightarrow> 'e flash_sys \<Rightarrow> (int \<times> 'e flash_sys) option" where
  "flash_erase devs flash addr n s = do {
     (status, s) \<leftarrow> HAL_Flash_Open devs flash FLASH_OPEN_TIMEOUT s;
     if status \<noteq> HAL_OK then Some (- 1, s)
     else do {
       (done, s) \<leftarrow> erase_loop devs flash addr n s_flash_erase_param s;
       (_, s) \<leftarrow> HAL_Flash_Close devs flash s;
       Some (if done then 0 else - 1, s)
     }
   }"

section \<open>The record store\<close>

record fdcm_handle =
  fh_flash :: u32
  fh_addr :: u32
  fh_size :: u32

record fdcm_header =
  id_code :: u32
  bitmap_size :: u16
  data_size :: u16

abbreviation (input) FDCM_ID_CODE :: u32 where "FDCM_ID_CODE \<equiv> 0xA55A5AA5"
abbreviation (input) FDCM_INDEX_MAX :: u16 where "FDCM_INDEX_MAX \<equiv> 1024"
abbreviation (input) FDCM_HEADER_SIZE :: u32 where "FDCM_HEADER_SIZE \<equiv> 8"

text \<open>The header as it lies in memory.\<close>

definition header_bytes :: "fdcm_header \<Rightarrow> u8 list" where
  "header_bytes h = le4 (id_code h) @ le2 (bitmap_size h) @ le2 (data_size h)"

definition header_of :: "u8 list \<Rightarrow> fdcm_header" where
  "header_of bs = \<lparr>id_code = of_le4 bs, bitmap_size = of_le2 (drop 4 bs), data_size = of_le2 (drop 6 bs)\<rparr>"

text \<open>\<open>fdcm_bit_count\<close> over a bitmap; the inner loop counts the shifts until \<open>val\<close> is 0.\<close>

function shifts :: "u8 \<Rightarrow> nat" where
  "shifts val = (if val = 0 then 0 else Suc (shifts (drop_bit 1 val)))"
  by pat_completeness auto
termination
proof (relation "measure unat", goal_cases)
  case (2 val)
  then have "0 < unat val" by (simp only: unat_gt_0) simp
  then show ?case by (simp add: drop_bit_eq_div unat_div)
qed simp

declare shifts.simps [simp del]

fun fdcm_bit_count :: "u8 list \<Rightarrow> u32" where
  "fdcm_bit_count [] = 0"
| "fdcm_bit_count (b # bitmap) = (if b = 0 then 8 + fdcm_bit_count bitmap else of_nat (shifts (NOT b)))"

definition rewrite_bitmap_size :: "u32 \<Rightarrow> u16 \<Rightarrow> u16" where
  "rewrite_bitmap_size n dsize =
     (let b = ucast ((n - FDCM_HEADER_SIZE - 1) div (ucast dsize * 8 + 1) + 1)
      in if b > FDCM_INDEX_MAX then FDCM_INDEX_MAX else b)"

definition fdcm_rewrite ::
  "'e flash_devs \<Rightarrow> fdcm_handle \<Rightarrow> u8 list \<Rightarrow> u16 \<Rightarrow> 'e flash_sys \<Rightarrow> (u32 \<times> 'e flash_sys) option" where
  "fdcm_rewrite devs hdl data dsize s =
     (let bsize = rewrite_bitmap_size (fh_size hdl) dsize;
          header = \<lparr>id_code = FDCM_ID_CODE, bitmap_size = bsize, data_size = dsize\<rparr>
      in if ucast dsize > fh_size hdl - FDCM_HEADER_SIZE - ucast bsize then Some (0, s)
         else do {
           (rc, s) \<leftarrow> flash_erase devs (fh_flash hdl) (fh_addr hdl) (fh_size hdl) s;
           if rc \<noteq> 0 then Some (0, s)
           else do {
             let addr = fh_addr hdl;
             (w, s) \<leftarrow> flash_write devs (fh_flash hdl) addr (header_bytes header) FDCM_HEADER_SIZE s;
             if w \<noteq> FDCM_HEADER_SIZE then Some (0, s)
             else do {
               let addr = addr + FDCM_HEADER_SIZE;
               (w, s) \<leftarrow> flash_write devs (fh_flash hdl) addr [0xFE] 1 s;
               if w \<noteq> 1 then Some (0, s)
               else do {
                 let addr = addr + ucast bsize;
                 (w, s) \<leftarrow> flash_write devs (fh_flash hdl) addr data (ucast dsize) s;
                 if w \<noteq> ucast dsize then Some (0, s) else Some (ucast dsize, s)
               }
             }
           }
         })"

text \<open>\<open>alloc\<close> says whether the allocations of the call succeed.\<close>

definition fdcm_open :: "'e flash_devs \<Rightarrow> bool \<Rightarrow> u32 \<Rightarrow> u32 \<Rightarrow> u32 \<Rightarrow> fdcm_handle option option" where
  "fdcm_open devs alloc flash addr n = do {
     block \<leftarrow> flash_get_erase_block devs flash addr n;
     Some (if block < 0 \<or> \<not> alloc then None else Some \<lparr>fh_flash = flash, fh_addr = addr, fh_size = n\<rparr>)
   }"

definition header_invalid :: "fdcm_handle \<Rightarrow> fdcm_header \<Rightarrow> u16 \<Rightarrow> bool" where
  "header_invalid hdl header dsize \<longleftrightarrow>
     id_code header \<noteq> FDCM_ID_CODE \<or> data_size header \<noteq> dsize \<or> bitmap_size header = 0
     \<or> ucast (bitmap_size header) + FDCM_HEADER_SIZE \<ge> fh_size hdl"

text \<open>\<open>fdcm_read\<close>: the number of bytes read and the bytes stored in the caller's buffer.\<close>

definition fdcm_read ::
  "'e flash_devs \<Rightarrow> bool \<Rightarrow> fdcm_handle option \<Rightarrow> bool \<Rightarrow> u16 \<Rightarrow> 'e flash_sys \<Rightarrow> (u32 \<times> u8 list \<times> 'e flash_sys) option" where
  "fdcm_read devs alloc hdl data_ok dsize s =
     (case hdl of
        None \<Rightarrow> Some (0, [], s)
      | Some hdl \<Rightarrow>
          if \<not> data_ok then Some (0, [], s)
          else do {
            (r, bs, s) \<leftarrow> flash_read devs (fh_flash hdl) (fh_addr hdl) FDCM_HEADER_SIZE s;
            if r \<noteq> FDCM_HEADER_SIZE then Some (0, [], s)
            else do {
              let header = header_of bs;
              if header_invalid hdl header dsize \<or> \<not> alloc then Some (0, [], s)
              else do {
                let addr = fh_addr hdl + FDCM_HEADER_SIZE;
                (r, bitmap, s) \<leftarrow> flash_read devs (fh_flash hdl) addr (ucast (bitmap_size header)) s;
                if r \<noteq> ucast (bitmap_size header) then Some (0, [], s)
                else do {
                  let bit_cnt = fdcm_bit_count bitmap;
                  let addr = addr + (ucast (bitmap_size header) + ucast dsize * (bit_cnt - 1));
                  flash_read devs (fh_flash hdl) addr (ucast dsize) s
                }
              }
            }
          })"

definition fdcm_write ::
  "'e flash_devs \<Rightarrow> bool \<Rightarrow> fdcm_handle option \<Rightarrow> u8 list option \<Rightarrow> u16 \<Rightarrow> 'e flash_sys \<Rightarrow> (u32 \<times> 'e flash_sys) option" where
  "fdcm_write devs alloc hdl data dsize s =
     (case (hdl, data) of
        (Some hdl, Some data) \<Rightarrow> do {
          (r, bs, s) \<leftarrow> flash_read devs (fh_flash hdl) (fh_addr hdl) FDCM_HEADER_SIZE s;
          if r \<noteq> FDCM_HEADER_SIZE then Some (0, s)
          else do {
            let header = header_of bs;
            if header_invalid hdl header dsize then fdcm_rewrite devs hdl data dsize s
            else if ucast dsize > fh_size hdl - FDCM_HEADER_SIZE - ucast (bitmap_size header) \<or> \<not> alloc then Some (0, s)
            else do {
              let addr = fh_addr hdl + FDCM_HEADER_SIZE;
              (r, bitmap, s) \<leftarrow> flash_read devs (fh_flash hdl) addr (ucast (bitmap_size header)) s;
              if r \<noteq> ucast (bitmap_size header) then Some (0, s)
              else do {
                let bit_cnt = fdcm_bit_count bitmap;
                if bit_cnt \<ge> 8 * ucast (bitmap_size header)
                   \<or> FDCM_HEADER_SIZE + ucast (bitmap_size header) + ucast dsize * (bit_cnt + 1) > fh_size hdl
                then fdcm_rewrite devs hdl data dsize s
                else do {
                  let index = bit_cnt div 8;
                  old \<leftarrow> rd bitmap (unat index);
                  let new = old AND NOT (push_bit (unat (bit_cnt mod 8)) 1);
                  (w, s) \<leftarrow> flash_write devs (fh_flash hdl) (addr + index) [new] 1 s;
                  if w \<noteq> 1 then Some (0, s)
                  else do {
                    let addr = fh_addr hdl + FDCM_HEADER_SIZE + ucast (bitmap_size header) + ucast dsize * bit_cnt;
                    flash_write devs (fh_flash hdl) addr data (ucast dsize) s
                  }
                }
              }
            }
          }
        }
      | _ \<Rightarrow> Some (0, s))"

definition fdcm_erase :: "'e flash_devs \<Rightarrow> fdcm_handle option \<Rightarrow> 'e flash_sys \<Rightarrow> (int \<times> 'e flash_sys) option" where
  "fdcm_erase devs hdl s =
     (case hdl of
        None \<Rightarrow> Some (- 1, s)
      | Some hdl \<Rightarrow> do {
          (rc, s) \<leftarrow> flash_erase devs (fh_flash hdl) (fh_addr hdl) (fh_size hdl) s;
          Some (if rc \<noteq> 0 then - 1 else 0, s)
        })"

section \<open>Flash access on a NOR chip\<close>

lemma block_fits_aligned:
  assumes "block_fits devs flash a n blk = Some True" "blk \<in> {FLASH_ERASE_4KB, FLASH_ERASE_32KB, FLASH_ERASE_64KB}"
    "devs flash = Some dev"
  shows "blk \<le> n" "unat n mod unat blk = 0" "unat a mod unat blk = 0" "blk AND mEraseSizeSupport (fd_chip dev) \<noteq> 0"
proof -
  obtain k :: nat where k: "blk = 2 ^ k"
  proof -
    have "(2::u32) ^ 12 = FLASH_ERASE_4KB" "(2::u32) ^ 15 = FLASH_ERASE_32KB" "(2::u32) ^ 16 = FLASH_ERASE_64KB" by simp_all
    then show ?thesis using that[of 12] that[of 15] that[of 16] assms(2) by auto
  qed
  have f: "blk \<le> n" "n AND (blk - 1) = 0" "blk AND mEraseSizeSupport (fd_chip dev) \<noteq> 0" "a AND NOT (blk - 1) = a"
    using assms(1,3) by (auto simp: block_fits_def HAL_Flash_MemoryOf_def split: if_splits)
  then show "blk \<le> n" "blk AND mEraseSizeSupport (fd_chip dev) \<noteq> 0" by simp_all
  have "n mod blk = 0" using f(2) unfolding k
    by (simp add: mask_eq_exp_minus_1[symmetric] take_bit_eq_mod[symmetric] take_bit_eq_mask)
  moreover have "a mod blk = 0" using f(4) unfolding k align_down by simp
  ultimately show "unat n mod unat blk = 0" "unat a mod unat blk = 0" by (metis unat_0 unat_mod)+
qed

context nor_flash
begin

lemma flash_read_ok:
  assumes "st s m" "n \<noteq> 0" "unat a + unat n \<le> sz"
  shows "\<exists>s'. flash_read devs flash a n s = Some (n, mem_bytes m (unat a) (unat n), s') \<and> st s' m"
proof -
  obtain s1 where "HAL_Flash_Open devs flash FLASH_OPEN_TIMEOUT s = Some (HAL_OK, s1)" "st s1 m"
    using Open_ok[OF assms(1)] by blast
  moreover from this obtain s2 where "HAL_Flash_Read devs flash a n s1 = (HAL_OK, mem_bytes m (unat a) (unat n), s2)" "st s2 m"
    using Read_ok[OF _ assms(2,3)] by blast
  moreover from this obtain s3 rc where "HAL_Flash_Close devs flash s2 = Some (rc, s3)" "st s3 m"
    using Close_ok by blast
  ultimately show ?thesis by (simp add: flash_read_def)
qed

lemma flash_write_ok:
  assumes "st s m" "n \<noteq> 0" "unat n = length data" "unat a + unat n \<le> sz"
  shows "\<exists>s'. flash_write devs flash a data n s = Some (n, s') \<and> st s' (mem_and (unat a) data m)"
proof -
  obtain s1 where "HAL_Flash_Open devs flash FLASH_OPEN_TIMEOUT s = Some (HAL_OK, s1)" "st s1 m"
    using Open_ok[OF assms(1)] by blast
  moreover from this obtain s2 where "HAL_Flash_Write devs flash a data n s1 = Some (HAL_OK, s2)" "st s2 (mem_and (unat a) data m)"
    using Write_ok[OF _ assms(2-4)] by blast
  moreover from this obtain s3 rc where "HAL_Flash_Close devs flash s2 = Some (rc, s3)" "st s3 (mem_and (unat a) data m)"
    using Close_ok by blast
  ultimately show ?thesis by (simp add: flash_write_def)
qed

lemma erase_loop_area:
  assumes "st s m" "erase_block_loop devs flash a n ps = Some b" "0 \<le> b"
    "set ps \<subseteq> {FLASH_ERASE_4KB, FLASH_ERASE_32KB, FLASH_ERASE_64KB}" "unat a + unat n \<le> sz"
  shows "\<exists>s'. erase_loop devs flash a n ps s = Some (True, s') \<and> st s' (mem_erase (unat a) (unat n) m)"
  using assms
proof (induction ps)
  case (Cons blk ps)
  then obtain f where f: "block_fits devs flash a n blk = Some f" by (auto split: bind_splits)
  show ?case
  proof (cases f)
    case True
    have blk: "blk \<in> {FLASH_ERASE_4KB, FLASH_ERASE_32KB, FLASH_ERASE_64KB}" using Cons.prems(4) by auto
    have "block_fits devs flash a n blk = Some True" using f True by simp
    note al = block_fits_aligned[OF this blk dev]
    have "0 < unat blk" using blk by auto
    then have "0 < unat n div unat blk" using al(1) by (simp add: word_le_nat_alt div_greater_zero_iff)
    then have "n div blk \<noteq> 0" by (metis less_numeral_extra(3) unat_0 unat_div)
    moreover have "unat blk * unat (n div blk) = unat n" using al(2) mult_div_mod_eq[of "unat blk" "unat n"] by (simp add: unat_div)
    ultimately show ?thesis using Erase_ok[OF Cons.prems(1) _ blk al(4,3), of "n div blk"] Cons.prems(5) f True by auto
  next
    case False
    then show ?thesis using Cons f by auto
  qed
qed simp

lemma flash_erase_ok:
  assumes "st s m" "flash_get_erase_block devs flash a n = Some b" "0 \<le> b" "unat a + unat n \<le> sz"
  shows "\<exists>s'. flash_erase devs flash a n s = Some (0, s') \<and> st s' (mem_erase (unat a) (unat n) m)"
proof -
  obtain s1 where "HAL_Flash_Open devs flash FLASH_OPEN_TIMEOUT s = Some (HAL_OK, s1)" "st s1 m"
    using Open_ok[OF assms(1)] by blast
  moreover from this obtain s2 where "erase_loop devs flash a n s_flash_erase_param s1 = Some (True, s2)"
      "st s2 (mem_erase (unat a) (unat n) m)"
    using erase_loop_area[OF _ _ assms(3) _ assms(4), of s1 m s_flash_erase_param] assms(2)
    by (auto simp: flash_get_erase_block_def s_flash_erase_param_def)
  moreover from this obtain s3 rc where "HAL_Flash_Close devs flash s2 = Some (rc, s3)" "st s3 (mem_erase (unat a) (unat n) m)"
    using Close_ok by blast
  ultimately show ?thesis by (simp add: flash_erase_def)
qed

end

section \<open>Header and bitmap\<close>

lemma header_of_bytes [simp]: "header_of (header_bytes h) = h"
proof -
  have "drop 4 (header_bytes h) = le2 (bitmap_size h) @ le2 (data_size h)"
    "drop 6 (header_bytes h) = le2 (data_size h) @ []"
    by (simp_all add: header_bytes_def le4_def le2_def)
  then show ?thesis by (simp only: header_of_def of_le2_le2) (simp add: header_bytes_def)
qed

lemma length_header_bytes [simp]: "length (header_bytes h) = 8"
  by (simp add: header_bytes_def le4_def le2_def)

text \<open>A bitmap of \<open>b\<close> bytes with \<open>k\<close> bits used.\<close>

primrec bitmap :: "nat \<Rightarrow> nat \<Rightarrow> u8 list" where
  "bitmap 0 k = []"
| "bitmap (Suc b) k = NOT (mask k) # bitmap b (k - 8)"

lemma length_bitmap [simp]: "length (bitmap b k) = b"
  by (induction b arbitrary: k) auto

lemma nth_bitmap: "j < b \<Longrightarrow> bitmap b k ! j = NOT (mask (k - 8 * j))"
  by (induction b arbitrary: j k) (auto simp: nth_Cons diff_diff_eq split: nat.splits)

lemma mask_full: "8 \<le> k \<Longrightarrow> (mask k :: u8) = - 1"
  by (rule bit_eqI) (auto simp: bit_simps possible_bit_word)

lemma shifts_mask: "k < 8 \<Longrightarrow> shifts (mask k) = k"
proof -
  assume "k < 8"
  then consider "k = 0" | "k = 1" | "k = 2" | "k = 3" | "k = 4" | "k = 5" | "k = 6" | "k = 7" by linarith
  then show ?thesis by cases (simp_all add: shifts.simps mask_numeral)
qed

lemma count_bitmap: "k \<le> 8 * b \<Longrightarrow> fdcm_bit_count (bitmap b k) = of_nat k"
proof (induction b arbitrary: k)
  case (Suc b)
  show ?case
  proof (cases "8 \<le> k")
    case True
    then have "fdcm_bit_count (bitmap (Suc b) k) = 8 + of_nat (k - 8)"
      using Suc by (simp add: mask_full)
    also have "\<dots> = of_nat (8 + (k - 8))" by (simp only: of_nat_add of_nat_numeral)
    finally show ?thesis using True by simp
  next
    case False
    then have "bit (- 1 :: u8) k" "\<not> bit (mask k :: u8) k" by (simp_all add: bit_simps)
    then have "mask k \<noteq> (- 1 :: u8)" by metis
    then have "NOT (mask k) \<noteq> (0 :: u8)" by (metis bit.double_compl bit.compl_zero)
    then show ?thesis using False by (simp add: shifts_mask)
  qed
qed simp

lemma bitmap_Suc:
  assumes "k < 8 * b"
  shows "bitmap b (Suc k) = (bitmap b k)[k div 8 := bitmap b k ! (k div 8) AND NOT (push_bit (k mod 8) 1)]"
proof (rule nth_equalityI)
  fix j
  assume "j < length (bitmap b (Suc k))"
  then have j: "j < b" by simp
  have k: "k div 8 < b" using assms by (simp add: less_mult_imp_div_less mult.commute)
  have "NOT (mask (Suc k - 8 * j)) = (NOT (mask (k - 8 * j)) :: u8)" if "j \<noteq> k div 8"
  proof (cases "j < k div 8")
    case True
    then have "8 \<le> k - 8 * j" "8 \<le> Suc k - 8 * j" by simp_all
    then show ?thesis by (simp add: mask_full)
  next
    case False
    then have "k < 8 * j" using that by (metis div_less_iff_less_mult linorder_neqE_nat mult.commute zero_less_numeral)
    then show ?thesis by simp
  qed
  moreover have "NOT (mask (Suc k - 8 * (k div 8))) = (NOT (mask (k - 8 * (k div 8))) AND NOT (push_bit (k mod 8) 1) :: u8)"
  proof -
    have "k - 8 * (k div 8) = k mod 8" "Suc k - 8 * (k div 8) = Suc (k mod 8)"
      using minus_mult_div_eq_mod[of k 8] mult_div_mod_eq[of 8 k] by simp_all
    moreover have "mask (Suc r) = (mask r OR push_bit r 1 :: u8)" for r
      by (rule bit_eqI) (auto simp: bit_simps less_Suc_eq)
    ultimately show ?thesis by simp
  qed
  ultimately show "bitmap b (Suc k) ! j = (bitmap b k)[k div 8 := bitmap b k ! (k div 8) AND NOT (push_bit (k mod 8) 1)] ! j"
    using j k by (cases "j = k div 8") (simp_all add: nth_bitmap)
qed simp

section \<open>The state of an area\<close>

text \<open>Where slot \<open>k\<close> begins, and an area whose first \<open>k\<close> slots are used: the header and the bitmap say so,
  the slots fit, and what follows the used slots is erased.\<close>

definition slot_at :: "fdcm_handle \<Rightarrow> u16 \<Rightarrow> u16 \<Rightarrow> nat \<Rightarrow> nat" where
  "slot_at h dsize bsize k = unat (fh_addr h) + 8 + unat bsize + unat dsize * k"

definition fdcm_area :: "(nat \<Rightarrow> u8) \<Rightarrow> fdcm_handle \<Rightarrow> u16 \<Rightarrow> u16 \<Rightarrow> nat \<Rightarrow> bool" where
  "fdcm_area m h dsize bsize k \<longleftrightarrow>
     mem_bytes m (unat (fh_addr h)) 8
       = header_bytes \<lparr>id_code = FDCM_ID_CODE, bitmap_size = bsize, data_size = dsize\<rparr>
     \<and> bsize \<noteq> 0 \<and> 8 + unat bsize < unat (fh_size h)
     \<and> mem_bytes m (unat (fh_addr h) + 8) (unat bsize) = bitmap (unat bsize) k \<and> k \<le> 8 * unat bsize
     \<and> slot_at h dsize bsize k \<le> unat (fh_addr h) + unat (fh_size h)
     \<and> (\<forall>i. slot_at h dsize bsize k \<le> i \<longrightarrow> i < unat (fh_addr h) + unat (fh_size h) \<longrightarrow> m i = 0xFF)"

text \<open>The value of an area: the last used slot.\<close>

definition fdcm_value :: "(nat \<Rightarrow> u8) \<Rightarrow> fdcm_handle \<Rightarrow> u16 \<Rightarrow> u16 \<Rightarrow> nat \<Rightarrow> u8 list" where
  "fdcm_value m h dsize bsize k = mem_bytes m (slot_at h dsize bsize (k - 1)) (unat dsize)"

lemma unat_u16 [simp]: "unat (ucast (x :: u16) :: u32) = unat x"
  using u16_less[of x] by (simp add: unsigned_ucast_eq take_bit_nat_eq_self)

lemma ucast_u16_eq_0 [simp]: "(ucast (x :: u16) = (0 :: u32)) \<longleftrightarrow> x = 0"
  by (metis unat_0 unat_eq_0 unat_u16)

lemma slot_addr:
  assumes "slot_at h dsize bsize k < 2 ^ 32" "dsize \<noteq> 0"
  shows "unat (fh_addr h + 8 + ucast bsize + ucast dsize * of_nat k) = slot_at h dsize bsize k"
proof -
  have d: "0 < unat dsize" using assms(2) by (simp add: unat_gt_0)
  have "k \<le> unat dsize * k" using d by simp
  then have "k < 2 ^ 32" using assms(1) unfolding slot_at_def by linarith
  then have k: "unat (of_nat k :: u32) = k" by (rule unat_of_nat32)
  have "unat (ucast dsize * of_nat k :: u32) = unat dsize * k"
    using assms(1) by (subst unat_times) (simp_all add: k slot_at_def)
  moreover have "unat (fh_addr h + 8) = unat (fh_addr h) + 8"
    using assms(1) by (subst unat_plus) (simp_all add: slot_at_def)
  moreover from this have "unat (fh_addr h + 8 + ucast bsize) = unat (fh_addr h) + 8 + unat bsize"
    using assms(1) by (subst unat_plus) (simp_all add: slot_at_def)
  ultimately show ?thesis using assms(1) by (subst unat_plus) (simp_all add: slot_at_def)
qed

lemma area_header:
  assumes "fdcm_area m h dsize bsize k"
  shows "header_of (mem_bytes m (unat (fh_addr h)) 8) = \<lparr>id_code = FDCM_ID_CODE, bitmap_size = bsize, data_size = dsize\<rparr>"
    "\<not> header_invalid h \<lparr>id_code = FDCM_ID_CODE, bitmap_size = bsize, data_size = dsize\<rparr> dsize"
proof -
  have "unat (ucast bsize + FDCM_HEADER_SIZE :: u32) = unat bsize + 8"
    using u16_less[of bsize] by (subst unat_plus) simp_all
  then show "\<not> header_invalid h \<lparr>id_code = FDCM_ID_CODE, bitmap_size = bsize, data_size = dsize\<rparr> dsize"
    using assms by (simp add: header_invalid_def fdcm_area_def word_le_nat_alt)
  show "header_of (mem_bytes m (unat (fh_addr h)) 8) = \<lparr>id_code = FDCM_ID_CODE, bitmap_size = bsize, data_size = dsize\<rparr>"
    using assms by (simp add: fdcm_area_def)
qed

lemma area_count: "fdcm_area m h dsize bsize k \<Longrightarrow>
    fdcm_bit_count (mem_bytes m (unat (fh_addr h) + 8) (unat bsize)) = of_nat k"
  by (simp add: fdcm_area_def count_bitmap)

context nor_flash
begin

text \<open>The area lies in the chip.\<close>

abbreviation in_chip :: "fdcm_handle \<Rightarrow> bool" where
  "in_chip h \<equiv> fh_flash h = flash \<and> unat (fh_addr h) + unat (fh_size h) \<le> sz"

lemma in_chip_less: "in_chip h \<Longrightarrow> unat (fh_addr h) + unat (fh_size h) < 2 ^ 32"
  using u32_less[of "mSize (fd_chip dev)"] by linarith

lemma area_bounds:
  assumes "in_chip h" "fdcm_area m h dsize bsize k"
  shows "unat (fh_addr h + 8) = unat (fh_addr h) + 8" "unat (fh_addr h) + 8 + unat bsize \<le> sz"
    "unat (fh_addr h) + 8 \<le> sz" "slot_at h dsize bsize k < 2 ^ 32"
proof -
  show "unat (fh_addr h) + 8 + unat bsize \<le> sz" "unat (fh_addr h) + 8 \<le> sz" "slot_at h dsize bsize k < 2 ^ 32"
    using assms in_chip_less[OF assms(1)] by (simp_all add: fdcm_area_def)
  then show "unat (fh_addr h + 8) = unat (fh_addr h) + 8"
    using in_chip_less[OF assms(1)] assms(2) by (subst unat_plus) (simp_all add: fdcm_area_def)
qed

lemma fdcm_read_last:
  assumes "st s m" "in_chip h" "fdcm_area m h dsize bsize k"
  shows "\<exists>s'. fdcm_read devs True (Some h) True dsize s
    = flash_read devs flash (fh_addr h + 8 + (ucast bsize + ucast dsize * (of_nat k - 1))) (ucast dsize) s' \<and> st s' m"
proof -
  let ?A = "unat (fh_addr h)"
  note b = area_bounds[OF assms(2,3)]
  obtain s1 where s1: "flash_read devs flash (fh_addr h) 8 s = Some (8, mem_bytes m ?A 8, s1)" "st s1 m"
    using flash_read_ok[OF assms(1), of 8 "fh_addr h"] b(3) by auto
  have "bsize \<noteq> 0" using assms(3) by (simp add: fdcm_area_def)
  then obtain s2 where s2: "flash_read devs flash (fh_addr h + 8) (ucast bsize) s1
      = Some (ucast bsize, mem_bytes m (?A + 8) (unat bsize), s2)" "st s2 m"
    using flash_read_ok[OF s1(2), of "ucast bsize" "fh_addr h + 8"] b(1,2) by auto
  then show ?thesis
    using assms(2) by (auto simp: fdcm_read_def s1(1) area_header[OF assms(3)] area_count[OF assms(3)] Let_def)
qed

lemma fdcm_read_area:
  assumes "st s m" "in_chip h" "fdcm_area m h dsize bsize (Suc k)" "dsize \<noteq> 0"
  shows "\<exists>s'. fdcm_read devs True (Some h) True dsize s = Some (ucast dsize, fdcm_value m h dsize bsize (Suc k), s')
    \<and> st s' m"
proof -
  let ?a = "fh_addr h + 8 + (ucast bsize + ucast dsize * of_nat k)"
  have slot: "slot_at h dsize bsize k + unat dsize = slot_at h dsize bsize (Suc k)" by (simp add: slot_at_def)
  then have "slot_at h dsize bsize k < 2 ^ 32" using area_bounds(4)[OF assms(2,3)] by linarith
  then have a: "unat ?a = slot_at h dsize bsize k" using slot_addr[OF _ assms(4), of h bsize k] by (simp add: algebra_simps)
  have "slot_at h dsize bsize k + unat dsize \<le> sz" using assms(2,3) slot by (simp add: fdcm_area_def)
  then have "\<exists>s'. flash_read devs flash ?a (ucast dsize) s2 = Some (ucast dsize, fdcm_value m h dsize bsize (Suc k), s') \<and> st s' m"
    if "st s2 m" for s2
    using flash_read_ok[OF that, of "ucast dsize" ?a, unfolded a unat_u16] assms(4) by (simp add: fdcm_value_def)
  then show ?thesis using fdcm_read_last[OF assms(1-3)] by auto
qed

end

section \<open>Writing\<close>

lemma mem_and_outside: "i < a \<or> a + length bs \<le> i \<Longrightarrow> mem_and a bs m i = m i"
  by (auto simp: mem_and_def)

lemma mem_put_outside: "i < a \<or> a + length bs \<le> i \<Longrightarrow> mem_put a bs m i = m i"
  by (auto simp: mem_put_def)

text \<open>The memory after a slot was used: one bit of the bitmap cleared and the slot programmed.\<close>

definition area_append :: "(nat \<Rightarrow> u8) \<Rightarrow> fdcm_handle \<Rightarrow> u16 \<Rightarrow> u16 \<Rightarrow> nat \<Rightarrow> u8 list \<Rightarrow> nat \<Rightarrow> u8" where
  "area_append m h dsize bsize k data =
     mem_and (slot_at h dsize bsize k) data
       (mem_and (unat (fh_addr h) + 8 + k div 8)
         [bitmap (unat bsize) k ! (k div 8) AND NOT (push_bit (k mod 8) 1)] m)"

lemma area_append:
  assumes "fdcm_area m h dsize bsize k" "k < 8 * unat bsize" "length data = unat dsize"
    "slot_at h dsize bsize (Suc k) \<le> unat (fh_addr h) + unat (fh_size h)"
  defines "m' \<equiv> area_append m h dsize bsize k data"
  shows "fdcm_area m' h dsize bsize (Suc k)" "fdcm_value m' h dsize bsize (Suc k) = data"
    "\<And>i. i < unat (fh_addr h) \<or> unat (fh_addr h) + unat (fh_size h) \<le> i \<Longrightarrow> m' i = m i"
proof -
  let ?A = "unat (fh_addr h)" and ?b = "unat bsize" and ?S = "slot_at h dsize bsize k"
  have k8: "k div 8 < ?b" using assms(2) by (simp add: less_mult_imp_div_less mult.commute)
  have S: "?A + 8 + ?b \<le> ?S" "slot_at h dsize bsize (Suc k) = ?S + unat dsize" by (simp_all add: slot_at_def)
  define new where "new = bitmap ?b k ! (k div 8) AND NOT (push_bit (k mod 8) 1)"
  have m': "m' = mem_and ?S data (mem_and (?A + 8 + k div 8) [new] m)"
    by (simp add: m'_def area_append_def new_def)
  have out: "m' i = m i" if "i < ?S \<or> ?S + unat dsize \<le> i" "i \<noteq> ?A + 8 + k div 8" for i
    using that assms(3) by (auto simp: m' mem_and_def)
  have old: "m (?A + 8 + j) = bitmap ?b k ! j" if "j < ?b" for j
    using assms(1) that unfolding fdcm_area_def by (metis nth_mem_bytes)
  have at: "m' (?A + 8 + k div 8) = new"
    using S(1) k8 by (simp add: m' mem_and_def old) (simp add: new_def and.assoc[symmetric])
  have bits: "mem_bytes m' (?A + 8) ?b = bitmap ?b (Suc k)"
  proof (rule nth_equalityI)
    fix j
    assume "j < length (mem_bytes m' (?A + 8) ?b)"
    then have j: "j < ?b" by simp
    then show "mem_bytes m' (?A + 8) ?b ! j = bitmap ?b (Suc k) ! j"
      using S(1) at out[of "?A + 8 + j"] old[OF j] k8
      by (cases "j = k div 8") (simp_all add: bitmap_Suc[OF assms(2)] new_def)
  qed simp
  have "mem_bytes m' ?A 8 = mem_bytes m ?A 8"
    by (rule mem_bytes_cong) (use S(1) out in auto)
  moreover have "m' i = 0xFF" if "?S + unat dsize \<le> i" "i < ?A + unat (fh_size h)" for i
  proof -
    have "i \<noteq> ?A + 8 + k div 8" using S(1) k8 that(1) by linarith
    then show ?thesis using out[of i] that assms(1) by (simp add: fdcm_area_def)
  qed
  ultimately show "fdcm_area m' h dsize bsize (Suc k)"
    using assms(1,2,4) bits S(2) by (simp add: fdcm_area_def)
  have "m' i = mem_put ?S data m i" if "?S \<le> i" "i < ?S + unat dsize" for i
  proof -
    have "m i = 0xFF" using assms(1,4) that S(2) by (simp add: fdcm_area_def)
    moreover have "i \<noteq> ?A + 8 + k div 8" using S(1) k8 that(1) by linarith
    ultimately show ?thesis using that assms(3) by (auto simp: m' mem_and_def mem_put_def)
  qed
  then have "mem_bytes m' ?S (unat dsize) = mem_bytes (mem_put ?S data m) ?S (unat dsize)"
    by (rule mem_bytes_cong)
  then show "fdcm_value m' h dsize bsize (Suc k) = data"
    using assms(3) by (simp add: fdcm_value_def mem_bytes_put)
  show "m' i = m i" if "i < ?A \<or> ?A + unat (fh_size h) \<le> i" for i
    using that out[of i] S assms(4) k8 by (auto simp: fdcm_area_def)
qed

text \<open>The memory after the area was erased and begun again.\<close>

definition area_begin :: "(nat \<Rightarrow> u8) \<Rightarrow> fdcm_handle \<Rightarrow> u16 \<Rightarrow> u16 \<Rightarrow> u8 list \<Rightarrow> nat \<Rightarrow> u8" where
  "area_begin m h dsize bsize data =
     mem_and (slot_at h dsize bsize 0) data
       (mem_and (unat (fh_addr h) + 8) [0xFE]
         (mem_and (unat (fh_addr h)) (header_bytes \<lparr>id_code = FDCM_ID_CODE, bitmap_size = bsize, data_size = dsize\<rparr>)
           (mem_erase (unat (fh_addr h)) (unat (fh_size h)) m)))"

lemma area_begin:
  fixes m :: "nat \<Rightarrow> u8"
  assumes "bsize \<noteq> 0" "length data = unat dsize" "dsize \<noteq> 0"
    "slot_at h dsize bsize 1 \<le> unat (fh_addr h) + unat (fh_size h)"
  defines "m' \<equiv> area_begin m h dsize bsize data"
  shows "fdcm_area m' h dsize bsize 1" "fdcm_value m' h dsize bsize 1 = data"
    "\<And>i. i < unat (fh_addr h) \<or> unat (fh_addr h) + unat (fh_size h) \<le> i \<Longrightarrow> m' i = m i"
proof -
  let ?A = "unat (fh_addr h)" and ?b = "unat bsize" and ?N = "unat (fh_size h)"
  let ?h = "header_bytes \<lparr>id_code = FDCM_ID_CODE, bitmap_size = bsize, data_size = dsize\<rparr>"
  have b: "0 < ?b" using assms(1) by (simp add: unat_gt_0)
  have d: "0 < unat dsize" using assms(3) by (simp add: unat_gt_0)
  have S: "slot_at h dsize bsize 0 = ?A + 8 + ?b" "slot_at h dsize bsize 1 = ?A + 8 + ?b + unat dsize" by (simp_all add: slot_at_def)
  have m': "m' i = (if ?A \<le> i \<and> i < ?A + 8 then ?h ! (i - ?A) else if i = ?A + 8 then 0xFE
      else if ?A + 8 + ?b \<le> i \<and> i < ?A + 8 + ?b + unat dsize then data ! (i - (?A + 8 + ?b))
      else if ?A \<le> i \<and> i < ?A + ?N then 0xFF else m i)" for i
    using assms(2,4) b S by (auto simp: m'_def area_begin_def mem_and_def mem_erase_def)
  have "mem_bytes m' ?A 8 = ?h" by (rule nth_equalityI) (simp_all add: m')
  moreover have "mem_bytes m' (?A + 8) ?b = bitmap ?b 1"
  proof (rule nth_equalityI)
    fix j
    assume "j < length (mem_bytes m' (?A + 8) ?b)"
    then show "mem_bytes m' (?A + 8) ?b ! j = bitmap ?b 1 ! j"
      using assms(4) S d by (cases j) (auto simp: m' nth_bitmap)
  qed simp
  moreover have "m' i = 0xFF" if "slot_at h dsize bsize 1 \<le> i" "i < ?A + ?N" for i
    using that S b by (auto simp: m')
  ultimately show "fdcm_area m' h dsize bsize 1"
    using assms(1,4) S b d by (simp add: fdcm_area_def)
  show "fdcm_value m' h dsize bsize 1 = data"
    using assms(2) S b by (intro nth_equalityI) (auto simp: fdcm_value_def m')
  show "m' i = m i" if "i < ?A \<or> ?A + ?N \<le> i" for i
    using that S assms(4) d by (auto simp: m')
qed

lemma slot_free:
  assumes "k < 8 * unat (bsize :: u16)" "slot_at h dsize bsize (Suc k) \<le> unat (fh_addr h) + unat (fh_size h)"
  shows "\<not> of_nat k \<ge> 8 * (ucast bsize :: u32)" "\<not> FDCM_HEADER_SIZE + ucast bsize + ucast dsize * (of_nat k + 1) > fh_size h"
proof -
  have k: "unat (of_nat k :: u32) = k" "k < 2 ^ 20" using assms(1) u16_less[of bsize] by (simp_all add: unat_of_nat32)
  have "unat (8 * (ucast bsize :: u32)) = 8 * unat bsize" using u16_less[of bsize] by (subst unat_times) simp_all
  then show "\<not> of_nat k \<ge> 8 * (ucast bsize :: u32)" using assms(1) k by (simp add: word_le_nat_alt)
  have *: "8 + unat bsize + unat dsize * Suc k \<le> unat (fh_size h)" using assms(2) by (simp add: slot_at_def)
  have "unat (of_nat k + 1 :: u32) = Suc k" using k by (subst unat_plus) simp_all
  moreover from this have "unat (ucast dsize * (of_nat k + 1) :: u32) = unat dsize * Suc k"
    using * u32_less[of "fh_size h"] by (subst unat_times) simp_all
  moreover have "unat (8 + ucast bsize :: u32) = 8 + unat bsize" using u16_less[of bsize] by (subst unat_plus) simp_all
  ultimately have "unat (8 + ucast bsize + ucast dsize * (of_nat k + 1) :: u32) = 8 + unat bsize + unat dsize * Suc k"
    using * u32_less[of "fh_size h"] by (subst unat_plus) simp_all
  then show "\<not> FDCM_HEADER_SIZE + ucast bsize + ucast dsize * (of_nat k + 1) > fh_size h"
    using * by (simp add: word_less_nat_alt)
qed

lemma room_left:
  assumes "slot_at h dsize bsize 1 \<le> unat (fh_addr h) + unat (fh_size h)"
  shows "\<not> ucast dsize > fh_size h - FDCM_HEADER_SIZE - ucast bsize"
proof -
  have n: "8 + unat bsize + unat dsize \<le> unat (fh_size h)" using assms by (simp add: slot_at_def)
  then have "unat (fh_size h - 8) = unat (fh_size h) - 8" by (subst unat_sub) (simp_all add: word_le_nat_alt)
  then have "unat (fh_size h - 8 - ucast bsize) = unat (fh_size h) - 8 - unat bsize"
    using n by (subst unat_sub) (simp_all add: word_le_nat_alt)
  then show ?thesis using n by (simp add: word_less_nat_alt)
qed

context nor_flash
begin

lemma fdcm_rewrite_ok:
  assumes "st s m" "in_chip h" "flash_get_erase_block devs flash (fh_addr h) (fh_size h) = Some b" "0 \<le> b"
    "bsize = rewrite_bitmap_size (fh_size h) dsize"
    "slot_at h dsize bsize 1 \<le> unat (fh_addr h) + unat (fh_size h)" "dsize \<noteq> 0" "length data = unat dsize"
  shows "\<exists>s'. fdcm_rewrite devs h data dsize s = Some (ucast dsize, s') \<and> st s' (area_begin m h dsize bsize data)"
proof -
  let ?A = "unat (fh_addr h)"
  let ?h = "header_bytes \<lparr>id_code = FDCM_ID_CODE, bitmap_size = bsize, data_size = dsize\<rparr>"
  have S: "slot_at h dsize bsize 0 = ?A + 8 + unat bsize" "slot_at h dsize bsize 1 = slot_at h dsize bsize 0 + unat dsize"
    by (simp_all add: slot_at_def)
  have lim: "?A + unat (fh_size h) \<le> sz" "fh_flash h = flash" using assms(2) by simp_all
  have "unat dsize \<noteq> 0" using assms(7) by (simp add: unat_eq_0)
  then have a8: "?A + 8 + 1 \<le> sz" using S lim assms(6) by linarith
  then have u8: "unat (fh_addr h + 8) = ?A + 8" using u32_less[of "mSize (fd_chip dev)"] by (subst unat_plus) simp_all
  have "slot_at h dsize bsize 0 < 2 ^ 32" using S lim assms(6) u32_less[of "mSize (fd_chip dev)"] by linarith
  then have a0: "unat (fh_addr h + 8 + ucast bsize) = slot_at h dsize bsize 0"
    using slot_addr[of h dsize bsize 0] assms(7) by simp
  obtain s1 where s1: "flash_erase devs flash (fh_addr h) (fh_size h) s = Some (0, s1)"
      "st s1 (mem_erase ?A (unat (fh_size h)) m)"
    using flash_erase_ok[OF assms(1,3,4) lim(1)] by blast
  obtain s2 where s2: "flash_write devs flash (fh_addr h) ?h 8 s1 = Some (8, s2)"
      "st s2 (mem_and ?A ?h (mem_erase ?A (unat (fh_size h)) m))"
    using flash_write_ok[OF s1(2), of 8 ?h "fh_addr h"] a8 by auto
  obtain s3 where s3: "flash_write devs flash (fh_addr h + 8) [0xFE] 1 s2 = Some (1, s3)"
      "st s3 (mem_and (?A + 8) [0xFE] (mem_and ?A ?h (mem_erase ?A (unat (fh_size h)) m)))"
    using flash_write_ok[OF s2(2), of 1 "[0xFE]" "fh_addr h + 8"] a8 u8 by auto
  obtain s4 where "flash_write devs flash (fh_addr h + 8 + ucast bsize) data (ucast dsize) s3 = Some (ucast dsize, s4)"
      "st s4 (area_begin m h dsize bsize data)"
    using flash_write_ok[OF s3(2), of "ucast dsize" data "fh_addr h + 8 + ucast bsize"] S lim assms(6-8)
    by (auto simp: a0 area_begin_def)
  then show ?thesis
    using room_left[OF assms(6)] by (simp add: fdcm_rewrite_def assms(5)[symmetric] lim(2) s1(1) s2(1) s3(1) Let_def)
qed

text \<open>Appending a record: after reading header and bitmap, the bit is programmed, and then the slot.\<close>

lemma fdcm_write_steps:
  assumes "st s m" "in_chip h" "fdcm_area m h dsize bsize k" "k < 8 * unat bsize"
    "slot_at h dsize bsize (Suc k) \<le> unat (fh_addr h) + unat (fh_size h)" "dsize \<noteq> 0" "length data = unat dsize"
  defines "new \<equiv> bitmap (unat bsize) k ! (k div 8) AND NOT (push_bit (k mod 8) 1)"
  shows "\<exists>s0 s1. st s0 m \<and> flash_write devs flash (fh_addr h + 8 + of_nat k div 8) [new] 1 s0 = Some (1, s1)
    \<and> st s1 (mem_and (unat (fh_addr h) + 8 + k div 8) [new] m)
    \<and> fdcm_write devs True (Some h) (Some data) dsize s
      = flash_write devs flash (of_nat (slot_at h dsize bsize k)) data (ucast dsize) s1"
proof -
  let ?A = "unat (fh_addr h)"
  note b = area_bounds[OF assms(2,3)]
  have lim: "?A + unat (fh_size h) \<le> sz" "?A + unat (fh_size h) < 2 ^ 32" "fh_flash h = flash"
    using assms(2) in_chip_less[OF assms(2)] by simp_all
  have slot: "slot_at h dsize bsize k + unat dsize = slot_at h dsize bsize (Suc k)" by (simp add: slot_at_def)
  have d: "0 < unat dsize" using assms(6) by (simp add: unat_gt_0)
  obtain s1 where s1: "flash_read devs flash (fh_addr h) 8 s = Some (8, mem_bytes m ?A 8, s1)" "st s1 m"
    using flash_read_ok[OF assms(1), of 8 "fh_addr h"] b(3) by auto
  have bs: "bsize \<noteq> 0" using assms(3) by (simp add: fdcm_area_def)
  then obtain s2 where s2: "flash_read devs flash (fh_addr h + 8) (ucast bsize) s1
      = Some (ucast bsize, mem_bytes m (?A + 8) (unat bsize), s2)" "st s2 m"
    using flash_read_ok[OF s1(2), of "ucast bsize" "fh_addr h + 8"] b(1,2) by auto
  have k8: "k div 8 < unat bsize" using assms(4) by (simp add: less_mult_imp_div_less mult.commute)
  have k: "unat (of_nat k :: u32) = k" using assms(4) u16_less[of bsize] by (simp add: unat_of_nat32)
  note free = slot_free[OF assms(4,5)]
  have left: "\<not> ucast dsize > fh_size h - FDCM_HEADER_SIZE - ucast bsize"
    using assms(5) by (intro room_left) (simp add: slot_at_def)
  have idx: "unat (of_nat k div 8 :: u32) = k div 8" "unat (of_nat k mod 8 :: u32) = k mod 8"
    using k by (simp_all add: unat_div unat_mod)
  have a1: "unat (fh_addr h + 8 + of_nat k div 8) = ?A + 8 + k div 8"
  proof -
    have "?A + 8 + k div 8 < 2 ^ 32" using assms(3) lim k8 unfolding fdcm_area_def by linarith
    then show ?thesis using b idx by (subst unat_plus) simp_all
  qed
  obtain s3 where s3: "flash_write devs flash (fh_addr h + 8 + of_nat k div 8) [new] 1 s2 = Some (1, s3)"
      "st s3 (mem_and (?A + 8 + k div 8) [new] m)"
    using flash_write_ok[OF s2(2), of 1 "[new]" "fh_addr h + 8 + of_nat k div 8"] a1 b(2) k8 by auto
  let ?a = "fh_addr h + 8 + ucast bsize + ucast dsize * of_nat k"
  have "slot_at h dsize bsize k < 2 ^ 32" using slot assms(5) lim by linarith
  then have a2: "unat ?a = slot_at h dsize bsize k" by (rule slot_addr[OF _ assms(6)])
  then have a2': "?a = of_nat (slot_at h dsize bsize k)" unfolding a2[symmetric] by simp
  have bm: "mem_bytes m (?A + 8) (unat bsize) = bitmap (unat bsize) k" using assms(3) by (simp add: fdcm_area_def)
  have cnt: "fdcm_bit_count (bitmap (unat bsize) k) = of_nat k" using area_count[OF assms(3)] bm by simp
  have rdb: "rd (bitmap (unat bsize) k) (k div 8) = Some (bitmap (unat bsize) k ! (k div 8))"
    using k8 by (simp add: rd_def)
  note area = area_header[OF assms(3)]
  have "fdcm_write devs True (Some h) (Some data) dsize s = flash_write devs flash ?a data (ucast dsize) s3"
    unfolding fdcm_write_def
    by (simp add: s1(1) s2(1) s3(1)[unfolded new_def] lim(3) area bm cnt Let_def free left idx rdb bs del: not_le not_less push_bit_of_1)
  then show ?thesis using s2(2) s3 unfolding a2' by blast
qed

lemma fdcm_write_append:
  assumes "st s m" "in_chip h" "fdcm_area m h dsize bsize k" "k < 8 * unat bsize"
    "slot_at h dsize bsize (Suc k) \<le> unat (fh_addr h) + unat (fh_size h)" "dsize \<noteq> 0" "length data = unat dsize"
  shows "\<exists>s'. fdcm_write devs True (Some h) (Some data) dsize s = Some (ucast dsize, s')
    \<and> st s' (area_append m h dsize bsize k data)"
proof -
  let ?m = "mem_and (unat (fh_addr h) + 8 + k div 8) [bitmap (unat bsize) k ! (k div 8) AND NOT (push_bit (k mod 8) 1)] m"
  let ?a = "slot_at h dsize bsize k"
  obtain s1 where s1: "st s1 ?m"
      "fdcm_write devs True (Some h) (Some data) dsize s = flash_write devs flash (of_nat ?a) data (ucast dsize) s1"
    using fdcm_write_steps[OF assms] by blast
  have slot: "?a + unat dsize = slot_at h dsize bsize (Suc k)" by (simp add: slot_at_def)
  have lim: "unat (fh_addr h) + unat (fh_size h) \<le> sz" "unat (fh_addr h) + unat (fh_size h) < 2 ^ 32"
    using assms(2) in_chip_less[OF assms(2)] by simp_all
  then have a: "unat (of_nat ?a :: u32) = ?a" using slot assms(5) by (simp add: unat_of_nat32)
  have "0 < unat dsize" using assms(6) by (simp add: unat_gt_0)
  then show ?thesis
    using flash_write_ok[OF s1(1), of "ucast dsize" data "of_nat ?a", unfolded a] slot assms(5-7) lim(1)
    unfolding s1(2) by (auto simp: area_append_def)
qed

end

section \<open>The store as a cell\<close>

text \<open>The size of the bitmap leaves room for one slot and did not wrap to 0; the area is smaller than 2 GB.\<close>

definition store_fits :: "fdcm_handle \<Rightarrow> u16 \<Rightarrow> bool" where
  "store_fits h dsize \<longleftrightarrow> unat (fh_size h) \<le> 2 ^ 31 \<and> rewrite_bitmap_size (fh_size h) dsize \<noteq> 0
     \<and> slot_at h dsize (rewrite_bitmap_size (fh_size h) dsize) 1 \<le> unat (fh_addr h) + unat (fh_size h)"

text \<open>What \<open>fdcm_write\<close> may find: no header of this size, or an area as it leaves it.\<close>

definition store_ready :: "(nat \<Rightarrow> u8) \<Rightarrow> fdcm_handle \<Rightarrow> u16 \<Rightarrow> bool" where
  "store_ready m h dsize \<longleftrightarrow> header_invalid h (header_of (mem_bytes m (unat (fh_addr h)) 8)) dsize
     \<or> (\<exists>bsize k. fdcm_area m h dsize bsize k \<and> slot_at h dsize bsize 1 \<le> unat (fh_addr h) + unat (fh_size h))"

text \<open>A store that holds a record, and a memory that differs only in the area.\<close>

definition store_holds :: "(nat \<Rightarrow> u8) \<Rightarrow> fdcm_handle \<Rightarrow> u8 list \<Rightarrow> bool" where
  "store_holds m h data \<longleftrightarrow>
     (\<exists>dsize bsize k. unat dsize = length data \<and> fdcm_area m h dsize bsize (Suc k)
        \<and> fdcm_value m h dsize bsize (Suc k) = data)"

definition same_outside :: "fdcm_handle \<Rightarrow> (nat \<Rightarrow> u8) \<Rightarrow> (nat \<Rightarrow> u8) \<Rightarrow> bool" where
  "same_outside h m m' \<longleftrightarrow>
     (\<forall>i. i < unat (fh_addr h) \<or> unat (fh_addr h) + unat (fh_size h) \<le> i \<longrightarrow> m' i = m i)"

lemma store_holds_ready: "store_holds m h data \<Longrightarrow> unat dsize = length data \<Longrightarrow> store_ready m h dsize"
proof -
  assume "store_holds m h data" "unat dsize = length data"
  then obtain bsize k where a: "fdcm_area m h dsize bsize (Suc k)"
    unfolding store_holds_def by (metis word_unat_eq_iff)
  then have "slot_at h dsize bsize 1 \<le> unat (fh_addr h) + unat (fh_size h)" by (simp add: fdcm_area_def slot_at_def)
  then show ?thesis using a unfolding store_ready_def by blast
qed

lemma store_begin:
  assumes "store_fits h dsize" "length data = unat dsize" "dsize \<noteq> 0"
  shows "store_holds (area_begin m h dsize (rewrite_bitmap_size (fh_size h) dsize) data) h data"
    "same_outside h m (area_begin m h dsize (rewrite_bitmap_size (fh_size h) dsize) data)"
  using area_begin[where bsize = "rewrite_bitmap_size (fh_size h) dsize" and data = data and dsize = dsize and h = h and m = m] assms
  unfolding store_fits_def store_holds_def same_outside_def by (metis One_nat_def)+

lemma store_append:
  assumes "fdcm_area m h dsize bsize k" "k < 8 * unat bsize" "length data = unat dsize"
    "slot_at h dsize bsize (Suc k) \<le> unat (fh_addr h) + unat (fh_size h)"
  shows "store_holds (area_append m h dsize bsize k data) h data"
    "same_outside h m (area_append m h dsize bsize k data)"
  using area_append[OF assms] assms(3) unfolding store_holds_def same_outside_def by metis+

text \<open>The test for a free slot, on words.\<close>

lemma append_test:
  assumes "fdcm_area m h dsize bsize k" "unat (fh_size h) \<le> 2 ^ 31"
  shows "of_nat k \<ge> 8 * (ucast bsize :: u32) \<or> FDCM_HEADER_SIZE + ucast bsize + ucast dsize * (of_nat k + 1) > fh_size h
    \<longleftrightarrow> \<not> (k < 8 * unat bsize \<and> slot_at h dsize bsize (Suc k) \<le> unat (fh_addr h) + unat (fh_size h))"
proof -
  have k: "k < 2 ^ 20" using assms(1) u16_less[of bsize] by (simp add: fdcm_area_def)
  then have k1: "unat (of_nat k :: u32) = k" by (simp add: unat_of_nat32)
  have "unat (8 * (ucast bsize :: u32)) = 8 * unat bsize" using u16_less[of bsize] by (subst unat_times) simp_all
  then have 1: "of_nat k \<ge> 8 * (ucast bsize :: u32) \<longleftrightarrow> \<not> k < 8 * unat bsize"
    by (auto simp: word_le_nat_alt k1)
  have d: "unat dsize * k \<le> 2 ^ 31" using assms by (simp add: fdcm_area_def slot_at_def)
  have "unat (of_nat k + 1 :: u32) = Suc k" using k k1 by (subst unat_plus) simp_all
  moreover from this have "unat (ucast dsize * (of_nat k + 1) :: u32) = unat dsize * Suc k"
    using d u16_less[of dsize] by (subst unat_times) simp_all
  moreover have "unat (8 + ucast bsize :: u32) = 8 + unat bsize" using u16_less[of bsize] by (subst unat_plus) simp_all
  ultimately have "unat (8 + ucast bsize + ucast dsize * (of_nat k + 1) :: u32) = 8 + unat bsize + unat dsize * Suc k"
    using d u16_less[of dsize] u16_less[of bsize] by (subst unat_plus) simp_all
  then have "8 + ucast bsize + ucast dsize * (of_nat k + 1) > fh_size h
      \<longleftrightarrow> \<not> slot_at h dsize bsize (Suc k) \<le> unat (fh_addr h) + unat (fh_size h)"
    by (auto simp: word_less_nat_alt slot_at_def)
  then show ?thesis using 1 by auto
qed

context nor_flash
begin

lemma fdcm_read_holds:
  assumes "st s m" "in_chip h" "store_holds m h data" "unat dsize = length data" "dsize \<noteq> 0"
  shows "\<exists>s'. fdcm_read devs True (Some h) True dsize s = Some (ucast dsize, data, s') \<and> st s' m"
proof -
  obtain bsize k where "fdcm_area m h dsize bsize (Suc k)" "fdcm_value m h dsize bsize (Suc k) = data"
    using assms(3,4) unfolding store_holds_def by (metis word_unat_eq_iff)
  then show ?thesis using fdcm_read_area[OF assms(1,2) _ assms(5)] by metis
qed

lemma fdcm_write_fresh:
  assumes "st s m" "in_chip h" "header_invalid h (header_of (mem_bytes m (unat (fh_addr h)) 8)) dsize"
    "8 \<le> unat (fh_size h)"
  shows "\<exists>s'. fdcm_write devs True (Some h) (Some data) dsize s = fdcm_rewrite devs h data dsize s' \<and> st s' m"
proof -
  obtain s1 where "flash_read devs flash (fh_addr h) 8 s = Some (8, mem_bytes m (unat (fh_addr h)) 8, s1)" "st s1 m"
    using flash_read_ok[OF assms(1), of 8 "fh_addr h"] assms(2,4) by auto
  then show ?thesis using assms(2,3) by (auto simp: fdcm_write_def Let_def)
qed

lemma fdcm_write_full:
  assumes "st s m" "in_chip h" "fdcm_area m h dsize bsize k" "dsize \<noteq> 0"
    "slot_at h dsize bsize 1 \<le> unat (fh_addr h) + unat (fh_size h)" "unat (fh_size h) \<le> 2 ^ 31"
    "\<not> (k < 8 * unat bsize \<and> slot_at h dsize bsize (Suc k) \<le> unat (fh_addr h) + unat (fh_size h))"
  shows "\<exists>s'. fdcm_write devs True (Some h) (Some data) dsize s = fdcm_rewrite devs h data dsize s' \<and> st s' m"
proof -
  let ?A = "unat (fh_addr h)"
  note b = area_bounds[OF assms(2,3)]
  have lim: "fh_flash h = flash" using assms(2) by simp
  obtain s1 where s1: "flash_read devs flash (fh_addr h) 8 s = Some (8, mem_bytes m ?A 8, s1)" "st s1 m"
    using flash_read_ok[OF assms(1), of 8 "fh_addr h"] b(3) by auto
  have bs: "bsize \<noteq> 0" using assms(3) by (simp add: fdcm_area_def)
  then obtain s2 where s2: "flash_read devs flash (fh_addr h + 8) (ucast bsize) s1
      = Some (ucast bsize, mem_bytes m (?A + 8) (unat bsize), s2)" "st s2 m"
    using flash_read_ok[OF s1(2), of "ucast bsize" "fh_addr h + 8"] b(1,2) by auto
  show ?thesis
    using s2(2) append_test[OF assms(3,6)] assms(7) room_left[OF assms(5)]
    by (auto simp: fdcm_write_def s1(1) s2(1) lim area_header[OF assms(3)] area_count[OF assms(3)] Let_def bs)
qed

end

context nor_flash
begin

lemma fdcm_write_holds:
  assumes "st s m" "in_chip h" "fdcm_open devs True flash (fh_addr h) (fh_size h) = Some (Some h)"
    "store_ready m h dsize" "store_fits h dsize" "unat dsize = length data" "dsize \<noteq> 0"
  shows "\<exists>s' m'. fdcm_write devs True (Some h) (Some data) dsize s = Some (ucast dsize, s') \<and> st s' m'
    \<and> store_holds m' h data \<and> same_outside h m m'"
proof -
  let ?b = "rewrite_bitmap_size (fh_size h) dsize"
  obtain blk where blk: "flash_get_erase_block devs flash (fh_addr h) (fh_size h) = Some blk" "0 \<le> blk"
    using assms(3) by (auto simp: fdcm_open_def split: bind_splits if_splits)
  have fits: "unat (fh_size h) \<le> 2 ^ 31" "slot_at h dsize ?b 1 \<le> unat (fh_addr h) + unat (fh_size h)"
    using assms(5) by (simp_all add: store_fits_def)
  have rw: ?thesis if "fdcm_write devs True (Some h) (Some data) dsize s = fdcm_rewrite devs h data dsize s0" "st s0 m" for s0
    using fdcm_rewrite_ok[OF that(2) assms(2) blk refl fits(2) assms(7) assms(6)[symmetric]]
      store_begin[OF assms(5) assms(6)[symmetric] assms(7), of m] unfolding that(1) by blast
  show ?thesis
  proof (cases "header_invalid h (header_of (mem_bytes m (unat (fh_addr h)) 8)) dsize")
    case True
    moreover have "8 \<le> unat (fh_size h)" using fits(2) by (simp add: slot_at_def)
    ultimately show ?thesis using rw fdcm_write_fresh[OF assms(1,2)] by metis
  next
    case False
    then obtain bsize k where a: "fdcm_area m h dsize bsize k" "slot_at h dsize bsize 1 \<le> unat (fh_addr h) + unat (fh_size h)"
      using assms(4) by (auto simp: store_ready_def)
    show ?thesis
    proof (cases "k < 8 * unat bsize \<and> slot_at h dsize bsize (Suc k) \<le> unat (fh_addr h) + unat (fh_size h)")
      case True
      then show ?thesis
        using fdcm_write_append[OF assms(1,2) a(1) _ _ assms(7) assms(6)[symmetric]]
          store_append[OF a(1) _ assms(6)[symmetric]] by blast
    next
      case False
      then show ?thesis using rw fdcm_write_full[OF assms(1,2) a(1) assms(7) a(2) fits(1) False] by metis
    qed
  qed
qed

end

lemma mem_and_single: "mem_and a [b] m = m(a := m a AND b)"
  by (rule ext) (auto simp: mem_and_def dest: le_less_Suc_eq)

section \<open>Properties\<close>

text \<open>C13. A record that \<open>fdcm_write\<close> stores is the record the next \<open>fdcm_read\<close> returns: whatever the area
  holds before (no valid header, an area with free slots, a full one), the call reports every byte
  written, changes no byte of the chip outside the area, and leaves an area that the next write accepts.\<close>

theorem fdcm_write_read:
  assumes "nor_flash devs flash dev mem busy" "fdcm_open devs True flash addr n = Some (Some h)"
    "unat addr + unat n \<le> unat (mSize (fd_chip dev))" "store_fits h dsize" "store_ready (mem (fs_env s)) h dsize"
    "busy (fs_env s) = 0" "unat dsize = length data" "dsize \<noteq> 0"
  shows "\<exists>s'. fdcm_write devs True (Some h) (Some data) dsize s = Some (ucast dsize, s')
    \<and> same_outside h (mem (fs_env s)) (mem (fs_env s')) \<and> store_ready (mem (fs_env s')) h dsize
    \<and> busy (fs_env s') = 0 \<and> (\<exists>s''. fdcm_read devs True (Some h) True dsize s' = Some (ucast dsize, data, s'')
         \<and> mem (fs_env s'') = mem (fs_env s'))"
proof -
  have h: "fh_flash h = flash" "fh_addr h = addr" "fh_size h = n"
    using assms(2) by (auto simp: fdcm_open_def split: bind_splits if_splits)
  obtain s' m' where w: "fdcm_write devs True (Some h) (Some data) dsize s = Some (ucast dsize, s')"
      "mem (fs_env s') = m'" "busy (fs_env s') = 0" "store_holds m' h data" "same_outside h (mem (fs_env s)) m'"
    using nor_flash.fdcm_write_holds[OF assms(1) _ _ _ assms(5,4,7,8)] assms(2,3,6) h by blast
  moreover have "\<exists>s''. fdcm_read devs True (Some h) True dsize s' = Some (ucast dsize, data, s'') \<and> mem (fs_env s'') = m'"
    using nor_flash.fdcm_read_holds[OF assms(1) _ _ w(4) assms(7,8)] w(2,3) h assms(3) by blast
  ultimately show ?thesis using store_holds_ready[OF w(4) assms(7)] by metis
qed

text \<open>C38. The two programming steps of \<open>fdcm_write\<close> are not atomic.  Appending a record to an area with free slots
  programs the bit of the bitmap first and the slot last; in the state between the two, which is the one a power
  failure leaves, the record stored before can no longer be read: the next read returns erased bytes as if they had
  been written.\<close>

theorem fdcm_torn_write:
  assumes "nor_flash devs flash dev mem busy" "fh_flash h = flash"
    "unat (fh_addr h) + unat (fh_size h) \<le> unat (mSize (fd_chip dev))" "busy (fs_env s) = 0" "dsize \<noteq> 0"
    "fdcm_area (mem (fs_env s)) h dsize bsize k" "k < 8 * unat bsize"
    "slot_at h dsize bsize (Suc k) \<le> unat (fh_addr h) + unat (fh_size h)" "length data = unat dsize"
  shows "(k \<noteq> 0 \<longrightarrow> (\<exists>s'. fdcm_read devs True (Some h) True dsize s
        = Some (ucast dsize, fdcm_value (mem (fs_env s)) h dsize bsize k, s')))
    \<and> (\<exists>s0 bits s1 s2. mem (fs_env s0) = mem (fs_env s)
      \<and> flash_write devs flash (fh_addr h + 8 + of_nat k div 8) [bits] 1 s0 = Some (1, s1)
      \<and> fdcm_write devs True (Some h) (Some data) dsize s
          = flash_write devs flash (of_nat (slot_at h dsize bsize k)) data (ucast dsize) s1
      \<and> fdcm_read devs True (Some h) True dsize s1 = Some (ucast dsize, replicate (unat dsize) 0xFF, s2))"
proof -
  let ?d = "replicate (unat dsize) (0xFF :: u8)" and ?m = "mem (fs_env s)"
  have x: "x AND 0xFF = x" for x :: u8 using and.right_neutral[of x] by simp
  obtain s0 bits s1 where s1: "mem (fs_env s0) = ?m"
      "flash_write devs flash (fh_addr h + 8 + of_nat k div 8) [bits] 1 s0 = Some (1, s1)"
      "fdcm_write devs True (Some h) (Some data) dsize s
        = flash_write devs flash (of_nat (slot_at h dsize bsize k)) data (ucast dsize) s1"
      "busy (fs_env s1) = 0" "bits = bitmap (unat bsize) k ! (k div 8) AND NOT (push_bit (k mod 8) 1)"
      "mem (fs_env s1) = mem_and (unat (fh_addr h) + 8 + k div 8) [bits] ?m"
    using nor_flash.fdcm_write_steps[OF assms(1) _ _ assms(6-8,5,9), of s] assms(2-4) by blast
  have "mem (fs_env s1) = area_append ?m h dsize bsize k ?d"
    unfolding s1(6) area_append_def s1(5)[symmetric]
    by (rule ext) (auto simp: mem_and_def x)
  then have "fdcm_area (mem (fs_env s1)) h dsize bsize (Suc k)" "fdcm_value (mem (fs_env s1)) h dsize bsize (Suc k) = ?d"
    using area_append[OF assms(6,7) _ assms(8), of ?d] by simp_all
  then obtain s2 where "fdcm_read devs True (Some h) True dsize s1 = Some (ucast dsize, ?d, s2)"
    using nor_flash.fdcm_read_area[OF assms(1), of s1 "mem (fs_env s1)" h dsize bsize k] s1(4) assms(2,3,5) by auto
  moreover have "\<exists>s'. fdcm_read devs True (Some h) True dsize s = Some (ucast dsize, fdcm_value ?m h dsize bsize k, s')"
    if k: "k \<noteq> 0"
  proof -
    obtain j where "k = Suc j" using k by (cases k) auto
    then show ?thesis using nor_flash.fdcm_read_area[OF assms(1), of s ?m h dsize bsize j] assms(2-6) by auto
  qed
  ultimately show ?thesis using s1(1-3) by blast
qed

text \<open>Reading an area whose bitmap has no bit cleared, as a power failure between the header and
  the first bit leaves it: the number of the last slot wraps, and the bytes before the first slot (the
  bitmap and the header) are returned as a record.\<close>

theorem fdcm_read_no_slot:
  assumes "nor_flash devs flash dev mem busy" "fh_flash h = flash"
    "unat (fh_addr h) + unat (fh_size h) \<le> unat (mSize (fd_chip dev))" "busy (fs_env s) = 0" "dsize \<noteq> 0"
    "fdcm_area (mem (fs_env s)) h dsize bsize 0" "unat dsize \<le> 8 + unat bsize"
  shows "\<exists>s'. fdcm_read devs True (Some h) True dsize s
    = Some (ucast dsize, mem_bytes (mem (fs_env s)) (unat (fh_addr h) + 8 + unat bsize - unat dsize) (unat dsize), s')"
proof -
  have a: "unat (fh_addr h + 8 + (ucast bsize + ucast dsize * (of_nat 0 - 1))) = unat (fh_addr h) + 8 + unat bsize - unat dsize"
  proof -
    have "unat (fh_addr h + 8 + ucast bsize) = unat (fh_addr h) + 8 + unat bsize"
      using slot_addr[of h dsize bsize 0] assms(3,5,6) u32_less[of "mSize (fd_chip dev)"] by (simp add: slot_at_def fdcm_area_def)
    then have "unat (fh_addr h + 8 + ucast bsize - ucast dsize) = unat (fh_addr h) + 8 + unat bsize - unat dsize"
      using assms(7) by (subst unat_sub) (simp_all add: word_le_nat_alt)
    then show ?thesis by (simp add: algebra_simps)
  qed
  obtain s2 where s2: "fdcm_read devs True (Some h) True dsize s
      = flash_read devs flash (fh_addr h + 8 + (ucast bsize + ucast dsize * (of_nat 0 - 1))) (ucast dsize) s2"
      "mem (fs_env s2) = mem (fs_env s)" "busy (fs_env s2) = 0"
    using nor_flash.fdcm_read_last[OF assms(1) _ _ assms(6), of s] assms(2-4) by blast
  have "unat (fh_addr h) + 8 + unat bsize - unat dsize + unat dsize \<le> unat (mSize (fd_chip dev))"
    using assms(3,6,7) by (simp add: fdcm_area_def)
  then show ?thesis
    using nor_flash.flash_read_ok[OF assms(1), of s2 "mem (fs_env s)" "ucast dsize", OF _ _ ] s2 assms(5)
    unfolding s2(1) by (metis a unat_u16 ucast_u16_eq_0)
qed

text \<open>The bitmap of a rewritten area has a bit for every slot that fits, and the first slot fits,
  as long as the computed size stays below the bound of 1024 bytes.\<close>

theorem rewrite_bitmap_covers:
  assumes "unat dsize + 10 \<le> unat n" "(unat n - 9) div (8 * unat dsize + 1) < 1024"
  shows "rewrite_bitmap_size n dsize \<noteq> 0
    \<and> 8 + unat (rewrite_bitmap_size n dsize) + unat dsize \<le> unat n
    \<and> unat n \<le> 8 + unat (rewrite_bitmap_size n dsize) + unat dsize * (8 * unat (rewrite_bitmap_size n dsize))"
proof -
  let ?d = "unat dsize" and ?q = "(unat n - 9) div (8 * unat dsize + 1)"
  have u9: "unat (n - 8 - 1) = unat n - 9"
  proof -
    have "unat (n - 8) = unat n - 8" using assms(1) by (subst unat_sub) (simp_all add: word_le_nat_alt)
    then show ?thesis using assms(1) by (subst unat_sub) (simp_all add: word_le_nat_alt)
  qed
  have "unat (ucast dsize * 8 + 1 :: u32) = 8 * ?d + 1"
  proof -
    have "unat (ucast dsize * 8 :: u32) = 8 * ?d" using u16_less[of dsize] by (subst unat_times) simp_all
    then show ?thesis using u16_less[of dsize] by (subst unat_plus) simp_all
  qed
  then have "unat ((n - 8 - 1) div (ucast dsize * 8 + 1)) = ?q" by (simp only: unat_div u9)
  then have "unat ((n - 8 - 1) div (ucast dsize * 8 + 1) + 1) = ?q + 1" using assms(2) by (subst unat_plus) simp_all
  then have "unat (ucast ((n - 8 - 1) div (ucast dsize * 8 + 1) + 1) :: u16) = ?q + 1"
    using assms(2) by (simp add: unsigned_ucast_eq take_bit_nat_eq_self)
  then have b: "unat (rewrite_bitmap_size n dsize) = ?q + 1"
    using assms(2) by (simp add: rewrite_bitmap_size_def Let_def word_less_nat_alt)
  define q where "q = ?q"
  have "(8 * ?d + 1) * q \<le> unat n - 9" unfolding q_def by (rule times_div_less_eq_dividend)
  moreover have "unat n - 9 < (8 * ?d + 1) * (q + 1)"
    unfolding q_def by (metis add.commute dividend_less_times_div plus_1_eq_Suc mult_Suc_right zero_less_Suc)
  ultimately have q: "8 * (?d * q) + q \<le> unat n - 9" "unat n - 9 < 8 * (?d * q) + q + 8 * ?d + 1"
    by (simp_all add: algebra_simps)
  have "q = 0 \<or> ?d \<le> ?d * q" by (cases q) simp_all
  then have "8 + (q + 1) + ?d \<le> unat n" using q(1) assms(1) by linarith
  moreover have "unat n \<le> 8 + (q + 1) + (8 * (?d * q) + 8 * ?d)" using q(2) assms(1) by linarith
  moreover have "rewrite_bitmap_size n dsize \<noteq> 0" using b by (metis add_is_0 one_neq_zero unat_0)
  ultimately show ?thesis unfolding b q_def[symmetric] by (simp add: algebra_simps)
qed

section \<open>Examples\<close>

definition cfg_area :: fdcm_handle where
  "cfg_area = \<lparr>fh_flash = 0, fh_addr = 0x1000, fh_size = 0x1000\<rparr>"

lemma cfg_area_simps [simp]: "fh_flash cfg_area = 0" "fh_addr cfg_area = 0x1000" "fh_size cfg_area = 0x1000"
  by (simp_all add: cfg_area_def)

lemma cfg_area_open: "fdcm_open nor_devs True 0 0x1000 0x1000 = Some (Some cfg_area)"
proof -
  have "(0x1000 :: u32) AND 0x19002 \<noteq> 0" "(0x1000 :: u32) AND NOT 0xFFF = 0x1000" "(0x1000 :: u32) AND 0xFFF = 0" by code_simp+
  then show ?thesis
    by (simp add: fdcm_open_def flash_get_erase_block_def s_flash_erase_param_def block_fits_def HAL_Flash_MemoryOf_def
        nor_devs_def nor_attributes cfg_area_def)
qed

lemma cfg_area_bitmap: "rewrite_bitmap_size 0x1000 4 = 124"
  by code_simp

theorem fdcm_write_read_witness:
  "\<exists>s'. fdcm_write nor_devs True (Some cfg_area) (Some [1, 2, 3, 4]) 4 (nor_sys (\<lambda>_. 0)) = Some (4, s')
    \<and> same_outside cfg_area (\<lambda>_. 0) (np_mem (fs_env s')) \<and> store_ready (np_mem (fs_env s')) cfg_area 4
    \<and> np_busy (fs_env s') = 0
    \<and> (\<exists>s''. fdcm_read nor_devs True (Some cfg_area) True 4 s' = Some (4, [1, 2, 3, 4], s'')
         \<and> np_mem (fs_env s'') = np_mem (fs_env s'))"
proof -
  have "store_fits cfg_area 4" by (simp add: store_fits_def cfg_area_bitmap slot_at_def)
  moreover have "store_ready (\<lambda>_. 0) cfg_area 4"
    by (simp add: store_ready_def header_invalid_def header_of_def of_le4_def nth_mem_bytes)
  ultimately show ?thesis
    using fdcm_write_read[OF nor.nor_flash_axioms cfg_area_open, of 4 "nor_sys (\<lambda>_. 0)" "[1, 2, 3, 4]"]
    by (simp add: nor_attributes nor_sys_def)
qed

theorem fdcm_torn_write_witness:
  "(\<exists>s'. fdcm_read nor_devs True (Some cfg_area) True 4 (nor_sys (area_begin (\<lambda>_. 0) cfg_area 4 124 [1, 2, 3, 4]))
      = Some (4, [1, 2, 3, 4], s'))
    \<and> (\<exists>s1 s2. fdcm_write nor_devs True (Some cfg_area) (Some [5, 6, 7, 8]) 4 (nor_sys (area_begin (\<lambda>_. 0) cfg_area 4 124 [1, 2, 3, 4]))
          = flash_write nor_devs 0 0x1088 [5, 6, 7, 8] 4 s1
        \<and> fdcm_read nor_devs True (Some cfg_area) True 4 s1 = Some (4, [0xFF, 0xFF, 0xFF, 0xFF], s2))"
proof -
  have "fdcm_area (area_begin (\<lambda>_. 0) cfg_area 4 124 [1, 2, 3, 4]) cfg_area 4 124 1"
    "fdcm_value (area_begin (\<lambda>_. 0) cfg_area 4 124 [1, 2, 3, 4]) cfg_area 4 124 1 = [1, 2, 3, 4]"
    using area_begin(1,2)[of 124 "[1, 2, 3, 4]" 4 cfg_area "\<lambda>_. 0"] by (simp_all add: slot_at_def)
  moreover have "replicate 4 x = [x, x, x, x]" for x :: u8 by (simp add: eval_nat_numeral)
  ultimately show ?thesis
    using fdcm_torn_write[OF nor.nor_flash_axioms, of cfg_area "nor_sys (area_begin (\<lambda>_. 0) cfg_area 4 124 [1, 2, 3, 4])" 4
        124 1 "[5, 6, 7, 8]"]
    by (auto simp: nor_attributes nor_sys_def slot_at_def)
qed

theorem fdcm_read_no_slot_witness:
  "\<exists>s'. fdcm_read nor_devs True (Some cfg_area) True 4
      (nor_sys (mem_and 0x1000 (header_bytes \<lparr>id_code = FDCM_ID_CODE, bitmap_size = 1, data_size = 4\<rparr>) (\<lambda>_. 0xFF)))
    = Some (4, [0, 4, 0, 0xFF], s')"
proof -
  let ?h = "\<lparr>id_code = FDCM_ID_CODE, bitmap_size = 1, data_size = 4\<rparr>"
  let ?m = "mem_and 0x1000 (header_bytes ?h) (\<lambda>_. 0xFF)"
  have x: "0xFF AND x = x" for x :: u8 using and.left_neutral[of x] by simp
  have h: "mem_bytes ?m 0x1000 8 = header_bytes ?h" by (rule nth_equalityI) (simp_all add: mem_and_def x)
  then have "fdcm_area ?m cfg_area 4 1 0" by (auto simp: fdcm_area_def slot_at_def mem_bytes_def mem_and_def)
  moreover have "header_bytes ?h = [0xA5, 0x5A, 0x5A, 0xA5, 1, 0, 4, 0]" by (simp add: header_bytes_def le4_def le2_def)
  ultimately show ?thesis
    using fdcm_read_no_slot[OF nor.nor_flash_axioms, of cfg_area "nor_sys ?m" 4 1]
    by (simp add: nor_attributes nor_sys_def mem_bytes_def mem_and_def x)
qed

theorem rewrite_bitmap_covers_witness:
  "rewrite_bitmap_size 4096 4 \<noteq> 0 \<and> 8 + unat (rewrite_bitmap_size 4096 4) + 4 \<le> 4096
    \<and> 4096 \<le> 8 + unat (rewrite_bitmap_size 4096 4) + 4 * (8 * unat (rewrite_bitmap_size 4096 4))"
  using rewrite_bitmap_covers[of 4 4096] by simp

end
