(* ===== verification/Image.thy ===== *)
theory Image
  imports Fdcm
begin

unbundle bit_operations_syntax

text \<open>
  The image module, \<^verbatim>\<open>src/image/image.c\<close>: an image is a chain of sections in flash, each with a
  64-byte header, a body and a tailer. The bootloader's section comes first and is shared by the
  \<open>IMAGE_SEQ_NUM\<close> images; the header of a section gives the offset of the next one. The module finds
  sections (with a table of those already seen), reads and writes them, checks their checksums, and
  keeps the configuration that says which image to run.
\<close>

section \<open>Data\<close>

abbreviation (input) IMAGE_SEQ_NUM :: u8 where "IMAGE_SEQ_NUM \<equiv> 2"
abbreviation (input) IMAGE_INVALID_ADDR :: u32 where "IMAGE_INVALID_ADDR \<equiv> 0xFFFFFFFF"
abbreviation (input) IMAGE_MAGIC_NUMBER :: u32 where "IMAGE_MAGIC_NUMBER \<equiv> 0x48495741"
abbreviation (input) IMAGE_HEADER_SIZE :: u32 where "IMAGE_HEADER_SIZE \<equiv> 64"
abbreviation (input) IMAGE_CHECK_SIZE :: u32 where "IMAGE_CHECK_SIZE \<equiv> 1024"
abbreviation (input) IMAGE_EXPAND_SIZE :: nat where "IMAGE_EXPAND_SIZE \<equiv> 5"

datatype image_state = IMAGE_STATE_UNVERIFIED | IMAGE_STATE_VERIFIED | IMAGE_STATE_UNDEFINED
datatype image_seg = IMAGE_SEG_HEADER | IMAGE_SEG_BODY | IMAGE_SEG_TAILER
datatype image_val = IMAGE_INVALID | IMAGE_VALID

record image_cfg =
  cfg_seq :: u8
  cfg_state :: image_state

record section_header =
  magic_number :: u32
  version :: u32
  header_chksum :: u16
  data_chksum :: u16
  sh_data_size :: u32
  load_addr :: u32
  entry :: u32
  body_len :: u32
  attribute :: u32
  next_addr :: u32
  sh_id :: u32
  sh_priv :: "u32 list"

text \<open>The header in memory; \<open>offsetof\<close> the fields that are read alone.\<close>

definition section_of :: "u8 list \<Rightarrow> section_header" where
  "section_of bs =
     \<lparr>magic_number = of_le4 bs, version = of_le4 (drop 4 bs), header_chksum = of_le2 (drop 8 bs),
      data_chksum = of_le2 (drop 10 bs), sh_data_size = of_le4 (drop 12 bs), load_addr = of_le4 (drop 16 bs),
      entry = of_le4 (drop 20 bs), body_len = of_le4 (drop 24 bs), attribute = of_le4 (drop 28 bs),
      next_addr = of_le4 (drop 32 bs), sh_id = of_le4 (drop 36 bs),
      sh_priv = map (\<lambda>i. of_le4 (drop (40 + 4 * i) bs)) [0..<6]\<rparr>"

abbreviation (input) off_version :: u32 where "off_version \<equiv> 4"
abbreviation (input) off_body_len :: u32 where "off_body_len \<equiv> 24"
abbreviation (input) off_next_addr :: u32 where "off_next_addr \<equiv> 32"

text \<open>\<open>ota_size\<close> is a bit field of 24 bits.\<close>

record image_ota_param =
  ota_flash :: u8
  ota_size :: u32
  ota_addr :: u32
  img_max_size :: u32
  bl_size :: u32
  running_seq :: u8
  iop_flash :: "u8 list"
  iop_addr :: "u32 list"

text \<open>
  The table of the sections seen, one for each image: the number of entries and the allocated array,
  whose cells have no value before they are written.
\<close>

record sec_addr_t =
  sa_id :: u32
  sa_addr :: u32

type_synonym sec_table = "sec_addr_t option list"

record image_priv =
  iop :: image_ota_param
  sec_num :: "u8 list"
  sec_addr :: "sec_table option list"

definition IMG_BL_FLASH :: "image_ota_param \<Rightarrow> u32" where
  "IMG_BL_FLASH p = ucast (iop_flash p ! 0)"

definition IMG_BL_ADDR :: "image_ota_param \<Rightarrow> u32" where
  "IMG_BL_ADDR p = iop_addr p ! 0 - bl_size p"

definition IMG_FLASH :: "image_ota_param \<Rightarrow> u8 \<Rightarrow> u32" where
  "IMG_FLASH p seq = ucast (iop_flash p ! unat seq)"

definition IMG_SEC_ADDR :: "image_ota_param \<Rightarrow> u8 \<Rightarrow> u32 \<Rightarrow> u32" where
  "IMG_SEC_ADDR p seq off = iop_addr p ! unat seq + off - bl_size p"

definition image_clear_sec_addr :: "image_priv \<Rightarrow> image_priv" where
  "image_clear_sec_addr img = img\<lparr>sec_num := replicate 2 0, sec_addr := replicate 2 None\<rparr>"

definition image_deinit :: "image_priv \<Rightarrow> image_priv" where
  "image_deinit img =
     \<lparr>iop = \<lparr>ota_flash = 0, ota_size = 0, ota_addr = 0, img_max_size = 0, bl_size = 0, running_seq = 0,
             iop_flash = replicate 2 0, iop_addr = replicate 2 0\<rparr>,
      sec_num = replicate 2 0, sec_addr = replicate 2 None\<rparr>"

definition image_set_running_seq :: "u8 \<Rightarrow> image_priv \<Rightarrow> image_priv" where
  "image_set_running_seq seq img = img\<lparr>iop := (iop img)\<lparr>running_seq := seq\<rparr>\<rparr>"

definition image_get_running_seq :: "image_priv \<Rightarrow> u8" where
  "image_get_running_seq img = running_seq (iop img)"

section \<open>Finding a section\<close>

text \<open>\<open>alloc n\<close> says whether an allocation of \<open>n\<close> bytes succeeds.\<close>

definition image_expand_addr :: "(nat \<Rightarrow> bool) \<Rightarrow> image_priv \<Rightarrow> u8 \<Rightarrow> (int \<times> image_priv) option" where
  "image_expand_addr alloc img seq = do {
     num \<leftarrow> rd (sec_num img) (unat seq);
     old \<leftarrow> rd (sec_addr img) (unat seq);
     if \<not> alloc ((unat num + IMAGE_EXPAND_SIZE) * 8) then Some (- 1, img)
     else do {
       cells \<leftarrow> (case old of
                   Some cells \<Rightarrow> if unat num \<le> length cells
                                 then Some (take (unat num) cells @ replicate IMAGE_EXPAND_SIZE None) else None
                 | None \<Rightarrow> Some (replicate (unat num + IMAGE_EXPAND_SIZE) None));
       Some (0, img\<lparr>sec_addr := (sec_addr img)[unat seq := Some cells]\<rparr>)
     }
   }"

text \<open>The search in the table; \<open>None\<close> when a cell without a value is read.\<close>

fun sec_find :: "u32 \<Rightarrow> sec_table \<Rightarrow> u32 option option" where
  "sec_find i [] = Some None"
| "sec_find i (None # cells) = None"
| "sec_find i (Some c # cells) = (if i = sa_id c then Some (Some (sa_addr c)) else sec_find i cells)"

definition sec_cells :: "image_priv \<Rightarrow> u8 \<Rightarrow> sec_table option" where
  "sec_cells img seq = do {
     num \<leftarrow> rd (sec_num img) (unat seq);
     tbl \<leftarrow> rd (sec_addr img) (unat seq);
     if num = 0 then Some []
     else do {
       cells \<leftarrow> tbl;
       if unat num \<le> length cells then Some (take (unat num) cells) else None
     }
   }"

text \<open>Writing the next entry and counting it; the count is a byte.\<close>

definition sec_put :: "image_priv \<Rightarrow> u8 \<Rightarrow> sec_addr_t \<Rightarrow> image_priv option" where
  "sec_put img seq c = do {
     num \<leftarrow> rd (sec_num img) (unat seq);
     tbl \<leftarrow> rd (sec_addr img) (unat seq);
     cells \<leftarrow> tbl;
     if unat num < length cells
     then Some (img\<lparr>sec_addr := (sec_addr img)[unat seq := Some (cells[unat num := Some c])],
                    sec_num := (sec_num img)[unat seq := num + 1]\<rparr>)
     else None
   }"

partial_function (option) sec_walk ::
  "'e flash_devs \<Rightarrow> (nat \<Rightarrow> bool) \<Rightarrow> u8 \<Rightarrow> u32 \<Rightarrow> image_priv \<Rightarrow> u32 \<Rightarrow> u32 \<Rightarrow> u32 \<Rightarrow> 'e flash_sys
   \<Rightarrow> (u32 \<times> image_priv \<times> 'e flash_sys) option" where
  "sec_walk devs alloc seq i img flash addr next s =
     (if next = IMAGE_INVALID_ADDR then Some (IMAGE_INVALID_ADDR, img, s)
      else do {
        num \<leftarrow> rd (sec_num img) (unat seq);
        (rc, img) \<leftarrow> (if unat num mod IMAGE_EXPAND_SIZE = 0 then image_expand_addr alloc img seq else Some (0, img));
        if rc \<noteq> 0 then Some (IMAGE_INVALID_ADDR, img, s)
        else do {
          (r, part, s) \<leftarrow> flash_read devs flash (addr + off_next_addr) 8 s;
          if r \<noteq> 8 then Some (IMAGE_INVALID_ADDR, img, s)
          else do {
            img \<leftarrow> sec_put img seq \<lparr>sa_id = of_le4 (drop 4 part), sa_addr = addr\<rparr>;
            if i = of_le4 (drop 4 part) then Some (addr, img, s)
            else sec_walk devs alloc seq i img (IMG_FLASH (iop img) seq) (IMG_SEC_ADDR (iop img) seq (of_le4 part))
                   (of_le4 part) s
          }
        }
      })"

definition image_get_addr ::
  "'e flash_devs \<Rightarrow> (nat \<Rightarrow> bool) \<Rightarrow> u8 \<Rightarrow> u32 \<Rightarrow> image_priv \<Rightarrow> 'e flash_sys
   \<Rightarrow> (u32 \<times> image_priv \<times> 'e flash_sys) option" where
  "image_get_addr devs alloc seq i img s =
     (if seq \<ge> IMAGE_SEQ_NUM then Some (IMAGE_INVALID_ADDR, img, s)
      else do {
        cells \<leftarrow> sec_cells img seq;
        found \<leftarrow> sec_find i cells;
        case found of
          Some addr \<Rightarrow> Some (addr, img, s)
        | None \<Rightarrow>
            (if cells = []
             then sec_walk devs alloc seq i img (IMG_BL_FLASH (iop img)) (IMG_BL_ADDR (iop img)) (IMG_BL_ADDR (iop img)) s
             else do {
               c \<leftarrow> last cells;
               (r, bs, s) \<leftarrow> flash_read devs (IMG_FLASH (iop img) seq) (sa_addr c + off_next_addr) 4 s;
               if r \<noteq> 4 then Some (IMAGE_INVALID_ADDR, img, s)
               else sec_walk devs alloc seq i img (IMG_FLASH (iop img) seq) (IMG_SEC_ADDR (iop img) seq (of_le4 bs))
                      (of_le4 bs) s
             })
      })"

section \<open>Reading and writing\<close>

definition image_get_section_addr ::
  "'e flash_devs \<Rightarrow> (nat \<Rightarrow> bool) \<Rightarrow> u32 \<Rightarrow> image_priv \<Rightarrow> 'e flash_sys \<Rightarrow> (u32 \<times> image_priv \<times> 'e flash_sys) option" where
  "image_get_section_addr devs alloc i img s = image_get_addr devs alloc (running_seq (iop img)) i img s"

text \<open>
  The address \<open>image_rw\<close> works on, \<open>None\<close> in its result when there is none; \<open>do_write\<close> clears the
  table when a header is written.
\<close>

definition image_rw_addr ::
  "'e flash_devs \<Rightarrow> (nat \<Rightarrow> bool) \<Rightarrow> u32 \<Rightarrow> image_seg \<Rightarrow> bool \<Rightarrow> image_priv \<Rightarrow> 'e flash_sys
   \<Rightarrow> (u32 option \<times> image_priv \<times> 'e flash_sys) option" where
  "image_rw_addr devs alloc i seg do_write img s = do {
     let seq = running_seq (iop img);
     (addr, img, s) \<leftarrow> image_get_addr devs alloc seq i img s;
     if addr = IMAGE_INVALID_ADDR then Some (None, img, s)
     else (case seg of
         IMAGE_SEG_HEADER \<Rightarrow> Some (Some addr, if do_write then image_clear_sec_addr img else img, s)
       | IMAGE_SEG_BODY \<Rightarrow> Some (Some (addr + IMAGE_HEADER_SIZE), img, s)
       | IMAGE_SEG_TAILER \<Rightarrow> do {
           (r, bs, s) \<leftarrow> flash_read devs (IMG_FLASH (iop img) seq) (addr + off_body_len) 4 s;
           Some (if r \<noteq> 4 then None else Some (addr + (IMAGE_HEADER_SIZE + of_le4 bs)), img, s)
         })
   }"

definition image_read ::
  "'e flash_devs \<Rightarrow> (nat \<Rightarrow> bool) \<Rightarrow> u32 \<Rightarrow> image_seg \<Rightarrow> u32 \<Rightarrow> bool \<Rightarrow> u32 \<Rightarrow> image_priv \<Rightarrow> 'e flash_sys
   \<Rightarrow> (u32 \<times> u8 list \<times> image_priv \<times> 'e flash_sys) option" where
  "image_read devs alloc i seg offset buf_ok n img s =
     (if \<not> buf_ok then Some (0, [], img, s)
      else do {
        let seq = running_seq (iop img);
        (addr, img, s) \<leftarrow> image_rw_addr devs alloc i seg False img s;
        case addr of
          None \<Rightarrow> Some (0, [], img, s)
        | Some addr \<Rightarrow> do {
            (r, bs, s) \<leftarrow> flash_read devs (IMG_FLASH (iop img) seq) (addr + offset) n s;
            Some (r, bs, img, s)
          }
      })"

definition image_write ::
  "'e flash_devs \<Rightarrow> (nat \<Rightarrow> bool) \<Rightarrow> u32 \<Rightarrow> image_seg \<Rightarrow> u32 \<Rightarrow> u8 list option \<Rightarrow> u32 \<Rightarrow> image_priv \<Rightarrow> 'e flash_sys
   \<Rightarrow> (u32 \<times> image_priv \<times> 'e flash_sys) option" where
  "image_write devs alloc i seg offset buf n img s =
     (case buf of
        None \<Rightarrow> Some (0, img, s)
      | Some data \<Rightarrow> do {
          let seq = running_seq (iop img);
          (addr, img, s) \<leftarrow> image_rw_addr devs alloc i seg True img s;
          case addr of
            None \<Rightarrow> Some (0, img, s)
          | Some addr \<Rightarrow> do {
              (r, s) \<leftarrow> flash_write devs (IMG_FLASH (iop img) seq) (addr + offset) data n s;
              Some (r, img, s)
            }
        })"

section \<open>Checksums\<close>

text \<open>\<open>image_checksum16\<close> of the bytes of a buffer; a last odd byte counts for itself.\<close>

fun checksum_loop :: "u16 \<Rightarrow> u8 list \<Rightarrow> u16" where
  "checksum_loop cs [] = cs"
| "checksum_loop cs [b] = cs + ucast b"
| "checksum_loop cs (a # b # bs) = checksum_loop (cs + of_le2 [a, b]) bs"

definition image_checksum16 :: "u8 list \<Rightarrow> u16" where
  "image_checksum16 data = checksum_loop 0 data"

definition image_get_checksum :: "u8 list option \<Rightarrow> u32 \<Rightarrow> u16" where
  "image_get_checksum buf n = (case buf of None \<Rightarrow> 0 | Some data \<Rightarrow> image_checksum16 (take (unat n) data))"

text \<open>The header as the 64 bytes it is.\<close>

definition image_check_header :: "u8 list option \<Rightarrow> image_val" where
  "image_check_header sh =
     (case sh of
        None \<Rightarrow> IMAGE_INVALID
      | Some bs \<Rightarrow>
          if magic_number (section_of bs) \<noteq> IMAGE_MAGIC_NUMBER then IMAGE_INVALID
          else if image_get_checksum sh IMAGE_HEADER_SIZE \<noteq> 0xFFFF then IMAGE_INVALID
          else IMAGE_VALID)"

definition image_check_data :: "section_header option \<Rightarrow> u8 list option \<Rightarrow> u32 \<Rightarrow> u8 list option \<Rightarrow> u32 \<Rightarrow> image_val" where
  "image_check_data sh body blen tailer tlen =
     (case (sh, body) of
        (Some sh, Some body) \<Rightarrow>
          (if blen = 0 \<or> tailer = None \<and> tlen \<noteq> 0 then IMAGE_INVALID
           else let data_checksum =
             (if tlen = 0 then data_chksum sh + image_checksum16 (take (unat blen) body)
              else if blen AND 1 = 0
              then data_chksum sh + image_checksum16 (take (unat blen) body)
                     + image_checksum16 (take (unat tlen) (the tailer))
              else let joint = [body ! (unat blen - 1), the tailer ! 0]
                   in data_chksum sh + image_checksum16 (take (unat (blen - 1)) body) + image_checksum16 joint
                        + image_checksum16 (take (unat (tlen - 1)) (drop 1 (the tailer))))
           in if data_checksum \<noteq> 0xFFFF then IMAGE_INVALID else IMAGE_VALID)
      | _ \<Rightarrow> IMAGE_INVALID)"

text \<open>The loop of \<open>_image_check_section\<close>: \<open>None\<close> in its result when a read fails.\<close>

partial_function (option) check_loop ::
  "'e flash_devs \<Rightarrow> u32 \<Rightarrow> u32 \<Rightarrow> u32 \<Rightarrow> u32 \<Rightarrow> u16 \<Rightarrow> 'e flash_sys \<Rightarrow> (u16 option \<times> 'e flash_sys) option" where
  "check_loop devs flash buf_len addr left chksum s =
     (if left = 0 then Some (Some chksum, s)
      else do {
        let n = (if left \<ge> buf_len then buf_len else left);
        (r, buf, s) \<leftarrow> flash_read devs flash addr n s;
        if r \<noteq> n then Some (None, s)
        else check_loop devs flash buf_len (addr + n) (left - n) (chksum + image_checksum16 buf) s
      })"

text \<open>The result and the offset of the next section, when the section is valid.\<close>

definition check_section ::
  "'e flash_devs \<Rightarrow> u32 \<Rightarrow> u32 \<Rightarrow> u32 \<Rightarrow> 'e flash_sys \<Rightarrow> (image_val \<times> u32 \<times> 'e flash_sys) option" where
  "check_section devs flash addr buf_len s = do {
     (r, buf, s) \<leftarrow> flash_read devs flash addr IMAGE_HEADER_SIZE s;
     if r \<noteq> IMAGE_HEADER_SIZE \<or> image_check_header (Some buf) = IMAGE_INVALID then Some (IMAGE_INVALID, 0, s)
     else do {
       let sh = section_of buf;
       (chksum, s) \<leftarrow> check_loop devs flash buf_len (addr + IMAGE_HEADER_SIZE) (sh_data_size sh) (data_chksum sh) s;
       Some (if chksum = Some 0xFFFF then (IMAGE_VALID, next_addr sh, s) else (IMAGE_INVALID, 0, s))
     }
   }"

definition image_check_section ::
  "'e flash_devs \<Rightarrow> (nat \<Rightarrow> bool) \<Rightarrow> u8 \<Rightarrow> u32 \<Rightarrow> image_priv \<Rightarrow> 'e flash_sys
   \<Rightarrow> (image_val \<times> image_priv \<times> 'e flash_sys) option" where
  "image_check_section devs alloc seq i img s = do {
     (addr, img, s) \<leftarrow> image_get_addr devs alloc seq i img s;
     if addr = IMAGE_INVALID_ADDR \<or> \<not> alloc (unat IMAGE_CHECK_SIZE) then Some (IMAGE_INVALID, img, s)
     else do {
       (ret, _, s) \<leftarrow> check_section devs (IMG_FLASH (iop img) seq) addr IMAGE_CHECK_SIZE s;
       Some (ret, img, s)
     }
   }"

partial_function (option) check_sections_loop ::
  "'e flash_devs \<Rightarrow> image_ota_param \<Rightarrow> u8 \<Rightarrow> u32 \<Rightarrow> u32 \<Rightarrow> 'e flash_sys \<Rightarrow> (image_val \<times> 'e flash_sys) option" where
  "check_sections_loop devs p seq flash addr s = do {
     (ret, next, s) \<leftarrow> check_section devs flash addr IMAGE_CHECK_SIZE s;
     if ret = IMAGE_INVALID then Some (IMAGE_INVALID, s)
     else if next = IMAGE_INVALID_ADDR then Some (IMAGE_VALID, s)
     else do {
       fl \<leftarrow> rd (iop_flash p) (unat seq);
       a \<leftarrow> rd (iop_addr p) (unat seq);
       check_sections_loop devs p seq (ucast fl) (a + next - bl_size p) s
     }
   }"

definition image_check_sections ::
  "'e flash_devs \<Rightarrow> (nat \<Rightarrow> bool) \<Rightarrow> u8 \<Rightarrow> image_priv \<Rightarrow> 'e flash_sys \<Rightarrow> (image_val \<times> 'e flash_sys) option" where
  "image_check_sections devs alloc seq img s =
     (if \<not> alloc (unat IMAGE_CHECK_SIZE) then Some (IMAGE_INVALID, s)
      else check_sections_loop devs (iop img) seq (IMG_BL_FLASH (iop img)) (IMG_BL_ADDR (iop img)) s)"

partial_function (option) get_size_loop ::
  "'e flash_devs \<Rightarrow> image_ota_param \<Rightarrow> u8 \<Rightarrow> u32 \<Rightarrow> u32 \<Rightarrow> 'e flash_sys \<Rightarrow> (u32 \<times> 'e flash_sys) option" where
  "get_size_loop devs p seq flash addr s = do {
     (r, buf, s) \<leftarrow> flash_read devs flash addr IMAGE_HEADER_SIZE s;
     if r \<noteq> IMAGE_HEADER_SIZE \<or> image_check_header (Some buf) = IMAGE_INVALID then Some (0, s)
     else let sh = section_of buf
          in if next_addr sh = IMAGE_INVALID_ADDR
             then Some (addr + IMAGE_HEADER_SIZE + sh_data_size sh - iop_addr p ! unat seq + bl_size p, s)
             else get_size_loop devs p seq (IMG_FLASH p seq) (IMG_SEC_ADDR p seq (next_addr sh)) s
   }"

definition image_get_size :: "'e flash_devs \<Rightarrow> image_priv \<Rightarrow> 'e flash_sys \<Rightarrow> (u32 \<times> 'e flash_sys) option" where
  "image_get_size devs img s =
     (let seq = running_seq (iop img)
      in if seq \<ge> IMAGE_SEQ_NUM then Some (0, s)
         else get_size_loop devs (iop img) seq (IMG_BL_FLASH (iop img)) (IMG_BL_ADDR (iop img)) s)"

section \<open>Configuration\<close>

abbreviation (input) IMAGE_WRITE_RAW_CFG_TRY_CNT :: nat where "IMAGE_WRITE_RAW_CFG_TRY_CNT \<equiv> 2"
abbreviation (input) IMAGE_RAW_STATE_UNVERIFIED :: u16 where "IMAGE_RAW_STATE_UNVERIFIED \<equiv> 0x6996"
abbreviation (input) IMAGE_RAW_STATE_VERIFIED :: u16 where "IMAGE_RAW_STATE_VERIFIED \<equiv> 0x9669"

definition s_image_raw_seq :: "u16 list" where
  "s_image_raw_seq = [0x5555, 0xAAAA]"

record image_raw_cfg =
  raw_seq :: u16
  raw_state :: u16

definition raw_bytes :: "image_raw_cfg \<Rightarrow> u8 list" where
  "raw_bytes c = le2 (raw_seq c) @ le2 (raw_state c)"

definition raw_of :: "u8 list \<Rightarrow> image_raw_cfg" where
  "raw_of bs = \<lparr>raw_seq = of_le2 bs, raw_state = of_le2 (drop 2 bs)\<rparr>"

definition image_get_raw_cfg ::
  "'e flash_devs \<Rightarrow> bool \<Rightarrow> image_ota_param \<Rightarrow> 'e flash_sys \<Rightarrow> (image_raw_cfg option \<times> 'e flash_sys) option" where
  "image_get_raw_cfg devs alloc p s = do {
     hdl \<leftarrow> fdcm_open devs alloc (ucast (ota_flash p)) (ota_addr p) (ota_size p);
     if hdl = None then Some (None, s)
     else do {
       (r, bs, s) \<leftarrow> fdcm_read devs alloc hdl True 4 s;
       Some (if r = 4 then Some (raw_of bs) else None, s)
     }
   }"

primrec set_raw_cfg_loop ::
  "nat \<Rightarrow> 'e flash_devs \<Rightarrow> bool \<Rightarrow> fdcm_handle option \<Rightarrow> image_raw_cfg \<Rightarrow> 'e flash_sys \<Rightarrow> (int \<times> 'e flash_sys) option" where
  "set_raw_cfg_loop 0 devs alloc hdl c s = Some (- 1, s)"
| "set_raw_cfg_loop (Suc i) devs alloc hdl c s = do {
     (w, s) \<leftarrow> fdcm_write devs alloc hdl (Some (raw_bytes c)) 4 s;
     if w \<noteq> 4 then Some (- 1, s)
     else do {
       (r, bs, s) \<leftarrow> fdcm_read devs alloc hdl True 4 s;
       if r \<noteq> 4 then Some (- 1, s)
       else if bs = raw_bytes c then Some (0, s) else set_raw_cfg_loop i devs alloc hdl c s
     }
   }"

definition image_set_raw_cfg ::
  "'e flash_devs \<Rightarrow> bool \<Rightarrow> image_ota_param \<Rightarrow> image_raw_cfg \<Rightarrow> 'e flash_sys \<Rightarrow> (int \<times> 'e flash_sys) option" where
  "image_set_raw_cfg devs alloc p c s = do {
     hdl \<leftarrow> fdcm_open devs alloc (ucast (ota_flash p)) (ota_addr p) (ota_size p);
     if hdl = None then Some (- 1, s)
     else set_raw_cfg_loop IMAGE_WRITE_RAW_CFG_TRY_CNT devs alloc hdl c s
   }"

text \<open>\<open>image_get_cfg\<close> gives the configuration when it returns 0.\<close>

fun find_seq :: "u16 \<Rightarrow> u16 list \<Rightarrow> u8 \<Rightarrow> u8 option" where
  "find_seq r [] seq = None"
| "find_seq r (x # xs) seq = (if r = x then Some seq else find_seq r xs (seq + 1))"

definition image_get_cfg ::
  "'e flash_devs \<Rightarrow> bool \<Rightarrow> bool \<Rightarrow> image_ota_param \<Rightarrow> 'e flash_sys \<Rightarrow> (image_cfg option \<times> 'e flash_sys) option" where
  "image_get_cfg devs alloc cfg_ok p s =
     (if \<not> cfg_ok \<or> ota_size p = 0 \<or> ota_addr p = IMAGE_INVALID_ADDR then Some (None, s)
      else do {
        (raw, s) \<leftarrow> image_get_raw_cfg devs alloc p s;
        Some (case raw of
            None \<Rightarrow> None
          | Some raw \<Rightarrow> map_option (\<lambda>seq. \<lparr>cfg_seq = seq,
              cfg_state = (if raw_state raw = IMAGE_RAW_STATE_VERIFIED then IMAGE_STATE_VERIFIED
                           else if raw_state raw = IMAGE_RAW_STATE_UNVERIFIED then IMAGE_STATE_UNVERIFIED
                           else IMAGE_STATE_UNDEFINED)\<rparr>) (find_seq (raw_seq raw) s_image_raw_seq 0), s)
      })"

definition image_set_cfg ::
  "'e flash_devs \<Rightarrow> bool \<Rightarrow> image_cfg option \<Rightarrow> image_ota_param \<Rightarrow> 'e flash_sys \<Rightarrow> (int \<times> 'e flash_sys) option" where
  "image_set_cfg devs alloc cfg p s =
     (case cfg of
        None \<Rightarrow> Some (- 1, s)
      | Some cfg \<Rightarrow>
          if ota_size p = 0 \<or> ota_addr p = IMAGE_INVALID_ADDR then Some (- 1, s)
          else if cfg_seq cfg \<ge> IMAGE_SEQ_NUM \<or> cfg_state cfg \<noteq> IMAGE_STATE_VERIFIED then Some (- 1, s)
          else do {
            (rc, s) \<leftarrow> image_set_raw_cfg devs alloc p
              \<lparr>raw_seq = s_image_raw_seq ! unat (cfg_seq cfg), raw_state = IMAGE_RAW_STATE_VERIFIED\<rparr> s;
            Some (if rc \<noteq> 0 then - 1 else 0, s)
          })"

section \<open>Initialisation\<close>

abbreviation (input) IMAGE_INVALID_BL_VER :: u32 where "IMAGE_INVALID_BL_VER \<equiv> 0"

definition image_get_bl_ver :: "'e flash_devs \<Rightarrow> image_ota_param \<Rightarrow> 'e flash_sys \<Rightarrow> (u32 \<times> 'e flash_sys) option" where
  "image_get_bl_ver devs p s = do {
     (r, bs, s) \<leftarrow> flash_read devs (IMG_BL_FLASH p) (IMG_BL_ADDR p + off_version) 4 s;
     Some (if r \<noteq> 4 then IMAGE_INVALID_BL_VER else of_le4 bs, s)
   }"

text \<open>\<open>bl_compat\<close> is the build option \<open>IMAGE_OPT_BL_COMPATIBILITY\<close>.\<close>

definition image_init_running_seq ::
  "bool \<Rightarrow> 'e flash_devs \<Rightarrow> bool \<Rightarrow> image_ota_param \<Rightarrow> 'e flash_sys \<Rightarrow> (u8 \<times> 'e flash_sys) option" where
  "image_init_running_seq bl_compat devs alloc p s =
     (if ota_addr p = IMAGE_INVALID_ADDR then Some (0, s)
      else do {
        (cfg, s) \<leftarrow> image_get_cfg devs alloc True p s;
        case cfg of
          None \<Rightarrow> Some (0, s)
        | Some cfg \<Rightarrow>
            if \<not> bl_compat then Some (if cfg_state cfg = IMAGE_STATE_VERIFIED then cfg_seq cfg else 0, s)
            else do {
              (bl_ver, s) \<leftarrow> image_get_bl_ver devs p s;
              Some (if bl_ver = IMAGE_INVALID_BL_VER then 0
                    else if bl_ver < 3 \<and> cfg_seq cfg > 1 then 0
                    else if bl_ver < 2 then cfg_seq cfg
                    else if bl_ver = 2
                    then (if cfg_state cfg = IMAGE_STATE_VERIFIED then cfg_seq cfg else (cfg_seq cfg + 1) mod 2)
                    else if cfg_state cfg = IMAGE_STATE_VERIFIED then cfg_seq cfg else 0, s)
            }
      })"

definition BLSH_OTA_FLASH :: "section_header \<Rightarrow> u32" where
  "BLSH_OTA_FLASH sh = sh_priv sh ! 0 AND 0xFF"

definition BLSH_OTA_SIZE :: "section_header \<Rightarrow> u32" where
  "BLSH_OTA_SIZE sh = drop_bit 8 (sh_priv sh ! 0) AND 0xFFFFFF"

definition BLSH_OTA_ADDR :: "section_header \<Rightarrow> u32" where
  "BLSH_OTA_ADDR sh = sh_priv sh ! 1"

text \<open>The parameters that \<open>image_init\<close> derives from the bootloader's header.\<close>

definition init_params :: "section_header \<Rightarrow> u32 \<Rightarrow> u32 \<Rightarrow> u32 \<Rightarrow> image_ota_param" where
  "init_params sh flash addr max_size =
     (let bl = next_addr sh;
          img_max = max_size - bl;
          old = version sh < 2;
          oflash = (if old \<or> BLSH_OTA_FLASH sh = 0xFF then ucast flash else ucast (BLSH_OTA_FLASH sh)) :: u8;
          osize = take_bit 24 (if old \<or> BLSH_OTA_SIZE sh = 0xFFFFFF then bl else BLSH_OTA_SIZE sh);
          oaddr = (if old then push_bit 20 1 else BLSH_OTA_ADDR sh)
      in \<lparr>ota_flash = oflash, ota_size = osize, ota_addr = oaddr, img_max_size = img_max, bl_size = bl,
          running_seq = 0, iop_flash = [ucast flash, oflash], iop_addr = [addr + bl, oaddr + osize]\<rparr>)"

text \<open>\<open>bootloader\<close> is the build option \<open>__CONFIG_BOOTLOADER\<close>.\<close>

definition image_init ::
  "bool \<Rightarrow> bool \<Rightarrow> 'e flash_devs \<Rightarrow> bool \<Rightarrow> u32 \<Rightarrow> u32 \<Rightarrow> u32 \<Rightarrow> image_priv \<Rightarrow> 'e flash_sys
   \<Rightarrow> (int \<times> image_priv \<times> 'e flash_sys) option" where
  "image_init bootloader bl_compat devs alloc flash addr max_size img s = do {
     (r, buf, s) \<leftarrow> flash_read devs flash addr IMAGE_HEADER_SIZE s;
     if r \<noteq> IMAGE_HEADER_SIZE then Some (- 1, img, s)
     else do {
       let p = init_params (section_of buf) flash addr max_size;
       let img = image_clear_sec_addr (img\<lparr>iop := p\<lparr>running_seq := running_seq (iop img)\<rparr>\<rparr>);
       (seq, s) \<leftarrow> (if bootloader then Some (IMAGE_SEQ_NUM, s) else image_init_running_seq bl_compat devs alloc (iop img) s);
       Some (0, image_set_running_seq seq img, s)
     }
   }"

section \<open>Checksums of parts\<close>

lemma checksum_loop_add: "checksum_loop cs bs = cs + image_checksum16 bs"
proof -
  have "checksum_loop (c + d) bs = c + checksum_loop d bs" for c d
    by (induction d bs rule: checksum_loop.induct) (simp_all add: add.assoc)
  from this[of cs 0] show ?thesis by (simp add: image_checksum16_def)
qed

lemma checksum_Nil [simp]: "image_checksum16 [] = 0"
  by (simp add: image_checksum16_def)

lemma checksum_Cons2: "image_checksum16 (a # b # bs) = of_le2 [a, b] + image_checksum16 bs"
  by (simp only: image_checksum16_def[of "a # b # bs"] checksum_loop.simps) (simp only: checksum_loop_add add_0)

lemma checksum_single: "image_checksum16 [b] = ucast b"
  by (simp add: image_checksum16_def)

lemma checksum_append: "even (length xs) \<Longrightarrow> image_checksum16 (xs @ ys) = image_checksum16 xs + image_checksum16 ys"
proof (induction xs rule: induct_list012)
  case (3 a b bs)
  then show ?case by (simp add: checksum_Cons2 add.assoc)
qed simp_all

text \<open>The checksum of a section's data does not depend on how it is cut into body and tailer:
  \<open>image_check_data\<close> accepts exactly when the checksum field and the checksum of the body followed by the
  tailer add up to 0xFFFF, also when the body has an odd length and the halfword across the border is
  joined from one byte of each.\<close>

theorem image_check_data_joined:
  assumes "length body = unat blen" "blen \<noteq> 0" "length tailer = unat tlen"
  shows "image_check_data (Some sh) (Some body) blen (Some tailer) tlen =
    (if data_chksum sh + image_checksum16 (body @ tailer) = 0xFFFF then IMAGE_VALID else IMAGE_INVALID)"
proof -
  have "bit (unat blen) 0 = bit blen 0" by (simp add: bit_unsigned_iff)
  then have par: "(blen AND 1 = 0) = even (unat blen)" by (simp add: bit_0 and_one_eq mod_2_eq_odd)
  have "image_checksum16 (body @ tailer) = image_checksum16 (take (unat (blen - 1)) body) + image_checksum16 [body ! (unat blen - 1), tailer ! 0]
      + image_checksum16 (take (unat (tlen - 1)) (drop 1 tailer))" if odd: "odd (unat blen)" and t: "tlen \<noteq> 0"
  proof -
    have u: "unat (blen - 1) = unat blen - 1" "unat (tlen - 1) = unat tlen - 1" using assms(2) t by (simp_all add: unat_minus_one)
    obtain b bs where b: "body = bs @ [b]" "length bs = unat blen - 1" using assms(1,2)
      by (metis append_butlast_last_id length_butlast length_greater_0_conv unat_gt_0)
    obtain c cs where c: "tailer = c # cs" "length cs = unat tlen - 1" using assms(3) t
      by (metis length_Cons diff_Suc_1 list.exhaust list.size(3) unat_eq_0)
    have "even (length bs)" using odd b(2) by simp
    then have "image_checksum16 (body @ tailer) = image_checksum16 bs + image_checksum16 ([b, c] @ cs)"
      using b c by (simp add: checksum_append)
    also have "image_checksum16 ([b, c] @ cs) = image_checksum16 [b, c] + image_checksum16 cs" by (simp add: checksum_append[of "[b, c]" cs, simplified])
    finally show ?thesis using b c u by (simp add: nth_append add.assoc)
  qed
  then show ?thesis
    using assms par by (auto simp: image_check_data_def Let_def checksum_append add.assoc)
qed

theorem image_check_data_joined_witness:
  "image_check_data (Some (section_of (replicate 10 0 @ [0xFB, 0xFC] @ replicate 52 0))) (Some [1]) 1 (Some [2, 3]) 2 =
    (if data_chksum (section_of (replicate 10 0 @ [0xFB, 0xFC] @ replicate 52 0)) + image_checksum16 ([1] @ [2, 3]) = 0xFFFF
     then IMAGE_VALID else IMAGE_INVALID)"
  using image_check_data_joined[of "[1]" 1 "[2, 3]" 2] by simp

section \<open>Checking a section\<close>

lemma mem_bytes_split: "k \<le> n \<Longrightarrow> mem_bytes m a n = mem_bytes m a k @ mem_bytes m (a + k) (n - k)"
  using upt_add_eq_append[of a "a + k" "n - k"] by (simp add: mem_bytes_def flip: map_append)

text \<open>What the module means by a valid section: its header, and its data against the header.\<close>

definition section_at :: "(nat \<Rightarrow> u8) \<Rightarrow> nat \<Rightarrow> section_header" where
  "section_at m a = section_of (mem_bytes m a 64)"

definition section_valid :: "(nat \<Rightarrow> u8) \<Rightarrow> nat \<Rightarrow> bool" where
  "section_valid m a \<longleftrightarrow> image_check_header (Some (mem_bytes m a 64)) = IMAGE_VALID
     \<and> data_chksum (section_at m a)
         + image_checksum16 (mem_bytes m (a + 64) (unat (sh_data_size (section_at m a)))) = 0xFFFF"

definition section_fits :: "(nat \<Rightarrow> u8) \<Rightarrow> nat \<Rightarrow> nat \<Rightarrow> bool" where
  "section_fits m n a \<longleftrightarrow> a + 64 + unat (sh_data_size (section_at m a)) \<le> n"

context nor_flash
begin

lemma check_loop_ok:
  assumes "st s m" "even (unat buf_len)" "buf_len \<noteq> 0" "unat a + unat n \<le> sz"
  shows "\<exists>s'. check_loop devs flash buf_len a n c s
    = Some (Some (c + image_checksum16 (mem_bytes m (unat a) (unat n))), s') \<and> st s' m"
  using assms(1,4)
proof (induction "unat n" arbitrary: n a c s rule: less_induct)
  case less
  show ?case
  proof (cases "n = 0")
    case True
    then show ?thesis using less.prems(1) by (subst check_loop.simps) (simp add: mem_bytes_def)
  next
    case False
    define k where "k = (if n \<ge> buf_len then buf_len else n)"
    have k: "k \<noteq> 0" "unat k \<le> unat n" "even (unat k) \<or> k = n" using False assms(2,3) by (auto simp: k_def word_le_nat_alt)
    then have u: "unat (n - k) = unat n - unat k" by (subst unat_sub) (simp_all add: word_le_nat_alt)
    have lim: "unat (a + k) = unat a + unat k"
      using less.prems(2) k(2) u32_less[of "mSize (fd_chip dev)"] by (cases "unat a + unat n < 2 ^ 32"; subst unat_plus) simp_all
    obtain s1 where s1: "flash_read devs flash a k s = Some (k, mem_bytes m (unat a) (unat k), s1)" "st s1 m"
      using flash_read_ok[OF less.prems(1), of k a] k(1,2) less.prems(2) by auto
    have "0 < unat k" using k(1) by (simp add: unat_gt_0)
    then obtain s2 where s2: "check_loop devs flash buf_len (a + k) (n - k) (c + image_checksum16 (mem_bytes m (unat a) (unat k))) s1
        = Some (Some (c + image_checksum16 (mem_bytes m (unat a) (unat k))
            + image_checksum16 (mem_bytes m (unat (a + k)) (unat (n - k)))), s2)" "st s2 m"
      using less.hyps[of "n - k" s1 "a + k"] u lim k(2) s1(2) less.prems(2) by fastforce
    have "image_checksum16 (mem_bytes m (unat a) (unat n))
        = image_checksum16 (mem_bytes m (unat a) (unat k)) + image_checksum16 (mem_bytes m (unat (a + k)) (unat (n - k)))"
    proof (cases "even (unat k)")
      case True
      then show ?thesis using mem_bytes_split[OF k(2), of m "unat a"] by (simp add: lim u checksum_append)
    next
      case False
      then show ?thesis using k(3) by (simp add: mem_bytes_def)
    qed
    then show ?thesis
      using s1 s2 False by (subst check_loop.simps) (simp add: k_def[symmetric] Let_def add.assoc)
  qed
qed

text \<open>The address of a section, as a machine word.\<close>

lemma check_section_ok:
  assumes "st s m" "section_fits m sz (unat a)" "even (unat buf_len)" "buf_len \<noteq> 0"
  shows "\<exists>s'. check_section devs flash a buf_len s = Some (if section_valid m (unat a)
      then (IMAGE_VALID, next_addr (section_at m (unat a)), s') else (IMAGE_INVALID, 0, s')) \<and> st s' m"
proof -
  have lim: "unat a + 64 + unat (sh_data_size (section_at m (unat a))) \<le> sz" using assms(2) by (simp add: section_fits_def)
  obtain s1 where s1: "flash_read devs flash a 64 s = Some (64, mem_bytes m (unat a) 64, s1)" "st s1 m"
    using flash_read_ok[OF assms(1), of 64 a] lim by auto
  have "unat (a + 64) = unat a + 64" using lim u32_less[of "mSize (fd_chip dev)"] by (subst unat_plus) simp_all
  then obtain s2 where s2: "check_loop devs flash buf_len (a + 64) (sh_data_size (section_at m (unat a))) (data_chksum (section_at m (unat a))) s1
      = Some (Some (data_chksum (section_at m (unat a)) + image_checksum16 (mem_bytes m (unat a + 64) (unat (sh_data_size (section_at m (unat a)))))), s2)"
      "st s2 m"
    using check_loop_ok[OF s1(2) assms(3,4), of "a + 64"] lim by metis
  have hv: "image_check_header (Some (mem_bytes m (unat a) 64)) = IMAGE_INVALID \<longleftrightarrow> image_check_header (Some (mem_bytes m (unat a) 64)) \<noteq> IMAGE_VALID"
    by (cases "image_check_header (Some (mem_bytes m (unat a) 64))") simp_all
  show ?thesis
    using s1(2) s2 by (auto simp: check_section_def s1(1) section_valid_def section_at_def hv Let_def)
qed

end

section \<open>The chain of sections\<close>

lemma drop_mem_bytes [simp]: "drop k (mem_bytes m a n) = mem_bytes m (a + k) (n - k)"
  by (rule nth_equalityI) (auto simp: add.assoc)

lemma of_le4_mem: "4 < n \<Longrightarrow> of_le4 (mem_bytes m a n) = of_le4 (mem_bytes m a 4)"
  by (simp add: of_le4_def)

lemma section_at_fields:
  "next_addr (section_at m a) = of_le4 (mem_bytes m (a + 32) 4)"
  "sh_id (section_at m a) = of_le4 (mem_bytes m (a + 36) 4)"
  "body_len (section_at m a) = of_le4 (mem_bytes m (a + 24) 4)"
  by (simp_all add: section_at_def section_of_def of_le4_mem)

text \<open>The address of section \<open>k\<close> of an image and the offset of the one after it.\<close>

primrec sec_at :: "(nat \<Rightarrow> u8) \<Rightarrow> image_ota_param \<Rightarrow> u8 \<Rightarrow> nat \<Rightarrow> u32" where
  "sec_at m p seq 0 = IMG_BL_ADDR p"
| "sec_at m p seq (Suc k) = IMG_SEC_ADDR p seq (next_addr (section_at m (unat (sec_at m p seq k))))"

definition sec_hdr :: "(nat \<Rightarrow> u8) \<Rightarrow> image_ota_param \<Rightarrow> u8 \<Rightarrow> nat \<Rightarrow> section_header" where
  "sec_hdr m p seq k = section_at m (unat (sec_at m p seq k))"

definition chain_ends :: "(nat \<Rightarrow> u8) \<Rightarrow> image_ota_param \<Rightarrow> u8 \<Rightarrow> nat \<Rightarrow> bool" where
  "chain_ends m p seq n \<longleftrightarrow> next_addr (sec_hdr m p seq n) = IMAGE_INVALID_ADDR
     \<and> (\<forall>k<n. next_addr (sec_hdr m p seq k) \<noteq> IMAGE_INVALID_ADDR)"

definition chain_fits :: "(nat \<Rightarrow> u8) \<Rightarrow> nat \<Rightarrow> image_ota_param \<Rightarrow> u8 \<Rightarrow> nat \<Rightarrow> bool" where
  "chain_fits m N p seq n \<longleftrightarrow> (\<forall>k\<le>n. section_fits m N (unat (sec_at m p seq k)))"

definition chain_valid :: "(nat \<Rightarrow> u8) \<Rightarrow> image_ota_param \<Rightarrow> u8 \<Rightarrow> nat \<Rightarrow> bool" where
  "chain_valid m p seq n \<longleftrightarrow> (\<forall>k\<le>n. section_valid m (unat (sec_at m p seq k)))"

text \<open>Parameters for two images on one chip.\<close>

definition params_ok :: "u32 \<Rightarrow> image_ota_param \<Rightarrow> bool" where
  "params_ok flash p \<longleftrightarrow> length (iop_flash p) = 2 \<and> length (iop_addr p) = 2 \<and> (\<forall>f\<in>set (iop_flash p). ucast f = flash)"

lemma params_flash:
  assumes "params_ok flash p"
  shows "IMG_BL_FLASH p = flash" "seq < IMAGE_SEQ_NUM \<Longrightarrow> IMG_FLASH p seq = flash"
  using assms by (auto simp: params_ok_def IMG_BL_FLASH_def IMG_FLASH_def word_less_nat_alt)

lemma params_rd:
  assumes "params_ok flash p" "seq < IMAGE_SEQ_NUM"
  shows "rd (iop_flash p) (unat seq) = Some (iop_flash p ! unat seq)" "rd (iop_addr p) (unat seq) = Some (iop_addr p ! unat seq)"
    "ucast (iop_flash p ! unat seq) = flash"
  using assms by (auto simp: params_ok_def rd_def word_less_nat_alt)

context nor_flash
begin

lemma check_sections_loop_ok:
  assumes "st s m" "params_ok flash p" "seq < IMAGE_SEQ_NUM" "chain_ends m p seq (k + j)" "chain_fits m sz p seq (k + j)"
  shows "\<exists>s'. check_sections_loop devs p seq flash (sec_at m p seq k) s
    = Some (if \<forall>i. k \<le> i \<longrightarrow> i \<le> k + j \<longrightarrow> section_valid m (unat (sec_at m p seq i)) then IMAGE_VALID else IMAGE_INVALID, s') \<and> st s' m"
  using assms
proof (induction j arbitrary: k s)
  case 0
  then have "section_fits m sz (unat (sec_at m p seq k))" by (simp add: chain_fits_def)
  then obtain s1 where "check_section devs flash (sec_at m p seq k) 1024 s = Some (if section_valid m (unat (sec_at m p seq k))
      then (IMAGE_VALID, next_addr (section_at m (unat (sec_at m p seq k))), s1) else (IMAGE_INVALID, 0, s1))" "st s1 m"
    using check_section_ok[OF "0.prems"(1), of "sec_at m p seq k" 1024] by auto
  then show ?case using "0.prems"(4) by (subst check_sections_loop.simps) (auto simp: chain_ends_def sec_hdr_def)
next
  case (Suc j)
  then have "section_fits m sz (unat (sec_at m p seq k))" by (simp add: chain_fits_def)
  then obtain s1 where s1: "check_section devs flash (sec_at m p seq k) 1024 s = Some (if section_valid m (unat (sec_at m p seq k))
      then (IMAGE_VALID, next_addr (section_at m (unat (sec_at m p seq k))), s1) else (IMAGE_INVALID, 0, s1))" "st s1 m"
    using check_section_ok[OF Suc.prems(1), of "sec_at m p seq k" 1024] by auto
  obtain s2 where s2: "check_sections_loop devs p seq flash (sec_at m p seq (Suc k)) s1
      = Some (if \<forall>i. Suc k \<le> i \<longrightarrow> i \<le> Suc k + j \<longrightarrow> section_valid m (unat (sec_at m p seq i)) then IMAGE_VALID else IMAGE_INVALID, s2)" "st s2 m"
    using Suc.IH[OF s1(2) Suc.prems(2,3), of "Suc k"] Suc.prems(4,5) by auto
  have n: "next_addr (section_at m (unat (sec_at m p seq k))) \<noteq> 0xFFFFFFFF"
    using Suc.prems(4) by (simp add: chain_ends_def sec_hdr_def)
  note rds = params_rd[OF Suc.prems(2,3)]
  have a: "iop_addr p ! unat seq + next_addr (section_at m (unat (sec_at m p seq k))) - bl_size p = sec_at m p seq (Suc k)"
    by (simp add: IMG_SEC_ADDR_def)
  have all: "(\<forall>i. k \<le> i \<longrightarrow> i \<le> k + Suc j \<longrightarrow> P i) \<longleftrightarrow> P k \<and> (\<forall>i. Suc k \<le> i \<longrightarrow> i \<le> Suc k + j \<longrightarrow> P i)" for P
    using le_eq_less_or_eq Suc_le_eq by auto
  show ?case
  proof (cases "section_valid m (unat (sec_at m p seq k))")
    case True
    have "check_sections_loop devs p seq flash (sec_at m p seq k) s = check_sections_loop devs p seq flash (sec_at m p seq (Suc k)) s1"
      unfolding a[symmetric] by (subst check_sections_loop.simps) (use s1(1) True n rds in simp)
    then show ?thesis using s2 True unfolding all by auto
  next
    case False
    then show ?thesis using s1 unfolding all by (subst check_sections_loop.simps) simp
  qed
qed

lemma image_check_sections_ok:
  assumes "st s m" "params_ok flash (iop img)" "seq < IMAGE_SEQ_NUM" "chain_ends m (iop img) seq n"
    "chain_fits m sz (iop img) seq n" "alloc 1024"
  shows "\<exists>s'. image_check_sections devs alloc seq img s
    = Some (if chain_valid m (iop img) seq n then IMAGE_VALID else IMAGE_INVALID, s') \<and> st s' m"
  using check_sections_loop_ok[OF assms(1-3), of 0 n] assms(2,4-6)
  by (simp add: image_check_sections_def chain_valid_def params_flash)

end

section \<open>The table of sections\<close>

text \<open>The first \<open>k\<close> sections of the chain are in the table, and there is room for the next one
  unless the table is to be extended.\<close>

definition sec_entry :: "(nat \<Rightarrow> u8) \<Rightarrow> image_ota_param \<Rightarrow> u8 \<Rightarrow> nat \<Rightarrow> sec_addr_t" where
  "sec_entry m p seq j = \<lparr>sa_id = sh_id (sec_hdr m p seq j), sa_addr = sec_at m p seq j\<rparr>"

definition sec_cached :: "(nat \<Rightarrow> u8) \<Rightarrow> image_priv \<Rightarrow> u8 \<Rightarrow> nat \<Rightarrow> bool" where
  "sec_cached m img seq k \<longleftrightarrow>
     unat seq < length (sec_num img) \<and> unat seq < length (sec_addr img) \<and> unat (sec_num img ! unat seq) = k
     \<and> (case sec_addr img ! unat seq of
          None \<Rightarrow> k = 0
        | Some tbl \<Rightarrow> 5 * ((k + 4) div 5) \<le> length tbl
            \<and> take k tbl = map (Some \<circ> sec_entry m (iop img) seq) [0..<k])
     \<and> (\<forall>j. Suc j < k \<longrightarrow> next_addr (sec_hdr m (iop img) seq j) \<noteq> IMAGE_INVALID_ADDR)"

text \<open>Nothing but the table of image \<open>seq\<close> differs.\<close>

definition same_other :: "u8 \<Rightarrow> image_priv \<Rightarrow> image_priv \<Rightarrow> bool" where
  "same_other seq img img' \<longleftrightarrow> iop img' = iop img \<and> length (sec_num img') = length (sec_num img)
     \<and> length (sec_addr img') = length (sec_addr img)
     \<and> (\<forall>j. j \<noteq> unat seq \<longrightarrow> sec_num img' ! j = sec_num img ! j \<and> sec_addr img' ! j = sec_addr img ! j)"

lemma same_other_refl [simp]: "same_other seq img img"
  by (simp add: same_other_def)

lemma same_other_trans: "same_other seq a b \<Longrightarrow> same_other seq b c \<Longrightarrow> same_other seq a c"
  by (simp add: same_other_def)

lemma same_other_cached: "same_other seq img img' \<Longrightarrow> seq' \<noteq> seq \<Longrightarrow> sec_cached m img seq' k \<Longrightarrow> sec_cached m img' seq' k"
proof -
  assume o: "same_other seq img img'" and "seq' \<noteq> seq" and c: "sec_cached m img seq' k"
  then have "unat seq' \<noteq> unat seq" by (simp add: word_unat_eq_iff)
  with o have e: "iop img' = iop img" "length (sec_num img') = length (sec_num img)" "length (sec_addr img') = length (sec_addr img)"
    "sec_num img' ! unat seq' = sec_num img ! unat seq'" "sec_addr img' ! unat seq' = sec_addr img ! unat seq'"
    by (simp_all add: same_other_def)
  show ?thesis using c unfolding sec_cached_def e .
qed

lemma same_other_iop: "same_other seq img img' \<Longrightarrow> iop img' = iop img"
  by (simp add: same_other_def)

lemma image_expand_other: "image_expand_addr alloc img seq = Some (rc, img') \<Longrightarrow> same_other seq img img'"
  by (auto simp: image_expand_addr_def same_other_def split: bind_splits if_splits option.splits)

lemma sec_put_other: "sec_put img seq c = Some img' \<Longrightarrow> same_other seq img img'"
  by (auto simp: sec_put_def same_other_def split: bind_splits if_splits)

lemma sec_cached_clear: "unat seq < 2 \<Longrightarrow> sec_cached m (image_clear_sec_addr img) seq 0"
  by (simp add: sec_cached_def image_clear_sec_addr_def)

lemma sec_cells_cached:
  assumes "sec_cached m img seq k"
  shows "sec_cells img seq = Some (map (Some \<circ> sec_entry m (iop img) seq) [0..<k])"
proof -
  have "k = 0 \<longleftrightarrow> sec_num img ! unat seq = 0" using assms by (auto simp: sec_cached_def unat_eq_0)
  then show ?thesis
    using assms by (cases "sec_addr img ! unat seq") (auto simp: sec_cached_def sec_cells_def)
qed

lemma sec_find_map:
  "sec_find i (map (Some \<circ> c) js) = Some (map_option (\<lambda>j. sa_addr (c j)) (find (\<lambda>j. sa_id (c j) = i) js))"
  by (induction js) auto

lemma expand_room:
  assumes "sec_cached m img seq k" "\<forall>n. alloc n"
  shows "\<exists>img1 cells. (if unat (sec_num img ! unat seq) mod IMAGE_EXPAND_SIZE = 0
        then image_expand_addr alloc img seq else Some (0, img)) = Some (0, img1)
    \<and> iop img1 = iop img \<and> sec_num img1 = sec_num img \<and> length (sec_addr img1) = length (sec_addr img)
    \<and> sec_addr img1 ! unat seq = Some cells \<and> 5 * ((Suc k + 4) div 5) \<le> length cells
    \<and> take k cells = map (Some \<circ> sec_entry m (iop img) seq) [0..<k]"
proof -
  have k: "unat (sec_num img ! unat seq) = k" "unat seq < length (sec_num img)" "unat seq < length (sec_addr img)"
    using assms(1) by (simp_all add: sec_cached_def)
  show ?thesis
  proof (cases "sec_addr img ! unat seq")
    case None
    then have "k = 0" using assms(1) by (simp add: sec_cached_def)
    then show ?thesis using None k assms(2) by (simp add: image_expand_addr_def rd_def)
  next
    case (Some tbl)
    then have tbl: "5 * ((k + 4) div 5) \<le> length tbl" "take k tbl = map (Some \<circ> sec_entry m (iop img) seq) [0..<k]"
      using assms(1) by (simp_all add: sec_cached_def)
    then have le: "k \<le> length tbl" by linarith
    show ?thesis
    proof (cases "k mod 5 = 0")
      case True
      then have "5 * ((Suc k + 4) div 5) \<le> k + 5" by presburger
      then show ?thesis using Some k assms(2) tbl le True by (simp add: image_expand_addr_def rd_def)
    next
      case False
      then have "5 * ((Suc k + 4) div 5) = 5 * ((k + 4) div 5)" by presburger
      then show ?thesis using Some k tbl False by simp
    qed
  qed
qed

text \<open>One step of the table: room is made when needed, and the entry is written.\<close>

lemma sec_put_cached:
  assumes "sec_cached m img seq k" "k < 255" "\<forall>n. alloc n"
    "\<forall>j<k. next_addr (sec_hdr m (iop img) seq j) \<noteq> IMAGE_INVALID_ADDR"
  shows "\<exists>img1 img2. (if unat (sec_num img ! unat seq) mod IMAGE_EXPAND_SIZE = 0
        then image_expand_addr alloc img seq else Some (0, img)) = Some (0, img1)
    \<and> sec_put img1 seq (sec_entry m (iop img) seq k) = Some img2 \<and> iop img1 = iop img \<and> iop img2 = iop img
    \<and> sec_cached m img2 seq (Suc k)"
proof -
  obtain img1 cells where e: "(if unat (sec_num img ! unat seq) mod 5 = 0
        then image_expand_addr alloc img seq else Some (0, img)) = Some (0, img1)"
      "iop img1 = iop img" "sec_num img1 = sec_num img" "length (sec_addr img1) = length (sec_addr img)"
      "sec_addr img1 ! unat seq = Some cells" "5 * ((Suc k + 4) div 5) \<le> length cells"
      "take k cells = map (Some \<circ> sec_entry m (iop img) seq) [0..<k]"
    using expand_room[OF assms(1,3)] by blast
  have k: "unat (sec_num img ! unat seq) = k" "unat seq < length (sec_num img)" "unat seq < length (sec_addr img)"
    using assms(1) by (simp_all add: sec_cached_def)
  have kl: "k < length cells" using e(6) by linarith
  have "unat (sec_num img ! unat seq + 1) = Suc k" using k(1) assms(2) by (simp add: unat_word_ariths(1))
  moreover have "take (Suc k) (cells[k := Some (sec_entry m (iop img) seq k)])
      = map (Some \<circ> sec_entry m (iop img) seq) [0..<Suc k]"
    using e(7) kl by (simp add: take_Suc_conv_app_nth)
  moreover define img2 where "img2 = img1\<lparr>sec_addr := (sec_addr img1)[unat seq := Some (cells[k := Some (sec_entry m (iop img) seq k)])],
      sec_num := (sec_num img1)[unat seq := sec_num img ! unat seq + 1]\<rparr>"
  ultimately have "sec_cached m img2 seq (Suc k)"
    unfolding sec_cached_def using e(2-6) k(2,3) assms(4) by auto
  moreover have "sec_put img1 seq (sec_entry m (iop img) seq k) = Some img2"
    using e(3-5) k kl by (simp add: sec_put_def rd_def img2_def)
  ultimately show ?thesis using e(1,2) by (auto simp: img2_def)
qed

definition chain_live :: "(nat \<Rightarrow> u8) \<Rightarrow> image_ota_param \<Rightarrow> u8 \<Rightarrow> nat \<Rightarrow> bool" where
  "chain_live m p seq k \<longleftrightarrow> (\<forall>j<k. next_addr (sec_hdr m p seq j) \<noteq> IMAGE_INVALID_ADDR)"

lemma sec_part_fields:
  assumes "unat (a + 32) = unat a + 32"
  shows "of_le4 (mem_bytes m (unat (a + 32)) 8) = next_addr (section_at m (unat a))"
    "of_le4 (drop 4 (mem_bytes m (unat (a + 32)) 8)) = sh_id (section_at m (unat a))"
  by (simp_all add: assms section_at_fields of_le4_mem add.commute)

context nor_flash
begin

lemma sec_walk_step:
  assumes "st s m" "params_ok flash (iop img)" "seq < IMAGE_SEQ_NUM" "sec_cached m img seq k" "k < 255" "\<forall>n. alloc n"
    "chain_live m (iop img) seq k" "unat (sec_at m (iop img) seq k) + 64 \<le> sz" "nx \<noteq> IMAGE_INVALID_ADDR"
  shows "\<exists>img' s'. sec_walk devs alloc seq i img flash (sec_at m (iop img) seq k) nx s
      = (if i = sh_id (sec_hdr m (iop img) seq k) then Some (sec_at m (iop img) seq k, img', s')
         else sec_walk devs alloc seq i img' flash (sec_at m (iop img') seq (Suc k)) (next_addr (sec_hdr m (iop img') seq k)) s')
    \<and> st s' m \<and> same_other seq img img' \<and> sec_cached m img' seq (Suc k)"
proof -
  let ?a = "sec_at m (iop img) seq k"
  obtain img1 img2 where t: "(if unat (sec_num img ! unat seq) mod 5 = 0 then image_expand_addr alloc img seq else Some (0, img)) = Some (0, img1)"
      "sec_put img1 seq (sec_entry m (iop img) seq k) = Some img2" "iop img2 = iop img" "sec_cached m img2 seq (Suc k)"
    using sec_put_cached[OF assms(4-6)] assms(7) by (auto simp: chain_live_def)
  have num: "rd (sec_num img) (unat seq) = Some (sec_num img ! unat seq)" using assms(4) by (simp add: sec_cached_def rd_def)
  have a: "unat (?a + 32) = unat ?a + 32" using assms(8) u32_less[of "mSize (fd_chip dev)"] by (subst unat_plus) simp_all
  obtain s1 where s1: "flash_read devs flash (?a + 32) 8 s = Some (8, mem_bytes m (unat (?a + 32)) 8, s1)" "st s1 m"
    using flash_read_ok[OF assms(1), of 8 "?a + 32"] a assms(8) by auto
  note part = sec_part_fields[OF a, of m, folded sec_hdr_def]
  have "sec_walk devs alloc seq i img flash ?a nx s
      = (if i = sh_id (sec_hdr m (iop img) seq k) then Some (?a, img2, s1)
         else sec_walk devs alloc seq i img2 flash (sec_at m (iop img2) seq (Suc k)) (next_addr (sec_hdr m (iop img2) seq k)) s1)"
    by (subst sec_walk.simps)
      (simp add: assms(9) num t s1(1) part sec_entry_def[symmetric] params_flash(2)[OF assms(2,3)] del: drop_mem_bytes, simp add: sec_hdr_def)
  moreover have "same_other seq img img2"
    using t(1) image_expand_other sec_put_other[OF t(2)] same_other_trans by (metis (no_types) Pair_inject option.inject same_other_refl)
  ultimately show ?thesis using t s1(2) by blast
qed

text \<open>The first section with the identifier is found, whatever part of the chain is in the table.\<close>

lemma sec_walk_finds:
  assumes "st s m" "params_ok flash (iop img)" "seq < IMAGE_SEQ_NUM" "sec_cached m img seq k" "\<forall>n. alloc n" "k \<le> t" "t < 255"
    "chain_live m (iop img) seq t" "\<forall>j\<le>t. unat (sec_at m (iop img) seq j) + 64 \<le> sz" "nx \<noteq> IMAGE_INVALID_ADDR"
    "sh_id (sec_hdr m (iop img) seq t) = i" "\<forall>j<t. k \<le> j \<longrightarrow> sh_id (sec_hdr m (iop img) seq j) \<noteq> i"
  shows "\<exists>img' s'. sec_walk devs alloc seq i img flash (sec_at m (iop img) seq k) nx s
      = Some (sec_at m (iop img) seq t, img', s') \<and> st s' m \<and> same_other seq img img' \<and> sec_cached m img' seq (Suc t)"
  using assms
proof (induction "t - k" arbitrary: k img s nx)
  case 0
  then have kt: "k = t" by simp
  show ?case using sec_walk_step[OF "0.prems"(1-4) _ "0.prems"(5), where i = i and nx = nx] "0.prems" unfolding kt by auto
next
  case (Suc x)
  then have k: "k < t" "k < 255" by simp_all
  have live: "chain_live m (iop img) seq k" using Suc.prems(8) k(1) by (simp add: chain_live_def)
  obtain img' s' where w: "sec_walk devs alloc seq i img flash (sec_at m (iop img) seq k) nx s
        = sec_walk devs alloc seq i img' flash (sec_at m (iop img') seq (Suc k)) (next_addr (sec_hdr m (iop img') seq k)) s'"
      "st s' m" "same_other seq img img'" "sec_cached m img' seq (Suc k)"
    using sec_walk_step[OF Suc.prems(1-4) k(2) Suc.prems(5) live, where i = i and nx = nx] Suc.prems(9,10,12) k(1) by auto
  have "next_addr (sec_hdr m (iop img) seq k) \<noteq> 0xFFFFFFFF" using Suc.prems(8) k(1) by (simp add: chain_live_def)
  then show ?case
    using Suc.hyps(1)[of "Suc k" s' img' "next_addr (sec_hdr m (iop img) seq k)"] Suc.hyps(2) Suc.prems k(1) w
      same_other_iop[OF w(3)] same_other_trans[OF w(3)] by fastforce
qed

end

context nor_flash
begin

text \<open>The chain ends without the identifier.\<close>

lemma sec_walk_absent:
  assumes "st s m" "params_ok flash (iop img)" "seq < IMAGE_SEQ_NUM" "sec_cached m img seq k" "\<forall>n. alloc n" "k \<le> n" "n < 255"
    "chain_ends m (iop img) seq n" "\<forall>j\<le>n. unat (sec_at m (iop img) seq j) + 64 \<le> sz" "nx \<noteq> IMAGE_INVALID_ADDR"
    "\<forall>j\<le>n. k \<le> j \<longrightarrow> sh_id (sec_hdr m (iop img) seq j) \<noteq> i"
  shows "\<exists>img' s'. sec_walk devs alloc seq i img flash (sec_at m (iop img) seq k) nx s
      = Some (IMAGE_INVALID_ADDR, img', s') \<and> st s' m \<and> same_other seq img img' \<and> sec_cached m img' seq (Suc n)"
  using assms
proof (induction "n - k" arbitrary: k img s nx)
  case 0
  then have kn: "k = n" by simp
  have live: "chain_live m (iop img) seq n" "next_addr (sec_hdr m (iop img) seq n) = 0xFFFFFFFF"
    using "0.prems"(8) by (simp_all add: chain_ends_def chain_live_def)
  obtain img' s' where w: "sec_walk devs alloc seq i img flash (sec_at m (iop img) seq n) nx s
        = sec_walk devs alloc seq i img' flash (sec_at m (iop img') seq (Suc n)) (next_addr (sec_hdr m (iop img') seq n)) s'"
      "st s' m" "same_other seq img img'" "sec_cached m img' seq (Suc n)"
    using sec_walk_step[OF "0.prems"(1-3) _ "0.prems"(7,5) live(1), where i = i and nx = nx] "0.prems"(4,9-11) unfolding kn by auto
  moreover have "sec_walk devs alloc seq i img' flash (sec_at m (iop img') seq (Suc n)) (next_addr (sec_hdr m (iop img') seq n)) s'
      = Some (0xFFFFFFFF, img', s')"
    using live(2) same_other_iop[OF w(3)] by (subst sec_walk.simps) simp
  ultimately show ?case unfolding kn by auto
next
  case (Suc x)
  then have k: "k < n" "k < 255" by simp_all
  have live: "chain_live m (iop img) seq k" "next_addr (sec_hdr m (iop img) seq k) \<noteq> 0xFFFFFFFF"
    using Suc.prems(8) k(1) by (simp_all add: chain_ends_def chain_live_def)
  have ne: "i \<noteq> sh_id (sec_hdr m (iop img) seq k)" using Suc.prems(11) k(1) by (metis le_refl less_imp_le)
  obtain img' s' where w: "sec_walk devs alloc seq i img flash (sec_at m (iop img) seq k) nx s
        = sec_walk devs alloc seq i img' flash (sec_at m (iop img') seq (Suc k)) (next_addr (sec_hdr m (iop img') seq k)) s'"
      "st s' m" "same_other seq img img'" "sec_cached m img' seq (Suc k)"
    using sec_walk_step[OF Suc.prems(1-4) k(2) Suc.prems(5) live(1) _ Suc.prems(10), where i = i, unfolded if_not_P[OF ne]] Suc.prems(9) k(1)
    by auto
  then show ?case
    using Suc.hyps(1)[of "Suc k" s' img' "next_addr (sec_hdr m (iop img) seq k)"] Suc.hyps(2) Suc.prems k(1) live(2)
      same_other_iop[OF w(3)] same_other_trans[OF w(3)] by fastforce
qed

text \<open>What \<open>image_get_addr\<close> does after the search in the table found nothing.\<close>

lemma image_get_addr_tail:
  assumes "st s m" "params_ok flash (iop img)" "seq < IMAGE_SEQ_NUM" "sec_cached m img seq (Suc k)"
    "\<forall>j\<le>k. sh_id (sec_hdr m (iop img) seq j) \<noteq> i" "unat (sec_at m (iop img) seq k) + 64 \<le> sz"
  shows "\<exists>s'. image_get_addr devs alloc seq i img s
      = sec_walk devs alloc seq i img flash (sec_at m (iop img) seq (Suc k)) (next_addr (sec_hdr m (iop img) seq k)) s' \<and> st s' m"
proof -
  let ?c = "map (Some \<circ> sec_entry m (iop img) seq) [0..<Suc k]" and ?a = "sec_at m (iop img) seq k"
  have find: "sec_cells img seq = Some ?c" "sec_find i ?c = Some None"
    using sec_cells_cached[OF assms(4)] assms(5) by (auto simp: sec_find_map find_None_iff sec_entry_def simp del: upt_Suc)
  have a: "unat (?a + 32) = unat ?a + 32" using assms(6) u32_less[of "mSize (fd_chip dev)"] by (subst unat_plus) simp_all
  obtain s1 where s1: "flash_read devs flash (?a + 32) 4 s = Some (4, mem_bytes m (unat (?a + 32)) 4, s1)" "st s1 m"
    using flash_read_ok[OF assms(1), of 4 "?a + 32"] a assms(6) by auto
  have nx: "of_le4 (mem_bytes m (unat (?a + 32)) 4) = next_addr (sec_hdr m (iop img) seq k)"
    by (simp add: a sec_hdr_def section_at_fields)
  have l: "last ?c = Some (sec_entry m (iop img) seq k)" "?c \<noteq> []" by simp_all
  have seq: "\<not> 2 \<le> seq" using assms(3) by simp
  have "image_get_addr devs alloc seq i img s = sec_walk devs alloc seq i img flash (sec_at m (iop img) seq (Suc k))
      (next_addr (sec_hdr m (iop img) seq k)) s1"
    unfolding image_get_addr_def find(1)
    by (simp add: seq find(2) l params_flash(2)[OF assms(2,3)] sec_entry_def s1(1) nx del: upt_Suc) (simp add: sec_hdr_def)
  then show ?thesis using s1(2) by blast
qed

lemma image_get_addr_walk:
  assumes "st s m" "params_ok flash (iop img)" "seq < IMAGE_SEQ_NUM" "sec_cached m img seq k"
    "\<forall>j<k. sh_id (sec_hdr m (iop img) seq j) \<noteq> i" "unat (sec_at m (iop img) seq (k - 1)) + 64 \<le> sz"
    "k = 0 \<or> next_addr (sec_hdr m (iop img) seq (k - 1)) \<noteq> IMAGE_INVALID_ADDR"
  shows "\<exists>nx s'. image_get_addr devs alloc seq i img s = sec_walk devs alloc seq i img flash (sec_at m (iop img) seq k) nx s'
    \<and> st s' m \<and> nx \<noteq> IMAGE_INVALID_ADDR"
proof (cases k)
  case 0
  have "unat (sec_at m (iop img) seq (k - 1)) < 0xFFFFFFFF" using assms(6) u32_less[of "mSize (fd_chip dev)"] by simp
  then have "IMG_BL_ADDR (iop img) \<noteq> 0xFFFFFFFF" using 0 by auto
  then show ?thesis
    using 0 sec_cells_cached[OF assms(4)] params_flash(1)[OF assms(2)] assms(1,3)
    by (intro exI[of _ "IMG_BL_ADDR (iop img)"] exI[of _ s]) (simp add: image_get_addr_def flip: not_le)
next
  case (Suc j)
  then show ?thesis using image_get_addr_tail[OF assms(1-3), of j i alloc] assms(4-7) by (auto simp: less_Suc_eq_le)
qed

lemma image_get_addr_finds:
  assumes "st s m" "params_ok flash (iop img)" "seq < IMAGE_SEQ_NUM" "sec_cached m img seq k" "\<forall>n. alloc n" "t < 255"
    "chain_live m (iop img) seq t" "\<forall>j\<le>t. unat (sec_at m (iop img) seq j) + 64 \<le> sz"
    "sh_id (sec_hdr m (iop img) seq t) = i" "\<forall>j<t. sh_id (sec_hdr m (iop img) seq j) \<noteq> i"
  shows "\<exists>img' s' k'. image_get_addr devs alloc seq i img s = Some (sec_at m (iop img) seq t, img', s')
    \<and> st s' m \<and> same_other seq img img' \<and> sec_cached m img' seq k'"
proof (cases "t < k")
  case True
  let ?P = "\<lambda>j. sa_id (sec_entry m (iop img) seq j) = i"
  have "find ?P [0..<k] = Some t"
    using True assms(9,10) by (auto simp: find_Some_iff sec_entry_def intro!: exI[of _ t])
  then have "sec_find i (map (Some \<circ> sec_entry m (iop img) seq) [0..<k]) = Some (Some (sec_at m (iop img) seq t))"
    by (simp add: sec_find_map) (simp add: sec_entry_def)
  then show ?thesis
    using assms(1,3,4) sec_cells_cached[OF assms(4)] by (auto simp: image_get_addr_def not_le)
next
  case False
  then have kt: "k \<le> t" by simp
  have "k = 0 \<or> next_addr (sec_hdr m (iop img) seq (k - 1)) \<noteq> 0xFFFFFFFF" using kt assms(7) by (auto simp: chain_live_def)
  then obtain nx s' where "image_get_addr devs alloc seq i img s = sec_walk devs alloc seq i img flash (sec_at m (iop img) seq k) nx s'"
      "st s' m" "nx \<noteq> 0xFFFFFFFF"
    using image_get_addr_walk[OF assms(1-4), of i alloc] assms(8,10) kt by force
  then show ?thesis
    using sec_walk_finds[OF _ assms(2-5) kt assms(6-8) _ assms(9)] assms(10) by metis
qed

lemma image_get_addr_absent:
  assumes "st s m" "params_ok flash (iop img)" "seq < IMAGE_SEQ_NUM" "sec_cached m img seq k" "\<forall>n. alloc n" "n < 255"
    "chain_ends m (iop img) seq n" "\<forall>j\<le>n. unat (sec_at m (iop img) seq j) + 64 \<le> sz"
    "\<forall>j\<le>n. sh_id (sec_hdr m (iop img) seq j) \<noteq> i"
  shows "\<exists>img' s' k'. image_get_addr devs alloc seq i img s = Some (IMAGE_INVALID_ADDR, img', s')
    \<and> st s' m \<and> same_other seq img img' \<and> sec_cached m img' seq k'"
proof (cases "k \<le> n")
  case True
  have "k = 0 \<or> next_addr (sec_hdr m (iop img) seq (k - 1)) \<noteq> 0xFFFFFFFF" using True assms(7) by (auto simp: chain_ends_def)
  then obtain nx s' where "image_get_addr devs alloc seq i img s = sec_walk devs alloc seq i img flash (sec_at m (iop img) seq k) nx s'"
      "st s' m" "nx \<noteq> 0xFFFFFFFF"
    using image_get_addr_walk[OF assms(1-4), of i alloc] assms(8,9) True by force
  then show ?thesis
    using sec_walk_absent[OF _ assms(2-5) True assms(6-8)] assms(9) by metis
next
  case False
  have last: "next_addr (sec_hdr m (iop img) seq n) = 0xFFFFFFFF" using assms(7) by (simp add: chain_ends_def)
  then have "\<not> Suc n < k" using assms(4) unfolding sec_cached_def by blast
  then have k: "k = Suc n" using False by linarith
  obtain s1 where "image_get_addr devs alloc seq i img s
      = sec_walk devs alloc seq i img flash (sec_at m (iop img) seq (Suc n)) (next_addr (sec_hdr m (iop img) seq n)) s1" "st s1 m"
    using image_get_addr_tail[OF assms(1-3) _ assms(9), of alloc] assms(4,8) k by blast
  then show ?thesis using assms(4) unfolding last by (subst (asm) sec_walk.simps) auto
qed

end

section \<open>Storing the configuration\<close>

lemma raw_of_bytes [simp]: "raw_of (raw_bytes c) = c" "length (raw_bytes c) = 4"
proof -
  have "drop 2 (raw_bytes c) = le2 (raw_state c) @ []" by (simp add: raw_bytes_def le2_def)
  then show "raw_of (raw_bytes c) = c" by (simp only: raw_of_def of_le2_le2) (simp add: raw_bytes_def)
qed (simp add: raw_bytes_def le2_def)

lemma find_seq_raw: "seq < IMAGE_SEQ_NUM \<Longrightarrow> find_seq (s_image_raw_seq ! unat seq) s_image_raw_seq 0 = Some seq"
proof -
  assume "seq < IMAGE_SEQ_NUM"
  then have "unat seq < 2" by (simp add: word_less_nat_alt)
  then have "unat seq = 0 \<or> unat seq = 1" by linarith
  then have "seq = 0 \<or> seq = 1" by (metis unat_0 unat_1 word_unat_eq_iff)
  then show ?thesis by (auto simp: s_image_raw_seq_def)
qed

lemma image_set_cfg_stores:
  assumes "nor_flash devs (ucast (ota_flash p)) dev mem busy" "busy (fs_env s) = 0"
    "fdcm_open devs True (ucast (ota_flash p)) (ota_addr p) (ota_size p) = Some (Some h)"
    "unat (ota_addr p) + unat (ota_size p) \<le> unat (mSize (fd_chip dev))" "store_fits h 4"
    "store_ready (mem (fs_env s)) h 4" "seq < IMAGE_SEQ_NUM"
  shows "\<exists>s'. image_set_cfg devs True (Some \<lparr>cfg_seq = seq, cfg_state = IMAGE_STATE_VERIFIED\<rparr>) p s = Some (0, s')
    \<and> same_outside h (mem (fs_env s)) (mem (fs_env s')) \<and> busy (fs_env s') = 0
    \<and> store_holds (mem (fs_env s')) h (raw_bytes \<lparr>raw_seq = s_image_raw_seq ! unat seq, raw_state = IMAGE_RAW_STATE_VERIFIED\<rparr>)
    \<and> (\<exists>s''. image_get_cfg devs True True p s' = Some (Some \<lparr>cfg_seq = seq, cfg_state = IMAGE_STATE_VERIFIED\<rparr>, s'')
         \<and> mem (fs_env s'') = mem (fs_env s'))"
proof -
  define c where "c = \<lparr>raw_seq = s_image_raw_seq ! unat seq, raw_state = IMAGE_RAW_STATE_VERIFIED\<rparr>"
  have h: "fh_addr h = ota_addr p" "fh_size h = ota_size p"
    using assms(3) by (auto simp: fdcm_open_def split: bind_splits if_splits)
  have n: "8 < unat (ota_size p)" using assms(5) h by (simp add: store_fits_def slot_at_def)
  then have "unat (ota_addr p) < 0xFFFFFFFF" using assms(4) u32_less[of "mSize (fd_chip dev)"] by simp
  then have ok: "ota_addr p \<noteq> 0xFFFFFFFF" "ota_size p \<noteq> 0" using n by auto
  have chip: "fh_flash h = ucast (ota_flash p) \<and> unat (fh_addr h) + unat (fh_size h) \<le> unat (mSize (fd_chip dev))"
    using assms(3,4) h by (auto simp: fdcm_open_def split: bind_splits if_splits)
  obtain s1 m1 where w: "fdcm_write devs True (Some h) (Some (raw_bytes c)) 4 s = Some (4, s1)"
      "mem (fs_env s1) = m1 \<and> busy (fs_env s1) = 0" "store_holds m1 h (raw_bytes c)" "same_outside h (mem (fs_env s)) m1"
    using nor_flash.fdcm_write_holds[OF assms(1) _ chip _ assms(6,5), where data = "raw_bytes c"] assms(2,3) h by auto
  have rd: "\<exists>s'. fdcm_read devs True (Some h) True 4 s0 = Some (4, raw_bytes c, s') \<and> mem (fs_env s') = m1 \<and> busy (fs_env s') = 0"
    if "mem (fs_env s0) = m1 \<and> busy (fs_env s0) = 0" for s0
    using nor_flash.fdcm_read_holds[OF assms(1) that chip w(3), of 4] by simp
  obtain s2 where r2: "fdcm_read devs True (Some h) True 4 s1 = Some (4, raw_bytes c, s2)" "mem (fs_env s2) = m1 \<and> busy (fs_env s2) = 0"
    using rd[OF w(2)] by blast
  obtain s3 where r3: "fdcm_read devs True (Some h) True 4 s2 = Some (4, raw_bytes c, s3)" "mem (fs_env s3) = m1"
    using rd[OF r2(2)] by blast
  have "image_set_raw_cfg devs True p c s = Some (0, s2)"
    by (simp add: image_set_raw_cfg_def assms(3) eval_nat_numeral w(1) r2(1))
  then have "image_set_cfg devs True (Some \<lparr>cfg_seq = seq, cfg_state = IMAGE_STATE_VERIFIED\<rparr>) p s = Some (0, s2)"
    using ok assms(7) by (simp add: image_set_cfg_def c_def not_le[symmetric])
  moreover have "image_get_cfg devs True True p s2 = Some (Some \<lparr>cfg_seq = seq, cfg_state = IMAGE_STATE_VERIFIED\<rparr>, s3)"
    using ok by (simp add: image_get_cfg_def image_get_raw_cfg_def assms(3) r3(1) find_seq_raw[OF assms(7)]) (simp add: c_def find_seq_raw[OF assms(7)])
  ultimately show ?thesis using w(3,4) r2(2) r3(2) unfolding c_def by auto
qed

section \<open>Properties\<close>

text \<open>C15. A section is found by its identifier, whatever part of the chain is in the table already: the
  result is the address of the first section of the image with this identifier (walking from the
  bootloader along the offsets in the headers), the memory is as before, and the table stays a prefix of
  the chain, also for the other image.\<close>

theorem image_get_addr_first:
  assumes "nor_flash devs flash dev mem busy" "busy (fs_env s) = 0" "params_ok flash (iop img)" "seq < IMAGE_SEQ_NUM"
    "sec_cached (mem (fs_env s)) img seq k" "\<forall>n. alloc n" "t < 255" "chain_live (mem (fs_env s)) (iop img) seq t"
    "\<forall>j\<le>t. unat (sec_at (mem (fs_env s)) (iop img) seq j) + 64 \<le> unat (mSize (fd_chip dev))"
    "sh_id (sec_hdr (mem (fs_env s)) (iop img) seq t) = i"
    "\<forall>j<t. sh_id (sec_hdr (mem (fs_env s)) (iop img) seq j) \<noteq> i"
  shows "\<exists>img' s' k'. image_get_addr devs alloc seq i img s = Some (sec_at (mem (fs_env s)) (iop img) seq t, img', s')
    \<and> mem (fs_env s') = mem (fs_env s) \<and> sec_cached (mem (fs_env s)) img' seq k' \<and> same_other seq img img'"
  using nor_flash.image_get_addr_finds[OF assms(1) _ assms(3-11)] assms(2) by blast

text \<open>C12. Checking an image ends for every finite chain and decides it: the answer is VALID exactly when
  every section from the bootloader to the last has a valid header and valid data, read in pieces of
  1024 bytes; nothing is written.\<close>

theorem image_check_sections_decides:
  assumes "nor_flash devs flash dev mem busy" "busy (fs_env s) = 0" "params_ok flash (iop img)" "seq < IMAGE_SEQ_NUM"
    "chain_ends (mem (fs_env s)) (iop img) seq n"
    "chain_fits (mem (fs_env s)) (unat (mSize (fd_chip dev))) (iop img) seq n" "alloc 1024"
  shows "\<exists>s'. image_check_sections devs alloc seq img s
      = Some (if chain_valid (mem (fs_env s)) (iop img) seq n then IMAGE_VALID else IMAGE_INVALID, s')
    \<and> mem (fs_env s') = mem (fs_env s)"
  using nor_flash.image_check_sections_ok[OF assms(1), where m = "mem (fs_env s)" and s = s] assms(2-7) by blast

text \<open>The boot configuration is read back as it was set: setting a verified configuration succeeds,
  changes only the configuration area, and the next reading gives the image and the state that were set.\<close>

theorem image_cfg_roundtrip:
  assumes "nor_flash devs (ucast (ota_flash p)) dev mem busy" "busy (fs_env s) = 0"
    "fdcm_open devs True (ucast (ota_flash p)) (ota_addr p) (ota_size p) = Some (Some h)"
    "unat (ota_addr p) + unat (ota_size p) \<le> unat (mSize (fd_chip dev))" "store_fits h 4"
    "store_ready (mem (fs_env s)) h 4" "seq < IMAGE_SEQ_NUM"
  shows "\<exists>s'. image_set_cfg devs True (Some \<lparr>cfg_seq = seq, cfg_state = IMAGE_STATE_VERIFIED\<rparr>) p s = Some (0, s')
    \<and> same_outside h (mem (fs_env s)) (mem (fs_env s')) \<and> busy (fs_env s') = 0
    \<and> store_ready (mem (fs_env s')) h 4
    \<and> (\<exists>s''. image_get_cfg devs True True p s' = Some (Some \<lparr>cfg_seq = seq, cfg_state = IMAGE_STATE_VERIFIED\<rparr>, s'')
         \<and> mem (fs_env s'') = mem (fs_env s'))"
proof -
  obtain s' where "image_set_cfg devs True (Some \<lparr>cfg_seq = seq, cfg_state = IMAGE_STATE_VERIFIED\<rparr>) p s = Some (0, s')"
      "same_outside h (mem (fs_env s)) (mem (fs_env s'))" "busy (fs_env s') = 0"
      "store_holds (mem (fs_env s')) h (raw_bytes \<lparr>raw_seq = s_image_raw_seq ! unat seq, raw_state = IMAGE_RAW_STATE_VERIFIED\<rparr>)"
      "\<exists>s''. image_get_cfg devs True True p s' = Some (Some \<lparr>cfg_seq = seq, cfg_state = IMAGE_STATE_VERIFIED\<rparr>, s'')
         \<and> mem (fs_env s'') = mem (fs_env s')"
    using image_set_cfg_stores[OF assms] by blast
  moreover from this(4) have "store_ready (mem (fs_env s')) h 4" by (rule store_holds_ready) simp
  ultimately show ?thesis by blast
qed

section \<open>Examples\<close>

lemma mem_bytes_put_prefix: "n = length bs \<Longrightarrow> mem_bytes (mem_put a (bs @ cs) m) a n = bs"
  by (rule nth_equalityI) (auto simp: mem_put_def nth_append)

lemma mem_bytes_put_suffix:
  "n = length cs \<Longrightarrow> b = a + length bs \<Longrightarrow> mem_bytes (mem_put a (bs @ cs) m) b n = cs"
  by (rule nth_equalityI) (auto simp: mem_put_def nth_append)

lemma mem_bytes_put_other: "b + n \<le> a \<or> a + length bs \<le> b \<Longrightarrow> mem_bytes (mem_put a bs m) b n = mem_bytes m b n"
  by (rule mem_bytes_cong) (auto simp: mem_put_def)

text \<open>A chip with a bootloader section at 0 and an application section at 0x8000.\<close>

definition demo_bl :: "u8 list" where
  "demo_bl = [0x41, 0x57, 0x49, 0x48, 3, 0, 0, 0, 0x51, 0xE2, 0xFE, 0xFD, 2, 0, 0, 0, 0, 0, 0, 0, 0, 0, 0, 0, 2, 0, 0, 0,
     0, 0, 0, 0, 0, 0x80, 0, 0, 0, 0x5A, 0xFF, 0xA5, 0, 0, 0x10, 0, 0, 0, 0x10, 0, 0, 0, 0, 0, 0, 0, 0, 0, 0, 0, 0, 0, 0, 0, 0, 0]"

definition demo_app :: "u8 list" where
  "demo_app = [0x41, 0x57, 0x49, 0x48, 3, 0, 0, 0, 0x73, 0x6A, 0xF7, 0xF5, 4, 0, 0, 0, 0, 0, 1, 0, 1, 0, 1, 0, 4, 0, 0, 0,
     0, 0, 0, 0, 0xFF, 0xFF, 0xFF, 0xFF, 1, 0x5A, 0xFE, 0xA5, 0, 0, 0, 0, 0, 0, 0, 0, 0, 0, 0, 0, 0, 0, 0, 0, 0, 0, 0, 0, 0, 0, 0, 0]"

definition demo_mem :: "nat \<Rightarrow> u8" where
  "demo_mem = mem_put 0 (demo_bl @ [1, 2]) (mem_put 0x8000 (demo_app @ [3, 4, 5, 6]) (\<lambda>_. 0xFF))"

definition demo_params :: image_ota_param where
  "demo_params = \<lparr>ota_flash = 0, ota_size = 0x1000, ota_addr = 0x100000, img_max_size = 0xF8000, bl_size = 0x8000,
     running_seq = 0, iop_flash = [0, 0], iop_addr = [0x8000, 0x101000]\<rparr>"

definition demo_img :: image_priv where
  "demo_img = \<lparr>iop = demo_params, sec_num = [0, 0], sec_addr = [None, None]\<rparr>"

lemma demo_length [simp]: "length demo_bl = 64" "length demo_app = 64"
  by (simp_all add: demo_bl_def demo_app_def)

lemma demo_bytes:
  "mem_bytes demo_mem 0 64 = demo_bl" "mem_bytes demo_mem 64 2 = [1, 2]"
  "mem_bytes demo_mem 0x8000 64 = demo_app" "mem_bytes demo_mem 0x8040 4 = [3, 4, 5, 6]"
  by (simp_all add: demo_mem_def mem_bytes_put_prefix mem_bytes_put_suffix mem_bytes_put_other)

lemma demo_section_bl:
  "next_addr (section_at demo_mem 0) = 0x8000" "sh_id (section_at demo_mem 0) = 0xA5FF5A00"
  "sh_data_size (section_at demo_mem 0) = 2" "data_chksum (section_at demo_mem 0) = 0xFDFE"
  unfolding section_at_def demo_bytes by code_simp+

lemma demo_section_app:
  "next_addr (section_at demo_mem 0x8000) = 0xFFFFFFFF" "sh_id (section_at demo_mem 0x8000) = 0xA5FE5A01"
  "sh_data_size (section_at demo_mem 0x8000) = 4" "data_chksum (section_at demo_mem 0x8000) = 0xF5F7"
  "load_addr (section_at demo_mem 0x8000) = 0x10000" "entry (section_at demo_mem 0x8000) = 0x10001"
  "body_len (section_at demo_mem 0x8000) = 4" "attribute (section_at demo_mem 0x8000) = 0"
  unfolding section_at_def demo_bytes by code_simp+

lemma demo_header_valid:
  "image_check_header (Some demo_bl) = IMAGE_VALID" "image_check_header (Some demo_app) = IMAGE_VALID"
  by code_simp+

lemma demo_checksums: "0xFDFE + image_checksum16 [1, 2] = 0xFFFF" "0xF5F7 + image_checksum16 [3, 4, 5, 6] = 0xFFFF"
  by code_simp+

lemma demo_valid: "section_valid demo_mem 0" "section_valid demo_mem 0x8000"
  by (simp_all add: section_valid_def demo_bytes demo_section_bl demo_section_app demo_header_valid demo_checksums)

lemma demo_chain:
  "IMG_BL_ADDR demo_params = 0" "IMG_SEC_ADDR demo_params 0 0x8000 = 0x8000"
  by (simp_all add: IMG_BL_ADDR_def IMG_SEC_ADDR_def demo_params_def demo_section_bl)

lemma demo_params_ok: "params_ok 0 demo_params"
  by (simp add: params_ok_def demo_params_def)

theorem image_get_addr_first_witness:
  "\<exists>img' s' k'. image_get_addr nor_devs (\<lambda>_. True) 0 0xA5FE5A01 demo_img (nor_sys demo_mem) = Some (0x8000, img', s')
    \<and> np_mem (fs_env s') = demo_mem \<and> sec_cached demo_mem img' 0 k' \<and> same_other 0 demo_img img'"
  using image_get_addr_first[OF nor.nor_flash_axioms, where s = "nor_sys demo_mem" and img = demo_img and seq = 0 and k = 0
      and alloc = "\<lambda>_. True" and t = "Suc 0" and i = "0xA5FE5A01"]
  by (simp add: demo_img_def sec_cached_def demo_params_ok nor_sys_def nor_attributes chain_live_def sec_hdr_def
      demo_chain demo_section_bl demo_section_app le_Suc_eq)

theorem image_check_sections_decides_witness:
  "\<exists>s'. image_check_sections nor_devs (\<lambda>_. True) 0 demo_img (nor_sys demo_mem) = Some (IMAGE_VALID, s')
    \<and> np_mem (fs_env s') = demo_mem"
  using image_check_sections_decides[OF nor.nor_flash_axioms, where s = "nor_sys demo_mem" and img = demo_img and seq = 0
      and alloc = "\<lambda>_. True" and n = "Suc 0"]
  by (simp add: demo_img_def demo_params_ok nor_sys_def nor_attributes chain_ends_def chain_fits_def chain_valid_def
      section_fits_def sec_hdr_def demo_chain demo_section_bl demo_section_app demo_valid le_Suc_eq)

definition demo_ota_area :: fdcm_handle where
  "demo_ota_area = \<lparr>fh_flash = 0, fh_addr = 0x100000, fh_size = 0x1000\<rparr>"

lemma demo_ota_open: "fdcm_open nor_devs True 0 0x100000 0x1000 = Some (Some demo_ota_area)"
proof -
  have "(0x1000 :: u32) AND 0x19002 \<noteq> 0" "(0x100000 :: u32) AND NOT 0xFFF = 0x100000" "(0x1000 :: u32) AND 0xFFF = 0" by code_simp+
  then show ?thesis
    by (simp add: fdcm_open_def flash_get_erase_block_def s_flash_erase_param_def block_fits_def HAL_Flash_MemoryOf_def
        nor_devs_def nor_attributes demo_ota_area_def)
qed

lemma demo_store: "store_fits demo_ota_area 4"
  by (simp add: store_fits_def cfg_area_bitmap slot_at_def demo_ota_area_def)

lemma store_ready_erased:
  assumes "\<And>i. i < 8 \<Longrightarrow> m (0x100000 + i) = 0xFF"
  shows "store_ready m demo_ota_area 4"
proof -
  have "mem_bytes m 0x100000 8 = replicate 8 0xFF" by (rule nth_equalityI) (simp_all add: assms)
  moreover have "id_code (header_of (replicate 8 0xFF)) \<noteq> FDCM_ID_CODE" by code_simp
  ultimately show ?thesis by (simp add: store_ready_def header_invalid_def demo_ota_area_def)
qed

theorem image_cfg_roundtrip_witness:
  "\<exists>s'. image_set_cfg nor_devs True (Some \<lparr>cfg_seq = 1, cfg_state = IMAGE_STATE_VERIFIED\<rparr>) demo_params (nor_sys demo_mem) = Some (0, s')
    \<and> same_outside demo_ota_area demo_mem (np_mem (fs_env s')) \<and> np_busy (fs_env s') = 0
    \<and> store_ready (np_mem (fs_env s')) demo_ota_area 4
    \<and> (\<exists>s''. image_get_cfg nor_devs True True demo_params s' = Some (Some \<lparr>cfg_seq = 1, cfg_state = IMAGE_STATE_VERIFIED\<rparr>, s'')
         \<and> np_mem (fs_env s'') = np_mem (fs_env s'))"
proof -
  have "store_ready demo_mem demo_ota_area 4"
    by (rule store_ready_erased) (simp add: demo_mem_def mem_put_def)
  then show ?thesis
    using image_cfg_roundtrip[of nor_devs demo_params nor_dev np_mem np_busy "nor_sys demo_mem" demo_ota_area 1]
      nor.nor_flash_axioms demo_ota_open demo_store
    by (simp add: demo_params_def nor_sys_def nor_attributes)
qed

end
