(* ===== verification/Ota.thy ===== *)
theory Ota
  imports Image
begin

unbundle bit_operations_syntax

text \<open>
  Over-the-air update, \<^verbatim>\<open>src/ota/ota.c\<close> with its two sources \<^verbatim>\<open>ota_file.c\<close> and \<^verbatim>\<open>ota_http.c\<close>: an image
  file is fetched, its bootloader part skipped and the rest programmed into the region of the image
  that is not running; the sections are checked, and a verified image becomes the one to boot.
\<close>

section \<open>Data\<close>

datatype ota_status = OTA_STATUS_OK | OTA_STATUS_ERROR
datatype ota_protocol = OTA_PROTOCOL_FILE | OTA_PROTOCOL_HTTP
datatype ota_verify = OTA_VERIFY_NONE | OTA_VERIFY_CRC32 | OTA_VERIFY_MD5 | OTA_VERIFY_SHA1 | OTA_VERIFY_SHA256

abbreviation (input) OTA_BUF_SIZE :: u32 where "OTA_BUF_SIZE \<equiv> 2048"
abbreviation (input) OTA_FLASH_TIMEOUT :: u32 where "OTA_FLASH_TIMEOUT \<equiv> 5000"
abbreviation (input) OTA_VERIFY_MAGIC :: u32 where "OTA_VERIFY_MAGIC \<equiv> 0x0055AAFF"
abbreviation (input) OTA_VERIFY_SIZE :: u32 where "OTA_VERIFY_SIZE \<equiv> 44"

text \<open>The service's state: whether \<open>iop\<close> points to the parameters of the image module, and the size fetched.\<close>

record ota_priv =
  ota_iop :: bool
  get_size :: u32

definition ota_update_seq_policy :: "u8 list" where
  "ota_update_seq_policy = [1, 0]"

definition ota_get_update_seq :: "image_ota_param \<Rightarrow> ota_priv \<Rightarrow> u8" where
  "ota_get_update_seq p ota =
     (if \<not> ota_iop ota then IMAGE_SEQ_NUM
      else if img_max_size p = 0 \<or> bl_size p = 0 \<or> running_seq p \<ge> IMAGE_SEQ_NUM then IMAGE_SEQ_NUM
      else ota_update_seq_policy ! unat (running_seq p))"

definition ota_init :: ota_priv where
  "ota_init = \<lparr>ota_iop = True, get_size = 0\<rparr>"

definition ota_deinit :: ota_priv where
  "ota_deinit = \<lparr>ota_iop = False, get_size = 0\<rparr>"

section \<open>Fetching an image\<close>

text \<open>
  A source of the image file, the two callbacks: \<open>src_init\<close> for a URL, and \<open>src_get\<close> for at most so
  many bytes, with the status, the bytes stored in the buffer, \<open>recv_size\<close> and \<open>eof_flag\<close>. \<open>None\<close> is a
  call with no defined behaviour.
\<close>

record 'c ota_source =
  src_init :: "u8 list \<Rightarrow> 'c \<Rightarrow> ota_status \<times> 'c"
  src_get :: "u32 \<Rightarrow> 'c \<Rightarrow> (ota_status \<times> u8 list \<times> u32 \<times> bool \<times> 'c) option"

definition ota_chunk :: "u32 \<Rightarrow> u32" where
  "ota_chunk left = (if left > OTA_BUF_SIZE then OTA_BUF_SIZE else left)"

text \<open>Skipping the bootloader: whether it was skipped, and \<open>get_size\<close>.\<close>

partial_function (option) ota_skip_loop ::
  "'c ota_source \<Rightarrow> u32 \<Rightarrow> u32 \<Rightarrow> 'c \<Rightarrow> (bool \<times> u32 \<times> 'c) option" where
  "ota_skip_loop src left got c =
     (if left = 0 then Some (True, got, c)
      else do {
        (status, buf, recv, eof, c) \<leftarrow> src_get src (ota_chunk left) c;
        if status \<noteq> OTA_STATUS_OK \<or> eof then Some (False, got, c)
        else ota_skip_loop src (left - recv) (got + recv) c
      })"

text \<open>Programming the rest: whether the end of the file was reached, and what is left of the region.\<close>

partial_function (option) ota_write_loop ::
  "'e flash_devs \<Rightarrow> 'c ota_source \<Rightarrow> u32 \<Rightarrow> u32 \<Rightarrow> u32 \<Rightarrow> u32 \<Rightarrow> 'c \<Rightarrow> 'e flash_sys
   \<Rightarrow> (bool \<times> u32 \<times> u32 \<times> 'c \<times> 'e flash_sys) option" where
  "ota_write_loop devs src flash addr left got c s =
     (if left = 0 then Some (False, left, got, c, s)
      else do {
        (status, buf, recv, eof, c) \<leftarrow> src_get src (ota_chunk left) c;
        if status \<noteq> OTA_STATUS_OK then Some (False, left, got, c, s)
        else if recv = 0
        then (if eof then Some (True, left, got, c, s) else ota_write_loop devs src flash addr left got c s)
        else do {
          (ret, s) \<leftarrow> HAL_Flash_Write devs flash addr buf recv s;
          if ret \<noteq> HAL_OK then Some (False, left - recv, got + recv, c, s)
          else if eof then Some (True, left - recv, got + recv, c, s)
          else ota_write_loop devs src flash (addr + recv) (left - recv) (got + recv) c s
        }
      })"

text \<open>
  The part of \<open>ota_update_image_process\<close> before the sections are checked: whether the file was fetched
  to its end or to the end of the region.
\<close>

definition ota_load ::
  "'e flash_devs \<Rightarrow> (nat \<Rightarrow> bool) \<Rightarrow> 'c ota_source \<Rightarrow> u8 list \<Rightarrow> u8 \<Rightarrow> image_ota_param \<Rightarrow> ota_priv \<Rightarrow> 'c \<Rightarrow> 'e flash_sys
   \<Rightarrow> (bool \<times> ota_priv \<times> 'c \<times> 'e flash_sys) option" where
  "ota_load devs alloc src url seq p ota c s = do {
     let flash = IMG_FLASH p seq;
     let addr = iop_addr p ! unat seq;
     (rc, s) \<leftarrow> flash_erase devs flash addr (img_max_size p) s;
     if rc \<noteq> 0 \<or> \<not> alloc (unat OTA_BUF_SIZE) then Some (False, ota, c, s)
     else do {
       let (status, c) = src_init src url c;
       if status \<noteq> OTA_STATUS_OK then Some (img_max_size p = 0, ota, c, s)
       else do {
         (skipped, got, c) \<leftarrow> ota_skip_loop src (bl_size p) 0 c;
         if \<not> skipped then Some (img_max_size p = 0, ota\<lparr>get_size := got\<rparr>, c, s)
         else do {
           (rc, s) \<leftarrow> HAL_Flash_Open devs flash OTA_FLASH_TIMEOUT s;
           if rc \<noteq> HAL_OK then Some (img_max_size p = 0, ota\<lparr>get_size := got\<rparr>, c, s)
           else do {
             (ok, left, got, c, s) \<leftarrow> ota_write_loop devs src flash addr (img_max_size p) got c s;
             (_, s) \<leftarrow> HAL_Flash_Close devs flash s;
             Some (ok \<or> left = 0, ota\<lparr>get_size := got\<rparr>, c, s)
           }
         }
       }
     }
   }"

definition ota_update_image_process ::
  "'e flash_devs \<Rightarrow> (nat \<Rightarrow> bool) \<Rightarrow> 'c ota_source \<Rightarrow> u8 list \<Rightarrow> u8 \<Rightarrow> image_priv \<Rightarrow> ota_priv \<Rightarrow> 'c \<Rightarrow> 'e flash_sys
   \<Rightarrow> (ota_status \<times> ota_priv \<times> 'c \<times> 'e flash_sys) option" where
  "ota_update_image_process devs alloc src url seq img ota c s = do {
     (loaded, ota, c, s) \<leftarrow> ota_load devs alloc src url seq (iop img) ota c s;
     if \<not> loaded then Some (OTA_STATUS_ERROR, ota, c, s)
     else do {
       (val, s) \<leftarrow> image_check_sections devs alloc seq img s;
       Some (if val = IMAGE_INVALID then OTA_STATUS_ERROR else OTA_STATUS_OK, ota, c, s)
     }
   }"

definition ota_update_image ::
  "'e flash_devs \<Rightarrow> (nat \<Rightarrow> bool) \<Rightarrow> 'c ota_source \<Rightarrow> u8 list \<Rightarrow> image_priv \<Rightarrow> ota_priv \<Rightarrow> 'c \<Rightarrow> 'e flash_sys
   \<Rightarrow> (ota_status \<times> ota_priv \<times> 'c \<times> 'e flash_sys) option" where
  "ota_update_image devs alloc src url img ota c s =
     (let seq = ota_get_update_seq (iop img) ota
      in if seq < IMAGE_SEQ_NUM then ota_update_image_process devs alloc src url seq img ota c s
         else Some (OTA_STATUS_ERROR, ota, c, s))"

text \<open>The protocol chooses the callbacks.\<close>

definition ota_get_image ::
  "'e flash_devs \<Rightarrow> (nat \<Rightarrow> bool) \<Rightarrow> (ota_protocol \<Rightarrow> 'c ota_source) \<Rightarrow> ota_protocol \<Rightarrow> u8 list option \<Rightarrow> image_priv
   \<Rightarrow> ota_priv \<Rightarrow> 'c \<Rightarrow> 'e flash_sys \<Rightarrow> (ota_status \<times> ota_priv \<times> 'c \<times> 'e flash_sys) option" where
  "ota_get_image devs alloc srcs protocol url img ota c s =
     (case url of
        None \<Rightarrow> Some (OTA_STATUS_ERROR, ota, c, s)
      | Some url \<Rightarrow> ota_update_image devs alloc (srcs protocol) url img ota_init c s)"

section \<open>Verifying\<close>

record ota_verify_data =
  ov_magic :: u32
  ov_length :: u16
  ov_version :: u16
  ov_type :: u16
  ov_reserve :: u16
  ov_data :: "u8 list"

definition verify_data_of :: "u8 list \<Rightarrow> ota_verify_data" where
  "verify_data_of bs = \<lparr>ov_magic = of_le4 bs, ov_length = of_le2 (drop 4 bs), ov_version = of_le2 (drop 6 bs),
     ov_type = of_le2 (drop 8 bs), ov_reserve = of_le2 (drop 10 bs), ov_data = take 32 (drop 12 bs)\<rparr>"

partial_function (option) verify_pos_loop ::
  "'e flash_devs \<Rightarrow> image_ota_param \<Rightarrow> u8 \<Rightarrow> u32 \<Rightarrow> u32 \<Rightarrow> 'e flash_sys \<Rightarrow> (u32 \<times> u32 \<times> 'e flash_sys) option" where
  "verify_pos_loop devs p seq flash addr s = do {
     let (rc, buf, s) = HAL_Flash_Read devs flash addr IMAGE_HEADER_SIZE s;
     if rc \<noteq> HAL_OK \<or> image_check_header (Some buf) = IMAGE_INVALID then Some (0, flash, s)
     else let sh = section_of buf
          in if next_addr sh = IMAGE_INVALID_ADDR then Some (addr + IMAGE_HEADER_SIZE + sh_data_size sh, flash, s)
             else verify_pos_loop devs p seq (IMG_FLASH p seq) (IMG_SEC_ADDR p seq (next_addr sh)) s
   }"

definition ota_get_verify_data_pos ::
  "'e flash_devs \<Rightarrow> u8 \<Rightarrow> image_ota_param \<Rightarrow> 'e flash_sys \<Rightarrow> (u32 \<times> 'e flash_sys) option" where
  "ota_get_verify_data_pos devs seq p s =
     (if seq \<ge> IMAGE_SEQ_NUM then Some (0, s)
      else do {
        (rc, s) \<leftarrow> HAL_Flash_Open devs (IMG_BL_FLASH p) OTA_FLASH_TIMEOUT s;
        if rc \<noteq> HAL_OK then Some (0, s)
        else do {
          (pos, flash, s) \<leftarrow> verify_pos_loop devs p seq (IMG_BL_FLASH p) (IMG_BL_ADDR p) s;
          (_, s) \<leftarrow> HAL_Flash_Close devs flash s;
          Some (pos, s)
        }
      })"

definition ota_get_verify_data ::
  "'e flash_devs \<Rightarrow> image_ota_param \<Rightarrow> ota_priv \<Rightarrow> 'e flash_sys
   \<Rightarrow> (ota_status \<times> ota_verify_data option \<times> 'e flash_sys) option" where
  "ota_get_verify_data devs p ota s =
     (let seq = ota_get_update_seq p ota
      in if seq \<ge> IMAGE_SEQ_NUM \<or> get_size ota = 0 then Some (OTA_STATUS_ERROR, None, s)
         else do {
           (addr, s) \<leftarrow> ota_get_verify_data_pos devs seq p s;
           if addr = 0 then Some (OTA_STATUS_ERROR, None, s)
           else do {
             (rc, s) \<leftarrow> HAL_Flash_Open devs (IMG_FLASH p seq) OTA_FLASH_TIMEOUT s;
             if rc \<noteq> HAL_OK then Some (OTA_STATUS_ERROR, None, s)
             else do {
               let (rc, bs, s) = HAL_Flash_Read devs (IMG_FLASH p seq) addr OTA_VERIFY_SIZE s;
               (_, s) \<leftarrow> HAL_Flash_Close devs (IMG_FLASH p seq) s;
               Some (if rc \<noteq> HAL_OK then (OTA_STATUS_ERROR, None, s)
                     else (if ov_magic (verify_data_of bs) \<noteq> OTA_VERIFY_MAGIC then OTA_STATUS_ERROR else OTA_STATUS_OK,
                           Some (verify_data_of bs), s))
             }
           }
         })"

text \<open>
  A digest engine of the crypto driver: start (CRC is told the size fetched), append a block, finish.
  \<open>None\<close> is a call that does not return \<open>HAL_OK\<close>.
\<close>

record 'h digest_engine =
  dg_init :: "u32 \<Rightarrow> 'h option"
  dg_append :: "'h \<Rightarrow> u8 list \<Rightarrow> 'h option"
  dg_finish :: "'h \<Rightarrow> u8 list option"

lemma ota_chunk_pos: "left \<noteq> 0 \<Longrightarrow> ota_chunk left \<noteq> 0"
  by (simp add: ota_chunk_def)

lemma ota_chunk_le: "ota_chunk left \<le> left"
  by (auto simp: ota_chunk_def less_imp_le)

lemma ota_chunk_less: "left \<noteq> 0 \<Longrightarrow> unat (left - ota_chunk left) < unat left"
proof -
  assume "left \<noteq> 0"
  then have "0 < unat (ota_chunk left)" by (simp add: ota_chunk_pos unat_gt_0)
  moreover have "unat (ota_chunk left) \<le> unat left" using ota_chunk_le by (simp add: word_le_nat_alt)
  moreover have "unat (left - ota_chunk left) = unat left - unat (ota_chunk left)" by (rule unat_sub[OF ota_chunk_le])
  ultimately show ?thesis by linarith
qed

text \<open>The loop over the region: the engine's state, or that it stopped early.\<close>

function append_loop ::
  "'e flash_devs \<Rightarrow> 'h digest_engine \<Rightarrow> u32 \<Rightarrow> u32 \<Rightarrow> u32 \<Rightarrow> 'h \<Rightarrow> 'e flash_sys \<Rightarrow> 'h option \<times> 'e flash_sys" where
  "append_loop devs eng flash addr left hdl s =
     (if left = 0 then (Some hdl, s)
      else case HAL_Flash_Read devs flash addr (ota_chunk left) s of
        (rc, buf, s) \<Rightarrow>
          if rc \<noteq> HAL_OK then (None, s)
          else case dg_append eng hdl buf of
            None \<Rightarrow> (None, s)
          | Some hdl \<Rightarrow> append_loop devs eng flash (addr + ota_chunk left) (left - ota_chunk left) hdl s)"
  by pat_completeness auto
termination
  by (relation "measure (\<lambda>(devs, eng, flash, addr, left, hdl, s). unat left)") (auto simp: ota_chunk_less)

declare append_loop.simps [simp del]

definition ota_verify_image_append_process ::
  "'e flash_devs \<Rightarrow> (nat \<Rightarrow> bool) \<Rightarrow> 'h digest_engine \<Rightarrow> u32 \<Rightarrow> u32 \<Rightarrow> u32 \<Rightarrow> 'h \<Rightarrow> 'e flash_sys
   \<Rightarrow> ('h option \<times> 'e flash_sys) option" where
  "ota_verify_image_append_process devs alloc eng flash addr n hdl s = do {
     (rc, s) \<leftarrow> HAL_Flash_Open devs flash OTA_FLASH_TIMEOUT s;
     if rc \<noteq> HAL_OK then Some (None, s)
     else do {
       let (res, s) = (if alloc (unat OTA_BUF_SIZE) then append_loop devs eng flash addr n hdl s else (None, s));
       (_, s) \<leftarrow> HAL_Flash_Close devs flash s;
       Some (res, s)
     }
   }"

definition ota_verify_image_append ::
  "'e flash_devs \<Rightarrow> (nat \<Rightarrow> bool) \<Rightarrow> 'h digest_engine \<Rightarrow> u8 \<Rightarrow> image_ota_param \<Rightarrow> ota_priv \<Rightarrow> 'h \<Rightarrow> 'e flash_sys
   \<Rightarrow> ('h option \<times> 'e flash_sys) option" where
  "ota_verify_image_append devs alloc eng seq p ota hdl s =
     ota_verify_image_append_process devs alloc eng (IMG_FLASH p seq) (iop_addr p ! unat seq)
       (get_size ota - bl_size p - OTA_VERIFY_SIZE) hdl s"

text \<open>\<open>ota_verify_image_crc32\<close>, \<open>_md5\<close>, \<open>_sha1\<close> and \<open>_sha256\<close>, which differ in the engine and the length of
  the digest.\<close>

definition ota_verify_image_digest ::
  "'e flash_devs \<Rightarrow> (nat \<Rightarrow> bool) \<Rightarrow> 'h digest_engine \<Rightarrow> nat \<Rightarrow> u8 \<Rightarrow> image_ota_param \<Rightarrow> ota_priv \<Rightarrow> u8 list \<Rightarrow> 'e flash_sys
   \<Rightarrow> (ota_status \<times> 'e flash_sys) option" where
  "ota_verify_image_digest devs alloc eng len seq p ota value s =
     (case dg_init eng (get_size ota) of
        None \<Rightarrow> Some (OTA_STATUS_ERROR, s)
      | Some hdl \<Rightarrow> do {
          (hdl, s) \<leftarrow> ota_verify_image_append devs alloc eng seq p ota hdl s;
          Some (case Option.bind hdl (dg_finish eng) of
              None \<Rightarrow> OTA_STATUS_ERROR
            | Some d \<Rightarrow> if take len value = take len d then OTA_STATUS_OK else OTA_STATUS_ERROR, s)
        })"

fun digest_len :: "ota_verify \<Rightarrow> nat" where
  "digest_len OTA_VERIFY_NONE = 0"
| "digest_len OTA_VERIFY_CRC32 = 4"
| "digest_len OTA_VERIFY_MD5 = 16"
| "digest_len OTA_VERIFY_SHA1 = 20"
| "digest_len OTA_VERIFY_SHA256 = 32"

definition ota_verify_image ::
  "'e flash_devs \<Rightarrow> (nat \<Rightarrow> bool) \<Rightarrow> bool \<Rightarrow> (ota_verify \<Rightarrow> 'h digest_engine) \<Rightarrow> ota_verify \<Rightarrow> u8 list option
   \<Rightarrow> image_ota_param \<Rightarrow> ota_priv \<Rightarrow> 'e flash_sys \<Rightarrow> (ota_status \<times> 'e flash_sys) option" where
  "ota_verify_image devs alloc fdcm_alloc engs verify value p ota s =
     (let seq = ota_get_update_seq p ota
      in if verify \<noteq> OTA_VERIFY_NONE \<and> value = None \<or> seq \<ge> IMAGE_SEQ_NUM \<or> get_size ota = 0 then Some (OTA_STATUS_ERROR, s)
         else do {
           (status, s) \<leftarrow> (if verify = OTA_VERIFY_NONE then Some (OTA_STATUS_OK, s)
             else ota_verify_image_digest devs alloc (engs verify) (digest_len verify) seq p ota (the value) s);
           if status \<noteq> OTA_STATUS_OK then Some (OTA_STATUS_ERROR, s)
           else do {
             (rc, s) \<leftarrow> image_set_cfg devs fdcm_alloc (Some \<lparr>cfg_seq = seq, cfg_state = IMAGE_STATE_VERIFIED\<rparr>) p s;
             Some (if rc = 0 then OTA_STATUS_OK else OTA_STATUS_ERROR, s)
           }
         })"

section \<open>The image file\<close>

text \<open>\<open>ota_file.c\<close>: \<open>f_open\<close> and \<open>f_read\<close> of the file system are parameters; \<open>None\<close> is a result other
  than \<open>FR_OK\<close>. The parameter block is allocated by the first call and freed at the end of the file.\<close>

record 'f ota_fs_param =
  fs_url :: "u8 list"
  fs_file :: 'f

record ('f, 'v) ota_file_state =
  g_fs_param :: "'f ota_fs_param option"
  volume :: 'v

record ('f, 'v) file_system =
  f_open :: "u8 list \<Rightarrow> 'v \<Rightarrow> ('f option) \<times> 'v"
  f_read :: "'f \<Rightarrow> u32 \<Rightarrow> 'v \<Rightarrow> (u8 list \<times> u32 \<times> 'f) option \<times> 'v"
  f_close :: "'f \<Rightarrow> 'v \<Rightarrow> 'v"
  f_none :: 'f

definition ota_update_file_init ::
  "('f, 'v) file_system \<Rightarrow> bool \<Rightarrow> u8 list \<Rightarrow> ('f, 'v) ota_file_state \<Rightarrow> ota_status \<times> ('f, 'v) ota_file_state" where
  "ota_update_file_init fs alloc url c =
     (if g_fs_param c = None \<and> \<not> alloc then (OTA_STATUS_ERROR, c)
      else let path = drop 7 url
           in case f_open fs path (volume c) of
                (None, v) \<Rightarrow> (OTA_STATUS_ERROR, \<lparr>g_fs_param = Some \<lparr>fs_url = path, fs_file = f_none fs\<rparr>, volume = v\<rparr>)
              | (Some f, v) \<Rightarrow> (OTA_STATUS_OK, \<lparr>g_fs_param = Some \<lparr>fs_url = path, fs_file = f\<rparr>, volume = v\<rparr>))"

definition ota_update_file_get ::
  "('f, 'v) file_system \<Rightarrow> u32 \<Rightarrow> ('f, 'v) ota_file_state
   \<Rightarrow> (ota_status \<times> u8 list \<times> u32 \<times> bool \<times> ('f, 'v) ota_file_state) option" where
  "ota_update_file_get fs buf_size c = do {
     par \<leftarrow> g_fs_param c;
     Some (case f_read fs (fs_file par) buf_size (volume c) of
         (None, v) \<Rightarrow> (OTA_STATUS_ERROR, [], 0, False, c\<lparr>g_fs_param := None, volume := v\<rparr>)
       | (Some (buf, recv, f), v) \<Rightarrow>
           if recv < buf_size then (OTA_STATUS_OK, buf, recv, True, c\<lparr>g_fs_param := None, volume := f_close fs f v\<rparr>)
           else (OTA_STATUS_OK, buf, recv, False, c\<lparr>g_fs_param := Some (par\<lparr>fs_file := f\<rparr>), volume := v\<rparr>))
   }"

definition ota_file_source :: "('f, 'v) file_system \<Rightarrow> bool \<Rightarrow> ('f, 'v) ota_file_state ota_source" where
  "ota_file_source fs alloc = \<lparr>src_init = ota_update_file_init fs alloc, src_get = ota_update_file_get fs\<rparr>"

section \<open>The image over HTTP\<close>

text \<open>\<open>ota_http.c\<close>: \<open>HTTPC_get\<close> of the HTTP client is a parameter with the three results the code tells
  apart; the request parameters are the client's.\<close>

datatype http_result = HTTP_CLIENT_SUCCESS | HTTP_CLIENT_EOS | HTTP_CLIENT_FAILED

record 'q http_client =
  http_request :: "u8 list \<Rightarrow> 'q"
  HTTPC_get :: "'q \<Rightarrow> u32 \<Rightarrow> http_result \<times> u8 list \<times> u32 \<times> 'q"

definition ota_update_http_init :: "'q http_client \<Rightarrow> bool \<Rightarrow> u8 list \<Rightarrow> 'q option \<Rightarrow> ota_status \<times> 'q option" where
  "ota_update_http_init cl alloc url g =
     (if g = None \<and> \<not> alloc then (OTA_STATUS_ERROR, g) else (OTA_STATUS_OK, Some (http_request cl url)))"

definition ota_update_http_get ::
  "'q http_client \<Rightarrow> u32 \<Rightarrow> 'q option \<Rightarrow> (ota_status \<times> u8 list \<times> u32 \<times> bool \<times> 'q option) option" where
  "ota_update_http_get cl buf_size g = do {
     q \<leftarrow> g;
     Some (case HTTPC_get cl q buf_size of
         (HTTP_CLIENT_SUCCESS, buf, recv, q) \<Rightarrow> (OTA_STATUS_OK, buf, recv, False, Some q)
       | (HTTP_CLIENT_EOS, buf, recv, q) \<Rightarrow> (OTA_STATUS_OK, buf, recv, True, None)
       | (HTTP_CLIENT_FAILED, buf, recv, q) \<Rightarrow> (OTA_STATUS_ERROR, buf, recv, False, None))
   }"

definition ota_http_source :: "'q http_client \<Rightarrow> bool \<Rightarrow> 'q option ota_source" where
  "ota_http_source cl alloc = \<lparr>src_init = ota_update_http_init cl alloc, src_get = ota_update_http_get cl\<rparr>"

section \<open>The contract of a source\<close>

text \<open>A source none of whose calls fails.\<close>

definition src_reliable :: "'c ota_source \<Rightarrow> bool" where
  "src_reliable src \<longleftrightarrow> (\<forall>url c. fst (src_init src url c) = OTA_STATUS_OK)
     \<and> (\<forall>n c. case src_get src n c of None \<Rightarrow> True | Some r \<Rightarrow> fst r = OTA_STATUS_OK)"

lemma src_reliable_get: "src_reliable src \<Longrightarrow> src_get src n c \<noteq> Some (OTA_STATUS_ERROR, r)"
proof -
  assume "src_reliable src"
  then have "case src_get src n c of None \<Rightarrow> True | Some r \<Rightarrow> fst r = OTA_STATUS_OK" by (simp add: src_reliable_def)
  then show ?thesis by (cases "src_get src n c") auto
qed

text \<open>
  What the update relies on: \<open>rest c\<close> are the bytes still to come. A call may fail at any time; one
  that succeeds hands over at most as many bytes as asked for, in order, some unless it reports the end.
\<close>

locale ota_feed =
  fixes src :: "'c ota_source" and live :: "'c \<Rightarrow> bool" and rest :: "'c \<Rightarrow> u8 list"
    and content :: "u8 list \<Rightarrow> 'c \<Rightarrow> u8 list"
  assumes init: "src_init src url c = (OTA_STATUS_OK, c') \<Longrightarrow> live c' \<and> rest c' = content url c"
    and get: "live c \<Longrightarrow> n \<noteq> 0 \<Longrightarrow> \<exists>status buf recv eof c'. src_get src n c = Some (status, buf, recv, eof, c')
      \<and> (status = OTA_STATUS_OK \<longrightarrow> recv \<le> n \<and> length buf = unat recv \<and> rest c = buf @ rest c'
           \<and> (if eof then rest c' = [] else recv \<noteq> 0 \<and> live c'))"
begin

lemma get_cases:
  assumes "live c" "n \<noteq> 0"
  obtains buf recv eof c' where "src_get src n c = Some (OTA_STATUS_ERROR, buf, recv, eof, c')"
    | buf recv c' where "src_get src n c = Some (OTA_STATUS_OK, buf, recv, True, c')" "recv \<le> n" "length buf = unat recv"
        "rest c = buf" "rest c' = []"
    | buf recv c' where "src_get src n c = Some (OTA_STATUS_OK, buf, recv, False, c')" "recv \<le> n" "length buf = unat recv"
        "rest c = buf @ rest c'" "recv \<noteq> 0" "live c'"
proof -
  obtain status buf recv eof c' where g: "src_get src n c = Some (status, buf, recv, eof, c')"
    and ok: "status = OTA_STATUS_OK \<longrightarrow> recv \<le> n \<and> length buf = unat recv \<and> rest c = buf @ rest c'
           \<and> (if eof then rest c' = [] else recv \<noteq> 0 \<and> live c')"
    using get[OF assms] by blast
  show ?thesis
  proof (cases status)
    case OTA_STATUS_OK
    then show ?thesis using g ok that(2,3) by (cases eof) auto
  next
    case OTA_STATUS_ERROR
    then show ?thesis using g that(1) by blast
  qed
qed

lemma skip_ok:
  assumes "live c"
  shows "\<exists>ok got' c'. ota_skip_loop src left got c = Some (ok, got', c')
    \<and> (ok \<longrightarrow> live c' \<and> got' = got + left \<and> (\<exists>d. length d = unat left \<and> rest c = d @ rest c'))
    \<and> (src_reliable src \<and> unat left < length (rest c) \<longrightarrow> ok)"
  using assms
proof (induction "unat left" arbitrary: left got c rule: less_induct)
  case less
  show ?case
  proof (cases "left = 0")
    case True
    then show ?thesis using less.prems by (subst ota_skip_loop.simps) auto
  next
    case False
    show ?thesis
    proof (rule get_cases[OF less.prems ota_chunk_pos[OF False]], goal_cases)
      case (1 buf recv eof c')
      have "ota_skip_loop src left got c = Some (False, got, c')" using 1 False by (subst ota_skip_loop.simps) simp
      moreover have "\<not> src_reliable src" using 1 src_reliable_get[of src "ota_chunk left" c] by auto
      ultimately show ?case by blast
    next
      case (2 buf recv c')
      then have "ota_skip_loop src left got c = Some (False, got, c')" using False by (subst ota_skip_loop.simps) simp
      moreover have "unat recv \<le> unat left" using 2(2) ota_chunk_le[of left] by (simp add: word_le_nat_alt)
      ultimately show ?case using 2(3,4) by auto
    next
      case (3 buf recv c')
      have "recv \<le> left" using 3(2) ota_chunk_le order_trans by blast
      then have u: "unat (left - recv) = unat left - unat recv" "unat recv \<le> unat left" by (simp_all add: unat_sub word_le_nat_alt)
      moreover have "0 < unat recv" using 3(5) by (simp add: unat_gt_0)
      ultimately obtain ok got' c'' where r: "ota_skip_loop src (left - recv) (got + recv) c' = Some (ok, got', c'')"
          "ok \<longrightarrow> live c'' \<and> got' = got + recv + (left - recv) \<and> (\<exists>d. length d = unat (left - recv) \<and> rest c' = d @ rest c'')"
          "src_reliable src \<and> unat (left - recv) < length (rest c') \<longrightarrow> ok"
        using less.hyps[of "left - recv" c' "got + recv"] 3(6) by fastforce
      have "ota_skip_loop src left got c = Some (ok, got', c'')"
        using False 3(1) r(1) by (subst ota_skip_loop.simps) simp
      moreover have "\<exists>d. length d = unat left \<and> rest c = d @ rest c''" if ok
        using r(2) that 3(3,4) u by (metis append.assoc length_append le_add_diff_inverse)
      moreover have "src_reliable src \<and> unat left < length (rest c) \<longrightarrow> ok" using r(3) 3(3,4) u by auto
      ultimately show ?thesis using r(2) by auto
    qed
  qed
qed

end

locale ota_update = nor_flash + ota_feed
begin

lemma write_loop_ok:
  assumes "live c" "st s m" "unat a + unat left \<le> sz"
  shows "\<exists>ok left' got' c' s' d t. ota_write_loop devs src flash a left got c s = Some (ok, left', got', c', s')
    \<and> st s' (mem_and (unat a) d m) \<and> unat left' + length d = unat left \<and> rest c = d @ t \<and> (ok \<longrightarrow> t = [])
    \<and> got' = got + of_nat (length d) \<and> (src_reliable src \<longrightarrow> ok \<or> left' = 0)"
  using assms
proof (induction "unat left" arbitrary: a left got c s m rule: less_induct)
  case less
  have stop: ?case if "ota_write_loop devs src flash a left got c s = Some (ok, left - recv, got + recv, c', s')"
    "st s' (mem_and (unat a) d m)" "recv \<le> left" "length d = unat recv" "rest c = d @ t" "ok \<longrightarrow> t = []" "src_reliable src \<longrightarrow> ok \<or> left - recv = 0" for ok recv c' s' d t
  proof -
    have "unat (left - recv) + length d = unat left" using that(3,4) by (simp add: unat_sub word_le_nat_alt)
    moreover have "got + recv = got + of_nat (length d)" by (simp add: that(4))
    ultimately show ?thesis using that by blast
  qed
  show ?case
  proof (cases "left = 0")
    case True
    then have "ota_write_loop devs src flash a left got c s = Some (False, left, got, c, s)" by (subst ota_write_loop.simps) simp
    then show ?thesis by (rule_tac stop[of False 0 c s "[]" "rest c"]) (use less.prems(2) True in simp_all)
  next
    case False
    have prog: "\<exists>s'. HAL_Flash_Write devs flash a buf recv s = Some (HAL_OK, s') \<and> st s' (mem_and (unat a) buf m)"
      if "recv \<le> left" "length buf = unat recv" "recv \<noteq> 0" for recv buf
      using Write_ok[OF less.prems(2) that(3) that(2)[symmetric]] less.prems(3) that(1) by (simp add: word_le_nat_alt)
    have le: "recv \<le> left" if "recv \<le> ota_chunk left" for recv using that ota_chunk_le order_trans by blast
    show ?thesis
    proof (rule get_cases[OF less.prems(1) ota_chunk_pos[OF False]], goal_cases)
      case (1 buf recv eof c')
      have "ota_write_loop devs src flash a left got c s = Some (False, left, got, c', s)"
        using 1 False by (subst ota_write_loop.simps) simp
      moreover have "\<not> src_reliable src" using 1 src_reliable_get[of src "ota_chunk left" c] by auto
      ultimately show ?case using stop[of False 0 c' s "[]" "rest c"] less.prems(2) by simp
    next
      case (2 buf recv c')
      show ?case
      proof (cases "recv = 0")
        case True
        then have "ota_write_loop devs src flash a left got c s = Some (True, left, got, c', s)"
          using False 2(1) by (subst ota_write_loop.simps) simp
        then show ?thesis using stop[of True 0 c' s "[]" "[]"] less.prems(2) 2(3,4) True by simp
      next
        case False
        obtain s' where s': "HAL_Flash_Write devs flash a buf recv s = Some (HAL_OK, s')" "st s' (mem_and (unat a) buf m)"
          using prog[OF le[OF 2(2)] 2(3) False] by blast
        then have "ota_write_loop devs src flash a left got c s = Some (True, left - recv, got + recv, c', s')"
          using False \<open>left \<noteq> 0\<close> 2(1) by (subst ota_write_loop.simps) simp
        then show ?thesis using stop[OF _ s'(2) le[OF 2(2)] 2(3), of True c' "[]"] 2(4) by simp
      qed
    next
      case (3 buf recv c')
      note r = le[OF 3(2)]
      obtain s1 where s1: "HAL_Flash_Write devs flash a buf recv s = Some (HAL_OK, s1)" "st s1 (mem_and (unat a) buf m)"
        using prog[OF r 3(3,5)] by blast
      have u: "unat (left - recv) = unat left - unat recv" "unat recv \<le> unat left" "0 < unat recv"
        using r 3(5) by (simp_all add: unat_sub word_le_nat_alt unat_gt_0)
      have a: "unat (a + recv) = unat a + unat recv"
        using less.prems(3) u(2) u32_less[of "mSize (fd_chip dev)"] by (subst unat_plus) simp_all
      have dec: "unat (left - recv) < unat left" and lim: "unat (a + recv) + unat (left - recv) \<le> sz"
        using u a less.prems(3) by linarith+
      obtain ok left' got' c'' s' d t where l: "ota_write_loop devs src flash (a + recv) (left - recv) (got + recv) c' s1
          = Some (ok, left', got', c'', s')"
          "st s' (mem_and (unat (a + recv)) d (mem_and (unat a) buf m))" "unat left' + length d = unat (left - recv)"
          "rest c' = d @ t" "ok \<longrightarrow> t = []" "got' = got + recv + of_nat (length d)" "src_reliable src \<longrightarrow> ok \<or> left' = 0"
        using less.hyps[OF dec 3(6) s1(2) lim, of "got + recv"] by blast
      have "ota_write_loop devs src flash a left got c s = Some (ok, left', got', c'', s')"
        using False 3(1,5) s1(1) l(1) by (subst ota_write_loop.simps) simp
      moreover have "st s' (mem_and (unat a) (buf @ d) m)"
        using l(2) mem_and_and[of "unat a" buf d m] 3(3) a by simp
      moreover have "unat left' + length (buf @ d) = unat left" using l(3) u 3(3) by simp
      moreover have "rest c = (buf @ d) @ t" using 3(4) l(4) by simp
      moreover have "got' = got + of_nat (length (buf @ d))" using l(6) 3(3) by (simp add: add.assoc)
      ultimately show ?case using l(5,7) by blast
    qed
  qed
qed

end

text \<open>The region of an image: on the chip, and made of erase blocks.\<close>

definition region_ok :: "'e flash_devs \<Rightarrow> u32 \<Rightarrow> nat \<Rightarrow> image_ota_param \<Rightarrow> u8 \<Rightarrow> bool" where
  "region_ok devs flash N p seq \<longleftrightarrow> unat (iop_addr p ! unat seq) + unat (img_max_size p) \<le> N \<and> img_max_size p \<noteq> 0
     \<and> (case flash_get_erase_block devs flash (iop_addr p ! unat seq) (img_max_size p) of
          None \<Rightarrow> False | Some b \<Rightarrow> 0 \<le> b)"

text \<open>The memory with \<open>d\<close> at the start of the region and the rest of the region erased.\<close>

definition region_put :: "(nat \<Rightarrow> u8) \<Rightarrow> image_ota_param \<Rightarrow> u8 \<Rightarrow> u8 list \<Rightarrow> nat \<Rightarrow> u8" where
  "region_put m p seq d = mem_put (unat (iop_addr p ! unat seq)) d (mem_erase (unat (iop_addr p ! unat seq)) (unat (img_max_size p)) m)"

lemma region_put_outside:
  assumes "length d \<le> unat (img_max_size p)"
    "i < unat (iop_addr p ! unat seq) \<or> unat (iop_addr p ! unat seq) + unat (img_max_size p) \<le> i"
  shows "region_put m p seq d i = m i"
  using assms by (auto simp: region_put_def mem_put_def mem_erase_def)

lemma region_put_Nil: "region_put m p seq [] = mem_erase (unat (iop_addr p ! unat seq)) (unat (img_max_size p)) m"
  by (simp add: region_put_def)

lemma region_put_and:
  assumes "length d \<le> unat (img_max_size p)"
  shows "mem_and (unat (iop_addr p ! unat seq)) d (mem_erase (unat (iop_addr p ! unat seq)) (unat (img_max_size p)) m) = region_put m p seq d"
  unfolding region_put_def by (rule mem_and_erased) (use assms in \<open>simp add: mem_erase_def\<close>)

context ota_update
begin

lemma load_ok:
  assumes "st s m" "params_ok flash p" "seq < IMAGE_SEQ_NUM" "region_ok devs flash sz p seq"
  shows "\<exists>loaded ota' c' s' d. ota_load devs alloc src url seq p ota c s = Some (loaded, ota', c', s')
    \<and> st s' (region_put m p seq d) \<and> length d \<le> unat (img_max_size p) \<and> ota_iop ota' = ota_iop ota
    \<and> (loaded \<longrightarrow> (\<exists>b t. content url c = b @ d @ t \<and> length b = unat (bl_size p)
         \<and> get_size ota' = bl_size p + of_nat (length d) \<and> (t = [] \<or> length d = unat (img_max_size p))))
    \<and> (src_reliable src \<and> alloc 2048 \<and> unat (bl_size p) < length (content url c) \<longrightarrow> loaded)"
proof -
  let ?a = "iop_addr p ! unat seq" and ?n = "img_max_size p"
  have fl: "IMG_FLASH p seq = flash" using params_flash(2)[OF assms(2,3)] .
  have n: "?n \<noteq> 0" "unat ?a + unat ?n \<le> sz" using assms(4) by (simp_all add: region_ok_def)
  obtain b where "flash_get_erase_block devs flash ?a ?n = Some b" "0 \<le> b"
    using assms(4) by (auto simp: region_ok_def split: option.splits)
  then obtain s1 where s1: "flash_erase devs flash ?a ?n s = Some (0, s1)" "st s1 (region_put m p seq [])"
    using flash_erase_ok[OF assms(1) _ _ n(2)] unfolding region_put_Nil by blast
  have failed: ?thesis if "ota_load devs alloc src url seq p ota c s = Some (False, ota', c', s')" "st s' (region_put m p seq [])"
    "ota_iop ota' = ota_iop ota" "\<not> (src_reliable src \<and> alloc 2048 \<and> unat (bl_size p) < length (content url c))" for ota' c' s'
    using that by (intro exI[of _ False] exI[of _ ota'] exI[of _ c'] exI[of _ s'] exI[of _ "[]"]) simp
  obtain status c1 where i: "src_init src url c = (status, c1)" by fastforce
  show ?thesis
  proof (cases "alloc 2048 \<and> status = OTA_STATUS_OK")
    case False
    then have "\<exists>c'. ota_load devs alloc src url seq p ota c s = Some (False, ota, c', s1)"
      using n(1) by (auto simp: ota_load_def fl s1(1) i)
    moreover have "\<not> (src_reliable src \<and> alloc 2048)" using False i by (metis fst_conv src_reliable_def)
    ultimately show ?thesis using failed s1(2) by blast
  next
    case True
    then have c1: "live c1" "rest c1 = content url c" using init[of url c c1] i by auto
    obtain ok got c2 where k: "ota_skip_loop src (bl_size p) 0 c1 = Some (ok, got, c2)"
        "ok \<longrightarrow> live c2 \<and> got = bl_size p \<and> (\<exists>d. length d = unat (bl_size p) \<and> rest c1 = d @ rest c2)"
        "src_reliable src \<and> unat (bl_size p) < length (rest c1) \<longrightarrow> ok"
      using skip_ok[OF c1(1), of "bl_size p" 0] by auto
    show ?thesis
    proof (cases ok)
      case False
      then have "ota_load devs alloc src url seq p ota c s = Some (False, ota\<lparr>get_size := got\<rparr>, c2, s1)"
        using True n(1) by (simp add: ota_load_def fl s1(1) i k(1))
      then show ?thesis using failed s1(2) k(3) c1(2) False by simp
    next
      case True
      then obtain bl where bl: "live c2" "got = bl_size p" "length bl = unat (bl_size p)" "content url c = bl @ rest c2"
        using k(2) c1(2) by auto
      obtain s2 where s2: "HAL_Flash_Open devs flash OTA_FLASH_TIMEOUT s1 = Some (HAL_OK, s2)" "st s2 (region_put m p seq [])"
        using Open_ok[OF s1(2)] by blast
      obtain ok' left' got' c3 s3 d t where w: "ota_write_loop devs src flash ?a ?n (bl_size p) c2 s2 = Some (ok', left', got', c3, s3)"
          "st s3 (mem_and (unat ?a) d (region_put m p seq []))" "unat left' + length d = unat ?n" "rest c2 = d @ t"
          "ok' \<longrightarrow> t = []" "got' = bl_size p + of_nat (length d)"
          "src_reliable src \<longrightarrow> ok' \<or> left' = 0"
        using write_loop_ok[OF bl(1) s2(2) n(2)] by blast
      have d: "length d \<le> unat ?n" using w(3) by simp
      obtain s4 rc where s4: "HAL_Flash_Close devs flash s3 = Some (rc, s4)" "st s4 (region_put m p seq d)"
        using Close_ok[OF w(2)] unfolding region_put_Nil region_put_and[OF d] by blast
      have "ota_load devs alloc src url seq p ota c s = Some (ok' \<or> left' = 0, ota\<lparr>get_size := got'\<rparr>, c3, s4)"
        using True \<open>alloc 2048 \<and> status = OTA_STATUS_OK\<close> by (simp add: ota_load_def fl s1(1) i k(1) bl(2) s2(1) w(1) s4(1))
      moreover have "t = [] \<or> length d = unat ?n" if "ok' \<or> left' = 0" using that w(3,5) by auto
      ultimately show ?thesis
        using s4(2) d bl(3,4) w(4,6,7) by (intro exI[of _ "ok' \<or> left' = 0"] exI[of _ "ota\<lparr>get_size := got'\<rparr>"] exI[of _ c3]
            exI[of _ s4] exI[of _ d]) auto
    qed
  qed
qed

end

lemma update_seq_other:
  assumes "ota_get_update_seq p ota = seq" "seq < IMAGE_SEQ_NUM"
  shows "seq \<noteq> running_seq p" "running_seq p < IMAGE_SEQ_NUM"
proof -
  have r: "running_seq p < 2" "seq = [1, 0] ! unat (running_seq p)"
    using assms by (auto simp: ota_get_update_seq_def ota_update_seq_policy_def split: if_splits)
  then show "running_seq p < IMAGE_SEQ_NUM" by simp
  have "unat (running_seq p) = 0 \<or> unat (running_seq p) = 1" using r(1) by (auto simp: word_less_nat_alt)
  then show "seq \<noteq> running_seq p" using r(2) by auto
qed

section \<open>The digest of the region\<close>

text \<open>What a digest engine promises: blocks may be appended in any cut.\<close>

definition digest_law :: "'h digest_engine \<Rightarrow> bool" where
  "digest_law eng \<longleftrightarrow> (\<forall>h. dg_append eng h [] = Some h)
     \<and> (\<forall>h xs ys. dg_append eng h (xs @ ys) = Option.bind (dg_append eng h xs) (\<lambda>h. dg_append eng h ys))"

definition digest_of :: "'h digest_engine \<Rightarrow> u32 \<Rightarrow> u8 list \<Rightarrow> u8 list option" where
  "digest_of eng n bs = Option.bind (dg_init eng n) (\<lambda>h. Option.bind (dg_append eng h bs) (dg_finish eng))"

context nor_flash
begin

lemma append_loop_ok:
  assumes "digest_law eng" "st s m" "unat a + unat left \<le> sz"
  shows "\<exists>s'. append_loop devs eng flash a left h s = (dg_append eng h (mem_bytes m (unat a) (unat left)), s') \<and> st s' m"
  using assms(2,3)
proof (induction "unat left" arbitrary: a left h s rule: less_induct)
  case less
  show ?case
  proof (cases "left = 0")
    case True
    then show ?thesis using less.prems(1) assms(1) by (subst append_loop.simps) (simp add: digest_law_def mem_bytes_def)
  next
    case False
    let ?k = "ota_chunk left"
    note k = ota_chunk_pos[OF False] ota_chunk_less[OF False]
    have u: "unat (left - ?k) = unat left - unat ?k" "unat ?k \<le> unat left"
      using unat_sub[OF ota_chunk_le] ota_chunk_le by (simp_all add: word_le_nat_alt)
    have a: "unat (a + ?k) = unat a + unat ?k"
      using less.prems(2) u(2) u32_less[of "mSize (fd_chip dev)"] by (subst unat_plus) simp_all
    obtain s1 where s1: "HAL_Flash_Read devs flash a ?k s = (HAL_OK, mem_bytes m (unat a) (unat ?k), s1)" "st s1 m"
      using Read_ok[OF less.prems(1) k(1), of a] less.prems(2) u(2) by auto
    have b: "mem_bytes m (unat a) (unat left) = mem_bytes m (unat a) (unat ?k) @ mem_bytes m (unat (a + ?k)) (unat (left - ?k))"
      using mem_bytes_split[OF u(2), of m "unat a"] by (simp add: a u(1))
    show ?thesis
    proof (cases "dg_append eng h (mem_bytes m (unat a) (unat ?k))")
      case None
      then show ?thesis using s1 False assms(1) unfolding b by (subst append_loop.simps) (simp add: digest_law_def)
    next
      case (Some h')
      then have "dg_append eng h (mem_bytes m (unat a) (unat left)) = dg_append eng h' (mem_bytes m (unat (a + ?k)) (unat (left - ?k)))"
        using assms(1) unfolding b by (simp add: digest_law_def)
      moreover have "append_loop devs eng flash a left h s = append_loop devs eng flash (a + ?k) (left - ?k) h' s1"
        using s1(1) False Some by (subst append_loop.simps) simp
      ultimately show ?thesis using less.hyps[OF k(2) s1(2), of "a + ?k" h'] less.prems(2) u a by auto
    qed
  qed
qed

lemma verify_digest_ok:
  assumes "digest_law eng" "st s m" "params_ok flash p" "seq < IMAGE_SEQ_NUM" "alloc 2048"
    "unat (iop_addr p ! unat seq) + unat (get_size ota - bl_size p - OTA_VERIFY_SIZE) \<le> sz"
  shows "\<exists>s'. ota_verify_image_digest devs alloc eng len seq p ota value s
      = Some (case digest_of eng (get_size ota) (mem_bytes m (unat (iop_addr p ! unat seq)) (unat (get_size ota - bl_size p - OTA_VERIFY_SIZE))) of
          None \<Rightarrow> OTA_STATUS_ERROR | Some d \<Rightarrow> if take len value = take len d then OTA_STATUS_OK else OTA_STATUS_ERROR, s')
    \<and> st s' m"
proof (cases "dg_init eng (get_size ota)")
  case None
  then show ?thesis using assms(2) by (simp add: ota_verify_image_digest_def digest_of_def)
next
  case (Some h)
  let ?n = "get_size ota - bl_size p - OTA_VERIFY_SIZE" and ?a = "iop_addr p ! unat seq"
  have fl: "IMG_FLASH p seq = flash" using params_flash(2)[OF assms(3,4)] .
  obtain s1 where s1: "HAL_Flash_Open devs flash OTA_FLASH_TIMEOUT s = Some (HAL_OK, s1)" "st s1 m" using Open_ok[OF assms(2)] by blast
  obtain s2 where s2: "append_loop devs eng flash ?a ?n h s1 = (dg_append eng h (mem_bytes m (unat ?a) (unat ?n)), s2)" "st s2 m"
    using append_loop_ok[OF assms(1) s1(2) assms(6)] by blast
  obtain s3 rc where s3: "HAL_Flash_Close devs flash s2 = Some (rc, s3)" "st s3 m" using Close_ok[OF s2(2)] by blast
  show ?thesis
    using s3(2) assms(5) by (simp add: ota_verify_image_digest_def ota_verify_image_append_def ota_verify_image_append_process_def
        fl Some digest_of_def s1(1) s2(1) s3(1))
qed

end

section \<open>The image file as a source\<close>

text \<open>What \<open>ota_file.c\<close> relies on: \<open>f_read\<close> reads on from the file pointer, and reads less than asked for
  only at the end of the file. \<open>left f v\<close> are the bytes after the file pointer.\<close>

locale file_reads =
  fixes fs :: "('f, 'v) file_system" and alloc :: bool and left :: "'f \<Rightarrow> 'v \<Rightarrow> u8 list" and contents :: "u8 list \<Rightarrow> 'v \<Rightarrow> u8 list"
  assumes opened: "f_open fs path v = (Some f, v') \<Longrightarrow> left f v' = contents path v"
    and reads: "f_read fs f n v = (Some (buf, recv, f'), v') \<Longrightarrow> recv \<le> n \<and> length buf = unat recv
      \<and> left f v = buf @ left f' v' \<and> (recv < n \<longrightarrow> left f' v' = [])"
begin

abbreviation file_live :: "('f, 'v) ota_file_state \<Rightarrow> bool" where
  "file_live c \<equiv> g_fs_param c \<noteq> None"

abbreviation file_rest :: "('f, 'v) ota_file_state \<Rightarrow> u8 list" where
  "file_rest c \<equiv> case g_fs_param c of None \<Rightarrow> [] | Some par \<Rightarrow> left (fs_file par) (volume c)"

lemma file_init:
  assumes "ota_update_file_init fs alloc url c = (OTA_STATUS_OK, c')"
  shows "file_live c' \<and> file_rest c' = contents (drop 7 url) (volume c)"
  using assms opened by (auto simp: ota_update_file_init_def Let_def split: if_splits prod.splits option.splits)

lemma file_get:
  assumes "file_live c" "n \<noteq> 0"
  shows "\<exists>status buf recv eof c'. ota_update_file_get fs n c = Some (status, buf, recv, eof, c')
    \<and> (status = OTA_STATUS_OK \<longrightarrow> recv \<le> n \<and> length buf = unat recv \<and> file_rest c = buf @ file_rest c'
         \<and> (if eof then file_rest c' = [] else recv \<noteq> 0 \<and> file_live c'))"
proof -
  obtain par where p: "g_fs_param c = Some par" using assms(1) by blast
  obtain r v where r: "f_read fs (fs_file par) n (volume c) = (r, v)" by fastforce
  show ?thesis
  proof (cases r)
    case None
    then have "ota_update_file_get fs n c = Some (OTA_STATUS_ERROR, [], 0, False, c\<lparr>g_fs_param := None, volume := v\<rparr>)"
      using p r by (simp add: ota_update_file_get_def)
    then show ?thesis by blast
  next
    case (Some x)
    obtain buf recv f where x: "x = (buf, recv, f)" by (cases x)
    have law: "recv \<le> n" "length buf = unat recv" "left (fs_file par) (volume c) = buf @ left f v" "recv < n \<longrightarrow> left f v = []"
      using reads[OF r[unfolded Some x]] by simp_all
    show ?thesis
    proof (cases "recv < n")
      case True
      then have "ota_update_file_get fs n c = Some (OTA_STATUS_OK, buf, recv, True, c\<lparr>g_fs_param := None, volume := f_close fs f v\<rparr>)"
        using p r Some x by (simp add: ota_update_file_get_def)
      moreover have "left f v = []" using law(4) True by simp
      ultimately show ?thesis using p law(1-3) by auto
    next
      case False
      then have "recv = n" using law(1) by simp
      then have "ota_update_file_get fs n c = Some (OTA_STATUS_OK, buf, recv, False, c\<lparr>g_fs_param := Some (par\<lparr>fs_file := f\<rparr>), volume := v\<rparr>)"
        using p r Some x False by (simp add: ota_update_file_get_def)
      then show ?thesis using p law(1-3) assms(2) \<open>recv = n\<close> by auto
    qed
  qed
qed

end

sublocale file_reads \<subseteq> feed: ota_feed "ota_file_source fs alloc" file_live file_rest "\<lambda>url c. contents (drop 7 url) (volume c)"
  using file_init file_get by unfold_locales (simp_all add: ota_file_source_def)

text \<open>A file system in memory: the file is what is left of it.\<close>

definition ram_fs :: "(u8 list, u8 list \<Rightarrow> u8 list option) file_system" where
  "ram_fs = \<lparr>f_open = \<lambda>path v. (v path, v),
     f_read = \<lambda>f n v. (Some (take (unat n) f, of_nat (min (length f) (unat n)), drop (unat n) f), v),
     f_close = \<lambda>f v. v, f_none = []\<rparr>"

definition ram_contents :: "u8 list \<Rightarrow> (u8 list \<Rightarrow> u8 list option) \<Rightarrow> u8 list" where
  "ram_contents path v = (case v path of None \<Rightarrow> [] | Some f \<Rightarrow> f)"

lemma unat_of_nat_min: "unat (of_nat (min k (unat (n :: u32))) :: u32) = min k (unat n)"
proof (rule unat_of_nat32)
  show "min k (unat n) < 2 ^ 32" using u32_less[of n] by (simp add: min_less_iff_disj)
qed

interpretation ram: file_reads ram_fs True "\<lambda>f v. f" ram_contents
  by unfold_locales
    (auto simp: ram_fs_def ram_contents_def word_le_nat_alt word_less_nat_alt unat_of_nat_min)

interpretation nor_ram: ota_update nor_devs 0 nor_dev np_mem np_busy "ota_file_source ram_fs True"
  ram.file_live ram.file_rest "\<lambda>url c. ram_contents (drop 7 url) (volume c)"
  by (intro ota_update.intro nor.nor_flash_axioms ram.feed.ota_feed_axioms)

section \<open>Properties\<close>

text \<open>C10. An update never touches anything but the region of the image that is not running: the call
  that fetches a file returns, whatever the source does within its contract (it may fail at any point),
  the flash differs only in the region of the other image, which holds the bytes fetched so far and is
  erased behind them, and when the file was fetched to its end these bytes are the file without its
  bootloader part.\<close>

theorem ota_load_only_region:
  assumes "ota_update devs flash dev mem busy src live rest content" "busy (fs_env s) = 0" "params_ok flash p"
    "ota_get_update_seq p ota = seq" "seq < IMAGE_SEQ_NUM" "region_ok devs flash (unat (mSize (fd_chip dev))) p seq"
  shows "\<exists>loaded ota' c' s' d. ota_load devs alloc src url seq p ota c s = Some (loaded, ota', c', s')
    \<and> seq \<noteq> running_seq p
    \<and> (\<forall>i. i < unat (iop_addr p ! unat seq) \<or> unat (iop_addr p ! unat seq) + unat (img_max_size p) \<le> i
         \<longrightarrow> mem (fs_env s') i = mem (fs_env s) i)
    \<and> mem_bytes (mem (fs_env s')) (unat (iop_addr p ! unat seq)) (length d) = d
    \<and> (loaded \<longrightarrow> (\<exists>b t. content url c = b @ d @ t \<and> length b = unat (bl_size p)
         \<and> (t = [] \<or> length d = unat (img_max_size p))))"
proof -
  obtain loaded ota' c' s' d where l: "ota_load devs alloc src url seq p ota c s = Some (loaded, ota', c', s')"
    "mem (fs_env s') = region_put (mem (fs_env s)) p seq d" "length d \<le> unat (img_max_size p)"
    "loaded \<longrightarrow> (\<exists>b t. content url c = b @ d @ t \<and> length b = unat (bl_size p)
         \<and> get_size ota' = bl_size p + of_nat (length d) \<and> (t = [] \<or> length d = unat (img_max_size p)))"
    using ota_update.load_ok[OF assms(1) _ assms(3,5,6), of s "mem (fs_env s)" alloc url ota c] assms(2) by blast
  moreover have "mem_bytes (mem (fs_env s')) (unat (iop_addr p ! unat seq)) (length d) = d"
    by (simp add: l(2) region_put_def mem_bytes_put)
  moreover have "\<forall>i. i < unat (iop_addr p ! unat seq) \<or> unat (iop_addr p ! unat seq) + unat (img_max_size p) \<le> i
      \<longrightarrow> mem (fs_env s') i = mem (fs_env s) i"
    unfolding l(2) using region_put_outside[OF l(3)] by blast
  ultimately show ?thesis using update_seq_other(1)[OF assms(4,5)]
    by (intro exI[of _ loaded] exI[of _ ota'] exI[of _ c'] exI[of _ s'] exI[of _ d]) blast
qed

lemma ota_get_image_ok:
  assumes "ota_update devs flash dev mem busy (srcs protocol) live rest content" "busy (fs_env s) = 0"
    "params_ok flash (iop img)" "ota_get_update_seq (iop img) ota_init = seq" "seq < IMAGE_SEQ_NUM"
    "region_ok devs flash (unat (mSize (fd_chip dev))) (iop img) seq" "\<forall>k. alloc k"
    "content url c = bl @ fdata" "length bl = unat (bl_size (iop img))" "fdata \<noteq> []" "length fdata \<le> unat (img_max_size (iop img))"
    "chain_ends (region_put (mem (fs_env s)) (iop img) seq fdata) (iop img) seq n"
    "chain_fits (region_put (mem (fs_env s)) (iop img) seq fdata) (unat (mSize (fd_chip dev))) (iop img) seq n"
  shows "\<exists>status ota' c' s'. ota_get_image devs alloc srcs protocol (Some url) img ota c s = Some (status, ota', c', s')
    \<and> busy (fs_env s') = 0 \<and> ota_iop ota'
    \<and> (status = OTA_STATUS_OK \<longrightarrow> mem (fs_env s') = region_put (mem (fs_env s)) (iop img) seq fdata
         \<and> chain_valid (mem (fs_env s')) (iop img) seq n
         \<and> get_size ota' = bl_size (iop img) + of_nat (length fdata))
    \<and> (src_reliable (srcs protocol) \<longrightarrow>
         (status = OTA_STATUS_OK \<longleftrightarrow> chain_valid (region_put (mem (fs_env s)) (iop img) seq fdata) (iop img) seq n))"
proof -
  let ?m = "region_put (mem (fs_env s)) (iop img) seq fdata"
  obtain loaded ota' c' s1 d where l: "ota_load devs alloc (srcs protocol) url seq (iop img) ota_init c s = Some (loaded, ota', c', s1)"
    "mem (fs_env s1) = region_put (mem (fs_env s)) (iop img) seq d" "busy (fs_env s1) = 0" "length d \<le> unat (img_max_size (iop img))"
    "loaded \<longrightarrow> (\<exists>b t. content url c = b @ d @ t \<and> length b = unat (bl_size (iop img))
         \<and> get_size ota' = bl_size (iop img) + of_nat (length d) \<and> (t = [] \<or> length d = unat (img_max_size (iop img))))"
    "src_reliable (srcs protocol) \<and> alloc 2048 \<and> unat (bl_size (iop img)) < length (content url c) \<longrightarrow> loaded"
    "ota_iop ota' = ota_iop ota_init"
    using ota_update.load_ok[OF assms(1) _ assms(3,5,6), of s "mem (fs_env s)" alloc url ota_init c] assms(2) by blast
  have iop: "ota_iop ota'" using l(7) by (simp add: ota_init_def)
  have upd: "ota_get_image devs alloc srcs protocol (Some url) img ota c s
      = ota_update_image_process devs alloc (srcs protocol) url seq img ota_init c s"
    using assms(4,5) by (simp add: ota_get_image_def ota_update_image_def Let_def)
  show ?thesis
  proof (cases loaded)
    case False
    then have "ota_get_image devs alloc srcs protocol (Some url) img ota c s = Some (OTA_STATUS_ERROR, ota', c', s1)"
      by (simp add: upd ota_update_image_process_def l(1))
    moreover have "\<not> src_reliable (srcs protocol)" using l(6) False assms(7-10) by auto
    ultimately show ?thesis using l(3) iop by simp
  next
    case True
    then obtain t where d: "fdata = d @ t" "get_size ota' = bl_size (iop img) + of_nat (length d)"
        "t = [] \<or> length d = unat (img_max_size (iop img))"
      using l(5) assms(8,9) by (auto simp: append_eq_append_conv)
    then have "d = fdata" using assms(11) by auto
    then have st: "mem (fs_env s1) = ?m \<and> busy (fs_env s1) = 0" using l(2,3) by simp
    obtain s2 where c: "image_check_sections devs alloc seq img s1
          = Some (if chain_valid ?m (iop img) seq n then IMAGE_VALID else IMAGE_INVALID, s2)" "mem (fs_env s2) = ?m" "busy (fs_env s2) = 0"
      using nor_flash.image_check_sections_ok[OF ota_update.axioms(1)[OF assms(1)] st assms(3,5,12,13)] assms(7) by blast
    then have "ota_get_image devs alloc srcs protocol (Some url) img ota c s
        = Some (if chain_valid ?m (iop img) seq n then OTA_STATUS_OK else OTA_STATUS_ERROR, ota', c', s2)"
      using True by (simp add: upd ota_update_image_process_def l(1))
    then show ?thesis using c(2,3) d(2) iop \<open>d = fdata\<close> by auto
  qed
qed

text \<open>C9. A complete update: for a file made of a bootloader part and an image that fits its region, the
  call answers OK only when the region holds exactly this image and every section of it is valid; with a
  source that does not fail it answers OK exactly when every section is valid.\<close>

theorem ota_get_image_checks:
  assumes "ota_update devs flash dev mem busy (srcs protocol) live rest content" "busy (fs_env s) = 0"
    "params_ok flash (iop img)" "ota_get_update_seq (iop img) ota_init = seq" "seq < IMAGE_SEQ_NUM"
    "region_ok devs flash (unat (mSize (fd_chip dev))) (iop img) seq" "\<forall>k. alloc k"
    "content url c = bl @ fdata" "length bl = unat (bl_size (iop img))" "fdata \<noteq> []" "length fdata \<le> unat (img_max_size (iop img))"
    "chain_ends (region_put (mem (fs_env s)) (iop img) seq fdata) (iop img) seq n"
    "chain_fits (region_put (mem (fs_env s)) (iop img) seq fdata) (unat (mSize (fd_chip dev))) (iop img) seq n"
  shows "\<exists>status ota' c' s'. ota_get_image devs alloc srcs protocol (Some url) img ota c s = Some (status, ota', c', s')
    \<and> (status = OTA_STATUS_OK \<longrightarrow> mem (fs_env s') = region_put (mem (fs_env s)) (iop img) seq fdata
         \<and> chain_valid (mem (fs_env s')) (iop img) seq n
         \<and> get_size ota' = bl_size (iop img) + of_nat (length fdata))
    \<and> (src_reliable (srcs protocol) \<longrightarrow>
         (status = OTA_STATUS_OK \<longleftrightarrow> chain_valid (region_put (mem (fs_env s)) (iop img) seq fdata) (iop img) seq n))"
  using ota_get_image_ok[where s = s and mem = mem and busy = busy and img = img and alloc = alloc and c = c and srcs = srcs
      and protocol = protocol, OF assms] by blast

lemma ota_verify_image_ok:
  assumes "nor_flash devs flash dev mem busy" "busy (fs_env s) = 0" "params_ok flash p" "ucast (ota_flash p) = flash"
    "ota_get_update_seq p ota = seq" "seq < IMAGE_SEQ_NUM" "get_size ota \<noteq> 0" "verify \<noteq> OTA_VERIFY_NONE" "alloc 2048"
    "digest_law (engs verify)"
    "unat (iop_addr p ! unat seq) + unat (get_size ota - bl_size p - OTA_VERIFY_SIZE) \<le> unat (mSize (fd_chip dev))"
    "digest_of (engs verify) (get_size ota) (mem_bytes (mem (fs_env s)) (unat (iop_addr p ! unat seq))
       (unat (get_size ota - bl_size p - OTA_VERIFY_SIZE))) = Some d"
    "fdcm_open devs True (ucast (ota_flash p)) (ota_addr p) (ota_size p) = Some (Some h)"
    "unat (ota_addr p) + unat (ota_size p) \<le> unat (mSize (fd_chip dev))" "store_fits h 4" "store_ready (mem (fs_env s)) h 4"
  shows "\<exists>status s'. ota_verify_image devs alloc True engs verify (Some expected) p ota s = Some (status, s')
    \<and> (status = OTA_STATUS_OK \<longleftrightarrow> take (digest_len verify) expected = take (digest_len verify) d)
    \<and> (status = OTA_STATUS_ERROR \<longrightarrow> mem (fs_env s') = mem (fs_env s))
    \<and> (status = OTA_STATUS_OK \<longrightarrow> busy (fs_env s') = 0 \<and> store_holds (mem (fs_env s')) h (raw_bytes \<lparr>raw_seq = s_image_raw_seq ! unat seq, raw_state = IMAGE_RAW_STATE_VERIFIED\<rparr>)
         \<and> same_outside h (mem (fs_env s)) (mem (fs_env s'))
         \<and> (\<exists>s''. image_get_cfg devs True True p s' = Some (Some \<lparr>cfg_seq = seq, cfg_state = IMAGE_STATE_VERIFIED\<rparr>, s'')))"
proof -
  have flash: "nor_flash devs (ucast (ota_flash p)) dev mem busy" using assms(1,4) by simp
  have st: "mem (fs_env s) = mem (fs_env s) \<and> busy (fs_env s) = 0" using assms(2) by simp
  obtain s1 where s1: "ota_verify_image_digest devs alloc (engs verify) (digest_len verify) seq p ota expected s
      = Some (if take (digest_len verify) expected = take (digest_len verify) d then OTA_STATUS_OK else OTA_STATUS_ERROR, s1)"
      "mem (fs_env s1) = mem (fs_env s)" "busy (fs_env s1) = 0"
    using nor_flash.verify_digest_ok[OF assms(1,10) st assms(3,6), of alloc ota "digest_len verify" expected] assms(9,11,12) by auto
  show ?thesis
  proof (cases "take (digest_len verify) expected = take (digest_len verify) d")
    case False
    then have "ota_verify_image devs alloc True engs verify (Some expected) p ota s = Some (OTA_STATUS_ERROR, s1)"
      using assms(5-8) s1(1) by (simp add: ota_verify_image_def Let_def not_le[symmetric])
    then show ?thesis using False s1(2) by simp
  next
    case True
    obtain s2 where s2: "image_set_cfg devs True (Some \<lparr>cfg_seq = seq, cfg_state = IMAGE_STATE_VERIFIED\<rparr>) p s1 = Some (0, s2)"
        "same_outside h (mem (fs_env s)) (mem (fs_env s2))"
        "busy (fs_env s2) = 0" "store_holds (mem (fs_env s2)) h (raw_bytes \<lparr>raw_seq = s_image_raw_seq ! unat seq, raw_state = IMAGE_RAW_STATE_VERIFIED\<rparr>)"
        "\<exists>s''. image_get_cfg devs True True p s2 = Some (Some \<lparr>cfg_seq = seq, cfg_state = IMAGE_STATE_VERIFIED\<rparr>, s'')"
      using image_set_cfg_stores[OF flash s1(3) assms(13,14,15) _ assms(6)] assms(16) s1(2) by auto
    then have "ota_verify_image devs alloc True engs verify (Some expected) p ota s = Some (OTA_STATUS_OK, s2)"
      using assms(5-8) s1(1) True by (simp add: ota_verify_image_def Let_def not_le[symmetric])
    then show ?thesis using True s2 by simp
  qed
qed

text \<open>C11. Only a verified image is chosen for the next boot: \<open>ota_verify_image\<close> compares the digest of the
  fetched bytes in the region with the expected one; when it differs nothing is written, and when it is
  the same the configuration that is read at the next boot names the updated image as verified, with no
  byte changed outside the configuration area.\<close>

theorem ota_verify_image_selects:
  assumes "nor_flash devs flash dev mem busy" "busy (fs_env s) = 0" "params_ok flash p" "ucast (ota_flash p) = flash"
    "ota_get_update_seq p ota = seq" "seq < IMAGE_SEQ_NUM" "get_size ota \<noteq> 0" "verify \<noteq> OTA_VERIFY_NONE" "alloc 2048"
    "digest_law (engs verify)"
    "unat (iop_addr p ! unat seq) + unat (get_size ota - bl_size p - OTA_VERIFY_SIZE) \<le> unat (mSize (fd_chip dev))"
    "digest_of (engs verify) (get_size ota) (mem_bytes (mem (fs_env s)) (unat (iop_addr p ! unat seq))
       (unat (get_size ota - bl_size p - OTA_VERIFY_SIZE))) = Some d"
    "fdcm_open devs True (ucast (ota_flash p)) (ota_addr p) (ota_size p) = Some (Some h)"
    "unat (ota_addr p) + unat (ota_size p) \<le> unat (mSize (fd_chip dev))" "store_fits h 4" "store_ready (mem (fs_env s)) h 4"
  shows "\<exists>status s'. ota_verify_image devs alloc True engs verify (Some expected) p ota s = Some (status, s')
    \<and> (status = OTA_STATUS_OK \<longleftrightarrow> take (digest_len verify) expected = take (digest_len verify) d)
    \<and> (status = OTA_STATUS_ERROR \<longrightarrow> mem (fs_env s') = mem (fs_env s))
    \<and> (status = OTA_STATUS_OK \<longrightarrow> same_outside h (mem (fs_env s)) (mem (fs_env s'))
         \<and> (\<exists>s''. image_get_cfg devs True True p s' = Some (Some \<lparr>cfg_seq = seq, cfg_state = IMAGE_STATE_VERIFIED\<rparr>, s'')))"
  using ota_verify_image_ok[where s = s and mem = mem and busy = busy and alloc = alloc and expected = expected and engs = engs
      and verify = verify, OF assms] by blast

section \<open>Examples\<close>

definition demo_file :: "u8 list" where
  "demo_file = demo_app @ [3, 4, 5, 6]"

definition demo_volume :: "(u8 list, u8 list \<Rightarrow> u8 list option) ota_file_state" where
  "demo_volume = \<lparr>g_fs_param = None, volume = \<lambda>_. Some (replicate 0x8000 0 @ demo_file)\<rparr>"

lemma demo_file_length [simp]: "length demo_file = 68" "demo_file \<noteq> []"
  by (simp_all add: demo_file_def)

lemma demo_seq: "ota_get_update_seq demo_params ota_init = 1"
  by (simp add: ota_get_update_seq_def demo_params_def ota_init_def ota_update_seq_policy_def)

lemma demo_region: "region_ok nor_devs 0 0x200000 demo_params 1"
proof -
  have "(0xF8000 :: u32) AND 0xFFFF \<noteq> 0" "(0xF8000 :: u32) AND 0xFFF = 0" "(0x1000 :: u32) AND 0x19002 \<noteq> 0"
    "(0x8000 :: u32) AND 0x19002 \<noteq> 0"
    "(0x101000 :: u32) AND NOT 0xFFF = 0x101000" "(0x101000 :: u32) AND NOT 0x7FFF \<noteq> 0x101000" by code_simp+
  then show ?thesis
    by (simp add: region_ok_def demo_params_def flash_get_erase_block_def s_flash_erase_param_def block_fits_def
        HAL_Flash_MemoryOf_def nor_devs_def nor_attributes)
qed

lemma nor_size: "unat (mSize (fd_chip nor_dev)) = 0x200000"
  by (simp add: nor_attributes)

lemma demo_region_1: "unat (iop_addr demo_params ! Suc 0) = 0x101000" "iop_addr demo_params ! Suc 0 = 0x101000"
    "img_max_size demo_params = 0xF8000" "bl_size demo_params = 0x8000"
  by (simp_all add: demo_params_def)

lemma demo_updated:
  "mem_bytes (region_put demo_mem demo_params 1 demo_file) 0 64 = demo_bl"
  "mem_bytes (region_put demo_mem demo_params 1 demo_file) 64 2 = [1, 2]"
  "mem_bytes (region_put demo_mem demo_params 1 demo_file) 0x101000 64 = demo_app"
  "mem_bytes (region_put demo_mem demo_params 1 demo_file) 0x101040 4 = [3, 4, 5, 6]"
proof -
  have "mem_bytes (region_put demo_mem demo_params 1 demo_file) a n = mem_bytes demo_mem a n" if "a + n \<le> 0x101000" for a n
    by (rule mem_bytes_cong) (use that in \<open>simp add: region_put_outside demo_params_def\<close>)
  from this[of 0 64] this[of 64 2]
  show "mem_bytes (region_put demo_mem demo_params 1 demo_file) 0 64 = demo_bl"
    "mem_bytes (region_put demo_mem demo_params 1 demo_file) 64 2 = [1, 2]"
    by (simp_all add: demo_bytes)
  show "mem_bytes (region_put demo_mem demo_params 1 demo_file) 0x101000 64 = demo_app"
    "mem_bytes (region_put demo_mem demo_params 1 demo_file) 0x101040 4 = [3, 4, 5, 6]"
    by (simp_all add: region_put_def demo_params_def demo_file_def mem_bytes_put_prefix mem_bytes_put_suffix)
qed

lemma demo_updated_sections:
  "section_at (region_put demo_mem demo_params 1 demo_file) 0 = section_of demo_bl"
  "section_at (region_put demo_mem demo_params 1 demo_file) 0x101000 = section_of demo_app"
  "section_of demo_bl = section_at demo_mem 0" "section_of demo_app = section_at demo_mem 0x8000"
  by (simp_all add: section_at_def demo_updated demo_bytes)

lemma demo_updated_chain:
  "IMG_SEC_ADDR demo_params 1 0x8000 = 0x101000"
  "section_valid (region_put demo_mem demo_params 1 demo_file) 0" "section_valid (region_put demo_mem demo_params 1 demo_file) 0x101000"
  by (simp_all add: IMG_SEC_ADDR_def demo_params_def[THEN arg_cong[of _ _ "\<lambda>p. iop_addr p"]] demo_params_def[THEN arg_cong[of _ _ bl_size]]
      section_valid_def demo_updated demo_updated_sections demo_section_bl demo_section_app demo_header_valid demo_checksums)

lemma demo_updated_ends:
  "chain_ends (region_put demo_mem demo_params 1 demo_file) demo_params 1 (Suc 0)"
  "chain_fits (region_put demo_mem demo_params 1 demo_file) 0x200000 demo_params 1 (Suc 0)"
  "chain_valid (region_put demo_mem demo_params 1 demo_file) demo_params 1 (Suc 0)"
  by (simp_all add: chain_ends_def chain_fits_def chain_valid_def section_fits_def sec_hdr_def demo_chain demo_updated_chain
      demo_updated_sections demo_section_bl demo_section_app le_Suc_eq)

theorem ota_load_only_region_witness:
  "\<exists>loaded ota' c' s' d. ota_load nor_devs (\<lambda>_. True) (ota_file_source ram_fs True) (replicate 7 0) 1 demo_params ota_init
      demo_volume (nor_sys demo_mem) = Some (loaded, ota', c', s')
    \<and> 1 \<noteq> running_seq demo_params
    \<and> (\<forall>i. i < 0x101000 \<or> 0x1F9000 \<le> i \<longrightarrow> np_mem (fs_env s') i = demo_mem i)
    \<and> mem_bytes (np_mem (fs_env s')) 0x101000 (length d) = d
    \<and> (loaded \<longrightarrow> (\<exists>b t. replicate 0x8000 0 @ demo_file = b @ d @ t \<and> length b = 0x8000 \<and> (t = [] \<or> length d = 0xF8000)))"
proof -
  show ?thesis
    using ota_load_only_region[OF nor_ram.ota_update_axioms _ demo_params_ok demo_seq, of "nor_sys demo_mem" "\<lambda>_. True" "replicate 7 0" demo_volume]
      demo_region
    by (simp add: nor_size demo_region_1 nor_sys_def demo_volume_def ram_contents_def)
qed

theorem ota_get_image_checks_witness:
  "\<exists>status ota' c' s'. ota_get_image nor_devs (\<lambda>_. True) (\<lambda>_. ota_file_source ram_fs True) OTA_PROTOCOL_FILE (Some (replicate 7 0))
      demo_img ota_deinit demo_volume (nor_sys demo_mem) = Some (status, ota', c', s')
    \<and> (status = OTA_STATUS_OK \<longrightarrow> np_mem (fs_env s') = region_put demo_mem demo_params 1 demo_file
         \<and> chain_valid (np_mem (fs_env s')) demo_params 1 (Suc 0)
         \<and> get_size ota' = 0x8000 + of_nat (length demo_file))
    \<and> (src_reliable (ota_file_source ram_fs True) \<longrightarrow>
         (status = OTA_STATUS_OK \<longleftrightarrow> chain_valid (region_put demo_mem demo_params 1 demo_file) demo_params 1 (Suc 0)))"
proof -
  have a: "img_max_size demo_params = 0xF8000" "bl_size demo_params = 0x8000"
    by (simp_all add: demo_params_def)
  have i: "iop demo_img = demo_params" by (simp add: demo_img_def)
  have sys: "np_mem (fs_env (nor_sys demo_mem)) = demo_mem" "np_busy (fs_env (nor_sys demo_mem)) = 0" by (simp_all add: nor_sys_def)
  show ?thesis
    using ota_get_image_checks[where srcs = "\<lambda>_. ota_file_source ram_fs True" and protocol = OTA_PROTOCOL_FILE and s = "nor_sys demo_mem"
        and img = demo_img and seq = 1 and alloc = "\<lambda>_. True" and url = "replicate 7 0" and c = demo_volume and bl = "replicate 0x8000 0"
        and fdata = demo_file and n = "Suc 0" and ota = ota_deinit, OF nor_ram.ota_update_axioms]
      demo_region demo_params_ok demo_seq demo_updated_ends
    by (simp add: nor_size a i sys) (simp add: demo_volume_def ram_contents_def)
qed

text \<open>An engine that keeps everything appended, with the first 32 bytes as the digest.\<close>

definition demo_engine :: "u8 list digest_engine" where
  "demo_engine = \<lparr>dg_init = \<lambda>_. Some [], dg_append = \<lambda>h bs. Some (h @ bs), dg_finish = \<lambda>h. Some (take 32 h)\<rparr>"

lemma demo_engine_law: "digest_law demo_engine"
  by (simp add: digest_law_def demo_engine_def)

lemma demo_digest: "digest_of demo_engine n bs = Some (take 32 bs)"
  by (simp add: digest_of_def demo_engine_def)

theorem ota_verify_image_selects_witness:
  "\<exists>status s'. ota_verify_image nor_devs (\<lambda>_. True) True (\<lambda>_. demo_engine) OTA_VERIFY_SHA256 (Some (take 32 demo_app)) demo_params
      \<lparr>ota_iop = True, get_size = 0x8070\<rparr> (nor_sys (region_put demo_mem demo_params 1 demo_file)) = Some (status, s')
    \<and> (status = OTA_STATUS_OK \<longleftrightarrow> take 32 (take 32 demo_app)
         = take 32 (take 32 (mem_bytes (region_put demo_mem demo_params 1 demo_file) 0x101000 68)))
    \<and> (status = OTA_STATUS_ERROR \<longrightarrow> np_mem (fs_env s') = region_put demo_mem demo_params 1 demo_file)
    \<and> (status = OTA_STATUS_OK \<longrightarrow> same_outside demo_ota_area (region_put demo_mem demo_params 1 demo_file) (np_mem (fs_env s'))
         \<and> (\<exists>s''. image_get_cfg nor_devs True True demo_params s' = Some (Some \<lparr>cfg_seq = 1, cfg_state = IMAGE_STATE_VERIFIED\<rparr>, s'')))"
proof -
  let ?m = "region_put demo_mem demo_params 1 demo_file"
  have a: "img_max_size demo_params = 0xF8000" "bl_size demo_params = 0x8000" "iop_addr demo_params ! 1 = 0x101000"
    "ota_flash demo_params = 0" "ota_addr demo_params = 0x100000" "ota_size demo_params = 0x1000"
    by (simp_all add: demo_params_def)
  have sys: "np_mem (fs_env (nor_sys m)) = m" "np_busy (fs_env (nor_sys m)) = 0" for m by (simp_all add: nor_sys_def)
  have seq: "ota_get_update_seq demo_params \<lparr>ota_iop = True, get_size = 0x8070\<rparr> = 1"
    using demo_seq by (simp add: ota_get_update_seq_def ota_init_def)
  have "store_ready ?m demo_ota_area 4"
  proof (rule store_ready_erased)
    fix i :: nat
    assume "i < 8"
    then have "?m (0x100000 + i) = demo_mem (0x100000 + i)" by (intro region_put_outside) (simp_all add: demo_region_1)
    then show "?m (0x100000 + i) = 0xFF" by (simp add: demo_mem_def mem_put_def)
  qed
  then show ?thesis
    using ota_verify_image_selects[OF nor.nor_flash_axioms, where s = "nor_sys ?m" and p = demo_params and verify = OTA_VERIFY_SHA256
        and engs = "\<lambda>_. demo_engine" and h = demo_ota_area and alloc = "\<lambda>_. True" and expected = "take 32 demo_app"
        and d = "take 32 (mem_bytes ?m 0x101000 68)", OF _ demo_params_ok _ seq] demo_engine_law
      demo_ota_open demo_store
    by (simp add: nor_size a demo_region_1 sys demo_digest)
qed

end
