(* ===== verification/Bootloader.thy ===== *)
theory Bootloader
  imports Ota
begin

unbundle bit_operations_syntax

text \<open>
  The bootloader, \<^verbatim>\<open>project/bootloader/main.c\<close>: it loads the application section of the configured
  image into RAM, falls back to the other image when the section is not valid, records which image it
  booted, and asks for an upgrade when there is none.
\<close>

section \<open>Loading a section\<close>

abbreviation (input) BL_INVALID_APP_ENTRY :: u32 where "BL_INVALID_APP_ENTRY \<equiv> 0xFFFFFFFF"
abbreviation (input) BL_LOAD_BIN_OK :: int where "BL_LOAD_BIN_OK \<equiv> 0"
abbreviation (input) BL_LOAD_BIN_NO_SEC :: int where "BL_LOAD_BIN_NO_SEC \<equiv> - 1"
abbreviation (input) BL_LOAD_BIN_INVALID :: int where "BL_LOAD_BIN_INVALID \<equiv> - 2"
abbreviation (input) BL_LOAD_BIN_TOOBIG :: int where "BL_LOAD_BIN_TOOBIG \<equiv> - 3"
abbreviation (input) IMAGE_APP_ID :: u32 where "IMAGE_APP_ID \<equiv> 0xA5FE5A01"
abbreviation (input) IMAGE_ATTR_FLAG_COMPRESS :: u32 where "IMAGE_ATTR_FLAG_COMPRESS \<equiv> 16"
abbreviation (input) BL_DEC_BIN_INBUF_SIZE :: u32 where "BL_DEC_BIN_INBUF_SIZE \<equiv> 4096"

text \<open>The machine of the bootloader: the image module, RAM and the flash.\<close>

record 'e boot_sys =
  bs_img :: image_priv
  bs_ram :: "nat \<Rightarrow> u8"
  bs_flash :: "'e flash_sys"

text \<open>
  The decompressor is a parameter: \<open>xz_dec_run\<close> takes the input not consumed yet and the room for
  output, and gives the bytes consumed, the bytes produced and its result.
\<close>

datatype xz_ret = XZ_OK | XZ_STREAM_END | XZ_FAILED

record 'x xz_decoder =
  xz_dec_init :: "'x option"
  xz_dec_run :: "'x \<Rightarrow> u8 list \<Rightarrow> u32 \<Rightarrow> 'x \<times> nat \<times> u8 list \<times> xz_ret"

definition bl_image_read ::
  "'e flash_devs \<Rightarrow> (nat \<Rightarrow> bool) \<Rightarrow> u32 \<Rightarrow> image_seg \<Rightarrow> u32 \<Rightarrow> u32 \<Rightarrow> 'e boot_sys \<Rightarrow> (u32 \<times> u8 list \<times> 'e boot_sys) option" where
  "bl_image_read devs alloc i seg offset n b = do {
     (len, bs, img, s) \<leftarrow> image_read devs alloc i seg offset True n (bs_img b) (bs_flash b);
     Some (len, bs, b\<lparr>bs_img := img, bs_flash := s\<rparr>)
   }"

text \<open>The loop of \<open>bl_decompress_bin\<close>: \<open>inp\<close> is the input not consumed, \<open>out_pos\<close> and \<open>chksum\<close> as in the code.\<close>

partial_function (option) decompress_loop ::
  "'e flash_devs \<Rightarrow> (nat \<Rightarrow> bool) \<Rightarrow> 'x xz_decoder \<Rightarrow> section_header \<Rightarrow> u32 \<Rightarrow> u32 \<Rightarrow> u32 \<Rightarrow> u16 \<Rightarrow> 'x \<Rightarrow> u8 list \<Rightarrow> u32
   \<Rightarrow> 'e boot_sys \<Rightarrow> (int \<times> 'e boot_sys) option" where
  "decompress_loop devs alloc xz sh max_size offset left chksum x inp out_pos b = do {
     (more, offset, left, chksum, inp, b) \<leftarrow>
       (if inp \<noteq> [] then Some (True, offset, left, chksum, inp, b)
        else if left = 0 then Some (False, offset, left, chksum, inp, b)
        else do {
          let read_size = (if left > BL_DEC_BIN_INBUF_SIZE then BL_DEC_BIN_INBUF_SIZE else left);
          (len, buf, b) \<leftarrow> bl_image_read devs alloc (sh_id sh) IMAGE_SEG_BODY offset read_size b;
          Some (len = read_size, offset + len, left - len, chksum + image_get_checksum (Some buf) len, buf, b)
        });
     if \<not> more then Some (- 1, b)
     else do {
       let (x, used, out, ret) = xz_dec_run xz x inp (max_size - out_pos);
       let b = b\<lparr>bs_ram := mem_put (unat (load_addr sh + out_pos)) out (bs_ram b)\<rparr>;
       let out_pos = out_pos + of_nat (length out);
       if out_pos = max_size then Some (- 1, b)
       else (case ret of
           XZ_OK \<Rightarrow> decompress_loop devs alloc xz sh max_size offset left chksum x (drop used inp) out_pos b
         | XZ_STREAM_END \<Rightarrow> Some (if chksum \<noteq> 0xFFFF then - 1 else 0, b)
         | XZ_FAILED \<Rightarrow> Some (- 1, b))
     }
   }"

definition bl_decompress_bin ::
  "'e flash_devs \<Rightarrow> (nat \<Rightarrow> bool) \<Rightarrow> 'x xz_decoder \<Rightarrow> section_header \<Rightarrow> u32 \<Rightarrow> 'e boot_sys \<Rightarrow> (int \<times> 'e boot_sys) option" where
  "bl_decompress_bin devs alloc xz sh max_size b =
     (if \<not> alloc (unat BL_DEC_BIN_INBUF_SIZE) then Some (- 1, b)
      else case xz_dec_init xz of
        None \<Rightarrow> Some (- 1, b)
      | Some x \<Rightarrow> decompress_loop devs alloc xz sh max_size 0 (body_len sh) (data_chksum sh) x [] 0 b)"

definition bl_load_bin_by_id ::
  "'e flash_devs \<Rightarrow> (nat \<Rightarrow> bool) \<Rightarrow> 'x xz_decoder \<Rightarrow> u32 \<Rightarrow> u32 \<Rightarrow> 'e boot_sys \<Rightarrow> (int \<times> u32 \<times> 'e boot_sys) option" where
  "bl_load_bin_by_id devs alloc xz i max_addr b = do {
     (len, hdr, b) \<leftarrow> bl_image_read devs alloc i IMAGE_SEG_HEADER 0 IMAGE_HEADER_SIZE b;
     if len \<noteq> IMAGE_HEADER_SIZE then Some (BL_LOAD_BIN_NO_SEC, 0, b)
     else if image_check_header (Some hdr) = IMAGE_INVALID then Some (BL_LOAD_BIN_INVALID, 0, b)
     else do {
       let sh = section_of hdr;
       if attribute sh AND IMAGE_ATTR_FLAG_COMPRESS \<noteq> 0
       then do {
         (ret, b) \<leftarrow> bl_decompress_bin devs alloc xz sh (max_addr - load_addr sh) b;
         Some (if ret \<noteq> 0 then BL_LOAD_BIN_INVALID else BL_LOAD_BIN_OK, entry sh, b)
       }
       else if body_len sh = 0 then Some (BL_LOAD_BIN_NO_SEC, 0, b)
       else if load_addr sh + body_len sh > max_addr then Some (BL_LOAD_BIN_TOOBIG, 0, b)
       else do {
         (len, body, b) \<leftarrow> bl_image_read devs alloc i IMAGE_SEG_BODY 0 (body_len sh) b;
         let b = b\<lparr>bs_ram := mem_put (unat (load_addr sh)) body (bs_ram b)\<rparr>;
         if len \<noteq> body_len sh then Some (BL_LOAD_BIN_INVALID, 0, b)
         else if image_check_data (Some sh) (Some (mem_bytes (bs_ram b) (unat (load_addr sh)) (unat (body_len sh)))) (body_len sh) None 0
                = IMAGE_INVALID
         then Some (BL_LOAD_BIN_INVALID, 0, b)
         else Some (BL_LOAD_BIN_OK, entry sh, b)
       }
     }
   }"

text \<open>\<open>ram_base\<close> is the address of \<open>__RAM_BASE\<close>, the start of the bootloader's own RAM.\<close>

definition bl_load_app_bin ::
  "'e flash_devs \<Rightarrow> (nat \<Rightarrow> bool) \<Rightarrow> 'x xz_decoder \<Rightarrow> u32 \<Rightarrow> 'e boot_sys \<Rightarrow> (u32 \<times> 'e boot_sys) option" where
  "bl_load_app_bin devs alloc xz ram_base b = do {
     (ret, entry, b) \<leftarrow> bl_load_bin_by_id devs alloc xz IMAGE_APP_ID ram_base b;
     Some (if ret \<noteq> BL_LOAD_BIN_OK then BL_INVALID_APP_ENTRY else entry, b)
   }"

section \<open>Choosing the image\<close>

abbreviation (input) PRJCONF_IMG_FLASH :: u32 where "PRJCONF_IMG_FLASH \<equiv> 0"
abbreviation (input) PRJCONF_IMG_ADDR :: u32 where "PRJCONF_IMG_ADDR \<equiv> 0"
abbreviation (input) PRJCONF_IMG_MAX_SIZE :: u32 where "PRJCONF_IMG_MAX_SIZE \<equiv> (1024 - 4) * 1024"

primrec boot_loop ::
  "nat \<Rightarrow> 'e flash_devs \<Rightarrow> (nat \<Rightarrow> bool) \<Rightarrow> bool \<Rightarrow> 'x xz_decoder \<Rightarrow> u32 \<Rightarrow> u8 \<Rightarrow> u8 \<Rightarrow> 'e boot_sys \<Rightarrow> (u32 \<times> 'e boot_sys) option" where
  "boot_loop 0 devs alloc fdcm_alloc xz ram_base cfg load b = Some (BL_INVALID_APP_ENTRY, b)"
| "boot_loop (Suc i) devs alloc fdcm_alloc xz ram_base cfg load b = do {
     (entry, b) \<leftarrow> bl_load_app_bin devs alloc xz ram_base (b\<lparr>bs_img := image_set_running_seq load (bs_img b)\<rparr>);
     if entry \<noteq> BL_INVALID_APP_ENTRY
     then if load = cfg then Some (entry, b)
          else do {
            (_, s) \<leftarrow> image_set_cfg devs fdcm_alloc (Some \<lparr>cfg_seq = load, cfg_state = IMAGE_STATE_VERIFIED\<rparr>) (iop (bs_img b)) (bs_flash b);
            Some (entry, b\<lparr>bs_flash := s\<rparr>)
          }
     else boot_loop i devs alloc fdcm_alloc xz ram_base cfg ((load + 1) mod IMAGE_SEQ_NUM) b
   }"

definition bl_load_bin ::
  "'e flash_devs \<Rightarrow> (nat \<Rightarrow> bool) \<Rightarrow> bool \<Rightarrow> 'x xz_decoder \<Rightarrow> u32 \<Rightarrow> 'e boot_sys \<Rightarrow> (u32 \<times> 'e boot_sys) option" where
  "bl_load_bin devs alloc fdcm_alloc xz ram_base b = do {
     (rc, img, s) \<leftarrow> image_init True False devs fdcm_alloc PRJCONF_IMG_FLASH PRJCONF_IMG_ADDR PRJCONF_IMG_MAX_SIZE (bs_img b) (bs_flash b);
     let b = b\<lparr>bs_img := img, bs_flash := s\<rparr>;
     if rc \<noteq> 0 then Some (BL_INVALID_APP_ENTRY, b)
     else if ota_addr (iop img) = IMAGE_INVALID_ADDR
     then bl_load_app_bin devs alloc xz ram_base (b\<lparr>bs_img := image_set_running_seq 0 img\<rparr>)
     else do {
       (cfg, s) \<leftarrow> image_get_cfg devs fdcm_alloc True (iop img) s;
       let cfg_seq = (case cfg of None \<Rightarrow> IMAGE_SEQ_NUM
                      | Some cfg \<Rightarrow> if cfg_state cfg = IMAGE_STATE_VERIFIED then cfg_seq cfg else IMAGE_SEQ_NUM);
       boot_loop 2 devs alloc fdcm_alloc xz ram_base cfg_seq (if cfg_seq = IMAGE_SEQ_NUM then 0 else cfg_seq) (b\<lparr>bs_flash := s\<rparr>)
     }
   }"

text \<open>What \<open>main\<close> does: jump to the application, reboot into the upgrade mode of the ROM, or stop.\<close>

datatype boot_flag = PRCM_CPUA_BOOT_FROM_COLD_RESET | PRCM_CPUA_BOOT_FROM_DEEPSLEEP | PRCM_CPUA_BOOT_FROM_SYS_UPDATE
datatype boot_result = BootApp u32 | BootUpgrade | BootAbort

definition bl_main ::
  "'e flash_devs \<Rightarrow> (nat \<Rightarrow> bool) \<Rightarrow> bool \<Rightarrow> 'x xz_decoder \<Rightarrow> u32 \<Rightarrow> boot_flag \<Rightarrow> 'e boot_sys \<Rightarrow> (boot_result \<times> 'e boot_sys) option" where
  "bl_main devs alloc fdcm_alloc xz ram_base flag b =
     (if flag = PRCM_CPUA_BOOT_FROM_COLD_RESET
      then map_option (\<lambda>(entry, b). (if entry = BL_INVALID_APP_ENTRY then BootUpgrade else BootApp (entry OR 1), b))
             (bl_load_bin devs alloc fdcm_alloc xz ram_base b)
      else Some (BootAbort, b))"

section \<open>Loading a section that is there\<close>

text \<open>Section \<open>t\<close> of the image is the first with this identifier.\<close>

definition sec_found :: "(nat \<Rightarrow> u8) \<Rightarrow> nat \<Rightarrow> image_ota_param \<Rightarrow> u8 \<Rightarrow> nat \<Rightarrow> u32 \<Rightarrow> bool" where
  "sec_found m N p seq t i \<longleftrightarrow> t < 255 \<and> chain_live m p seq t \<and> (\<forall>j\<le>t. unat (sec_at m p seq j) + 64 \<le> N)
     \<and> sh_id (sec_hdr m p seq t) = i \<and> (\<forall>j<t. sh_id (sec_hdr m p seq j) \<noteq> i)"

text \<open>The tests a section that is not compressed must pass to be loaded below \<open>max_addr\<close>.\<close>

definition loadable :: "(nat \<Rightarrow> u8) \<Rightarrow> u32 \<Rightarrow> nat \<Rightarrow> bool" where
  "loadable m max_addr a \<longleftrightarrow>
     (let sh = section_at m a
      in image_check_header (Some (mem_bytes m a 64)) = IMAGE_VALID \<and> body_len sh \<noteq> 0
         \<and> load_addr sh + body_len sh \<le> max_addr
         \<and> data_chksum sh + image_checksum16 (mem_bytes m (a + 64) (unat (body_len sh))) = 0xFFFF)"

lemma image_check_data_body:
  "blen \<noteq> 0 \<Longrightarrow> length body = unat blen \<Longrightarrow> image_check_data (Some sh) (Some body) blen None 0
    = (if data_chksum sh + image_checksum16 body = 0xFFFF then IMAGE_VALID else IMAGE_INVALID)"
  by (simp add: image_check_data_def Let_def)

context nor_flash
begin

text \<open>The state of the bootloader between the steps: the flash idle, the table a prefix of the chain.\<close>

abbreviation boot_ok :: "(nat \<Rightarrow> u8) \<Rightarrow> u8 \<Rightarrow> 'e boot_sys \<Rightarrow> bool" where
  "boot_ok m seq b \<equiv> st (bs_flash b) m \<and> params_ok flash (iop (bs_img b)) \<and> running_seq (iop (bs_img b)) = seq
     \<and> (\<exists>k. sec_cached m (bs_img b) seq k)"

lemma bl_read_section:
  assumes "boot_ok m seq b" "seq < IMAGE_SEQ_NUM" "\<forall>n. alloc n" "sec_found m sz (iop (bs_img b)) seq t i"
    "off = (case seg of IMAGE_SEG_HEADER \<Rightarrow> 0 | IMAGE_SEG_BODY \<Rightarrow> 64)" "seg \<noteq> IMAGE_SEG_TAILER" "n \<noteq> 0"
    "unat (sec_at m (iop (bs_img b)) seq t) + off + unat n \<le> sz"
  shows "\<exists>b'. bl_image_read devs alloc i seg 0 n b
      = Some (n, mem_bytes m (unat (sec_at m (iop (bs_img b)) seq t) + off) (unat n), b')
    \<and> boot_ok m seq b' \<and> same_other seq (bs_img b) (bs_img b') \<and> bs_ram b' = bs_ram b"
proof -
  let ?a = "sec_at m (iop (bs_img b)) seq t"
  obtain k where b: "st (bs_flash b) m" "params_ok flash (iop (bs_img b))" "running_seq (iop (bs_img b)) = seq" "sec_cached m (bs_img b) seq k"
    using assms(1) by blast
  obtain img' s1 k' where g: "image_get_addr devs alloc seq i (bs_img b) (bs_flash b) = Some (?a, img', s1)" "st s1 m"
      "same_other seq (bs_img b) img'" "sec_cached m img' seq k'"
    using image_get_addr_finds[OF b(1,2) assms(2) b(4) assms(3)] assms(4) unfolding sec_found_def by blast
  have iop: "iop img' = iop (bs_img b)" by (rule same_other_iop[OF g(3)])
  have lim: "unat ?a < 0xFFFFFFFF" using assms(7,8) u32_less[of "mSize (fd_chip dev)"] by (simp add: unat_gt_0[symmetric])
  then have ne: "?a \<noteq> 0xFFFFFFFF" by auto
  define a where "a = (case seg of IMAGE_SEG_HEADER \<Rightarrow> ?a | IMAGE_SEG_BODY \<Rightarrow> ?a + 64)"
  have a: "unat a = unat ?a + off"
  proof (cases seg)
    case IMAGE_SEG_BODY
    then have "unat (?a + 64) = unat ?a + 64" using assms(5,8) u32_less[of "mSize (fd_chip dev)"] by (subst unat_plus) simp_all
    then show ?thesis using IMAGE_SEG_BODY assms(5) by (simp add: a_def)
  qed (use assms(5,6) in \<open>simp_all add: a_def\<close>)
  obtain s2 where s2: "flash_read devs flash a n s1 = Some (n, mem_bytes m (unat ?a + off) (unat n), s2)" "st s2 m"
    using flash_read_ok[OF g(2) assms(7), of a, unfolded a] assms(8) by blast
  have "image_rw_addr devs alloc i seg False (bs_img b) (bs_flash b) = Some (Some a, img', s1)"
    using assms(6) ne by (cases seg) (simp_all add: image_rw_addr_def b(3) g(1) a_def)
  then have "bl_image_read devs alloc i seg 0 n b = Some (n, mem_bytes m (unat ?a + off) (unat n), b\<lparr>bs_img := img', bs_flash := s2\<rparr>)"
    using s2(1) params_flash(2)[OF b(2) assms(2)] by (simp add: bl_image_read_def image_read_def b(3) iop)
  then show ?thesis using s2(2) b(2,3) g(3,4) iop a by auto
qed

lemma load_by_id_ok:
  assumes "boot_ok m seq b" "seq < IMAGE_SEQ_NUM" "\<forall>n. alloc n" "sec_found m sz (iop (bs_img b)) seq t i"
    "attribute (sec_hdr m (iop (bs_img b)) seq t) AND IMAGE_ATTR_FLAG_COMPRESS = 0"
    "unat (sec_at m (iop (bs_img b)) seq t) + 64 + unat (body_len (sec_hdr m (iop (bs_img b)) seq t)) \<le> sz"
  shows "\<exists>rc e b'. bl_load_bin_by_id devs alloc xz i max_addr b = Some (rc, e, b')
    \<and> (rc = BL_LOAD_BIN_OK \<longleftrightarrow> loadable m max_addr (unat (sec_at m (iop (bs_img b)) seq t)))
    \<and> (rc = BL_LOAD_BIN_OK \<longrightarrow> e = entry (sec_hdr m (iop (bs_img b)) seq t)
         \<and> mem_bytes (bs_ram b') (unat (load_addr (sec_hdr m (iop (bs_img b)) seq t))) (unat (body_len (sec_hdr m (iop (bs_img b)) seq t)))
             = mem_bytes m (unat (sec_at m (iop (bs_img b)) seq t) + 64) (unat (body_len (sec_hdr m (iop (bs_img b)) seq t))))
    \<and> boot_ok m seq b' \<and> same_other seq (bs_img b) (bs_img b')"
proof -
  let ?a = "sec_at m (iop (bs_img b)) seq t" and ?sh = "sec_hdr m (iop (bs_img b)) seq t"
  obtain b1 where b1: "bl_image_read devs alloc i IMAGE_SEG_HEADER 0 64 b = Some (64, mem_bytes m (unat ?a) 64, b1)"
      "boot_ok m seq b1" "same_other seq (bs_img b) (bs_img b1)"
    using bl_read_section[OF assms(1-4), of 0 IMAGE_SEG_HEADER 64] assms(6) by auto
  have iop: "iop (bs_img b1) = iop (bs_img b)" by (rule same_other_iop[OF b1(3)])
  have sh: "section_of (mem_bytes m (unat ?a) 64) = ?sh" by (simp add: sec_hdr_def section_at_def)
  have stop: ?thesis if "bl_load_bin_by_id devs alloc xz i max_addr b = Some (rc, e, b')" "rc \<noteq> 0" "\<not> loadable m max_addr (unat ?a)"
    "boot_ok m seq b'" "same_other seq (bs_img b) (bs_img b')" for rc e b'
    using that by blast
  consider "image_check_header (Some (mem_bytes m (unat ?a) 64)) = IMAGE_INVALID"
    | "image_check_header (Some (mem_bytes m (unat ?a) 64)) = IMAGE_VALID" "body_len ?sh = 0"
    | "image_check_header (Some (mem_bytes m (unat ?a) 64)) = IMAGE_VALID" "body_len ?sh \<noteq> 0" "\<not> load_addr ?sh + body_len ?sh \<le> max_addr"
    | "image_check_header (Some (mem_bytes m (unat ?a) 64)) = IMAGE_VALID" "body_len ?sh \<noteq> 0" "load_addr ?sh + body_len ?sh \<le> max_addr"
    by (cases "image_check_header (Some (mem_bytes m (unat ?a) 64))") auto
  then show ?thesis
  proof cases
    case 1
    then have "bl_load_bin_by_id devs alloc xz i max_addr b = Some (BL_LOAD_BIN_INVALID, 0, b1)" by (simp add: bl_load_bin_by_id_def b1(1))
    then show ?thesis by (rule stop) (use 1 b1 in \<open>simp_all add: loadable_def Let_def\<close>)
  next
    case 2
    then have "bl_load_bin_by_id devs alloc xz i max_addr b = Some (BL_LOAD_BIN_NO_SEC, 0, b1)"
      by (simp add: bl_load_bin_by_id_def b1(1) sh assms(5))
    then show ?thesis by (rule stop) (use 2 b1 in \<open>simp_all add: loadable_def Let_def sec_hdr_def\<close>)
  next
    case 3
    then have "bl_load_bin_by_id devs alloc xz i max_addr b = Some (BL_LOAD_BIN_TOOBIG, 0, b1)"
      by (simp add: bl_load_bin_by_id_def b1(1) sh assms(5) not_le)
    then show ?thesis by (rule stop) (use 3 b1 in \<open>simp_all add: loadable_def Let_def sec_hdr_def\<close>)
  next
    case 4
    let ?body = "mem_bytes m (unat ?a + 64) (unat (body_len ?sh))"
    obtain b2 where b2: "bl_image_read devs alloc i IMAGE_SEG_BODY 0 (body_len ?sh) b1 = Some (body_len ?sh, ?body, b2)"
        "boot_ok m seq b2" "same_other seq (bs_img b1) (bs_img b2)"
      using bl_read_section[OF b1(2) assms(2,3), of t i 64 IMAGE_SEG_BODY "body_len ?sh"] assms(4,6) 4(2) by (auto simp: iop)
    define b3 where "b3 = b2\<lparr>bs_ram := mem_put (unat (load_addr ?sh)) ?body (bs_ram b2)\<rparr>"
    have ram: "mem_bytes (bs_ram b3) (unat (load_addr ?sh)) (unat (body_len ?sh)) = ?body"
      by (simp add: b3_def mem_bytes_put)
    have ok: "boot_ok m seq b3" "same_other seq (bs_img b) (bs_img b3)"
      using b2(2) same_other_trans[OF b1(3) b2(3)] by (simp_all add: b3_def)
    have "bl_load_bin_by_id devs alloc xz i max_addr b
        = Some (if data_chksum ?sh + image_checksum16 ?body = 0xFFFF then (BL_LOAD_BIN_OK, entry ?sh, b3) else (BL_LOAD_BIN_INVALID, 0, b3))"
      using 4 by (simp add: bl_load_bin_by_id_def b1(1) sh assms(5) b2(1) b3_def mem_bytes_put image_check_data_body not_less Let_def)
    moreover have "data_chksum ?sh + image_checksum16 ?body = 0xFFFF \<longleftrightarrow> loadable m max_addr (unat ?a)"
      using 4 by (simp add: loadable_def Let_def sec_hdr_def)
    ultimately show ?thesis using ram ok by auto
  qed
qed

end

section \<open>The image that is booted\<close>

lemma running_seq_simps [simp]:
  "IMG_BL_ADDR (p\<lparr>running_seq := r\<rparr>) = IMG_BL_ADDR p" "IMG_BL_FLASH (p\<lparr>running_seq := r\<rparr>) = IMG_BL_FLASH p"
  "IMG_SEC_ADDR (p\<lparr>running_seq := r\<rparr>) = IMG_SEC_ADDR p" "IMG_FLASH (p\<lparr>running_seq := r\<rparr>) = IMG_FLASH p"
  "params_ok flash (p\<lparr>running_seq := r\<rparr>) = params_ok flash p"
  "image_get_cfg devs alloc ok (p\<lparr>running_seq := r\<rparr>) = image_get_cfg devs alloc ok p"
  by (auto simp: IMG_BL_ADDR_def IMG_BL_FLASH_def IMG_SEC_ADDR_def IMG_FLASH_def params_ok_def fun_eq_iff
      image_get_cfg_def image_get_raw_cfg_def)

lemma image_set_cfg_running [simp]:
  "image_set_cfg devs alloc cfg (p\<lparr>running_seq := r\<rparr>) s = image_set_cfg devs alloc cfg p s"
  by (cases cfg) (simp_all add: image_set_cfg_def image_set_raw_cfg_def)

lemma sec_at_running [simp]: "sec_at m (p\<lparr>running_seq := r\<rparr>) seq k = sec_at m p seq k"
  by (induction k) simp_all

lemma sec_hdr_running [simp]: "sec_hdr m (p\<lparr>running_seq := r\<rparr>) seq k = sec_hdr m p seq k"
  by (simp add: sec_hdr_def)

lemma sec_found_running [simp]: "sec_found m N (p\<lparr>running_seq := r\<rparr>) seq t i = sec_found m N p seq t i"
  by (simp add: sec_found_def chain_live_def)

lemma sec_cached_running [simp]:
  "sec_cached m (img\<lparr>iop := (iop img)\<lparr>running_seq := r\<rparr>\<rparr>) seq k = sec_cached m img seq k"
proof -
  have "sec_entry m ((iop img)\<lparr>running_seq := r\<rparr>) seq = sec_entry m (iop img) seq" by (simp add: sec_entry_def fun_eq_iff)
  then show ?thesis by (cases "sec_addr img ! unat seq") (simp_all add: sec_cached_def)
qed

text \<open>An image whose application section is on the chip and not compressed; \<open>app_ok\<close> is whether it can
  be booted.\<close>

definition app_slot :: "(nat \<Rightarrow> u8) \<Rightarrow> nat \<Rightarrow> image_ota_param \<Rightarrow> u8 \<Rightarrow> nat \<Rightarrow> bool" where
  "app_slot m N p seq t \<longleftrightarrow> sec_found m N p seq t IMAGE_APP_ID
     \<and> attribute (sec_hdr m p seq t) AND IMAGE_ATTR_FLAG_COMPRESS = 0
     \<and> unat (sec_at m p seq t) + 64 + unat (body_len (sec_hdr m p seq t)) \<le> N
     \<and> entry (sec_hdr m p seq t) \<noteq> BL_INVALID_APP_ENTRY"

definition app_ok :: "(nat \<Rightarrow> u8) \<Rightarrow> u32 \<Rightarrow> image_ota_param \<Rightarrow> u8 \<Rightarrow> nat \<Rightarrow> bool" where
  "app_ok m max_addr p seq t \<longleftrightarrow> loadable m max_addr (unat (sec_at m p seq t))"

definition app_in_ram :: "(nat \<Rightarrow> u8) \<Rightarrow> (nat \<Rightarrow> u8) \<Rightarrow> image_ota_param \<Rightarrow> u8 \<Rightarrow> nat \<Rightarrow> bool" where
  "app_in_ram ram m p seq t \<longleftrightarrow>
     mem_bytes ram (unat (load_addr (sec_hdr m p seq t))) (unat (body_len (sec_hdr m p seq t)))
       = mem_bytes m (unat (sec_at m p seq t) + 64) (unat (body_len (sec_hdr m p seq t)))"

context nor_flash
begin

abbreviation boot_idle :: "(nat \<Rightarrow> u8) \<Rightarrow> image_ota_param \<Rightarrow> 'e boot_sys \<Rightarrow> bool" where
  "boot_idle m p b \<equiv> st (bs_flash b) m \<and> params_ok flash p \<and> (\<exists>r. iop (bs_img b) = p\<lparr>running_seq := r\<rparr>)
     \<and> (\<forall>q<2. \<exists>k. sec_cached m (bs_img b) q k)"

lemma load_app_ok:
  assumes "boot_idle m p b" "seq < IMAGE_SEQ_NUM" "\<forall>n. alloc n" "app_slot m sz p seq t"
  shows "\<exists>e b'. bl_load_app_bin devs alloc xz ram_base (b\<lparr>bs_img := image_set_running_seq seq (bs_img b)\<rparr>) = Some (e, b')
    \<and> e = (if app_ok m ram_base p seq t then entry (sec_hdr m p seq t) else BL_INVALID_APP_ENTRY)
    \<and> (app_ok m ram_base p seq t \<longrightarrow> app_in_ram (bs_ram b') m p seq t) \<and> boot_idle m p b'"
proof -
  obtain r where r: "iop (bs_img b) = p\<lparr>running_seq := r\<rparr>" using assms(1) by blast
  define b0 where "b0 = b\<lparr>bs_img := image_set_running_seq seq (bs_img b)\<rparr>"
  have iop0: "iop (bs_img b0) = p\<lparr>running_seq := seq\<rparr>" by (simp add: b0_def image_set_running_seq_def r)
  have cached: "\<exists>k. sec_cached m (bs_img b0) q k" if "q < 2" for q
    using assms(1) that by (simp add: b0_def image_set_running_seq_def)
  have ok: "boot_ok m seq b0" using assms(1,2) cached iop0 by (simp add: b0_def)
  obtain rc e b1 where l: "bl_load_bin_by_id devs alloc xz IMAGE_APP_ID ram_base b0 = Some (rc, e, b1)"
      "rc = BL_LOAD_BIN_OK \<longleftrightarrow> app_ok m ram_base p seq t"
      "rc = BL_LOAD_BIN_OK \<longrightarrow> e = entry (sec_hdr m p seq t) \<and> app_in_ram (bs_ram b1) m p seq t"
      "boot_ok m seq b1" "same_other seq (bs_img b0) (bs_img b1)"
    using load_by_id_ok[OF ok assms(2,3), of t IMAGE_APP_ID xz ram_base] assms(4)
    unfolding app_slot_def iop0 app_ok_def app_in_ram_def by auto
  have "sec_cached m (bs_img b1) q k" if "q \<noteq> seq" "sec_cached m (bs_img b0) q k" for q k
    using same_other_cached[OF l(5) that] .
  then have "\<forall>q<2. \<exists>k. sec_cached m (bs_img b1) q k" using cached l(4) by metis
  then have "boot_idle m p b1" using l(4) assms(1) same_other_iop[OF l(5)] iop0 by auto
  then show ?thesis unfolding b0_def[symmetric] using l(1-3) by (simp add: bl_load_app_bin_def)
qed

end

lemma store_holds_cfg:
  assumes "nor_flash devs (ucast (ota_flash p)) dev mem busy" "mem (fs_env s) = m \<and> busy (fs_env s) = 0"
    "fdcm_open devs True (ucast (ota_flash p)) (ota_addr p) (ota_size p) = Some (Some h)"
    "unat (ota_addr p) + unat (ota_size p) \<le> unat (mSize (fd_chip dev))"
    "store_holds m h (raw_bytes \<lparr>raw_seq = s_image_raw_seq ! unat seq, raw_state = IMAGE_RAW_STATE_VERIFIED\<rparr>)"
    "seq < IMAGE_SEQ_NUM" "ota_size p \<noteq> 0" "ota_addr p \<noteq> IMAGE_INVALID_ADDR"
  shows "\<exists>s'. image_get_cfg devs True True p s = Some (Some \<lparr>cfg_seq = seq, cfg_state = IMAGE_STATE_VERIFIED\<rparr>, s')
    \<and> mem (fs_env s') = m \<and> busy (fs_env s') = 0"
proof -
  have chip: "fh_flash h = ucast (ota_flash p) \<and> unat (fh_addr h) + unat (fh_size h) \<le> unat (mSize (fd_chip dev))"
    using assms(3,4) by (auto simp: fdcm_open_def split: bind_splits if_splits)
  obtain s' where "fdcm_read devs True (Some h) True 4 s
      = Some (4, raw_bytes \<lparr>raw_seq = s_image_raw_seq ! unat seq, raw_state = IMAGE_RAW_STATE_VERIFIED\<rparr>, s')"
      "mem (fs_env s') = m \<and> busy (fs_env s') = 0"
    using nor_flash.fdcm_read_holds[OF assms(1,2) chip assms(5), of 4] by auto
  then show ?thesis
    using assms(7,8) by (simp add: image_get_cfg_def image_get_raw_cfg_def assms(3) find_seq_raw[OF assms(6)])
qed

context nor_flash
begin

lemma boot_loop_ok:
  assumes "boot_idle m p b" "load < IMAGE_SEQ_NUM" "\<forall>n. alloc n" "app_slot m sz p load t" "app_slot m sz p other u"
    "other = (load + 1) mod IMAGE_SEQ_NUM" "cfg = load"
    "ucast (ota_flash p) = flash" "fdcm_open devs True (ucast (ota_flash p)) (ota_addr p) (ota_size p) = Some (Some h)"
    "unat (ota_addr p) + unat (ota_size p) \<le> sz" "store_fits h 4" "store_ready m h 4"
  shows "\<exists>e b'. boot_loop 2 devs alloc True xz ram_base cfg load b = Some (e, b')
    \<and> (app_ok m ram_base p load t \<longrightarrow> e = entry (sec_hdr m p load t) \<and> app_in_ram (bs_ram b') m p load t
         \<and> mem (fs_env (bs_flash b')) = m)
    \<and> (\<not> app_ok m ram_base p load t \<and> app_ok m ram_base p other u \<longrightarrow>
         e = entry (sec_hdr m p other u) \<and> app_in_ram (bs_ram b') m p other u \<and> same_outside h m (mem (fs_env (bs_flash b')))
         \<and> (\<exists>s. image_get_cfg devs True True p (bs_flash b') = Some (Some \<lparr>cfg_seq = other, cfg_state = IMAGE_STATE_VERIFIED\<rparr>, s)))
    \<and> (\<not> app_ok m ram_base p load t \<and> \<not> app_ok m ram_base p other u \<longrightarrow>
         e = BL_INVALID_APP_ENTRY \<and> mem (fs_env (bs_flash b')) = m)"
proof -
  have other: "other < 2" "other \<noteq> load"
  proof -
    have "unat load = 0 \<or> unat load = 1" using assms(2) by (auto simp: word_less_nat_alt)
    then have "load = 0 \<or> load = 1" by (metis unat_0 unat_1 word_unat_eq_iff)
    then show "other < 2" "other \<noteq> load" using assms(6) by auto
  qed
  have ent: "entry (sec_hdr m p load t) \<noteq> 0xFFFFFFFF" "entry (sec_hdr m p other u) \<noteq> 0xFFFFFFFF"
    using assms(4,5) by (simp_all add: app_slot_def)
  have two: "(2 :: nat) = Suc (Suc 0)" by simp
  obtain b1 where b1: "bl_load_app_bin devs alloc xz ram_base (b\<lparr>bs_img := image_set_running_seq load (bs_img b)\<rparr>)
        = Some (if app_ok m ram_base p load t then entry (sec_hdr m p load t) else 0xFFFFFFFF, b1)"
      "app_ok m ram_base p load t \<longrightarrow> app_in_ram (bs_ram b1) m p load t" "boot_idle m p b1"
    using load_app_ok[OF assms(1-4), of xz ram_base] by blast
  show ?thesis
  proof (cases "app_ok m ram_base p load t")
    case True
    then show ?thesis using b1 ent(1) assms(7) by (simp add: two)
  next
    case False
    obtain b2 where b2: "bl_load_app_bin devs alloc xz ram_base (b1\<lparr>bs_img := image_set_running_seq other (bs_img b1)\<rparr>)
          = Some (if app_ok m ram_base p other u then entry (sec_hdr m p other u) else 0xFFFFFFFF, b2)"
        "app_ok m ram_base p other u \<longrightarrow> app_in_ram (bs_ram b2) m p other u" "boot_idle m p b2"
      using load_app_ok[OF b1(3) other(1) assms(3,5), of xz ram_base] by blast
    have step: "boot_loop 2 devs alloc True xz ram_base cfg load b = boot_loop (Suc 0) devs alloc True xz ram_base cfg other b1"
      using b1(1) False assms(6) by (simp add: two)
    show ?thesis
    proof (cases "app_ok m ram_base p other u")
      case True
      obtain r where r: "iop (bs_img b2) = p\<lparr>running_seq := r\<rparr>" using b2(3) by blast
      have flash: "nor_flash devs (ucast (ota_flash p)) dev mem busy" using nor_flash_axioms assms(8) by simp
      obtain s' where s': "image_set_cfg devs True (Some \<lparr>cfg_seq = other, cfg_state = IMAGE_STATE_VERIFIED\<rparr>) p (bs_flash b2) = Some (0, s')"
          "same_outside h m (mem (fs_env s'))"
          "\<exists>s. image_get_cfg devs True True p s' = Some (Some \<lparr>cfg_seq = other, cfg_state = IMAGE_STATE_VERIFIED\<rparr>, s)"
        using image_set_cfg_stores[OF flash _ assms(9,10,11) _ other(1), of "bs_flash b2"] b2(3) assms(12) by auto
      then show ?thesis using step b2(1,2) True False other(2) assms(7) ent(2) r by auto
    next
      case other_bad: False
      then show ?thesis using step b2(1,3) False by simp
    qed
  qed
qed

end

section \<open>Properties\<close>

text \<open>The parameters the bootloader derives from its own header.\<close>

definition boot_params :: "(nat \<Rightarrow> u8) \<Rightarrow> image_ota_param" where
  "boot_params m = init_params (section_at m 0) PRJCONF_IMG_FLASH PRJCONF_IMG_ADDR PRJCONF_IMG_MAX_SIZE"

lemma bl_load_bin_ok:
  assumes "nor_flash devs 0 dev mem busy" "mem (fs_env (bs_flash b)) = m" "busy (fs_env (bs_flash b)) = 0"
    "p = boot_params m" "params_ok 0 p" "64 \<le> unat (mSize (fd_chip dev))" "ota_flash p = 0" "\<forall>n. alloc n"
    "fdcm_open devs True 0 (ota_addr p) (ota_size p) = Some (Some h)"
    "unat (ota_addr p) + unat (ota_size p) \<le> unat (mSize (fd_chip dev))" "store_fits h 4"
    "store_holds m h (raw_bytes \<lparr>raw_seq = s_image_raw_seq ! unat load, raw_state = IMAGE_RAW_STATE_VERIFIED\<rparr>)"
    "load < IMAGE_SEQ_NUM" "other = (load + 1) mod IMAGE_SEQ_NUM"
    "app_slot m (unat (mSize (fd_chip dev))) p load t" "app_slot m (unat (mSize (fd_chip dev))) p other u"
  shows "\<exists>e b'. bl_load_bin devs alloc True xz ram_base b = Some (e, b')
    \<and> (app_ok m ram_base p load t \<longrightarrow> e = entry (sec_hdr m p load t) \<and> app_in_ram (bs_ram b') m p load t
         \<and> mem (fs_env (bs_flash b')) = m)
    \<and> (\<not> app_ok m ram_base p load t \<and> app_ok m ram_base p other u \<longrightarrow>
         e = entry (sec_hdr m p other u) \<and> app_in_ram (bs_ram b') m p other u \<and> same_outside h m (mem (fs_env (bs_flash b')))
         \<and> (\<exists>s. image_get_cfg devs True True p (bs_flash b') = Some (Some \<lparr>cfg_seq = other, cfg_state = IMAGE_STATE_VERIFIED\<rparr>, s)))
    \<and> (\<not> app_ok m ram_base p load t \<and> \<not> app_ok m ram_base p other u \<longrightarrow>
         e = BL_INVALID_APP_ENTRY \<and> mem (fs_env (bs_flash b')) = m)"
proof -
  have h: "fh_addr h = ota_addr p" "fh_size h = ota_size p"
    using assms(9) by (auto simp: fdcm_open_def split: bind_splits if_splits)
  have n: "8 < unat (ota_size p)" using assms(11) h by (simp add: store_fits_def slot_at_def)
  then have "unat (ota_addr p) < 0xFFFFFFFF" using assms(10) u32_less[of "mSize (fd_chip dev)"] by simp
  then have ok: "ota_addr p \<noteq> 0xFFFFFFFF" "ota_size p \<noteq> 0" using n by auto
  have st: "mem (fs_env (bs_flash b)) = m \<and> busy (fs_env (bs_flash b)) = 0" using assms(2,3) by simp
  obtain s1 where s1: "flash_read devs 0 0 64 (bs_flash b) = Some (64, mem_bytes m 0 64, s1)" "mem (fs_env s1) = m \<and> busy (fs_env s1) = 0"
    using nor_flash.flash_read_ok[OF assms(1) st, of 64 0] assms(6) by auto
  define img where "img = image_set_running_seq 2 (image_clear_sec_addr ((bs_img b)\<lparr>iop := p\<lparr>running_seq := running_seq (iop (bs_img b))\<rparr>\<rparr>))"
  have init: "image_init True False devs True 0 0 0xFF000 (bs_img b) (bs_flash b) = Some (0, img, s1)"
    by (simp add: image_init_def s1(1) img_def assms(4) boot_params_def section_at_def)
  have iop: "iop img = p\<lparr>running_seq := 2\<rparr>" by (simp add: img_def image_set_running_seq_def image_clear_sec_addr_def)
  have cached: "sec_cached m img q 0" if "q < 2" for q
    using that by (simp add: img_def image_set_running_seq_def sec_cached_clear word_less_nat_alt)
  have flash: "nor_flash devs (ucast (ota_flash p)) dev mem busy" using assms(1,7) by simp
  have open': "fdcm_open devs True (ucast (ota_flash p)) (ota_addr p) (ota_size p) = Some (Some h)" using assms(7,9) by simp
  obtain s2 where s2: "image_get_cfg devs True True p s1 = Some (Some \<lparr>cfg_seq = load, cfg_state = IMAGE_STATE_VERIFIED\<rparr>, s2)"
      "mem (fs_env s2) = m \<and> busy (fs_env s2) = 0"
    using store_holds_cfg[OF flash s1(2) open' assms(10,12,13) ok(2,1)] by blast
  have ready: "store_ready m h 4" using store_holds_ready[OF assms(12)] by simp
  define b0 where "b0 = b\<lparr>bs_img := img, bs_flash := s2\<rparr>"
  have idle: "(mem (fs_env (bs_flash b0)) = m \<and> busy (fs_env (bs_flash b0)) = 0) \<and> params_ok 0 p
      \<and> (\<exists>r. iop (bs_img b0) = p\<lparr>running_seq := r\<rparr>) \<and> (\<forall>q<2. \<exists>k. sec_cached m (bs_img b0) q k)"
    using s2(2) assms(5) iop cached by (auto simp: b0_def)
  have "load \<noteq> 2" using assms(13) by auto
  then have "bl_load_bin devs alloc True xz ram_base b = boot_loop 2 devs alloc True xz ram_base load load b0"
    by (simp add: bl_load_bin_def init iop ok(1) s2(1) b0_def)
  then show ?thesis
    using nor_flash.boot_loop_ok[OF assms(1) idle assms(13,8,15,16,14) refl _ open' assms(10,11) ready, of xz ram_base] assms(7) by simp
qed

text \<open>C8. Which image is booted, when updates are enabled and the configuration names image \<open>load\<close>: the
  entry point of its application section if the section is valid and lies below the bootloader's RAM,
  else that of the other image if that one is valid, else none. The RAM then holds the body of the
  booted section, and when the other image was booted the configuration names it from then on, with no
  byte of the flash changed outside the configuration area.\<close>

theorem bl_load_bin_boots:
  assumes "nor_flash devs 0 dev mem busy" "mem (fs_env (bs_flash b)) = m" "busy (fs_env (bs_flash b)) = 0"
    "p = boot_params m" "params_ok 0 p" "64 \<le> unat (mSize (fd_chip dev))" "ota_flash p = 0" "\<forall>n. alloc n"
    "fdcm_open devs True 0 (ota_addr p) (ota_size p) = Some (Some h)"
    "unat (ota_addr p) + unat (ota_size p) \<le> unat (mSize (fd_chip dev))" "store_fits h 4"
    "store_holds m h (raw_bytes \<lparr>raw_seq = s_image_raw_seq ! unat load, raw_state = IMAGE_RAW_STATE_VERIFIED\<rparr>)"
    "load < IMAGE_SEQ_NUM" "other = (load + 1) mod IMAGE_SEQ_NUM"
    "app_slot m (unat (mSize (fd_chip dev))) p load t" "app_slot m (unat (mSize (fd_chip dev))) p other u"
  shows "\<exists>e b'. bl_load_bin devs alloc True xz ram_base b = Some (e, b')
    \<and> (app_ok m ram_base p load t \<longrightarrow> e = entry (sec_hdr m p load t) \<and> app_in_ram (bs_ram b') m p load t
         \<and> mem (fs_env (bs_flash b')) = m)
    \<and> (\<not> app_ok m ram_base p load t \<and> app_ok m ram_base p other u \<longrightarrow>
         e = entry (sec_hdr m p other u) \<and> app_in_ram (bs_ram b') m p other u \<and> same_outside h m (mem (fs_env (bs_flash b')))
         \<and> (\<exists>s. image_get_cfg devs True True p (bs_flash b') = Some (Some \<lparr>cfg_seq = other, cfg_state = IMAGE_STATE_VERIFIED\<rparr>, s)))
    \<and> (\<not> app_ok m ram_base p load t \<and> \<not> app_ok m ram_base p other u \<longrightarrow>
         e = BL_INVALID_APP_ENTRY \<and> mem (fs_env (bs_flash b')) = m)"
  using bl_load_bin_ok[where b = b and mem = mem and busy = busy and alloc = alloc, OF assms] .

section \<open>Examples\<close>

text \<open>The chip after an update: both images and a configuration that names the second one.\<close>

definition demo_raw :: "u8 list" where
  "demo_raw = raw_bytes \<lparr>raw_seq = 0xAAAA, raw_state = IMAGE_RAW_STATE_VERIFIED\<rparr>"

definition demo_chip :: "nat \<Rightarrow> u8" where
  "demo_chip = area_begin (region_put demo_mem demo_params 1 demo_file) demo_ota_area 4 124 demo_raw"

lemma demo_chip_holds: "store_holds demo_chip demo_ota_area demo_raw" "same_outside demo_ota_area (region_put demo_mem demo_params 1 demo_file) demo_chip"
proof -
  have b: "rewrite_bitmap_size (fh_size demo_ota_area) 4 = 124" by (simp add: demo_ota_area_def cfg_area_bitmap)
  have l: "length demo_raw = unat (4 :: u16)" by (simp add: demo_raw_def)
  show "store_holds demo_chip demo_ota_area demo_raw" "same_outside demo_ota_area (region_put demo_mem demo_params 1 demo_file) demo_chip"
    unfolding demo_chip_def using store_begin[OF demo_store l] by (simp_all add: b)
qed

lemma demo_chip_bytes:
  "mem_bytes demo_chip 0 64 = demo_bl" "mem_bytes demo_chip 0x8000 64 = demo_app" "mem_bytes demo_chip 0x8040 4 = [3, 4, 5, 6]"
  "mem_bytes demo_chip 0x101000 64 = demo_app" "mem_bytes demo_chip 0x101040 4 = [3, 4, 5, 6]"
proof -
  have out: "mem_bytes demo_chip a n = mem_bytes (region_put demo_mem demo_params 1 demo_file) a n" if "a + n \<le> 0x100000 \<or> 0x101000 \<le> a" for a n
    by (rule mem_bytes_cong) (use demo_chip_holds(2) that in \<open>auto simp: same_outside_def demo_ota_area_def\<close>)
  have inner: "mem_bytes (region_put demo_mem demo_params 1 demo_file) a n = mem_bytes demo_mem a n" if "a + n \<le> 0x101000" for a n
    by (rule mem_bytes_cong) (use that in \<open>simp add: region_put_outside demo_region_1\<close>)
  show "mem_bytes demo_chip 0 64 = demo_bl" "mem_bytes demo_chip 0x8000 64 = demo_app" "mem_bytes demo_chip 0x8040 4 = [3, 4, 5, 6]"
    "mem_bytes demo_chip 0x101000 64 = demo_app" "mem_bytes demo_chip 0x101040 4 = [3, 4, 5, 6]"
    by (simp_all add: out inner demo_bytes demo_updated)
qed

lemma demo_chip_sections:
  "section_at demo_chip 0 = section_at demo_mem 0" "section_at demo_chip 0x8000 = section_at demo_mem 0x8000"
  "section_at demo_chip 0x101000 = section_at demo_mem 0x8000"
  by (simp_all add: section_at_def demo_chip_bytes demo_bytes)

definition demo_boot_params :: image_ota_param where
  "demo_boot_params = \<lparr>ota_flash = 0, ota_size = 0x1000, ota_addr = 0x100000, img_max_size = 0xF7000, bl_size = 0x8000,
     running_seq = 0, iop_flash = [0, 0], iop_addr = [0x8000, 0x101000]\<rparr>"

lemma demo_boot_params: "boot_params demo_chip = demo_boot_params"
proof -
  have "init_params (section_of demo_bl) 0 0 0xFF000 = demo_boot_params" by code_simp
  then show ?thesis by (simp add: boot_params_def section_at_def demo_chip_bytes)
qed

lemma demo_boot_chain:
  "IMG_BL_ADDR demo_boot_params = 0" "IMG_SEC_ADDR demo_boot_params 0 0x8000 = 0x8000" "IMG_SEC_ADDR demo_boot_params 1 0x8000 = 0x101000"
  by (simp_all add: demo_boot_params_def IMG_BL_ADDR_def IMG_SEC_ADDR_def)

lemma demo_slots: "app_slot demo_chip 0x200000 demo_boot_params 0 (Suc 0)" "app_slot demo_chip 0x200000 demo_boot_params 1 (Suc 0)"
  by (simp_all add: app_slot_def sec_found_def chain_live_def sec_hdr_def demo_boot_chain demo_chip_sections demo_section_bl
      demo_section_app le_Suc_eq)

lemma demo_app_ok: "app_ok demo_chip 0x20000 demo_boot_params 1 (Suc 0)"
  by (simp add: app_ok_def loadable_def Let_def demo_boot_chain demo_chip_sections demo_section_bl demo_section_app demo_chip_bytes
      demo_header_valid demo_checksums)

definition demo_xz :: "unit xz_decoder" where
  "demo_xz = \<lparr>xz_dec_init = None, xz_dec_run = \<lambda>x inp room. (x, 0, [], XZ_FAILED)\<rparr>"

definition demo_machine :: "nor_part boot_sys" where
  "demo_machine = \<lparr>bs_img = demo_img, bs_ram = \<lambda>_. 0, bs_flash = nor_sys demo_chip\<rparr>"

theorem bl_load_bin_boots_witness:
  "\<exists>b'. bl_load_bin nor_devs (\<lambda>_. True) True demo_xz 0x20000 demo_machine = Some (0x10001, b')
    \<and> mem_bytes (bs_ram b') 0x10000 4 = [3, 4, 5, 6] \<and> np_mem (fs_env (bs_flash b')) = demo_chip"
proof -
  have sys: "np_mem (fs_env (bs_flash demo_machine)) = demo_chip" "np_busy (fs_env (bs_flash demo_machine)) = 0"
    by (simp_all add: demo_machine_def nor_sys_def)
  have params: "params_ok 0 demo_boot_params" "ota_flash demo_boot_params = 0" "ota_addr demo_boot_params = 0x100000" "ota_size demo_boot_params = 0x1000"
    by (simp_all add: demo_boot_params_def params_ok_def)
  have raw: "raw_bytes \<lparr>raw_seq = s_image_raw_seq ! Suc 0, raw_state = IMAGE_RAW_STATE_VERIFIED\<rparr> = demo_raw"
    by (simp add: demo_raw_def s_image_raw_seq_def)
  show ?thesis
    using bl_load_bin_boots[OF nor.nor_flash_axioms sys demo_boot_params[symmetric] params(1) _ params(2), where h = demo_ota_area and load = 1
        and other = 0 and t = "Suc 0" and u = "Suc 0" and xz = demo_xz and ram_base = "0x20000" and alloc = "\<lambda>_. True"]
      demo_ota_open demo_store demo_chip_holds(1) demo_slots demo_app_ok
    by (auto simp: params nor_size raw app_in_ram_def sec_hdr_def demo_boot_chain demo_chip_sections demo_section_bl
        demo_section_app demo_chip_bytes)
qed

end
