(* ===== verification/Update.thy ===== *)
theory Update
  imports Bootloader
begin

unbundle bit_operations_syntax

text \<open>
  The parts of an update together: fetching and checking an image (\<^verbatim>\<open>src/ota/ota.c\<close>), verifying and
  selecting it, and the next cold start (\<^verbatim>\<open>project/bootloader/main.c\<close>), over one flash chip.
\<close>

section \<open>Memory outside the configuration area\<close>

definition away :: "fdcm_handle \<Rightarrow> nat \<Rightarrow> nat \<Rightarrow> bool" where
  "away h a n \<longleftrightarrow> a + n \<le> unat (fh_addr h) \<or> unat (fh_addr h) + unat (fh_size h) \<le> a"

lemma mem_bytes_away: "same_outside h m m' \<Longrightarrow> away h a n \<Longrightarrow> mem_bytes m' a n = mem_bytes m a n"
  by (rule mem_bytes_cong) (auto simp: same_outside_def away_def)

text \<open>The headers of an image up to its application section, and the body of that section.\<close>

definition app_away :: "fdcm_handle \<Rightarrow> (nat \<Rightarrow> u8) \<Rightarrow> image_ota_param \<Rightarrow> u8 \<Rightarrow> nat \<Rightarrow> bool" where
  "app_away h m p seq t \<longleftrightarrow> (\<forall>j\<le>t. away h (unat (sec_at m p seq j)) 64)
     \<and> away h (unat (sec_at m p seq t) + 64) (unat (body_len (sec_hdr m p seq t)))"

lemma sec_at_same:
  assumes "\<And>j. j \<le> t \<Longrightarrow> mem_bytes m' (unat (sec_at m p seq j)) 64 = mem_bytes m (unat (sec_at m p seq j)) 64" "j \<le> t"
  shows "sec_at m' p seq j = sec_at m p seq j \<and> sec_hdr m' p seq j = sec_hdr m p seq j"
  using assms(2)
proof (induction j)
  case 0
  then show ?case using assms(1)[of 0] by (simp add: sec_hdr_def section_at_def)
next
  case (Suc j)
  then have "sec_at m' p seq j = sec_at m p seq j" "section_at m' (unat (sec_at m p seq j)) = section_at m (unat (sec_at m p seq j))"
    unfolding sec_hdr_def by (metis Suc_leD)+
  then have "sec_at m' p seq (Suc j) = sec_at m p seq (Suc j)" by simp
  then show ?case using assms(1)[OF Suc.prems] unfolding sec_hdr_def section_at_def by metis
qed

lemma app_same_outside:
  assumes "same_outside h m m'" "app_away h m p seq t"
  shows "sec_hdr m' p seq t = sec_hdr m p seq t"
    "app_slot m' N p seq t = app_slot m N p seq t"
    "app_ok m' max_addr p seq t = app_ok m max_addr p seq t"
    "app_in_ram ram m' p seq t = app_in_ram ram m p seq t"
proof -
  have bytes: "mem_bytes m' (unat (sec_at m p seq j)) 64 = mem_bytes m (unat (sec_at m p seq j)) 64" if "j \<le> t" for j
    using mem_bytes_away[OF assms(1)] assms(2) that by (simp add: app_away_def)
  have same: "sec_at m' p seq j = sec_at m p seq j" "sec_hdr m' p seq j = sec_hdr m p seq j" if "j \<le> t" for j
    using sec_at_same[where t = t and m' = m' and m = m, OF bytes that] by simp_all
  have sec: "section_at m' (unat (sec_at m p seq t)) = sec_hdr m p seq t" "section_at m (unat (sec_at m p seq t)) = sec_hdr m p seq t"
    using same[of t] by (simp_all add: sec_hdr_def)
  have body: "mem_bytes m' (unat (sec_at m p seq t) + 64) (unat (body_len (sec_hdr m p seq t)))
      = mem_bytes m (unat (sec_at m p seq t) + 64) (unat (body_len (sec_hdr m p seq t)))"
    using mem_bytes_away[OF assms(1)] assms(2) by (simp add: app_away_def)
  show "sec_hdr m' p seq t = sec_hdr m p seq t" using same by simp
  show "app_slot m' N p seq t = app_slot m N p seq t"
    using same by (simp add: app_slot_def sec_found_def chain_live_def)
  show "app_ok m' max_addr p seq t = app_ok m max_addr p seq t"
    using bytes[of t] body by (simp add: app_ok_def loadable_def same sec Let_def)
  show "app_in_ram ram m' p seq t = app_in_ram ram m p seq t"
    using body by (simp add: app_in_ram_def same)
qed

lemma store_ready_cong:
  assumes "\<And>i. unat (fh_addr h) \<le> i \<Longrightarrow> i < unat (fh_addr h) + unat (fh_size h) \<Longrightarrow> m' i = m i" "8 \<le> unat (fh_size h)"
  shows "store_ready m' h dsize = store_ready m h dsize"
proof -
  have hdr: "mem_bytes m' (unat (fh_addr h)) 8 = mem_bytes m (unat (fh_addr h)) 8"
    by (rule mem_bytes_cong) (use assms in auto)
  have "mem_bytes m' (unat (fh_addr h) + 8) (unat b) = mem_bytes m (unat (fh_addr h) + 8) (unat b)" if "8 + unat b < unat (fh_size h)" for b :: u16
    by (rule mem_bytes_cong) (use assms that in auto)
  moreover have "(\<forall>i. slot_at h dsize b k \<le> i \<longrightarrow> i < unat (fh_addr h) + unat (fh_size h) \<longrightarrow> m' i = 0xFF)
      = (\<forall>i. slot_at h dsize b k \<le> i \<longrightarrow> i < unat (fh_addr h) + unat (fh_size h) \<longrightarrow> m i = 0xFF)" for b k
    using assms(1) by (auto simp: slot_at_def)
  ultimately have "fdcm_area m' h dsize b k = fdcm_area m h dsize b k" for b k
    unfolding fdcm_area_def hdr by metis
  then show ?thesis by (simp add: store_ready_def hdr)
qed

section \<open>Fetch, verify, restart\<close>

lemma region_put_prefix:
  assumes "k \<le> length d"
  shows "mem_bytes (region_put m p seq d) (unat (iop_addr p ! unat seq)) k = take k d"
  by (rule nth_equalityI) (use assms in \<open>auto simp: region_put_def mem_put_def\<close>)

lemma region_put_running [simp]:
  "region_put m (p\<lparr>running_seq := r\<rparr>) seq d = region_put m p seq d"
  "region_ok devs flash N (p\<lparr>running_seq := r\<rparr>) seq = region_ok devs flash N p seq"
  "chain_ends m (p\<lparr>running_seq := r\<rparr>) seq n = chain_ends m p seq n"
  "chain_fits m N (p\<lparr>running_seq := r\<rparr>) seq n = chain_fits m N p seq n"
  "chain_valid m (p\<lparr>running_seq := r\<rparr>) seq n = chain_valid m p seq n"
  by (simp_all add: region_put_def region_ok_def chain_ends_def chain_fits_def chain_valid_def)

text \<open>C16. A complete update over a power cycle. A device runs image \<open>running\<close> from a chip whose
  bootloader header gives the parameters \<open>p\<close>; a file with an image of valid sections is fetched over a
  source that does not fail, its digest (all but the 44 bytes of verification data) is the expected one,
  and its application section can be loaded. Then fetching and verifying answer OK, and the bootloader of
  the next cold start boots the new application: it returns its entry point, with the body of the section
  in the RAM. The configuration area lies apart from both images.\<close>

theorem update_boots_new_image:
  assumes "ota_update devs 0 dev mem busy (srcs protocol) live rest content" "src_reliable (srcs protocol)"
    "busy (fs_env s) = 0" "p = boot_params (mem (fs_env s))" "iop img = p\<lparr>running_seq := running\<rparr>"
    "ota_get_update_seq (iop img) ota_init = seq" "seq < IMAGE_SEQ_NUM" "params_ok 0 p" "ota_flash p = 0" "\<forall>n. alloc n"
    "region_ok devs 0 (unat (mSize (fd_chip dev))) p seq" "64 \<le> unat (iop_addr p ! unat seq)" "64 \<le> unat (ota_addr p)"
    "content url c = bl @ fdata" "length bl = unat (bl_size p)" "44 < length fdata" "length fdata \<le> unat (img_max_size p)"
    "unat (bl_size p) + length fdata < 2 ^ 32"
    "m = region_put (mem (fs_env s)) p seq fdata" "chain_ends m p seq n" "chain_valid m p seq n"
    "chain_fits m (unat (mSize (fd_chip dev))) p seq n"
    "digest_law (engs verify)" "verify \<noteq> OTA_VERIFY_NONE"
    "digest_of (engs verify) (bl_size p + of_nat (length fdata)) (take (length fdata - 44) fdata) = Some d"
    "take (digest_len verify) expected = take (digest_len verify) d"
    "fdcm_open devs True 0 (ota_addr p) (ota_size p) = Some (Some h)" "store_fits h 4" "store_ready (mem (fs_env s)) h 4"
    "unat (ota_addr p) + unat (ota_size p) \<le> unat (mSize (fd_chip dev))"
    "away h (unat (iop_addr p ! unat seq)) (unat (img_max_size p))"
    "app_slot m (unat (mSize (fd_chip dev))) p seq t" "app_away h m p seq t" "app_ok m ram_base p seq t"
    "app_slot m (unat (mSize (fd_chip dev))) p running u" "app_away h m p running u"
  shows "\<exists>ota' c' s1 s2. ota_get_image devs alloc srcs protocol (Some url) img ota c s = Some (OTA_STATUS_OK, ota', c', s1)
    \<and> ota_verify_image devs alloc True engs verify (Some expected) (iop img) ota' s1 = Some (OTA_STATUS_OK, s2) \<and> busy (fs_env s2) = 0
    \<and> (\<forall>b. mem (fs_env (bs_flash b)) = mem (fs_env s2) \<and> busy (fs_env (bs_flash b)) = 0 \<longrightarrow>
         (\<exists>b'. bl_load_bin devs alloc True xz ram_base b = Some (entry (sec_hdr m p seq t), b')
            \<and> app_in_ram (bs_ram b') m p seq t))"
proof -
  let ?N = "unat (mSize (fd_chip dev))" and ?a = "iop_addr p ! unat seq"
  have flash: "nor_flash devs 0 dev mem busy" using assms(1) by (rule ota_update.axioms(1))
  have iop: "bl_size (iop img) = bl_size p" "img_max_size (iop img) = img_max_size p" "iop_addr (iop img) = iop_addr p"
    "ota_flash (iop img) = 0" "ota_addr (iop img) = ota_addr p" "ota_size (iop img) = ota_size p" "running_seq (iop img) = running"
    using assms(5,9) by simp_all
  have par: "params_ok 0 (iop img)" using assms(5,8) by simp
  have run: "running < IMAGE_SEQ_NUM" "running = (seq + 1) mod IMAGE_SEQ_NUM"
  proof -
    show r: "running < IMAGE_SEQ_NUM" using update_seq_other(2)[OF assms(6,7)] iop by simp
    then have "unat running = 0 \<or> unat running = 1" by (auto simp: word_less_nat_alt)
    then have "running = 0 \<or> running = 1" by (metis unat_0 unat_1 word_unat_eq_iff)
    moreover have "seq = [1, 0] ! unat running"
      using assms(6,7) iop by (auto simp: ota_get_update_seq_def ota_update_seq_policy_def split: if_splits)
    ultimately show "running = (seq + 1) mod IMAGE_SEQ_NUM" by auto
  qed
  have "fdata \<noteq> []" using assms(16) by auto
  then obtain ota' c' s1 where g: "ota_get_image devs alloc srcs protocol (Some url) img ota c s = Some (OTA_STATUS_OK, ota', c', s1)"
      "busy (fs_env s1) = 0" "ota_iop ota'" "mem (fs_env s1) = m" "get_size ota' = bl_size p + of_nat (length fdata)"
    using ota_get_image_ok[where s = s and mem = mem and busy = busy and img = img and srcs = srcs and protocol = protocol and alloc = alloc
        and url = url and c = c and bl = bl and fdata = fdata and n = n and ota = ota, OF assms(1,3) par assms(6,7)]
      assms(2,5,10,11,14,15,17,19-22) iop by auto
  have st1: "mem (fs_env s1) = m \<and> busy (fs_env s1) = 0" using g(2,4) by simp
  have len: "length fdata < 2 ^ 32" using assms(18) by simp
  then have f: "unat (of_nat (length fdata) :: u32) = length fdata" by (simp add: unat_of_nat32)
  have "unat (of_nat (length fdata) - 44 :: u32) = length fdata - 44"
    using assms(16) f by (subst unat_sub) (simp_all add: word_le_nat_alt)
  then have size: "unat (get_size ota' - bl_size p - OTA_VERIFY_SIZE) = length fdata - 44" using g(5) by simp
  have nz: "get_size ota' \<noteq> 0"
  proof -
    have "unat (bl_size p + of_nat (length fdata) :: u32) = unat (bl_size p) + length fdata"
      using assms(18) f by (subst unat_plus) simp_all
    then show ?thesis using g(5) assms(16) by (metis add_is_0 not_less_zero unat_0)
  qed
  have bytes: "mem_bytes m (unat ?a) (length fdata - 44) = take (length fdata - 44) fdata"
    using region_put_prefix[of "length fdata - 44" fdata] assms(19) by simp
  have h: "fh_addr h = ota_addr p" "fh_size h = ota_size p"
    using assms(27) by (auto simp: fdcm_open_def split: bind_splits if_splits)
  have outside: "m i = mem (fs_env s) i" if "i < unat ?a \<or> unat ?a + unat (img_max_size p) \<le> i" for i
    using region_put_outside[OF assms(17) that] assms(19) by simp
  have n: "8 < unat (ota_size p)" using assms(28) h by (simp add: store_fits_def slot_at_def)
  have ready: "store_ready m h 4"
    using assms(29) store_ready_cong[of h m "mem (fs_env s)" 4] outside assms(31) n h by (auto simp: away_def)
  have region: "unat ?a + unat (img_max_size p) \<le> ?N" using assms(11) by (simp add: region_ok_def)
  have sq: "ota_get_update_seq (iop img) ota' = seq" using assms(6) g(3) by (simp add: ota_get_update_seq_def ota_init_def)
  have fits: "unat (iop_addr (iop img) ! unat seq) + unat (get_size ota' - bl_size (iop img) - OTA_VERIFY_SIZE) \<le> ?N"
    using region assms(17) size iop by simp
  have dg: "digest_of (engs verify) (get_size ota') (mem_bytes (mem (fs_env s1)) (unat (iop_addr (iop img) ! unat seq))
      (unat (get_size ota' - bl_size (iop img) - OTA_VERIFY_SIZE))) = Some d"
    using assms(25) bytes size g(4,5) iop by simp
  have op: "fdcm_open devs True (ucast (ota_flash (iop img))) (ota_addr (iop img)) (ota_size (iop img)) = Some (Some h)"
    using assms(27) iop by simp
  obtain status s2 where v0: "ota_verify_image devs alloc True engs verify (Some expected) (iop img) ota' s1 = Some (status, s2)"
      "status = OTA_STATUS_OK \<longleftrightarrow> take (digest_len verify) expected = take (digest_len verify) d"
      "status = OTA_STATUS_OK \<longrightarrow> busy (fs_env s2) = 0
         \<and> store_holds (mem (fs_env s2)) h (raw_bytes \<lparr>raw_seq = s_image_raw_seq ! unat seq, raw_state = IMAGE_RAW_STATE_VERIFIED\<rparr>)
         \<and> same_outside h (mem (fs_env s1)) (mem (fs_env s2))"
    using ota_verify_image_ok[where s = s1 and mem = mem and busy = busy and p = "iop img" and ota = ota' and engs = engs and verify = verify
        and alloc = alloc and d = d and h = h and expected = expected and seq = seq,
        OF flash g(2) par _ sq assms(7) nz assms(24) _ assms(23) fits dg op _ assms(28)] assms(10,30) iop ready g(4) by auto
  have v: "ota_verify_image devs alloc True engs verify (Some expected) (iop img) ota' s1 = Some (OTA_STATUS_OK, s2) \<and> busy (fs_env s2) = 0"
      "store_holds (mem (fs_env s2)) h (raw_bytes \<lparr>raw_seq = s_image_raw_seq ! unat seq, raw_state = IMAGE_RAW_STATE_VERIFIED\<rparr>)"
      "same_outside h m (mem (fs_env s2))"
    using v0 assms(26) g(4) by simp_all
  have "mem_bytes (mem (fs_env s2)) 0 64 = mem_bytes (mem (fs_env s)) 0 64"
  proof -
    have "mem_bytes (mem (fs_env s2)) 0 64 = mem_bytes m 0 64" using mem_bytes_away[OF v(3)] assms(13) h by (simp add: away_def)
    also have "\<dots> = mem_bytes (mem (fs_env s)) 0 64" by (rule mem_bytes_cong) (use outside assms(12) in simp)
    finally show ?thesis .
  qed
  then have p: "p = boot_params (mem (fs_env s2))" using assms(4) by (simp add: boot_params_def section_at_def)
  note new = app_same_outside[OF v(3) assms(33)] and old = app_same_outside[OF v(3) assms(36)]
  have boot: "\<exists>b'. bl_load_bin devs alloc True xz ram_base b = Some (entry (sec_hdr m p seq t), b') \<and> app_in_ram (bs_ram b') m p seq t"
    if "mem (fs_env (bs_flash b)) = mem (fs_env s2) \<and> busy (fs_env (bs_flash b)) = 0" for b :: "'a boot_sys"
    using bl_load_bin_ok[where b = b and mem = mem and busy = busy and alloc = alloc and m = "mem (fs_env s2)" and p = p and load = seq
        and other = running and h = h and t = t and u = u and ram_base = ram_base and xz = xz and devs = devs,
        OF flash _ _ p assms(8) _ assms(9,10,27,30,28) v(2) assms(7) run(2)] that new old assms(11,12,32,34,35)
    by (auto simp: region_ok_def)
  show ?thesis using g(1) v(1) boot by blast
qed

section \<open>An example\<close>

text \<open>A volume in memory where a missing file reads as an empty one, so that no call fails.\<close>

definition total_fs :: "(u8 list, u8 list \<Rightarrow> u8 list option) file_system" where
  "total_fs = ram_fs\<lparr>f_open := \<lambda>path v. (Some (ram_contents path v), v)\<rparr>"

interpretation total: file_reads total_fs True "\<lambda>f v. f" ram_contents
  by unfold_locales
    (auto simp: total_fs_def ram_fs_def ram_contents_def word_le_nat_alt word_less_nat_alt unat_of_nat_min)

interpretation nor_total: ota_update nor_devs 0 nor_dev np_mem np_busy "ota_file_source total_fs True"
  total.file_live total.file_rest "\<lambda>url c. ram_contents (drop 7 url) (volume c)"
  by (intro ota_update.intro nor.nor_flash_axioms total.feed.ota_feed_axioms)

lemma total_reliable: "src_reliable (ota_file_source total_fs True)"
  by (auto simp: src_reliable_def ota_file_source_def ota_update_file_init_def ota_update_file_get_def total_fs_def ram_fs_def Let_def
      split: option.splits bind_splits)

text \<open>The device before the update, running the first image.\<close>

definition demo_running :: image_priv where
  "demo_running = demo_img\<lparr>iop := demo_boot_params\<rparr>"

abbreviation demo_fetched :: "nat \<Rightarrow> u8" where
  "demo_fetched \<equiv> region_put demo_mem demo_boot_params 1 demo_file"

lemma demo_boot_before: "boot_params demo_mem = demo_boot_params"
  using demo_boot_params by (simp add: boot_params_def demo_chip_sections section_at_def demo_bytes demo_chip_bytes)

lemma demo_boot_fields:
  "bl_size demo_boot_params = 0x8000" "img_max_size demo_boot_params = 0xF7000" "iop_addr demo_boot_params = [0x8000, 0x101000]"
  "running_seq demo_boot_params = 0" "ota_addr demo_boot_params = 0x100000" "ota_size demo_boot_params = 0x1000" "ota_flash demo_boot_params = 0"
  "params_ok 0 demo_boot_params"
  by (simp_all add: demo_boot_params_def params_ok_def)

lemma demo_boot_region: "region_ok nor_devs 0 0x200000 demo_boot_params 1"
proof -
  have "(0xF7000 :: u32) AND 0xFFFF \<noteq> 0" "(0xF7000 :: u32) AND 0x7FFF \<noteq> 0" "(0xF7000 :: u32) AND 0xFFF = 0" "(0x1000 :: u32) AND 0x19002 \<noteq> 0"
    "(0x101000 :: u32) AND NOT 0xFFF = 0x101000" by code_simp+
  then show ?thesis
    by (simp add: region_ok_def demo_boot_fields flash_get_erase_block_def s_flash_erase_param_def block_fits_def
        HAL_Flash_MemoryOf_def nor_devs_def nor_attributes)
qed

lemma demo_fetched_bytes:
  "mem_bytes demo_fetched 0 64 = demo_bl" "mem_bytes demo_fetched 64 2 = [1, 2]"
  "mem_bytes demo_fetched 0x8000 64 = demo_app" "mem_bytes demo_fetched 0x8040 4 = [3, 4, 5, 6]"
  "mem_bytes demo_fetched 0x101000 64 = demo_app" "mem_bytes demo_fetched 0x101040 4 = [3, 4, 5, 6]"
proof -
  have "mem_bytes demo_fetched a n = mem_bytes demo_mem a n" if "a + n \<le> 0x101000" for a n
    by (rule mem_bytes_cong) (use that in \<open>simp add: region_put_outside demo_boot_fields\<close>)
  then show "mem_bytes demo_fetched 0 64 = demo_bl" "mem_bytes demo_fetched 64 2 = [1, 2]"
    "mem_bytes demo_fetched 0x8000 64 = demo_app" "mem_bytes demo_fetched 0x8040 4 = [3, 4, 5, 6]"
    by (simp_all add: demo_bytes)
  show "mem_bytes demo_fetched 0x101000 64 = demo_app" "mem_bytes demo_fetched 0x101040 4 = [3, 4, 5, 6]"
    by (simp_all add: region_put_def demo_boot_fields demo_file_def mem_bytes_put_prefix mem_bytes_put_suffix)
qed

lemma demo_fetched_sections:
  "section_at demo_fetched 0 = section_at demo_mem 0" "section_at demo_fetched 0x8000 = section_at demo_mem 0x8000"
  "section_at demo_fetched 0x101000 = section_at demo_mem 0x8000"
  by (simp_all add: section_at_def demo_fetched_bytes demo_bytes)

lemma demo_fetched_image:
  "chain_ends demo_fetched demo_boot_params 1 (Suc 0)" "chain_fits demo_fetched 0x200000 demo_boot_params 1 (Suc 0)"
  "chain_valid demo_fetched demo_boot_params 1 (Suc 0)"
  "app_slot demo_fetched 0x200000 demo_boot_params 0 (Suc 0)" "app_slot demo_fetched 0x200000 demo_boot_params 1 (Suc 0)"
  "app_ok demo_fetched 0x20000 demo_boot_params 1 (Suc 0)"
  "app_away demo_ota_area demo_fetched demo_boot_params 0 (Suc 0)" "app_away demo_ota_area demo_fetched demo_boot_params 1 (Suc 0)"
  by (simp_all add: chain_ends_def chain_fits_def chain_valid_def section_fits_def section_valid_def app_slot_def sec_found_def chain_live_def
      app_ok_def loadable_def Let_def app_away_def away_def demo_ota_area_def sec_hdr_def le_Suc_eq
      demo_boot_chain demo_fetched_sections demo_fetched_bytes demo_section_bl demo_section_app demo_header_valid demo_checksums)

definition demo_device :: "nor_part flash_sys \<Rightarrow> nor_part boot_sys" where
  "demo_device s = \<lparr>bs_img = demo_img, bs_ram = \<lambda>_. 0, bs_flash = s\<rparr>"

theorem update_boots_new_image_witness:
  "\<exists>ota' c' s1 s2 b'. ota_get_image nor_devs (\<lambda>_. True) (\<lambda>_. ota_file_source total_fs True) OTA_PROTOCOL_FILE (Some (replicate 7 0))
        demo_running ota_deinit demo_volume (nor_sys demo_mem) = Some (OTA_STATUS_OK, ota', c', s1)
    \<and> ota_verify_image nor_devs (\<lambda>_. True) True (\<lambda>_. demo_engine) OTA_VERIFY_SHA256 (Some (take 24 demo_app)) demo_boot_params ota' s1
        = Some (OTA_STATUS_OK, s2)
    \<and> bl_load_bin nor_devs (\<lambda>_. True) True demo_xz 0x20000 (demo_device s2) = Some (0x10001, b')
    \<and> mem_bytes (bs_ram b') 0x10000 4 = [3, 4, 5, 6]"
proof -
  have sys: "np_mem (fs_env (nor_sys demo_mem)) = demo_mem" "np_busy (fs_env (nor_sys demo_mem)) = 0" by (simp_all add: nor_sys_def)
  have seq: "ota_get_update_seq demo_boot_params ota_init = 1"
    by (simp add: ota_get_update_seq_def demo_boot_fields ota_init_def ota_update_seq_policy_def)
  have run: "iop demo_running = demo_boot_params" "demo_boot_params\<lparr>running_seq := 0\<rparr> = demo_boot_params"
    by (simp_all add: demo_running_def demo_boot_params_def)
  have ready: "store_ready demo_mem demo_ota_area 4"
    by (rule store_ready_erased) (simp add: demo_mem_def mem_put_def)
  have away: "away demo_ota_area 0x101000 0xF7000" by (simp add: away_def demo_ota_area_def)
  have digest: "take 24 demo_file = take 24 demo_app" by (simp add: demo_file_def)
  have content: "ram_contents [] (volume demo_volume) = replicate 0x8000 0 @ demo_file" by (simp add: demo_volume_def ram_contents_def)
  have "\<exists>ota' c' s1 s2. ota_get_image nor_devs (\<lambda>_. True) (\<lambda>_. ota_file_source total_fs True) OTA_PROTOCOL_FILE (Some (replicate 7 0))
        demo_running ota_deinit demo_volume (nor_sys demo_mem) = Some (OTA_STATUS_OK, ota', c', s1)
    \<and> ota_verify_image nor_devs (\<lambda>_. True) True (\<lambda>_. demo_engine) OTA_VERIFY_SHA256 (Some (take 24 demo_app)) demo_boot_params ota' s1
        = Some (OTA_STATUS_OK, s2) \<and> np_busy (fs_env s2) = 0
    \<and> (\<forall>b. np_mem (fs_env (bs_flash b)) = np_mem (fs_env s2) \<and> np_busy (fs_env (bs_flash b)) = 0 \<longrightarrow>
         (\<exists>b'. bl_load_bin nor_devs (\<lambda>_. True) True demo_xz 0x20000 b = Some (entry (sec_hdr demo_fetched demo_boot_params 1 (Suc 0)), b')
            \<and> app_in_ram (bs_ram b') demo_fetched demo_boot_params 1 (Suc 0)))"
    using update_boots_new_image[where srcs = "\<lambda>_. ota_file_source total_fs True" and protocol = OTA_PROTOCOL_FILE and s = "nor_sys demo_mem"
        and img = demo_running and running = 0 and seq = 1 and p = demo_boot_params and alloc = "\<lambda>_. True" and url = "replicate 7 0"
        and c = demo_volume and bl = "replicate 0x8000 0" and fdata = demo_file and n = "Suc 0" and ota = ota_deinit and m = demo_fetched
        and engs = "\<lambda>_. demo_engine" and verify = OTA_VERIFY_SHA256 and expected = "take 24 demo_app" and d = "take 24 demo_app"
        and h = demo_ota_area and t = "Suc 0" and u = "Suc 0" and ram_base = "0x20000" and xz = demo_xz,
        OF nor_total.ota_update_axioms total_reliable]
    by (simp add: sys demo_boot_before run seq demo_boot_fields demo_boot_region nor_size content demo_fetched_image demo_engine_law demo_digest
        demo_ota_open demo_store ready away digest)
  then obtain ota' c' s1 s2 where u: "ota_get_image nor_devs (\<lambda>_. True) (\<lambda>_. ota_file_source total_fs True) OTA_PROTOCOL_FILE (Some (replicate 7 0))
        demo_running ota_deinit demo_volume (nor_sys demo_mem) = Some (OTA_STATUS_OK, ota', c', s1)"
      "ota_verify_image nor_devs (\<lambda>_. True) True (\<lambda>_. demo_engine) OTA_VERIFY_SHA256 (Some (take 24 demo_app)) demo_boot_params ota' s1
        = Some (OTA_STATUS_OK, s2)"
      "\<exists>b'. bl_load_bin nor_devs (\<lambda>_. True) True demo_xz 0x20000 (demo_device s2) = Some (entry (sec_hdr demo_fetched demo_boot_params 1 (Suc 0)), b')
         \<and> app_in_ram (bs_ram b') demo_fetched demo_boot_params 1 (Suc 0)"
    by (force simp: demo_device_def)
  then show ?thesis
    by (auto simp: app_in_ram_def sec_hdr_def demo_boot_chain demo_fetched_sections demo_section_bl demo_section_app demo_fetched_bytes)
qed

end
