(* ===== verification/Efuse.thy ===== *)
theory Efuse
  imports FlashChip
begin

text \<open>
  The driver of the eFuse, \<^verbatim>\<open>src/driver/chip/hal_efuse.c\<close>: 2048 one-time programmable bits that are
  read and programmed in words of 32 bits, and the window of bits that \<open>HAL_EFUSE_Read\<close> and
  \<open>HAL_EFUSE_Write\<close> give their callers.  The register block is a parameter: starting a read or a
  programming operation for a word and waiting for its end.
\<close>

section \<open>State and registers\<close>

abbreviation (input) HAL_BUSY :: int where "HAL_BUSY \<equiv> -2"
abbreviation (input) HAL_EFUSE_BIT_NUM :: u32 where "HAL_EFUSE_BIT_NUM \<equiv> 2048"
abbreviation (input) HOSC_CLOCK_24M :: u32 where "HOSC_CLOCK_24M \<equiv> 24000000"
abbreviation (input) HOSC_CLOCK_26M :: u32 where "HOSC_CLOCK_26M \<equiv> 26000000"
abbreviation (input) EFUSE_TIMING_PARAM_24M :: u32 where "EFUSE_TIMING_PARAM_24M \<equiv> 0x63321190"
abbreviation (input) EFUSE_TIMING_PARAM_26M :: u32 where "EFUSE_TIMING_PARAM_26M \<equiv> 0x63321190"

datatype EFUSE_State = EFUSE_STATE_INVALID | EFUSE_STATE_READY | EFUSE_STATE_BUSY

text \<open>The register block: \<open>er_read\<close> and \<open>er_program\<close> take the byte index of the word that is put into
  the index field of \<open>CTRL\<close>.  The frequency of the oscillator is the one the board reports.\<close>

record 'e efuse_regs =
  er_clock :: "'e \<Rightarrow> u32"
  er_timing :: "u32 \<Rightarrow> 'e \<Rightarrow> 'e"
  er_read :: "u8 \<Rightarrow> 'e \<Rightarrow> 'e \<times> u32"
  er_program :: "u8 \<Rightarrow> u32 \<Rightarrow> 'e \<Rightarrow> 'e"

record 'e efuse_sys =
  gEfuseState :: EFUSE_State
  es_env :: 'e

definition EFUSE_Init :: "'e efuse_regs \<Rightarrow> 'e \<Rightarrow> int \<times> 'e" where
  "EFUSE_Init hw e =
     (if er_clock hw e = HOSC_CLOCK_24M then (HAL_OK, er_timing hw EFUSE_TIMING_PARAM_24M e)
      else if er_clock hw e = HOSC_CLOCK_26M then (HAL_OK, er_timing hw EFUSE_TIMING_PARAM_26M e)
      else (HAL_ERROR, e))"

definition EFUSE_ReadData :: "'e efuse_regs \<Rightarrow> u8 \<Rightarrow> 'e \<Rightarrow> 'e \<times> u32" where
  "EFUSE_ReadData hw index e = er_read hw (push_bit 2 index) e"

definition EFUSE_WriteData :: "'e efuse_regs \<Rightarrow> u8 \<Rightarrow> u32 \<Rightarrow> 'e \<Rightarrow> 'e" where
  "EFUSE_WriteData hw index data e = er_program hw (push_bit 2 index) data e"

text \<open>The check of the arguments and the entry into the busy state, the same in both operations: the
  result is the code to return, or the state to go on with.\<close>

definition efuse_window :: "u32 \<Rightarrow> u32 \<Rightarrow> bool" where
  "efuse_window start n \<longleftrightarrow> \<not> (start \<ge> HAL_EFUSE_BIT_NUM \<or> n = 0 \<or> n > HAL_EFUSE_BIT_NUM \<or> start + n > HAL_EFUSE_BIT_NUM)"

definition efuse_enter :: "'e efuse_regs \<Rightarrow> 'e efuse_sys \<Rightarrow> int \<times> 'e efuse_sys" where
  "efuse_enter hw s =
     (case gEfuseState s of
        EFUSE_STATE_INVALID \<Rightarrow>
          (case EFUSE_Init hw (es_env s) of (ret, e) \<Rightarrow>
             if ret \<noteq> HAL_OK then (HAL_ERROR, s\<lparr>gEfuseState := EFUSE_STATE_INVALID, es_env := e\<rparr>)
             else (HAL_OK, s\<lparr>gEfuseState := EFUSE_STATE_BUSY, es_env := e\<rparr>))
      | EFUSE_STATE_READY \<Rightarrow> (HAL_OK, s\<lparr>gEfuseState := EFUSE_STATE_BUSY\<rparr>)
      | EFUSE_STATE_BUSY \<Rightarrow> (HAL_BUSY, s))"

section \<open>Reading\<close>

text \<open>The loop of \<open>HAL_EFUSE_Read\<close>: two neighbouring words, shifted, give four bytes of the window.\<close>

function efuse_read_loop :: "'e efuse_regs \<Rightarrow> u32 \<Rightarrow> u32 \<Rightarrow> u32 \<Rightarrow> 'e \<Rightarrow> u8 list \<times> 'e" where
  "efuse_read_loop hw shift word_idx byte_cnt e =
     (if byte_cnt = 0 then ([], e)
      else case EFUSE_ReadData hw (ucast word_idx) e of (e, w0) \<Rightarrow>
           case (if word_idx + 1 < 64 then EFUSE_ReadData hw (ucast word_idx + 1) e else (e, 0)) of (e, w1) \<Rightarrow>
             let buf = drop_bit (unat shift) (ucast w0 OR push_bit 32 (ucast w1)) :: 64 word;
                 copy_size = (if byte_cnt > 4 then 4 else byte_cnt)
             in case efuse_read_loop hw shift (word_idx + 1) (byte_cnt - copy_size) e of (bs, e) \<Rightarrow>
                  (take (unat copy_size) (le4 (ucast buf)) @ bs, e))"
  by pat_completeness auto
termination
proof (relation "measure (\<lambda>(hw, shift, word_idx, byte_cnt, e). unat byte_cnt)", goal_cases)
  case (2 hw shift word_idx byte_cnt e)
  then show ?case by (auto simp: unat_sub word_le_nat_alt word_less_nat_alt unat_gt_0)
qed simp

declare efuse_read_loop.simps [simp del]

text \<open>\<open>HAL_EFUSE_Read\<close>: the return code, the bytes stored in the buffer, and the state.  \<open>ok\<close> says that
  the buffer is not \<open>NULL\<close>.\<close>

definition HAL_EFUSE_Read ::
  "'e efuse_regs \<Rightarrow> u32 \<Rightarrow> u32 \<Rightarrow> bool \<Rightarrow> 'e efuse_sys \<Rightarrow> int \<times> u8 list \<times> 'e efuse_sys" where
  "HAL_EFUSE_Read hw start n ok s =
     (if \<not> ok \<or> \<not> efuse_window start n then (HAL_ERROR, [], s)
      else case efuse_enter hw s of (ret, s) \<Rightarrow>
        if ret \<noteq> HAL_OK then (ret, [], s)
        else let shift = start AND 31;
                 byte_num = drop_bit 3 (n + 7);
                 bit_cnt = n AND 7
             in case efuse_read_loop hw shift (drop_bit 5 start) byte_num (es_env s) of (bs, e) \<Rightarrow>
                  (HAL_OK,
                   if bit_cnt > 0 then bs[unat byte_num - 1 := bs ! (unat byte_num - 1) AND (push_bit (unat bit_cnt) 1 - 1)] else bs,
                   s\<lparr>gEfuseState := EFUSE_STATE_READY, es_env := e\<rparr>))"

section \<open>Programming\<close>

text \<open>
  Programming reads four or eight bytes from the data pointer whatever the number of bits: \<open>mem_at\<close> is
  the memory there, the caller's data followed by whatever lies behind it.
\<close>

definition mem_at :: "u8 list \<Rightarrow> (nat \<Rightarrow> u8) \<Rightarrow> nat \<Rightarrow> u8" where
  "mem_at data behind i = (if i < length data then data ! i else behind i)"

definition read32 :: "(nat \<Rightarrow> u8) \<Rightarrow> nat \<Rightarrow> u32" where
  "read32 m i = of_le4 [m i, m (i + 1), m (i + 2), m (i + 3)]"

definition read64 :: "(nat \<Rightarrow> u8) \<Rightarrow> nat \<Rightarrow> 64 word" where
  "read64 m i = ucast (read32 m i) OR push_bit 32 (ucast (read32 m (i + 4)))"

function efuse_write_loop :: "'e efuse_regs \<Rightarrow> u32 \<Rightarrow> (nat \<Rightarrow> u8) \<Rightarrow> nat \<Rightarrow> u32 \<Rightarrow> u32 \<Rightarrow> 'e \<Rightarrow> 'e" where
  "efuse_write_loop hw shift m p word_idx bit_cnt e =
     (if bit_cnt = 0 then e
      else let buf = push_bit (unat shift) (read64 m p);
               w = ucast (drop_bit 32 buf) :: u32;
               w = (if bit_cnt < 32 then w AND (push_bit (unat bit_cnt) 1 - 1) else w)
           in efuse_write_loop hw shift m (p + 4) (word_idx + 1) (bit_cnt - (if bit_cnt \<le> 32 then bit_cnt else 32))
                (EFUSE_WriteData hw (ucast word_idx) w e))"
  by pat_completeness auto
termination
proof (relation "measure (\<lambda>(hw, shift, m, p, word_idx, bit_cnt, e). unat bit_cnt)", goal_cases)
  case (2 hw shift m p word_idx bit_cnt e)
  then show ?case by (auto simp: unat_sub word_le_nat_alt word_less_nat_alt unat_gt_0)
qed simp

declare efuse_write_loop.simps [simp del]

definition HAL_EFUSE_Write ::
  "'e efuse_regs \<Rightarrow> u32 \<Rightarrow> u32 \<Rightarrow> (nat \<Rightarrow> u8) option \<Rightarrow> 'e efuse_sys \<Rightarrow> int \<times> 'e efuse_sys" where
  "HAL_EFUSE_Write hw start n data s =
     (case data of
        None \<Rightarrow> (HAL_ERROR, s)
      | Some m \<Rightarrow>
          if \<not> efuse_window start n then (HAL_ERROR, s)
          else case efuse_enter hw s of (ret, s) \<Rightarrow>
            if ret \<noteq> HAL_OK then (ret, s)
            else let shift = start AND 31;
                     w = read32 m 0;
                     w = (if n < 32 then w AND (push_bit (unat n) 1 - 1) else w);
                     e = EFUSE_WriteData hw (ucast (drop_bit 5 start)) (push_bit (unat shift) w) (es_env s);
                     bit_cnt = n - (if n \<le> 32 - shift then n else 32 - shift)
                 in (HAL_OK, s\<lparr>gEfuseState := EFUSE_STATE_READY,
                      es_env := efuse_write_loop hw shift m 0 (drop_bit 5 start + 1) bit_cnt e\<rparr>))"

section \<open>The fuses\<close>

text \<open>The bits of a window of the fuses, as the bytes \<open>HAL_EFUSE_Read\<close> stores, and a bit of the data in
  memory.\<close>

definition window_bytes :: "(nat \<Rightarrow> bool) \<Rightarrow> nat \<Rightarrow> nat \<Rightarrow> u8 list" where
  "window_bytes f a n = map (\<lambda>k. horner_sum of_bool 2 (map (\<lambda>j. 8 * k + j < n \<and> f (a + 8 * k + j)) [0..<8])) [0..<(n + 7) div 8]"

definition mem_bit :: "(nat \<Rightarrow> u8) \<Rightarrow> nat \<Rightarrow> bool" where
  "mem_bit m i \<longleftrightarrow> bit (m (i div 8)) (i mod 8)"

definition word_from :: "(nat \<Rightarrow> bool) \<Rightarrow> nat \<Rightarrow> u32" where
  "word_from f a = horner_sum of_bool 2 (map (\<lambda>j. f (a + j)) [0..<32])"

lemma bit_word_from: "bit (word_from f a) j \<longleftrightarrow> j < 32 \<and> f (a + j)"
  by (auto simp: word_from_def bit_horner_sum_bit_word_iff)

lemma length_window_bytes [simp]: "length (window_bytes f a n) = (n + 7) div 8"
  by (simp add: window_bytes_def)

lemma bit_window_bytes:
  assumes "k < (n + 7) div 8"
  shows "bit (window_bytes f a n ! k) j \<longleftrightarrow> j < 8 \<and> 8 * k + j < n \<and> f (a + 8 * k + j)"
  using assms by (auto simp: window_bytes_def bit_horner_sum_bit_word_iff)

text \<open>
  The documented behaviour of the register block over an array of fuses: \<open>fuse\<close> are the bits, a read
  gives a word and changes nothing, and programming sets the bits of the word that are set in the value,
  as far as their fuses are good (a broken fuse stays 0); no bit is ever cleared.
\<close>

locale fuse_array =
  fixes hw :: "'e efuse_regs" and fuse :: "'e \<Rightarrow> nat \<Rightarrow> bool" and good :: "nat \<Rightarrow> bool"
  assumes clock: "er_clock hw e = HOSC_CLOCK_24M \<or> er_clock hw e = HOSC_CLOCK_26M"
    and timing: "fuse (er_timing hw p e) = fuse e"
    and reads: "i < 64 \<Longrightarrow> snd (er_read hw (of_nat (4 * i)) e) = word_from (fuse e) (32 * i)
      \<and> fuse (fst (er_read hw (of_nat (4 * i)) e)) = fuse e"
    and programs: "i < 64 \<Longrightarrow> fuse (er_program hw (of_nat (4 * i)) v e)
      = (\<lambda>k. fuse e k \<or> (32 * i \<le> k \<and> k < 32 * i + 32 \<and> bit v (k - 32 * i) \<and> good k))"
begin

abbreviation fuses :: "'e efuse_sys \<Rightarrow> nat \<Rightarrow> bool" where
  "fuses s \<equiv> fuse (es_env s)"

lemma ReadData_ok:
  assumes "i < 64"
  shows "\<exists>e'. EFUSE_ReadData hw (of_nat i) e = (e', word_from (fuse e) (32 * i)) \<and> fuse e' = fuse e"
proof -
  have "push_bit 2 (of_nat i :: u8) = of_nat (4 * i)" by (simp add: push_bit_eq_mult)
  then show ?thesis using reads[OF assms, of e] by (cases "er_read hw (of_nat (4 * i)) e") (simp add: EFUSE_ReadData_def)
qed

lemma WriteData_ok:
  assumes "i < 64"
  shows "fuse (EFUSE_WriteData hw (of_nat i) v e)
    = (\<lambda>k. fuse e k \<or> (32 * i \<le> k \<and> k < 32 * i + 32 \<and> bit v (k - 32 * i) \<and> good k))"
proof -
  have "push_bit 2 (of_nat i :: u8) = of_nat (4 * i)" by (simp add: push_bit_eq_mult)
  then show ?thesis using programs[OF assms, of v e] by (simp add: EFUSE_WriteData_def)
qed

lemma enter_ok:
  assumes "gEfuseState s \<noteq> EFUSE_STATE_BUSY"
  shows "\<exists>e. efuse_enter hw s = (HAL_OK, s\<lparr>gEfuseState := EFUSE_STATE_BUSY, es_env := e\<rparr>) \<and> fuse e = fuses s"
proof (cases "gEfuseState s")
  case EFUSE_STATE_INVALID
  then show ?thesis using clock[of "es_env s"] timing by (auto simp: efuse_enter_def EFUSE_Init_def)
next
  case EFUSE_STATE_READY
  then show ?thesis by (intro exI[of _ "es_env s"]) (simp add: efuse_enter_def)
qed (use assms in simp)

end


section \<open>Windows of the fuses\<close>

lemma le4_bit: "b < 4 \<Longrightarrow> bit (le4 w ! b) j \<longleftrightarrow> j < 8 \<and> bit w (8 * b + j)"
proof -
  assume "b < 4"
  then have "b = 0 \<or> b = 1 \<or> b = 2 \<or> b = 3" by arith
  then show ?thesis by (auto simp: le4_def bit_simps)
qed

lemma shifted_words:
  assumes "sh < 32" "j < 32" "i < 64" "32 * i + sh + j < 2048"
    "w1 = (if i + 1 < 64 then word_from f (32 * (i + 1)) else 0)"
  shows "bit (ucast (drop_bit sh (ucast (word_from f (32 * i)) OR push_bit 32 (ucast w1) :: 64 word)) :: u32) j \<longleftrightarrow> f (32 * i + sh + j)"
proof (cases "sh + j < 32")
  case True
  then show ?thesis using assms(2) by (simp add: bit_simps bit_word_from add.assoc)
next
  case False
  then have "i + 1 < 64" using assms(4) by simp
  then have "w1 = word_from f (32 * (i + 1))" using assms(5) by simp
  moreover have "32 * (i + 1) + (sh + j - 32) = 32 * i + sh + j" using False by simp
  ultimately show ?thesis using False assms(1,2) by (auto simp: bit_simps bit_word_from add.assoc)
qed

context fuse_array
begin

lemma read_loop_ok:
  assumes "sh < 32" "0 < c \<Longrightarrow> 32 * i + sh + 8 * (c - 1) < 2048" "c \<le> 256"
  shows "\<exists>bs e'. efuse_read_loop hw (of_nat sh) (of_nat i) (of_nat c) e = (bs, e') \<and> fuse e' = fuse e \<and> length bs = c
    \<and> (\<forall>k<c. \<forall>j<8. 32 * i + sh + 8 * k + j < 2048 \<longrightarrow> bit (bs ! k) j = fuse e (32 * i + sh + 8 * k + j))"
  using assms(2,3)
proof (induction c arbitrary: i e rule: less_induct)
  case (less c)
  show ?case
  proof (cases "c = 0")
    case True
    then show ?thesis by (simp add: efuse_read_loop.simps)
  next
    case False
    define k where "k = min c 4"
    have i: "i < 64" using less.prems(1) False by simp
    have cw: "unat (of_nat c :: u32) = c" "unat (of_nat i :: u32) = i" "unat (of_nat sh :: u32) = sh"
      using less.prems(2) i assms(1) by (simp_all add: unat_of_nat32)
    have uc: "(ucast (of_nat i :: u32) :: u8) = of_nat i" using i by (simp add: unsigned_of_nat take_bit_nat_eq_self)
    have cnz: "(of_nat c :: u32) \<noteq> 0" using False cw(1) by auto
    obtain e0 where e0: "EFUSE_ReadData hw (of_nat i) e = (e0, word_from (fuse e) (32 * i))" "fuse e0 = fuse e"
      using ReadData_ok[OF i] by blast
    have nx: "(of_nat i + 1 :: u32) < 64 \<longleftrightarrow> i + 1 < 64"
    proof -
      have "unat (of_nat (i + 1) :: u32) = i + 1" using i by (intro unat_of_nat32) simp
      then have a: "unat (of_nat i + 1 :: u32) = i + 1" by (simp add: add.commute)
      have b: "unat (64 :: u32) = 64" by simp
      show ?thesis unfolding word_less_nat_alt a b ..
    qed
    define w1 where "w1 = (if i + 1 < 64 then word_from (fuse e) (32 * (i + 1)) else 0)"
    have "\<exists>e1. (if (of_nat i + 1 :: u32) < 64 then EFUSE_ReadData hw (ucast (of_nat i :: u32) + 1) e0 else (e0, 0)) = (e1, w1) \<and> fuse e1 = fuse e"
      using ReadData_ok[of "i + 1" e0] e0(2) unfolding nx w1_def by (auto simp: uc add.commute)
    then obtain e1 where e1: "(if (of_nat i + 1 :: u32) < 64 then EFUSE_ReadData hw (ucast (of_nat i :: u32) + 1) e0 else (e0, 0)) = (e1, w1)"
      "fuse e1 = fuse e" by blast
    define w :: u32 where "w = ucast (drop_bit sh (ucast (word_from (fuse e) (32 * i)) OR push_bit 32 (ucast w1) :: 64 word))"
    have copy: "(if (of_nat c :: u32) > 4 then 4 else of_nat c) = (of_nat k :: u32)" "unat (of_nat k :: u32) = k"
      "(of_nat c - of_nat k :: u32) = of_nat (c - k)"
      using cw(1) by (auto simp: k_def word_less_nat_alt unat_of_nat32 of_nat_diff)
    obtain bs e2 where r: "efuse_read_loop hw (of_nat sh) (of_nat (i + 1)) (of_nat (c - k)) e1 = (bs, e2)" "fuse e2 = fuse e1" "length bs = c - k"
      "\<forall>b<c - k. \<forall>j<8. 32 * (i + 1) + sh + 8 * b + j < 2048 \<longrightarrow> bit (bs ! b) j = fuse e1 (32 * (i + 1) + sh + 8 * b + j)"
      using less.IH[of "c - k" "i + 1" e1] less.prems False by (force simp: k_def)
    have res: "efuse_read_loop hw (of_nat sh) (of_nat i) (of_nat c) e = (take k (le4 w) @ bs, e2)"
      using cnz e0(1) e1(1) r(1) copy by (subst efuse_read_loop.simps) (simp add: Let_def uc cw w_def add.commute)
    moreover have "bit ((take k (le4 w) @ bs) ! b) j = fuse e (32 * i + sh + 8 * b + j)"
      if b: "b < c" "j < 8" "32 * i + sh + 8 * b + j < 2048" for b j
    proof (cases "b < k")
      case True
      then have "b < 4" "8 * b + j < 32" using b by (auto simp: k_def)
      then show ?thesis
        using True b shifted_words[OF assms(1) _ i, of "8 * b + j" w1 "fuse e"] by (simp add: nth_append le4_bit w_def w1_def add.assoc)
    next
      case False
      then have k: "k = 4" "b - 4 < c - k" using b(1) by (auto simp: k_def)
      have a: "32 * (i + 1) + sh + 8 * (b - 4) + j = 32 * i + sh + 8 * b + j" using False k by simp
      have "bit (bs ! (b - 4)) j = fuse e (32 * i + sh + 8 * b + j)"
        using r(4)[rule_format, of "b - 4" j] k(2) b(2,3) e1(2) unfolding a by simp
      then show ?thesis using False k by (simp add: nth_append)
    qed
    moreover have "length (take k (le4 w) @ bs) = c" using r(3) by (simp add: k_def)
    ultimately show ?thesis using r(2) e1(2) by auto
  qed
qed

end

lemma word_of_nat_div:
  assumes "a < 2 ^ 32"
  shows "(of_nat a :: u32) AND 31 = of_nat (a mod 32)" "(of_nat a :: u32) AND 7 = of_nat (a mod 8)"
    "drop_bit 5 (of_nat a :: u32) = of_nat (a div 32)" "drop_bit 3 (of_nat a :: u32) = of_nat (a div 8)"
proof -
  have "(of_nat a :: u32) AND mask k = of_nat (a mod 2 ^ k)" for k
    by (simp add: take_bit_eq_mask [symmetric] take_bit_of_nat) (simp add: take_bit_eq_mod)
  from this[of 5] this[of 3] show "(of_nat a :: u32) AND 31 = of_nat (a mod 32)" "(of_nat a :: u32) AND 7 = of_nat (a mod 8)"
    by (simp_all add: mask_eq_exp_minus_1)
  have "drop_bit k (of_nat a :: u32) = of_nat (a div 2 ^ k)" for k
  proof (rule word_unat_eq_iff[THEN iffD2])
    have "a div 2 ^ k < 2 ^ 32" using assms div_le_dividend[of a "2 ^ k"] by linarith
    moreover have "unat (drop_bit k (of_nat a :: u32)) = unat (of_nat a :: u32) div 2 ^ k"
      by (subst unat_drop_bit_eq) (rule drop_bit_eq_div)
    ultimately show "unat (drop_bit k (of_nat a :: u32)) = unat (of_nat (a div 2 ^ k) :: u32)"
      using assms by (simp only: unat_of_nat32)
  qed
  from this[of 5] this[of 3] show "drop_bit 5 (of_nat a :: u32) = of_nat (a div 32)" "drop_bit 3 (of_nat a :: u32) = of_nat (a div 8)"
    by simp_all
qed

lemma ceil8: "(n + 7) div 8 = n div 8 + (if n mod 8 = 0 then 0 else 1)" for n :: nat
proof -
  have n: "n + 7 = (n mod 8 + 7) + 8 * (n div 8)" by simp
  have "(n + 7) div 8 = n div 8 + (n mod 8 + 7) div 8" by (subst n) (rule div_mult_self2, simp)
  moreover have "(r + 7) div 8 = (if r = 0 then 0 else 1)" if "r < 8" for r :: nat using that by presburger
  from this[of "n mod 8"] have "(n mod 8 + 7) div 8 = (if n mod 8 = 0 then 0 else 1)" by simp
  ultimately show ?thesis by (simp only:)
qed

lemma window_of_nat: "n \<noteq> 0 \<Longrightarrow> a + n \<le> 2048 \<Longrightarrow> efuse_window (of_nat a) (of_nat n)"
proof -
  assume "n \<noteq> 0" "a + n \<le> 2048"
  then have "unat (of_nat a :: u32) = a" "unat (of_nat n :: u32) = n" "unat (of_nat a + of_nat n :: u32) = a + n"
    by (simp_all add: unat_of_nat32 of_nat_add [symmetric] del: of_nat_add)
  with \<open>n \<noteq> 0\<close> \<open>a + n \<le> 2048\<close> show ?thesis
    by (auto simp: efuse_window_def word_le_nat_alt word_less_nat_alt)
qed

context fuse_array
begin

lemma Read_ok:
  assumes "gEfuseState s \<noteq> EFUSE_STATE_BUSY" "n \<noteq> 0" "a + n \<le> 2048"
  shows "\<exists>s'. HAL_EFUSE_Read hw (of_nat a) (of_nat n) True s = (HAL_OK, window_bytes (fuses s) a n, s')
    \<and> fuses s' = fuses s \<and> gEfuseState s' = EFUSE_STATE_READY"
proof -
  let ?c = "(n + 7) div 8" and ?f = "fuses s"
  have w: "(of_nat a :: u32) AND 31 = of_nat (a mod 32)" "drop_bit 5 (of_nat a :: u32) = of_nat (a div 32)"
    "(of_nat n :: u32) AND 7 = of_nat (n mod 8)"
    using assms word_of_nat_div[of a] word_of_nat_div[of n] by simp_all
  have c: "drop_bit 3 (of_nat n + 7 :: u32) = of_nat ?c" "unat (of_nat ?c :: u32) = ?c" "0 < ?c"
    using assms word_of_nat_div(4)[of "n + 7"] by (simp_all add: unat_of_nat32)
  have m: "unat (of_nat (n mod 8) :: u32) = n mod 8" by (simp add: unat_of_nat32)
  obtain e where e: "efuse_enter hw s = (HAL_OK, s\<lparr>gEfuseState := EFUSE_STATE_BUSY, es_env := e\<rparr>)" "fuse e = ?f"
    using enter_ok[OF assms(1)] by blast
  have pos: "32 * (a div 32) + a mod 32 = a" by simp
  obtain bs e' where r: "efuse_read_loop hw (of_nat (a mod 32)) (of_nat (a div 32)) (of_nat ?c) e = (bs, e')" "fuse e' = ?f" "length bs = ?c"
      "\<forall>k<?c. \<forall>j<8. a + 8 * k + j < 2048 \<longrightarrow> bit (bs ! k) j = ?f (a + 8 * k + j)"
    using read_loop_ok[of "a mod 32" ?c "a div 32" e] assms e(2) pos by force
  define out where "out = (if of_nat (n mod 8) > (0 :: u32)
    then bs[?c - 1 := bs ! (?c - 1) AND (push_bit (n mod 8) 1 - 1)] else bs)"
  have gt: "of_nat (n mod 8) > (0 :: u32) \<longleftrightarrow> n mod 8 > 0" by (simp add: word_less_nat_alt m)
  have "out = window_bytes ?f a n"
  proof (rule nth_equalityI)
    fix k
    assume "k < length out"
    then have k: "k < ?c" using r(3) by (simp add: out_def split: if_splits)
    show "out ! k = window_bytes ?f a n ! k"
    proof (rule bit_eqI)
      fix j
      assume "possible_bit TYPE(u8) j"
      then have j: "j < 8" by simp
      have b: "8 * k + j < n \<Longrightarrow> bit (bs ! k) j = ?f (a + 8 * k + j)" using r(4) k j assms(3) by simp
      show "bit (out ! k) j = bit (window_bytes ?f a n ! k) j"
      proof (cases "n mod 8 > 0 \<and> k = ?c - 1")
        case True
        then have "k = n div 8" by (simp add: ceil8)
        then have "8 * k + n mod 8 = n" by simp
        then have "j < n mod 8 \<longleftrightarrow> 8 * k + j < n" by linarith
        moreover have "out ! k = bs ! k AND mask (n mod 8)"
        proof -
          have "out = bs[k := bs ! k AND (push_bit (n mod 8) 1 - 1)]" 
            using True gt by (simp only: out_def if_True)
          then show ?thesis using k r(3) by (simp only: nth_list_update_eq mask_eq_exp_minus_1 push_bit_eq_mult mult_1)
        qed
        ultimately show ?thesis using b j k by (auto simp: bit_simps bit_window_bytes)
      next
        case False
        then have "out ! k = bs ! k" using gt k r(3) by (auto simp: out_def nth_list_update)
        moreover have "8 * k + j < n"
        proof -
          have "k < n div 8" using False k by (auto simp: ceil8 split: if_splits)
          then show ?thesis using j by linarith
        qed
        ultimately show ?thesis using b j k by (simp add: bit_window_bytes)
      qed
    qed
  qed (simp add: out_def r(3))
  moreover have "HAL_EFUSE_Read hw (of_nat a) (of_nat n) True s = (HAL_OK, out, s\<lparr>gEfuseState := EFUSE_STATE_READY, es_env := e'\<rparr>)"
    using window_of_nat[OF assms(2,3)] e r(1) by (simp add: HAL_EFUSE_Read_def Let_def w c m out_def del: push_bit_of_1)
  ultimately show ?thesis using r(2) by simp
qed

end


lemma bit_u8_ge [simp]: "8 \<le> k \<Longrightarrow> \<not> bit (x :: u8) k"
  by (auto dest: bit_imp_le_length)

lemma bit_of_le4:
  assumes "r < 8"
  shows "bit (of_le4 [a, b, c, d]) r = bit a r" "bit (of_le4 [a, b, c, d]) (8 + r) = bit b r"
    "bit (of_le4 [a, b, c, d]) (16 + r) = bit c r" "bit (of_le4 [a, b, c, d]) (24 + r) = bit d r"
  using assms by (simp_all add: of_le4_def bit_or_iff bit_push_bit_iff bit_unsigned_iff)

lemma bit_read32: "bit (read32 m i) j \<longleftrightarrow> j < 32 \<and> mem_bit m (8 * i + j)"
proof (cases "j < 32")
  case True
  then have "j div 8 < 4" by (intro less_mult_imp_div_less) simp
  then have j: "j div 8 = 0 \<or> j div 8 = 1 \<or> j div 8 = 2 \<or> j div 8 = 3" by linarith
  have "mem_bit m (8 * i + j) \<longleftrightarrow> bit (m (i + j div 8)) (j mod 8)" by (simp add: mem_bit_def)
  moreover have "bit (read32 m i) j \<longleftrightarrow> bit (m (i + j div 8)) (j mod 8)"
  proof -
    have "j = 8 * (j div 8) + j mod 8" "j mod 8 < 8" by simp_all
    then obtain q r where j': "j = 8 * q + r" "r < 8" "j div 8 = q" "j mod 8 = r" by metis
    have "bit (read32 m i) (8 * q + r) \<longleftrightarrow> bit (m (i + q)) r"
      using j j'(2) unfolding j'(3) by (elim disjE) (simp_all add: read32_def bit_of_le4)
    then show ?thesis using j' by simp
  qed
  ultimately show ?thesis using True by simp
qed (auto dest: bit_imp_le_length)

lemma bit_read64: "bit (read64 m i) j \<longleftrightarrow> j < 64 \<and> mem_bit m (8 * i + j)"
  by (cases "j < 32") (auto simp: read64_def bit_simps bit_read32 algebra_simps)

text \<open>The part of the data that goes into a word.\<close>

lemma shifted_data:
  assumes "sh < 32"
  shows "bit (ucast (drop_bit 32 (push_bit sh (read64 m p))) :: u32) j \<longleftrightarrow> j < 32 \<and> mem_bit m (8 * p + (32 - sh) + j)"
proof (cases "j < 32")
  case True
  have "8 * p + (32 - sh) + j = 8 * p + (32 + j - sh)" using assms by simp
  then show ?thesis using True assms by (auto simp: bit_simps bit_read64)
qed (simp add: bit_simps)

lemma masked: "bit (w AND (push_bit n 1 - 1)) j \<longleftrightarrow> j < n \<and> bit w j" for w :: u32
  by (auto simp: bit_simps mask_eq_exp_minus_1 [symmetric] push_bit_of_1 dest: bit_imp_le_length)

context fuse_array
begin

lemma write_loop_ok:
  assumes "sh < 32" "32 * i + c \<le> 2048"
  shows "fuse (efuse_write_loop hw (of_nat sh) m p (of_nat i) (of_nat c) e)
    = (\<lambda>k. fuse e k \<or> (32 * i \<le> k \<and> k < 32 * i + c \<and> mem_bit m (8 * p + (32 - sh) + (k - 32 * i)) \<and> good k))"
  using assms(2)
proof (induction c arbitrary: i p e rule: less_induct)
  case (less c)
  show ?case
  proof (cases "c = 0")
    case True
    then show ?thesis by (auto simp: efuse_write_loop.simps)
  next
    case False
    define d where "d = min c 32"
    have i: "i < 64" using less.prems False by simp
    have u: "unat (of_nat c :: u32) = c" "unat (of_nat sh :: u32) = sh" using less.prems assms(1) by (simp_all add: unat_of_nat32)
    have nz: "(of_nat c :: u32) \<noteq> 0" using False u(1) by auto
    have uc: "(ucast (of_nat i :: u32) :: u8) = of_nat i" using i by (simp add: unsigned_of_nat take_bit_nat_eq_self)
    define w :: u32 where "w = ucast (drop_bit 32 (push_bit sh (read64 m p)))"
    define w' where "w' = (if of_nat c < (32 :: u32) then w AND (push_bit c 1 - 1) else w)"
    have w': "bit w' j \<longleftrightarrow> j < d \<and> mem_bit m (8 * p + (32 - sh) + j)" for j
      using u(1) by (auto simp: w'_def masked w_def shifted_data[OF assms(1)] d_def word_less_nat_alt simp del: push_bit_of_1)
    have left: "(of_nat c - (if of_nat c \<le> (32 :: u32) then of_nat c else 32) :: u32) = of_nat (c - d)"
      using u(1) by (auto simp: d_def word_le_nat_alt of_nat_diff)
    have "efuse_write_loop hw (of_nat sh) m p (of_nat i) (of_nat c) e
        = efuse_write_loop hw (of_nat sh) m (p + 4) (of_nat (i + 1)) (of_nat (c - d)) (EFUSE_WriteData hw (of_nat i) w' e)"
      using nz by (subst efuse_write_loop.simps) (simp add: Let_def u uc left w_def [symmetric] w'_def add.commute del: push_bit_of_1)
    then have "fuse (efuse_write_loop hw (of_nat sh) m p (of_nat i) (of_nat c) e)
        = fuse (efuse_write_loop hw (of_nat sh) m (p + 4) (of_nat (i + 1)) (of_nat (c - d)) (EFUSE_WriteData hw (of_nat i) w' e))" by (rule arg_cong)
    also have "\<dots> = (\<lambda>k. fuse (EFUSE_WriteData hw (of_nat i) w' e) k
        \<or> (32 * (i + 1) \<le> k \<and> k < 32 * (i + 1) + (c - d) \<and> mem_bit m (8 * (p + 4) + (32 - sh) + (k - 32 * (i + 1))) \<and> good k))"
      using less.IH[of "c - d" "i + 1" "p + 4" "EFUSE_WriteData hw (of_nat i) w' e"] less.prems False by (cases "c \<le> 32") (simp_all add: d_def)
    also have "\<dots> = (\<lambda>k. fuse e k \<or> (32 * i \<le> k \<and> k < 32 * i + c \<and> mem_bit m (8 * p + (32 - sh) + (k - 32 * i)) \<and> good k))"
    proof (rule ext)
      fix k
      have "8 * (p + 4) + (32 - sh) + (k - 32 * (i + 1)) = 8 * p + (32 - sh) + (k - 32 * i)" if "32 * (i + 1) \<le> k"
        using that by simp
      moreover have "32 * i \<le> k \<and> k < 32 * i + 32 \<and> k - 32 * i < d \<longleftrightarrow> 32 * i \<le> k \<and> k < 32 * i + d" by (auto simp: d_def)
      moreover have "32 * i \<le> k \<and> k < 32 * i + c \<longleftrightarrow> (32 * i \<le> k \<and> k < 32 * i + d) \<or> (32 * (i + 1) \<le> k \<and> k < 32 * (i + 1) + (c - d))"
        by (auto simp: d_def)
      ultimately show "(fuse (EFUSE_WriteData hw (of_nat i) w' e) k
          \<or> (32 * (i + 1) \<le> k \<and> k < 32 * (i + 1) + (c - d) \<and> mem_bit m (8 * (p + 4) + (32 - sh) + (k - 32 * (i + 1))) \<and> good k))
        = (fuse e k \<or> (32 * i \<le> k \<and> k < 32 * i + c \<and> mem_bit m (8 * p + (32 - sh) + (k - 32 * i)) \<and> good k))"
        unfolding WriteData_ok[OF i] w' by metis
    qed
    finally show ?thesis .
  qed
qed

end

context fuse_array
begin

lemma Write_ok:
  assumes "gEfuseState s \<noteq> EFUSE_STATE_BUSY" "n \<noteq> 0" "a + n \<le> 2048"
  shows "\<exists>s'. HAL_EFUSE_Write hw (of_nat a) (of_nat n) (Some m) s = (HAL_OK, s') \<and> gEfuseState s' = EFUSE_STATE_READY
    \<and> fuses s' = (\<lambda>k. fuses s k \<or> (a \<le> k \<and> k < a + n \<and> mem_bit m (k - a) \<and> good k))"
proof -
  let ?i = "a div 32" and ?sh = "a mod 32"
  have a: "a = 32 * ?i + ?sh" "?sh < 32" "?i < 64" using assms by simp_all
  have w: "(of_nat a :: u32) AND 31 = of_nat ?sh" "drop_bit 5 (of_nat a :: u32) = of_nat ?i"
    using assms word_of_nat_div[of a] by simp_all
  have u: "unat (of_nat ?sh :: u32) = ?sh" "unat (of_nat n :: u32) = n" using assms by (simp_all add: unat_of_nat32)
  have uc: "(ucast (of_nat ?i :: u32) :: u8) = of_nat ?i" using a(3) by (simp add: unsigned_of_nat take_bit_nat_eq_self)
  obtain e where e: "efuse_enter hw s = (HAL_OK, s\<lparr>gEfuseState := EFUSE_STATE_BUSY, es_env := e\<rparr>)" "fuse e = fuses s"
    using enter_ok[OF assms(1)] by blast
  define v where "v = (if of_nat n < (32 :: u32) then read32 m 0 AND (push_bit n 1 - 1) else read32 m 0)"
  have v: "bit v j \<longleftrightarrow> j < n \<and> j < 32 \<and> mem_bit m j" for j
    using u(2) by (auto simp: v_def masked bit_read32 word_less_nat_alt simp del: push_bit_of_1)
  define d where "d = min n (32 - ?sh)"
  have "(32 - of_nat ?sh :: u32) = of_nat (32 - ?sh)" using a(2) by (simp add: of_nat_diff)
  moreover have "unat (of_nat (32 - ?sh) :: u32) = 32 - ?sh" by (rule unat_of_nat32) simp
  ultimately have left: "(of_nat n - (if of_nat n \<le> (32 - of_nat ?sh :: u32) then of_nat n else 32 - of_nat ?sh) :: u32) = of_nat (n - d)"
    using u(2) by (auto simp: d_def word_le_nat_alt of_nat_diff)
  define e1 where "e1 = EFUSE_WriteData hw (of_nat ?i) (push_bit ?sh v) e"
  have "HAL_EFUSE_Write hw (of_nat a) (of_nat n) (Some m) s = (HAL_OK, s\<lparr>gEfuseState := EFUSE_STATE_READY,
      es_env := efuse_write_loop hw (of_nat ?sh) m 0 (of_nat (?i + 1)) (of_nat (n - d)) e1\<rparr>)"
    using window_of_nat[OF assms(2,3)] e
    by (simp add: HAL_EFUSE_Write_def Let_def w u uc left e1_def v_def add.commute del: push_bit_of_1)
  moreover have "fuse (efuse_write_loop hw (of_nat ?sh) m 0 (of_nat (?i + 1)) (of_nat (n - d)) e1)
      = (\<lambda>k. fuses s k \<or> (a \<le> k \<and> k < a + n \<and> mem_bit m (k - a) \<and> good k))"
  proof (rule ext)
    fix k
    have "32 * (?i + 1) + (n - d) \<le> 2048" using assms a by (cases "n \<le> 32 - ?sh") (auto simp: d_def)
    then have "fuse (efuse_write_loop hw (of_nat ?sh) m 0 (of_nat (?i + 1)) (of_nat (n - d)) e1) k
        \<longleftrightarrow> fuse e1 k \<or> (32 * (?i + 1) \<le> k \<and> k < 32 * (?i + 1) + (n - d) \<and> mem_bit m ((32 - ?sh) + (k - 32 * (?i + 1))) \<and> good k)"
      using write_loop_ok[OF a(2), of "?i + 1" "n - d" m 0 e1] by simp
    moreover have "fuse e1 k \<longleftrightarrow> fuses s k \<or> (a \<le> k \<and> k < a + d \<and> mem_bit m (k - a) \<and> good k)"
    proof -
      have "32 * ?i \<le> k \<and> k < 32 * ?i + 32 \<and> bit (push_bit ?sh v) (k - 32 * ?i) \<longleftrightarrow> a \<le> k \<and> k < a + d \<and> mem_bit m (k - a)"
      proof -
        obtain q r where qr: "?i = q" "?sh = r" "a = 32 * q + r" "r < 32" using a by metis
        have d: "d = min n (32 - r)" by (simp add: d_def qr(2))
        have "32 * q \<le> k \<and> k < 32 * q + 32 \<and> bit (push_bit r v) (k - 32 * q) \<longleftrightarrow> 32 * q + r \<le> k \<and> k < 32 * q + r + d \<and> mem_bit m (k - (32 * q + r))"
          using qr(4) unfolding d by (auto simp: bit_simps v)
        then show ?thesis unfolding qr(1,2) unfolding qr(3) .
      qed
      then show ?thesis unfolding e1_def WriteData_ok[OF a(3)] e(2) by blast
    qed
    moreover have "32 * (?i + 1) \<le> k \<Longrightarrow> (32 - ?sh) + (k - 32 * (?i + 1)) = k - a" using a by simp
    moreover have "a \<le> k \<and> k < a + n \<longleftrightarrow> (a \<le> k \<and> k < a + d) \<or> (32 * (?i + 1) \<le> k \<and> k < 32 * (?i + 1) + (n - d))"
    proof -
      obtain q r where qr: "?i = q" "?sh = r" "a = 32 * q + r" "r < 32" using a by metis
      have d: "d = min n (32 - r)" by (simp add: d_def qr(2))
      have "32 * q + r \<le> k \<and> k < 32 * q + r + n \<longleftrightarrow>
          (32 * q + r \<le> k \<and> k < 32 * q + r + d) \<or> (32 * (q + 1) \<le> k \<and> k < 32 * (q + 1) + (n - d))"
        using qr(4) unfolding d by auto
      then show ?thesis unfolding qr(1,2) unfolding qr(3) .
    qed
    ultimately show "fuse (efuse_write_loop hw (of_nat ?sh) m 0 (of_nat (?i + 1)) (of_nat (n - d)) e1) k
        = (fuses s k \<or> (a \<le> k \<and> k < a + n \<and> mem_bit m (k - a) \<and> good k))"
      by metis
  qed
  ultimately show ?thesis by auto
qed

end


section \<open>An array of fuses\<close>

text \<open>The register block over an array of bits with some fuses broken.\<close>

definition fuse_regs :: "(nat \<Rightarrow> bool) \<Rightarrow> (nat \<Rightarrow> bool) efuse_regs" where
  "fuse_regs good = \<lparr>er_clock = \<lambda>_. HOSC_CLOCK_24M, er_timing = \<lambda>_ f. f,
     er_read = \<lambda>i f. (f, word_from f (8 * unat i)),
     er_program = \<lambda>i v f k. f k \<or> (8 * unat i \<le> k \<and> k < 8 * unat i + 32 \<and> bit v (k - 8 * unat i) \<and> good k)\<rparr>"

interpretation array: fuse_array "fuse_regs good" "\<lambda>f. f" good for good
proof
  fix i :: nat and f :: "nat \<Rightarrow> bool" and v :: u32
  assume "i < 64"
  then have "unat (of_nat (4 * i) :: u8) = 4 * i" by (simp add: unsigned_of_nat take_bit_nat_eq_self del: of_nat_mult)
  then have i: "8 * unat (of_nat (4 * i) :: u8) = 32 * i" by simp
  show "snd (er_read (fuse_regs good) (of_nat (4 * i)) f) = word_from f (32 * i) \<and> fst (er_read (fuse_regs good) (of_nat (4 * i)) f) = f"
    unfolding fuse_regs_def using i by simp
  show "er_program (fuse_regs good) (of_nat (4 * i)) v f = (\<lambda>k. f k \<or> (32 * i \<le> k \<and> k < 32 * i + 32 \<and> bit v (k - 32 * i) \<and> good k))"
    unfolding fuse_regs_def using i by (simp add: fun_eq_iff)
qed (simp_all add: fuse_regs_def)

section \<open>Properties\<close>

text \<open>C17. Programming and reading a window of the eFuse: for any window inside the 2048 bits,
  \<open>HAL_EFUSE_Write\<close> sets exactly the good fuses of the window whose data bit is 1 and touches no other
  fuse, whatever lies in memory behind the caller's data (the code reads up to eight bytes there), and
  \<open>HAL_EFUSE_Read\<close> then returns the bits of the window, the unused bits of the last byte cleared.\<close>

theorem efuse_program_window:
  assumes "fuse_array hw fuse good" "gEfuseState s \<noteq> EFUSE_STATE_BUSY" "n \<noteq> 0" "a + n \<le> 2048" "n \<le> 8 * length data"
  shows "\<exists>s' s''. HAL_EFUSE_Write hw (of_nat a) (of_nat n) (Some (mem_at data behind)) s = (HAL_OK, s')
    \<and> fuse (es_env s') = (\<lambda>k. fuse (es_env s) k \<or> (a \<le> k \<and> k < a + n \<and> bit (data ! ((k - a) div 8)) ((k - a) mod 8) \<and> good k))
    \<and> HAL_EFUSE_Read hw (of_nat a) (of_nat n) True s' = (HAL_OK, window_bytes (fuse (es_env s')) a n, s'')
    \<and> fuse (es_env s'') = fuse (es_env s')"
proof -
  obtain s' where s': "HAL_EFUSE_Write hw (of_nat a) (of_nat n) (Some (mem_at data behind)) s = (HAL_OK, s')" "gEfuseState s' = EFUSE_STATE_READY"
      "fuse (es_env s') = (\<lambda>k. fuse (es_env s) k \<or> (a \<le> k \<and> k < a + n \<and> mem_bit (mem_at data behind) (k - a) \<and> good k))"
    using fuse_array.Write_ok[OF assms(1-4), of "mem_at data behind"] by blast
  have "mem_bit (mem_at data behind) (k - a) = bit (data ! ((k - a) div 8)) ((k - a) mod 8)" if "a \<le> k" "k < a + n" for k
  proof -
    have "(k - a) div 8 < length data" using that assms(5) by (intro less_mult_imp_div_less) simp
    then show ?thesis by (simp add: mem_bit_def mem_at_def)
  qed
  then have "fuse (es_env s') = (\<lambda>k. fuse (es_env s) k \<or> (a \<le> k \<and> k < a + n \<and> bit (data ! ((k - a) div 8)) ((k - a) mod 8) \<and> good k))"
    unfolding s'(3) by (intro ext) blast
  moreover obtain s'' where "HAL_EFUSE_Read hw (of_nat a) (of_nat n) True s' = (HAL_OK, window_bytes (fuse (es_env s')) a n, s'')"
      "fuse (es_env s'') = fuse (es_env s')"
    using fuse_array.Read_ok[OF assms(1) _ assms(3,4), of s'] s'(2) by auto
  ultimately show ?thesis using s'(1) by blast
qed

text \<open>Six bits of a byte across a word border, with the fuse at 33 broken.\<close>

theorem efuse_program_window_witness:
  "\<exists>s' s''. HAL_EFUSE_Write (fuse_regs (\<lambda>k. k \<noteq> 33)) 29 6 (Some (mem_at [0xFF] (\<lambda>_. 0xFF))) \<lparr>gEfuseState = EFUSE_STATE_INVALID, es_env = \<lambda>_. False\<rparr>
      = (HAL_OK, s')
    \<and> es_env s' = (\<lambda>k. 29 \<le> k \<and> k < 35 \<and> k \<noteq> 33)
    \<and> HAL_EFUSE_Read (fuse_regs (\<lambda>k. k \<noteq> 33)) 29 6 True s' = (HAL_OK, [0x2F], s'')"
proof -
  have bits: "bit (255 :: u8) j \<longleftrightarrow> j < 8" for j
    using bit_mask_iff[where 'a = u8, of 8 j] by (simp add: mask_eq_exp_minus_1 del: bit_numeral_iff)
  obtain s' s'' where w: "HAL_EFUSE_Write (fuse_regs (\<lambda>k. k \<noteq> 33)) 29 6 (Some (mem_at [0xFF] (\<lambda>_. 0xFF))) \<lparr>gEfuseState = EFUSE_STATE_INVALID, es_env = \<lambda>_. False\<rparr>
        = (HAL_OK, s')"
      "es_env s' = (\<lambda>k. 29 \<le> k \<and> k < 35 \<and> bit ([0xFF :: u8] ! ((k - 29) div 8)) ((k - 29) mod 8) \<and> k \<noteq> 33)"
      "HAL_EFUSE_Read (fuse_regs (\<lambda>k. k \<noteq> 33)) 29 6 True s' = (HAL_OK, window_bytes (es_env s') 29 6, s'')"
    using efuse_program_window[OF array.fuse_array_axioms, where s = "\<lparr>gEfuseState = EFUSE_STATE_INVALID, es_env = \<lambda>_. False\<rparr>"
        and n = 6 and a = 29 and data = "[0xFF]" and behind = "\<lambda>_. 0xFF" and good = "\<lambda>k. k \<noteq> 33"] by auto
  have f: "es_env s' = (\<lambda>k. 29 \<le> k \<and> k < 35 \<and> k \<noteq> 33)"
  proof (rule ext)
    fix k :: nat
    have "bit ([0xFF :: u8] ! ((k - 29) div 8)) ((k - 29) mod 8)" if "k < 35" using that bits[of "k - 29"] by simp
    then show "es_env s' k = (29 \<le> k \<and> k < 35 \<and> k \<noteq> 33)" unfolding w(2) by blast
  qed
  have "window_bytes (es_env s') 29 6 = [0x2F]" unfolding f by code_simp
  then show ?thesis using w(1,3) f by auto
qed

end
