(* ===== verification/EfpgField.thy ===== *)
theory EfpgField
  imports Efuse
begin

text \<open>
  The fields of the eFuse, \<^verbatim>\<open>src/efpg/efpg_efuse.c\<close>: each is stored with some redundancy against broken
  fuses.  DCXO, POUT and MAC are regions with several slots, the newest slot marked by the lowest pair of
  flag bits that is set; the boot hash has room for the numbers of two wrong bits; the chip identifier
  has a second copy.  Results are acknowledgement codes; what a read stores in the caller's buffer is
  returned with the code.  Sources of data are memory at a pointer, as the driver reads past short
  buffers (\<open>behind\<close> is what lies behind a local byte).
\<close>

section \<open>Codes and places\<close>

abbreviation (input) EFPG_ACK_OK :: u16 where "EFPG_ACK_OK \<equiv> 200"
abbreviation (input) EFPG_ACK_RW_ERR :: u16 where "EFPG_ACK_RW_ERR \<equiv> 403"
abbreviation (input) EFPG_ACK_DI_ERR :: u16 where "EFPG_ACK_DI_ERR \<equiv> 404"
abbreviation (input) EFPG_ACK_NODATA_ERR :: u16 where "EFPG_ACK_NODATA_ERR \<equiv> 405"

datatype efpg_field = EFPG_FIELD_HOSC | EFPG_FIELD_BOOT | EFPG_FIELD_DCXO | EFPG_FIELD_POUT | EFPG_FIELD_MAC
  | EFPG_FIELD_CHIPID | EFPG_FIELD_UA | EFPG_FIELD_NUM

record efpg_region_info =
  flag_start :: u16
  flag_bits :: u16
  data_start :: u16
  data_bits :: u16

definition dcxo_info :: efpg_region_info where
  "dcxo_info = \<lparr>flag_start = 898, flag_bits = 6, data_start = 904, data_bits = 8\<rparr>"

definition pout_info :: efpg_region_info where
  "pout_info = \<lparr>flag_start = 928, flag_bits = 6, data_start = 934, data_bits = 21\<rparr>"

definition mac_info :: efpg_region_info where
  "mac_info = \<lparr>flag_start = 997, flag_bits = 18, data_start = 1015, data_bits = 48\<rparr>"

section \<open>Writing and reading back\<close>

text \<open>Data written to a window and read back, the pattern of all the write functions: \<open>None\<close> is an error of
  the driver, \<open>EFPG_ACK_RW_ERR\<close>.\<close>

definition write_back :: "'e efuse_regs \<Rightarrow> u32 \<Rightarrow> u32 \<Rightarrow> (nat \<Rightarrow> u8) \<Rightarrow> 'e efuse_sys \<Rightarrow> u8 list option \<times> 'e efuse_sys" where
  "write_back hw start n data s =
     (case HAL_EFUSE_Write hw start n (Some data) s of (ret, s) \<Rightarrow>
        if ret \<noteq> HAL_OK then (None, s)
        else case HAL_EFUSE_Read hw start n True s of (ret, bs, s) \<Rightarrow> (if ret \<noteq> HAL_OK then None else Some bs, s))"

section \<open>Regions with slots\<close>

text \<open>Whether the first \<open>n\<close> bits are the same (the code's result 0).\<close>

definition efpg_bit_cmp :: "(nat \<Rightarrow> u8) \<Rightarrow> u8 list \<Rightarrow> nat \<Rightarrow> bool" where
  "efpg_bit_cmp b1 b2 n \<longleftrightarrow> map b1 [0..<n div 8] = take (n div 8) b2
     \<and> (n mod 8 > 0 \<longrightarrow> b1 (n div 8) AND (push_bit (n mod 8) 1 - 1) = (b2 ! (n div 8)) AND (push_bit (n mod 8) 1 - 1))"

text \<open>The first pair of flags that is set; the loop does not end when there is none.\<close>

partial_function (option) region_skip :: "u32 \<Rightarrow> u8 \<Rightarrow> u8 option" where
  "region_skip flag idx = (if flag AND 3 = 0 then region_skip (drop_bit 2 flag) (idx + 1) else Some idx)"

text \<open>The flags in a variable of four bytes that was 0 before.\<close>

definition flag_of :: "u8 list \<Rightarrow> u32" where
  "flag_of bs = of_le4 (bs @ replicate 4 0)"

definition efpg_read_region :: "'e efuse_regs \<Rightarrow> efpg_region_info \<Rightarrow> 'e efuse_sys \<Rightarrow> (u16 \<times> u8 list \<times> 'e efuse_sys) option" where
  "efpg_read_region hw info s =
     (case HAL_EFUSE_Read hw (ucast (flag_start info)) (ucast (flag_bits info)) True s of (ret, bs, s) \<Rightarrow>
        if ret \<noteq> HAL_OK then Some (EFPG_ACK_RW_ERR, [], s)
        else if flag_of bs = 0 then Some (EFPG_ACK_NODATA_ERR, [], s)
        else do {
          idx \<leftarrow> region_skip (flag_of bs) 0;
          (case HAL_EFUSE_Read hw (ucast (data_start info) + ucast idx * ucast (data_bits info)) (ucast (data_bits info)) True s of
             (ret, bs, s) \<Rightarrow> Some (if ret \<noteq> HAL_OK then EFPG_ACK_RW_ERR else EFPG_ACK_OK, bs, s))
        })"

function region_free :: "u32 \<Rightarrow> u8 \<Rightarrow> u8 \<Rightarrow> u8" where
  "region_free flag idx idx_max = (if flag AND 3 = 0 \<and> idx < idx_max then region_free (drop_bit 2 flag) (idx + 1) idx_max else idx)"
  by pat_completeness auto
termination
proof (relation "measure (\<lambda>(flag, idx, idx_max). unat idx_max - unat idx)", goal_cases)
  case (2 flag idx idx_max)
  then have "idx < idx_max" by simp
  then have "unat (idx + 1) = unat idx + 1" using u8_less[of idx_max]
    by (subst unat_add_lem[THEN iffD1]) (simp_all add: word_less_nat_alt)
  then show ?case using \<open>idx < idx_max\<close> by (simp add: word_less_nat_alt del: unat_1)
qed simp

declare region_free.simps [simp del]

text \<open>Trying the free slots from the one below the newest downwards.\<close>

fun region_try ::
  "'e efuse_regs \<Rightarrow> efpg_region_info \<Rightarrow> (nat \<Rightarrow> u8) \<Rightarrow> (nat \<Rightarrow> u8) \<Rightarrow> nat \<Rightarrow> 'e efuse_sys \<Rightarrow> u16 \<times> 'e efuse_sys" where
  "region_try hw info data behind 0 s = (EFPG_ACK_DI_ERR, s)"
| "region_try hw info data behind (Suc idx) s =
     (case write_back hw (ucast (flag_start info) + of_nat idx * 2) 2 (mem_at [3] behind) s of
        (None, s) \<Rightarrow> (EFPG_ACK_RW_ERR, s)
      | (Some tmp, s) \<Rightarrow>
          if tmp ! 0 = 0 then region_try hw info data behind idx s
          else case write_back hw (ucast (data_start info) + of_nat idx * ucast (data_bits info)) (ucast (data_bits info)) data s of
                 (None, s) \<Rightarrow> (EFPG_ACK_RW_ERR, s)
               | (Some buf, s) \<Rightarrow>
                   if \<not> efpg_bit_cmp data buf (unat (data_bits info)) then region_try hw info data behind idx s
                   else (EFPG_ACK_OK, s))"

definition efpg_write_region ::
  "'e efuse_regs \<Rightarrow> efpg_region_info \<Rightarrow> (nat \<Rightarrow> u8) \<Rightarrow> (nat \<Rightarrow> u8) \<Rightarrow> 'e efuse_sys \<Rightarrow> u16 \<times> 'e efuse_sys" where
  "efpg_write_region hw info data behind s =
     (case HAL_EFUSE_Read hw (ucast (flag_start info)) (ucast (flag_bits info)) True s of (ret, bs, s) \<Rightarrow>
        if ret \<noteq> HAL_OK then (EFPG_ACK_RW_ERR, s)
        else let idx_max = ucast (flag_bits info div 2)
             in region_try hw info data behind (unat (region_free (flag_of bs) 0 idx_max)) s)"

section \<open>Oscillator type\<close>

definition efpg_read_hosc :: "'e efuse_regs \<Rightarrow> 'e efuse_sys \<Rightarrow> u16 \<times> u8 list \<times> 'e efuse_sys" where
  "efpg_read_hosc hw s =
     (case HAL_EFUSE_Read hw 328 4 True s of (ret, bs, s) \<Rightarrow> (if ret \<noteq> HAL_OK then EFPG_ACK_RW_ERR else EFPG_ACK_OK, bs, s))"

definition efpg_write_hosc :: "'e efuse_regs \<Rightarrow> (nat \<Rightarrow> u8) \<Rightarrow> 'e efuse_sys \<Rightarrow> u16 \<times> 'e efuse_sys" where
  "efpg_write_hosc hw data s =
     (case write_back hw 328 4 data s of
        (None, s) \<Rightarrow> (EFPG_ACK_RW_ERR, s)
      | (Some buf, s) \<Rightarrow> (if data 0 \<noteq> buf ! 0 then EFPG_ACK_DI_ERR else EFPG_ACK_OK, s))"

section \<open>Boot hash\<close>

text \<open>\<open>efpg_boot_hash_cmp\<close>: the number of wrong bits, and the numbers of the first two; \<open>None\<close> is the
  result -1, when there are more.\<close>

fun hash_bits :: "u8 \<Rightarrow> u8 \<Rightarrow> nat \<Rightarrow> nat list \<Rightarrow> u8 \<times> u8 \<times> u8 \<Rightarrow> (u8 \<times> u8 \<times> u8) option" where
  "hash_bits d b byte [] e = Some e"
| "hash_bits d b byte (j # js) (cnt, n1, n2) =
     (if d AND push_bit j 1 = b AND push_bit j 1 then hash_bits d b byte js (cnt, n1, n2)
      else if cnt = 0 then hash_bits d b byte js (1, push_bit 3 (of_nat byte) + of_nat j, n2)
      else if cnt = 1 then hash_bits d b byte js (2, n1, push_bit 3 (of_nat byte) + of_nat j)
      else None)"

fun hash_bytes :: "(nat \<Rightarrow> u8) \<Rightarrow> u8 list \<Rightarrow> nat list \<Rightarrow> u8 \<times> u8 \<times> u8 \<Rightarrow> (u8 \<times> u8 \<times> u8) option" where
  "hash_bytes data buf [] e = Some e"
| "hash_bytes data buf (k # ks) e =
     (if data k = buf ! k then hash_bytes data buf ks e
      else do { e \<leftarrow> hash_bits (data k) (buf ! k) k [0..<8] e; hash_bytes data buf ks e })"

definition efpg_boot_hash_cmp :: "(nat \<Rightarrow> u8) \<Rightarrow> u8 list \<Rightarrow> u8 \<times> u8 \<times> u8 \<Rightarrow> (u8 \<times> u8 \<times> u8) option" where
  "efpg_boot_hash_cmp data buf e =
     (if map data [0..<32] = buf then Some e
      else hash_bytes data buf [0..<32] (case e of (_, n1, n2) \<Rightarrow> (0, n1, n2)))"

definition flip_bit_no :: "u8 \<Rightarrow> u8 list \<Rightarrow> u8 list" where
  "flip_bit_no no bs = (let k = unat (drop_bit 3 no) in bs[k := bs ! k XOR push_bit (unat (no AND 7)) 1])"

text \<open>Reading four windows; after an error the buffer has what was stored so far.\<close>

definition efpg_read_boot :: "'e efuse_regs \<Rightarrow> 'e efuse_sys \<Rightarrow> u16 \<times> u8 list \<times> 'e efuse_sys" where
  "efpg_read_boot hw s =
     (case HAL_EFUSE_Read hw 332 2 True s of (ret, tmp, s) \<Rightarrow>
      if ret \<noteq> HAL_OK then (EFPG_ACK_RW_ERR, [], s)
      else if tmp ! 0 = 0 then (EFPG_ACK_NODATA_ERR, [], s)
      else case HAL_EFUSE_Read hw 352 256 True s of (ret, data, s) \<Rightarrow>
      if ret \<noteq> HAL_OK then (EFPG_ACK_RW_ERR, data, s)
      else case HAL_EFUSE_Read hw 334 1 True s of (ret, tmp, s) \<Rightarrow>
      if ret \<noteq> HAL_OK then (EFPG_ACK_RW_ERR, data, s)
      else if tmp ! 0 = 0 then (EFPG_ACK_OK, data, s)
      else case HAL_EFUSE_Read hw 335 8 True s of (ret, tmp, s) \<Rightarrow>
      if ret \<noteq> HAL_OK then (EFPG_ACK_RW_ERR, data, s)
      else let data = flip_bit_no (tmp ! 0) data in
      case HAL_EFUSE_Read hw 343 1 True s of (ret, tmp, s) \<Rightarrow>
      if ret \<noteq> HAL_OK then (EFPG_ACK_RW_ERR, data, s)
      else if tmp ! 0 = 0 then (EFPG_ACK_OK, data, s)
      else case HAL_EFUSE_Read hw 344 8 True s of (ret, tmp, s) \<Rightarrow>
      if ret \<noteq> HAL_OK then (EFPG_ACK_RW_ERR, data, s)
      else (EFPG_ACK_OK, flip_bit_no (tmp ! 0) data, s))"

text \<open>Recording the number of a wrong bit: the code to return, or \<open>EFPG_ACK_OK\<close> to go on.\<close>

definition write_error_no ::
  "'e efuse_regs \<Rightarrow> u32 \<Rightarrow> u32 \<Rightarrow> u8 \<Rightarrow> (nat \<Rightarrow> u8) \<Rightarrow> 'e efuse_sys \<Rightarrow> u16 \<times> 'e efuse_sys" where
  "write_error_no hw en_start no_start no behind s =
     (case write_back hw en_start 1 (mem_at [1] behind) s of
        (None, s) \<Rightarrow> (EFPG_ACK_RW_ERR, s)
      | (Some tmp, s) \<Rightarrow>
          if tmp ! 0 \<noteq> 1 then (EFPG_ACK_DI_ERR, s)
          else case write_back hw no_start 8 (mem_at [no] behind) s of
                 (None, s) \<Rightarrow> (EFPG_ACK_RW_ERR, s)
               | (Some tmp, s) \<Rightarrow> (if no \<noteq> tmp ! 0 then EFPG_ACK_DI_ERR else EFPG_ACK_OK, s))"

definition efpg_write_boot :: "'e efuse_regs \<Rightarrow> (nat \<Rightarrow> u8) \<Rightarrow> (nat \<Rightarrow> u8) \<Rightarrow> 'e efuse_sys \<Rightarrow> u16 \<times> 'e efuse_sys" where
  "efpg_write_boot hw data behind s =
     (case write_back hw 332 2 (mem_at [3] behind) s of
        (None, s) \<Rightarrow> (EFPG_ACK_RW_ERR, s)
      | (Some tmp, s) \<Rightarrow>
          if tmp ! 0 = 0 then (EFPG_ACK_DI_ERR, s)
          else case write_back hw 352 256 data s of
                 (None, s) \<Rightarrow> (EFPG_ACK_RW_ERR, s)
               | (Some buf, s) \<Rightarrow>
                   (case efpg_boot_hash_cmp data buf (0, 0, 0) of
                      None \<Rightarrow> (EFPG_ACK_DI_ERR, s)
                    | Some (cnt, n1, n2) \<Rightarrow>
                        if cnt = 0 then (EFPG_ACK_OK, s)
                        else case write_error_no hw 334 335 n1 behind s of (ack, s) \<Rightarrow>
                          if ack \<noteq> EFPG_ACK_OK \<or> cnt \<noteq> 2 then (ack, s)
                          else write_error_no hw 343 344 n2 behind s))"

section \<open>Chip identifier and user area\<close>

definition efpg_read_chipid :: "'e efuse_regs \<Rightarrow> 'e efuse_sys \<Rightarrow> u16 \<times> u8 list \<times> 'e efuse_sys" where
  "efpg_read_chipid hw s =
     (case HAL_EFUSE_Read hw 608 2 True s of (ret, flag, s) \<Rightarrow>
      if ret \<noteq> HAL_OK then (EFPG_ACK_RW_ERR, [], s)
      else case HAL_EFUSE_Read hw (if flag ! 0 = 0 then 200 else 610) 128 True s of (ret, bs, s) \<Rightarrow>
        (if ret \<noteq> HAL_OK then EFPG_ACK_RW_ERR else EFPG_ACK_OK, bs, s))"

text \<open>The variable \<open>idx\<close> of the code is 0 whatever the flag is, so the first place is always tried.\<close>

definition efpg_write_chipid :: "'e efuse_regs \<Rightarrow> (nat \<Rightarrow> u8) \<Rightarrow> (nat \<Rightarrow> u8) \<Rightarrow> 'e efuse_sys \<Rightarrow> u16 \<times> 'e efuse_sys" where
  "efpg_write_chipid hw data behind s =
     (case HAL_EFUSE_Read hw 608 2 True s of (ret, flag, s) \<Rightarrow>
      if ret \<noteq> HAL_OK then (EFPG_ACK_RW_ERR, s)
      else case write_back hw 200 128 data s of
        (None, s) \<Rightarrow> (EFPG_ACK_RW_ERR, s)
      | (Some buf, s) \<Rightarrow>
          if map data [0..<16] = buf then (EFPG_ACK_OK, s)
          else case write_back hw 608 2 (mem_at [3] behind) s of
            (None, s) \<Rightarrow> (EFPG_ACK_RW_ERR, s)
          | (Some tmp, s) \<Rightarrow>
              if tmp ! 0 = 0 then (EFPG_ACK_DI_ERR, s)
              else case write_back hw 610 128 data s of
                (None, s) \<Rightarrow> (EFPG_ACK_RW_ERR, s)
              | (Some buf, s) \<Rightarrow> (if map data [0..<16] = buf then EFPG_ACK_OK else EFPG_ACK_DI_ERR, s))"

definition user_area :: "u16 \<Rightarrow> u16 \<Rightarrow> bool" where
  "user_area start num \<longleftrightarrow> \<not> (start \<ge> 601 \<or> num = 0 \<or> num > 601 \<or> unat start + unat num > 601)"

definition efpg_read_user_area :: "'e efuse_regs \<Rightarrow> u16 \<Rightarrow> u16 \<Rightarrow> 'e efuse_sys \<Rightarrow> u16 \<times> u8 list \<times> 'e efuse_sys" where
  "efpg_read_user_area hw start num s =
     (if \<not> user_area start num then (EFPG_ACK_RW_ERR, [], s)
      else case HAL_EFUSE_Read hw (ucast start + 1447) (ucast num) True s of (ret, bs, s) \<Rightarrow>
        (if ret \<noteq> HAL_OK then EFPG_ACK_RW_ERR else EFPG_ACK_OK, bs, s))"

definition efpg_write_user_area :: "'e efuse_regs \<Rightarrow> u16 \<Rightarrow> u16 \<Rightarrow> (nat \<Rightarrow> u8) \<Rightarrow> 'e efuse_sys \<Rightarrow> u16 \<times> 'e efuse_sys" where
  "efpg_write_user_area hw start num data s =
     (if \<not> user_area start num then (EFPG_ACK_RW_ERR, s)
      else case HAL_EFUSE_Write hw (ucast start + 1447) (ucast num) (Some data) s of (ret, s) \<Rightarrow>
        (if ret \<noteq> HAL_OK then EFPG_ACK_RW_ERR else EFPG_ACK_OK, s))"

section \<open>Any field\<close>

definition efpg_read_field ::
  "'e efuse_regs \<Rightarrow> efpg_field \<Rightarrow> u16 \<Rightarrow> u16 \<Rightarrow> 'e efuse_sys \<Rightarrow> (u16 \<times> u8 list \<times> 'e efuse_sys) option" where
  "efpg_read_field hw field start n s =
     (case field of
        EFPG_FIELD_HOSC \<Rightarrow> Some (efpg_read_hosc hw s)
      | EFPG_FIELD_BOOT \<Rightarrow> Some (efpg_read_boot hw s)
      | EFPG_FIELD_DCXO \<Rightarrow> efpg_read_region hw dcxo_info s
      | EFPG_FIELD_POUT \<Rightarrow> efpg_read_region hw pout_info s
      | EFPG_FIELD_MAC \<Rightarrow> efpg_read_region hw mac_info s
      | EFPG_FIELD_CHIPID \<Rightarrow> Some (efpg_read_chipid hw s)
      | EFPG_FIELD_UA \<Rightarrow> Some (efpg_read_user_area hw start n s)
      | EFPG_FIELD_NUM \<Rightarrow> Some (EFPG_ACK_RW_ERR, [], s))"

definition efpg_write_field ::
  "'e efuse_regs \<Rightarrow> efpg_field \<Rightarrow> (nat \<Rightarrow> u8) \<Rightarrow> (nat \<Rightarrow> u8) \<Rightarrow> u16 \<Rightarrow> u16 \<Rightarrow> 'e efuse_sys \<Rightarrow> u16 \<times> 'e efuse_sys" where
  "efpg_write_field hw field data behind start n s =
     (case field of
        EFPG_FIELD_HOSC \<Rightarrow> efpg_write_hosc hw data s
      | EFPG_FIELD_BOOT \<Rightarrow> efpg_write_boot hw data behind s
      | EFPG_FIELD_DCXO \<Rightarrow> efpg_write_region hw dcxo_info data behind s
      | EFPG_FIELD_POUT \<Rightarrow> efpg_write_region hw pout_info data behind s
      | EFPG_FIELD_MAC \<Rightarrow> efpg_write_region hw mac_info data behind s
      | EFPG_FIELD_CHIPID \<Rightarrow> efpg_write_chipid hw data behind s
      | EFPG_FIELD_UA \<Rightarrow> efpg_write_user_area hw start n data s
      | EFPG_FIELD_NUM \<Rightarrow> (EFPG_ACK_RW_ERR, s))"


section \<open>Flags\<close>

text \<open>Regions whose flags and slots lie apart inside the eFuse; a slot is marked by either of its flags.\<close>

definition slots :: "efpg_region_info \<Rightarrow> nat" where
  "slots info = unat (flag_bits info) div 2"

definition slot_start :: "efpg_region_info \<Rightarrow> nat \<Rightarrow> nat" where
  "slot_start info i = unat (data_start info) + i * unat (data_bits info)"

definition flag_at :: "efpg_region_info \<Rightarrow> nat \<Rightarrow> nat" where
  "flag_at info i = unat (flag_start info) + 2 * i"

definition region_wf :: "efpg_region_info \<Rightarrow> bool" where
  "region_wf info \<longleftrightarrow> even (unat (flag_bits info)) \<and> flag_bits info \<noteq> 0 \<and> unat (flag_bits info) \<le> 32 \<and> data_bits info \<noteq> 0
     \<and> slot_start info (slots info) \<le> 2048 \<and> flag_at info (slots info) \<le> unat (data_start info)"

lemma infos_wf: "region_wf dcxo_info" "region_wf pout_info" "region_wf mac_info"
  by (simp_all add: region_wf_def dcxo_info_def pout_info_def mac_info_def slots_def slot_start_def flag_at_def)

definition marked :: "(nat \<Rightarrow> bool) \<Rightarrow> efpg_region_info \<Rightarrow> nat \<Rightarrow> bool" where
  "marked f info i \<longleftrightarrow> f (flag_at info i) \<or> f (flag_at info i + 1)"

text \<open>The number of free slots below the newest, and the newest.\<close>

definition free_slots :: "(nat \<Rightarrow> bool) \<Rightarrow> efpg_region_info \<Rightarrow> nat" where
  "free_slots f info = length (takeWhile (\<lambda>i. \<not> marked f info i) [0..<slots info])"

lemma free_slots_le: "free_slots f info \<le> slots info"
  unfolding free_slots_def using length_takeWhile_le[of _ "[0..<slots info]"] by simp

lemma free_slots_unmarked: "i < free_slots f info \<Longrightarrow> \<not> marked f info i"
proof -
  assume "i < free_slots f info"
  then have "i < length (takeWhile (\<lambda>i. \<not> marked f info i) [0..<slots info])" "i < slots info"
    using free_slots_le[of f info] by (simp_all add: free_slots_def)
  then show ?thesis using nth_mem[of i "takeWhile (\<lambda>i. \<not> marked f info i) [0..<slots info]"]
    by (auto dest!: set_takeWhileD simp: takeWhile_nth)
qed

lemma free_slots_marked: "free_slots f info < slots info \<Longrightarrow> marked f info (free_slots f info)"
  using nth_length_takeWhile[of "\<lambda>i. \<not> marked f info i" "[0..<slots info]"] by (simp add: free_slots_def)

lemma free_slots_eqI:
  assumes "\<And>j. j < i \<Longrightarrow> \<not> marked f info j" "i = slots info \<or> marked f info i" "i \<le> slots info"
  shows "free_slots f info = i"
proof (rule ccontr)
  assume "free_slots f info \<noteq> i"
  then consider "free_slots f info < i" | "i < free_slots f info" by linarith
  then show False
  proof cases
    case 1
    then show False using free_slots_marked[of f info] assms(1,3) by simp
  next
    case 2
    then show False using free_slots_unmarked[of i f info] free_slots_le[of f info] assms(2) by simp
  qed
qed

text \<open>Pairs of bits of the flag word.\<close>

definition pair :: "u32 \<Rightarrow> nat \<Rightarrow> bool" where
  "pair flag i \<longleftrightarrow> bit flag (2 * i) \<or> bit flag (2 * i + 1)"

lemma pair_0: "flag AND 3 = 0 \<longleftrightarrow> \<not> pair flag 0"
proof -
  have "(3 :: u32) = mask 2" by (simp add: mask_eq_exp_minus_1)
  then have "flag AND 3 = take_bit 2 flag" by (simp add: take_bit_eq_mask)
  moreover have "take_bit 2 flag = 0 \<longleftrightarrow> (\<forall>i<2. \<not> bit flag i)"
    by (auto simp: bit_eq_iff bit_simps)
  moreover have "(\<forall>i<2. \<not> bit flag i) \<longleftrightarrow> \<not> bit flag 0 \<and> \<not> bit flag 1"
    by (auto simp: numeral_2_eq_2 All_less_Suc)
  ultimately show ?thesis by (simp add: pair_def)
qed

lemma pair_drop: "pair (drop_bit 2 flag) i = pair flag (Suc i)"
  by (simp add: pair_def bit_simps)

lemma region_skip_pair:
  assumes "\<And>j. j < i \<Longrightarrow> \<not> pair flag j" "pair flag i"
  shows "region_skip flag idx = Some (idx + of_nat i)"
  using assms
proof (induction i arbitrary: flag idx)
  case 0
  then show ?case by (subst region_skip.simps) (simp add: pair_0)
next
  case (Suc i)
  then have "\<not> pair flag 0" by simp
  moreover have "region_skip (drop_bit 2 flag) (idx + 1) = Some (idx + 1 + of_nat i)"
    by (rule Suc.IH) (use Suc.prems in \<open>auto simp: pair_drop\<close>)
  ultimately show ?case by (subst region_skip.simps) (simp add: pair_0 ac_simps)
qed

lemma region_free_pair:
  assumes "\<And>j. j < i \<Longrightarrow> \<not> pair flag j" "k + i = n \<or> pair flag i" "k + i \<le> n" "n < 256"
  shows "region_free flag (of_nat k) (of_nat n) = of_nat (k + i)"
  using assms(1-3)
proof (induction i arbitrary: flag k)
  case 0
  have "unat (of_nat n :: u8) = n" "unat (of_nat k :: u8) = k" using 0 assms(4) by (simp_all add: unsigned_of_nat take_bit_nat_eq_self)
  then have "pair flag 0 \<or> \<not> of_nat k < (of_nat n :: u8)" using 0(2) by (auto simp: word_less_nat_alt)
  then show ?case by (subst region_free.simps) (auto simp: pair_0)
next
  case (Suc i)
  have "unat (of_nat n :: u8) = n" "unat (of_nat k :: u8) = k" using Suc.prems assms(4) by (simp_all add: unsigned_of_nat take_bit_nat_eq_self)
  then have "of_nat k < (of_nat n :: u8)" using Suc.prems by (simp add: word_less_nat_alt)
  moreover have "region_free (drop_bit 2 flag) (of_nat (Suc k)) (of_nat n) = of_nat (Suc k + i)"
    by (rule Suc.IH) (use Suc.prems in \<open>auto simp: pair_drop\<close>)
  moreover have "\<not> pair flag 0" using Suc.prems by simp
  ultimately show ?case by (subst region_free.simps) (simp add: pair_0 ac_simps)
qed

section \<open>Fields over the fuses\<close>

lemma ucast_nat: "(ucast (w :: u16) :: u32) = of_nat (unat w)"
  by (rule word_unat_eq_iff [THEN iffD2]) (simp add: unat_of_nat32 less_trans [OF u16_less] unsigned_ucast_eq take_bit_nat_eq_self)

lemma ucast_nat8: "(ucast (w :: u8) :: u32) = of_nat (unat w)"
  by (rule word_unat_eq_iff [THEN iffD2]) (simp add: unat_of_nat32 less_trans [OF u8_less] unsigned_ucast_eq take_bit_nat_eq_self)

lemma bit_flag_of:
  assumes "n \<le> 32"
  shows "bit (flag_of (window_bytes f a n)) j \<longleftrightarrow> j < n \<and> f (a + j)"
proof (cases "j < 32")
  case True
  let ?m = "\<lambda>i. (window_bytes f a n @ replicate 4 0) ! i"
  have "flag_of (window_bytes f a n) = read32 ?m 0" by (simp add: flag_of_def read32_def of_le4_def numeral_2_eq_2 numeral_3_eq_3)
  then have *: "bit (flag_of (window_bytes f a n)) j \<longleftrightarrow> bit (?m (j div 8)) (j mod 8)"
    using True by (simp add: bit_read32 mem_bit_def)
  have q: "j div 8 < 4" using True by (intro less_mult_imp_div_less) simp
  have j: "8 * (j div 8) + j mod 8 = j" "a + 8 * (j div 8) + j mod 8 = a + j" by simp_all
  show ?thesis
  proof (cases "j div 8 < (n + 7) div 8")
    case True
    then have "?m (j div 8) = window_bytes f a n ! (j div 8)" by (simp add: nth_append)
    then show ?thesis unfolding * bit_window_bytes[OF True] \<open>?m (j div 8) = _\<close> unfolding j by simp
  next
    case False
    then have "?m (j div 8) = 0" using q by (simp add: nth_append)
    moreover have "\<not> j < n" using False div_le_mono[of "n - 1 + 8" "j + 8" 8] by (cases n) auto
    ultimately show ?thesis unfolding * by simp
  qed
next
  case False
  then show ?thesis using assms by (auto dest: bit_imp_le_length)
qed

lemma pair_flag_of:
  assumes "region_wf info" "i < slots info"
  shows "pair (flag_of (window_bytes f (unat (flag_start info)) (unat (flag_bits info)))) i \<longleftrightarrow> marked f info i"
proof -
  have "2 * i + 1 < unat (flag_bits info)" "unat (flag_bits info) \<le> 32"
    using assms by (auto simp: region_wf_def slots_def elim!: evenE)
  then show ?thesis by (simp add: pair_def bit_flag_of marked_def flag_at_def)
qed

lemma flag_of_0:
  assumes "region_wf info"
  shows "flag_of (window_bytes f (unat (flag_start info)) (unat (flag_bits info))) = 0 \<longleftrightarrow> free_slots f info = slots info"
    (is "?w = 0 \<longleftrightarrow> _")
proof -
  have n: "unat (flag_bits info) = 2 * slots info" "unat (flag_bits info) \<le> 32" using assms by (auto simp: region_wf_def slots_def)
  have "?w = 0 \<longleftrightarrow> (\<forall>j<2 * slots info. \<not> f (unat (flag_start info) + j))"
    using n(2) by (auto simp: bit_eq_iff bit_flag_of n(1))
  also have "\<dots> \<longleftrightarrow> (\<forall>i < slots info. \<not> marked f info i)"
  proof
    assume a: "\<forall>i < slots info. \<not> marked f info i"
    show "\<forall>j<2 * slots info. \<not> f (unat (flag_start info) + j)"
    proof (intro allI impI)
      fix j
      assume "j < 2 * slots info"
      then have "\<not> marked f info (j div 2)" using a by simp
      then show "\<not> f (unat (flag_start info) + j)" by (cases "even j") (auto simp: marked_def flag_at_def elim!: evenE oddE)
    qed
  next
    assume a: "\<forall>j<2 * slots info. \<not> f (unat (flag_start info) + j)"
    show "\<forall>i < slots info. \<not> marked f info i"
    proof (intro allI impI)
      fix i
      assume "i < slots info"
      then show "\<not> marked f info i" using a[rule_format, of "2 * i"] a[rule_format, of "2 * i + 1"] by (simp add: marked_def flag_at_def)
    qed
  qed
  also have "\<dots> \<longleftrightarrow> free_slots f info = slots info"
    using free_slots_unmarked[of _ f info] free_slots_eqI[of "slots info" f info] by auto
  finally show ?thesis .
qed

context fuse_array
begin

lemma write_back_ok:
  assumes "gEfuseState s \<noteq> EFUSE_STATE_BUSY" "n \<noteq> 0" "a + n \<le> 2048"
  shows "\<exists>s'. write_back hw (of_nat a) (of_nat n) m s = (Some (window_bytes (fuses s') a n), s') \<and> gEfuseState s' \<noteq> EFUSE_STATE_BUSY
    \<and> fuses s' = (\<lambda>k. fuses s k \<or> (a \<le> k \<and> k < a + n \<and> mem_bit m (k - a) \<and> good k))"
proof -
  obtain s1 where s1: "HAL_EFUSE_Write hw (of_nat a) (of_nat n) (Some m) s = (HAL_OK, s1)" "gEfuseState s1 = EFUSE_STATE_READY"
      "fuses s1 = (\<lambda>k. fuses s k \<or> (a \<le> k \<and> k < a + n \<and> mem_bit m (k - a) \<and> good k))"
    using Write_ok[OF assms, of m] by blast
  obtain s2 where "HAL_EFUSE_Read hw (of_nat a) (of_nat n) True s1 = (HAL_OK, window_bytes (fuses s1) a n, s2)"
      "fuses s2 = fuses s1" "gEfuseState s2 = EFUSE_STATE_READY"
    using Read_ok[of s1 n a] s1(2) assms by auto
  then show ?thesis using s1 by (auto simp: write_back_def)
qed

end

text \<open>The comparison of what was read back with the data.\<close>

lemma byte_eq_iff: "(x :: u8) = y \<longleftrightarrow> (\<forall>j<8. bit x j = bit y j)"
  by (rule iffI, simp, rule bit_word_eqI, simp)

lemma byte_masked: "bit ((x :: u8) AND (push_bit n 1 - 1)) j \<longleftrightarrow> j < n \<and> bit x j"
  by (auto simp: bit_simps mask_eq_exp_minus_1 [symmetric] push_bit_of_1 dest: bit_imp_le_length)

lemma all_bits_bytes: "(\<forall>k<n. P (k div 8) (k mod 8)) \<longleftrightarrow> (\<forall>i<n div 8. \<forall>j<8. P i j) \<and> (\<forall>j<n mod 8. P (n div 8) j)" for n :: nat
proof -
  obtain q r where q: "n = 8 * q + r" "r < 8" "n div 8 = q" "n mod 8 = r" by (metis mod_less_divisor mult_div_mod_eq zero_less_numeral)
  have "(\<forall>k<8 * q + r. P (k div 8) (k mod 8)) \<longleftrightarrow> (\<forall>i<q. \<forall>j<8. P i j) \<and> (\<forall>j<r. P q j)"
  proof (intro iffI conjI allI impI)
    fix i j :: nat
    assume a: "\<forall>k<8 * q + r. P (k div 8) (k mod 8)"
    show "P i j" if "i < q" "j < 8" using a[rule_format, of "8 * i + j"] that by simp
    show "P q j" if "j < r" using a[rule_format, of "8 * q + j"] that q(2) by simp
  next
    fix k
    assume a: "(\<forall>i<q. \<forall>j<8. P i j) \<and> (\<forall>j<r. P q j)" and k: "k < 8 * q + r"
    show "P (k div 8) (k mod 8)"
    proof (cases "k < 8 * q")
      case True
      then have "k div 8 < q" by (simp add: less_mult_imp_div_less mult.commute)
      then show ?thesis using a by simp
    next
      case False
      then obtain j where "k = 8 * q + j" "j < r" using k by (metis add_diff_inverse_nat nat_add_left_cancel_less)
      then show ?thesis using a q(2) by simp
    qed
  qed
  then show ?thesis using q by simp
qed

lemma bit_cmp_window: "efpg_bit_cmp m (window_bytes f a n) n \<longleftrightarrow> (\<forall>k<n. f (a + k) = mem_bit m k)"
proof -
  let ?w = "window_bytes f a n" and ?q = "n div 8" and ?r = "n mod 8"
  have q: "?q < (n + 7) div 8" if "0 < ?r" using that by presburger
  have 1: "map m [0..<?q] = take ?q ?w \<longleftrightarrow> (\<forall>i<?q. \<forall>j<8. bit (m i) j = f (a + 8 * i + j))"
  proof -
    have i: "i < (n + 7) div 8 \<and> (\<forall>j<8. 8 * i + j < n)" if "i < ?q" for i using that by auto
    have "bit (?w ! i) j = f (a + 8 * i + j)" if "i < ?q" "j < 8" for i j using i[OF that(1)] that(2) by (simp add: bit_window_bytes)
    then have "(\<forall>i<?q. m i = ?w ! i) \<longleftrightarrow> (\<forall>i<?q. \<forall>j<8. bit (m i) j = f (a + 8 * i + j))" by (simp add: byte_eq_iff)
    moreover have "map m [0..<?q] = take ?q ?w \<longleftrightarrow> (\<forall>i<?q. m i = ?w ! i)"
      by (auto simp: list_eq_iff_nth_eq min_def)
    ultimately show ?thesis by simp
  qed
  have 2: "(0 < ?r \<longrightarrow> m ?q AND (push_bit ?r 1 - 1) = ?w ! ?q AND (push_bit ?r 1 - 1))
      \<longleftrightarrow> (\<forall>j<?r. bit (m ?q) j = f (a + 8 * ?q + j))"
  proof (cases "0 < ?r")
    case True
    have "8 * ?q + j < n" if "j < ?r" for j using that by (metis div_mult_mod_eq mult.commute nat_add_left_cancel_less)
    moreover have "j < 8" if "j < ?r" for j using that by (rule less_trans) simp
    ultimately show ?thesis using True
      by (auto simp: byte_eq_iff[of "_ AND _"] byte_masked bit_window_bytes[OF q[OF True]] simp del: push_bit_of_1)
  qed simp
  have "(\<forall>k<n. f (a + k) = mem_bit m k) \<longleftrightarrow> (\<forall>k<n. bit (m (k div 8)) (k mod 8) = f (a + 8 * (k div 8) + k mod 8))"
    by (auto simp: mem_bit_def add.assoc)
  also have "\<dots> \<longleftrightarrow> efpg_bit_cmp m ?w n"
    unfolding efpg_bit_cmp_def 1 2 by (rule all_bits_bytes)
  finally show ?thesis by simp
qed

section \<open>Writing a slot, abstractly\<close>

text \<open>What programming does to the fuses, and the search for a slot that takes the data.\<close>

definition burn :: "(nat \<Rightarrow> bool) \<Rightarrow> nat \<Rightarrow> nat \<Rightarrow> (nat \<Rightarrow> bool) \<Rightarrow> (nat \<Rightarrow> bool) \<Rightarrow> nat \<Rightarrow> bool" where
  "burn good a n d f = (\<lambda>k. f k \<or> (a \<le> k \<and> k < a + n \<and> d (k - a) \<and> good k))"

abbreviation burn_flag :: "(nat \<Rightarrow> bool) \<Rightarrow> efpg_region_info \<Rightarrow> nat \<Rightarrow> (nat \<Rightarrow> bool) \<Rightarrow> nat \<Rightarrow> bool" where
  "burn_flag good info i \<equiv> burn good (flag_at info i) 2 (\<lambda>_. True)"

abbreviation burn_data :: "(nat \<Rightarrow> bool) \<Rightarrow> efpg_region_info \<Rightarrow> nat \<Rightarrow> (nat \<Rightarrow> bool) \<Rightarrow> (nat \<Rightarrow> bool) \<Rightarrow> nat \<Rightarrow> bool" where
  "burn_data good info i \<equiv> burn good (slot_start info i) (unat (data_bits info))"

definition holds :: "(nat \<Rightarrow> bool) \<Rightarrow> efpg_region_info \<Rightarrow> (nat \<Rightarrow> bool) \<Rightarrow> nat \<Rightarrow> bool" where
  "holds f info d i \<longleftrightarrow> (\<forall>k<unat (data_bits info). f (slot_start info i + k) = d k)"

fun try_slots :: "(nat \<Rightarrow> bool) \<Rightarrow> efpg_region_info \<Rightarrow> (nat \<Rightarrow> bool) \<Rightarrow> nat \<Rightarrow> (nat \<Rightarrow> bool) \<Rightarrow> bool \<times> (nat \<Rightarrow> bool)" where
  "try_slots good info d 0 f = (False, f)"
| "try_slots good info d (Suc i) f =
     (let f1 = burn_flag good info i f in
      if \<not> marked f1 info i then try_slots good info d i f1
      else let f2 = burn_data good info i d f1 in
           if holds f2 info d i then (True, f2) else try_slots good info d i f2)"

text \<open>A slot can be used when one of its flag fuses works, and its data fuses can take the data.\<close>

definition flaggable :: "(nat \<Rightarrow> bool) \<Rightarrow> efpg_region_info \<Rightarrow> nat \<Rightarrow> bool" where
  "flaggable good info i \<longleftrightarrow> good (flag_at info i) \<or> good (flag_at info i + 1)"

definition usable :: "(nat \<Rightarrow> bool) \<Rightarrow> efpg_region_info \<Rightarrow> (nat \<Rightarrow> bool) \<Rightarrow> (nat \<Rightarrow> bool) \<Rightarrow> nat \<Rightarrow> bool" where
  "usable good info d f i \<longleftrightarrow> flaggable good info i
     \<and> (\<forall>k<unat (data_bits info). (f (slot_start info i + k) \<or> d k \<and> good (slot_start info i + k)) = d k)"

lemma slot_start_mono: "i < j \<Longrightarrow> slot_start info i + unat (data_bits info) \<le> slot_start info j"
  using mult_le_mono1[of "Suc i" j "unat (data_bits info)"] by (simp add: slot_start_def)

lemma flag_below: "region_wf info \<Longrightarrow> i < slots info \<Longrightarrow> flag_at info i + 1 < slot_start info j"
  by (simp add: region_wf_def flag_at_def slot_start_def)

lemma burn_flag_marked: "marked (burn_flag good info i f) info i \<longleftrightarrow> marked f info i \<or> flaggable good info i"
  by (auto simp: marked_def burn_def flaggable_def)

lemma burn_flag_other: "i \<noteq> j \<Longrightarrow> marked (burn_flag good info i f) info j = marked f info j"
  by (auto simp: marked_def burn_def flag_at_def)

lemma burn_data_marked: "region_wf info \<Longrightarrow> j < slots info \<Longrightarrow> marked (burn_data good info i d f) info j = marked f info j"
  using flag_below[of info j i] by (auto simp: marked_def burn_def)

lemma burn_flag_slot: "region_wf info \<Longrightarrow> i < slots info \<Longrightarrow> burn_flag good info i f (slot_start info j + k) = f (slot_start info j + k)"
  using flag_below[of info i j] by (auto simp: burn_def)

lemma burn_data_slot:
  "k < unat (data_bits info) \<Longrightarrow> burn_data good info i d f (slot_start info i + k) = (f (slot_start info i + k) \<or> d k \<and> good (slot_start info i + k))"
  by (simp add: burn_def)

lemma burn_data_other: "i \<noteq> j \<Longrightarrow> k < unat (data_bits info) \<Longrightarrow> burn_data good info i d f (slot_start info j + k) = f (slot_start info j + k)"
  using slot_start_mono[of j i info] slot_start_mono[of i j info] by (cases "j < i") (auto simp: burn_def)

lemma holds_burn:
  "region_wf info \<Longrightarrow> i < slots info \<Longrightarrow> holds (burn_flag good info i f) info d j = holds f info d j"
  "i \<noteq> j \<Longrightarrow> holds (burn_data good info i d f) info d j = holds f info d j"
  by (auto simp: holds_def burn_flag_slot burn_data_other)

lemma usable_burn:
  "region_wf info \<Longrightarrow> i < slots info \<Longrightarrow> usable good info d (burn_flag good info i f) j = usable good info d f j"
  "i \<noteq> j \<Longrightarrow> usable good info d (burn_data good info i d f) j = usable good info d f j"
  by (auto simp: usable_def burn_flag_slot burn_data_other)

lemma usable_holds:
  "region_wf info \<Longrightarrow> i < slots info \<Longrightarrow>
    usable good info d f i = (flaggable good info i \<and> holds (burn_data good info i d (burn_flag good info i f)) info d i)"
  by (auto simp: usable_def holds_def burn_flag_slot burn_data_slot)

lemmas burn_simps = burn_flag_marked burn_flag_other burn_data_marked holds_burn usable_burn

text \<open>The search succeeds when there is a usable slot, and the slot it takes is then the newest; when it
  fails, every slot that could be flagged is marked and holds something else.\<close>

lemma try_slots_spec:
  assumes "region_wf info" "n \<le> slots info" "\<forall>i<n. \<not> marked f info i" "try_slots good info d n f = (ok, f')"
  shows "ok = (\<exists>i<n. usable good info d f i)"
    and "ok \<Longrightarrow> \<exists>i<n. marked f' info i \<and> (\<forall>j<i. \<not> marked f' info j) \<and> holds f' info d i"
    and "\<not> ok \<Longrightarrow> i < n \<Longrightarrow> marked f' info i = flaggable good info i \<and> (flaggable good info i \<longrightarrow> \<not> holds f' info d i)"
proof -
  have "ok = (\<exists>i<n. usable good info d f i)
    \<and> (ok \<longrightarrow> (\<exists>i<n. marked f' info i \<and> (\<forall>j<i. \<not> marked f' info j) \<and> holds f' info d i))
    \<and> (\<not> ok \<longrightarrow> (\<forall>i<n. marked f' info i = flaggable good info i \<and> (flaggable good info i \<longrightarrow> \<not> holds f' info d i)))
    \<and> (\<forall>j\<ge>n. j < slots info \<longrightarrow> marked f' info j = marked f info j \<and> holds f' info d j = holds f info d j)"
    using assms(2-4)
  proof (induction n arbitrary: f)
    case (Suc n)
    let ?f1 = "burn_flag good info n f"
    let ?f2 = "burn_data good info n d ?f1"
    have n: "n < slots info" "n \<le> slots info" "\<not> marked f info n" "\<forall>i<n. \<not> marked f info i" using Suc.prems by auto
    note burnt [simp] = burn_simps n assms(1)
    have less: "(\<exists>i<Suc n. P i) \<longleftrightarrow> (\<exists>i<n. P i) \<or> P n" "(\<forall>i<Suc n. P i) \<longleftrightarrow> (\<forall>i<n. P i) \<and> P n" for P
      by (auto simp: less_Suc_eq)
    have m: "\<forall>i<n. \<not> marked ?f1 info i" using n(4) by (auto simp: burn_flag_other[of n])
    then have m2: "\<forall>i<n. \<not> marked ?f2 info i" using n(1) burn_data_marked[OF assms(1)] by (metis less_trans)
    consider (flag) "\<not> flaggable good info n" | (data) "flaggable good info n" "\<not> holds ?f2 info d n"
      | (ok) "flaggable good info n" "holds ?f2 info d n" by blast
    then show ?case
    proof cases
      case flag
      then have "try_slots good info d n ?f1 = (ok, f')" using Suc.prems(3) by simp
      note IH = Suc.IH[OF n(2) m this]
      have "\<not> usable good info d f n" using flag by (simp add: usable_def)
      then show ?thesis using IH flag by (auto simp: less)
    next
      case data
      then have "try_slots good info d n ?f2 = (ok, f')" using Suc.prems(3) by simp
      note IH = Suc.IH[OF n(2) m2 this]
      have "\<not> usable good info d f n" using data by (simp add: usable_holds)
      moreover have "(\<exists>i<n. usable good info d ?f2 i) = (\<exists>i<n. usable good info d f i)" by (auto simp del: usable_burn(2) simp: usable_burn(2)[of n])
      ultimately show ?thesis using IH data by (auto simp: less)
    next
      case ok
      then have "ok" "f' = ?f2" using Suc.prems(3) by auto
      moreover have "usable good info d f n" using ok by (simp add: usable_holds)
      moreover have "marked ?f2 info n" using ok by simp
      ultimately show ?thesis using ok m2 by (auto simp: less)
    qed
  qed simp
  then show "ok = (\<exists>i<n. usable good info d f i)"
    and "ok \<Longrightarrow> \<exists>i<n. marked f' info i \<and> (\<forall>j<i. \<not> marked f' info j) \<and> holds f' info d i"
    and "\<not> ok \<Longrightarrow> i < n \<Longrightarrow> marked f' info i = flaggable good info i \<and> (flaggable good info i \<longrightarrow> \<not> holds f' info d i)"
    by blast+
qed

section \<open>The region functions over the fuses\<close>

lemma window_bytes_cong:
  assumes "\<And>k. k < n \<Longrightarrow> f (a + k) = g (b + k)"
  shows "window_bytes f a n = window_bytes g b n"
proof (rule nth_equalityI)
  fix k
  assume "k < length (window_bytes f a n)"
  then have k: "k < (n + 7) div 8" by simp
  have "f (a + 8 * k + j) = g (b + 8 * k + j)" if "8 * k + j < n" for j using assms[OF that] by (simp add: add.assoc)
  then show "window_bytes f a n ! k = window_bytes g b n ! k"
    by (auto simp: byte_eq_iff bit_window_bytes[OF k])
qed simp

lemma window_bytes_eq_iff: "window_bytes f a n = window_bytes g b n \<longleftrightarrow> (\<forall>k<n. f (a + k) = g (b + k))"
proof
  assume eq: "window_bytes f a n = window_bytes g b n"
  show "\<forall>k<n. f (a + k) = g (b + k)"
  proof (intro allI impI)
    fix k
    assume "k < n"
    then have k: "k div 8 < (n + 7) div 8" by (auto intro: less_le_trans[OF _ div_le_mono] simp: less_mult_imp_div_less)
    have "bit (window_bytes f a n ! (k div 8)) (k mod 8) = bit (window_bytes g b n ! (k div 8)) (k mod 8)" using eq by simp
    then show "f (a + k) = g (b + k)" using \<open>k < n\<close> by (simp add: bit_window_bytes[OF k] add.assoc)
  qed
qed (auto intro: window_bytes_cong)

lemma two_bits: "window_bytes f a 2 ! 0 = 0 \<longleftrightarrow> \<not> f a \<and> \<not> f (a + 1)"
proof -
  have "window_bytes f a 2 ! 0 = 0 \<longleftrightarrow> (\<forall>j<8. \<not> (j < 2 \<and> f (a + j)))" by (simp add: byte_eq_iff bit_window_bytes)
  also have "\<dots> \<longleftrightarrow> \<not> f a \<and> \<not> f (a + 1)"
  proof
    assume a: "\<forall>j<8. \<not> (j < 2 \<and> f (a + j))"
    show "\<not> f a \<and> \<not> f (a + 1)" using a[rule_format, of 0] a[rule_format, of 1] by simp
  next
    assume a: "\<not> f a \<and> \<not> f (a + 1)"
    show "\<forall>j<8. \<not> (j < 2 \<and> f (a + j))" using a by (auto dest!: less_2_cases)
  qed
  finally show ?thesis .
qed

lemma bits_of_3: "j < 2 \<Longrightarrow> mem_bit (mem_at [3] behind) j"
  by (auto simp: mem_bit_def mem_at_def less_2_cases_iff bit_simps)

lemma flag_word: "ucast (flag_start info) + of_nat i * 2 = (of_nat (flag_at info i) :: u32)"
  by (simp add: flag_at_def mult.commute)

lemma slot_word: "ucast (data_start info) + of_nat i * ucast (data_bits info) = (of_nat (slot_start info i) :: u32)"
  by (simp add: slot_start_def)

lemma region_bounds:
  assumes "region_wf info" "i < slots info"
  shows "flag_at info i + 2 \<le> 2048" "slot_start info i + unat (data_bits info) \<le> 2048" "unat (data_bits info) \<noteq> 0"
proof -
  show "slot_start info i + unat (data_bits info) \<le> 2048" using slot_start_mono[OF assms(2), of info] assms(1) by (simp add: region_wf_def)
  moreover show "unat (data_bits info) \<noteq> 0" using assms(1) by (simp add: region_wf_def unat_eq_0)
  ultimately show "flag_at info i + 2 \<le> 2048" using flag_below[OF assms, of i] by simp
qed

context fuse_array
begin

lemma region_try_ok:
  assumes "region_wf info" "n \<le> slots info" "gEfuseState s \<noteq> EFUSE_STATE_BUSY"
  shows "\<exists>s'. region_try hw info m behind n s
      = (if fst (try_slots good info (mem_bit m) n (fuses s)) then EFPG_ACK_OK else EFPG_ACK_DI_ERR, s')
    \<and> gEfuseState s' \<noteq> EFUSE_STATE_BUSY \<and> fuses s' = snd (try_slots good info (mem_bit m) n (fuses s))"
  using assms(2,3)
proof (induction n arbitrary: s)
  case (Suc n)
  note b = region_bounds[OF assms(1), of n]
  obtain s1 where s1: "write_back hw (of_nat (flag_at info n)) (of_nat 2) (mem_at [3] behind) s = (Some (window_bytes (fuses s1) (flag_at info n) 2), s1)"
      "gEfuseState s1 \<noteq> EFUSE_STATE_BUSY" "fuses s1 = (\<lambda>k. fuses s k \<or> (flag_at info n \<le> k \<and> k < flag_at info n + 2
        \<and> mem_bit (mem_at [3] behind) (k - flag_at info n) \<and> good k))"
    using write_back_ok[of s 2 "flag_at info n" "mem_at [3] behind"] Suc.prems b by auto
  have f1: "fuses s1 = burn_flag good info n (fuses s)"
    unfolding s1(3) burn_def by (auto simp: fun_eq_iff bits_of_3)
  have z: "window_bytes (fuses s1) (flag_at info n) 2 ! 0 = 0 \<longleftrightarrow> \<not> marked (fuses s1) info n" by (simp add: two_bits marked_def)
  obtain s2 where s2: "write_back hw (of_nat (slot_start info n)) (of_nat (unat (data_bits info))) m s1
        = (Some (window_bytes (fuses s2) (slot_start info n) (unat (data_bits info))), s2)"
      "gEfuseState s2 \<noteq> EFUSE_STATE_BUSY" "fuses s2 = burn_data good info n (mem_bit m) (fuses s1)"
    using write_back_ok[of s1 "unat (data_bits info)" "slot_start info n" m] s1(2) Suc.prems b by (auto simp: burn_def)
  have c: "efpg_bit_cmp m (window_bytes (fuses s2) (slot_start info n) (unat (data_bits info))) (unat (data_bits info))
      \<longleftrightarrow> holds (fuses s2) info (mem_bit m) n" by (simp add: bit_cmp_window holds_def)
  have n: "n \<le> slots info" using Suc.prems(1) by simp
  show ?case using Suc.IH[OF n s1(2)] Suc.IH[OF n s2(2)] s1(1) s2(1,2)
    by (auto simp: flag_word slot_word z c Let_def f1 [symmetric] s2(3) [symmetric])
qed simp

end


lemma unat_numeral_16: "unat (2 :: u16) = 2"
  by simp

context fuse_array
begin

lemma region_flags:
  assumes "region_wf info" "gEfuseState s \<noteq> EFUSE_STATE_BUSY"
  shows "\<exists>s'. HAL_EFUSE_Read hw (ucast (flag_start info)) (ucast (flag_bits info)) True s
      = (HAL_OK, window_bytes (fuses s) (unat (flag_start info)) (unat (flag_bits info)), s')
    \<and> fuses s' = fuses s \<and> gEfuseState s' \<noteq> EFUSE_STATE_BUSY"
proof -
  have "even (unat (flag_bits info))" using assms(1) by (simp add: region_wf_def)
  then have "flag_at info (slots info) = unat (flag_start info) + unat (flag_bits info)" by (simp add: flag_at_def slots_def)
  moreover have "flag_at info (slots info) \<le> 2048" using assms(1) by (simp add: region_wf_def slot_start_def)
  moreover have "unat (flag_bits info) \<noteq> 0" using assms(1) by (simp add: region_wf_def unat_eq_0)
  ultimately obtain s' where "HAL_EFUSE_Read hw (of_nat (unat (flag_start info))) (of_nat (unat (flag_bits info))) True s
      = (HAL_OK, window_bytes (fuses s) (unat (flag_start info)) (unat (flag_bits info)), s')"
      "fuses s' = fuses s" "gEfuseState s' = EFUSE_STATE_READY"
    using Read_ok[of s "unat (flag_bits info)" "unat (flag_start info)"] assms(2) by auto
  then show ?thesis unfolding ucast_nat by auto
qed

lemma write_region_ok:
  assumes "region_wf info" "gEfuseState s \<noteq> EFUSE_STATE_BUSY"
  shows "\<exists>s'. efpg_write_region hw info m behind s
      = (if fst (try_slots good info (mem_bit m) (free_slots (fuses s) info) (fuses s)) then EFPG_ACK_OK else EFPG_ACK_DI_ERR, s')
    \<and> gEfuseState s' \<noteq> EFUSE_STATE_BUSY \<and> fuses s' = snd (try_slots good info (mem_bit m) (free_slots (fuses s) info) (fuses s))"
proof -
  let ?fl = "flag_of (window_bytes (fuses s) (unat (flag_start info)) (unat (flag_bits info)))" and ?n = "free_slots (fuses s) info"
  have le: "?n \<le> slots info" "slots info < 256" using free_slots_le assms(1) by (auto simp: region_wf_def slots_def)
  have "region_free ?fl (of_nat 0) (of_nat (slots info)) = of_nat (0 + ?n)"
  proof (rule region_free_pair)
    fix j
    assume "j < ?n"
    then show "\<not> pair ?fl j" using pair_flag_of[OF assms(1), of j] free_slots_unmarked[of j] le by auto
  next
    show "0 + ?n = slots info \<or> pair ?fl ?n"
      using pair_flag_of[OF assms(1), of ?n] free_slots_marked[of "fuses s" info] le by (cases "?n < slots info") auto
  qed (use le in auto)
  moreover have "(ucast (flag_bits info div 2) :: u8) = of_nat (slots info)"
  proof -
    have "(ucast (flag_bits info div 2) :: u8) = of_nat (unat (flag_bits info div 2))" by simp
    then show ?thesis by (simp only: slots_def unat_div unat_numeral_16)
  qed
  moreover have "unat (of_nat ?n :: u8) = ?n" using le by (simp add: unsigned_of_nat take_bit_nat_eq_self)
  ultimately have n: "unat (region_free ?fl 0 (ucast (flag_bits info div 2))) = ?n" by simp
  obtain s1 where s1: "HAL_EFUSE_Read hw (ucast (flag_start info)) (ucast (flag_bits info)) True s
      = (HAL_OK, window_bytes (fuses s) (unat (flag_start info)) (unat (flag_bits info)), s1)"
      "fuses s1 = fuses s" "gEfuseState s1 \<noteq> EFUSE_STATE_BUSY" using region_flags[OF assms] by blast
  show ?thesis using region_try_ok[OF assms(1) le(1) s1(3), of m behind] s1(1,2)
    by (simp add: efpg_write_region_def Let_def n)
qed

lemma read_region_ok:
  assumes "region_wf info" "gEfuseState s \<noteq> EFUSE_STATE_BUSY" "i < slots info" "marked (fuses s) info i" "\<forall>j<i. \<not> marked (fuses s) info j"
  shows "\<exists>s'. efpg_read_region hw info s
      = Some (EFPG_ACK_OK, window_bytes (fuses s) (slot_start info i) (unat (data_bits info)), s') \<and> fuses s' = fuses s"
proof -
  let ?fl = "flag_of (window_bytes (fuses s) (unat (flag_start info)) (unat (flag_bits info)))"
  have i: "free_slots (fuses s) info = i" using assms by (intro free_slots_eqI) auto
  have nz: "?fl \<noteq> 0" using flag_of_0[OF assms(1)] i assms(3) by simp
  have "region_skip ?fl 0 = Some (0 + of_nat i)"
    by (rule region_skip_pair) (use assms pair_flag_of[OF assms(1)] in auto)
  moreover have "unat (of_nat i :: u8) = i" using assms(1,3)
    by (auto simp: region_wf_def slots_def unsigned_of_nat intro!: take_bit_nat_eq_self)
  ultimately have sk: "region_skip ?fl 0 = Some (of_nat i)" "(ucast (of_nat i :: u8) :: u32) = of_nat i" by (simp_all add: ucast_nat8)
  obtain s1 where s1: "HAL_EFUSE_Read hw (ucast (flag_start info)) (ucast (flag_bits info)) True s
      = (HAL_OK, window_bytes (fuses s) (unat (flag_start info)) (unat (flag_bits info)), s1)"
      "fuses s1 = fuses s" "gEfuseState s1 \<noteq> EFUSE_STATE_BUSY" using region_flags[OF assms(1,2)] by blast
  obtain s2 where "HAL_EFUSE_Read hw (of_nat (slot_start info i)) (of_nat (unat (data_bits info))) True s1
      = (HAL_OK, window_bytes (fuses s1) (slot_start info i) (unat (data_bits info)), s2)" "fuses s2 = fuses s1"
    using Read_ok[OF s1(3) region_bounds(3,2)[OF assms(1,3)]] by blast
  then show ?thesis using s1 nz by (simp add: efpg_read_region_def sk slot_word)
qed

end

section \<open>Properties\<close>

text \<open>C18. Storing a field in slots (DCXO, POUT, MAC) whatever fuses are broken: the write answers OK exactly
  when one of the free slots has a working flag fuse and data fuses that can take the data, and otherwise
  \<open>EFPG_ACK_DI_ERR\<close>; after OK a read answers OK with exactly the data, the damaged slots that the write
  tried before being skipped.\<close>

theorem efpg_region_write_read:
  assumes "fuse_array hw fuse good" "region_wf info" "gEfuseState s \<noteq> EFUSE_STATE_BUSY"
  shows "\<exists>ack s'. efpg_write_region hw info m behind s = (ack, s')
    \<and> ack = (if \<exists>i<free_slots (fuse (es_env s)) info. usable good info (mem_bit m) (fuse (es_env s)) i then EFPG_ACK_OK else EFPG_ACK_DI_ERR)
    \<and> (ack = EFPG_ACK_OK \<longrightarrow> (\<exists>s''. efpg_read_region hw info s' = Some (EFPG_ACK_OK, window_bytes (mem_bit m) 0 (unat (data_bits info)), s'')))"
proof -
  let ?n = "free_slots (fuse (es_env s)) info" and ?bits = "unat (data_bits info)"
  obtain ok f' where t: "try_slots good info (mem_bit m) ?n (fuse (es_env s)) = (ok, f')" by force
  have free: "\<forall>i<?n. \<not> marked (fuse (es_env s)) info i" using free_slots_unmarked by blast
  note spec = try_slots_spec[OF assms(2) free_slots_le free t]
  obtain s' where w: "efpg_write_region hw info m behind s = (if ok then EFPG_ACK_OK else EFPG_ACK_DI_ERR, s')"
      "gEfuseState s' \<noteq> EFUSE_STATE_BUSY" "fuse (es_env s') = f'"
    using fuse_array.write_region_ok[OF assms(1-3), of m behind] t by auto
  have "\<exists>s''. efpg_read_region hw info s' = Some (EFPG_ACK_OK, window_bytes (mem_bit m) 0 ?bits, s'')" if yes: ok
  proof -
    obtain i where i: "i < ?n" "marked f' info i" "\<forall>j<i. \<not> marked f' info j" "holds f' info (mem_bit m) i"
      using spec(2)[OF yes] by blast
    have "window_bytes f' (slot_start info i) ?bits = window_bytes (mem_bit m) 0 ?bits"
      by (rule window_bytes_cong) (use i(4) in \<open>simp add: holds_def\<close>)
    then show ?thesis
      using fuse_array.read_region_ok[OF assms(1,2) w(2) less_le_trans[OF i(1) free_slots_le]] i(2,3) w(3) by auto
  qed
  then show ?thesis using w(1) spec(1) by auto
qed

text \<open>The crystal trim in fresh fuses, of which the first of the flag and one of the data of the last slot are broken.\<close>

theorem efpg_region_write_read_witness:
  "\<exists>s' s''. efpg_write_region (fuse_regs (\<lambda>k. k \<noteq> 902 \<and> k \<noteq> 920)) dcxo_info (mem_at [0x81] (\<lambda>_. 0)) (\<lambda>_. 0)
        \<lparr>gEfuseState = EFUSE_STATE_INVALID, es_env = \<lambda>_. False\<rparr> = (EFPG_ACK_OK, s')
    \<and> efpg_read_region (fuse_regs (\<lambda>k. k \<noteq> 902 \<and> k \<noteq> 920)) dcxo_info s' = Some (EFPG_ACK_OK, [0x81], s'')"
proof -
  let ?g = "\<lambda>k :: nat. k \<noteq> 902 \<and> k \<noteq> 920" and ?f = "\<lambda>_ :: nat. False" and ?m = "mem_at [0x81] (\<lambda>_. 0)"
  have "free_slots ?f dcxo_info = 3" by code_simp
  moreover have "usable ?g dcxo_info (mem_bit ?m) ?f 1"
    by (auto simp: usable_def flaggable_def flag_at_def slot_start_def dcxo_info_def)
  ultimately have "\<exists>i<free_slots ?f dcxo_info. usable ?g dcxo_info (mem_bit ?m) ?f i" by (intro exI[of _ 1]) simp
  moreover have "window_bytes (mem_bit ?m) 0 (unat (data_bits dcxo_info)) = [0x81]" by code_simp
  ultimately show ?thesis
    using efpg_region_write_read[OF array.fuse_array_axioms[of ?g] infos_wf(1),
        of "\<lparr>gEfuseState = EFUSE_STATE_INVALID, es_env = ?f\<rparr>" ?m "\<lambda>_. 0"] by auto
qed

text \<open>A write that fails destroys what was stored before: the slots are flagged before their data are
  checked, so when no free slot takes the data but one of them has a working flag fuse, the write answers
  \<open>EFPG_ACK_DI_ERR\<close> and a later read answers OK, with the bits of a slot that does not hold the data
  (and not with the value of the slot that was the newest before).\<close>

theorem efpg_region_failed_write:
  assumes "fuse_array hw fuse good" "region_wf info" "gEfuseState s \<noteq> EFUSE_STATE_BUSY"
    and "\<not> (\<exists>i<free_slots (fuse (es_env s)) info. usable good info (mem_bit m) (fuse (es_env s)) i)"
    and "\<exists>i<free_slots (fuse (es_env s)) info. flaggable good info i"
  shows "\<exists>s' s'' bs i. efpg_write_region hw info m behind s = (EFPG_ACK_DI_ERR, s')
    \<and> efpg_read_region hw info s' = Some (EFPG_ACK_OK, bs, s'') \<and> bs \<noteq> window_bytes (mem_bit m) 0 (unat (data_bits info))
    \<and> i < free_slots (fuse (es_env s)) info \<and> bs = window_bytes (fuse (es_env s')) (slot_start info i) (unat (data_bits info))"
proof -
  let ?n = "free_slots (fuse (es_env s)) info" and ?bits = "unat (data_bits info)"
  obtain ok f' where t: "try_slots good info (mem_bit m) ?n (fuse (es_env s)) = (ok, f')" by force
  have free: "\<forall>i<?n. \<not> marked (fuse (es_env s)) info i" using free_slots_unmarked by blast
  note spec = try_slots_spec[OF assms(2) free_slots_le free t]
  have "\<not> ok" using spec(1) assms(4) by simp
  then obtain s' where w: "efpg_write_region hw info m behind s = (EFPG_ACK_DI_ERR, s')"
      "gEfuseState s' \<noteq> EFUSE_STATE_BUSY" "fuse (es_env s') = f'"
    using fuse_array.write_region_ok[OF assms(1-3), of m behind] t by auto
  obtain i where i: "i < ?n" "flaggable good info i" "\<forall>j<i. \<not> flaggable good info j"
    using assms(5) exists_least_iff[of "\<lambda>i. flaggable good info i"] by (metis less_trans not_less_iff_gr_or_eq)
  have mk: "marked f' info i" "\<not> holds f' info (mem_bit m) i" "\<forall>j<i. \<not> marked f' info j"
    using spec(3)[OF \<open>\<not> ok\<close>] i by (auto dest: less_trans)
  have "window_bytes f' (slot_start info i) ?bits \<noteq> window_bytes (mem_bit m) 0 ?bits"
    using mk(2) by (simp add: window_bytes_eq_iff holds_def)
  then show ?thesis
    using fuse_array.read_region_ok[OF assms(1,2) w(2) less_le_trans[OF i(1) free_slots_le]] mk(1,3) w i(1) by auto
qed

text \<open>The last slot holds a value, and a data fuse of each of the two free slots is broken.\<close>

theorem efpg_region_failed_write_witness:
  "\<exists>s' s'' bs i. efpg_write_region (fuse_regs (\<lambda>k. k \<noteq> 904 \<and> k \<noteq> 912)) dcxo_info (mem_at [0x81] (\<lambda>_. 0)) (\<lambda>_. 0)
        \<lparr>gEfuseState = EFUSE_STATE_READY, es_env = \<lambda>k. k = 902 \<or> k = 920\<rparr> = (EFPG_ACK_DI_ERR, s')
    \<and> efpg_read_region (fuse_regs (\<lambda>k. k \<noteq> 904 \<and> k \<noteq> 912)) dcxo_info s' = Some (EFPG_ACK_OK, bs, s'')
    \<and> bs \<noteq> [0x81] \<and> i < 2 \<and> bs = window_bytes (es_env s') (904 + i * 8) 8"
proof -
  let ?g = "\<lambda>k :: nat. k \<noteq> 904 \<and> k \<noteq> 912" and ?f = "\<lambda>k :: nat. k = 902 \<or> k = 920" and ?m = "mem_at [0x81] (\<lambda>_. 0)"
  have n: "free_slots ?f dcxo_info = 2" by code_simp
  have "\<not> usable ?g dcxo_info (mem_bit ?m) ?f i" if "i < 2" for i
  proof
    assume u: "usable ?g dcxo_info (mem_bit ?m) ?f i"
    have "(?f (904 + i * 8 + 0) \<or> mem_bit ?m 0 \<and> ?g (904 + i * 8 + 0)) = mem_bit ?m 0"
      using u unfolding usable_def slot_start_def dcxo_info_def by (elim conjE allE[of _ 0]) simp
    then show False using less_2_cases[OF that] by (auto simp: mem_bit_def mem_at_def)
  qed
  moreover have "\<exists>i<2. flaggable ?g dcxo_info i"
    by (rule exI[of _ 0]) (simp add: flaggable_def flag_at_def dcxo_info_def)
  moreover have "window_bytes (mem_bit ?m) 0 (unat (data_bits dcxo_info)) = [0x81]" by code_simp
  moreover have "slot_start dcxo_info i = 904 + i * 8" "unat (data_bits dcxo_info) = 8" for i by (simp_all add: slot_start_def dcxo_info_def)
  ultimately show ?thesis
    using efpg_region_failed_write[OF array.fuse_array_axioms[of ?g] infos_wf(1),
        of "\<lparr>gEfuseState = EFUSE_STATE_READY, es_env = ?f\<rparr>" ?m "\<lambda>_. 0"] n by auto
qed

section \<open>The boot hash\<close>

text \<open>The comparison collects the numbers of the wrong bits, in order.\<close>

fun note_wrong :: "nat \<Rightarrow> u8 \<times> u8 \<times> u8 \<Rightarrow> (u8 \<times> u8 \<times> u8) option" where
  "note_wrong no (cnt, n1, n2) =
     (if cnt = 0 then Some (1, of_nat no, n2) else if cnt = 1 then Some (2, n1, of_nat no) else None)"

fun note_all :: "nat list \<Rightarrow> u8 \<times> u8 \<times> u8 \<Rightarrow> (u8 \<times> u8 \<times> u8) option" where
  "note_all [] e = Some e"
| "note_all (no # nos) e = do { e \<leftarrow> note_wrong no e; note_all nos e }"

lemma note_all_append: "note_all (xs @ ys) e = do { e \<leftarrow> note_all xs e; note_all ys e }"
  by (induction xs arbitrary: e) (auto split: bind_split)

definition wrong_bits :: "(nat \<Rightarrow> bool) \<Rightarrow> (nat \<Rightarrow> u8) \<Rightarrow> nat \<Rightarrow> nat list" where
  "wrong_bits f m n = filter (\<lambda>k. f k \<noteq> mem_bit m k) [0..<n]"

lemma masked_bit: "(d AND push_bit j 1 = b AND push_bit j 1) \<longleftrightarrow> bit d j = bit b j" if "j < 8" for d b :: u8
  using that by (auto simp: byte_eq_iff[of "_ AND _"] bit_simps)

lemma hash_bits_note:
  assumes "\<forall>j\<in>set js. j < 8"
  shows "hash_bits d b byte js e = note_all (map (\<lambda>j. 8 * byte + j) (filter (\<lambda>j. bit d j \<noteq> bit b j) js)) e"
  using assms
proof (induction js arbitrary: e)
  case (Cons j js)
  have no: "push_bit 3 (of_nat byte) + of_nat j = (of_nat (8 * byte + j) :: u8)" by (simp add: push_bit_eq_mult)
  obtain cnt n1 n2 where e: "e = (cnt, n1, n2)" by (cases e)
  show ?case using Cons masked_bit[of j d b] unfolding e by (auto simp: no)
qed simp

lemma upt_bytes: "[0..<8 * Suc k] = [0..<8 * k] @ map (\<lambda>j. 8 * k + j) [0..<8]"
proof -
  have "[8 * k..<8 * k + 8] = map (\<lambda>j. 8 * k + j) [0..<8]" by (rule nth_equalityI) auto
  then show ?thesis using upt_add_eq_append[of 0 "8 * k" 8] by (simp add: add.commute)
qed

lemma hash_bytes_note:
  assumes "\<And>k j. k < n \<Longrightarrow> j < 8 \<Longrightarrow> bit (buf ! k) j = f (8 * k + j)"
  shows "hash_bytes m buf [0..<n] e = note_all (wrong_bits f m (8 * n)) e"
proof -
  have "hash_bytes m buf [0..<k] e = note_all (wrong_bits f m (8 * k)) e" if "k \<le> n" for k
    using that
  proof (induction k)
    case (Suc k)
    have snoc: "hash_bytes m buf (ks @ [k]) e = do { e \<leftarrow> hash_bytes m buf ks e; hash_bytes m buf [k] e }" for ks e
      by (induction ks arbitrary: e) (auto split: bind_split)
    have b: "bit (buf ! k) j = f (8 * k + j)" if "j < 8" for j using assms that Suc.prems by simp
    have "hash_bytes m buf [k] e = note_all (map (\<lambda>j. 8 * k + j) (filter (\<lambda>j. bit (m k) j \<noteq> bit (buf ! k) j) [0..<8])) e" for e
    proof (cases "m k = buf ! k")
      case False
      moreover have "hash_bytes m buf [] = Some" by (rule ext) simp
      ultimately show ?thesis by (simp add: hash_bits_note)
    qed simp
    moreover have "map (\<lambda>j. 8 * k + j) (filter (\<lambda>j. bit (m k) j \<noteq> bit (buf ! k) j) [0..<8])
        = filter (\<lambda>i. f i \<noteq> mem_bit m i) (map (\<lambda>j. 8 * k + j) [0..<8])"
      unfolding filter_map comp_def by (rule arg_cong[where f = "map _"], rule filter_cong) (auto simp: mem_bit_def b)
    ultimately have step: "hash_bytes m buf [k] = note_all (filter (\<lambda>i. f i \<noteq> mem_bit m i) (map (\<lambda>j. 8 * k + j) [0..<8]))"
      by (intro ext) (simp only:)
    have "[0..<Suc k] = [0..<k] @ [k]" by simp
    moreover have "hash_bytes m buf [0..<k] e = note_all (wrong_bits f m (8 * k)) e" using Suc by simp
    ultimately show ?case
      by (simp only: snoc step wrong_bits_def upt_bytes filter_append note_all_append)
  qed (simp add: wrong_bits_def)
  then show ?thesis by simp
qed


lemma hash_cmp_note: "efpg_boot_hash_cmp m (window_bytes f a 256) (0, 0, 0) = note_all (wrong_bits (\<lambda>k. f (a + k)) m 256) (0, 0, 0)"
proof -
  have b: "bit (window_bytes f a 256 ! k) j = f (a + (8 * k + j))" if "k < 32" "j < 8" for k j
    using that by (simp add: bit_window_bytes add.assoc)
  show ?thesis
  proof (cases "map m [0..<32] = window_bytes f a 256")
    case True
    have "f (a + k) = mem_bit m k" if "k < 256" for k
    proof -
      have k: "k div 8 < 32" using that by (intro less_mult_imp_div_less) simp
      then have "m (k div 8) = window_bytes f a 256 ! (k div 8)" by (simp add: True [symmetric])
      then show ?thesis using b[OF k, of "k mod 8"] by (simp add: mem_bit_def)
    qed
    then have "wrong_bits (\<lambda>k. f (a + k)) m 256 = []" by (simp add: wrong_bits_def filter_empty_conv)
    then show ?thesis using True by (simp add: efpg_boot_hash_cmp_def)
  next
    case False
    then show ?thesis using hash_bytes_note[of 32 "window_bytes f a 256" "\<lambda>k. f (a + k)" m] b by (simp add: efpg_boot_hash_cmp_def)
  qed
qed

lemma note_all_few:
  assumes "note_all nos (0, 0, 0) = Some (cnt, n1, n2)"
  shows "nos = [] \<and> cnt = 0 \<or> (\<exists>a. nos = [a] \<and> cnt = 1 \<and> n1 = of_nat a)
    \<or> (\<exists>a b. nos = [a, b] \<and> cnt = 2 \<and> n1 = of_nat a \<and> n2 = of_nat b)"
proof -
  consider "nos = []" | a where "nos = [a]" | a b where "nos = [a, b]" | a b c r where "nos = a # b # c # r"
    by (metis list.exhaust)
  then show ?thesis using assms by cases auto
qed

lemma flip_window: "flip_bit_no no (window_bytes f a 256) = window_bytes (\<lambda>k. f k \<noteq> (k = a + unat no)) a 256"
proof (rule nth_equalityI)
  fix k
  assume "k < length (flip_bit_no no (window_bytes f a 256))"
  then have k: "k < 32" by (simp add: flip_bit_no_def Let_def)
  then have kw: "k < (256 + 7) div 8" by simp
  have un: "unat no < 256" by (rule u8_less)
  have q: "unat (drop_bit 3 no) = unat no div 8" "unat (no AND 7) = unat no mod 8"
  proof -
    show "unat (drop_bit 3 no) = unat no div 8" by (simp add: drop_bit_eq_div unat_div)
    have "no AND 7 = take_bit 3 no" by (simp add: take_bit_eq_mask mask_eq_exp_minus_1)
    then show "unat (no AND 7) = unat no mod 8" by (simp add: take_bit_eq_mod unat_mod)
  qed
  have "bit (flip_bit_no no (window_bytes f a 256) ! k) j = bit (window_bytes (\<lambda>k. f k \<noteq> (k = a + unat no)) a 256 ! k) j" if "j < 8" for j
  proof -
    have eq: "8 * k + j = unat no \<longleftrightarrow> unat no div 8 = k \<and> unat no mod 8 = j"
    proof
      assume "8 * k + j = unat no"
      then show "unat no div 8 = k \<and> unat no mod 8 = j" using that unfolding \<open>8 * k + j = unat no\<close> [symmetric] by simp
    qed auto
    show ?thesis
    proof (cases "unat no div 8 = k")
      case True
      then have "flip_bit_no no (window_bytes f a 256) ! k = window_bytes f a 256 ! k XOR push_bit (unat no mod 8) 1"
        using k by (simp add: flip_bit_no_def Let_def q del: push_bit_of_1)
      moreover have "bit (push_bit (unat no mod 8) (1 :: u8)) j \<longleftrightarrow> unat no mod 8 = j" using that by (auto simp: bit_simps)
      moreover have "a + 8 * k + j = a + unat no \<longleftrightarrow> unat no mod 8 = j" using eq True by (simp add: add.assoc)
      ultimately show ?thesis using that k by (auto simp: bit_xor_iff bit_window_bytes[OF kw] simp del: push_bit_of_1)
    next
      case False
      then have "flip_bit_no no (window_bytes f a 256) ! k = window_bytes f a 256 ! k" by (simp add: flip_bit_no_def Let_def q)
      moreover have "a + 8 * k + j \<noteq> a + unat no" using eq False by (simp add: add.assoc)
      ultimately show ?thesis by (simp add: bit_window_bytes[OF kw])
    qed
  qed
  then show "flip_bit_no no (window_bytes f a 256) ! k = window_bytes (\<lambda>k. f k \<noteq> (k = a + unat no)) a 256 ! k"
    by (simp add: byte_eq_iff)
qed (simp add: flip_bit_no_def Let_def)


context fuse_array
begin

lemma write_error_no_ok:
  assumes "gEfuseState s \<noteq> EFUSE_STATE_BUSY" "write_error_no hw (of_nat en) (of_nat a) no behind s = (EFPG_ACK_OK, s')" "en < a" "a + 8 \<le> 2048"
  shows "fuses s' en" "window_bytes (fuses s') a 8 = [no]" "gEfuseState s' \<noteq> EFUSE_STATE_BUSY"
    "k \<noteq> en \<Longrightarrow> k < a \<or> a + 8 \<le> k \<Longrightarrow> fuses s' k = fuses s k"
proof -
  obtain s1 where s1: "write_back hw (of_nat en) 1 (mem_at [1] behind) s = (Some (window_bytes (fuses s1) en 1), s1)"
      "gEfuseState s1 \<noteq> EFUSE_STATE_BUSY" "fuses s1 = burn good en 1 (mem_bit (mem_at [1] behind)) (fuses s)"
    using write_back_ok[of s 1 en "mem_at [1] behind"] assms by (auto simp: burn_def)
  obtain s2 where s2: "write_back hw (of_nat a) 8 (mem_at [no] behind) s1 = (Some (window_bytes (fuses s2) a 8), s2)"
      "gEfuseState s2 \<noteq> EFUSE_STATE_BUSY" "fuses s2 = burn good a 8 (mem_bit (mem_at [no] behind)) (fuses s1)"
    using write_back_ok[of s1 8 a "mem_at [no] behind"] s1(2) assms by (auto simp: burn_def)
  have "s' = s2" "window_bytes (fuses s1) en 1 ! 0 = 1" "window_bytes (fuses s2) a 8 ! 0 = no"
    using assms(2) s1(1) s2(1) by (auto simp: write_error_no_def split: if_splits)
  moreover have "window_bytes (fuses s1) en 1 ! 0 = 1 \<Longrightarrow> fuses s1 en"
    using bit_window_bytes[of 0 1 "fuses s1" en 0] by simp
  moreover have "fuses s2 en = fuses s1 en" using assms(3) unfolding s2(3) by (simp add: burn_def)
  moreover have "window_bytes (fuses s2) a 8 = [window_bytes (fuses s2) a 8 ! 0]" by (rule nth_equalityI) auto
  ultimately show "fuses s' en" "window_bytes (fuses s') a 8 = [no]" "gEfuseState s' \<noteq> EFUSE_STATE_BUSY"
    using s2(2) by metis+
  show "fuses s' k = fuses s k" if "k \<noteq> en" "k < a \<or> a + 8 \<le> k"
    using that unfolding \<open>s' = s2\<close> s2(3) s1(3) by (auto simp: burn_def)
qed

lemma read_boot_ok:
  assumes "gEfuseState s \<noteq> EFUSE_STATE_BUSY" "fuses s 332 \<or> fuses s 333"
  shows "\<exists>s'. efpg_read_boot hw s = (EFPG_ACK_OK,
      (let data = window_bytes (fuses s) 352 256 in
       if \<not> fuses s 334 then data
       else let data = flip_bit_no (window_bytes (fuses s) 335 8 ! 0) data in
            if \<not> fuses s 343 then data else flip_bit_no (window_bytes (fuses s) 344 8 ! 0) data), s')"
proof -
  have rd: "\<exists>t'. HAL_EFUSE_Read hw (of_nat a) (of_nat n) True t = (HAL_OK, window_bytes (fuses s) a n, t') \<and> fuses t' = fuses s \<and> gEfuseState t' \<noteq> EFUSE_STATE_BUSY"
    if "gEfuseState t \<noteq> EFUSE_STATE_BUSY" "fuses t = fuses s" "n \<noteq> 0" "a + n \<le> 2048" for a n t
    using Read_ok[OF that(1,3,4)] that(2) by auto
  have one: "window_bytes (fuses s) a 1 ! 0 = 0 \<longleftrightarrow> \<not> fuses s a" for a
  proof -
    have "window_bytes (fuses s) a 1 ! 0 = 0 \<longleftrightarrow> (\<forall>j<8. \<not> (j < 1 \<and> fuses s (a + j)))" by (simp add: byte_eq_iff bit_window_bytes)
    then show ?thesis by (metis add.right_neutral less_one zero_less_numeral)
  qed
  obtain t1 where t1: "HAL_EFUSE_Read hw 332 2 True s = (HAL_OK, window_bytes (fuses s) 332 2, t1)" "fuses t1 = fuses s" "gEfuseState t1 \<noteq> EFUSE_STATE_BUSY"
    using rd[of s 2 332] assms(1) by auto
  obtain t2 where t2: "HAL_EFUSE_Read hw 352 256 True t1 = (HAL_OK, window_bytes (fuses s) 352 256, t2)" "fuses t2 = fuses s" "gEfuseState t2 \<noteq> EFUSE_STATE_BUSY"
    using rd[of t1 256 352] t1 by auto
  obtain t3 where t3: "HAL_EFUSE_Read hw 334 1 True t2 = (HAL_OK, window_bytes (fuses s) 334 1, t3)" "fuses t3 = fuses s" "gEfuseState t3 \<noteq> EFUSE_STATE_BUSY"
    using rd[of t2 1 334] t2 by auto
  obtain t4 where t4: "HAL_EFUSE_Read hw 335 8 True t3 = (HAL_OK, window_bytes (fuses s) 335 8, t4)" "fuses t4 = fuses s" "gEfuseState t4 \<noteq> EFUSE_STATE_BUSY"
    using rd[of t3 8 335] t3 by auto
  obtain t5 where t5: "HAL_EFUSE_Read hw 343 1 True t4 = (HAL_OK, window_bytes (fuses s) 343 1, t5)" "fuses t5 = fuses s" "gEfuseState t5 \<noteq> EFUSE_STATE_BUSY"
    using rd[of t4 1 343] t4 by auto
  obtain t6 where t6: "HAL_EFUSE_Read hw 344 8 True t5 = (HAL_OK, window_bytes (fuses s) 344 8, t6)"
    using rd[of t5 8 344] t5 by auto
  have "window_bytes (fuses s) 332 2 ! 0 \<noteq> 0" using assms(2) by (simp add: two_bits)
  then show ?thesis by (simp add: efpg_read_boot_def Let_def one[unfolded One_nat_def] t1(1) t2(1) t3(1) t4(1) t5(1) t6)
qed

end

text \<open>Flipping the wrong bits gives the data.\<close>

lemma correct_window:
  assumes "\<And>k. k < 256 \<Longrightarrow> (f (352 + k) \<noteq> mem_bit m k) = (k \<in> set nos)" "nos = [] \<or> (\<exists>a. nos = [a]) \<or> (\<exists>a b. nos = [a, b] \<and> a \<noteq> b)"
    "set nos \<subseteq> {..<256}"
  shows "foldr (\<lambda>no. flip_bit_no (of_nat no)) nos (window_bytes f 352 256) = window_bytes (mem_bit m) 0 256"
proof -
  have u: "unat (of_nat no :: u8) = no" if "no \<in> set nos" for no
    using that assms(3) by (auto simp: unsigned_of_nat intro!: take_bit_nat_eq_self)
  have mem: "mem_bit m k = (f (352 + k) \<noteq> (k \<in> set nos))" if "k < 256" for k using assms(1)[OF that] by blast
  consider "nos = []" | a where "nos = [a]" | a b where "nos = [a, b]" "a \<noteq> b" using assms(2) by blast
  then show ?thesis
  proof cases
    case 1
    then show ?thesis using mem by (auto intro: window_bytes_cong)
  next
    case (2 a)
    then have "window_bytes (\<lambda>k. f k \<noteq> (k = 352 + a)) 352 256 = window_bytes (mem_bit m) 0 256"
      by (intro window_bytes_cong) (simp add: mem)
    then show ?thesis using 2 u by (simp add: flip_window)
  next
    case (3 a b)
    then have "window_bytes (\<lambda>k. (f k \<noteq> (k = 352 + b)) \<noteq> (k = 352 + a)) 352 256 = window_bytes (mem_bit m) 0 256"
      by (intro window_bytes_cong) (auto simp: mem)
    then show ?thesis using 3 u by (simp add: flip_window)
  qed
qed

context fuse_array
begin

lemma boot_ok:
  assumes "gEfuseState s \<noteq> EFUSE_STATE_BUSY" "\<not> fuses s 334" "\<not> fuses s 343" "efpg_write_boot hw m behind s = (EFPG_ACK_OK, s')"
  shows "\<exists>s''. efpg_read_boot hw s' = (EFPG_ACK_OK, window_bytes (mem_bit m) 0 256, s'')"
proof -
  obtain s1 where s1: "write_back hw 332 2 (mem_at [3] behind) s = (Some (window_bytes (fuses s1) 332 2), s1)"
      "gEfuseState s1 \<noteq> EFUSE_STATE_BUSY" "fuses s1 = burn good 332 2 (mem_bit (mem_at [3] behind)) (fuses s)"
    using write_back_ok[of s 2 332 "mem_at [3] behind"] assms(1) by (auto simp: burn_def)
  obtain s2 where s2: "write_back hw 352 256 m s1 = (Some (window_bytes (fuses s2) 352 256), s2)"
      "gEfuseState s2 \<noteq> EFUSE_STATE_BUSY" "fuses s2 = burn good 352 256 (mem_bit m) (fuses s1)"
    using write_back_ok[of s1 256 352 m] s1(2) by (auto simp: burn_def)
  let ?nos = "wrong_bits (\<lambda>k. fuses s2 (352 + k)) m 256"
  have flag: "fuses s2 332 \<or> fuses s2 333" using assms(4) s1(1) by (auto simp: efpg_write_boot_def two_bits s2(3) burn_def split: if_splits)
  have blank: "\<not> fuses s2 334" "\<not> fuses s2 343" using assms(2,3) by (simp_all add: s2(3) s1(3) burn_def)
  obtain cnt n1 n2 where nt: "note_all ?nos (0, 0, 0) = Some (cnt, n1, n2)"
    using assms(4) s1(1) s2(1) by (auto simp: efpg_write_boot_def hash_cmp_note split: if_splits option.splits)
  have tail: "(if cnt = 0 then (EFPG_ACK_OK, s2) else case write_error_no hw 334 335 n1 behind s2 of (ack, s) \<Rightarrow>
      if ack \<noteq> EFPG_ACK_OK \<or> cnt \<noteq> 2 then (ack, s) else write_error_no hw 343 344 n2 behind s) = (EFPG_ACK_OK, s')"
    using assms(4) s1(1) s2(1) nt by (auto simp: efpg_write_boot_def hash_cmp_note split: if_splits)
  have w: "(fuses s2 (352 + k) \<noteq> mem_bit m k) = (k \<in> set ?nos)" if "k < 256" for k using that by (auto simp: wrong_bits_def)
  have d: "distinct ?nos" "set ?nos \<subseteq> {..<256}" by (auto simp: wrong_bits_def)
  consider (none) "?nos = []" "cnt = 0" | (one) a where "?nos = [a]" "cnt = 1" "n1 = of_nat a"
    | (two) a b where "?nos = [a, b]" "cnt = 2" "n1 = of_nat a" "n2 = of_nat b"
    using note_all_few[OF nt] by blast
  then show ?thesis
  proof cases
    case none
    then have "s' = s2" using tail by simp
    then show ?thesis using read_boot_ok[OF s2(2) flag] blank correct_window[of "fuses s2" m ?nos] w none d by auto
  next
    case (one a)
    then have "write_error_no hw (of_nat 334) (of_nat 335) n1 behind s2 = (EFPG_ACK_OK, s')" using tail by (auto split: prod.splits if_splits)
    note e = write_error_no_ok[OF s2(2) this]
    have "window_bytes (fuses s') 352 256 = window_bytes (fuses s2) 352 256" by (rule window_bytes_cong) (simp add: e(4))
    then show ?thesis using read_boot_ok[OF e(3)] e flag blank correct_window[of "fuses s2" m ?nos] w one d by auto
  next
    case (two a b)
    then obtain s3 where s3: "write_error_no hw (of_nat 334) (of_nat 335) n1 behind s2 = (EFPG_ACK_OK, s3)"
        "write_error_no hw (of_nat 343) (of_nat 344) n2 behind s3 = (EFPG_ACK_OK, s')"
      using tail by (auto split: prod.splits if_splits)
    note e = write_error_no_ok[OF s2(2) s3(1)]
    note g = write_error_no_ok[OF e(3) s3(2)]
    have "window_bytes (fuses s') 352 256 = window_bytes (fuses s2) 352 256" by (rule window_bytes_cong) (simp add: e(4) g(4))
    moreover have "window_bytes (fuses s') 335 8 = [n1]" using e(2) window_bytes_cong[of 8 "fuses s'" 335 "fuses s3" 335] g(4) by simp
    moreover have "flip_bit_no n2 (flip_bit_no n1 x) = flip_bit_no n1 (flip_bit_no n2 x)" if "x = window_bytes f 352 256" for f x
      using that by (auto simp: flip_window intro!: window_bytes_cong)
    ultimately show ?thesis using read_boot_ok[OF g(3)] e g flag correct_window[of "fuses s2" m ?nos] w two d by auto
  qed
qed

end

context fuse_array
begin

lemma write_error_no_succeeds:
  assumes "gEfuseState s \<noteq> EFUSE_STATE_BUSY" "en < a" "a + 8 \<le> 2048" "good en" "\<And>j. j < 8 \<Longrightarrow> good (a + j) \<and> \<not> fuses s (a + j)"
  shows "\<exists>s'. write_error_no hw (of_nat en) (of_nat a) no behind s = (EFPG_ACK_OK, s')"
proof -
  obtain s1 where s1: "write_back hw (of_nat en) 1 (mem_at [1] behind) s = (Some (window_bytes (fuses s1) en 1), s1)"
      "gEfuseState s1 \<noteq> EFUSE_STATE_BUSY" "fuses s1 = burn good en 1 (mem_bit (mem_at [1] behind)) (fuses s)"
    using write_back_ok[of s 1 en "mem_at [1] behind"] assms by (auto simp: burn_def)
  obtain s2 where s2: "write_back hw (of_nat a) 8 (mem_at [no] behind) s1 = (Some (window_bytes (fuses s2) a 8), s2)"
      "fuses s2 = burn good a 8 (mem_bit (mem_at [no] behind)) (fuses s1)"
    using write_back_ok[of s1 8 a "mem_at [no] behind"] s1(2) assms by (auto simp: burn_def)
  have "fuses s1 en" using assms(4) by (simp add: s1(3) burn_def mem_bit_def mem_at_def)
  then have "window_bytes (fuses s1) en 1 ! 0 = 1" by (auto simp: byte_eq_iff bit_window_bytes bit_1_iff)
  moreover have "window_bytes (fuses s2) a 8 ! 0 = no"
    using assms(2,5) by (auto simp: byte_eq_iff bit_window_bytes s2(2) s1(3) burn_def mem_bit_def mem_at_def)
  ultimately show ?thesis using s1(1) s2(1) by (auto simp: write_error_no_def)
qed

end

text \<open>C19. The boot hash survives up to two broken fuses: when the enable bits of the two correction numbers
  were blank and the write answers OK, a read returns the 32 bytes that were written, whatever fuses of the
  hash are broken (up to two, else the write would not have answered OK) and whatever the memory behind the
  local variables is.\<close>

theorem efpg_boot_write_read:
  assumes "fuse_array hw fuse good" "gEfuseState s \<noteq> EFUSE_STATE_BUSY" "\<not> fuse (es_env s) 334" "\<not> fuse (es_env s) 343"
    and "efpg_write_boot hw m behind s = (EFPG_ACK_OK, s')"
  shows "\<exists>s''. efpg_read_boot hw s' = (EFPG_ACK_OK, window_bytes (mem_bit m) 0 256, s'')"
  by (rule fuse_array.boot_ok[OF assms])

lemma filter_first: "0 < n \<Longrightarrow> filter (\<lambda>k. k = 0) [0..<n] = [0 :: nat]"
  by (induction n) auto

text \<open>A hash whose first bit is the only one set, and its fuse broken.\<close>

theorem efpg_boot_write_read_witness:
  "\<exists>s' s''. efpg_write_boot (fuse_regs (\<lambda>k. k \<noteq> 352)) (mem_at [1] (\<lambda>_. 0)) (\<lambda>_. 0)
        \<lparr>gEfuseState = EFUSE_STATE_READY, es_env = \<lambda>_. False\<rparr> = (EFPG_ACK_OK, s') \<and> \<not> es_env s' 352
    \<and> efpg_read_boot (fuse_regs (\<lambda>k. k \<noteq> 352)) s' = (EFPG_ACK_OK, window_bytes (\<lambda>k. k = 0) 0 256, s'')"
proof -
  let ?g = "\<lambda>k :: nat. k \<noteq> 352" and ?m = "mem_at [1] (\<lambda>_. 0)" and ?s = "\<lparr>gEfuseState = EFUSE_STATE_READY, es_env = \<lambda>_. False\<rparr>"
  have m: "mem_bit ?m k \<longleftrightarrow> k = 0" for k
    by (cases "k < 8") (auto simp: mem_bit_def mem_at_def bit_1_iff)
  obtain s1 where s1: "write_back (fuse_regs ?g) 332 2 (mem_at [3] (\<lambda>_. 0)) ?s = (Some (window_bytes (es_env s1) 332 2), s1)"
      "gEfuseState s1 \<noteq> EFUSE_STATE_BUSY" "es_env s1 = burn ?g 332 2 (mem_bit (mem_at [3] (\<lambda>_. 0))) (\<lambda>_. False)"
    using array.write_back_ok[of ?s 2 332 ?g "mem_at [3] (\<lambda>_. 0)"] by (auto simp: burn_def)
  obtain s2 where s2: "write_back (fuse_regs ?g) 352 256 ?m s1 = (Some (window_bytes (es_env s2) 352 256), s2)"
      "gEfuseState s2 \<noteq> EFUSE_STATE_BUSY" "es_env s2 = burn ?g 352 256 (mem_bit ?m) (es_env s1)"
    using array.write_back_ok[of s1 256 352 ?g ?m] s1(2) by (auto simp: burn_def)
  have f: "es_env s2 k \<longleftrightarrow> k = 332 \<or> k = 333" for k
    using bits_of_3[of "k - 332"] by (auto simp: s2(3) s1(3) burn_def m)
  have "wrong_bits (\<lambda>k. es_env s2 (352 + k)) ?m 256 = [0]"
    using filter_first[of 256] by (simp add: wrong_bits_def f m del: upt_rec_numeral)
  moreover obtain s3 where s3: "write_error_no (fuse_regs ?g) (of_nat 334) (of_nat 335) 0 (\<lambda>_. 0) s2 = (EFPG_ACK_OK, s3)"
    using array.write_error_no_succeeds[OF s2(2), of 334 335 ?g] by (auto simp: f)
  moreover have "es_env s2 332" by (simp add: f)
  ultimately have w: "efpg_write_boot (fuse_regs ?g) ?m (\<lambda>_. 0) ?s = (EFPG_ACK_OK, s3)"
    using s1(1) s2(1) by (simp add: efpg_write_boot_def hash_cmp_note two_bits s2(3) burn_def)
  have "\<not> es_env s3 352" using array.write_error_no_ok(4)[OF s2(2) s3, of 352] by (simp add: f)
  moreover have "window_bytes (mem_bit ?m) 0 256 = window_bytes (\<lambda>k. k = 0) 0 256" by (rule window_bytes_cong) (simp add: m)
  ultimately show ?thesis
    using efpg_boot_write_read[OF array.fuse_array_axioms[of ?g] _ _ _ w] w by auto
qed

section \<open>The chip identifier\<close>

lemma id_window: "map m [0..<16] = window_bytes f a 128 \<longleftrightarrow> (\<forall>k<128. f (a + k) = mem_bit m k)"
proof -
  have "take 16 (window_bytes f a 128) = window_bytes f a 128" by simp
  then show ?thesis using bit_cmp_window[of m f a 128] by (simp add: efpg_bit_cmp_def)
qed

text \<open>Once the second place of the chip identifier is in use, a new identifier can be written with the
  answer OK and never be read: \<open>efpg_write_chipid\<close> tries the first place whatever the flag says, while
  \<open>efpg_read_chipid\<close> goes by the flag; when the first place takes the data, the write answers OK and the read
  returns the bits of the second place, unchanged.\<close>

theorem efpg_chipid_not_read:
  assumes "fuse_array hw fuse good" "gEfuseState s \<noteq> EFUSE_STATE_BUSY" "fuse (es_env s) 608 \<or> fuse (es_env s) 609"
    and "\<forall>k<128. (fuse (es_env s) (200 + k) \<or> mem_bit m k \<and> good (200 + k)) = mem_bit m k"
  shows "\<exists>s' s''. efpg_write_chipid hw m behind s = (EFPG_ACK_OK, s')
    \<and> efpg_read_chipid hw s' = (EFPG_ACK_OK, window_bytes (fuse (es_env s)) 610 128, s'')"
proof -
  have two: "window_bytes f 608 2 ! 0 = 0 \<longleftrightarrow> \<not> f 608 \<and> \<not> f 609" for f using two_bits[of f 608] by simp
  obtain s1 where s1: "HAL_EFUSE_Read hw 608 2 True s = (HAL_OK, window_bytes (fuse (es_env s)) 608 2, s1)"
      "fuse (es_env s1) = fuse (es_env s)" "gEfuseState s1 = EFUSE_STATE_READY"
    using fuse_array.Read_ok[OF assms(1,2), of 2 608] by auto
  obtain s2 where s2: "write_back hw 200 128 m s1 = (Some (window_bytes (fuse (es_env s2)) 200 128), s2)" "gEfuseState s2 \<noteq> EFUSE_STATE_BUSY"
      "fuse (es_env s2) = burn good 200 128 (mem_bit m) (fuse (es_env s))"
    using fuse_array.write_back_ok[OF assms(1), of s1 128 200 m] s1(2,3) by (auto simp: burn_def)
  have "map m [0..<16] = window_bytes (fuse (es_env s2)) 200 128"
    unfolding id_window s2(3) using assms(4) by (simp add: burn_def)
  then have "efpg_write_chipid hw m behind s = (EFPG_ACK_OK, s2)" by (simp add: efpg_write_chipid_def s1(1) s2(1))
  moreover obtain s3 where s3: "HAL_EFUSE_Read hw 608 2 True s2 = (HAL_OK, window_bytes (fuse (es_env s2)) 608 2, s3)"
      "fuse (es_env s3) = fuse (es_env s2)" "gEfuseState s3 = EFUSE_STATE_READY"
    using fuse_array.Read_ok[OF assms(1) s2(2), of 2 608] by auto
  moreover obtain s4 where "HAL_EFUSE_Read hw 610 128 True s3 = (HAL_OK, window_bytes (fuse (es_env s3)) 610 128, s4)"
    using fuse_array.Read_ok[OF assms(1), of s3 128 610] s3(3) by auto
  moreover have "window_bytes (fuse (es_env s3)) 610 128 = window_bytes (fuse (es_env s)) 610 128"
    by (rule window_bytes_cong) (simp add: s3(2) s2(3) burn_def)
  moreover have "fuse (es_env s2) 608 \<or> fuse (es_env s2) 609" using assms(3) by (simp add: s2(3) burn_def)
  ultimately show ?thesis by (auto simp: efpg_read_chipid_def two)
qed

text \<open>A blank first place, and zeros in the second.\<close>

theorem efpg_chipid_not_read_witness:
  "\<exists>s' s''. efpg_write_chipid (fuse_regs (\<lambda>_. True)) (\<lambda>_. 0xFF) (\<lambda>_. 0) \<lparr>gEfuseState = EFUSE_STATE_READY, es_env = \<lambda>k. k = 608\<rparr>
      = (EFPG_ACK_OK, s')
    \<and> efpg_read_chipid (fuse_regs (\<lambda>_. True)) s' = (EFPG_ACK_OK, replicate 16 0, s'')"
proof -
  have "window_bytes (\<lambda>k. k = 608) 610 128 = replicate 16 0"
    by (rule nth_equalityI) (auto simp: byte_eq_iff bit_window_bytes)
  then show ?thesis
    using efpg_chipid_not_read[OF array.fuse_array_axioms[of "\<lambda>_. True"],
        of "\<lparr>gEfuseState = EFUSE_STATE_READY, es_env = \<lambda>k. k = 608\<rparr>" "\<lambda>_. 0xFF" "\<lambda>_. 0"] by auto
qed


text \<open>Reading a field ends: the loop over the flags is entered only when one of them is set.\<close>

lemma region_skip_ends:
  assumes "flag \<noteq> 0"
  shows "region_skip flag idx \<noteq> None"
proof -
  obtain n where "bit flag n" using assms by (metis bit_eqI bit_0_eq bot_apply bot_bool_def)
  then have "\<exists>i. pair flag i"
    unfolding pair_def by (metis mod_mult_div_eq mult.commute add.commute add_0 mod2_eq_if mult_2 add_cancel_right_left)
  then obtain i where "pair flag i" "\<And>j. j < i \<Longrightarrow> \<not> pair flag j" using exists_least_iff[of "pair flag"] by blast
  then show ?thesis using region_skip_pair[of i flag idx] by simp
qed

lemma read_field_ends: "efpg_read_field hw f start n s \<noteq> None"
  by (cases f) (auto simp: efpg_read_field_def efpg_read_region_def region_skip_ends split: prod.splits Option.bind_splits)

end
