(* ===== verification/EfpgFrame.thy ===== *)
theory EfpgFrame
  imports EfpgField
begin

text \<open>
  The protocol of the eFuse programming tool, \<^verbatim>\<open>src/efpg/efpg_frame.c\<close> and \<^verbatim>\<open>src/efpg/efpg.c\<close>: command
  frames of eight bytes with a checksum, extended commands for the user area, and data frames that end in a
  SHA-256 digest of command, data and key.  The UART, the heap and the digest engine are parameters over an
  environment.  \<open>None\<close> is a frame received into a buffer that is too small for it.
\<close>

section \<open>State\<close>

abbreviation (input) EFPG_ACK_CS_ERR :: u16 where "EFPG_ACK_CS_ERR \<equiv> 400"
abbreviation (input) EFPG_ACK_MD_ERR :: u16 where "EFPG_ACK_MD_ERR \<equiv> 401"
abbreviation (input) EFPG_ACK_PARSE_ERR :: u16 where "EFPG_ACK_PARSE_ERR \<equiv> 402"
abbreviation (input) EFPG_CMD_FRAME_LEN :: u16 where "EFPG_CMD_FRAME_LEN \<equiv> 8"
abbreviation (input) EFPG_UAER_AREA_EXT_LEN :: u16 where "EFPG_UAER_AREA_EXT_LEN \<equiv> 13"
abbreviation (input) EFPG_MSG_DGST_LEN :: u16 where "EFPG_MSG_DGST_LEN \<equiv> 32"

datatype efpg_op = EFPG_OP_READ | EFPG_OP_WRITE | EFPG_OP_EXIT | EFPG_OP_NUM

datatype efpg_state = EFPG_STATE_CONTINUE | EFPG_STATE_RESET | EFPG_STATE_STOP | EFPG_STATE_NUM

text \<open>The environment: the UART, allocation, and the engine's digest of bytes given to it piece by piece
  (\<open>None\<close> when one of its calls fails).\<close>

record 'u efpg_io =
  io_receive :: "u16 \<Rightarrow> 'u \<Rightarrow> int \<times> u8 list \<times> 'u"
  io_transmit :: "u8 list \<Rightarrow> 'u \<Rightarrow> int \<times> 'u"
  io_malloc :: "u16 \<Rightarrow> 'u \<Rightarrow> bool \<times> 'u"
  io_sha256 :: "u8 list \<Rightarrow> 'u \<Rightarrow> u8 list option \<times> 'u"

text \<open>\<open>efpg_priv_t\<close> with the environment and the eFuse; \<open>is_cmd\<close> and \<open>ext_cmd\<close> are only ever 0 or 1, the
  array \<open>key\<close> is given by its \<open>key_len\<close> bytes, and the UART by the functions of the environment.\<close>

record ('e, 'u) efpg_priv =
  start_cb :: "('u \<Rightarrow> 'u) option"
  stop_cb :: "('u \<Rightarrow> 'u) option"
  key :: "u8 list"
  is_cmd :: bool
  ext_cmd :: bool
  cmd_frame :: "u8 list"
  data_frame :: "u8 list"
  ext_cmd_frame :: "u8 list"
  expt_len :: u16
  recv_len :: u16
  protocol_version :: u16
  start_bit_addr :: u16
  bit_length :: u16
  op :: efpg_op
  field :: efpg_field
  ep_io :: 'u
  ep_fuse :: "'e efuse_sys"

section \<open>Checksum, digest and acknowledgement\<close>

definition efpg_checksum8 :: "u8 list \<Rightarrow> u8" where
  "efpg_checksum8 data = sum_list data"

definition efpg_check_msg_dgst :: "'u efpg_io \<Rightarrow> ('e, 'u) efpg_priv \<Rightarrow> int \<times> ('e, 'u) efpg_priv" where
  "efpg_check_msg_dgst io s =
     (let n = unat (recv_len s - EFPG_MSG_DGST_LEN) in
      case io_sha256 io (take 8 (cmd_frame s) @ take n (data_frame s) @ key s) (ep_io s) of (cal, u) \<Rightarrow>
        (case cal of None \<Rightarrow> -1 | Some d \<Rightarrow> if take 32 (drop n (data_frame s)) \<noteq> d then -1 else 0, s\<lparr>ep_io := u\<rparr>))"

definition ack_bytes :: "u16 \<Rightarrow> u8 list" where
  "ack_bytes status = (let f = le2 status @ [0] in f @ [0xFF - efpg_checksum8 (f @ [0])])"

definition efpg_send_ack :: "'u efpg_io \<Rightarrow> u16 \<Rightarrow> ('e, 'u) efpg_priv \<Rightarrow> int \<times> ('e, 'u) efpg_priv" where
  "efpg_send_ack io status s =
     (case io_malloc io 4 (ep_io s) of (ok, u) \<Rightarrow>
        if \<not> ok then (-1, s\<lparr>ep_io := u\<rparr>)
        else case io_transmit io (ack_bytes status) u of (send_len, u) \<Rightarrow>
          (if send_len \<noteq> 4 then -1 else 0, s\<lparr>ep_io := u\<rparr>))"

section \<open>Commands\<close>

abbreviation frame_word :: "u8 list \<Rightarrow> nat \<Rightarrow> u16" where
  "frame_word p i \<equiv> of_le2 (drop i p)"

text \<open>The fields with a fixed length, by type code.\<close>

definition cmd_field :: "u16 \<Rightarrow> (efpg_field \<times> u16) option" where
  "cmd_field type =
     (if type = 0xFF00 then Some (EFPG_FIELD_HOSC, 1 + EFPG_MSG_DGST_LEN)
      else if type = 0xFE01 then Some (EFPG_FIELD_BOOT, 32 + EFPG_MSG_DGST_LEN)
      else if type = 0xFD02 then Some (EFPG_FIELD_DCXO, 1 + EFPG_MSG_DGST_LEN)
      else if type = 0xFC03 then Some (EFPG_FIELD_POUT, 3 + EFPG_MSG_DGST_LEN)
      else if type = 0xFB04 then Some (EFPG_FIELD_MAC, 6 + EFPG_MSG_DGST_LEN)
      else if type = 0xF906 then Some (EFPG_FIELD_CHIPID, 16 + EFPG_MSG_DGST_LEN)
      else None)"

definition efpg_parse_cmd :: "('e, 'u) efpg_priv \<Rightarrow> int \<times> ('e, 'u) efpg_priv" where
  "efpg_parse_cmd s =
     (let p = (if ext_cmd s then ext_cmd_frame s else cmd_frame s);
          op_code = frame_word p 0; type = frame_word p 2; len = frame_word p 4
      in if op_code = 0xFFFF then (0, s\<lparr>op := EFPG_OP_EXIT\<rparr>)
         else if op_code \<noteq> 0x0FF0 \<and> op_code \<noteq> 0xF00F then (-1, s)
         else let s = s\<lparr>op := (if op_code = 0x0FF0 then EFPG_OP_READ else EFPG_OP_WRITE)\<rparr> in
           if type = 0xFA05 then
             if \<not> ext_cmd s then
               if p ! 6 \<noteq> 1 then (-1, s)
               else (if len \<noteq> EFPG_UAER_AREA_EXT_LEN then -1 else 0,
                     s\<lparr>ext_cmd := True, field := EFPG_FIELD_UA, expt_len := EFPG_UAER_AREA_EXT_LEN\<rparr>)
             else let bits = frame_word p 10 in
               (0, s\<lparr>protocol_version := frame_word p 6, start_bit_addr := frame_word p 8, bit_length := bits,
                     ext_cmd := False, field := EFPG_FIELD_UA,
                     expt_len := bits div 8 + EFPG_MSG_DGST_LEN + (if bits mod 8 \<noteq> 0 then 1 else 0)\<rparr>)
           else (case cmd_field type of
               None \<Rightarrow> (-1, s)
             | Some (f, n) \<Rightarrow> (if len \<noteq> n then -1 else 0, s\<lparr>field := f, expt_len := n\<rparr>)))"

definition efpg_ext_cmd_process :: "'u efpg_io \<Rightarrow> ('e, 'u) efpg_priv \<Rightarrow> efpg_state \<times> ('e, 'u) efpg_priv" where
  "efpg_ext_cmd_process io s =
     (case efpg_send_ack io EFPG_ACK_OK (s\<lparr>is_cmd := True, recv_len := 0\<rparr>) of (ret, s) \<Rightarrow>
        (if ret < 0 then EFPG_STATE_RESET else EFPG_STATE_CONTINUE, s))"

definition efpg_write_process :: "'u efpg_io \<Rightarrow> ('e, 'u) efpg_priv \<Rightarrow> efpg_state \<times> ('e, 'u) efpg_priv" where
  "efpg_write_process io s =
     (case efpg_send_ack io EFPG_ACK_OK (s\<lparr>is_cmd := False, recv_len := 0\<rparr>) of (ret, s) \<Rightarrow>
        (if ret < 0 then EFPG_STATE_RESET else EFPG_STATE_CONTINUE, s))"

definition efpg_stop_process :: "'u efpg_io \<Rightarrow> ('e, 'u) efpg_priv \<Rightarrow> efpg_state \<times> ('e, 'u) efpg_priv" where
  "efpg_stop_process io s =
     (case efpg_send_ack io EFPG_ACK_OK s of (ret, s) \<Rightarrow> (if ret < 0 then EFPG_STATE_RESET else EFPG_STATE_STOP, s))"

text \<open>The answer to a read: the bytes of the field followed by the digest, sent after the acknowledgement.\<close>

definition efpg_read_process ::
  "'e efuse_regs \<Rightarrow> 'u efpg_io \<Rightarrow> ('e, 'u) efpg_priv \<Rightarrow> (efpg_state \<times> ('e, 'u) efpg_priv) option" where
  "efpg_read_process hw io s =
     (case io_malloc io (expt_len s) (ep_io s) of (ok, u) \<Rightarrow>
        let s = s\<lparr>ep_io := u\<rparr>; n = unat (expt_len s - EFPG_MSG_DGST_LEN) in
        if \<not> ok then Some (EFPG_STATE_RESET, s)
        else do {
          (status, bs, e) \<leftarrow> efpg_read_field hw (field s) (start_bit_addr s) (bit_length s) (ep_fuse s);
          let s = s\<lparr>ep_fuse := e\<rparr>; data = take n (bs @ replicate n 0) in
          (case io_sha256 io (take 8 (cmd_frame s) @ data @ key s) (ep_io s) of (dgst, u) \<Rightarrow>
             let s = s\<lparr>ep_io := u\<rparr>; status = (if dgst = None then EFPG_ACK_RW_ERR else status) in
             if status \<noteq> EFPG_ACK_OK then Some (EFPG_STATE_RESET, snd (efpg_send_ack io status s))
             else (case efpg_send_ack io EFPG_ACK_OK s of (ret, s) \<Rightarrow>
               if ret < 0 then Some (EFPG_STATE_RESET, s)
               else Some (EFPG_STATE_RESET, s\<lparr>ep_io := snd (io_transmit io (data @ the dgst) (ep_io s))\<rparr>)))
        })"

definition efpg_cmd_frame_process ::
  "'e efuse_regs \<Rightarrow> 'u efpg_io \<Rightarrow> ('e, 'u) efpg_priv \<Rightarrow> (efpg_state \<times> ('e, 'u) efpg_priv) option" where
  "efpg_cmd_frame_process hw io s =
     (let p = (if ext_cmd s then ext_cmd_frame s else cmd_frame s) in
      if efpg_checksum8 (take (unat (recv_len s)) p) \<noteq> 0xFF
      then Some (EFPG_STATE_RESET, snd (efpg_send_ack io EFPG_ACK_CS_ERR s))
      else case efpg_parse_cmd s of (ret, s) \<Rightarrow>
        if ret < 0 then Some (EFPG_STATE_RESET, snd (efpg_send_ack io EFPG_ACK_PARSE_ERR s))
        else if ext_cmd s then Some (efpg_ext_cmd_process io s)
        else (case op s of
            EFPG_OP_READ \<Rightarrow> efpg_read_process hw io s
          | EFPG_OP_WRITE \<Rightarrow> Some (efpg_write_process io s)
          | EFPG_OP_EXIT \<Rightarrow> Some (efpg_stop_process io s)
          | EFPG_OP_NUM \<Rightarrow> Some (EFPG_STATE_STOP, s)))"

text \<open>\<open>behind\<close> is the memory behind the local variables of the functions for the fields.  (The data frame is
  long enough for what the driver reads of it: 76 bytes of data and the digest.)\<close>

definition efpg_data_frame_process ::
  "'e efuse_regs \<Rightarrow> 'u efpg_io \<Rightarrow> (nat \<Rightarrow> u8) \<Rightarrow> ('e, 'u) efpg_priv \<Rightarrow> efpg_state \<times> ('e, 'u) efpg_priv" where
  "efpg_data_frame_process hw io behind s =
     (case efpg_check_msg_dgst io s of (ret, s) \<Rightarrow>
        if ret < 0 then (EFPG_STATE_RESET, snd (efpg_send_ack io EFPG_ACK_MD_ERR s))
        else case efpg_write_field hw (field s) (mem_at (data_frame s) behind) behind (start_bit_addr s) (bit_length s) (ep_fuse s) of (status, e) \<Rightarrow>
          (EFPG_STATE_RESET, snd (efpg_send_ack io status (s\<lparr>ep_fuse := e\<rparr>))))"

section \<open>The task\<close>

definition efpg_reset :: "('e, 'u) efpg_priv \<Rightarrow> ('e, 'u) efpg_priv" where
  "efpg_reset s = s\<lparr>is_cmd := True, ext_cmd := False, expt_len := EFPG_CMD_FRAME_LEN, recv_len := 0,
     op := EFPG_OP_NUM, field := EFPG_FIELD_NUM, start_bit_addr := 0, bit_length := 0\<rparr>"

text \<open>Waiting until something arrives, and storing what was received in the frame it is for.\<close>

partial_function (option) efpg_receive :: "'u efpg_io \<Rightarrow> u16 \<Rightarrow> 'u \<Rightarrow> (int \<times> u8 list \<times> 'u) option" where
  "efpg_receive io n u =
     (case io_receive io n u of (len, bs, u) \<Rightarrow> if len = 0 then efpg_receive io n u else Some (len, bs, u))"

definition efpg_store :: "u8 list \<Rightarrow> ('e, 'u) efpg_priv \<Rightarrow> ('e, 'u) efpg_priv option" where
  "efpg_store bs s =
     (if \<not> is_cmd s then map_option (\<lambda>f. s\<lparr>data_frame := f\<rparr>) (wr_block (data_frame s) 0 bs)
      else if ext_cmd s then map_option (\<lambda>f. s\<lparr>ext_cmd_frame := f\<rparr>) (wr_block (ext_cmd_frame s) 0 bs)
      else map_option (\<lambda>f. s\<lparr>cmd_frame := f\<rparr>) (wr_block (cmd_frame s) 0 bs))"

text \<open>One round of the loop in \<open>efpg_task\<close>: whether to go on, and the state.\<close>

definition efpg_round ::
  "'e efuse_regs \<Rightarrow> 'u efpg_io \<Rightarrow> (nat \<Rightarrow> u8) \<Rightarrow> ('e, 'u) efpg_priv \<Rightarrow> (bool \<times> ('e, 'u) efpg_priv) option" where
  "efpg_round hw io behind s = do {
     (len, bs, u) \<leftarrow> efpg_receive io (expt_len s) (ep_io s);
     s \<leftarrow> efpg_store bs (s\<lparr>ep_io := u\<rparr>);
     if len = -1 then Some (False, s)
     else if (of_int len :: u16) \<noteq> expt_len s then Some (True, efpg_reset s)
     else do {
       (state, s) \<leftarrow> (let s = s\<lparr>recv_len := of_int len\<rparr> in
          if is_cmd s then efpg_cmd_frame_process hw io s else Some (efpg_data_frame_process hw io behind s));
       Some (case state of
           EFPG_STATE_CONTINUE \<Rightarrow> (True, s)
         | EFPG_STATE_RESET \<Rightarrow> (True, efpg_reset s)
         | _ \<Rightarrow> (False, s))
     }
   }"

partial_function (option) efpg_loop ::
  "'e efuse_regs \<Rightarrow> 'u efpg_io \<Rightarrow> (nat \<Rightarrow> u8) \<Rightarrow> ('e, 'u) efpg_priv \<Rightarrow> ('e, 'u) efpg_priv option" where
  "efpg_loop hw io behind s = do {
     (go, s) \<leftarrow> efpg_round hw io behind s;
     if go then efpg_loop hw io behind s else Some s
   }"

definition efpg_task ::
  "'e efuse_regs \<Rightarrow> 'u efpg_io \<Rightarrow> (nat \<Rightarrow> u8) \<Rightarrow> ('e, 'u) efpg_priv \<Rightarrow> ('e, 'u) efpg_priv option" where
  "efpg_task hw io behind s = do {
     let s = (case start_cb s of None \<Rightarrow> s | Some f \<Rightarrow> s\<lparr>ep_io := f (ep_io s)\<rparr>);
     s \<leftarrow> efpg_loop hw io behind (efpg_reset s);
     Some (case stop_cb s of None \<Rightarrow> s | Some f \<Rightarrow> s\<lparr>ep_io := f (ep_io s)\<rparr>)
   }"

text \<open>\<open>efpg_start\<close>: the arguments are tested, the structure is allocated (\<open>mem\<close> is what its memory holds)
  and the task created; the structure is not freed when that fails.\<close>

abbreviation (input) UART_NUM :: nat where "UART_NUM \<equiv> 2"

definition efpg_start ::
  "u8 list option \<Rightarrow> u8 \<Rightarrow> nat \<Rightarrow> ('u \<Rightarrow> 'u) option \<Rightarrow> ('u \<Rightarrow> 'u) option \<Rightarrow> ('e, 'u) efpg_priv option \<Rightarrow> bool \<Rightarrow>
     int \<times> ('e, 'u) efpg_priv option" where
  "efpg_start k key_len uart_id start stop mem created =
     (case k of
        None \<Rightarrow> (-1, None)
      | Some k \<Rightarrow>
          if key_len = 0 \<or> key_len > 64 \<or> uart_id \<ge> UART_NUM then (-1, None)
          else (case mem of
              None \<Rightarrow> (-1, None)
            | Some s \<Rightarrow> let s = s\<lparr>start_cb := start, stop_cb := stop, key := take (unat key_len) k\<rparr> in if created then (0, Some s) else (-1, None)))"

definition efpg_read :: "'e efuse_regs \<Rightarrow> efpg_field \<Rightarrow> bool \<Rightarrow> 'e efuse_sys \<Rightarrow> (int \<times> u8 list \<times> 'e efuse_sys) option" where
  "efpg_read hw f ok s =
     (if \<not> ok then Some (-1, [], s)
      else do { (ack, bs, s) \<leftarrow> efpg_read_field hw f 0 0 s; Some (if ack \<noteq> EFPG_ACK_OK then -1 else 0, bs, s) })"

definition efpg_read_ua :: "'e efuse_regs \<Rightarrow> u32 \<Rightarrow> u32 \<Rightarrow> 'e efuse_sys \<Rightarrow> (int \<times> u8 list \<times> 'e efuse_sys) option" where
  "efpg_read_ua hw start num s =
     do { (ack, bs, s) \<leftarrow> efpg_read_field hw EFPG_FIELD_UA (ucast start) (ucast num) s;
          Some (if ack \<noteq> EFPG_ACK_OK then -1 else 0, bs, s) }"

section \<open>Who can change the fuses\<close>

text \<open>A data frame that carries the right digest for some command frame.\<close>

definition authentic :: "(u8 list \<Rightarrow> u8 list) \<Rightarrow> u8 list \<Rightarrow> u8 list \<Rightarrow> bool" where
  "authentic sha k bs \<longleftrightarrow> (\<exists>c d. length c = 8 \<and> bs = d @ sha (c @ d @ k))"

text \<open>The documented behaviour of the digest engine: when it succeeds, the result is the digest, which depends on the
  bytes only.\<close>

locale digest_link =
  fixes io :: "'u efpg_io" and sha :: "u8 list \<Rightarrow> u8 list"
  assumes digest: "io_sha256 io m u = (Some d, u') \<Longrightarrow> d = sha m"
    and digest_length: "length (sha m) = 32"

context fuse_array
begin

lemma Read_keeps: "HAL_EFUSE_Read hw st n ok s = (ret, bs, s') \<Longrightarrow> fuses s' = fuses s"
proof (cases "ok \<and> efuse_window st n \<and> gEfuseState s \<noteq> EFUSE_STATE_BUSY")
  case True
  moreover assume r: "HAL_EFUSE_Read hw st n ok s = (ret, bs, s')"
  moreover have w: "unat n \<noteq> 0" "unat st + unat n \<le> 2048"
  proof -
    have "st < 2048" "n \<noteq> 0" "n \<le> 2048" "st + n \<le> 2048" using True by (auto simp: efuse_window_def not_less not_le)
    then show "unat n \<noteq> 0" "unat st + unat n \<le> 2048"
      by (simp_all add: unat_eq_0 word_le_nat_alt word_less_nat_alt unat_plus)
  qed
  ultimately show ?thesis using Read_ok[of s "unat n" "unat st"] by auto
next
  case False
  moreover assume "HAL_EFUSE_Read hw st n ok s = (ret, bs, s')"
  ultimately show ?thesis by (auto simp: HAL_EFUSE_Read_def efuse_enter_def split: if_splits EFUSE_State.splits)
qed

lemma read_field_keeps: "efpg_read_field hw f a n s = Some (ack, bs, s') \<Longrightarrow> fuses s' = fuses s"
  by (cases f) (auto simp: efpg_read_field_def efpg_read_hosc_def efpg_read_boot_def efpg_read_region_def efpg_read_chipid_def
      efpg_read_user_area_def Let_def dest!: Read_keeps split: prod.splits if_splits Option.bind_splits)

end

text \<open>What the steps keep: the key, the lengths of the frames, the fuses.\<close>

lemma efpg_send_ack_same [simp]:
  "key (snd (efpg_send_ack io status s)) = key s" "cmd_frame (snd (efpg_send_ack io status s)) = cmd_frame s"
  "data_frame (snd (efpg_send_ack io status s)) = data_frame s" "ep_fuse (snd (efpg_send_ack io status s)) = ep_fuse s"
  by (auto simp: efpg_send_ack_def split: prod.splits)

lemma efpg_send_ack_eq:
  "efpg_send_ack io status s = (r, s') \<Longrightarrow> key s' = key s \<and> cmd_frame s' = cmd_frame s \<and> data_frame s' = data_frame s \<and> ep_fuse s' = ep_fuse s"
  using efpg_send_ack_same[of io status s] by simp

lemma efpg_parse_cmd_same:
  "key (snd (efpg_parse_cmd s)) = key s" "cmd_frame (snd (efpg_parse_cmd s)) = cmd_frame s" "data_frame (snd (efpg_parse_cmd s)) = data_frame s" "ep_fuse (snd (efpg_parse_cmd s)) = ep_fuse s"
  "start_cb (snd (efpg_parse_cmd s)) = start_cb s" "stop_cb (snd (efpg_parse_cmd s)) = stop_cb s"
  by (auto simp: efpg_parse_cmd_def Let_def split: option.splits)

lemma efpg_receive_from: "efpg_receive io n u = Some r \<Longrightarrow> \<exists>u0. io_receive io n u0 = r"
proof (rule efpg_receive.raw_induct[where P = "\<lambda>io n u r. \<exists>u0. io_receive io n u0 = r"], goal_cases)
  case (1 rec io n u r)
  then show ?case by (auto split: prod.splits if_splits)
qed

context fuse_array
begin

abbreviation priv_fuses :: "('e, 'u) efpg_priv \<Rightarrow> nat \<Rightarrow> bool" where
  "priv_fuses s \<equiv> fuses (ep_fuse s)"

definition kept :: "('e, 'u) efpg_priv \<Rightarrow> ('e, 'u) efpg_priv \<Rightarrow> bool" where
  "kept s s' \<longleftrightarrow> key s' = key s \<and> cmd_frame s' = cmd_frame s \<and> data_frame s' = data_frame s \<and> priv_fuses s' = priv_fuses s"

lemma read_process_keeps: "efpg_read_process hw io s = Some (st, s') \<Longrightarrow> kept s s'"
  by (auto simp: efpg_read_process_def Let_def kept_def dest!: read_field_keeps efpg_send_ack_eq
      split: prod.splits if_splits Option.bind_splits)

lemma cmd_frame_process_keeps: "efpg_cmd_frame_process hw io s = Some (st, s') \<Longrightarrow> kept s s'"
  using efpg_parse_cmd_same[of s]
  by (cases "efpg_parse_cmd s")
    (auto simp: efpg_cmd_frame_process_def Let_def kept_def efpg_ext_cmd_process_def efpg_write_process_def efpg_stop_process_def
      dest!: efpg_send_ack_eq read_process_keeps split: prod.splits if_splits efpg_op.splits)

end

text \<open>The tool's link: the digest engine and a UART that stores no more than was asked for and reports how much.\<close>

locale efpg_link = fuse_array hw fuse good + digest_link io sha
  for hw :: "'e efuse_regs" and fuse :: "'e \<Rightarrow> nat \<Rightarrow> bool" and good :: "nat \<Rightarrow> bool"
    and io :: "'u efpg_io" and sha :: "u8 list \<Rightarrow> u8 list" +
  assumes received: "io_receive io n u = (len, bs, u') \<Longrightarrow> length bs \<le> unat n \<and> (len = -1 \<or> len = int (length bs))"
begin

lemma dgst_checked:
  assumes "efpg_check_msg_dgst io s = (ret, s')" "0 \<le> ret" "length (cmd_frame s) = 8" "data_frame s = bs @ r" "recv_len s = of_nat (length bs)"
    "length bs < 65536" "length (data_frame s) \<le> 108"
  shows "authentic sha (key s) bs"
proof -
  let ?n = "unat (recv_len s - 32)"
  obtain d u where d: "io_sha256 io (cmd_frame s @ take ?n (data_frame s) @ key s) (ep_io s) = (Some d, u)" "take 32 (drop ?n (data_frame s)) = d"
    using assms(1-3) by (auto simp: efpg_check_msg_dgst_def Let_def split: prod.splits option.splits if_splits)
  have sha: "d = sha (cmd_frame s @ take ?n (data_frame s) @ key s)" "length d = 32" using digest[OF d(1)] digest_length by auto
  have ln: "unat (recv_len s) = length bs" using assms(5,6) by (simp add: unsigned_of_nat take_bit_nat_eq_self)
  have "32 \<le> length bs"
  proof (rule ccontr)
    assume "\<not> 32 \<le> length bs"
    then have "?n = length bs + 65536 - 32" using ln unat_sub_if'[of "recv_len s" 32] by simp
    then show False using d(2) sha(2) assms(7) by auto
  qed
  then have "?n = length bs - 32" using ln by (simp add: unat_sub word_le_nat_alt)
  then have "take ?n (data_frame s) = take (length bs - 32) bs" "d = drop (length bs - 32) bs"
    using d(2) \<open>32 \<le> length bs\<close> by (simp_all add: assms(4))
  then show ?thesis unfolding authentic_def using sha(1) assms(3) by (metis append_take_drop_id)
qed

text \<open>No received frame is authentic for the key.\<close>

definition no_key :: "u8 list \<Rightarrow> bool" where
  "no_key k \<longleftrightarrow> (\<forall>n u len bs u'. io_receive io n u = (len, bs, u') \<longrightarrow> \<not> authentic sha k bs)"

definition frames_wf :: "('e, 'u) efpg_priv \<Rightarrow> bool" where
  "frames_wf s \<longleftrightarrow> length (cmd_frame s) = 8 \<and> length (data_frame s) = 108"

lemma data_frame_process_keeps:
  assumes "efpg_data_frame_process hw io behind s = (st, s')" "frames_wf s" "data_frame s = bs @ r" "recv_len s = of_nat (length bs)"
    "length bs < 65536" "\<not> authentic sha (key s) bs"
  shows "kept s s'"
proof -
  obtain ret t where c: "efpg_check_msg_dgst io s = (ret, t)" by force
  then have t: "key t = key s" "cmd_frame t = cmd_frame s" "data_frame t = data_frame s" "ep_fuse t = ep_fuse s" by (auto simp: efpg_check_msg_dgst_def Let_def split: prod.splits)
  have "ret < 0" using dgst_checked[OF c] assms by (force simp: frames_wf_def)
  then show ?thesis using assms(1) t by (auto simp: efpg_data_frame_process_def c kept_def)
qed

lemma efpg_reset_same [simp]:
  "key (efpg_reset s) = key s" "cmd_frame (efpg_reset s) = cmd_frame s" "data_frame (efpg_reset s) = data_frame s"
  "ep_fuse (efpg_reset s) = ep_fuse s"
  by (simp_all add: efpg_reset_def)

lemma kept_wf: "kept s s' \<Longrightarrow> frames_wf s' = frames_wf s"
  by (simp add: kept_def frames_wf_def)

lemma store_ok:
  assumes "efpg_store bs s = Some t" "frames_wf s"
  shows "frames_wf t" "key t = key s" "ep_fuse t = ep_fuse s" "is_cmd t = is_cmd s" "expt_len t = expt_len s"
    "\<not> is_cmd s \<Longrightarrow> \<exists>r. data_frame t = bs @ r"
  using assms by (auto simp: efpg_store_def frames_wf_def wr_block_def split: if_splits)

lemma round_keeps:
  assumes "efpg_round hw io behind s = Some (go, s')" "frames_wf s" "no_key (key s)"
  shows "frames_wf s' \<and> key s' = key s \<and> priv_fuses s' = priv_fuses s"
proof -
  obtain len bs u t where r: "efpg_receive io (expt_len s) (ep_io s) = Some (len, bs, u)" "efpg_store bs (s\<lparr>ep_io := u\<rparr>) = Some t"
    using assms(1) by (auto simp: efpg_round_def bind_eq_Some_conv)
  have t: "frames_wf t" "key t = key s" "ep_fuse t = ep_fuse s" "is_cmd t = is_cmd s" "expt_len t = expt_len s"
    "\<not> is_cmd s \<Longrightarrow> \<exists>r. data_frame t = bs @ r"
    using store_ok[OF r(2)] assms(2) by (simp_all add: frames_wf_def)
  obtain u0 where "io_receive io (expt_len s) u0 = (len, bs, u)" using efpg_receive_from[OF r(1)] by blast
  then have na: "\<not> authentic sha (key t) bs" and len: "len = -1 \<or> len = int (length bs) \<and> length bs < 65536"
    using assms(3) received[of "expt_len s" u0 len bs u] u16_less[of "expt_len s"] t(2) by (fastforce simp: no_key_def)+
  let ?t = "t\<lparr>recv_len := of_int len\<rparr>"
  consider (stop) "len = -1" "s' = t" | (other) "len \<noteq> -1" "s' = efpg_reset t"
    | (frame) st w where "len \<noteq> -1"
        "(if is_cmd ?t then efpg_cmd_frame_process hw io ?t else Some (efpg_data_frame_process hw io behind ?t)) = Some (st, w)"
        "s' = w \<or> s' = efpg_reset w"
    using assms(1) r by (auto simp: efpg_round_def Let_def bind_eq_Some_conv split: if_splits efpg_state.splits) (meson efpg_state.exhaust)+
  then show ?thesis
  proof cases
    case (frame st w)
    have "kept ?t w"
    proof (cases "is_cmd t")
      case True
      then show ?thesis using frame(2) cmd_frame_process_keeps[of io ?t st w] by simp
    next
      case False
      then obtain r where "data_frame ?t = bs @ r" using t(4,6) by auto
      moreover have "efpg_data_frame_process hw io behind ?t = (st, w)" using frame(2) False by simp
      moreover have "frames_wf ?t" using t(1) by (simp add: frames_wf_def)
      ultimately show ?thesis using data_frame_process_keeps[of behind ?t st w bs r] na len frame(1) by simp
    qed
    then show ?thesis using frame(3) t(1,2,3) by (auto simp: kept_def frames_wf_def)
  qed (use t(1,2,3) in \<open>auto simp: frames_wf_def\<close>)
qed

lemma loop_keeps:
  assumes "efpg_loop hw io behind s = Some s'" "frames_wf s" "no_key (key s)"
  shows "priv_fuses s' = priv_fuses s \<and> frames_wf s' \<and> key s' = key s"
proof -
  have "hw = hw \<longrightarrow> io = io \<longrightarrow> frames_wf s \<longrightarrow> no_key (key s) \<longrightarrow> priv_fuses s' = priv_fuses s \<and> frames_wf s' \<and> key s' = key s"
  proof (rule efpg_loop.raw_induct[where P = "\<lambda>h i b s s'. h = hw \<longrightarrow> i = io \<longrightarrow> frames_wf s \<longrightarrow> no_key (key s)
      \<longrightarrow> priv_fuses s' = priv_fuses s \<and> frames_wf s' \<and> key s' = key s", OF _ assms(1)], goal_cases)
    case (1 f h i b s r)
    then obtain go t where t: "efpg_round h i b s = Some (go, t)" "if go then f h i b t = Some r else r = t"
      by (auto simp: bind_eq_Some_conv split: if_splits)
    then show ?case using round_keeps[of b s go t] 1(1)[of h i b t r] by (auto split: if_splits)
  qed
  then show ?thesis using assms by simp
qed

lemma task_keeps:
  assumes "efpg_task hw io behind s = Some s'" "frames_wf s" "no_key (key s)"
  shows "priv_fuses s' = priv_fuses s"
proof -
  let ?s = "efpg_reset (case start_cb s of None \<Rightarrow> s | Some f \<Rightarrow> s\<lparr>ep_io := f (ep_io s)\<rparr>)"
  have "frames_wf ?s" "key ?s = key s" "ep_fuse ?s = ep_fuse s" using assms(2) by (auto simp: frames_wf_def split: option.splits)
  then show ?thesis
    using assms loop_keeps[of behind ?s] by (auto simp: efpg_task_def bind_eq_Some_conv split: option.splits)
qed

end

section \<open>A tool at the other end\<close>

text \<open>A link over which the frames of \<open>inbox\<close> arrive one after the other, then an error; \<open>outbox\<close> is what was sent.\<close>

record tool =
  inbox :: "u8 list list"
  outbox :: "u8 list list"

definition tool_io :: "(u8 list \<Rightarrow> u8 list) \<Rightarrow> tool efpg_io" where
  "tool_io sha = \<lparr>io_receive = \<lambda>n u. (case inbox u of [] \<Rightarrow> (-1, [], u)
       | f # fs \<Rightarrow> (int (length (take (unat n) f)), take (unat n) f, u\<lparr>inbox := fs\<rparr>)),
     io_transmit = \<lambda>bs u. (int (length bs), u\<lparr>outbox := outbox u @ [bs]\<rparr>),
     io_malloc = \<lambda>_ u. (True, u), io_sha256 = \<lambda>m u. (Some (sha m), u)\<rparr>"

interpretation tool_link: efpg_link "fuse_regs good" "\<lambda>f. f" good "tool_io (\<lambda>m. replicate 32 (sum_list m))" "\<lambda>m. replicate 32 (sum_list m)" for good
  by unfold_locales (auto simp: tool_io_def min_def split: list.splits)

lemma tool_receive:
  "inbox u = f # fs \<Longrightarrow> length f = unat n \<Longrightarrow> f \<noteq> [] \<Longrightarrow> efpg_receive (tool_io sha) n u = Some (int (length f), f, u\<lparr>inbox := fs\<rparr>)"
proof -
  assume "inbox u = f # fs" "length f = unat n" "f \<noteq> []"
  then have "io_receive (tool_io sha) n u = (int (length f), f, u\<lparr>inbox := fs\<rparr>)" by (simp add: tool_io_def)
  moreover have "int (length f) \<noteq> 0" using \<open>f \<noteq> []\<close> by simp
  ultimately show ?thesis by (subst efpg_receive.simps) (simp only: split_conv if_False)
qed

lemma length_ack_bytes: "length (ack_bytes status) = 4"
  by (simp add: ack_bytes_def Let_def length_le)

lemma tool_ack: "efpg_send_ack (tool_io sha) status s = (0, s\<lparr>ep_io := (ep_io s)\<lparr>outbox := outbox (ep_io s) @ [ack_bytes status]\<rparr>\<rparr>)"
  by (simp add: efpg_send_ack_def tool_io_def length_ack_bytes)

text \<open>The task waits for a command frame.\<close>

definition idle :: "('e, 'u) efpg_priv \<Rightarrow> bool" where
  "idle s \<longleftrightarrow> is_cmd s \<and> \<not> ext_cmd s \<and> expt_len s = 8 \<and> length (cmd_frame s) = 8 \<and> length (data_frame s) = 108
     \<and> length (ext_cmd_frame s) = 13"

lemma of_int_of_nat16: "unat n = k \<Longrightarrow> (of_int (int k) :: u16) = n"
  by auto

definition command :: "u16 \<Rightarrow> u8 list \<Rightarrow> bool" where
  "command code c \<longleftrightarrow> length c = 8 \<and> sum_list c = 0xFF \<and> frame_word c 0 = code"

lemma round_command:
  assumes "idle s" "inbox (ep_io s) = c # rest" "command 0xF00F c" "cmd_field (frame_word c 2) = Some (f, n)" "frame_word c 4 = n"
  shows "efpg_round hw (tool_io sha) behind s = Some (True, s\<lparr>cmd_frame := c, is_cmd := False, recv_len := 0, op := EFPG_OP_WRITE, field := f,
    expt_len := n, ep_io := \<lparr>inbox = rest, outbox = outbox (ep_io s) @ [ack_bytes EFPG_ACK_OK]\<rparr>\<rparr>)"
proof -
  have c: "length c = 8" "c \<noteq> []" "sum_list c = 255" "frame_word c 0 = 0xF00F" using assms(3) by (auto simp: command_def)
  have ua: "frame_word c 2 \<noteq> 0xFA05" using assms(4) by (auto simp: cmd_field_def split: if_splits)
  have "efpg_receive (tool_io sha) (expt_len s) (ep_io s) = Some (8, c, (ep_io s)\<lparr>inbox := rest\<rparr>)"
    using tool_receive[OF assms(2), of 8 sha] c assms(1) by (simp add: idle_def)
  then show ?thesis
    using assms(1,4,5) c ua
    by (simp add: efpg_round_def efpg_store_def idle_def wr_block_def efpg_cmd_frame_process_def efpg_checksum8_def efpg_parse_cmd_def
        efpg_write_process_def tool_ack)
qed

lemma round_data:
  assumes "\<not> is_cmd s" "length (cmd_frame s) = 8" "length (data_frame s) = 108" "unat (expt_len s) = length d + 32" "length d \<le> 76"
    "inbox (ep_io s) = (d @ sha (cmd_frame s @ d @ key s)) # rest" "\<And>m. length (sha m) = 32"
    "efpg_write_field hw (field s) (mem_at (d @ sha (cmd_frame s @ d @ key s) @ drop (length d + 32) (data_frame s)) behind) behind
      (start_bit_addr s) (bit_length s) (ep_fuse s) = (status, e)"
  shows "efpg_round hw (tool_io sha) behind s = Some (True, efpg_reset (s\<lparr>
      data_frame := d @ sha (cmd_frame s @ d @ key s) @ drop (length d + 32) (data_frame s), recv_len := expt_len s,
      ep_io := \<lparr>inbox = rest, outbox = outbox (ep_io s) @ [ack_bytes status]\<rparr>, ep_fuse := e\<rparr>))"
proof -
  let ?d = "d @ sha (cmd_frame s @ d @ key s)"
  have ln: "length ?d = unat (expt_len s)" "?d \<noteq> []" using assms(4,7) by (auto dest: arg_cong[where f = length])
  have r: "efpg_receive (tool_io sha) (expt_len s) (ep_io s) = Some (int (length ?d), ?d, (ep_io s)\<lparr>inbox := rest\<rparr>)"
    using tool_receive[OF assms(6) ln] .
  have n: "unat (expt_len s - 32) = length d" using assms(4) by (simp add: unat_sub word_le_nat_alt)
  have "int (length ?d) \<noteq> -1" "(of_int (int (length ?d)) :: u16) = expt_len s" using of_int_of_nat16[OF ln(1) [symmetric]] by simp_all
  moreover have "uint (expt_len s) \<noteq> -1"
  proof -
    have "0 \<le> uint (expt_len s)" by simp
    then show ?thesis by linarith
  qed
  ultimately show ?thesis
    using assms(1-3,5,7,8) ln n
    unfolding efpg_round_def r
    by (simp add: efpg_store_def wr_block_def efpg_data_frame_process_def efpg_check_msg_dgst_def Let_def tool_io_def[of sha, THEN arg_cong[where f = io_sha256]] tool_ack efpg_reset_def)
qed

lemma cmd_field_len: "cmd_field t = Some (f, n) \<Longrightarrow> 32 \<le> unat n \<and> unat n \<le> 64"
  by (auto simp: cmd_field_def split: if_splits)

text \<open>Commands of the user area: the command that announces an extended one, and the extended one.\<close>

lemma round_ua:
  assumes "idle s" "inbox (ep_io s) = c # rest" "command code c" "code = 0x0FF0 \<or> code = 0xF00F"
    "frame_word c 2 = 0xFA05" "frame_word c 4 = 13" "c ! 6 = 1"
  shows "\<exists>s'. efpg_round hw (tool_io sha) behind s = Some (True, s') \<and> is_cmd s' \<and> ext_cmd s' \<and> expt_len s' = 13
    \<and> length (ext_cmd_frame s') = 13 \<and> length (data_frame s') = 108 \<and> inbox (ep_io s') = rest \<and> ep_fuse s' = ep_fuse s"
proof -
  have c: "length c = 8" "c \<noteq> []" "sum_list c = 255" "frame_word c 0 = code" using assms(3) by (auto simp: command_def)
  have "efpg_receive (tool_io sha) (expt_len s) (ep_io s) = Some (8, c, (ep_io s)\<lparr>inbox := rest\<rparr>)"
    using tool_receive[OF assms(2), of 8 sha] c assms(1) by (simp add: idle_def)
  then show ?thesis
    using assms(1,4-7) c
    by (auto simp: efpg_round_def efpg_store_def idle_def wr_block_def efpg_cmd_frame_process_def efpg_checksum8_def efpg_parse_cmd_def
        efpg_ext_cmd_process_def tool_ack)
qed

lemma round_ext_write:
  assumes "is_cmd s" "ext_cmd s" "expt_len s = 13" "length (ext_cmd_frame s) = 13" "length (data_frame s) = 108"
    "inbox (ep_io s) = x # rest" "length x = 13" "sum_list x = 0xFF" "frame_word x 0 = 0xF00F" "frame_word x 2 = 0xFA05"
  shows "\<exists>s'. efpg_round hw (tool_io sha) behind s = Some (True, s') \<and> \<not> is_cmd s' \<and> length (data_frame s') = 108
    \<and> expt_len s' = frame_word x 10 div 8 + 32 + (if frame_word x 10 mod 8 \<noteq> 0 then 1 else 0) \<and> inbox (ep_io s') = rest"
proof -
  have x: "x \<noteq> []" using assms(7) by auto
  have "efpg_receive (tool_io sha) (expt_len s) (ep_io s) = Some (13, x, (ep_io s)\<lparr>inbox := rest\<rparr>)"
    using tool_receive[OF assms(6), of 13 sha] x assms(3,7) by simp
  then show ?thesis
    using assms
    by (simp add: efpg_round_def efpg_store_def wr_block_def efpg_cmd_frame_process_def efpg_checksum8_def efpg_parse_cmd_def
        efpg_write_process_def tool_ack Let_def)
qed

lemma ext_frame_long: "608 < w \<Longrightarrow> 108 < unat (w div 8 + 32 + (if w mod 8 \<noteq> 0 then 1 else 0))" for w :: u16
proof -
  assume "608 < w"
  then have w: "608 < unat w" "unat w < 65536" using u16_less[of w] by (simp_all add: word_less_nat_alt)
  define b where "b = unat w"
  have "w div 8 + 32 + (if w mod 8 \<noteq> 0 then 1 else 0) = of_nat (b div 8 + 32 + (if b mod 8 \<noteq> 0 then 1 else 0))"
  proof -
    have "w div 8 = of_nat (b div 8)" by (rule word_unat_eq_iff[THEN iffD2]) (use w in \<open>simp add: b_def unat_div unsigned_of_nat take_bit_nat_eq_self\<close>)
    moreover have "w mod 8 = 0 \<longleftrightarrow> b mod 8 = 0" proof -
      have "unat (w mod 8) = b mod 8" by (simp add: unat_mod b_def)
      then show ?thesis using unat_eq_0[of "w mod 8"] by simp
    qed
    ultimately show ?thesis by simp
  qed
  moreover have "b div 8 + 32 + (if b mod 8 \<noteq> 0 then 1 else 0) < 65536" "108 < b div 8 + 32 + (if b mod 8 \<noteq> 0 then 1 else 0)"
    using w unfolding b_def [symmetric] by auto
  moreover have "unat (of_nat k :: u16) = k" if "k < 65536" for k using that by (simp add: unsigned_of_nat take_bit_nat_eq_self)
  ultimately show ?thesis by (simp only:)
qed

section \<open>Rounds of an unfinished task\<close>

text \<open>The task after \<open>n\<close> rounds of its loop, or when it ended before; the frame the next one is stored in.\<close>

primrec efpg_rounds ::
  "'e efuse_regs \<Rightarrow> 'u efpg_io \<Rightarrow> (nat \<Rightarrow> u8) \<Rightarrow> nat \<Rightarrow> ('e, 'u) efpg_priv \<Rightarrow> (bool \<times> ('e, 'u) efpg_priv) option" where
  "efpg_rounds hw io behind 0 s = Some (True, s)"
| "efpg_rounds hw io behind (Suc n) s =
     do { (go, s) \<leftarrow> efpg_rounds hw io behind n s; if go then efpg_round hw io behind s else Some (False, s) }"

definition frame_for :: "('e, 'u) efpg_priv \<Rightarrow> u8 list" where
  "frame_for s = (if \<not> is_cmd s then data_frame s else if ext_cmd s then ext_cmd_frame s else cmd_frame s)"

text \<open>Where the loop of the task begins.\<close>

definition efpg_entry :: "('e, 'u) efpg_priv \<Rightarrow> ('e, 'u) efpg_priv" where
  "efpg_entry s = efpg_reset (case start_cb s of None \<Rightarrow> s | Some f \<Rightarrow> s\<lparr>ep_io := f (ep_io s)\<rparr>)"

text \<open>What stops a round: nothing ever arrives, or a frame longer than its buffer does.\<close>

definition efpg_waits :: "'u efpg_io \<Rightarrow> ('e, 'u) efpg_priv \<Rightarrow> bool" where
  "efpg_waits io s \<longleftrightarrow> efpg_receive io (expt_len s) (ep_io s) = None"

definition efpg_overrun :: "'u efpg_io \<Rightarrow> ('e, 'u) efpg_priv \<Rightarrow> bool" where
  "efpg_overrun io s \<longleftrightarrow>
     (\<exists>len bs u. efpg_receive io (expt_len s) (ep_io s) = Some (len, bs, u) \<and> length (frame_for s) < length bs)"

lemma cmd_frame_process_ends: "efpg_cmd_frame_process hw io s \<noteq> None"
  by (auto simp: efpg_cmd_frame_process_def efpg_read_process_def read_field_ends Let_def
      split: prod.splits efpg_op.splits Option.bind_splits)

lemma round_stuck: "efpg_round hw io behind s = None \<longleftrightarrow> efpg_waits io s \<or> efpg_overrun io s"
proof (cases "efpg_receive io (expt_len s) (ep_io s)")
  case (Some r)
  obtain len bs u where r: "r = (len, bs, u)" by (cases r)
  have "efpg_store bs (s\<lparr>ep_io := u\<rparr>) = None \<longleftrightarrow> length (frame_for s) < length bs"
    by (auto simp: efpg_store_def frame_for_def wr_block_def)
  then show ?thesis
    using Some r
    by (auto simp: efpg_round_def efpg_waits_def efpg_overrun_def Let_def cmd_frame_process_ends
        split: Option.bind_splits prod.splits)
qed (simp add: efpg_round_def efpg_waits_def efpg_overrun_def)

lemma send_ack_state: "\<exists>u. efpg_send_ack io status s = (fst (efpg_send_ack io status s), s\<lparr>ep_io := u\<rparr>)"
  by (auto simp: efpg_send_ack_def split: prod.splits)

text \<open>Buffers and expected lengths agree.\<close>

definition in_step :: "('e, 'u) efpg_priv \<Rightarrow> bool" where
  "in_step s \<longleftrightarrow> length (cmd_frame s) = 8 \<and> length (data_frame s) = 108 \<and> length (ext_cmd_frame s) = 13
     \<and> (if \<not> is_cmd s then expt_len s \<le> 108 else if ext_cmd s then expt_len s = 13 else expt_len s = 8)"

definition ext_fits :: "u8 list \<Rightarrow> bool" where
  "ext_fits x \<longleftrightarrow> frame_word x 2 = 0xFA05 \<and> frame_word x 10 \<le> 608"

lemma ext_frame_short: "w \<le> 608 \<Longrightarrow> w div 8 + 32 + (if w mod 8 \<noteq> 0 then 1 else 0) \<le> 108" for w :: u16
proof -
  assume "w \<le> 608"
  then have w: "unat w \<le> 608" by (simp add: word_le_nat_alt)
  have "unat (w div 8) = unat w div 8" by (simp add: unat_div)
  moreover have "w mod 8 = 0 \<longleftrightarrow> unat w mod 8 = 0" using unat_eq_0[of "w mod 8"] by (simp add: unat_mod)
  moreover have "unat w div 8 + (if unat w mod 8 \<noteq> 0 then 1 else 0) \<le> 76" using w by presburger
  ultimately show ?thesis by (auto simp: word_le_nat_alt unat_word_ariths split: if_splits)
qed

lemma command_in_step:
  assumes "in_step t" "is_cmd t" "ext_cmd t \<longrightarrow> ext_fits (ext_cmd_frame t)"
    "efpg_cmd_frame_process hw io t = Some (EFPG_STATE_CONTINUE, w)"
  shows "in_step w"
proof -
  obtain ret p where p: "efpg_parse_cmd t = (ret, p)" by force
  have pk: "is_cmd p" "length (cmd_frame p) = 8" "length (data_frame p) = 108" "length (ext_cmd_frame p) = 13"
    using p assms(1,2) by (auto simp: efpg_parse_cmd_def in_step_def Let_def split: if_splits option.splits)
  have ret: "0 \<le> ret" and w: "w = snd (if ext_cmd p then efpg_ext_cmd_process io p else efpg_write_process io p)"
      and op: "ext_cmd p \<or> op p = EFPG_OP_WRITE"
    using assms(4) p
    by (auto simp: efpg_cmd_frame_process_def efpg_read_process_def efpg_stop_process_def Let_def
        split: if_splits prod.splits efpg_op.splits Option.bind_splits)
  have ext: "expt_len p = 13" if "ext_cmd p"
    using p that ret assms(1-3) by (auto simp: efpg_parse_cmd_def in_step_def ext_fits_def Let_def split: if_splits option.splits)
  have "expt_len p \<le> 108" if "\<not> ext_cmd p" "op p = EFPG_OP_WRITE"
    using p that ret assms(1-3) ext_frame_short[of "frame_word (ext_cmd_frame t) 10"]
    by (auto simp: efpg_parse_cmd_def in_step_def ext_fits_def cmd_field_def Let_def split: if_splits option.splits)
  then show ?thesis
    using w op ext pk send_ack_state[of io EFPG_ACK_OK "p\<lparr>is_cmd := True, recv_len := 0\<rparr>"]
      send_ack_state[of io EFPG_ACK_OK "p\<lparr>is_cmd := False, recv_len := 0\<rparr>"]
    by (auto simp: efpg_ext_cmd_process_def efpg_write_process_def in_step_def split: if_splits prod.splits)
qed

lemma reset_in_step: "in_step (efpg_reset s) \<longleftrightarrow> length (cmd_frame s) = 8 \<and> length (data_frame s) = 108 \<and> length (ext_cmd_frame s) = 13"
  by (simp add: in_step_def efpg_reset_def)

lemma store_in_step:
  assumes "efpg_store bs s = Some t" "in_step s"
  shows "in_step t" "expt_len t = expt_len s" "is_cmd t = is_cmd s" "ext_cmd t = ext_cmd s"
    "length bs = 13 \<Longrightarrow> is_cmd t \<Longrightarrow> ext_cmd t \<Longrightarrow> ext_cmd_frame t = bs"
  using assms by (auto simp: efpg_store_def in_step_def wr_block_def split: if_splits)

text \<open>The branches of a round.\<close>

lemma round_cases:
  assumes "efpg_round hw io behind s = Some (go, s')"
  obtains len bs u t where "efpg_receive io (expt_len s) (ep_io s) = Some (len, bs, u)" "efpg_store bs (s\<lparr>ep_io := u\<rparr>) = Some t"
      "len = -1 \<and> \<not> go \<and> s' = t \<or> len \<noteq> -1 \<and> go \<and> s' = efpg_reset t
       \<or> len \<noteq> -1 \<and> (of_int len :: u16) = expt_len t \<and> (\<exists>st w.
           (if is_cmd t then efpg_cmd_frame_process hw io (t\<lparr>recv_len := of_int len\<rparr>)
            else Some (efpg_data_frame_process hw io behind (t\<lparr>recv_len := of_int len\<rparr>))) = Some (st, w)
           \<and> (st = EFPG_STATE_CONTINUE \<and> go \<and> s' = w \<or> st = EFPG_STATE_RESET \<and> go \<and> s' = efpg_reset w \<or> \<not> go \<and> s' = w))"
proof -
  obtain len bs u t where r: "efpg_receive io (expt_len s) (ep_io s) = Some (len, bs, u)" "efpg_store bs (s\<lparr>ep_io := u\<rparr>) = Some t"
    using assms by (auto simp: efpg_round_def bind_eq_Some_conv)
  show thesis
  proof (cases "len = -1 \<or> (of_int len :: u16) \<noteq> expt_len t")
    case True
    then show ?thesis using that[OF r] assms r by (auto simp: efpg_round_def split: if_splits)
  next
    case False
    let ?p = "if is_cmd t then efpg_cmd_frame_process hw io (t\<lparr>recv_len := of_int len\<rparr>)
            else Some (efpg_data_frame_process hw io behind (t\<lparr>recv_len := of_int len\<rparr>))"
    have "efpg_round hw io behind s = do { (state, s) \<leftarrow> ?p;
       Some (case state of EFPG_STATE_CONTINUE \<Rightarrow> (True, s) | EFPG_STATE_RESET \<Rightarrow> (True, efpg_reset s) | _ \<Rightarrow> (False, s)) }"
      using False r by (simp add: efpg_round_def Let_def)
    then obtain st w where w: "?p = Some (st, w)"
        "(case st of EFPG_STATE_CONTINUE \<Rightarrow> (True, w) | EFPG_STATE_RESET \<Rightarrow> (True, efpg_reset w) | _ \<Rightarrow> (False, w)) = (go, s')"
      using assms by (cases ?p) (auto simp only: bind.simps split_conv option.inject option.simps)
    then have "st = EFPG_STATE_CONTINUE \<and> go \<and> s' = w \<or> st = EFPG_STATE_RESET \<and> go \<and> s' = efpg_reset w \<or> \<not> go \<and> s' = w"
      by (cases st) simp_all
    then show ?thesis using that[OF r] False w(1) by blast
  qed
qed

lemma send_ack_ext_same [simp]: "ext_cmd_frame (snd (efpg_send_ack io status s)) = ext_cmd_frame s"
  by (auto simp: efpg_send_ack_def split: prod.splits)

lemma send_ack_ext: "efpg_send_ack io status s = (r, s') \<Longrightarrow> ext_cmd_frame s' = ext_cmd_frame s"
  using send_ack_ext_same[of io status s] by simp

lemma process_ext_frame:
  "efpg_cmd_frame_process hw io s = Some (st, s') \<Longrightarrow> ext_cmd_frame s' = ext_cmd_frame s"
  "efpg_data_frame_process hw io behind s = (st, s') \<Longrightarrow> ext_cmd_frame s' = ext_cmd_frame s"
proof -
  have p: "ext_cmd_frame (snd (efpg_parse_cmd s)) = ext_cmd_frame s"
    by (auto simp: efpg_parse_cmd_def Let_def split: option.splits)
  then show "efpg_cmd_frame_process hw io s = Some (st, s') \<Longrightarrow> ext_cmd_frame s' = ext_cmd_frame s"
    by (cases "efpg_parse_cmd s")
      (auto simp: efpg_cmd_frame_process_def efpg_ext_cmd_process_def efpg_write_process_def efpg_stop_process_def
        efpg_read_process_def Let_def dest!: send_ack_ext split: prod.splits if_splits efpg_op.splits Option.bind_splits)
  show "efpg_data_frame_process hw io behind s = (st, s') \<Longrightarrow> ext_cmd_frame s' = ext_cmd_frame s"
    by (auto simp: efpg_data_frame_process_def efpg_check_msg_dgst_def Let_def dest!: send_ack_ext split: prod.splits if_splits)
qed

context efpg_link
begin

lemma round_in_step:
  assumes "in_step s" "efpg_round hw io behind s = Some (True, s')"
    and fits: "\<forall>n u len bs u'. io_receive io n u = (len, bs, u') \<and> length bs = 13 \<longrightarrow> ext_fits bs"
  shows "in_step s'"
  using assms(2)
proof (cases rule: round_cases)
  case (1 len bs u t)
  have s: "in_step (s\<lparr>ep_io := u\<rparr>)" using assms(1) by (simp add: in_step_def)
  have t: "in_step t" "expt_len t = expt_len s" "length bs = 13 \<Longrightarrow> is_cmd t \<Longrightarrow> ext_cmd t \<Longrightarrow> ext_cmd_frame t = bs"
    using store_in_step[OF 1(2) s] by simp_all
  obtain u0 where u0: "io_receive io (expt_len s) u0 = (len, bs, u)" using efpg_receive_from[OF 1(1)] by blast
  have len: "len = -1 \<or> len = int (length bs) \<and> length bs < 65536"
    using received[OF u0] u16_less[of "expt_len s"] by auto
  have ext: "ext_fits (ext_cmd_frame t)" if "is_cmd t" "ext_cmd t" "len \<noteq> -1" "(of_int len :: u16) = expt_len t"
  proof -
    have "unat (of_int len :: u16) = length bs" using len that(3) by (auto simp: unsigned_of_nat take_bit_nat_eq_self)
    then have "length bs = 13" using that t(1) by (simp add: in_step_def)
    moreover from this have "ext_fits bs" using fits u0 by blast
    ultimately show ?thesis using t(3) that(1,2) by simp
  qed
  from 1(3) consider (other) "s' = efpg_reset t"
    | (frame) st w where "len \<noteq> -1" "(of_int len :: u16) = expt_len t"
        "(if is_cmd t then efpg_cmd_frame_process hw io (t\<lparr>recv_len := of_int len\<rparr>)
            else Some (efpg_data_frame_process hw io behind (t\<lparr>recv_len := of_int len\<rparr>))) = Some (st, w)"
        "st = EFPG_STATE_CONTINUE \<and> s' = w \<or> s' = efpg_reset w"
    by blast
  then show ?thesis
  proof cases
    case other
    then show ?thesis using t(1) by (auto simp: reset_in_step in_step_def[of t])
  next
    case (frame st w)
    let ?t = "t\<lparr>recv_len := of_int len\<rparr>"
    have ts: "in_step ?t" using t(1) by (simp add: in_step_def)
    show ?thesis
    proof (cases "is_cmd t")
      case True
      then have p: "efpg_cmd_frame_process hw io ?t = Some (st, w)" using frame(3) by simp
      have "in_step (efpg_reset w)"
        using cmd_frame_process_keeps[OF p] process_ext_frame(1)[OF p] t(1) by (auto simp: reset_in_step kept_def in_step_def[of t])
      moreover have "in_step w" if "st = EFPG_STATE_CONTINUE"
        using command_in_step[of ?t hw io w] ts True p that ext frame(1,2) by simp
      ultimately show ?thesis using frame(4) by blast
    next
      case False
      then have p: "efpg_data_frame_process hw io behind ?t = (st, w)" using frame(3) by simp
      then have "st = EFPG_STATE_RESET" "length (cmd_frame w) = length (cmd_frame t)" "length (data_frame w) = length (data_frame t)"
        by (auto simp: efpg_data_frame_process_def efpg_check_msg_dgst_def Let_def dest!: efpg_send_ack_eq split: prod.splits if_splits)
      then show ?thesis using frame(4) process_ext_frame(2)[OF p] t(1) by (auto simp: reset_in_step in_step_def[of t])
    qed
  qed
qed

lemma in_step_fits: "in_step s \<Longrightarrow> \<not> efpg_overrun io s"
proof
  assume s: "in_step s" and "efpg_overrun io s"
  then obtain len bs u where r: "efpg_receive io (expt_len s) (ep_io s) = Some (len, bs, u)" "length (frame_for s) < length bs"
    by (auto simp: efpg_overrun_def)
  obtain u0 where "io_receive io (expt_len s) u0 = (len, bs, u)" using efpg_receive_from[OF r(1)] by blast
  then have "length bs \<le> unat (expt_len s)" using received by blast
  moreover have "unat (expt_len s) \<le> length (frame_for s)"
    using s by (auto simp: in_step_def frame_for_def word_le_nat_alt)
  ultimately show False using r(2) by auto
qed

lemma rounds_in_step:
  assumes "efpg_rounds hw io behind m s = Some (True, s')" "in_step s"
    and "\<forall>n u len bs u'. io_receive io n u = (len, bs, u') \<and> length bs = 13 \<longrightarrow> ext_fits bs"
  shows "in_step s'"
  using assms(1)
proof (induction m arbitrary: s')
  case (Suc m)
  then obtain go w where "efpg_rounds hw io behind m s = Some (go, w)" "(if go then efpg_round hw io behind w else Some (False, w)) = Some (True, s')"
    by (auto simp: bind_eq_Some_conv)
  then show ?case using Suc.IH round_in_step[OF _ _ assms(3)] by (auto split: if_splits)
qed (use assms(2) in simp)

lemma rounds_keep:
  assumes "frames_wf s" "no_key (key s)"
  shows "(\<exists>go s'. efpg_rounds hw io behind n s = Some (go, s') \<and> priv_fuses s' = priv_fuses s \<and> frames_wf s' \<and> key s' = key s)
    \<or> (\<exists>m<n. \<exists>s'. efpg_rounds hw io behind m s = Some (True, s') \<and> priv_fuses s' = priv_fuses s \<and> (efpg_waits io s' \<or> efpg_overrun io s'))"
proof (induction n)
  case (Suc n)
  show ?case
  proof (cases "\<exists>go s'. efpg_rounds hw io behind n s = Some (go, s') \<and> priv_fuses s' = priv_fuses s \<and> frames_wf s' \<and> key s' = key s")
    case True
    then obtain go w where w: "efpg_rounds hw io behind n s = Some (go, w)" "priv_fuses w = priv_fuses s" "frames_wf w" "key w = key s" by blast
    show ?thesis
    proof (cases "go \<and> efpg_round hw io behind w = None")
      case True
      then show ?thesis using w(1,2) round_stuck[of hw io behind w] by (intro disjI2 exI[of _ n]) auto
    next
      case False
      then show ?thesis using w round_keeps[of behind w] assms(2) by (intro disjI1) auto
    qed
  next
    case False
    then show ?thesis using Suc.IH less_SucI by blast
  qed
qed (use assms in auto)

end

section \<open>Properties\<close>

text \<open>C20. Without the key nobody can program the eFuse over the link.  As long as no frame ends in the digest of a
  command, its own data and the key, every fuse is as it was after any number of rounds of the task, ended or not,
  up to a round that waits for ever or that receives a frame longer than its buffer; the latter cannot happen
  while the extended commands that arrive are for the user area and for at most its 608 bits.  So is it when the
  task has ended.\<close>

theorem efpg_task_needs_key:
  assumes "efpg_link hw fuse good io sha"
    and "length (cmd_frame s) = 8" "length (data_frame s) = 108" "length (ext_cmd_frame s) = 13"
    and "\<forall>n u len bs u'. io_receive io n u = (len, bs, u') \<longrightarrow> \<not> authentic sha (key s) bs"
  shows "((\<exists>go s'. efpg_rounds hw io behind n (efpg_entry s) = Some (go, s')
          \<and> fuse (es_env (ep_fuse s')) = fuse (es_env (ep_fuse s)))
      \<or> (\<exists>m<n. \<exists>s'. efpg_rounds hw io behind m (efpg_entry s) = Some (True, s')
          \<and> fuse (es_env (ep_fuse s')) = fuse (es_env (ep_fuse s))
          \<and> (efpg_waits io s' \<or> efpg_overrun io s'
              \<and> \<not> (\<forall>n u len bs u'. io_receive io n u = (len, bs, u') \<and> length bs = 13 \<longrightarrow> ext_fits bs))))
    \<and> (\<forall>s'. efpg_task hw io behind s = Some s' \<longrightarrow> fuse (es_env (ep_fuse s')) = fuse (es_env (ep_fuse s)))"
proof -
  have e: "key (efpg_entry s) = key s" "ep_fuse (efpg_entry s) = ep_fuse s"
    using assms(2-4) by (auto simp: efpg_entry_def split: option.splits)
  have wf: "in_step (efpg_entry s)"
    using assms(2-4) unfolding efpg_entry_def by (auto simp: reset_in_step split: option.splits)
  have "efpg_link.frames_wf s" "efpg_link.frames_wf (efpg_entry s)" "efpg_link.no_key io sha (key s)"
    using assms(2-5) wf by (simp_all add: efpg_link.frames_wf_def[OF assms(1)] efpg_link.no_key_def[OF assms(1)] in_step_def)
  then show ?thesis
    using efpg_link.task_keeps[OF assms(1)] efpg_link.rounds_keep[OF assms(1), of "efpg_entry s" behind n]
      efpg_link.rounds_in_step[OF assms(1) _ wf] efpg_link.in_step_fits[OF assms(1)]
    unfolding e by (metis (lifting))
qed

text \<open>C21. A write over the link is the write of the field: to a task that waits for a command, the tool sends a
  write command with a good checksum and length and then the data with their digest; the task answers OK to
  the command, stores the data with \<open>efpg_write_field\<close>, answers with its result, and waits for a command again.\<close>

theorem efpg_write_session:
  assumes "\<And>m. length (sha m) = 32" "idle s" "command 0xF00F c" "cmd_field (frame_word c 2) = Some (f, n)" "frame_word c 4 = n"
    and "length d + 32 = unat n" "inbox (ep_io s) = c # (d @ sha (c @ d @ key s)) # rest"
  shows "\<exists>s1 s2 status. efpg_round hw (tool_io sha) behind s = Some (True, s1)
    \<and> efpg_round hw (tool_io sha) behind s1 = Some (True, s2) \<and> idle s2
    \<and> efpg_write_field hw f (mem_at (d @ sha (c @ d @ key s) @ drop (length d + 32) (data_frame s)) behind) behind
        (start_bit_addr s) (bit_length s) (ep_fuse s) = (status, ep_fuse s2)
    \<and> ep_io s2 = \<lparr>inbox = rest, outbox = outbox (ep_io s) @ [ack_bytes EFPG_ACK_OK, ack_bytes status]\<rparr>"
proof -
  obtain status e where w: "efpg_write_field hw f (mem_at (d @ sha (c @ d @ key s) @ drop (length d + 32) (data_frame s)) behind) behind
        (start_bit_addr s) (bit_length s) (ep_fuse s) = (status, e)" by force
  have "length d \<le> 76" "length c = 8" using cmd_field_len[OF assms(4)] assms(3,6) by (auto simp: command_def)
  moreover define s1 where "s1 = s\<lparr>cmd_frame := c, is_cmd := False, recv_len := 0, op := EFPG_OP_WRITE, field := f,
    expt_len := n, ep_io := \<lparr>inbox = (d @ sha (c @ d @ key s)) # rest, outbox = outbox (ep_io s) @ [ack_bytes EFPG_ACK_OK]\<rparr>\<rparr>"
  ultimately have "efpg_round hw (tool_io sha) behind s1 = Some (True, efpg_reset (s1\<lparr>
      data_frame := d @ sha (c @ d @ key s) @ drop (length d + 32) (data_frame s), recv_len := n,
      ep_io := \<lparr>inbox = rest, outbox = outbox (ep_io s) @ [ack_bytes EFPG_ACK_OK, ack_bytes status]\<rparr>, ep_fuse := e\<rparr>))"
    using round_data[of s1 d sha rest hw behind status e] assms(1,2,6) w by (simp add: idle_def)
  then show ?thesis
    using round_command[OF assms(2,7,3,4,5), of hw sha behind] assms(1,2,6) w \<open>length c = 8\<close> \<open>length d \<le> 76\<close>
    by (auto simp: s1_def idle_def efpg_reset_def intro!: exI)
qed

text \<open>C39. Two frames that need no key bring the task out of its buffers: after a user-area command and an
  extended write command for more than 608 bits (neither is authenticated, and the bit length is not compared
  with the size of the area), the task waits for a data frame longer than its buffer of 108 bytes, and when
  such a frame arrives it is written past the end.\<close>

theorem efpg_data_frame_overflow:
  assumes "idle s" "inbox (ep_io s) = c # x # big # rest" "command code c" "code = 0x0FF0 \<or> code = 0xF00F"
    and "frame_word c 2 = 0xFA05" "frame_word c 4 = 13" "c ! 6 = 1"
    and "length x = 13" "sum_list x = 0xFF" "frame_word x 0 = 0xF00F" "frame_word x 2 = 0xFA05" "frame_word x 10 > 608"
    and "length big = unat (frame_word x 10 div 8 + 32 + (if frame_word x 10 mod 8 \<noteq> 0 then 1 else 0))"
  shows "\<exists>s1 s2. efpg_round hw (tool_io sha) behind s = Some (True, s1) \<and> efpg_round hw (tool_io sha) behind s1 = Some (True, s2)
    \<and> efpg_round hw (tool_io sha) behind s2 = None"
proof -
  obtain s1 where s1: "efpg_round hw (tool_io sha) behind s = Some (True, s1)" "is_cmd s1" "ext_cmd s1" "expt_len s1 = 13"
      "length (ext_cmd_frame s1) = 13" "length (data_frame s1) = 108" "inbox (ep_io s1) = x # big # rest"
    using round_ua[OF assms(1-7)] by blast
  obtain s2 where s2: "efpg_round hw (tool_io sha) behind s1 = Some (True, s2)" "\<not> is_cmd s2" "length (data_frame s2) = 108"
      "expt_len s2 = frame_word x 10 div 8 + 32 + (if frame_word x 10 mod 8 \<noteq> 0 then 1 else 0)" "inbox (ep_io s2) = big # rest"
    using round_ext_write[OF s1(2-7) assms(8-11)] by blast
  then have len: "length big = unat (expt_len s2)" using assms(13) by (simp only:)
  have long: "108 < length big" using ext_frame_long[OF assms(12)] assms(13) by simp
  then have "big \<noteq> []" by auto
  then have "efpg_receive (tool_io sha) (expt_len s2) (ep_io s2) = Some (int (length big), big, (ep_io s2)\<lparr>inbox := rest\<rparr>)"
    by (rule tool_receive[OF s2(5) len])
  then have "efpg_round hw (tool_io sha) behind s2 = None"
    using s2(2,3) long by (simp add: efpg_round_def efpg_store_def wr_block_def)
  then show ?thesis using s1(1) s2(1) by blast
qed

section \<open>Instances\<close>

text \<open>A task whose buffers are empty, and a line on which a few frames of zeros arrive.\<close>

definition blank_priv :: "'u \<Rightarrow> ((nat \<Rightarrow> bool), 'u) efpg_priv" where
  "blank_priv u = \<lparr>start_cb = None, stop_cb = None, key = [7], is_cmd = True, ext_cmd = False, cmd_frame = replicate 8 0,
     data_frame = replicate 108 0, ext_cmd_frame = replicate 13 0, expt_len = 8, recv_len = 0, protocol_version = 0,
     start_bit_addr = 0, bit_length = 0, op = EFPG_OP_NUM, field = EFPG_FIELD_NUM, ep_io = u,
     ep_fuse = \<lparr>gEfuseState = EFUSE_STATE_INVALID, es_env = \<lambda>_. False\<rparr>\<rparr>"

definition noise_io :: "nat efpg_io" where
  "noise_io = \<lparr>io_receive = \<lambda>n u. (if u = 0 then (-1, [], 0) else (int (unat n), replicate (unat n) 0, u - 1)),
     io_transmit = \<lambda>bs u. (int (length bs), u), io_malloc = \<lambda>_ u. (True, u), io_sha256 = \<lambda>_ u. (Some (replicate 32 1), u)\<rparr>"

interpretation noise_link: efpg_link "fuse_regs good" "\<lambda>f. f" good noise_io "\<lambda>_. replicate 32 1" for good
  by unfold_locales (auto simp: noise_io_def split: if_splits)

lemma noise_not_authentic: "\<forall>n u len bs u'. io_receive noise_io n u = (len, bs, u') \<longrightarrow> \<not> authentic (\<lambda>_. replicate 32 1) k bs"
proof (intro allI impI notI)
  fix n u len bs u'
  assume "io_receive noise_io n u = (len, bs, u')" "authentic (\<lambda>_. replicate 32 1) k bs"
  then obtain d where "bs = d @ replicate 32 1" by (auto simp: authentic_def)
  moreover have "set bs \<subseteq> {0}" using \<open>io_receive noise_io n u = (len, bs, u')\<close> by (auto simp: noise_io_def split: if_splits)
  ultimately show False by simp
qed

theorem efpg_task_needs_key_witness:
  "(\<exists>s'. efpg_task (fuse_regs (\<lambda>_. True)) noise_io (\<lambda>_. 0) (blank_priv 1) = Some s' \<and> es_env (ep_fuse s') = (\<lambda>_. False))
    \<and> (\<exists>s'. efpg_rounds (fuse_regs (\<lambda>_. True)) noise_io (\<lambda>_. 0) 2 (efpg_entry (blank_priv 1)) = Some (False, s')
        \<and> es_env (ep_fuse s') = (\<lambda>_. False))"
proof -
  have r1: "efpg_receive noise_io n 1 = Some (int (unat n), replicate (unat n) 0, 0)" if "unat n \<noteq> 0" for n
  proof -
    have "io_receive noise_io n 1 = (int (unat n), replicate (unat n) 0, 0)" by (simp add: noise_io_def)
    moreover have "int (unat n) \<noteq> 0" using that by (simp only: of_nat_eq_0_iff simp_thms)
    ultimately show ?thesis by (subst efpg_receive.simps) (simp only: split_conv if_False)
  qed
  have r0: "efpg_receive noise_io n 0 = Some (-1, [], 0)" for n
    by (subst efpg_receive.simps) (simp add: noise_io_def)
  have ack: "\<exists>u. efpg_send_ack noise_io st s = (u, s)" for st and s :: "(nat \<Rightarrow> bool, nat) efpg_priv"
    by (simp add: efpg_send_ack_def noise_io_def)
  then have ack': "snd (efpg_send_ack noise_io st s) = s" for st and s :: "(nat \<Rightarrow> bool, nat) efpg_priv" by (metis snd_conv)
  let ?hw = "fuse_regs (\<lambda>_. True)" and ?b = "\<lambda>_ :: nat. 0 :: u8"
  have rd1: "efpg_round ?hw noise_io ?b (blank_priv 1) = Some (True, blank_priv 0)"
    by (simp add: efpg_round_def blank_priv_def r1[simplified] efpg_store_def wr_block_def efpg_cmd_frame_process_def efpg_checksum8_def
        ack' efpg_reset_def sum_list_replicate)
  have rd2: "efpg_round ?hw noise_io ?b (blank_priv 0) = Some (False, blank_priv 0)"
    by (simp add: efpg_round_def blank_priv_def r0 efpg_store_def wr_block_def)
  have lp: "efpg_loop ?hw noise_io ?b (blank_priv 1) = Some (blank_priv 0)"
    by (subst efpg_loop.simps, simp only: rd1, simp, subst efpg_loop.simps) (simp add: rd2)
  have cb: "start_cb (blank_priv (1 :: nat)) = None" "stop_cb (blank_priv (0 :: nat)) = None"
    "efpg_reset (blank_priv 1) = (blank_priv 1 :: (nat \<Rightarrow> bool, nat) efpg_priv)"
    by (simp_all add: blank_priv_def efpg_reset_def)
  then have entry: "efpg_entry (blank_priv 1) = (blank_priv 1 :: (nat \<Rightarrow> bool, nat) efpg_priv)" by (simp add: efpg_entry_def)
  have task: "efpg_task ?hw noise_io ?b (blank_priv 1) = Some (blank_priv 0)" using cb lp by (simp add: efpg_task_def)
  have rounds: "efpg_rounds ?hw noise_io ?b 2 (efpg_entry (blank_priv 1)) = Some (False, blank_priv 0)"
    unfolding entry numeral_2_eq_2 using rd1 rd2 by simp
  from task have "es_env (ep_fuse (blank_priv (0 :: nat))) = (\<lambda>_. False)"
    using efpg_task_needs_key[OF noise_link.efpg_link_axioms[of "\<lambda>_. True"] _ _ _ noise_not_authentic, of "blank_priv 1" "\<lambda>_. 0" 2]
    by (simp add: blank_priv_def)
  then show ?thesis using task rounds by blast
qed

text \<open>Writing the type of the oscillator.\<close>

theorem efpg_write_session_witness:
  "\<exists>s1 s2 status. efpg_round (fuse_regs (\<lambda>_. True)) (tool_io (\<lambda>m. replicate 32 (sum_list m))) (\<lambda>_. 0)
      (blank_priv \<lparr>inbox = [[0x0F, 0xF0, 0x00, 0xFF, 33, 0, 0, 0xE0], 6 # replicate 32 12], outbox = []\<rparr>) = Some (True, s1)
    \<and> efpg_round (fuse_regs (\<lambda>_. True)) (tool_io (\<lambda>m. replicate 32 (sum_list m))) (\<lambda>_. 0) s1 = Some (True, s2)
    \<and> ep_io s2 = \<lparr>inbox = [], outbox = [ack_bytes EFPG_ACK_OK, ack_bytes status]\<rparr>"
proof -
  let ?c = "[0x0F, 0xF0, 0x00, 0xFF, 33, 0, 0, 0xE0] :: u8 list"
  have "command 0xF00F ?c" "cmd_field (frame_word ?c 2) = Some (EFPG_FIELD_HOSC, 33)" "frame_word ?c 4 = 33" by code_simp+
  then show ?thesis
    using efpg_write_session[of "\<lambda>m. replicate 32 (sum_list m)" "blank_priv \<lparr>inbox = [?c, 6 # replicate 32 12], outbox = []\<rparr>"
        ?c EFPG_FIELD_HOSC 33 "[6]" "[]" "fuse_regs (\<lambda>_. True)" "\<lambda>_. 0"]
    by (auto simp: idle_def blank_priv_def)
qed

text \<open>An extended command for 4080 bits.\<close>

theorem efpg_data_frame_overflow_witness:
  "\<exists>s1 s2. efpg_round (fuse_regs (\<lambda>_. True)) (tool_io (\<lambda>_. [])) (\<lambda>_. 0)
      (blank_priv \<lparr>inbox = [[0x0F, 0xF0, 0x05, 0xFA, 13, 0, 1, 0xF3], [0x0F, 0xF0, 0x05, 0xFA, 0, 0, 0, 0, 0, 0, 0xF0, 0x0F, 2],
        replicate 542 0], outbox = []\<rparr>) = Some (True, s1)
    \<and> efpg_round (fuse_regs (\<lambda>_. True)) (tool_io (\<lambda>_. [])) (\<lambda>_. 0) s1 = Some (True, s2)
    \<and> efpg_round (fuse_regs (\<lambda>_. True)) (tool_io (\<lambda>_. [])) (\<lambda>_. 0) s2 = None"
proof -
  let ?c = "[0x0F, 0xF0, 0x05, 0xFA, 13, 0, 1, 0xF3] :: u8 list" and ?x = "[0x0F, 0xF0, 0x05, 0xFA, 0, 0, 0, 0, 0, 0, 0xF0, 0x0F, 2] :: u8 list"
  have "command 0xF00F ?c" "frame_word ?c 2 = 0xFA05" "frame_word ?c 4 = 13" by code_simp+
  moreover have "sum_list ?x = 0xFF" "frame_word ?x 0 = 0xF00F" "frame_word ?x 2 = 0xFA05" "frame_word ?x 10 = 4080" by code_simp+
  ultimately show ?thesis
    using efpg_data_frame_overflow[of "blank_priv \<lparr>inbox = [?c, ?x, replicate 542 0], outbox = []\<rparr>" ?c ?x "replicate 542 0" "[]"
        "0xF00F" "fuse_regs (\<lambda>_. True)" "\<lambda>_. []" "\<lambda>_. 0"]
    by (simp add: idle_def blank_priv_def)
qed

end
