(* ===== verification/ListHead.thy ===== *)
theory ListHead
  imports Prelude
begin

text \<open>
  The circular doubly linked lists of \<^verbatim>\<open>include/sys/list.h\<close>, which the framework's publisher and containers
  keep their nodes in.  Nodes are addresses; a store maps each to its two pointers, and the operations assign
  them in the order of the source.  \<open>dlist\<close> relates a store to the list of nodes behind a head.
\<close>

section \<open>The store and the operations\<close>

type_synonym addr = nat

record links =
  lnext :: "addr \<Rightarrow> addr"
  lprev :: "addr \<Rightarrow> addr"

definition set_next :: "addr \<Rightarrow> addr \<Rightarrow> links \<Rightarrow> links" where
  "set_next a b h = h\<lparr>lnext := (lnext h)(a := b)\<rparr>"

definition set_prev :: "addr \<Rightarrow> addr \<Rightarrow> links \<Rightarrow> links" where
  "set_prev a b h = h\<lparr>lprev := (lprev h)(a := b)\<rparr>"

definition INIT_LIST_HEAD :: "addr \<Rightarrow> links \<Rightarrow> links" where
  "INIT_LIST_HEAD a h = set_prev a a (set_next a a h)"

definition list_add_between :: "addr \<Rightarrow> addr \<Rightarrow> addr \<Rightarrow> links \<Rightarrow> links" where
  "list_add_between newl p n h = set_next p newl (set_prev newl p (set_next newl n (set_prev n newl h)))"

definition list_add :: "addr \<Rightarrow> addr \<Rightarrow> links \<Rightarrow> links" where
  "list_add newl head h = list_add_between newl head (lnext h head) h"

definition list_add_tail :: "addr \<Rightarrow> addr \<Rightarrow> links \<Rightarrow> links" where
  "list_add_tail newl head h = list_add_between newl (lprev h head) head h"

definition list_del_between :: "addr \<Rightarrow> addr \<Rightarrow> links \<Rightarrow> links" where
  "list_del_between p n h = set_next p n (set_prev n p h)"

definition list_del_entry :: "addr \<Rightarrow> links \<Rightarrow> links" where
  "list_del_entry a h = list_del_between (lprev h a) (lnext h a) h"

definition list_del :: "addr \<Rightarrow> links \<Rightarrow> links" where
  "list_del a h = set_prev a a (set_next a a (list_del_entry a h))"

definition list_del_init :: "addr \<Rightarrow> links \<Rightarrow> links" where
  "list_del_init a h = INIT_LIST_HEAD a (list_del_entry a h)"

definition list_replace :: "addr \<Rightarrow> addr \<Rightarrow> links \<Rightarrow> links" where
  "list_replace old newl h =
     (let h = set_next newl (lnext h old) h;
          h = set_prev (lnext h newl) newl h;
          h = set_prev newl (lprev h old) h
      in set_next (lprev h newl) newl h)"

definition list_replace_init :: "addr \<Rightarrow> addr \<Rightarrow> links \<Rightarrow> links" where
  "list_replace_init old newl h = INIT_LIST_HEAD old (list_replace old newl h)"

definition list_move :: "addr \<Rightarrow> addr \<Rightarrow> links \<Rightarrow> links" where
  "list_move a head h = list_add a head (list_del_entry a h)"

definition list_move_tail :: "addr \<Rightarrow> addr \<Rightarrow> links \<Rightarrow> links" where
  "list_move_tail a head h = list_add_tail a head (list_del_entry a h)"

definition list_is_last :: "addr \<Rightarrow> addr \<Rightarrow> links \<Rightarrow> bool" where
  "list_is_last a head h \<longleftrightarrow> lnext h a = head"

definition list_empty :: "addr \<Rightarrow> links \<Rightarrow> bool" where
  "list_empty head h \<longleftrightarrow> lnext h head = head"

definition list_empty_careful :: "addr \<Rightarrow> links \<Rightarrow> bool" where
  "list_empty_careful head h \<longleftrightarrow> (let n = lnext h head in n = head \<and> n = lprev h head)"

definition list_rotate_left :: "addr \<Rightarrow> links \<Rightarrow> links" where
  "list_rotate_left head h = (if \<not> list_empty head h then list_move_tail (lnext h head) head h else h)"

definition list_is_singular :: "addr \<Rightarrow> links \<Rightarrow> bool" where
  "list_is_singular head h \<longleftrightarrow> \<not> list_empty head h \<and> lnext h head = lprev h head"

definition list_cut :: "addr \<Rightarrow> addr \<Rightarrow> addr \<Rightarrow> links \<Rightarrow> links" where
  "list_cut l head entry h =
     (let new_first = lnext h entry;
          h = set_next l (lnext h head) h;
          h = set_prev (lnext h l) l h;
          h = set_prev l entry h;
          h = set_next entry l h;
          h = set_next head new_first h
      in set_prev new_first head h)"

definition list_cut_position :: "addr \<Rightarrow> addr \<Rightarrow> addr \<Rightarrow> links \<Rightarrow> links" where
  "list_cut_position l head entry h =
     (if list_empty head h then h
      else if list_is_singular head h \<and> lnext h head \<noteq> entry \<and> head \<noteq> entry then h
      else if entry = head then INIT_LIST_HEAD l h
      else list_cut l head entry h)"

definition list_splice_between :: "addr \<Rightarrow> addr \<Rightarrow> addr \<Rightarrow> links \<Rightarrow> links" where
  "list_splice_between l p n h =
     (let first = lnext h l; last = lprev h l
      in set_prev n last (set_next last n (set_next p first (set_prev first p h))))"

definition list_splice :: "addr \<Rightarrow> addr \<Rightarrow> links \<Rightarrow> links" where
  "list_splice l head h = (if \<not> list_empty l h then list_splice_between l head (lnext h head) h else h)"

definition list_splice_tail :: "addr \<Rightarrow> addr \<Rightarrow> links \<Rightarrow> links" where
  "list_splice_tail l head h = (if \<not> list_empty l h then list_splice_between l (lprev h head) head h else h)"

definition list_splice_init :: "addr \<Rightarrow> addr \<Rightarrow> links \<Rightarrow> links" where
  "list_splice_init l head h =
     (if \<not> list_empty l h then INIT_LIST_HEAD l (list_splice_between l head (lnext h head) h) else h)"

definition list_splice_tail_init :: "addr \<Rightarrow> addr \<Rightarrow> links \<Rightarrow> links" where
  "list_splice_tail_init l head h =
     (if \<not> list_empty l h then INIT_LIST_HEAD l (list_splice_between l (lprev h head) head h) else h)"

text \<open>\<open>list_first_entry_or_null\<close>.\<close>

definition list_first :: "addr \<Rightarrow> links \<Rightarrow> addr option" where
  "list_first head h = (if \<not> list_empty head h then Some (lnext h head) else None)"

section \<open>Lists behind a head\<close>

fun chain :: "links \<Rightarrow> addr list \<Rightarrow> bool" where
  "chain h (x # y # zs) \<longleftrightarrow> lnext h x = y \<and> lprev h y = x \<and> chain h (y # zs)"
| "chain h _ \<longleftrightarrow> True"

definition dlist :: "links \<Rightarrow> addr \<Rightarrow> addr list \<Rightarrow> bool" where
  "dlist h head xs \<longleftrightarrow> distinct (head # xs) \<and> chain h (head # xs @ [head])"

lemma chain_append: "chain h (xs @ x # ys) \<longleftrightarrow> chain h (xs @ [x]) \<and> chain h (x # ys)"
  by (induction h xs rule: chain.induct) auto

lemma chain_cong:
  "(\<And>x. x \<in> set (butlast zs) \<Longrightarrow> lnext h' x = lnext h x) \<Longrightarrow> (\<And>x. x \<in> set (tl zs) \<Longrightarrow> lprev h' x = lprev h x)
    \<Longrightarrow> chain h' zs = chain h zs"
  by (induction h zs rule: chain.induct) auto

lemma dlist_cong:
  assumes "\<And>x. x \<in> insert head (set xs) \<Longrightarrow> lnext h' x = lnext h x \<and> lprev h' x = lprev h x"
  shows "dlist h' head xs = dlist h head xs"
proof -
  have "chain h' (head # xs @ [head]) = chain h (head # xs @ [head])"
    by (rule chain_cong) (use assms in \<open>auto dest: in_set_butlastD\<close>)
  then show ?thesis by (simp add: dlist_def)
qed

text \<open>The neighbours of a position.\<close>

lemma dlist_between:
  assumes "dlist h head (xs @ ys)"
  shows "lnext h (last (head # xs)) = hd (ys @ [head])" "lprev h (hd (ys @ [head])) = last (head # xs)"
proof -
  obtain A p where A: "head # xs = A @ [p]" by (metis rev_exhaust list.distinct(1))
  obtain n B where B: "ys @ [head] = n # B" by (cases "ys @ [head]") auto
  have "head # (xs @ ys) @ [head] = A @ p # n # B" using A B by simp
  then have "chain h (p # n # B)" using assms chain_append[of h A p "n # B"] by (simp add: dlist_def)
  then show "lnext h (last (head # xs)) = hd (ys @ [head])" "lprev h (hd (ys @ [head])) = last (head # xs)"
    unfolding A B by simp_all
qed

lemma dlist_next: "dlist h head (xs @ x # ys) \<Longrightarrow> lnext h x = hd (ys @ [head])"
  using dlist_between(1)[of h head "xs @ [x]" ys] by simp

lemma dlist_first: "dlist h head xs \<Longrightarrow> lnext h head = hd (xs @ [head])"
  using dlist_between(1)[of h head "[]" xs] by simp

lemma dlist_last: "dlist h head xs \<Longrightarrow> lprev h head = last (head # xs)"
  using dlist_between(2)[of h head xs "[]"] by simp

lemma dlist_empty: "dlist h head xs \<Longrightarrow> list_empty head h \<longleftrightarrow> xs = []"
  using dlist_first[of h head xs] by (cases xs) (auto simp: list_empty_def dlist_def)

lemma list_first_dlist: "dlist h head xs \<Longrightarrow> list_first head h = (case xs of [] \<Rightarrow> None | x # _ \<Rightarrow> Some x)"
  using dlist_empty[of h head xs] dlist_first[of h head xs] by (auto simp: list_first_def split: list.splits)

section \<open>What the operations do to the lists\<close>

lemma link_select [simp]:
  "lnext (set_next a b h) = (lnext h)(a := b)" "lprev (set_next a b h) = lprev h"
  "lprev (set_prev a b h) = (lprev h)(a := b)" "lnext (set_prev a b h) = lnext h"
  by (simp_all add: set_next_def set_prev_def)

lemma INIT_dlist: "dlist (INIT_LIST_HEAD a h) a []"
  by (simp add: dlist_def INIT_LIST_HEAD_def)

lemma add_between_dlist:
  assumes "dlist h head (xs @ ys)" "newl \<notin> insert head (set (xs @ ys))"
  shows "dlist (list_add_between newl (last (head # xs)) (hd (ys @ [head])) h) head (xs @ newl # ys)"
    (is "dlist ?h _ _")
proof -
  obtain A p where A: "head # xs = A @ [p]" by (metis rev_exhaust list.distinct(1))
  obtain n B where B: "ys @ [head] = n # B" by (cases "ys @ [head]") auto
  have eq: "head # (xs @ ys) @ [head] = A @ p # n # B" "head # (xs @ newl # ys) @ [head] = A @ p # newl # n # B" using A B by simp_all
  have d: "distinct (head # xs @ ys)" using assms(1) by (simp add: dlist_def)
  have "A @ [p] @ butlast (n # B) = head # xs @ ys" using A B by (metis append_assoc append_Cons append_Nil butlast_snoc)
  then have d1: "distinct (A @ [p] @ butlast (n # B))" using d by simp
  have "tl (A @ [p]) @ n # B = xs @ ys @ [head]" using A B by (metis list.sel(3))
  then have d2: "distinct (tl (A @ [p]) @ n # B)" using d by auto
  have new: "newl \<notin> set (A @ [p])" "newl \<notin> set (n # B)" using assms(2) A B by (metis Un_iff insert_iff list.simps(15) set_append) (metis Un_iff insert_iff list.simps(15) set_append B assms(2) empty_iff empty_set)
  have "chain h (A @ p # n # B)" using assms(1) unfolding dlist_def eq by simp
  then have "chain h (A @ [p])" "chain h (n # B)" using chain_append[of h A p "n # B"] by simp_all
  moreover have "newl \<notin> set (tl (A @ [p]))" using new(1) by (cases A) auto
  then have "chain ?h (A @ [p]) = chain h (A @ [p])"
    unfolding A B by (intro chain_cong) (use d1 d2 new in \<open>auto simp: list_add_between_def\<close>)
  moreover have "chain ?h (n # B) = chain h (n # B)"
    unfolding A B by (rule chain_cong) (use d1 d2 new in \<open>auto simp: list_add_between_def dest: in_set_butlastD split: if_splits\<close>)
  moreover have "chain ?h [p, newl, n]" using new unfolding A B by (auto simp: list_add_between_def)
  ultimately have "chain ?h (A @ p # newl # n # B)"
    using chain_append[of ?h A p "newl # n # B"] chain_append[of ?h "[p, newl]" n B] by simp
  then show ?thesis using assms d unfolding dlist_def eq by auto
qed

lemma list_add_dlist:
  assumes "dlist h head xs" "newl \<notin> insert head (set xs)"
  shows "dlist (list_add newl head h) head (newl # xs)"
  using add_between_dlist[of h head "[]" xs newl] assms dlist_first[OF assms(1)] by (simp add: list_add_def)

lemma list_add_tail_dlist:
  assumes "dlist h head xs" "newl \<notin> insert head (set xs)"
  shows "dlist (list_add_tail newl head h) head (xs @ [newl])"
  using add_between_dlist[of h head xs "[]" newl] assms dlist_last[OF assms(1)] by (simp add: list_add_tail_def)

text \<open>Adding in front of a node.\<close>

lemma list_add_before_dlist:
  assumes "dlist h head (xs @ ys)" "newl \<notin> insert head (set (xs @ ys))" "p = last (head # xs)"
  shows "dlist (list_add newl p h) head (xs @ newl # ys)"
  using add_between_dlist[OF assms(1,2)] dlist_between(1)[OF assms(1)] assms(3) by (simp add: list_add_def)

lemma del_between_dlist:
  assumes "dlist h head (xs @ x # ys)"
  shows "dlist (list_del_between (last (head # xs)) (hd (ys @ [head])) h) head (xs @ ys)" (is "dlist ?h _ _")
proof -
  obtain A p where A: "head # xs = A @ [p]" by (metis rev_exhaust list.distinct(1))
  obtain n B where B: "ys @ [head] = n # B" by (cases "ys @ [head]") auto
  have eq: "head # (xs @ x # ys) @ [head] = A @ p # x # n # B" "head # (xs @ ys) @ [head] = A @ p # n # B" using A B by simp_all
  have d: "distinct (head # xs @ x # ys)" using assms(1) by (simp add: dlist_def)
  have "A @ [p] @ butlast (n # B) = head # xs @ ys" using A B by (metis append_assoc append_Cons append_Nil butlast_snoc)
  then have d1: "distinct (A @ [p] @ butlast (n # B))" using d by simp
  have "tl (A @ [p]) @ n # B = xs @ ys @ [head]" using A B by (metis list.sel(3))
  then have d2: "distinct (tl (A @ [p]) @ n # B)" using d by auto
  have "chain h (A @ p # x # n # B)" using assms(1) unfolding dlist_def eq by simp
  then have "chain h (A @ [p])" "chain h (n # B)" using chain_append[of h A p "x # n # B"] by simp_all
  moreover have "chain ?h (A @ [p]) = chain h (A @ [p])"
    unfolding A B by (intro chain_cong) (use d1 d2 in \<open>auto simp: list_del_between_def\<close>)
  moreover have "chain ?h (n # B) = chain h (n # B)"
    unfolding A B by (rule chain_cong) (use d1 d2 in \<open>auto simp: list_del_between_def dest: in_set_butlastD split: if_splits\<close>)
  moreover have "chain ?h [p, n]" unfolding A B by (simp add: list_del_between_def)
  ultimately have "chain ?h (A @ p # n # B)"
    using chain_append[of ?h A p "n # B"] by simp
  then show ?thesis using d unfolding dlist_def eq by auto
qed

lemma list_del_dlist:
  assumes "dlist h head (xs @ x # ys)"
  shows "dlist (list_del x h) head (xs @ ys)" "list_empty x (list_del x h)"
proof -
  have "lprev h x = last (head # xs)" "lnext h x = hd (ys @ [head])"
    using dlist_between(2)[OF assms] dlist_next[OF assms] by simp_all
  then have "list_del_entry x h = list_del_between (last (head # xs)) (hd (ys @ [head])) h" by (simp only: list_del_entry_def)
  then have "dlist (list_del_entry x h) head (xs @ ys)" using del_between_dlist[OF assms] by (simp only:)
  moreover have "x \<notin> insert head (set (xs @ ys))" using assms by (auto simp: dlist_def)
  then have "dlist (list_del x h) head (xs @ ys) = dlist (list_del_entry x h) head (xs @ ys)"
    by (intro dlist_cong) (auto simp: list_del_def)
  ultimately show "dlist (list_del x h) head (xs @ ys)" by simp
  show "list_empty x (list_del x h)" by (simp add: list_empty_def list_del_def)
qed

text \<open>What an operation on one list leaves alone.\<close>

lemma list_add_frame:
  assumes "dlist h head xs" "a \<notin> insert newl (insert head (set xs))"
  shows "lnext (list_add_tail newl head h) a = lnext h a" "lprev (list_add_tail newl head h) a = lprev h a"
    "lnext (list_add newl head h) a = lnext h a" "lprev (list_add newl head h) a = lprev h a"
proof -
  have "last (head # xs) \<in> insert head (set xs)" "hd (xs @ [head]) \<in> insert head (set xs)" by (cases xs; simp)+
  then show "lnext (list_add_tail newl head h) a = lnext h a" "lprev (list_add_tail newl head h) a = lprev h a"
    "lnext (list_add newl head h) a = lnext h a" "lprev (list_add newl head h) a = lprev h a"
    using assms(2) dlist_last[OF assms(1)] dlist_first[OF assms(1)]
    by (auto simp: list_add_tail_def list_add_def list_add_between_def)
qed

lemma list_del_frame:
  assumes "dlist h head xs" "x \<in> set xs" "a \<notin> insert head (set xs)"
  shows "lnext (list_del x h) a = lnext h a" "lprev (list_del x h) a = lprev h a"
proof -
  obtain us vs where xs: "xs = us @ x # vs" using assms(2) by (meson split_list)
  have "last (head # us) \<in> insert head (set us)" "hd (vs @ [head]) \<in> insert head (set vs)" by (cases us; cases vs; simp)+
  then show "lnext (list_del x h) a = lnext h a" "lprev (list_del x h) a = lprev h a"
    using assms(3) dlist_between(2)[of h head us "x # vs"] dlist_next[of h head us x vs] assms(1) xs
    by (auto simp: list_del_def list_del_entry_def list_del_between_def)
qed

end
