(* ===== verification/Publisher.thy ===== *)
theory Publisher
  imports ListHead
begin

text \<open>
  Observers and publishers, \<^verbatim>\<open>project/common/framework/sys_ctrl/observer.c\<close> and \<^verbatim>\<open>publisher.c\<close>: a publisher
  keeps the observers attached to it in a list, and notifying an event triggers those that it matches.  The
  callbacks, which may attach and detach observers themselves (the lock is recursive), are a parameter; the
  time measured around them is only printed.
\<close>

section \<open>Observers\<close>

datatype observer_state = OBSERVER_ILDE | OBSERVER_ATTACHED | OBSERVER_ATTACHED_ONCE | OBSERVER_DETACHED | OBSERVER_WORKING

datatype publisher_state = PUBLISHER_IDLE | PUBLISHER_WORKING

text \<open>The functions \<open>trigger\<close> can point to; \<open>Client\<close> is one of a structure that extends the base.\<close>

datatype trigger_fn = event_trigger | trigger_callback | trigger_thread | Client

text \<open>\<open>observer_base\<close> with the parts its extensions have: the binary semaphore of an event observer, and the
  arguments and the validity of the thread of a thread observer.\<close>

record observer =
  ob_event :: u32
  ob_state :: observer_state
  ob_arg :: u32
  ob_trigger :: trigger_fn
  ob_sem :: bool
  ob_thd_event :: u32
  ob_thd_arg :: u32
  ob_thd :: bool

record 'c pub_sys =
  pb_links :: links
  pb_state :: publisher_state
  pb_obs :: "addr \<Rightarrow> observer"
  pb_env :: 'c

text \<open>The clients: callbacks (of callback observers and of extensions), thread creation, what a thread observer
  does when that fails, and the comparison of the publisher (0: the observer eyes on the event).\<close>

record 'c clients =
  cl_callback :: "addr \<Rightarrow> u32 \<Rightarrow> u32 \<Rightarrow> 'c pub_sys \<Rightarrow> 'c pub_sys"
  cl_thread :: "addr \<Rightarrow> 'c pub_sys \<Rightarrow> bool \<times> 'c pub_sys"
  cl_exception :: "addr \<Rightarrow> 'c pub_sys \<Rightarrow> 'c pub_sys"
  cl_compare :: "u32 \<Rightarrow> u32 \<Rightarrow> int"

definition set_obs :: "addr \<Rightarrow> (observer \<Rightarrow> observer) \<Rightarrow> 'c pub_sys \<Rightarrow> 'c pub_sys" where
  "set_obs a f s = s\<lparr>pb_obs := (pb_obs s)(a := f (pb_obs s a))\<rparr>"

definition state_of :: "'c pub_sys \<Rightarrow> addr \<Rightarrow> observer_state" where
  "state_of s a = ob_state (pb_obs s a)"

definition set_state :: "addr \<Rightarrow> observer_state \<Rightarrow> 'c pub_sys \<Rightarrow> 'c pub_sys" where
  "set_state a st s = set_obs a (\<lambda>ob. ob\<lparr>ob_state := st\<rparr>) s"

definition upd_links :: "(links \<Rightarrow> links) \<Rightarrow> 'c pub_sys \<Rightarrow> 'c pub_sys" where
  "upd_links f s = s\<lparr>pb_links := f (pb_links s)\<rparr>"

text \<open>Initialising: the state is left as it is in memory, which the \<open>_create\<close> functions have cleared.\<close>

definition observer_init :: "addr \<Rightarrow> u32 \<Rightarrow> trigger_fn \<Rightarrow> u32 \<Rightarrow> 'c pub_sys \<Rightarrow> int \<times> 'c pub_sys" where
  "observer_init a event trigger arg s =
     (0, upd_links (INIT_LIST_HEAD a) (set_obs a (\<lambda>ob. ob\<lparr>ob_event := event, ob_trigger := trigger, ob_arg := arg\<rparr>) s))"

definition event_observer_init :: "bool \<Rightarrow> addr \<Rightarrow> u32 \<Rightarrow> 'c pub_sys \<Rightarrow> int \<times> 'c pub_sys" where
  "event_observer_init sem_ok a event s =
     (if sem_ok then 0 else -1, set_obs a (\<lambda>ob. ob\<lparr>ob_sem := False\<rparr>)
           (upd_links (INIT_LIST_HEAD a) (set_obs a (\<lambda>ob. ob\<lparr>ob_event := event, ob_trigger := event_trigger\<rparr>) s)))"

definition callback_observer_init :: "addr \<Rightarrow> u32 \<Rightarrow> u32 \<Rightarrow> 'c pub_sys \<Rightarrow> int \<times> 'c pub_sys" where
  "callback_observer_init a event arg s = observer_init a event trigger_callback arg s"

definition thread_observer_init :: "addr \<Rightarrow> u32 \<Rightarrow> u32 \<Rightarrow> 'c pub_sys \<Rightarrow> int \<times> 'c pub_sys" where
  "thread_observer_init a event arg s = observer_init a event trigger_thread arg s"

definition cleared :: observer where
  "cleared = \<lparr>ob_event = 0, ob_state = OBSERVER_ILDE, ob_arg = 0, ob_trigger = Client, ob_sem = False, ob_thd_event = 0,
     ob_thd_arg = 0, ob_thd = False\<rparr>"

text \<open>The \<open>_create\<close> functions: \<open>mem\<close> is what \<open>malloc\<close> returns.\<close>

definition create_with :: "(addr \<Rightarrow> 'c pub_sys \<Rightarrow> int \<times> 'c pub_sys) \<Rightarrow> addr option \<Rightarrow> 'c pub_sys \<Rightarrow> addr option \<times> 'c pub_sys" where
  "create_with init mem s =
     (case mem of None \<Rightarrow> (None, s) | Some a \<Rightarrow> (Some a, snd (init a (set_obs a (\<lambda>_. cleared) s))))"

definition observer_create :: "addr option \<Rightarrow> u32 \<Rightarrow> trigger_fn \<Rightarrow> u32 \<Rightarrow> 'c pub_sys \<Rightarrow> addr option \<times> 'c pub_sys" where
  "observer_create mem event trigger arg = create_with (\<lambda>a. observer_init a event trigger arg) mem"

definition event_observer_create :: "bool \<Rightarrow> addr option \<Rightarrow> u32 \<Rightarrow> 'c pub_sys \<Rightarrow> addr option \<times> 'c pub_sys" where
  "event_observer_create sem_ok mem event = create_with (\<lambda>a. event_observer_init sem_ok a event) mem"

definition callback_observer_create :: "addr option \<Rightarrow> u32 \<Rightarrow> u32 \<Rightarrow> 'c pub_sys \<Rightarrow> addr option \<times> 'c pub_sys" where
  "callback_observer_create mem event arg = create_with (\<lambda>a. callback_observer_init a event arg) mem"

definition thread_observer_create :: "addr option \<Rightarrow> u32 \<Rightarrow> u32 \<Rightarrow> 'c pub_sys \<Rightarrow> addr option \<times> 'c pub_sys" where
  "thread_observer_create mem event arg = create_with (\<lambda>a. thread_observer_init a event arg) mem"

text \<open>Only an observer that is idle can be destroyed; the second part says whether it was freed.\<close>

definition observer_destroy :: "addr option \<Rightarrow> 'c pub_sys \<Rightarrow> int \<times> bool" where
  "observer_destroy base s =
     (case base of None \<Rightarrow> (-1, False) | Some a \<Rightarrow> if state_of s a \<noteq> OBSERVER_ILDE then (-1, False) else (0, True))"

text \<open>Triggering.\<close>

definition trigger :: "'c clients \<Rightarrow> addr \<Rightarrow> u32 \<Rightarrow> u32 \<Rightarrow> 'c pub_sys \<Rightarrow> 'c pub_sys" where
  "trigger cl a event arg s =
     (case ob_trigger (pb_obs s a) of
        event_trigger \<Rightarrow> set_obs a (\<lambda>ob. ob\<lparr>ob_sem := True\<rparr>) s
      | trigger_thread \<Rightarrow>
          let s = set_obs a (\<lambda>ob. ob\<lparr>ob_thd_event := event, ob_thd_arg := arg\<rparr>) s in
          if ob_thd (pb_obs s a) then s
          else (case cl_thread cl a s of (ok, s) \<Rightarrow>
            if ok then set_obs a (\<lambda>ob. ob\<lparr>ob_thd := True\<rparr>) s else cl_exception cl a s)
      | _ \<Rightarrow> cl_callback cl a event arg s)"

text \<open>Waiting for an event observer (\<open>others\<close>: what happens until the timeout), and the thread of a thread
  observer: it runs with the event and the data of the moment and marks itself as ended.\<close>

definition event_wait :: "('c pub_sys \<Rightarrow> 'c pub_sys) \<Rightarrow> addr \<Rightarrow> 'c pub_sys \<Rightarrow> int \<times> 'c pub_sys" where
  "event_wait others a s =
     (let s = (if ob_sem (pb_obs s a) then s else others s) in
      if ob_sem (pb_obs s a) then (0, set_obs a (\<lambda>ob. ob\<lparr>ob_sem := False\<rparr>) s) else (-4, s))"

definition wrap_thread :: "(addr \<Rightarrow> u32 \<Rightarrow> u32 \<Rightarrow> 'c pub_sys \<Rightarrow> 'c pub_sys) \<Rightarrow> addr \<Rightarrow> 'c pub_sys \<Rightarrow> 'c pub_sys" where
  "wrap_thread run a s =
     set_obs a (\<lambda>ob. ob\<lparr>ob_thd := False\<rparr>) (run a (ob_thd_event (pb_obs s a)) (ob_thd_arg (pb_obs s a)) s)"

text \<open>An event observer hears of an event whether it waits before it or after it, but two events in a row are one.\<close>

lemma event_wait_triggered:
  "ob_trigger (pb_obs s a) = event_trigger \<Longrightarrow> event_wait others a (trigger cl a event arg s) = (0, set_obs a (\<lambda>ob. ob\<lparr>ob_sem := False\<rparr>) s)"
  "ob_trigger (pb_obs s a) = event_trigger \<Longrightarrow> trigger cl a event arg (trigger cl a event' arg' s) = trigger cl a event arg s"
  by (simp_all add: event_wait_def trigger_def set_obs_def Let_def)

section \<open>Attaching and detaching\<close>

definition attach_state :: "bool \<Rightarrow> observer_state" where
  "attach_state once = (if once then OBSERVER_ATTACHED_ONCE else OBSERVER_ATTACHED)"

definition attach_obs :: "addr \<Rightarrow> addr \<Rightarrow> bool \<Rightarrow> 'c pub_sys \<Rightarrow> int \<times> 'c pub_sys" where
  "attach_obs head a once s =
     (if state_of s a = OBSERVER_DETACHED then (0, set_state a (attach_state once) s)
      else if list_empty a (pb_links s) then (0, set_state a (attach_state once) (upd_links (list_add_tail a head) s))
      else (-1, s))"

definition attach_once :: "addr \<Rightarrow> addr \<Rightarrow> 'c pub_sys \<Rightarrow> int \<times> 'c pub_sys" where
  "attach_once head a s = attach_obs head a True s"

definition attach :: "addr \<Rightarrow> addr \<Rightarrow> 'c pub_sys \<Rightarrow> int \<times> 'c pub_sys" where
  "attach head a s = attach_obs head a False s"

definition detach :: "addr \<Rightarrow> 'c pub_sys \<Rightarrow> int \<times> 'c pub_sys" where
  "detach a s =
     (0, if pb_state s = PUBLISHER_IDLE then set_state a OBSERVER_ILDE (upd_links (list_del a) s)
         else set_state a OBSERVER_DETACHED s)"

section \<open>Notifying\<close>

definition eyes_on :: "'c clients \<Rightarrow> u32 \<Rightarrow> addr \<Rightarrow> 'c pub_sys \<Rightarrow> bool" where
  "eyes_on cl event a s \<longleftrightarrow> cl_compare cl event (ob_event (pb_obs s a)) = 0
     \<and> (state_of s a = OBSERVER_ATTACHED \<or> state_of s a = OBSERVER_ATTACHED_ONCE)"

text \<open>One observer in the first loop: triggered, and marked when it was attached once.\<close>

definition notify_one :: "'c clients \<Rightarrow> u32 \<Rightarrow> u32 \<Rightarrow> addr \<Rightarrow> 'c pub_sys \<Rightarrow> 'c pub_sys" where
  "notify_one cl event arg a s =
     (let s = trigger cl a event arg s in
      if state_of s a = OBSERVER_ATTACHED_ONCE then set_state a OBSERVER_DETACHED s else s)"

partial_function (option) notify_loop ::
  "'c clients \<Rightarrow> addr \<Rightarrow> u32 \<Rightarrow> u32 \<Rightarrow> addr \<Rightarrow> int \<Rightarrow> 'c pub_sys \<Rightarrow> (int \<times> 'c pub_sys) option" where
  "notify_loop cl head event arg itor cnt s =
     (if itor = head then Some (cnt, s)
      else if eyes_on cl event itor s
           then let s = notify_one cl event arg itor s in notify_loop cl head event arg (lnext (pb_links s) itor) (cnt + 1) s
           else notify_loop cl head event arg (lnext (pb_links s) itor) cnt s)"

definition sweep_one :: "addr \<Rightarrow> 'c pub_sys \<Rightarrow> 'c pub_sys" where
  "sweep_one a s =
     (if state_of s a = OBSERVER_DETACHED then set_state a OBSERVER_ILDE (upd_links (list_del a) s) else s)"

partial_function (option) sweep_loop :: "addr \<Rightarrow> addr \<Rightarrow> addr \<Rightarrow> 'c pub_sys \<Rightarrow> 'c pub_sys option" where
  "sweep_loop head itor safe s =
     (if itor = head then Some s
      else let s = sweep_one itor s in sweep_loop head safe (lnext (pb_links s) safe) s)"

text \<open>The number of observers triggered is what is returned (0 when there was none).\<close>

definition notify :: "'c clients \<Rightarrow> addr \<Rightarrow> u32 \<Rightarrow> u32 \<Rightarrow> 'c pub_sys \<Rightarrow> (int \<times> 'c pub_sys) option" where
  "notify cl head event arg s = do {
     let s = s\<lparr>pb_state := PUBLISHER_WORKING\<rparr>;
     (cnt, s) \<leftarrow> notify_loop cl head event arg (lnext (pb_links s) head) 0 s;
     s \<leftarrow> (let first = lnext (pb_links s) head in sweep_loop head first (lnext (pb_links s) first) s);
     Some (cnt, s\<lparr>pb_state := PUBLISHER_IDLE\<rparr>)
   }"

section \<open>The pointer loops and the list\<close>

lemma upd_select [simp]:
  "pb_links (set_obs a f s) = pb_links s" "pb_state (set_obs a f s) = pb_state s" "pb_env (set_obs a f s) = pb_env s"
  "pb_links (set_state a st s) = pb_links s" "pb_state (set_state a st s) = pb_state s" "pb_env (set_state a st s) = pb_env s"
  "pb_links (upd_links g s) = g (pb_links s)" "pb_state (upd_links g s) = pb_state s" "pb_env (upd_links g s) = pb_env s"
  "pb_obs (upd_links g s) = pb_obs s" "state_of (upd_links g s) = state_of s"
  by (simp_all add: set_obs_def set_state_def upd_links_def state_of_def fun_eq_iff)

lemma state_of_set [simp]: "state_of (set_state a st s) b = (if b = a then st else state_of s b)"
  by (simp add: state_of_def set_state_def set_obs_def)

lemma event_of_set [simp]: "ob_event (pb_obs (set_state a st s) b) = ob_event (pb_obs s b)"
  "ob_trigger (pb_obs (set_state a st s) b) = ob_trigger (pb_obs s b)"
  by (simp_all add: set_state_def set_obs_def)

lemma state_of_pb [simp]: "state_of (s\<lparr>pb_state := st\<rparr>) = state_of s" "state_of (s\<lparr>pb_links := l\<rparr>) = state_of s"
  by (simp_all add: state_of_def fun_eq_iff)

text \<open>What the loops compute, by recursion over the list.\<close>

fun visit :: "'c clients \<Rightarrow> u32 \<Rightarrow> u32 \<Rightarrow> addr list \<Rightarrow> int \<Rightarrow> 'c pub_sys \<Rightarrow> int \<times> 'c pub_sys" where
  "visit cl event arg [] cnt s = (cnt, s)"
| "visit cl event arg (a # as) cnt s =
     (if eyes_on cl event a s then visit cl event arg as (cnt + 1) (notify_one cl event arg a s)
      else visit cl event arg as cnt s)"

text \<open>Callbacks that leave the list alone while the publisher is working: they may still detach observers,
  which only marks them then, and attach them again.\<close>

definition polite :: "'c clients \<Rightarrow> bool" where
  "polite cl \<longleftrightarrow> (\<forall>a event arg s. pb_state s = PUBLISHER_WORKING \<longrightarrow>
     pb_links (trigger cl a event arg s) = pb_links s \<and> pb_state (trigger cl a event arg s) = PUBLISHER_WORKING)"

lemma polite_one:
  assumes "polite cl" "pb_state s = PUBLISHER_WORKING"
  shows "pb_links (notify_one cl event arg a s) = pb_links s" "pb_state (notify_one cl event arg a s) = PUBLISHER_WORKING"
  using assms by (simp_all add: polite_def notify_one_def Let_def)

lemma visit_keeps:
  assumes "polite cl" "pb_state s = PUBLISHER_WORKING"
  shows "pb_links (snd (visit cl event arg as cnt s)) = pb_links s" "pb_state (snd (visit cl event arg as cnt s)) = PUBLISHER_WORKING"
  using assms by (induction cl event arg as cnt s rule: visit.induct) (simp_all add: polite_one)

lemma notify_loop_visit:
  assumes "polite cl" "pb_state s = PUBLISHER_WORKING" "dlist (pb_links s) head (xs @ ys)"
  shows "notify_loop cl head event arg (hd (ys @ [head])) cnt s = Some (visit cl event arg ys cnt s)"
  using assms(2,3)
proof (induction ys arbitrary: xs cnt s)
  case Nil
  then show ?case by (subst notify_loop.simps) simp
next
  case (Cons y ys)
  have y: "y \<noteq> head" "lnext (pb_links s) y = hd (ys @ [head])" using Cons.prems(2) dlist_next by (auto simp: dlist_def)
  have IH: "notify_loop cl head event arg (hd (ys @ [head])) n t = Some (visit cl event arg ys n t)"
    if "pb_links t = pb_links s" "pb_state t = PUBLISHER_WORKING" for n t
    using Cons.IH[of t "xs @ [y]" n] Cons.prems(2) that by simp
  show ?case
    by (subst notify_loop.simps) (use y IH Cons.prems(1) polite_one[OF assms(1) Cons.prems(1)] in \<open>simp add: Let_def\<close>)
qed

lemma sweep_one_dlist:
  assumes "dlist (pb_links s) head (xs @ y # ys)"
  shows "dlist (pb_links (sweep_one y s)) head (xs @ (if state_of s y = OBSERVER_DETACHED then [] else [y]) @ ys)"
  using assms list_del_dlist(1)[OF assms] by (simp add: sweep_one_def)

lemma sweep_loop_fold:
  assumes "dlist (pb_links s) head (xs @ ys)"
  shows "sweep_loop head (hd (ys @ [head])) (lnext (pb_links s) (hd (ys @ [head]))) s = Some (fold sweep_one ys s)"
  using assms
proof (induction ys arbitrary: xs s)
  case Nil
  then show ?case by (subst sweep_loop.simps) simp
next
  case (Cons y ys)
  let ?s = "sweep_one y s"
  have y: "y \<noteq> head" "lnext (pb_links s) y = hd (ys @ [head])" using Cons.prems dlist_next by (auto simp: dlist_def)
  have "sweep_loop head (hd (ys @ [head])) (lnext (pb_links ?s) (hd (ys @ [head]))) ?s = Some (fold sweep_one ys ?s)"
    using Cons.IH[of ?s "xs @ (if state_of s y = OBSERVER_DETACHED then [] else [y])"] sweep_one_dlist[OF Cons.prems] by simp
  then show ?case by (subst sweep_loop.simps) (use y in \<open>simp add: Let_def\<close>)
qed

lemma sweep_state [simp]:
  "state_of (sweep_one y s) a = (if a = y \<and> state_of s y = OBSERVER_DETACHED then OBSERVER_ILDE else state_of s a)"
  by (simp add: sweep_one_def)

lemma sweep_fold_state:
  "state_of (fold sweep_one ys s) a = (if a \<in> set ys \<and> state_of s a = OBSERVER_DETACHED then OBSERVER_ILDE else state_of s a)"
  by (induction ys arbitrary: s) auto

lemma sweep_fold_dlist:
  assumes "dlist (pb_links s) head (xs @ ys)"
  shows "dlist (pb_links (fold sweep_one ys s)) head (xs @ filter (\<lambda>a. state_of s a \<noteq> OBSERVER_DETACHED) ys)"
  using assms
proof (induction ys arbitrary: xs s)
  case (Cons y ys)
  have d: "distinct (y # ys)" using Cons.prems by (auto simp: dlist_def)
  then have "filter (\<lambda>a. state_of (sweep_one y s) a \<noteq> OBSERVER_DETACHED) ys = filter (\<lambda>a. state_of s a \<noteq> OBSERVER_DETACHED) ys"
    by (intro filter_cong) auto
  then show ?case
    using Cons.IH[of "sweep_one y s" "xs @ (if state_of s y = OBSERVER_DETACHED then [] else [y])"] sweep_one_dlist[OF Cons.prems]
    by (auto split: if_splits)
qed simp

lemma sweep_fold_env [simp]: "pb_env (fold sweep_one ys s) = pb_env s" "pb_state (fold sweep_one ys s) = pb_state s"
  by (induction ys arbitrary: s) (simp_all add: sweep_one_def)

lemma notify_ok:
  assumes "polite cl" "dlist (pb_links s) head xs" "visit cl event arg xs 0 (s\<lparr>pb_state := PUBLISHER_WORKING\<rparr>) = (cnt, t)"
  shows "notify cl head event arg s = Some (cnt, (fold sweep_one xs t)\<lparr>pb_state := PUBLISHER_IDLE\<rparr>)"
    and "dlist (pb_links (fold sweep_one xs t)) head (filter (\<lambda>a. state_of t a \<noteq> OBSERVER_DETACHED) xs)"
proof -
  let ?s = "s\<lparr>pb_state := PUBLISHER_WORKING\<rparr>"
  have d: "dlist (pb_links ?s) head ([] @ xs)" "pb_state ?s = PUBLISHER_WORKING" using assms(2) by simp_all
  have l: "notify_loop cl head event arg (lnext (pb_links ?s) head) 0 ?s = Some (cnt, t)"
    using notify_loop_visit[OF assms(1) d(2,1)] dlist_first[OF assms(2)] assms(3) by simp
  have t: "pb_links t = pb_links s" using visit_keeps(1)[OF assms(1) d(2), of event arg xs 0] assms(3) by simp
  then have dt: "dlist (pb_links t) head ([] @ xs)" using assms(2) by simp
  then have "sweep_loop head (lnext (pb_links t) head) (lnext (pb_links t) (lnext (pb_links t) head)) t = Some (fold sweep_one xs t)"
    using sweep_loop_fold[OF dt] dlist_first[of "pb_links t" head xs] by simp
  then show "notify cl head event arg s = Some (cnt, (fold sweep_one xs t)\<lparr>pb_state := PUBLISHER_IDLE\<rparr>)"
    using l by (simp add: notify_def Let_def)
  show "dlist (pb_links (fold sweep_one xs t)) head (filter (\<lambda>a. state_of t a \<noteq> OBSERVER_DETACHED) xs)"
    using sweep_fold_dlist[OF dt] by simp
qed

section \<open>Attaching and detaching, on the list\<close>

text \<open>An observer that is on no list, as initialising and detaching leave it.\<close>

definition alone :: "'c pub_sys \<Rightarrow> addr \<Rightarrow> bool" where
  "alone s a \<longleftrightarrow> lnext (pb_links s) a = a \<and> lprev (pb_links s) a = a"

lemma dlist_not_empty:
  assumes "dlist h head xs" "a \<in> set xs"
  shows "\<not> list_empty a h"
proof -
  obtain us vs where xs: "xs = us @ a # vs" using assms(2) by (meson split_list)
  have "lnext h a = hd (vs @ [head])" using assms(1) dlist_next unfolding xs by blast
  then show ?thesis using assms(1) xs by (cases vs) (auto simp: list_empty_def dlist_def)
qed

lemma attach_new:
  assumes "dlist (pb_links s) head xs" "a \<notin> insert head (set xs)" "alone s a" "state_of s a \<noteq> OBSERVER_DETACHED"
  shows "fst (attach_obs head a once s) = 0" "dlist (pb_links (snd (attach_obs head a once s))) head (xs @ [a])"
    "state_of (snd (attach_obs head a once s)) = (state_of s)(a := attach_state once)"
    "b \<notin> insert a (insert head (set xs)) \<Longrightarrow> alone (snd (attach_obs head a once s)) b = alone s b"
  using assms list_add_tail_dlist[OF assms(1,2)] list_add_frame(1,2)[OF assms(1), of b a]
  by (auto simp: attach_obs_def alone_def list_empty_def fun_eq_iff)

lemma attach_again:
  assumes "dlist (pb_links s) head xs" "a \<in> set xs" "state_of s a \<noteq> OBSERVER_DETACHED"
  shows "attach_obs head a once s = (-1, s)"
  using assms dlist_not_empty[OF assms(1,2)] by (simp add: attach_obs_def)

lemma list_del_alone: "alone (upd_links (list_del a) s) a"
  by (simp add: alone_def list_del_def)

lemma detach_idle:
  assumes "dlist (pb_links s) head xs" "a \<in> set xs" "pb_state s = PUBLISHER_IDLE"
  shows "fst (detach a s) = 0" "dlist (pb_links (snd (detach a s))) head (remove1 a xs)" "alone (snd (detach a s)) a"
    "state_of (snd (detach a s)) = (state_of s)(a := OBSERVER_ILDE)"
    "b \<notin> insert head (set xs) \<Longrightarrow> alone (snd (detach a s)) b = alone s b"
proof -
  obtain us vs where xs: "xs = us @ a # vs" "a \<notin> set us" using assms(2) by (meson split_list_first)
  have "remove1 a xs = us @ vs" using xs by (simp add: remove1_append)
  then show "fst (detach a s) = 0" "dlist (pb_links (snd (detach a s))) head (remove1 a xs)" "alone (snd (detach a s)) a"
    "state_of (snd (detach a s)) = (state_of s)(a := OBSERVER_ILDE)"
    using assms(1,3) list_del_dlist[of "pb_links s" head us a vs] list_del_alone[of a s] xs
    by (auto simp: detach_def alone_def fun_eq_iff)
  show "b \<notin> insert head (set xs) \<Longrightarrow> alone (snd (detach a s)) b = alone s b"
    using list_del_frame[OF assms(1,2), of b] assms(3) by (auto simp: detach_def alone_def)
qed

text \<open>A node that is on no list stays there while others are removed, and a removed one is on none.\<close>

lemma sweep_one_alone:
  assumes "dlist (pb_links s) head (xs @ y # ys)"
  shows "b \<notin> insert head (set (xs @ y # ys)) \<Longrightarrow> alone (sweep_one y s) b = alone s b"
    and "state_of s y = OBSERVER_DETACHED \<Longrightarrow> alone (sweep_one y s) y"
proof -
  show "b \<notin> insert head (set (xs @ y # ys)) \<Longrightarrow> alone (sweep_one y s) b = alone s b"
    using list_del_frame[OF assms, of y b] by (auto simp: sweep_one_def alone_def)
  show "state_of s y = OBSERVER_DETACHED \<Longrightarrow> alone (sweep_one y s) y"
    using list_del_alone[of y s] by (simp add: sweep_one_def alone_def)
qed

lemma sweep_fold_alone:
  assumes "dlist (pb_links s) head (xs @ ys)" "b \<noteq> head" "b \<notin> set xs"
    "if b \<in> set ys then state_of s b = OBSERVER_DETACHED else alone s b"
  shows "alone (fold sweep_one ys s) b"
  using assms
proof (induction ys arbitrary: xs s)
  case (Cons y ys)
  have d: "y \<notin> set ys" using Cons.prems(1) by (auto simp: dlist_def)
  have dl: "dlist (pb_links (sweep_one y s)) head ((xs @ (if state_of s y = OBSERVER_DETACHED then [] else [y])) @ ys)"
    using sweep_one_dlist[OF Cons.prems(1)] by simp
  note al = sweep_one_alone[OF Cons.prems(1)]
  consider (here) "b = y" | (there) "b \<noteq> y" "b \<in> set ys" | (off) "b \<noteq> y" "b \<notin> set ys" by blast
  then show ?case
  proof cases
    case here
    then show ?thesis using Cons.IH[OF dl] Cons.prems al(2) d by simp
  next
    case there
    then show ?thesis using Cons.IH[OF dl] Cons.prems by simp
  next
    case off
    then show ?thesis using Cons.IH[OF dl] Cons.prems al(1)[of b] by simp
  qed
qed simp

section \<open>Callbacks that leave the publisher alone\<close>

definition quiet :: "'c clients \<Rightarrow> bool" where
  "quiet cl \<longleftrightarrow> (\<forall>a event arg s. \<exists>v. cl_callback cl a event arg s = s\<lparr>pb_env := v\<rparr>)
     \<and> (\<forall>a s. \<exists>ok v. cl_thread cl a s = (ok, s\<lparr>pb_env := v\<rparr>)) \<and> (\<forall>a s. \<exists>v. cl_exception cl a s = s\<lparr>pb_env := v\<rparr>)"

lemma set_obs_other: "(\<And>ob. ob_state (f ob) = ob_state ob \<and> ob_event (f ob) = ob_event ob \<and> ob_trigger (f ob) = ob_trigger ob) \<Longrightarrow>
  state_of (set_obs a f s) = state_of s \<and> (\<forall>b. ob_event (pb_obs (set_obs a f s) b) = ob_event (pb_obs s b)
    \<and> ob_trigger (pb_obs (set_obs a f s) b) = ob_trigger (pb_obs s b))"
  by (auto simp: state_of_def set_obs_def fun_eq_iff)

lemma state_of_env [simp]: "state_of (s\<lparr>pb_env := v\<rparr>) = state_of s"
  by (simp add: state_of_def fun_eq_iff)

lemma quiet_trigger_cases:
  assumes "quiet cl"
  obtains (set) f :: "observer \<Rightarrow> observer" and v where "trigger cl a event arg s = (set_obs a f s)\<lparr>pb_env := v\<rparr>"
    "\<And>ob. ob_state (f ob) = ob_state ob \<and> ob_event (f ob) = ob_event ob \<and> ob_trigger (f ob) = ob_trigger ob"
proof -
  obtain v where v: "cl_callback cl a event arg s = s\<lparr>pb_env := v\<rparr>" using assms unfolding quiet_def by blast
  let ?g = "\<lambda>ob. ob\<lparr>ob_thd_event := event, ob_thd_arg := arg\<rparr>"
  let ?s = "set_obs a ?g s"
  obtain ok w where w: "cl_thread cl a ?s = (ok, ?s\<lparr>pb_env := w\<rparr>)" using assms unfolding quiet_def by blast
  obtain x where x: "cl_exception cl a (?s\<lparr>pb_env := w\<rparr>) = ?s\<lparr>pb_env := w, pb_env := x\<rparr>" using assms unfolding quiet_def by blast
  have id: "set_obs a (\<lambda>ob. ob) t = t" for t :: "'a pub_sys" by (simp add: set_obs_def)
  show ?thesis
  proof (cases "ob_trigger (pb_obs s a)")
    case event_trigger
    then show ?thesis using set[of "pb_env s" "\<lambda>ob. ob\<lparr>ob_sem := True\<rparr>"] by (simp add: trigger_def)
  next
    case trigger_callback
    then show ?thesis using set[of v "\<lambda>ob. ob"] v by (simp add: trigger_def id)
  next
    case Client
    then show ?thesis using set[of v "\<lambda>ob. ob"] v by (simp add: trigger_def id)
  next
    case trigger_thread
    have t: "trigger cl a event arg s = (if ob_thd (pb_obs ?s a) then ?s
        else if ok then set_obs a (\<lambda>ob. ob\<lparr>ob_thd := True\<rparr>) (?s\<lparr>pb_env := w\<rparr>) else ?s\<lparr>pb_env := x\<rparr>)"
      using trigger_thread w x by (simp add: trigger_def Let_def)
    have both: "set_obs a (\<lambda>ob. ob\<lparr>ob_thd := True\<rparr>) (?s\<lparr>pb_env := w\<rparr>)
        = (set_obs a (\<lambda>ob. (?g ob)\<lparr>ob_thd := True\<rparr>) s)\<lparr>pb_env := w\<rparr>"
      by (simp add: set_obs_def)
    show ?thesis
      using set[of "pb_env s" ?g] set[of x ?g] set[of w "\<lambda>ob. (?g ob)\<lparr>ob_thd := True\<rparr>"] t both
      by (simp split: if_splits)
  qed
qed

lemma quiet_trigger:
  assumes "quiet cl"
  shows "pb_links (trigger cl a event arg s) = pb_links s" "pb_state (trigger cl a event arg s) = pb_state s"
    "state_of (trigger cl a event arg s) = state_of s" "ob_event (pb_obs (trigger cl a event arg s) b) = ob_event (pb_obs s b)"
    "ob_trigger (pb_obs (trigger cl a event arg s) b) = ob_trigger (pb_obs s b)"
proof -
  obtain f v where t: "trigger cl a event arg s = (set_obs a f s)\<lparr>pb_env := v\<rparr>"
    and f: "\<And>ob. ob_state (f ob) = ob_state ob \<and> ob_event (f ob) = ob_event ob \<and> ob_trigger (f ob) = ob_trigger ob"
    using quiet_trigger_cases[OF assms] by blast
  show "pb_links (trigger cl a event arg s) = pb_links s" "pb_state (trigger cl a event arg s) = pb_state s"
    "state_of (trigger cl a event arg s) = state_of s" "ob_event (pb_obs (trigger cl a event arg s) b) = ob_event (pb_obs s b)"
    "ob_trigger (pb_obs (trigger cl a event arg s) b) = ob_trigger (pb_obs s b)"
    using set_obs_other[OF f, of a s] by (simp_all add: t)
qed

lemma quiet_polite: "quiet cl \<Longrightarrow> polite cl"
  by (simp add: polite_def quiet_trigger)

lemma quiet_one:
  assumes "quiet cl"
  shows "state_of (notify_one cl event arg a s) b
      = (if b = a \<and> state_of s a = OBSERVER_ATTACHED_ONCE then OBSERVER_DETACHED else state_of s b)"
    "ob_event (pb_obs (notify_one cl event arg a s) b) = ob_event (pb_obs s b)"
    "ob_trigger (pb_obs (notify_one cl event arg a s) b) = ob_trigger (pb_obs s b)"
    "pb_env (notify_one cl event arg a s) = pb_env (trigger cl a event arg s)"
  using quiet_trigger[OF assms] by (simp_all add: notify_one_def Let_def)

lemma visit_quiet:
  assumes "quiet cl" "distinct as"
  shows "fst (visit cl event arg as cnt s) = cnt + int (length (filter (\<lambda>a. eyes_on cl event a s) as)) \<and>
    state_of (snd (visit cl event arg as cnt s)) b
      = (if b \<in> set as \<and> eyes_on cl event b s \<and> state_of s b = OBSERVER_ATTACHED_ONCE then OBSERVER_DETACHED else state_of s b)"
  using assms(2)
proof (induction as arbitrary: cnt s)
  case (Cons a as)
  have eyes: "eyes_on cl event b (notify_one cl event arg a s) = eyes_on cl event b s" if "b \<noteq> a" for b
    using that by (simp add: eyes_on_def quiet_one[OF assms(1)])
  have "filter (\<lambda>b. eyes_on cl event b (notify_one cl event arg a s)) as = filter (\<lambda>b. eyes_on cl event b s) as"
    using Cons.prems by (intro filter_cong refl eyes) auto
  then show ?case
    using Cons.IH Cons.prems eyes[of b] by (auto simp: quiet_one[OF assms(1)])
qed simp


section \<open>The publisher at rest\<close>

text \<open>Between the calls of \<open>notify\<close>: the observers of \<open>U\<close> have been initialised; those attached, in the order of
  \<open>xs\<close>, are on the list, and the others are idle and on none.\<close>

definition pub_ok :: "addr \<Rightarrow> addr set \<Rightarrow> addr list \<Rightarrow> 'c pub_sys \<Rightarrow> bool" where
  "pub_ok head U xs s \<longleftrightarrow> dlist (pb_links s) head xs \<and> pb_state s = PUBLISHER_IDLE \<and> head \<notin> U \<and> set xs \<subseteq> U
     \<and> (\<forall>a\<in>U. if a \<in> set xs then state_of s a = OBSERVER_ATTACHED \<or> state_of s a = OBSERVER_ATTACHED_ONCE
             else state_of s a = OBSERVER_ILDE \<and> alone s a)"

lemma pub_ok_attach:
  assumes "pub_ok head U xs s" "a \<in> U"
  shows "pub_ok head U (if a \<in> set xs then xs else xs @ [a]) (snd (attach_obs head a once s))"
    "fst (attach_obs head a once s) = (if a \<in> set xs then - 1 else 0)"
proof -
  have d: "dlist (pb_links s) head xs" "a \<noteq> head" "state_of s a \<noteq> OBSERVER_DETACHED" "a \<notin> set xs \<Longrightarrow> alone s a"
    using assms by (auto simp: pub_ok_def split: if_splits)
  have st: "pb_state (snd (attach_obs head a once s)) = pb_state s" by (simp add: attach_obs_def)
  show "fst (attach_obs head a once s) = (if a \<in> set xs then - 1 else 0)"
    using attach_again[OF d(1) _ d(3)] attach_new(1)[OF d(1) _ d(4,3)] d(2) by simp
  show "pub_ok head U (if a \<in> set xs then xs else xs @ [a]) (snd (attach_obs head a once s))"
  proof (cases "a \<in> set xs")
    case True
    then show ?thesis using attach_again[OF d(1) True d(3)] assms(1) by simp
  next
    case False
    then have n: "a \<notin> insert head (set xs)" using d(2) by simp
    have "alone (snd (attach_obs head a once s)) b" if "b \<in> U" "b \<notin> set xs" "b \<noteq> a" for b
      using attach_new(4)[OF d(1) n d(4)[OF False] d(3), of b] assms(1) that by (auto simp: pub_ok_def split: if_splits)
    then show ?thesis
      using False attach_new(2,3)[OF d(1) n d(4)[OF False] d(3), of once] assms st
      by (auto simp: pub_ok_def attach_state_def)
  qed
qed

lemma pub_ok_detach:
  assumes "pub_ok head U xs s" "a \<in> U"
  shows "pub_ok head U (remove1 a xs) (snd (detach a s))"
proof (cases "a \<in> set xs")
  case True
  have d: "dlist (pb_links s) head xs" "pb_state s = PUBLISHER_IDLE" "distinct xs" using assms by (auto simp: pub_ok_def dlist_def)
  note r = detach_idle[OF d(1) True d(2)]
  have st: "pb_state (snd (detach a s)) = PUBLISHER_IDLE" using d(2) by (simp add: detach_def)
  have al: "alone (snd (detach a s)) b" if "b \<in> U" "b \<notin> set (remove1 a xs)" for b
    using r(3) r(5)[of b] assms(1) that d(3) by (cases "b = a") (auto simp: pub_ok_def split: if_splits)
  show ?thesis
    using assms r(2,4) st al d(3) by (auto simp: pub_ok_def split: if_splits)
next
  case False
  then have "state_of s a = OBSERVER_ILDE" "alone s a" "pb_state s = PUBLISHER_IDLE" using assms by (auto simp: pub_ok_def split: if_splits)
  then have l: "pb_links (snd (detach a s)) = pb_links s" "state_of (snd (detach a s)) = state_of s" "pb_state (snd (detach a s)) = PUBLISHER_IDLE"
    by (auto simp: detach_def alone_def list_del_def list_del_entry_def list_del_between_def set_next_def set_prev_def fun_eq_iff)
  then show ?thesis using assms(1) False unfolding pub_ok_def alone_def by (simp add: remove1_idem)
qed

text \<open>The observers a notification triggers, and those it leaves attached.\<close>

definition watching :: "'c clients \<Rightarrow> u32 \<Rightarrow> 'c pub_sys \<Rightarrow> addr list \<Rightarrow> addr list" where
  "watching cl event s xs = filter (\<lambda>a. eyes_on cl event a s) xs"

definition staying :: "'c clients \<Rightarrow> u32 \<Rightarrow> 'c pub_sys \<Rightarrow> addr list \<Rightarrow> addr list" where
  "staying cl event s xs = filter (\<lambda>a. \<not> (eyes_on cl event a s \<and> state_of s a = OBSERVER_ATTACHED_ONCE)) xs"

lemma pub_ok_notify:
  assumes "quiet cl" "pub_ok head U xs s"
  obtains t where "notify cl head event arg s = Some (int (length (watching cl event s xs)), t)"
    "pub_ok head U (staying cl event s xs) t" "pb_env t = pb_env (snd (visit cl event arg xs 0 (s\<lparr>pb_state := PUBLISHER_WORKING\<rparr>)))"
proof -
  let ?s = "s\<lparr>pb_state := PUBLISHER_WORKING\<rparr>"
  obtain cnt t where v: "visit cl event arg xs 0 ?s = (cnt, t)" by fastforce
  have d: "dlist (pb_links s) head xs" "distinct xs" "head \<notin> set xs" using assms by (auto simp: pub_ok_def dlist_def)
  have eyes: "eyes_on cl event a ?s = eyes_on cl event a s" for a by (simp add: eyes_on_def)
  note vq = visit_quiet[OF assms(1) d(2), of event arg 0 ?s, unfolded v]
  have cnt: "cnt = int (length (watching cl event s xs))" using vq by (simp add: watching_def eyes)
  have sto: "state_of t b = (if b \<in> set xs \<and> eyes_on cl event b s \<and> state_of s b = OBSERVER_ATTACHED_ONCE
      then OBSERVER_DETACHED else state_of s b)" for b using vq[of b] by (simp add: eyes)
  have links: "pb_links t = pb_links s" using visit_keeps(1)[OF quiet_polite[OF assms(1)], of ?s event arg xs 0] v by simp
  note ok = notify_ok[OF quiet_polite[OF assms(1)] d(1) v]
  let ?t = "(fold sweep_one xs t)\<lparr>pb_state := PUBLISHER_IDLE\<rparr>"
  have at: "state_of s a = OBSERVER_ATTACHED \<or> state_of s a = OBSERVER_ATTACHED_ONCE" if "a \<in> set xs" for a
    using assms(2) that by (auto simp: pub_ok_def split: if_splits)
  have st: "filter (\<lambda>a. state_of t a \<noteq> OBSERVER_DETACHED) xs = staying cl event s xs"
    unfolding staying_def by (rule filter_cong) (auto simp: sto dest!: at)
  have al: "alone (fold sweep_one xs t) b" if "b \<in> U" "b \<notin> set (staying cl event s xs)" for b
  proof (rule sweep_fold_alone[of t head "[]" xs b])
    show "dlist (pb_links t) head ([] @ xs)" "b \<noteq> head" "b \<notin> set []" using d(1) links assms(2) that by (auto simp: pub_ok_def)
    show "if b \<in> set xs then state_of t b = OBSERVER_DETACHED else alone t b"
      using that assms(2) links by (auto simp: sto staying_def pub_ok_def alone_def)
  qed
  have each: "if a \<in> set (staying cl event s xs) then state_of ?t a = OBSERVER_ATTACHED \<or> state_of ?t a = OBSERVER_ATTACHED_ONCE
      else state_of ?t a = OBSERVER_ILDE \<and> alone ?t a" if "a \<in> U" for a
  proof (cases "a \<in> set xs")
    case True
    then show ?thesis using at[OF True] al[OF that] by (auto simp: sweep_fold_state sto staying_def alone_def)
  next
    case False
    then have "a \<notin> set (staying cl event s xs)" by (simp add: staying_def)
    then show ?thesis using False al[OF that] assms(2) that by (auto simp: sweep_fold_state sto pub_ok_def alone_def)
  qed
  have "set (staying cl event s xs) \<subseteq> U" using assms(2) by (auto simp: staying_def pub_ok_def)
  then have "pub_ok head U (staying cl event s xs) ?t"
    unfolding pub_ok_def using ok(2) st assms(2) by (intro conjI ballI each) (simp_all add: pub_ok_def)
  then show ?thesis using that ok(1) cnt v by simp
qed

text \<open>A notification keeps what the observers are, and the state of those that stay.\<close>

lemma sweep_fold_obs:
  "ob_event (pb_obs (fold sweep_one ys s) b) = ob_event (pb_obs s b)" "ob_trigger (pb_obs (fold sweep_one ys s) b) = ob_trigger (pb_obs s b)"
  by (induction ys arbitrary: s) (simp_all add: sweep_one_def)

lemma visit_obs:
  assumes "quiet cl"
  shows "ob_event (pb_obs (snd (visit cl event arg as cnt s)) b) = ob_event (pb_obs s b)"
    "ob_trigger (pb_obs (snd (visit cl event arg as cnt s)) b) = ob_trigger (pb_obs s b)"
  by (induction as arbitrary: cnt s) (simp_all add: quiet_one[OF assms])

lemma notify_keeps_obs:
  assumes "quiet cl" "pub_ok head U xs s" "notify cl head event arg s = Some (cnt, t)"
  shows "ob_event (pb_obs t b) = ob_event (pb_obs s b)" "ob_trigger (pb_obs t b) = ob_trigger (pb_obs s b)"
    "b \<in> set (staying cl event s xs) \<Longrightarrow> state_of t b = state_of s b"
proof -
  let ?s = "s\<lparr>pb_state := PUBLISHER_WORKING\<rparr>"
  obtain n u where v: "visit cl event arg xs 0 ?s = (n, u)" by fastforce
  have d: "dlist (pb_links s) head xs" "distinct xs" using assms(2) by (auto simp: pub_ok_def dlist_def)
  have t: "t = (fold sweep_one xs u)\<lparr>pb_state := PUBLISHER_IDLE\<rparr>"
    using notify_ok(1)[OF quiet_polite[OF assms(1)] d(1) v] assms(3) by simp
  show "ob_event (pb_obs t b) = ob_event (pb_obs s b)" "ob_trigger (pb_obs t b) = ob_trigger (pb_obs s b)"
    using visit_obs[OF assms(1), of event arg xs 0 ?s b] v by (simp_all add: t sweep_fold_obs)
  assume b: "b \<in> set (staying cl event s xs)"
  then have x: "b \<in> set xs" by (simp add: staying_def)
  moreover have "state_of s b \<noteq> OBSERVER_DETACHED" using assms(2) x unfolding pub_ok_def by force
  ultimately show "state_of t b = state_of s b"
    using visit_quiet[OF assms(1) d(2), of event arg 0 ?s b] v b by (auto simp: t sweep_fold_state staying_def eyes_on_def)
qed

section \<open>Claims\<close>

text \<open>What can happen to a publisher between notifications, and a notification itself.\<close>

inductive pub_step :: "'c clients \<Rightarrow> addr \<Rightarrow> addr set \<Rightarrow> 'c pub_sys \<Rightarrow> 'c pub_sys \<Rightarrow> bool" for cl head U where
  attach: "a \<in> U \<Longrightarrow> pub_step cl head U s (snd (attach head a s))"
| touch: "a \<in> U \<Longrightarrow> pub_step cl head U s (snd (attach_once head a s))"
| detach: "a \<in> U \<Longrightarrow> pub_step cl head U s (snd (detach a s))"
| notify: "notify cl head event arg s = Some (cnt, t) \<Longrightarrow> pub_step cl head U s t"

lemma pub_step_ok:
  assumes "pub_step cl head U s t" "quiet cl" "pub_ok head U xs s"
  shows "\<exists>ys. pub_ok head U ys t"
  using assms
proof cases
  case (attach a)
  then show ?thesis using pub_ok_attach(1)[OF assms(3), of a False] unfolding attach_def by blast
next
  case (touch a)
  then show ?thesis using pub_ok_attach(1)[OF assms(3), of a True] unfolding attach_once_def by blast
next
  case (detach a)
  then show ?thesis using pub_ok_detach[OF assms(3)] by blast
next
  case (notify event arg cnt)
  then show ?thesis using pub_ok_notify[OF assms(2,3), of event arg] by auto
qed

lemma pub_steps_ok:
  assumes "(pub_step cl head U)\<^sup>*\<^sup>* s t" "quiet cl" "pub_ok head U xs s"
  shows "\<exists>ys. pub_ok head U ys t"
  using assms(1)
proof (induction rule: rtranclp_induct)
  case base
  then show ?case using assms(3) by blast
next
  case (step t u)
  then show ?case using pub_step_ok assms(2) by blast
qed

text \<open>Clients that only log: what a callback, or a thread that is created, does is a function of the observer, the
  event and its data.\<close>

definition logging :: "(addr \<Rightarrow> u32 \<Rightarrow> u32 \<Rightarrow> 'c \<Rightarrow> 'c) \<Rightarrow> (u32 \<Rightarrow> u32 \<Rightarrow> int) \<Rightarrow> 'c clients" where
  "logging f cmp = \<lparr>cl_callback = (\<lambda>a event arg s. s\<lparr>pb_env := f a event arg (pb_env s)\<rparr>),
     cl_thread = (\<lambda>a s. (True, s\<lparr>pb_env := f a (ob_thd_event (pb_obs s a)) (ob_thd_arg (pb_obs s a)) (pb_env s)\<rparr>)),
     cl_exception = (\<lambda>a s. s), cl_compare = cmp\<rparr>"

lemma logging_quiet: "quiet (logging f cmp)"
proof -
  have "\<exists>v. s = s\<lparr>pb_env := v\<rparr>" for s :: "'a pub_sys" by (rule exI[of _ "pb_env s"]) simp
  then show ?thesis unfolding quiet_def logging_def by auto
qed

text \<open>An observer whose trigger calls back, or starts a thread that is not running.\<close>

definition calls :: "'c pub_sys \<Rightarrow> addr \<Rightarrow> bool" where
  "calls s a \<longleftrightarrow> (case ob_trigger (pb_obs s a) of event_trigger \<Rightarrow> False | trigger_thread \<Rightarrow> \<not> ob_thd (pb_obs s a) | _ \<Rightarrow> True)"

lemma logging_one:
  "pb_env (notify_one (logging f cmp) event arg a s) = (if calls s a then f a event arg (pb_env s) else pb_env s)"
  "b \<noteq> a \<Longrightarrow> calls (notify_one (logging f cmp) event arg a s) b = calls s b"
  by (auto simp: notify_one_def Let_def trigger_def logging_def calls_def set_obs_def set_state_def split: trigger_fn.splits)

lemma visit_logging:
  assumes "distinct as"
  shows "pb_env (snd (visit (logging f cmp) event arg as cnt s))
     = fold (\<lambda>a. f a event arg) (filter (\<lambda>a. eyes_on (logging f cmp) event a s \<and> calls s a) as) (pb_env s)"
  using assms
proof (induction as arbitrary: cnt s)
  case (Cons a as)
  let ?s = "notify_one (logging f cmp) event arg a s"
  have "(eyes_on (logging f cmp) event b ?s \<and> calls ?s b) = (eyes_on (logging f cmp) event b s \<and> calls s b)" if "b \<noteq> a" for b
    using that by (simp add: eyes_on_def quiet_one[OF logging_quiet] logging_one(2))
  then have "filter (\<lambda>b. eyes_on (logging f cmp) event b ?s \<and> calls ?s b) as
      = filter (\<lambda>b. eyes_on (logging f cmp) event b s \<and> calls s b) as"
    using Cons.prems by (metis (mono_tags, lifting) filter_cong distinct.simps(2))
  then show ?case using Cons by (simp add: logging_one(1))
qed simp

text \<open>C31. With callbacks that only log, notifying an event triggers every attached observer whose event matches
  exactly once, in the order in which they were attached, and no other; the number triggered is returned; those
  attached once are then taken off the list and idle, and the others stay, in order.\<close>

theorem notify_triggers_each_once:
  assumes "pub_ok head U xs s"
  shows "\<exists>t. notify (logging f cmp) head event arg s = Some (int (length (watching (logging f cmp) event s xs)), t)
    \<and> pb_env t = fold (\<lambda>a. f a event arg) (filter (calls s) (watching (logging f cmp) event s xs)) (pb_env s)
    \<and> pub_ok head U (staying (logging f cmp) event s xs) t"
proof -
  let ?s = "s\<lparr>pb_state := PUBLISHER_WORKING\<rparr>"
  obtain t where t: "notify (logging f cmp) head event arg s = Some (int (length (watching (logging f cmp) event s xs)), t)"
    "pub_ok head U (staying (logging f cmp) event s xs) t" "pb_env t = pb_env (snd (visit (logging f cmp) event arg xs 0 ?s))"
    using pub_ok_notify[OF logging_quiet assms] by metis
  have "calls ?s = calls s" "eyes_on (logging f cmp) event a ?s = eyes_on (logging f cmp) event a s" for a
    by (auto simp: calls_def eyes_on_def fun_eq_iff split: trigger_fn.split)
  then have "pb_env t = fold (\<lambda>a. f a event arg) (filter (calls s) (watching (logging f cmp) event s xs)) (pb_env s)"
    using t(3) assms visit_logging[of xs f cmp event arg 0 ?s] by (simp add: watching_def pub_ok_def dlist_def conj_commute)
  then show ?thesis using t(1,2) by blast
qed

text \<open>Two callback observers: one attached, then one attached once to another event of the publisher.\<close>

definition demo_pub :: "nat list pub_sys" where
  "demo_pub = (let s = \<lparr>pb_links = INIT_LIST_HEAD 0 \<lparr>lnext = (\<lambda>_. 0), lprev = (\<lambda>_. 0)\<rparr>, pb_state = PUBLISHER_IDLE, pb_obs = (\<lambda>_. cleared),
       pb_env = []\<rparr>;
     s = snd (callback_observer_create (Some 2) 5 0 s); s = snd (callback_observer_create (Some 3) 6 0 s);
     s = snd (attach 0 2 s) in snd (attach_once 0 3 s))"

lemma demo_pub_ok: "pub_ok 0 {2, 3} [2, 3] demo_pub"
  by (simp add: pub_ok_def demo_pub_def Let_def callback_observer_create_def create_with_def callback_observer_init_def observer_init_def
      attach_def attach_once_def attach_obs_def attach_state_def list_empty_def list_add_tail_def list_add_between_def dlist_def
      INIT_LIST_HEAD_def upd_links_def set_obs_def set_state_def state_of_def alone_def cleared_def)

lemma demo_pub_at:
  "watching (logging f (\<lambda>e o'. 0)) event demo_pub [2, 3] = [2, 3]" "calls demo_pub 2" "calls demo_pub 3"
  "staying (logging f (\<lambda>e o'. 0)) event demo_pub [2, 3] = [2]" "pb_env demo_pub = []"
  by (simp_all add: watching_def staying_def eyes_on_def calls_def logging_def demo_pub_def Let_def callback_observer_create_def
      create_with_def callback_observer_init_def observer_init_def
      attach_def attach_once_def attach_obs_def attach_state_def list_empty_def list_add_tail_def list_add_between_def
      INIT_LIST_HEAD_def upd_links_def set_obs_def set_state_def state_of_def cleared_def)

theorem notify_triggers_each_once_witness:
  "\<exists>t. notify (logging (\<lambda>a _ _ l. a # l) (\<lambda>e o'. 0)) 0 6 9 demo_pub = Some (2, t) \<and> pb_env t = [3, 2] \<and> pub_ok 0 {2, 3} [2] t"
  using notify_triggers_each_once[OF demo_pub_ok, of "\<lambda>a _ _ l. a # l" "\<lambda>e o'. 0" 6 9] by (simp add: demo_pub_at)

text \<open>C32. Attaching, attaching once, detaching and notifying, in any order, with callbacks that leave the publisher
  alone, keep it well formed: the list behind its head is intact, the observers on it are exactly those in an attached
  state, and every other one is idle and linked to itself.  So a notification always returns.\<close>

theorem publisher_stays_ok:
  assumes "(pub_step cl head U)\<^sup>*\<^sup>* s t" "quiet cl" "pub_ok head U xs s"
  shows "\<exists>ys. pub_ok head U ys t
    \<and> (\<forall>event arg. \<exists>u. notify cl head event arg t = Some (int (length (watching cl event t ys)), u))"
proof -
  obtain ys where "pub_ok head U ys t" using pub_steps_ok[OF assms] by blast
  then show ?thesis using pub_ok_notify[OF assms(2)] by blast
qed

theorem publisher_stays_ok_witness:
  "\<exists>ys. pub_ok 0 {2, 3} ys (snd (attach 0 2 (snd (detach 2 demo_pub))))
    \<and> (\<forall>event arg. \<exists>u. notify (logging (\<lambda>a _ _ l. a # l) (\<lambda>e o'. 0)) 0 event arg (snd (attach 0 2 (snd (detach 2 demo_pub))))
         = Some (int (length (watching (logging (\<lambda>a _ _ l. a # l) (\<lambda>e o'. 0)) event (snd (attach 0 2 (snd (detach 2 demo_pub)))) ys)), u))"
proof (rule publisher_stays_ok[OF _ logging_quiet demo_pub_ok])
  have "pub_step (logging (\<lambda>a _ _ l. a # l) (\<lambda>e o'. 0)) 0 {2, 3} demo_pub (snd (detach 2 demo_pub))"
    by (rule pub_step.detach) simp
  moreover have "pub_step (logging (\<lambda>a _ _ l. a # l) (\<lambda>e o'. 0)) 0 {2, 3} (snd (detach 2 demo_pub))
      (snd (attach 0 2 (snd (detach 2 demo_pub))))"
    by (rule pub_step.attach) simp
  ultimately show "(pub_step (logging (\<lambda>a _ _ l. a # l) (\<lambda>e o'. 0)) 0 {2, 3})\<^sup>*\<^sup>* demo_pub
      (snd (attach 0 2 (snd (detach 2 demo_pub))))"
    by (meson rtranclp.rtrancl_refl rtranclp.rtrancl_into_rtrancl)
qed

text \<open>Detaching an observer that was never attached, while a notification is under way, marks it as detached
  although it is on no list; attaching it afterwards then reports success, but only changes its state: it is on no
  list and no event will reach it.\<close>

theorem detach_unattached_lost:
  assumes "dlist (pb_links s) head xs" "a \<notin> set xs" "pb_state s = PUBLISHER_WORKING"
  shows "fst (attach_obs head a once (snd (detach a s))) = 0
    \<and> state_of (snd (attach_obs head a once (snd (detach a s)))) a = attach_state once
    \<and> dlist (pb_links (snd (attach_obs head a once (snd (detach a s))))) head xs"
  using assms by (simp add: attach_obs_def detach_def)

theorem detach_unattached_lost_witness:
  "fst (attach_obs 0 4 False (snd (detach 4 (demo_pub\<lparr>pb_state := PUBLISHER_WORKING\<rparr>)))) = 0"
  using detach_unattached_lost[of "demo_pub\<lparr>pb_state := PUBLISHER_WORKING\<rparr>" 0 "[2, 3]" 4 False] demo_pub_ok
  by (simp add: pub_ok_def)


lemma visit_append:
  "visit cl event arg (xs @ ys) cnt s = (case visit cl event arg xs cnt s of (n, t) \<Rightarrow> visit cl event arg ys n t)"
  by (induction xs arbitrary: cnt s) simp_all

text \<open>Callbacks that do not attach \<open>b\<close> again.\<close>

definition keeps_off :: "'c clients \<Rightarrow> addr \<Rightarrow> bool" where
  "keeps_off cl b \<longleftrightarrow> (\<forall>a event arg s. pb_state s = PUBLISHER_WORKING \<longrightarrow> state_of s b = OBSERVER_DETACHED
     \<longrightarrow> state_of (trigger cl a event arg s) b = OBSERVER_DETACHED)"

lemma visit_detached:
  assumes "polite cl" "keeps_off cl b" "pb_state s = PUBLISHER_WORKING" "state_of s b = OBSERVER_DETACHED"
  shows "visit cl event arg ys cnt s = visit cl event arg (filter (\<lambda>a. a \<noteq> b) ys) cnt s"
    and "state_of (snd (visit cl event arg ys cnt s)) b = OBSERVER_DETACHED"
proof -
  have one: "state_of (notify_one cl event arg a s) b = OBSERVER_DETACHED"
    if "pb_state s = PUBLISHER_WORKING" "state_of s b = OBSERVER_DETACHED" for a s
    using assms(2) that by (simp add: keeps_off_def notify_one_def Let_def)
  have no: "\<not> eyes_on cl event b s" if "state_of s b = OBSERVER_DETACHED" for s using that by (simp add: eyes_on_def)
  show "visit cl event arg ys cnt s = visit cl event arg (filter (\<lambda>a. a \<noteq> b) ys) cnt s"
    using assms(3,4) by (induction ys arbitrary: cnt s) (auto simp: one no polite_one[OF assms(1)])
  show "state_of (snd (visit cl event arg ys cnt s)) b = OBSERVER_DETACHED"
    using assms(3,4) by (induction ys arbitrary: cnt s) (auto simp: one no polite_one[OF assms(1)])
qed

text \<open>C33. An observer that a callback detaches during a notification is not triggered any more by it, wherever on the
  list it is: the rest of the notification is what it is without that observer, and at the end the observer is
  idle and off the list.  The other callbacks may do anything that leaves the list alone and does not attach this
  observer again.\<close>

theorem detached_in_callback:
  assumes "polite cl" "keeps_off cl b" "dlist (pb_links s) head (xs @ ys)" "b \<in> set (xs @ ys)"
    and "visit cl event arg xs 0 (s\<lparr>pb_state := PUBLISHER_WORKING\<rparr>) = (n, s1)" "state_of s1 b = OBSERVER_DETACHED"
    and "visit cl event arg (filter (\<lambda>a. a \<noteq> b) ys) n s1 = (cnt, s2)"
  shows "\<exists>t zs. notify cl head event arg s = Some (cnt, t) \<and> pb_env t = pb_env s2 \<and> state_of t b = OBSERVER_ILDE
    \<and> dlist (pb_links t) head zs \<and> set zs \<subseteq> set (xs @ ys) - {b}"
proof -
  have w: "pb_state s1 = PUBLISHER_WORKING"
    using visit_keeps(2)[OF assms(1), of "s\<lparr>pb_state := PUBLISHER_WORKING\<rparr>" event arg xs 0] assms(5) by simp
  note d = visit_detached[OF assms(1,2) w assms(6), of event arg ys n]
  have v: "visit cl event arg (xs @ ys) 0 (s\<lparr>pb_state := PUBLISHER_WORKING\<rparr>) = (cnt, s2)"
    using d(1) assms(5,7) by (simp add: visit_append)
  have "state_of s2 b = OBSERVER_DETACHED" using d(2)[unfolded d(1)] assms(7) by simp
  then show ?thesis
    using notify_ok[OF assms(1,3) v] assms(4)
    by (intro exI[of _ "(fold sweep_one (xs @ ys) s2)\<lparr>pb_state := PUBLISHER_IDLE\<rparr>"]
        exI[of _ "filter (\<lambda>a. state_of s2 a \<noteq> OBSERVER_DETACHED) (xs @ ys)"] conjI) (auto simp: sweep_fold_state simp del: fold_append)
qed

text \<open>Callbacks that log and detach the second observer.\<close>

definition detacher :: "nat list clients" where
  "detacher = \<lparr>cl_callback = (\<lambda>a event arg s. snd (detach 3 (s\<lparr>pb_env := a # pb_env s\<rparr>))),
     cl_thread = (\<lambda>a s. (True, s)), cl_exception = (\<lambda>a s. s), cl_compare = (\<lambda>e o'. 0)\<rparr>"

lemma detacher_trigger:
  assumes "pb_state s = PUBLISHER_WORKING"
  shows "pb_links (trigger detacher a event arg s) = pb_links s" "pb_state (trigger detacher a event arg s) = pb_state s"
    "state_of s 3 = OBSERVER_DETACHED \<Longrightarrow> state_of (trigger detacher a event arg s) 3 = OBSERVER_DETACHED"
  using assms by (cases "ob_trigger (pb_obs s a)"; auto simp: trigger_def Let_def detacher_def detach_def set_obs_def set_state_def state_of_def)+

lemma detacher_polite: "polite detacher" "keeps_off detacher 3"
  by (simp_all add: polite_def keeps_off_def detacher_trigger)

lemma demo_pub_first:
  "state_of (snd (visit detacher 6 9 [2] 0 (demo_pub\<lparr>pb_state := PUBLISHER_WORKING\<rparr>))) 3 = OBSERVER_DETACHED"
  "fst (visit detacher 6 9 [2] 0 (demo_pub\<lparr>pb_state := PUBLISHER_WORKING\<rparr>)) = 1"
  "pb_env (snd (visit detacher 6 9 [2] 0 (demo_pub\<lparr>pb_state := PUBLISHER_WORKING\<rparr>))) = [2]"
  by (simp_all add: eyes_on_def notify_one_def trigger_def detacher_def detach_def demo_pub_def Let_def callback_observer_create_def
      create_with_def callback_observer_init_def observer_init_def
      attach_def attach_once_def attach_obs_def attach_state_def list_empty_def list_add_tail_def list_add_between_def
      INIT_LIST_HEAD_def upd_links_def set_obs_def set_state_def state_of_def cleared_def)

theorem detached_in_callback_witness:
  "\<exists>t. notify detacher 0 6 9 demo_pub = Some (1, t) \<and> pb_env t = [2] \<and> state_of t 3 = OBSERVER_ILDE"
proof -
  let ?v = "visit detacher 6 9 [2] 0 (demo_pub\<lparr>pb_state := PUBLISHER_WORKING\<rparr>)"
  have "dlist (pb_links demo_pub) 0 ([2] @ [3])" using demo_pub_ok by (simp add: pub_ok_def)
  moreover have "?v = (1, snd ?v)" using demo_pub_first(2) by (metis prod.collapse)
  ultimately show ?thesis
    using detached_in_callback[OF detacher_polite, of demo_pub 0 "[2]" "[3]" 6 9 1 "snd ?v" 1 "snd ?v"] demo_pub_first(1,3)
    by (fastforce simp del: visit.simps(2))
qed

end
