(* ===== verification/EventQueue.thy ===== *)
theory EventQueue
  imports ListHead
begin

text \<open>
  The event queues of \<^verbatim>\<open>project/common/framework/sys_ctrl\<close>: the sorted list of \<^verbatim>\<open>container.c\<close>, whose nodes
  come from a pool and whose readers wait for a binary semaphore, the priority queue that \<^verbatim>\<open>event_queue.c\<close> builds
  on it, and the normal queue, which is one of the kernel's.  Messages are values behind addresses of the heap.
\<close>

section \<open>The sorted list\<close>

text \<open>\<open>sl_head\<close> and \<open>sl_pool\<close> are the addresses of the two heads; \<open>sl_arg\<close> holds the argument of every node.\<close>

record sorted_list =
  sl_size :: u32
  sl_links :: links
  sl_head :: addr
  sl_pool :: addr
  sl_arg :: "addr \<Rightarrow> u32"
  sl_sem :: bool

definition sl_upd :: "(links \<Rightarrow> links) \<Rightarrow> 'a sorted_list_scheme \<Rightarrow> 'a sorted_list_scheme" where
  "sl_upd f s = s\<lparr>sl_links := f (sl_links s)\<rparr>"

text \<open>The nodes \<open>vec[size - 1]\<close> down to \<open>vec[0]\<close> go to the pool; \<open>vec\<close> is the address of the first.\<close>

fun pool_fill :: "addr \<Rightarrow> nat \<Rightarrow> sorted_list \<Rightarrow> sorted_list" where
  "pool_fill vec 0 s = s"
| "pool_fill vec (Suc i) s =
     pool_fill vec i (sl_upd (list_add_tail (vec + i) (sl_pool s)) (sl_upd (INIT_LIST_HEAD (vec + i)) s))"

text \<open>What initialising needs of the system: the semaphore, the mutex, the memory of the nodes.  On failure it
  releases what it has, and \<open>impl\<close> itself; the third part counts how often \<open>impl\<close> has been freed.\<close>

definition sorted_list_init :: "bool \<Rightarrow> bool \<Rightarrow> addr option \<Rightarrow> u32 \<Rightarrow> sorted_list \<Rightarrow> int \<times> sorted_list \<times> nat" where
  "sorted_list_init sem_ok mutex_ok vec len s =
     (let s = sl_upd (INIT_LIST_HEAD (sl_pool s)) (sl_upd (INIT_LIST_HEAD (sl_head s)) s);
          s = s\<lparr>sl_size := len\<rparr>
      in if \<not> sem_ok then (-1, s, 1)
         else let s = s\<lparr>sl_sem := False\<rparr> in
         if \<not> mutex_ok then (-1, s, 1)
         else case vec of None \<Rightarrow> (-1, s, 1)
           | Some v \<Rightarrow> (0, pool_fill v (unat len) s\<lparr>sl_arg := (\<lambda>a. if v \<le> a \<and> a < v + unat len then 0 else sl_arg s a)\<rparr>, 0))"

text \<open>\<open>impl\<close> is what \<open>malloc\<close> returned for the container, with the addresses of its two heads in it.\<close>

definition sorted_list_create ::
  "(addr \<times> addr) option \<Rightarrow> bool \<Rightarrow> bool \<Rightarrow> addr option \<Rightarrow> u32 \<Rightarrow> links \<Rightarrow> sorted_list option \<times> nat" where
  "sorted_list_create impl sem_ok mutex_ok vec len h =
     (case impl of None \<Rightarrow> (None, 0)
      | Some (head, pool) \<Rightarrow>
          let s = \<lparr>sl_size = 0, sl_links = h, sl_head = head, sl_pool = pool, sl_arg = (\<lambda>_. 0), sl_sem = False\<rparr> in
          case sorted_list_init sem_ok mutex_ok vec len s of (ret, s, frees) \<Rightarrow>
            if ret \<noteq> 0 then (None, frees + 1) else (Some s, frees))"

text \<open>The search for the place: the node after which the new one goes.  When the loop runs to its end the iterator
  stands on the head.  The comparison looks into the messages: \<open>None\<close> is one that is not there.\<close>

partial_function (option) insert_loop :: "('a sorted_list_scheme \<Rightarrow> u32 \<Rightarrow> u32 \<Rightarrow> int option) \<Rightarrow> u32 \<Rightarrow> addr \<Rightarrow> 'a sorted_list_scheme \<Rightarrow> addr option" where
  "insert_loop compare arg tmp s =
     (if tmp = sl_head s then Some tmp
      else do {
        c \<leftarrow> compare s arg (sl_arg s tmp);
        if 0 \<le> c then Some (lprev (sl_links s) tmp) else insert_loop compare arg (lnext (sl_links s) tmp) s
      })"

text \<open>Taking a node from the pool: while there is none, the lock is released and the task sleeps for 3 ms at a
  time; \<open>others\<close> is what the other tasks do meanwhile.\<close>

definition BLOCK_WAIT_EACHTIME :: u32 where "BLOCK_WAIT_EACHTIME = 3"

function pool_wait :: "(u32 \<Rightarrow> 'a sorted_list_scheme \<Rightarrow> 'a sorted_list_scheme) \<Rightarrow> u32 \<Rightarrow> 'a sorted_list_scheme \<Rightarrow> addr option \<times> 'a sorted_list_scheme" where
  "pool_wait others timeout s =
     (case list_first (sl_pool s) (sl_links s) of Some node \<Rightarrow> (Some node, s)
      | None \<Rightarrow> let s = others timeout s in
          if timeout \<le> BLOCK_WAIT_EACHTIME then (None, s)
          else pool_wait others (timeout - BLOCK_WAIT_EACHTIME) s)"
  by pat_completeness auto

termination
proof (relation "measure (\<lambda>(others, timeout, s). unat timeout)", goal_cases)
  case (2 others timeout s x)
  then have "BLOCK_WAIT_EACHTIME \<le> timeout" "timeout \<noteq> 0" by auto
  then have "unat (timeout - BLOCK_WAIT_EACHTIME) = unat timeout - 3" "unat timeout \<noteq> 0"
    by (auto simp: unat_sub BLOCK_WAIT_EACHTIME_def unat_eq_0)
  then show ?case by simp
qed simp

declare pool_wait.simps [simp del]

text \<open>The node found first in the pool is linked into the list; it is not taken off the pool first.\<close>

definition sorted_list_push ::
  "('a sorted_list_scheme \<Rightarrow> u32 \<Rightarrow> u32 \<Rightarrow> int option) \<Rightarrow> (u32 \<Rightarrow> 'a sorted_list_scheme \<Rightarrow> 'a sorted_list_scheme) \<Rightarrow> u32 \<Rightarrow> u32 \<Rightarrow> 'a sorted_list_scheme \<Rightarrow> (int \<times> 'a sorted_list_scheme) option" where
  "sorted_list_push compare others arg timeout s =
     (case pool_wait others timeout s of
        (None, s) \<Rightarrow> Some (-1, s)
      | (Some node, s) \<Rightarrow> do {
          let s = s\<lparr>sl_arg := (sl_arg s)(node := arg)\<rparr>;
          place \<leftarrow> insert_loop compare arg (lnext (sl_links s) (sl_head s)) s;
          Some (0, (sl_upd (list_add node place) s)\<lparr>sl_sem := True\<rparr>)
        })"

text \<open>Reading: \<open>sem\<close> says whether the semaphore comes within the timeout (it does at once when it is available).\<close>

definition sorted_list_pop :: "('a sorted_list_scheme \<Rightarrow> 'a sorted_list_scheme) \<Rightarrow> 'a sorted_list_scheme \<Rightarrow> int \<times> u32 option \<times> 'a sorted_list_scheme" where
  "sorted_list_pop others s =
     (let s = (if sl_sem s then s else others s) in
      if \<not> sl_sem s then (-1, None, s)
      else let s = s\<lparr>sl_sem := False\<rparr> in
      case list_first (sl_head s) (sl_links s) of
        None \<Rightarrow> (-2, None, s)
      | Some node \<Rightarrow> (0, Some (sl_arg s node), sl_upd (list_add_tail node (sl_head s)) (sl_upd (list_del node) s)))"

section \<open>The queues\<close>

text \<open>The functions a message can point to: none, those of \<^verbatim>\<open>sys_ctrl.c\<close>, and others.\<close>

datatype msg_fn = No_fn | freeMsgData | sys_handler_finish | Msg_fn u32

text \<open>\<open>event_msg\<close>; \<open>em_extra\<close> is what a longer message holds behind it.\<close>

record event_msg =
  em_execute :: msg_fn
  em_destruct :: msg_fn
  em_event :: u32
  em_data :: u32
  em_extra :: "u32 list"

record prio_event_queue = sorted_list + pq_heap :: "u32 \<Rightarrow> event_msg option"

definition complare_event_msg :: "prio_event_queue \<Rightarrow> u32 \<Rightarrow> u32 \<Rightarrow> int option" where
  "complare_event_msg q newArg oldArg = do {
     newMsg \<leftarrow> pq_heap q newArg;
     oldMsg \<leftarrow> pq_heap q oldArg;
     Some (if em_event newMsg < em_event oldMsg then 1 else 0)
   }"

definition prio_event_queue_create ::
  "bool \<Rightarrow> (addr \<times> addr) option \<Rightarrow> bool \<Rightarrow> bool \<Rightarrow> addr option \<Rightarrow> u32 \<Rightarrow> links \<Rightarrow> (u32 \<Rightarrow> event_msg option) \<Rightarrow> prio_event_queue option" where
  "prio_event_queue_create mem impl sem_ok mutex_ok vec queue_len h heap =
     (if \<not> mem then None
      else case fst (sorted_list_create impl sem_ok mutex_ok vec queue_len h) of None \<Rightarrow> None
        | Some s \<Rightarrow> Some (sorted_list.extend s (prio_event_queue.fields heap)))"

text \<open>Sending copies the message into the heap, at the address \<open>malloc\<close> returns.\<close>

definition prio_event_send ::
  "u32 option \<Rightarrow> (u32 \<Rightarrow> prio_event_queue \<Rightarrow> prio_event_queue) \<Rightarrow> event_msg \<Rightarrow> u32 \<Rightarrow> prio_event_queue \<Rightarrow> (int \<times> prio_event_queue) option" where
  "prio_event_send mem others msg wait_ms q =
     (case mem of None \<Rightarrow> Some (-1, q)
      | Some newMsg \<Rightarrow> do {
          (ret, q) \<leftarrow> sorted_list_push complare_event_msg others newMsg wait_ms (q\<lparr>pq_heap := (pq_heap q)(newMsg \<mapsto> msg)\<rparr>);
          if ret \<noteq> 0 then Some (-2, q\<lparr>pq_heap := (pq_heap q)(newMsg := None)\<rparr>) else Some (0, q)
        })"

text \<open>\<open>None\<close>: the address on the list is not that of a message any more.\<close>

definition prio_event_recv ::
  "(prio_event_queue \<Rightarrow> prio_event_queue) \<Rightarrow> prio_event_queue \<Rightarrow> (int \<times> event_msg option \<times> prio_event_queue) option" where
  "prio_event_recv others q =
     (case sorted_list_pop others q of (ret, arg, q) \<Rightarrow>
        case arg of None \<Rightarrow> Some (-2, None, q)
        | Some newMsg \<Rightarrow> do { msg \<leftarrow> pq_heap q newMsg; Some (0, Some msg, q\<lparr>pq_heap := (pq_heap q)(newMsg := None)\<rparr>) })"

text \<open>The kernel's queue: sending and receiving, each with a timeout, and deleting.\<close>

record 'q os_queue =
  OS_QueueSend :: "event_msg \<Rightarrow> u32 \<Rightarrow> 'q \<Rightarrow> bool \<times> 'q"
  OS_QueueReceive :: "u32 \<Rightarrow> 'q \<Rightarrow> event_msg option \<times> 'q"
  OS_QueueDelete :: "'q \<Rightarrow> bool \<times> 'q"

definition normal_event_send :: "('q, 'x) os_queue_scheme \<Rightarrow> event_msg \<Rightarrow> u32 \<Rightarrow> 'q \<Rightarrow> int \<times> 'q" where
  "normal_event_send os msg wait_ms q = (case OS_QueueSend os msg wait_ms q of (ok, q) \<Rightarrow> (if ok then 0 else -1, q))"

definition normal_event_recv :: "('q, 'x) os_queue_scheme \<Rightarrow> u32 \<Rightarrow> 'q \<Rightarrow> int \<times> event_msg option \<times> 'q" where
  "normal_event_recv os wait_ms q =
     (case OS_QueueReceive os wait_ms q of (None, q) \<Rightarrow> (-1, None, q) | (Some msg, q) \<Rightarrow> (0, Some msg, q))"

text \<open>The last part: whether the structure of the queue has been freed.\<close>

definition normal_event_queue_deinit :: "('q, 'x) os_queue_scheme \<Rightarrow> 'q \<Rightarrow> int \<times> 'q \<times> bool" where
  "normal_event_queue_deinit os q = (case OS_QueueDelete os q of (ok, q) \<Rightarrow> if ok then (0, q, True) else (-1, q, False))"


section \<open>The pool\<close>

lemma sl_upd_select [simp]:
  "sl_links (sl_upd f s) = f (sl_links s)" "sl_head (sl_upd f s) = sl_head s" "sl_pool (sl_upd f s) = sl_pool s"
  "sl_arg (sl_upd f s) = sl_arg s" "sl_sem (sl_upd f s) = sl_sem s" "sorted_list.more (sl_upd f s) = sorted_list.more s"
  by (simp_all add: sl_upd_def)

lemma pool_fill_select [simp]:
  "sl_head (pool_fill v n s) = sl_head s" "sl_pool (pool_fill v n s) = sl_pool s" "sl_sem (pool_fill v n s) = sl_sem s"
  by (induction v n s rule: pool_fill.induct) simp_all

lemma pool_fill_dlist:
  assumes "dlist (sl_links s) (sl_pool s) xs" "sl_pool s \<notin> {v..<v + n}" "set xs \<inter> {v..<v + n} = {}"
  shows "dlist (sl_links (pool_fill v n s)) (sl_pool s) (xs @ map (\<lambda>i. v + i) (rev [0..<n]))"
  using assms
proof (induction n arbitrary: s xs)
  case (Suc n)
  let ?s = "sl_upd (list_add_tail (v + n) (sl_pool s)) (sl_upd (INIT_LIST_HEAD (v + n)) s)"
  have new: "v + n \<notin> insert (sl_pool s) (set xs)" using Suc.prems(2,3) by auto
  have "dlist (INIT_LIST_HEAD (v + n) (sl_links s)) (sl_pool s) xs"
    by (subst dlist_cong[where h = "sl_links s"]) (use new Suc.prems(1) in \<open>auto simp: INIT_LIST_HEAD_def\<close>)
  then have "dlist (sl_links ?s) (sl_pool ?s) (xs @ [v + n])"
    using list_add_tail_dlist new by simp
  moreover have "set (xs @ [v + n]) \<inter> {v..<v + n} = {}" using Suc.prems(3) by auto
  moreover have "sl_pool s \<notin> {v..<v + n}" using Suc.prems(2) by auto
  ultimately show ?case using Suc.IH[of ?s "xs @ [v + n]"] by simp
qed simp

lemma pool_fill_frame:
  assumes "dlist (sl_links s) (sl_pool s) xs" "sl_pool s \<notin> {v..<v + n}" "set xs \<inter> {v..<v + n} = {}"
    "a \<notin> insert (sl_pool s) (set xs)" "a \<notin> {v..<v + n}"
  shows "lnext (sl_links (pool_fill v n s)) a = lnext (sl_links s) a" "lprev (sl_links (pool_fill v n s)) a = lprev (sl_links s) a"
proof -
  have "lnext (sl_links (pool_fill v n s)) a = lnext (sl_links s) a \<and> lprev (sl_links (pool_fill v n s)) a = lprev (sl_links s) a"
    using assms
  proof (induction n arbitrary: s xs)
    case (Suc n)
    let ?h = "INIT_LIST_HEAD (v + n) (sl_links s)"
    let ?s = "sl_upd (list_add_tail (v + n) (sl_pool s)) (sl_upd (INIT_LIST_HEAD (v + n)) s)"
    have new: "v + n \<notin> insert (sl_pool s) (set xs)" using Suc.prems(2,3) by auto
    have d: "dlist ?h (sl_pool s) xs"
      by (subst dlist_cong[where h = "sl_links s"]) (use new Suc.prems(1) in \<open>auto simp: INIT_LIST_HEAD_def\<close>)
    then have "dlist (sl_links ?s) (sl_pool ?s) (xs @ [v + n])" using list_add_tail_dlist new by simp
    moreover have "set (xs @ [v + n]) \<inter> {v..<v + n} = {}" using Suc.prems(3) by auto
    ultimately show ?case
      using Suc.IH[of ?s "xs @ [v + n]"] Suc.prems(2-5) list_add_frame(1,2)[OF d, of a "v + n"] by (auto simp: INIT_LIST_HEAD_def)
  qed simp
  then show "lnext (sl_links (pool_fill v n s)) a = lnext (sl_links s) a" "lprev (sl_links (pool_fill v n s)) a = lprev (sl_links s) a"
    by simp_all
qed

section \<open>The mailbox it amounts to\<close>

text \<open>Pushing takes the first node of the pool and leaves it there, and popping puts it back on the list it came from.
  So there is one node that is in use for ever.  \<open>one_node\<close> holds from the start, with the list still
  empty, and ever after.\<close>

definition one_node :: "addr \<Rightarrow> 'a sorted_list_scheme \<Rightarrow> bool" where
  "one_node node s \<longleftrightarrow> (let h = sl_links s; head = sl_head s in distinct [node, head, sl_pool s] \<and> lnext h (sl_pool s) = node
     \<and> (lnext h head = head \<and> lprev h head = head \<and> \<not> sl_sem s
        \<or> lnext h head = node \<and> lprev h head = node
          \<and> (lprev h node, lnext h node) \<in> {(head, head), (head, node), (node, node)}))"

lemmas link_defs = list_add_def list_add_tail_def list_add_between_def list_del_def list_del_entry_def list_del_between_def

lemma one_node_cases:
  assumes "one_node node s"
  obtains (empty) "node \<noteq> sl_head s" "node \<noteq> sl_pool s" "sl_head s \<noteq> sl_pool s" "lnext (sl_links s) (sl_pool s) = node"
      "lnext (sl_links s) (sl_head s) = sl_head s" "lprev (sl_links s) (sl_head s) = sl_head s" "\<not> sl_sem s"
    | (linked) p n where "node \<noteq> sl_head s" "node \<noteq> sl_pool s" "sl_head s \<noteq> sl_pool s" "lnext (sl_links s) (sl_pool s) = node"
      "lnext (sl_links s) (sl_head s) = node" "lprev (sl_links s) (sl_head s) = node"
      "lprev (sl_links s) node = p" "lnext (sl_links s) node = n" "p = sl_head s \<and> n = sl_head s \<or> p = sl_head s \<and> n = node \<or> p = node \<and> n = node"
  using assms unfolding one_node_def Let_def by auto

text \<open>The pointers after a push and after a pop.\<close>

lemma one_node_push:
  assumes "one_node node s" "place = (if lnext (sl_links s) (sl_head s) = sl_head s then sl_head s else lprev (sl_links s) node)"
  shows "one_node node ((sl_upd (list_add node place) (s\<lparr>sl_arg := f\<rparr>))\<lparr>sl_sem := True\<rparr>)"
  using assms(1)
proof (cases rule: one_node_cases)
  case empty
  then show ?thesis using assms(2) by (simp add: one_node_def Let_def link_defs)
next
  case (linked p n)
  then have "place = p" using assms(2) by simp
  from linked(9) show ?thesis
    by (elim disjE) (use linked(1-8) \<open>place = p\<close> in \<open>simp_all add: one_node_def Let_def link_defs\<close>)
qed

lemma one_node_pop:
  assumes "one_node node s" "sl_sem s"
  shows "one_node node (sl_upd (list_add_tail node (sl_head s)) (sl_upd (list_del node) (s\<lparr>sl_sem := False\<rparr>)))"
  using assms(1)
proof (cases rule: one_node_cases)
  case (linked p n)
  from linked(9) show ?thesis
    by (elim disjE) (use linked(1-8) in \<open>simp_all add: one_node_def Let_def link_defs\<close>)
qed (use assms(2) in simp)

lemma push_one_node:
  assumes "one_node node s" "\<And>t. t = s\<lparr>sl_arg := (sl_arg s)(node := arg)\<rparr> \<Longrightarrow> \<exists>c\<ge>0. compare t arg arg = Some c"
  obtains t where "sorted_list_push compare others arg timeout s = Some (0, t)" "one_node node t" "sl_sem t" "sl_arg t node = arg"
    "sorted_list.more t = sorted_list.more s"
proof -
  let ?s = "s\<lparr>sl_arg := (sl_arg s)(node := arg)\<rparr>"
  obtain c where c: "compare ?s arg arg = Some c" "0 \<le> c" using assms(2) by blast
  have w: "pool_wait others timeout s = (Some node, s)"
    using assms(1) by (subst pool_wait.simps) (auto simp: one_node_def Let_def list_first_def list_empty_def)
  show ?thesis
  proof (cases "lnext (sl_links s) (sl_head s) = sl_head s")
    case True
    then have "insert_loop compare arg (lnext (sl_links ?s) (sl_head ?s)) ?s = Some (sl_head s)"
      by (subst insert_loop.simps) simp
    then have p: "sorted_list_push compare others arg timeout s = Some (0, (sl_upd (list_add node (sl_head s)) ?s)\<lparr>sl_sem := True\<rparr>)"
      using w by (simp add: sorted_list_push_def Let_def)
    show ?thesis
      by (rule that[OF p one_node_push[OF assms(1)]]) (use True in simp_all)
  next
    case False
    then have n: "lnext (sl_links s) (sl_head s) = node" "node \<noteq> sl_head s" using assms(1) by (auto simp: one_node_def Let_def)
    then have "insert_loop compare arg (lnext (sl_links ?s) (sl_head ?s)) ?s = Some (lprev (sl_links s) node)"
      using c by (subst insert_loop.simps) simp
    then have p: "sorted_list_push compare others arg timeout s
        = Some (0, (sl_upd (list_add node (lprev (sl_links s) node)) ?s)\<lparr>sl_sem := True\<rparr>)"
      using w by (simp add: sorted_list_push_def Let_def)
    show ?thesis
      by (rule that[OF p one_node_push[OF assms(1)]]) (use False in simp_all)
  qed
qed

lemma pop_one_node:
  assumes "one_node node s" "sl_sem s"
  obtains t where "sorted_list_pop others s = (0, Some (sl_arg s node), t)" "one_node node t" "\<not> sl_sem t"
    "sorted_list.more t = sorted_list.more s"
proof -
  have f: "list_first (sl_head s) (sl_links s) = Some node" using assms by (auto simp: one_node_def Let_def list_first_def list_empty_def)
  then have p: "sorted_list_pop others s
      = (0, Some (sl_arg s node), sl_upd (list_add_tail node (sl_head s)) (sl_upd (list_del node) (s\<lparr>sl_sem := False\<rparr>)))"
    using assms(2) by (simp add: sorted_list_pop_def Let_def)
  show ?thesis
    by (rule that[OF p one_node_pop[OF assms]]) simp_all
qed

lemma pop_waits: "\<not> sl_sem s \<Longrightarrow> sorted_list_pop (\<lambda>s. s) s = (-1, None, s)"
  by (simp add: sorted_list_pop_def)

lemma create_one_node:
  assumes "distinct [hd', pl]" "hd' \<notin> {v..<v + unat len}" "pl \<notin> {v..<v + unat len}" "0 < len"
  obtains s where "sorted_list_create (Some (hd', pl)) True True (Some v) len h = (Some s, 0)" "one_node (v + unat len - 1) s" "\<not> sl_sem s"
proof -
  let ?init = "\<lparr>sl_size = len, sl_links = INIT_LIST_HEAD pl (INIT_LIST_HEAD hd' h), sl_head = hd', sl_pool = pl, sl_arg = (\<lambda>_. 0), sl_sem = False\<rparr>"
  let ?s = "pool_fill v (unat len) ?init\<lparr>sl_arg := (\<lambda>_. 0)\<rparr>"
  have c: "sorted_list_create (Some (hd', pl)) True True (Some v) len h = (Some ?s, 0)"
    by (simp add: sorted_list_create_def sorted_list_init_def Let_def sl_upd_def cong: if_cong)
  have n: "0 < unat len" using assms(4) by (simp add: word_less_nat_alt)
  have d: "dlist (sl_links ?init) (sl_pool ?init) []"
    unfolding sorted_list.select_convs by (rule INIT_dlist)
  have fill: "dlist (sl_links (pool_fill v (unat len) ?init)) pl (map (\<lambda>i. v + i) (rev [0..<unat len]))"
    using pool_fill_dlist[OF d, of v "unat len"] assms(3) by simp
  have "rev [0..<unat len] = (unat len - 1) # rev [0..<unat len - 1]"
    using n by (cases "unat len") simp_all
  then have first: "lnext (sl_links (pool_fill v (unat len) ?init)) pl = v + unat len - 1"
    using dlist_first[OF fill] n by simp
  have fr: "lnext (sl_links (pool_fill v (unat len) ?init)) hd' = hd'" "lprev (sl_links (pool_fill v (unat len) ?init)) hd' = hd'"
    using pool_fill_frame[OF d, of v "unat len" hd'] assms(1-3) by (auto simp: INIT_LIST_HEAD_def)
  have "v + unat len - 1 \<noteq> hd'" "v + unat len - 1 \<noteq> pl" using assms(2,3) n by (force simp: not_le)+
  then have "one_node (v + unat len - 1) ?s" using first fr assms(1) by (simp add: one_node_def Let_def)
  then show ?thesis using that[OF c] by simp
qed


section \<open>Claims\<close>

text \<open>Sending messages one after another, each to the memory \<open>malloc\<close> gives: every call succeeds.\<close>

fun send_all :: "(u32 \<Rightarrow> prio_event_queue \<Rightarrow> prio_event_queue) \<Rightarrow> u32 \<Rightarrow> (u32 \<times> event_msg) list \<Rightarrow> prio_event_queue \<Rightarrow> prio_event_queue option" where
  "send_all others wait_ms [] q = Some q"
| "send_all others wait_ms ((a, msg) # ms) q = do {
     (ret, q) \<leftarrow> prio_event_send (Some a) others msg wait_ms q;
     if ret = 0 then send_all others wait_ms ms q else None
   }"

lemma send_one_node:
  assumes "one_node node q"
  obtains t where "prio_event_send (Some a) others msg wait_ms q = Some (0, t)" "one_node node t" "sl_sem t" "sl_arg t node = a"
    "pq_heap t = (pq_heap q)(a \<mapsto> msg)"
proof -
  let ?q = "q\<lparr>pq_heap := (pq_heap q)(a \<mapsto> msg)\<rparr>"
  have one: "one_node node ?q" using assms by (simp add: one_node_def Let_def)
  obtain t where t: "sorted_list_push complare_event_msg others a wait_ms ?q = Some (0, t)" "one_node node t" "sl_sem t" "sl_arg t node = a"
    "sorted_list.more t = sorted_list.more ?q"
    by (rule push_one_node[OF one, of a complare_event_msg others wait_ms]) (auto simp: complare_event_msg_def)
  have "pq_heap t = pq_heap ?q" using t(5) by (cases t; cases q) simp
  then show ?thesis using that[of t] t(1-4) by (simp add: prio_event_send_def)
qed

lemma send_all_one_node:
  assumes "one_node node q" "ms \<noteq> []"
  shows "\<exists>t. send_all others wait_ms ms q = Some t \<and> one_node node t \<and> sl_sem t \<and> sl_arg t node = fst (last ms)
    \<and> pq_heap t = pq_heap q ++ map_of (rev ms)"
  using assms
proof (induction ms arbitrary: q)
  case (Cons m ms)
  obtain a msg where m: "m = (a, msg)" by fastforce
  obtain t where t: "prio_event_send (Some a) others msg wait_ms q = Some (0, t)" "one_node node t" "sl_sem t" "sl_arg t node = a"
    "pq_heap t = (pq_heap q)(a \<mapsto> msg)"
    by (rule send_one_node[OF Cons.prems(1)])
  show ?case
  proof (cases "ms = []")
    case True
    then show ?thesis using t m by (simp add: map_add_def fun_eq_iff)
  next
    case False
    have "pq_heap t ++ map_of (rev ms) = pq_heap q ++ map_of (rev (m # ms))"
      by (simp add: m t(5) map_add_def fun_eq_iff split: option.split)
    then show ?thesis using Cons.IH[OF t(2) False] t(1) m False by simp
  qed
qed simp

lemma recv_one_node:
  assumes "one_node node q" "sl_sem q" "pq_heap q (sl_arg q node) = Some msg"
  obtains t where "prio_event_recv others q = Some (0, Some msg, t)" "one_node node t" "\<not> sl_sem t"
    "pq_heap t = (pq_heap q)(sl_arg q node := None)"
proof -
  obtain t where t: "sorted_list_pop others q = (0, Some (sl_arg q node), t)" "one_node node t" "\<not> sl_sem t"
    "sorted_list.more t = sorted_list.more q"
    by (rule pop_one_node[OF assms(1,2)])
  have h: "pq_heap t = pq_heap q" using t(4) by (cases t; cases q) simp
  let ?t = "t\<lparr>pq_heap := (pq_heap t)(sl_arg q node := None)\<rparr>"
  have one: "one_node node ?t" using t(2) by (simp add: one_node_def Let_def)
  have r: "prio_event_recv others q = Some (0, Some msg, ?t)" using t(1) assms(3) h by (simp add: prio_event_recv_def)
  show ?thesis by (rule that[OF r one]) (use t(3) h in simp_all)
qed

lemma prio_create_one_node:
  assumes "distinct [hd', pl]" "hd' \<notin> {v..<v + unat len}" "pl \<notin> {v..<v + unat len}" "0 < len"
  obtains q where "prio_event_queue_create True (Some (hd', pl)) True True (Some v) len h heap = Some q"
    "one_node (v + unat len - 1) q" "\<not> sl_sem q" "pq_heap q = heap"
proof -
  obtain s where s: "sorted_list_create (Some (hd', pl)) True True (Some v) len h = (Some s, 0)" "one_node (v + unat len - 1) s" "\<not> sl_sem s"
    by (rule create_one_node[OF assms])
  let ?q = "sorted_list.extend s (prio_event_queue.fields heap)"
  have sel: "sl_links ?q = sl_links s" "sl_head ?q = sl_head s" "sl_pool ?q = sl_pool s" "sl_sem ?q = sl_sem s" "pq_heap ?q = heap"
    by (simp_all add: sorted_list.defs prio_event_queue.defs)
  have "one_node (v + unat len - 1) ?q" using s(2) unfolding one_node_def sel .
  then show ?thesis using that[of ?q] s(1,3) sel by (simp add: prio_event_queue_create_def)
qed

text \<open>C36. The priority queue keeps one message, whatever its length and the events: any number of messages can be
  sent without waiting, the next receive returns the last of them, and the one after that waits in vain; the
  messages sent before stay in the heap, and no one can reach them any more.\<close>

theorem prio_queue_keeps_last:
  assumes "distinct [hd', pl]" "hd' \<notin> {v..<v + unat len}" "pl \<notin> {v..<v + unat len}" "0 < len"
    and "prio_event_queue_create True (Some (hd', pl)) True True (Some v) len h heap = Some q"
    and "ms \<noteq> []" "distinct (map fst ms)"
  shows "\<exists>t u. send_all others wait_ms ms q = Some t \<and> prio_event_recv others' t = Some (0, Some (snd (last ms)), u)
    \<and> prio_event_recv (\<lambda>q. q) u = Some (-2, None, u) \<and> (\<forall>m\<in>set (butlast ms). pq_heap u (fst m) = Some (snd m))"
proof -
  have one: "one_node (v + unat len - 1) q" by (rule prio_create_one_node[OF assms(1-4), of h heap]) (use assms(5) in simp)
  obtain t where t: "send_all others wait_ms ms q = Some t" "one_node (v + unat len - 1) t" "sl_sem t"
    "sl_arg t (v + unat len - 1) = fst (last ms)" "pq_heap t = pq_heap q ++ map_of (rev ms)"
    using send_all_one_node[OF one assms(6)] by blast
  have heap: "pq_heap t (fst m) = Some (snd m)" if "m \<in> set ms" for m
  proof -
    have "map_of (rev ms) (fst m) = Some (snd m)"
      by (rule map_of_is_SomeI) (use assms(7) that in \<open>simp_all add: rev_map[symmetric]\<close>)
    then show ?thesis using t(5) by simp
  qed
  obtain u where u: "prio_event_recv others' t = Some (0, Some (snd (last ms)), u)" "\<not> sl_sem u"
    "pq_heap u = (pq_heap t)(fst (last ms) := None)"
    by (rule recv_one_node[OF t(2,3), of "snd (last ms)" others']) (use heap[of "last ms"] assms(6) t(4) in \<open>simp_all add: that\<close>)
  have "fst m \<noteq> fst (last ms)" if "m \<in> set (butlast ms)" for m
    using assms(6,7) that by (cases ms rule: rev_cases) auto
  then have "\<forall>m\<in>set (butlast ms). pq_heap u (fst m) = Some (snd m)" using u(3) heap in_set_butlastD by fastforce
  then show ?thesis using t(1) u(1,2) by (auto simp: prio_event_recv_def pop_waits)
qed

theorem prio_queue_keeps_last_witness:
  "\<exists>q t u. prio_event_queue_create True (Some (0, 1)) True True (Some 10) 4 \<lparr>lnext = (\<lambda>_. 0), lprev = (\<lambda>_. 0)\<rparr> Map.empty = Some q
    \<and> send_all (\<lambda>_ q. q) 0 [(7, \<lparr>em_execute = No_fn, em_destruct = No_fn, em_event = 1, em_data = 5, em_extra = []\<rparr>),
         (8, \<lparr>em_execute = No_fn, em_destruct = No_fn, em_event = 2, em_data = 6, em_extra = []\<rparr>)] q = Some t
    \<and> prio_event_recv (\<lambda>q. q) t = Some (0, Some \<lparr>em_execute = No_fn, em_destruct = No_fn, em_event = 2, em_data = 6, em_extra = []\<rparr>, u)"
proof -
  obtain q where q: "prio_event_queue_create True (Some (0, 1)) True True (Some 10) 4 \<lparr>lnext = (\<lambda>_. 0), lprev = (\<lambda>_. 0)\<rparr> Map.empty = Some q"
    by (rule prio_create_one_node[of 0 1 10 4 "\<lparr>lnext = (\<lambda>_. 0), lprev = (\<lambda>_. 0)\<rparr>" Map.empty]) simp_all
  let ?ms = "[(7::u32, \<lparr>em_execute = No_fn, em_destruct = No_fn, em_event = 1, em_data = 5, em_extra = []\<rparr>),
         (8, \<lparr>em_execute = No_fn, em_destruct = No_fn, em_event = 2, em_data = 6, em_extra = []\<rparr>)]"
  have "distinct [0::addr, 1]" "(0::addr) \<notin> {10..<10 + unat (4::u32)}" "(1::addr) \<notin> {10..<10 + unat (4::u32)}" "0 < (4::u32)"
    "?ms \<noteq> []" "distinct (map fst ?ms)" "snd (last ?ms) = \<lparr>em_execute = No_fn, em_destruct = No_fn, em_event = 2, em_data = 6, em_extra = []\<rparr>"
    by simp_all
  then show ?thesis
    using q prio_queue_keeps_last[OF _ _ _ _ q, of ?ms "\<lambda>_ q. q" 0 "\<lambda>q. q"] by metis
qed

text \<open>When the semaphore, the mutex or the memory of the nodes cannot be had, the container is freed twice: by
  \<open>sorted_list_init\<close>, and again by \<open>sorted_list_create\<close>.\<close>

lemma sorted_list_create_frees_twice:
  "sorted_list_create (Some heads) sem_ok mutex_ok vec len h = (r, frees) \<Longrightarrow> r = None \<longleftrightarrow> frees = 2"
  by (auto simp: sorted_list_create_def sorted_list_init_def Let_def split: prod.splits if_splits option.splits)

end
