(* ===== verification/SysCtrl.thy ===== *)
theory SysCtrl
  imports Publisher EventQueue
begin

text \<open>
  The system controller, \<^verbatim>\<open>project/common/framework/sys_ctrl/sys_ctrl.c\<close>, and the looper it runs on,
  \<^verbatim>\<open>looper.c\<close>: events are sent to a queue of the kernel, and the looper's thread takes them from it, runs the
  function of the message, notifies the publisher and disposes of the message.
\<close>

section \<open>Events\<close>

definition EVENT_TYPE :: "u32 \<Rightarrow> u16" where "EVENT_TYPE event = ucast (drop_bit 16 event)"
definition EVENT_SUBTYPE :: "u32 \<Rightarrow> u16" where "EVENT_SUBTYPE event = ucast (event AND 0xFFFF)"
definition MK_EVENT :: "u16 \<Rightarrow> u16 \<Rightarrow> u32" where
  "MK_EVENT type subtype = (push_bit 16 (ucast type) OR (ucast subtype AND 0xFFFF))"
definition CMP_EVENT_TYPE :: "u32 \<Rightarrow> u32 \<Rightarrow> u32" where
  "CMP_EVENT_TYPE event1 event2 = ((event1 XOR event2) AND 0xFFFF0000)"
definition ALL_SUBTYPE :: u16 where "ALL_SUBTYPE = 0xFFFF"
definition CTRL_MSG_TYPE_HANDLER :: u16 where "CTRL_MSG_TYPE_HANDLER = 7"

definition sys_compare :: "u32 \<Rightarrow> u32 \<Rightarrow> int" where
  "sys_compare newEvent obsEvent =
     (if CMP_EVENT_TYPE newEvent obsEvent = 0 \<and> (EVENT_SUBTYPE obsEvent = ALL_SUBTYPE \<or> newEvent = obsEvent) then 0 else -1)"

section \<open>The state\<close>

text \<open>The two globals, what has been freed, the semaphores of those who wait for a handler, and the rest.\<close>

record ('u, 'q) sys_env =
  g_sys_queue :: "'q option"
  g_sys_publisher :: "addr option"
  se_freed :: "u32 list"
  se_sems :: "u32 \<Rightarrow> bool"
  se_user :: 'u

type_synonym ('u, 'q) sys = "('u, 'q) sys_env pub_sys"

definition upd_env :: "(('u, 'q) sys_env \<Rightarrow> ('u, 'q) sys_env) \<Rightarrow> ('u, 'q) sys \<Rightarrow> ('u, 'q) sys" where
  "upd_env f s = s\<lparr>pb_env := f (pb_env s)\<rparr>"

definition set_queue :: "'q \<Rightarrow> ('u, 'q) sys \<Rightarrow> ('u, 'q) sys" where
  "set_queue q s = upd_env (\<lambda>e. e\<lparr>g_sys_queue := Some q\<rparr>) s"

text \<open>Calling the function of a message; the functions of others are a parameter.\<close>

definition call_fn :: "(u32 \<Rightarrow> event_msg \<Rightarrow> ('u, 'q) sys \<Rightarrow> ('u, 'q) sys) \<Rightarrow> msg_fn \<Rightarrow> event_msg \<Rightarrow> ('u, 'q) sys \<Rightarrow> ('u, 'q) sys" where
  "call_fn fns f msg s =
     (case f of No_fn \<Rightarrow> s
      | freeMsgData \<Rightarrow> upd_env (\<lambda>e. e\<lparr>se_freed := se_freed e @ [em_data msg]\<rparr>) s
      | sys_handler_finish \<Rightarrow> upd_env (\<lambda>e. e\<lparr>se_sems := (se_sems e)(em_extra msg ! 0 := True)\<rparr>) s
      | Msg_fn n \<Rightarrow> fns n msg s)"

section \<open>The looper\<close>

text \<open>\<open>publisher_main\<close> returns \<open>NULL\<close>, so that the inner loop of the looper calls it once.\<close>

definition publisher_main :: "('u, 'q) sys_env clients \<Rightarrow> addr \<Rightarrow> event_msg \<Rightarrow> ('u, 'q) sys \<Rightarrow> ('u, 'q) sys option" where
  "publisher_main cl head msg s = do { (cnt, s) \<leftarrow> notify cl head (em_event msg) (em_data msg) s; Some s }"

text \<open>One turn of \<open>main_looper\<close>.  On a queue error the loop goes on.\<close>

definition main_looper ::
  "('q, 'x) os_queue_scheme \<Rightarrow> ('u, 'q) sys_env clients \<Rightarrow> (u32 \<Rightarrow> event_msg \<Rightarrow> ('u, 'q) sys \<Rightarrow> ('u, 'q) sys) \<Rightarrow> addr \<Rightarrow> 'q
     \<Rightarrow> ('u, 'q) sys \<Rightarrow> ('u, 'q) sys option" where
  "main_looper os cl fns head q s =
     (case normal_event_recv os 0xFFFFFFFF q of (ret, msg, q) \<Rightarrow>
        let s = set_queue q s in
        case msg of None \<Rightarrow> Some s
        | Some msg \<Rightarrow> do {
            let s = call_fn fns (em_execute msg) msg s;
            s \<leftarrow> publisher_main cl head msg s;
            Some (call_fn fns (em_destruct msg) msg s)
          })"

text \<open>The looper of the controller: the queue and the publisher are those of the globals.\<close>

definition sys_turn ::
  "('q, 'x) os_queue_scheme \<Rightarrow> ('u, 'q) sys_env clients \<Rightarrow> (u32 \<Rightarrow> event_msg \<Rightarrow> ('u, 'q) sys \<Rightarrow> ('u, 'q) sys) \<Rightarrow> ('u, 'q) sys
     \<Rightarrow> ('u, 'q) sys option" where
  "sys_turn os cl fns s =
     (case (g_sys_queue (pb_env s), g_sys_publisher (pb_env s)) of
        (Some q, Some head) \<Rightarrow> main_looper os cl fns head q s
      | _ \<Rightarrow> None)"

fun sys_turns ::
  "('q, 'x) os_queue_scheme \<Rightarrow> ('u, 'q) sys_env clients \<Rightarrow> (u32 \<Rightarrow> event_msg \<Rightarrow> ('u, 'q) sys \<Rightarrow> ('u, 'q) sys) \<Rightarrow> nat \<Rightarrow> ('u, 'q) sys
     \<Rightarrow> ('u, 'q) sys option" where
  "sys_turns os cl fns 0 s = Some s"
| "sys_turns os cl fns (Suc n) s = do { s \<leftarrow> sys_turn os cl fns s; sys_turns os cl fns n s }"

text \<open>What creating a looper needs: the memory of the looper and of its factory, of the message (of the size asked
  for, and then of a plain \<open>event_msg\<close>), and the thread.  The result is the size of the message's buffer, or no
  looper; the outer \<open>None\<close> is a call through a factory that is \<open>NULL\<close>.\<close>

record looper_mem =
  lm_base :: bool
  lm_ctor :: bool
  lm_msg :: bool
  lm_msg2 :: bool
  lm_thread :: bool

definition looper_factory_create :: "looper_mem \<Rightarrow> bool" where
  "looper_factory_create lm \<longleftrightarrow> lm_base lm \<and> lm_ctor lm"

definition create_looper :: "looper_mem \<Rightarrow> nat \<Rightarrow> nat option option" where
  "create_looper lm msg_size =
     (if \<not> looper_factory_create lm then None
      else let msg = (if lm_msg lm then msg_size else if lm_msg2 lm then 16 else 0) in
      Some (if lm_thread lm then Some msg else None))"


section \<open>The controller\<close>

text \<open>What creating a publisher needs: its memory (the address of the head of its list), that of its factory, and the lock.\<close>

record publisher_mem =
  pm_base :: "addr option"
  pm_ctor :: bool
  pm_lock :: bool

definition publisher_factory_create :: "publisher_mem \<Rightarrow> ('u, 'q) sys \<Rightarrow> addr option \<times> ('u, 'q) sys" where
  "publisher_factory_create pm s =
     (case pm_base pm of None \<Rightarrow> (None, s)
      | Some head \<Rightarrow> if pm_ctor pm \<and> pm_lock pm
                     then (Some head, upd_links (INIT_LIST_HEAD head) (s\<lparr>pb_state := PUBLISHER_IDLE\<rparr>)) else (None, s))"

text \<open>\<open>sizeof(struct sys_ctrl_msg)\<close>: an \<open>event_msg\<close> of 16 bytes and the semaphore.\<close>

definition sys_ctrl_msg_size :: nat where "sys_ctrl_msg_size = 20"

text \<open>\<open>queue\<close> is what \<open>normal_event_queue_create\<close> returns.  The factory is used without a test for \<open>NULL\<close>.\<close>

definition sys_ctrl_create :: "'q option \<Rightarrow> publisher_mem \<Rightarrow> looper_mem \<Rightarrow> ('u, 'q) sys \<Rightarrow> (int \<times> ('u, 'q) sys) option" where
  "sys_ctrl_create queue pm lm s =
     (let s = (if g_sys_queue (pb_env s) = None then upd_env (\<lambda>e. e\<lparr>g_sys_queue := queue\<rparr>) s else s) in
      if g_sys_queue (pb_env s) = None then Some (-1, s)
      else if g_sys_publisher (pb_env s) \<noteq> None then Some (0, s)
      else case publisher_factory_create pm s of (None, s) \<Rightarrow> None
        | (Some head, s) \<Rightarrow> do {
            looper \<leftarrow> create_looper lm sys_ctrl_msg_size;
            Some (if looper = None then (-1, s) else (0, upd_env (\<lambda>e. e\<lparr>g_sys_publisher := Some head\<rparr>) s))
          })"

definition sys_ctrl_touch :: "addr \<Rightarrow> ('u, 'q) sys \<Rightarrow> int \<times> ('u, 'q) sys" where
  "sys_ctrl_touch obs s = (case g_sys_publisher (pb_env s) of None \<Rightarrow> (-1, s) | Some head \<Rightarrow> attach_once head obs s)"

definition sys_ctrl_attach :: "addr \<Rightarrow> ('u, 'q) sys \<Rightarrow> int \<times> ('u, 'q) sys" where
  "sys_ctrl_attach obs s = (case g_sys_publisher (pb_env s) of None \<Rightarrow> (-1, s) | Some head \<Rightarrow> attach head obs s)"

definition sys_ctrl_detach :: "addr \<Rightarrow> ('u, 'q) sys \<Rightarrow> int \<times> ('u, 'q) sys" where
  "sys_ctrl_detach obs s = (case g_sys_publisher (pb_env s) of None \<Rightarrow> (-1, s) | Some head \<Rightarrow> detach obs s)"

definition queue_send :: "('q, 'x) os_queue_scheme \<Rightarrow> event_msg \<Rightarrow> u32 \<Rightarrow> 'q \<Rightarrow> ('u, 'q) sys \<Rightarrow> int \<times> ('u, 'q) sys" where
  "queue_send os msg wait_ms q s = (case normal_event_send os msg wait_ms q of (ret, q) \<Rightarrow> (ret, set_queue q s))"

definition event_send :: "('q, 'x) os_queue_scheme \<Rightarrow> 'q \<Rightarrow> u16 \<Rightarrow> u16 \<Rightarrow> u32 \<Rightarrow> msg_fn \<Rightarrow> u32 \<Rightarrow> ('u, 'q) sys \<Rightarrow> int \<times> ('u, 'q) sys" where
  "event_send os q type subtype dat destruct wait_ms s =
     queue_send os \<lparr>em_execute = No_fn, em_destruct = destruct, em_event = MK_EVENT type subtype, em_data = dat, em_extra = [0]\<rparr> wait_ms q s"

definition sys_event_send_with_destruct ::
  "('q, 'x) os_queue_scheme \<Rightarrow> u16 \<Rightarrow> u16 \<Rightarrow> u32 \<Rightarrow> msg_fn \<Rightarrow> u32 \<Rightarrow> ('u, 'q) sys \<Rightarrow> int \<times> ('u, 'q) sys" where
  "sys_event_send_with_destruct os type subtype dat destruct wait_ms s =
     (case g_sys_queue (pb_env s) of None \<Rightarrow> (-1, s) | Some q \<Rightarrow> event_send os q type subtype dat destruct wait_ms s)"

definition sys_event_send :: "('q, 'x) os_queue_scheme \<Rightarrow> u16 \<Rightarrow> u16 \<Rightarrow> u32 \<Rightarrow> u32 \<Rightarrow> ('u, 'q) sys \<Rightarrow> int \<times> ('u, 'q) sys" where
  "sys_event_send os type subtype dat wait_ms s =
     (case g_sys_queue (pb_env s) of None \<Rightarrow> (-1, s) | Some q \<Rightarrow> event_send os q type subtype dat No_fn wait_ms s)"

definition sys_event_send_with_free :: "('q, 'x) os_queue_scheme \<Rightarrow> u16 \<Rightarrow> u16 \<Rightarrow> u32 \<Rightarrow> u32 \<Rightarrow> ('u, 'q) sys \<Rightarrow> int \<times> ('u, 'q) sys" where
  "sys_event_send_with_free os type subtype dat wait_ms s =
     (case g_sys_queue (pb_env s) of None \<Rightarrow> (-1, s) | Some q \<Rightarrow> event_send os q type subtype dat freeMsgData wait_ms s)"

definition sys_event_handler_send ::
  "('q, 'x) os_queue_scheme \<Rightarrow> u16 \<Rightarrow> u16 \<Rightarrow> u32 \<Rightarrow> msg_fn \<Rightarrow> u32 \<Rightarrow> ('u, 'q) sys \<Rightarrow> int \<times> ('u, 'q) sys" where
  "sys_event_handler_send os type subtype dat exec wait_ms s =
     (case g_sys_queue (pb_env s) of None \<Rightarrow> (-1, s)
      | Some q \<Rightarrow> queue_send os \<lparr>em_execute = exec, em_destruct = No_fn, em_event = MK_EVENT type subtype, em_data = dat, em_extra = [0]\<rparr> wait_ms q s)"

definition sys_handler_send :: "('q, 'x) os_queue_scheme \<Rightarrow> msg_fn \<Rightarrow> u32 \<Rightarrow> u32 \<Rightarrow> ('u, 'q) sys \<Rightarrow> int \<times> ('u, 'q) sys" where
  "sys_handler_send os exec dat wait_ms s = sys_event_handler_send os CTRL_MSG_TYPE_HANDLER ALL_SUBTYPE dat exec wait_ms s"

text \<open>Waiting for the handler: \<open>sem\<close> is the semaphore on the caller's stack; what happens until it is given
  is \<open>others\<close>, and \<open>None\<close> is a wait that does not end.  The semaphore is deleted in the end.\<close>

definition sys_event_handler_send_wait_finish ::
  "('q, 'x) os_queue_scheme \<Rightarrow> (('u, 'q) sys \<Rightarrow> ('u, 'q) sys option) \<Rightarrow> u32 \<Rightarrow> u16 \<Rightarrow> u16 \<Rightarrow> u32 \<Rightarrow> msg_fn \<Rightarrow> u32 \<Rightarrow> ('u, 'q) sys
     \<Rightarrow> (int \<times> ('u, 'q) sys) option" where
  "sys_event_handler_send_wait_finish os others sem type subtype dat exec wait_ms s =
     (case g_sys_queue (pb_env s) of None \<Rightarrow> Some (-1, s)
      | Some q \<Rightarrow>
          let s = upd_env (\<lambda>e. e\<lparr>se_sems := (se_sems e)(sem := False)\<rparr>) s in
          case queue_send os \<lparr>em_execute = exec, em_destruct = sys_handler_finish, em_event = MK_EVENT type subtype,
                 em_data = dat, em_extra = [sem]\<rparr> wait_ms q s of (ret, s) \<Rightarrow>
            if ret \<noteq> 0 then Some (ret, s)
            else do {
              s \<leftarrow> (if se_sems (pb_env s) sem then Some s else others s);
              if se_sems (pb_env s) sem then Some (ret, upd_env (\<lambda>e. e\<lparr>se_sems := (se_sems e)(sem := False)\<rparr>) s) else None
            })"

definition sys_handler_send_wait_finish ::
  "('q, 'x) os_queue_scheme \<Rightarrow> (('u, 'q) sys \<Rightarrow> ('u, 'q) sys option) \<Rightarrow> u32 \<Rightarrow> msg_fn \<Rightarrow> u32 \<Rightarrow> u32 \<Rightarrow> ('u, 'q) sys
     \<Rightarrow> (int \<times> ('u, 'q) sys) option" where
  "sys_handler_send_wait_finish os others sem exec dat wait_ms s =
     sys_event_handler_send_wait_finish os others sem CTRL_MSG_TYPE_HANDLER ALL_SUBTYPE dat exec wait_ms s"

section \<open>Events and their parts\<close>

lemma bit_low: "bit (0xFFFF :: u32) n \<longleftrightarrow> n < 16"
proof -
  have "(0xFFFF :: u32) = mask 16" by (simp add: mask_eq_exp_minus_1)
  show ?thesis unfolding \<open>0xFFFF = mask 16\<close> by (auto simp: bit_mask_iff)
qed

lemma bit_high: "bit (0xFFFF0000 :: u32) n \<longleftrightarrow> 16 \<le> n \<and> n < 32"
proof -
  have "(0xFFFF0000 :: u32) = push_bit 16 (mask 16)" by (simp add: mask_eq_exp_minus_1)
  show ?thesis unfolding \<open>0xFFFF0000 = push_bit 16 (mask 16)\<close> by (auto simp: bit_simps simp del: push_bit_mask_eq)
qed

lemma MK_EVENT_bit: "bit (MK_EVENT type subtype) n \<longleftrightarrow> (if n < 16 then bit subtype n else bit type (n - 16))"
  by (auto simp: MK_EVENT_def bit_simps bit_low simp del: bit_numeral_word_iff dest: bit_imp_le_length)

lemma EVENT_parts [simp]: "EVENT_TYPE (MK_EVENT type subtype) = type" "EVENT_SUBTYPE (MK_EVENT type subtype) = subtype"
  by (rule bit_eqI; simp add: EVENT_TYPE_def EVENT_SUBTYPE_def bit_simps MK_EVENT_bit bit_low del: bit_numeral_word_iff)+

lemma EVENT_TYPE_bit: "bit (EVENT_TYPE e) n \<longleftrightarrow> n < 16 \<and> bit e (n + 16)"
  by (auto simp: EVENT_TYPE_def bit_simps add.commute)

lemma CMP_EVENT_TYPE_iff: "CMP_EVENT_TYPE a b = 0 \<longleftrightarrow> EVENT_TYPE a = EVENT_TYPE b"
proof
  assume 0: "CMP_EVENT_TYPE a b = 0"
  have "bit a (n + 16) = bit b (n + 16)" if "n < 16" for n
    using arg_cong[OF 0, of "\<lambda>w. bit w (n + 16)"] that
    by (simp add: CMP_EVENT_TYPE_def bit_simps bit_high del: bit_numeral_word_iff)
  then show "EVENT_TYPE a = EVENT_TYPE b" by (intro bit_eqI) (auto simp: EVENT_TYPE_bit)
next
  assume e: "EVENT_TYPE a = EVENT_TYPE b"
  have "bit a n = bit b n" if "16 \<le> n" "n < 32" for n
    using arg_cong[OF e, of "\<lambda>w. bit w (n - 16)"] that by (auto simp: EVENT_TYPE_bit)
  then show "CMP_EVENT_TYPE a b = 0"
    by (intro bit_eqI) (auto simp: CMP_EVENT_TYPE_def bit_simps bit_high simp del: bit_numeral_word_iff)
qed

lemma event_eq_iff: "a = b \<longleftrightarrow> EVENT_TYPE a = EVENT_TYPE b \<and> EVENT_SUBTYPE a = EVENT_SUBTYPE b" for a b :: u32
proof
  assume e: "EVENT_TYPE a = EVENT_TYPE b \<and> EVENT_SUBTYPE a = EVENT_SUBTYPE b"
  have "bit a n = bit b n" if "n < 32" for n
  proof (cases "n < 16")
    case True
    then show ?thesis using arg_cong[OF conjunct2[OF e], of "\<lambda>w. bit w n"]
      by (simp add: EVENT_SUBTYPE_def bit_simps bit_low del: bit_numeral_word_iff)
  next
    case False
    then show ?thesis using arg_cong[OF conjunct1[OF e], of "\<lambda>w. bit w (n - 16)"] that by (auto simp: EVENT_TYPE_bit)
  qed
  then show "a = b" by (intro bit_eqI) simp
qed simp

lemma sys_compare_iff:
  "sys_compare new obs = 0 \<longleftrightarrow> EVENT_TYPE new = EVENT_TYPE obs \<and> (EVENT_SUBTYPE obs = ALL_SUBTYPE \<or> EVENT_SUBTYPE new = EVENT_SUBTYPE obs)"
  using event_eq_iff[of new obs] by (auto simp: sys_compare_def CMP_EVENT_TYPE_iff)


section \<open>The queue of the kernel\<close>

text \<open>What the controller relies on: a queue holds the messages sent, in order, up to its length; receiving from an
  empty one fails after the timeout.\<close>

locale fifo_queue =
  fixes os :: "'q os_queue" and contents :: "'q \<Rightarrow> event_msg list" and capacity :: nat
  assumes send_room: "length (contents q) < capacity \<Longrightarrow>
      \<exists>q'. OS_QueueSend os msg wait_ms q = (True, q') \<and> contents q' = contents q @ [msg]"
    and send_full: "length (contents q) = capacity \<Longrightarrow> \<exists>q'. OS_QueueSend os msg 0 q = (False, q') \<and> contents q' = contents q"
    and receive_first: "contents q = msg # ms \<Longrightarrow> \<exists>q'. OS_QueueReceive os wait_ms q = (Some msg, q') \<and> contents q' = ms"
    and receive_empty: "contents q = [] \<Longrightarrow> \<exists>q'. OS_QueueReceive os 0 q = (None, q') \<and> contents q' = []"
begin

lemma send_ok: "length (contents q) < capacity \<Longrightarrow> \<exists>q'. normal_event_send os msg wait_ms q = (0, q') \<and> contents q' = contents q @ [msg]"
  using send_room[of q msg wait_ms] by (auto simp: normal_event_send_def)

lemma recv_ok: "contents q = msg # ms \<Longrightarrow> \<exists>q'. normal_event_recv os wait_ms q = (0, Some msg, q') \<and> contents q' = ms"
  using receive_first[of q msg ms wait_ms] by (auto simp: normal_event_recv_def)

end

text \<open>The queue as a list.\<close>

definition list_queue :: "nat \<Rightarrow> event_msg list os_queue" where
  "list_queue n = \<lparr>OS_QueueSend = (\<lambda>msg wait_ms q. if length q < n then (True, q @ [msg]) else (False, q)),
     OS_QueueReceive = (\<lambda>wait_ms q. case q of [] \<Rightarrow> (None, []) | m # ms \<Rightarrow> (Some m, ms)),
     OS_QueueDelete = (\<lambda>q. (q = [], q))\<rparr>"

interpretation lqueue: fifo_queue "list_queue n" "\<lambda>q. q" n for n
  by unfold_locales (auto simp: list_queue_def)

section \<open>What an event bus is\<close>

text \<open>A subscription: the observer, the event it eyes on, and whether it is for one time.\<close>

type_synonym sub = "addr \<times> u32 \<times> bool"

definition sub_matches :: "u32 \<Rightarrow> sub \<Rightarrow> bool" where
  "sub_matches event sb \<longleftrightarrow> (case sb of (a, e, once) \<Rightarrow>
     EVENT_TYPE event = EVENT_TYPE e \<and> (EVENT_SUBTYPE e = ALL_SUBTYPE \<or> EVENT_SUBTYPE event = EVENT_SUBTYPE e))"

definition sub_stays :: "u32 \<Rightarrow> sub \<Rightarrow> bool" where
  "sub_stays event sb \<longleftrightarrow> \<not> (sub_matches event sb \<and> snd (snd sb))"

definition bus_calls :: "u32 \<Rightarrow> u32 \<Rightarrow> sub list \<Rightarrow> (addr \<times> u32 \<times> u32) list" where
  "bus_calls event arg subs = map (\<lambda>sb. (fst sb, event, arg)) (filter (sub_matches event) subs)"

fun bus_run :: "(u32 \<times> u32) list \<Rightarrow> sub list \<Rightarrow> (addr \<times> u32 \<times> u32) list" where
  "bus_run [] subs = []"
| "bus_run ((event, arg) # es) subs = bus_calls event arg subs @ bus_run es (filter (sub_stays event) subs)"

text \<open>The subscriptions a publisher holds, and clients that write down each call.\<close>

definition subs_of :: "'c pub_sys \<Rightarrow> addr list \<Rightarrow> sub list" where
  "subs_of s xs = map (\<lambda>a. (a, ob_event (pb_obs s a), state_of s a = OBSERVER_ATTACHED_ONCE)) xs"

definition recorder :: "((addr \<times> u32 \<times> u32) list, 'q) sys_env clients" where
  "recorder = logging (\<lambda>a event arg e. e\<lparr>se_user := se_user e @ [(a, event, arg)]\<rparr>) sys_compare"

definition calling :: "'c pub_sys \<Rightarrow> addr list \<Rightarrow> bool" where
  "calling s xs \<longleftrightarrow> (\<forall>a\<in>set xs. ob_trigger (pb_obs s a) \<in> {trigger_callback, Client})"

section \<open>Turns of the looper\<close>

lemma eyes_matches:
  assumes "pub_ok head U xs s" "a \<in> set xs"
  shows "eyes_on recorder event a s = sub_matches event (a, ob_event (pb_obs s a), state_of s a = OBSERVER_ATTACHED_ONCE)"
proof -
  have "state_of s a = OBSERVER_ATTACHED \<or> state_of s a = OBSERVER_ATTACHED_ONCE" using assms unfolding pub_ok_def by force
  then show ?thesis by (auto simp: eyes_on_def recorder_def logging_def sys_compare_iff sub_matches_def)
qed

lemma recorder_fold:
  "fold (\<lambda>a e. e\<lparr>se_user := se_user e @ [(a, event, arg)]\<rparr>) as e = e\<lparr>se_user := se_user e @ map (\<lambda>a. (a, event, arg)) as\<rparr>"
  by (induction as arbitrary: e) simp_all

lemma notify_bus:
  assumes "pub_ok head U xs s" "calling s xs"
  obtains cnt t ys where "notify recorder head event arg s = Some (cnt, t)" "pub_ok head U ys t" "calling t ys"
    "pb_env t = (pb_env s)\<lparr>se_user := se_user (pb_env s) @ bus_calls event arg (subs_of s xs)\<rparr>"
    "subs_of t ys = filter (sub_stays event) (subs_of s xs)"
proof -
  have q: "quiet recorder" unfolding recorder_def by (rule logging_quiet)
  let ?s = "s\<lparr>pb_state := PUBLISHER_WORKING\<rparr>"
  obtain t where t: "notify recorder head event arg s = Some (int (length (watching recorder event s xs)), t)"
    "pub_ok head U (staying recorder event s xs) t" "pb_env t = pb_env (snd (visit recorder event arg xs 0 ?s))"
    by (rule pub_ok_notify[OF q assms(1)])
  note keep = notify_keeps_obs[OF q assms(1) t(1)]
  have d: "distinct xs" using assms(1) by (simp add: pub_ok_def dlist_def)
  have c: "calls ?s a" if "a \<in> set xs" for a using assms(2) that by (auto simp: calling_def calls_def)
  have w: "filter (\<lambda>a. eyes_on recorder event a ?s \<and> calls ?s a) xs
      = filter (\<lambda>a. sub_matches event (a, ob_event (pb_obs s a), state_of s a = OBSERVER_ATTACHED_ONCE)) xs"
    by (rule filter_cong[OF refl]) (use c eyes_matches[OF assms(1)] in \<open>simp add: eyes_on_def\<close>)
  have "pb_env t = (pb_env s)\<lparr>se_user := se_user (pb_env s) @ bus_calls event arg (subs_of s xs)\<rparr>"
    using visit_logging[OF d, of "\<lambda>a event arg e. e\<lparr>se_user := se_user e @ [(a, event, arg)]\<rparr>" sys_compare event arg 0 ?s]
    unfolding recorder_def[symmetric] t(3) w recorder_fold by (simp add: bus_calls_def subs_of_def filter_map comp_def)
  moreover have "subs_of t (staying recorder event s xs) = filter (sub_stays event) (subs_of s xs)"
  proof -
    have "filter (\<lambda>a. \<not> (eyes_on recorder event a s \<and> state_of s a = OBSERVER_ATTACHED_ONCE)) xs
        = filter (\<lambda>a. sub_stays event (a, ob_event (pb_obs s a), state_of s a = OBSERVER_ATTACHED_ONCE)) xs"
      by (rule filter_cong[OF refl]) (simp add: eyes_matches[OF assms(1)] sub_stays_def)
    then have "staying recorder event s xs = filter (\<lambda>a. sub_stays event (a, ob_event (pb_obs s a), state_of s a = OBSERVER_ATTACHED_ONCE)) xs"
      by (simp add: staying_def)
    moreover have "subs_of t (staying recorder event s xs) = subs_of s (staying recorder event s xs)"
      using keep by (simp add: subs_of_def)
    ultimately show ?thesis by (simp add: subs_of_def filter_map comp_def)
  qed
  moreover have "calling t (staying recorder event s xs)"
    using assms(2) keep(2) by (auto simp: calling_def staying_def)
  ultimately show ?thesis using that[OF t(1,2)] by blast
qed

text \<open>A message that only carries an event, with its data on the heap or not.\<close>

definition event_only :: "event_msg \<Rightarrow> bool" where
  "event_only msg \<longleftrightarrow> em_execute msg = No_fn \<and> em_destruct msg \<in> {No_fn, freeMsgData}"

definition freed_by :: "event_msg \<Rightarrow> u32 list" where
  "freed_by msg = (if em_destruct msg = freeMsgData then [em_data msg] else [])"

text \<open>The controller after it has been created: \<open>ms\<close> waits in the queue.\<close>

definition ctrl_ok :: "('q \<Rightarrow> event_msg list) \<Rightarrow> addr \<Rightarrow> addr set \<Rightarrow> addr list \<Rightarrow> event_msg list \<Rightarrow> ('u, 'q) sys \<Rightarrow> bool" where
  "ctrl_ok contents head U xs ms s \<longleftrightarrow> pub_ok head U xs s \<and> g_sys_publisher (pb_env s) = Some head
     \<and> (\<exists>q. g_sys_queue (pb_env s) = Some q \<and> contents q = ms)"

lemma pub_ok_env [simp]: "pub_ok head U xs (upd_env f s) = pub_ok head U xs s" "calling (upd_env f s) xs = calling s xs"
  "subs_of (upd_env f s) xs = subs_of s xs" "pb_env (upd_env f s) = f (pb_env s)"
  by (simp_all add: pub_ok_def calling_def subs_of_def upd_env_def alone_def)

context fifo_queue begin

lemma turn_bus:
  assumes "ctrl_ok contents head U xs (msg # ms) s" "calling s xs" "event_only msg"
  shows "\<exists>t ys. sys_turn os recorder fns s = Some t \<and> ctrl_ok contents head U ys ms t \<and> calling t ys
    \<and> se_user (pb_env t) = se_user (pb_env s) @ bus_calls (em_event msg) (em_data msg) (subs_of s xs)
    \<and> se_freed (pb_env t) = se_freed (pb_env s) @ freed_by msg \<and> subs_of t ys = filter (sub_stays (em_event msg)) (subs_of s xs)"
proof -
  obtain q where q: "g_sys_queue (pb_env s) = Some q" "contents q = msg # ms" using assms(1) by (auto simp: ctrl_ok_def)
  obtain q' where r: "normal_event_recv os 0xFFFFFFFF q = (0, Some msg, q')" "contents q' = ms" using recv_ok[OF q(2)] by blast
  let ?s = "set_queue q' s"
  have s: "pub_ok head U xs ?s" "calling ?s xs" using assms(1,2) by (simp_all add: ctrl_ok_def set_queue_def)
  obtain cnt t ys where t: "notify recorder head (em_event msg) (em_data msg) ?s = Some (cnt, t)" "pub_ok head U ys t" "calling t ys"
    "pb_env t = (pb_env ?s)\<lparr>se_user := se_user (pb_env ?s) @ bus_calls (em_event msg) (em_data msg) (subs_of ?s xs)\<rparr>"
    "subs_of t ys = filter (sub_stays (em_event msg)) (subs_of ?s xs)"
    by (rule notify_bus[OF s])
  have turn: "sys_turn os recorder fns s = Some (call_fn fns (em_destruct msg) msg t)"
    using q(1) r(1) t(1) assms(1,3) by (simp add: sys_turn_def main_looper_def Let_def publisher_main_def call_fn_def event_only_def ctrl_ok_def)
  from assms(3) consider "em_destruct msg = No_fn" | "em_destruct msg = freeMsgData" unfolding event_only_def by blast
  then show ?thesis
    by cases (use turn t r(2) assms(1) in \<open>auto simp: call_fn_def ctrl_ok_def freed_by_def set_queue_def\<close>)
qed

lemma turns_bus:
  assumes "ctrl_ok contents head U xs ms s" "calling s xs" "\<forall>m\<in>set ms. event_only m"
  shows "\<exists>t ys. sys_turns os recorder fns (length ms) s = Some t \<and> ctrl_ok contents head U ys [] t
    \<and> se_user (pb_env t) = se_user (pb_env s) @ bus_run (map (\<lambda>m. (em_event m, em_data m)) ms) (subs_of s xs)
    \<and> se_freed (pb_env t) = se_freed (pb_env s) @ concat (map freed_by ms)"
  using assms
proof (induction ms arbitrary: s xs)
  case (Cons m ms)
  obtain t ys where t: "sys_turn os recorder fns s = Some t" "ctrl_ok contents head U ys ms t" "calling t ys"
    "se_user (pb_env t) = se_user (pb_env s) @ bus_calls (em_event m) (em_data m) (subs_of s xs)"
    "se_freed (pb_env t) = se_freed (pb_env s) @ freed_by m" "subs_of t ys = filter (sub_stays (em_event m)) (subs_of s xs)"
    using turn_bus[OF Cons.prems(1,2)] Cons.prems(3) by (metis list.set_intros(1))
  show ?case using Cons.IH[OF t(2,3)] Cons.prems(3) t by auto
qed auto

end


section \<open>Claims\<close>

text \<open>Events to be sent: type, subtype, data, and whether the data are to be freed after delivery.\<close>

type_synonym ev = "u16 \<times> u16 \<times> u32 \<times> bool"

fun send_events :: "('q, 'x) os_queue_scheme \<Rightarrow> u32 \<Rightarrow> ev list \<Rightarrow> ('u, 'q) sys \<Rightarrow> int list \<times> ('u, 'q) sys" where
  "send_events os wait_ms [] s = ([], s)"
| "send_events os wait_ms ((ty, sub, dat, free) # es) s =
     (case (if free then sys_event_send_with_free os ty sub dat wait_ms s else sys_event_send os ty sub dat wait_ms s) of (ret, s) \<Rightarrow>
      case send_events os wait_ms es s of (rets, s) \<Rightarrow> (ret # rets, s))"

definition ev_msg :: "ev \<Rightarrow> event_msg" where
  "ev_msg e = (case e of (ty, sub, dat, free) \<Rightarrow> \<lparr>em_execute = No_fn, em_destruct = (if free then freeMsgData else No_fn),
     em_event = MK_EVENT ty sub, em_data = dat, em_extra = [0]\<rparr>)"

definition ev_pair :: "ev \<Rightarrow> u32 \<times> u32" where
  "ev_pair e = (case e of (ty, sub, dat, free) \<Rightarrow> (MK_EVENT ty sub, dat))"

definition ev_freed :: "ev list \<Rightarrow> u32 list" where
  "ev_freed es = map (\<lambda>e. fst (snd (snd e))) (filter (\<lambda>e. snd (snd (snd e))) es)"

lemma ev_msg_parts:
  "event_only (ev_msg e)" "(em_event (ev_msg e), em_data (ev_msg e)) = ev_pair e" "concat (map (\<lambda>e. freed_by (ev_msg e)) es) = ev_freed es"
proof -
  show "event_only (ev_msg e)" "(em_event (ev_msg e), em_data (ev_msg e)) = ev_pair e"
    by (auto simp: ev_msg_def ev_pair_def event_only_def split: prod.split)
  show "concat (map (\<lambda>e. freed_by (ev_msg e)) es) = ev_freed es"
    by (induction es) (auto simp: ev_freed_def freed_by_def ev_msg_def split: prod.split)
qed

context fifo_queue begin

lemma send_one:
  assumes "ctrl_ok contents head U xs ms s" "length ms < capacity"
  obtains q where "contents q = ms @ [ev_msg (ty, sub, dat, free)]" "ctrl_ok contents head U xs (ms @ [ev_msg (ty, sub, dat, free)]) (set_queue q s)"
    "(if free then sys_event_send_with_free os ty sub dat wait_ms s else sys_event_send os ty sub dat wait_ms s) = (0, set_queue q s)"
proof -
  obtain q0 where q0: "g_sys_queue (pb_env s) = Some q0" "contents q0 = ms" using assms(1) by (auto simp: ctrl_ok_def)
  obtain q where q: "normal_event_send os (ev_msg (ty, sub, dat, free)) wait_ms q0 = (0, q)" "contents q = ms @ [ev_msg (ty, sub, dat, free)]"
    using send_ok[of q0 "ev_msg (ty, sub, dat, free)" wait_ms] q0(2) assms(2) by auto
  show ?thesis
    by (rule that[OF q(2)]) (use assms(1) q q0(1) in
      \<open>auto simp: ctrl_ok_def set_queue_def sys_event_send_with_free_def sys_event_send_def event_send_def queue_send_def ev_msg_def\<close>)
qed

lemma send_events_ok:
  assumes "ctrl_ok contents head U xs ms s" "length ms + length es \<le> capacity" "calling s xs"
  shows "\<exists>t. send_events os wait_ms es s = (replicate (length es) 0, t) \<and> ctrl_ok contents head U xs (ms @ map ev_msg es) t \<and> calling t xs
    \<and> se_user (pb_env t) = se_user (pb_env s) \<and> se_freed (pb_env t) = se_freed (pb_env s) \<and> subs_of t xs = subs_of s xs"
  using assms
proof (induction es arbitrary: s ms)
  case (Cons e es)
  obtain ty sub dat free where e: "e = (ty, sub, dat, free)" by (metis prod_cases4)
  obtain q where q: "contents q = ms @ [ev_msg e]" "ctrl_ok contents head U xs (ms @ [ev_msg e]) (set_queue q s)"
    "(if free then sys_event_send_with_free os ty sub dat wait_ms s else sys_event_send os ty sub dat wait_ms s) = (0, set_queue q s)"
    using send_one[OF Cons.prems(1), of ty sub dat free wait_ms] Cons.prems(2) unfolding e by auto
  have "calling (set_queue q s) xs" using Cons.prems(3) by (simp add: set_queue_def)
  then obtain t where t: "send_events os wait_ms es (set_queue q s) = (replicate (length es) 0, t)"
    "ctrl_ok contents head U xs ((ms @ [ev_msg e]) @ map ev_msg es) t" "calling t xs"
    "se_user (pb_env t) = se_user (pb_env (set_queue q s))" "se_freed (pb_env t) = se_freed (pb_env (set_queue q s))"
    "subs_of t xs = subs_of (set_queue q s) xs"
    using Cons.IH[OF q(2)] Cons.prems(2) by auto
  have "send_events os wait_ms (e # es) s = (replicate (length (e # es)) 0, t)" using q(3) t(1) by (simp add: e)
  then show ?case using t(2-6) by (simp add: set_queue_def)
qed simp

lemma bus_delivers:
  assumes "ctrl_ok contents head U xs [] s" "calling s xs" "length es \<le> capacity" "send_events os wait_ms es s = (rets, s1)"
  shows "rets = replicate (length es) 0 \<and> (\<exists>t ys. sys_turns os recorder fns (length es) s1 = Some t \<and> ctrl_ok contents head U ys [] t
    \<and> se_user (pb_env t) = se_user (pb_env s) @ bus_run (map ev_pair es) (subs_of s xs)
    \<and> se_freed (pb_env t) = se_freed (pb_env s) @ ev_freed es)"
proof -
  have s1: "rets = replicate (length es) 0" "ctrl_ok contents head U xs (map ev_msg es) s1" "calling s1 xs"
    "se_user (pb_env s1) = se_user (pb_env s)" "se_freed (pb_env s1) = se_freed (pb_env s)" "subs_of s1 xs = subs_of s xs"
    using send_events_ok[OF assms(1) _ assms(2), of es wait_ms] assms(3,4) by auto
  have "\<forall>m\<in>set (map ev_msg es). event_only m" by (simp add: ev_msg_parts(1))
  from turns_bus[OF s1(2,3) this, of fns]
  show ?thesis using s1 by (simp add: comp_def ev_msg_parts(2,3))
qed

end

text \<open>C34. Events sent to the controller reach the observers as on an event bus: every call reports success while there
  is room in the queue; each event, in the order sent, calls the observers that were attached to its type with all
  subtypes or with its own, in the order they were attached; one attached once is called for the first such event only;
  and data sent to be freed are freed once, after their event.\<close>

theorem sys_ctrl_delivers:
  assumes "fifo_queue os contents capacity" "ctrl_ok contents head U xs [] s" "calling s xs" "length es \<le> capacity"
    and "send_events os wait_ms es s = (rets, s1)"
  shows "rets = replicate (length es) 0 \<and> (\<exists>t ys. sys_turns os recorder fns (length es) s1 = Some t \<and> ctrl_ok contents head U ys [] t
    \<and> se_user (pb_env t) = se_user (pb_env s) @ bus_run (map ev_pair es) (subs_of s xs)
    \<and> se_freed (pb_env t) = se_freed (pb_env s) @ ev_freed es)"
  by (rule fifo_queue.bus_delivers[OF assms])


text \<open>A controller created on a queue of six messages, with an observer of all events of type 1 attached and one of
  the event (1, 2) attached once.\<close>

definition all_mem :: looper_mem where
  "all_mem = \<lparr>lm_base = True, lm_ctor = True, lm_msg = True, lm_msg2 = True, lm_thread = True\<rparr>"

definition demo_start :: "((addr \<times> u32 \<times> u32) list, event_msg list) sys" where
  "demo_start = (let s = \<lparr>pb_links = \<lparr>lnext = (\<lambda>_. 0), lprev = (\<lambda>_. 0)\<rparr>, pb_state = PUBLISHER_IDLE, pb_obs = (\<lambda>_. cleared),
       pb_env = \<lparr>g_sys_queue = None, g_sys_publisher = None, se_freed = [], se_sems = (\<lambda>_. False), se_user = []\<rparr>\<rparr>;
     s = snd (callback_observer_create (Some 2) (MK_EVENT 1 ALL_SUBTYPE) 0 s)
     in snd (callback_observer_create (Some 3) (MK_EVENT 1 2) 0 s))"

definition demo_sys :: "((addr \<times> u32 \<times> u32) list, event_msg list) sys" where
  "demo_sys = (let s = snd (the (sys_ctrl_create (Some []) \<lparr>pm_base = Some 0, pm_ctor = True, pm_lock = True\<rparr> all_mem demo_start));
     s = snd (sys_ctrl_attach 2 s) in snd (sys_ctrl_touch 3 s))"

lemmas publisher_defs = callback_observer_create_def create_with_def callback_observer_init_def observer_init_def attach_def attach_once_def
  attach_obs_def attach_state_def list_empty_def list_add_tail_def list_add_between_def INIT_LIST_HEAD_def upd_links_def set_obs_def
  set_state_def state_of_def cleared_def

lemmas creation_defs = sys_ctrl_create_def publisher_factory_create_def create_looper_def looper_factory_create_def all_mem_def
  sys_ctrl_attach_def sys_ctrl_touch_def upd_env_def

lemma demo_sys_ok:
  "ctrl_ok (\<lambda>q. q) 0 {2, 3} [2, 3] [] demo_sys" "calling demo_sys [2, 3]"
  "subs_of demo_sys [2, 3] = [(2, MK_EVENT 1 ALL_SUBTYPE, False), (3, MK_EVENT 1 2, True)]"
  "se_user (pb_env demo_sys) = []" "se_freed (pb_env demo_sys) = []"
  by (simp_all add: ctrl_ok_def pub_ok_def calling_def subs_of_def dlist_def alone_def demo_sys_def demo_start_def Let_def
      publisher_defs creation_defs)

theorem sys_ctrl_delivers_witness:
  "\<exists>s1 t. send_events (list_queue 6) 0 [(1, 2, 5, False), (1, 2, 6, True), (4, 2, 7, False)] demo_sys = ([0, 0, 0], s1)
    \<and> sys_turns (list_queue 6) recorder (\<lambda>_ _ s. s) 3 s1 = Some t
    \<and> se_user (pb_env t) = [(2, MK_EVENT 1 2, 5), (3, MK_EVENT 1 2, 5), (2, MK_EVENT 1 2, 6)] \<and> se_freed (pb_env t) = [6]"
proof -
  let ?es = "[(1, 2, 5, False), (1, 2, 6, True), (4, 2, 7, False)] :: ev list"
  obtain rets s1 where s: "send_events (list_queue 6) 0 ?es demo_sys = (rets, s1)" by fastforce
  have len: "length ?es \<le> 6" by simp
  have n: "length ?es = 3" "replicate 3 (0::int) = [0, 0, 0]" by (simp_all add: numeral_3_eq_3)
  have b: "bus_run (map ev_pair ?es) (subs_of demo_sys [2, 3]) = [(2, MK_EVENT 1 2, 5), (3, MK_EVENT 1 2, 5), (2, MK_EVENT 1 2, 6)]"
    "ev_freed ?es = [6]"
    by (simp_all add: demo_sys_ok(3) ev_pair_def bus_calls_def sub_matches_def sub_stays_def ev_freed_def ALL_SUBTYPE_def)
  from sys_ctrl_delivers[OF lqueue.fifo_queue_axioms demo_sys_ok(1,2) len s, of "\<lambda>_ _ s. s"]
  show ?thesis using s unfolding b n demo_sys_ok(4,5) by auto
qed

lemma recorder_keeps:
  assumes "pub_ok head U xs s" "calling s xs"
  obtains cnt t ys where "notify recorder head event arg s = Some (cnt, t)" "pub_ok head U ys t" "calling t ys"
    "pb_env t = (pb_env s)\<lparr>se_user := se_user (pb_env s) @ bus_calls event arg (subs_of s xs)\<rparr>"
  by (rule notify_bus[OF assms]) blast

text \<open>Functions of messages that only write to the user's part, as the recorder's callbacks do.\<close>

definition user_fns :: "(u32 \<Rightarrow> event_msg \<Rightarrow> 'u \<Rightarrow> 'u) \<Rightarrow> u32 \<Rightarrow> event_msg \<Rightarrow> ('u, 'q) sys \<Rightarrow> ('u, 'q) sys" where
  "user_fns g n msg s = upd_env (\<lambda>e. e\<lparr>se_user := g n msg (se_user e)\<rparr>) s"

context fifo_queue begin

lemma handler_turn:
  assumes "ctrl_ok contents head U xs [msg] s" "calling s xs" "em_execute msg = Msg_fn n" "em_destruct msg = sys_handler_finish"
    "em_extra msg = [sem]"
  shows "\<exists>t ys. sys_turn os recorder (user_fns g) s = Some t \<and> ctrl_ok contents head U ys [] t \<and> se_sems (pb_env t) sem
    \<and> se_user (pb_env t) = g n msg (se_user (pb_env s)) @ bus_calls (em_event msg) (em_data msg) (subs_of s xs)"
proof -
  obtain q where q: "g_sys_queue (pb_env s) = Some q" "contents q = [msg]" using assms(1) by (auto simp: ctrl_ok_def)
  obtain q' where r: "normal_event_recv os 0xFFFFFFFF q = (0, Some msg, q')" "contents q' = []" using recv_ok[OF q(2)] by blast
  let ?s = "user_fns g n msg (set_queue q' s)"
  have s: "pub_ok head U xs ?s" "calling ?s xs" using assms(1,2) by (simp_all add: ctrl_ok_def set_queue_def user_fns_def)
  obtain cnt t ys where t: "notify recorder head (em_event msg) (em_data msg) ?s = Some (cnt, t)" "pub_ok head U ys t" "calling t ys"
    "pb_env t = (pb_env ?s)\<lparr>se_user := se_user (pb_env ?s) @ bus_calls (em_event msg) (em_data msg) (subs_of ?s xs)\<rparr>"
    by (rule recorder_keeps[OF s])
  have "sys_turn os recorder (user_fns g) s = Some (call_fn (user_fns g) sys_handler_finish msg t)"
    using q(1) r(1) t(1) assms(1,3,4) by (simp add: sys_turn_def main_looper_def Let_def publisher_main_def call_fn_def ctrl_ok_def)
  then show ?thesis
    using t(2,4) r(2) assms(1,5) by (auto simp: call_fn_def ctrl_ok_def set_queue_def user_fns_def)
qed

lemma handler_finishes:
  assumes "ctrl_ok contents head U xs [] s" "calling s xs" "0 < capacity"
  shows "\<exists>t ys. sys_handler_send_wait_finish os (sys_turn os recorder (user_fns g)) sem (Msg_fn n) dat wait_ms s = Some (0, t)
    \<and> ctrl_ok contents head U ys [] t
    \<and> se_user (pb_env t) = g n \<lparr>em_execute = Msg_fn n, em_destruct = sys_handler_finish, em_event = MK_EVENT CTRL_MSG_TYPE_HANDLER ALL_SUBTYPE,
         em_data = dat, em_extra = [sem]\<rparr> (se_user (pb_env s))
       @ bus_calls (MK_EVENT CTRL_MSG_TYPE_HANDLER ALL_SUBTYPE) dat (subs_of s xs)"
proof -
  let ?msg = "\<lparr>em_execute = Msg_fn n, em_destruct = sys_handler_finish, em_event = MK_EVENT CTRL_MSG_TYPE_HANDLER ALL_SUBTYPE,
         em_data = dat, em_extra = [sem]\<rparr>"
  let ?s = "upd_env (\<lambda>e. e\<lparr>se_sems := (se_sems e)(sem := False)\<rparr>) s"
  obtain q where q: "g_sys_queue (pb_env s) = Some q" "contents q = []" using assms(1) by (auto simp: ctrl_ok_def)
  obtain q' where s: "normal_event_send os ?msg wait_ms q = (0, q')" "contents q' = [?msg]"
    using send_ok[of q ?msg wait_ms] q(2) assms(3) by auto
  have ok: "ctrl_ok contents head U xs [?msg] (set_queue q' ?s)" "calling (set_queue q' ?s) xs"
    using assms(1,2) s(2) by (simp_all add: ctrl_ok_def set_queue_def)
  obtain t ys where t: "sys_turn os recorder (user_fns g) (set_queue q' ?s) = Some t" "ctrl_ok contents head U ys [] t" "se_sems (pb_env t) sem"
    "se_user (pb_env t) = g n ?msg (se_user (pb_env (set_queue q' ?s))) @ bus_calls (em_event ?msg) (em_data ?msg) (subs_of (set_queue q' ?s) xs)"
    using handler_turn[OF ok, of n sem g] by auto
  have "\<not> se_sems (pb_env (set_queue q' ?s)) sem" by (simp add: set_queue_def)
  then have "sys_handler_send_wait_finish os (sys_turn os recorder (user_fns g)) sem (Msg_fn n) dat wait_ms s
      = Some (0, upd_env (\<lambda>e. e\<lparr>se_sems := (se_sems e)(sem := False)\<rparr>) t)"
    using q(1) s(1) t(1,3) by (simp add: sys_handler_send_wait_finish_def sys_event_handler_send_wait_finish_def queue_send_def Let_def)
  then show ?thesis using t(2,4) by (auto simp: ctrl_ok_def set_queue_def)
qed

end

text \<open>C35. Handing a function to the controller and waiting for it ends as soon as the looper has had a turn: the
  function has then been run exactly once, with its data, the observers of handler events have been called after it,
  and the caller gets 0.\<close>

theorem sys_handler_finishes:
  assumes "fifo_queue os contents capacity" "ctrl_ok contents head U xs [] s" "calling s xs" "0 < capacity"
  shows "\<exists>t ys. sys_handler_send_wait_finish os (sys_turn os recorder (user_fns g)) sem (Msg_fn n) dat wait_ms s = Some (0, t)
    \<and> ctrl_ok contents head U ys [] t
    \<and> se_user (pb_env t) = g n \<lparr>em_execute = Msg_fn n, em_destruct = sys_handler_finish, em_event = MK_EVENT CTRL_MSG_TYPE_HANDLER ALL_SUBTYPE,
         em_data = dat, em_extra = [sem]\<rparr> (se_user (pb_env s))
       @ bus_calls (MK_EVENT CTRL_MSG_TYPE_HANDLER ALL_SUBTYPE) dat (subs_of s xs)"
  by (rule fifo_queue.handler_finishes[OF assms])

theorem sys_handler_finishes_witness:
  "\<exists>t. sys_handler_send_wait_finish (list_queue 6) (sys_turn (list_queue 6) recorder (user_fns (\<lambda>n m u. u @ [(0, n, em_data m)]))) 100 (Msg_fn 4) 9 0 demo_sys
     = Some (0, t) \<and> se_user (pb_env t) = [(0, 4, 9)]"
proof -
  have b: "bus_calls (MK_EVENT CTRL_MSG_TYPE_HANDLER ALL_SUBTYPE) 9 (subs_of demo_sys [2, 3]) = []"
    by (simp add: demo_sys_ok(3) bus_calls_def sub_matches_def ALL_SUBTYPE_def CTRL_MSG_TYPE_HANDLER_def)
  have "(0::nat) < 6" by simp
  from sys_handler_finishes[OF lqueue.fifo_queue_axioms demo_sys_ok(1,2) this, of "\<lambda>n m u. u @ [(0, n, em_data m)]" 100 4 9 0]
  show ?thesis unfolding b demo_sys_ok(4) by auto
qed

text \<open>Before the controller exists every call reports an error and changes nothing.\<close>

lemma sys_ctrl_not_created:
  assumes "g_sys_queue (pb_env s) = None" "g_sys_publisher (pb_env s) = None"
  shows "sys_ctrl_attach a s = (-1, s)" "sys_ctrl_touch a s = (-1, s)" "sys_ctrl_detach a s = (-1, s)"
    "sys_event_send os ty sub dat wait_ms s = (-1, s)" "sys_event_send_with_free os ty sub dat wait_ms s = (-1, s)"
    "sys_event_send_with_destruct os ty sub dat d wait_ms s = (-1, s)" "sys_handler_send os exec dat wait_ms s = (-1, s)"
    "sys_handler_send_wait_finish os others sem exec dat wait_ms s = Some (-1, s)"
  using assms by (simp_all add: sys_ctrl_attach_def sys_ctrl_touch_def sys_ctrl_detach_def sys_event_send_def sys_event_send_with_free_def
      sys_event_send_with_destruct_def sys_handler_send_def sys_event_handler_send_def sys_handler_send_wait_finish_def
      sys_event_handler_send_wait_finish_def)

text \<open>Without the memory of the publisher's factory \<open>sys_ctrl_create\<close> calls through a null pointer; when the memory for
  a whole message cannot be had the looper's buffer is that of a shorter one.\<close>

lemma sys_ctrl_create_null:
  "g_sys_publisher (pb_env s) = None \<Longrightarrow> queue \<noteq> None \<Longrightarrow> \<not> pm_ctor pm \<Longrightarrow> sys_ctrl_create queue pm lm s = None"
  by (auto simp: sys_ctrl_create_def publisher_factory_create_def upd_env_def Let_def split: option.split)

lemma looper_buffer_short:
  "looper_factory_create lm \<Longrightarrow> lm_thread lm \<Longrightarrow> \<not> lm_msg lm \<Longrightarrow> \<exists>n < sys_ctrl_msg_size. create_looper lm sys_ctrl_msg_size = Some (Some n)"
  by (auto simp: create_looper_def sys_ctrl_msg_size_def)

end
