(* ===== verification/SmartConfig.thy ===== *)
theory SmartConfig
  imports Prelude
begin

unbundle bit_operations_syntax

text \<open>
  The smart configuration decoder, \<^verbatim>\<open>src/smartlink/smartconfig\<close>: a phone sends SSID and password of an access
  point in the destination addresses of multicast frames, which the device overhears; \<^verbatim>\<open>smart_config_decode.c\<close>
  collects them and \<^verbatim>\<open>smart_config_main.c\<close> keeps the state and hands out the result.
\<close>

section \<open>State\<close>

datatype SMART_CONFIG_STATUS_T = SC_STATUS_END | SC_STATUS_SEARCH_CHAN | SC_STATUS_LOCKED_CHAN | SC_STATUS_COMPLETE

datatype LEADCODE_SEQ = LEAD_CODE_NOME | LEAD_CODE_GET_CHANNEL | LEAD_CODE_GET_SSIDPWD_SIZE | LEAD_CODE_GET_PWD_SIZE
  | LEAD_CODE_GET_ROUND_NUM | LEAD_CODE_COMPLETE

record sc_lead_code =
  lc_channel :: int
  lc_ssidpwd_len :: int
  lc_pwd_len :: int
  lc_packet_total :: int
  lc_packet_count :: int
  lc_random :: u8
  lc_locked_mac_flag :: bool
  lc_lead_complete_flag :: bool
  lc_count_pkt :: "u8 list"

text \<open>\<open>sc_result\<close> is kept as the bytes it is in memory: 32 of the SSID, 64 of the password, the two lengths, the
  random number.  Accesses beyond it, and beyond the 128 bytes of \<open>sc_src\<close>, are \<open>None\<close>.\<close>

record smartconfig_priv =
  sc_aes_key :: "u8 list"
  sc_lead :: sc_lead_code
  sc_status :: SMART_CONFIG_STATUS_T
  sc_result :: "u8 list"
  sc_src :: "u8 list"

definition WLAN_SSID_MAX_LEN :: nat where "WLAN_SSID_MAX_LEN = 32"
definition WLAN_PASSPHRASE_MAX_LEN :: nat where "WLAN_PASSPHRASE_MAX_LEN = 63"
definition SC_MAX_SSIDPSK_LEN :: nat where "SC_MAX_SSIDPSK_LEN = 128"

definition PWD :: nat where "PWD = WLAN_SSID_MAX_LEN"
definition SSID_LEN :: nat where "SSID_LEN = PWD + WLAN_PASSPHRASE_MAX_LEN + 1"
definition PWD_LEN :: nat where "PWD_LEN = SSID_LEN + 1"
definition RANDOM :: nat where "RANDOM = PWD_LEN + 1"

definition sc_reset_lead_code :: sc_lead_code where
  "sc_reset_lead_code = \<lparr>lc_channel = 0, lc_ssidpwd_len = 0, lc_pwd_len = -1, lc_packet_total = 0, lc_packet_count = 0, lc_random = 0,
     lc_locked_mac_flag = False, lc_lead_complete_flag = False, lc_count_pkt = replicate 16 0\<rparr>"

section \<open>The checksum\<close>

definition CRC8_POLY :: u8 where "CRC8_POLY = 0x31"

definition crc8_shift :: "u8 \<Rightarrow> u8" where
  "crc8_shift crc = (if crc AND 1 \<noteq> 0 then drop_bit 1 crc XOR CRC8_POLY else drop_bit 1 crc)"

definition crc8_byte :: "u8 \<Rightarrow> u8 \<Rightarrow> u8" where
  "crc8_byte b crc = (crc8_shift ^^ 8) (crc XOR b)"

definition cal_crc8 :: "u8 list \<Rightarrow> u8" where
  "cal_crc8 bs = fold crc8_byte bs 0"

section \<open>Counting the packets\<close>

text \<open>A bit per packet: whether it is a new one.\<close>

definition count_bit :: "u8 \<Rightarrow> u8" where
  "count_bit packet_num = push_bit (8 - unat packet_num mod 8 - 1) 1"

definition dec_valid_packet_count :: "u8 list \<Rightarrow> u8 \<Rightarrow> (bool \<times> u8 list) option" where
  "dec_valid_packet_count count_pkt packet_num =
     (if packet_num > 127 then Some (False, count_pkt)
      else do {
        b \<leftarrow> rd count_pkt (unat packet_num div 8);
        if b AND count_bit packet_num > 0 then Some (False, count_pkt)
        else do { c \<leftarrow> wr count_pkt (unat packet_num div 8) (b OR count_bit packet_num); Some (True, c) }
      })"

text \<open>Saving SSID and password data: two bytes at a time, the low one first.\<close>

definition dec_push_data :: "u8 \<Rightarrow> u16 \<Rightarrow> smartconfig_priv \<Rightarrow> (int \<times> smartconfig_priv) option" where
  "dec_push_data packet_num dat p = do {
     let packet_num = packet_num - 5;
     (new, c) \<leftarrow> dec_valid_packet_count (lc_count_pkt (sc_lead p)) packet_num;
     let lc = (sc_lead p)\<lparr>lc_count_pkt := c, lc_packet_count := lc_packet_count (sc_lead p) + (if new then 1 else 0)\<rparr>;
     src \<leftarrow> wr_block (sc_src p) (2 * unat packet_num) (le2 dat);
     Some (lc_packet_count lc - lc_packet_total lc, p\<lparr>sc_lead := lc, sc_src := src\<rparr>)
   }"

section \<open>The lead codes\<close>

text \<open>\<open>i_addr3\<close> is at byte 16 of the frame; its fifth byte is the datum of a lead code, its sixth the checksum.\<close>

definition i_addr3 :: "u8 list \<Rightarrow> nat \<Rightarrow> u8" where
  "i_addr3 frame k = frame ! (16 + k)"

definition lead_known :: "SMART_CONFIG_STATUS_T \<Rightarrow> sc_lead_code \<Rightarrow> bool" where
  "lead_known status lc \<longleftrightarrow> \<not> (status \<noteq> SC_STATUS_LOCKED_CHAN \<or> lc_ssidpwd_len lc = 0 \<or> lc_pwd_len lc = -1 \<or> lc_random lc = 0)"

definition dec_get_lead_code ::
  "u8 list \<Rightarrow> sc_lead_code \<Rightarrow> u8 \<Rightarrow> SMART_CONFIG_STATUS_T \<Rightarrow> LEADCODE_SEQ \<times> sc_lead_code \<times> SMART_CONFIG_STATUS_T" where
  "dec_get_lead_code frame lc packet_num status =
     (let dat = i_addr3 frame 4; crc = i_addr3 frame 5 in
      if packet_num = 0 \<or> packet_num > 4 then (LEAD_CODE_NOME, lc, status)
      else if lead_known status lc then (LEAD_CODE_COMPLETE, lc\<lparr>lc_locked_mac_flag := False\<rparr>, status)
      else if cal_crc8 [dat] \<noteq> crc then (LEAD_CODE_NOME, lc, status)
      else let lc = lc\<lparr>lc_locked_mac_flag := True\<rparr> in
      if packet_num = 1 then (LEAD_CODE_GET_CHANNEL, lc\<lparr>lc_channel := uint dat\<rparr>, SC_STATUS_LOCKED_CHAN)
      else if packet_num = 2 then
        (LEAD_CODE_GET_SSIDPWD_SIZE, lc\<lparr>lc_ssidpwd_len := uint dat, lc_packet_total := uint dat div 2 + 1 + uint dat mod 2\<rparr>, status)
      else if packet_num = 3 then (LEAD_CODE_GET_PWD_SIZE, lc\<lparr>lc_pwd_len := uint dat\<rparr>, status)
      else (LEAD_CODE_GET_ROUND_NUM, lc\<lparr>lc_random := dat\<rparr>, status))"


section \<open>Decoding\<close>

text \<open>The padding the phone adds before encrypting: as many bytes as it says, each of that value.  The loop looks at
  the bytes from the last one down; \<open>None\<close> is a look before the first.\<close>

fun pad_ok :: "u8 list \<Rightarrow> nat \<Rightarrow> nat \<Rightarrow> nat \<Rightarrow> bool option" where
  "pad_ok temp sz dlen 0 = Some True"
| "pad_ok temp sz dlen (Suc n) =
     (let i = dlen - Suc n in
      if sz < i + 1 then None
      else do { v \<leftarrow> rd temp (sz - 1 - i); if unat v \<noteq> dlen then Some False else pad_ok temp sz dlen n })"

text \<open>Decrypting one of the two parts into a cleared buffer of \<open>cap\<close> bytes, and storing it at \<open>off\<close> with its length
  at \<open>len_off\<close>.  The first component says whether decoding goes on; a failure of the cipher is only reported.\<close>

definition aes_part ::
  "(u8 list \<Rightarrow> u8 list \<Rightarrow> u8 list option) \<Rightarrow> u8 list \<Rightarrow> nat \<Rightarrow> nat \<Rightarrow> nat \<Rightarrow> u8 list \<Rightarrow> u8 list \<Rightarrow> (bool \<times> u8 list) option" where
  "aes_part aes key cap off len_off dat res =
     (if dat = [] then Some (True, res)
      else case aes key dat of None \<Rightarrow> Some (True, res)
        | Some plain \<Rightarrow> do {
            temp \<leftarrow> wr_block (replicate cap 0) 0 plain;
            d \<leftarrow> rd temp (length dat - 1);
            ok \<leftarrow> pad_ok temp (length dat) (unat d) (unat d);
            if \<not> ok then Some (False, res)
            else do {
              res \<leftarrow> wr res len_off (of_nat (length dat) - d);
              res \<leftarrow> wr_block res off (c_string temp);
              Some (True, res)
            }
          })"

definition part_lens :: "sc_lead_code \<Rightarrow> nat \<times> nat" where
  "part_lens lc = (unat (word_of_int (lc_ssidpwd_len lc - lc_pwd_len lc) :: u8), unat (word_of_int (lc_pwd_len lc) :: u8))"

text \<open>Storing SSID and password in the result: with a key, and without.\<close>

definition decode_store ::
  "(u8 list \<Rightarrow> u8 list \<Rightarrow> u8 list option) \<Rightarrow> smartconfig_priv \<Rightarrow> (bool \<times> u8 list) option" where
  "decode_store aes p =
     (case part_lens (sc_lead p) of (src_ssid_size, src_pwd_size) \<Rightarrow> do {
        key0 \<leftarrow> rd (sc_aes_key p) 0;
        if key0 \<noteq> 0 then
          if src_pwd_size \<ge> 66 \<or> src_ssid_size \<ge> 65 then Some (False, sc_result p)
          else do {
            pwd \<leftarrow> rd_block (sc_src p) 0 src_pwd_size;
            (ok, res) \<leftarrow> aes_part aes (sc_aes_key p) 66 PWD PWD_LEN pwd (sc_result p);
            if \<not> ok then Some (False, res)
            else do {
              ssid \<leftarrow> rd_block (sc_src p) src_pwd_size src_ssid_size;
              aes_part aes (sc_aes_key p) 65 0 SSID_LEN ssid res
            }
          }
        else do {
          res \<leftarrow> wr (sc_result p) SSID_LEN (of_nat src_ssid_size);
          res \<leftarrow> wr res PWD_LEN (of_nat src_pwd_size);
          ssid \<leftarrow> rd_block (sc_src p) src_pwd_size src_ssid_size;
          res \<leftarrow> wr_block res 0 ssid;
          pwd \<leftarrow> rd_block (sc_src p) 0 src_pwd_size;
          res \<leftarrow> wr_block res PWD pwd;
          Some (True, res)
        }
      })"

text \<open>Both strings are ended by a NUL.\<close>

definition decode_end :: "u8 list \<Rightarrow> u8 list option" where
  "decode_end res = do {
     n \<leftarrow> rd res PWD_LEN;
     res \<leftarrow> wr res (PWD + unat n) 0;
     n \<leftarrow> rd res SSID_LEN;
     wr res (unat n) 0
   }"

definition part_crc :: "u8 list \<Rightarrow> nat \<Rightarrow> nat \<Rightarrow> u8 option" where
  "part_crc res off len_off = do { n \<leftarrow> rd res len_off; bs \<leftarrow> rd_block res off (unat n); Some (cal_crc8 bs) }"

definition dec_data_decode :: "(u8 list \<Rightarrow> u8 list \<Rightarrow> u8 list option) \<Rightarrow> smartconfig_priv \<Rightarrow> (int \<times> smartconfig_priv) option" where
  "dec_data_decode aes p = do {
     (ok, res) \<leftarrow> decode_store aes p;
     if \<not> ok then Some (-1, p\<lparr>sc_result := res\<rparr>)
     else do {
       res \<leftarrow> decode_end res;
       res \<leftarrow> wr res RANDOM (lc_random (sc_lead p));
       let p = p\<lparr>sc_result := res\<rparr>;
       let at = nat (lc_ssidpwd_len (sc_lead p) + lc_ssidpwd_len (sc_lead p) mod 2);
       crc8_pwd \<leftarrow> rd (sc_src p) at;
       c \<leftarrow> part_crc res PWD PWD_LEN;
       let cleared = p\<lparr>sc_src := (sc_src p)[0 := 0]\<rparr>;
       if c \<noteq> crc8_pwd then Some (-1, cleared)
       else do {
         crc8_ssid \<leftarrow> rd (sc_src p) (at + 1);
         c \<leftarrow> part_crc res 0 SSID_LEN;
         if c \<noteq> crc8_ssid then Some (-1, cleared) else Some (0, cleared)
       }
     }
   }"

section \<open>Packets\<close>

definition sc_dec_packet_decode ::
  "(u8 list \<Rightarrow> u8 list \<Rightarrow> u8 list option) \<Rightarrow> smartconfig_priv \<Rightarrow> u8 list \<Rightarrow> (SMART_CONFIG_STATUS_T \<times> smartconfig_priv) option" where
  "sc_dec_packet_decode aes p frame =
     (let packet_num = i_addr3 frame 3; lc = sc_lead p in
      if \<not> (i_addr3 frame 0 = 0x01 \<and> i_addr3 frame 1 = 0x00 \<and> i_addr3 frame 2 = 0x5E) then Some (sc_status p, p)
      else if packet_num > 0 \<and> packet_num < 5 then
        if lc_lead_complete_flag lc then Some (sc_status p, p)
        else case dec_get_lead_code frame lc packet_num (sc_status p) of (ret, lc, status) \<Rightarrow>
          Some (status, p\<lparr>sc_lead := (if ret = LEAD_CODE_COMPLETE then lc\<lparr>lc_lead_complete_flag := True\<rparr> else lc)\<rparr>)
      else if \<not> lc_lead_complete_flag lc then Some (sc_status p, p)
      else do {
        (d, p) \<leftarrow> (if packet_num \<le> 127
                   then dec_push_data packet_num (ucast (i_addr3 frame 4) OR push_bit 8 (ucast (i_addr3 frame 5))) p
                   else Some (0, p));
        if d \<noteq> 0 then Some (sc_status p, p)
        else if sc_status p \<noteq> SC_STATUS_COMPLETE \<and> lc_packet_total (sc_lead p) = lc_packet_count (sc_lead p) then do {
          (ret, p) \<leftarrow> dec_data_decode aes p;
          if ret \<noteq> 0 then Some (SC_STATUS_END, p\<lparr>sc_lead := sc_reset_lead_code, sc_src := (sc_src p)[0 := 0]\<rparr>)
          else Some (SC_STATUS_COMPLETE, p)
        }
        else Some (sc_status p, p)
      })"

text \<open>What the assistant is told about a change of the status; \<open>frame\<close> is what was received.\<close>

datatype sca_notice = SCA_STATUS_COMPLETE | SCA_STATUS_CHANNEL_LOCKED "u8 list"

definition ap_mac :: "u8 list \<Rightarrow> u8 list" where
  "ap_mac frame =
     (let dir = frame ! 1 AND 0x03 in
      take 6 (drop (if dir = 0 then 16 else if dir = 2 then 10 else 4) frame))"

definition smartconfig_recv_rawframe ::
  "(u8 list \<Rightarrow> u8 list \<Rightarrow> u8 list option) \<Rightarrow> u8 list \<Rightarrow> smartconfig_priv option \<Rightarrow> (sca_notice list \<times> smartconfig_priv option) option" where
  "smartconfig_recv_rawframe aes frame sc =
     (case sc of None \<Rightarrow> Some ([], None)
      | Some p \<Rightarrow>
          if length frame < 24 then Some ([], Some p)
          else do {
            (status, p) \<leftarrow> sc_dec_packet_decode aes p frame;
            if status = SC_STATUS_COMPLETE \<and> sc_status p \<noteq> SC_STATUS_COMPLETE
            then Some ([SCA_STATUS_COMPLETE], Some (p\<lparr>sc_status := status\<rparr>))
            else if status = SC_STATUS_LOCKED_CHAN \<and> sc_status p \<noteq> status
            then Some ([SCA_STATUS_CHANNEL_LOCKED (ap_mac frame)], Some (p\<lparr>sc_status := status\<rparr>))
            else Some ([], Some p)
          })"

text \<open>The result handed out: SSID, password and random number.\<close>

definition smartconfig_get_result :: "smartconfig_priv option \<Rightarrow> (int \<times> (u8 list \<times> u8 list \<times> u8) option) option" where
  "smartconfig_get_result sc =
     (case sc of None \<Rightarrow> Some (-1, None)
      | Some p \<Rightarrow> do {
          ssid_len \<leftarrow> rd (sc_result p) SSID_LEN;
          pwd_len \<leftarrow> rd (sc_result p) PWD_LEN;
          if unat ssid_len > WLAN_SSID_MAX_LEN then Some (-1, None)
          else if unat pwd_len > WLAN_PASSPHRASE_MAX_LEN then Some (-1, None)
          else do {
            ssid \<leftarrow> rd_block (sc_result p) 0 (unat ssid_len);
            pwd \<leftarrow> rd_block (sc_result p) PWD (unat pwd_len);
            random \<leftarrow> rd (sc_result p) RANDOM;
            Some (0, Some (ssid, pwd, random))
          }
        })"

text \<open>Starting: \<open>mem\<close> says whether there is memory, \<open>monitor\<close> whether the callbacks could be registered; the key
  must have 16 bytes.\<close>

definition wlan_smart_config_start :: "bool \<Rightarrow> bool \<Rightarrow> bool \<Rightarrow> u8 list option \<Rightarrow> smartconfig_priv option \<Rightarrow> int \<times> smartconfig_priv option" where
  "wlan_smart_config_start nif mem monitor key sc =
     (if \<not> nif then (-1, sc)
      else if sc \<noteq> None then (-1, sc)
      else if \<not> mem then (-12, None)
      else let p = \<lparr>sc_aes_key = replicate 16 0, sc_lead = sc_reset_lead_code, sc_status = SC_STATUS_SEARCH_CHAN,
             sc_result = replicate 99 0, sc_src = replicate 128 0\<rparr> in
        case key of
          None \<Rightarrow> if monitor then (0, Some p) else (-1, None)
        | Some k \<Rightarrow> if length k \<noteq> 16 then (-1, None)
                    else if monitor then (0, Some (p\<lparr>sc_aes_key := k\<rparr>)) else (-1, None))"

definition wlan_smart_config_get_status :: "smartconfig_priv option \<Rightarrow> SMART_CONFIG_STATUS_T" where
  "wlan_smart_config_get_status sc = (case sc of None \<Rightarrow> SC_STATUS_END | Some p \<Rightarrow> sc_status p)"

definition sc_read_locked_channel :: "smartconfig_priv \<Rightarrow> u16" where
  "sc_read_locked_channel p = word_of_int (lc_channel (sc_lead p))"


section \<open>The bit per packet\<close>

definition got :: "u8 list \<Rightarrow> nat \<Rightarrow> bool" where
  "got c i \<longleftrightarrow> bit (c ! (i div 8)) (7 - i mod 8)"

lemma count_bit_and: "b AND count_bit n > 0 \<longleftrightarrow> bit b (7 - unat n mod 8)" for b :: u8
proof -
  have c: "count_bit n = push_bit (7 - unat n mod 8) 1" by (simp add: count_bit_def)
  have "b AND count_bit n \<noteq> 0 \<longleftrightarrow> bit b (7 - unat n mod 8)"
  proof
    assume "bit b (7 - unat n mod 8)"
    then have "bit (b AND count_bit n) (7 - unat n mod 8)" by (simp add: c bit_simps del: push_bit_of_1)
    then show "b AND count_bit n \<noteq> 0" by force
  next
    assume "b AND count_bit n \<noteq> 0"
    then obtain k where "bit (b AND count_bit n) k" by (metis bit_eqI bit_0_eq bot_apply bot_bool_def)
    then have "bit b k" "k = 7 - unat n mod 8" by (auto simp: c bit_simps simp del: push_bit_of_1)
    then show "bit b (7 - unat n mod 8)" by simp
  qed
  then show ?thesis by (simp add: word_gt_0)
qed

lemma got_set:
  assumes "length c = 16" "i < 128" "j < 128" "n = of_nat i"
  shows "got (c[i div 8 := c ! (i div 8) OR count_bit n]) j \<longleftrightarrow> j = i \<or> got c j"
proof -
  have n: "unat n = i" using assms(2,4) by (simp add: unsigned_of_nat take_bit_nat_eq_self)
  have b: "bit (count_bit n) k \<longleftrightarrow> k = 7 - i mod 8" for k
    by (auto simp: count_bit_def n bit_simps simp del: push_bit_of_1)
  have "i mod 8 < 8" "j mod 8 < 8" by simp_all
  then have e: "7 - j mod 8 = 7 - i mod 8 \<longleftrightarrow> j mod 8 = i mod 8" by linarith
  show ?thesis
  proof (cases "j div 8 = i div 8")
    case True
    then have "j = i \<longleftrightarrow> j mod 8 = i mod 8" by (metis div_mult_mod_eq)
    then show ?thesis using True assms(1,2) e by (auto simp: got_def bit_or_iff b)
  next
    case False
    then show ?thesis using assms(1) by (auto simp: got_def)
  qed
qed

lemma valid_packet_count:
  assumes "length c = 16" "i < 128"
  obtains c' where "dec_valid_packet_count c (of_nat i) = Some (\<not> got c i, c')" "length c' = 16" "\<And>j. j < 128 \<Longrightarrow> got c' j \<longleftrightarrow> j = i \<or> got c j"
proof -
  have n: "unat (of_nat i :: u8) = i" using assms(2) by (simp add: unsigned_of_nat take_bit_nat_eq_self)
  have le: "\<not> (of_nat i :: u8) > 127" using assms(2) by (simp add: word_less_nat_alt n)
  have d: "i div 8 < 16" using assms(2) by linarith
  show ?thesis
  proof (cases "got c i")
    case True
    have "dec_valid_packet_count c (of_nat i) = Some (False, c)"
      using True le d assms(1) count_bit_and[of "c ! (i div 8)" "of_nat i"] by (simp add: dec_valid_packet_count_def n got_def)
    then show ?thesis using that[of c] True assms(1) by auto
  next
    case False
    have "dec_valid_packet_count c (of_nat i) = Some (True, c[i div 8 := c ! (i div 8) OR count_bit (of_nat i)])"
      using False le d assms(1) count_bit_and[of "c ! (i div 8)" "of_nat i"] by (simp add: dec_valid_packet_count_def n got_def)
    then show ?thesis using that[of "c[i div 8 := c ! (i div 8) OR count_bit (of_nat i)]"] False assms(1)
        got_set[OF assms _ refl] assms(2) by simp
  qed
qed

lemma got_zero: "j < 128 \<Longrightarrow> \<not> got (replicate 16 0) j"
  by (simp add: got_def)


section \<open>The message\<close>

text \<open>What the phone sends after the lead codes: password, SSID, a byte to make the length even, the two checksums.\<close>

definition sc_message :: "u8 \<Rightarrow> u8 list \<Rightarrow> u8 list \<Rightarrow> u8 list" where
  "sc_message pad ssid pwd =
     pwd @ ssid @ (if odd (length pwd + length ssid) then [pad] else []) @ [cal_crc8 pwd, cal_crc8 ssid]"

definition sc_total :: "u8 list \<Rightarrow> u8 list \<Rightarrow> nat" where
  "sc_total ssid pwd = (length pwd + length ssid) div 2 + 1 + (length pwd + length ssid) mod 2"

lemma length_sc_message: "length (sc_message pad ssid pwd) = 2 * sc_total ssid pwd"
proof -
  define n where "n = length pwd + length ssid"
  have "n + (if odd n then 1 else 0) + 2 = 2 * (n div 2 + 1 + n mod 2)"
    by (cases "even n") (auto elim!: evenE oddE)
  moreover have "length (sc_message pad ssid pwd) = n + (if odd n then 1 else 0) + 2"
    unfolding n_def by (simp add: sc_message_def)
  ultimately show ?thesis unfolding sc_total_def n_def by simp
qed

text \<open>A frame with number \<open>n\<close> and two bytes, and the frame of the \<open>i\<close>-th two bytes of a message.\<close>

definition sc_frame :: "u8 \<Rightarrow> u8 \<Rightarrow> u8 \<Rightarrow> u8 list \<Rightarrow> bool" where
  "sc_frame n b0 b1 f \<longleftrightarrow> 24 \<le> length f \<and> i_addr3 f 0 = 0x01 \<and> i_addr3 f 1 = 0x00 \<and> i_addr3 f 2 = 0x5E
     \<and> i_addr3 f 3 = n \<and> i_addr3 f 4 = b0 \<and> i_addr3 f 5 = b1"

definition data_frame :: "u8 list \<Rightarrow> nat \<Rightarrow> u8 list \<Rightarrow> bool" where
  "data_frame m i f \<longleftrightarrow> sc_frame (of_nat (i + 5)) (m ! (2 * i)) (m ! (2 * i + 1)) f"

text \<open>The lead codes are known and the packets of \<open>S\<close> have come.\<close>

definition lead_is :: "u8 list \<Rightarrow> u8 list \<Rightarrow> u8 \<Rightarrow> nat set \<Rightarrow> sc_lead_code \<Rightarrow> bool" where
  "lead_is ssid pwd rnd S lc \<longleftrightarrow> lc_lead_complete_flag lc \<and> lc_ssidpwd_len lc = int (length pwd + length ssid)
     \<and> lc_pwd_len lc = int (length pwd) \<and> lc_packet_total lc = int (sc_total ssid pwd) \<and> lc_packet_count lc = int (card S)
     \<and> lc_random lc = rnd \<and> length (lc_count_pkt lc) = 16 \<and> (\<forall>i<128. got (lc_count_pkt lc) i \<longleftrightarrow> i \<in> S)"

definition sizes_ok :: "smartconfig_priv \<Rightarrow> bool" where
  "sizes_ok p \<longleftrightarrow> length (sc_src p) = 128 \<and> length (sc_result p) = 99 \<and> length (sc_aes_key p) = 16"

definition collecting :: "u8 \<Rightarrow> u8 list \<Rightarrow> u8 list \<Rightarrow> u8 \<Rightarrow> nat set \<Rightarrow> smartconfig_priv \<Rightarrow> bool" where
  "collecting pad ssid pwd rnd S p \<longleftrightarrow> sizes_ok p \<and> sc_status p = SC_STATUS_LOCKED_CHAN \<and> sc_aes_key p ! 0 = 0
     \<and> lead_is ssid pwd rnd S (sc_lead p)
     \<and> (\<forall>i\<in>S. sc_src p ! (2 * i) = sc_message pad ssid pwd ! (2 * i) \<and> sc_src p ! (2 * i + 1) = sc_message pad ssid pwd ! (2 * i + 1))"

definition complete :: "u8 list \<Rightarrow> u8 list \<Rightarrow> u8 \<Rightarrow> smartconfig_priv \<Rightarrow> bool" where
  "complete ssid pwd rnd p \<longleftrightarrow> sizes_ok p \<and> sc_status p = SC_STATUS_COMPLETE \<and> lead_is ssid pwd rnd {..<sc_total ssid pwd} (sc_lead p)
     \<and> smartconfig_get_result (Some p) = Some (0, Some (ssid, pwd, rnd))"

text \<open>Storing two bytes.\<close>

lemma wr_le2: "2 * i + 1 < length src \<Longrightarrow> wr_block src (2 * i) (le2 (ucast b0 OR push_bit 8 (ucast b1))) = Some (src[2 * i := b0, 2 * i + 1 := b1])"
  for b0 b1 :: u8
proof -
  assume l: "2 * i + 1 < length src"
  have b: "(ucast (ucast b0 OR push_bit 8 (ucast b1) :: u16) :: u8) = b0" "(ucast (drop_bit 8 (ucast b0 OR push_bit 8 (ucast b1) :: u16)) :: u8) = b1"
    by (rule bit_eqI; auto simp: bit_simps dest: bit_imp_le_length)+
  have upd: "(A @ x # y # B)[length A := b0, length A + 1 := b1] = A @ [b0, b1] @ B" for A x y B
    by (simp add: list_update_append)
  have len: "length (take (2 * i) src) = 2 * i" using l by simp
  have e: "src = take (2 * i) src @ src ! (2 * i) # src ! (2 * i + 1) # drop (2 * i + 2) src"
    using l by (metis Cons_nth_drop_Suc Suc_eq_plus1 Suc_lessD add_2_eq_Suc' append_take_drop_id)
  have "src[2 * i := b0, 2 * i + 1 := b1] = take (2 * i) src @ [b0, b1] @ drop (2 * i + 2) src"
    using upd[of "take (2 * i) src" "src ! (2 * i)" "src ! (2 * i + 1)" "drop (2 * i + 2) src"] unfolding len e[symmetric] .
  then show ?thesis using l b by (simp add: wr_block_def le2_def)
qed

lemma push_data:
  assumes "lead_is ssid pwd rnd S (sc_lead p)" "sizes_ok p" "i < 64" "finite S"
  obtains p' where "dec_push_data (of_nat (i + 5)) (ucast b0 OR push_bit 8 (ucast b1)) p = Some (int (card (insert i S)) - int (sc_total ssid pwd), p')"
    "lead_is ssid pwd rnd (insert i S) (sc_lead p')" "p' = p\<lparr>sc_lead := sc_lead p', sc_src := (sc_src p)[2 * i := b0, 2 * i + 1 := b1]\<rparr>"
proof -
  let ?c = "lc_count_pkt (sc_lead p)"
  have five: "(of_nat (i + 5) :: u8) - 5 = of_nat i" by simp
  have n: "unat (of_nat i :: u8) = i" using assms(3) by (simp add: unsigned_of_nat take_bit_nat_eq_self)
  have c: "length ?c = 16" "i < 128" using assms(1,3) by (simp_all add: lead_is_def)
  obtain c' where c': "dec_valid_packet_count ?c (of_nat i) = Some (\<not> got ?c i, c')" "length c' = 16"
    "\<And>j. j < 128 \<Longrightarrow> got c' j \<longleftrightarrow> j = i \<or> got ?c j"
    by (rule valid_packet_count[OF c]) blast
  have g: "got ?c i \<longleftrightarrow> i \<in> S" using assms(1) c(2) by (simp add: lead_is_def)
  let ?lc = "(sc_lead p)\<lparr>lc_count_pkt := c', lc_packet_count := lc_packet_count (sc_lead p) + (if \<not> got ?c i then 1 else 0)\<rparr>"
  have src: "wr_block (sc_src p) (2 * i) (le2 (ucast b0 OR push_bit 8 (ucast b1))) = Some ((sc_src p)[2 * i := b0, 2 * i + 1 := b1])"
    using assms(2,3) by (intro wr_le2) (simp add: sizes_ok_def)
  have card: "lc_packet_count ?lc = int (card (insert i S))" using assms(1,4) g by (simp add: lead_is_def card_insert_if)
  have "lead_is ssid pwd rnd (insert i S) ?lc" using assms(1) c'(2,3) card by (simp add: lead_is_def)
  moreover have "dec_push_data (of_nat (i + 5)) (ucast b0 OR push_bit 8 (ucast b1)) p
      = Some (int (card (insert i S)) - int (sc_total ssid pwd), p\<lparr>sc_lead := ?lc, sc_src := (sc_src p)[2 * i := b0, 2 * i + 1 := b1]\<rparr>)"
    using c'(1) src card assms(1) unfolding dec_push_data_def five Let_def by (simp add: n lead_is_def)
  ultimately show ?thesis using that by simp
qed


section \<open>Reading back what was stored\<close>

lemma rd_block_upd: "i < off \<or> off + n \<le> i \<Longrightarrow> rd_block (xs[i := v]) off n = rd_block xs off n"
  by (auto simp: rd_block_def drop_update_swap take_update_cancel)

lemma wr_block_same: "wr_block xs i ys = Some zs \<Longrightarrow> rd_block zs i (length ys) = Some ys"
  by (auto simp: wr_block_def rd_block_def split: if_splits)

lemma wr_block_nth: "wr_block xs i ys = Some zs \<Longrightarrow> j < i \<or> i + length ys \<le> j \<Longrightarrow> j < length xs \<Longrightarrow> zs ! j = xs ! j"
  by (auto simp: wr_block_def nth_append split: if_splits)

lemma rd_block_cong:
  assumes "length zs = length xs" "\<And>j. off \<le> j \<Longrightarrow> j < off + n \<Longrightarrow> j < length xs \<Longrightarrow> zs ! j = xs ! j"
  shows "rd_block zs off n = rd_block xs off n"
  using assms by (auto simp: rd_block_def intro!: nth_equalityI)

lemma wr_block_other:
  assumes "wr_block xs i ys = Some zs" "off + n \<le> i \<or> i + length ys \<le> off"
  shows "rd_block zs off n = rd_block xs off n"
  by (rule rd_block_cong) (use wr_block_length[OF assms(1)] wr_block_nth[OF assms(1)] assms(2) in auto)

lemmas result_layout = PWD_def SSID_LEN_def PWD_LEN_def RANDOM_def WLAN_SSID_MAX_LEN_def WLAN_PASSPHRASE_MAX_LEN_def

lemma message_parts:
  fixes src :: "u8 list"
  assumes "\<And>k. k < 2 * sc_total ssid pwd \<Longrightarrow> src ! k = sc_message pad ssid pwd ! k" "2 * sc_total ssid pwd \<le> length src"
  shows "rd_block src 0 (length pwd) = Some pwd" "rd_block src (length pwd) (length ssid) = Some ssid"
    "src ! (length pwd + length ssid + (length pwd + length ssid) mod 2) = cal_crc8 pwd"
    "src ! (length pwd + length ssid + (length pwd + length ssid) mod 2 + 1) = cal_crc8 ssid"
    "length pwd + length ssid + (length pwd + length ssid) mod 2 + 1 < length src"
proof -
  let ?m = "sc_message pad ssid pwd"
  let ?n = "length pwd + length ssid"
  have l: "length ?m = 2 * sc_total ssid pwd" by (rule length_sc_message)
  have "length ?m = ?n + ?n mod 2 + 2"
    by (cases "even ?n") (auto simp: sc_message_def even_iff_mod_2_eq_zero odd_iff_mod_2_eq_one)
  then show "?n + ?n mod 2 + 1 < length src" using l assms(2) by simp
  have nth: "src ! k = ?m ! k" if "k < length ?m" for k using assms(1) that l by simp
  have t: "take (length ?m) src = ?m" using assms(2) l nth by (intro nth_equalityI) simp_all
  have blk: "rd_block src o' n = rd_block ?m o' n" if "o' + n \<le> length ?m" for o' n
  proof -
    have "take n (drop o' src) = take n (drop o' (take (length ?m) src))" using that by (simp add: drop_take min_def)
    then show ?thesis using that assms(2) l unfolding t by (simp add: rd_block_def)
  qed
  have "rd_block ?m 0 (length pwd) = Some pwd" "rd_block ?m (length pwd) (length ssid) = Some ssid" "?n \<le> length ?m"
    by (simp_all add: rd_block_def sc_message_def)
  then show "rd_block src 0 (length pwd) = Some pwd" "rd_block src (length pwd) (length ssid) = Some ssid"
    using blk[of 0 "length pwd"] blk[of "length pwd" "length ssid"] by simp_all
  have "?m = (pwd @ ssid @ (if odd ?n then [pad] else [])) @ [cal_crc8 pwd, cal_crc8 ssid]" by (simp add: sc_message_def)
  moreover have "length (pwd @ ssid @ (if odd ?n then [pad] else [])) = ?n + ?n mod 2"
    by (cases "even ?n") (auto simp: even_iff_mod_2_eq_zero odd_iff_mod_2_eq_one)
  ultimately have "?m ! (?n + ?n mod 2) = cal_crc8 pwd" "?m ! (?n + ?n mod 2 + 1) = cal_crc8 ssid" "?n + ?n mod 2 + 1 < length ?m"
    by (metis nth_append_length, metis add.commute nth_append_length_plus nth_Cons_Suc nth_Cons_0 One_nat_def, simp)
  then show "src ! (?n + ?n mod 2) = cal_crc8 pwd" "src ! (?n + ?n mod 2 + 1) = cal_crc8 ssid" using nth by simp_all
qed

lemma store_plain:
  assumes "sizes_ok p" "sc_aes_key p ! 0 = 0" "lead_is ssid pwd rnd S (sc_lead p)" "length ssid \<le> 32" "length pwd \<le> 63"
    and src: "\<And>k. k < 2 * sc_total ssid pwd \<Longrightarrow> sc_src p ! k = sc_message pad ssid pwd ! k"
  obtains r2 where "decode_store aes p = Some (True, r2)" "length r2 = 99" "r2 ! SSID_LEN = of_nat (length ssid)"
    "r2 ! PWD_LEN = of_nat (length pwd)" "rd_block r2 0 (length ssid) = Some ssid" "rd_block r2 PWD (length pwd) = Some pwd"
proof -
  have small: "2 * sc_total ssid pwd \<le> length (sc_src p)" using assms(1,4,5) by (simp add: sizes_ok_def sc_total_def)
  note m = message_parts[OF src small]
  have un: "unat (of_nat (length ssid) :: u8) = length ssid" "unat (of_nat (length pwd) :: u8) = length pwd"
    using assms(4,5) by (simp_all add: unsigned_of_nat take_bit_nat_eq_self)
  have lens: "part_lens (sc_lead p) = (length ssid, length pwd)"
    using assms(3) un by (simp add: part_lens_def lead_is_def)
  let ?r0 = "(sc_result p)[SSID_LEN := of_nat (length ssid), PWD_LEN := of_nat (length pwd)]"
  have sz: "length (sc_result p) = 99" using assms(1) by (simp add: sizes_ok_def)
  obtain r1 where r1: "wr_block ?r0 0 ssid = Some r1" using sz assms(4) by (simp add: wr_block_def)
  have l1: "length r1 = 99" using wr_block_length[OF r1] sz by simp
  obtain r2 where r2: "wr_block r1 PWD pwd = Some r2" using l1 assms(5) by (simp add: wr_block_def result_layout)
  have l2: "length r2 = 99" using wr_block_length[OF r2] l1 by simp
  have n2: "r2 ! SSID_LEN = of_nat (length ssid)" "r2 ! PWD_LEN = of_nat (length pwd)"
    using wr_block_nth[OF r2, of SSID_LEN] wr_block_nth[OF r2, of PWD_LEN] wr_block_nth[OF r1, of SSID_LEN] wr_block_nth[OF r1, of PWD_LEN]
      l1 sz assms(4,5) by (simp_all add: result_layout)
  have store: "decode_store aes p = Some (True, r2)"
    using assms(1,2) lens r1 r2 m(1,2) sz by (simp add: decode_store_def sizes_ok_def result_layout)
  have "rd_block r2 0 (length ssid) = Some ssid" "rd_block r2 PWD (length pwd) = Some pwd"
    using wr_block_other[OF r2, of 0 "length ssid"] wr_block_same[OF r1] wr_block_same[OF r2] assms(4) by (simp_all add: result_layout)
  then show ?thesis by (rule that[OF store l2 n2])
qed

lemma decode_stores:
  assumes "sizes_ok p" "sc_aes_key p ! 0 = 0" "lead_is ssid pwd rnd S (sc_lead p)" "length ssid \<le> 31" "length pwd \<le> 63"
    and src: "\<And>k. k < 2 * sc_total ssid pwd \<Longrightarrow> sc_src p ! k = sc_message pad ssid pwd ! k"
  obtains res where "dec_data_decode aes p = Some (0, p\<lparr>sc_result := res, sc_src := (sc_src p)[0 := 0]\<rparr>)" "length res = 99"
    "rd_block res 0 (length ssid) = Some ssid" "rd_block res PWD (length pwd) = Some pwd"
    "res ! SSID_LEN = of_nat (length ssid)" "res ! PWD_LEN = of_nat (length pwd)" "res ! RANDOM = rnd"
proof -
  have small: "2 * sc_total ssid pwd \<le> length (sc_src p)" using assms(1,4,5) by (simp add: sizes_ok_def sc_total_def)
  note m = message_parts[OF src small]
  have un: "unat (of_nat (length ssid) :: u8) = length ssid" "unat (of_nat (length pwd) :: u8) = length pwd"
    using assms(4,5) by (simp_all add: unsigned_of_nat take_bit_nat_eq_self)
  have "length ssid \<le> 32" using assms(4) by simp
  then obtain r2 where store: "decode_store aes p = Some (True, r2)" and l2: "length r2 = 99" and n2: "r2 ! SSID_LEN = of_nat (length ssid)"
    "r2 ! PWD_LEN = of_nat (length pwd)" and b2: "rd_block r2 0 (length ssid) = Some ssid" "rd_block r2 PWD (length pwd) = Some pwd"
    using store_plain[OF assms(1-3) _ assms(5) src, where aes = aes] by metis
  let ?r3 = "r2[PWD + length pwd := 0, length ssid := 0]"
  have "r2[PWD + length pwd := 0] ! SSID_LEN = of_nat (length ssid)" using n2 assms(5) by (simp add: result_layout)
  then have "decode_end r2 = Some ?r3"
    using n2 l2 un assms(4,5) by (simp add: decode_end_def result_layout)
  let ?res = "?r3[RANDOM := rnd]"
  have b: "rd_block ?res 0 (length ssid) = Some ssid" "rd_block ?res PWD (length pwd) = Some pwd"
  proof -
    have "rd_block ?res 0 (length ssid) = rd_block r2 0 (length ssid)"
      using assms(4,5) by (simp add: rd_block_upd result_layout)
    then show "rd_block ?res 0 (length ssid) = Some ssid" using b2 by simp
    have "rd_block ?res PWD (length pwd) = rd_block r2 PWD (length pwd)"
      using assms(4,5) by (simp add: rd_block_upd result_layout)
    then show "rd_block ?res PWD (length pwd) = Some pwd" using b2 by simp
  qed
  have n: "?res ! SSID_LEN = of_nat (length ssid)" "?res ! PWD_LEN = of_nat (length pwd)" "?res ! RANDOM = rnd" "length ?res = 99"
    using n2 l2 assms(4,5) by (simp_all add: result_layout)
  have rdn: "rd ?res SSID_LEN = Some (of_nat (length ssid))" "rd ?res PWD_LEN = Some (of_nat (length pwd))"
    using n by (simp_all add: rd_eq_Some_iff result_layout)
  have crc: "part_crc ?res PWD PWD_LEN = Some (cal_crc8 pwd)" "part_crc ?res 0 SSID_LEN = Some (cal_crc8 ssid)"
    using b rdn un by (simp_all add: part_crc_def)
  have at: "nat (lc_ssidpwd_len (sc_lead p) + lc_ssidpwd_len (sc_lead p) mod 2) = length pwd + length ssid + (length pwd + length ssid) mod 2"
    using assms(3) zmod_int[of "length pwd + length ssid" 2] by (simp add: lead_is_def flip: of_nat_add)
  have rnd: "wr ?r3 RANDOM (lc_random (sc_lead p)) = Some ?res" using l2 assms(3) by (simp add: lead_is_def result_layout)
  have "dec_data_decode aes p = Some (0, p\<lparr>sc_result := ?res, sc_src := (sc_src p)[0 := 0]\<rparr>)"
    using store \<open>decode_end r2 = Some ?r3\<close> rnd crc m(3-5) by (simp add: dec_data_decode_def Let_def at)
  then show ?thesis using that b n by blast
qed


section \<open>One frame\<close>

lemma sc_total_bound: "length ssid \<le> 31 \<Longrightarrow> length pwd \<le> 63 \<Longrightarrow> sc_total ssid pwd \<le> 64"
  by (simp add: sc_total_def)

lemma frame_num:
  assumes "i < 64"
  shows "unat (of_nat (i + 5) :: u8) = i + 5" "\<not> (of_nat (i + 5) :: u8) < 5" "(of_nat (i + 5) :: u8) \<le> 127"
proof -
  show n: "unat (of_nat (i + 5) :: u8) = i + 5" using assms by (simp add: unsigned_of_nat take_bit_nat_eq_self del: of_nat_add)
  show "\<not> (of_nat (i + 5) :: u8) < 5" "(of_nat (i + 5) :: u8) \<le> 127"
    using assms by (simp_all add: word_less_nat_alt word_le_nat_alt n del: of_nat_add)
qed

lemma data_packet:
  assumes "data_frame m i f" "i < 64" "lc_lead_complete_flag (sc_lead p)"
  shows "sc_dec_packet_decode aes p f = do {
     (d, p) \<leftarrow> dec_push_data (of_nat (i + 5)) (ucast (m ! (2 * i)) OR push_bit 8 (ucast (m ! (2 * i + 1)))) p;
     if d \<noteq> 0 then Some (sc_status p, p)
     else if sc_status p \<noteq> SC_STATUS_COMPLETE \<and> lc_packet_total (sc_lead p) = lc_packet_count (sc_lead p) then do {
       (ret, p) \<leftarrow> dec_data_decode aes p;
       if ret \<noteq> 0 then Some (SC_STATUS_END, p\<lparr>sc_lead := sc_reset_lead_code, sc_src := (sc_src p)[0 := 0]\<rparr>)
       else Some (SC_STATUS_COMPLETE, p)
     }
     else Some (sc_status p, p)
   }"
  using assms(1,3) frame_num[OF assms(2)] by (simp add: sc_dec_packet_decode_def data_frame_def sc_frame_def Let_def del: of_nat_add)

lemma result_complete:
  assumes "length (sc_result p) = 99" "rd_block (sc_result p) 0 (length ssid) = Some ssid" "rd_block (sc_result p) PWD (length pwd) = Some pwd"
    "sc_result p ! SSID_LEN = of_nat (length ssid)" "sc_result p ! PWD_LEN = of_nat (length pwd)" "sc_result p ! RANDOM = rnd"
    "length ssid \<le> 31" "length pwd \<le> 63"
  shows "smartconfig_get_result (Some p) = Some (0, Some (ssid, pwd, rnd))"
proof -
  have un: "unat (of_nat (length ssid) :: u8) = length ssid" "unat (of_nat (length pwd) :: u8) = length pwd"
    using assms(7,8) by (simp_all add: unsigned_of_nat take_bit_nat_eq_self)
  have "rd (sc_result p) SSID_LEN = Some (of_nat (length ssid))" "rd (sc_result p) PWD_LEN = Some (of_nat (length pwd))"
    "rd (sc_result p) RANDOM = Some rnd"
    using assms(1,4-6) by (simp_all add: rd_eq_Some_iff result_layout)
  then show ?thesis
    using assms(2,3,7,8) un by (simp add: smartconfig_get_result_def WLAN_SSID_MAX_LEN_def WLAN_PASSPHRASE_MAX_LEN_def)
qed

lemma recv_collecting:
  assumes "collecting pad ssid pwd rnd S p" "S \<subseteq> {..<sc_total ssid pwd}" "data_frame (sc_message pad ssid pwd) i f" "i < sc_total ssid pwd"
    and "length ssid \<le> 31" "length pwd \<le> 63"
  shows "if insert i S = {..<sc_total ssid pwd}
     then \<exists>q. smartconfig_recv_rawframe aes f (Some p) = Some ([SCA_STATUS_COMPLETE], Some q) \<and> complete ssid pwd rnd q
     else \<exists>q. smartconfig_recv_rawframe aes f (Some p) = Some ([], Some q) \<and> collecting pad ssid pwd rnd (insert i S) q"
proof -
  let ?m = "sc_message pad ssid pwd" and ?N = "sc_total ssid pwd"
  have i: "i < 64" using assms(4) sc_total_bound[OF assms(5,6)] by simp
  have c: "sizes_ok p" "sc_status p = SC_STATUS_LOCKED_CHAN" "sc_aes_key p ! 0 = 0" "lead_is ssid pwd rnd S (sc_lead p)"
    "\<forall>i\<in>S. sc_src p ! (2 * i) = ?m ! (2 * i) \<and> sc_src p ! (2 * i + 1) = ?m ! (2 * i + 1)"
    using assms(1) by (simp_all add: collecting_def)
  have fin: "finite S" using assms(2) finite_subset by blast
  obtain p' where p': "dec_push_data (of_nat (i + 5)) (ucast (?m ! (2 * i)) OR push_bit 8 (ucast (?m ! (2 * i + 1)))) p
      = Some (int (card (insert i S)) - int ?N, p')"
    "lead_is ssid pwd rnd (insert i S) (sc_lead p')"
    "p' = p\<lparr>sc_lead := sc_lead p', sc_src := (sc_src p)[2 * i := ?m ! (2 * i), 2 * i + 1 := ?m ! (2 * i + 1)]\<rparr>"
    by (rule push_data[OF c(4,1) i fin]) blast
  have st: "sc_status p' = SC_STATUS_LOCKED_CHAN" "sizes_ok p'" "sc_aes_key p' ! 0 = 0"
    "sc_src p' = (sc_src p)[2 * i := ?m ! (2 * i), 2 * i + 1 := ?m ! (2 * i + 1)]"
    using c(1-3) by (subst p'(3); simp add: sizes_ok_def)+
  have src: "sc_src p' ! (2 * j) = ?m ! (2 * j) \<and> sc_src p' ! (2 * j + 1) = ?m ! (2 * j + 1)" if "j \<in> insert i S" for j
  proof (cases "j = i")
    case True
    then show ?thesis using st(2) i by (simp add: st(4) sizes_ok_def)
  next
    case False
    then have "2 * i \<noteq> 2 * j" "2 * i + 1 \<noteq> 2 * j" "2 * i \<noteq> 2 * j + 1" "2 * i + 1 \<noteq> 2 * j + 1" by presburger+
    then show ?thesis using that False c(5) by (simp add: st(4))
  qed
  have flag: "lc_lead_complete_flag (sc_lead p)" "24 \<le> length f" using c(4) assms(3) by (simp_all add: lead_is_def data_frame_def sc_frame_def)
  note dec = data_packet[OF assms(3) i flag(1), of aes, unfolded p'(1), simplified]
  have sub: "insert i S \<subseteq> {..<?N}" using assms(2,4) by auto
  have full: "card (insert i S) = ?N \<longleftrightarrow> insert i S = {..<?N}"
    using sub card_subset_eq[of "{..<?N}" "insert i S"] by auto
  show ?thesis
  proof (cases "insert i S = {..<?N}")
    case False
    then have "smartconfig_recv_rawframe aes f (Some p) = Some ([], Some p')"
      using dec full flag(2) st(1) by (simp add: smartconfig_recv_rawframe_def)
    then show ?thesis using False st(1-3) p'(2) src by (simp add: collecting_def)
  next
    case True
    have byte: "sc_src p' ! k = ?m ! k" if "k < 2 * ?N" for k
    proof -
      have "k div 2 \<in> insert i S" unfolding True using that by auto
      then show ?thesis using src[of "k div 2"] by (cases "even k") (auto elim!: evenE oddE)
    qed
    obtain res where res: "dec_data_decode aes p' = Some (0, p'\<lparr>sc_result := res, sc_src := (sc_src p')[0 := 0]\<rparr>)" "length res = 99"
      "rd_block res 0 (length ssid) = Some ssid" "rd_block res PWD (length pwd) = Some pwd"
      "res ! SSID_LEN = of_nat (length ssid)" "res ! PWD_LEN = of_nat (length pwd)" "res ! RANDOM = rnd"
      by (rule decode_stores[OF st(2,3) p'(2) assms(5,6) byte, where aes = aes]) blast+
    let ?q = "p'\<lparr>sc_result := res, sc_src := (sc_src p')[0 := 0], sc_status := SC_STATUS_COMPLETE\<rparr>"
    have "lc_packet_total (sc_lead p') = lc_packet_count (sc_lead p')" using p'(2) full True by (simp add: lead_is_def)
    then have "smartconfig_recv_rawframe aes f (Some p) = Some ([SCA_STATUS_COMPLETE], Some ?q)"
      using dec full True flag(2) st(1) res(1) by (simp add: smartconfig_recv_rawframe_def)
    moreover have "complete ssid pwd rnd ?q"
      using result_complete[of ?q ssid pwd rnd] res(2-7) assms(5,6) p'(2) st(2) True by (simp add: complete_def sizes_ok_def)
    ultimately show ?thesis using True by auto
  qed
qed

lemma recv_complete:
  assumes "complete ssid pwd rnd p" "data_frame (sc_message pad ssid pwd) i f" "i < sc_total ssid pwd" "length ssid \<le> 31" "length pwd \<le> 63"
  shows "\<exists>q. smartconfig_recv_rawframe aes f (Some p) = Some ([], Some q) \<and> complete ssid pwd rnd q"
proof -
  let ?m = "sc_message pad ssid pwd" and ?N = "sc_total ssid pwd"
  have i: "i < 64" using assms(3) sc_total_bound[OF assms(4,5)] by simp
  have c: "sizes_ok p" "lead_is ssid pwd rnd {..<?N} (sc_lead p)" using assms(1) by (simp_all add: complete_def)
  obtain p' where p': "dec_push_data (of_nat (i + 5)) (ucast (?m ! (2 * i)) OR push_bit 8 (ucast (?m ! (2 * i + 1)))) p
      = Some (int (card (insert i {..<?N})) - int ?N, p')"
    "lead_is ssid pwd rnd (insert i {..<?N}) (sc_lead p')"
    "p' = p\<lparr>sc_lead := sc_lead p', sc_src := (sc_src p)[2 * i := ?m ! (2 * i), 2 * i + 1 := ?m ! (2 * i + 1)]\<rparr>"
    by (rule push_data[OF c(2,1) i]) auto
  have ins: "insert i {..<?N} = {..<?N}" using assms(3) by auto
  have st: "sc_status p' = SC_STATUS_COMPLETE" "sizes_ok p'" "sc_result p' = sc_result p"
    using assms(1) c(1) by (subst p'(3); simp add: complete_def sizes_ok_def)+
  have flag: "lc_lead_complete_flag (sc_lead p)" "24 \<le> length f" using c(2) assms(2) by (simp_all add: lead_is_def data_frame_def sc_frame_def)
  have "sc_dec_packet_decode aes p f = Some (SC_STATUS_COMPLETE, p')"
    using data_packet[OF assms(2) i flag(1), of aes] p'(1) st(1) ins by simp
  then have "smartconfig_recv_rawframe aes f (Some p) = Some ([], Some p')"
    using flag(2) st(1) by (simp add: smartconfig_recv_rawframe_def)
  moreover have "smartconfig_get_result (Some p') = smartconfig_get_result (Some p)"
    by (simp only: smartconfig_get_result_def option.case st(3))
  then have "complete ssid pwd rnd p'"
    using assms(1) st p'(2) ins by (simp add: complete_def)
  ultimately show ?thesis by blast
qed

fun sc_recv_all :: "(u8 list \<Rightarrow> u8 list \<Rightarrow> u8 list option) \<Rightarrow> u8 list list \<Rightarrow> smartconfig_priv option \<Rightarrow> (sca_notice list \<times> smartconfig_priv option) option" where
  "sc_recv_all aes [] sc = Some ([], sc)"
| "sc_recv_all aes (f # fs) sc = do {
     (ns, sc) \<leftarrow> smartconfig_recv_rawframe aes f sc;
     (ns', sc) \<leftarrow> sc_recv_all aes fs sc;
     Some (ns @ ns', sc)
   }"

lemma recv_all_complete:
  assumes "complete ssid pwd rnd p" "\<forall>f\<in>set fs. \<exists>i < sc_total ssid pwd. data_frame (sc_message pad ssid pwd) i f" "length ssid \<le> 31" "length pwd \<le> 63"
  shows "\<exists>q. sc_recv_all aes fs (Some p) = Some ([], Some q) \<and> complete ssid pwd rnd q"
  using assms(1,2)
proof (induction fs arbitrary: p)
  case (Cons f fs)
  then obtain i where i: "i < sc_total ssid pwd" "data_frame (sc_message pad ssid pwd) i f" by auto
  obtain q where q: "smartconfig_recv_rawframe aes f (Some p) = Some ([], Some q)" "complete ssid pwd rnd q"
    using recv_complete[OF Cons.prems(1) i(2,1) assms(3,4)] by blast
  then show ?case using Cons.IH[OF q(2)] Cons.prems(2) by auto
qed simp

lemma recv_all_collecting:
  assumes "collecting pad ssid pwd rnd S p" "S \<subset> {..<sc_total ssid pwd}"
    and "\<forall>f\<in>set fs. \<exists>i < sc_total ssid pwd. data_frame (sc_message pad ssid pwd) i f"
    and "\<forall>i < sc_total ssid pwd. i \<in> S \<or> (\<exists>f\<in>set fs. data_frame (sc_message pad ssid pwd) i f)" "length ssid \<le> 31" "length pwd \<le> 63"
  shows "\<exists>q. sc_recv_all aes fs (Some p) = Some ([SCA_STATUS_COMPLETE], Some q) \<and> complete ssid pwd rnd q"
  using assms(1-4)
proof (induction fs arbitrary: S p)
  case Nil
  then show ?case by auto
next
  case (Cons f fs)
  let ?N = "sc_total ssid pwd"
  obtain i where i: "i < ?N" "data_frame (sc_message pad ssid pwd) i f" using Cons.prems(3) by auto
  have uniq: "j = i" if "data_frame (sc_message pad ssid pwd) j f" "j < ?N" for j
  proof -
    have "of_nat (j + 5) = (of_nat (i + 5) :: u8)" using that(1) i(2) by (simp add: data_frame_def sc_frame_def del: of_nat_add)
    then show ?thesis using frame_num(1)[of i] frame_num(1)[of j] that(2) i(1) sc_total_bound[OF assms(5,6)]
      by (metis add_right_cancel less_le_trans)
  qed
  have step: "if insert i S = {..<?N}
     then \<exists>q. smartconfig_recv_rawframe aes f (Some p) = Some ([SCA_STATUS_COMPLETE], Some q) \<and> complete ssid pwd rnd q
     else \<exists>q. smartconfig_recv_rawframe aes f (Some p) = Some ([], Some q) \<and> collecting pad ssid pwd rnd (insert i S) q"
    using recv_collecting[OF Cons.prems(1) _ i(2,1) assms(5,6)] Cons.prems(2) by blast
  show ?case
  proof (cases "insert i S = {..<?N}")
    case True
    then obtain q where q: "smartconfig_recv_rawframe aes f (Some p) = Some ([SCA_STATUS_COMPLETE], Some q)" "complete ssid pwd rnd q"
      using step by auto
    then show ?thesis using recv_all_complete[OF q(2), of fs pad aes] Cons.prems(3) assms(5,6) by auto
  next
    case False
    then obtain q where q: "smartconfig_recv_rawframe aes f (Some p) = Some ([], Some q)" "collecting pad ssid pwd rnd (insert i S) q"
      using step by auto
    have "insert i S \<subset> {..<?N}" using False Cons.prems(2) i(1) by auto
    moreover have "\<forall>j<?N. j \<in> insert i S \<or> (\<exists>f\<in>set fs. data_frame (sc_message pad ssid pwd) j f)"
      using Cons.prems(4) uniq by auto
    ultimately show ?thesis using Cons.IH[OF q(2)] Cons.prems(3) q(1) by auto
  qed
qed

section \<open>The lead codes\<close>

definition lead_frame :: "u8 \<Rightarrow> u8 \<Rightarrow> u8 list \<Rightarrow> bool" where
  "lead_frame n dat f \<longleftrightarrow> sc_frame n dat (cal_crc8 [dat]) f"

lemma sc_recv_all_append:
  "sc_recv_all aes (fs @ gs) sc = do { (ns, sc) \<leftarrow> sc_recv_all aes fs sc; (ns', sc) \<leftarrow> sc_recv_all aes gs sc; Some (ns @ ns', sc) }"
  by (induction fs arbitrary: sc) (auto simp: Option.bind_assoc split: prod.splits Option.bind_split)

lemma lead_phase:
  assumes "wlan_smart_config_start True True True None None = (0, Some p)"
    and "lead_frame 1 ch f1" "lead_frame 2 (of_nat (length pwd + length ssid)) f2" "lead_frame 3 (of_nat (length pwd)) f3" "lead_frame 4 rnd f4"
    and "sc_frame n b0 b1 f5" "0 < n" "n < 5" "rnd \<noteq> 0" "0 < length pwd + length ssid" "length ssid \<le> 31" "length pwd \<le> 63"
  shows "\<exists>q. sc_recv_all aes [f1, f2, f3, f4, f5] (Some p) = Some ([SCA_STATUS_CHANNEL_LOCKED (ap_mac f1)], Some q)
    \<and> collecting pad ssid pwd rnd {} q"
proof -
  let ?n = "length pwd + length ssid"
  have u: "uint (of_nat ?n :: u8) = int ?n" "uint (of_nat (length pwd) :: u8) = int (length pwd)"
    using assms(11,12) by (simp_all add: unsigned_of_nat take_bit_nat_eq_self flip: uint_nat del: of_nat_add)
  have p: "p = \<lparr>sc_aes_key = replicate 16 0, sc_lead = sc_reset_lead_code, sc_status = SC_STATUS_SEARCH_CHAN,
      sc_result = replicate 99 0, sc_src = replicate 128 0\<rparr>"
    using assms(1) by (simp add: wlan_smart_config_start_def)
  let ?l1 = "sc_reset_lead_code\<lparr>lc_locked_mac_flag := True, lc_channel := uint ch\<rparr>"
  let ?l2 = "?l1\<lparr>lc_ssidpwd_len := int ?n, lc_packet_total := int (sc_total ssid pwd)\<rparr>"
  let ?l4 = "?l2\<lparr>lc_pwd_len := int (length pwd), lc_random := rnd\<rparr>"
  have r1: "smartconfig_recv_rawframe aes f1 (Some p)
      = Some ([SCA_STATUS_CHANNEL_LOCKED (ap_mac f1)], Some (p\<lparr>sc_lead := ?l1, sc_status := SC_STATUS_LOCKED_CHAN\<rparr>))"
    using assms(2) by (simp add: lead_frame_def sc_frame_def smartconfig_recv_rawframe_def sc_dec_packet_decode_def dec_get_lead_code_def
        lead_known_def Let_def p sc_reset_lead_code_def)
  have tot: "int ?n div 2 + 1 + int ?n mod 2 = int (sc_total ssid pwd)"
    by (simp add: sc_total_def zdiv_int zmod_int)
  let ?p = "p\<lparr>sc_lead := ?l1, sc_status := SC_STATUS_LOCKED_CHAN\<rparr>"
  have r2: "smartconfig_recv_rawframe aes f2 (Some ?p) = Some ([], Some (?p\<lparr>sc_lead := ?l2\<rparr>))"
    using assms(3) u(1) tot by (simp add: lead_frame_def sc_frame_def smartconfig_recv_rawframe_def sc_dec_packet_decode_def
        dec_get_lead_code_def lead_known_def Let_def sc_reset_lead_code_def del: of_nat_add)
  have r3: "smartconfig_recv_rawframe aes f3 (Some (?p\<lparr>sc_lead := ?l2\<rparr>)) = Some ([], Some (?p\<lparr>sc_lead := ?l2\<lparr>lc_pwd_len := int (length pwd)\<rparr>\<rparr>))"
    using assms(4) u(2) by (simp add: lead_frame_def sc_frame_def smartconfig_recv_rawframe_def sc_dec_packet_decode_def
        dec_get_lead_code_def lead_known_def Let_def sc_reset_lead_code_def)
  have r4: "smartconfig_recv_rawframe aes f4 (Some (?p\<lparr>sc_lead := ?l2\<lparr>lc_pwd_len := int (length pwd)\<rparr>\<rparr>)) = Some ([], Some (?p\<lparr>sc_lead := ?l4\<rparr>))"
    using assms(5) by (simp add: lead_frame_def sc_frame_def smartconfig_recv_rawframe_def sc_dec_packet_decode_def
        dec_get_lead_code_def lead_known_def Let_def sc_reset_lead_code_def)
  let ?q = "?p\<lparr>sc_lead := ?l4\<lparr>lc_locked_mac_flag := False, lc_lead_complete_flag := True\<rparr>\<rparr>"
  have n: "\<not> n > 4" "n \<noteq> 0" using assms(7,8) by (auto simp: word_less_nat_alt)
  have "int ?n \<noteq> 0" using assms(10) by (metis less_irrefl of_nat_eq_0_iff)
  then have "lead_known SC_STATUS_LOCKED_CHAN ?l4" using assms(9) by (simp add: lead_known_def del: of_nat_add)
  then have code: "dec_get_lead_code f5 ?l4 n SC_STATUS_LOCKED_CHAN = (LEAD_CODE_COMPLETE, ?l4\<lparr>lc_locked_mac_flag := False\<rparr>, SC_STATUS_LOCKED_CHAN)"
    using n by (simp add: dec_get_lead_code_def Let_def)
  have "\<not> lc_lead_complete_flag ?l4" by (simp add: sc_reset_lead_code_def)
  then have r5: "smartconfig_recv_rawframe aes f5 (Some (?p\<lparr>sc_lead := ?l4\<rparr>)) = Some ([], Some ?q)"
    using assms(6-8) code by (simp add: sc_frame_def smartconfig_recv_rawframe_def sc_dec_packet_decode_def Let_def)
  have "collecting pad ssid pwd rnd {} ?q"
    by (simp add: collecting_def sizes_ok_def lead_is_def p sc_reset_lead_code_def got_zero)
  then show ?thesis using r1 r2 r3 r4 r5 by auto
qed

section \<open>Claims\<close>


definition demo_frame :: "u8 \<Rightarrow> u8 \<Rightarrow> u8 \<Rightarrow> u8 list" where
  "demo_frame n b0 b1 = replicate 16 0 @ [0x01, 0x00, 0x5E, n, b0, b1, 0, 0]"

lemma demo_frame_is: "sc_frame n b0 b1 (demo_frame n b0 b1)"
  by (simp add: sc_frame_def demo_frame_def i_addr3_def nth_append)


text \<open>Once the lead codes are complete, one frame with the right address prefix and a packet number of 0, or of 69 to
  127, makes the decoder write two bytes outside its 128-byte buffer; these are all the numbers up to 127 for which
  storing the data does so.\<close>

theorem smart_config_overflow:
  assumes "sc_frame n b0 b1 f" "n \<le> 127" "n = 0 \<or> n > 4" "lc_lead_complete_flag (sc_lead p)" "sizes_ok p" "length (lc_count_pkt (sc_lead p)) = 16"
  shows "(n = 0 \<or> 68 < n \<longrightarrow> smartconfig_recv_rawframe aes f (Some p) = None)
    \<and> (dec_push_data n (ucast b0 OR push_bit 8 (ucast b1)) p = None \<longleftrightarrow> n = 0 \<or> 68 < n)"
proof -
  have u: "unat n \<le> 127" "n = 0 \<longleftrightarrow> unat n = 0" "68 < n \<longleftrightarrow> 68 < unat n" "n > 4 \<longleftrightarrow> unat n > 4"
    using assms(2) by (simp_all add: word_le_nat_alt word_less_nat_alt unat_eq_0)
  have m: "unat (n - 5) = (if unat n < 5 then unat n + 251 else unat n - 5)"
  proof (cases "unat n < 5")
    case True
    then have "n - 5 = of_nat (unat n + 251)" by simp
    then show ?thesis using True by (simp add: unsigned_of_nat take_bit_nat_eq_self del: of_nat_add)
  next
    case False
    then show ?thesis by (simp add: unat_sub word_le_nat_alt)
  qed
  have cnt: "\<exists>new c. dec_valid_packet_count (lc_count_pkt (sc_lead p)) (n - 5) = Some (new, c)"
  proof (cases "n - 5 > 127")
    case False
    then have "unat (n - 5) div 8 < 16" by (simp add: word_less_nat_alt)
    then show ?thesis using assms(6) False by (auto simp: dec_valid_packet_count_def)
  qed (auto simp: dec_valid_packet_count_def intro: exI[of _ False])
  have iff: "dec_push_data n dat p = None \<longleftrightarrow> n = 0 \<or> 68 < n" for dat
    using cnt assms(3,5) u m by (auto simp: dec_push_data_def Let_def wr_block_def sizes_ok_def split: if_splits)
  have "smartconfig_recv_rawframe aes f (Some p) = None" if "n = 0 \<or> 68 < n"
  proof -
    have "\<not> (n > 0 \<and> n < 5)" using assms(3) u(4) by (auto simp: word_less_nat_alt)
    then have "sc_dec_packet_decode aes p f = None"
      using assms(1,2,4) iff that by (simp add: sc_dec_packet_decode_def sc_frame_def Let_def)
    then show ?thesis using assms(1) by (simp add: smartconfig_recv_rawframe_def sc_frame_def)
  qed
  then show ?thesis by (auto simp: iff)
qed

theorem smart_config_overflow_witness:
  "smartconfig_recv_rawframe (\<lambda>_ _. None) (demo_frame 100 1 2) (Some \<lparr>sc_aes_key = replicate 16 0,
     sc_lead = sc_reset_lead_code\<lparr>lc_lead_complete_flag := True\<rparr>, sc_status = SC_STATUS_LOCKED_CHAN, sc_result = replicate 99 0,
     sc_src = replicate 128 0\<rparr>) = None"
  using smart_config_overflow[OF demo_frame_is[of 100 1 2], of "\<lparr>sc_aes_key = replicate 16 0,
     sc_lead = sc_reset_lead_code\<lparr>lc_lead_complete_flag := True\<rparr>, sc_status = SC_STATUS_LOCKED_CHAN, sc_result = replicate 99 0,
     sc_src = replicate 128 0\<rparr>" "\<lambda>_ _. None"] by (simp add: sizes_ok_def sc_reset_lead_code_def)

text \<open>A password is never received right together with an SSID of 32 bytes, the longest there is: the NUL behind the
  SSID is written over the first byte of the password, before the checksums are compared.\<close>

theorem smart_config_long_ssid:
  assumes "sizes_ok p" "sc_aes_key p ! 0 = 0" "lead_is ssid pwd rnd S (sc_lead p)" "length ssid = 32" "length pwd \<le> 63" "pwd \<noteq> []"
    and "\<And>k. k < 2 * sc_total ssid pwd \<Longrightarrow> sc_src p ! k = sc_message pad ssid pwd ! k"
  shows "\<exists>ret q. dec_data_decode aes p = Some (ret, q) \<and> smartconfig_get_result (Some q) = Some (0, Some (ssid, 0 # tl pwd, rnd))"
proof -
  have ss: "length ssid \<le> 32" using assms(4) by simp
  obtain r2 where r2: "decode_store aes p = Some (True, r2)" "length r2 = 99" "r2 ! SSID_LEN = of_nat (length ssid)"
    "r2 ! PWD_LEN = of_nat (length pwd)" "rd_block r2 0 (length ssid) = Some ssid" "rd_block r2 PWD (length pwd) = Some pwd"
    by (rule store_plain[OF assms(1-3) ss assms(5,7), where aes = aes])
  have un: "unat (of_nat (length pwd) :: u8) = length pwd" "unat (of_nat (length ssid) :: u8) = 32"
    using assms(4,5) by (simp_all add: unsigned_of_nat take_bit_nat_eq_self)
  have "r2[PWD + length pwd := 0] ! SSID_LEN = of_nat (length ssid)" using r2(3) assms(5) by (simp add: result_layout)
  then have e: "decode_end r2 = Some (r2[PWD + length pwd := 0, 32 := 0])"
    using r2(2-4) un assms(5) by (simp add: decode_end_def result_layout)
  let ?res = "r2[PWD + length pwd := 0, 32 := 0, RANDOM := rnd]"
  have n: "rd ?res SSID_LEN = Some (of_nat (length ssid))" "rd ?res PWD_LEN = Some (of_nat (length pwd))" "rd ?res RANDOM = Some rnd" "length ?res = 99"
    using r2(2-4) assms(5) by (simp_all add: rd_eq_Some_iff result_layout)
  have bs: "rd_block ?res 0 32 = Some ssid" using r2(5) assms(4) by (simp add: rd_block_upd result_layout)
  have "PWD + length pwd \<noteq> PWD" using assms(6) by simp
  have "rd_block ?res PWD (length pwd) = rd_block (r2[PWD + length pwd := 0, PWD := 0]) PWD (length pwd)"
    using assms(5) by (simp add: rd_block_upd result_layout)
  also have "\<dots> = rd_block (r2[PWD := 0, PWD + length pwd := 0]) PWD (length pwd)"
    using list_update_swap[OF \<open>PWD + length pwd \<noteq> PWD\<close>] by metis
  also have "\<dots> = rd_block (r2[PWD := 0]) PWD (length pwd)" by (simp add: rd_block_upd)
  finally have "rd_block ?res PWD (length pwd) = rd_block (r2[PWD := 0]) PWD (length pwd)" .
  moreover obtain c w where pw: "pwd = c # w" using assms(6) by (cases pwd) auto
  ultimately have bp: "rd_block ?res PWD (length pwd) = Some (0 # tl pwd)"
    using r2(2,6) assms(5) by (auto simp: rd_block_def drop_update_swap drop_Suc_Cons[symmetric] take_Suc_conv_app_nth result_layout
        simp flip: Cons_nth_drop_Suc split: if_splits)
  have src: "\<exists>a b. rd (sc_src p) (nat (lc_ssidpwd_len (sc_lead p) + lc_ssidpwd_len (sc_lead p) mod 2)) = Some a
      \<and> rd (sc_src p) (nat (lc_ssidpwd_len (sc_lead p) + lc_ssidpwd_len (sc_lead p) mod 2) + 1) = Some b"
  proof -
    have "nat (lc_ssidpwd_len (sc_lead p) + lc_ssidpwd_len (sc_lead p) mod 2) < 100"
      using assms(3-5) by (simp add: lead_is_def)
    then show ?thesis using assms(1) by (auto simp: sizes_ok_def)
  qed
  have crc: "part_crc ?res PWD PWD_LEN = Some (cal_crc8 (0 # tl pwd))" "part_crc ?res 0 SSID_LEN = Some (cal_crc8 ssid)"
    using bs bp n un by (simp_all add: part_crc_def)
  have rnd: "wr (r2[PWD + length pwd := 0, 32 := 0]) RANDOM (lc_random (sc_lead p)) = Some ?res"
    using assms(3) r2(2) by (simp add: lead_is_def result_layout)
  obtain a b where ab: "rd (sc_src p) (nat (lc_ssidpwd_len (sc_lead p) + lc_ssidpwd_len (sc_lead p) mod 2)) = Some a"
    "rd (sc_src p) (nat (lc_ssidpwd_len (sc_lead p) + lc_ssidpwd_len (sc_lead p) mod 2) + 1) = Some b"
    using src by blast
  have "dec_data_decode aes p = Some (if cal_crc8 (0 # tl pwd) \<noteq> a \<or> cal_crc8 ssid \<noteq> b then -1 else 0,
      p\<lparr>sc_result := ?res, sc_src := (sc_src p)[0 := 0]\<rparr>)"
    using r2(1) e rnd crc ab
    by (cases "cal_crc8 (0 # tl pwd) = a"; cases "cal_crc8 ssid = b") (simp_all add: dec_data_decode_def Let_def)
  moreover have "smartconfig_get_result (Some (p\<lparr>sc_result := ?res, sc_src := (sc_src p)[0 := 0]\<rparr>)) = Some (0, Some (ssid, 0 # tl pwd, rnd))"
    using n bs bp un assms(5) by (simp add: smartconfig_get_result_def WLAN_SSID_MAX_LEN_def WLAN_PASSPHRASE_MAX_LEN_def)
  ultimately show ?thesis by blast
qed

theorem smart_config_long_ssid_witness:
  "\<exists>p ret q. dec_data_decode (\<lambda>_ _. None) p = Some (ret, q)
    \<and> smartconfig_get_result (Some q) = Some (0, Some (replicate 32 0x41, [0], 9))"
proof -
  let ?ssid = "replicate 32 0x41 :: u8 list" and ?pwd = "[0x42] :: u8 list"
  let ?m = "sc_message 0 ?ssid ?pwd"
  let ?p = "\<lparr>sc_aes_key = replicate 16 0, sc_lead = \<lparr>lc_channel = 6, lc_ssidpwd_len = 33, lc_pwd_len = 1, lc_packet_total = 18,
      lc_packet_count = 0, lc_random = 9, lc_locked_mac_flag = False, lc_lead_complete_flag = True, lc_count_pkt = replicate 16 0\<rparr>,
    sc_status = SC_STATUS_LOCKED_CHAN, sc_result = replicate 99 0, sc_src = ?m @ replicate 92 0\<rparr>"
  have t: "sc_total ?ssid ?pwd = 18" by (simp add: sc_total_def)
  have l: "length ?m = 36" using length_sc_message[of 0 ?ssid ?pwd] t by simp
  have h: "sizes_ok ?p" "sc_aes_key ?p ! 0 = 0" "lead_is ?ssid ?pwd 9 {} (sc_lead ?p)" "length ?ssid = 32" "length ?pwd \<le> 63" "?pwd \<noteq> []"
    using l t by (simp_all add: sizes_ok_def lead_is_def got_zero)
  have src: "\<And>k. k < 2 * sc_total ?ssid ?pwd \<Longrightarrow> sc_src ?p ! k = ?m ! k" using l t by (simp add: nth_append)
  show ?thesis using smart_config_long_ssid[OF h src, of "\<lambda>_ _. None"] unfolding list.sel by blast
qed

text \<open>The checksum loses a bit in every step: its polynomial is written for the other bit order.\<close>

lemma cal_crc8_small: "bs \<noteq> [] \<Longrightarrow> cal_crc8 bs < 128"
proof -
  have shift: "crc8_shift c < 128" for c :: u8
  proof -
    have "unat (drop_bit 1 c) < 128" using u8_less[of c] unfolding unat_drop_bit_eq by (simp add: drop_bit_eq_div)
    then have "drop_bit 1 c < 128" by (simp add: word_less_nat_alt)
    moreover have "drop_bit 1 c XOR CRC8_POLY < 128"
    proof -
      have z: "drop_bit 7 (drop_bit 1 c XOR CRC8_POLY) = 0" by (rule bit_eqI) (auto simp: bit_simps CRC8_POLY_def dest: bit_imp_le_length)
      have "unat (drop_bit 1 c XOR CRC8_POLY) div 128 = 0"
        using arg_cong[OF z, of unat] unfolding unat_drop_bit_eq drop_bit_eq_div[where 'a = nat] by simp
      then show ?thesis by (simp add: word_less_nat_alt div_eq_0_iff)
    qed
    ultimately show ?thesis by (simp add: crc8_shift_def)
  qed
  assume "bs \<noteq> []"
  then obtain cs b where bs: "bs = cs @ [b]" by (metis rev_exhaust)
  have "cal_crc8 bs = crc8_shift ((crc8_shift ^^ 7) (fold crc8_byte cs 0 XOR b))"
    by (simp add: bs cal_crc8_def crc8_byte_def numeral_eq_Suc)
  then show ?thesis using shift by simp
qed

end
