(* ===== verification/IrNec.thy ===== *)
theory IrNec
  imports Prelude
begin

unbundle bit_operations_syntax

text \<open>
  The NEC remote-control code, \<^verbatim>\<open>src/driver/chip/ir_nec.c\<close> and \<^verbatim>\<open>include/driver/chip/ir_nec.h\<close>: a code of 32
  bits as a sequence of pulses and pauses, each a byte whose top bit says which and whose other bits count
  samples.  The clock of the chip selects the constants; the variant for a 32 kHz clock is not compiled in.
\<close>

section \<open>Constants\<close>

datatype hosc = HOSC_CLOCK_26M | HOSC_CLOCK_24M | HOSC_other

record irrx =
  active_delay :: u32
  irrx_l1_min :: u32
  irrx_l0_min :: u32
  irrx_pmax :: u32
  irrx_dmid :: u32
  irrx_dmax :: u32

definition irrx_of :: "hosc \<Rightarrow> irrx" where
  "irrx_of clk =
     (case clk of
        HOSC_CLOCK_26M \<Rightarrow> \<lparr>active_delay = (0 + 1) * 128, irrx_l1_min = 80, irrx_l0_min = 41, irrx_pmax = 27, irrx_dmid = 27, irrx_dmax = 55\<rparr>
      | HOSC_CLOCK_24M \<Rightarrow> \<lparr>active_delay = (0 + 1) * 128, irrx_l1_min = 70, irrx_l0_min = 40, irrx_pmax = 26, irrx_dmid = 26, irrx_dmax = 53\<rparr>
      | HOSC_other \<Rightarrow> \<lparr>active_delay = 0, irrx_l1_min = 0, irrx_l0_min = 0, irrx_pmax = 0, irrx_dmid = 0, irrx_dmax = 0\<rparr>)"

text \<open>Sending: the start bytes, and the counts of 560 and of 1680 microseconds.\<close>

definition irtx_of :: "hosc \<Rightarrow> u8 list \<times> u8 \<times> u8" where
  "irtx_of clk =
     (case clk of
        HOSC_CLOCK_26M \<Rightarrow> ([0x80 OR 0x7f, 0x80 OR of_nat (9000 div 39 - 0x7f), of_nat (4500 div 39)], of_nat (560 div 39), of_nat (1680 div 39))
      | HOSC_CLOCK_24M \<Rightarrow> ([0x80 OR 0x7f, 0x80 OR of_nat (9000 div 43 - 0x7f), of_nat (4500 div 43)], of_nat (560 div 43), of_nat (1680 div 43))
      | HOSC_other \<Rightarrow> ([], 0, 0))"

section \<open>Decoding\<close>

definition pulse :: "u8 \<Rightarrow> bool" where "pulse v \<longleftrightarrow> v AND 0x80 \<noteq> 0"

definition samples :: "u8 \<Rightarrow> u32" where "samples v = ucast (v AND 0x7f)"

text \<open>The search for the first lead: the length, the last byte seen, and what is left, from that byte on.\<close>

fun find_lead1 :: "u32 \<Rightarrow> u32 \<Rightarrow> u8 \<Rightarrow> u8 list \<Rightarrow> u32 \<times> u8 \<times> u8 list" where
  "find_lead1 l_min len val [] = (len, val, [])"
| "find_lead1 l_min len val (v # vs) =
     (if pulse v then find_lead1 l_min (len + samples v) v vs
      else if len > l_min then (len, v, v # vs)
      else find_lead1 l_min 0 v vs)"

fun find_lead0 :: "u32 \<Rightarrow> u32 \<Rightarrow> u8 \<Rightarrow> u8 list \<Rightarrow> u32 \<times> u8 \<times> u8 list" where
  "find_lead0 l_min len val [] = (len, val, [])"
| "find_lead0 l_min len val (v # vs) =
     (if pulse v then if len > l_min then (len, v, v # vs) else find_lead0 l_min 0 v vs
      else find_lead0 l_min (len + samples v) v vs)"

text \<open>The bits; \<open>None\<close> is the error label.\<close>

fun decode_bits :: "irrx \<Rightarrow> bool \<Rightarrow> u32 \<Rightarrow> u32 \<Rightarrow> nat \<Rightarrow> u8 list \<Rightarrow> u32 option" where
  "decode_bits rx was len code bitCnt [] = Some code"
| "decode_bits rx was len code bitCnt (v # vs) =
     (if was then
        if pulse v then decode_bits rx True (len + samples v) code bitCnt vs
        else if len > irrx_pmax rx then None
        else decode_bits rx False (samples v) code bitCnt vs
      else
        if pulse v then
          if len > irrx_dmax rx then None
          else let code = (if len > irrx_dmid rx then code OR push_bit bitCnt 1 else code) in
            if bitCnt + 1 = 32 then Some code else decode_bits rx True (samples v) code (bitCnt + 1) vs
        else decode_bits rx False (len + samples v) code bitCnt vs)"

definition IRRX_NECPacket_DeCode :: "hosc \<Rightarrow> u8 list \<Rightarrow> u32" where
  "IRRX_NECPacket_DeCode clk buf =
     (let rx = irrx_of clk in
      case find_lead1 (irrx_l1_min rx) (drop_bit 1 (active_delay rx)) 0 buf of (len, val, rest) \<Rightarrow>
        if pulse val \<or> len \<le> irrx_l1_min rx then -1
        else case find_lead0 (irrx_l0_min rx) 0 val rest of (len, val, rest) \<Rightarrow>
          if \<not> pulse val \<or> len \<le> irrx_l0_min rx then -1
          else case decode_bits rx True 0 0 0 rest of None \<Rightarrow> -1 | Some code \<Rightarrow> code)"

definition IRRX_NECCode_Valid :: "u32 \<Rightarrow> bool" where
  "IRRX_NECCode_Valid code =
     (let tmp1 = code AND 0x00ff00ff; tmp2 = drop_bit 8 (code AND 0xff00ff00)
      in (tmp1 XOR tmp2) AND 0x00ff0000 = 0x00ff0000)"

section \<open>Encoding\<close>

fun encode_byte :: "u8 \<Rightarrow> u8 \<Rightarrow> nat \<Rightarrow> u8 \<Rightarrow> u8 list" where
  "encode_byte n560 n1680 0 b = []"
| "encode_byte n560 n1680 (Suc k) b =
     (if b AND 1 \<noteq> 0 then [0x80 OR n560, n1680] else [0x80 OR n560, n560]) @ encode_byte n560 n1680 k (drop_bit 1 b)"

definition IRTX_NECPacket_Code :: "hosc \<Rightarrow> u32 \<Rightarrow> u8 list" where
  "IRTX_NECPacket_Code clk ir_tx_code =
     (case irtx_of clk of (start, n560, n1680) \<Rightarrow>
        start
        @ encode_byte n560 n1680 8 (ucast (drop_bit 24 ir_tx_code)) @ encode_byte n560 n1680 8 (ucast (drop_bit 16 ir_tx_code))
        @ encode_byte n560 n1680 8 (ucast (drop_bit 8 ir_tx_code)) @ encode_byte n560 n1680 8 (ucast (ir_tx_code AND 0xff))
        @ [0x80 OR n560, n560, 0x7f, 0x7f, 0x7f, 0x7f])"

definition IR_NEC_CODE :: "u8 \<Rightarrow> u8 \<Rightarrow> u32" where
  "IR_NEC_CODE add key =
     (push_bit 24 (ucast add) OR (push_bit 16 (NOT (ucast add)) AND 0x00ff0000))
      OR (push_bit 8 (ucast key) OR (NOT (ucast key) AND 0x00ff))"

section \<open>What is sent is what is received\<close>

text \<open>The bits as they are sent, and the bytes of a word in the opposite order.\<close>

definition chunk :: "u8 \<Rightarrow> u8 \<Rightarrow> bool \<Rightarrow> u8 list" where
  "chunk n560 n1680 b = [0x80 OR n560, if b then n1680 else n560]"

definition sent_bits :: "u32 \<Rightarrow> bool list" where
  "sent_bits code = map (\<lambda>n. bit code (24 - 8 * (n div 8) + n mod 8)) [0..<32]"

definition swap_bytes :: "u32 \<Rightarrow> u32" where
  "swap_bytes w = push_bit 24 w OR (push_bit 8 w AND 0x00ff0000) OR (drop_bit 8 w AND 0x0000ff00) OR drop_bit 24 w"

fun code_of :: "nat \<Rightarrow> bool list \<Rightarrow> u32" where
  "code_of k [] = 0"
| "code_of k (b # bs) = (if b then push_bit k 1 else 0) OR code_of (Suc k) bs"

lemma encode_byte_bits:
  "encode_byte n560 n1680 k b = concat (map (chunk n560 n1680) (map (bit b) [0..<k]))"
proof (induction k arbitrary: b)
  case (Suc k)
  have "[0..<Suc k] = 0 # map Suc [0..<k]" by (metis map_Suc_upt upt_conv_Cons zero_less_Suc)
  moreover have "bit b \<circ> Suc = bit (drop_bit 1 b)" by (auto simp: fun_eq_iff bit_simps)
  moreover have "b AND 1 \<noteq> 0 \<longleftrightarrow> bit b 0" by (simp add: and_one_eq bit_0 odd_iff_mod_2_eq_one)
  ultimately show ?case using Suc.IH[of "drop_bit 1 b"] by (simp add: chunk_def)
qed simp

text \<open>Constants that tell the bits apart.\<close>

definition nec_ok :: "irrx \<Rightarrow> u8 \<Rightarrow> u8 \<Rightarrow> bool" where
  "nec_ok rx n560 n1680 \<longleftrightarrow> pulse (0x80 OR n560) \<and> \<not> pulse n560 \<and> \<not> pulse n1680 \<and> samples (0x80 OR n560) \<le> irrx_pmax rx
     \<and> samples n560 \<le> irrx_dmid rx \<and> samples n560 \<le> irrx_dmax rx \<and> samples n1680 > irrx_dmid rx \<and> samples n1680 \<le> irrx_dmax rx"

lemma decode_bits_code:
  assumes "nec_ok rx n560 n1680" "cnt + 1 + length bs = 32"
  shows "decode_bits rx False (samples (if b then n1680 else n560)) code cnt (concat (map (chunk n560 n1680) bs) @ (0x80 OR n560) # rest)
     = Some (code OR code_of cnt (b # bs))"
  using assms(2)
proof (induction bs arbitrary: b cnt code)
  case Nil
  then show ?case using assms(1) by (auto simp: nec_ok_def Let_def not_less[symmetric])
next
  case (Cons b' bs)
  have "\<not> samples (if b then n1680 else n560) > irrx_dmax rx" "samples (if b then n1680 else n560) > irrx_dmid rx \<longleftrightarrow> b"
    using assms(1) by (auto simp: nec_ok_def not_less)
  moreover have "(if b then code OR push_bit cnt 1 else code) OR code_of (Suc cnt) (b' # bs) = code OR code_of cnt (b # b' # bs)"
    by (auto simp: or.assoc)
  moreover have "\<not> samples (0x80 OR n560) > irrx_pmax rx" "pulse (0x80 OR n560)" "\<not> pulse (if b' then n1680 else n560)" "cnt + 1 \<noteq> 32"
    using assms(1) Cons.prems by (auto simp: nec_ok_def not_less)
  ultimately show ?case
    using Cons.IH[of "Suc cnt" b' "if b then code OR push_bit cnt 1 else code"] Cons.prems
    by (simp add: chunk_def Let_def)
qed

lemma decode_bits_all:
  assumes "nec_ok rx n560 n1680" "length bs = 32"
  shows "decode_bits rx True 0 0 0 (concat (map (chunk n560 n1680) bs) @ (0x80 OR n560) # rest) = Some (code_of 0 bs)"
proof -
  obtain b cs where bs: "bs = b # cs" "length cs = 31" using assms(2) by (cases bs) auto
  have "\<not> samples (0x80 OR n560) > irrx_pmax rx" "pulse (0x80 OR n560)" "\<not> pulse (if b then n1680 else n560)"
    using assms(1) by (auto simp: nec_ok_def not_less)
  then show ?thesis using decode_bits_code[OF assms(1), of 0 cs b 0 rest] bs by (simp add: chunk_def)
qed

lemma code_of_bit: "k + length bs \<le> 32 \<Longrightarrow> bit (code_of k bs) n \<longleftrightarrow> k \<le> n \<and> n < k + length bs \<and> bs ! (n - k)"
proof (induction bs arbitrary: k)
  case (Cons b bs)
  have "bit (if b then push_bit k 1 else 0 :: u32) n \<longleftrightarrow> b \<and> n = k"
    using Cons.prems by (auto simp: bit_simps simp del: push_bit_of_1)
  then show ?case using Cons.IH[of "Suc k"] Cons.prems by (auto simp: bit_or_iff nth_Cons' Suc_le_eq)
qed simp

lemma mod_bit: "(n::nat) mod 8 < 8" by simp

lemma swap_bytes_bit:
  assumes "n < 32"
  shows "bit (swap_bytes w) n \<longleftrightarrow> bit w (24 - 8 * (n div 8) + n mod 8)"
proof -
  have "bit (0x00ff0000 :: u32) n \<longleftrightarrow> 16 \<le> n \<and> n < 24" "bit (0x0000ff00 :: u32) n \<longleftrightarrow> 8 \<le> n \<and> n < 16"
  proof -
    have e: "(0x00ff0000 :: u32) = push_bit 16 (mask 8)" "(0x0000ff00 :: u32) = push_bit 8 (mask 8)" by (simp_all add: mask_eq_exp_minus_1)
    show "bit (0x00ff0000 :: u32) n \<longleftrightarrow> 16 \<le> n \<and> n < 24" "bit (0x0000ff00 :: u32) n \<longleftrightarrow> 8 \<le> n \<and> n < 16"
      unfolding e bit_push_bit_iff bit_mask_iff using assms by auto
  qed
  then have b: "bit (swap_bytes w) n \<longleftrightarrow> (24 \<le> n \<and> bit w (n - 24)) \<or> (16 \<le> n \<and> n < 24 \<and> bit w (n - 8))
      \<or> (8 \<le> n \<and> n < 16 \<and> bit w (n + 8)) \<or> bit w (n + 24)"
    using assms by (auto simp: swap_bytes_def bit_simps add.commute simp del: bit_numeral_word_iff)
  have big: "\<not> bit w k" if "32 \<le> k" for k using that by (auto dest: bit_imp_le_length)
  have "n = 8 * (n div 8) + n mod 8 \<and> n mod 8 < 8 \<and> n div 8 < 4" using assms by (simp add: less_mult_imp_div_less)
  then obtain q r where n: "n = 8 * q + r" "r < 8" "q < 4" by blast
  have dm: "n div 8 = q" "n mod 8 = r" using n by simp_all
  from n(3) consider "q = 0" | "q = 1" | "q = 2" | "q = 3" by linarith
  then show ?thesis
    unfolding dm by cases (use b n(1,2) big[of "n + 24"] in \<open>auto simp: add.commute\<close>)
qed

lemma code_of_sent: "code_of 0 (sent_bits c) = swap_bytes c"
  by (rule bit_eqI) (simp add: code_of_bit sent_bits_def swap_bytes_bit)

lemma encode_sent:
  "encode_byte n560 n1680 8 (ucast (drop_bit 24 c)) @ encode_byte n560 n1680 8 (ucast (drop_bit 16 c))
     @ encode_byte n560 n1680 8 (ucast (drop_bit 8 c)) @ encode_byte n560 n1680 8 (ucast (c AND 0xff))
   = concat (map (chunk n560 n1680) (sent_bits c))"
proof -
  have low: "bit (c AND 0xff) n \<longleftrightarrow> bit c n" if "n < 8" for n
  proof -
    have e: "(0xff :: u32) = mask 8" by (simp add: mask_eq_exp_minus_1)
    show ?thesis unfolding e bit_and_iff bit_mask_iff using that by auto
  qed
  have up: "[0..<32] = [0..<8] @ map (\<lambda>i. 8 + i) [0..<8] @ map (\<lambda>i. 16 + i) [0..<8] @ map (\<lambda>i. 24 + i) [0..<8]"
    by (simp add: upt_rec)
  have dm: "(8 + x) div 8 = 1" "(16 + x) div 8 = 2" "(24 + x) div 8 = 3" "(8 + x) mod 8 = x" "(16 + x) mod 8 = x" "(24 + x) mod 8 = x"
    if "x < 8" for x :: nat using that by (auto intro: mod_nat_eqI div_nat_eqI)
  have b: "map (bit (ucast (drop_bit 24 c) :: u8)) [0..<8] = map (\<lambda>i. bit c (24 + i)) [0..<8]"
    "map (bit (ucast (drop_bit 16 c) :: u8)) [0..<8] = map (\<lambda>i. bit c (16 + i)) [0..<8]"
    "map (bit (ucast (drop_bit 8 c) :: u8)) [0..<8] = map (\<lambda>i. bit c (8 + i)) [0..<8]"
    "map (bit (ucast (c AND 0xff) :: u8)) [0..<8] = map (\<lambda>i. bit c i) [0..<8]"
    by (auto simp: bit_ucast_iff bit_drop_bit_eq low simp del: bit_and_iff)
  have "sent_bits c = map (\<lambda>i. bit c (24 + i)) [0..<8] @ map (\<lambda>i. bit c (16 + i)) [0..<8] @ map (\<lambda>i. bit c (8 + i)) [0..<8] @ map (bit c) [0..<8]"
    unfolding sent_bits_def up map_append map_map by (simp add: comp_def dm)
  then show ?thesis unfolding encode_byte_bits b by simp
qed

lemma nec_received:
  assumes "clk = HOSC_CLOCK_26M \<or> clk = HOSC_CLOCK_24M"
  shows "IRRX_NECPacket_DeCode clk (IRTX_NECPacket_Code clk c @ noise) = swap_bytes c"
proof -
  have len: "length (sent_bits c) = 32" by (simp add: sent_bits_def)
  obtain start n560 n1680 where tx: "irtx_of clk = (start, n560, n1680)" by (metis prod_cases3)
  let ?body = "concat (map (chunk n560 n1680) (sent_bits c)) @ (0x80 OR n560) # [n560, 0x7f, 0x7f, 0x7f, 0x7f] @ noise"
  have buf: "IRTX_NECPacket_Code clk c @ noise = start @ ?body"
    unfolding IRTX_NECPacket_Code_def tx prod.case encode_sent[symmetric] by simp
  obtain b bs where sb: "sent_bits c = b # bs" using len by (cases "sent_bits c") auto
  obtain r where r: "?body = (0x80 OR n560) # r" by (simp add: sb chunk_def)
  have dec: "decode_bits (irrx_of clk) True 0 0 0 ((0x80 OR n560) # r) = Some (swap_bytes c)"
    unfolding r[symmetric]
    by (subst decode_bits_all[OF _ len]) (use assms tx in \<open>auto simp: nec_ok_def irrx_of_def irtx_of_def pulse_def samples_def code_of_sent\<close>)
  show ?thesis
    using assms tx dec unfolding IRRX_NECPacket_DeCode_def buf r
    by (auto simp: irrx_of_def irtx_of_def pulse_def samples_def Let_def simp del: decode_bits.simps)
qed

lemma IR_NEC_CODE_bit:
  assumes "n < 32"
  shows "bit (IR_NEC_CODE add key) n \<longleftrightarrow> (if n < 8 then \<not> bit key n else if n < 16 then bit key (n - 8)
     else if n < 24 then \<not> bit add (n - 16) else bit add (n - 24))"
proof -
  have e: "(0x00ff0000 :: u32) = push_bit 16 (mask 8)" "(0x00ff :: u32) = mask 8" by (simp_all add: mask_eq_exp_minus_1)
  have big: "\<not> bit b k" if "8 \<le> k" for b :: u8 and k using that by (auto dest: bit_imp_le_length)
  have "bit (IR_NEC_CODE add key) n \<longleftrightarrow> (24 \<le> n \<and> bit add (n - 24)) \<or> (16 \<le> n \<and> n < 24 \<and> \<not> bit add (n - 16))
      \<or> (8 \<le> n \<and> bit key (n - 8)) \<or> (n < 8 \<and> \<not> bit key n)"
    using assms unfolding IR_NEC_CODE_def e bit_or_iff bit_and_iff bit_push_bit_iff bit_mask_iff bit_not_iff bit_ucast_iff
    by (auto simp: possible_bit_word)
  then show ?thesis using big[of "n - 8" key] by auto
qed

text \<open>The code of an address and a key is received as a valid one, with the address in the lowest byte and the key in
  the third.\<close>

lemma nec_code_valid:
  assumes "clk = HOSC_CLOCK_26M \<or> clk = HOSC_CLOCK_24M" "c = IRRX_NECPacket_DeCode clk (IRTX_NECPacket_Code clk (IR_NEC_CODE add key) @ noise)"
  shows "ucast c = add" "ucast (drop_bit 16 c) = key" "IRRX_NECCode_Valid c"
proof -
  have c: "c = swap_bytes (IR_NEC_CODE add key)"
    unfolding assms(2) using nec_received[OF assms(1)] by simp
  have bit: "bit c n \<longleftrightarrow> (if n < 8 then bit add n else if n < 16 then \<not> bit add (n - 8) else if n < 24 then bit key (n - 16) else \<not> bit key (n - 24))"
    if "n < 32" for n
  proof -
    have "n = 8 * (n div 8) + n mod 8 \<and> n mod 8 < 8 \<and> n div 8 < 4" using that by (simp add: less_mult_imp_div_less)
    then obtain q r where n: "n = 8 * q + r" "r < 8" "q < 4" by blast
    have dm: "n div 8 = q" "n mod 8 = r" using n by simp_all
    from n(3) consider "q = 0" | "q = 1" | "q = 2" | "q = 3" by linarith
    then show ?thesis
      unfolding c swap_bytes_bit[OF that] dm by cases (use n(1,2) in \<open>simp_all add: IR_NEC_CODE_bit\<close>)
  qed
  have big: "\<not> bit b k" if "8 \<le> k" for b :: u8 and k using that by (auto dest: bit_imp_le_length)
  show "ucast c = add" "ucast (drop_bit 16 c) = key"
    by (rule bit_eqI; simp add: bit_ucast_iff bit_drop_bit_eq bit)+
  have e: "(0x00ff00ff :: u32) = push_bit 16 (mask 8) OR mask 8" "(0xff00ff00 :: u32) = push_bit 24 (mask 8) OR push_bit 8 (mask 8)"
    "(0x00ff0000 :: u32) = push_bit 16 (mask 8)"
    by (simp_all add: mask_eq_exp_minus_1)
  show "IRRX_NECCode_Valid c"
    unfolding IRRX_NECCode_Valid_def Let_def e
    by (rule bit_eqI; auto simp: bit_or_iff bit_and_iff bit_xor_iff bit_push_bit_iff bit_mask_iff bit_drop_bit_eq bit)
qed

section \<open>Claims\<close>

text \<open>What \<open>IRTX_NECPacket_Code\<close> sends for a code, \<open>IRRX_NECPacket_DeCode\<close> receives, at either clock and whatever
  samples follow, as the code with its four bytes in the opposite order; so the code of an address and a key is received
  as a valid one, with the address in the lowest byte and the key in the third.\<close>

theorem nec_send_receive:
  assumes "clk = HOSC_CLOCK_26M \<or> clk = HOSC_CLOCK_24M"
  shows "IRRX_NECPacket_DeCode clk (IRTX_NECPacket_Code clk c @ noise) = swap_bytes c
    \<and> (c = IR_NEC_CODE add key \<longrightarrow>
        (let r = IRRX_NECPacket_DeCode clk (IRTX_NECPacket_Code clk c @ noise)
         in ucast r = add \<and> ucast (drop_bit 16 r) = key \<and> IRRX_NECCode_Valid r))"
  using nec_received[OF assms] nec_code_valid[OF assms] by (auto simp: Let_def)

theorem nec_send_receive_witness:
  "IRRX_NECPacket_DeCode HOSC_CLOCK_24M (IRTX_NECPacket_Code HOSC_CLOCK_24M (IR_NEC_CODE 0x59 0x16) @ [0x85, 3])
     = swap_bytes (IR_NEC_CODE 0x59 0x16)
   \<and> IRRX_NECCode_Valid (swap_bytes (IR_NEC_CODE 0x59 0x16))"
  using nec_send_receive[of HOSC_CLOCK_24M "IR_NEC_CODE 0x59 0x16" "[0x85, 3]" "0x59" "0x16"] by (auto simp: Let_def)

end
