(* ===== verification/Spec2Isabelle.thy ===== *)
theory Spec2Isabelle
  imports Prelude SerialPort AtQueue TuyaMcu MqttPacket MqttPublish MqttSubscribe MqttConnect
    MqttPlatform MqttClient DemoStartup
    AtParameter AtSystem AtConfig AtSocket AtCommand AtSafety
    FlashChip HalFlash Fdcm Image Ota Bootloader Update
    Efuse EfpgField EfpgFrame Publisher SysCtrl SmartConfig IrNec
begin

text \<open>
  A model of the firmware FavTuyaXR3: a demo application (\<^verbatim>\<open>project/at_demo\<close>) that joins a Tuya
  microcontroller on a UART to an MQTT broker, over the XRADIO software development kit (\<^verbatim>\<open>src\<close> and
  \<^verbatim>\<open>include\<close>).  Paths in the theories are those under the root of the repository.

  \<^bold>\<open>The parts and how they interact.\<close>  The UART interrupt of \<^verbatim>\<open>serial.c\<close> fills a ring of chunks that the
  application loop of \<^verbatim>\<open>main.c\<close> and the AT command layer (\<^verbatim>\<open>src/atcmd\<close>) read.  The loop scans the bytes
  for frames of the microcontroller and publishes what they report with the MQTT client
  (\<^verbatim>\<open>src/net/mqtt\<close>), whose sockets are those of the TCP/IP stack.  Firmware images lie in a serial flash:
  the chip drivers and the flash device (\<^verbatim>\<open>src/driver/chip\<close>) serve the image module (\<^verbatim>\<open>src/image\<close>), the
  update (\<^verbatim>\<open>src/ota\<close>) writes a new image beside the running one, and the boot loader
  (\<^verbatim>\<open>project/bootloader\<close>) starts the one that is selected.  Factory data (MAC address, crystal trim, hash of
  the boot key) lie in the eFuse, written by a programming protocol (\<^verbatim>\<open>src/efpg\<close>).  The framework of the
  examples (\<^verbatim>\<open>project/common/framework/sys_ctrl\<close>) distributes events: senders put messages on a queue, a looper takes
  them off and a publisher triggers the observers attached.  Smart configuration (\<^verbatim>\<open>src/smartlink/smartconfig\<close>) collects
  the credentials of an access point from overheard frames, and \<^verbatim>\<open>src/driver/chip/ir_nec.c\<close> codes and decodes the
  packets of infrared remote controls.

  \<^bold>\<open>Theories.\<close>
  \<^item> \<open>Prelude\<close>: machine types, bounds-checked C arrays, little-endian words, the collections of hints.
  \<^item> \<open>SerialPort\<close> (\<^verbatim>\<open>project/at_demo/serial.c\<close> with the semaphores and the UART driver it calls): the ring
    as a record, interrupt and reader as operations, \<open>serial_step\<close> their interleavings; the invariant of the
    reachable states, and reading in order under every interleaving.
  \<^item> \<open>AtQueue\<close> (\<^verbatim>\<open>at_queue.c\<close>): the byte queue, as a refinement of a stream of bytes (\<open>byte_source\<close>).
  \<^item> \<open>TuyaMcu\<close>, \<open>DemoStartup\<close> (\<^verbatim>\<open>project/at_demo/main.c\<close>): the frame scanner and the application loop, and
    the start-up of the client.
  \<^item> \<open>MqttPacket\<close>, \<open>MqttPublish\<close>, \<open>MqttSubscribe\<close>, \<open>MqttConnect\<close> (\<^verbatim>\<open>MQTTPacket/*.c\<close>): serialising and
    deserialising each packet; round trips, and the safety of deserialisers on hostile bytes.
  \<^item> \<open>MqttPlatform\<close>, \<open>MqttClient\<close> (\<^verbatim>\<open>MQTTXrRTOS.c\<close>, \<^verbatim>\<open>MQTTClient.c\<close>): timers and sockets, and the client's
    cycle, handshake, publishing and topic matching, over a network given by functions.
  \<^item> \<open>AtParameter\<close>, \<open>AtSystem\<close>, \<open>AtConfig\<close>, \<open>AtSocket\<close>, \<open>AtCommand\<close> (\<^verbatim>\<open>src/atcmd/at_*.c\<close>): parameters,
    state and output, variables, sockets and data mode, and the interpreter; \<open>AtSafety\<close>: which command lines it
    serves without leaving an array, with the configuration well formed afterwards, and the two settings for which
    it does not.
  \<^item> \<open>FlashChip\<close>, \<open>HalFlash\<close> (\<^verbatim>\<open>flashchip/*.c\<close>, \<^verbatim>\<open>hal_flash.c\<close>): the instructions of a NOR chip and the
    device operations; the locale \<open>nor_flash\<close> states what a chip does, and the device is shown to read, write
    and overwrite accordingly.
  \<^item> \<open>Fdcm\<close>, \<open>Image\<close>, \<open>Ota\<close>, \<open>Bootloader\<close>, \<open>Update\<close> (\<^verbatim>\<open>src/image/*.c\<close>, \<^verbatim>\<open>src/ota/*.c\<close>,
    \<^verbatim>\<open>project/bootloader/main.c\<close>): the log of a small record, the chain of sections, the download and its
    verification, the start of an application, and their composition: an update that is fetched and verified
    is what the next start runs.
  \<^item> \<open>Efuse\<close>, \<open>EfpgField\<close> (\<^verbatim>\<open>hal_efuse.c\<close>, \<^verbatim>\<open>src/efpg/efpg_efuse.c\<close>): windows of one-time programmable
    bits, and fields with redundancy against broken fuses; \<open>EfpgFrame\<close> (\<^verbatim>\<open>src/efpg/efpg_frame.c\<close>,
    \<^verbatim>\<open>src/efpg/efpg.c\<close>): the frames of the programming protocol, the task as rounds over a link, and that fuses
    change only by someone who has the key.
  \<^item> \<open>ListHead\<close>, \<open>Publisher\<close>, \<open>EventQueue\<close>, \<open>SysCtrl\<close> (\<^verbatim>\<open>include/sys/list.h\<close>, \<^verbatim>\<open>sys_ctrl/*.c\<close>): the linked
    lists over a store of pointers, observers and notification, the two event queues, and the controller as an
    event bus.
  \<^item> \<open>SmartConfig\<close> (\<^verbatim>\<open>smart_config_decode.c\<close>, \<^verbatim>\<open>smart_config_main.c\<close>, \<^verbatim>\<open>smart_config_crc.c\<close>): the decoder as a
    state machine over frames; what was sent is what is handed out, and the packets for which it writes outside
    its buffers.
  \<^item> \<open>IrNec\<close> (\<^verbatim>\<open>ir_nec.c\<close>): coding and decoding of NEC packets, inverse to each other.

  \<^bold>\<open>Conventions.\<close>  A C function is a HOL function of the same name from the state to its result and the new
  state.  Words keep their width and wrap around.  \<open>None\<close> stands for undefined behaviour (an access outside an
  array) and, in a \<open>partial_function (option)\<close>, for a loop that does not end; a property that says the code
  returns proves the result is \<open>Some\<close>.  Code that is not in the repository or that touches hardware is a
  parameter: a record of functions over an environment (the sockets, the flash bus, the HTTP client, the xz
  decoder, the file system, the digest engines, the eFuse registers), and what is relied on stands in a locale
  (\<open>byte_source\<close>, \<open>stream_network\<close>, \<open>nor_flash\<close>, \<open>ota_feed\<close>, \<open>ota_update\<close>, \<open>file_reads\<close>, \<open>fuse_array\<close>, \<open>digest_link\<close>,
  \<open>efpg_link\<close>, \<open>fifo_queue\<close>; \<open>variable_table\<close> is the contract of the tables of AT variables), each with an
  interpretation.  The one loop with fuel is \<open>boot_loop\<close>: the code tries each of the two
  slots at most once, so two rounds are enough.  Where a property speaks of a number of rounds of an endless loop
  (\<open>at_parse_rounds\<close>, \<open>efpg_rounds\<close>), it holds for every number or proves that there is one.

  \<^bold>\<open>Not modelled.\<close>  Register access, clocks, interrupts and power management of the chip drivers; the kernel
  and its wrappers but the semaphores; third-party libraries (TCP/IP stack, TLS, FAT, xz, cJSON, audio
  players); the Wi-Fi library, of which only the interface is in the repository; airkiss, voice print and the acknowledgement of smart configuration;
  the network, file-system and audio observers of the framework; the console and the debug printers; allocation failure where the code does not test for it.
\<close>

end
